(* ===== verification/Prelude.thy ===== *)
theory Prelude
  imports Main "HOL-Library.Word"
begin

text \<open>
  Shared vocabulary of the development: the integer types of
  Common/etc/PrimitiveTypes.h and the enums of Common/etc/EnumTypes.h, the
  constants of Common/etc/CoreConstants.h, the signed distance between two packet
  sequences that every component of the protocol computes, the behaviour of
  \<open>std::vector::resize\<close>, and a locale for invariants of machines that run a
  list of operations.
\<close>

unbundle bit_operations_syntax

section \<open>Integer types and constants of the code\<close>

type_synonym byte = "8 word"
type_synonym ushort = "16 word"
type_synonym PortType = "16 word"
type_synonym SessionIdType = "16 word"
type_synonym ThreadIdType = "8 word"
type_synonym PacketSequence = "64 word"
type_synonym PacketRetransmissionCount = "16 word"
type_synonym PacketId = "32 word"

definition INVALID_PORT_NUMBER :: PortType where
  "INVALID_PORT_NUMBER = - 1"

definition INVALID_SESSION_ID :: SessionIdType where
  "INVALID_SESSION_ID = - 1"

definition LOGIN_PACKET_SEQUENCE :: PacketSequence where
  "LOGIN_PACKET_SEQUENCE = 0"

abbreviation (input) MAX_SEND_BUFFER_SIZE :: nat where
  "MAX_SEND_BUFFER_SIZE \<equiv> 32768"

abbreviation (input) RECV_BUFFER_SIZE :: nat where
  "RECV_BUFFER_SIZE \<equiv> 16384"

abbreviation (input) RECV_OUTSTANDING_COUNT :: nat where
  "RECV_OUTSTANDING_COUNT \<equiv> 8"

section \<open>Enumerations\<close>

datatype RIO_OPERATION_TYPE = OP_ERROR | OP_RECV | OP_SEND

datatype PACKET_TYPE =
    INVALID_TYPE | CONNECT_TYPE | DISCONNECT_TYPE | SEND_TYPE
  | SEND_REPLY_TYPE | HEARTBEAT_TYPE | HEARTBEAT_REPLY_TYPE

datatype CONNECT_RESULT_CODE =
    SUCCESS | SERVER_FULL | ALREADY_CONNECTED_SESSION | CREATE_SOCKET_FAILED
  | RIO_INIT_FAILED | DO_RECV_FAILED | SESSION_KEY_GENERATION_FAILED

datatype PACKET_DIRECTION =
    CLIENT_TO_SERVER | CLIENT_TO_SERVER_REPLY | SERVER_TO_CLIENT
  | SERVER_TO_CLIENT_REPLY | DIRECTION_INVALID

datatype SESSION_STATE = DISCONNECTED | RESERVED | CONNECTED | RELEASING

datatype DISCONNECT_REASON =
    NORMAL | BY_ABORT_RESERVED | BY_RETRANSMISSION | BY_ERROR | NOT_DISCONNECTED

text \<open>The byte an enumerator has on the wire, and the enumerators a byte read from
  the wire can be: every other byte takes the \<open>default\<close> branch of a switch.\<close>

fun PACKET_TYPE_byte :: "PACKET_TYPE \<Rightarrow> byte" where
  "PACKET_TYPE_byte INVALID_TYPE = 0"
| "PACKET_TYPE_byte CONNECT_TYPE = 1"
| "PACKET_TYPE_byte DISCONNECT_TYPE = 2"
| "PACKET_TYPE_byte SEND_TYPE = 3"
| "PACKET_TYPE_byte SEND_REPLY_TYPE = 4"
| "PACKET_TYPE_byte HEARTBEAT_TYPE = 5"
| "PACKET_TYPE_byte HEARTBEAT_REPLY_TYPE = 6"

definition PACKET_TYPE_of :: "byte \<Rightarrow> PACKET_TYPE option" where
  "PACKET_TYPE_of b =
     (if b = 0 then Some INVALID_TYPE else if b = 1 then Some CONNECT_TYPE
      else if b = 2 then Some DISCONNECT_TYPE else if b = 3 then Some SEND_TYPE
      else if b = 4 then Some SEND_REPLY_TYPE else if b = 5 then Some HEARTBEAT_TYPE
      else if b = 6 then Some HEARTBEAT_REPLY_TYPE else None)"

fun CONNECT_RESULT_CODE_byte :: "CONNECT_RESULT_CODE \<Rightarrow> byte" where
  "CONNECT_RESULT_CODE_byte SUCCESS = 0"
| "CONNECT_RESULT_CODE_byte SERVER_FULL = 1"
| "CONNECT_RESULT_CODE_byte ALREADY_CONNECTED_SESSION = 2"
| "CONNECT_RESULT_CODE_byte CREATE_SOCKET_FAILED = 3"
| "CONNECT_RESULT_CODE_byte RIO_INIT_FAILED = 4"
| "CONNECT_RESULT_CODE_byte DO_RECV_FAILED = 5"
| "CONNECT_RESULT_CODE_byte SESSION_KEY_GENERATION_FAILED = 6"

fun PACKET_DIRECTION_byte :: "PACKET_DIRECTION \<Rightarrow> byte" where
  "PACKET_DIRECTION_byte CLIENT_TO_SERVER = 0"
| "PACKET_DIRECTION_byte CLIENT_TO_SERVER_REPLY = 1"
| "PACKET_DIRECTION_byte SERVER_TO_CLIENT = 2"
| "PACKET_DIRECTION_byte SERVER_TO_CLIENT_REPLY = 3"
| "PACKET_DIRECTION_byte DIRECTION_INVALID = 255"

lemma PACKET_TYPE_of_byte [simp]: "PACKET_TYPE_of (PACKET_TYPE_byte t) = Some t"
  by (cases t) (simp_all add: PACKET_TYPE_of_def)

lemma PACKET_DIRECTION_byte_inject [simp]:
  "PACKET_DIRECTION_byte d = PACKET_DIRECTION_byte e \<longleftrightarrow> d = e"
  by (cases d; cases e) simp_all

section \<open>The distance between two packet sequences\<close>

text \<open>\<open>static_cast<int64_t>(a - b)\<close>: the subtraction wraps at 64 bits and the result
  is read as a signed number.\<close>

definition SeqDiff :: "PacketSequence \<Rightarrow> PacketSequence \<Rightarrow> int" where
  "SeqDiff a b = sint (a - b)"

lemma SeqDiff_self [simp]: "SeqDiff a a = 0"
  by (simp add: SeqDiff_def)

lemma SeqDiff_bounds: "- (2 ^ 63) \<le> SeqDiff a b" "SeqDiff a b < 2 ^ 63"
  using sint_range_size [of "a - b"] by (simp_all add: SeqDiff_def word_size)

lemma SeqDiff_inverse: "b + word_of_int (SeqDiff a b) = a"
  by (simp add: SeqDiff_def)

lemma SeqDiff_eq_0 [simp]: "SeqDiff a b = 0 \<longleftrightarrow> a = b"
proof
  assume "SeqDiff a b = 0"
  with SeqDiff_inverse [of b a] show "a = b" by simp
qed simp

lemma SeqDiff_add_int:
  assumes "- (2 ^ 63) \<le> k" "k < 2 ^ 63"
  shows "SeqDiff (b + word_of_int k) b = k"
proof -
  have "SeqDiff (b + word_of_int k) b = sint (word_of_int k :: 64 word)"
    by (simp add: SeqDiff_def)
  also have "\<dots> = k"
    using assms by (simp add: sint_sbintrunc' signed_take_bit_int_eq_self)
  finally show ?thesis .
qed

lemma SeqDiff_add_nat [simp]:
  assumes "n < 2 ^ 63"
  shows "SeqDiff (b + of_nat n) b = int n"
  using SeqDiff_add_int [of "int n" b] assms by simp

lemma SeqDiff_shift:
  assumes "- (2 ^ 63) \<le> SeqDiff a b - k" "SeqDiff a b - k < 2 ^ 63"
  shows "SeqDiff a (b + word_of_int k) = SeqDiff a b - k"
proof -
  have "a = (b + word_of_int k) + word_of_int (SeqDiff a b - k)"
    using SeqDiff_inverse [of b a] by (simp add: algebra_simps)
  with SeqDiff_add_int [OF assms, of "b + word_of_int k"] show ?thesis by metis
qed

lemma SeqDiff_Suc_right:
  assumes "SeqDiff a b \<ge> 0"
  shows "SeqDiff a (b + 1) = SeqDiff a b - 1"
  using SeqDiff_shift [of a b 1] SeqDiff_bounds [of a b] assms by simp

lemma SeqDiff_trans:
  assumes "- (2 ^ 63) \<le> SeqDiff a b + SeqDiff b c" "SeqDiff a b + SeqDiff b c < 2 ^ 63"
  shows "SeqDiff a c = SeqDiff a b + SeqDiff b c"
proof -
  have "a = c + word_of_int (SeqDiff a b + SeqDiff b c)"
    using SeqDiff_inverse [of b a] SeqDiff_inverse [of c b] by (simp add: SeqDiff_def)
  with SeqDiff_add_int [OF assms, of c] show ?thesis by metis
qed

lemma SeqDiff_nat: "SeqDiff a b \<ge> 0 \<Longrightarrow> a = b + of_nat (nat (SeqDiff a b))"
  using SeqDiff_inverse [of b a] by (simp add: of_nat_nat)

section \<open>\<open>std::vector\<close>\<close>

text \<open>\<open>v.resize(n, d)\<close>: the first \<open>n\<close> elements stay, missing ones are \<open>d\<close>.\<close>

definition vector_resize :: "nat \<Rightarrow> 'a \<Rightarrow> 'a list \<Rightarrow> 'a list" where
  "vector_resize n d xs = take n xs @ replicate (n - length xs) d"

lemma length_vector_resize [simp]: "length (vector_resize n d xs) = n"
  by (simp add: vector_resize_def)

section \<open>Invariants of machines\<close>

text \<open>A machine applies operations one after the other. Whatever single operations
  preserve holds after every list of them.\<close>

locale preserved =
  fixes step :: "'op \<Rightarrow> 's \<Rightarrow> 's"
    and ok :: "'s \<Rightarrow> bool"
  assumes step_ok: "ok s \<Longrightarrow> ok (step op s)"
begin

lemma run_ok: "ok s \<Longrightarrow> ok (fold step ops s)"
  by (induction ops arbitrary: s) (simp_all add: step_ok)

end

section \<open>Words\<close>

lemma unat_byte_bound: "unat (b::byte) < 256"
  using unsigned_less [of b] by simp

lemma unat_ushort_bound: "unat (u::ushort) < 65536"
  using unsigned_less [of u] by simp

lemma unat_u32_bound: "unat (u::32 word) < 2 ^ 32"
  using unsigned_less [of u] by simp

lemma unat_seq_bound: "unat (s::PacketSequence) < 2 ^ 64"
  using unsigned_less [of s] by simp

lemma int_less_uint [simp]: "int k < uint w \<longleftrightarrow> k < unat w"
  by (metis of_nat_less_iff uint_nat)

lemma int_le_uint [simp]: "int k \<le> uint w \<longleftrightarrow> k \<le> unat w"
  by (metis of_nat_le_iff uint_nat)

lemma uint_pos_iff: "0 < uint w \<longleftrightarrow> 1 \<le> unat w"
  using int_less_uint [of 0 w] by (simp add: Suc_le_eq)

section \<open>Lists updated by index\<close>

lemma map_nth_upt_shift: "map (\<lambda>i. f (i + k)) [0..<n] = map f [k..<n + k]"
proof -
  have "[k..<n + k] = map (\<lambda>i. i + k) [0..<n]"
    by (simp add: map_add_upt)
  then show ?thesis by (simp add: comp_def)
qed

lemma mod_add_less_eq_iff:
  assumes "i < n" "j < n" "(n::nat) > 0"
  shows "(h + i) mod n = (h + j) mod n \<longleftrightarrow> i = j"
proof
  assume eq: "(h + i) mod n = (h + j) mod n"
  have "(int h + int i) mod int n = (int h + int j) mod int n"
    using arg_cong [OF eq, of int] by (simp add: of_nat_mod)
  then have "int i mod int n = int j mod int n"
    by (metis add_diff_cancel_left' mod_diff_cong)
  with assms show "i = j" by simp
qed simp

end
