(* ===== verification/Ring_Buffer.thy ===== *)
theory Ring_Buffer
  imports Prelude
begin

text \<open>
  Common/etc/RingBuffer.h: the bounded ring buffer that holds a session's pending
  packets. The buffer refines a bounded FIFO queue: \<open>ring_list\<close> reads the queued
  items, and every operation commutes with the operation on lists. The contract is
  the locale \<open>bounded_fifo\<close>, interpreted here on the model of the code.
\<close>

section \<open>The ring buffer\<close>

record 'a RingBuffer =
  rb_buffer :: "'a list"
  rb_capacity :: ushort
  rb_head :: ushort
  rb_tail :: ushort
  rb_count :: ushort

text \<open>\<open>d\<close> is the value-initialised element that \<open>std::vector\<close> fills with.\<close>

definition RingBuffer_new :: "'a \<Rightarrow> ushort \<Rightarrow> 'a RingBuffer" where
  "RingBuffer_new d inCapacity =
     \<lparr> rb_buffer = replicate (unat inCapacity) d, rb_capacity = inCapacity,
       rb_head = 0, rb_tail = 0, rb_count = 0 \<rparr>"

definition RingBuffer_Resize :: "'a \<Rightarrow> ushort \<Rightarrow> 'a RingBuffer \<Rightarrow> 'a RingBuffer" where
  "RingBuffer_Resize d newCapacity rb =
     rb\<lparr> rb_buffer := vector_resize (unat newCapacity) d (rb_buffer rb),
         rb_capacity := newCapacity, rb_head := 0, rb_tail := 0, rb_count := 0 \<rparr>"

definition RingBuffer_IsEmpty :: "'a RingBuffer \<Rightarrow> bool" where
  "RingBuffer_IsEmpty rb \<longleftrightarrow> rb_count rb = 0"

definition RingBuffer_IsFull :: "'a RingBuffer \<Rightarrow> bool" where
  "RingBuffer_IsFull rb \<longleftrightarrow> rb_count rb = rb_capacity rb"

definition RingBuffer_GetCount :: "'a RingBuffer \<Rightarrow> ushort" where
  "RingBuffer_GetCount rb = rb_count rb"

text \<open>\<open>(i + 1) % capacity\<close> is computed in \<open>int\<close> and narrowed back.\<close>

definition ring_next :: "'a RingBuffer \<Rightarrow> ushort \<Rightarrow> ushort" where
  "ring_next rb i = of_nat ((unat i + 1) mod unat (rb_capacity rb))"

definition RingBuffer_Push :: "'a \<Rightarrow> 'a RingBuffer \<Rightarrow> bool \<times> 'a RingBuffer" where
  "RingBuffer_Push item rb =
     (if RingBuffer_IsFull rb then (False, rb)
      else (True, rb\<lparr> rb_buffer := (rb_buffer rb)[unat (rb_tail rb) := item],
                      rb_tail := ring_next rb (rb_tail rb),
                      rb_count := rb_count rb + 1 \<rparr>))"

definition RingBuffer_Pop :: "'a RingBuffer \<Rightarrow> 'a option \<times> 'a RingBuffer" where
  "RingBuffer_Pop rb =
     (if RingBuffer_IsEmpty rb then (None, rb)
      else (Some (rb_buffer rb ! unat (rb_head rb)),
            rb\<lparr> rb_head := ring_next rb (rb_head rb), rb_count := rb_count rb - 1 \<rparr>))"

definition RingBuffer_Front :: "'a RingBuffer \<Rightarrow> 'a" where
  "RingBuffer_Front rb = rb_buffer rb ! unat (rb_head rb)"

definition RingBuffer_Clear :: "'a RingBuffer \<Rightarrow> 'a RingBuffer" where
  "RingBuffer_Clear rb = rb\<lparr> rb_head := 0, rb_tail := 0, rb_count := 0 \<rparr>"

section \<open>Well-formedness and the queue a buffer holds\<close>

definition ring_wf :: "'a RingBuffer \<Rightarrow> bool" where
  "ring_wf rb \<longleftrightarrow>
     length (rb_buffer rb) = unat (rb_capacity rb) \<and>
     unat (rb_count rb) \<le> unat (rb_capacity rb) \<and>
     (rb_capacity rb \<noteq> 0 \<longrightarrow> unat (rb_head rb) < unat (rb_capacity rb) \<and>
        unat (rb_tail rb) = (unat (rb_head rb) + unat (rb_count rb)) mod unat (rb_capacity rb))"

definition ring_slot :: "'a RingBuffer \<Rightarrow> nat \<Rightarrow> nat" where
  "ring_slot rb i = (unat (rb_head rb) + i) mod unat (rb_capacity rb)"

definition ring_list :: "'a RingBuffer \<Rightarrow> 'a list" where
  "ring_list rb = map (\<lambda>i. rb_buffer rb ! ring_slot rb i) [0..<unat (rb_count rb)]"

lemma length_ring_list [simp]: "length (ring_list rb) = unat (rb_count rb)"
  by (simp add: ring_list_def)

lemma unat_of_nat_mod_ushort:
  assumes "0 < unat (c::ushort)"
  shows "unat (of_nat (n mod unat c) :: ushort) = n mod unat c"
proof -
  have "n mod unat c < unat c" using assms by simp
  also have "\<dots> < 2 ^ 16" using unat_ushort_bound [of c] by simp
  finally show ?thesis by (simp add: unat_of_nat take_bit_nat_eq_self)
qed

lemma ring_not_full:
  assumes "ring_wf rb" "\<not> RingBuffer_IsFull rb"
  shows "unat (rb_count rb) < unat (rb_capacity rb)"
    and "unat (rb_count rb + 1) = unat (rb_count rb) + 1"
proof -
  have "unat (rb_count rb) \<noteq> unat (rb_capacity rb)"
    using assms(2) by (simp add: RingBuffer_IsFull_def word_unat_eq_iff)
  with assms(1) show lt: "unat (rb_count rb) < unat (rb_capacity rb)"
    by (simp add: ring_wf_def)
  then have "unat (rb_count rb) + 1 < 2 ^ 16"
    using unat_ushort_bound [of "rb_capacity rb"] by simp
  then show "unat (rb_count rb + 1) = unat (rb_count rb) + 1"
    by (simp add: unat_word_ariths)
qed

lemma ring_not_empty:
  assumes "\<not> RingBuffer_IsEmpty rb"
  shows "0 < unat (rb_count rb)" and "unat (rb_count rb - 1) = unat (rb_count rb) - 1"
  using assms by (simp_all add: RingBuffer_IsEmpty_def unat_gt_0 unat_minus_one)

lemma ring_new_wf: "ring_wf (RingBuffer_new d c)"
  by (simp add: ring_wf_def RingBuffer_new_def unat_gt_0)

lemma ring_new_list: "ring_list (RingBuffer_new d c) = []"
  by (simp add: ring_list_def RingBuffer_new_def)

lemma ring_resize_wf: "ring_wf (RingBuffer_Resize d c rb)"
  by (simp add: ring_wf_def RingBuffer_Resize_def unat_gt_0)

lemma ring_resize_list: "ring_list (RingBuffer_Resize d c rb) = []"
  by (simp add: ring_list_def RingBuffer_Resize_def)

lemma ring_clear_wf: "ring_wf rb \<Longrightarrow> ring_wf (RingBuffer_Clear rb)"
  by (simp add: ring_wf_def RingBuffer_Clear_def unat_gt_0)

lemma ring_clear_list: "ring_list (RingBuffer_Clear rb) = []"
  by (simp add: ring_list_def RingBuffer_Clear_def)

lemma ring_push_wf:
  assumes "ring_wf rb"
  shows "ring_wf (snd (RingBuffer_Push x rb))"
proof (cases "RingBuffer_IsFull rb")
  case False
  note lt = ring_not_full [OF assms False]
  have "((h + c) mod n + 1) mod n = (h + (c + 1)) mod n" for h c n :: nat
    by (simp add: mod_simps)
  with assms False lt show ?thesis
    by (auto simp: RingBuffer_Push_def ring_wf_def ring_next_def unat_of_nat_mod_ushort)
qed (use assms in \<open>simp add: RingBuffer_Push_def\<close>)

lemma ring_pop_wf:
  assumes "ring_wf rb"
  shows "ring_wf (snd (RingBuffer_Pop rb))"
proof (cases "RingBuffer_IsEmpty rb")
  case False
  note pos = ring_not_empty [OF False]
  have "((h + 1) mod n + (c - 1)) mod n = (h + c) mod n" if "0 < c" for h c n :: nat
  proof -
    have "((h + 1) mod n + (c - 1)) mod n = (h + 1 + (c - 1)) mod n"
      by (rule mod_add_left_eq)
    with that show ?thesis by simp
  qed
  with assms False pos show ?thesis
    by (auto simp: RingBuffer_Pop_def ring_wf_def ring_next_def unat_of_nat_mod_ushort)
qed (use assms in \<open>simp add: RingBuffer_Pop_def\<close>)

lemma ring_push_list:
  assumes "ring_wf rb" "\<not> RingBuffer_IsFull rb"
  shows "ring_list (snd (RingBuffer_Push x rb)) = ring_list rb @ [x]"
proof -
  note lt = ring_not_full [OF assms]
  have tail: "unat (rb_tail rb) = ring_slot rb (unat (rb_count rb))"
    using assms(1) lt by (auto simp: ring_wf_def ring_slot_def)
  have "ring_slot rb i \<noteq> unat (rb_tail rb)" if "i < unat (rb_count rb)" for i
    unfolding tail ring_slot_def using that lt
      mod_add_less_eq_iff [of i "unat (rb_capacity rb)" "unat (rb_count rb)" "unat (rb_head rb)"]
    by simp
  moreover have "unat (rb_tail rb) < length (rb_buffer rb)"
    using assms(1) lt(1) unfolding tail by (simp add: ring_wf_def ring_slot_def)
  ultimately show ?thesis
    using assms(2) lt tail
    by (simp add: ring_list_def RingBuffer_Push_def ring_slot_def nth_list_update)
       (metis (no_types, lifting) atLeastLessThan_iff)
qed

lemma ring_pop_list:
  assumes "ring_wf rb" "\<not> RingBuffer_IsEmpty rb"
  shows "ring_list rb = RingBuffer_Front rb # ring_list (snd (RingBuffer_Pop rb))"
    and "fst (RingBuffer_Pop rb) = Some (RingBuffer_Front rb)"
proof -
  note pos = ring_not_empty [OF assms(2)]
  let ?c = "unat (rb_count rb)" and ?n = "unat (rb_capacity rb)"
  have n: "0 < ?n" using assms(1) pos by (simp add: ring_wf_def)
  have head: "ring_slot rb 0 = unat (rb_head rb)"
    using assms(1) n by (auto simp: ring_wf_def ring_slot_def)
  have slot: "ring_slot (snd (RingBuffer_Pop rb)) i = ring_slot rb (Suc i)" for i
    using assms(2) n
    by (simp add: RingBuffer_Pop_def ring_slot_def ring_next_def unat_of_nat_mod_ushort mod_simps)
  have "ring_list rb = map (\<lambda>i. rb_buffer rb ! ring_slot rb i) (0 # map Suc [0..<?c - 1])"
    using pos by (simp add: ring_list_def map_Suc_upt flip: upt_conv_Cons)
  then show "ring_list rb = RingBuffer_Front rb # ring_list (snd (RingBuffer_Pop rb))"
    using assms(2) pos slot head
    by (simp add: ring_list_def RingBuffer_Front_def RingBuffer_Pop_def comp_def)
  show "fst (RingBuffer_Pop rb) = Some (RingBuffer_Front rb)"
    using assms(2) by (simp add: RingBuffer_Pop_def RingBuffer_Front_def)
qed

section \<open>The contract of a bounded FIFO queue\<close>

datatype 'a queue_op = Push 'a | Pop | Clear

datatype 'a queue_out = Pushed bool | Popped "'a option" | Cleared

text \<open>The reference: a list with a capacity.\<close>

fun list_queue :: "nat \<Rightarrow> 'a queue_op \<Rightarrow> 'a list \<Rightarrow> 'a queue_out \<times> 'a list" where
  "list_queue n (Push x) q = (if length q < n then (Pushed True, q @ [x]) else (Pushed False, q))"
| "list_queue n Pop q = (case q of [] \<Rightarrow> (Popped None, []) | x # r \<Rightarrow> (Popped (Some x), r))"
| "list_queue n Clear q = (Cleared, [])"

fun run_ops :: "('op \<Rightarrow> 's \<Rightarrow> 'out \<times> 's) \<Rightarrow> 'op list \<Rightarrow> 's \<Rightarrow> 'out list \<times> 's" where
  "run_ops f [] s = ([], s)"
| "run_ops f (op # ops) s =
     (let (out, s1) = f op s; (outs, s2) = run_ops f ops s1 in (out # outs, s2))"

locale bounded_fifo =
  fixes push :: "'a \<Rightarrow> 'q \<Rightarrow> bool \<times> 'q"
    and pop :: "'q \<Rightarrow> 'a option \<times> 'q"
    and clear :: "'q \<Rightarrow> 'q"
    and items :: "'q \<Rightarrow> 'a list"
    and cap :: "'q \<Rightarrow> nat"
    and wf :: "'q \<Rightarrow> bool"
  assumes wf_push: "wf q \<Longrightarrow> wf (snd (push x q))"
    and wf_pop: "wf q \<Longrightarrow> wf (snd (pop q))"
    and wf_clear: "wf q \<Longrightarrow> wf (clear q)"
    and cap_push: "cap (snd (push x q)) = cap q"
    and cap_pop: "cap (snd (pop q)) = cap q"
    and cap_clear: "cap (clear q) = cap q"
    and push_ok: "wf q \<Longrightarrow> fst (push x q) \<longleftrightarrow> length (items q) < cap q"
    and push_items: "wf q \<Longrightarrow>
      items (snd (push x q)) = (if length (items q) < cap q then items q @ [x] else items q)"
    and pop_none: "wf q \<Longrightarrow> items q = [] \<Longrightarrow> fst (pop q) = None \<and> items (snd (pop q)) = []"
    and pop_some: "wf q \<Longrightarrow> items q = x # r \<Longrightarrow> fst (pop q) = Some x \<and> items (snd (pop q)) = r"
    and clear_items: "items (clear q) = []"
begin

fun exec :: "'a queue_op \<Rightarrow> 'q \<Rightarrow> 'a queue_out \<times> 'q" where
  "exec (Push x) q = (let (b, q') = push x q in (Pushed b, q'))"
| "exec Pop q = (let (r, q') = pop q in (Popped r, q'))"
| "exec Clear q = (Cleared, clear q)"

lemma exec_refines:
  assumes "wf q"
  shows "wf (snd (exec op q)) \<and> cap (snd (exec op q)) = cap q \<and>
         (fst (exec op q), items (snd (exec op q))) = list_queue (cap q) op (items q)"
proof (cases op)
  case (Push x)
  with assms wf_push [of q x] cap_push [of x q] push_ok [of q x] push_items [of q x]
  show ?thesis by (cases "push x q") (auto split: if_splits)
next
  case Pop
  with assms wf_pop [of q] cap_pop [of q] pop_none [of q] pop_some [of q]
  show ?thesis by (cases "pop q"; cases "items q") auto
qed (use assms in \<open>simp_all add: wf_clear cap_clear clear_items\<close>)

lemma run_refines:
  assumes "wf q"
  shows "(fst (run_ops exec ops q), items (snd (run_ops exec ops q)))
           = run_ops (list_queue (cap q)) ops (items q)"
  using assms
proof (induction ops arbitrary: q)
  case (Cons op ops)
  obtain out q1 where e: "exec op q = (out, q1)" by (cases "exec op q")
  with exec_refines [OF Cons.prems, of op] have "wf q1" "cap q1 = cap q"
    and l: "list_queue (cap q) op (items q) = (out, items q1)" by auto
  with Cons.IH [of q1] e show ?case
    by (simp add: split_beta prod_eq_iff)
qed simp

end

text \<open>One operation of the code's ring buffer.\<close>

fun RingBuffer_exec :: "'a queue_op \<Rightarrow> 'a RingBuffer \<Rightarrow> 'a queue_out \<times> 'a RingBuffer" where
  "RingBuffer_exec (Push x) rb = (let (b, rb') = RingBuffer_Push x rb in (Pushed b, rb'))"
| "RingBuffer_exec Pop rb = (let (r, rb') = RingBuffer_Pop rb in (Popped r, rb'))"
| "RingBuffer_exec Clear rb = (Cleared, RingBuffer_Clear rb)"

abbreviation ring_cap :: "'a RingBuffer \<Rightarrow> nat" where
  "ring_cap rb \<equiv> unat (rb_capacity rb)"

interpretation ring: bounded_fifo RingBuffer_Push RingBuffer_Pop RingBuffer_Clear
  ring_list ring_cap ring_wf
proof unfold_locales
  fix x :: 'a and q :: "'a RingBuffer" and r
  show "ring_wf q \<Longrightarrow> fst (RingBuffer_Push x q) \<longleftrightarrow> length (ring_list q) < ring_cap q"
    using ring_not_full [of q] by (auto simp: RingBuffer_Push_def RingBuffer_IsFull_def)
  show "ring_wf q \<Longrightarrow> ring_list (snd (RingBuffer_Push x q))
      = (if length (ring_list q) < ring_cap q then ring_list q @ [x] else ring_list q)"
    using ring_not_full [of q] ring_push_list [of q x]
    by (auto simp: RingBuffer_Push_def RingBuffer_IsFull_def)
  show "ring_wf q \<Longrightarrow> ring_list q = [] \<Longrightarrow>
      fst (RingBuffer_Pop q) = None \<and> ring_list (snd (RingBuffer_Pop q)) = []"
    using ring_pop_list [of q] by (auto simp: RingBuffer_Pop_def)
  show "ring_wf q \<Longrightarrow> ring_list q = x # r \<Longrightarrow>
      fst (RingBuffer_Pop q) = Some x \<and> ring_list (snd (RingBuffer_Pop q)) = r"
    using ring_pop_list [of q] length_ring_list [of q]
    by (cases "rb_count q = 0") (auto simp: RingBuffer_IsEmpty_def simp del: length_ring_list)
qed (simp_all add: ring_push_wf ring_pop_wf ring_clear_wf ring_clear_list,
     simp_all add: RingBuffer_Push_def RingBuffer_Pop_def RingBuffer_Clear_def)

lemma RingBuffer_exec_ring: "RingBuffer_exec = ring.exec"
proof (intro ext)
  fix op :: "'a queue_op" and rb
  show "RingBuffer_exec op rb = ring.exec op rb" by (cases op) simp_all
qed

text \<open>C33: over any list of Push, Pop and Clear calls on a fresh ring buffer, whatever
  its capacity (0 included), the code's results are those of a bounded FIFO queue:
  Push fails exactly when the capacity is used, Pop returns the items in the order
  they were pushed, and wrap-around of head and tail is never visible.\<close>

theorem ring_buffer_is_bounded_fifo:
  "fst (run_ops RingBuffer_exec ops (RingBuffer_new d c))
     = fst (run_ops (list_queue (unat c)) ops [])"
proof -
  have "ring_cap (RingBuffer_new d c) = unat c" by (simp add: RingBuffer_new_def)
  with ring.run_refines [OF ring_new_wf, of ops d c] show ?thesis
    by (metis RingBuffer_exec_ring fst_conv ring_new_list)
qed

end
