(* ===== verification/Flow_Controller.thy ===== *)
theory Flow_Controller
  imports Prelude
begin

text \<open>
  Common/FlowController/RUDPFlowController: the congestion window of the sender.
  The window stays between 1 and \<open>MAX_CWND\<close> whatever happens, halves on a timeout or
  on a jump of the acknowledged sequence, and grows by one per reply that advances.
  The counter of duplicates that only the debug build keeps is not modelled.
\<close>

section \<open>State and operations\<close>

record FlowController =
  cwnd :: byte
  lastReplySequence :: PacketSequence
  inRecovery :: bool

abbreviation (input) INITIAL_CWND :: byte where "INITIAL_CWND \<equiv> 4"
abbreviation (input) MAX_CWND :: byte where "MAX_CWND \<equiv> 250"
abbreviation (input) GAP_THRESHOLD :: int where "GAP_THRESHOLD \<equiv> 5"

definition FlowController_new :: FlowController where
  "FlowController_new = \<lparr> cwnd = INITIAL_CWND, lastReplySequence = 0, inRecovery = False \<rparr>"

definition FlowController_CanSendPacket ::
    "PacketSequence \<Rightarrow> PacketSequence \<Rightarrow> FlowController \<Rightarrow> bool" where
  "FlowController_CanSendPacket nextSendSequence lastAckedSequence fc =
     (let diff = SeqDiff nextSendSequence lastAckedSequence;
          outstanding = (if diff > 1 then diff - 1 else 0)
      in outstanding < uint (cwnd fc))"

definition FlowController_OnCongestionEvent :: "FlowController \<Rightarrow> FlowController" where
  "FlowController_OnCongestionEvent fc = fc\<lparr> cwnd := max (cwnd fc div 2) 1, inRecovery := True \<rparr>"

definition FlowController_OnTimeout :: "FlowController \<Rightarrow> FlowController" where
  "FlowController_OnTimeout fc = fc\<lparr> cwnd := max (cwnd fc div 2) 1, inRecovery := True \<rparr>"

definition FlowController_OnReplyReceived :: "PacketSequence \<Rightarrow> FlowController \<Rightarrow> FlowController" where
  "FlowController_OnReplyReceived replySequence fc =
     (let diff = SeqDiff replySequence (lastReplySequence fc) in
      if diff \<le> 0 then fc
      else let fc1 = (if diff - 1 \<ge> GAP_THRESHOLD then FlowController_OnCongestionEvent fc else fc);
               fc2 = fc1\<lparr> lastReplySequence := replySequence \<rparr>
           in if \<not> inRecovery fc2 then fc2\<lparr> cwnd := min (cwnd fc2 + 1) MAX_CWND \<rparr>
              else fc2\<lparr> inRecovery := False \<rparr>)"

definition FlowController_Reset :: "FlowController \<Rightarrow> FlowController" where
  "FlowController_Reset fc =
     fc\<lparr> cwnd := INITIAL_CWND, lastReplySequence := 0, inRecovery := False \<rparr>"

definition FlowController_GetCwnd :: "FlowController \<Rightarrow> byte" where
  "FlowController_GetCwnd fc = cwnd fc"

definition FlowController_GetLastAckedSequence :: "FlowController \<Rightarrow> PacketSequence" where
  "FlowController_GetLastAckedSequence fc = lastReplySequence fc"

section \<open>The window stays in its bounds\<close>

definition cwnd_ok :: "FlowController \<Rightarrow> bool" where
  "cwnd_ok fc \<longleftrightarrow> 1 \<le> unat (cwnd fc) \<and> unat (cwnd fc) \<le> 250"

lemma unat_half: "unat ((c::byte) div 2) = unat c div 2"
  by (simp add: unat_div)

lemma unat_max_byte: "unat (max (a::byte) b) = max (unat a) (unat b)"
  by (simp add: max_def word_le_nat_alt)

lemma unat_min_byte: "unat (min (a::byte) b) = min (unat a) (unat b)"
  by (simp add: min_def word_le_nat_alt)

lemma unat_cwnd_halved: "unat (max ((c::byte) div 2) 1) = max (unat c div 2) 1"
  by (simp add: unat_max_byte unat_half)

lemma unat_cwnd_grown:
  assumes "unat (c::byte) \<le> 250"
  shows "unat (min (c + 1) MAX_CWND) = min (unat c + 1) 250"
proof -
  have "unat (c + 1) = unat c + 1" using assms by (simp add: unat_word_ariths)
  then show ?thesis by (simp add: unat_min_byte)
qed

lemma cwnd_ok_new: "cwnd_ok FlowController_new"
  by (simp add: cwnd_ok_def FlowController_new_def)

lemma cwnd_ok_Reset: "cwnd_ok (FlowController_Reset fc)"
  by (simp add: cwnd_ok_def FlowController_Reset_def)

lemma cwnd_ok_OnTimeout: "cwnd_ok fc \<Longrightarrow> cwnd_ok (FlowController_OnTimeout fc)"
  by (auto simp: cwnd_ok_def FlowController_OnTimeout_def unat_cwnd_halved)

lemma cwnd_ok_OnCongestionEvent: "cwnd_ok fc \<Longrightarrow> cwnd_ok (FlowController_OnCongestionEvent fc)"
  by (auto simp: cwnd_ok_def FlowController_OnCongestionEvent_def unat_cwnd_halved)

lemma cwnd_ok_OnReplyReceived: "cwnd_ok fc \<Longrightarrow> cwnd_ok (FlowController_OnReplyReceived r fc)"
  using cwnd_ok_OnCongestionEvent [of fc]
  by (auto simp: cwnd_ok_def FlowController_OnReplyReceived_def Let_def unat_cwnd_grown)

lemmas cwnd_ok_intros = cwnd_ok_Reset cwnd_ok_OnTimeout cwnd_ok_OnCongestionEvent
  cwnd_ok_OnReplyReceived

section \<open>What a reply and a timeout do\<close>

lemma CanSendPacket_iff:
  assumes "cwnd_ok fc"
  shows "FlowController_CanSendPacket n l fc \<longleftrightarrow> SeqDiff n l \<le> int (unat (cwnd fc))"
  using assms uint_pos_iff [of "cwnd fc"]
  by (auto simp: FlowController_CanSendPacket_def cwnd_ok_def Let_def)

lemma OnReplyReceived_stale:
  "SeqDiff r (lastReplySequence fc) \<le> 0 \<Longrightarrow> FlowController_OnReplyReceived r fc = fc"
  by (simp add: FlowController_OnReplyReceived_def)

lemma OnReplyReceived_gap:
  assumes "SeqDiff r (lastReplySequence fc) > GAP_THRESHOLD"
  shows "FlowController_OnReplyReceived r fc
           = \<lparr> cwnd = max (cwnd fc div 2) 1, lastReplySequence = r, inRecovery = False \<rparr>"
  using assms
  by (simp add: FlowController_OnReplyReceived_def FlowController_OnCongestionEvent_def Let_def)

lemma OnReplyReceived_advance:
  assumes "0 < SeqDiff r (lastReplySequence fc)" "SeqDiff r (lastReplySequence fc) \<le> GAP_THRESHOLD"
  shows "FlowController_OnReplyReceived r fc =
    (if inRecovery fc then fc\<lparr> lastReplySequence := r, inRecovery := False \<rparr>
     else fc\<lparr> lastReplySequence := r, cwnd := min (cwnd fc + 1) MAX_CWND \<rparr>)"
  using assms by (simp add: FlowController_OnReplyReceived_def Let_def)

lemma OnReplyReceived_last:
  "lastReplySequence (FlowController_OnReplyReceived r fc)
     = (if SeqDiff r (lastReplySequence fc) > 0 then r else lastReplySequence fc)"
  by (simp add: FlowController_OnReplyReceived_def FlowController_OnCongestionEvent_def Let_def)

text \<open>A reply acts by the distance it advances the acknowledged sequence: not at
  all when it is old or a duplicate (the whole state is unchanged), by one step of growth
  up to 250 when it advances by at most 5 outside recovery, by ending the recovery
  without growth inside it, and by one halving (at least 1 remains) when it advances by
  more than 5. The acknowledged sequence never moves backwards.\<close>

theorem flow_reply_reaction:
  fixes r fc
  assumes "unat (cwnd fc) \<le> 250"
  defines "d \<equiv> SeqDiff r (lastReplySequence fc)"
    and "fc' \<equiv> FlowController_OnReplyReceived r fc"
  shows "if d \<le> 0 then fc' = fc
         else lastReplySequence fc' = r \<and> \<not> inRecovery fc' \<and>
              unat (cwnd fc') = (if d > 5 then max (unat (cwnd fc) div 2) 1
                                 else if inRecovery fc then unat (cwnd fc)
                                 else min (unat (cwnd fc) + 1) 250)"
  using assms(1) unfolding d_def fc'_def
  by (simp_all add: OnReplyReceived_stale OnReplyReceived_last FlowController_OnReplyReceived_def
        FlowController_OnCongestionEvent_def Let_def unat_cwnd_grown unat_cwnd_halved)

theorem flow_reply_reaction_witness:
  "let fc = FlowController_OnReplyReceived 1 FlowController_new
   in unat (cwnd fc) = 5 \<and> FlowController_OnReplyReceived 1 fc = fc \<and>
      unat (cwnd (FlowController_OnReplyReceived 9 fc)) = 2"
proof -
  let ?fc = "\<lparr> cwnd = 5, lastReplySequence = 1, inRecovery = False \<rparr>"
  have fc: "FlowController_OnReplyReceived 1 FlowController_new = ?fc"
    by code_simp
  have "SeqDiff 9 1 = 8" by code_simp
  then have "unat (cwnd (FlowController_OnReplyReceived 9 ?fc)) = 2"
    using flow_reply_reaction [of ?fc 9] by simp
  moreover have "FlowController_OnReplyReceived 1 ?fc = ?fc"
    using flow_reply_reaction [of ?fc 1] by simp
  ultimately show ?thesis unfolding Let_def fc by simp
qed

text \<open>Growth after a loss: the first reply only ends the recovery, each further reply in
  sequence adds one to the window.\<close>

definition replies_in_order :: "nat \<Rightarrow> FlowController \<Rightarrow> FlowController" where
  "replies_in_order k fc =
     fold FlowController_OnReplyReceived
       (map (\<lambda>i. lastReplySequence fc + 1 + of_nat i) [0..<k]) fc"

lemma replies_in_order_0 [simp]: "replies_in_order 0 fc = fc"
  by (simp add: replies_in_order_def)

lemma replies_in_order_last:
  "lastReplySequence (replies_in_order k fc) = lastReplySequence fc + of_nat k"
proof (induction k)
  case (Suc k)
  have "SeqDiff (lastReplySequence fc + 1 + of_nat k) (lastReplySequence fc + of_nat k) = 1"
    by (simp add: SeqDiff_def)
  with Suc show ?case by (simp add: replies_in_order_def OnReplyReceived_last)
qed simp

lemma replies_in_order_Suc:
  "replies_in_order (Suc k) fc =
     FlowController_OnReplyReceived (lastReplySequence (replies_in_order k fc) + 1)
       (replies_in_order k fc)"
  by (simp add: replies_in_order_last) (simp add: replies_in_order_def algebra_simps)

lemma SeqDiff_next [simp]: "SeqDiff (a + 1) a = 1" "SeqDiff (1 + a) a = 1"
  by (simp_all add: SeqDiff_def)

lemma replies_in_order_cwnd:
  assumes "cwnd_ok fc" "inRecovery fc"
  shows "cwnd_ok (replies_in_order (Suc k) fc) \<and> \<not> inRecovery (replies_in_order (Suc k) fc) \<and>
         unat (cwnd (replies_in_order (Suc k) fc)) = min (unat (cwnd fc) + k) 250"
proof (induction k)
  case 0
  show ?case unfolding replies_in_order_Suc
    using assms by (auto simp: OnReplyReceived_advance cwnd_ok_def)
next
  case (Suc k)
  let ?f = "replies_in_order (Suc k) fc"
  have "FlowController_OnReplyReceived (lastReplySequence ?f + 1) ?f
          = ?f\<lparr> lastReplySequence := lastReplySequence ?f + 1, cwnd := min (cwnd ?f + 1) MAX_CWND \<rparr>"
    using Suc by (simp add: OnReplyReceived_advance)
  moreover have "cwnd_ok (FlowController_OnReplyReceived (lastReplySequence ?f + 1) ?f)"
    using Suc by (simp add: cwnd_ok_OnReplyReceived)
  ultimately show ?case
    using Suc unat_cwnd_grown [of "cwnd ?f"] by (simp add: replies_in_order_Suc [of "Suc k"] cwnd_ok_def)
qed

text \<open>After a timeout the window recovers additively: the timeout halves it (to at
  least 1) and \<open>k + 1\<close> replies in sequence bring it to half the old size plus \<open>k\<close>,
  capped at 250; so it reaches the cap again after finitely many replies.\<close>

theorem flow_timeout_then_recovery:
  assumes "cwnd_ok fc"
  shows "unat (cwnd (replies_in_order (Suc k) (FlowController_OnTimeout fc)))
           = min (max (unat (cwnd fc) div 2) 1 + k) 250"
  using replies_in_order_cwnd [of "FlowController_OnTimeout fc" k] cwnd_ok_OnTimeout [OF assms]
  by (simp add: FlowController_OnTimeout_def unat_cwnd_halved)

theorem flow_timeout_then_recovery_witness:
  "unat (cwnd (replies_in_order 9 (FlowController_OnTimeout FlowController_new))) = 10"
  using flow_timeout_then_recovery [OF cwnd_ok_new, of 8]
  by (simp add: FlowController_new_def)

end
