(* ===== verification/Receive_Window.thy ===== *)
theory Receive_Window
  imports Prelude
begin

text \<open>
  Common/FlowController/RUDPReceiveWindow: the window of sequences the receiver
  accepts, a ring of flags. \<open>rw_view\<close> reads the ring as the list of flags from
  \<open>windowStart\<close> on; marking a sequence sets its flag and slides the window over the
  received prefix. The sliding loop runs once per set flag, which is its termination
  measure. \<open>size_t\<close> indices are below 255 and are naturals here. An index past the
  vector, undefined in C++, ends the loop in the model; \<open>rw_wf\<close> excludes it.
\<close>

section \<open>State and operations\<close>

record ReceiveWindow =
  windowStart :: PacketSequence
  windowSize :: byte
  receivedFlags :: "byte list"
  usedCount :: byte
  startIndex :: nat

definition ReceiveWindow_new :: "byte \<Rightarrow> ReceiveWindow" where
  "ReceiveWindow_new recvWindowSize =
     \<lparr> windowStart = 0, windowSize = recvWindowSize,
       receivedFlags = replicate (unat recvWindowSize) 0, usedCount = 0, startIndex = 0 \<rparr>"

definition ReceiveWindow_ResizeRecvWindowSize :: "byte \<Rightarrow> ReceiveWindow \<Rightarrow> ReceiveWindow" where
  "ReceiveWindow_ResizeRecvWindowSize recvWindowSize w =
     w\<lparr> windowSize := recvWindowSize,
        receivedFlags := vector_resize (unat recvWindowSize) 0 (receivedFlags w) \<rparr>"

definition ReceiveWindow_CanReceive :: "PacketSequence \<Rightarrow> ReceiveWindow \<Rightarrow> bool" where
  "ReceiveWindow_CanReceive inSequence w =
     (let diff = SeqDiff inSequence (windowStart w) in diff \<ge> 0 \<and> diff < uint (windowSize w))"

text \<open>The body of the sliding loop, and the loop.\<close>

definition ReceiveWindow_Slide1 :: "ReceiveWindow \<Rightarrow> ReceiveWindow" where
  "ReceiveWindow_Slide1 w =
     w\<lparr> receivedFlags := (receivedFlags w)[startIndex w := 0],
        startIndex := (startIndex w + 1) mod unat (windowSize w),
        windowStart := windowStart w + 1,
        usedCount := usedCount w - 1 \<rparr>"

lemma count_flags_cleared:
  assumes "i < length xs" "xs ! i \<noteq> (0::byte)"
  shows "Suc (length (filter (\<lambda>f. f \<noteq> 0) (xs[i := 0]))) = length (filter (\<lambda>f. f \<noteq> 0) xs)"
proof -
  have "xs = take i xs @ xs ! i # drop (Suc i) xs" using assms(1) by (rule id_take_nth_drop)
  then have "length (filter (\<lambda>f. f \<noteq> 0) xs)
      = length (filter (\<lambda>f. f \<noteq> 0) (take i xs @ xs ! i # drop (Suc i) xs))" by simp
  with assms show ?thesis by (simp add: upd_conv_take_nth_drop)
qed

function ReceiveWindow_Slide :: "ReceiveWindow \<Rightarrow> ReceiveWindow" where
  "ReceiveWindow_Slide w =
     (if startIndex w < length (receivedFlags w) \<and> receivedFlags w ! startIndex w \<noteq> 0
      then ReceiveWindow_Slide (ReceiveWindow_Slide1 w) else w)"
  by pat_completeness auto

termination
  by (relation "measure (\<lambda>w. length (filter (\<lambda>f. f \<noteq> 0) (receivedFlags w)))")
     (use count_flags_cleared in \<open>fastforce simp: ReceiveWindow_Slide1_def less_Suc_eq_le\<close>)+

declare ReceiveWindow_Slide.simps [simp del]

definition ReceiveWindow_MarkReceived :: "PacketSequence \<Rightarrow> ReceiveWindow \<Rightarrow> ReceiveWindow" where
  "ReceiveWindow_MarkReceived inSequence w =
     (if \<not> ReceiveWindow_CanReceive inSequence w then w
      else let offset = SeqDiff inSequence (windowStart w);
               idx = (startIndex w + nat offset) mod unat (windowSize w);
               w1 = (if receivedFlags w ! idx = 0
                     then w\<lparr> receivedFlags := (receivedFlags w)[idx := 1],
                             usedCount := usedCount w + 1 \<rparr>
                     else w)
           in ReceiveWindow_Slide w1)"

definition ReceiveWindow_Reset :: "PacketSequence \<Rightarrow> ReceiveWindow \<Rightarrow> ReceiveWindow" where
  "ReceiveWindow_Reset startSequence w =
     w\<lparr> windowStart := startSequence, startIndex := 0, usedCount := 0,
        receivedFlags := replicate (length (receivedFlags w)) 0 \<rparr>"

definition ReceiveWindow_GetWindowStart :: "ReceiveWindow \<Rightarrow> PacketSequence" where
  "ReceiveWindow_GetWindowStart w = windowStart w"

definition ReceiveWindow_GetWindowEnd :: "ReceiveWindow \<Rightarrow> PacketSequence" where
  "ReceiveWindow_GetWindowEnd w = windowStart w + ucast (windowSize w)"

definition ReceiveWindow_GetAdvertiseWindow :: "ReceiveWindow \<Rightarrow> byte" where
  "ReceiveWindow_GetAdvertiseWindow w = windowSize w - usedCount w"

section \<open>The flags as a list from the window's start\<close>

definition rw_view :: "ReceiveWindow \<Rightarrow> bool list" where
  "rw_view w =
     map (\<lambda>i. receivedFlags w ! ((startIndex w + i) mod unat (windowSize w)) \<noteq> 0)
       [0..<unat (windowSize w)]"

definition rw_wf :: "ReceiveWindow \<Rightarrow> bool" where
  "rw_wf w \<longleftrightarrow>
     length (receivedFlags w) = unat (windowSize w) \<and>
     (windowSize w \<noteq> 0 \<longrightarrow> startIndex w < unat (windowSize w)) \<and>
     unat (usedCount w) = length (filter (\<lambda>b. b) (rw_view w))"

text \<open>The window slides over the received prefix: what is left of the list, and the
  freed places empty at its end.\<close>

definition slide_view :: "bool list \<Rightarrow> bool list" where
  "slide_view v = (let n = length (takeWhile (\<lambda>b. b) v) in drop n v @ replicate n False)"

lemma length_rw_view [simp]: "length (rw_view w) = unat (windowSize w)"
  by (simp add: rw_view_def)

lemma rw_view_nth:
  "i < unat (windowSize w) \<Longrightarrow>
   rw_view w ! i \<longleftrightarrow> receivedFlags w ! ((startIndex w + i) mod unat (windowSize w)) \<noteq> 0"
  by (simp add: rw_view_def)

lemma slide_view_False: "v = [] \<or> \<not> hd v \<Longrightarrow> slide_view v = v"
  by (cases v) (auto simp: slide_view_def)

lemma takeWhile_snoc_False: "takeWhile (\<lambda>b. b) (v @ [False]) = takeWhile (\<lambda>b. b) v"
  by (induction v) simp_all

lemma slide_view_True: "slide_view (True # v) = slide_view (v @ [False])"
proof -
  have "length (takeWhile (\<lambda>b. b) v) \<le> length v" by (rule length_takeWhile_le)
  then show ?thesis
    by (simp add: slide_view_def takeWhile_snoc_False Let_def flip: replicate_app_Cons_same)
qed

lemma filter_slide_view:
  "length (filter (\<lambda>b. b) (slide_view v)) + length (takeWhile (\<lambda>b. b) v) = length (filter (\<lambda>b. b) v)"
proof -
  let ?t = "takeWhile (\<lambda>b. b) v"
  have "v = ?t @ drop (length ?t) v" by (simp flip: dropWhile_eq_drop)
  then have "length (filter (\<lambda>b. b) v) = length (filter (\<lambda>b. b) (?t @ drop (length ?t) v))"
    by simp
  moreover have "filter (\<lambda>b. b) ?t = ?t" by (induction v) auto
  ultimately show ?thesis by (simp add: slide_view_def Let_def)
qed

section \<open>The sliding loop\<close>

lemma rw_view_Slide1:
  assumes "length (receivedFlags w) = unat (windowSize w)" "startIndex w < unat (windowSize w)"
  shows "rw_view (ReceiveWindow_Slide1 w) = tl (rw_view w) @ [False]"
proof (rule nth_equalityI)
  let ?n = "unat (windowSize w)" and ?s = "startIndex w"
  have n: "0 < ?n" using assms(2) by simp
  have len: "length (rw_view (ReceiveWindow_Slide1 w)) = ?n" by (simp add: ReceiveWindow_Slide1_def)
  show "length (rw_view (ReceiveWindow_Slide1 w)) = length (tl (rw_view w) @ [False])"
    using n len by simp
  fix i assume "i < length (rw_view (ReceiveWindow_Slide1 w))"
  with len have i: "i < ?n" by simp
  have idx: "((?s + 1) mod ?n + i) mod ?n = (?s + (i + 1)) mod ?n" by (simp add: mod_simps)
  have eq: "rw_view (ReceiveWindow_Slide1 w) ! i
      \<longleftrightarrow> (receivedFlags w)[?s := 0] ! ((?s + (i + 1)) mod ?n) \<noteq> 0"
    using i idx by (simp add: rw_view_def ReceiveWindow_Slide1_def)
  show "rw_view (ReceiveWindow_Slide1 w) ! i \<longleftrightarrow> (tl (rw_view w) @ [False]) ! i"
  proof (cases "i + 1 < ?n")
    case True
    then have "(?s + (i + 1)) mod ?n \<noteq> ?s"
      using mod_add_less_eq_iff [of "i + 1" ?n 0 ?s] assms(2) by simp
    then show ?thesis
      using True by (simp add: eq nth_append nth_tl rw_view_nth less_diff_conv)
  next
    case False
    then have "i + 1 = ?n" using i by simp
    then have "(?s + (i + 1)) mod ?n = ?s" using assms(2) by simp
    then show ?thesis
      using False i assms by (simp add: eq nth_append less_diff_conv)
  qed
qed

lemma Slide_refines:
  assumes "length (receivedFlags w) = unat (windowSize w)"
    "windowSize w \<noteq> 0 \<longrightarrow> startIndex w < unat (windowSize w)"
  defines "w' \<equiv> ReceiveWindow_Slide w"
    and "n \<equiv> length (takeWhile (\<lambda>b. b) (rw_view w))"
  shows "length (receivedFlags w') = unat (windowSize w') \<and> windowSize w' = windowSize w \<and>
         (windowSize w' \<noteq> 0 \<longrightarrow> startIndex w' < unat (windowSize w')) \<and>
         rw_view w' = slide_view (rw_view w) \<and>
         windowStart w' = windowStart w + of_nat n \<and> usedCount w' = usedCount w - of_nat n"
  using assms(1,2) unfolding w'_def n_def
proof (induction w rule: ReceiveWindow_Slide.induct)
  case (1 w)
  let ?n = "unat (windowSize w)" and ?w1 = "ReceiveWindow_Slide1 w"
  show ?case
  proof (cases "startIndex w < length (receivedFlags w) \<and> receivedFlags w ! startIndex w \<noteq> 0")
    case True
    then have s: "startIndex w < ?n" using 1(2) by simp
    have hd: "rw_view w = True # tl (rw_view w)"
      using True s 1(2) by (cases "rw_view w") (auto simp: rw_view_def upt_conv_Cons)
    have view: "rw_view ?w1 = tl (rw_view w) @ [False]" using rw_view_Slide1 1(2) s by simp
    have pre: "length (receivedFlags ?w1) = unat (windowSize ?w1)"
      "windowSize ?w1 \<noteq> 0 \<longrightarrow> startIndex ?w1 < unat (windowSize ?w1)"
      using 1(2) s by (simp_all add: ReceiveWindow_Slide1_def)
    have "takeWhile (\<lambda>b. b) (rw_view w) = True # takeWhile (\<lambda>b. b) (rw_view ?w1)"
      unfolding view takeWhile_snoc_False by (subst hd) simp
    moreover have "slide_view (rw_view w) = slide_view (rw_view ?w1)"
      unfolding view by (subst hd) (rule slide_view_True)
    moreover have "ReceiveWindow_Slide w = ReceiveWindow_Slide ?w1"
      using True by (simp add: ReceiveWindow_Slide.simps)
    moreover have "windowSize ?w1 = windowSize w" "windowStart ?w1 = windowStart w + 1"
      "usedCount ?w1 = usedCount w - 1" by (simp_all add: ReceiveWindow_Slide1_def)
    ultimately show ?thesis using 1(1) [OF True pre] by auto
  next
    case False
    then have "rw_view w = [] \<or> \<not> hd (rw_view w)"
      using 1(2,3) by (cases "rw_view w") (auto simp: rw_view_def upt_conv_Cons)
    then have "takeWhile (\<lambda>b. b) (rw_view w) = []" by (cases "rw_view w") auto
    moreover have "ReceiveWindow_Slide w = w"
      using False by (subst ReceiveWindow_Slide.simps) auto
    ultimately show ?thesis using 1(2,3) slide_view_False [of "rw_view w"] False
      by (auto simp: slide_view_def)
  qed
qed

section \<open>Marking a sequence\<close>

lemma CanReceive_iff:
  "ReceiveWindow_CanReceive q w \<longleftrightarrow>
     (\<exists>k < unat (windowSize w). q = windowStart w + of_nat k)"
proof
  assume "ReceiveWindow_CanReceive q w"
  then have "0 \<le> SeqDiff q (windowStart w)" "SeqDiff q (windowStart w) < uint (windowSize w)"
    by (simp_all add: ReceiveWindow_CanReceive_def Let_def)
  then show "\<exists>k < unat (windowSize w). q = windowStart w + of_nat k"
    using SeqDiff_nat [of q "windowStart w"] by (intro exI [of _ "nat (SeqDiff q (windowStart w))"])
      (simp add: nat_less_iff)
next
  assume "\<exists>k < unat (windowSize w). q = windowStart w + of_nat k"
  then obtain k where "k < unat (windowSize w)" "q = windowStart w + of_nat k" by blast
  moreover from this have "k < 2 ^ 63" using unat_byte_bound [of "windowSize w"] by simp
  ultimately show "ReceiveWindow_CanReceive q w"
    using SeqDiff_add_nat [of k "windowStart w"]
    by (simp add: ReceiveWindow_CanReceive_def Let_def)
qed

lemma filter_list_update_True:
  "k < length v \<Longrightarrow> length (filter (\<lambda>b. b) (v[k := True]))
     = length (filter (\<lambda>b. b) v) + (if v ! k then 0 else 1)"
proof -
  assume k: "k < length v"
  then have "v = take k v @ v ! k # drop (Suc k) v" by (rule id_take_nth_drop)
  then have "length (filter (\<lambda>b. b) v)
      = length (filter (\<lambda>b. b) (take k v @ v ! k # drop (Suc k) v))" by simp
  with k show ?thesis by (simp add: upd_conv_take_nth_drop)
qed

lemma length_filter_bound: "length (filter P (rw_view w)) \<le> unat (windowSize w)"
  using length_filter_le [of P "rw_view w"] by simp

text \<open>Setting the flag of the sequence at offset \<open>k\<close>, the first half of MarkReceived.\<close>

definition set_flag :: "nat \<Rightarrow> ReceiveWindow \<Rightarrow> ReceiveWindow" where
  "set_flag k w =
     (let idx = (startIndex w + k) mod unat (windowSize w) in
      if receivedFlags w ! idx = 0
      then w\<lparr> receivedFlags := (receivedFlags w)[idx := 1], usedCount := usedCount w + 1 \<rparr>
      else w)"

lemma set_flag_refines:
  assumes "rw_wf w" "k < unat (windowSize w)"
  shows "rw_view (set_flag k w) = (rw_view w)[k := True]"
    and "unat (usedCount (set_flag k w)) = length (filter (\<lambda>b. b) ((rw_view w)[k := True]))"
    and "length (receivedFlags (set_flag k w)) = unat (windowSize w)"
    and "windowSize (set_flag k w) = windowSize w" "windowStart (set_flag k w) = windowStart w"
    and "startIndex (set_flag k w) = startIndex w"
proof -
  let ?n = "unat (windowSize w)" and ?s = "startIndex w"
  have len: "length (receivedFlags w) = ?n" and used: "unat (usedCount w) = length (filter (\<lambda>b. b) (rw_view w))"
    using assms(1) by (simp_all add: rw_wf_def)
  have lt: "(?s + k) mod ?n < ?n" using assms(2) by simp
  show view: "rw_view (set_flag k w) = (rw_view w)[k := True]"
  proof (rule nth_equalityI)
    show "length (rw_view (set_flag k w)) = length ((rw_view w)[k := True])"
      by (simp add: set_flag_def Let_def)
    fix i assume "i < length (rw_view (set_flag k w))"
    then have i: "i < ?n" by (simp add: set_flag_def Let_def split: if_splits)
    show "rw_view (set_flag k w) ! i \<longleftrightarrow> (rw_view w)[k := True] ! i"
      using i assms(2) len lt mod_add_less_eq_iff [of i ?n k ?s]
      by (auto simp: set_flag_def Let_def rw_view_nth nth_list_update split: if_splits)
  qed
  show "unat (usedCount (set_flag k w)) = length (filter (\<lambda>b. b) ((rw_view w)[k := True]))"
  proof (cases "rw_view w ! k")
    case True
    then show ?thesis
      using assms(2) used filter_list_update_True [of k "rw_view w"]
      by (simp add: set_flag_def Let_def rw_view_nth)
  next
    case False
    then have "unat (usedCount w) + 1 \<le> ?n"
      using used filter_list_update_True [of k "rw_view w"] assms(2)
        length_filter_le [of "\<lambda>b. b" "(rw_view w)[k := True]"] by simp
    then have "unat (usedCount w + 1) = unat (usedCount w) + 1"
      using unat_byte_bound [of "windowSize w"] by (simp add: unat_word_ariths)
    with False show ?thesis
      using assms(2) used filter_list_update_True [of k "rw_view w"]
      by (simp add: set_flag_def Let_def rw_view_nth)
  qed
qed (use assms in \<open>simp_all add: set_flag_def Let_def rw_wf_def\<close>)

lemma MarkReceived_set_flag:
  assumes "k < unat (windowSize w)"
  shows "ReceiveWindow_MarkReceived (windowStart w + of_nat k) w = ReceiveWindow_Slide (set_flag k w)"
proof -
  have "k < 2 ^ 63" using assms unat_byte_bound [of "windowSize w"] by simp
  moreover have "ReceiveWindow_CanReceive (windowStart w + of_nat k) w"
    using assms CanReceive_iff by blast
  ultimately show ?thesis by (simp add: ReceiveWindow_MarkReceived_def set_flag_def Let_def)
qed

lemma MarkReceived_outside:
  "\<not> ReceiveWindow_CanReceive q w \<Longrightarrow> ReceiveWindow_MarkReceived q w = w"
  by (simp add: ReceiveWindow_MarkReceived_def)

lemma MarkReceived_refines:
  assumes "rw_wf w" "k < unat (windowSize w)"
  defines "v \<equiv> (rw_view w)[k := True]" and "w' \<equiv> ReceiveWindow_MarkReceived (windowStart w + of_nat k) w"
  shows "rw_wf w'" and "windowSize w' = windowSize w" and "rw_view w' = slide_view v"
    and "windowStart w' = windowStart w + of_nat (length (takeWhile (\<lambda>b. b) v))"
proof -
  let ?w1 = "set_flag k w"
  note f = set_flag_refines [OF assms(1,2)]
  have eq: "w' = ReceiveWindow_Slide ?w1" unfolding w'_def by (rule MarkReceived_set_flag [OF assms(2)])
  have "length (receivedFlags ?w1) = unat (windowSize ?w1)"
    "windowSize ?w1 \<noteq> 0 \<longrightarrow> startIndex ?w1 < unat (windowSize ?w1)"
    using f assms(1) by (simp_all add: rw_wf_def)
  note s = Slide_refines [OF this, folded eq, unfolded f(1,4,5), folded v_def]
  have "length (takeWhile (\<lambda>b. b) v) \<le> length (filter (\<lambda>b. b) v)"
    using filter_slide_view [of v] by simp
  then have "unat (usedCount w') = length (filter (\<lambda>b. b) v) - length (takeWhile (\<lambda>b. b) v)"
    using s f(2) unat_byte_bound [of "usedCount ?w1"]
    unfolding v_def by (simp add: unat_sub_if' unat_of_nat take_bit_nat_eq_self)
  with s filter_slide_view [of v] show "rw_wf w'" by (auto simp: rw_wf_def)
  show "windowSize w' = windowSize w" "rw_view w' = slide_view v"
    "windowStart w' = windowStart w + of_nat (length (takeWhile (\<lambda>b. b) v))"
    using s by simp_all
qed

lemma rw_wf_MarkReceived: "rw_wf w \<Longrightarrow> rw_wf (ReceiveWindow_MarkReceived q w)"
  using MarkReceived_refines(1) MarkReceived_outside CanReceive_iff by metis

lemma MarkReceived_windowSize: "rw_wf w \<Longrightarrow> windowSize (ReceiveWindow_MarkReceived q w) = windowSize w"
  using MarkReceived_refines(2) MarkReceived_outside CanReceive_iff by metis

lemma rw_view_cleared: "receivedFlags w = replicate (unat (windowSize w)) 0 \<Longrightarrow>
    rw_view w = replicate (unat (windowSize w)) False"
  by (rule nth_equalityI) (simp_all add: rw_view_nth)

lemma rw_wf_new: "rw_wf (ReceiveWindow_new n)"
  using rw_view_cleared [of "ReceiveWindow_new n"]
  by (simp add: rw_wf_def ReceiveWindow_new_def unat_gt_0)

lemma rw_wf_Reset: "rw_wf w \<Longrightarrow> rw_wf (ReceiveWindow_Reset s w)"
  using rw_view_cleared [of "ReceiveWindow_Reset s w"]
  by (simp add: rw_wf_def ReceiveWindow_Reset_def unat_gt_0)

text \<open>A resize keeps the window well formed right after a reset, which is how
  \<open>RUDPFlowManager::Initialize\<close> calls it.\<close>

lemma vector_resize_replicate: "vector_resize n d (replicate m d) = replicate n d"
  by (simp add: vector_resize_def min_def flip: replicate_add)

lemma rw_wf_Reset_Resize:
  "rw_wf (ReceiveWindow_ResizeRecvWindowSize n (ReceiveWindow_Reset s w))"
  using rw_view_cleared [of "ReceiveWindow_ResizeRecvWindowSize n (ReceiveWindow_Reset s w)"]
  by (simp add: rw_wf_def ReceiveWindow_ResizeRecvWindowSize_def ReceiveWindow_Reset_def
        vector_resize_replicate unat_gt_0)

text \<open>Marking a sequence the window accepts, at offset \<open>k\<close> from its start, sets
  exactly that flag and then slides the window over the received prefix; the window
  advertised afterwards is the size minus the flags still set, no place before the new
  start is lost, and an accepted sequence is either passed or still flagged.\<close>

theorem receive_window_mark:
  fixes w k
  assumes "rw_wf w" "k < unat (windowSize w)"
  defines "v \<equiv> (rw_view w)[k := True]"
    and "w' \<equiv> ReceiveWindow_MarkReceived (windowStart w + of_nat k) w"
    and "t \<equiv> length (takeWhile (\<lambda>b. b) ((rw_view w)[k := True]))"
  shows "rw_wf w' \<and> rw_view w' = drop t v @ replicate t False \<and>
         windowStart w' = windowStart w + of_nat t \<and>
         unat (ReceiveWindow_GetAdvertiseWindow w')
           = unat (windowSize w) - length (filter (\<lambda>b. b) (drop t v)) \<and>
         (k < t \<or> rw_view w' ! (k - t))"
proof -
  note m = MarkReceived_refines [OF assms(1,2), folded v_def w'_def]
  have t: "t = length (takeWhile (\<lambda>b. b) v)" unfolding t_def v_def ..
  have view: "rw_view w' = drop t v @ replicate t False"
    using m(3) by (simp add: slide_view_def t Let_def)
  then have "filter (\<lambda>b. b) (rw_view w') = filter (\<lambda>b. b) (drop t v)" by simp
  then have "unat (usedCount w') = length (filter (\<lambda>b. b) (drop t v))"
    using m(1) by (simp add: rw_wf_def)
  moreover have "length (filter (\<lambda>b. b) (drop t v)) \<le> unat (windowSize w)"
    using length_filter_le [of "\<lambda>b. b" "drop t v"] by (simp add: v_def)
  ultimately have "unat (windowSize w' - usedCount w')
      = unat (windowSize w) - length (filter (\<lambda>b. b) (drop t v))"
    using m(2) by (simp add: unat_sub word_le_nat_alt)
  moreover have "k < t \<or> rw_view w' ! (k - t)"
    using assms(2) unfolding view
    by (cases "k < t") (simp_all add: v_def nth_append not_less nth_list_update less_diff_conv2)
  ultimately show ?thesis
    using m view t by (simp add: ReceiveWindow_GetAdvertiseWindow_def)
qed

theorem receive_window_mark_witness:
  "windowStart (ReceiveWindow_MarkReceived (0 + of_nat 0) (ReceiveWindow_new 4)) = 1"
proof -
  have view: "rw_view (ReceiveWindow_new 4) = [False, False, False, False]" by code_simp
  have "0 < unat (windowSize (ReceiveWindow_new 4))" "windowStart (ReceiveWindow_new 4) = 0"
    by (simp_all add: ReceiveWindow_new_def)
  with receive_window_mark [of "ReceiveWindow_new 4" 0, OF rw_wf_new]
  show ?thesis unfolding view by simp
qed

section \<open>The window over any arrivals\<close>

text \<open>The reference counts the sequences from the start of the reset on, without end: \<open>R\<close> is the set of the offsets that were
  received, the window starts at the first offset that was not, and a sequence that arrives is received when it is one of the \<open>n\<close>
  offsets from there on.\<close>

definition gap :: "nat set \<Rightarrow> nat" where
  "gap R = (LEAST j. j \<notin> R)"

definition arrive :: "nat \<Rightarrow> PacketSequence \<Rightarrow> PacketSequence \<Rightarrow> nat set \<Rightarrow> nat set" where
  "arrive n s q R = R \<union> {j \<in> {gap R..<gap R + n}. q = s + of_nat j}"

definition rw_tracks :: "PacketSequence \<Rightarrow> nat set \<Rightarrow> ReceiveWindow \<Rightarrow> bool" where
  "rw_tracks s R w \<longleftrightarrow> rw_wf w \<and> R \<subseteq> {..<gap R + unat (windowSize w)} \<and> windowStart w = s + of_nat (gap R) \<and>
     rw_view w = map (\<lambda>i. gap R + i \<in> R) [0..<unat (windowSize w)]"

lemma gap_eqI: "gap R = g" if "{..<g} \<subseteq> R" "g \<notin> R"
  unfolding gap_def using that by (intro Least_equality) (auto simp: not_less [symmetric])

lemma gap_le: "j \<notin> R \<Longrightarrow> gap R \<le> j"
  unfolding gap_def by (rule Least_le)

lemma below_gap: "{..<gap R} \<subseteq> R"
  using gap_le leD by blast

lemma arrive_at:
  assumes "k < n" "n \<le> 2 ^ 63"
  shows "arrive n s (s + of_nat (gap R) + of_nat k) R = insert (gap R + k) R"
proof -
  have "j = gap R + k" if "gap R \<le> j" "j < gap R + n" "s + of_nat (gap R) + of_nat k = s + of_nat j" for j
  proof -
    have "of_nat k = (of_nat (j - gap R) :: PacketSequence)" using that(1,3) by (simp add: of_nat_diff algebra_simps)
    moreover have "k < 2 ^ 64" "j - gap R < 2 ^ 64" using assms that(1,2) by simp_all
    ultimately have "k = j - gap R" by (simp add: of_nat_inverse word_of_nat_eq_iff take_bit_nat_eq_self)
    with that(1) show ?thesis by simp
  qed
  then show ?thesis using assms(1) by (auto simp: arrive_def add.assoc)
qed

lemma arrive_outside:
  "q \<notin> (\<lambda>k. s + of_nat (gap R + k)) ` {..<n} \<Longrightarrow> arrive n s q R = R"
  unfolding arrive_def image_iff Bex_def by (auto dest: less_imp_add_positive simp: le_iff_add)

lemma view_insert:
  "k < n \<Longrightarrow> (map (\<lambda>i. g + i \<in> R) [0..<n])[k := True] = map (\<lambda>i. g + i \<in> insert (g + k) R) [0..<n]"
  by (rule nth_equalityI) (simp_all add: nth_list_update)

text \<open>Sliding over the received prefix moves the gap.\<close>

lemma slide_view_gap:
  fixes g n :: nat and R :: "nat set"
  assumes "{..<g} \<subseteq> R" "R \<subseteq> {..<g + n}"
  defines "v \<equiv> map (\<lambda>i. g + i \<in> R) [0..<n]"
  shows "gap R = g + length (takeWhile (\<lambda>b. b) v)"
    and "slide_view v = map (\<lambda>i. gap R + i \<in> R) [0..<n]"
proof -
  let ?t = "length (takeWhile (\<lambda>b. b) v)"
  have t: "?t \<le> n" using length_takeWhile_le [of "\<lambda>b. b" v] by (simp add: v_def)
  have nth: "v ! i \<longleftrightarrow> g + i \<in> R" if "i < n" for i using that by (simp add: v_def)
  have pre: "g + i \<in> R" if "i < ?t" for i
    using nth_mem [OF that] takeWhile_nth [OF that] nth [of i] that t by (auto dest: set_takeWhileD)
  show gap: "gap R = g + ?t"
  proof (rule gap_eqI)
    show "{..<g + ?t} \<subseteq> R"
      using assms(1) pre by (auto simp: subset_iff) (metis add_less_cancel_left le_add_diff_inverse not_less)
    show "g + ?t \<notin> R"
    proof (cases "?t < n")
      case True
      then show ?thesis using nth_length_takeWhile [of "\<lambda>b. b" v] nth by (simp add: v_def)
    next
      case False
      then show ?thesis using assms(2) by auto
    qed
  qed
  show "slide_view v = map (\<lambda>i. gap R + i \<in> R) [0..<n]"
  proof (rule nth_equalityI)
    show "length (slide_view v) = length (map (\<lambda>i. gap R + i \<in> R) [0..<n])"
      using t by (simp add: slide_view_def v_def Let_def)
    fix i assume "i < length (slide_view v)"
    then have i: "i < n" using t by (simp add: slide_view_def v_def Let_def)
    have v: "length v = n" by (simp add: v_def)
    show "slide_view v ! i = map (\<lambda>i. gap R + i \<in> R) [0..<n] ! i"
      using i t nth [of "?t + i"] assms(2) unfolding gap
      by (auto simp: slide_view_def nth_append Let_def v add.assoc)
  qed
qed

lemma rw_tracks_CanReceive:
  "rw_tracks s R w \<Longrightarrow>
   ReceiveWindow_CanReceive q w \<longleftrightarrow> q \<in> (\<lambda>k. s + of_nat (gap R + k)) ` {..<unat (windowSize w)}"
  by (auto simp: rw_tracks_def CanReceive_iff image_iff add.assoc)

lemma rw_tracks_mark:
  assumes "rw_tracks s R w"
  shows "rw_tracks s (arrive (unat (windowSize w)) s q R) (ReceiveWindow_MarkReceived q w)"
proof (cases "ReceiveWindow_CanReceive q w")
  case False
  then have "arrive (unat (windowSize w)) s q R = R"
    using rw_tracks_CanReceive [OF assms] by (intro arrive_outside) blast
  with False assms show ?thesis by (simp add: MarkReceived_outside)
next
  case True
  let ?n = "unat (windowSize w)"
  from assms have wf: "rw_wf w" and sub: "R \<subseteq> {..<gap R + ?n}" and start: "windowStart w = s + of_nat (gap R)"
    and view: "rw_view w = map (\<lambda>i. gap R + i \<in> R) [0..<?n]" by (simp_all add: rw_tracks_def)
  from True obtain k where k: "k < ?n" and q: "q = windowStart w + of_nat k" unfolding CanReceive_iff by blast
  have "?n \<le> 2 ^ 63" using unat_byte_bound [of "windowSize w"] by simp
  with k have R': "arrive ?n s q R = insert (gap R + k) R" unfolding q start by (rule arrive_at)
  let ?R = "insert (gap R + k) R"
  have "{..<gap R} \<subseteq> ?R" "?R \<subseteq> {..<gap R + ?n}" using below_gap sub k by auto
  note g = slide_view_gap [OF this]
  note m = MarkReceived_refines [OF wf k, folded q, unfolded view view_insert [OF k]]
  have "?R \<subseteq> {..<gap ?R + ?n}" using \<open>?R \<subseteq> {..<gap R + ?n}\<close> g(1) by auto
  then show ?thesis
    using m g start unfolding R' rw_tracks_def by (simp add: add.assoc)
qed

lemma rw_tracks_start: "rw_tracks s {} (ReceiveWindow_Reset s (ReceiveWindow_new n))"
proof -
  let ?w = "ReceiveWindow_Reset s (ReceiveWindow_new n)"
  have "rw_view ?w = replicate (unat n) False"
    using rw_view_cleared [of ?w] by (simp add: ReceiveWindow_Reset_def ReceiveWindow_new_def)
  moreover have "gap {} = 0" by (rule gap_eqI) simp_all
  moreover have "windowSize ?w = n" "windowStart ?w = s"
    by (simp_all add: ReceiveWindow_Reset_def ReceiveWindow_new_def)
  ultimately show ?thesis using rw_wf_Reset [OF rw_wf_new] by (simp add: rw_tracks_def map_replicate_const)
qed

lemma rw_tracks_fold:
  assumes "rw_tracks s R w" "unat (windowSize w) = n"
  shows "rw_tracks s (fold (arrive n s) qs R) (fold ReceiveWindow_MarkReceived qs w) \<and>
         windowSize (fold ReceiveWindow_MarkReceived qs w) = windowSize w"
  using assms
proof (induction qs arbitrary: R w)
  case (Cons q qs)
  have "windowSize (ReceiveWindow_MarkReceived q w) = windowSize w"
    using Cons.prems(1) MarkReceived_windowSize by (simp add: rw_tracks_def)
  with Cons.IH [OF rw_tracks_mark [OF Cons.prems(1), of q]] Cons.prems(2) show ?case by simp
qed simp

lemma rw_tracks_used:
  assumes "rw_tracks s R w"
  shows "unat (usedCount w) = card {j \<in> R. gap R \<le> j}"
proof -
  let ?n = "unat (windowSize w)"
  have "unat (usedCount w) = card {i. i < ?n \<and> gap R + i \<in> R}"
    using assms unfolding rw_tracks_def rw_wf_def by (simp add: length_filter_conv_card cong: conj_cong)
  also have "\<dots> = card ((\<lambda>i. gap R + i) ` {i. i < ?n \<and> gap R + i \<in> R})" by (rule card_image [symmetric]) simp
  also have "(\<lambda>i. gap R + i) ` {i. i < ?n \<and> gap R + i \<in> R} = {j \<in> R. gap R \<le> j}"
    using assms unfolding rw_tracks_def by (auto simp: image_iff le_iff_add subset_iff)
  finally show ?thesis .
qed

lemma rw_tracks_advertise:
  assumes "rw_tracks s R w"
  shows "unat (ReceiveWindow_GetAdvertiseWindow w) = unat (windowSize w) - card {j \<in> R. gap R \<le> j}"
proof -
  have "usedCount w \<le> windowSize w"
    using assms length_filter_bound [of "\<lambda>b. b" w] by (simp add: rw_tracks_def rw_wf_def word_le_nat_alt)
  then show ?thesis
    using rw_tracks_used [OF assms] by (simp add: ReceiveWindow_GetAdvertiseWindow_def unat_sub)
qed

text \<open>A resize while no flag is set and the ring starts inside the new size keeps what the window tracks.\<close>

definition resize_safe :: "byte \<Rightarrow> ReceiveWindow \<Rightarrow> bool" where
  "resize_safe n w \<longleftrightarrow> usedCount w = 0 \<and> (n \<noteq> 0 \<longrightarrow> startIndex w < unat n)"

lemma rw_wf_no_flags:
  assumes "rw_wf w" "usedCount w = 0"
  shows "receivedFlags w = replicate (unat (windowSize w)) 0"
proof (rule nth_equalityI)
  let ?n = "unat (windowSize w)" and ?s = "startIndex w"
  show "length (receivedFlags w) = length (replicate ?n (0::byte))" using assms(1) by (simp add: rw_wf_def)
  fix i assume "i < length (receivedFlags w)"
  then have i: "i < ?n" and s: "?s < ?n" using assms(1) by (auto simp: rw_wf_def unat_gt_0)
  have "filter (\<lambda>b. b) (rw_view w) = []" using assms by (simp add: rw_wf_def)
  then have "\<forall>b \<in> set (rw_view w). \<not> b" unfolding filter_empty_conv .
  then have none: "\<not> rw_view w ! j" if "j < ?n" for j using nth_mem [of j "rw_view w"] that unfolding length_rw_view by blast
  have "(?s + (i + (?n - ?s)) mod ?n) mod ?n = (i + ?n) mod ?n" using s by (simp add: mod_simps)
  then have "receivedFlags w ! i = receivedFlags w ! ((?s + (i + (?n - ?s)) mod ?n) mod ?n)" using i by simp
  also have "\<dots> = 0" using none [of "(i + (?n - ?s)) mod ?n"] i by (simp add: rw_view_nth)
  finally show "receivedFlags w ! i = replicate ?n (0::byte) ! i" using i by simp
qed

lemma rw_tracks_Resize:
  assumes "rw_tracks s R w" "resize_safe n w"
  shows "rw_tracks s R (ReceiveWindow_ResizeRecvWindowSize n w)"
proof -
  let ?w = "ReceiveWindow_ResizeRecvWindowSize n w" and ?m = "unat (windowSize w)"
  have wf: "rw_wf w" and sub: "R \<subseteq> {..<gap R + ?m}"
    and view: "rw_view w = map (\<lambda>i. gap R + i \<in> R) [0..<?m]" using assms(1) by (simp_all add: rw_tracks_def)
  have used: "usedCount w = 0" using assms(2) by (simp add: resize_safe_def)
  then have "filter (\<lambda>b. b) (rw_view w) = []" using wf by (simp add: rw_wf_def)
  then have "gap R + i \<notin> R" if "i < ?m" for i using that by (auto simp: view filter_empty_conv)
  moreover have "j = gap R + (j - gap R) \<and> j - gap R < ?m" if "j \<in> R" "gap R \<le> j" for j
    using that sub by (auto simp: subset_iff)
  ultimately have R: "R \<subseteq> {..<gap R}" by (metis lessThan_iff not_less subsetI)
  have flags: "receivedFlags ?w = replicate (unat n) 0"
    using rw_wf_no_flags [OF wf used] by (simp add: ReceiveWindow_ResizeRecvWindowSize_def vector_resize_replicate)
  have size: "windowSize ?w = n" "usedCount ?w = 0" "startIndex ?w = startIndex w" "windowStart ?w = windowStart w"
    using used by (simp_all add: ReceiveWindow_ResizeRecvWindowSize_def)
  have none: "rw_view ?w = replicate (unat n) False"
    using rw_view_cleared [of ?w] flags size by simp
  moreover have "map (\<lambda>i. gap R + i \<in> R) [0..<unat n] = replicate (unat n) False"
    using R by (intro nth_equalityI) auto
  ultimately show ?thesis
    using assms R flags size by (auto simp: rw_tracks_def rw_wf_def resize_safe_def)
qed

text \<open>A resize of a window in use leaves the index of its start behind: here it is past the shrunk vector, and marking the sequence
  the window waits for reads \<open>receivedFlags[startIndex]\<close> outside of it.\<close>

lemma resize_used_window_indexes_outside:
  "let w = ReceiveWindow_ResizeRecvWindowSize 2
             (fold ReceiveWindow_MarkReceived [0, 1, 2] (ReceiveWindow_new 4))
   in ReceiveWindow_CanReceive 3 w \<and> length (receivedFlags w) \<le> startIndex w \<and> \<not> rw_wf w"
  by code_simp

text \<open>C27: from a window of size \<open>n\<close> reset to \<open>s\<close>, after the sequences of any list were marked in any order (duplicates and
  sequences outside the window included), the window is exactly that of the reference: it starts at the first offset that was not
  received, its flags say which offsets from there on were, it accepts exactly the next \<open>n\<close> sequences, and it advertises \<open>n\<close>
  less the number of offsets it holds.\<close>

theorem receive_window_exact:
  fixes s :: PacketSequence and n :: byte and qs :: "PacketSequence list"
  defines "w \<equiv> fold ReceiveWindow_MarkReceived qs (ReceiveWindow_Reset s (ReceiveWindow_new n))"
    and "R \<equiv> fold (arrive (unat n) s) qs {}"
  shows "windowStart w = s + of_nat (gap R) \<and> rw_view w = map (\<lambda>i. gap R + i \<in> R) [0..<unat n] \<and>
         (ReceiveWindow_CanReceive q w \<longleftrightarrow> q \<in> (\<lambda>k. s + of_nat (gap R + k)) ` {..<unat n}) \<and>
         unat (ReceiveWindow_GetAdvertiseWindow w) = unat n - card {j \<in> R. gap R \<le> j}"
proof -
  have size: "windowSize (ReceiveWindow_Reset s (ReceiveWindow_new n)) = n"
    by (simp add: ReceiveWindow_Reset_def ReceiveWindow_new_def)
  have tr: "rw_tracks s R w" and n: "windowSize w = n"
    using rw_tracks_fold [OF rw_tracks_start [of s n], where n = "unat n" and qs = qs] size by (simp_all add: w_def R_def)
  show ?thesis using tr n rw_tracks_CanReceive [OF tr, of q] rw_tracks_advertise [OF tr] by (simp add: rw_tracks_def)
qed

end
