(* ===== verification/Flow_Manager.thy ===== *)
theory Flow_Manager
  imports Flow_Controller Receive_Window
begin

text \<open>
  Common/FlowController/RUDPFlowManager.h: the pair of a congestion window and a receive
  window that a session owns. Its invariant is that of its parts, kept by every call but a
  resize of a receive window in use; the program only resizes in \<open>Initialize\<close>, after a reset.
\<close>

record FlowManager =
  flowController :: FlowController
  receiveWindow :: ReceiveWindow

definition FlowManager_new :: "byte \<Rightarrow> FlowManager" where
  "FlowManager_new recvWindowSize =
     \<lparr> flowController = FlowController_new, receiveWindow = ReceiveWindow_new recvWindowSize \<rparr>"

definition FlowManager_ResizeRecvWindowSize :: "byte \<Rightarrow> FlowManager \<Rightarrow> FlowManager" where
  "FlowManager_ResizeRecvWindowSize n fm =
     fm\<lparr> receiveWindow := ReceiveWindow_ResizeRecvWindowSize n (receiveWindow fm) \<rparr>"

definition FlowManager_CanSend :: "PacketSequence \<Rightarrow> FlowManager \<Rightarrow> bool" where
  "FlowManager_CanSend nextSend fm =
     FlowController_CanSendPacket nextSend
       (FlowController_GetLastAckedSequence (flowController fm)) (flowController fm)"

definition FlowManager_OnAckReceived :: "PacketSequence \<Rightarrow> FlowManager \<Rightarrow> FlowManager" where
  "FlowManager_OnAckReceived replySeq fm =
     fm\<lparr> flowController := FlowController_OnReplyReceived replySeq (flowController fm) \<rparr>"

definition FlowManager_OnTimeout :: "FlowManager \<Rightarrow> FlowManager" where
  "FlowManager_OnTimeout fm = fm\<lparr> flowController := FlowController_OnTimeout (flowController fm) \<rparr>"

definition FlowManager_CanAccept :: "PacketSequence \<Rightarrow> FlowManager \<Rightarrow> bool" where
  "FlowManager_CanAccept s fm = ReceiveWindow_CanReceive s (receiveWindow fm)"

definition FlowManager_MarkReceived :: "PacketSequence \<Rightarrow> FlowManager \<Rightarrow> FlowManager" where
  "FlowManager_MarkReceived s fm =
     fm\<lparr> receiveWindow := ReceiveWindow_MarkReceived s (receiveWindow fm) \<rparr>"

definition FlowManager_GetReceiveWindowEnd :: "FlowManager \<Rightarrow> PacketSequence" where
  "FlowManager_GetReceiveWindowEnd fm = ReceiveWindow_GetWindowEnd (receiveWindow fm)"

definition FlowManager_GetCwnd :: "FlowManager \<Rightarrow> ushort" where
  "FlowManager_GetCwnd fm = ucast (FlowController_GetCwnd (flowController fm))"

definition FlowManager_Reset :: "PacketSequence \<Rightarrow> FlowManager \<Rightarrow> FlowManager" where
  "FlowManager_Reset recvStartSequence fm =
     fm\<lparr> flowController := FlowController_Reset (flowController fm),
         receiveWindow := ReceiveWindow_Reset recvStartSequence (receiveWindow fm) \<rparr>"

definition FlowManager_Initialize :: "byte \<Rightarrow> FlowManager \<Rightarrow> FlowManager" where
  "FlowManager_Initialize recvWindowSize fm =
     FlowManager_ResizeRecvWindowSize recvWindowSize (FlowManager_Reset 0 fm)"

definition FlowManager_GetAdvertisableWindow :: "FlowManager \<Rightarrow> byte" where
  "FlowManager_GetAdvertisableWindow fm = ReceiveWindow_GetAdvertiseWindow (receiveWindow fm)"

section \<open>The calls and their invariant\<close>

datatype flow_op =
    Flow_Ack PacketSequence | Flow_Timeout | Flow_Mark PacketSequence
  | Flow_Reset PacketSequence | Flow_Initialize byte | Flow_Resize byte

fun flow_step :: "flow_op \<Rightarrow> FlowManager \<Rightarrow> FlowManager" where
  "flow_step (Flow_Ack s) fm = FlowManager_OnAckReceived s fm"
| "flow_step Flow_Timeout fm = FlowManager_OnTimeout fm"
| "flow_step (Flow_Mark s) fm = FlowManager_MarkReceived s fm"
| "flow_step (Flow_Reset s) fm = FlowManager_Reset s fm"
| "flow_step (Flow_Initialize n) fm = FlowManager_Initialize n fm"
| "flow_step (Flow_Resize n) fm = FlowManager_ResizeRecvWindowSize n fm"

definition flow_ok :: "FlowManager \<Rightarrow> bool" where
  "flow_ok fm \<longleftrightarrow> cwnd_ok (flowController fm) \<and> rw_wf (receiveWindow fm)"

lemma flow_ok_new: "flow_ok (FlowManager_new n)"
  by (simp add: flow_ok_def FlowManager_new_def cwnd_ok_new rw_wf_new)

lemma flow_ok_OnAckReceived: "flow_ok fm \<Longrightarrow> flow_ok (FlowManager_OnAckReceived s fm)"
  by (simp add: flow_ok_def FlowManager_OnAckReceived_def cwnd_ok_intros)

lemma flow_ok_OnTimeout: "flow_ok fm \<Longrightarrow> flow_ok (FlowManager_OnTimeout fm)"
  by (simp add: flow_ok_def FlowManager_OnTimeout_def cwnd_ok_intros)

lemma flow_ok_MarkReceived: "flow_ok fm \<Longrightarrow> flow_ok (FlowManager_MarkReceived s fm)"
  by (simp add: flow_ok_def FlowManager_MarkReceived_def rw_wf_MarkReceived)

lemma flow_ok_Reset: "flow_ok fm \<Longrightarrow> flow_ok (FlowManager_Reset s fm)"
  by (simp add: flow_ok_def FlowManager_Reset_def cwnd_ok_intros rw_wf_Reset)

lemma flow_ok_Initialize: "flow_ok (FlowManager_Initialize n fm)"
  by (simp add: flow_ok_def FlowManager_Initialize_def FlowManager_Reset_def
        FlowManager_ResizeRecvWindowSize_def cwnd_ok_intros rw_wf_Reset_Resize)

lemmas flow_ok_intros = flow_ok_OnAckReceived flow_ok_OnTimeout flow_ok_MarkReceived
  flow_ok_Reset flow_ok_Initialize

lemma CanSend_iff:
  "flow_ok fm \<Longrightarrow> FlowManager_CanSend s fm
     \<longleftrightarrow> SeqDiff s (lastReplySequence (flowController fm)) \<le> int (unat (cwnd (flowController fm)))"
  by (simp only: flow_ok_def FlowManager_CanSend_def FlowController_GetLastAckedSequence_def
        CanSendPacket_iff)

lemma CanSend_next:
  assumes "flow_ok fm" "0 \<le> k" "k \<le> 1"
  shows "FlowManager_CanSend (lastReplySequence (flowController fm) + word_of_int k) fm"
proof -
  have "SeqDiff (lastReplySequence (flowController fm) + word_of_int k)
          (lastReplySequence (flowController fm)) = k"
    using assms by (intro SeqDiff_add_int) simp_all
  moreover have "k \<le> int (unat (cwnd (flowController fm)))"
    using assms unfolding flow_ok_def cwnd_ok_def by linarith
  ultimately show ?thesis using CanSend_iff [OF assms(1)] by simp
qed

section \<open>The windows on unbounded numbers\<close>

text \<open>The reference: the highest acknowledged sequence, the congestion window, and the receive window by offsets from the sequence of
  the last reset.\<close>

record FlowReference =
  fr_acked :: PacketSequence
  fr_cwnd :: nat
  fr_recovery :: bool
  fr_base :: PacketSequence
  fr_size :: nat
  fr_received :: "nat set"

definition fr_new :: "nat \<Rightarrow> FlowReference" where
  "fr_new n = \<lparr> fr_acked = 0, fr_cwnd = 4, fr_recovery = False, fr_base = 0, fr_size = n, fr_received = {} \<rparr>"

definition fr_ack :: "PacketSequence \<Rightarrow> FlowReference \<Rightarrow> FlowReference" where
  "fr_ack q r = (let d = SeqDiff q (fr_acked r) in
     if d \<le> 0 then r
     else r\<lparr> fr_acked := q, fr_recovery := False,
             fr_cwnd := (if d > 5 then max (fr_cwnd r div 2) 1
                         else if fr_recovery r then fr_cwnd r else min (fr_cwnd r + 1) 250) \<rparr>)"

fun fr_step :: "flow_op \<Rightarrow> FlowReference \<Rightarrow> FlowReference" where
  "fr_step (Flow_Ack q) r = fr_ack q r"
| "fr_step Flow_Timeout r = r\<lparr> fr_cwnd := max (fr_cwnd r div 2) 1, fr_recovery := True \<rparr>"
| "fr_step (Flow_Mark q) r = r\<lparr> fr_received := arrive (fr_size r) (fr_base r) q (fr_received r) \<rparr>"
| "fr_step (Flow_Reset q) r = (fr_new (fr_size r))\<lparr> fr_base := q \<rparr>"
| "fr_step (Flow_Initialize n) r = fr_new (unat n)"
| "fr_step (Flow_Resize n) r = r\<lparr> fr_size := unat n \<rparr>"

definition fr_tracks :: "FlowReference \<Rightarrow> FlowManager \<Rightarrow> bool" where
  "fr_tracks r fm \<longleftrightarrow> flow_ok fm \<and> fr_acked r = lastReplySequence (flowController fm) \<and>
     fr_cwnd r = unat (cwnd (flowController fm)) \<and> fr_recovery r = inRecovery (flowController fm) \<and>
     rw_tracks (fr_base r) (fr_received r) (receiveWindow fm) \<and> fr_size r = unat (windowSize (receiveWindow fm))"

text \<open>Every resize of the run finds a window without flags whose start is inside the new size.\<close>

fun resizes_safe :: "flow_op list \<Rightarrow> FlowManager \<Rightarrow> bool" where
  "resizes_safe [] fm \<longleftrightarrow> True"
| "resizes_safe (op # ops) fm \<longleftrightarrow>
     (case op of Flow_Resize n \<Rightarrow> resize_safe n (receiveWindow fm) | _ \<Rightarrow> True) \<and> resizes_safe ops (flow_step op fm)"

lemma gap_empty [simp]: "gap {} = 0"
  by (rule gap_eqI) simp_all

lemma rw_tracks_Reset:
  assumes "rw_wf w" shows "rw_tracks s {} (ReceiveWindow_Reset s w)"
proof -
  have "rw_view (ReceiveWindow_Reset s w) = replicate (unat (windowSize w)) False"
    using rw_view_cleared [of "ReceiveWindow_Reset s w"] assms by (simp add: ReceiveWindow_Reset_def rw_wf_def)
  then show ?thesis using rw_wf_Reset [OF assms, of s]
    by (simp add: rw_tracks_def map_replicate_const) (simp add: ReceiveWindow_Reset_def)
qed

lemma resize_safe_Reset: "resize_safe n (ReceiveWindow_Reset s w)"
  by (simp add: resize_safe_def ReceiveWindow_Reset_def unat_gt_0)

lemma fr_tracks_new: "fr_tracks (fr_new (unat n)) (FlowManager_new n)"
  using rw_tracks_Reset [OF rw_wf_new, of 0 n]
  by (simp add: fr_tracks_def flow_ok_new) (simp add: fr_new_def FlowManager_new_def FlowController_new_def
      ReceiveWindow_Reset_def ReceiveWindow_new_def)

lemma flow_ok_Resize:
  assumes "flow_ok fm" "rw_tracks s R (receiveWindow fm)" "resize_safe n (receiveWindow fm)"
  shows "flow_ok (FlowManager_ResizeRecvWindowSize n fm)"
  using assms rw_tracks_Resize [OF assms(2,3)] by (simp add: flow_ok_def FlowManager_ResizeRecvWindowSize_def rw_tracks_def)

lemma fr_tracks_ack:
  assumes "fr_tracks r fm" shows "fr_tracks (fr_ack q r) (FlowManager_OnAckReceived q fm)"
proof -
  have "unat (cwnd (flowController fm)) \<le> 250" using assms by (simp add: fr_tracks_def flow_ok_def cwnd_ok_def)
  then show ?thesis
    using assms flow_ok_OnAckReceived [of fm q]
    by (simp add: fr_tracks_def fr_ack_def FlowManager_OnAckReceived_def FlowController_OnReplyReceived_def
        FlowController_OnCongestionEvent_def Let_def unat_cwnd_grown unat_cwnd_halved)
qed

lemma fr_tracks_step:
  assumes "fr_tracks r fm" "case op of Flow_Resize n \<Rightarrow> resize_safe n (receiveWindow fm) | _ \<Rightarrow> True"
  shows "fr_tracks (fr_step op r) (flow_step op fm)"
proof (cases op)
  case (Flow_Ack q)
  then show ?thesis using fr_tracks_ack [OF assms(1)] by simp
next
  case Flow_Timeout
  then show ?thesis using assms(1) flow_ok_OnTimeout [of fm]
    by (simp add: fr_tracks_def FlowManager_OnTimeout_def FlowController_OnTimeout_def unat_cwnd_halved)
next
  case (Flow_Mark q)
  have wf: "rw_wf (receiveWindow fm)" using assms(1) by (simp add: fr_tracks_def rw_tracks_def)
  show ?thesis using Flow_Mark assms(1) flow_ok_MarkReceived [of fm q] rw_tracks_mark [of _ _ "receiveWindow fm" q]
      MarkReceived_windowSize [OF wf]
    by (simp add: fr_tracks_def FlowManager_MarkReceived_def)
next
  case (Flow_Reset q)
  have wf: "rw_wf (receiveWindow fm)" using assms(1) by (simp add: fr_tracks_def rw_tracks_def)
  show ?thesis using Flow_Reset assms(1) flow_ok_Reset [of fm q] rw_tracks_Reset [OF wf, of q]
    by (simp add: fr_tracks_def fr_new_def FlowManager_Reset_def FlowController_Reset_def)
       (simp add: ReceiveWindow_Reset_def)
next
  case (Flow_Initialize n)
  have wf: "rw_wf (receiveWindow fm)" using assms(1) by (simp add: fr_tracks_def rw_tracks_def)
  note t = rw_tracks_Resize [OF rw_tracks_Reset [OF wf, of 0] resize_safe_Reset [of n]]
  show ?thesis using Flow_Initialize t flow_ok_Initialize [of n fm]
    by (simp add: fr_tracks_def fr_new_def FlowManager_Initialize_def FlowManager_ResizeRecvWindowSize_def
        FlowManager_Reset_def FlowController_Reset_def)
       (simp add: ReceiveWindow_ResizeRecvWindowSize_def)
next
  case (Flow_Resize n)
  with assms(2) have safe: "resize_safe n (receiveWindow fm)" by simp
  have t: "rw_tracks (fr_base r) (fr_received r) (receiveWindow fm)" using assms(1) by (simp add: fr_tracks_def)
  show ?thesis using Flow_Resize assms(1) flow_ok_Resize [OF _ t safe] rw_tracks_Resize [OF t safe]
    by (simp add: fr_tracks_def FlowManager_ResizeRecvWindowSize_def) (simp add: ReceiveWindow_ResizeRecvWindowSize_def)
qed

lemma fr_tracks_run:
  "fr_tracks r fm \<Longrightarrow> resizes_safe ops fm \<Longrightarrow> fr_tracks (fold fr_step ops r) (fold flow_step ops fm)"
proof (induction ops arbitrary: r fm)
  case (Cons op ops)
  from Cons.prems(2) have "case op of Flow_Resize n \<Rightarrow> resize_safe n (receiveWindow fm) | _ \<Rightarrow> True"
    and "resizes_safe ops (flow_step op fm)" by simp_all
  with Cons.IH [OF fr_tracks_step [OF Cons.prems(1)]] show ?case by simp
qed simp

text \<open>C34: after any calls on a flow manager (acknowledgements of any sequence, timeouts, arrivals, resets, initialisations, resizes,
  in any order, as long as each resize meets a receive window that holds nothing and starts inside the new size) both windows are those of the reference in
  unbounded arithmetic. The congestion window is between 1 and 250 and is what the acknowledgements and timeouts since the last reset
  make of 4; exactly the packets up to that far past the highest acknowledged one may be sent, so the next one always may; exactly
  the next sequences of the size of the receive window are accepted, and it advertises the places it does not hold.\<close>

theorem flow_manager_reachable:
  fixes ops n
  assumes "resizes_safe ops (FlowManager_new n)"
  defines "fm \<equiv> fold flow_step ops (FlowManager_new n)" and "r \<equiv> fold fr_step ops (fr_new (unat n))"
  shows "unat (FlowManager_GetCwnd fm) = fr_cwnd r \<and> 1 \<le> fr_cwnd r \<and> fr_cwnd r \<le> 250 \<and>
         (FlowManager_CanSend q fm \<longleftrightarrow> SeqDiff q (fr_acked r) \<le> int (fr_cwnd r)) \<and>
         FlowManager_CanSend (fr_acked r + 1) fm \<and>
         (FlowManager_CanAccept p fm \<longleftrightarrow>
            p \<in> (\<lambda>k. fr_base r + of_nat (gap (fr_received r) + k)) ` {..<fr_size r}) \<and>
         unat (FlowManager_GetAdvertisableWindow fm)
           = fr_size r - card {j \<in> fr_received r. gap (fr_received r) \<le> j}"
proof -
  have tr: "fr_tracks r fm" unfolding r_def fm_def by (rule fr_tracks_run [OF fr_tracks_new assms(1)])
  then have ok: "flow_ok fm" and rw: "rw_tracks (fr_base r) (fr_received r) (receiveWindow fm)"
    and eq: "fr_acked r = lastReplySequence (flowController fm)" "fr_cwnd r = unat (cwnd (flowController fm))"
      "fr_size r = unat (windowSize (receiveWindow fm))" by (simp_all add: fr_tracks_def)
  have c: "1 \<le> fr_cwnd r" "fr_cwnd r \<le> 250" using ok eq(2) by (simp_all add: flow_ok_def cwnd_ok_def)
  have get: "unat (FlowManager_GetCwnd fm) = fr_cwnd r"
    using unat_byte_bound [of "cwnd (flowController fm)"]
    by (simp add: eq FlowManager_GetCwnd_def FlowController_GetCwnd_def unsigned_ucast_eq take_bit_nat_eq_self)
  have "FlowManager_CanSend (fr_acked r + 1) fm" using CanSend_next [OF ok, of 1] by (simp add: eq)
  then show ?thesis
    using c get CanSend_iff [OF ok, of q] rw_tracks_CanReceive [OF rw, of p] rw_tracks_advertise [OF rw]
    by (simp add: eq FlowManager_CanAccept_def FlowManager_GetAdvertisableWindow_def)
qed

text \<open>The window of the witness is enlarged after it was used and is empty again.\<close>

theorem flow_manager_reachable_witness:
  "let ops = [Flow_Ack 3, Flow_Mark 0, Flow_Mark 1, Flow_Resize 8, Flow_Mark 2, Flow_Timeout, Flow_Ack 4];
       fm = fold flow_step ops (FlowManager_new 4)
   in FlowManager_GetCwnd fm = 2 \<and> \<not> FlowManager_CanSend 7 fm"
proof -
  let ?ops = "[Flow_Ack 3, Flow_Mark 0, Flow_Mark 1, Flow_Resize 8, Flow_Mark 2, Flow_Timeout, Flow_Ack 4]"
  let ?r = "fold fr_step ?ops (fr_new (unat (4::byte)))"
  have safe: "resizes_safe ?ops (FlowManager_new 4)" by code_simp
  have r: "fr_cwnd ?r = 2" "fr_acked ?r = 4"
    by (simp_all add: fr_ack_def fr_new_def SeqDiff_def)
  have d: "SeqDiff 7 4 = 3" by code_simp
  note t = flow_manager_reachable [OF safe, of 7 0, unfolded r d]
  then have "FlowManager_GetCwnd (fold flow_step ?ops (FlowManager_new 4)) = 2"
    by (simp add: unat_arith_simps)
  with t show ?thesis by (simp add: Let_def)
qed

end
