(* ===== verification/Rto_Estimator.thy ===== *)
theory Rto_Estimator
  imports Prelude
begin

text \<open>
  MultiSocketRUDPServer/RetransmissionTimeoutEstimator: the retransmission timeout of a
  session from measured round trips (RFC 6298 in integer milliseconds) with exponential
  backoff once per timeout window. A duration is the signed 64-bit count of nanoseconds
  of \<open>steady_clock\<close>; so is a time point, counted since the clock's epoch. The other modules, which only
  compare time points, have them as \<open>int\<close>. The mutex makes every call atomic.
\<close>

section \<open>State and operations\<close>

type_synonym time_point = int

record RtoEstimator =
  hasRttSample :: bool
  smoothedRttMs :: "64 word"
  rttVariationMs :: "64 word"
  minRtoMs :: "32 word"
  maxRtoMs :: "32 word"
  cachedRtoMs :: "32 word"
  backoffSuppressedUntil :: "64 word"

abbreviation (input) CLOCK_GRANULARITY_MS :: "64 word" where "CLOCK_GRANULARITY_MS \<equiv> 1"

definition Rto_new :: RtoEstimator where
  "Rto_new = \<lparr> hasRttSample = False, smoothedRttMs = 0, rttVariationMs = 0, minRtoMs = 1,
     maxRtoMs = 1, cachedRtoMs = 1, backoffSuppressedUntil = 0 \<rparr>"

definition std_clamp :: "'a::linorder \<Rightarrow> 'a \<Rightarrow> 'a \<Rightarrow> 'a" where
  "std_clamp v lo hi = (if v < lo then lo else if hi < v then hi else v)"

definition Rto_ClampRto :: "64 word \<Rightarrow> RtoEstimator \<Rightarrow> 32 word" where
  "Rto_ClampRto rtoMs e = ucast (std_clamp rtoMs (ucast (minRtoMs e)) (ucast (maxRtoMs e)))"

definition Rto_Configure :: "32 word \<Rightarrow> 32 word \<Rightarrow> 32 word \<Rightarrow> RtoEstimator \<Rightarrow> RtoEstimator" where
  "Rto_Configure inInitialRtoMs inMinRtoMs inMaxRtoMs e =
     (let e1 = e\<lparr> minRtoMs := max 1 inMinRtoMs,
                  maxRtoMs := max (max 1 inMinRtoMs) inMaxRtoMs,
                  hasRttSample := False, smoothedRttMs := 0, rttVariationMs := 0,
                  backoffSuppressedUntil := 0 \<rparr>
      in e1\<lparr> cachedRtoMs := Rto_ClampRto (ucast inInitialRtoMs) e1 \<rparr>)"

definition Rto_GetRtoMs :: "RtoEstimator \<Rightarrow> 32 word" where
  "Rto_GetRtoMs e = cachedRtoMs e"

text \<open>\<open>duration_cast<milliseconds>(sample).count()\<close> truncates towards zero.\<close>

definition duration_cast_ms :: "64 word \<Rightarrow> int" where
  "duration_cast_ms ns =
     (if sint ns \<ge> 0 then sint ns div 1000000 else - ((- sint ns) div 1000000))"

definition sample_ms :: "64 word \<Rightarrow> 64 word" where
  "sample_ms sample =
     (let sampleMsCount = duration_cast_ms sample
      in word_of_int (if sampleMsCount > 1 then sampleMsCount else 1))"

definition Rto_OnRttSample :: "64 word \<Rightarrow> RtoEstimator \<Rightarrow> RtoEstimator" where
  "Rto_OnRttSample sample e =
     (let sampleMs = sample_ms sample;
          e1 = (if \<not> hasRttSample e
                then e\<lparr> smoothedRttMs := sampleMs, rttVariationMs := sampleMs div 2,
                        hasRttSample := True \<rparr>
                else let deviation = (if smoothedRttMs e > sampleMs
                                      then smoothedRttMs e - sampleMs
                                      else sampleMs - smoothedRttMs e)
                     in e\<lparr> rttVariationMs := ((3 * rttVariationMs e) + deviation) div 4,
                           smoothedRttMs := ((7 * smoothedRttMs e) + sampleMs) div 8 \<rparr>);
          rtoMs = smoothedRttMs e1 + max CLOCK_GRANULARITY_MS (4 * rttVariationMs e1)
      in e1\<lparr> cachedRtoMs := Rto_ClampRto rtoMs e1, backoffSuppressedUntil := 0 \<rparr>)"

definition Rto_OnTimeout :: "64 word \<Rightarrow> RtoEstimator \<Rightarrow> bool \<times> RtoEstimator" where
  "Rto_OnTimeout now e =
     (if backoffSuppressedUntil e \<noteq> 0 \<and> sint now < sint (backoffSuppressedUntil e) then (False, e)
      else let nextRtoMs = Rto_ClampRto (ucast (cachedRtoMs e) * 2) e
           in (True, e\<lparr> cachedRtoMs := nextRtoMs,
                        backoffSuppressedUntil := now + ucast nextRtoMs * 1000000 \<rparr>))"

section \<open>Arithmetic of the estimator on naturals\<close>

text \<open>The largest number of milliseconds a 64-bit duration has.\<close>

definition MAX_SAMPLE_MS :: nat where
  "MAX_SAMPLE_MS = 2 ^ 63 div 1000000"

definition sample_ms_nat :: "64 word \<Rightarrow> nat" where
  "sample_ms_nat sample = max 1 (nat (duration_cast_ms sample))"

text \<open>RFC 6298 with beta = 1/4 and alpha = 1/8 in integer arithmetic.\<close>

definition rfc_deviation :: "nat \<Rightarrow> nat \<Rightarrow> nat" where
  "rfc_deviation srtt s = (if srtt > s then srtt - s else s - srtt)"

definition rfc_rttvar :: "nat \<Rightarrow> nat \<Rightarrow> nat \<Rightarrow> nat" where
  "rfc_rttvar srtt var s = (3 * var + rfc_deviation srtt s) div 4"

definition rfc_srtt :: "nat \<Rightarrow> nat \<Rightarrow> nat" where
  "rfc_srtt srtt s = (7 * srtt + s) div 8"

lemma duration_cast_ms_bound: "duration_cast_ms ns \<le> int MAX_SAMPLE_MS"
proof (cases "sint ns \<ge> 0")
  case True
  have "sint ns < 2 ^ 63" using sint_range_size [of ns] by (simp add: word_size)
  then have "sint ns div 1000000 \<le> 2 ^ 63 div 1000000" by (intro zdiv_mono1) simp_all
  with True show ?thesis by (simp add: duration_cast_ms_def MAX_SAMPLE_MS_def)
next
  case False
  then show ?thesis by (simp add: duration_cast_ms_def MAX_SAMPLE_MS_def pos_imp_zdiv_nonneg_iff)
qed

lemma sample_ms_nat_bounds: "1 \<le> sample_ms_nat ns" "sample_ms_nat ns \<le> MAX_SAMPLE_MS"
  using duration_cast_ms_bound [of ns] by (simp_all add: sample_ms_nat_def MAX_SAMPLE_MS_def)

lemma unat_sample_ms: "unat (sample_ms ns) = sample_ms_nat ns"
proof -
  have "sample_ms_nat ns = (if duration_cast_ms ns > 1 then nat (duration_cast_ms ns) else 1)"
    by (auto simp: sample_ms_nat_def max_def)
  then have "sample_ms ns = of_nat (sample_ms_nat ns)"
    by (simp add: sample_ms_def Let_def of_nat_nat)
  moreover have "sample_ms_nat ns < 2 ^ 64"
    using sample_ms_nat_bounds(2) [of ns] by (simp add: MAX_SAMPLE_MS_def)
  ultimately show ?thesis by (simp add: unat_of_nat take_bit_nat_eq_self)
qed

lemma unat_ucast_32_64: "unat (ucast (x::32 word) :: 64 word) = unat x"
  using unat_u32_bound [of x] by (simp add: unsigned_ucast_eq take_bit_nat_eq_self)

lemma unat_std_clamp:
  "unat (std_clamp (v::64 word) lo hi) = std_clamp (unat v) (unat lo) (unat hi)"
  by (simp add: std_clamp_def word_less_nat_alt)

lemma std_clamp_bounds: "lo \<le> hi \<Longrightarrow> lo \<le> std_clamp v lo hi \<and> std_clamp v lo hi \<le> hi"
  by (auto simp: std_clamp_def)

lemma unat_ClampRto:
  assumes "unat (minRtoMs e) \<le> unat (maxRtoMs e)"
  shows "unat (Rto_ClampRto v e) = std_clamp (unat v) (unat (minRtoMs e)) (unat (maxRtoMs e))"
proof -
  let ?c = "std_clamp v (ucast (minRtoMs e)) (ucast (maxRtoMs e)) :: 64 word"
  have c: "unat ?c = std_clamp (unat v) (unat (minRtoMs e)) (unat (maxRtoMs e))"
    by (simp add: unat_std_clamp unat_ucast_32_64)
  have "unat ?c < 2 ^ 32"
    using std_clamp_bounds [OF assms, of "unat v"] unat_u32_bound [of "maxRtoMs e"] unfolding c
    by simp
  then show ?thesis
    by (simp add: Rto_ClampRto_def unsigned_ucast_eq take_bit_nat_eq_self c)
qed

section \<open>The invariant of the estimator\<close>

definition rto_ok :: "RtoEstimator \<Rightarrow> bool" where
  "rto_ok e \<longleftrightarrow> 1 \<le> unat (minRtoMs e) \<and> unat (minRtoMs e) \<le> unat (cachedRtoMs e) \<and>
     unat (cachedRtoMs e) \<le> unat (maxRtoMs e) \<and>
     unat (smoothedRttMs e) \<le> MAX_SAMPLE_MS \<and> unat (rttVariationMs e) \<le> MAX_SAMPLE_MS"

lemma rto_ok_new: "rto_ok Rto_new"
  by (simp add: rto_ok_def Rto_new_def MAX_SAMPLE_MS_def)

lemma unat_max_32: "unat (max (a::32 word) b) = max (unat a) (unat b)"
  by (simp add: max_def word_le_nat_alt)

lemma unat_max_64: "unat (max (a::64 word) b) = max (unat a) (unat b)"
  by (simp add: max_def word_le_nat_alt)

lemma rto_ok_Configure: "rto_ok (Rto_Configure i lo hi e)"
proof -
  let ?e = "Rto_Configure i lo hi e"
  have "unat (minRtoMs ?e) \<le> unat (maxRtoMs ?e)" "1 \<le> unat (minRtoMs ?e)"
    by (simp_all add: Rto_Configure_def Let_def unat_max_32)
  moreover have "cachedRtoMs ?e = Rto_ClampRto (ucast i) ?e"
    by (simp add: Rto_Configure_def Let_def Rto_ClampRto_def)
  ultimately show ?thesis
    using unat_ClampRto [of ?e "ucast i"] std_clamp_bounds [of "unat (minRtoMs ?e)" "unat (maxRtoMs ?e)"]
    by (simp add: rto_ok_def) (simp add: Rto_Configure_def Let_def)
qed

text \<open>Below the bound of the samples no operation of the update wraps.\<close>

lemma unat_rttvar:
  assumes "unat srtt \<le> MAX_SAMPLE_MS" "unat var \<le> MAX_SAMPLE_MS" "unat s \<le> MAX_SAMPLE_MS"
  shows "unat ((3 * var + (if srtt > s then srtt - s else s - srtt)) div 4 :: 64 word)
           = rfc_rttvar (unat srtt) (unat var) (unat s)"
proof -
  have dev: "unat (if srtt > s then srtt - s else s - srtt) = rfc_deviation (unat srtt) (unat s)"
    by (auto simp: rfc_deviation_def word_less_nat_alt unat_sub_if')
  have "rfc_deviation (unat srtt) (unat s) \<le> MAX_SAMPLE_MS"
    using assms by (auto simp: rfc_deviation_def)
  with assms dev have "3 * unat var + unat (if srtt > s then srtt - s else s - srtt) < 2 ^ 64"
    by (simp add: MAX_SAMPLE_MS_def)
  with dev show ?thesis
    by (simp add: rfc_rttvar_def unat_div unat_word_ariths)
qed

lemma unat_srtt:
  assumes "unat srtt \<le> MAX_SAMPLE_MS" "unat s \<le> MAX_SAMPLE_MS"
  shows "unat ((7 * srtt + s) div 8 :: 64 word) = rfc_srtt (unat srtt) (unat s)"
proof -
  have "7 * unat srtt + unat s < 2 ^ 64" using assms by (simp add: MAX_SAMPLE_MS_def)
  then show ?thesis by (simp add: rfc_srtt_def unat_div unat_word_ariths)
qed

lemma rfc_bounds:
  "srtt \<le> m \<Longrightarrow> s \<le> m \<Longrightarrow> rfc_srtt srtt s \<le> m"
  "srtt \<le> m \<Longrightarrow> var \<le> m \<Longrightarrow> s \<le> m \<Longrightarrow> rfc_rttvar srtt var s \<le> m"
  by (auto simp: rfc_srtt_def rfc_rttvar_def rfc_deviation_def)

lemma OnRttSample_values:
  fixes ns e
  assumes "rto_ok e"
  defines "s \<equiv> sample_ms_nat ns" and "e' \<equiv> Rto_OnRttSample ns e"
  shows "unat (smoothedRttMs e')
           = (if hasRttSample e then rfc_srtt (unat (smoothedRttMs e)) s else s)"
    and "unat (rttVariationMs e')
           = (if hasRttSample e then rfc_rttvar (unat (smoothedRttMs e)) (unat (rttVariationMs e)) s
              else s div 2)"
    and "minRtoMs e' = minRtoMs e" "maxRtoMs e' = maxRtoMs e" "hasRttSample e'"
    and "backoffSuppressedUntil e' = 0"
    and "cachedRtoMs e' = Rto_ClampRto (smoothedRttMs e' + max 1 (4 * rttVariationMs e')) e'"
proof -
  let ?srtt = "smoothedRttMs e" and ?var = "rttVariationMs e" and ?s = "sample_ms ns"
  have b: "unat ?srtt \<le> MAX_SAMPLE_MS" "unat ?var \<le> MAX_SAMPLE_MS" "unat ?s \<le> MAX_SAMPLE_MS"
    using assms(1) sample_ms_nat_bounds(2) [of ns] by (simp_all add: rto_ok_def unat_sample_ms)
  have "smoothedRttMs e' = (if hasRttSample e then (7 * ?srtt + ?s) div 8 else ?s)"
    by (simp add: e'_def Rto_OnRttSample_def Let_def)
  then show "unat (smoothedRttMs e')
      = (if hasRttSample e then rfc_srtt (unat ?srtt) s else s)"
    using unat_srtt [OF b(1,3)] by (simp add: s_def unat_sample_ms)
  have "rttVariationMs e' =
      (if hasRttSample e
       then (3 * ?var + (if ?srtt > ?s then ?srtt - ?s else ?s - ?srtt)) div 4 else ?s div 2)"
    by (simp add: e'_def Rto_OnRttSample_def Let_def)
  then show "unat (rttVariationMs e')
      = (if hasRttSample e then rfc_rttvar (unat ?srtt) (unat ?var) s else s div 2)"
    using unat_rttvar [OF b] 
    by (cases "hasRttSample e") (simp_all only: s_def unat_sample_ms unat_div if_True if_False, simp)
qed (simp_all add: e'_def Rto_OnRttSample_def Let_def Rto_ClampRto_def)

lemma OnRttSample_rto:
  fixes ns e
  assumes "rto_ok e"
  defines "e' \<equiv> Rto_OnRttSample ns e"
  shows "unat (smoothedRttMs e') \<le> MAX_SAMPLE_MS" "unat (rttVariationMs e') \<le> MAX_SAMPLE_MS"
    and "unat (cachedRtoMs e') = std_clamp
           (unat (smoothedRttMs e') + max 1 (4 * unat (rttVariationMs e')))
           (unat (minRtoMs e)) (unat (maxRtoMs e))"
proof -
  note v = OnRttSample_values [OF assms(1), of ns, folded e'_def]
  have s: "sample_ms_nat ns \<le> MAX_SAMPLE_MS" by (rule sample_ms_nat_bounds)
  show b: "unat (smoothedRttMs e') \<le> MAX_SAMPLE_MS" "unat (rttVariationMs e') \<le> MAX_SAMPLE_MS"
    using assms(1) s rfc_bounds unfolding v(1,2) by (auto simp: rto_ok_def)
  have m: "unat (4 * rttVariationMs e') = 4 * unat (rttVariationMs e')"
    using b by (simp add: unat_word_ariths MAX_SAMPLE_MS_def)
  have "unat (smoothedRttMs e') + max 1 (4 * unat (rttVariationMs e')) < 2 ^ 64"
    using b by (simp add: MAX_SAMPLE_MS_def)
  then have "unat (smoothedRttMs e' + max 1 (4 * rttVariationMs e'))
      = unat (smoothedRttMs e') + max 1 (4 * unat (rttVariationMs e'))"
    by (simp add: unat_word_ariths unat_max_64 m)
  then show "unat (cachedRtoMs e') = std_clamp
           (unat (smoothedRttMs e') + max 1 (4 * unat (rttVariationMs e')))
           (unat (minRtoMs e)) (unat (maxRtoMs e))"
    using v(3,4,7) assms(1) unat_ClampRto [of e'] by (simp add: rto_ok_def)
qed

lemma rto_ok_OnRttSample: "rto_ok e \<Longrightarrow> rto_ok (Rto_OnRttSample ns e)"
  using OnRttSample_rto [of e ns] OnRttSample_values(3,4) [of e ns]
    std_clamp_bounds [of "unat (minRtoMs e)" "unat (maxRtoMs e)"]
  by (simp add: rto_ok_def)

text \<open>Whether a timeout is suppressed.\<close>

definition rto_suppressed :: "64 word \<Rightarrow> RtoEstimator \<Rightarrow> bool" where
  "rto_suppressed now e \<longleftrightarrow> backoffSuppressedUntil e \<noteq> 0 \<and> sint now < sint (backoffSuppressedUntil e)"

lemma OnTimeout_suppressed: "rto_suppressed now e \<Longrightarrow> Rto_OnTimeout now e = (False, e)"
  unfolding Rto_OnTimeout_def rto_suppressed_def by (rule if_P)

lemma OnTimeout_backs_off:
  assumes "\<not> rto_suppressed now e"
  shows "Rto_OnTimeout now e = (True,
           e\<lparr> cachedRtoMs := Rto_ClampRto (ucast (cachedRtoMs e) * 2) e,
             backoffSuppressedUntil := now + ucast (Rto_ClampRto (ucast (cachedRtoMs e) * 2) e) * 1000000 \<rparr>)"
  using assms unfolding Rto_OnTimeout_def rto_suppressed_def Let_def by (rule if_not_P)

lemma OnTimeout_fst: "fst (Rto_OnTimeout now e) \<longleftrightarrow> \<not> rto_suppressed now e"
  by (cases "rto_suppressed now e") (simp_all add: OnTimeout_suppressed OnTimeout_backs_off)

lemma OnTimeout_rto:
  assumes "rto_ok e" "fst (Rto_OnTimeout now e)"
  shows "unat (cachedRtoMs (snd (Rto_OnTimeout now e)))
           = min (2 * unat (cachedRtoMs e)) (unat (maxRtoMs e))"
proof -
  have "unat (cachedRtoMs e) < 2 ^ 32" by (rule unat_u32_bound)
  then have "unat (ucast (cachedRtoMs e) * 2 :: 64 word) = unat (cachedRtoMs e) * 2"
    by (simp add: unat_word_ariths unat_ucast_32_64)
  with assms show ?thesis
    by (auto simp: OnTimeout_fst OnTimeout_backs_off rto_ok_def unat_ClampRto std_clamp_def)
qed

lemma OnTimeout_frame:
  "minRtoMs (snd (Rto_OnTimeout now e)) = minRtoMs e"
  "maxRtoMs (snd (Rto_OnTimeout now e)) = maxRtoMs e"
  "smoothedRttMs (snd (Rto_OnTimeout now e)) = smoothedRttMs e"
  "rttVariationMs (snd (Rto_OnTimeout now e)) = rttVariationMs e"
  "\<not> fst (Rto_OnTimeout now e) \<Longrightarrow> snd (Rto_OnTimeout now e) = e"
  by (cases "rto_suppressed now e"; simp add: OnTimeout_suppressed OnTimeout_backs_off)+

lemma rto_ok_OnTimeout: "rto_ok e \<Longrightarrow> rto_ok (snd (Rto_OnTimeout now e))"
  using OnTimeout_rto [of e now] OnTimeout_frame [of now e]
  by (cases "fst (Rto_OnTimeout now e)") (auto simp: rto_ok_def)

section \<open>Properties\<close>

datatype rto_op = Rto_configure "32 word" "32 word" "32 word" | Rto_sample "64 word" | Rto_timeout "64 word"

fun rto_step :: "rto_op \<Rightarrow> RtoEstimator \<Rightarrow> RtoEstimator" where
  "rto_step (Rto_configure i lo hi) e = Rto_Configure i lo hi e"
| "rto_step (Rto_sample ns) e = Rto_OnRttSample ns e"
| "rto_step (Rto_timeout now) e = snd (Rto_OnTimeout now e)"

interpretation rto: preserved rto_step rto_ok
proof
  fix e op assume "rto_ok e"
  then show "rto_ok (rto_step op e)"
    by (cases op) (simp_all add: rto_ok_Configure rto_ok_OnRttSample rto_ok_OnTimeout)
qed

text \<open>C37: Whatever is configured, sampled and timed out, in any order, the timeout is at least 1 ms and between the configured bounds. The
  averages stay so small that no sum or product of the next sample wraps in 64 bits, and a timeout that backs off doubles the timeout
  exactly, up to the maximum: the doubling does not wrap either. A timeout that is suppressed changes nothing.\<close>

theorem rto_always_bounded:
  fixes ops t
  defines "e \<equiv> fold rto_step ops Rto_new"
  defines "srtt \<equiv> unat (smoothedRttMs e)" and "var \<equiv> unat (rttVariationMs e)"
  shows "1 \<le> unat (Rto_GetRtoMs e) \<and> unat (minRtoMs e) \<le> unat (Rto_GetRtoMs e) \<and>
         unat (Rto_GetRtoMs e) \<le> unat (maxRtoMs e) \<and>
         7 * srtt + MAX_SAMPLE_MS < 2 ^ 64 \<and> 3 * var + MAX_SAMPLE_MS < 2 ^ 64 \<and> srtt + 4 * var < 2 ^ 64 \<and>
         (if fst (Rto_OnTimeout t e)
          then unat (Rto_GetRtoMs (snd (Rto_OnTimeout t e))) = min (2 * unat (Rto_GetRtoMs e)) (unat (maxRtoMs e))
          else snd (Rto_OnTimeout t e) = e)"
proof -
  have ok: "rto_ok e" unfolding e_def by (rule rto.run_ok [OF rto_ok_new])
  then have "srtt \<le> MAX_SAMPLE_MS" "var \<le> MAX_SAMPLE_MS" by (simp_all add: rto_ok_def srtt_def var_def)
  then have "7 * srtt + MAX_SAMPLE_MS < 2 ^ 64 \<and> 3 * var + MAX_SAMPLE_MS < 2 ^ 64 \<and> srtt + 4 * var < 2 ^ 64"
    by (simp add: MAX_SAMPLE_MS_def)
  then show ?thesis
    using ok OnTimeout_rto [OF ok, of t] OnTimeout_frame(5) [of t e] by (simp add: rto_ok_def Rto_GetRtoMs_def)
qed

section \<open>RFC 6298 on unbounded numbers\<close>

text \<open>The reference: the averages exist from the first sample on, and a backoff is suppressed until the time it names.\<close>

record RtoReference =
  ref_min :: nat
  ref_max :: nat
  ref_averages :: "(nat \<times> nat) option"
  ref_rto :: nat
  ref_until :: "int option"

definition ref_new :: RtoReference where
  "ref_new = \<lparr> ref_min = 1, ref_max = 1, ref_averages = None, ref_rto = 1, ref_until = None \<rparr>"

definition ref_configure :: "nat \<Rightarrow> nat \<Rightarrow> nat \<Rightarrow> RtoReference" where
  "ref_configure i lo hi = (let lo1 = max 1 lo; hi1 = max lo1 hi in
     \<lparr> ref_min = lo1, ref_max = hi1, ref_averages = None, ref_rto = max lo1 (min hi1 i), ref_until = None \<rparr>)"

definition ref_sample :: "nat \<Rightarrow> RtoReference \<Rightarrow> RtoReference" where
  "ref_sample s r =
     (let (srtt, var) = (case ref_averages r of
            None \<Rightarrow> (s, s div 2)
          | Some (srtt, var) \<Rightarrow> (rfc_srtt srtt s, rfc_rttvar srtt var s))
      in r\<lparr> ref_averages := Some (srtt, var), ref_until := None,
            ref_rto := max (ref_min r) (min (ref_max r) (srtt + max 1 (4 * var))) \<rparr>)"

definition ref_timeout :: "int \<Rightarrow> RtoReference \<Rightarrow> RtoReference" where
  "ref_timeout now r =
     (if (case ref_until r of None \<Rightarrow> False | Some u \<Rightarrow> now < u) then r
      else let rto = min (2 * ref_rto r) (ref_max r)
           in r\<lparr> ref_rto := rto, ref_until := Some (now + int rto * 1000000) \<rparr>)"

fun ref_step :: "rto_op \<Rightarrow> RtoReference \<Rightarrow> RtoReference" where
  "ref_step (Rto_configure i lo hi) r = ref_configure (unat i) (unat lo) (unat hi)"
| "ref_step (Rto_sample ns) r = ref_sample (sample_ms_nat ns) r"
| "ref_step (Rto_timeout now) r = ref_timeout (sint now) r"

definition rto_abs :: "RtoEstimator \<Rightarrow> RtoReference" where
  "rto_abs e = \<lparr> ref_min = unat (minRtoMs e), ref_max = unat (maxRtoMs e),
     ref_averages = (if hasRttSample e then Some (unat (smoothedRttMs e), unat (rttVariationMs e)) else None),
     ref_rto = unat (cachedRtoMs e),
     ref_until = (if backoffSuppressedUntil e = 0 then None else Some (sint (backoffSuppressedUntil e))) \<rparr>"

text \<open>The clock is not negative and 50 days (the longest timeout) before its end, which is after 292 years.\<close>

fun clock_ok :: "rto_op \<Rightarrow> bool" where
  "clock_ok (Rto_timeout now) \<longleftrightarrow> 0 \<le> sint now \<and> sint now + 2 ^ 32 * 1000000 < 2 ^ 63"
| "clock_ok _ \<longleftrightarrow> True"

lemma std_clamp_max_min: "lo \<le> hi \<Longrightarrow> std_clamp v lo hi = max lo (min hi v)"
  by (auto simp: std_clamp_def max_def min_def)

lemma abs_Configure: "rto_abs (Rto_Configure i lo hi e) = ref_configure (unat i) (unat lo) (unat hi)"
proof -
  let ?e = "Rto_Configure i lo hi e"
  have m: "unat (minRtoMs ?e) = max 1 (unat lo)" "unat (maxRtoMs ?e) = max (max 1 (unat lo)) (unat hi)"
    "cachedRtoMs ?e = Rto_ClampRto (ucast i) ?e" "\<not> hasRttSample ?e" "backoffSuppressedUntil ?e = 0"
    by (simp_all add: Rto_Configure_def Let_def unat_max_32 Rto_ClampRto_def)
  have le: "unat (minRtoMs ?e) \<le> unat (maxRtoMs ?e)" unfolding m(1,2) by (rule max.cobounded1)
  have "unat (cachedRtoMs ?e) = max (unat (minRtoMs ?e)) (min (unat (maxRtoMs ?e)) (unat i))"
    unfolding m(3) unat_ClampRto [OF le] unat_ucast_32_64 by (rule std_clamp_max_min [OF le])
  then show ?thesis unfolding rto_abs_def ref_configure_def Let_def m(1,2) using m(4,5) by simp
qed

lemma abs_OnRttSample:
  assumes "rto_ok e"
  shows "rto_abs (Rto_OnRttSample ns e) = ref_sample (sample_ms_nat ns) (rto_abs e)"
proof -
  have le: "unat (minRtoMs e) \<le> unat (maxRtoMs e)" using assms by (simp add: rto_ok_def)
  note v = OnRttSample_values(1-6) [OF assms, of ns]
    OnRttSample_rto(3) [OF assms, of ns, unfolded std_clamp_max_min [OF le]]
  show ?thesis
    by (cases "hasRttSample e") (simp_all only: rto_abs_def ref_sample_def v if_True if_False option.case prod.case Let_def
      RtoReference.simps simp_thms)
qed

lemma abs_OnTimeout:
  assumes "rto_ok e" "clock_ok (Rto_timeout now)"
  shows "rto_abs (snd (Rto_OnTimeout now e)) = ref_timeout (sint now) (rto_abs e)"
proof (cases "fst (Rto_OnTimeout now e)")
  case False
  then have "backoffSuppressedUntil e \<noteq> 0 \<and> sint now < sint (backoffSuppressedUntil e)"
    by (simp add: OnTimeout_fst rto_suppressed_def)
  moreover have "snd (Rto_OnTimeout now e) = e" by (rule OnTimeout_frame(5) [OF False])
  ultimately show ?thesis by (simp add: ref_timeout_def rto_abs_def)
next
  case True
  let ?e = "snd (Rto_OnTimeout now e)"
  have go: "\<not> (backoffSuppressedUntil e \<noteq> 0 \<and> sint now < sint (backoffSuppressedUntil e))"
    using True by (simp only: OnTimeout_fst rto_suppressed_def not_False_eq_True)
  have u: "backoffSuppressedUntil ?e = now + ucast (cachedRtoMs ?e) * 1000000" "hasRttSample ?e = hasRttSample e"
    using OnTimeout_backs_off True by (simp_all add: OnTimeout_fst)
  let ?r = "uint (cachedRtoMs ?e)"
  have r: "0 < ?r" "?r < 2 ^ 32"
    using rto_ok_OnTimeout [OF assms(1), of now] uint_lt2p [of "cachedRtoMs ?e"] by (simp_all add: rto_ok_def uint_pos_iff)
  have b: "0 \<le> sint now" "sint now + 2 ^ 32 * 1000000 < 2 ^ 63" using assms(2) by simp_all
  have "sint now + ?r * 1000000 < 2 ^ 63" using r(2) b(2) by linarith
  moreover have "backoffSuppressedUntil ?e = word_of_int (sint now + ?r * 1000000)"
    unfolding u(1) by (simp add: word_of_int_uint flip: wi_hom_syms)
  ultimately have s: "sint (backoffSuppressedUntil ?e) = sint now + ?r * 1000000"
    using b(1) r(1) by (simp only: signed_of_int) (simp add: signed_take_bit_int_eq_self)
  then have "backoffSuppressedUntil ?e \<noteq> 0" using b(1) r(1) by auto
  moreover have "?r = int (min (2 * unat (cachedRtoMs e)) (unat (maxRtoMs e)))"
    using OnTimeout_rto [OF assms(1) True] by (metis uint_nat)
  ultimately show ?thesis
    using go OnTimeout_rto [OF assms(1) True] OnTimeout_frame(1-4) [of now e] s u(2)
    by (auto simp: rto_abs_def ref_timeout_def Let_def)
qed

lemma abs_step: "rto_ok e \<Longrightarrow> clock_ok op \<Longrightarrow> rto_abs (rto_step op e) = ref_step op (rto_abs e)"
  by (cases op) (simp_all add: abs_Configure abs_OnRttSample abs_OnTimeout del: clock_ok.simps)

text \<open>C35: The estimator is RFC 6298 in unbounded arithmetic: after any configurations, samples and timeouts it holds what the reference
  holds. The first sample since the configuration sets the averages, every later one moves them (the variation from the old average
  first), the timeout is the average plus four variations, at least the clock granularity, within the bounds, and it doubles once
  until the time a backoff names. The times are 50 days before the end of the clock.\<close>

theorem rto_sample_follows_rfc6298:
  assumes "list_all clock_ok ops"
  shows "rto_abs (fold rto_step ops Rto_new) = fold ref_step ops ref_new"
proof -
  have "rto_abs (fold rto_step ops e) = fold ref_step ops (rto_abs e)" if "rto_ok e" for e
    using assms that
  proof (induction ops arbitrary: e)
    case (Cons op ops)
    have "rto_ok (rto_step op e)" using rto.run_ok [OF Cons.prems(2), of "[op]"] by simp
    with Cons show ?case by (simp add: abs_step)
  qed simp
  moreover have "rto_abs Rto_new = ref_new" by (simp add: rto_abs_def Rto_new_def ref_new_def)
  ultimately show ?thesis using rto_ok_new by metis
qed

theorem rto_sample_follows_rfc6298_witness:
  "ref_averages (rto_abs (fold rto_step [Rto_configure 100 50 1000, Rto_sample 80000000, Rto_sample 160000000, Rto_timeout 5] Rto_new))
     = Some (90, 50)"
proof -
  have c: "list_all clock_ok [Rto_configure 100 50 1000, Rto_sample 80000000, Rto_sample 160000000, Rto_timeout 5]" by code_simp
  have "ref_averages (fold ref_step [Rto_configure 100 50 1000, Rto_sample 80000000, Rto_sample 160000000, Rto_timeout 5] ref_new)
      = Some (90, 50)" by code_simp
  then show ?thesis using rto_sample_follows_rfc6298 [OF c] by simp
qed

section \<open>Backoff\<close>

text \<open>A run of timeouts that all back off.\<close>

fun backoffs :: "64 word list \<Rightarrow> RtoEstimator \<Rightarrow> nat" where
  "backoffs [] e = 0"
| "backoffs (t # ts) e = (if fst (Rto_OnTimeout t e) then 1 else 0) + backoffs ts (snd (Rto_OnTimeout t e))"

lemma backoffs_rto:
  assumes "rto_ok e"
  shows "unat (cachedRtoMs (fold (\<lambda>t. rto_step (Rto_timeout t)) ts e))
           = min (2 ^ backoffs ts e * unat (cachedRtoMs e)) (unat (maxRtoMs e))"
  using assms
proof (induction ts arbitrary: e)
  case Nil
  then show ?case by (simp add: rto_ok_def)
next
  case (Cons t ts)
  let ?e = "snd (Rto_OnTimeout t e)"
  note IH = Cons.IH [OF rto_ok_OnTimeout [OF Cons.prems, of t]]
  have dbl: "min (2 ^ n * min (2 * r) m) m = min (2 ^ Suc n * r) m" for n r m :: nat
  proof (cases "2 * r \<le> m")
    case False
    have "2 * r \<le> 2 ^ n * (2 * r)" by simp
    with False have "m \<le> 2 ^ Suc n * r" unfolding power_Suc mult.assoc mult.left_commute [of 2] by linarith
    moreover have "m \<le> 2 ^ n * m" "min (2 * r) m = m" using False by simp_all
    ultimately show ?thesis by (metis min.absorb2)
  qed (simp add: min_def mult.commute mult.left_commute)
  from IH show ?case
    using dbl OnTimeout_rto [OF Cons.prems, of t] OnTimeout_frame [of t e]
    by (cases "fst (Rto_OnTimeout t e)") simp_all
qed

lemma Rto_OnTimeout_suppresses:
  assumes "rto_ok e" "fst (Rto_OnTimeout t e)" "clock_ok (Rto_timeout t)"
    and "sint t2 < sint t + uint (cachedRtoMs (snd (Rto_OnTimeout t e))) * 1000000"
  shows "Rto_OnTimeout t2 (snd (Rto_OnTimeout t e)) = (False, snd (Rto_OnTimeout t e))"
proof -
  let ?e = "snd (Rto_OnTimeout t e)"
  have "\<not> (backoffSuppressedUntil e \<noteq> 0 \<and> sint t < sint (backoffSuppressedUntil e))"
    using assms(2) by (simp only: OnTimeout_fst rto_suppressed_def not_False_eq_True)
  then have go: "\<not> (case ref_until (rto_abs e) of None \<Rightarrow> False | Some u \<Rightarrow> sint t < u)"
    by (cases "backoffSuppressedUntil e = 0") (simp_all add: rto_abs_def)
  have "ref_until (rto_abs ?e) = Some (sint t + int (ref_rto (rto_abs ?e)) * 1000000)"
    unfolding abs_OnTimeout [OF assms(1,3)] ref_timeout_def if_not_P [OF go] by (simp add: Let_def)
  then have "backoffSuppressedUntil ?e \<noteq> 0" "sint (backoffSuppressedUntil ?e) = sint t + int (unat (cachedRtoMs ?e)) * 1000000"
    unfolding rto_abs_def by (simp_all split: if_splits)
  then have "rto_suppressed t2 ?e" using assms(4) by (simp add: rto_suppressed_def)
  then show ?thesis by (rule OnTimeout_suppressed)
qed

text \<open>Exponential backoff: after any timeouts the timeout is the old one doubled once
  per backoff that was applied, capped at the maximum; a backoff applied at time \<open>t\<close>
  suppresses every further one before \<open>t\<close> plus the new timeout, and suppressed calls
  change nothing.\<close>

theorem rto_backoff_doubles_once_per_window:
  assumes "rto_ok e"
  shows "unat (cachedRtoMs (fold (\<lambda>t. rto_step (Rto_timeout t)) ts e))
           = min (2 ^ backoffs ts e * unat (cachedRtoMs e)) (unat (maxRtoMs e)) \<and>
         (fst (Rto_OnTimeout t e) \<and> clock_ok (Rto_timeout t) \<and>
          sint t2 < sint t + uint (cachedRtoMs (snd (Rto_OnTimeout t e))) * 1000000 \<longrightarrow>
          Rto_OnTimeout t2 (snd (Rto_OnTimeout t e)) = (False, snd (Rto_OnTimeout t e)))"
  using backoffs_rto [OF assms] Rto_OnTimeout_suppresses [OF assms, of t t2] by simp

theorem rto_backoff_doubles_once_per_window_witness:
  "unat (cachedRtoMs (fold (\<lambda>t. rto_step (Rto_timeout t)) [0, 10, 500000000]
     (Rto_Configure 100 50 1000 Rto_new))) = 400"
proof -
  let ?e = "Rto_Configure 100 50 1000 Rto_new"
  have "backoffs [0, 10, 500000000] ?e = 2" "cachedRtoMs ?e = 100" "maxRtoMs ?e = 1000"
    by code_simp+
  then show ?thesis
    using rto_backoff_doubles_once_per_window [OF rto_ok_Configure, of "[0, 10, 500000000]" 100 50 1000 Rto_new]
    by simp
qed

end
