(* ===== verification/Session_State.thy ===== *)
theory Session_State
  imports Prelude
begin

text \<open>
  MultiSocketRUDPServer/SessionStateMachine: the atomic session state. Every operation
  is one atomic access except \<open>TryTransitionToReleasing\<close>, which is two compare-and-swap
  operations; the race of several threads is the step relation \<open>race_step\<close> over single
  accesses, so the interleaving between the two is in the model.
\<close>

section \<open>The operations\<close>

record SessionStateMachine =
  sm_state :: SESSION_STATE

definition StateMachine_new :: SessionStateMachine where
  "StateMachine_new = \<lparr> sm_state = DISCONNECTED \<rparr>"

text \<open>\<open>compare_exchange_strong\<close>.\<close>

definition cas :: "SESSION_STATE \<Rightarrow> SESSION_STATE \<Rightarrow> SessionStateMachine \<Rightarrow> bool \<times> SessionStateMachine" where
  "cas expected desired sm =
     (if sm_state sm = expected then (True, sm\<lparr> sm_state := desired \<rparr>) else (False, sm))"

definition StateMachine_GetSessionState :: "SessionStateMachine \<Rightarrow> SESSION_STATE" where
  "StateMachine_GetSessionState sm = sm_state sm"

definition StateMachine_IsConnected :: "SessionStateMachine \<Rightarrow> bool" where
  "StateMachine_IsConnected sm \<longleftrightarrow> sm_state sm = CONNECTED"

definition StateMachine_IsReserved :: "SessionStateMachine \<Rightarrow> bool" where
  "StateMachine_IsReserved sm \<longleftrightarrow> sm_state sm = RESERVED"

definition StateMachine_IsReleasing :: "SessionStateMachine \<Rightarrow> bool" where
  "StateMachine_IsReleasing sm \<longleftrightarrow> sm_state sm = RELEASING"

definition StateMachine_IsUsingSession :: "SessionStateMachine \<Rightarrow> bool" where
  "StateMachine_IsUsingSession sm \<longleftrightarrow> sm_state sm = RESERVED \<or> sm_state sm = CONNECTED"

definition StateMachine_SetReserved :: "SessionStateMachine \<Rightarrow> SessionStateMachine" where
  "StateMachine_SetReserved sm = sm\<lparr> sm_state := RESERVED \<rparr>"

definition StateMachine_TryTransitionToConnected :: "SessionStateMachine \<Rightarrow> bool \<times> SessionStateMachine" where
  "StateMachine_TryTransitionToConnected sm = cas RESERVED CONNECTED sm"

definition StateMachine_TryTransitionToReleasing :: "SessionStateMachine \<Rightarrow> bool \<times> SessionStateMachine" where
  "StateMachine_TryTransitionToReleasing sm =
     (case cas RESERVED RELEASING sm of
        (True, sm1) \<Rightarrow> (True, sm1)
      | (False, sm1) \<Rightarrow> cas CONNECTED RELEASING sm1)"

definition StateMachine_TryAbortReserved :: "SessionStateMachine \<Rightarrow> bool \<times> SessionStateMachine" where
  "StateMachine_TryAbortReserved sm = cas RESERVED RELEASING sm"

definition StateMachine_SetDisconnected :: "SessionStateMachine \<Rightarrow> SessionStateMachine" where
  "StateMachine_SetDisconnected sm = sm\<lparr> sm_state := DISCONNECTED \<rparr>"

definition StateMachine_Reset :: "SessionStateMachine \<Rightarrow> SessionStateMachine" where
  "StateMachine_Reset sm = sm\<lparr> sm_state := DISCONNECTED \<rparr>"

lemmas StateMachine_defs = StateMachine_new_def cas_def StateMachine_GetSessionState_def
  StateMachine_IsConnected_def StateMachine_IsReserved_def StateMachine_IsReleasing_def
  StateMachine_IsUsingSession_def StateMachine_SetReserved_def
  StateMachine_TryTransitionToConnected_def StateMachine_TryTransitionToReleasing_def
  StateMachine_TryAbortReserved_def StateMachine_SetDisconnected_def StateMachine_Reset_def

lemma TryTransitionToReleasing_result:
  "fst (StateMachine_TryTransitionToReleasing sm) \<longleftrightarrow> StateMachine_IsUsingSession sm"
  "sm_state (snd (StateMachine_TryTransitionToReleasing sm))
     = (if StateMachine_IsUsingSession sm then RELEASING else sm_state sm)"
  by (simp_all add: StateMachine_defs)

lemma TryTransitionToConnected_result:
  "fst (StateMachine_TryTransitionToConnected sm) \<longleftrightarrow> sm_state sm = RESERVED"
  "sm_state (snd (StateMachine_TryTransitionToConnected sm))
     = (if sm_state sm = RESERVED then CONNECTED else sm_state sm)"
  by (simp_all add: StateMachine_defs)

lemma TryAbortReserved_result:
  "fst (StateMachine_TryAbortReserved sm) \<longleftrightarrow> sm_state sm = RESERVED"
  "sm_state (snd (StateMachine_TryAbortReserved sm))
     = (if sm_state sm = RESERVED then RELEASING else sm_state sm)"
  by (simp_all add: StateMachine_defs)

section \<open>Several threads racing for the state\<close>

text \<open>What a thread calls, and where it stands: before the call, between the two
  compare-and-swaps of a release, or done with a result.\<close>

datatype call = CallConnect | CallRelease | CallAbort

datatype pc = Start call | SecondCas | Done call bool

record race =
  shared :: SessionStateMachine
  pcs :: "nat \<Rightarrow> pc"

fun thread_step :: "pc \<Rightarrow> SessionStateMachine \<Rightarrow> pc \<times> SessionStateMachine" where
  "thread_step (Start CallConnect) sm =
     (let (b, sm') = StateMachine_TryTransitionToConnected sm in (Done CallConnect b, sm'))"
| "thread_step (Start CallAbort) sm =
     (let (b, sm') = StateMachine_TryAbortReserved sm in (Done CallAbort b, sm'))"
| "thread_step (Start CallRelease) sm =
     (case cas RESERVED RELEASING sm of
        (True, sm') \<Rightarrow> (Done CallRelease True, sm') | (False, sm') \<Rightarrow> (SecondCas, sm'))"
| "thread_step SecondCas sm =
     (let (b, sm') = cas CONNECTED RELEASING sm in (Done CallRelease b, sm'))"
| "thread_step (Done c b) sm = (Done c b, sm)"

text \<open>The two accesses of an undisturbed release are the operation.\<close>

lemma thread_release_undisturbed:
  "(let (p, sm1) = thread_step (Start CallRelease) sm in thread_step p sm1)
     = (let (b, sm') = StateMachine_TryTransitionToReleasing sm in (Done CallRelease b, sm'))"
  by (simp add: StateMachine_defs Let_def)

inductive race_step :: "race \<Rightarrow> race \<Rightarrow> bool" where
  race: "thread_step (pcs r t) (shared r) = (p, sm) \<Longrightarrow>
         race_step r \<lparr> shared = sm, pcs = (pcs r)(t := p) \<rparr>"

inductive_cases race_stepE: "race_step r r'"

inductive reachable :: "race \<Rightarrow> race \<Rightarrow> bool" for r0 where
  reach_start: "reachable r0 r0"
| reach_step: "reachable r0 r \<Longrightarrow> race_step r r' \<Longrightarrow> reachable r0 r'"

definition at_start :: "race \<Rightarrow> bool" where
  "at_start r \<longleftrightarrow> StateMachine_IsUsingSession (shared r) \<and> range (pcs r) \<subseteq> range Start"

definition claimed :: "pc \<Rightarrow> bool" where
  "claimed p \<longleftrightarrow> p = Done CallRelease True \<or> p = Done CallAbort True"

definition winners :: "race \<Rightarrow> nat set" where
  "winners r = {t. claimed (pcs r t)}"

definition losers :: "race \<Rightarrow> nat set" where
  "losers r = {t. pcs r t = Done CallRelease False}"

text \<open>The invariant: the state is RELEASING exactly when one thread has claimed it, it
  is never DISCONNECTED, a release between its two accesses has seen that the state is
  not RESERVED, and one that failed has seen a claim.\<close>

definition race_inv :: "race \<Rightarrow> bool" where
  "race_inv r \<longleftrightarrow> sm_state (shared r) \<noteq> DISCONNECTED \<and>
     (if sm_state (shared r) = RELEASING then \<exists>t. winners r = {t} else winners r = {}) \<and>
     ((\<exists>t. pcs r t = SecondCas) \<longrightarrow> sm_state (shared r) \<noteq> RESERVED) \<and>
     (losers r \<noteq> {} \<longrightarrow> sm_state (shared r) = RELEASING)"

lemma race_inv_start: "at_start r \<Longrightarrow> race_inv r"
proof -
  assume a: "at_start r"
  then have "\<exists>c. pcs r t = Start c" for t unfolding at_start_def by blast
  then have "pcs r t \<noteq> SecondCas" "\<not> claimed (pcs r t)" "pcs r t \<noteq> Done CallRelease False" for t
    by (metis pc.distinct(1,3) claimed_def)+
  with a show ?thesis
    by (auto simp: race_inv_def winners_def losers_def at_start_def StateMachine_IsUsingSession_def)
qed

lemma winners_update:
  "winners \<lparr> shared = sm, pcs = (pcs r)(t := p) \<rparr>
     = (if claimed p then insert t (winners r) else winners r - {t})"
  by (auto simp: winners_def)

lemma losers_update:
  "losers \<lparr> shared = sm, pcs = (pcs r)(t := p) \<rparr>
     = (if p = Done CallRelease False then insert t (losers r) else losers r - {t})"
  by (auto simp: losers_def)

lemma race_inv_step:
  assumes "race_step r r'" "race_inv r"
  shows "race_inv r'"
proof -
  from assms(1) obtain t p sm where 1: "thread_step (pcs r t) (shared r) = (p, sm)"
    "r' = \<lparr> shared = sm, pcs = (pcs r)(t := p) \<rparr>"
    by (auto elim: race_stepE)
  have not_in: "\<not> claimed (pcs r t) \<Longrightarrow> winners r - {t} = winners r"
    "pcs r t \<noteq> Done CallRelease False \<Longrightarrow> losers r - {t} = losers r"
    by (auto simp: winners_def losers_def)
  have in_done: "pcs r t = Done c b \<Longrightarrow> r' = r" for c b
    using 1 by (cases r) (auto simp: fun_upd_idem)
  show ?thesis
  proof (cases "pcs r t")
    case (Done c b)
    with in_done assms(2) show ?thesis by simp
  next
    case SecondCas
    with 1 assms(2) not_in show ?thesis
      by (cases "sm_state (shared r)")
         (auto simp: race_inv_def winners_update losers_update claimed_def StateMachine_defs)
  next
    case (Start c)
    with 1 assms(2) not_in show ?thesis
      by (cases c; cases "sm_state (shared r)")
         (auto simp: race_inv_def winners_update losers_update claimed_def StateMachine_defs)
  qed
qed

lemma race_inv_reachable: "reachable r0 r \<Longrightarrow> at_start r0 \<Longrightarrow> race_inv r"
  by (induction rule: reachable.induct) (simp_all add: race_inv_start race_inv_step)

text \<open>C21: any number of threads race to connect, release or abort a session in use, each
  compare-and-swap interleaved with the others' in any order. At every moment at most one
  thread has claimed the release, the state is RELEASING exactly when one has, and when a
  release reports failure some other thread has already claimed it; so a session that is
  asked to end ends exactly once.\<close>

theorem release_claimed_once:
  assumes "at_start r0" "reachable r0 r"
  shows "(sm_state (shared r) = RELEASING \<longleftrightarrow> (\<exists>t. winners r = {t})) \<and>
         (sm_state (shared r) \<noteq> RELEASING \<longrightarrow> winners r = {} \<and> losers r = {}) \<and>
         sm_state (shared r) \<noteq> DISCONNECTED"
  using race_inv_reachable [OF assms(2,1)]
  by (auto simp: race_inv_def split: if_splits)

definition race_example :: race where
  "race_example = \<lparr> shared = \<lparr> sm_state = RESERVED \<rparr>,
     pcs = (\<lambda>t. Start (if t = 0 then CallAbort else CallRelease)) \<rparr>"

theorem release_claimed_once_witness:
  "winners \<lparr> shared = \<lparr> sm_state = RELEASING \<rparr>, pcs = (pcs race_example)(0 := Done CallAbort True) \<rparr> \<noteq> {}"
proof -
  let ?r = "\<lparr> shared = \<lparr> sm_state = RELEASING \<rparr>, pcs = (pcs race_example)(0 := Done CallAbort True) \<rparr>"
  have "at_start race_example"
    by (auto simp: at_start_def race_example_def StateMachine_defs)
  moreover have "race_step race_example ?r"
    using race_step.race [of race_example 0 "Done CallAbort True" "\<lparr> sm_state = RELEASING \<rparr>"]
    by (simp add: race_example_def StateMachine_defs)
  ultimately show ?thesis
    using release_claimed_once [of race_example ?r] reachable.intros by fastforce
qed

section \<open>The life of the state over any calls\<close>

datatype sm_op = Op_SetReserved | Op_Connect | Op_Release | Op_Abort | Op_SetDisconnected | Op_Reset

fun sm_exec :: "sm_op \<Rightarrow> SessionStateMachine \<Rightarrow> bool \<times> SessionStateMachine" where
  "sm_exec Op_SetReserved sm = (True, StateMachine_SetReserved sm)"
| "sm_exec Op_Connect sm = StateMachine_TryTransitionToConnected sm"
| "sm_exec Op_Release sm = StateMachine_TryTransitionToReleasing sm"
| "sm_exec Op_Abort sm = StateMachine_TryAbortReserved sm"
| "sm_exec Op_SetDisconnected sm = (True, StateMachine_SetDisconnected sm)"
| "sm_exec Op_Reset sm = (True, StateMachine_Reset sm)"

fun claims :: "sm_op list \<Rightarrow> SessionStateMachine \<Rightarrow> nat" where
  "claims [] sm = 0"
| "claims (op # ops) sm =
     (if (op = Op_Release \<or> op = Op_Abort) \<and> fst (sm_exec op sm) then 1 else 0)
     + claims ops (snd (sm_exec op sm))"

definition in_use :: "SessionStateMachine \<Rightarrow> nat" where
  "in_use sm = (if StateMachine_IsUsingSession sm then 1 else 0)"

lemma claims_bound: "claims ops sm \<le> in_use sm + length (filter (\<lambda>op. op = Op_SetReserved) ops)"
proof (induction ops arbitrary: sm)
  case (Cons op ops)
  have "(if (op = Op_Release \<or> op = Op_Abort) \<and> fst (sm_exec op sm) then 1 else 0)
      + in_use (snd (sm_exec op sm)) \<le> in_use sm + (if op = Op_SetReserved then 1 else 0)"
    by (cases op; cases "sm_state sm") (simp_all add: in_use_def StateMachine_defs)
  with Cons.IH [of "snd (sm_exec op sm)"] show ?case by (auto split: if_splits)
qed simp

text \<open>Over any sequence of calls on a fresh state machine, a session is claimed for
  release (by \<open>TryTransitionToReleasing\<close> or \<open>TryAbortReserved\<close>) at most as often as it
  was reserved: no session is released twice without having been handed out in between.\<close>

theorem claims_bounded_by_reservations:
  "claims ops StateMachine_new \<le> length (filter (\<lambda>op. op = Op_SetReserved) ops)"
  using claims_bound [of ops StateMachine_new] by (simp add: in_use_def StateMachine_defs)

end
