(* ===== verification/Packet_Orderer.thy ===== *)
theory Packet_Orderer
  imports Prelude
begin

text \<open>
  MultiSocketRUDPServer/SessionPacketOrderer: delivery of the packets of a session in
  sequence order. Packets from the future are held (with a reference of their own) until
  every earlier one has been delivered.

  The callback that processes a packet is an argument and runs on its own state \<open>'s\<close>;
  the code calls the orderer from one thread per session and the callback does not call
  it back. The unordered map of held packets is an association list with distinct keys.
  \<open>bufferRefs\<close> counts, per buffer, the references the orderer has taken with
  \<open>NetBuffer::AddRefCount\<close> and not given back with \<open>NetBuffer::Free\<close>.
\<close>

section \<open>State and operations\<close>

datatype ON_RECV_RESULT = PROCESSED | DUPLICATED_RECV | PACKET_HELD | ERROR_OCCURED

record 'b PacketOrderer =
  nextRecvPacketSequence :: PacketSequence
  recvHoldingPackets :: "(PacketSequence \<times> 'b) list"
  maxHoldingQueueSize :: byte
  bufferRefs :: "'b \<Rightarrow> int"

type_synonym ('b, 's) packet_callback = "'b \<Rightarrow> PacketSequence \<Rightarrow> 's \<Rightarrow> bool \<times> 's"

definition AddRefCount :: "'b \<Rightarrow> 'b PacketOrderer \<Rightarrow> 'b PacketOrderer" where
  "AddRefCount b o1 = o1\<lparr> bufferRefs := (bufferRefs o1)(b := bufferRefs o1 b + 1) \<rparr>"

definition FreeBuffer :: "'b \<Rightarrow> 'b PacketOrderer \<Rightarrow> 'b PacketOrderer" where
  "FreeBuffer b o1 = o1\<lparr> bufferRefs := (bufferRefs o1)(b := bufferRefs o1 b - 1) \<rparr>"

definition hold_erase :: "PacketSequence \<Rightarrow> (PacketSequence \<times> 'b) list \<Rightarrow> (PacketSequence \<times> 'b) list" where
  "hold_erase q h = filter (\<lambda>p. fst p \<noteq> q) h"

definition Orderer_new :: "byte \<Rightarrow> 'b PacketOrderer" where
  "Orderer_new inMaxHoldingQueueSize =
     \<lparr> nextRecvPacketSequence = 0, recvHoldingPackets = [],
       maxHoldingQueueSize = inMaxHoldingQueueSize, bufferRefs = (\<lambda>_. 0) \<rparr>"

definition Orderer_GetNextExpected :: "'b PacketOrderer \<Rightarrow> PacketSequence" where
  "Orderer_GetNextExpected o1 = nextRecvPacketSequence o1"

definition Orderer_ProcessAndAdvance ::
    "('b, 's) packet_callback \<Rightarrow> 'b \<Rightarrow> PacketSequence \<Rightarrow> 'b PacketOrderer \<Rightarrow> 's
       \<Rightarrow> bool \<times> 'b PacketOrderer \<times> 's" where
  "Orderer_ProcessAndAdvance cb buffer sequence o1 s =
     (let o2 = o1\<lparr> nextRecvPacketSequence := nextRecvPacketSequence o1 + 1 \<rparr>;
          (ok, s1) = cb buffer sequence s
      in if \<not> ok then (False, o2, s1)
         else (True, o2\<lparr> recvHoldingPackets := hold_erase sequence (recvHoldingPackets o2) \<rparr>, s1))"

lemma hold_erase_simps [simp]:
  "hold_erase q [] = []"
  "hold_erase q (p # h) = (if fst p = q then hold_erase q h else p # hold_erase q h)"
  by (simp_all add: hold_erase_def)

lemma hold_erase_le: "length (hold_erase q h) \<le> length h"
  by (simp add: hold_erase_def)

lemma hold_erase_idem [simp]: "hold_erase q (hold_erase q h) = hold_erase q h"
  by (simp add: hold_erase_def)

lemma hold_erase_length:
  "map_of h q = Some b \<Longrightarrow> length (hold_erase q h) < length h"
  unfolding hold_erase_def by (rule length_filter_less [of "(q, b)"]) (auto dest: map_of_SomeD)

lemma ProcessAndAdvance_holding:
  "Orderer_ProcessAndAdvance cb b q o1 s = (ok, o2, s1) \<Longrightarrow>
   recvHoldingPackets o2 = (if ok then hold_erase q (recvHoldingPackets o1) else recvHoldingPackets o1)"
  by (auto simp: Orderer_ProcessAndAdvance_def Let_def split: prod.splits if_splits)

function Orderer_ProcessHoldingPacket ::
    "('b, 's) packet_callback \<Rightarrow> 'b PacketOrderer \<Rightarrow> 's \<Rightarrow> bool \<times> 'b PacketOrderer \<times> 's" where
  "Orderer_ProcessHoldingPacket cb o1 s =
     (let expected = nextRecvPacketSequence o1 in
      case map_of (recvHoldingPackets o1) expected of
        None \<Rightarrow> (True, o1, s)
      | Some storedBuffer \<Rightarrow>
          let o2 = o1\<lparr> recvHoldingPackets := hold_erase expected (recvHoldingPackets o1) \<rparr>;
              (ok, o3, s1) = Orderer_ProcessAndAdvance cb storedBuffer expected o2 s;
              o4 = FreeBuffer storedBuffer o3
          in if \<not> ok then (False, o4, s1) else Orderer_ProcessHoldingPacket cb o4 s1)"
  by pat_completeness auto

termination
proof (relation "measure (\<lambda>(cb, o1, s). length (recvHoldingPackets o1))", goal_cases)
  case (2 cb o1 s x b y z ok w o3 s1 o4)
  then have "length (recvHoldingPackets o4) \<le> length (hold_erase x (recvHoldingPackets o1))"
    using ProcessAndAdvance_holding [of cb b x y s ok o3 s1] hold_erase_le
    by (auto simp: FreeBuffer_def split: if_splits)
  with 2 hold_erase_length [of "recvHoldingPackets o1" x b] show ?case by auto
qed simp

declare Orderer_ProcessHoldingPacket.simps [simp del]

definition Orderer_OnReceive ::
    "('b, 's) packet_callback \<Rightarrow> PacketSequence \<Rightarrow> 'b \<Rightarrow> 'b PacketOrderer \<Rightarrow> 's
       \<Rightarrow> ON_RECV_RESULT \<times> 'b PacketOrderer \<times> 's" where
  "Orderer_OnReceive cb sequence buffer o1 s =
     (let sequenceDiff = SeqDiff sequence (nextRecvPacketSequence o1) in
      if sequenceDiff < 0 then (DUPLICATED_RECV, o1, s)
      else if sequenceDiff = 0 then
        let (ok, o2, s2) = Orderer_ProcessAndAdvance cb buffer sequence o1 s in
        if \<not> ok then (ERROR_OCCURED, o2, s2)
        else let (ok2, o3, s3) = Orderer_ProcessHoldingPacket cb o2 s2 in
             (if \<not> ok2 then ERROR_OCCURED else PROCESSED, o3, s3)
      else if sequence \<notin> set (map fst (recvHoldingPackets o1)) then
        if length (recvHoldingPackets o1) \<ge> unat (maxHoldingQueueSize o1) then (ERROR_OCCURED, o1, s)
        else let o2 = AddRefCount buffer o1 in
             (PACKET_HELD,
              o2\<lparr> recvHoldingPackets := (sequence, buffer) # recvHoldingPackets o2 \<rparr>, s)
      else (PACKET_HELD, o1, s))"

definition Orderer_Reset :: "PacketSequence \<Rightarrow> 'b PacketOrderer \<Rightarrow> 'b PacketOrderer" where
  "Orderer_Reset startSequence o1 =
     (let o2 = o1\<lparr> nextRecvPacketSequence := startSequence \<rparr>;
          o3 = fold (\<lambda>p. FreeBuffer (snd p)) (recvHoldingPackets o2) o2
      in o3\<lparr> recvHoldingPackets := [] \<rparr>)"

definition Orderer_SetMaximumHoldingQueueSize :: "byte \<Rightarrow> 'b PacketOrderer \<Rightarrow> 'b PacketOrderer" where
  "Orderer_SetMaximumHoldingQueueSize n o1 = o1\<lparr> maxHoldingQueueSize := n \<rparr>"

definition Orderer_Initialize :: "byte \<Rightarrow> 'b PacketOrderer \<Rightarrow> 'b PacketOrderer" where
  "Orderer_Initialize n o1 = Orderer_SetMaximumHoldingQueueSize n (Orderer_Reset 0 o1)"

section \<open>What is held\<close>

text \<open>Distinct keys, all strictly after the next expected sequence, and one reference
  per held packet.\<close>

definition held_keys :: "'b PacketOrderer \<Rightarrow> PacketSequence set" where
  "held_keys o1 = fst ` set (recvHoldingPackets o1)"

definition refs_exact :: "'b PacketOrderer \<Rightarrow> bool" where
  "refs_exact o1 \<longleftrightarrow>
     (\<forall>b. bufferRefs o1 b = int (length (filter (\<lambda>p. snd p = b) (recvHoldingPackets o1))))"

definition keys_ahead :: "int \<Rightarrow> 'b PacketOrderer \<Rightarrow> bool" where
  "keys_ahead k o1 \<longleftrightarrow> (\<forall>q \<in> held_keys o1. k \<le> SeqDiff q (nextRecvPacketSequence o1))"

definition hold_wf :: "'b PacketOrderer \<Rightarrow> bool" where
  "hold_wf o1 \<longleftrightarrow> distinct (map fst (recvHoldingPackets o1)) \<and> refs_exact o1 \<and>
     length (recvHoldingPackets o1) \<le> unat (maxHoldingQueueSize o1)"

definition orderer_ok :: "'b PacketOrderer \<Rightarrow> bool" where
  "orderer_ok o1 \<longleftrightarrow> hold_wf o1 \<and> keys_ahead 1 o1"

lemma keys_ahead_erase_next:
  assumes "keys_ahead 0 o1"
  shows "keys_ahead 1 (o1\<lparr> recvHoldingPackets := hold_erase (nextRecvPacketSequence o1) (recvHoldingPackets o1) \<rparr>)"
  unfolding keys_ahead_def held_keys_def
proof (intro ballI)
  fix q assume "q \<in> fst ` set (recvHoldingPackets (o1\<lparr> recvHoldingPackets :=
    hold_erase (nextRecvPacketSequence o1) (recvHoldingPackets o1) \<rparr>))"
  then have "q \<in> held_keys o1" "q \<noteq> nextRecvPacketSequence o1"
    by (auto simp: hold_erase_def held_keys_def)
  moreover from this assms have "0 \<le> SeqDiff q (nextRecvPacketSequence o1)"
    by (simp add: keys_ahead_def)
  ultimately show "1 \<le> SeqDiff q (nextRecvPacketSequence (o1\<lparr> recvHoldingPackets :=
    hold_erase (nextRecvPacketSequence o1) (recvHoldingPackets o1) \<rparr>))"
    using SeqDiff_eq_0 [of q "nextRecvPacketSequence o1"] by (simp del: SeqDiff_eq_0)
qed

lemma keys_ahead_advance:
  assumes "keys_ahead 1 o1"
  shows "keys_ahead 0 (o1\<lparr> nextRecvPacketSequence := nextRecvPacketSequence o1 + 1 \<rparr>)"
  using assms by (auto simp: keys_ahead_def held_keys_def SeqDiff_Suc_right)

lemma hold_erase_notin: "q \<notin> fst ` set h \<Longrightarrow> hold_erase q h = h"
  unfolding hold_erase_def by (rule filter_True) (auto simp: image_def)

lemma hold_erase_count:
  assumes "distinct (map fst h)" "map_of h q = Some b"
  shows "int (length (filter (\<lambda>p. snd p = c) (hold_erase q h)))
           = int (length (filter (\<lambda>p. snd p = c) h)) - (if b = c then 1 else 0)"
  using assms by (induction h) (auto simp: hold_erase_notin split: if_splits)

text \<open>One turn of the loop over the held packets, the callback aside.\<close>

definition take_next :: "'b \<Rightarrow> 'b PacketOrderer \<Rightarrow> 'b PacketOrderer" where
  "take_next b o1 = FreeBuffer b
     (o1\<lparr> nextRecvPacketSequence := nextRecvPacketSequence o1 + 1,
          recvHoldingPackets := hold_erase (nextRecvPacketSequence o1) (recvHoldingPackets o1) \<rparr>)"

lemma ProcessHoldingPacket_unfold:
  "Orderer_ProcessHoldingPacket cb o1 s =
     (case map_of (recvHoldingPackets o1) (nextRecvPacketSequence o1) of
        None \<Rightarrow> (True, o1, s)
      | Some b \<Rightarrow> (let (ok, s1) = cb b (nextRecvPacketSequence o1) s in
          if ok then Orderer_ProcessHoldingPacket cb (take_next b o1) s1
          else (False, take_next b o1, s1)))"
  by (cases o1, subst Orderer_ProcessHoldingPacket.simps)
     (auto simp: Let_def take_next_def FreeBuffer_def Orderer_ProcessAndAdvance_def
       split: option.splits prod.splits)

lemma take_next_simps [simp]:
  "nextRecvPacketSequence (take_next b o1) = nextRecvPacketSequence o1 + 1"
  "recvHoldingPackets (take_next b o1)
     = hold_erase (nextRecvPacketSequence o1) (recvHoldingPackets o1)"
  "maxHoldingQueueSize (take_next b o1) = maxHoldingQueueSize o1"
  by (simp_all add: take_next_def FreeBuffer_def)

lemma take_next_wf:
  assumes "hold_wf o1" "map_of (recvHoldingPackets o1) (nextRecvPacketSequence o1) = Some b"
  shows "hold_wf (take_next b o1)"
  using assms hold_erase_count [OF _ assms(2)]
    le_trans [OF hold_erase_le [of "nextRecvPacketSequence o1" "recvHoldingPackets o1"]]
  by (auto simp: hold_wf_def refs_exact_def take_next_def FreeBuffer_def)
     (simp add: hold_erase_def distinct_map inj_on_def)

lemma take_next_ahead: "keys_ahead 0 o1 \<Longrightarrow> keys_ahead 0 (take_next b o1)"
  using keys_ahead_advance [OF keys_ahead_erase_next [of o1]]
  by (simp add: keys_ahead_def held_keys_def take_next_def FreeBuffer_def)

lemma ahead_not_held:
  assumes "keys_ahead 0 o1" "map_of (recvHoldingPackets o1) (nextRecvPacketSequence o1) = None"
  shows "keys_ahead 1 o1"
proof -
  have "nextRecvPacketSequence o1 \<notin> held_keys o1"
    using assms(2) by (simp add: map_of_eq_None_iff held_keys_def)
  then have "hold_erase (nextRecvPacketSequence o1) (recvHoldingPackets o1) = recvHoldingPackets o1"
    by (simp add: hold_erase_notin held_keys_def)
  with keys_ahead_erase_next [OF assms(1)] show ?thesis by simp
qed

section \<open>A rule for the callback's state\<close>

text \<open>What holds of the callback's state relative to the next expected sequence: if each
  callback on an admissible packet takes \<open>P q\<close> to \<open>P (q + 1)\<close>, or to \<open>E (q + 1)\<close> when it
  fails, then so does every reception. This is what the users of the orderer build on.\<close>

definition held_in :: "(PacketSequence \<times> 'b \<Rightarrow> bool) \<Rightarrow> 'b PacketOrderer \<Rightarrow> bool" where
  "held_in Q o1 \<longleftrightarrow> list_all Q (recvHoldingPackets o1)"

lemma held_in_take_next: "held_in Q o1 \<Longrightarrow> held_in Q (take_next b o1)"
  by (auto simp: held_in_def hold_erase_def list_all_iff)

lemma held_in_lookup:
  "held_in Q o1 \<Longrightarrow> map_of (recvHoldingPackets o1) q = Some b \<Longrightarrow> Q (q, b)"
  by (auto simp: held_in_def list_all_iff dest: map_of_SomeD)

locale ordered_callback =
  fixes cb :: "('b, 's) packet_callback"
    and Q :: "PacketSequence \<times> 'b \<Rightarrow> bool"
    and P :: "PacketSequence \<Rightarrow> 's \<Rightarrow> bool"
    and E :: "PacketSequence \<Rightarrow> 's \<Rightarrow> bool"
  assumes cb_ok: "Q (q, b) \<Longrightarrow> P q s \<Longrightarrow> cb b q s = (True, s') \<Longrightarrow> P (q + 1) s'"
    and cb_fail: "Q (q, b) \<Longrightarrow> P q s \<Longrightarrow> cb b q s = (False, s') \<Longrightarrow> E (q + 1) s'"
begin

lemma holding:
  assumes "Orderer_ProcessHoldingPacket cb o1 s = (ok, o2, s2)"
    "P (nextRecvPacketSequence o1) s" "held_in Q o1" "hold_wf o1" "keys_ahead 0 o1"
  shows "(if ok then P else E) (nextRecvPacketSequence o2) s2 \<and> held_in Q o2 \<and> hold_wf o2 \<and>
    maxHoldingQueueSize o2 = maxHoldingQueueSize o1 \<and> (ok \<longrightarrow> keys_ahead 1 o2)"
  using assms
proof (induction "length (recvHoldingPackets o1)" arbitrary: o1 s rule: less_induct)
  case less
  let ?q = "nextRecvPacketSequence o1"
  show ?case
  proof (cases "map_of (recvHoldingPackets o1) ?q")
    case None
    with less.prems ahead_not_held show ?thesis
      by (simp add: ProcessHoldingPacket_unfold [of cb o1])
  next
    case (Some b)
    obtain ok1 s1 where c: "cb b ?q s = (ok1, s1)" by (cases "cb b ?q s")
    have Q: "Q (?q, b)" by (rule held_in_lookup [OF less.prems(3) Some])
    note o2 = take_next_wf [OF less.prems(4) Some] take_next_ahead [OF less.prems(5), of b]
      held_in_take_next [OF less.prems(3), of b]
    show ?thesis
    proof (cases ok1)
      case True
      have "P (?q + 1) s1" using cb_ok [OF Q less.prems(2)] c True by simp
      with less.hyps [of "take_next b o1" s1] less.prems(1) o2 Some c True hold_erase_length [OF Some]
      show ?thesis by (simp add: ProcessHoldingPacket_unfold [of cb o1])
    next
      case False
      have "E (?q + 1) s1" using cb_fail [OF Q less.prems(2)] c False by simp
      with less.prems(1) o2 Some c False show ?thesis
        by (auto simp: ProcessHoldingPacket_unfold [of cb o1])
    qed
  qed
qed

lemma receive:
  assumes "Orderer_OnReceive cb q b o1 s = (r, o2, s2)"
    "P (nextRecvPacketSequence o1) s" "held_in Q o1" "orderer_ok o1" "Q (q, b)"
  shows "r \<noteq> ERROR_OCCURED \<Longrightarrow> P (nextRecvPacketSequence o2) s2 \<and> orderer_ok o2"
    and "r = ERROR_OCCURED \<Longrightarrow> P (nextRecvPacketSequence o2) s2 \<or> E (nextRecvPacketSequence o2) s2"
    and "held_in Q o2" and "hold_wf o2" and "maxHoldingQueueSize o2 = maxHoldingQueueSize o1"
proof -
  let ?n = "nextRecvPacketSequence o1"
  have wf: "hold_wf o1" and ahead: "keys_ahead 1 o1" using assms(4) by (simp_all add: orderer_ok_def)
  have "((r \<noteq> ERROR_OCCURED \<longrightarrow> P (nextRecvPacketSequence o2) s2 \<and> orderer_ok o2) \<and>
      (r = ERROR_OCCURED \<longrightarrow> P (nextRecvPacketSequence o2) s2 \<or> E (nextRecvPacketSequence o2) s2) \<and>
      held_in Q o2 \<and> hold_wf o2 \<and> maxHoldingQueueSize o2 = maxHoldingQueueSize o1)"
  proof (cases "SeqDiff q ?n = 0")
    case True
    then have q: "q = ?n" by simp
    have "?n \<notin> fst ` set (recvHoldingPackets o1)"
      using ahead by (force simp: keys_ahead_def held_keys_def)
    then have er: "hold_erase ?n (recvHoldingPackets o1) = recvHoldingPackets o1"
      by (rule hold_erase_notin)
    let ?o = "o1\<lparr> nextRecvPacketSequence := ?n + 1 \<rparr>"
    have o: "hold_wf ?o" "keys_ahead 0 ?o" "held_in Q ?o"
      using wf keys_ahead_advance [OF ahead] assms(3)
      by (simp_all add: hold_wf_def refs_exact_def held_in_def)
    obtain ok1 s1 where c: "cb b q s = (ok1, s1)" by (cases "cb b q s")
    have adv: "Orderer_ProcessAndAdvance cb b q o1 s = (ok1, ?o, s1)"
      using er c q by (cases o1) (simp add: Orderer_ProcessAndAdvance_def Let_def)
    show ?thesis
    proof (cases ok1)
      case True
      have P: "P (nextRecvPacketSequence ?o) s1" using cb_ok [OF assms(5)] assms(2) c True q by simp
      obtain ok2 o3 s3 where h: "Orderer_ProcessHoldingPacket cb ?o s1 = (ok2, o3, s3)"
        by (cases "Orderer_ProcessHoldingPacket cb ?o s1") auto
      have "r = (if ok2 then PROCESSED else ERROR_OCCURED)" "o2 = o3" "s2 = s3"
        using assms(1) True adv h q by (auto simp: Orderer_OnReceive_def Let_def)
      with holding [OF h P o(3,1,2)] show ?thesis by (cases ok2) (simp_all add: orderer_ok_def)
    next
      case False
      have "E (?n + 1) s1" using cb_fail [OF assms(5)] assms(2) c False q by simp
      moreover have "r = ERROR_OCCURED" "o2 = ?o" "s2 = s1"
        using assms(1) False adv q by (auto simp: Orderer_OnReceive_def Let_def)
      ultimately show ?thesis using o by simp
    qed
  next
    case False
    then have pos: "\<not> SeqDiff q ?n < 0 \<Longrightarrow> 1 \<le> SeqDiff q ?n" by linarith
    with False assms ahead wf show ?thesis
      by (force simp: Orderer_OnReceive_def Let_def AddRefCount_def orderer_ok_def hold_wf_def
            refs_exact_def keys_ahead_def held_keys_def held_in_def split: if_splits)
  qed
  then show "r \<noteq> ERROR_OCCURED \<Longrightarrow> P (nextRecvPacketSequence o2) s2 \<and> orderer_ok o2"
    "r = ERROR_OCCURED \<Longrightarrow> P (nextRecvPacketSequence o2) s2 \<or> E (nextRecvPacketSequence o2) s2"
    "held_in Q o2" "hold_wf o2" "maxHoldingQueueSize o2 = maxHoldingQueueSize o1"
    by simp_all
qed

end

text \<open>What every callback keeps, every reception keeps.\<close>

locale callback_invariant =
  fixes cb :: "('b, 's) packet_callback"
    and J :: "'s \<Rightarrow> bool"
  assumes cb_keeps: "J s \<Longrightarrow> cb b q s = (ok, s') \<Longrightarrow> J s'"
begin

lemma advance_keeps: "Orderer_ProcessAndAdvance cb b q o1 s = (ok, o2, s2) \<Longrightarrow> J s \<Longrightarrow> J s2"
  by (auto simp: Orderer_ProcessAndAdvance_def Let_def split: prod.splits if_splits dest: cb_keeps)

lemma holding_keeps: "Orderer_ProcessHoldingPacket cb o1 s = (ok, o2, s2) \<Longrightarrow> J s \<Longrightarrow> J s2"
proof (induction "length (recvHoldingPackets o1)" arbitrary: o1 s rule: less_induct)
  case less
  let ?q = "nextRecvPacketSequence o1"
  show ?case
  proof (cases "map_of (recvHoldingPackets o1) ?q")
    case None
    with less.prems show ?thesis by (simp add: ProcessHoldingPacket_unfold [of cb o1])
  next
    case (Some b)
    obtain ok1 s1 where c: "cb b ?q s = (ok1, s1)" by (cases "cb b ?q s")
    have s1: "J s1" using less.prems(2) c by (rule cb_keeps)
    with less.hyps [of "take_next b o1" s1] less.prems(1) Some c hold_erase_length [OF Some]
    show ?thesis by (cases ok1) (auto simp: ProcessHoldingPacket_unfold [of cb o1])
  qed
qed

lemma receive_keeps: "Orderer_OnReceive cb q b o1 s = (r, o2, s2) \<Longrightarrow> J s \<Longrightarrow> J s2"
  by (auto simp: Orderer_OnReceive_def Let_def split: if_splits prod.splits
      dest: advance_keeps holding_keeps)

end

section \<open>Delivery over any arrivals\<close>

text \<open>The callback of a session with a log of what it was given, and the packets of a
  session fed to its orderer until one fails, which is when the session disconnects.\<close>

definition logged :: "('b, 's) packet_callback \<Rightarrow> ('b, 's \<times> (PacketSequence \<times> 'b) list) packet_callback" where
  "logged cb b q = (\<lambda>(s, log). let (ok, s') = cb b q s in (ok, s', log @ [(q, b)]))"

fun receive_all ::
    "('b, 's) packet_callback \<Rightarrow> (PacketSequence \<times> 'b) list \<Rightarrow> 'b PacketOrderer \<Rightarrow> 's
       \<Rightarrow> ON_RECV_RESULT list \<times> 'b PacketOrderer \<times> 's" where
  "receive_all cb [] o1 s = ([], o1, s)"
| "receive_all cb ((q, b) # ps) o1 s =
     (case Orderer_OnReceive cb q b o1 s of
        (ERROR_OCCURED, o2, s2) \<Rightarrow> ([ERROR_OCCURED], o2, s2)
      | (r, o2, s2) \<Rightarrow> (let (rs, o3, s3) = receive_all cb ps o2 s2 in (r # rs, o3, s3)))"

definition in_order_log ::
    "PacketSequence \<Rightarrow> (PacketSequence \<times> 'b) set \<Rightarrow> PacketSequence \<Rightarrow> 's \<times> (PacketSequence \<times> 'b) list \<Rightarrow> bool" where
  "in_order_log start S q st \<longleftrightarrow>
     map fst (snd st) = map (\<lambda>i. start + of_nat i) [0..<length (snd st)] \<and>
     q = start + of_nat (length (snd st)) \<and> set (snd st) \<subseteq> S"

lemma in_order_log_step:
  assumes "in_order_log start S q st" "(q, b) \<in> S"
  shows "in_order_log start S (q + 1) (s', snd st @ [(q, b)])"
  using assms by (simp add: in_order_log_def add.assoc)

interpretation delivery: ordered_callback "logged cb" "\<lambda>p. p \<in> S"
  "in_order_log start S" "in_order_log start S"
  for cb :: "('b, 's) packet_callback" and S start
proof
  fix q b and s s' :: "'s \<times> (PacketSequence \<times> 'b) list" and ok
  assume S: "(q, b) \<in> S" and log: "in_order_log start S q s"
  have step: "logged cb b q s = (ok, s') \<Longrightarrow> in_order_log start S (q + 1) s'" for ok
    using in_order_log_step [OF log S] by (auto simp: logged_def split: prod.splits)
  show "logged cb b q s = (True, s') \<Longrightarrow> in_order_log start S (q + 1) s'" by (rule step)
  show "logged cb b q s = (False, s') \<Longrightarrow> in_order_log start S (q + 1) s'" by (rule step)
qed

lemma receive_all_delivery:
  assumes "receive_all (logged cb) ps o1 st = (rs, o2, st2)" "set ps \<subseteq> S"
    "in_order_log start S (nextRecvPacketSequence o1) st" "held_in (\<lambda>p. p \<in> S) o1" "orderer_ok o1"
  shows "in_order_log start S (nextRecvPacketSequence o2) st2 \<and> held_in (\<lambda>p. p \<in> S) o2 \<and>
         hold_wf o2 \<and> (ERROR_OCCURED \<notin> set rs \<longrightarrow> orderer_ok o2)"
  using assms
proof (induction ps arbitrary: o1 st rs)
  case Nil
  then show ?case by (auto simp: orderer_ok_def)
next
  case (Cons p ps)
  obtain q b where p: "p = (q, b)" by (cases p)
  obtain r o3 st3 where e: "Orderer_OnReceive (logged cb) q b o1 st = (r, o3, st3)"
    by (cases "Orderer_OnReceive (logged cb) q b o1 st") auto
  note d = delivery.receive [OF e Cons.prems(3,4,5)]
  have S: "(q, b) \<in> S" "set ps \<subseteq> S" using Cons.prems(2) p by simp_all
  show ?case
  proof (cases "r = ERROR_OCCURED")
    case True
    with Cons.prems(1) e p d S show ?thesis by auto
  next
    case False
    obtain rs' o4 st4 where h: "receive_all (logged cb) ps o3 st3 = (rs', o4, st4)"
      by (cases "receive_all (logged cb) ps o3 st3") auto
    have rs: "rs = r # rs'" and h2: "receive_all (logged cb) ps o3 st3 = (rs', o2, st2)"
      using Cons.prems(1) e p h False by (cases r; auto)+
    from Cons.IH [OF h2 S(2)] d S(1) False rs show ?thesis by auto
  qed
qed

lemma orderer_ok_start:
  "orderer_ok (Orderer_Reset q (Orderer_new n))" "recvHoldingPackets (Orderer_Reset q (Orderer_new n)) = []"
  "nextRecvPacketSequence (Orderer_Reset q (Orderer_new n)) = q"
  by (simp_all add: orderer_ok_def hold_wf_def refs_exact_def keys_ahead_def held_keys_def
        Orderer_Reset_def Orderer_new_def)

text \<open>C10: exactly-once in-order delivery: whatever packets arrive on a fresh orderer, in
  any order and with any duplicates, and whatever the callback does, the callback is given
  the sequences \<open>start, start + 1, ...\<close> without a gap or a repetition, each with a buffer
  that arrived under that sequence, and the next expected sequence is the first not
  delivered. What is held arrived, is held once, and holds one reference; while nothing
  failed, everything held is still in the future, so nothing deliverable is kept back.\<close>

theorem orderer_delivers_in_order_once:
  fixes cb :: "('b, 's) packet_callback" and ps start n s
  defines "res \<equiv> receive_all (logged cb) ps (Orderer_Reset start (Orderer_new n)) (s, [])"
  defines "rs \<equiv> fst res" and "o2 \<equiv> fst (snd res)" and "log \<equiv> snd (snd (snd res))"
  shows "map fst log = map (\<lambda>i. start + of_nat i) [0..<length log] \<and> set log \<subseteq> set ps \<and>
         nextRecvPacketSequence o2 = start + of_nat (length log) \<and>
         set (recvHoldingPackets o2) \<subseteq> set ps \<and> hold_wf o2 \<and>
         (if ERROR_OCCURED \<in> set rs then True else keys_ahead 1 o2)"
proof -
  let ?o = "Orderer_Reset start (Orderer_new n) :: 'b PacketOrderer"
  have "receive_all (logged cb) ps ?o (s, []) = (rs, o2, snd (snd res))"
    by (simp add: res_def rs_def o2_def)
  moreover have "in_order_log start (set ps) (nextRecvPacketSequence ?o) (s, [])"
    "held_in (\<lambda>p. p \<in> set ps) ?o"
    by (simp_all add: in_order_log_def held_in_def orderer_ok_start)
  ultimately have "in_order_log start (set ps) (nextRecvPacketSequence o2) (snd (snd res)) \<and>
      held_in (\<lambda>p. p \<in> set ps) o2 \<and> hold_wf o2 \<and> (ERROR_OCCURED \<notin> set rs \<longrightarrow> orderer_ok o2)"
    using receive_all_delivery [OF _ subset_refl] orderer_ok_start(1) by blast
  then show ?thesis
    by (auto simp: in_order_log_def held_in_def list_all_iff log_def orderer_ok_def)
qed

section \<open>Each result of a reception\<close>

text \<open>What a reception returns, on every branch: a past sequence is a duplicate and
  changes nothing; a future sequence is held with one more reference when it is new and
  there is room, is reported held without any effect when it is held already, and is an
  error without any effect when the holding queue is full.\<close>

theorem orderer_receive_branches:
  fixes q o1 s b cb
  defines "d \<equiv> SeqDiff q (nextRecvPacketSequence o1)" and "res \<equiv> Orderer_OnReceive cb q b o1 s"
  assumes "d \<noteq> 0"
  shows "if d < 0 then res = (DUPLICATED_RECV, o1, s)
         else if q \<in> held_keys o1 then res = (PACKET_HELD, o1, s)
         else if length (recvHoldingPackets o1) < unat (maxHoldingQueueSize o1) then
           \<exists>o2. res = (PACKET_HELD, o2, s) \<and> held_keys o2 = insert q (held_keys o1) \<and>
                map_of (recvHoldingPackets o2) q = Some b \<and>
                bufferRefs o2 b = bufferRefs o1 b + 1 \<and>
                nextRecvPacketSequence o2 = nextRecvPacketSequence o1
         else res = (ERROR_OCCURED, o1, s)"
  using assms(3)
  unfolding d_def res_def
  by (auto simp: Orderer_OnReceive_def Let_def held_keys_def AddRefCount_def)

theorem orderer_receive_branches_witness:
  "fst (Orderer_OnReceive (\<lambda>b q s. (True, s)) 3 ''b'' (Orderer_new 2) (0::nat)) = PACKET_HELD"
proof -
  have "SeqDiff 3 (nextRecvPacketSequence (Orderer_new 2 :: string PacketOrderer)) = 3"
    by code_simp
  moreover have "3 \<notin> held_keys (Orderer_new 2 :: string PacketOrderer)"
    "length (recvHoldingPackets (Orderer_new 2 :: string PacketOrderer))
       < unat (maxHoldingQueueSize (Orderer_new 2 :: string PacketOrderer))"
    by (simp_all add: Orderer_new_def held_keys_def)
  ultimately show ?thesis
    using orderer_receive_branches [of 3 "Orderer_new 2" "\<lambda>b q s. (True, s)" "''b''" "0::nat"]
    by auto
qed

text \<open>The reset gives back every reference the orderer holds.\<close>

lemma fold_FreeBuffer:
  "bufferRefs (fold (\<lambda>p. FreeBuffer (snd p)) h o1) b
     = bufferRefs o1 b - int (length (filter (\<lambda>p. snd p = b) h))"
  by (induction h arbitrary: o1) (auto simp: FreeBuffer_def)

lemma fold_FreeBuffer_frame:
  "nextRecvPacketSequence (fold (\<lambda>p. FreeBuffer (snd p)) h o1) = nextRecvPacketSequence o1"
  "maxHoldingQueueSize (fold (\<lambda>p. FreeBuffer (snd p)) h o1) = maxHoldingQueueSize o1"
  by (induction h arbitrary: o1) (simp_all add: FreeBuffer_def)

lemma Orderer_Reset_ok:
  assumes "hold_wf o1"
  shows "orderer_ok (Orderer_Reset q o1)" "recvHoldingPackets (Orderer_Reset q o1) = []"
    "nextRecvPacketSequence (Orderer_Reset q o1) = q"
    "bufferRefs (Orderer_Reset q o1) = (\<lambda>_. 0)"
    "maxHoldingQueueSize (Orderer_Reset q o1) = maxHoldingQueueSize o1"
proof -
  show refs: "bufferRefs (Orderer_Reset q o1) = (\<lambda>_. 0)"
    using assms by (auto simp: Orderer_Reset_def Let_def fold_FreeBuffer hold_wf_def refs_exact_def)
  show "recvHoldingPackets (Orderer_Reset q o1) = []" "nextRecvPacketSequence (Orderer_Reset q o1) = q"
    "maxHoldingQueueSize (Orderer_Reset q o1) = maxHoldingQueueSize o1"
    by (simp_all add: Orderer_Reset_def Let_def fold_FreeBuffer_frame)
  with refs show "orderer_ok (Orderer_Reset q o1)"
    by (simp add: orderer_ok_def hold_wf_def refs_exact_def keys_ahead_def held_keys_def)
qed

end
