(* ===== verification/Net_Buffer.thy ===== *)
theory Net_Buffer
  imports Prelude
begin

text \<open>
  The packet buffer. \<open>NetBuffer\<close> is a class of the library CommonCode, which is a git
  submodule and not in the repository: only the fields that the repository's own code
  reads and writes are a record here, and every method the code calls is a field of
  \<open>NetBufferApi\<close>, an argument of the definitions that use it. What Docs/Server/PacketFormat.md
  documents of the methods is the hypothesis \<open>netbuffer_laws\<close> of the properties that
  need it; \<open>documented_api\<close> is an instance of it.

  The theory also holds the little-endian bytes of integers and slices of memory.
\<close>

section \<open>Memory\<close>

definition slice :: "nat \<Rightarrow> nat \<Rightarrow> 'a list \<Rightarrow> 'a list" where
  "slice off n mem = take n (drop off mem)"

definition patch :: "nat \<Rightarrow> 'a list \<Rightarrow> 'a list \<Rightarrow> 'a list" where
  "patch off bs mem = take off mem @ bs @ drop (off + length bs) mem"

lemma length_slice [simp]: "off + n \<le> length mem \<Longrightarrow> length (slice off n mem) = n"
  by (simp add: slice_def)

lemma length_patch [simp]: "off + length bs \<le> length mem \<Longrightarrow> length (patch off bs mem) = length mem"
  by (simp add: patch_def)

lemma slice_nth: "i < n \<Longrightarrow> off + n \<le> length mem \<Longrightarrow> slice off n mem ! i = mem ! (off + i)"
  by (simp add: slice_def)

lemma patch_nth:
  "off + length bs \<le> length mem \<Longrightarrow> i < length mem \<Longrightarrow>
   patch off bs mem ! i = (if off \<le> i \<and> i < off + length bs then bs ! (i - off) else mem ! i)"
  by (auto simp: patch_def nth_append min_def not_less not_le add.commute)

lemma slice_patch_same:
  "off + length bs \<le> length mem \<Longrightarrow> n = length bs \<Longrightarrow> slice off n (patch off bs mem) = bs"
  by (simp add: slice_def patch_def)

lemma slice_patch_other:
  assumes "off + length bs \<le> length mem" "o2 + n \<le> length mem" "o2 + n \<le> off \<or> off + length bs \<le> o2"
  shows "slice o2 n (patch off bs mem) = slice o2 n mem"
proof (rule nth_equalityI)
  show "length (slice o2 n (patch off bs mem)) = length (slice o2 n mem)" using assms by simp
next
  fix i assume "i < length (slice o2 n (patch off bs mem))"
  then have "i < n" using assms by simp
  with assms show "slice o2 n (patch off bs mem) ! i = slice o2 n mem ! i"
    by (auto simp: slice_nth patch_nth)
qed

section \<open>Little-endian integers\<close>

definition le_bytes :: "nat \<Rightarrow> 'a::len word \<Rightarrow> byte list" where
  "le_bytes n w = map (\<lambda>i. ucast (drop_bit (8 * i) w)) [0..<n]"

fun le_word :: "byte list \<Rightarrow> 'a::len word" where
  "le_word [] = 0"
| "le_word (b # bs) = ucast b OR push_bit 8 (le_word bs)"

lemma length_le_bytes [simp]: "length (le_bytes n w) = n"
  by (simp add: le_bytes_def)

lemma bit_le_word:
  "bit (le_word bs :: 'a::len word) n \<longleftrightarrow>
     n < LENGTH('a) \<and> n div 8 < length bs \<and> bit (bs ! (n div 8)) (n mod 8)"
proof (induction bs arbitrary: n)
  case (Cons b bs)
  show ?case
  proof (cases "n < 8")
    case True
    then show ?thesis by (simp add: bit_simps)
  next
    case False
    then obtain m where n: "n = m + 8" by (metis le_add_diff_inverse2 not_less)
    have "(m + 8) div 8 = Suc (m div 8)" "(m + 8) mod 8 = m mod 8" by simp_all
    moreover have "bit (ucast b :: 'a word) n \<longleftrightarrow> False"
      using n bit_imp_le_length [of b n] by (auto simp: bit_simps)
    ultimately show ?thesis
      using Cons [of m] n by (auto simp: bit_simps dest: bit_imp_le_length)
  qed
qed simp

lemma le_word_le_bytes:
  fixes w :: "'a::len word"
  assumes "LENGTH('a) \<le> 8 * n"
  shows "le_word (le_bytes n w) = w"
proof (rule bit_word_eqI)
  fix k assume k: "k < LENGTH('a)"
  have "k div 8 < n" using k assms by (simp add: div_less_iff_less_mult mult.commute)
  moreover have "8 * (k div 8) + k mod 8 = k" by simp
  ultimately show "bit (le_word (le_bytes n w) :: 'a word) k \<longleftrightarrow> bit w k"
    using k by (simp add: bit_le_word le_bytes_def bit_simps)
qed

section \<open>The buffer\<close>

record NetBuffer =
  m_pSerializeBuffer :: "byte list"
  m_iRead :: ushort
  m_iWrite :: ushort
  m_iWriteLast :: ushort
  m_bIsEncoded :: bool

abbreviation (input) df_HEADER_SIZE :: nat where "df_HEADER_SIZE \<equiv> 5"

text \<open>\<open>nb_write\<close> is the operator << of a value with these bytes, and WriteBuffer;
  \<open>nb_read n\<close> is the operator >> of an \<open>n\<close>-byte value, and ReadBuffer.\<close>

record NetBufferApi =
  nb_Alloc :: NetBuffer
  nb_headerCode :: byte
  nb_GetUseSize :: "NetBuffer \<Rightarrow> int"
  nb_GetAllUseSize :: "NetBuffer \<Rightarrow> nat"
  nb_GetBufferPtr :: "NetBuffer \<Rightarrow> byte list"
  nb_write :: "byte list \<Rightarrow> NetBuffer \<Rightarrow> NetBuffer"
  nb_read :: "nat \<Rightarrow> NetBuffer \<Rightarrow> byte list \<times> NetBuffer"

text \<open>What the documentation says of the methods, within the capacity of a buffer.\<close>

definition write_law :: "NetBufferApi \<Rightarrow> bool" where
  "write_law api \<longleftrightarrow>
     (\<forall>bs p. unat (m_iWrite p) + length bs \<le> length (m_pSerializeBuffer p) \<longrightarrow>
             length (m_pSerializeBuffer p) < 65536 \<longrightarrow>
        nb_write api bs p = p\<lparr> m_pSerializeBuffer := patch (unat (m_iWrite p)) bs (m_pSerializeBuffer p),
                               m_iWrite := m_iWrite p + of_nat (length bs) \<rparr>)"

definition read_law :: "NetBufferApi \<Rightarrow> bool" where
  "read_law api \<longleftrightarrow>
     (\<forall>n p. unat (m_iRead p) + n \<le> length (m_pSerializeBuffer p) \<longrightarrow>
            length (m_pSerializeBuffer p) < 65536 \<longrightarrow>
        nb_read api n p = (slice (unat (m_iRead p)) n (m_pSerializeBuffer p),
                           p\<lparr> m_iRead := m_iRead p + of_nat n \<rparr>))"

definition size_law :: "NetBufferApi \<Rightarrow> bool" where
  "size_law api \<longleftrightarrow> (\<forall>p. nb_GetUseSize api p = uint (m_iWrite p) - uint (m_iRead p))"

definition netbuffer_laws :: "NetBufferApi \<Rightarrow> bool" where
  "netbuffer_laws api \<longleftrightarrow> write_law api \<and> read_law api \<and> size_law api"

text \<open>An instance for the witnesses: a buffer of 64 bytes with the cursors after the
  header, and the methods as documented.\<close>

definition documented_api :: NetBufferApi where
  "documented_api =
     \<lparr> nb_Alloc = \<lparr> m_pSerializeBuffer = replicate 64 0, m_iRead = 5, m_iWrite = 5,
                    m_iWriteLast = 0, m_bIsEncoded = False \<rparr>,
       nb_headerCode = 0x89,
       nb_GetUseSize = (\<lambda>p. uint (m_iWrite p) - uint (m_iRead p)),
       nb_GetAllUseSize = (\<lambda>p. unat (m_iWriteLast p)),
       nb_GetBufferPtr = m_pSerializeBuffer,
       nb_write = (\<lambda>bs p. p\<lparr> m_pSerializeBuffer := patch (unat (m_iWrite p)) bs (m_pSerializeBuffer p),
                            m_iWrite := m_iWrite p + of_nat (length bs) \<rparr>),
       nb_read = (\<lambda>n p. (slice (unat (m_iRead p)) n (m_pSerializeBuffer p),
                         p\<lparr> m_iRead := m_iRead p + of_nat n \<rparr>)) \<rparr>"

lemma documented_api_laws: "netbuffer_laws documented_api"
  by (simp add: netbuffer_laws_def write_law_def read_law_def size_law_def documented_api_def)

end
