(* ===== verification/Packet_Crypto.thy ===== *)
theory Packet_Crypto
  imports Net_Buffer
begin

text \<open>
  Common/Crypto/CryptoHelper and Common/PacketCrypto/PacketCryptoHelper.h: the nonce of a
  packet, the calls of AES-GCM and the encoding of a packet in place.

  AES-GCM itself is Windows CNG, so \<open>BCryptEncrypt\<close> and \<open>BCryptDecrypt\<close> are parameters;
  \<open>bcrypt_laws\<close> is what the code relies on. An access outside the packet's memory, which
  is undefined in C++, is the result \<open>None\<close>. The null checks of pointers into a packet's
  own buffer are left out; the salt and the key handle can be null.
\<close>

abbreviation (input) AUTH_TAG_SIZE :: nat where "AUTH_TAG_SIZE \<equiv> 16"
abbreviation (input) NONCE_SIZE :: nat where "NONCE_SIZE \<equiv> 12"
abbreviation (input) SESSION_SALT_SIZE :: nat where "SESSION_SALT_SIZE \<equiv> 16"
abbreviation (input) SESSION_KEY_SIZE :: nat where "SESSION_KEY_SIZE \<equiv> 16"

section \<open>The nonce\<close>

text \<open>\<open>(packetSequence >> s) & 0xFF\<close> stored in a byte.\<close>

definition seq_byte :: "nat \<Rightarrow> PacketSequence \<Rightarrow> byte" where
  "seq_byte s q = ucast (drop_bit s q AND 0xFF)"

definition CryptoHelper_FillNonce ::
    "byte list option \<Rightarrow> PacketSequence \<Rightarrow> PACKET_DIRECTION \<Rightarrow> nat \<Rightarrow> byte list option" where
  "CryptoHelper_FillNonce sessionSalt packetSequence direction nonceSize =
     (case sessionSalt of
        None \<Rightarrow> None
      | Some salt \<Rightarrow>
          if length salt \<noteq> SESSION_SALT_SIZE \<or> nonceSize \<noteq> NONCE_SIZE then None
          else let directionBits = push_bit 6 (PACKET_DIRECTION_byte direction)
               in Some ([directionBits OR (salt ! 0 AND 0x3F), salt ! 1, salt ! 2, salt ! 3]
                  @ map (\<lambda>s. seq_byte s packetSequence) [56, 48, 40, 32, 24, 16, 8, 0]))"

lemma FillNonce_Some:
  "length salt = 16 \<Longrightarrow> CryptoHelper_FillNonce (Some salt) q d 12 =
     Some ([push_bit 6 (PACKET_DIRECTION_byte d) OR (salt ! 0 AND 0x3F), salt ! 1, salt ! 2, salt ! 3]
       @ map (\<lambda>s. seq_byte s q) [56, 48, 40, 32, 24, 16, 8, 0])"
  by (simp add: CryptoHelper_FillNonce_def)

lemma bit_seq_byte: "bit (seq_byte s q) j \<longleftrightarrow> j < 8 \<and> bit q (s + j)"
proof -
  have "bit (ucast (drop_bit s q AND mask 8) :: byte) j \<longleftrightarrow> j < 8 \<and> bit q (s + j)"
    by (auto simp: bit_simps)
  then show ?thesis by (simp add: seq_byte_def mask_eq_exp_minus_1)
qed

lemma seq_bytes_inject:
  assumes "map (\<lambda>s. seq_byte s p) [56, 48, 40, 32, 24, 16, 8, 0]
         = map (\<lambda>s. seq_byte s q) [56, 48, 40, 32, 24, 16, 8, 0]"
  shows "p = q"
proof (rule bit_word_eqI)
  fix n assume n: "n < LENGTH(64)"
  have "n div 8 \<in> {0, 1, 2, 3, 4, 5, 6, 7}" using n by auto
  then have "8 * (n div 8) \<in> set [56, 48, 40, 32, 24, 16, 8, 0]" by auto
  then have "seq_byte (8 * (n div 8)) p = seq_byte (8 * (n div 8)) q"
    using assms by auto
  then have "bit (seq_byte (8 * (n div 8)) p) (n mod 8) \<longleftrightarrow> bit (seq_byte (8 * (n div 8)) q) (n mod 8)"
    by simp
  then show "bit p n \<longleftrightarrow> bit q n" by (simp add: bit_seq_byte)
qed

lemma direction_bits:
  "drop_bit 6 (push_bit 6 (d::byte) OR (s AND 0x3F)) = d AND 3"
proof -
  have "drop_bit 6 (push_bit 6 d OR (s AND mask 6)) = d AND mask 2"
    by (rule bit_word_eqI) (auto simp: bit_simps)
  then show ?thesis by (simp add: mask_eq_exp_minus_1)
qed

text \<open>C32: two packets of one session have the same nonce only if they have the same
  sequence and the same direction: AES-GCM is never given one nonce for two packets
  that differ in either, over all 2^64 sequences and the four directions.\<close>

theorem nonce_unique:
  assumes "length salt = 16" "d1 \<noteq> DIRECTION_INVALID" "d2 \<noteq> DIRECTION_INVALID"
    and "CryptoHelper_FillNonce (Some salt) q1 d1 12 = CryptoHelper_FillNonce (Some salt) q2 d2 12"
  shows "q1 = q2 \<and> d1 = d2"
proof
  have eq: "push_bit 6 (PACKET_DIRECTION_byte d1) OR (salt ! 0 AND 0x3F)
      = push_bit 6 (PACKET_DIRECTION_byte d2) OR (salt ! 0 AND 0x3F)"
    and s: "map (\<lambda>s. seq_byte s q1) [56, 48, 40, 32, 24, 16, 8, 0]
         = map (\<lambda>s. seq_byte s q2) [56, 48, 40, 32, 24, 16, 8, 0]"
    using assms(4) unfolding FillNonce_Some [OF assms(1)] by simp_all
  show "q1 = q2" by (rule seq_bytes_inject [OF s])
  from eq have "PACKET_DIRECTION_byte d1 AND 3 = PACKET_DIRECTION_byte d2 AND 3"
    by (metis direction_bits)
  then show "d1 = d2" using assms(2,3) by (cases d1; cases d2) simp_all
qed

theorem nonce_unique_witness:
  "CryptoHelper_FillNonce (Some (replicate 16 7)) 1 CLIENT_TO_SERVER 12
     \<noteq> CryptoHelper_FillNonce (Some (replicate 16 7)) 1 SERVER_TO_CLIENT 12"
  using nonce_unique [of "replicate 16 7" CLIENT_TO_SERVER SERVER_TO_CLIENT 1 1] by auto

text \<open>The direction INVALID is not one of the four as far as the nonce goes: its two
  bits are those of SERVER_TO_CLIENT_REPLY, so both give the same nonce for every salt and
  sequence.\<close>

theorem nonce_invalid_direction_collides:
  "CryptoHelper_FillNonce salt q DIRECTION_INVALID n
     = CryptoHelper_FillNonce salt q SERVER_TO_CLIENT_REPLY n"
proof -
  have "push_bit 6 (PACKET_DIRECTION_byte DIRECTION_INVALID)
      = push_bit 6 (PACKET_DIRECTION_byte SERVER_TO_CLIENT_REPLY)" by code_simp
  then show ?thesis by (simp only: CryptoHelper_FillNonce_def)
qed

section \<open>AES-GCM\<close>

text \<open>The two calls: status, bytes written and (when encrypting) the tag.\<close>

record 'k bcrypt =
  BCryptEncrypt :: "'k \<Rightarrow> byte list \<Rightarrow> byte list \<Rightarrow> byte list \<Rightarrow> bool \<times> byte list \<times> byte list"
  BCryptDecrypt :: "'k \<Rightarrow> byte list \<Rightarrow> byte list \<Rightarrow> byte list \<Rightarrow> byte list \<Rightarrow> bool \<times> byte list"

definition bcrypt_laws :: "'k bcrypt \<Rightarrow> bool" where
  "bcrypt_laws B \<longleftrightarrow>
     (\<forall>k nonce aad p ok c t. BCryptEncrypt B k nonce aad p = (ok, c, t) \<longrightarrow>
        length c = length p \<and> length t = AUTH_TAG_SIZE \<and>
        (ok \<longrightarrow> BCryptDecrypt B k nonce aad c t = (True, p)))"

text \<open>Both helpers work in place on \<open>size\<close> bytes from \<open>off\<close>; \<open>size_t\<close> is narrowed to
  the \<open>ULONG\<close> that CNG takes.\<close>

definition CryptoHelper_EncryptAESGCM ::
    "'k bcrypt \<Rightarrow> byte list \<Rightarrow> nat \<Rightarrow> byte list \<Rightarrow> byte list \<Rightarrow> nat \<Rightarrow> 64 word \<Rightarrow> 64 word \<Rightarrow> 'k option
       \<Rightarrow> (bool \<times> byte list \<times> byte list) option" where
  "CryptoHelper_EncryptAESGCM B nonce nonceSize aad mem off plaintextSize ciphertextBufferSize keyHandle =
     (case keyHandle of
        None \<Rightarrow> Some (False, mem, [])
      | Some k \<Rightarrow>
          if nonceSize \<noteq> NONCE_SIZE then Some (False, mem, [])
          else if ciphertextBufferSize < plaintextSize then Some (False, mem, [])
          else let n = unat (ucast plaintextSize :: 32 word) in
            if length mem < off + n then None
            else let (status, ciphertext, tag) = BCryptEncrypt B k nonce aad (slice off n mem)
                 in Some (status, patch off ciphertext mem, tag))"

definition CryptoHelper_DecryptAESGCM ::
    "'k bcrypt \<Rightarrow> byte list \<Rightarrow> nat \<Rightarrow> byte list \<Rightarrow> byte list \<Rightarrow> nat \<Rightarrow> 64 word \<Rightarrow> byte list \<Rightarrow> 64 word \<Rightarrow> 'k option
       \<Rightarrow> (bool \<times> byte list) option" where
  "CryptoHelper_DecryptAESGCM B nonce nonceSize aad mem off ciphertextSize tag plaintextBufferSize keyHandle =
     (case keyHandle of
        None \<Rightarrow> Some (False, mem)
      | Some k \<Rightarrow>
          if nonceSize \<noteq> NONCE_SIZE then Some (False, mem)
          else if plaintextBufferSize < ciphertextSize then Some (False, mem)
          else let n = unat (ucast ciphertextSize :: 32 word) in
            if length mem < off + n then None
            else let (status, plaintext) = BCryptDecrypt B k nonce aad (slice off n mem) tag
                 in Some (status, patch off plaintext mem))"

section \<open>Encoding and decoding a packet\<close>

definition SetHeader :: "NetBufferApi \<Rightarrow> int \<Rightarrow> NetBuffer \<Rightarrow> NetBuffer" where
  "SetHeader api extraSize netBuffer =
     (let b0 = (m_pSerializeBuffer netBuffer)[0 := nb_headerCode api];
          payload = word_of_int (uint (m_iWrite netBuffer) - 5 + extraSize) :: ushort
      in netBuffer\<lparr> m_pSerializeBuffer := patch 1 (le_bytes 2 payload) b0,
                    m_iRead := 0,
                    m_iWriteLast := m_iWrite netBuffer + word_of_int extraSize \<rparr>)"

definition bodyOffsetWithHeader :: "bool \<Rightarrow> nat" where
  "bodyOffsetWithHeader isCorePacket = (if isCorePacket then 5 + 1 + 8 else 5 + 1 + 8 + 4)"

definition bodyOffsetWithNotHeader :: "bool \<Rightarrow> 32 word" where
  "bodyOffsetWithNotHeader isCorePacket = (if isCorePacket then 1 + 8 else 1 + 8 + 4)"

text \<open>The body size is an \<open>int\<close> computed as \<open>unsigned int\<close>, and converted to \<open>size_t\<close>.\<close>

definition EncodePacket ::
    "NetBufferApi \<Rightarrow> 'k bcrypt \<Rightarrow> PacketSequence \<Rightarrow> PACKET_DIRECTION \<Rightarrow> byte list option \<Rightarrow> 'k option \<Rightarrow> bool
       \<Rightarrow> NetBuffer \<Rightarrow> NetBuffer option" where
  "EncodePacket api B packetSequence direction sessionSalt sessionKeyHandle isCorePacket packet =
     (if m_bIsEncoded packet then Some packet
      else case CryptoHelper_FillNonce sessionSalt packetSequence direction NONCE_SIZE of
        None \<Rightarrow> Some packet
      | Some nonce \<Rightarrow>
          let bodySize = sint (word_of_int (nb_GetUseSize api packet)
                               - bodyOffsetWithNotHeader isCorePacket);
              bodyOffset = bodyOffsetWithHeader isCorePacket;
              p1 = SetHeader api (int AUTH_TAG_SIZE) packet;
              aad = take 14 (m_pSerializeBuffer p1)
          in case CryptoHelper_EncryptAESGCM B nonce NONCE_SIZE aad (m_pSerializeBuffer p1) bodyOffset
                    (word_of_int bodySize) (word_of_int bodySize) sessionKeyHandle of
               None \<Rightarrow> None
             | Some (False, mem, tag) \<Rightarrow> Some (p1\<lparr> m_pSerializeBuffer := mem \<rparr>)
             | Some (True, mem, tag) \<Rightarrow>
                 Some ((nb_write api tag (p1\<lparr> m_pSerializeBuffer := mem \<rparr>))\<lparr> m_bIsEncoded := True \<rparr>))"

definition DecodePacket ::
    "NetBufferApi \<Rightarrow> 'k bcrypt \<Rightarrow> byte list option \<Rightarrow> 'k option \<Rightarrow> bool \<Rightarrow> PACKET_DIRECTION
       \<Rightarrow> NetBuffer \<Rightarrow> (bool \<times> NetBuffer) option" where
  "DecodePacket api B sessionSalt sessionKeyHandle isCorePacket direction packet =
     (let packetUseSize = nb_GetUseSize api packet;
          minimumRecvPacketSize = (if isCorePacket then 8 + 16 else 8 + 4 + 16)
      in if packetUseSize < minimumRecvPacketSize then Some (False, packet)
         else let mem = m_pSerializeBuffer packet;
                  packetSequence = le_word (slice 6 8 mem);
                  bodyOffset = (if isCorePacket then 5 + 1 + 8 else 5 + 1 + 8 + 4);
                  authTagOffset = nat (uint (m_iWrite packet) - 16);
                  bodySize = word_of_int (packetUseSize + 6 - 16 - int bodyOffset) :: 64 word;
                  authTag = slice authTagOffset AUTH_TAG_SIZE mem;
                  aad = take 14 mem
              in if length mem < 14 \<or> uint (m_iWrite packet) < 16 \<or> length mem < unat (m_iWrite packet) then None
                 else case CryptoHelper_FillNonce sessionSalt packetSequence direction NONCE_SIZE of
                    None \<Rightarrow> Some (False, packet)
                  | Some nonce \<Rightarrow>
                      (case CryptoHelper_DecryptAESGCM B nonce NONCE_SIZE aad mem bodyOffset bodySize
                              authTag bodySize sessionKeyHandle of
                         None \<Rightarrow> None
                       | Some (ok, mem') \<Rightarrow> Some (ok, packet\<lparr> m_pSerializeBuffer := mem' \<rparr>)))"

section \<open>The round trip\<close>

text \<open>A packet the code hands to \<open>EncodePacket\<close>: its header is reserved, the sequence is
  written behind the type byte, and there is room for the tag.\<close>

definition encodable :: "bool \<Rightarrow> PacketSequence \<Rightarrow> NetBuffer \<Rightarrow> bool" where
  "encodable isCorePacket q p \<longleftrightarrow>
     \<not> m_bIsEncoded p \<and> m_iRead p = 5 \<and> bodyOffsetWithHeader isCorePacket \<le> unat (m_iWrite p) \<and>
     unat (m_iWrite p) + 16 \<le> length (m_pSerializeBuffer p) \<and>
     length (m_pSerializeBuffer p) < 65536 \<and> slice 6 8 (m_pSerializeBuffer p) = le_bytes 8 q"

text \<open>The plaintext of a packet, and the packet a receiver holds after reading the type:
  the bytes that were sent, at the start of a buffer of any capacity.\<close>

definition packet_body :: "bool \<Rightarrow> NetBuffer \<Rightarrow> byte list" where
  "packet_body isCorePacket p =
     slice (bodyOffsetWithHeader isCorePacket)
       (unat (m_iWrite p) - bodyOffsetWithHeader isCorePacket) (m_pSerializeBuffer p)"

definition receives :: "NetBuffer \<Rightarrow> NetBuffer \<Rightarrow> bool" where
  "receives e r \<longleftrightarrow> m_iRead r = 6 \<and> m_iWrite r = m_iWriteLast e \<and>
     unat (m_iWriteLast e) \<le> length (m_pSerializeBuffer r) \<and>
     length (m_pSerializeBuffer r) < 65536 \<and>
     take (unat (m_iWriteLast e)) (m_pSerializeBuffer r)
       = take (unat (m_iWriteLast e)) (m_pSerializeBuffer e)"

lemma bodyOffset_cases:
  "bodyOffsetWithHeader c = 14 \<and> bodyOffsetWithNotHeader c = 9 \<and> c \<or>
   bodyOffsetWithHeader c = 18 \<and> bodyOffsetWithNotHeader c = 13 \<and> \<not> c"
  by (simp add: bodyOffsetWithHeader_def bodyOffsetWithNotHeader_def)

lemma encode_body_size:
  assumes "bodyOffsetWithHeader c \<le> unat (w::ushort)"
  shows "sint (word_of_int (uint w - 5) - bodyOffsetWithNotHeader c)
           = int (unat w - bodyOffsetWithHeader c)"
proof -
  have "word_of_int (uint w - 5) - bodyOffsetWithNotHeader c
      = word_of_int (int (unat w - bodyOffsetWithHeader c))"
    using bodyOffset_cases [of c] assms by (auto simp: of_nat_diff)
  moreover have "int (unat w - bodyOffsetWithHeader c) < 2 ^ 31"
    using unat_ushort_bound [of w] by simp
  moreover have "sint (word_of_int k :: 32 word) = k" if "0 \<le> k" "k < 2 ^ 31" for k
    using that by (simp add: sint_sbintrunc' signed_take_bit_int_eq_self)
  ultimately show ?thesis by (metis of_nat_0_le_iff)
qed

lemma unat_ulong_of_nat: "n < 65536 \<Longrightarrow> unat (ucast (word_of_int (int n) :: 64 word) :: 32 word) = n"
  by (simp add: unsigned_ucast_eq unat_of_nat take_bit_nat_eq_self)

lemma SetHeader_frame:
  assumes "3 \<le> length (m_pSerializeBuffer p)"
  shows "length (m_pSerializeBuffer (SetHeader api x p)) = length (m_pSerializeBuffer p)"
    and "3 \<le> off \<Longrightarrow> off + n \<le> length (m_pSerializeBuffer p) \<Longrightarrow>
         slice off n (m_pSerializeBuffer (SetHeader api x p)) = slice off n (m_pSerializeBuffer p)"
  using assms slice_patch_other [of 1 "le_bytes 2 pl" "(m_pSerializeBuffer p)[0 := h]" off n for pl h]
  by (simp_all add: SetHeader_def Let_def) (simp add: slice_def drop_update_cancel)

lemma slice_take: "o2 + n \<le> t \<Longrightarrow> slice o2 n (take t mem) = slice o2 n mem"
  by (simp add: slice_def drop_take)

lemma same_prefix_slice:
  "take t mem1 = take t mem2 \<Longrightarrow> o2 + n \<le> t \<Longrightarrow> slice o2 n mem1 = slice o2 n mem2"
  by (metis slice_take)

lemma EncodePacket_value:
  assumes "netbuffer_laws api" "bcrypt_laws B" "encodable c q p" "length salt = 16"
  defines "off \<equiv> bodyOffsetWithHeader c" and "w \<equiv> unat (m_iWrite p)"
    and "mem1 \<equiv> m_pSerializeBuffer (SetHeader api 16 p)"
  obtains ok ct tag nonce where "CryptoHelper_FillNonce (Some salt) q d 12 = Some nonce"
    "BCryptEncrypt B k nonce (take 14 mem1) (packet_body c p) = (ok, ct, tag)"
    "length ct = w - off" "length tag = 16"
    "EncodePacket api B q d (Some salt) (Some k) c p =
       (if ok then Some ((SetHeader api 16 p)\<lparr> m_pSerializeBuffer := patch w tag (patch off ct mem1),
                          m_iWrite := m_iWrite p + 16, m_bIsEncoded := True \<rparr>)
        else Some ((SetHeader api 16 p)\<lparr> m_pSerializeBuffer := patch off ct mem1 \<rparr>))"
proof -
  have enc: "off \<le> w" "w + 16 \<le> length (m_pSerializeBuffer p)" "m_iRead p = 5" "\<not> m_bIsEncoded p"
    "length (m_pSerializeBuffer p) < 65536" "14 \<le> off"
    using assms(3) bodyOffset_cases [of c] by (auto simp: encodable_def off_def w_def)
  obtain nonce where nonce: "CryptoHelper_FillNonce (Some salt) q d 12 = Some nonce"
    using FillNonce_Some [OF assms(4)] by blast
  have len: "length mem1 = length (m_pSerializeBuffer p)"
    and body: "slice off (w - off) mem1 = packet_body c p"
    using enc SetHeader_frame [where api = api and x = 16 and p = p] unfolding mem1_def
    by (simp_all add: packet_body_def flip: off_def w_def)
  have use: "nb_GetUseSize api p = uint (m_iWrite p) - 5"
    using assms(1) enc(3) by (simp add: netbuffer_laws_def size_law_def)
  obtain ok ct tag where e: "BCryptEncrypt B k nonce (take 14 mem1) (packet_body c p) = (ok, ct, tag)"
    by (cases "BCryptEncrypt B k nonce (take 14 mem1) (packet_body c p)") auto
  have "length (packet_body c p) = w - off"
    using enc(1,2) by (simp add: packet_body_def flip: off_def w_def)
  then have lens: "length ct = w - off" "length tag = 16"
    using assms(2) e unfolding bcrypt_laws_def by metis+
  have size: "sint (word_of_int (uint (m_iWrite p) - 5) - bodyOffsetWithNotHeader c) = int (w - off)"
    using encode_body_size [of c "m_iWrite p"] enc(1) by (simp add: off_def w_def)
  have n: "unat (ucast (word_of_int (int (w - off)) :: 64 word) :: 32 word) = w - off"
    using unat_ulong_of_nat [of "w - off"] unat_ushort_bound [of "m_iWrite p"] by (simp add: w_def)
  have fit: "\<not> length mem1 < off + (w - off)" using enc len by simp
  have crypt: "CryptoHelper_EncryptAESGCM B nonce 12 (take 14 mem1) mem1 off
      (word_of_int (int (w - off))) (word_of_int (int (w - off))) (Some k) = Some (ok, patch off ct mem1, tag)"
    unfolding CryptoHelper_EncryptAESGCM_def Let_def n body using fit by (simp add: e)
  let ?p1 = "(SetHeader api 16 p)\<lparr> m_pSerializeBuffer := patch off ct mem1 \<rparr>"
  have E: "EncodePacket api B q d (Some salt) (Some k) c p
      = (if ok then Some ((nb_write api tag ?p1)\<lparr> m_bIsEncoded := True \<rparr>) else Some ?p1)"
    unfolding EncodePacket_def Let_def use size off_def [symmetric] of_nat_numeral
      mem1_def [symmetric] nonce option.case crypt
    using enc(4) by simp
  have "m_iWrite ?p1 = m_iWrite p" by (simp add: SetHeader_def Let_def)
  moreover have "w + length tag \<le> length (m_pSerializeBuffer ?p1)" "length (m_pSerializeBuffer ?p1) < 65536"
    using enc lens len by simp_all
  ultimately have W: "nb_write api tag ?p1 = ?p1\<lparr> m_pSerializeBuffer := patch w tag (patch off ct mem1),
      m_iWrite := m_iWrite p + of_nat (length tag) \<rparr>"
    using assms(1) by (simp add: netbuffer_laws_def write_law_def w_def)
  show ?thesis by (rule that [OF nonce e lens]) (use E W lens in simp)
qed

lemma EncodePacket_success:
  assumes "netbuffer_laws api" "bcrypt_laws B" "encodable c q p" "length salt = 16"
    and "EncodePacket api B q d (Some salt) (Some k) c p = Some e" "m_bIsEncoded e"
  defines "off \<equiv> bodyOffsetWithHeader c" and "w \<equiv> unat (m_iWrite p)"
    and "mem1 \<equiv> m_pSerializeBuffer (SetHeader api 16 p)"
  obtains ct tag nonce where "CryptoHelper_FillNonce (Some salt) q d 12 = Some nonce"
    "BCryptEncrypt B k nonce (take 14 mem1) (packet_body c p) = (True, ct, tag)"
    "m_pSerializeBuffer e = patch w tag (patch off ct mem1)" "unat (m_iWriteLast e) = w + 16"
    "length ct = w - off" "length tag = 16"
proof -
  obtain ok ct tag nonce where v: "CryptoHelper_FillNonce (Some salt) q d 12 = Some nonce"
    "BCryptEncrypt B k nonce (take 14 mem1) (packet_body c p) = (ok, ct, tag)"
    "length ct = w - off" "length tag = 16"
    "EncodePacket api B q d (Some salt) (Some k) c p =
       (if ok then Some ((SetHeader api 16 p)\<lparr> m_pSerializeBuffer := patch w tag (patch off ct mem1),
                          m_iWrite := m_iWrite p + 16, m_bIsEncoded := True \<rparr>)
        else Some ((SetHeader api 16 p)\<lparr> m_pSerializeBuffer := patch off ct mem1 \<rparr>))"
    using EncodePacket_value [OF assms(1-4), of d k] unfolding off_def w_def mem1_def by metis
  have "\<not> m_bIsEncoded p" using assms(3) by (simp add: encodable_def)
  then have ok
    using assms(5,6) v(5) by (cases ok) (auto simp: SetHeader_def Let_def)
  moreover from this have "m_pSerializeBuffer e = patch w tag (patch off ct mem1)"
    "m_iWriteLast e = m_iWrite p + 16"
    using v(5) assms(5) by (auto simp: SetHeader_def Let_def)
  moreover have "unat (m_iWrite p + 16) = w + 16"
    using assms(3) by (simp add: unat_word_ariths w_def encodable_def)
  ultimately show ?thesis using that v(1-4) by simp
qed

lemma EncodePacket_total:
  assumes "netbuffer_laws api" "bcrypt_laws B" "encodable c q p" "length salt = 16"
    and "\<And>nonce aad x. fst (BCryptEncrypt B k nonce aad x)"
  obtains e where "EncodePacket api B q d (Some salt) (Some k) c p = Some e" "m_bIsEncoded e"
    "receives e (e\<lparr> m_iRead := 6, m_iWrite := m_iWriteLast e \<rparr>)"
proof -
  let ?off = "bodyOffsetWithHeader c" and ?w = "unat (m_iWrite p)"
  let ?mem1 = "m_pSerializeBuffer (SetHeader api 16 p)"
  obtain ok ct tag nonce where v:
    "BCryptEncrypt B k nonce (take 14 ?mem1) (packet_body c p) = (ok, ct, tag)"
    "length ct = ?w - ?off" "length tag = 16"
    "EncodePacket api B q d (Some salt) (Some k) c p =
       (if ok then Some ((SetHeader api 16 p)\<lparr> m_pSerializeBuffer := patch ?w tag (patch ?off ct ?mem1),
                          m_iWrite := m_iWrite p + 16, m_bIsEncoded := True \<rparr>)
        else Some ((SetHeader api 16 p)\<lparr> m_pSerializeBuffer := patch ?off ct ?mem1 \<rparr>))"
    using EncodePacket_value [OF assms(1-4), of d k] by metis
  have ok using v(1) assms(5) [of nonce "take 14 ?mem1" "packet_body c p"] by simp
  have enc: "?off \<le> ?w" "?w + 16 \<le> length (m_pSerializeBuffer p)"
    "length (m_pSerializeBuffer p) < 65536" using assms(3) by (simp_all add: encodable_def)
  then have "unat (m_iWrite p + 16) = ?w + 16" by (simp add: unat_word_ariths)
  moreover have "length ?mem1 = length (m_pSerializeBuffer p)"
    using SetHeader_frame(1) [of p api 16] enc by simp
  moreover have "m_iWriteLast (SetHeader api 16 p) = m_iWrite p + 16" "m_iRead (SetHeader api 16 p) = 0"
    by (simp_all add: SetHeader_def Let_def)
  ultimately show ?thesis
    using that [of "(SetHeader api 16 p)\<lparr> m_pSerializeBuffer := patch ?w tag (patch ?off ct ?mem1),
        m_iWrite := m_iWrite p + 16, m_bIsEncoded := True \<rparr>"] v(2-4) \<open>ok\<close> enc
    by (simp add: receives_def)
qed

text \<open>What the receiver finds in the bytes of an encoded packet, and the result of decoding it.\<close>

lemma received_slices:
  assumes "netbuffer_laws api" "bcrypt_laws B" "encodable c q p" "length salt = 16"
    and "EncodePacket api B q d (Some salt) (Some k) c p = Some e" "m_bIsEncoded e" "receives e r"
  defines "off \<equiv> bodyOffsetWithHeader c" and "w \<equiv> unat (m_iWrite p)"
    and "mem1 \<equiv> m_pSerializeBuffer (SetHeader api 16 p)" and "mr \<equiv> m_pSerializeBuffer r"
  obtains ct tag nonce where "CryptoHelper_FillNonce (Some salt) q d 12 = Some nonce"
    "BCryptEncrypt B k nonce (take 14 mem1) (packet_body c p) = (True, ct, tag)"
    "m_iRead r = 6" "unat (m_iWrite r) = w + 16" "w + 16 \<le> length mr" "slice 6 8 mr = le_bytes 8 q"
    "slice w 16 mr = tag" "slice off (w - off) mr = ct" "take 14 mr = take 14 mem1"
    "\<And>o2 n. o2 + n \<le> off \<Longrightarrow> slice o2 n mr = slice o2 n mem1"
proof -
  obtain ct tag nonce where s: "CryptoHelper_FillNonce (Some salt) q d 12 = Some nonce"
    "BCryptEncrypt B k nonce (take 14 mem1) (packet_body c p) = (True, ct, tag)"
    "m_pSerializeBuffer e = patch w tag (patch off ct mem1)" "unat (m_iWriteLast e) = w + 16"
    "length ct = w - off" "length tag = 16"
    using EncodePacket_success [OF assms(1-6)] unfolding off_def w_def mem1_def by metis
  have enc: "off \<le> w" "w + 16 \<le> length (m_pSerializeBuffer p)" "14 \<le> off"
    "slice 6 8 (m_pSerializeBuffer p) = le_bytes 8 q"
    using assms(3) bodyOffset_cases [of c] by (auto simp: encodable_def off_def w_def)
  have len1: "length mem1 = length (m_pSerializeBuffer p)"
    using SetHeader_frame(1) [of p api 16] enc by (simp add: mem1_def)
  have rec: "m_iRead r = 6" "unat (m_iWrite r) = w + 16" "w + 16 \<le> length mr"
    "take (w + 16) mr = take (w + 16) (m_pSerializeBuffer e)"
    using assms(7) s(4) by (simp_all add: receives_def mr_def)
  have bounds: "off + length ct \<le> length mem1" "w + length tag \<le> length (patch off ct mem1)"
    using enc s(5,6) len1 by simp_all
  have sl: "slice o2 n mr = slice o2 n (patch w tag (patch off ct mem1))" if "o2 + n \<le> w + 16" for o2 n
    using same_prefix_slice [OF rec(4) that] s(3) by simp
  have head: "slice o2 n mr = slice o2 n mem1" if "o2 + n \<le> off" for o2 n
    using sl [of o2 n] slice_patch_other [OF bounds(2), of o2 n] slice_patch_other [OF bounds(1), of o2 n]
      that enc len1 bounds by simp
  have "slice 6 8 mem1 = le_bytes 8 q"
    using SetHeader_frame(2) [of p 6 8 api 16] enc by (simp add: mem1_def)
  then have seq: "slice 6 8 mr = le_bytes 8 q" using head [of 6 8] enc by simp
  have tag: "slice w 16 mr = tag" using sl [of w 16] slice_patch_same [OF bounds(2), of 16] s(6) by simp
  have ct: "slice off (w - off) mr = ct"
    using sl [of off "w - off"] slice_patch_other [OF bounds(2), of off "w - off"]
      slice_patch_same [OF bounds(1), of "w - off"] s(5) enc bounds by simp
  have aad: "take 14 mr = take 14 mem1" using head [of 0 14] enc by (simp add: slice_def)
  show ?thesis by (rule that [OF s(1,2) rec(1-3) seq tag ct aad head])
qed

lemma decode_of_encoded:
  assumes "netbuffer_laws api" "bcrypt_laws B" "encodable c q p" "length salt = 16"
    and "EncodePacket api B q d (Some salt) (Some k) c p = Some e" "m_bIsEncoded e" "receives e r"
  shows "DecodePacket api B (Some salt) (Some k) c d r
      = Some (True, r\<lparr> m_pSerializeBuffer := patch (bodyOffsetWithHeader c) (packet_body c p) (m_pSerializeBuffer r) \<rparr>)"
proof -
  let ?off = "bodyOffsetWithHeader c" and ?w = "unat (m_iWrite p)"
  let ?mem1 = "m_pSerializeBuffer (SetHeader api 16 p)" and ?mr = "m_pSerializeBuffer r"
  obtain ct tag nonce where s: "CryptoHelper_FillNonce (Some salt) q d 12 = Some nonce"
    "BCryptEncrypt B k nonce (take 14 ?mem1) (packet_body c p) = (True, ct, tag)"
    "m_iRead r = 6" "unat (m_iWrite r) = ?w + 16" "?w + 16 \<le> length ?mr" "slice 6 8 ?mr = le_bytes 8 q"
    "slice ?w 16 ?mr = tag" "slice ?off (?w - ?off) ?mr = ct" "take 14 ?mr = take 14 ?mem1"
    by (rule received_slices [OF assms])
  have enc: "?off \<le> ?w" using assms(3) by (simp add: encodable_def)
  have dec: "BCryptDecrypt B k nonce (take 14 ?mem1) ct tag = (True, packet_body c p)"
    using assms(2) s(2) by (auto simp: bcrypt_laws_def)
  have use: "nb_GetUseSize api r = int ?w + 10"
    using assms(1) s(3,4) uint_nat [of "m_iWrite r"] by (simp add: netbuffer_laws_def size_law_def)
  have size: "word_of_int (int ?w + 10 + 6 - 16 - int ?off) = (word_of_int (int (?w - ?off)) :: 64 word)"
    using enc by (simp add: of_nat_diff)
  have n: "unat (ucast (word_of_int (int (?w - ?off)) :: 64 word) :: 32 word) = ?w - ?off"
    using unat_ulong_of_nat [of "?w - ?off"] unat_ushort_bound [of "m_iWrite p"] by simp
  have auth: "nat (uint (m_iWrite r) - 16) = ?w"
    using s(4) uint_nat [of "m_iWrite r"] by simp
  have crypt: "CryptoHelper_DecryptAESGCM B nonce 12 (take 14 ?mr) ?mr ?off
      (word_of_int (int (?w - ?off))) tag (word_of_int (int (?w - ?off))) (Some k)
      = Some (True, patch ?off (packet_body c p) ?mr)"
    using n dec s(5,8,9) enc by (simp add: CryptoHelper_DecryptAESGCM_def Let_def)
  have guard: "\<not> (length ?mr < 14 \<or> uint (m_iWrite r) < 16 \<or> length ?mr < unat (m_iWrite r))"
    using s(4,5) uint_nat [of "m_iWrite r"] enc bodyOffset_cases [of c] by auto
  have off: "(if c then 5 + 1 + 8 else 5 + 1 + 8 + 4) = ?off"
    by (simp add: bodyOffsetWithHeader_def)
  have min: "\<not> int ?w + 10 < (if c then 8 + 16 else 8 + 4 + 16)"
    using enc bodyOffset_cases [of c] by (auto simp del: of_nat_unat)
  show ?thesis
    using guard min crypt s(1) unfolding DecodePacket_def Let_def use off s(6) auth s(7) size
    by (simp add: le_word_le_bytes)
qed

text \<open>C31: what one side encodes the other decodes: for every packet the code builds, core
  or not, if encoding succeeds then decoding the bytes that were sent, with the same key
  and salt and the direction of the sender, succeeds and restores exactly the plaintext
  body, whatever lies behind the packet in the receiver's buffer.\<close>

theorem encode_decode_roundtrip:
  assumes "netbuffer_laws api" "bcrypt_laws B" "encodable c q p" "length salt = 16"
    and "EncodePacket api B q d (Some salt) (Some k) c p = Some e" "m_bIsEncoded e" "receives e r"
  shows "\<exists>r'. DecodePacket api B (Some salt) (Some k) c d r = Some (True, r') \<and>
           slice (bodyOffsetWithHeader c) (unat (m_iWrite p) - bodyOffsetWithHeader c)
             (m_pSerializeBuffer r') = packet_body c p"
proof -
  let ?off = "bodyOffsetWithHeader c" and ?w = "unat (m_iWrite p)"
  have "?off \<le> ?w" "?w + 16 \<le> length (m_pSerializeBuffer p)" using assms(3) by (simp_all add: encodable_def)
  then have "length (packet_body c p) = ?w - ?off" by (simp add: packet_body_def)
  moreover have "?w + 16 \<le> length (m_pSerializeBuffer r)" by (rule received_slices [OF assms])
  ultimately show ?thesis
    using decode_of_encoded [OF assms] \<open>?off \<le> ?w\<close> by (simp add: slice_patch_same)
qed

text \<open>A cipher for the witnesses: complement the text, and the tag says nothing.\<close>

definition toy_bcrypt :: "unit bcrypt" where
  "toy_bcrypt = \<lparr> BCryptEncrypt = (\<lambda>k nonce aad p. (True, map (\<lambda>b. NOT b) p, replicate 16 0)),
                  BCryptDecrypt = (\<lambda>k nonce aad c t. (True, map (\<lambda>b. NOT b) c)) \<rparr>"

lemma toy_bcrypt_laws: "bcrypt_laws toy_bcrypt"
  by (auto simp: bcrypt_laws_def toy_bcrypt_def comp_def)

definition toy_packet :: NetBuffer where
  "toy_packet = \<lparr> m_pSerializeBuffer = replicate 5 0 @ [2] @ le_bytes 8 (0::PacketSequence) @ [1, 2, 3] @ replicate 31 0,
     m_iRead = 5, m_iWrite = 17, m_iWriteLast = 0, m_bIsEncoded = False \<rparr>"

theorem encode_decode_roundtrip_witness:
  "\<exists>e r'. EncodePacket documented_api toy_bcrypt 0 CLIENT_TO_SERVER (Some (replicate 16 1)) (Some ()) True toy_packet = Some e \<and>
     DecodePacket documented_api toy_bcrypt (Some (replicate 16 1)) (Some ()) True CLIENT_TO_SERVER
       (e\<lparr> m_iRead := 6, m_iWrite := m_iWriteLast e \<rparr>) = Some (True, r') \<and>
     packet_body True toy_packet = [1, 2, 3]"
proof -
  let ?enc = "EncodePacket documented_api toy_bcrypt 0 CLIENT_TO_SERVER (Some (replicate 16 1)) (Some ()) True toy_packet"
  have enc: "encodable True 0 toy_packet"
    by (simp add: encodable_def toy_packet_def bodyOffsetWithHeader_def slice_def le_bytes_def upt_rec)
  obtain e where e: "?enc = Some e" "m_bIsEncoded e"
    "receives e (e\<lparr> m_iRead := 6, m_iWrite := m_iWriteLast e \<rparr>)"
    using EncodePacket_total [OF documented_api_laws toy_bcrypt_laws enc, of "replicate 16 1" "()" CLIENT_TO_SERVER]
    by (auto simp: toy_bcrypt_def)
  from encode_decode_roundtrip [OF documented_api_laws toy_bcrypt_laws enc _ e] e(1)
  have "\<exists>r'. DecodePacket documented_api toy_bcrypt (Some (replicate 16 1)) (Some ()) True CLIENT_TO_SERVER
       (e\<lparr> m_iRead := 6, m_iWrite := m_iWriteLast e \<rparr>) = Some (True, r')" by auto
  moreover have "packet_body True toy_packet = [1, 2, 3]"
    by (simp add: packet_body_def toy_packet_def bodyOffsetWithHeader_def slice_def le_bytes_def upt_rec)
  ultimately show ?thesis using e(1) by blast
qed

end
