(* ===== verification/Session_Info.thy ===== *)
theory Session_Info
  imports Packet_Crypto
begin

text \<open>
  What the broker tells a client about its session: Common/Crypto/CryptoHelper for the random
  bytes and the key handle, and the packet RUDPSessionBroker.cpp writes and the client's
  SessionGetter.cpp reads. The string operators of \<open>NetBuffer\<close> and the calls of CNG are
  parameters; \<open>string_laws\<close> is what Docs/Server/PacketFormat.md says of the operators.
\<close>

section \<open>CryptoHelper\<close>

record 'k KeyApi =
  BCryptGenRandom :: "nat \<Rightarrow> ushort \<Rightarrow> byte list option"
  BCryptGenerateSymmetricKey :: "byte list \<Rightarrow> 'k option"
  keyObjectSize :: nat
  nb_writeString :: "byte list \<Rightarrow> NetBuffer \<Rightarrow> NetBuffer"
  nb_readString :: "NetBuffer \<Rightarrow> byte list \<times> NetBuffer"

definition CryptoHelper_GenerateSecureRandomBytes :: "'k KeyApi \<Rightarrow> ushort \<Rightarrow> nat \<Rightarrow> byte list option" where
  "CryptoHelper_GenerateSecureRandomBytes K len query = BCryptGenRandom K query len"

definition CryptoHelper_GetSymmetricKeyHandle :: "'k KeyApi \<Rightarrow> byte list \<Rightarrow> 'k option" where
  "CryptoHelper_GetSymmetricKeyHandle K key =
     (if keyObjectSize K = 0 then None else BCryptGenerateSymmetricKey K key)"

definition string_laws :: "NetBufferApi \<Rightarrow> 'k KeyApi \<Rightarrow> bool" where
  "string_laws api K \<longleftrightarrow>
     (\<forall>s p. nb_writeString K s p = nb_write api s (nb_write api (le_bytes 2 (of_nat (length s) :: ushort)) p)) \<and>
     (\<forall>p. nb_readString K p =
        (let (n, p1) = nb_read api 2 p in nb_read api (unat (le_word n :: ushort)) p1))"

section \<open>The broker's packet\<close>

definition Broker_SetSessionInfoToBuffer ::
    "NetBufferApi \<Rightarrow> 'k KeyApi \<Rightarrow> byte list \<Rightarrow> PortType \<Rightarrow> SessionIdType \<Rightarrow> byte list \<Rightarrow> byte list
       \<Rightarrow> NetBuffer \<Rightarrow> NetBuffer" where
  "Broker_SetSessionInfoToBuffer api K rudpServerIP targetPort sessionId sessionKey sessionSalt buffer =
     nb_write api sessionSalt (nb_write api sessionKey (nb_write api (le_bytes 2 sessionId)
       (nb_write api (le_bytes 2 targetPort) (nb_writeString K rudpServerIP buffer))))"

section \<open>The client's reading of it\<close>

record 'k SessionInfo =
  si_serverIp :: "byte list"
  si_port :: PortType
  si_sessionId :: SessionIdType
  si_sessionKey :: "byte list"
  si_sessionSalt :: "byte list"
  si_keyObjectBuffer :: bool
  si_sessionKeyHandle :: "'k option"

definition Client_SetTargetSessionInfo ::
    "NetBufferApi \<Rightarrow> 'k KeyApi \<Rightarrow> NetBuffer \<Rightarrow> 'k SessionInfo \<Rightarrow> bool \<times> 'k SessionInfo" where
  "Client_SetTargetSessionInfo api K receivedBuffer info =
     (let (code, b1) = nb_read api 1 receivedBuffer in
      if (le_word code :: byte) \<noteq> 0 then (False, info)
      else let (serverIp, b2) = nb_readString K b1;
               (port, b3) = nb_read api 2 b2;
               (sessionId, b4) = nb_read api 2 b3;
               (key, b5) = nb_read api SESSION_KEY_SIZE b4;
               (salt, b6) = nb_read api SESSION_SALT_SIZE b5;
               handle = CryptoHelper_GetSymmetricKeyHandle K key
           in (handle \<noteq> None,
               \<lparr> si_serverIp = serverIp, si_port = le_word port, si_sessionId = le_word sessionId,
                 si_sessionKey = key, si_sessionSalt = salt, si_keyObjectBuffer = True,
                 si_sessionKeyHandle = handle \<rparr>))"

section \<open>Writing and reading in sequence\<close>

text \<open>The values lie one behind the other from the read cursor.\<close>

definition holds :: "NetBuffer \<Rightarrow> byte list \<Rightarrow> bool" where
  "holds p bs \<longleftrightarrow> length (m_pSerializeBuffer p) < 65536 \<and> unat (m_iRead p) + length bs \<le> length (m_pSerializeBuffer p) \<and>
     slice (unat (m_iRead p)) (length bs) (m_pSerializeBuffer p) = bs"

lemma unat_add_ushort: "unat (a::ushort) + n < 65536 \<Longrightarrow> unat (a + of_nat n) = unat a + n"
  by (simp add: unat_word_ariths unat_of_nat)

lemma read_holds:
  assumes "read_law api" "holds p (bs @ rest)" "length bs = n"
  shows "\<exists>p'. nb_read api n p = (bs, p') \<and> holds p' rest"
proof -
  let ?m = "m_pSerializeBuffer p" and ?r = "unat (m_iRead p)"
  have h: "length ?m < 65536" "?r + (length bs + length rest) \<le> length ?m"
    "take (length bs + length rest) (drop ?r ?m) = bs @ rest"
    using assms(2) by (simp_all add: holds_def slice_def)
  have bs: "slice ?r n ?m = bs"
    using arg_cong [OF h(3), of "take n"] assms(3) by (simp add: slice_def)
  have adv: "unat (m_iRead p + of_nat n) = ?r + n" using h(1,2) assms(3) by (intro unat_add_ushort) simp
  have "slice (?r + n) (length rest) ?m = rest"
    using arg_cong [OF h(3), of "drop n"] assms(3) by (simp add: slice_def drop_take add.commute)
  then have "holds (p\<lparr> m_iRead := m_iRead p + of_nat n \<rparr>) rest" using h adv assms(3) by (simp add: holds_def)
  moreover have "nb_read api n p = (bs, p\<lparr> m_iRead := m_iRead p + of_nat n \<rparr>)"
    using assms(1,3) h bs by (simp add: read_law_def)
  ultimately show ?thesis by blast
qed

text \<open>The bytes between the header and the write cursor.\<close>

definition written :: "NetBuffer \<Rightarrow> byte list \<Rightarrow> bool" where
  "written p bs \<longleftrightarrow> length (m_pSerializeBuffer p) < 65536 \<and> unat (m_iWrite p) = 5 + length bs \<and>
     5 + length bs \<le> length (m_pSerializeBuffer p) \<and> slice 5 (length bs) (m_pSerializeBuffer p) = bs"

lemma write_written:
  assumes "write_law api" "written p bs" "5 + length bs + length cs \<le> length (m_pSerializeBuffer p)"
  shows "written (nb_write api cs p) (bs @ cs)"
    "length (m_pSerializeBuffer (nb_write api cs p)) = length (m_pSerializeBuffer p)"
proof -
  let ?m = "m_pSerializeBuffer p"
  have w: "length ?m < 65536" "unat (m_iWrite p) = 5 + length bs" "take (length bs) (drop 5 ?m) = bs"
    using assms(2) by (simp_all add: written_def slice_def)
  have e: "nb_write api cs p = p\<lparr> m_pSerializeBuffer := patch (5 + length bs) cs ?m, m_iWrite := m_iWrite p + of_nat (length cs) \<rparr>"
    using assms(1,3) w by (simp add: write_law_def)
  have adv: "unat (m_iWrite p + of_nat (length cs)) = 5 + length bs + length cs"
    using assms(3) w by (subst unat_add_ushort) simp_all
  have "drop 5 (patch (5 + length bs) cs ?m) = bs @ cs @ drop (5 + length bs + length cs) ?m"
  proof -
    have "drop 5 (take (5 + length bs) ?m) = bs" using w(3) by (simp add: drop_take)
    then show ?thesis using assms(3) by (simp add: patch_def)
  qed
  then show "written (nb_write api cs p) (bs @ cs)" using w assms(3) adv by (simp add: e written_def slice_def)
  show "length (m_pSerializeBuffer (nb_write api cs p)) = length ?m" using assms(3) by (simp add: e)
qed

definition session_info_bytes ::
    "byte list \<Rightarrow> PortType \<Rightarrow> SessionIdType \<Rightarrow> byte list \<Rightarrow> byte list \<Rightarrow> byte list" where
  "session_info_bytes ip port sessionId key salt =
     [0] @ le_bytes 2 (of_nat (length ip) :: ushort) @ ip @ le_bytes 2 port @ le_bytes 2 sessionId @ key @ salt"

lemma SetSessionInfo_written:
  assumes "netbuffer_laws api" "string_laws api K" "written p []"
    "length (session_info_bytes ip port q key salt) + 5 \<le> length (m_pSerializeBuffer p)"
  shows "written (Broker_SetSessionInfoToBuffer api K ip port q key salt
      (nb_write api [CONNECT_RESULT_CODE_byte SUCCESS] p)) (session_info_bytes ip port q key salt)"
proof -
  have wl: "write_law api" using assms(1) by (simp add: netbuffer_laws_def)
  note cap = assms(4) [unfolded session_info_bytes_def, simplified]
  let ?p1 = "nb_write api [0] p"
  let ?p2 = "nb_write api (le_bytes 2 (of_nat (length ip) :: ushort)) ?p1"
  let ?p3 = "nb_write api ip ?p2"
  let ?p4 = "nb_write api (le_bytes 2 port) ?p3"
  let ?p5 = "nb_write api (le_bytes 2 q) ?p4"
  let ?p6 = "nb_write api key ?p5"
  have 1: "written ?p1 ([] @ [0])" "length (m_pSerializeBuffer ?p1) = length (m_pSerializeBuffer p)"
    by (rule write_written [OF wl assms(3)]; use cap in simp)+
  note 2 = write_written [OF wl 1(1), of "le_bytes 2 (of_nat (length ip) :: ushort)"]
  note 3 = write_written [OF wl 2(1), of ip]
  note 4 = write_written [OF wl 3(1), of "le_bytes 2 port"]
  note 5 = write_written [OF wl 4(1), of "le_bytes 2 q"]
  note 6 = write_written [OF wl 5(1), of key]
  note 7 = write_written [OF wl 6(1), of salt]
  have "written (nb_write api salt ?p6) ((((((([] @ [0]) @ le_bytes 2 (of_nat (length ip) :: ushort)) @ ip) @ le_bytes 2 port)
      @ le_bytes 2 q) @ key) @ salt)"
    using cap 1(2) 2(2) 3(2) 4(2) 5(2) 6(2) by (intro 7) simp_all
  then show ?thesis
    using assms(2) by (simp add: Broker_SetSessionInfoToBuffer_def string_laws_def session_info_bytes_def)
qed

text \<open>The session information the broker writes is what the client reads: address, port,
  session id, key and salt, and the key handle made of the same key. The bytes between are
  those of the broker's buffer behind its header, as TLS delivers them.\<close>

theorem session_info_roundtrip:
  assumes "netbuffer_laws api" "string_laws api K" "written p []"
    "length (session_info_bytes ip port sessionId key salt) + 5 \<le> length (m_pSerializeBuffer p)"
    "length ip < 65536" "length key = SESSION_KEY_SIZE" "length salt = SESSION_SALT_SIZE"
    "b = Broker_SetSessionInfoToBuffer api K ip port sessionId key salt
           (nb_write api [CONNECT_RESULT_CODE_byte SUCCESS] p)"
    "holds r (slice 5 (unat (m_iWrite b) - 5) (m_pSerializeBuffer b))"
  shows "Client_SetTargetSessionInfo api K r info =
    (CryptoHelper_GetSymmetricKeyHandle K key \<noteq> None,
     \<lparr> si_serverIp = ip, si_port = port, si_sessionId = sessionId, si_sessionKey = key,
       si_sessionSalt = salt, si_keyObjectBuffer = True,
       si_sessionKeyHandle = CryptoHelper_GetSymmetricKeyHandle K key \<rparr>)"
proof -
  have rl: "read_law api" using assms(1) by (simp add: netbuffer_laws_def)
  have "written b (session_info_bytes ip port sessionId key salt)"
    unfolding assms(8) by (rule SetSessionInfo_written [OF assms(1-4)])
  then have "holds r (session_info_bytes ip port sessionId key salt)" using assms(9) by (simp add: written_def)
  then have r: "holds r ([0] @ le_bytes 2 (of_nat (length ip) :: ushort) @ ip @ le_bytes 2 port @ le_bytes 2 sessionId @ key @ (salt @ []))"
    by (simp add: session_info_bytes_def)
  obtain p1 where 1: "nb_read api 1 r = ([0], p1)" "holds p1 (le_bytes 2 (of_nat (length ip) :: ushort) @ ip @ le_bytes 2 port @ le_bytes 2 sessionId @ key @ salt @ [])"
    using read_holds [OF rl r] by auto
  obtain p2 where 2: "nb_read api 2 p1 = (le_bytes 2 (of_nat (length ip) :: ushort), p2)" "holds p2 (ip @ le_bytes 2 port @ le_bytes 2 sessionId @ key @ salt @ [])"
    using read_holds [OF rl 1(2)] by auto
  obtain p3 where 3: "nb_read api (length ip) p2 = (ip, p3)" "holds p3 (le_bytes 2 port @ le_bytes 2 sessionId @ key @ salt @ [])"
    using read_holds [OF rl 2(2)] by auto
  obtain p4 where 4: "nb_read api 2 p3 = (le_bytes 2 port, p4)" "holds p4 (le_bytes 2 sessionId @ key @ salt @ [])"
    using read_holds [OF rl 3(2)] by auto
  obtain p5 where 5: "nb_read api 2 p4 = (le_bytes 2 sessionId, p5)" "holds p5 (key @ salt @ [])"
    using read_holds [OF rl 4(2)] by auto
  obtain p6 where 6: "nb_read api SESSION_KEY_SIZE p5 = (key, p6)" "holds p6 (salt @ [])"
    using read_holds [OF rl 5(2) assms(6)] by auto
  obtain p7 where 7: "nb_read api SESSION_SALT_SIZE p6 = (salt, p7)"
    using read_holds [OF rl 6(2) assms(7)] by auto
  have "unat (of_nat (length ip) :: ushort) = length ip" using assms(5) by (simp add: unat_of_nat)
  then have s: "nb_readString K p1 = (ip, p3)"
    using assms(2) 2(1) 3(1) by (simp add: string_laws_def le_word_le_bytes)
  show ?thesis
    using 1(1) s 4(1) 5(1) 6(1) 7 by (simp add: Client_SetTargetSessionInfo_def Let_def le_word_le_bytes)
qed

definition documented_keys :: "unit KeyApi" where
  "documented_keys = \<lparr> BCryptGenRandom = (\<lambda>query len. Some (replicate (unat len) 7)),
     BCryptGenerateSymmetricKey = (\<lambda>key. Some ()), keyObjectSize = 600,
     nb_writeString = (\<lambda>s p. nb_write documented_api s
        (nb_write documented_api (le_bytes 2 (of_nat (length s) :: ushort)) p)),
     nb_readString = (\<lambda>p. let (n, p1) = nb_read documented_api 2 p
        in nb_read documented_api (unat (le_word n :: ushort)) p1) \<rparr>"

lemma documented_keys_laws: "string_laws documented_api documented_keys"
  by (simp add: string_laws_def documented_keys_def)

lemma documented_buffer: "written (nb_Alloc documented_api) []"
  by (simp add: written_def documented_api_def slice_def)

definition blank_info :: "unit SessionInfo" where
  "blank_info = \<lparr> si_serverIp = [], si_port = 0, si_sessionId = 0, si_sessionKey = [], si_sessionSalt = [],
     si_keyObjectBuffer = False, si_sessionKeyHandle = None \<rparr>"

theorem session_info_roundtrip_witness:
  "\<exists>r :: NetBuffer. Client_SetTargetSessionInfo documented_api documented_keys r blank_info =
     (True, \<lparr> si_serverIp = [49], si_port = 7777, si_sessionId = 3, si_sessionKey = replicate 16 1,
        si_sessionSalt = replicate 16 2, si_keyObjectBuffer = True, si_sessionKeyHandle = Some () \<rparr>)"
proof -
  let ?b = "Broker_SetSessionInfoToBuffer documented_api documented_keys [49] 7777 3 (replicate 16 1) (replicate 16 2)
    (nb_write documented_api [CONNECT_RESULT_CODE_byte SUCCESS] (nb_Alloc documented_api))"
  let ?info = "session_info_bytes [49] 7777 3 (replicate 16 1) (replicate 16 2)"
  have fit: "length ?info + 5 \<le> length (m_pSerializeBuffer (nb_Alloc documented_api))"
    by (simp add: session_info_bytes_def documented_api_def)
  have w: "written ?b ?info"
    by (rule SetSessionInfo_written [OF documented_api_laws documented_keys_laws documented_buffer fit])
  have "holds (?b\<lparr> m_iRead := 5 \<rparr>) (slice 5 (unat (m_iWrite ?b) - 5) (m_pSerializeBuffer ?b))"
    using w by (simp add: written_def holds_def)
  from session_info_roundtrip [OF documented_api_laws documented_keys_laws documented_buffer fit _ _ _ refl this, of blank_info]
  show ?thesis
    by (intro exI [of _ "?b\<lparr> m_iRead := 5 \<rparr>"])
       (simp add: CryptoHelper_GetSymmetricKeyHandle_def documented_keys_def)
qed

end
