(* ===== verification/Min_Queue.thy ===== *)
theory Min_Queue
  imports Main "HOL-Library.Multiset"
begin

text \<open>
  The contract of \<open>std::priority_queue\<close> with the smallest key on top, as its users rely on it:
  the queue is an ascending list, \<open>push\<close> keeps the order and adds one element. The scheduler
  of the retransmission threads, the packets the client holds and the packets it could not send
  yet are its instances.
\<close>

locale min_queue =
  fixes key :: "'a \<Rightarrow> 'k::linorder" and push :: "'a \<Rightarrow> 'a list \<Rightarrow> 'a list"
  assumes mset_push: "mset (push x q) = add_mset x (mset q)"
    and sorted_push: "sorted (map key q) \<Longrightarrow> sorted (map key (push x q))"
begin

lemma set_push: "set (push x q) = insert x (set q)"
  using mset_push [of x q] by (metis set_mset_add_mset_insert set_mset_mset)

lemma length_push: "length (push x q) = Suc (length q)"
  using mset_push [of x q] by (metis size_add_mset size_mset)

lemma top_least: "sorted (map key (x # q)) \<Longrightarrow> y \<in> set (x # q) \<Longrightarrow> key x \<le> key y"
  by auto

text \<open>An order with the same keys: what was pushed in any order comes out in the order of the keys.\<close>

lemma mset_pushes: "mset (fold push xs q) = mset xs + mset q"
  by (induction xs arbitrary: q) (simp_all add: mset_push)

lemma sorted_pushes: "sorted (map key q) \<Longrightarrow> sorted (map key (fold push xs q))"
  by (induction xs arbitrary: q) (simp_all add: sorted_push)

lemma keys_of_pushes: "map key (fold push xs []) = sort (map key xs)"
proof -
  have "mset (map key (fold push xs [])) = mset (map key xs)" by (simp add: mset_pushes)
  then show ?thesis using sorted_pushes [of "[]" xs] by (metis list.simps(8) properties_for_sort sorted_simps(1))
qed

text \<open>Taking the elements below a bound from the top leaves the others.\<close>

lemma pop_below:
  "sorted (map key q) \<Longrightarrow> dropWhile (\<lambda>x. key x < k) q = filter (\<lambda>x. \<not> key x < k) q"
proof (induction q)
  case (Cons x q)
  have "filter (\<lambda>x. \<not> key x < k) (x # q) = x # q" if "\<not> key x < k"
    using Cons.prems that by (simp add: not_less) (metis filter_True order_trans)
  then show ?case using Cons by simp
qed simp

end

lemma min_queue_insort_key: "min_queue key (insort_key key)"
  by unfold_locales (simp_all add: sorted_insort_key)

end
