(* ===== verification/Send_Packet_Info.thy ===== *)
theory Send_Packet_Info
  imports Net_Buffer Rto_Estimator Min_Queue
begin

text \<open>
  MultiSocketRUDPServer/SendPacketInfo, RetransmissionScheduler.h and
  PacketSequenceSetKey.h: the reference-counted descriptor of a packet on its way, and
  the heap of retransmission deadlines.

  Descriptors live in a store: a pointer is an address, an address that is not allocated
  belongs to the pool. Touching one of those is undefined in C++ and sets \<open>spi_fault\<close>; the
  theorems on the sessions prove that it stays False. The buffer belongs to its
  descriptor and is stored in it. The pool that allocates descriptors is a library class:
  which free address it returns is a parameter.
\<close>

section \<open>The descriptor\<close>

record SendPacketInfo =
  spi_buffer :: "NetBuffer option"
  spi_owner :: "nat option"
  spi_ownerGeneration :: "32 word"
  spi_retransmissionCount :: PacketRetransmissionCount
  spi_sendPacketSequence :: PacketSequence
  spi_scheduleVersion :: "64 word"
  spi_isErasedPacketInfo :: bool
  spi_isReplyType :: bool
  spi_refCount :: int
  spi_lastSendTime :: time_point
  spi_canUseRttSample :: bool

record SpiStore =
  spi_mem :: "nat \<Rightarrow> SendPacketInfo option"
  spi_fault :: bool

definition SendPacketInfo_Initialize ::
    "nat \<Rightarrow> 32 word \<Rightarrow> NetBuffer \<Rightarrow> PacketSequence \<Rightarrow> bool \<Rightarrow> SendPacketInfo" where
  "SendPacketInfo_Initialize inOwner inOwnerGeneration inBuffer inSendPacketSequence inIsReplyType =
     \<lparr> spi_buffer = Some inBuffer, spi_owner = Some inOwner,
       spi_ownerGeneration = inOwnerGeneration, spi_retransmissionCount = 0,
       spi_sendPacketSequence = inSendPacketSequence, spi_scheduleVersion = 0,
       spi_isErasedPacketInfo = False, spi_isReplyType = inIsReplyType, spi_refCount = 1,
       spi_lastSendTime = 0, spi_canUseRttSample = (\<not> inIsReplyType) \<rparr>"

text \<open>A read and a write through a pointer.\<close>

definition spi_get :: "nat \<Rightarrow> SpiStore \<Rightarrow> SendPacketInfo option" where
  "spi_get a st = spi_mem st a"

definition spi_update :: "nat \<Rightarrow> (SendPacketInfo \<Rightarrow> SendPacketInfo) \<Rightarrow> SpiStore \<Rightarrow> SpiStore" where
  "spi_update a f st =
     (case spi_mem st a of
        None \<Rightarrow> st\<lparr> spi_fault := True \<rparr>
      | Some i \<Rightarrow> st\<lparr> spi_mem := (spi_mem st)(a := Some (f i)) \<rparr>)"

text \<open>\<open>sendPacketInfoPool->Alloc()\<close> and \<open>Initialize\<close>.\<close>

definition spi_new :: "nat \<Rightarrow> SendPacketInfo \<Rightarrow> SpiStore \<Rightarrow> SpiStore" where
  "spi_new a i st = st\<lparr> spi_mem := (spi_mem st)(a := Some i) \<rparr>"

definition SendPacketInfo_AddRefCount :: "nat \<Rightarrow> SpiStore \<Rightarrow> SpiStore" where
  "SendPacketInfo_AddRefCount a = spi_update a (\<lambda>i. i\<lparr> spi_refCount := spi_refCount i + 1 \<rparr>)"

definition SendPacketInfo_MarkSentForRttSample :: "time_point \<Rightarrow> nat \<Rightarrow> SpiStore \<Rightarrow> SpiStore" where
  "SendPacketInfo_MarkSentForRttSample now a =
     spi_update a (\<lambda>i. if spi_isReplyType i then i else i\<lparr> spi_lastSendTime := now \<rparr>)"

definition SendPacketInfo_InvalidateRttSample :: "nat \<Rightarrow> SpiStore \<Rightarrow> SpiStore" where
  "SendPacketInfo_InvalidateRttSample a = spi_update a (\<lambda>i. i\<lparr> spi_canUseRttSample := False \<rparr>)"

definition SendPacketInfo_TryGetRttSample :: "time_point \<Rightarrow> SendPacketInfo \<Rightarrow> int option" where
  "SendPacketInfo_TryGetRttSample now i =
     (if spi_isReplyType i \<or> \<not> spi_canUseRttSample i then None
      else if spi_lastSendTime i = 0 then None
      else let outSample = now - spi_lastSendTime i
           in if outSample > 0 then Some outSample else None)"

text \<open>\<open>Free\<close>: the last reference gives the buffer and the descriptor back.\<close>

definition SendPacketInfo_Free :: "nat \<Rightarrow> SpiStore \<Rightarrow> SpiStore" where
  "SendPacketInfo_Free a st =
     (case spi_mem st a of
        None \<Rightarrow> st\<lparr> spi_fault := True \<rparr>
      | Some i \<Rightarrow>
          let prev = spi_refCount i;
              st1 = st\<lparr> spi_mem := (spi_mem st)(a := Some (i\<lparr> spi_refCount := prev - 1 \<rparr>)) \<rparr>
          in if prev \<le> 0 then st1
             else if prev = 1 then st1\<lparr> spi_mem := (spi_mem st1)(a := None) \<rparr>
             else st1)"

section \<open>Keys of sent packets\<close>

datatype PacketSequenceSetKey = PacketSequenceSetKey (key_isReplyType: bool) (key_packetSequence: PacketSequence)

text \<open>\<open>operator<\<close>: packets that are no replies first, then by sequence. It is a linear
  order, as \<open>std::set\<close> requires.\<close>

definition key_less :: "PacketSequenceSetKey \<Rightarrow> PacketSequenceSetKey \<Rightarrow> bool" where
  "key_less k other =
     (if key_isReplyType k \<noteq> key_isReplyType other
      then \<not> key_isReplyType k \<and> key_isReplyType other
      else key_packetSequence k < key_packetSequence other)"

instantiation PacketSequenceSetKey :: linorder
begin

definition less_PacketSequenceSetKey :: "PacketSequenceSetKey \<Rightarrow> PacketSequenceSetKey \<Rightarrow> bool" where
  "less_PacketSequenceSetKey = key_less"

definition less_eq_PacketSequenceSetKey :: "PacketSequenceSetKey \<Rightarrow> PacketSequenceSetKey \<Rightarrow> bool" where
  "less_eq_PacketSequenceSetKey k l = (\<not> key_less l k)"

instance
proof
  fix k l m :: PacketSequenceSetKey
  note defs = less_PacketSequenceSetKey_def less_eq_PacketSequenceSetKey_def key_less_def
  show "k < l \<longleftrightarrow> k \<le> l \<and> \<not> l \<le> k" by (auto simp: defs)
  show "k \<le> k" by (simp add: defs)
  show "k \<le> l \<Longrightarrow> l \<le> m \<Longrightarrow> k \<le> m" by (auto simp: defs split: if_splits)
  show "k \<le> l \<Longrightarrow> l \<le> k \<Longrightarrow> k = l"
    by (cases k; cases l) (auto simp: defs split: if_splits)
  show "k \<le> l \<or> l \<le> k" by (auto simp: defs)
qed

end

section \<open>The scheduler\<close>

record RetransmissionHeapEntry =
  he_deadline :: time_point
  he_version :: "64 word"
  he_info :: nat

text \<open>\<open>std::priority_queue\<close> ordered by the deadline: the list of its entries with the
  earliest first. Entries of equal deadline may come in any order in C++; here the one
  pushed first.\<close>

type_synonym RetransmissionScheduler = "RetransmissionHeapEntry list"

fun heap_push :: "RetransmissionHeapEntry \<Rightarrow> RetransmissionScheduler \<Rightarrow> RetransmissionScheduler" where
  "heap_push e [] = [e]"
| "heap_push e (x # h) = (if he_deadline e < he_deadline x then e # x # h else x # heap_push e h)"

definition PushRetransmissionSchedule ::
    "nat \<Rightarrow> time_point \<Rightarrow> RetransmissionScheduler \<Rightarrow> SpiStore \<Rightarrow> RetransmissionScheduler \<times> SpiStore" where
  "PushRetransmissionSchedule a deadline heap st =
     (let st1 = spi_update a (\<lambda>i. i\<lparr> spi_scheduleVersion := spi_scheduleVersion i + 1 \<rparr>) st;
          st2 = SendPacketInfo_AddRefCount a st1;
          version = (case spi_get a st2 of None \<Rightarrow> 0 | Some i \<Rightarrow> spi_scheduleVersion i)
      in (heap_push \<lparr> he_deadline = deadline, he_version = version, he_info = a \<rparr> heap, st2))"

lemma mset_heap_push [simp]: "mset (heap_push e h) = add_mset e (mset h)"
  by (induction h) auto

lemma sorted_heap_push:
  "sorted (map he_deadline h) \<Longrightarrow> sorted (map he_deadline (heap_push e h))"
proof (induction h)
  case (Cons x h)
  have "set (heap_push e h) = insert e (set h)"
    using mset_heap_push [of e h] by (metis set_mset_add_mset_insert set_mset_mset)
  with Cons show ?case by auto
qed simp

interpretation scheduler: min_queue he_deadline heap_push
  by unfold_locales (simp_all add: sorted_heap_push)

section \<open>Reference counting\<close>

text \<open>\<open>holders\<close> is the multiset of all pointers to descriptors that the program keeps,
  once per container and once per local variable. The counts are exact when every
  allocated descriptor has as many references as it has holders (at least one), and
  every holder points to an allocated one.\<close>

definition exact :: "nat \<Rightarrow> SendPacketInfo option \<Rightarrow> bool" where
  "exact n oi \<longleftrightarrow> (case oi of None \<Rightarrow> n = 0 | Some i \<Rightarrow> spi_refCount i = int n \<and> 0 < n)"

definition refs_ok :: "nat multiset \<Rightarrow> SpiStore \<Rightarrow> bool" where
  "refs_ok holders st \<longleftrightarrow> \<not> spi_fault st \<and> (\<forall>a. exact (count holders a) (spi_mem st a))"

lemma exact_simps [simp]:
  "exact n None \<longleftrightarrow> n = 0"
  "exact n (Some i) \<longleftrightarrow> spi_refCount i = int n \<and> 0 < n"
  by (simp_all add: exact_def)

lemma refs_okD: "refs_ok H st \<Longrightarrow> exact (count H a) (spi_mem st a)"
  by (simp add: refs_ok_def)

lemma refs_ok_fun_upd:
  assumes "refs_ok H st" "\<not> spi_fault st'" "spi_mem st' = (spi_mem st)(a := oi)"
    and "exact (count H' a) oi" "\<And>b. b \<noteq> a \<Longrightarrow> count H' b = count H b"
  shows "refs_ok H' st'"
  using assms by (simp add: refs_ok_def)

lemma refs_ok_alloc:
  "refs_ok H st \<Longrightarrow> a \<in># H \<Longrightarrow> \<exists>i. spi_mem st a = Some i \<and> spi_refCount i = int (count H a)"
  using refs_okD [of H st a] by (cases "spi_mem st a") (auto simp flip: count_greater_zero_iff)

lemma refs_ok_not_fault: "refs_ok H st \<Longrightarrow> \<not> spi_fault st"
  by (simp add: refs_ok_def)

lemma refs_ok_new:
  assumes "refs_ok H st" "spi_mem st a = None" "spi_refCount i = 1"
  shows "refs_ok (add_mset a H) (spi_new a i st)"
  using refs_okD [OF assms(1), of a] assms refs_ok_not_fault [OF assms(1)]
  by (intro refs_ok_fun_upd [OF assms(1), where a = a and oi = "Some i"]) (simp_all add: spi_new_def)

lemma refs_ok_update:
  assumes "refs_ok H st" "a \<in># H" "\<And>i. spi_refCount (f i) = spi_refCount i"
  shows "refs_ok H (spi_update a f st)"
proof -
  obtain i where "spi_mem st a = Some i" "spi_refCount i = int (count H a)"
    using refs_ok_alloc [OF assms(1,2)] by blast
  with assms refs_ok_not_fault [OF assms(1)] show ?thesis
    by (intro refs_ok_fun_upd [OF assms(1), where a = a and oi = "Some (f i)"])
       (simp_all add: spi_update_def)
qed

lemma refs_ok_AddRefCount:
  assumes "refs_ok H st" "a \<in># H"
  shows "refs_ok (add_mset a H) (SendPacketInfo_AddRefCount a st)"
proof -
  obtain i where "spi_mem st a = Some i" "spi_refCount i = int (count H a)"
    using refs_ok_alloc [OF assms] by blast
  with assms refs_ok_not_fault [OF assms(1)] show ?thesis
    by (intro refs_ok_fun_upd [OF assms(1), where a = a
          and oi = "Some (i\<lparr> spi_refCount := spi_refCount i + 1 \<rparr>)"])
       (simp_all add: spi_update_def SendPacketInfo_AddRefCount_def)
qed

lemma refs_ok_Free:
  assumes "refs_ok (add_mset a H) st"
  shows "refs_ok H (SendPacketInfo_Free a st)"
proof -
  obtain i where i: "spi_mem st a = Some i" "spi_refCount i = int (count H a) + 1"
    using refs_ok_alloc [OF assms, of a] by auto
  show ?thesis
  proof (cases "count H a = 0")
    case True
    with i refs_ok_not_fault [OF assms] show ?thesis
      by (intro refs_ok_fun_upd [OF assms, where a = a and oi = None])
         (simp_all add: SendPacketInfo_Free_def Let_def)
  next
    case False
    with i refs_ok_not_fault [OF assms] show ?thesis
      by (intro refs_ok_fun_upd [OF assms, where a = a
            and oi = "Some (i\<lparr> spi_refCount := int (count H a) \<rparr>)"])
         (simp_all add: SendPacketInfo_Free_def Let_def count_eq_zero_iff)
  qed
qed

lemma refs_ok_MarkSentForRttSample:
  "refs_ok H st \<Longrightarrow> a \<in># H \<Longrightarrow> refs_ok H (SendPacketInfo_MarkSentForRttSample now a st)"
  unfolding SendPacketInfo_MarkSentForRttSample_def by (rule refs_ok_update) auto

lemma refs_ok_InvalidateRttSample:
  "refs_ok H st \<Longrightarrow> a \<in># H \<Longrightarrow> refs_ok H (SendPacketInfo_InvalidateRttSample a st)"
  unfolding SendPacketInfo_InvalidateRttSample_def by (rule refs_ok_update) auto

lemma refs_ok_PushRetransmissionSchedule:
  assumes "refs_ok H st" "a \<in># H" "PushRetransmissionSchedule a deadline heap st = (heap', st')"
  shows "refs_ok (add_mset a H) st'"
    and "mset (map he_info heap') = add_mset a (mset (map he_info heap))"
proof -
  have h: "refs_ok H (spi_update a (\<lambda>i. i\<lparr> spi_scheduleVersion := spi_scheduleVersion i + 1 \<rparr>) st)"
    using assms(1,2) by (intro refs_ok_update) auto
  with refs_ok_AddRefCount [OF this assms(2)] assms(3) show "refs_ok (add_mset a H) st'"
    by (auto simp: PushRetransmissionSchedule_def Let_def)
  show "mset (map he_info heap') = add_mset a (mset (map he_info heap))"
    using assms(3) by (auto simp: PushRetransmissionSchedule_def Let_def mset_map)
qed

lemmas refs_ok_intros = refs_ok_new refs_ok_update refs_ok_AddRefCount refs_ok_Free
  refs_ok_MarkSentForRttSample refs_ok_InvalidateRttSample

text \<open>Freeing each of a list of references once.\<close>

lemma refs_ok_Free_all:
  "refs_ok (H + mset as) st \<Longrightarrow> refs_ok H (fold SendPacketInfo_Free as st)"
proof (induction as arbitrary: st)
  case (Cons a as)
  then show ?case using refs_ok_Free [of a "H + mset as"] by simp
qed simp

end
