(* ===== verification/Send_Context.thy ===== *)
theory Send_Context
  imports Send_Packet_Info Ring_Buffer
begin

text \<open>
  MultiSocketRUDPServer/SessionSendContext: the send side of a session. It holds
  descriptors in three places, a queue, a reserved slot and the map of unacknowledged
  packets, each with a reference of its own (\<open>sc_holders\<close>), and packets that wait for the
  congestion window in a ring buffer. The locks make each operation atomic. Packets in
  the ring buffer are owned by it and are values here; the null pointers that fill its
  vector are \<open>null_buffer\<close> and are never read.
\<close>

section \<open>State\<close>

datatype IO_MODE = IO_NONE_SENDING | IO_SENDING

record SendContext =
  sc_reservedSendPacketInfo :: "nat option"
  sc_rioSendBuffer :: "byte list"
  sc_sendBufferId :: "nat option"
  sc_ioMode :: IO_MODE
  sc_sendPacketInfoQueue :: "nat list"
  sc_lastSendPacketSequence :: PacketSequence
  sc_sendPacketInfoMap :: "(PacketSequence \<times> nat) list"
  sc_cachedSequenceSet :: "PacketSequenceSetKey set"
  sc_pendingPacketQueue :: "(PacketSequence \<times> NetBuffer) RingBuffer"

definition null_buffer :: NetBuffer where
  "null_buffer = \<lparr> m_pSerializeBuffer = [], m_iRead = 0, m_iWrite = 0, m_iWriteLast = 0,
                   m_bIsEncoded = False \<rparr>"

definition SendContext_new :: SendContext where
  "SendContext_new =
     \<lparr> sc_reservedSendPacketInfo = None, sc_rioSendBuffer = replicate MAX_SEND_BUFFER_SIZE 0,
       sc_sendBufferId = None, sc_ioMode = IO_NONE_SENDING, sc_sendPacketInfoQueue = [],
       sc_lastSendPacketSequence = 0, sc_sendPacketInfoMap = [], sc_cachedSequenceSet = {},
       sc_pendingPacketQueue = RingBuffer_new (0, null_buffer) 0 \<rparr>"

section \<open>Operations\<close>

text \<open>\<open>bufferId\<close> is what \<open>RIORegisterBuffer\<close> returned, None for \<open>RIO_INVALID_BUFFERID\<close>.\<close>

definition SendContext_Initialize :: "nat option \<Rightarrow> ushort \<Rightarrow> SendContext \<Rightarrow> bool \<times> SendContext" where
  "SendContext_Initialize bufferId pendingQueueCapacity sc =
     (case bufferId of
        None \<Rightarrow> (False, sc)
      | Some i \<Rightarrow> (True, sc\<lparr> sc_sendBufferId := Some i,
          sc_pendingPacketQueue := RingBuffer_Resize (0, null_buffer) pendingQueueCapacity
                                     (sc_pendingPacketQueue sc),
          sc_cachedSequenceSet := {} \<rparr>))"

text \<open>Which buffer is deregistered, and the context afterwards.\<close>

definition SendContext_Cleanup :: "SendContext \<Rightarrow> nat option \<times> SendContext" where
  "SendContext_Cleanup sc =
     (case sc_sendBufferId sc of
        None \<Rightarrow> (None, sc)
      | Some i \<Rightarrow> (Some i, sc\<lparr> sc_sendBufferId := None \<rparr>))"

lemma RingBuffer_Pop_count:
  "RingBuffer_Pop rb = (Some x, rb') \<Longrightarrow> unat (rb_count rb') < unat (rb_count rb)"
  using ring_not_empty [of rb] by (auto simp: RingBuffer_Pop_def split: if_splits)

function SendContext_ClearPendingQueue ::
    "(PacketSequence \<times> NetBuffer) RingBuffer \<Rightarrow> (PacketSequence \<times> NetBuffer) RingBuffer" where
  "SendContext_ClearPendingQueue rb =
     (case RingBuffer_Pop rb of
        (None, rb') \<Rightarrow> rb'
      | (Some item, rb') \<Rightarrow> SendContext_ClearPendingQueue rb')"
  by pat_completeness auto

termination
  by (relation "measure (\<lambda>rb. unat (rb_count rb))") (auto dest: RingBuffer_Pop_count [OF sym])

declare SendContext_ClearPendingQueue.simps [simp del]

text \<open>The loop over the queue in \<open>Reset\<close> frees its front and pops it.\<close>

fun free_queue :: "nat list \<Rightarrow> SpiStore \<Rightarrow> SpiStore" where
  "free_queue [] st = st"
| "free_queue (a # q) st = free_queue q (SendPacketInfo_Free a st)"

definition SendContext_Reset :: "SendContext \<Rightarrow> SpiStore \<Rightarrow> SendContext \<times> SpiStore" where
  "SendContext_Reset sc st =
     (let st1 = (case sc_reservedSendPacketInfo sc of None \<Rightarrow> st | Some a \<Rightarrow> SendPacketInfo_Free a st);
          st2 = free_queue (sc_sendPacketInfoQueue sc) st1
      in (sc\<lparr> sc_ioMode := IO_NONE_SENDING, sc_lastSendPacketSequence := 0, sc_sendBufferId := None,
              sc_reservedSendPacketInfo := None, sc_sendPacketInfoQueue := [],
              sc_pendingPacketQueue := SendContext_ClearPendingQueue (sc_pendingPacketQueue sc) \<rparr>, st2))"

definition SendContext_GetSendPacketInfoQueueSize :: "SendContext \<Rightarrow> nat" where
  "SendContext_GetSendPacketInfoQueueSize sc = length (sc_sendPacketInfoQueue sc)"

definition SendContext_PushSendPacketInfo :: "nat \<Rightarrow> SendContext \<Rightarrow> SendContext" where
  "SendContext_PushSendPacketInfo info sc =
     sc\<lparr> sc_sendPacketInfoQueue := sc_sendPacketInfoQueue sc @ [info] \<rparr>"

definition SendContext_TryGetFrontAndPop :: "SendContext \<Rightarrow> nat option \<times> SendContext" where
  "SendContext_TryGetFrontAndPop sc =
     (case sc_sendPacketInfoQueue sc of
        [] \<Rightarrow> (None, sc)
      | front # q \<Rightarrow> (Some front, sc\<lparr> sc_sendPacketInfoQueue := q \<rparr>))"

definition SendContext_IsNothingToSend :: "SendContext \<Rightarrow> bool" where
  "SendContext_IsNothingToSend sc \<longleftrightarrow>
     sc_sendPacketInfoQueue sc = [] \<and> sc_reservedSendPacketInfo sc = None"

definition SendContext_TakeReservedSendPacketInfo :: "SendContext \<Rightarrow> nat option \<times> SendContext" where
  "SendContext_TakeReservedSendPacketInfo sc =
     (sc_reservedSendPacketInfo sc, sc\<lparr> sc_reservedSendPacketInfo := None \<rparr>)"

definition SendContext_SetReservedSendPacketInfo :: "nat \<Rightarrow> SendContext \<Rightarrow> SendContext" where
  "SendContext_SetReservedSendPacketInfo info sc = sc\<lparr> sc_reservedSendPacketInfo := Some info \<rparr>"

text \<open>\<open>std::map\<close>: an association list in ascending order of its distinct keys.\<close>

definition SendContext_InsertSendPacketInfo ::
    "PacketSequence \<Rightarrow> nat \<Rightarrow> SendContext \<Rightarrow> SpiStore \<Rightarrow> SendContext \<times> SpiStore" where
  "SendContext_InsertSendPacketInfo sequence info sc st =
     (if sequence \<in> fst ` set (sc_sendPacketInfoMap sc) then (sc, st)
      else (sc\<lparr> sc_sendPacketInfoMap := insort_key fst (sequence, info) (sc_sendPacketInfoMap sc) \<rparr>,
            SendPacketInfo_AddRefCount info st))"

definition SendContext_FindSendPacketInfo :: "PacketSequence \<Rightarrow> SendContext \<Rightarrow> nat option" where
  "SendContext_FindSendPacketInfo sequence sc = map_of (sc_sendPacketInfoMap sc) sequence"

definition map_erase :: "PacketSequence \<Rightarrow> (PacketSequence \<times> nat) list \<Rightarrow> (PacketSequence \<times> nat) list" where
  "map_erase q m = filter (\<lambda>p. fst p \<noteq> q) m"

definition SendContext_EraseSendPacketInfo ::
    "PacketSequence \<Rightarrow> SendContext \<Rightarrow> SpiStore \<Rightarrow> SendContext \<times> SpiStore" where
  "SendContext_EraseSendPacketInfo sequence sc st =
     (case map_of (sc_sendPacketInfoMap sc) sequence of
        None \<Rightarrow> (sc, st)
      | Some a \<Rightarrow> (sc\<lparr> sc_sendPacketInfoMap := map_erase sequence (sc_sendPacketInfoMap sc) \<rparr>,
                   SendPacketInfo_Free a st))"

definition SendContext_FindAndEraseSendPacketInfo ::
    "PacketSequence \<Rightarrow> SendContext \<Rightarrow> nat option \<times> SendContext" where
  "SendContext_FindAndEraseSendPacketInfo sequence sc =
     (case map_of (sc_sendPacketInfoMap sc) sequence of
        None \<Rightarrow> (None, sc)
      | Some a \<Rightarrow> (Some a, sc\<lparr> sc_sendPacketInfoMap := map_erase sequence (sc_sendPacketInfoMap sc) \<rparr>))"

definition SendContext_ForEachAndClearSendPacketInfoMap ::
    "(nat \<Rightarrow> 's \<Rightarrow> 's) \<Rightarrow> SendContext \<Rightarrow> 's \<Rightarrow> SendContext \<times> 's" where
  "SendContext_ForEachAndClearSendPacketInfoMap func sc s =
     (sc\<lparr> sc_sendPacketInfoMap := [] \<rparr>, fold func (map snd (sc_sendPacketInfoMap sc)) s)"

definition SendContext_IncrementLastSendPacketSequence :: "SendContext \<Rightarrow> PacketSequence \<times> SendContext" where
  "SendContext_IncrementLastSendPacketSequence sc =
     (let q = sc_lastSendPacketSequence sc + 1 in (q, sc\<lparr> sc_lastSendPacketSequence := q \<rparr>))"

definition SendContext_IsPendingQueueEmpty :: "SendContext \<Rightarrow> bool" where
  "SendContext_IsPendingQueueEmpty sc \<longleftrightarrow> RingBuffer_IsEmpty (sc_pendingPacketQueue sc)"

definition SendContext_PendingQueueFront :: "SendContext \<Rightarrow> PacketSequence \<times> NetBuffer" where
  "SendContext_PendingQueueFront sc = RingBuffer_Front (sc_pendingPacketQueue sc)"

definition SendContext_PushToPendingQueue ::
    "PacketSequence \<Rightarrow> NetBuffer \<Rightarrow> SendContext \<Rightarrow> bool \<times> SendContext" where
  "SendContext_PushToPendingQueue sequence buffer sc =
     (let (ok, rb) = RingBuffer_Push (sequence, buffer) (sc_pendingPacketQueue sc)
      in (ok, sc\<lparr> sc_pendingPacketQueue := rb \<rparr>))"

definition SendContext_PopFromPendingQueue ::
    "SendContext \<Rightarrow> (PacketSequence \<times> NetBuffer) option \<times> SendContext" where
  "SendContext_PopFromPendingQueue sc =
     (let (item, rb) = RingBuffer_Pop (sc_pendingPacketQueue sc)
      in (item, sc\<lparr> sc_pendingPacketQueue := rb \<rparr>))"

section \<open>Who holds a descriptor\<close>

definition sc_holders :: "SendContext \<Rightarrow> nat multiset" where
  "sc_holders sc = mset (sc_sendPacketInfoQueue sc)
     + (case sc_reservedSendPacketInfo sc of None \<Rightarrow> {#} | Some a \<Rightarrow> {#a#})
     + mset (map snd (sc_sendPacketInfoMap sc))"

definition sc_wf :: "SendContext \<Rightarrow> bool" where
  "sc_wf sc \<longleftrightarrow> sorted (map fst (sc_sendPacketInfoMap sc)) \<and>
     distinct (map fst (sc_sendPacketInfoMap sc)) \<and> ring_wf (sc_pendingPacketQueue sc)"

lemma sc_holders_new [simp]: "sc_holders SendContext_new = {#}"
  by (simp add: sc_holders_def SendContext_new_def)

lemma sc_wf_new: "sc_wf SendContext_new"
  by (simp add: sc_wf_def SendContext_new_def ring_new_wf)

lemma sc_holders_Push [simp]:
  "sc_holders (SendContext_PushSendPacketInfo a sc) = add_mset a (sc_holders sc)"
  by (simp add: sc_holders_def SendContext_PushSendPacketInfo_def)

lemma sc_holders_TryGetFrontAndPop:
  assumes "SendContext_TryGetFrontAndPop sc = (r, sc')"
  shows "sc_holders sc = (case r of None \<Rightarrow> sc_holders sc' | Some a \<Rightarrow> add_mset a (sc_holders sc'))"
  using assms
  by (auto simp: SendContext_TryGetFrontAndPop_def sc_holders_def split: list.splits option.splits)

lemma sc_holders_TakeReserved:
  assumes "SendContext_TakeReservedSendPacketInfo sc = (r, sc')"
  shows "sc_holders sc = (case r of None \<Rightarrow> sc_holders sc' | Some a \<Rightarrow> add_mset a (sc_holders sc'))"
  using assms
  by (auto simp: SendContext_TakeReservedSendPacketInfo_def sc_holders_def split: option.splits)

lemma sc_holders_SetReserved:
  "sc_reservedSendPacketInfo sc = None \<Longrightarrow>
   sc_holders (SendContext_SetReservedSendPacketInfo a sc) = add_mset a (sc_holders sc)"
  by (simp add: SendContext_SetReservedSendPacketInfo_def sc_holders_def)

lemma mset_insort_key [simp]: "mset (insort_key f x xs) = add_mset x (mset xs)"
  by (induction xs) auto

lemma map_erase_mset:
  assumes "distinct (map fst m)" "map_of m q = Some a"
  shows "mset (map snd m) = add_mset a (mset (map snd (map_erase q m)))"
  using assms
proof (induction m)
  case (Cons p m)
  show ?case
  proof (cases "fst p = q")
    case True
    then have "map_erase q m = m"
      using Cons.prems(1) unfolding map_erase_def by (intro filter_True) (auto simp: image_def)
    with True Cons.prems(2) show ?thesis by (auto simp: map_erase_def split: if_splits)
  next
    case False
    with Cons show ?thesis by (auto simp: map_erase_def split: if_splits)
  qed
qed simp

lemma map_erase_wf:
  "distinct (map fst m) \<Longrightarrow> distinct (map fst (map_erase q m))"
  "sorted (map fst m) \<Longrightarrow> sorted (map fst (map_erase q m))"
  by (simp_all add: map_erase_def distinct_map_filter sorted_filter)

lemma sc_holders_FindAndErase:
  assumes "sc_wf sc" "SendContext_FindAndEraseSendPacketInfo q sc = (r, sc')"
  shows "sc_holders sc = (case r of None \<Rightarrow> sc_holders sc' | Some a \<Rightarrow> add_mset a (sc_holders sc'))"
    and "sc_wf sc'"
  using assms map_erase_mset [of "sc_sendPacketInfoMap sc" q]
  by (auto simp: SendContext_FindAndEraseSendPacketInfo_def sc_holders_def sc_wf_def map_erase_wf
        split: option.splits)

text \<open>Every operation keeps the map ordered and the ring well formed, and the counts of a
  store exact for the holders of this context and any others.\<close>

lemma refs_Insert:
  assumes "refs_ok (add_mset a (sc_holders sc + H)) st" "sc_wf sc"
    and "SendContext_InsertSendPacketInfo q a sc st = (sc', st')"
  shows "refs_ok (add_mset a (sc_holders sc' + H)) st' \<and> sc_wf sc'"
proof (cases "q \<in> fst ` set (sc_sendPacketInfoMap sc)")
  case False
  then have sc': "sc' = sc\<lparr> sc_sendPacketInfoMap := insort_key fst (q, a) (sc_sendPacketInfoMap sc) \<rparr>"
    and st': "st' = SendPacketInfo_AddRefCount a st"
    using assms(3) by (simp_all add: SendContext_InsertSendPacketInfo_def)
  have "sc_holders sc' = add_mset a (sc_holders sc)" by (simp add: sc' sc_holders_def)
  moreover have "sc_wf sc'"
    using False assms(2) by (simp add: sc_wf_def sc' sorted_insort_key distinct_map inj_on_def
        set_insort_key distinct_insort) (auto simp: image_def)
  ultimately show ?thesis using refs_ok_AddRefCount [OF assms(1), of a] st' by simp
qed (use assms in \<open>simp add: SendContext_InsertSendPacketInfo_def\<close>)

lemma refs_Erase:
  assumes "refs_ok (sc_holders sc + H) st" "sc_wf sc"
    and "SendContext_EraseSendPacketInfo q sc st = (sc', st')"
  shows "refs_ok (sc_holders sc' + H) st' \<and> sc_wf sc'"
proof -
  obtain r where f: "SendContext_FindAndEraseSendPacketInfo q sc = (r, sc')"
    and st': "st' = (case r of None \<Rightarrow> st | Some a \<Rightarrow> SendPacketInfo_Free a st)"
    using assms(3) by (auto simp: SendContext_EraseSendPacketInfo_def
        SendContext_FindAndEraseSendPacketInfo_def split: option.splits)
  show ?thesis
    using sc_holders_FindAndErase [OF assms(2) f] assms(1) st' refs_ok_Free
    by (cases r) auto
qed

lemma free_queue_fold: "free_queue q = fold SendPacketInfo_Free q"
proof
  fix st show "free_queue q st = fold SendPacketInfo_Free q st"
    by (induction q arbitrary: st) simp_all
qed

lemma ClearPendingQueue_empty:
  "ring_wf rb \<Longrightarrow> ring_wf (SendContext_ClearPendingQueue rb) \<and> ring_list (SendContext_ClearPendingQueue rb) = []
     \<and> rb_capacity (SendContext_ClearPendingQueue rb) = rb_capacity rb"
proof (induction "unat (rb_count rb)" arbitrary: rb rule: less_induct)
  case less
  obtain r rb' where p: "RingBuffer_Pop rb = (r, rb')" by (cases "RingBuffer_Pop rb")
  have wf: "ring_wf rb'" using ring_pop_wf [OF less.prems] p by simp
  have cap: "rb_capacity rb' = rb_capacity rb" using p by (auto simp: RingBuffer_Pop_def split: if_splits)
  show ?case
  proof (cases r)
    case None
    then have "rb' = rb" "rb_count rb = 0"
      using p by (auto simp: RingBuffer_Pop_def RingBuffer_IsEmpty_def split: if_splits)
    moreover have "SendContext_ClearPendingQueue rb = rb'"
      using p None by (subst SendContext_ClearPendingQueue.simps) simp
    ultimately show ?thesis using less.prems by (simp add: ring_list_def)
  next
    case (Some x)
    then have "SendContext_ClearPendingQueue rb = SendContext_ClearPendingQueue rb'"
      using p by (subst SendContext_ClearPendingQueue.simps) simp
    with less.hyps [OF RingBuffer_Pop_count wf] p Some cap show ?thesis by simp
  qed
qed

lemma refs_Reset:
  assumes "refs_ok (sc_holders sc + H) st" "sc_wf sc" "sc_sendPacketInfoMap sc = []"
    and "SendContext_Reset sc st = (sc', st')"
  shows "refs_ok H st' \<and> sc_wf sc' \<and> sc_holders sc' = {#} \<and>
         ring_list (sc_pendingPacketQueue sc') = [] \<and> SendContext_IsNothingToSend sc'"
proof -
  let ?st1 = "case sc_reservedSendPacketInfo sc of None \<Rightarrow> st | Some a \<Rightarrow> SendPacketInfo_Free a st"
  have "refs_ok (H + mset (sc_sendPacketInfoQueue sc)) ?st1"
    using assms(1,3) refs_ok_Free by (auto simp: sc_holders_def add_ac split: option.splits)
  from refs_ok_Free_all [OF this] have "refs_ok H st'"
    using assms(4) by (auto simp: SendContext_Reset_def Let_def free_queue_fold)
  with assms(2-4) ClearPendingQueue_empty [of "sc_pendingPacketQueue sc"] show ?thesis
    by (auto simp: SendContext_Reset_def Let_def sc_wf_def sc_holders_def SendContext_IsNothingToSend_def)
qed

end
