(* ===== verification/Session_World.thy ===== *)
theory Session_World
  imports Send_Context Flow_Manager Session_State Packet_Orderer Packet_Crypto
begin

text \<open>
  The state of the server that the handlers share: the sessions with all their parts
  (RUDPSession.h and the contexts it owns), the store of packet descriptors, the
  retransmission schedulers and the list of sessions to release (MultiSocketRUDPCore.h).

  Every handler of the following theories is a function on this world. Handlers run one
  at a time: the code's locks and atomics protect each access, and the interleavings that
  matter for the session state are the subject of Session_State. Logging is left out.

  What the handlers ask of the outside is in \<open>Env\<close>: allocation, the RIO calls, the
  clocks, the simulated packet loss, the content callbacks and the configuration. An
  answer may differ from call to call: the functions take the number of the query.
\<close>

section \<open>Parts of a session\<close>

record sockaddr_in =
  sin_addr :: "32 word"
  sin_port :: PortType

record SocketContext =
  socket :: "nat option"
  serverPort :: PortType

definition SocketContext_CloseSocket :: "SocketContext \<Rightarrow> SocketContext" where
  "SocketContext_CloseSocket c = (if socket c = None then c else c\<lparr> socket := None \<rparr>)"

definition SocketContext_SetSocket :: "nat option \<Rightarrow> SocketContext \<Rightarrow> SocketContext" where
  "SocketContext_SetSocket s c = c\<lparr> socket := s \<rparr>"

definition SocketContext_SetServerPort :: "PortType \<Rightarrow> SocketContext \<Rightarrow> SocketContext" where
  "SocketContext_SetServerPort p c = c\<lparr> serverPort := p \<rparr>"

record 'k CryptoContext =
  sessionKey :: "byte list"
  sessionSalt :: "byte list"
  sessionKeyHandle :: "'k option"
  keyObjectBuffer :: "byte list option"

definition CryptoContext_Release :: "'k CryptoContext \<Rightarrow> 'k CryptoContext" where
  "CryptoContext_Release c = c\<lparr> sessionKeyHandle := None, keyObjectBuffer := None \<rparr>"

definition CryptoContext_Initialize :: "'k CryptoContext \<Rightarrow> 'k CryptoContext" where
  "CryptoContext_Initialize c =
     (CryptoContext_Release c)\<lparr> sessionKey := replicate SESSION_KEY_SIZE 0,
                                sessionSalt := replicate SESSION_SALT_SIZE 0 \<rparr>"

definition CryptoContext_SetSessionKey :: "byte list \<Rightarrow> 'k CryptoContext \<Rightarrow> 'k CryptoContext" where
  "CryptoContext_SetSessionKey k c = c\<lparr> sessionKey := take SESSION_KEY_SIZE k \<rparr>"

definition CryptoContext_SetSessionSalt :: "byte list \<Rightarrow> 'k CryptoContext \<Rightarrow> 'k CryptoContext" where
  "CryptoContext_SetSessionSalt k c = c\<lparr> sessionSalt := take SESSION_SALT_SIZE k \<rparr>"

text \<open>IOContext.h. A context of a receive is a slot of its session's receive buffer, a
  context of a send carries the length of its datagram; the buffer ids are those RIO gave.\<close>

record IOContext =
  io_ownerSessionId :: SessionIdType
  io_ownerSessionGeneration :: "32 word"
  io_ioType :: RIO_OPERATION_TYPE
  io_session :: "nat option"
  io_length :: nat
  io_BufferId :: "nat option"
  io_clientAddrBufferId :: "nat option"
  io_localAddrBufferId :: "nat option"

definition IOContext_InitContext :: "SessionIdType \<Rightarrow> RIO_OPERATION_TYPE \<Rightarrow> IOContext" where
  "IOContext_InitContext inOwnerSessionId inIOType =
     \<lparr> io_ownerSessionId = inOwnerSessionId, io_ownerSessionGeneration = 0, io_ioType = inIOType,
       io_session = None, io_length = 0, io_BufferId = None, io_clientAddrBufferId = None,
       io_localAddrBufferId = None \<rparr>"

text \<open>What is posted to RIO: a pointer to a receive slot, or a send context.\<close>

datatype posted = PostedRecv nat nat | PostedSend IOContext

record RecvIOCompletedContext =
  rc_session :: nat
  rc_ownerSessionGeneration :: "32 word"
  rc_buffer :: NetBuffer
  rc_clientAddr :: sockaddr_in

text \<open>RecvBuffer.h: the receive slots, those that are not posted, and the two counters of the
  drain barrier.\<close>

record RecvBuffer =
  slots :: "IOContext list"
  freeRecvContexts :: "nat list"
  outstandingRecvIo :: "32 word"
  pendingRecvLogic :: "32 word"

definition RecvBuffer_AcquireFreeRecvContext :: "RecvBuffer \<Rightarrow> nat option \<times> RecvBuffer" where
  "RecvBuffer_AcquireFreeRecvContext b =
     (case freeRecvContexts b of
        [] \<Rightarrow> (None, b)
      | context # rest \<Rightarrow> (Some context, b\<lparr> freeRecvContexts := rest \<rparr>))"

definition RecvBuffer_ClearFreeRecvContexts :: "RecvBuffer \<Rightarrow> RecvBuffer" where
  "RecvBuffer_ClearFreeRecvContexts b = b\<lparr> freeRecvContexts := [] \<rparr>"

definition RecvBuffer_BeginRecvIo :: "RecvBuffer \<Rightarrow> RecvBuffer" where
  "RecvBuffer_BeginRecvIo b = b\<lparr> outstandingRecvIo := outstandingRecvIo b + 1 \<rparr>"

definition RecvBuffer_CompleteRecvIo :: "RecvBuffer \<Rightarrow> RecvBuffer" where
  "RecvBuffer_CompleteRecvIo b = b\<lparr> outstandingRecvIo := outstandingRecvIo b - 1 \<rparr>"

definition RecvBuffer_BeginRecvLogic :: "RecvBuffer \<Rightarrow> RecvBuffer" where
  "RecvBuffer_BeginRecvLogic b = b\<lparr> pendingRecvLogic := pendingRecvLogic b + 1 \<rparr>"

definition RecvBuffer_CompleteRecvLogic :: "RecvBuffer \<Rightarrow> RecvBuffer" where
  "RecvBuffer_CompleteRecvLogic b = b\<lparr> pendingRecvLogic := pendingRecvLogic b - 1 \<rparr>"

definition RecvBuffer_IsDrained :: "RecvBuffer \<Rightarrow> bool" where
  "RecvBuffer_IsDrained b \<longleftrightarrow> outstandingRecvIo b = 0 \<and> pendingRecvLogic b = 0"

definition RecvBuffer_ReleaseRecvContext :: "nat \<Rightarrow> RecvBuffer \<Rightarrow> RecvBuffer" where
  "RecvBuffer_ReleaseRecvContext c b = b\<lparr> freeRecvContexts := freeRecvContexts b @ [c] \<rparr>"

section \<open>A session\<close>

record 'k Session =
  s_sessionId :: SessionIdType
  s_threadId :: ThreadIdType
  s_clientAddr :: sockaddr_in
  s_nowInReleaseThread :: bool
  s_nowInProcessingRecvPacket :: bool
  s_ioShutdownStarted :: bool
  s_activeIOCompletions :: "32 word"
  s_sessionGeneration :: "32 word"
  s_onSessionReleaseTime :: "64 word"
  s_sessionReservedTime :: "64 word"
  s_lastReceivedPacketTime :: "64 word"
  s_disconnectedReason :: DISCONNECT_REASON
  s_flowManager :: FlowManager
  s_retransmissionTimeoutEstimator :: RtoEstimator
  s_cryptoContext :: "'k CryptoContext"
  s_sessionPacketOrderer :: "NetBuffer PacketOrderer"
  s_socketContext :: SocketContext
  s_sendContext :: SendContext
  s_recvBuffer :: RecvBuffer
  s_rioRQ :: "nat option"
  s_stateMachine :: SessionStateMachine

definition Session_IsConnected :: "'k Session \<Rightarrow> bool" where
  "Session_IsConnected s \<longleftrightarrow> StateMachine_IsConnected (s_stateMachine s)"

definition Session_IsReserved :: "'k Session \<Rightarrow> bool" where
  "Session_IsReserved s \<longleftrightarrow> StateMachine_IsReserved (s_stateMachine s)"

definition Session_IsUsingSession :: "'k Session \<Rightarrow> bool" where
  "Session_IsUsingSession s \<longleftrightarrow> StateMachine_IsUsingSession (s_stateMachine s)"

definition Session_IsReleasing :: "'k Session \<Rightarrow> bool" where
  "Session_IsReleasing s \<longleftrightarrow> s_nowInReleaseThread s"

definition Session_CheckMyClient :: "sockaddr_in \<Rightarrow> 'k Session \<Rightarrow> bool" where
  "Session_CheckMyClient targetClientAddr s \<longleftrightarrow>
     sin_addr (s_clientAddr s) = sin_addr targetClientAddr \<and>
     sin_port (s_clientAddr s) = sin_port targetClientAddr"

definition Session_CanProcessPacket :: "sockaddr_in \<Rightarrow> 'k Session \<Rightarrow> bool" where
  "Session_CanProcessPacket targetClientAddr s \<longleftrightarrow>
     Session_CheckMyClient targetClientAddr s \<and> \<not> Session_IsReleasing s"

section \<open>The world and its environment\<close>

datatype content_event = OnConnected nat | OnDisconnected nat | OnReleased nat

record 'k World =
  w_sessions :: "'k Session list"
  w_store :: SpiStore
  w_schedulers :: "RetransmissionScheduler list"
  w_releaseSessionIdList :: "SessionIdType list"
  w_recvIOCompletedContexts :: "RecvIOCompletedContext list list"
  w_unusedSessionIdList :: "SessionIdType list"
  w_unusedSessionIdSet :: "SessionIdType set"
  w_connectedUserCount :: ushort
  w_allConnectedCount :: "32 word"
  w_allDisconnectedCount :: "32 word"
  w_allDisconnectedByRetransmissionCount :: "32 word"
  w_isInitialized :: bool
  w_tps :: "32 word"
  w_posted :: "posted list"
  w_wire :: "(nat \<times> byte list) list"
  w_events :: "content_event list"
  w_query :: nat
  w_fault :: bool
  w_bufferOverrun :: bool

record 'k Env =
  env_api :: NetBufferApi
  env_bcrypt :: "'k bcrypt"
  env_spiAlloc :: "SpiStore \<Rightarrow> nat option"
  env_netBufferAlloc :: "nat \<Rightarrow> bool"
  env_contextAlloc :: "nat \<Rightarrow> bool"
  env_registerAddress :: "nat \<Rightarrow> bool"
  env_registerBuffer :: "nat \<Rightarrow> nat option"
  env_createRequestQueue :: "nat \<Rightarrow> nat option"
  env_createSocket :: "nat \<Rightarrow> nat option"
  env_getsockname :: "nat \<Rightarrow> PortType"
  env_rioSend :: "nat \<Rightarrow> bool"
  env_rioReceive :: "nat \<Rightarrow> bool"
  env_dropSend :: "nat \<Rightarrow> bool"
  env_dropReceived :: "nat \<Rightarrow> bool"
  env_steadyNow :: "nat \<Rightarrow> time_point"
  env_tickCount :: "nat \<Rightarrow> 64 word"
  env_handler :: "PacketId \<Rightarrow> (nat \<Rightarrow> NetBuffer \<Rightarrow> 'k World \<Rightarrow> bool \<times> 'k World) option"
  env_OnConnected :: "nat \<Rightarrow> 'k World \<Rightarrow> 'k World"
  env_OnDisconnected :: "nat \<Rightarrow> 'k World \<Rightarrow> 'k World"
  env_OnReleased :: "nat \<Rightarrow> 'k World \<Rightarrow> 'k World"
  env_retransmissionMs :: "32 word"
  env_minRetransmissionMs :: "32 word"
  env_maxRetransmissionMs :: "32 word"
  env_heartbeatThreadSleepMs :: "32 word"
  env_maxPacketRetransmissionCount :: PacketRetransmissionCount
  env_maximumHoldingPacketQueueSize :: byte

text \<open>One question to the environment.\<close>

definition ask :: "(nat \<Rightarrow> 'a) \<Rightarrow> 'k World \<Rightarrow> 'a \<times> 'k World" where
  "ask f w = (f (w_query w), w\<lparr> w_query := w_query w + 1 \<rparr>)"

definition get_session :: "nat \<Rightarrow> 'k World \<Rightarrow> 'k Session" where
  "get_session i w = w_sessions w ! i"

definition upd_session :: "nat \<Rightarrow> ('k Session \<Rightarrow> 'k Session) \<Rightarrow> 'k World \<Rightarrow> 'k World" where
  "upd_session i f w = w\<lparr> w_sessions := (w_sessions w)[i := f (w_sessions w ! i)] \<rparr>"

definition get_send :: "nat \<Rightarrow> 'k World \<Rightarrow> SendContext" where
  "get_send i w = s_sendContext (get_session i w)"

definition set_send :: "nat \<Rightarrow> SendContext \<Rightarrow> 'k World \<Rightarrow> 'k World" where
  "set_send i sc w = upd_session i (\<lambda>s. s\<lparr> s_sendContext := sc \<rparr>) w"

definition upd_store :: "(SpiStore \<Rightarrow> SpiStore) \<Rightarrow> 'k World \<Rightarrow> 'k World" where
  "upd_store f w = w\<lparr> w_store := f (w_store w) \<rparr>"

section \<open>Ending a session\<close>

text \<open>MultiSocketRUDPCore::PushToDisconnectTargetSession.\<close>

definition Core_PushToDisconnectTargetSession :: "'k Env \<Rightarrow> nat \<Rightarrow> 'k World \<Rightarrow> 'k World" where
  "Core_PushToDisconnectTargetSession E i w =
     (let (now, w1) = ask (env_tickCount E) w;
          w2 = upd_session i (\<lambda>s. s\<lparr> s_nowInReleaseThread := True, s_onSessionReleaseTime := now \<rparr>) w1
      in w2\<lparr> w_releaseSessionIdList := w_releaseSessionIdList w2 @ [s_sessionId (get_session i w2)] \<rparr>)"

definition Session_DoDisconnect :: "'k Env \<Rightarrow> DISCONNECT_REASON \<Rightarrow> nat \<Rightarrow> 'k World \<Rightarrow> 'k World" where
  "Session_DoDisconnect E reason i w =
     (let (ok, sm) = StateMachine_TryTransitionToReleasing (s_stateMachine (get_session i w));
          w1 = upd_session i (\<lambda>s. s\<lparr> s_stateMachine := sm \<rparr>) w
      in if \<not> ok then w1
         else Core_PushToDisconnectTargetSession E i
                (upd_session i (\<lambda>s. s\<lparr> s_disconnectedReason := reason, s_nowInReleaseThread := True \<rparr>) w1))"

definition Session_AbortReservedSession :: "'k Env \<Rightarrow> nat \<Rightarrow> 'k World \<Rightarrow> 'k World" where
  "Session_AbortReservedSession E i w =
     (let (ok, sm) = StateMachine_TryAbortReserved (s_stateMachine (get_session i w));
          w1 = upd_session i (\<lambda>s. s\<lparr> s_stateMachine := sm \<rparr>) w
      in if \<not> ok then w1
         else Core_PushToDisconnectTargetSession E i
                (upd_session i (\<lambda>s. s\<lparr> s_nowInReleaseThread := True,
                                      s_disconnectedReason := BY_ABORT_RESERVED \<rparr>) w1))"

section \<open>Holders of descriptors in the world\<close>

definition session_holders :: "'k Session list \<Rightarrow> nat multiset" where
  "session_holders ss = sum_list (map (\<lambda>s. sc_holders (s_sendContext s)) ss)"

definition scheduler_holders :: "RetransmissionScheduler list \<Rightarrow> nat multiset" where
  "scheduler_holders hs = sum_list (map (\<lambda>h. mset (map he_info h)) hs)"

definition holders :: "'k World \<Rightarrow> nat multiset" where
  "holders w = session_holders (w_sessions w) + scheduler_holders (w_schedulers w)"

definition session_rest :: "nat \<Rightarrow> 'k Session list \<Rightarrow> nat multiset" where
  "session_rest i ss = session_holders (take i ss @ drop (Suc i) ss)"

definition others :: "nat \<Rightarrow> 'k World \<Rightarrow> nat multiset" where
  "others i w = session_rest i (w_sessions w) + scheduler_holders (w_schedulers w)"

lemma session_holders_split:
  assumes "i < length ss"
  shows "session_holders ss = sc_holders (s_sendContext (ss ! i)) + session_rest i ss"
proof -
  have "session_holders ss = session_holders (take i ss @ ss ! i # drop (Suc i) ss)"
    using id_take_nth_drop [OF assms] by simp
  then show ?thesis by (simp add: session_holders_def session_rest_def add_ac)
qed

lemma session_rest_update [simp]: "session_rest i (ss[i := x]) = session_rest i ss"
  by (cases "i < length ss") (simp_all add: session_rest_def not_less list_update_beyond)

lemma holders_split:
  "i < length (w_sessions w) \<Longrightarrow> holders w = sc_holders (get_send i w) + others i w"
  by (simp add: holders_def others_def session_holders_split get_send_def get_session_def)

lemma others_upd_session [simp]: "others i (upd_session i f w) = others i w"
  by (simp add: others_def upd_session_def)

lemma get_send_upd_session:
  "i < length (w_sessions w) \<Longrightarrow>
   get_send i (upd_session i f w) = s_sendContext (f (get_session i w))"
  by (simp add: get_send_def get_session_def upd_session_def)

lemma scheduler_holders_update:
  assumes "t < length hs"
  shows "scheduler_holders (hs[t := h]) + mset (map he_info (hs ! t))
           = scheduler_holders hs + mset (map he_info h)"
proof -
  have "scheduler_holders hs = scheduler_holders (take t hs @ hs ! t # drop (Suc t) hs)"
    using id_take_nth_drop [OF assms] by simp
  moreover have "scheduler_holders (hs[t := h]) = scheduler_holders (take t hs @ h # drop (Suc t) hs)"
    using upd_conv_take_nth_drop [OF assms, of h] by simp
  ultimately show ?thesis by (simp add: scheduler_holders_def add_ac)
qed

section \<open>The invariant of the world\<close>

text \<open>\<open>n\<close> sessions, \<open>m\<close> schedulers, and \<open>L\<close> the descriptors a running handler holds in
  local variables. The reference counts are exact, every session has a scheduler and a
  well-formed send context, and every descriptor has an owner and a buffer.\<close>

definition session_wf :: "nat \<Rightarrow> 'k Session \<Rightarrow> bool" where
  "session_wf m s \<longleftrightarrow> sc_wf (s_sendContext s) \<and> unat (s_threadId s) < m \<and>
     length (sc_rioSendBuffer (s_sendContext s)) = MAX_SEND_BUFFER_SIZE"

definition info_wf :: "nat \<Rightarrow> SendPacketInfo \<Rightarrow> bool" where
  "info_wf n i \<longleftrightarrow> spi_buffer i \<noteq> None \<and> (\<exists>ow < n. spi_owner i = Some ow)"

definition world_ok :: "nat \<Rightarrow> nat \<Rightarrow> nat multiset \<Rightarrow> 'k World \<Rightarrow> bool" where
  "world_ok n m L w \<longleftrightarrow>
     length (w_sessions w) = n \<and> length (w_schedulers w) = m \<and>
     length (w_recvIOCompletedContexts w) = m \<and> \<not> w_fault w \<and>
     refs_ok (L + holders w) (w_store w) \<and>
     (\<forall>s \<in> set (w_sessions w). session_wf m s) \<and>
     (\<forall>a i. spi_mem (w_store w) a = Some i \<longrightarrow> info_wf n i)"

lemma world_okD:
  assumes "world_ok n m L w"
  shows "length (w_sessions w) = n" "length (w_schedulers w) = m" "\<not> w_fault w"
    "refs_ok (L + holders w) (w_store w)" "\<not> spi_fault (w_store w)"
    "i < n \<Longrightarrow> session_wf m (get_session i w)"
    "spi_mem (w_store w) a = Some inf0 \<Longrightarrow> info_wf n inf0"
    "length (w_recvIOCompletedContexts w) = m"
  using assms refs_ok_not_fault [of "L + holders w" "w_store w"]
  by (auto simp: world_ok_def get_session_def)

lemma world_ok_cong:
  assumes "world_ok n m L w" "w_sessions w' = w_sessions w" "w_schedulers w' = w_schedulers w"
    "w_store w' = w_store w" "w_fault w' = w_fault w"
    "length (w_recvIOCompletedContexts w') = length (w_recvIOCompletedContexts w)"
  shows "world_ok n m L w'"
  using assms by (simp add: world_ok_def holders_def)

lemma world_ok_ask:
  assumes "world_ok n m L w" "ask f w = (x, w')"
  shows "world_ok n m L w'"
  using assms(2) by (intro world_ok_cong [OF assms(1)]) (auto simp: ask_def)

lemma world_ok_upd_session:
  assumes "world_ok n m L w" "i < n" "session_wf m (f (get_session i w))"
    and "L' + sc_holders (s_sendContext (f (get_session i w))) = L + sc_holders (get_send i w)"
  shows "world_ok n m L' (upd_session i f w)"
proof -
  let ?w = "upd_session i f w"
  have i: "i < length (w_sessions w)" "i < length (w_sessions ?w)"
    using world_okD(1) [OF assms(1)] assms(2) by (simp_all add: upd_session_def)
  have "L' + holders ?w = (L' + sc_holders (s_sendContext (f (get_session i w)))) + others i w"
    using holders_split [OF i(2)] get_send_upd_session [OF i(1), of f] by (simp add: add_ac)
  also have "\<dots> = L + holders w"
    using holders_split [OF i(1)] assms(4) by (simp add: add_ac)
  finally have "L' + holders ?w = L + holders w" .
  moreover have "set (w_sessions ?w) \<subseteq> insert (f (get_session i w)) (set (w_sessions w))"
    by (simp add: upd_session_def get_session_def set_update_subset_insert)
  ultimately show ?thesis
    using assms(1,3) by (auto simp: world_ok_def upd_session_def)
qed

text \<open>Updates of a session that leave its send context and thread alone.\<close>

lemma world_ok_upd_session_frame:
  assumes "world_ok n m L w" "i < n"
    and "\<And>s. s_sendContext (f s) = s_sendContext s" "\<And>s. s_threadId (f s) = s_threadId s"
  shows "world_ok n m L (upd_session i f w)"
  using assms world_okD(6) [OF assms(1,2)]
  by (intro world_ok_upd_session) (simp_all add: session_wf_def get_send_def)

lemma world_ok_set_send:
  assumes "world_ok n m L w" "i < n" "sc_wf sc"
    "length (sc_rioSendBuffer sc) = length (sc_rioSendBuffer (get_send i w))"
    "L' + sc_holders sc = L + sc_holders (get_send i w)"
  shows "world_ok n m L' (set_send i sc w)"
  unfolding set_send_def using assms world_okD(6) [OF assms(1,2)]
  by (intro world_ok_upd_session) (simp_all add: session_wf_def get_send_def)

lemma world_ok_store:
  assumes "world_ok n m L w" "refs_ok (L' + holders w) (f (w_store w))"
    and "\<And>a i. spi_mem (f (w_store w)) a = Some i \<Longrightarrow> info_wf n i"
  shows "world_ok n m L' (upd_store f w)"
  using assms by (simp add: world_ok_def upd_store_def holders_def)

lemma spi_update_infos:
  assumes "\<And>a i. spi_mem st a = Some i \<Longrightarrow> info_wf n i" "\<And>i. info_wf n i \<Longrightarrow> info_wf n (f i)"
    and "spi_mem (spi_update a f st) b = Some i"
  shows "info_wf n i"
  using assms by (auto simp: spi_update_def split: option.splits if_splits)

lemma world_ok_spi_update:
  assumes "world_ok n m L w" "a \<in># L + holders w"
    and "\<And>i. spi_refCount (f i) = spi_refCount i" "\<And>i. info_wf n i \<Longrightarrow> info_wf n (f i)"
  shows "world_ok n m L (upd_store (spi_update a f) w)"
proof (rule world_ok_store [OF assms(1)])
  show "refs_ok (L + holders w) (spi_update a f (w_store w))"
    by (rule refs_ok_update [OF world_okD(4) [OF assms(1)] assms(2,3)])
  show "spi_mem (spi_update a f (w_store w)) b = Some i \<Longrightarrow> info_wf n i" for b i
    by (rule spi_update_infos [OF world_okD(7) [OF assms(1)] assms(4)])
qed

lemma world_ok_AddRefCount:
  assumes "world_ok n m L w" "a \<in># L + holders w"
  shows "world_ok n m (add_mset a L) (upd_store (SendPacketInfo_AddRefCount a) w)"
proof (rule world_ok_store [OF assms(1)])
  show "refs_ok (add_mset a L + holders w) (SendPacketInfo_AddRefCount a (w_store w))"
    using refs_ok_AddRefCount [OF world_okD(4) [OF assms(1)] assms(2)] by simp
  show "spi_mem (SendPacketInfo_AddRefCount a (w_store w)) b = Some i \<Longrightarrow> info_wf n i" for b i
    unfolding SendPacketInfo_AddRefCount_def
    by (rule spi_update_infos [OF world_okD(7) [OF assms(1)]]) (simp_all add: info_wf_def)
qed

lemma Free_infos:
  assumes "\<And>a i. spi_mem st a = Some i \<Longrightarrow> info_wf n i" "spi_mem (SendPacketInfo_Free a st) b = Some i"
  shows "info_wf n i"
  using assms by (auto simp: SendPacketInfo_Free_def Let_def info_wf_def split: option.splits if_splits)

lemma world_ok_Free:
  assumes "world_ok n m (add_mset a L) w"
  shows "world_ok n m L (upd_store (SendPacketInfo_Free a) w)"
proof (rule world_ok_store [OF assms])
  show "refs_ok (L + holders w) (SendPacketInfo_Free a (w_store w))"
    using world_okD(4) [OF assms] by (intro refs_ok_Free) simp
  show "spi_mem (SendPacketInfo_Free a (w_store w)) b = Some i \<Longrightarrow> info_wf n i" for b i
    by (rule Free_infos [OF world_okD(7) [OF assms]])
qed

lemma world_ok_new:
  assumes "world_ok n m L w" "spi_mem (w_store w) a = None" "spi_refCount i = 1" "info_wf n i"
  shows "world_ok n m (add_mset a L) (upd_store (spi_new a i) w)"
proof (rule world_ok_store [OF assms(1)])
  show "refs_ok (add_mset a L + holders w) (spi_new a i (w_store w))"
    using refs_ok_new [OF world_okD(4) [OF assms(1)] assms(2,3)] by simp
  show "spi_mem (spi_new a i (w_store w)) b = Some j \<Longrightarrow> info_wf n j" for b j
    using world_okD(7) [OF assms(1), of b j] assms(4) by (auto simp: spi_new_def split: if_splits)
qed

lemma world_ok_lookup:
  assumes "world_ok n m L w" "a \<in># L + holders w"
  obtains i ow b where "spi_get a (w_store w) = Some i" "spi_owner i = Some ow" "ow < n"
    "spi_buffer i = Some b"
proof -
  obtain i where i: "spi_mem (w_store w) a = Some i"
    using refs_ok_alloc [OF world_okD(4) [OF assms(1)] assms(2)] by blast
  from world_okD(7) [OF assms(1) this] i that show ?thesis
    by (auto simp: spi_get_def info_wf_def)
qed

lemma world_ok_push_schedule:
  assumes "world_ok n m L w" "a \<in># L + holders w" "t < m"
    and "PushRetransmissionSchedule a deadline (w_schedulers w ! t) (w_store w) = (heap, st)"
  shows "world_ok n m L (w\<lparr> w_schedulers := (w_schedulers w)[t := heap], w_store := st \<rparr>)"
proof -
  have t: "t < length (w_schedulers w)" using assms(3) world_okD(2) [OF assms(1)] by simp
  note p = refs_ok_PushRetransmissionSchedule [OF world_okD(4) [OF assms(1)] assms(2,4)]
  let ?w = "w\<lparr> w_schedulers := (w_schedulers w)[t := heap], w_store := st \<rparr>"
  have "holders ?w = add_mset a (holders w)"
    using scheduler_holders_update [OF t, of heap] p(2) by (simp add: holders_def)
  moreover have "spi_mem st b = Some i \<Longrightarrow> info_wf n i" for b i
    using assms(4) world_okD(7) [OF assms(1)]
    by (auto simp: PushRetransmissionSchedule_def Let_def SendPacketInfo_AddRefCount_def
        spi_update_def info_wf_def split: option.splits if_splits)
  ultimately show ?thesis
    using assms(1) p(1) by (simp add: world_ok_def)
qed

lemma world_ok_PushToDisconnect:
  assumes "world_ok n m L w" "i < n"
  shows "world_ok n m L (Core_PushToDisconnectTargetSession E i w)"
proof -
  obtain now w1 where a: "ask (env_tickCount E) w = (now, w1)" by (cases "ask (env_tickCount E) w")
  let ?w2 = "upd_session i (\<lambda>s. s\<lparr> s_nowInReleaseThread := True, s_onSessionReleaseTime := now \<rparr>) w1"
  have "world_ok n m L ?w2"
    using world_ok_ask [OF assms(1) a] assms(2) by (intro world_ok_upd_session_frame) simp_all
  then have "world_ok n m L (?w2\<lparr> w_releaseSessionIdList := w_releaseSessionIdList ?w2 @ [s_sessionId (get_session i ?w2)] \<rparr>)"
    by (rule world_ok_cong) simp_all
  then show ?thesis by (simp add: Core_PushToDisconnectTargetSession_def a Let_def)
qed

lemma world_ok_DoDisconnect:
  assumes "world_ok n m L w" "i < n"
  shows "world_ok n m L (Session_DoDisconnect E reason i w)"
proof -
  obtain ok sm where t: "StateMachine_TryTransitionToReleasing (s_stateMachine (get_session i w)) = (ok, sm)"
    by (cases "StateMachine_TryTransitionToReleasing (s_stateMachine (get_session i w))")
  have w1: "world_ok n m L (upd_session i (\<lambda>s. s\<lparr> s_stateMachine := sm \<rparr>) w)"
    using assms by (intro world_ok_upd_session_frame) simp_all
  have "world_ok n m L (Core_PushToDisconnectTargetSession E i
      (upd_session i (\<lambda>s. s\<lparr> s_disconnectedReason := reason, s_nowInReleaseThread := True \<rparr>)
        (upd_session i (\<lambda>s. s\<lparr> s_stateMachine := sm \<rparr>) w)))"
    using assms by (intro world_ok_PushToDisconnect world_ok_upd_session_frame) simp_all
  with w1 show ?thesis by (simp add: Session_DoDisconnect_def t Let_def)
qed

lemma world_ok_AbortReserved:
  assumes "world_ok n m L w" "i < n"
  shows "world_ok n m L (Session_AbortReservedSession E i w)"
proof -
  obtain ok sm where t: "StateMachine_TryAbortReserved (s_stateMachine (get_session i w)) = (ok, sm)"
    by (cases "StateMachine_TryAbortReserved (s_stateMachine (get_session i w))")
  have w1: "world_ok n m L (upd_session i (\<lambda>s. s\<lparr> s_stateMachine := sm \<rparr>) w)"
    using assms by (intro world_ok_upd_session_frame) simp_all
  have "world_ok n m L (Core_PushToDisconnectTargetSession E i
      (upd_session i (\<lambda>s. s\<lparr> s_nowInReleaseThread := True, s_disconnectedReason := BY_ABORT_RESERVED \<rparr>)
        (upd_session i (\<lambda>s. s\<lparr> s_stateMachine := sm \<rparr>) w)))"
    using assms by (intro world_ok_PushToDisconnect world_ok_upd_session_frame) simp_all
  with w1 show ?thesis by (simp add: Session_AbortReservedSession_def t Let_def)
qed

section \<open>Which parts of the world an update touches\<close>

lemma world_simps [simp]:
  "w_store (set_send i sc w) = w_store w" "w_schedulers (set_send i sc w) = w_schedulers w"
  "w_fault (set_send i sc w) = w_fault w" "w_wire (set_send i sc w) = w_wire w"
  "w_store (upd_session i f w) = w_store w" "w_schedulers (upd_session i f w) = w_schedulers w"
  "w_fault (upd_session i f w) = w_fault w" "w_wire (upd_session i f w) = w_wire w"
  "w_store (upd_store g w) = g (w_store w)" "w_schedulers (upd_store g w) = w_schedulers w"
  "w_fault (upd_store g w) = w_fault w" "w_sessions (upd_store g w) = w_sessions w"
  "w_wire (upd_store g w) = w_wire w"
  "length (w_sessions (set_send i sc w)) = length (w_sessions w)"
  "length (w_sessions (upd_session i f w)) = length (w_sessions w)"
  "get_send j (upd_store g w) = get_send j w" "get_session j (upd_store g w) = get_session j w"
  by (simp_all add: set_send_def upd_session_def upd_store_def get_send_def get_session_def)

lemma world_simps2 [simp]:
  "w_releaseSessionIdList (set_send i sc w) = w_releaseSessionIdList w"
  "w_releaseSessionIdList (upd_session i f w) = w_releaseSessionIdList w"
  "w_releaseSessionIdList (upd_store g w) = w_releaseSessionIdList w"
  "w_recvIOCompletedContexts (set_send i sc w) = w_recvIOCompletedContexts w"
  "w_recvIOCompletedContexts (upd_session i f w) = w_recvIOCompletedContexts w"
  "w_recvIOCompletedContexts (upd_store g w) = w_recvIOCompletedContexts w"
  "w_events (set_send i sc w) = w_events w" "w_events (upd_session i f w) = w_events w"
  "w_events (upd_store g w) = w_events w"
  "w_query (set_send i sc w) = w_query w" "w_query (upd_session i f w) = w_query w"
  "w_query (upd_store g w) = w_query w"
  by (simp_all add: set_send_def upd_session_def upd_store_def)

lemma get_send_set_send [simp]:
  "i < length (w_sessions w) \<Longrightarrow> get_send i (set_send i sc w) = sc"
  by (simp add: set_send_def upd_session_def get_send_def get_session_def)

lemma get_session_set_send [simp]:
  "i < length (w_sessions w) \<Longrightarrow> get_session i (set_send i sc w) = (get_session i w)\<lparr> s_sendContext := sc \<rparr>"
  by (simp add: set_send_def upd_session_def get_session_def)

lemma get_session_upd_session [simp]:
  "i < length (w_sessions w) \<Longrightarrow> get_session i (upd_session i f w) = f (get_session i w)"
  by (simp add: upd_session_def get_session_def)

lemma get_session_other [simp]:
  "j \<noteq> i \<Longrightarrow> get_session j (upd_session i f w) = get_session j w"
  "j \<noteq> i \<Longrightarrow> get_session j (set_send i sc w) = get_session j w"
  by (simp_all add: upd_session_def get_session_def set_send_def)

lemma ask_frame:
  assumes "ask f w = (x, w')"
  shows "w_sessions w' = w_sessions w" "w_store w' = w_store w" "w_schedulers w' = w_schedulers w"
    "w_fault w' = w_fault w" "w_wire w' = w_wire w" "get_send j w' = get_send j w"
    "get_session j w' = get_session j w" "x = f (w_query w)"
    "w_releaseSessionIdList w' = w_releaseSessionIdList w" "w_events w' = w_events w"
    "w_recvIOCompletedContexts w' = w_recvIOCompletedContexts w"
  using assms by (auto simp: ask_def get_send_def get_session_def)

text \<open>Ending a session leaves the store, the schedulers and all send contexts alone.\<close>

lemma PushToDisconnect_frame:
  assumes "i < length (w_sessions w)"
  shows "w_store (Core_PushToDisconnectTargetSession E i w) = w_store w"
    "w_schedulers (Core_PushToDisconnectTargetSession E i w) = w_schedulers w"
    "w_wire (Core_PushToDisconnectTargetSession E i w) = w_wire w"
    "length (w_sessions (Core_PushToDisconnectTargetSession E i w)) = length (w_sessions w)"
    "get_send j (Core_PushToDisconnectTargetSession E i w) = get_send j w"
  using assms
  by (cases "j = i"; simp add: Core_PushToDisconnectTargetSession_def ask_def Let_def get_send_def
      get_session_def upd_session_def)+

lemma DoDisconnect_frame:
  assumes "i < length (w_sessions w)"
  shows "w_store (Session_DoDisconnect E r i w) = w_store w"
    "w_schedulers (Session_DoDisconnect E r i w) = w_schedulers w"
    "w_wire (Session_DoDisconnect E r i w) = w_wire w"
    "length (w_sessions (Session_DoDisconnect E r i w)) = length (w_sessions w)"
    "get_send j (Session_DoDisconnect E r i w) = get_send j w"
proof -
  have g: "get_send j (upd_session i f w') = get_send j w'"
    if "\<And>s. s_sendContext (f s) = s_sendContext s" for f and w' :: "'a World"
    using that by (cases "j = i"; cases "i < length (w_sessions w')")
      (simp_all add: get_send_def get_session_def upd_session_def not_less list_update_beyond)
  show "w_store (Session_DoDisconnect E r i w) = w_store w"
    "w_schedulers (Session_DoDisconnect E r i w) = w_schedulers w"
    "w_wire (Session_DoDisconnect E r i w) = w_wire w"
    "length (w_sessions (Session_DoDisconnect E r i w)) = length (w_sessions w)"
    "get_send j (Session_DoDisconnect E r i w) = get_send j w"
    using assms by (simp_all add: Session_DoDisconnect_def Let_def split_beta PushToDisconnect_frame g)
qed

lemmas world_ok_intros = world_ok_ask world_ok_upd_session_frame world_ok_DoDisconnect
  world_ok_AbortReserved world_ok_PushToDisconnect world_ok_Free

section \<open>A small server for the witnesses\<close>

text \<open>One connected session, one scheduler, an environment that grants every request, and
  the packets in \<open>infos\<close> queued for sending.\<close>

definition sample_env :: "unit Env" where
  "sample_env =
     \<lparr> env_api = documented_api, env_bcrypt = toy_bcrypt,
       env_spiAlloc = (\<lambda>st. if spi_mem st 7 = None then Some 7 else None),
       env_netBufferAlloc = (\<lambda>_. True), env_contextAlloc = (\<lambda>_. True),
       env_registerAddress = (\<lambda>_. True),
       env_registerBuffer = Some, env_createRequestQueue = Some, env_createSocket = Some,
       env_getsockname = of_nat, env_rioSend = (\<lambda>_. True), env_rioReceive = (\<lambda>_. True),
       env_dropSend = (\<lambda>_. False), env_dropReceived = (\<lambda>_. False), env_steadyNow = int,
       env_tickCount = of_nat, env_handler = (\<lambda>_. None), env_OnConnected = (\<lambda>_ w. w),
       env_OnDisconnected = (\<lambda>_ w. w), env_OnReleased = (\<lambda>_ w. w), env_retransmissionMs = 200,
       env_minRetransmissionMs = 100, env_maxRetransmissionMs = 1000,
       env_heartbeatThreadSleepMs = 3000, env_maxPacketRetransmissionCount = 15,
       env_maximumHoldingPacketQueueSize = 8 \<rparr>"

definition sample_session :: "nat list \<Rightarrow> unit Session" where
  "sample_session q =
     \<lparr> s_sessionId = 0, s_threadId = 0, s_clientAddr = \<lparr> sin_addr = 1, sin_port = 2 \<rparr>,
       s_nowInReleaseThread = False, s_nowInProcessingRecvPacket = False,
       s_ioShutdownStarted = False, s_activeIOCompletions = 0, s_sessionGeneration = 1,
       s_onSessionReleaseTime = 0, s_sessionReservedTime = 0, s_lastReceivedPacketTime = 0,
       s_disconnectedReason = NOT_DISCONNECTED, s_flowManager = FlowManager_new 8,
       s_retransmissionTimeoutEstimator = Rto_new,
       s_cryptoContext = \<lparr> sessionKey = [], sessionSalt = replicate 16 1, sessionKeyHandle = Some (),
                           keyObjectBuffer = None \<rparr>,
       s_sessionPacketOrderer = Orderer_new 8,
       s_socketContext = \<lparr> socket = Some 1, serverPort = 10000 \<rparr>,
       s_sendContext = SendContext_new\<lparr> sc_sendPacketInfoQueue := q \<rparr>,
       s_recvBuffer = \<lparr> slots = [], freeRecvContexts = [], outstandingRecvIo = 0, pendingRecvLogic = 0 \<rparr>,
       s_rioRQ = Some 1, s_stateMachine = \<lparr> sm_state = CONNECTED \<rparr> \<rparr>"

definition sample_world :: "SendPacketInfo list \<Rightarrow> unit World" where
  "sample_world infos =
     \<lparr> w_sessions = [sample_session [0..<length infos]],
       w_store = \<lparr> spi_mem = (\<lambda>a. if a < length infos then Some (infos ! a) else None), spi_fault = False \<rparr>,
       w_schedulers = [[]], w_releaseSessionIdList = [], w_recvIOCompletedContexts = [[]],
       w_unusedSessionIdList = [], w_unusedSessionIdSet = {}, w_connectedUserCount = 1,
       w_allConnectedCount = 1, w_allDisconnectedCount = 0,
       w_allDisconnectedByRetransmissionCount = 0, w_isInitialized = True, w_tps = 0,
       w_posted = [], w_wire = [], w_events = [],
       w_query = 0, w_fault = False, w_bufferOverrun = False \<rparr>"

lemma count_upt: "count (mset [0..<n]) a = (if a < n then 1 else 0)"
  by (simp add: distinct_count_atmost_1 [THEN iffD1])

lemma sample_world_ok:
  assumes "\<And>i. i \<in> set infos \<Longrightarrow> spi_refCount i = 1 \<and> info_wf 1 i"
  shows "world_ok 1 1 {#} (sample_world infos)" and "world_ok (Suc 0) (Suc 0) {#} (sample_world infos)"
proof -
  have "holders (sample_world infos) = mset [0..<length infos]"
    by (simp add: holders_def session_holders_def scheduler_holders_def sample_world_def
        sample_session_def sc_holders_def SendContext_new_def)
  then have "refs_ok ({#} + holders (sample_world infos)) (w_store (sample_world infos))"
    using assms by (simp add: refs_ok_def exact_def count_upt sample_world_def)
  moreover have "session_wf 1 (sample_session q)" for q
    using sc_wf_new by (simp add: session_wf_def sample_session_def sc_wf_def SendContext_new_def)
  ultimately show "world_ok 1 1 {#} (sample_world infos)"
    using assms by (auto simp: world_ok_def sample_world_def split: if_splits)
  then show "world_ok (Suc 0) (Suc 0) {#} (sample_world infos)" by simp
qed

text \<open>A packet of 17 bytes with the given sequence.\<close>

definition sample_info :: "PacketSequence \<Rightarrow> SendPacketInfo" where
  "sample_info q = SendPacketInfo_Initialize 0 1
     \<lparr> m_pSerializeBuffer = replicate 64 7, m_iRead = 0, m_iWrite = 0, m_iWriteLast = 17,
       m_bIsEncoded = True \<rparr> q False"

lemma sample_info_wf:
  "spi_refCount (sample_info q) = 1" "info_wf 1 (sample_info q)" "info_wf (Suc 0) (sample_info q)"
  by (simp_all add: sample_info_def SendPacketInfo_Initialize_def info_wf_def)

end
