(* ===== verification/Io_Handler.thy ===== *)
theory Io_Handler
  imports Session_World
begin

text \<open>
  MultiSocketRUDPServer/RUDPIOHandler, the send path: the queued packets of a session are
  packed into one datagram of at most 32768 bytes, each with a new retransmission deadline,
  and the datagram is handed to RIO. What RIO accepts goes to \<open>w_wire\<close>, in order, with the
  bytes of the stream.
\<close>

section \<open>The code\<close>

datatype STREAM_RETURN = STREAM_SUCCESS | OCCURED_ERROR | IS_ERASED_PACKET | IS_SENT | STREAM_IS_FULL

text \<open>\<open>SendPacketInfo::IsOwnerValid\<close>.\<close>

definition SendPacketInfo_IsOwnerValid :: "'k World \<Rightarrow> SendPacketInfo \<Rightarrow> bool" where
  "SendPacketInfo_IsOwnerValid w info =
     (case spi_owner info of
        None \<Rightarrow> False
      | Some ow \<Rightarrow> s_sessionGeneration (get_session ow w) = spi_ownerGeneration info)"

definition fault :: "'k World \<Rightarrow> 'k World" where
  "fault w = w\<lparr> w_fault := True \<rparr>"

definition IOHandler_RefreshRetransmissionSendPacketInfo ::
    "'k Env \<Rightarrow> nat \<Rightarrow> ThreadIdType \<Rightarrow> 'k World \<Rightarrow> bool \<times> 'k World" where
  "IOHandler_RefreshRetransmissionSendPacketInfo E a threadId w =
     (case spi_get a (w_store w) of
        None \<Rightarrow> (False, fault w)
      | Some info \<Rightarrow>
          if spi_isErasedPacketInfo info then (False, w)
          else if spi_isReplyType info then (True, w)
          else if unat threadId \<ge> length (w_schedulers w) then (False, fault w)
          else let (now, w1) = ask (env_steadyNow E) w;
                   rtoMs = (if SendPacketInfo_IsOwnerValid w1 info
                            then Rto_GetRtoMs (s_retransmissionTimeoutEstimator
                                   (get_session (the (spi_owner info)) w1))
                            else env_retransmissionMs E);
                   deadline = now + uint rtoMs * 1000000;
                   w2 = upd_store (SendPacketInfo_MarkSentForRttSample now a) w1;
                   (heap, st) = PushRetransmissionSchedule a deadline
                                  (w_schedulers w2 ! unat threadId) (w_store w2)
               in (True, w2\<lparr> w_schedulers := (w_schedulers w2)[unat threadId := heap],
                             w_store := st \<rparr>))"

text \<open>The bytes a packet contributes: \<open>useSize\<close> bytes from the buffer's start.\<close>

definition packet_bytes :: "'k Env \<Rightarrow> NetBuffer \<Rightarrow> byte list" where
  "packet_bytes E b = take (nb_GetAllUseSize (env_api E) b) (nb_GetBufferPtr (env_api E) b)"

definition stream_write :: "nat \<Rightarrow> byte list \<Rightarrow> SendContext \<Rightarrow> SendContext" where
  "stream_write off bs sc = sc\<lparr> sc_rioSendBuffer := patch off bs (sc_rioSendBuffer sc) \<rparr>"

definition insert_key :: "PacketSequenceSetKey \<Rightarrow> SendContext \<Rightarrow> SendContext" where
  "insert_key k sc = sc\<lparr> sc_cachedSequenceSet := insert k (sc_cachedSequenceSet sc) \<rparr>"

definition info_key :: "SendPacketInfo \<Rightarrow> PacketSequenceSetKey" where
  "info_key info = PacketSequenceSetKey (spi_isReplyType info) (spi_sendPacketSequence info)"

definition IOHandler_ReservedSendPacketInfoToStream ::
    "'k Env \<Rightarrow> nat \<Rightarrow> nat \<Rightarrow> ThreadIdType \<Rightarrow> 'k World \<Rightarrow> STREAM_RETURN \<times> nat \<times> 'k World" where
  "IOHandler_ReservedSendPacketInfoToStream E i totalSendSize threadId w =
     (case SendContext_TakeReservedSendPacketInfo (get_send i w) of
        (None, sc) \<Rightarrow> (STREAM_SUCCESS, totalSendSize, w)
      | (Some a, sc) \<Rightarrow>
          let w1 = set_send i sc w in
          case spi_get a (w_store w1) of
            None \<Rightarrow> (OCCURED_ERROR, totalSendSize, fault w1)
          | Some info \<Rightarrow>
              (case spi_buffer info of
                 None \<Rightarrow> (OCCURED_ERROR, totalSendSize, fault w1)
               | Some b \<Rightarrow>
                   let useSize = nb_GetAllUseSize (env_api E) b in
                   if useSize \<ge> MAX_SEND_BUFFER_SIZE then
                     (OCCURED_ERROR, totalSendSize,
                      upd_store (SendPacketInfo_Free a) (Session_DoDisconnect E BY_ERROR i w1))
                   else let (ok, w2) = IOHandler_RefreshRetransmissionSendPacketInfo E a threadId w1 in
                     if \<not> ok then (IS_ERASED_PACKET, totalSendSize, upd_store (SendPacketInfo_Free a) w2)
                     else let w3 = set_send i (insert_key (info_key info)
                                     (stream_write 0 (packet_bytes E b) (get_send i w2))) w2
                          in (STREAM_SUCCESS, totalSendSize + useSize,
                              upd_store (SendPacketInfo_Free a) w3)))"

definition IOHandler_StoredSendPacketInfoToStream ::
    "'k Env \<Rightarrow> nat \<Rightarrow> nat \<Rightarrow> ThreadIdType \<Rightarrow> 'k World \<Rightarrow> STREAM_RETURN \<times> nat \<times> 'k World" where
  "IOHandler_StoredSendPacketInfoToStream E i totalSendSize threadId w =
     (case SendContext_TryGetFrontAndPop (get_send i w) of
        (None, sc) \<Rightarrow> (STREAM_SUCCESS, totalSendSize, w)
      | (Some a, sc) \<Rightarrow>
          let w1 = set_send i sc w in
          case spi_get a (w_store w1) of
            None \<Rightarrow> (OCCURED_ERROR, totalSendSize, fault w1)
          | Some info \<Rightarrow>
              let key = info_key info in
              if key \<in> sc_cachedSequenceSet sc then
                (IS_SENT, totalSendSize, upd_store (SendPacketInfo_Free a) w1)
              else
                (case spi_buffer info of
                   None \<Rightarrow> (OCCURED_ERROR, totalSendSize, fault w1)
                 | Some b \<Rightarrow>
                     let useSize = nb_GetAllUseSize (env_api E) b in
                     if useSize > MAX_SEND_BUFFER_SIZE \<or> useSize = 0 then
                       (OCCURED_ERROR, totalSendSize,
                        upd_store (SendPacketInfo_Free a) (Session_DoDisconnect E BY_ERROR i w1))
                     else if totalSendSize + useSize > MAX_SEND_BUFFER_SIZE then
                       (STREAM_IS_FULL, totalSendSize,
                        set_send i (SendContext_SetReservedSendPacketInfo a sc) w1)
                     else
                       let (ok, w2) = IOHandler_RefreshRetransmissionSendPacketInfo E a threadId w1 in
                       if \<not> ok then
                         (IS_ERASED_PACKET, totalSendSize + useSize, upd_store (SendPacketInfo_Free a) w2)
                       else let w3 = set_send i (stream_write totalSendSize (packet_bytes E b)
                                       (insert_key key (get_send i w2))) w2
                            in (STREAM_SUCCESS, totalSendSize + useSize,
                                upd_store (SendPacketInfo_Free a) w3)))"

text \<open>The loop over \<open>bufferCount\<close> queued packets.\<close>

fun stream_loop ::
    "'k Env \<Rightarrow> nat \<Rightarrow> ThreadIdType \<Rightarrow> nat \<Rightarrow> nat \<Rightarrow> 'k World \<Rightarrow> bool \<times> nat \<times> 'k World" where
  "stream_loop E i threadId 0 totalSendSize w = (True, totalSendSize, w)"
| "stream_loop E i threadId (Suc k) totalSendSize w =
     (case IOHandler_StoredSendPacketInfoToStream E i totalSendSize threadId w of
        (OCCURED_ERROR, t, w1) \<Rightarrow> (False, 0, w1)
      | (STREAM_IS_FULL, t, w1) \<Rightarrow> (True, t, w1)
      | (_, t, w1) \<Rightarrow> stream_loop E i threadId k t w1)"

definition IOHandler_MakeSendStream ::
    "'k Env \<Rightarrow> nat \<Rightarrow> ThreadIdType \<Rightarrow> 'k World \<Rightarrow> bool \<times> nat \<times> 'k World" where
  "IOHandler_MakeSendStream E i threadId w =
     (let w1 = set_send i ((get_send i w)\<lparr> sc_cachedSequenceSet := {} \<rparr>) w;
          bufferCount = SendContext_GetSendPacketInfoQueueSize (get_send i w1)
      in case IOHandler_ReservedSendPacketInfoToStream E i 0 threadId w1 of
           (OCCURED_ERROR, t, w2) \<Rightarrow> (False, 0, w2)
         | (_, t, w2) \<Rightarrow> stream_loop E i threadId bufferCount t w2)"

definition IOHandler_MakeSendContext ::
    "'k Env \<Rightarrow> nat \<Rightarrow> ThreadIdType \<Rightarrow> 'k World \<Rightarrow> bool \<times> IOContext option \<times> 'k World" where
  "IOHandler_MakeSendContext E i threadId w =
     (let (allocated, w1) = ask (env_contextAlloc E) w in
      if \<not> allocated then (False, None, w1)
      else let (succeeded, length1, w2) = IOHandler_MakeSendStream E i threadId w1 in
        if \<not> succeeded then (False, None, w2)
        else if length1 = 0 then (True, None, w2)
        else let (registered, w3) = ask (env_registerAddress E) w2 in
          if \<not> registered then (False, None, w3)
          else (True, Some ((IOContext_InitContext (s_sessionId (get_session i w)) OP_SEND)
                  \<lparr> io_BufferId := sc_sendBufferId (get_send i w), io_length := length1 \<rparr>), w3))"

definition set_ioMode :: "IO_MODE \<Rightarrow> nat \<Rightarrow> 'k World \<Rightarrow> 'k World" where
  "set_ioMode m i w = set_send i ((get_send i w)\<lparr> sc_ioMode := m \<rparr>) w"

definition IOHandler_TryRIOSend :: "'k Env \<Rightarrow> nat \<Rightarrow> IOContext \<Rightarrow> 'k World \<Rightarrow> bool \<times> 'k World" where
  "IOHandler_TryRIOSend E i context w =
     (let context1 = context\<lparr> io_session := Some i,
                       io_ownerSessionGeneration := s_sessionGeneration (get_session i w) \<rparr> in
      if socket (s_socketContext (get_session i w)) = None
      then (False, set_ioMode IO_NONE_SENDING i w)
      else let (posted, w1) = ask (env_rioSend E) w in
        if \<not> posted then (False, set_ioMode IO_NONE_SENDING i w1)
        else (True, w1\<lparr> w_posted := w_posted w1 @ [PostedSend context1],
                w_wire := w_wire w1 @
                  [(i, take (io_length context1) (sc_rioSendBuffer (get_send i w1)))] \<rparr>))"

text \<open>The loop of \<open>DoSend\<close> runs again only after a datagram was dropped by the simulated
  loss; \<open>fuel\<close> bounds it, and None is running out of it.\<close>

fun DoSend_loop :: "nat \<Rightarrow> 'k Env \<Rightarrow> nat \<Rightarrow> ThreadIdType \<Rightarrow> 'k World \<Rightarrow> (bool \<times> 'k World) option" where
  "DoSend_loop 0 E i threadId w = None"
| "DoSend_loop (Suc fuel) E i threadId w =
     (if sc_ioMode (get_send i w) \<noteq> IO_NONE_SENDING then Some (True, w)
      else let w1 = set_ioMode IO_SENDING i w in
        if Session_IsReleasing (get_session i w1) then Some (True, set_ioMode IO_NONE_SENDING i w1)
        else if SendContext_IsNothingToSend (get_send i w1) then
          Some (True, set_ioMode IO_NONE_SENDING i w1)
        else case IOHandler_MakeSendContext E i threadId w1 of
          (succeeded, None, w2) \<Rightarrow> Some (succeeded, set_ioMode IO_NONE_SENDING i w2)
        | (succeeded, Some context, w2) \<Rightarrow>
            let (drop1, w3) = ask (env_dropSend E) w2 in
            if drop1 then DoSend_loop fuel E i threadId (set_ioMode IO_NONE_SENDING i w3)
            else Some (IOHandler_TryRIOSend E i context w3))"

text \<open>How much there is to send: each pass of the loop lowers it.\<close>

definition pending_count :: "nat \<Rightarrow> 'k World \<Rightarrow> nat" where
  "pending_count i w = length (sc_sendPacketInfoQueue (get_send i w))
     + (if sc_reservedSendPacketInfo (get_send i w) = None then 0 else 1)"

definition IOHandler_DoSend :: "'k Env \<Rightarrow> nat \<Rightarrow> ThreadIdType \<Rightarrow> 'k World \<Rightarrow> bool \<times> 'k World" where
  "IOHandler_DoSend E i threadId w =
     (if Session_IsReleasing (get_session i w) then (True, w)
      else case DoSend_loop (Suc (pending_count i w)) E i threadId w of
        None \<Rightarrow> (False, fault w)
      | Some r \<Rightarrow> r)"

section \<open>The counts stay exact\<close>

lemma world_ok_pop:
  assumes "world_ok n m L w" "i < n" "SendContext_TryGetFrontAndPop (get_send i w) = (Some a, sc)"
  shows "world_ok n m (add_mset a L) (set_send i sc w)"
  using assms sc_holders_TryGetFrontAndPop [OF assms(3)] world_okD(6) [OF assms(1,2)]
  by (intro world_ok_set_send [OF assms(1,2)])
     (auto simp: SendContext_TryGetFrontAndPop_def session_wf_def sc_wf_def get_send_def split: list.splits)

lemma world_ok_take_reserved:
  assumes "world_ok n m L w" "i < n" "SendContext_TakeReservedSendPacketInfo (get_send i w) = (Some a, sc)"
  shows "world_ok n m (add_mset a L) (set_send i sc w)"
  using assms sc_holders_TakeReserved [OF assms(3)] world_okD(6) [OF assms(1,2)]
  by (intro world_ok_set_send [OF assms(1,2)])
     (auto simp: SendContext_TakeReservedSendPacketInfo_def session_wf_def sc_wf_def get_send_def)

lemma world_ok_stream_write:
  assumes "world_ok n m L w" "i < n" "off + length bs \<le> MAX_SEND_BUFFER_SIZE"
  shows "world_ok n m L (set_send i (insert_key k (stream_write off bs (get_send i w))) w)"
    and "world_ok n m L (set_send i (stream_write off bs (insert_key k (get_send i w))) w)"
  using assms world_okD(6) [OF assms(1,2)]
  by (intro world_ok_set_send [OF assms(1,2)];
      simp add: stream_write_def insert_key_def session_wf_def sc_wf_def get_send_def sc_holders_def)+

lemma Refresh_spec:
  assumes "world_ok n m L w" "a \<in># L" "unat threadId < m"
    and "IOHandler_RefreshRetransmissionSendPacketInfo E a threadId w = (ok, w')"
  shows "world_ok n m L w'" "w_sessions w' = w_sessions w" "w_wire w' = w_wire w"
    "\<And>info. spi_mem (w_store w) a = Some info \<Longrightarrow> ok \<longleftrightarrow> \<not> spi_isErasedPacketInfo info"
proof -
  obtain info ow b where i: "spi_get a (w_store w) = Some info" "spi_owner info = Some ow" "ow < n"
    "spi_buffer info = Some b"
    using assms(2) by (auto intro: world_ok_lookup [OF assms(1), of a])
  have t: "\<not> length (w_schedulers w) \<le> unat threadId"
    using world_okD(2) [OF assms(1)] assms(3) by simp
  show "world_ok n m L w'"
  proof (cases "spi_isErasedPacketInfo info \<or> spi_isReplyType info")
    case True
    with assms i show ?thesis by (auto simp: IOHandler_RefreshRetransmissionSendPacketInfo_def split: if_splits)
  next
    case False
    obtain now w1 where q: "ask (env_steadyNow E) w = (now, w1)" by (cases "ask (env_steadyNow E) w")
    let ?w2 = "upd_store (SendPacketInfo_MarkSentForRttSample now a) w1"
    have w2: "world_ok n m L ?w2"
      unfolding SendPacketInfo_MarkSentForRttSample_def using assms(2)
      by (intro world_ok_spi_update [OF world_ok_ask [OF assms(1) q]]) (auto simp: info_wf_def)
    obtain d heap st where p: "PushRetransmissionSchedule a d (w_schedulers ?w2 ! unat threadId) (w_store ?w2) = (heap, st)"
      and w': "w' = ?w2\<lparr> w_schedulers := (w_schedulers ?w2)[unat threadId := heap], w_store := st \<rparr>"
      using assms(4) i False t q
      by (auto simp: IOHandler_RefreshRetransmissionSendPacketInfo_def Let_def split: prod.splits)
    show ?thesis unfolding w'
      using assms(2) by (intro world_ok_push_schedule [OF w2 _ assms(3) p]) simp
  qed
  show "w_sessions w' = w_sessions w" "w_wire w' = w_wire w"
    using assms(4) i t
    by (auto simp: IOHandler_RefreshRetransmissionSendPacketInfo_def Let_def ask_def upd_store_def
        split: if_splits prod.splits)
  fix info' assume "spi_mem (w_store w) a = Some info'"
  with assms(4) i t show "ok \<longleftrightarrow> \<not> spi_isErasedPacketInfo info'"
    by (auto simp: IOHandler_RefreshRetransmissionSendPacketInfo_def Let_def spi_get_def
        split: if_splits prod.splits)
qed

lemma packet_bytes_le: "length (packet_bytes E b) \<le> nb_GetAllUseSize (env_api E) b"
  by (simp add: packet_bytes_def)

lemma Stored_ok:
  assumes "world_ok n m L w" "i < n" "unat threadId < m" "t \<le> MAX_SEND_BUFFER_SIZE"
    and "sc_reservedSendPacketInfo (get_send i w) = None"
    and "IOHandler_StoredSendPacketInfoToStream E i t threadId w = (r, t', w')"
  shows "world_ok n m L w'" "t' \<le> MAX_SEND_BUFFER_SIZE" "w_wire w' = w_wire w"
    "r \<noteq> STREAM_IS_FULL \<Longrightarrow> sc_reservedSendPacketInfo (get_send i w') = None"
    "sc_sendPacketInfoQueue (get_send i w') = tl (sc_sendPacketInfoQueue (get_send i w))"
    "r = STREAM_IS_FULL \<Longrightarrow> 0 < t \<and> sc_sendPacketInfoQueue (get_send i w) \<noteq> []"
proof -
  have len: "i < length (w_sessions w)" using world_okD(1) [OF assms(1)] assms(2) by simp
  have "world_ok n m L w' \<and> t' \<le> MAX_SEND_BUFFER_SIZE \<and> w_wire w' = w_wire w \<and>
    (r \<noteq> STREAM_IS_FULL \<longrightarrow> sc_reservedSendPacketInfo (get_send i w') = None) \<and>
    sc_sendPacketInfoQueue (get_send i w') = tl (sc_sendPacketInfoQueue (get_send i w)) \<and>
    (r = STREAM_IS_FULL \<longrightarrow> 0 < t \<and> sc_sendPacketInfoQueue (get_send i w) \<noteq> [])"
  proof (cases "sc_sendPacketInfoQueue (get_send i w)")
    case Nil
    with assms show ?thesis
      by (auto simp: IOHandler_StoredSendPacketInfoToStream_def SendContext_TryGetFrontAndPop_def)
  next
    case (Cons a q)
    let ?sc = "(get_send i w)\<lparr> sc_sendPacketInfoQueue := q \<rparr>" and ?w1 = "set_send i ((get_send i w)\<lparr> sc_sendPacketInfoQueue := q \<rparr>) w"
    have pop: "SendContext_TryGetFrontAndPop (get_send i w) = (Some a, ?sc)"
      using Cons by (simp add: SendContext_TryGetFrontAndPop_def)
    note w1 = world_ok_pop [OF assms(1,2) pop]
    have len1: "i < length (w_sessions ?w1)" using len by simp
    obtain info ow b where i: "spi_get a (w_store ?w1) = Some info" "spi_owner info = Some ow"
      "spi_buffer info = Some b"
      by (rule world_ok_lookup [OF w1, of a]) auto
    let ?key = "info_key info" and ?size = "nb_GetAllUseSize (env_api E) b"
    obtain ok w2 where ref: "IOHandler_RefreshRetransmissionSendPacketInfo E a threadId ?w1 = (ok, w2)"
      by (cases "IOHandler_RefreshRetransmissionSendPacketInfo E a threadId ?w1")
    note R = Refresh_spec [OF w1 _ assms(3) ref]
    have send2: "get_send i w2 = ?sc" "i < length (w_sessions w2)"
      using R(2) len by (simp_all add: get_send_def get_session_def set_send_def upd_session_def)
    note E = assms(6) [unfolded IOHandler_StoredSendPacketInfoToStream_def pop prod.case option.case Let_def i]
    consider (sent) "?key \<in> sc_cachedSequenceSet ?sc"
      | (bad) "?key \<notin> sc_cachedSequenceSet ?sc" "?size > MAX_SEND_BUFFER_SIZE \<or> ?size = 0"
      | (full) "?key \<notin> sc_cachedSequenceSet ?sc" "\<not> (?size > MAX_SEND_BUFFER_SIZE \<or> ?size = 0)"
          "t + ?size > MAX_SEND_BUFFER_SIZE"
      | (erased) "?key \<notin> sc_cachedSequenceSet ?sc" "\<not> (?size > MAX_SEND_BUFFER_SIZE \<or> ?size = 0)"
          "\<not> t + ?size > MAX_SEND_BUFFER_SIZE" "\<not> ok"
      | (copied) "?key \<notin> sc_cachedSequenceSet ?sc" "\<not> (?size > MAX_SEND_BUFFER_SIZE \<or> ?size = 0)"
          "\<not> t + ?size > MAX_SEND_BUFFER_SIZE" ok
      by (cases "?key \<in> sc_cachedSequenceSet ?sc"; cases "?size > MAX_SEND_BUFFER_SIZE \<or> ?size = 0";
          cases "t + ?size > MAX_SEND_BUFFER_SIZE"; cases ok) simp_all
    then show ?thesis
    proof cases
      case sent
      with E have "r = IS_SENT" "t' = t" "w' = upd_store (SendPacketInfo_Free a) ?w1" by simp_all
      with world_ok_Free [OF w1] assms(4,5) len Cons show ?thesis by simp
    next
      case bad
      with E have "r = OCCURED_ERROR" "t' = t"
        "w' = upd_store (SendPacketInfo_Free a) (Session_DoDisconnect E BY_ERROR i ?w1)" by auto
      with world_ok_Free [OF world_ok_DoDisconnect [OF w1 assms(2)]] assms(4,5) len Cons len1
      show ?thesis by (simp add: DoDisconnect_frame)
    next
      case full
      with E have r: "r = STREAM_IS_FULL" "t' = t"
        "w' = set_send i (SendContext_SetReservedSendPacketInfo a ?sc) ?w1" by simp_all
      have "world_ok n m L (set_send i (SendContext_SetReservedSendPacketInfo a ?sc) ?w1)"
      proof (rule world_ok_set_send [OF w1 assms(2)])
        show "sc_wf (SendContext_SetReservedSendPacketInfo a ?sc)"
          using world_okD(6) [OF assms(1,2)]
          by (simp add: SendContext_SetReservedSendPacketInfo_def session_wf_def sc_wf_def get_send_def)
        show "length (sc_rioSendBuffer (SendContext_SetReservedSendPacketInfo a ?sc))
            = length (sc_rioSendBuffer (get_send i ?w1))"
          using len by (simp add: SendContext_SetReservedSendPacketInfo_def)
        show "L + sc_holders (SendContext_SetReservedSendPacketInfo a ?sc)
            = add_mset a L + sc_holders (get_send i ?w1)"
          using len assms(5) by (simp add: sc_holders_SetReserved)
      qed
      with r full assms(4) len Cons show ?thesis
        by (auto simp: SendContext_SetReservedSendPacketInfo_def)
    next
      case erased
      with E ref have "r = IS_ERASED_PACKET" "t' = t + ?size" "w' = upd_store (SendPacketInfo_Free a) w2"
        by simp_all
      with world_ok_Free [OF R(1)] R(3) erased assms(5) len Cons send2 show ?thesis by simp
    next
      case copied
      let ?sc3 = "stream_write t (packet_bytes E b) (insert_key ?key (get_send i w2))"
      from copied E ref have r: "r = STREAM_SUCCESS" "t' = t + ?size"
        "w' = upd_store (SendPacketInfo_Free a) (set_send i ?sc3 w2)"
        by simp_all
      have "t + length (packet_bytes E b) \<le> MAX_SEND_BUFFER_SIZE"
        using copied packet_bytes_le [of E b] by simp
      with world_ok_stream_write(2) [OF R(1) assms(2)] have "world_ok n m (add_mset a L) (set_send i ?sc3 w2)"
        by simp
      from world_ok_Free [OF this] r R(3) copied assms(5) len Cons send2 show ?thesis
        by (simp add: stream_write_def insert_key_def)
    qed
  qed
  then show "world_ok n m L w'" "t' \<le> MAX_SEND_BUFFER_SIZE" "w_wire w' = w_wire w"
    "r \<noteq> STREAM_IS_FULL \<Longrightarrow> sc_reservedSendPacketInfo (get_send i w') = None"
    "sc_sendPacketInfoQueue (get_send i w') = tl (sc_sendPacketInfoQueue (get_send i w))"
    "r = STREAM_IS_FULL \<Longrightarrow> 0 < t \<and> sc_sendPacketInfoQueue (get_send i w) \<noteq> []"
    by simp_all
qed


lemma Stored_size:
  "IOHandler_StoredSendPacketInfoToStream E i t threadId w = (r, t', w') \<Longrightarrow>
   t' \<noteq> t \<Longrightarrow> r \<noteq> STREAM_IS_FULL \<and> sc_sendPacketInfoQueue (get_send i w) \<noteq> []"
  by (auto simp: IOHandler_StoredSendPacketInfoToStream_def SendContext_TryGetFrontAndPop_def Let_def
      split: list.splits option.splits if_splits prod.splits)

lemma Reserved_ok:
  assumes "world_ok n m L w" "i < n" "unat threadId < m"
    and "IOHandler_ReservedSendPacketInfoToStream E i 0 threadId w = (r, t', w')"
  shows "world_ok n m L w'" "t' \<le> MAX_SEND_BUFFER_SIZE" "w_wire w' = w_wire w"
    "sc_reservedSendPacketInfo (get_send i w') = None"
    "sc_sendPacketInfoQueue (get_send i w') = sc_sendPacketInfoQueue (get_send i w)"
    "t' \<noteq> 0 \<Longrightarrow> sc_reservedSendPacketInfo (get_send i w) \<noteq> None"
proof -
  have len: "i < length (w_sessions w)" using world_okD(1) [OF assms(1)] assms(2) by simp
  have "world_ok n m L w' \<and> t' \<le> MAX_SEND_BUFFER_SIZE \<and> w_wire w' = w_wire w \<and>
    sc_reservedSendPacketInfo (get_send i w') = None \<and>
    sc_sendPacketInfoQueue (get_send i w') = sc_sendPacketInfoQueue (get_send i w) \<and>
    (t' \<noteq> 0 \<longrightarrow> sc_reservedSendPacketInfo (get_send i w) \<noteq> None)"
  proof (cases "sc_reservedSendPacketInfo (get_send i w)")
    case None
    with assms show ?thesis
      by (simp add: IOHandler_ReservedSendPacketInfoToStream_def SendContext_TakeReservedSendPacketInfo_def)
  next
    case (Some a)
    let ?sc = "(get_send i w)\<lparr> sc_reservedSendPacketInfo := None \<rparr>"
    let ?w1 = "set_send i ?sc w"
    have take: "SendContext_TakeReservedSendPacketInfo (get_send i w) = (Some a, ?sc)"
      using Some by (simp add: SendContext_TakeReservedSendPacketInfo_def)
    note w1 = world_ok_take_reserved [OF assms(1,2) take]
    have len1: "i < length (w_sessions ?w1)" using len by simp
    obtain info ow b where i: "spi_get a (w_store ?w1) = Some info" "spi_owner info = Some ow"
      "spi_buffer info = Some b"
      by (rule world_ok_lookup [OF w1, of a]) auto
    let ?size = "nb_GetAllUseSize (env_api E) b"
    obtain ok w2 where ref: "IOHandler_RefreshRetransmissionSendPacketInfo E a threadId ?w1 = (ok, w2)"
      by (cases "IOHandler_RefreshRetransmissionSendPacketInfo E a threadId ?w1")
    note R = Refresh_spec [OF w1 _ assms(3) ref]
    have send2: "get_send i w2 = ?sc" "i < length (w_sessions w2)"
      using R(2) len by (simp_all add: get_send_def get_session_def set_send_def upd_session_def)
    note E = assms(4) [unfolded IOHandler_ReservedSendPacketInfoToStream_def take prod.case option.case Let_def i]
    show ?thesis
    proof (cases "?size \<ge> MAX_SEND_BUFFER_SIZE")
      case True
      with E have "t' = 0" "w' = upd_store (SendPacketInfo_Free a) (Session_DoDisconnect E BY_ERROR i ?w1)"
        by auto
      with world_ok_Free [OF world_ok_DoDisconnect [OF w1 assms(2)]] len len1
      show ?thesis by (simp add: DoDisconnect_frame)
    next
      case False
      show ?thesis
      proof (cases ok)
        case True
        let ?sc3 = "insert_key (info_key info) (stream_write 0 (packet_bytes E b) (get_send i w2))"
        from True False E ref have r: "t' = ?size"
          "w' = upd_store (SendPacketInfo_Free a) (set_send i ?sc3 w2)" by simp_all
        have "0 + length (packet_bytes E b) \<le> MAX_SEND_BUFFER_SIZE"
          using False packet_bytes_le [of E b] by simp
        with world_ok_stream_write(1) [OF R(1) assms(2)] have "world_ok n m (add_mset a L) (set_send i ?sc3 w2)"
          by simp
        from world_ok_Free [OF this] r R(3) False Some len send2 show ?thesis
          by (simp add: stream_write_def insert_key_def)
      next
        case False2: False
        with False E ref have "t' = 0" "w' = upd_store (SendPacketInfo_Free a) w2" by simp_all
        with world_ok_Free [OF R(1)] R(3) len send2 show ?thesis by simp
      qed
    qed
  qed
  then show "world_ok n m L w'" "t' \<le> MAX_SEND_BUFFER_SIZE" "w_wire w' = w_wire w"
    "sc_reservedSendPacketInfo (get_send i w') = None"
    "sc_sendPacketInfoQueue (get_send i w') = sc_sendPacketInfoQueue (get_send i w)"
    "t' \<noteq> 0 \<Longrightarrow> sc_reservedSendPacketInfo (get_send i w) \<noteq> None"
    by simp_all
qed

lemma stream_loop_ok:
  assumes "world_ok n m L w" "i < n" "unat threadId < m" "t \<le> MAX_SEND_BUFFER_SIZE"
    and "sc_reservedSendPacketInfo (get_send i w) = None"
    and "stream_loop E i threadId k t w = (ok, t', w')"
  shows "world_ok n m L w' \<and> t' \<le> MAX_SEND_BUFFER_SIZE \<and> w_wire w' = w_wire w \<and>
     pending_count i w' \<le> pending_count i w \<and>
     (ok \<and> t' \<noteq> t \<longrightarrow> pending_count i w' < pending_count i w)"
  using assms
proof (induction k arbitrary: t w)
  case (Suc k)
  obtain r t1 w1 where s: "IOHandler_StoredSendPacketInfoToStream E i t threadId w = (r, t1, w1)"
    by (cases "IOHandler_StoredSendPacketInfoToStream E i t threadId w")
  note S = Stored_ok [OF Suc.prems(1-5) s] and size = Stored_size [OF s]
  have pend: "pending_count i w1 \<le> pending_count i w"
    "t1 \<noteq> t \<Longrightarrow> pending_count i w1 < pending_count i w"
    using S(4-6) size Suc.prems(5) by (cases "sc_sendPacketInfoQueue (get_send i w)"; auto simp: pending_count_def)+
  consider "r = OCCURED_ERROR" | "r = STREAM_IS_FULL" | "r \<noteq> OCCURED_ERROR" "r \<noteq> STREAM_IS_FULL" by blast
  then show ?case
  proof cases
    case 3
    with Suc.prems(6) s have l: "stream_loop E i threadId k t1 w1 = (ok, t', w')"
      by (cases r) simp_all
    from Suc.IH [OF S(1) Suc.prems(2,3) S(2) S(4) l] 3(2) S(3) pend show ?thesis by auto
  qed (use Suc.prems(6) s S pend in auto)
qed simp

lemma world_ok_send_fields:
  assumes "world_ok n m L w" "i < n"
  shows "world_ok n m L (set_send i ((get_send i w)\<lparr> sc_cachedSequenceSet := K \<rparr>) w)"
    and "world_ok n m L (set_ioMode mode i w)"
  using assms world_okD(6) [OF assms(1,2)]
  by (auto intro!: world_ok_set_send [OF assms(1,2)] simp: set_ioMode_def session_wf_def sc_wf_def
      get_send_def sc_holders_def)

lemma MakeSendStream_ok:
  assumes "world_ok n m L w" "i < n" "unat threadId < m"
    and "IOHandler_MakeSendStream E i threadId w = (ok, t', w')"
  shows "world_ok n m L w' \<and> t' \<le> MAX_SEND_BUFFER_SIZE \<and> w_wire w' = w_wire w \<and>
     (ok \<and> t' \<noteq> 0 \<longrightarrow> pending_count i w' < pending_count i w)"
proof -
  let ?w1 = "set_send i ((get_send i w)\<lparr> sc_cachedSequenceSet := {} \<rparr>) w"
  let ?k = "SendContext_GetSendPacketInfoQueueSize (get_send i ?w1)"
  have len: "i < length (w_sessions w)" using world_okD(1) [OF assms(1)] assms(2) by simp
  obtain r t2 w2 where s: "IOHandler_ReservedSendPacketInfoToStream E i 0 threadId ?w1 = (r, t2, w2)"
    by (cases "IOHandler_ReservedSendPacketInfoToStream E i 0 threadId ?w1")
  note R = Reserved_ok [OF world_ok_send_fields(1) [OF assms(1,2)] assms(2,3) s]
  have p: "pending_count i w2 \<le> pending_count i w" "t2 \<noteq> 0 \<Longrightarrow> pending_count i w2 < pending_count i w"
    using R(4-6) len by (auto simp: pending_count_def)
  show ?thesis
  proof (cases "r = OCCURED_ERROR")
    case False
    with assms(4) s have "stream_loop E i threadId ?k t2 w2 = (ok, t', w')"
      by (cases r) (simp_all add: IOHandler_MakeSendStream_def Let_def)
    from stream_loop_ok [OF R(1) assms(2,3) R(2,4) this] R(3) p show ?thesis by auto
  qed (use assms(4) s R in \<open>simp add: IOHandler_MakeSendStream_def Let_def\<close>)
qed

lemma ask_send_ok:
  assumes "world_ok n m L w" "ask f w = (x, w')"
  shows "world_ok n m L w'" "w_wire w' = w_wire w" "pending_count i w' = pending_count i w"
  using world_ok_ask [OF assms] ask_frame [OF assms(2)] by (simp_all add: pending_count_def)

lemma MakeSendContext_ok:
  assumes "world_ok n m L w" "i < n" "unat threadId < m"
    and "IOHandler_MakeSendContext E i threadId w = (ok, c, w')"
  shows "world_ok n m L w' \<and> w_wire w' = w_wire w \<and>
     (case c of None \<Rightarrow> True
      | Some ctx \<Rightarrow> 0 < io_length ctx \<and> io_length ctx \<le> MAX_SEND_BUFFER_SIZE \<and>
          pending_count i w' < pending_count i w)"
proof -
  obtain q1 w1 where q1: "ask (env_contextAlloc E) w = (q1, w1)" by (cases "ask (env_contextAlloc E) w")
  obtain ok2 l w2 where s: "IOHandler_MakeSendStream E i threadId w1 = (ok2, l, w2)"
    by (cases "IOHandler_MakeSendStream E i threadId w1")
  obtain q3 w3 where q3: "ask (env_registerAddress E) w2 = (q3, w3)" by (cases "ask (env_registerAddress E) w2")
  note W1 = ask_send_ok [OF assms(1) q1]
  note S = MakeSendStream_ok [OF W1(1) assms(2,3) s]
  note W3 = ask_send_ok [OF conjunct1 [OF S] q3]
  show ?thesis
    using assms(4) q1 s q3 W1 S W3
    by (auto simp: IOHandler_MakeSendContext_def IOContext_InitContext_def split: if_splits)
qed

lemma pending_set_ioMode [simp]:
  "i < length (w_sessions w) \<Longrightarrow> pending_count i (set_ioMode m i w) = pending_count i w"
  by (simp add: pending_count_def set_ioMode_def)

lemma set_ioMode_simps [simp]:
  "w_wire (set_ioMode m i w) = w_wire w"
  "length (w_sessions (set_ioMode m i w)) = length (w_sessions w)"
  "i < length (w_sessions w) \<Longrightarrow> sc_ioMode (get_send i (set_ioMode m i w)) = m"
  by (simp_all add: set_ioMode_def)

text \<open>What a run of the loop may do: post nothing and leave the session free to send, or
  post one datagram that fits and leave the session sending.\<close>

definition sent_at_most_one :: "nat \<Rightarrow> 'k World \<Rightarrow> 'k World \<Rightarrow> bool" where
  "sent_at_most_one i w w' \<longleftrightarrow>
     (w_wire w' = w_wire w \<and> sc_ioMode (get_send i w') = IO_NONE_SENDING) \<or>
     (\<exists>d. w_wire w' = w_wire w @ [(i, d)] \<and> d \<noteq> [] \<and> length d \<le> MAX_SEND_BUFFER_SIZE \<and>
        sc_ioMode (get_send i w) = IO_NONE_SENDING)"

lemma TryRIOSend_ok:
  assumes "world_ok n m L w" "i < n" "0 < io_length c" "io_length c \<le> MAX_SEND_BUFFER_SIZE"
    and "IOHandler_TryRIOSend E i c w = (ok, w')"
  shows "world_ok n m L w' \<and>
    (w_wire w' = w_wire w \<and> sc_ioMode (get_send i w') = IO_NONE_SENDING \<or>
     (\<exists>d. w_wire w' = w_wire w @ [(i, d)] \<and> d \<noteq> [] \<and> length d \<le> MAX_SEND_BUFFER_SIZE))"
proof -
  obtain posted w1 where q: "ask (env_rioSend E) w = (posted, w1)" by (cases "ask (env_rioSend E) w")
  have len: "i < length (w_sessions w)" using world_okD(1) [OF assms(1)] assms(2) by simp
  note W1 = world_ok_ask [OF assms(1) q]
  have len1: "i < length (w_sessions w1)" using world_okD(1) [OF W1] assms(2) by simp
  have buf: "length (sc_rioSendBuffer (get_send i w1)) = MAX_SEND_BUFFER_SIZE"
    using world_okD(6) [OF W1 assms(2)] by (simp add: session_wf_def get_send_def)
  let ?d = "take (io_length c) (sc_rioSendBuffer (get_send i w1))"
  have "world_ok n m L (w1\<lparr> w_posted := ps, w_wire := w_wire w1 @ [(i, ?d)] \<rparr>)" for ps
    by (rule world_ok_cong [OF W1]) simp_all
  moreover have "?d \<noteq> []" "length ?d \<le> MAX_SEND_BUFFER_SIZE"
    using assms(3,4) buf by auto
  ultimately show ?thesis
    using assms(5) q world_ok_send_fields(2) [OF assms(1,2)] world_ok_send_fields(2) [OF W1 assms(2)]
      ask_frame(5) [OF q] len len1
    by (auto simp: IOHandler_TryRIOSend_def Let_def split: if_splits)
qed

lemma DoSend_loop_ok:
  assumes "world_ok n m L w" "i < n" "unat threadId < m" "pending_count i w < fuel"
  shows "\<exists>ok w'. DoSend_loop fuel E i threadId w = Some (ok, w') \<and> world_ok n m L w' \<and>
    (w' = w \<and> sc_ioMode (get_send i w) = IO_SENDING \<or> sent_at_most_one i w w')"
  using assms
proof (induction fuel arbitrary: w)
  case (Suc fuel)
  have len: "i < length (w_sessions w)" using world_okD(1) [OF Suc.prems(1)] Suc.prems(2) by simp
  let ?w1 = "set_ioMode IO_SENDING i w"
  note W1 = world_ok_send_fields(2) [OF Suc.prems(1,2), of IO_SENDING]
  have len1: "i < length (w_sessions ?w1)" using len by simp
  show ?case
  proof (cases "sc_ioMode (get_send i w) \<noteq> IO_NONE_SENDING \<or>
      Session_IsReleasing (get_session i ?w1) \<or> SendContext_IsNothingToSend (get_send i ?w1)")
    case True
    with Suc.prems(1) world_ok_send_fields(2) [OF W1 Suc.prems(2), of IO_NONE_SENDING] len show ?thesis
      by (cases "sc_ioMode (get_send i w)") (auto simp: sent_at_most_one_def Let_def)
  next
    case False
    then have mode: "sc_ioMode (get_send i w) = IO_NONE_SENDING" by simp
    obtain ok c w2 where s: "IOHandler_MakeSendContext E i threadId ?w1 = (ok, c, w2)"
      by (cases "IOHandler_MakeSendContext E i threadId ?w1")
    note S = MakeSendContext_ok [OF W1 Suc.prems(2,3) s]
    have len2: "i < length (w_sessions w2)" using world_okD(1) [OF conjunct1 [OF S]] Suc.prems(2) by simp
    show ?thesis
    proof (cases c)
      case None
      with False s S world_ok_send_fields(2) [OF conjunct1 [OF S] Suc.prems(2), of IO_NONE_SENDING] len2
      show ?thesis by (auto simp: sent_at_most_one_def)
    next
      case (Some ctx)
      obtain d w3 where q: "ask (env_dropSend E) w2 = (d, w3)" by (cases "ask (env_dropSend E) w2")
      note W3 = ask_send_ok [OF conjunct1 [OF S] q]
      have len3: "i < length (w_sessions w3)" using world_okD(1) [OF W3(1)] Suc.prems(2) by simp
      show ?thesis
      proof (cases d)
        case True
        let ?w4 = "set_ioMode IO_NONE_SENDING i w3"
        have "pending_count i ?w4 < fuel" using S Some W3(3) len len3 Suc.prems(4) by simp
        from Suc.IH [OF world_ok_send_fields(2) [OF W3(1) Suc.prems(2)] Suc.prems(2,3) this]
        show ?thesis using False s Some q True W3(2) S len3 mode
          by (fastforce simp: sent_at_most_one_def)
      next
        case False2: False
        obtain ok4 w4 where t: "IOHandler_TryRIOSend E i ctx w3 = (ok4, w4)"
          by (cases "IOHandler_TryRIOSend E i ctx w3")
        have "0 < io_length ctx" "io_length ctx \<le> MAX_SEND_BUFFER_SIZE" using S Some by simp_all
        from TryRIOSend_ok [OF W3(1) Suc.prems(2) this t] False s Some q False2 t W3(2) S mode
        show ?thesis by (auto simp: sent_at_most_one_def)
      qed
    qed
  qed
qed simp

lemma DoSend_ok:
  assumes "world_ok n m L w" "i < n" "unat threadId < m"
    and "IOHandler_DoSend E i threadId w = (ok, w')"
  shows "world_ok n m L w' \<and> (w' = w \<or> sent_at_most_one i w w')"
proof (cases "Session_IsReleasing (get_session i w)")
  case False
  from DoSend_loop_ok [OF assms(1-3), of "Suc (pending_count i w)" E] assms(4) False
  show ?thesis by (auto simp: IOHandler_DoSend_def)
qed (use assms in \<open>simp add: IOHandler_DoSend_def\<close>)

section \<open>What the stream contains\<close>

text \<open>The reference: the bytes of the packets of the queue, one after the other, each key
  once, as many as fit.\<close>

definition info_bytes :: "'k Env \<Rightarrow> SendPacketInfo \<Rightarrow> byte list" where
  "info_bytes E info = (case spi_buffer info of None \<Rightarrow> [] | Some b \<Rightarrow> packet_bytes E b)"

fun pack_stream ::
    "'k Env \<Rightarrow> (nat \<Rightarrow> SendPacketInfo option) \<Rightarrow> PacketSequenceSetKey set \<Rightarrow> nat \<Rightarrow> nat list \<Rightarrow> byte list" where
  "pack_stream E M K n [] = []"
| "pack_stream E M K n (a # q) =
     (case M a of
        None \<Rightarrow> []
      | Some info \<Rightarrow>
          if info_key info \<in> K then pack_stream E M K n q
          else if n + length (info_bytes E info) > MAX_SEND_BUFFER_SIZE then []
          else info_bytes E info
                 @ pack_stream E M (insert (info_key info) K) (n + length (info_bytes E info)) q)"

text \<open>A packet the stream takes: not acknowledged yet, of a positive size below the maximum,
  and with all its bytes in its buffer.\<close>

definition sendable :: "'k Env \<Rightarrow> SendPacketInfo \<Rightarrow> bool" where
  "sendable E info \<longleftrightarrow> \<not> spi_isErasedPacketInfo info \<and>
     (\<exists>b. spi_buffer info = Some b \<and> 0 < nb_GetAllUseSize (env_api E) b \<and>
        nb_GetAllUseSize (env_api E) b < MAX_SEND_BUFFER_SIZE \<and>
        nb_GetAllUseSize (env_api E) b \<le> length (nb_GetBufferPtr (env_api E) b))"

definition spi_view :: "SendPacketInfo \<Rightarrow> NetBuffer option \<times> PacketSequenceSetKey \<times> bool" where
  "spi_view i = (spi_buffer i, info_key i, spi_isErasedPacketInfo i)"

definition view_kept :: "SpiStore \<Rightarrow> SpiStore \<Rightarrow> bool" where
  "view_kept st st' \<longleftrightarrow> (\<forall>a i'. spi_mem st' a = Some i' \<longrightarrow>
     (\<exists>i. spi_mem st a = Some i \<and> spi_view i' = spi_view i))"

lemma view_kept_refl [simp]: "view_kept st st" by (auto simp: view_kept_def)

lemma view_kept_trans: "view_kept st st' \<Longrightarrow> view_kept st' st'' \<Longrightarrow> view_kept st st''"
  unfolding view_kept_def by metis

lemma view_kept_update: "(\<And>i. spi_view (f i) = spi_view i) \<Longrightarrow> view_kept st (spi_update a f st)"
  by (auto simp: view_kept_def spi_update_def split: option.splits)

lemma view_kept_Free: "view_kept st (SendPacketInfo_Free a st)"
  by (auto simp: view_kept_def SendPacketInfo_Free_def Let_def spi_view_def info_key_def split: option.splits)

lemma view_kept_schedule: "PushRetransmissionSchedule a d h st = (h', st') \<Longrightarrow> view_kept st st'"
  by (auto simp: PushRetransmissionSchedule_def Let_def SendPacketInfo_AddRefCount_def spi_update_def
      view_kept_def spi_view_def info_key_def split: option.splits if_splits)

lemma view_kept_Refresh:
  assumes "IOHandler_RefreshRetransmissionSendPacketInfo E a threadId w = (ok, w')"
  shows "view_kept (w_store w) (w_store w')"
proof -
  have mark: "view_kept st (SendPacketInfo_MarkSentForRttSample now a st)" for now st
    unfolding SendPacketInfo_MarkSentForRttSample_def
    by (rule view_kept_update) (simp add: spi_view_def info_key_def)
  show ?thesis
    using assms
    by (auto simp: IOHandler_RefreshRetransmissionSendPacketInfo_def fault_def Let_def ask_def
        split: option.splits if_splits prod.splits
        intro: view_kept_trans [OF mark view_kept_schedule])
qed

lemma view_keptD:
  assumes "view_kept st st'" "spi_mem st' a = Some i'"
  obtains i where "spi_mem st a = Some i" "spi_view i' = spi_view i"
  using assms by (auto simp: view_kept_def)

lemma spi_view_same:
  "spi_view i' = spi_view i \<Longrightarrow> info_key i' = info_key i \<and> info_bytes E i' = info_bytes E i \<and>
     sendable E i' = sendable E i"
  by (simp add: spi_view_def info_bytes_def sendable_def)

lemma pack_stream_cong:
  assumes "view_kept st st'" "\<forall>a \<in> set q. spi_mem st' a \<noteq> None"
  shows "pack_stream E (spi_mem st') K n q = pack_stream E (spi_mem st) K n q"
  using assms(2)
proof (induction q arbitrary: K n)
  case (Cons a q)
  then obtain i' where i': "spi_mem st' a = Some i'" by auto
  then obtain i where i: "spi_mem st a = Some i" "spi_view i' = spi_view i"
    using view_keptD [OF assms(1)] by blast
  show ?case using Cons i' i(1) spi_view_same [OF i(2), of E] by (simp add: Let_def)
qed simp

lemma patch_take:
  assumes "n + length bs \<le> length s"
  shows "take (n + length bs) (patch n bs s) = take n s @ bs"
  using assms by (simp add: patch_def)

lemma sendable_bytes:
  assumes "sendable E info"
  obtains b where "spi_buffer info = Some b" "info_bytes E info = packet_bytes E b"
    "length (packet_bytes E b) = nb_GetAllUseSize (env_api E) b" "0 < nb_GetAllUseSize (env_api E) b"
    "nb_GetAllUseSize (env_api E) b < MAX_SEND_BUFFER_SIZE" "\<not> spi_isErasedPacketInfo info"
  using assms by (auto simp: sendable_def info_bytes_def packet_bytes_def)

text \<open>One step of the loop on a sendable packet.\<close>

lemma Stored_content:
  assumes "world_ok n m L w" "i < n" "unat threadId < m" "sc_sendPacketInfoQueue (get_send i w) = a # q"
    and "spi_mem (w_store w) a = Some info" "sendable E info"
    and "IOHandler_StoredSendPacketInfoToStream E i t threadId w = (r, t', w')"
  shows "view_kept (w_store w) (w_store w') \<and>
    (if info_key info \<in> sc_cachedSequenceSet (get_send i w)
     then r = IS_SENT \<and> t' = t \<and> sc_rioSendBuffer (get_send i w') = sc_rioSendBuffer (get_send i w) \<and>
       sc_cachedSequenceSet (get_send i w') = sc_cachedSequenceSet (get_send i w)
     else if t + length (info_bytes E info) > MAX_SEND_BUFFER_SIZE
     then r = STREAM_IS_FULL \<and> t' = t \<and> sc_rioSendBuffer (get_send i w') = sc_rioSendBuffer (get_send i w)
     else r = STREAM_SUCCESS \<and> t' = t + length (info_bytes E info) \<and>
       take t' (sc_rioSendBuffer (get_send i w')) = take t (sc_rioSendBuffer (get_send i w)) @ info_bytes E info \<and>
       sc_cachedSequenceSet (get_send i w') = insert (info_key info) (sc_cachedSequenceSet (get_send i w)))"
proof -
  let ?sc = "(get_send i w)\<lparr> sc_sendPacketInfoQueue := q \<rparr>"
  let ?w1 = "set_send i ?sc w"
  have len: "i < length (w_sessions w)" using world_okD(1) [OF assms(1)] assms(2) by simp
  have pop: "SendContext_TryGetFrontAndPop (get_send i w) = (Some a, ?sc)"
    using assms(4) by (simp add: SendContext_TryGetFrontAndPop_def)
  note w1 = world_ok_pop [OF assms(1,2) pop]
  obtain b where b: "spi_buffer info = Some b" "info_bytes E info = packet_bytes E b"
    "length (packet_bytes E b) = nb_GetAllUseSize (env_api E) b" "0 < nb_GetAllUseSize (env_api E) b"
    "nb_GetAllUseSize (env_api E) b < MAX_SEND_BUFFER_SIZE" "\<not> spi_isErasedPacketInfo info"
    using assms(6) by (rule sendable_bytes)
  have g: "spi_get a (w_store ?w1) = Some info" using assms(5) by (simp add: spi_get_def)
  obtain ok w2 where ref: "IOHandler_RefreshRetransmissionSendPacketInfo E a threadId ?w1 = (ok, w2)"
    by (cases "IOHandler_RefreshRetransmissionSendPacketInfo E a threadId ?w1")
  note R = Refresh_spec [OF w1 _ assms(3) ref]
  have ok: "ok" using R(4) [of info] assms(5) b(6) by simp
  have send2: "get_send i w2 = ?sc" "i < length (w_sessions w2)"
    using R(2) len by (simp_all add: get_send_def get_session_def set_send_def upd_session_def)
  have kept: "view_kept (w_store w) (w_store w2)" using view_kept_Refresh [OF ref] by simp
  have buf: "length (sc_rioSendBuffer (get_send i w)) = MAX_SEND_BUFFER_SIZE"
    using world_okD(6) [OF assms(1,2)] by (simp add: session_wf_def get_send_def)
  note E = assms(7) [unfolded IOHandler_StoredSendPacketInfoToStream_def pop prod.case option.case Let_def g b(1)]
  show ?thesis
  proof (cases "info_key info \<in> sc_cachedSequenceSet (get_send i w)")
    case True
    with E len view_kept_Free show ?thesis by auto
  next
    case False
    show ?thesis
    proof (cases "t + length (info_bytes E info) > MAX_SEND_BUFFER_SIZE")
      case True
      with E False b len show ?thesis by (auto simp: SendContext_SetReservedSendPacketInfo_def)
    next
      case fits: False
      let ?sc3 = "stream_write t (packet_bytes E b) (insert_key (info_key info) (get_send i w2))"
      from E False fits b ref ok have r: "r = STREAM_SUCCESS" "t' = t + length (packet_bytes E b)"
        "w' = upd_store (SendPacketInfo_Free a) (set_send i ?sc3 w2)" by simp_all
      have "take (t + length (packet_bytes E b)) (patch t (packet_bytes E b) (sc_rioSendBuffer (get_send i w)))
          = take t (sc_rioSendBuffer (get_send i w)) @ packet_bytes E b"
        by (rule patch_take) (use fits b buf in simp)
      with r False fits b send2 view_kept_trans [OF kept view_kept_Free] show ?thesis
        by (simp add: stream_write_def insert_key_def)
    qed
  qed
qed

lemma queue_allocated:
  assumes "world_ok n m L w" "i < n" "a \<in> set (sc_sendPacketInfoQueue (get_send i w))"
  shows "spi_mem (w_store w) a \<noteq> None"
proof -
  have "a \<in># holders w"
    using assms holders_split [of i w] world_okD(1) [OF assms(1)] by (auto simp: sc_holders_def)
  then show ?thesis using refs_ok_alloc [OF world_okD(4) [OF assms(1)], of a] by auto
qed

lemma stream_loop_content:
  assumes "world_ok n m L w" "i < n" "unat threadId < m" "t \<le> MAX_SEND_BUFFER_SIZE"
    and "sc_reservedSendPacketInfo (get_send i w) = None" "k = length (sc_sendPacketInfoQueue (get_send i w))"
    and "\<forall>a \<in> set (sc_sendPacketInfoQueue (get_send i w)). \<exists>info. spi_mem (w_store w) a = Some info \<and> sendable E info"
    and "stream_loop E i threadId k t w = (ok, t', w')"
  shows "ok \<and> take t' (sc_rioSendBuffer (get_send i w')) = take t (sc_rioSendBuffer (get_send i w)) @
    pack_stream E (spi_mem (w_store w)) (sc_cachedSequenceSet (get_send i w)) t (sc_sendPacketInfoQueue (get_send i w))"
  using assms
proof (induction k arbitrary: t w)
  case (Suc k)
  obtain a q where q: "sc_sendPacketInfoQueue (get_send i w) = a # q"
    using Suc.prems(6) by (cases "sc_sendPacketInfoQueue (get_send i w)") auto
  obtain info where info: "spi_mem (w_store w) a = Some info" "sendable E info"
    using Suc.prems(7) q by auto
  obtain r t1 w1 where s: "IOHandler_StoredSendPacketInfoToStream E i t threadId w = (r, t1, w1)"
    by (cases "IOHandler_StoredSendPacketInfoToStream E i t threadId w")
  note S = Stored_ok [OF Suc.prems(1-5) s]
  note C = Stored_content [OF Suc.prems(1-3) q info s]
  have q1: "sc_sendPacketInfoQueue (get_send i w1) = q" using S(5) q by simp
  have alloc: "\<forall>a \<in> set q. spi_mem (w_store w1) a \<noteq> None"
    using queue_allocated [OF S(1) Suc.prems(2)] q1 by auto
  have sendable1: "\<forall>a \<in> set q. \<exists>info. spi_mem (w_store w1) a = Some info \<and> sendable E info"
  proof
    fix c assume c: "c \<in> set q"
    then obtain j' where j': "spi_mem (w_store w1) c = Some j'" using alloc by auto
    then obtain j where "spi_mem (w_store w) c = Some j" "spi_view j' = spi_view j"
      using view_keptD [OF conjunct1 [OF C]] by blast
    with Suc.prems(7) q c j' spi_view_same show "\<exists>info. spi_mem (w_store w1) c = Some info \<and> sendable E info"
      by fastforce
  qed
  note cong = pack_stream_cong [OF conjunct1 [OF C] alloc]
  have step: "ok \<and> take t' (sc_rioSendBuffer (get_send i w')) = take t1 (sc_rioSendBuffer (get_send i w1)) @
      pack_stream E (spi_mem (w_store w)) (sc_cachedSequenceSet (get_send i w1)) t1 q"
    if "r = STREAM_SUCCESS \<or> r = IS_SENT"
  proof -
    have l: "stream_loop E i threadId k t1 w1 = (ok, t', w')" using that Suc.prems(8) s by auto
    have none: "sc_reservedSendPacketInfo (get_send i w1) = None" using that S(4) by auto
    from Suc.IH [OF S(1) Suc.prems(2,3) S(2) none _ _ l] q q1 Suc.prems(6) sendable1 cong
    show ?thesis by simp
  qed
  consider "info_key info \<in> sc_cachedSequenceSet (get_send i w)"
    | "info_key info \<notin> sc_cachedSequenceSet (get_send i w)" "t + length (info_bytes E info) > MAX_SEND_BUFFER_SIZE"
    | "info_key info \<notin> sc_cachedSequenceSet (get_send i w)" "\<not> t + length (info_bytes E info) > MAX_SEND_BUFFER_SIZE"
    by blast
  then show ?case
  proof cases
    case 1
    with C step info q show ?thesis by simp
  next
    case 2
    with C have "r = STREAM_IS_FULL" "t1 = t" by simp_all
    with 2 C Suc.prems(8) s info q show ?thesis by simp
  next
    case 3
    with C have c: "r = STREAM_SUCCESS" "t1 = t + length (info_bytes E info)"
      "take t1 (sc_rioSendBuffer (get_send i w1)) = take t (sc_rioSendBuffer (get_send i w)) @ info_bytes E info"
      "sc_cachedSequenceSet (get_send i w1) = insert (info_key info) (sc_cachedSequenceSet (get_send i w))"
      by (auto simp del: take_append)
    have "ok \<and> take t' (sc_rioSendBuffer (get_send i w')) =
        (take t (sc_rioSendBuffer (get_send i w)) @ info_bytes E info) @
        pack_stream E (spi_mem (w_store w)) (sc_cachedSequenceSet (get_send i w1)) t1 q"
      using step c(1) unfolding c(3) by simp
    with 3 c(2,4) info q show ?thesis by simp
  qed
qed simp

lemma Reserved_content:
  assumes "world_ok n m L w" "i < n" "unat threadId < m"
    and "sc_reservedSendPacketInfo (get_send i w) = Some a"
    and "spi_mem (w_store w) a = Some info" "sendable E info"
    and "IOHandler_ReservedSendPacketInfoToStream E i 0 threadId w = (r, t', w')"
  shows "view_kept (w_store w) (w_store w') \<and> r = STREAM_SUCCESS \<and> t' = length (info_bytes E info) \<and>
    take t' (sc_rioSendBuffer (get_send i w')) = info_bytes E info \<and>
    sc_cachedSequenceSet (get_send i w') = insert (info_key info) (sc_cachedSequenceSet (get_send i w))"
proof -
  let ?sc = "(get_send i w)\<lparr> sc_reservedSendPacketInfo := None \<rparr>"
  let ?w1 = "set_send i ?sc w"
  have len: "i < length (w_sessions w)" using world_okD(1) [OF assms(1)] assms(2) by simp
  have take: "SendContext_TakeReservedSendPacketInfo (get_send i w) = (Some a, ?sc)"
    using assms(4) by (simp add: SendContext_TakeReservedSendPacketInfo_def)
  note w1 = world_ok_take_reserved [OF assms(1,2) take]
  obtain b where b: "spi_buffer info = Some b" "info_bytes E info = packet_bytes E b"
    "length (packet_bytes E b) = nb_GetAllUseSize (env_api E) b" "0 < nb_GetAllUseSize (env_api E) b"
    "nb_GetAllUseSize (env_api E) b < MAX_SEND_BUFFER_SIZE" "\<not> spi_isErasedPacketInfo info"
    using assms(6) by (rule sendable_bytes)
  have g: "spi_get a (w_store ?w1) = Some info" using assms(5) by (simp add: spi_get_def)
  obtain ok w2 where ref: "IOHandler_RefreshRetransmissionSendPacketInfo E a threadId ?w1 = (ok, w2)"
    by (cases "IOHandler_RefreshRetransmissionSendPacketInfo E a threadId ?w1")
  note R = Refresh_spec [OF w1 _ assms(3) ref]
  have ok: "ok" using R(4) [of info] assms(5) b(6) by simp
  have send2: "get_send i w2 = ?sc" "i < length (w_sessions w2)"
    using R(2) len by (simp_all add: get_send_def get_session_def set_send_def upd_session_def)
  have kept: "view_kept (w_store w) (w_store w2)" using view_kept_Refresh [OF ref] by simp
  have buf: "length (sc_rioSendBuffer (get_send i w)) = MAX_SEND_BUFFER_SIZE"
    using world_okD(6) [OF assms(1,2)] by (simp add: session_wf_def get_send_def)
  let ?sc3 = "insert_key (info_key info) (stream_write 0 (packet_bytes E b) (get_send i w2))"
  have "r = STREAM_SUCCESS" "t' = length (packet_bytes E b)"
    "w' = upd_store (SendPacketInfo_Free a) (set_send i ?sc3 w2)"
    using assms(7) [unfolded IOHandler_ReservedSendPacketInfoToStream_def take prod.case option.case Let_def g b(1)]
      b ref ok by simp_all
  moreover have "take (0 + length (packet_bytes E b)) (patch 0 (packet_bytes E b) (sc_rioSendBuffer (get_send i w)))
      = take 0 (sc_rioSendBuffer (get_send i w)) @ packet_bytes E b"
    by (rule patch_take) (use b buf in simp)
  ultimately show ?thesis
    using b send2 view_kept_trans [OF kept view_kept_Free] by (simp add: stream_write_def insert_key_def)
qed

text \<open>The packets a stream is made of: the reserved one, then the queue.\<close>

definition to_send :: "SendContext \<Rightarrow> nat list" where
  "to_send sc = (case sc_reservedSendPacketInfo sc of None \<Rightarrow> [] | Some a \<Rightarrow> [a]) @ sc_sendPacketInfoQueue sc"

lemma to_send_allocated:
  assumes "world_ok n m L w" "i < n" "a \<in> set (to_send (get_send i w))"
  shows "spi_mem (w_store w) a \<noteq> None"
proof -
  have "a \<in># holders w"
    using assms holders_split [of i w] world_okD(1) [OF assms(1)]
    by (auto simp: sc_holders_def to_send_def split: option.splits)
  then show ?thesis using refs_ok_alloc [OF world_okD(4) [OF assms(1)], of a] by auto
qed

lemma MakeSendStream_content:
  assumes "world_ok n m L w" "i < n" "unat threadId < m"
    and "\<forall>a \<in> set (to_send (get_send i w)). \<exists>info. spi_mem (w_store w) a = Some info \<and> sendable E info"
    and "IOHandler_MakeSendStream E i threadId w = (ok, t', w')"
  shows "ok \<and> take t' (sc_rioSendBuffer (get_send i w'))
           = pack_stream E (spi_mem (w_store w)) {} 0 (to_send (get_send i w))"
proof -
  let ?w1 = "set_send i ((get_send i w)\<lparr> sc_cachedSequenceSet := {} \<rparr>) w"
  let ?q = "sc_sendPacketInfoQueue (get_send i w)"
  have len: "i < length (w_sessions w)" using world_okD(1) [OF assms(1)] assms(2) by simp
  note W1 = world_ok_send_fields(1) [OF assms(1,2), of "{}"]
  obtain r t2 w2 where s: "IOHandler_ReservedSendPacketInfoToStream E i 0 threadId ?w1 = (r, t2, w2)"
    by (cases "IOHandler_ReservedSendPacketInfoToStream E i 0 threadId ?w1")
  note R = Reserved_ok [OF W1 assms(2,3) s]
  have q2: "sc_sendPacketInfoQueue (get_send i w2) = ?q" using R(5) len by simp
  have loop: "stream_loop E i threadId (length ?q) t2 w2 = (ok, t', w')" if "r \<noteq> OCCURED_ERROR"
    using assms(5) s that len
    by (cases r) (simp_all add: IOHandler_MakeSendStream_def Let_def SendContext_GetSendPacketInfoQueueSize_def)
  have alloc: "\<forall>a \<in> set ?q. spi_mem (w_store w2) a \<noteq> None"
    using queue_allocated [OF R(1) assms(2)] q2 by auto
  have sendable2: "\<forall>a \<in> set ?q. \<exists>info. spi_mem (w_store w2) a = Some info \<and> sendable E info"
    if kept: "view_kept (w_store w) (w_store w2)"
  proof
    fix c assume c: "c \<in> set ?q"
    then obtain j' where j': "spi_mem (w_store w2) c = Some j'" using alloc by auto
    then obtain j where "spi_mem (w_store w) c = Some j" "spi_view j' = spi_view j"
      using view_keptD [OF kept] by blast
    moreover have "\<exists>info. spi_mem (w_store w) c = Some info \<and> sendable E info"
      using assms(4) c by (simp add: to_send_def)
    ultimately show "\<exists>info. spi_mem (w_store w2) c = Some info \<and> sendable E info"
      using j' spi_view_same by auto
  qed
  have content: "ok \<and> take t' (sc_rioSendBuffer (get_send i w')) = take t2 (sc_rioSendBuffer (get_send i w2)) @
      pack_stream E (spi_mem (w_store w)) (sc_cachedSequenceSet (get_send i w2)) t2 ?q"
    if "r \<noteq> OCCURED_ERROR" "view_kept (w_store w) (w_store w2)"
    using stream_loop_content [OF R(1) assms(2,3) R(2,4) _ _ loop [OF that(1)]] q2 sendable2 [OF that(2)]
      pack_stream_cong [OF that(2) alloc] by simp
  show ?thesis
  proof (cases "sc_reservedSendPacketInfo (get_send i w)")
    case None
    then have "r = STREAM_SUCCESS" "t2 = 0" "w2 = ?w1"
      using s len by (simp_all add: IOHandler_ReservedSendPacketInfoToStream_def SendContext_TakeReservedSendPacketInfo_def)
    with content None len show ?thesis by (simp add: to_send_def)
  next
    case (Some a)
    obtain info where info: "spi_mem (w_store w) a = Some info" "sendable E info"
      using assms(4) Some by (auto simp: to_send_def)
    have "spi_mem (w_store ?w1) a = Some info" "sc_reservedSendPacketInfo (get_send i ?w1) = Some a"
      using info Some len by simp_all
    note C = Reserved_content [OF W1 assms(2,3) this(2,1) info(2) s]
    have "length (info_bytes E info) \<le> MAX_SEND_BUFFER_SIZE"
      using info(2) by (auto elim!: sendable_bytes)
    moreover have "r = STREAM_SUCCESS" "t2 = length (info_bytes E info)"
      "take (length (info_bytes E info)) (sc_rioSendBuffer (get_send i w2)) = info_bytes E info"
      "view_kept (w_store w) (w_store w2)" "sc_cachedSequenceSet (get_send i w2) = {info_key info}"
      using C len by auto
    ultimately show ?thesis using content Some info by (simp add: to_send_def)
  qed
qed

section \<open>The properties\<close>

text \<open>C1: A run of DoSend keeps the state of the server consistent: every descriptor is
  referenced exactly as often as it is counted, none is used after it was returned to the
  pool, and the loop ends. It posts nothing, or exactly one datagram of at most 32768
  bytes, and only if no other send of the session was under way.\<close>

theorem DoSend_safe:
  assumes "world_ok n m L w" "i < n" "unat threadId < m"
  shows "world_ok n m L (snd (IOHandler_DoSend E i threadId w)) \<and>
    (snd (IOHandler_DoSend E i threadId w) = w \<or> sent_at_most_one i w (snd (IOHandler_DoSend E i threadId w)))"
  using DoSend_ok [OF assms, of E "fst (IOHandler_DoSend E i threadId w)"] by simp

theorem DoSend_safe_witness:
  "world_ok 1 1 {#} (snd (IOHandler_DoSend sample_env 0 0 (sample_world [sample_info 1, sample_info 2])))"
  by (rule conjunct1 [OF DoSend_safe])
     (auto intro!: sample_world_ok simp: sample_info_wf)

text \<open>C9: When every packet that waits has a buffer of more than 0 and less than 32768 bytes and none of them has been
  acknowledged yet, a stream is exactly the bytes of these packets, the reserved one first and then the queue in order, each packet
  once, as many as fit into 32768 bytes. (A packet that is acknowledged while it waits leaves bytes of an earlier datagram in
  the stream: \<open>erased_packet_leaves_hole\<close>.)\<close>

theorem make_send_stream_content:
  assumes "world_ok n m L w" "i < n" "unat threadId < m"
    and "\<forall>a \<in> set (to_send (get_send i w)). \<exists>info. spi_mem (w_store w) a = Some info \<and> sendable E info"
    and "IOHandler_MakeSendStream E i threadId w = (ok, t, w')"
  shows "ok \<and> take t (sc_rioSendBuffer (get_send i w'))
           = pack_stream E (spi_mem (w_store w)) {} 0 (to_send (get_send i w))"
  by (rule MakeSendStream_content [OF assms])

theorem make_send_stream_content_witness:
  "\<exists>t w'. IOHandler_MakeSendStream sample_env 0 0 (sample_world [sample_info 1, sample_info 2, sample_info 1])
      = (True, t, w') \<and> take t (sc_rioSendBuffer (get_send 0 w')) = replicate 34 7"
proof -
  let ?w = "sample_world [sample_info 1, sample_info 2, sample_info 1]"
  obtain ok t w' where r: "IOHandler_MakeSendStream sample_env 0 0 ?w = (ok, t, w')"
    by (cases "IOHandler_MakeSendStream sample_env 0 0 ?w")
  have ok: "world_ok 1 1 {#} ?w" by (rule sample_world_ok(1)) (auto simp: sample_info_wf)
  have q: "to_send (get_send 0 ?w) = [0, 1, 2]"
    by (simp add: to_send_def get_send_def get_session_def sample_world_def sample_session_def
        SendContext_new_def upt_rec)
  have s: "sendable sample_env (sample_info q)" for q
    by (simp add: sendable_def sample_info_def SendPacketInfo_Initialize_def sample_env_def documented_api_def)
  have b: "info_bytes sample_env (sample_info q) = replicate 17 7" for q
    by (simp add: info_bytes_def packet_bytes_def sample_info_def SendPacketInfo_Initialize_def
        sample_env_def documented_api_def)
  have k: "info_key (sample_info q) = PacketSequenceSetKey False q" for q
    by (simp add: info_key_def sample_info_def SendPacketInfo_Initialize_def)
  have m: "spi_mem (w_store ?w) 0 = Some (sample_info 1)" "spi_mem (w_store ?w) 1 = Some (sample_info 2)"
    "spi_mem (w_store ?w) 2 = Some (sample_info 1)" "spi_mem (w_store ?w) (Suc 0) = Some (sample_info 2)"
    by (simp_all add: sample_world_def)
  have "pack_stream sample_env (spi_mem (w_store ?w)) {} 0 [0, 1, 2] = replicate 17 7 @ replicate 17 7"
    using m by (simp add: b k)
  then have "pack_stream sample_env (spi_mem (w_store ?w)) {} 0 [0, 1, 2] = replicate 34 7"
    by (simp add: replicate_add [symmetric])
  with make_send_stream_content [OF ok _ _ _ r] q r s m show ?thesis by auto
qed

text \<open>A packet that was acknowledged while it waited in the queue leaves a hole in the
  stream: its size is counted but its bytes are not written, so the bytes an earlier
  datagram left in the send buffer are sent in its place.\<close>

theorem erased_packet_leaves_hole:
  assumes "world_ok n m L w" "i < n" "unat threadId < m" "sc_sendPacketInfoQueue (get_send i w) = a # q"
    and "spi_mem (w_store w) a = Some info" "spi_buffer info = Some b" "spi_isErasedPacketInfo info"
    and "info_key info \<notin> sc_cachedSequenceSet (get_send i w)"
    and "0 < nb_GetAllUseSize (env_api E) b" "t + nb_GetAllUseSize (env_api E) b \<le> MAX_SEND_BUFFER_SIZE"
  shows "\<exists>w'. IOHandler_StoredSendPacketInfoToStream E i t threadId w
                = (IS_ERASED_PACKET, t + nb_GetAllUseSize (env_api E) b, w') \<and>
              sc_rioSendBuffer (get_send i w') = sc_rioSendBuffer (get_send i w)"
  using assms world_okD(1) [OF assms(1)]
  by (simp add: IOHandler_StoredSendPacketInfoToStream_def SendContext_TryGetFrontAndPop_def Let_def
      spi_get_def IOHandler_RefreshRetransmissionSendPacketInfo_def)

theorem erased_packet_leaves_hole_witness:
  "\<exists>w'. IOHandler_StoredSendPacketInfoToStream sample_env 0 0 0
      (sample_world [(sample_info 1)\<lparr> spi_isErasedPacketInfo := True \<rparr>]) = (IS_ERASED_PACKET, 17, w') \<and>
    sc_rioSendBuffer (get_send 0 w') = replicate 32768 0"
proof -
  let ?info = "(sample_info 1)\<lparr> spi_isErasedPacketInfo := True \<rparr>"
  let ?w = "sample_world [?info]"
  have ok: "world_ok 1 1 {#} ?w"
    by (rule sample_world_ok(1)) (auto simp: sample_info_def SendPacketInfo_Initialize_def info_wf_def)
  have send: "get_send 0 ?w = SendContext_new\<lparr> sc_sendPacketInfoQueue := [0] \<rparr>"
    by (simp add: get_send_def get_session_def sample_world_def sample_session_def)
  obtain b where b: "spi_buffer ?info = Some b" "nb_GetAllUseSize (env_api sample_env) b = 17"
    by (simp add: sample_info_def SendPacketInfo_Initialize_def sample_env_def documented_api_def)
  have m: "spi_mem (w_store ?w) 0 = Some ?info" by (simp add: sample_world_def)
  have "\<exists>w'. IOHandler_StoredSendPacketInfoToStream sample_env 0 0 0 ?w
                = (IS_ERASED_PACKET, 0 + nb_GetAllUseSize (env_api sample_env) b, w') \<and>
              sc_rioSendBuffer (get_send 0 w') = sc_rioSendBuffer (get_send 0 ?w)"
    by (rule erased_packet_leaves_hole [OF ok _ _ _ m b(1), of 0 0 "[]"])
       (simp_all add: send SendContext_new_def b(2))
  then show ?thesis unfolding b(2) by (simp add: send SendContext_new_def)
qed

end
