(* ===== verification/Session_Send.thy ===== *)
theory Session_Send
  imports Io_Handler
begin

text \<open>
  The send side of MultiSocketRUDPServer/RUDPSession and of MultiSocketRUDPCore: packets
  of the content, replies and heartbeats are given a descriptor, encrypted and queued, or
  wait in the ring buffer until the congestion window opens; an acknowledgement frees the
  descriptor, feeds the estimators and flushes what waits.

  A packet of the content is its identifier and its \<open>PacketToBuffer\<close>. A buffer is a value:
  giving it back to its pool is dropping it. Where \<open>EncodePacket\<close> would run out of the
  buffer, \<open>w_bufferOverrun\<close> is set.
\<close>

section \<open>MultiSocketRUDPCore\<close>

definition Core_SendPacket :: "'k Env \<Rightarrow> nat \<Rightarrow> 'k World \<Rightarrow> bool \<times> 'k World" where
  "Core_SendPacket E a w =
     (case spi_get a (w_store w) of
        None \<Rightarrow> (False, fault w)
      | Some info \<Rightarrow>
          (case (spi_owner info, spi_buffer info) of
             (Some owner, Some b) \<Rightarrow>
               if \<not> SendPacketInfo_IsOwnerValid w info then (False, w)
               else if s_nowInReleaseThread (get_session owner w) then (False, w)
               else let b1 = b\<lparr> m_iWriteLast := m_iWrite b, m_iWrite := 0, m_iRead := 0 \<rparr>;
                        w1 = (if spi_retransmissionCount info = 0
                              then upd_store (spi_update a (\<lambda>i. i\<lparr> spi_buffer := Some b1 \<rparr>)) w else w);
                        w2 = upd_store (SendPacketInfo_AddRefCount a) w1;
                        w3 = set_send owner (SendContext_PushSendPacketInfo a (get_send owner w2)) w2
                    in IOHandler_DoSend E owner (s_threadId (get_session owner w3)) w3
           | _ \<Rightarrow> (False, w)))"

text \<open>The descriptor is marked under the lock of its scheduler, if the thread has one; the
  mark is the same either way.\<close>

definition Core_MarkSendPacketInfoErased :: "nat \<Rightarrow> 'k World \<Rightarrow> 'k World" where
  "Core_MarkSendPacketInfoErased a w =
     (case spi_get a (w_store w) of
        None \<Rightarrow> fault w
      | Some info \<Rightarrow>
          if spi_isErasedPacketInfo info then w
          else upd_store (spi_update a (\<lambda>i. i\<lparr> spi_isErasedPacketInfo := True \<rparr>)) w)"

section \<open>RUDPSession: sending\<close>

definition insert_info :: "nat \<Rightarrow> PacketSequence \<Rightarrow> nat \<Rightarrow> 'k World \<Rightarrow> 'k World" where
  "insert_info i q a w =
     (let (sc, st) = SendContext_InsertSendPacketInfo q a (get_send i w) (w_store w)
      in (set_send i sc w)\<lparr> w_store := st \<rparr>)"

definition erase_info :: "nat \<Rightarrow> PacketSequence \<Rightarrow> 'k World \<Rightarrow> 'k World" where
  "erase_info i q w =
     (let (sc, st) = SendContext_EraseSendPacketInfo q (get_send i w) (w_store w)
      in (set_send i sc w)\<lparr> w_store := st \<rparr>)"

text \<open>\<open>EncodePacket\<close> on the buffer of a descriptor, with the keys of the session.\<close>

definition encode_info ::
    "'k Env \<Rightarrow> nat \<Rightarrow> nat \<Rightarrow> NetBuffer \<Rightarrow> PacketSequence \<Rightarrow> bool \<Rightarrow> bool \<Rightarrow> 'k World \<Rightarrow> 'k World" where
  "encode_info E i a buffer q isReplyType isCorePacket w =
     (let direction = (if isReplyType then SERVER_TO_CLIENT_REPLY else SERVER_TO_CLIENT);
          crypto = s_cryptoContext (get_session i w)
      in case EncodePacket (env_api E) (env_bcrypt E) q direction (Some (sessionSalt crypto))
                (sessionKeyHandle crypto) isCorePacket buffer of
           None \<Rightarrow> w\<lparr> w_bufferOverrun := True \<rparr>
         | Some encoded \<Rightarrow> upd_store (spi_update a (\<lambda>i. i\<lparr> spi_buffer := Some encoded \<rparr>)) w)"

definition Session_SendPacketImmediate ::
    "'k Env \<Rightarrow> nat \<Rightarrow> NetBuffer \<Rightarrow> PacketSequence \<Rightarrow> bool \<Rightarrow> bool \<Rightarrow> 'k World \<Rightarrow> bool \<times> 'k World" where
  "Session_SendPacketImmediate E i buffer inSendPacketSequence isReplyType isCorePacket w =
     (case env_spiAlloc E (w_store w) of
        None \<Rightarrow> (False, w)
      | Some a \<Rightarrow>
          let w1 = upd_store (spi_new a (SendPacketInfo_Initialize i
                     (s_sessionGeneration (get_session i w)) buffer inSendPacketSequence isReplyType)) w;
              w2 = (if \<not> isReplyType then insert_info i inSendPacketSequence a w1 else w1);
              w3 = (if \<not> m_bIsEncoded buffer
                    then encode_info E i a buffer inSendPacketSequence isReplyType isCorePacket w2 else w2);
              (sent, w4) = Core_SendPacket E a w3
          in if \<not> sent then
               (if \<not> isReplyType then
                  (False, upd_store (SendPacketInfo_Free a)
                            (erase_info i inSendPacketSequence (Core_MarkSendPacketInfoErased a w4)))
                else
                  (False, upd_store (SendPacketInfo_Free a)
                            (upd_store (spi_update a (\<lambda>i. i\<lparr> spi_isErasedPacketInfo := True \<rparr>)) w4)))
             else (True, upd_store (SendPacketInfo_Free a) w4))"

text \<open>The overload of \<open>SendPacket\<close> on a buffer: what the window holds back, or what comes
  after something it held back, waits in the ring buffer.\<close>

definition Session_SendPacket_buffer ::
    "'k Env \<Rightarrow> nat \<Rightarrow> NetBuffer \<Rightarrow> PacketSequence \<Rightarrow> bool \<Rightarrow> bool \<Rightarrow> 'k World \<Rightarrow> bool \<times> 'k World" where
  "Session_SendPacket_buffer E i buffer inSendPacketSequence isReplyType isCorePacket w =
     (if \<not> isReplyType \<and>
         (\<not> SendContext_IsPendingQueueEmpty (get_send i w) \<or>
          \<not> FlowManager_CanSend inSendPacketSequence (s_flowManager (get_session i w))) then
        (let (ok, sc) = SendContext_PushToPendingQueue inSendPacketSequence buffer (get_send i w)
         in if \<not> ok then (False, w) else (True, set_send i sc w))
      else Session_SendPacketImmediate E i buffer inSendPacketSequence isReplyType isCorePacket w)"

definition next_sequence :: "nat \<Rightarrow> 'k World \<Rightarrow> PacketSequence \<times> 'k World" where
  "next_sequence i w =
     (let (q, sc) = SendContext_IncrementLastSendPacketSequence (get_send i w) in (q, set_send i sc w))"

definition Session_SendPacket ::
    "'k Env \<Rightarrow> nat \<Rightarrow> PacketId \<Rightarrow> (NetBuffer \<Rightarrow> NetBuffer) \<Rightarrow> 'k World \<Rightarrow> bool \<times> 'k World" where
  "Session_SendPacket E i packetId PacketToBuffer w =
     (if \<not> Session_IsConnected (get_session i w) then (False, w)
      else let (allocated, w1) = ask (env_netBufferAlloc E) w in
        if \<not> allocated then (False, Session_DoDisconnect E BY_ERROR i w1)
        else let (packetSequence, w2) = next_sequence i w1;
                 api = env_api E;
                 buffer = PacketToBuffer (nb_write api (le_bytes 4 packetId)
                            (nb_write api (le_bytes 8 packetSequence)
                              (nb_write api [PACKET_TYPE_byte SEND_TYPE] (nb_Alloc api))));
                 (ok, w3) = Session_SendPacket_buffer E i buffer packetSequence False False w2
             in if \<not> ok then (False, Session_DoDisconnect E BY_ERROR i w3) else (True, w3))"

text \<open>The first loop of \<open>TryFlushPendingQueue\<close>: what the window lets through leaves the ring.\<close>

function take_sendable ::
    "FlowManager \<Rightarrow> SendContext \<Rightarrow> (PacketSequence \<times> NetBuffer) list \<times> SendContext" where
  "take_sendable fm sc =
     (if SendContext_IsPendingQueueEmpty sc then ([], sc)
      else if \<not> FlowManager_CanSend (fst (SendContext_PendingQueueFront sc)) fm then ([], sc)
      else case SendContext_PopFromPendingQueue sc of
             (None, sc1) \<Rightarrow> ([], sc1)
           | (Some item, sc1) \<Rightarrow> let (items, sc2) = take_sendable fm sc1 in (item # items, sc2))"
  by pat_completeness auto

termination
  by (relation "measure (\<lambda>(fm, sc). unat (rb_count (sc_pendingPacketQueue sc)))")
     (auto simp: SendContext_PopFromPendingQueue_def split: prod.splits dest!: RingBuffer_Pop_count)

declare take_sendable.simps [simp del]

text \<open>The second loop: the first packet that cannot be sent ends the session, and the rest
  are given back.\<close>

fun flush_loop :: "'k Env \<Rightarrow> nat \<Rightarrow> (PacketSequence \<times> NetBuffer) list \<Rightarrow> 'k World \<Rightarrow> 'k World" where
  "flush_loop E i [] w = w"
| "flush_loop E i ((packetSequence, buffer) # rest) w =
     (let (ok, w1) = Session_SendPacketImmediate E i buffer packetSequence False False w
      in if \<not> ok then Session_DoDisconnect E BY_ERROR i w1 else flush_loop E i rest w1)"

definition Session_TryFlushPendingQueue :: "'k Env \<Rightarrow> nat \<Rightarrow> 'k World \<Rightarrow> 'k World" where
  "Session_TryFlushPendingQueue E i w =
     (let (sendBuffers, sc) = take_sendable (s_flowManager (get_session i w)) (get_send i w)
      in flush_loop E i sendBuffers (set_send i sc w))"

definition Session_NeedToSendHeartbeat :: "'k Env \<Rightarrow> 64 word \<Rightarrow> 'k Session \<Rightarrow> bool" where
  "Session_NeedToSendHeartbeat E now s \<longleftrightarrow>
     \<not> (s_nowInReleaseThread s \<or> \<not> Session_IsConnected s) \<and>
     now - s_lastReceivedPacketTime s \<ge> ucast (env_heartbeatThreadSleepMs E)"

definition heartbeat_buffer :: "NetBufferApi \<Rightarrow> PacketSequence \<Rightarrow> NetBuffer" where
  "heartbeat_buffer api packetSequence =
     nb_write api (le_bytes 8 packetSequence) (nb_write api [PACKET_TYPE_byte HEARTBEAT_TYPE] (nb_Alloc api))"

definition Session_SendHeartbeatPacket :: "'k Env \<Rightarrow> 64 word \<Rightarrow> nat \<Rightarrow> 'k World \<Rightarrow> 'k World" where
  "Session_SendHeartbeatPacket E now i w =
     (if \<not> Session_NeedToSendHeartbeat E now (get_session i w) then w
      else if \<not> FlowManager_CanSend (sc_lastSendPacketSequence (get_send i w) + 1)
                  (s_flowManager (get_session i w)) then w
      else let (allocated, w1) = ask (env_netBufferAlloc E) w in
        if \<not> allocated then Session_DoDisconnect E BY_ERROR i w1
        else let (packetSequence, w2) = next_sequence i w1;
                 buffer = heartbeat_buffer (env_api E) packetSequence;
                 (ok, w3) = Session_SendPacket_buffer E i buffer packetSequence False True w2
             in if \<not> ok then Session_DoDisconnect E BY_ERROR i w3 else w3)"

definition Session_RefreshLastReceivedPacketTime :: "64 word \<Rightarrow> nat \<Rightarrow> 'k World \<Rightarrow> 'k World" where
  "Session_RefreshLastReceivedPacketTime now i w =
     upd_session i (\<lambda>s. s\<lparr> s_lastReceivedPacketTime := now \<rparr>) w"

abbreviation (input) reservedSessionTimeoutMs :: "64 word" where
  "reservedSessionTimeoutMs \<equiv> 30000"

definition Session_CheckReservedSessionTimeout :: "64 word \<Rightarrow> 'k Session \<Rightarrow> bool" where
  "Session_CheckReservedSessionTimeout now s \<longleftrightarrow>
     StateMachine_IsReserved (s_stateMachine s) \<and>
     now - s_sessionReservedTime s \<ge> reservedSessionTimeoutMs"

definition Session_SendReplyToClient :: "'k Env \<Rightarrow> PacketSequence \<Rightarrow> nat \<Rightarrow> 'k World \<Rightarrow> 'k World" where
  "Session_SendReplyToClient E recvPacketSequence i w =
     (let (allocated, w1) = ask (env_netBufferAlloc E) w in
      if \<not> allocated then Session_DoDisconnect E BY_ERROR i w1
      else let advertiseWindow = FlowManager_GetAdvertisableWindow (s_flowManager (get_session i w1));
               api = env_api E;
               buffer = nb_write api [advertiseWindow] (nb_write api (le_bytes 8 recvPacketSequence)
                          (nb_write api [PACKET_TYPE_byte SEND_REPLY_TYPE] (nb_Alloc api)));
               (ok, w2) = Session_SendPacket_buffer E i buffer recvPacketSequence True True w1
           in if \<not> ok then Session_DoDisconnect E BY_ERROR i w2 else w2)"

section \<open>RUDPSession: acknowledgements and timeouts\<close>

definition Session_OnRttSample :: "int \<Rightarrow> nat \<Rightarrow> 'k World \<Rightarrow> 'k World" where
  "Session_OnRttSample sample i w =
     upd_session i (\<lambda>s. s\<lparr> s_retransmissionTimeoutEstimator :=
       Rto_OnRttSample (word_of_int sample) (s_retransmissionTimeoutEstimator s) \<rparr>) w"

definition Session_OnRetransmissionTimeout :: "'k Env \<Rightarrow> nat \<Rightarrow> 'k World \<Rightarrow> 'k World" where
  "Session_OnRetransmissionTimeout E i w =
     (let (now, w1) = ask (env_steadyNow E) w;
          (applied, e) = Rto_OnTimeout (word_of_int now) (s_retransmissionTimeoutEstimator (get_session i w1));
          w2 = upd_session i (\<lambda>s. s\<lparr> s_retransmissionTimeoutEstimator := e \<rparr>) w1
      in if applied then upd_session i (\<lambda>s. s\<lparr> s_flowManager := FlowManager_OnTimeout (s_flowManager s) \<rparr>) w2
         else w2)"

definition Session_OnSendReply :: "'k Env \<Rightarrow> NetBuffer \<Rightarrow> nat \<Rightarrow> 'k World \<Rightarrow> 'k World" where
  "Session_OnSendReply E recvPacket i w =
     (let packetSequence = le_word (fst (nb_read (env_api E) 8 recvPacket)) in
      if sc_lastSendPacketSequence (get_send i w) < packetSequence then w
      else case SendContext_FindAndEraseSendPacketInfo packetSequence (get_send i w) of
             (None, sc) \<Rightarrow> w
           | (Some a, sc) \<Rightarrow>
               let w1 = set_send i sc w;
                   w2 = upd_session i (\<lambda>s. s\<lparr> s_flowManager := FlowManager_OnAckReceived packetSequence
                          (s_flowManager s) \<rparr>) w1;
                   w3 = Core_MarkSendPacketInfoErased a w2;
                   (now, w4) = ask (env_steadyNow E) w3;
                   w5 = (case spi_get a (w_store w4) of
                           None \<Rightarrow> fault w4
                         | Some info \<Rightarrow>
                             (case SendPacketInfo_TryGetRttSample now info of
                                None \<Rightarrow> w4 | Some rttSample \<Rightarrow> Session_OnRttSample rttSample i w4));
                   w6 = upd_store (SendPacketInfo_Free a) w5
               in Session_TryFlushPendingQueue E i w6)"

section \<open>The counts stay exact\<close>

definition spi_alloc_law :: "'k Env \<Rightarrow> bool" where
  "spi_alloc_law E \<longleftrightarrow> (\<forall>st a. env_spiAlloc E st = Some a \<longrightarrow> spi_mem st a = None)"

lemma sample_env_alloc: "spi_alloc_law sample_env"
  by (simp add: spi_alloc_law_def sample_env_def)

lemma world_ok_len: "world_ok n m L w \<Longrightarrow> i < n \<Longrightarrow> i < length (w_sessions w)"
  by (simp add: world_ok_def)

lemma world_ok_send_wf:
  assumes "world_ok n m L w" "i < n"
  shows "sc_wf (get_send i w)" "unat (s_threadId (get_session i w)) < m"
    "length (sc_rioSendBuffer (get_send i w)) = MAX_SEND_BUFFER_SIZE"
  using world_okD(6) [OF assms] by (simp_all add: session_wf_def get_send_def)

text \<open>An update of a send context together with the store.\<close>

lemma world_ok_send_store:
  assumes "world_ok n m L w" "i < n" "sc_wf sc"
    and "length (sc_rioSendBuffer sc) = length (sc_rioSendBuffer (get_send i w))"
    and "refs_ok (L' + (sc_holders sc + others i w)) st"
    and "\<And>a j. spi_mem st a = Some j \<Longrightarrow> info_wf n j"
  shows "world_ok n m L' ((set_send i sc w)\<lparr> w_store := st \<rparr>)"
proof -
  let ?w = "(set_send i sc w)\<lparr> w_store := st \<rparr>"
  have len: "i < length (w_sessions w)" by (rule world_ok_len [OF assms(1,2)])
  have "holders ?w = holders (set_send i sc w)" by (simp add: holders_def)
  also have "\<dots> = sc_holders sc + others i w"
    using holders_split [of i "set_send i sc w"] len by (simp add: set_send_def get_send_upd_session)
  finally have h: "holders ?w = sc_holders sc + others i w" .
  have "session_wf m ((get_session i w)\<lparr> s_sendContext := sc \<rparr>)"
    using assms(3,4) world_ok_send_wf [OF assms(1,2)] by (simp add: session_wf_def)
  moreover have "set (w_sessions ?w) \<subseteq> insert ((get_session i w)\<lparr> s_sendContext := sc \<rparr>) (set (w_sessions w))"
    by (simp add: set_send_def upd_session_def get_session_def set_update_subset_insert)
  ultimately show ?thesis
    using assms(1,5,6) unfolding world_ok_def h by (auto simp: set_send_def upd_session_def)
qed

lemma world_ok_insert_info:
  assumes "world_ok n m (add_mset a L) w" "i < n"
  shows "world_ok n m (add_mset a L) (insert_info i q a w)"
proof -
  let ?H = "L + others i w"
  have h: "holders w = sc_holders (get_send i w) + others i w"
    by (rule holders_split [OF world_ok_len [OF assms]])
  obtain sc st where s: "SendContext_InsertSendPacketInfo q a (get_send i w) (w_store w) = (sc, st)"
    by (cases "SendContext_InsertSendPacketInfo q a (get_send i w) (w_store w)")
  have "refs_ok (add_mset a (sc_holders (get_send i w) + ?H)) (w_store w)"
    using world_okD(4) [OF assms(1)] h by (simp add: add_ac)
  from refs_Insert [OF this world_ok_send_wf(1) [OF assms] s]
  have r: "refs_ok (add_mset a L + (sc_holders sc + others i w)) st" "sc_wf sc" by (simp_all add: add_ac)
  have "spi_mem st b = Some j \<Longrightarrow> info_wf n j" for b j
    using s world_okD(7) [OF assms(1)]
    by (auto simp: SendContext_InsertSendPacketInfo_def SendPacketInfo_AddRefCount_def spi_update_def
        info_wf_def split: if_splits option.splits)
  from world_ok_send_store [OF assms r(2) _ r(1) this] s show ?thesis
    by (auto simp: insert_info_def SendContext_InsertSendPacketInfo_def split: if_splits)
qed

lemma world_ok_erase_info:
  assumes "world_ok n m L w" "i < n"
  shows "world_ok n m L (erase_info i q w)"
proof -
  have h: "holders w = sc_holders (get_send i w) + others i w"
    by (rule holders_split [OF world_ok_len [OF assms]])
  obtain sc st where s: "SendContext_EraseSendPacketInfo q (get_send i w) (w_store w) = (sc, st)"
    by (cases "SendContext_EraseSendPacketInfo q (get_send i w) (w_store w)")
  have "refs_ok (sc_holders (get_send i w) + (L + others i w)) (w_store w)"
    using world_okD(4) [OF assms(1)] h by (simp add: add_ac)
  from refs_Erase [OF this world_ok_send_wf(1) [OF assms] s]
  have r: "refs_ok (L + (sc_holders sc + others i w)) st" "sc_wf sc" by (simp_all add: add_ac)
  have "spi_mem st b = Some j \<Longrightarrow> info_wf n j" for b j
    using s world_okD(7) [OF assms(1)] Free_infos [of "w_store w" n]
    by (auto simp: SendContext_EraseSendPacketInfo_def split: option.splits)
  from world_ok_send_store [OF assms r(2) _ r(1) this] s show ?thesis
    by (auto simp: erase_info_def SendContext_EraseSendPacketInfo_def split: option.splits)
qed

lemma world_ok_MarkErased:
  assumes "world_ok n m L w" "a \<in># L + holders w"
  shows "world_ok n m L (Core_MarkSendPacketInfoErased a w)"
proof -
  obtain info ow b where "spi_get a (w_store w) = Some info" "spi_owner info = Some ow" "spi_buffer info = Some b"
    by (rule world_ok_lookup [OF assms])
  moreover have "world_ok n m L (upd_store (spi_update a (\<lambda>i. i\<lparr> spi_isErasedPacketInfo := True \<rparr>)) w)"
    using assms by (intro world_ok_spi_update) (auto simp: info_wf_def)
  ultimately show ?thesis using assms(1) by (simp add: Core_MarkSendPacketInfoErased_def)
qed

lemma world_ok_set_buffer:
  assumes "world_ok n m L w" "a \<in># L + holders w"
  shows "world_ok n m L (upd_store (spi_update a (\<lambda>i. i\<lparr> spi_buffer := Some b \<rparr>)) w)"
  using assms by (intro world_ok_spi_update) (auto simp: info_wf_def)

lemma world_ok_encode_info:
  assumes "world_ok n m L w" "a \<in># L + holders w"
  shows "world_ok n m L (encode_info E i a b q r c w)"
  using world_ok_set_buffer [OF assms] world_ok_cong [OF assms(1), of "w\<lparr> w_bufferOverrun := True \<rparr>"]
  by (auto simp: encode_info_def Let_def split: option.splits)

lemma world_ok_push:
  assumes "world_ok n m (add_mset a L) w" "i < n"
  shows "world_ok n m L (set_send i (SendContext_PushSendPacketInfo a (get_send i w)) w)"
  using world_ok_send_wf [OF assms]
  by (intro world_ok_set_send [OF assms]) (simp_all add: SendContext_PushSendPacketInfo_def sc_wf_def sc_holders_def)

lemma world_ok_Core_SendPacket:
  assumes "world_ok n m L w" "a \<in># L"
  shows "world_ok n m L (snd (Core_SendPacket E a w))"
proof -
  obtain info ow b where i: "spi_get a (w_store w) = Some info" "spi_owner info = Some ow" "ow < n"
    "spi_buffer info = Some b"
    using assms(2) by (auto intro: world_ok_lookup [OF assms(1), of a])
  let ?b1 = "b\<lparr> m_iWriteLast := m_iWrite b, m_iWrite := 0, m_iRead := 0 \<rparr>"
  let ?w1 = "if spi_retransmissionCount info = 0
             then upd_store (spi_update a (\<lambda>i. i\<lparr> spi_buffer := Some ?b1 \<rparr>)) w else w"
  let ?w2 = "upd_store (SendPacketInfo_AddRefCount a) ?w1"
  let ?w3 = "set_send ow (SendContext_PushSendPacketInfo a (get_send ow ?w2)) ?w2"
  have "world_ok n m L ?w1" using assms world_ok_set_buffer [OF assms(1)] by simp
  then have "world_ok n m (add_mset a L) ?w2" by (rule world_ok_AddRefCount) (use assms(2) in simp)
  then have w3: "world_ok n m L ?w3" by (rule world_ok_push [OF _ i(3)])
  have "world_ok n m L (snd (IOHandler_DoSend E ow (s_threadId (get_session ow ?w3)) ?w3))"
    using DoSend_ok [OF w3 i(3) world_ok_send_wf(2) [OF w3 i(3)], of E] by (metis prod.collapse)
  with i assms(1) show ?thesis by (simp add: Core_SendPacket_def Let_def)
qed

lemma world_ok_SendPacketImmediate:
  assumes "world_ok n m L w" "i < n" "spi_alloc_law E"
  shows "world_ok n m L (snd (Session_SendPacketImmediate E i b q r c w))"
proof (cases "env_spiAlloc E (w_store w)")
  case (Some a)
  define w1 where "w1 = upd_store (spi_new a (SendPacketInfo_Initialize i
    (s_sessionGeneration (get_session i w)) b q r)) w"
  define w2 where "w2 = (if \<not> r then insert_info i q a w1 else w1)"
  define w3 where "w3 = (if \<not> m_bIsEncoded b then encode_info E i a b q r c w2 else w2)"
  have "spi_mem (w_store w) a = None" using assms(3) Some by (simp add: spi_alloc_law_def)
  then have "world_ok n m (add_mset a L) w1" unfolding w1_def
    by (rule world_ok_new [OF assms(1)]) (simp_all add: SendPacketInfo_Initialize_def info_wf_def assms(2))
  then have "world_ok n m (add_mset a L) w2"
    using world_ok_insert_info [OF _ assms(2), of m a L w1 q] by (simp add: w2_def)
  then have w3: "world_ok n m (add_mset a L) w3"
    using world_ok_encode_info [of n m "add_mset a L" w2 a E i b q r c] by (simp add: w3_def)
  obtain sent w4 where s: "Core_SendPacket E a w3 = (sent, w4)" by (cases "Core_SendPacket E a w3")
  have w4: "world_ok n m (add_mset a L) w4" using world_ok_Core_SendPacket [OF w3, of a E] s by simp
  have "world_ok n m (add_mset a L) (erase_info i q (Core_MarkSendPacketInfoErased a w4))"
    using w4 assms(2) by (intro world_ok_erase_info world_ok_MarkErased) simp_all
  moreover have "world_ok n m (add_mset a L) (upd_store (spi_update a (\<lambda>i. i\<lparr> spi_isErasedPacketInfo := True \<rparr>)) w4)"
    using w4 by (intro world_ok_spi_update) (auto simp: info_wf_def)
  ultimately show ?thesis
    using w4 unfolding Session_SendPacketImmediate_def Some option.case Let_def
      w1_def [symmetric] w2_def [symmetric] w3_def [symmetric] s
    by (simp add: world_ok_Free)
qed (use assms in \<open>simp add: Session_SendPacketImmediate_def\<close>)

lemma world_ok_pending:
  assumes "world_ok n m L w" "i < n" "ring_wf rb"
  shows "world_ok n m L (set_send i ((get_send i w)\<lparr> sc_pendingPacketQueue := rb \<rparr>) w)"
  using world_ok_send_wf [OF assms(1,2)] assms(3)
  by (intro world_ok_set_send [OF assms(1,2)]) (simp_all add: sc_wf_def sc_holders_def)

lemma world_ok_Immediate:
  assumes "Session_SendPacketImmediate E i b q r c w = (ok, w')" "world_ok n m L w" "i < n" "spi_alloc_law E"
  shows "world_ok n m L w'"
  using world_ok_SendPacketImmediate [OF assms(2-4), of b q r c] assms(1) by simp

lemma world_ok_SendPacket_buffer:
  assumes "Session_SendPacket_buffer E i b q r c w = (ok, w')" "world_ok n m L w" "i < n" "spi_alloc_law E"
  shows "world_ok n m L w'"
proof (cases "\<not> r \<and> (\<not> SendContext_IsPendingQueueEmpty (get_send i w) \<or>
          \<not> FlowManager_CanSend q (s_flowManager (get_session i w)))")
  case True
  obtain b1 rb where p: "RingBuffer_Push (q, b) (sc_pendingPacketQueue (get_send i w)) = (b1, rb)"
    by (cases "RingBuffer_Push (q, b) (sc_pendingPacketQueue (get_send i w))")
  have "ring_wf rb"
    using ring_push_wf [of "sc_pendingPacketQueue (get_send i w)" "(q, b)"] world_ok_send_wf(1) [OF assms(2,3)] p
    by (simp add: sc_wf_def)
  from world_ok_pending [OF assms(2,3) this] True p assms(1,2) show ?thesis
    by (auto simp: Session_SendPacket_buffer_def SendContext_PushToPendingQueue_def split: if_splits)
next
  case False
  then have "Session_SendPacketImmediate E i b q r c w = (ok, w')"
    using assms(1) by (auto simp: Session_SendPacket_buffer_def)
  then show ?thesis by (rule world_ok_Immediate [OF _ assms(2-4)])
qed

lemma world_ok_next_sequence:
  assumes "next_sequence i w = (q, w')" "world_ok n m L w" "i < n"
  shows "world_ok n m L w'"
proof -
  have "world_ok n m L (set_send i ((get_send i w)\<lparr> sc_lastSendPacketSequence := x \<rparr>) w)" for x
    using world_ok_send_wf [OF assms(2,3)]
    by (intro world_ok_set_send [OF assms(2,3)]) (simp_all add: sc_wf_def sc_holders_def)
  with assms(1) show ?thesis
    by (auto simp: next_sequence_def SendContext_IncrementLastSendPacketSequence_def Let_def)
qed

text \<open>The rules in the form the handlers use them: a call with its result, then the world
  it was made in.\<close>

lemma world_ok_asked: "ask f w = (x, w') \<Longrightarrow> world_ok n m L w \<Longrightarrow> world_ok n m L w'"
  by (rule world_ok_ask)

lemmas world_ok_calls = world_ok_asked world_ok_next_sequence world_ok_SendPacket_buffer
  world_ok_Immediate world_ok_DoDisconnect

lemma world_ok_SendPacket:
  assumes "Session_SendPacket E i packetId body w = (ok, w')" "world_ok n m L w" "i < n" "spi_alloc_law E"
  shows "world_ok n m L w'"
  using assms
  by (auto simp: Session_SendPacket_def Let_def split: prod.splits if_splits)
     (blast intro: world_ok_calls)+

lemma take_sendable_sc:
  "take_sendable fm sc = (items, sc') \<Longrightarrow> ring_wf (sc_pendingPacketQueue sc) \<Longrightarrow>
   \<exists>rb. sc' = sc\<lparr> sc_pendingPacketQueue := rb \<rparr> \<and> ring_wf rb"
proof (induction fm sc arbitrary: items sc' rule: take_sendable.induct)
  case (1 fm sc)
  show ?case
  proof (cases "SendContext_IsPendingQueueEmpty sc \<or> \<not> FlowManager_CanSend (fst (SendContext_PendingQueueFront sc)) fm")
    case True
    with 1(2,3) have "sc' = sc" by (subst (asm) take_sendable.simps) (auto split: if_splits)
    with 1(3) show ?thesis by (intro exI [of _ "sc_pendingPacketQueue sc"]) simp
  next
    case False
    obtain r rb where p: "RingBuffer_Pop (sc_pendingPacketQueue sc) = (r, rb)"
      by (cases "RingBuffer_Pop (sc_pendingPacketQueue sc)")
    let ?sc1 = "sc\<lparr> sc_pendingPacketQueue := rb \<rparr>"
    have pop: "SendContext_PopFromPendingQueue sc = (r, ?sc1)"
      using p by (simp add: SendContext_PopFromPendingQueue_def)
    have wf: "ring_wf rb" using ring_pop_wf [OF 1(3)] p by simp
    show ?thesis
    proof (cases r)
      case None
      with False pop 1(2) wf show ?thesis by (subst (asm) take_sendable.simps) (auto split: if_splits)
    next
      case (Some item)
      obtain items2 sc2 where t: "take_sendable fm ?sc1 = (items2, sc2)" by (cases "take_sendable fm ?sc1")
      have "\<exists>rb'. sc2 = ?sc1\<lparr> sc_pendingPacketQueue := rb' \<rparr> \<and> ring_wf rb'"
        by (rule 1(1) [OF _ _ pop [symmetric] Some t]) (use False wf in simp_all)
      with False pop Some t 1(2) show ?thesis by (subst (asm) take_sendable.simps) auto
    qed
  qed
qed

lemma world_ok_flush_loop:
  assumes "world_ok n m L w" "i < n" "spi_alloc_law E"
  shows "world_ok n m L (flush_loop E i items w)"
  using assms(1)
proof (induction items arbitrary: w)
  case (Cons item items)
  obtain q b where item: "item = (q, b)" by (cases item)
  obtain ok w1 where s: "Session_SendPacketImmediate E i b q False False w = (ok, w1)"
    by (cases "Session_SendPacketImmediate E i b q False False w")
  have w1: "world_ok n m L w1" by (rule world_ok_Immediate [OF s Cons.prems assms(2,3)])
  show ?case
    using Cons.IH [OF w1] world_ok_DoDisconnect [OF w1 assms(2)] s item by simp
qed simp

lemma world_ok_TryFlush:
  assumes "world_ok n m L w" "i < n" "spi_alloc_law E"
  shows "world_ok n m L (Session_TryFlushPendingQueue E i w)"
proof -
  obtain items sc where t: "take_sendable (s_flowManager (get_session i w)) (get_send i w) = (items, sc)"
    by (cases "take_sendable (s_flowManager (get_session i w)) (get_send i w)")
  obtain rb where "sc = (get_send i w)\<lparr> sc_pendingPacketQueue := rb \<rparr>" "ring_wf rb"
    using take_sendable_sc [OF t] world_ok_send_wf(1) [OF assms(1,2)] by (auto simp: sc_wf_def)
  with world_ok_flush_loop [OF world_ok_pending [OF assms(1,2)] assms(2,3)] t show ?thesis
    by (simp add: Session_TryFlushPendingQueue_def)
qed

lemma world_ok_SendHeartbeat:
  assumes "world_ok n m L w" "i < n" "spi_alloc_law E"
  shows "world_ok n m L (Session_SendHeartbeatPacket E now i w)"
  using assms
  by (auto simp: Session_SendHeartbeatPacket_def Let_def split: prod.splits)
     (blast intro: world_ok_calls)+

lemma world_ok_SendReply:
  assumes "world_ok n m L w" "i < n" "spi_alloc_law E"
  shows "world_ok n m L (Session_SendReplyToClient E q i w)"
  using assms by (auto simp: Session_SendReplyToClient_def Let_def split: prod.splits intro: world_ok_calls)

lemma world_ok_OnRttSample:
  "world_ok n m L w \<Longrightarrow> i < n \<Longrightarrow> world_ok n m L (Session_OnRttSample sample i w)"
  by (simp add: Session_OnRttSample_def world_ok_upd_session_frame)

lemma world_ok_OnRetransmissionTimeout:
  "world_ok n m L w \<Longrightarrow> i < n \<Longrightarrow> world_ok n m L (Session_OnRetransmissionTimeout E i w)"
  by (auto simp: Session_OnRetransmissionTimeout_def Let_def split: prod.splits
      intro!: world_ok_upd_session_frame intro: world_ok_asked)

text \<open>An acknowledgement that is not ignored ends in the flush of a state that differs in
  the session's own fields and the store.\<close>

lemma OnSendReply_flush:
  assumes "world_ok n m L w" "i < n"
  obtains (ignored) "Session_OnSendReply E p i w = w"
  | (acknowledged) sc fm e st k v where
      "v = w\<lparr> w_sessions := (w_sessions w)[i := (get_session i w)\<lparr> s_sendContext := sc, s_flowManager := fm,
               s_retransmissionTimeoutEstimator := e \<rparr>], w_store := st, w_query := k \<rparr>"
      "sc_ioMode sc = sc_ioMode (get_send i w)" "world_ok n m L v"
      "Session_OnSendReply E p i w = Session_TryFlushPendingQueue E i v"
proof -
  define q :: PacketSequence where "q = le_word (fst (nb_read (env_api E) 8 p))"
  obtain r sc where f: "SendContext_FindAndEraseSendPacketInfo q (get_send i w) = (r, sc)"
    by (cases "SendContext_FindAndEraseSendPacketInfo q (get_send i w)")
  show ?thesis
  proof (cases "sc_lastSendPacketSequence (get_send i w) < q \<or> r = None")
    case True
    with f show ?thesis
      by (intro ignored) (unfold Session_OnSendReply_def, auto simp: Let_def q_def)
  next
    case False
    then obtain a where a: "r = Some a" by auto
    define w1 where "w1 = set_send i sc w"
    define w2 where "w2 = upd_session i (\<lambda>s. s\<lparr> s_flowManager := FlowManager_OnAckReceived q (s_flowManager s) \<rparr>) w1"
    define w3 where "w3 = Core_MarkSendPacketInfoErased a w2"
    obtain now w4 where n: "ask (env_steadyNow E) w3 = (now, w4)" by (cases "ask (env_steadyNow E) w3")
    have wf: "sc_wf sc" and h: "sc_holders (get_send i w) = add_mset a (sc_holders sc)"
      using sc_holders_FindAndErase [OF world_ok_send_wf(1) [OF assms] f] a by simp_all
    have w1: "world_ok n m (add_mset a L) w1"
      using f wf h unfolding w1_def by (intro world_ok_set_send [OF assms])
        (auto simp: SendContext_FindAndEraseSendPacketInfo_def split: option.splits)
    have w2: "world_ok n m (add_mset a L) w2"
      unfolding w2_def using w1 assms(2) by (rule world_ok_upd_session_frame) simp_all
    have w4: "world_ok n m (add_mset a L) w4"
      unfolding w3_def [symmetric] by (rule world_ok_ask [OF _ n]) (simp add: w3_def world_ok_MarkErased [OF w2])
    obtain info ow b where i: "spi_get a (w_store w4) = Some info" "spi_owner info = Some ow" "spi_buffer info = Some b"
      by (rule world_ok_lookup [OF w4, of a]) auto
    define w5 where "w5 = (case SendPacketInfo_TryGetRttSample now info of
      None \<Rightarrow> w4 | Some s \<Rightarrow> Session_OnRttSample s i w4)"
    have w5: "world_ok n m (add_mset a L) w5"
      unfolding w5_def using w4 assms(2) by (auto intro: world_ok_OnRttSample split: option.splits)
    define v where "v = upd_store (SendPacketInfo_Free a) w5"
    have v: "world_ok n m L v" unfolding v_def using w5 by (rule world_ok_Free)
    have eq: "Session_OnSendReply E p i w = Session_TryFlushPendingQueue E i v"
      using False f a i unfolding Session_OnSendReply_def q_def [symmetric] Let_def
      by (simp add: w1_def [symmetric] w2_def [symmetric] w3_def [symmetric] n w5_def [symmetric] v_def [symmetric]
          del: One_nat_def)
    have mode: "sc_ioMode sc = sc_ioMode (get_send i w)"
      using f a by (auto simp: SendContext_FindAndEraseSendPacketInfo_def split: option.splits)
    obtain j where "spi_get a (w_store w2) = Some j"
      by (rule world_ok_lookup [OF w2, of a]) auto
    then have "\<exists>st. w3 = w2\<lparr> w_store := st \<rparr>"
      by (auto simp: w3_def Core_MarkSendPacketInfoErased_def upd_store_def intro: exI [of _ "w_store w2"])
    then obtain st where w3: "w3 = w2\<lparr> w_store := st \<rparr>" ..
    have w4eq: "w4 = w3\<lparr> w_query := w_query w3 + 1 \<rparr>" using n by (simp add: ask_def)
    have len: "i < length (w_sessions w)" by (rule world_ok_len [OF assms])
    have "\<exists>fm e st k. v = w\<lparr> w_sessions := (w_sessions w)[i := (get_session i w)\<lparr> s_sendContext := sc,
        s_flowManager := fm, s_retransmissionTimeoutEstimator := e \<rparr>], w_store := st, w_query := k \<rparr>"
    proof (cases "SendPacketInfo_TryGetRttSample now info")
      case None
      then show ?thesis
        by (intro exI [of _ "FlowManager_OnAckReceived q (s_flowManager (get_session i w))"]
            exI [of _ "s_retransmissionTimeoutEstimator (get_session i w)"]
            exI [of _ "SendPacketInfo_Free a st"] exI [of _ "w_query w + 1"])
          (simp add: v_def w5_def w4eq w3 w2_def w1_def upd_store_def upd_session_def set_send_def
            get_session_def len World.equality)
    next
      case (Some s)
      then show ?thesis
        by (intro exI [of _ "FlowManager_OnAckReceived q (s_flowManager (get_session i w))"]
            exI [of _ "Rto_OnRttSample (word_of_int s) (s_retransmissionTimeoutEstimator (get_session i w))"]
            exI [of _ "SendPacketInfo_Free a st"] exI [of _ "w_query w + 1"])
          (simp add: v_def w5_def w4eq w3 w2_def w1_def upd_store_def upd_session_def set_send_def
            get_session_def len Session_OnRttSample_def World.equality)
    qed
    with acknowledged [OF _ mode v eq] show ?thesis by blast
  qed
qed

lemma world_ok_OnSendReply:
  assumes "world_ok n m L w" "i < n" "spi_alloc_law E"
  shows "world_ok n m L (Session_OnSendReply E p i w)"
  by (rule OnSendReply_flush [OF assms(1,2), where E = E and p = p])
     (simp_all add: assms world_ok_TryFlush)

section \<open>What the congestion window lets through\<close>

lemma take_sendable_prefix:
  assumes "ring_wf (sc_pendingPacketQueue sc)" "take_sendable fm sc = (items, sc')"
  shows "items = takeWhile (\<lambda>p. FlowManager_CanSend (fst p) fm) (ring_list (sc_pendingPacketQueue sc)) \<and>
    ring_list (sc_pendingPacketQueue sc')
      = dropWhile (\<lambda>p. FlowManager_CanSend (fst p) fm) (ring_list (sc_pendingPacketQueue sc))"
  using assms
proof (induction fm sc arbitrary: items sc' rule: take_sendable.induct)
  case (1 fm sc)
  let ?rb = "sc_pendingPacketQueue sc"
  show ?case
  proof (cases "RingBuffer_IsEmpty ?rb")
    case True
    then have "ring_list ?rb = []" by (simp add: RingBuffer_IsEmpty_def ring_list_def)
    with True 1(3) show ?thesis
      by (subst (asm) take_sendable.simps) (simp add: SendContext_IsPendingQueueEmpty_def)
  next
    case False
    define rb where "rb = snd (RingBuffer_Pop ?rb)"
    have l: "ring_list ?rb = RingBuffer_Front ?rb # ring_list rb"
      and p: "RingBuffer_Pop ?rb = (Some (RingBuffer_Front ?rb), rb)"
      using ring_pop_list [OF 1(2) False] by (simp_all add: rb_def prod_eq_iff)
    have wf: "ring_wf rb" using ring_pop_wf [OF 1(2)] by (simp add: rb_def)
    have pop: "SendContext_PopFromPendingQueue sc = (Some (RingBuffer_Front ?rb), sc\<lparr> sc_pendingPacketQueue := rb \<rparr>)"
      using p by (simp add: SendContext_PopFromPendingQueue_def)
    have ne: "\<not> SendContext_IsPendingQueueEmpty sc"
      using False by (simp add: SendContext_IsPendingQueueEmpty_def)
    show ?thesis
    proof (cases "FlowManager_CanSend (fst (RingBuffer_Front ?rb)) fm")
      case True
      obtain items2 sc2 where t: "take_sendable fm (sc\<lparr> sc_pendingPacketQueue := rb \<rparr>) = (items2, sc2)"
        by (cases "take_sendable fm (sc\<lparr> sc_pendingPacketQueue := rb \<rparr>)")
      have "items2 = takeWhile (\<lambda>p. FlowManager_CanSend (fst p) fm) (ring_list rb) \<and>
          ring_list (sc_pendingPacketQueue sc2) = dropWhile (\<lambda>p. FlowManager_CanSend (fst p) fm) (ring_list rb)"
        using 1(1) [OF ne _ pop [symmetric] refl _ t] True wf by (simp add: SendContext_PendingQueueFront_def)
      with True ne pop t l 1(3) show ?thesis
        by (subst (asm) take_sendable.simps) (auto simp: SendContext_PendingQueueFront_def)
    next
      case False2: False
      with ne l 1(3) show ?thesis
        by (subst (asm) take_sendable.simps) (auto simp: SendContext_PendingQueueFront_def)
    qed
  qed
qed

text \<open>TryFlushPendingQueue takes out of the ring buffer the longest run of packets from
  its front that the congestion window lets through, in order, and leaves the others, in
  order.\<close>

theorem flush_takes_longest_prefix:
  assumes "ring_wf (sc_pendingPacketQueue sc)"
  shows "fst (take_sendable fm sc)
           = takeWhile (\<lambda>p. FlowManager_CanSend (fst p) fm) (ring_list (sc_pendingPacketQueue sc)) \<and>
         ring_list (sc_pendingPacketQueue (snd (take_sendable fm sc)))
           = dropWhile (\<lambda>p. FlowManager_CanSend (fst p) fm) (ring_list (sc_pendingPacketQueue sc))"
  using take_sendable_prefix [OF assms, of fm "fst (take_sendable fm sc)" "snd (take_sendable fm sc)"]
  by simp_all

definition sample_pending :: SendContext where
  "sample_pending = SendContext_new\<lparr> sc_pendingPacketQueue :=
     snd (RingBuffer_Push (9, null_buffer) (snd (RingBuffer_Push (3, null_buffer)
       (RingBuffer_new (0, null_buffer) 4)))) \<rparr>"

lemma sample_pending_ring:
  "ring_wf (sc_pendingPacketQueue sample_pending)"
  "ring_list (sc_pendingPacketQueue sample_pending) = [(3, null_buffer), (9, null_buffer)]"
proof -
  let ?r0 = "RingBuffer_new (0 :: PacketSequence, null_buffer) 4"
  let ?r1 = "snd (RingBuffer_Push (3, null_buffer) ?r0)"
  note wf0 = ring_new_wf [of "(0 :: PacketSequence, null_buffer)" 4]
  note wf1 = ring_push_wf [OF wf0, of "(3, null_buffer)"]
  have nf: "\<not> RingBuffer_IsFull ?r0" "\<not> RingBuffer_IsFull ?r1"
    by (simp_all add: RingBuffer_IsFull_def RingBuffer_new_def RingBuffer_Push_def)
  show "ring_wf (sc_pendingPacketQueue sample_pending)"
    using ring_push_wf [OF wf1] by (simp add: sample_pending_def)
  show "ring_list (sc_pendingPacketQueue sample_pending) = [(3, null_buffer), (9, null_buffer)]"
    using ring_push_list [OF wf1 nf(2)] ring_push_list [OF wf0 nf(1)]
    by (simp add: sample_pending_def ring_new_list)
qed

lemma sample_window:
  "FlowManager_CanSend 3 (FlowManager_new 8)" "\<not> FlowManager_CanSend 9 (FlowManager_new 8)"
  by (simp_all add: FlowManager_CanSend_def FlowManager_new_def FlowController_CanSendPacket_def
      FlowController_GetLastAckedSequence_def FlowController_new_def SeqDiff_def Let_def)

theorem flush_takes_longest_prefix_witness:
  "fst (take_sendable (FlowManager_new 8) sample_pending) = [(3, null_buffer)]"
  using flush_takes_longest_prefix [OF sample_pending_ring(1), of "FlowManager_new 8"]
  by (simp add: sample_pending_ring sample_window)

text \<open>Flow control of the content's packets: when packets wait already, or the window
  does not reach the sequence, a packet goes to the end of the ring buffer and nothing else
  changes, so no packet overtakes another and none exceeds the window; when the ring buffer
  is full the packet is refused and nothing changes at all.\<close>

theorem closed_window_queues:
  assumes "world_ok n m L w" "i < n"
    and "\<not> SendContext_IsPendingQueueEmpty (get_send i w) \<or> \<not> FlowManager_CanSend q (s_flowManager (get_session i w))"
  shows "let rb = sc_pendingPacketQueue (get_send i w);
             (ok, w') = Session_SendPacket_buffer E i b q False isCorePacket w
         in ok = (length (ring_list rb) < ring_cap rb) \<and>
            (if ok then \<exists>rb'. w' = set_send i ((get_send i w)\<lparr> sc_pendingPacketQueue := rb' \<rparr>) w \<and>
                             ring_list rb' = ring_list rb @ [(q, b)]
             else w' = w)"
proof -
  let ?rb = "sc_pendingPacketQueue (get_send i w)"
  have wf: "ring_wf ?rb" using world_ok_send_wf(1) [OF assms(1,2)] by (simp add: sc_wf_def)
  obtain ok rb where p: "RingBuffer_Push (q, b) ?rb = (ok, rb)" by (cases "RingBuffer_Push (q, b) ?rb")
  have "ok \<longleftrightarrow> length (ring_list ?rb) < ring_cap ?rb"
    using ring.push_ok [OF wf, of "(q, b)"] p by simp
  moreover have "ring_list rb = ring_list ?rb @ [(q, b)]" if ok
    using ring_push_list [OF wf, of "(q, b)"] p that by (auto simp: RingBuffer_Push_def split: if_splits)
  ultimately show ?thesis
    using assms(3) p
    by (auto simp: Session_SendPacket_buffer_def SendContext_PushToPendingQueue_def Let_def split: prod.splits)
qed

theorem closed_window_queues_witness:
  "\<exists>rb'. Session_SendPacket_buffer sample_env 0 null_buffer 9 False False
           (set_send 0 sample_pending (sample_world []))
         = (True, set_send 0 (sample_pending\<lparr> sc_pendingPacketQueue := rb' \<rparr>) (sample_world [])) \<and>
    ring_list rb' = [(3, null_buffer), (9, null_buffer), (9, null_buffer)]"
proof -
  let ?w = "set_send 0 sample_pending (sample_world [])"
  have s: "get_send 0 ?w = sample_pending" by (simp add: sample_world_def)
  have twice: "set_send 0 sc ?w = set_send 0 sc (sample_world [])" for sc
    by (simp add: set_send_def upd_session_def sample_world_def)
  have "get_send 0 (sample_world []) = SendContext_new"
    by (simp add: get_send_def get_session_def sample_world_def sample_session_def SendContext_new_def)
  then have "world_ok 1 1 {#} ?w"
    using world_ok_pending [OF sample_world_ok(1) [of "[]"] _ sample_pending_ring(1), of 0]
    by (simp add: sample_pending_def)
  moreover have "\<not> SendContext_IsPendingQueueEmpty (get_send 0 ?w)"
    unfolding s using sample_pending_ring(2)
    by (auto simp: SendContext_IsPendingQueueEmpty_def RingBuffer_IsEmpty_def ring_list_def)
  moreover have "ring_cap (sc_pendingPacketQueue sample_pending) = 4"
    by (simp add: sample_pending_def RingBuffer_Push_def RingBuffer_new_def)
  moreover have "unat (rb_count (sc_pendingPacketQueue sample_pending)) = 2"
    using arg_cong [OF sample_pending_ring(2), of length] by simp
  ultimately show ?thesis
    using closed_window_queues [of 1 1 "{#}" ?w 0 9 sample_env null_buffer False]
    by (auto simp: s twice sample_pending_ring Let_def split: prod.splits)
qed

text \<open>What the pool hands out: an empty buffer with its cursors behind the header.\<close>

definition fresh_alloc :: "NetBufferApi \<Rightarrow> bool" where
  "fresh_alloc api \<longleftrightarrow> m_iRead (nb_Alloc api) = 5 \<and> m_iWrite (nb_Alloc api) = 5 \<and>
     \<not> m_bIsEncoded (nb_Alloc api) \<and> 64 \<le> length (m_pSerializeBuffer (nb_Alloc api)) \<and>
     length (m_pSerializeBuffer (nb_Alloc api)) < 65536"

lemma heartbeat_buffer_shape:
  assumes "netbuffer_laws api" "fresh_alloc api"
  shows "m_iRead (heartbeat_buffer api q) = 5" "m_iWrite (heartbeat_buffer api q) = 14"
    "\<not> m_bIsEncoded (heartbeat_buffer api q)"
    "64 \<le> length (m_pSerializeBuffer (heartbeat_buffer api q))"
    "length (m_pSerializeBuffer (heartbeat_buffer api q)) < 65536"
    "nb_GetUseSize api (heartbeat_buffer api q) = 9"
proof -
  let ?b0 = "nb_Alloc api" and ?b1 = "nb_write api [5] (nb_Alloc api)"
  note w = assms(1) [unfolded netbuffer_laws_def write_law_def, THEN conjunct1, rule_format]
  note a = assms(2) [unfolded fresh_alloc_def]
  have b1: "?b1 = ?b0\<lparr> m_pSerializeBuffer := patch 5 [5] (m_pSerializeBuffer ?b0), m_iWrite := 6 \<rparr>"
    using w [of ?b0 "[5]"] a by simp
  have "heartbeat_buffer api q = ?b1\<lparr> m_pSerializeBuffer := patch 6 (le_bytes 8 q) (m_pSerializeBuffer ?b1),
      m_iWrite := 14 \<rparr>"
    using w [of ?b1 "le_bytes 8 q"] a unfolding b1 by (simp add: heartbeat_buffer_def b1)
  with a assms(1) show "m_iRead (heartbeat_buffer api q) = 5" "m_iWrite (heartbeat_buffer api q) = 14"
    "\<not> m_bIsEncoded (heartbeat_buffer api q)"
    "64 \<le> length (m_pSerializeBuffer (heartbeat_buffer api q))"
    "length (m_pSerializeBuffer (heartbeat_buffer api q)) < 65536"
    "nb_GetUseSize api (heartbeat_buffer api q) = 9"
    by (simp_all add: b1 netbuffer_laws_def size_law_def)
qed

text \<open>An overrun is never taken back: sending and ending a session leave the mark as it is.\<close>

lemma overrun_simps [simp]:
  "w_bufferOverrun (upd_session i f w) = w_bufferOverrun w" "w_bufferOverrun (set_send i sc w) = w_bufferOverrun w"
  "w_bufferOverrun (upd_store g w) = w_bufferOverrun w" "w_bufferOverrun (fault w) = w_bufferOverrun w"
  "w_bufferOverrun (set_ioMode m i w) = w_bufferOverrun w" "w_bufferOverrun (insert_info i q a w) = w_bufferOverrun w"
  "w_bufferOverrun (erase_info i q w) = w_bufferOverrun w"
  by (simp_all add: upd_session_def set_send_def upd_store_def fault_def set_ioMode_def insert_info_def erase_info_def split_beta)

lemma overrun_ask: "ask f w = (x, w') \<Longrightarrow> w_bufferOverrun w' = w_bufferOverrun w"
  by (auto simp: ask_def)

lemma overrun_DoDisconnect [simp]: "w_bufferOverrun (Session_DoDisconnect E r i w) = w_bufferOverrun w"
  by (simp add: Session_DoDisconnect_def Core_PushToDisconnectTargetSession_def ask_def split_beta Let_def)

lemma overrun_Refresh:
  "IOHandler_RefreshRetransmissionSendPacketInfo E a threadId w = (ok, w') \<Longrightarrow> w_bufferOverrun w' = w_bufferOverrun w"
  by (auto simp: IOHandler_RefreshRetransmissionSendPacketInfo_def Let_def ask_def upd_store_def fault_def
      split: option.splits if_splits prod.splits)

lemma overrun_Reserved:
  "IOHandler_ReservedSendPacketInfoToStream E i t threadId w = (r, t', w') \<Longrightarrow> w_bufferOverrun w' = w_bufferOverrun w"
  by (auto simp: IOHandler_ReservedSendPacketInfoToStream_def Let_def dest!: overrun_Refresh
      split: option.splits if_splits prod.splits)

lemma overrun_Stored:
  "IOHandler_StoredSendPacketInfoToStream E i t threadId w = (r, t', w') \<Longrightarrow> w_bufferOverrun w' = w_bufferOverrun w"
  by (auto simp: IOHandler_StoredSendPacketInfoToStream_def Let_def dest!: overrun_Refresh
      split: option.splits if_splits prod.splits)

lemma overrun_stream_loop:
  "stream_loop E i threadId k t w = (ok, t', w') \<Longrightarrow> w_bufferOverrun w' = w_bufferOverrun w"
proof (induction k arbitrary: t w)
  case (Suc k)
  obtain r t1 w1 where s: "IOHandler_StoredSendPacketInfoToStream E i t threadId w = (r, t1, w1)"
    by (cases "IOHandler_StoredSendPacketInfoToStream E i t threadId w")
  show ?case using Suc.prems Suc.IH [of t1 w1] overrun_Stored [OF s] by (cases r) (simp_all add: s)
qed simp

lemma overrun_MakeSendStream:
  assumes "IOHandler_MakeSendStream E i threadId w = (ok, t, w')"
  shows "w_bufferOverrun w' = w_bufferOverrun w"
proof -
  define w1 where "w1 = set_send i ((get_send i w)\<lparr> sc_cachedSequenceSet := {} \<rparr>) w"
  obtain r t2 w2 where s: "IOHandler_ReservedSendPacketInfoToStream E i 0 threadId w1 = (r, t2, w2)"
    by (cases "IOHandler_ReservedSendPacketInfoToStream E i 0 threadId w1")
  show ?thesis
    using assms overrun_Reserved [OF s] overrun_stream_loop [of E i threadId _ t2 w2 ok t w']
    by (cases r) (auto simp: IOHandler_MakeSendStream_def w1_def [symmetric] s Let_def, simp_all add: w1_def)
qed

lemma overrun_MakeSendContext:
  "IOHandler_MakeSendContext E i threadId w = (ok, c, w') \<Longrightarrow> w_bufferOverrun w' = w_bufferOverrun w"
  by (auto simp: IOHandler_MakeSendContext_def Let_def dest!: overrun_MakeSendStream overrun_ask
      split: if_splits prod.splits)

lemma overrun_TryRIOSend [simp]:
  "w_bufferOverrun (snd (IOHandler_TryRIOSend E i c w)) = w_bufferOverrun w"
  by (simp add: IOHandler_TryRIOSend_def Let_def ask_def)

lemma overrun_DoSend_loop:
  "DoSend_loop fuel E i threadId w = Some r \<Longrightarrow> w_bufferOverrun (snd r) = w_bufferOverrun w"
proof (induction fuel arbitrary: w)
  case (Suc fuel)
  let ?w1 = "set_ioMode IO_SENDING i w"
  obtain ok c w2 where m: "IOHandler_MakeSendContext E i threadId ?w1 = (ok, c, w2)"
    by (cases "IOHandler_MakeSendContext E i threadId ?w1")
  obtain d w3 where q: "ask (env_dropSend E) w2 = (d, w3)" by (cases "ask (env_dropSend E) w2")
  show ?case
    using Suc.prems Suc.IH [of "set_ioMode IO_NONE_SENDING i w3"] overrun_MakeSendContext [OF m] overrun_ask [OF q]
    by (cases c) (auto simp: m q Let_def split: if_splits)
qed simp

lemma overrun_DoSend: "IOHandler_DoSend E i threadId w = (ok, w') \<Longrightarrow> w_bufferOverrun w' = w_bufferOverrun w"
  by (auto simp: IOHandler_DoSend_def simp del: DoSend_loop.simps dest: overrun_DoSend_loop split: if_splits option.splits)

lemma overrun_Core_SendPacket:
  "Core_SendPacket E a w = (ok, w') \<Longrightarrow> w_bufferOverrun w' = w_bufferOverrun w"
  by (auto simp: Core_SendPacket_def Let_def dest!: overrun_DoSend split: option.splits if_splits)

lemma overrun_SendPacketImmediate:
  assumes "Session_SendPacketImmediate E i b q r c w = (ok, w')"
    and "w_bufferOverrun w \<or> (\<exists>a. env_spiAlloc E (w_store w) = Some a \<and> \<not> m_bIsEncoded b \<and>
           w_bufferOverrun (encode_info E i a b q r c (if r then upd_store (spi_new a (SendPacketInfo_Initialize i
             (s_sessionGeneration (get_session i w)) b q r)) w else insert_info i q a (upd_store (spi_new a
               (SendPacketInfo_Initialize i (s_sessionGeneration (get_session i w)) b q r)) w))))"
  shows "w_bufferOverrun w'"
proof (cases "env_spiAlloc E (w_store w)")
  case None
  with assms show ?thesis by (simp add: Session_SendPacketImmediate_def)
next
  case (Some a)
  define w1 where "w1 = upd_store (spi_new a (SendPacketInfo_Initialize i (s_sessionGeneration (get_session i w)) b q r)) w"
  define w2 where "w2 = (if \<not> r then insert_info i q a w1 else w1)"
  define w3 where "w3 = (if \<not> m_bIsEncoded b then encode_info E i a b q r c w2 else w2)"
  have "w_bufferOverrun w2 = w_bufferOverrun w" by (simp add: w2_def w1_def)
  moreover have "w_bufferOverrun w2 \<Longrightarrow> w_bufferOverrun (encode_info E i a b q r c w2)"
    by (simp add: encode_info_def Let_def split: option.splits)
  ultimately have o: "w_bufferOverrun w3"
    using assms(2) Some by (auto simp: w3_def w2_def w1_def)
  obtain sent w4 where s: "Core_SendPacket E a w3 = (sent, w4)" by (cases "Core_SendPacket E a w3")
  have "w_bufferOverrun w4" using overrun_Core_SendPacket [OF s] o by simp
  moreover have "w_bufferOverrun (Core_MarkSendPacketInfoErased a w4) = w_bufferOverrun w4"
    by (simp add: Core_MarkSendPacketInfoErased_def split: option.splits)
  moreover have "(ok, w') = (if \<not> sent then if \<not> r
      then (False, upd_store (SendPacketInfo_Free a) (erase_info i q (Core_MarkSendPacketInfoErased a w4)))
      else (False, upd_store (SendPacketInfo_Free a)
             (upd_store (spi_update a (\<lambda>i. i\<lparr> spi_isErasedPacketInfo := True \<rparr>)) w4))
      else (True, upd_store (SendPacketInfo_Free a) w4))"
    using assms(1) unfolding Session_SendPacketImmediate_def Some option.case Let_def
      w1_def [symmetric] w2_def [symmetric] w3_def [symmetric] s prod.case by simp
  ultimately show ?thesis by (cases sent; cases r) simp_all
qed

lemma overrun_flush_loop:
  "w_bufferOverrun w \<Longrightarrow> w_bufferOverrun (flush_loop E i items w)"
proof (induction items arbitrary: w)
  case (Cons item items)
  obtain q b where item: "item = (q, b)" by (cases item)
  obtain ok w1 where s: "Session_SendPacketImmediate E i b q False False w = (ok, w1)"
    by (cases "Session_SendPacketImmediate E i b q False False w")
  show ?case using overrun_SendPacketImmediate [OF s] Cons item s by simp
qed simp

lemma heartbeat_as_content_overruns:
  assumes "netbuffer_laws (env_api E)" "fresh_alloc (env_api E)"
    and "length (sessionSalt (s_cryptoContext (get_session i w))) = SESSION_SALT_SIZE"
    and "sessionKeyHandle (s_cryptoContext (get_session i w)) = Some k"
  shows "encode_info E i a (heartbeat_buffer (env_api E) q) q False False w = w\<lparr> w_bufferOverrun := True \<rparr>"
proof -
  note h = heartbeat_buffer_shape [OF assms(1,2), of q]
  have "EncodePacket (env_api E) (env_bcrypt E) q SERVER_TO_CLIENT
      (Some (sessionSalt (s_cryptoContext (get_session i w)))) (Some k) False
      (heartbeat_buffer (env_api E) q) = None"
    using h assms(3)
    by (simp add: EncodePacket_def CryptoHelper_FillNonce_def Let_def bodyOffsetWithNotHeader_def
        bodyOffsetWithHeader_def CryptoHelper_EncryptAESGCM_def SetHeader_def)
  then show ?thesis using assms(4) by (simp add: encode_info_def Let_def)
qed

lemma heartbeat_waits:
  assumes "i < length (w_sessions w)" "Session_NeedToSendHeartbeat E now (get_session i w)"
    and "FlowManager_CanSend (sc_lastSendPacketSequence (get_send i w) + 1) (s_flowManager (get_session i w))"
    and "fst (ask (env_netBufferAlloc E) w)" "ring_wf (sc_pendingPacketQueue (get_send i w))"
    and "\<not> RingBuffer_IsEmpty (sc_pendingPacketQueue (get_send i w))"
    and "\<not> RingBuffer_IsFull (sc_pendingPacketQueue (get_send i w))"
  defines "q \<equiv> sc_lastSendPacketSequence (get_send i w) + 1"
  shows "ring_list (sc_pendingPacketQueue (get_send i (Session_SendHeartbeatPacket E now i w)))
           = ring_list (sc_pendingPacketQueue (get_send i w)) @ [(q, heartbeat_buffer (env_api E) q)]"
proof -
  let ?rb = "sc_pendingPacketQueue (get_send i w)" and ?b = "heartbeat_buffer (env_api E) q"
  obtain w1 where q1: "ask (env_netBufferAlloc E) w = (True, w1)"
    using assms(4) by (metis (full_types) prod.collapse)
  note f = ask_frame(1-7) [OF q1]
  define sc where "sc = (get_send i w)\<lparr> sc_lastSendPacketSequence := q \<rparr>"
  have n: "next_sequence i w1 = (q, set_send i sc w1)"
    by (simp add: next_sequence_def SendContext_IncrementLastSendPacketSequence_def f sc_def q_def Let_def)
  have l: "i < length (w_sessions w1)" using assms(1) f by simp
  have p: "SendContext_PushToPendingQueue q ?b sc = (True, sc\<lparr> sc_pendingPacketQueue := snd (RingBuffer_Push (q, ?b) ?rb) \<rparr>)"
    using assms(7) by (simp add: SendContext_PushToPendingQueue_def sc_def RingBuffer_Push_def Let_def)
  have "Session_SendPacket_buffer E i ?b q False True (set_send i sc w1)
      = (True, set_send i (sc\<lparr> sc_pendingPacketQueue := snd (RingBuffer_Push (q, ?b) ?rb) \<rparr>) (set_send i sc w1))"
    using assms(6) l p by (simp add: Session_SendPacket_buffer_def SendContext_IsPendingQueueEmpty_def sc_def)
  then have "Session_SendHeartbeatPacket E now i w
      = set_send i (sc\<lparr> sc_pendingPacketQueue := snd (RingBuffer_Push (q, ?b) ?rb) \<rparr>) (set_send i sc w1)"
    using assms(2,3) by (simp add: Session_SendHeartbeatPacket_def q1 n Let_def)
  then show ?thesis using l ring_push_list [OF assms(5,7), of "(q, ?b)"] by simp
qed

text \<open>C38: A heartbeat that finds packets in the ring buffer, although the window would let it through, waits behind them: the
  world \<open>w\<close> is one in which an acknowledgement has opened the window and its thread has not flushed the ring yet. When the
  packets before it have left the ring and the window lets the heartbeat through (the world \<open>v\<close>), the flush encrypts it as a
  packet of the content, because the ring does not keep that it is a core packet; the length of its body becomes negative and
  \<open>EncodePacket\<close> runs out of the buffer.\<close>

theorem queued_heartbeat_overruns:
  assumes "netbuffer_laws (env_api E)" "fresh_alloc (env_api E)"
    and "i < length (w_sessions w)" "Session_NeedToSendHeartbeat E now (get_session i w)"
    and "FlowManager_CanSend (sc_lastSendPacketSequence (get_send i w) + 1) (s_flowManager (get_session i w))"
    and "fst (ask (env_netBufferAlloc E) w)" "ring_wf (sc_pendingPacketQueue (get_send i w))"
    and "\<not> RingBuffer_IsEmpty (sc_pendingPacketQueue (get_send i w))"
    and "\<not> RingBuffer_IsFull (sc_pendingPacketQueue (get_send i w))"
  defines "waiting \<equiv> ring_list (sc_pendingPacketQueue (get_send i w))"
    and "queued \<equiv> ring_list (sc_pendingPacketQueue (get_send i (Session_SendHeartbeatPacket E now i w)))"
    and "q \<equiv> sc_lastSendPacketSequence (get_send i w) + 1"
  assumes "i < length (w_sessions v)" "ring_wf (sc_pendingPacketQueue (get_send i v))"
    and "ring_list (sc_pendingPacketQueue (get_send i v)) = drop (length waiting) queued"
    and "FlowManager_CanSend q (s_flowManager (get_session i v))"
    and "env_spiAlloc E (w_store v) = Some a"
    and "length (sessionSalt (s_cryptoContext (get_session i v))) = SESSION_SALT_SIZE"
    and "sessionKeyHandle (s_cryptoContext (get_session i v)) = Some k"
  shows "queued = waiting @ [(q, heartbeat_buffer (env_api E) q)] \<and>
         w_bufferOverrun (Session_TryFlushPendingQueue E i v)"
proof -
  let ?b = "heartbeat_buffer (env_api E) q"
  have queued: "queued = waiting @ [(q, ?b)]"
    unfolding queued_def waiting_def q_def by (rule heartbeat_waits [OF assms(3-9)])
  then have ring: "ring_list (sc_pendingPacketQueue (get_send i v)) = [(q, ?b)]" using assms(15) by simp
  obtain items sc where t: "take_sendable (s_flowManager (get_session i v)) (get_send i v) = (items, sc)"
    by (cases "take_sendable (s_flowManager (get_session i v)) (get_send i v)")
  have items: "items = [(q, ?b)]" using take_sendable_prefix [OF assms(14) t] assms(16) by (simp add: ring)
  let ?v = "set_send i sc v"
  obtain ok v1 where s: "Session_SendPacketImmediate E i ?b q False False ?v = (ok, v1)"
    by (cases "Session_SendPacketImmediate E i ?b q False False ?v")
  define v2 where "v2 = insert_info i q a (upd_store (spi_new a (SendPacketInfo_Initialize i
             (s_sessionGeneration (get_session i ?v)) ?b q False)) ?v)"
  have "s_cryptoContext (get_session i v2) = s_cryptoContext (get_session i v)"
    using assms(13) by (simp add: v2_def insert_info_def split_beta get_session_def set_send_def upd_session_def upd_store_def)
  then have "w_bufferOverrun (encode_info E i a ?b q False False v2)"
    using heartbeat_as_content_overruns [OF assms(1,2), of i v2 k a q] assms(18,19) by simp
  moreover have "env_spiAlloc E (w_store ?v) = Some a" using assms(17) by (simp add: set_send_def upd_session_def)
  ultimately have "w_bufferOverrun v1"
    using heartbeat_buffer_shape(3) [OF assms(1,2), of q]
    by (intro overrun_SendPacketImmediate [OF s] disjI2 exI [of _ a]) (simp add: v2_def)
  then have "w_bufferOverrun (Session_TryFlushPendingQueue E i v)"
    using s by (simp add: Session_TryFlushPendingQueue_def t items)
  with queued show ?thesis by simp
qed

text \<open>In the witness the ring holds the packet 1, which leaves it after the heartbeat 2 was put behind it.\<close>

definition sample_ring :: "(PacketSequence \<times> NetBuffer) list \<Rightarrow> (PacketSequence \<times> NetBuffer) RingBuffer" where
  "sample_ring = foldl (\<lambda>rb x. snd (RingBuffer_Push x rb)) (RingBuffer_new (0, null_buffer) 4)"

definition sample_waiting :: "(PacketSequence \<times> NetBuffer) list \<Rightarrow> unit World" where
  "sample_waiting items = set_send 0 (SendContext_new\<lparr> sc_pendingPacketQueue := sample_ring items,
     sc_lastSendPacketSequence := 1 \<rparr>) (sample_world [])"

lemma sample_ring_one: "ring_wf (sample_ring [x])" "ring_list (sample_ring [x]) = [x]"
  "\<not> RingBuffer_IsEmpty (sample_ring [x])" "\<not> RingBuffer_IsFull (sample_ring [x])"
proof -
  let ?r0 = "RingBuffer_new (0 :: PacketSequence, null_buffer) 4"
  note wf0 = ring_new_wf [of "(0 :: PacketSequence, null_buffer)" 4]
  have nf: "\<not> RingBuffer_IsFull ?r0" by (simp add: RingBuffer_IsFull_def RingBuffer_new_def)
  show "ring_wf (sample_ring [x])" using ring_push_wf [OF wf0] by (simp add: sample_ring_def)
  show "ring_list (sample_ring [x]) = [x]"
    using ring_push_list [OF wf0 nf] by (simp add: sample_ring_def ring_new_list)
  show "\<not> RingBuffer_IsEmpty (sample_ring [x])" "\<not> RingBuffer_IsFull (sample_ring [x])"
    by (simp_all add: sample_ring_def RingBuffer_IsEmpty_def RingBuffer_IsFull_def RingBuffer_new_def RingBuffer_Push_def)
qed

lemma sample_waiting_simps:
  "get_send 0 (sample_waiting items) = SendContext_new\<lparr> sc_pendingPacketQueue := sample_ring items,
     sc_lastSendPacketSequence := 1 \<rparr>"
  "s_flowManager (get_session 0 (sample_waiting items)) = FlowManager_new 8"
  "s_cryptoContext (get_session 0 (sample_waiting items))
     = \<lparr> sessionKey = [], sessionSalt = replicate 16 1, sessionKeyHandle = Some (), keyObjectBuffer = None \<rparr>"
  "length (w_sessions (sample_waiting items)) = 1" "w_store (sample_waiting items) = w_store (sample_world [])"
  "Session_NeedToSendHeartbeat sample_env 3000 (get_session 0 (sample_waiting items))"
  by (simp_all add: sample_waiting_def get_send_def get_session_def set_send_def upd_session_def sample_world_def
      sample_session_def Session_NeedToSendHeartbeat_def Session_IsConnected_def StateMachine_IsConnected_def sample_env_def)

theorem queued_heartbeat_overruns_witness:
  "w_bufferOverrun (Session_TryFlushPendingQueue sample_env 0 (sample_waiting [(2, heartbeat_buffer documented_api 2)]))"
proof -
  let ?w = "sample_waiting [(1, null_buffer)]" and ?v = "sample_waiting [(2, heartbeat_buffer documented_api 2)]"
  have api: "env_api sample_env = documented_api" by (simp add: sample_env_def)
  have f: "fresh_alloc documented_api" by (simp add: fresh_alloc_def documented_api_def)
  have can: "FlowManager_CanSend 2 (FlowManager_new 8)"
    by (simp add: FlowManager_CanSend_def FlowManager_new_def FlowController_CanSendPacket_def
        FlowController_GetLastAckedSequence_def FlowController_new_def SeqDiff_def Let_def)
  have alloc: "fst (ask (env_netBufferAlloc sample_env) ?w)" "env_spiAlloc sample_env (w_store ?v) = Some 7"
    by (simp_all add: ask_def sample_env_def sample_waiting_simps) (simp add: sample_world_def)
  have waits: "ring_list (sc_pendingPacketQueue (get_send 0 (Session_SendHeartbeatPacket sample_env 3000 0 ?w)))
      = [(1, null_buffer), (2, heartbeat_buffer documented_api 2)]"
    using heartbeat_waits [of 0 ?w sample_env 3000] can alloc(1) by (simp add: sample_waiting_simps sample_ring_one api)
  show ?thesis
    using queued_heartbeat_overruns [of sample_env 0 ?w 3000 ?v 7 "()"] can alloc waits
    by (simp add: sample_waiting_simps sample_ring_one api f documented_api_laws)
qed

end
