(* ===== verification/Session_Receive.thy ===== *)
theory Session_Receive
  imports Session_Send
begin

text \<open>
  The receive side of the server: RUDPIOHandler posts receives and completes them, the
  completed datagrams wait in a queue per worker, MultiSocketRUDPCore takes them out,
  RUDPPacketProcessor decrypts them and dispatches on their type, and RUDPSession orders
  them and gives them to the content.

  A completion carries the bytes RIO wrote and the address it wrote. The handlers of the
  content are parameters that work on the whole state of the server; \<open>content_law\<close> says
  they keep its invariant, as everything a session offers them does.
\<close>

section \<open>RUDPSession: packets in order\<close>

definition Session_ProcessPacket :: "'k Env \<Rightarrow> nat \<Rightarrow> (NetBuffer, 'k World) packet_callback" where
  "Session_ProcessPacket E i recvPacket recvPacketSequence w =
     (let (bytes, packet1) = nb_read (env_api E) 4 recvPacket in
      case env_handler E (le_word bytes) of
        None \<Rightarrow> (False, w)
      | Some handler \<Rightarrow>
          let (handled, w1) = handler i packet1 w in
          if \<not> handled then (False, w1)
          else let w2 = upd_session i (\<lambda>s. s\<lparr> s_flowManager :=
                          FlowManager_MarkReceived recvPacketSequence (s_flowManager s) \<rparr>) w1
               in (True, Session_SendReplyToClient E recvPacketSequence i w2))"

definition IsOlderRecvSequence :: "PacketSequence \<Rightarrow> PacketSequence \<Rightarrow> bool" where
  "IsOlderRecvSequence q expectedSequence \<longleftrightarrow> sint (q - expectedSequence) < 0"

definition Session_OnRecvPacket :: "'k Env \<Rightarrow> NetBuffer \<Rightarrow> nat \<Rightarrow> 'k World \<Rightarrow> bool \<times> 'k World" where
  "Session_OnRecvPacket E recvPacket i w =
     (let (bytes, packet1) = nb_read (env_api E) 8 recvPacket;
          packetSequence = le_word bytes;
          orderer = s_sessionPacketOrderer (get_session i w)
      in if IsOlderRecvSequence packetSequence (Orderer_GetNextExpected orderer) then
           (True, Session_SendReplyToClient E packetSequence i w)
         else if \<not> FlowManager_CanAccept packetSequence (s_flowManager (get_session i w)) then (True, w)
         else let (result, orderer1, w1) =
                    Orderer_OnReceive (Session_ProcessPacket E i) packetSequence packet1 orderer w;
                  w2 = upd_session i (\<lambda>s. s\<lparr> s_sessionPacketOrderer := orderer1 \<rparr>) w1
              in case result of
                   DUPLICATED_RECV \<Rightarrow> (True, Session_SendReplyToClient E packetSequence i w2)
                 | PROCESSED \<Rightarrow> (True, w2)
                 | PACKET_HELD \<Rightarrow> (True, w2)
                 | ERROR_OCCURED \<Rightarrow> (False, w2))"

definition Session_TryConnect :: "'k Env \<Rightarrow> NetBuffer \<Rightarrow> sockaddr_in \<Rightarrow> nat \<Rightarrow> 'k World \<Rightarrow> bool \<times> 'k World" where
  "Session_TryConnect E recvPacket inClientAddr i w =
     (let (b1, packet1) = nb_read (env_api E) 8 recvPacket;
          packetSequence = le_word b1;
          recvSessionId = le_word (fst (nb_read (env_api E) 2 packet1))
      in if packetSequence \<noteq> LOGIN_PACKET_SEQUENCE \<or> s_sessionId (get_session i w) \<noteq> recvSessionId
         then (False, w)
         else let (connected, sm) = StateMachine_TryTransitionToConnected (s_stateMachine (get_session i w));
                  w1 = upd_session i (\<lambda>s. s\<lparr> s_stateMachine := sm \<rparr>) w
              in if \<not> connected then (False, w1)
                 else let startSequence = LOGIN_PACKET_SEQUENCE + 1;
                          w2 = upd_session i (\<lambda>s. s\<lparr> s_clientAddr := inClientAddr,
                                 s_sessionPacketOrderer := Orderer_Reset startSequence (s_sessionPacketOrderer s),
                                 s_flowManager := FlowManager_Reset startSequence (s_flowManager s) \<rparr>) w1;
                          w3 = env_OnConnected E i (w2\<lparr> w_events := w_events w2 @ [OnConnected i] \<rparr>)
                      in (True, Session_SendReplyToClient E packetSequence i w3))"

definition Session_Disconnect_packet :: "'k Env \<Rightarrow> NetBuffer \<Rightarrow> nat \<Rightarrow> 'k World \<Rightarrow> 'k World" where
  "Session_Disconnect_packet E recvPacket i w = Session_DoDisconnect E NORMAL i w"

section \<open>RUDPPacketProcessor\<close>

definition Manager_IncrementConnectedCount :: "'k World \<Rightarrow> 'k World" where
  "Manager_IncrementConnectedCount w =
     w\<lparr> w_connectedUserCount := w_connectedUserCount w + 1,
        w_allConnectedCount := w_allConnectedCount w + 1 \<rparr>"

text \<open>The macro \<open>DECODE_PACKET\<close>: what follows it runs on the decrypted packet.\<close>

definition DECODE_PACKET ::
    "'k Env \<Rightarrow> nat \<Rightarrow> bool \<Rightarrow> PACKET_DIRECTION \<Rightarrow> NetBuffer \<Rightarrow> (NetBuffer \<Rightarrow> 'k World \<Rightarrow> 'k World)
       \<Rightarrow> 'k World \<Rightarrow> 'k World" where
  "DECODE_PACKET E i isCorePacket direction recvPacket body w =
     (let crypto = s_cryptoContext (get_session i w) in
      case DecodePacket (env_api E) (env_bcrypt E) (Some (sessionSalt crypto)) (sessionKeyHandle crypto)
             isCorePacket direction recvPacket of
        None \<Rightarrow> w\<lparr> w_bufferOverrun := True \<rparr>
      | Some (False, _) \<Rightarrow> w
      | Some (True, packet1) \<Rightarrow>
          let (now, w1) = ask (env_tickCount E) w
          in body packet1 (Session_RefreshLastReceivedPacketTime now i w1))"

definition PacketProcessor_ProcessByPacketType ::
    "'k Env \<Rightarrow> nat \<Rightarrow> sockaddr_in \<Rightarrow> NetBuffer \<Rightarrow> 'k World \<Rightarrow> 'k World" where
  "PacketProcessor_ProcessByPacketType E i clientAddr recvPacket w =
     (let (bytes, packet1) = nb_read (env_api E) 1 recvPacket;
          canProcess = Session_CanProcessPacket clientAddr (get_session i w)
      in if sessionKeyHandle (s_cryptoContext (get_session i w)) = None then w
         else case PACKET_TYPE_of (le_word bytes) of
           Some CONNECT_TYPE \<Rightarrow>
             DECODE_PACKET E i True CLIENT_TO_SERVER packet1 (\<lambda>packet w1.
               let (connected, w2) = Session_TryConnect E packet clientAddr i w1
               in if connected then Manager_IncrementConnectedCount w2 else w2) w
         | Some DISCONNECT_TYPE \<Rightarrow>
             if \<not> canProcess then w
             else DECODE_PACKET E i True CLIENT_TO_SERVER packet1
                    (\<lambda>packet. Session_Disconnect_packet E packet i) w
         | Some SEND_TYPE \<Rightarrow>
             if \<not> canProcess then w
             else DECODE_PACKET E i False CLIENT_TO_SERVER packet1 (\<lambda>packet w1.
               let (ok, w2) = Session_OnRecvPacket E packet i w1
               in if ok then w2\<lparr> w_tps := w_tps w2 + 1 \<rparr>
                  else Session_DoDisconnect E BY_ERROR i w2) w
         | Some SEND_REPLY_TYPE \<Rightarrow>
             if \<not> canProcess then w
             else DECODE_PACKET E i True CLIENT_TO_SERVER_REPLY packet1
                    (\<lambda>packet. Session_OnSendReply E packet i) w
         | Some HEARTBEAT_REPLY_TYPE \<Rightarrow>
             if \<not> canProcess then w
             else DECODE_PACKET E i True CLIENT_TO_SERVER_REPLY packet1
                    (\<lambda>packet. Session_OnSendReply E packet i) w
         | _ \<Rightarrow> w)"

definition Core_GetPayloadLength :: "NetBuffer \<Rightarrow> ushort" where
  "Core_GetPayloadLength buffer = le_word (slice 1 2 (m_pSerializeBuffer buffer))"

definition PacketProcessor_OnRecvPacket ::
    "'k Env \<Rightarrow> nat \<Rightarrow> NetBuffer \<Rightarrow> sockaddr_in \<Rightarrow> 'k World \<Rightarrow> 'k World" where
  "PacketProcessor_OnRecvPacket E i buffer clientAddr w =
     (if nb_GetUseSize (env_api E) buffer < 5 then w
      else if nb_GetUseSize (env_api E) buffer \<noteq> uint (Core_GetPayloadLength buffer) then w
      else PacketProcessor_ProcessByPacketType E i clientAddr buffer w)"

section \<open>MultiSocketRUDPCore: the queue of completed receives\<close>

definition upd_recvBuffer :: "nat \<Rightarrow> (RecvBuffer \<Rightarrow> RecvBuffer) \<Rightarrow> 'k World \<Rightarrow> 'k World" where
  "upd_recvBuffer i f w = upd_session i (\<lambda>s. s\<lparr> s_recvBuffer := f (s_recvBuffer s) \<rparr>) w"

definition Core_EnqueueContextResult ::
    "'k Env \<Rightarrow> nat \<Rightarrow> 32 word \<Rightarrow> sockaddr_in \<Rightarrow> NetBuffer \<Rightarrow> ThreadIdType \<Rightarrow> 'k World \<Rightarrow> bool \<times> 'k World" where
  "Core_EnqueueContextResult E i ownerSessionGeneration clientAddr buffer threadId w =
     (let (allocated, w1) = ask (env_contextAlloc E) w in
      if \<not> allocated then (False, w1)
      else if unat threadId \<ge> length (w_recvIOCompletedContexts w1) then (False, fault w1)
      else let w2 = upd_recvBuffer i RecvBuffer_BeginRecvLogic w1;
               context = \<lparr> rc_session = i, rc_ownerSessionGeneration = ownerSessionGeneration,
                           rc_buffer = buffer, rc_clientAddr = clientAddr \<rparr>;
               q = w_recvIOCompletedContexts w2
           in (True, w2\<lparr> w_recvIOCompletedContexts :=
                      q[unat threadId := q ! unat threadId @ [context]] \<rparr>))"

definition Core_TryDispatchRecvPacket :: "'k Env \<Rightarrow> RecvIOCompletedContext \<Rightarrow> 'k World \<Rightarrow> bool \<times> 'k World" where
  "Core_TryDispatchRecvPacket E context w =
     (let i = rc_session context in
      if s_sessionGeneration (get_session i w) \<noteq> rc_ownerSessionGeneration context \<or>
         Session_IsReleasing (get_session i w) then (False, w)
      else (True, PacketProcessor_OnRecvPacket E i (rc_buffer context) (rc_clientAddr context)
                    (upd_session i (\<lambda>s. s\<lparr> s_nowInProcessingRecvPacket := True \<rparr>) w)))"

definition Core_CompleteRecvIOCompletedContext ::
    "RecvIOCompletedContext \<Rightarrow> bool \<Rightarrow> 'k World \<Rightarrow> 'k World" where
  "Core_CompleteRecvIOCompletedContext context processingStarted w =
     (let i = rc_session context;
          w1 = (if processingStarted
                then upd_session i (\<lambda>s. s\<lparr> s_nowInProcessingRecvPacket := False \<rparr>) w else w)
      in upd_recvBuffer i RecvBuffer_CompleteRecvLogic w1)"

definition Core_ProcessRecvIOCompletedContext :: "'k Env \<Rightarrow> RecvIOCompletedContext \<Rightarrow> 'k World \<Rightarrow> 'k World" where
  "Core_ProcessRecvIOCompletedContext E context w =
     (let (processingStarted, w1) = Core_TryDispatchRecvPacket E context w
      in Core_CompleteRecvIOCompletedContext context processingStarted w1)"

text \<open>The loop of \<open>OnRecvPacket\<close> over the contexts that wait when it starts; those that are
  enqueued meanwhile belong to the next run.\<close>

fun recv_loop :: "'k Env \<Rightarrow> ThreadIdType \<Rightarrow> nat \<Rightarrow> 'k World \<Rightarrow> 'k World" where
  "recv_loop E threadId 0 w = w"
| "recv_loop E threadId (Suc k) w =
     (case w_recvIOCompletedContexts w ! unat threadId of
        [] \<Rightarrow> w
      | context # rest \<Rightarrow>
          recv_loop E threadId k (Core_ProcessRecvIOCompletedContext E context
            (w\<lparr> w_recvIOCompletedContexts := (w_recvIOCompletedContexts w)[unat threadId := rest] \<rparr>)))"

definition Core_OnRecvPacket :: "'k Env \<Rightarrow> ThreadIdType \<Rightarrow> 'k World \<Rightarrow> 'k World" where
  "Core_OnRecvPacket E threadId w =
     recv_loop E threadId (length (w_recvIOCompletedContexts w ! unat threadId)) w"

section \<open>The counts stay exact\<close>

text \<open>The code of the content, called back from the handlers, keeps the invariant of the
  server.\<close>

definition content_law :: "'k Env \<Rightarrow> nat \<Rightarrow> nat \<Rightarrow> bool" where
  "content_law E n m \<longleftrightarrow>
     (\<forall>packetId h i p L w ok w'. env_handler E packetId = Some h \<longrightarrow> i < n \<longrightarrow> world_ok n m L w \<longrightarrow>
        h i p w = (ok, w') \<longrightarrow> world_ok n m L w') \<and>
     (\<forall>i L w. i < n \<longrightarrow> world_ok n m L w \<longrightarrow>
        world_ok n m L (env_OnConnected E i w) \<and> world_ok n m L (env_OnDisconnected E i w) \<and>
        world_ok n m L (env_OnReleased E i w))"

lemma content_lawD:
  assumes "content_law E n m" "i < n" "world_ok n m L w"
  shows "env_handler E packetId = Some h \<Longrightarrow> h i p w = (ok, w') \<Longrightarrow> world_ok n m L w'"
    "world_ok n m L (env_OnConnected E i w)" "world_ok n m L (env_OnDisconnected E i w)"
    "world_ok n m L (env_OnReleased E i w)"
  using assms unfolding content_law_def by blast+

lemma world_ok_ProcessPacket:
  assumes "Session_ProcessPacket E i b q w = (ok, w')" "world_ok n m L w" "i < n" "spi_alloc_law E"
    "content_law E n m"
  shows "world_ok n m L w'"
proof -
  obtain bytes p1 where r: "nb_read (env_api E) 4 b = (bytes, p1)" by (cases "nb_read (env_api E) 4 b")
  show ?thesis
  proof (cases "env_handler E (le_word bytes)")
    case (Some h)
    obtain handled w1 where h: "h i p1 w = (handled, w1)" by (cases "h i p1 w")
    have w1: "world_ok n m L w1" by (rule content_lawD(1) [OF assms(5,3,2) Some h])
    have "world_ok n m L (upd_session i (\<lambda>s. s\<lparr> s_flowManager := FlowManager_MarkReceived q (s_flowManager s) \<rparr>) w1)"
      using w1 assms(3) by (rule world_ok_upd_session_frame) simp_all
    from world_ok_SendReply [OF this assms(3,4), of q] assms(1) r Some h w1 show ?thesis
      by (auto simp: Session_ProcessPacket_def Let_def split: if_splits)
  qed (use assms r in \<open>simp add: Session_ProcessPacket_def\<close>)
qed

interpretation process_packet: callback_invariant "Session_ProcessPacket E i"
  "\<lambda>w. i < n \<and> spi_alloc_law E \<and> content_law E n m \<and> world_ok n m L w" for E i n m L
  by unfold_locales (auto intro: world_ok_ProcessPacket)

lemma world_ok_OnReceive:
  assumes "Orderer_OnReceive (Session_ProcessPacket E i) q b o1 w = (r, o2, w')" "world_ok n m L w"
    "i < n" "spi_alloc_law E" "content_law E n m"
  shows "world_ok n m L w'"
  using process_packet.receive_keeps [OF assms(1)] assms(2-) by blast

lemma world_ok_set_orderer:
  "world_ok n m L w \<Longrightarrow> i < n \<Longrightarrow> world_ok n m L (upd_session i (\<lambda>s. s\<lparr> s_sessionPacketOrderer := o1 \<rparr>) w)"
  by (rule world_ok_upd_session_frame) simp_all

lemma world_ok_OnRecvPacket:
  assumes "Session_OnRecvPacket E b i w = (ok, w')" "world_ok n m L w" "i < n" "spi_alloc_law E"
    "content_law E n m"
  shows "world_ok n m L w'"
proof -
  define q :: PacketSequence where "q = le_word (fst (nb_read (env_api E) 8 b))"
  define p1 where "p1 = snd (nb_read (env_api E) 8 b)"
  let ?o = "s_sessionPacketOrderer (get_session i w)"
  obtain r o2 w1 where d: "Orderer_OnReceive (Session_ProcessPacket E i) q p1 ?o w = (r, o2, w1)"
    by (cases "Orderer_OnReceive (Session_ProcessPacket E i) q p1 ?o w") auto
  let ?w2 = "upd_session i (\<lambda>s. s\<lparr> s_sessionPacketOrderer := o2 \<rparr>) w1"
  have w2: "world_ok n m L ?w2"
    by (rule world_ok_set_orderer [OF world_ok_OnReceive [OF d assms(2-5)] assms(3)])
  have "w' \<in> {w, Session_SendReplyToClient E q i w, ?w2, Session_SendReplyToClient E q i ?w2}"
    using assms(1) d unfolding Session_OnRecvPacket_def
    by (auto simp: Let_def q_def p1_def split: prod.splits if_splits ON_RECV_RESULT.splits)
  then show ?thesis
    using assms(2) w2 world_ok_SendReply [OF assms(2-4), of q] world_ok_SendReply [OF w2 assms(3,4), of q]
    by auto
qed

lemma world_ok_event: "world_ok n m L w \<Longrightarrow> world_ok n m L (w\<lparr> w_events := es \<rparr>)"
  by (rule world_ok_cong) simp_all

lemma world_ok_TryConnect:
  assumes "Session_TryConnect E b addr i w = (ok, w')" "world_ok n m L w" "i < n" "spi_alloc_law E"
    "content_law E n m"
  shows "world_ok n m L w'"
proof -
  define q :: PacketSequence where "q = le_word (fst (nb_read (env_api E) 8 b))"
  obtain connected sm where t: "StateMachine_TryTransitionToConnected (s_stateMachine (get_session i w)) = (connected, sm)"
    by (cases "StateMachine_TryTransitionToConnected (s_stateMachine (get_session i w))")
  let ?w1 = "upd_session i (\<lambda>s. s\<lparr> s_stateMachine := sm \<rparr>) w"
  let ?w2 = "upd_session i (\<lambda>s. s\<lparr> s_clientAddr := addr,
     s_sessionPacketOrderer := Orderer_Reset (LOGIN_PACKET_SEQUENCE + 1) (s_sessionPacketOrderer s),
     s_flowManager := FlowManager_Reset (LOGIN_PACKET_SEQUENCE + 1) (s_flowManager s) \<rparr>) ?w1"
  let ?w3 = "env_OnConnected E i (?w2\<lparr> w_events := w_events ?w2 @ [OnConnected i] \<rparr>)"
  have w1: "world_ok n m L ?w1" using assms(2,3) by (rule world_ok_upd_session_frame) simp_all
  have "world_ok n m L ?w2" using w1 assms(3) by (rule world_ok_upd_session_frame) simp_all
  then have "world_ok n m L ?w3" by (intro content_lawD(2) [OF assms(5,3)] world_ok_event)
  then have "world_ok n m L (Session_SendReplyToClient E q i ?w3)" by (rule world_ok_SendReply [OF _ assms(3,4)])
  moreover have "w' \<in> {w, ?w1, Session_SendReplyToClient E q i ?w3}"
    using assms(1) t unfolding Session_TryConnect_def
    by (auto simp: Let_def q_def split: prod.splits if_splits)
  ultimately show ?thesis using assms(2) w1 by auto
qed

lemma world_ok_fields:
  "world_ok n m L w \<Longrightarrow> world_ok n m L (Manager_IncrementConnectedCount w)"
  "world_ok n m L w \<Longrightarrow> world_ok n m L (w\<lparr> w_tps := t \<rparr>)"
  "world_ok n m L w \<Longrightarrow> world_ok n m L (w\<lparr> w_bufferOverrun := True \<rparr>)"
  "world_ok n m L w \<Longrightarrow> length qs = length (w_recvIOCompletedContexts w) \<Longrightarrow>
     world_ok n m L (w\<lparr> w_recvIOCompletedContexts := qs \<rparr>)"
  by (auto simp: Manager_IncrementConnectedCount_def intro: world_ok_cong)

lemma world_ok_DECODE_PACKET:
  assumes "world_ok n m L w" "i < n" "\<And>p w. world_ok n m L w \<Longrightarrow> world_ok n m L (body p w)"
  shows "world_ok n m L (DECODE_PACKET E i core dir b body w)"
proof -
  obtain now w1 where a: "ask (env_tickCount E) w = (now, w1)" by (cases "ask (env_tickCount E) w")
  have "world_ok n m L (Session_RefreshLastReceivedPacketTime now i w1)"
    unfolding Session_RefreshLastReceivedPacketTime_def
    using world_ok_ask [OF assms(1) a] assms(2) by (rule world_ok_upd_session_frame) simp_all
  from assms(3) [OF this] assms(1) a world_ok_fields(3) show ?thesis
    by (auto simp: DECODE_PACKET_def Let_def split: option.splits bool.splits)
qed

lemma world_ok_ProcessByPacketType:
  assumes "world_ok n m L w" "i < n" "spi_alloc_law E" "content_law E n m"
  shows "world_ok n m L (PacketProcessor_ProcessByPacketType E i addr b w)"
proof -
  have connect: "world_ok n m L (let (connected, w2) = Session_TryConnect E p addr i w1
      in if connected then Manager_IncrementConnectedCount w2 else w2)"
    if "world_ok n m L w1" for p w1
    using world_ok_TryConnect [OF _ that assms(2-4)] by (auto split: prod.splits intro: world_ok_fields(1))
  have recv: "world_ok n m L (let (ok, w2) = Session_OnRecvPacket E p i w1
      in if ok then w2\<lparr> w_tps := w_tps w2 + 1 \<rparr> else Session_DoDisconnect E BY_ERROR i w2)"
    if "world_ok n m L w1" for p w1
    using world_ok_OnRecvPacket [OF _ that assms(2-4)]
    by (auto split: prod.splits intro: world_ok_fields(2) world_ok_DoDisconnect assms(2))
  have disconnect: "world_ok n m L (Session_Disconnect_packet E p i w1)" if "world_ok n m L w1" for p w1
    unfolding Session_Disconnect_packet_def using that assms(2) by (rule world_ok_DoDisconnect)
  have reply: "world_ok n m L (Session_OnSendReply E p i w1)" if "world_ok n m L w1" for p w1
    by (rule world_ok_OnSendReply [OF that assms(2,3)])
  note decoded = world_ok_DECODE_PACKET [OF assms(1,2) connect] world_ok_DECODE_PACKET [OF assms(1,2) recv]
    world_ok_DECODE_PACKET [OF assms(1,2) disconnect] world_ok_DECODE_PACKET [OF assms(1,2) reply]
  show ?thesis
    using assms(1) decoded unfolding PacketProcessor_ProcessByPacketType_def
    by (simp add: Let_def split: prod.splits option.splits PACKET_TYPE.splits)
qed

lemma world_ok_upd_recvBuffer:
  "world_ok n m L w \<Longrightarrow> i < n \<Longrightarrow> world_ok n m L (upd_recvBuffer i f w)"
  unfolding upd_recvBuffer_def by (rule world_ok_upd_session_frame) simp_all

lemma world_ok_Enqueue:
  assumes "Core_EnqueueContextResult E i g addr b threadId w = (ok, w')" "world_ok n m L w" "i < n"
    "unat threadId < m"
  shows "world_ok n m L w'"
proof -
  obtain al w1 where a: "ask (env_contextAlloc E) w = (al, w1)" by (cases "ask (env_contextAlloc E) w")
  note w1 = world_ok_ask [OF assms(2) a]
  have "world_ok n m L (upd_recvBuffer i RecvBuffer_BeginRecvLogic w1)" by (rule world_ok_upd_recvBuffer [OF w1 assms(3)])
  from world_ok_fields(4) [OF this] w1 a assms(1,4) world_okD(8) [OF w1] show ?thesis
    by (auto simp: Core_EnqueueContextResult_def Let_def split: if_splits)
qed

lemma world_ok_Complete:
  assumes "world_ok n m L w" "rc_session c < n"
  shows "world_ok n m L (Core_CompleteRecvIOCompletedContext c started w)"
proof -
  have "world_ok n m L (upd_session (rc_session c) (\<lambda>s. s\<lparr> s_nowInProcessingRecvPacket := False \<rparr>) w)"
    using assms by (rule world_ok_upd_session_frame) simp_all
  with assms show ?thesis
    by (simp add: Core_CompleteRecvIOCompletedContext_def Let_def world_ok_upd_recvBuffer)
qed

lemma world_ok_ProcessRecvIOCompletedContext:
  assumes "world_ok n m L w" "rc_session c < n" "spi_alloc_law E" "content_law E n m"
  shows "world_ok n m L (Core_ProcessRecvIOCompletedContext E c w)"
proof -
  have "world_ok n m L (upd_session (rc_session c) (\<lambda>s. s\<lparr> s_nowInProcessingRecvPacket := True \<rparr>) w)"
    using assms(1,2) by (rule world_ok_upd_session_frame) simp_all
  then have "world_ok n m L (PacketProcessor_OnRecvPacket E (rc_session c) (rc_buffer c) (rc_clientAddr c)
      (upd_session (rc_session c) (\<lambda>s. s\<lparr> s_nowInProcessingRecvPacket := True \<rparr>) w))"
    using world_ok_ProcessByPacketType [OF _ assms(2-4)] by (simp add: PacketProcessor_OnRecvPacket_def)
  note done1 = world_ok_Complete [OF this assms(2)] world_ok_Complete [OF assms(1,2)]
  show ?thesis
    using done1 by (simp add: Core_ProcessRecvIOCompletedContext_def Core_TryDispatchRecvPacket_def Let_def)
qed

end
