(* ===== verification/Rio_Completion.thy ===== *)
theory Rio_Completion
  imports Session_Receive
begin

text \<open>
  MultiSocketRUDPServer/RUDPIOHandler and SessionRecvContext, SessionRIOContext: the
  receive slots of a session, how they are posted to RIO, and what a completion does. A
  posted operation is the pointer RIO gives back (\<open>posted\<close>); its fields are read when it
  completes. \<open>status\<close> is the Windows error of the completion.
\<close>

section \<open>The code\<close>

abbreviation (input) WSA_OPERATION_ABORTED :: "32 word" where "WSA_OPERATION_ABORTED \<equiv> 995"
abbreviation (input) WSAECONNRESET :: "32 word" where "WSAECONNRESET \<equiv> 10054"

definition posted_context :: "posted \<Rightarrow> 'k World \<Rightarrow> IOContext" where
  "posted_context p w =
     (case p of
        PostedRecv i k \<Rightarrow> slots (s_recvBuffer (get_session i w)) ! k
      | PostedSend context \<Rightarrow> context)"

definition set_slot_generation :: "nat \<Rightarrow> 32 word \<Rightarrow> RecvBuffer \<Rightarrow> RecvBuffer" where
  "set_slot_generation k g b =
     b\<lparr> slots := (slots b)[k := (slots b ! k)\<lparr> io_ownerSessionGeneration := g \<rparr>] \<rparr>"

text \<open>The loop of \<open>DoRecv\<close> over the free slots.\<close>

fun DoRecv_loop :: "'k Env \<Rightarrow> nat \<Rightarrow> nat \<Rightarrow> 'k World \<Rightarrow> bool \<times> 'k World" where
  "DoRecv_loop E i 0 w = (True, w)"
| "DoRecv_loop E i (Suc n) w =
     (case RecvBuffer_AcquireFreeRecvContext (s_recvBuffer (get_session i w)) of
        (None, _) \<Rightarrow> (True, w)
      | (Some k, rb) \<Rightarrow>
          let w1 = upd_recvBuffer i (\<lambda>_. rb) w;
              w2 = upd_recvBuffer i (set_slot_generation k (s_sessionGeneration (get_session i w1))) w1;
              w3 = upd_recvBuffer i RecvBuffer_BeginRecvIo w2;
              (posted, w4) = ask (env_rioReceive E) w3
          in if \<not> posted then
               (False, upd_recvBuffer i (RecvBuffer_ReleaseRecvContext k)
                         (upd_recvBuffer i RecvBuffer_CompleteRecvIo w4))
             else DoRecv_loop E i n (w4\<lparr> w_posted := w_posted w4 @ [PostedRecv i k] \<rparr>))"

definition IOHandler_DoRecv :: "'k Env \<Rightarrow> nat \<Rightarrow> 'k World \<Rightarrow> bool \<times> 'k World" where
  "IOHandler_DoRecv E i w =
     (if Session_IsReleasing (get_session i w) then (True, w)
      else if socket (s_socketContext (get_session i w)) = None then (False, w)
      else DoRecv_loop E i (Suc (length (freeRecvContexts (s_recvBuffer (get_session i w))))) w)"

text \<open>The context goes back to the receive buffer that owns it; a send context has none.\<close>

definition IOHandler_ReleaseRecvContext :: "posted \<Rightarrow> 'k World \<Rightarrow> 'k World" where
  "IOHandler_ReleaseRecvContext p w =
     (case p of
        PostedRecv i k \<Rightarrow> upd_recvBuffer i RecvBuffer_CompleteRecvIo
                            (upd_recvBuffer i (RecvBuffer_ReleaseRecvContext k) w)
      | PostedSend _ \<Rightarrow> fault w)"

definition IOHandler_RecvIOCompleted ::
    "'k Env \<Rightarrow> posted \<Rightarrow> byte list \<Rightarrow> sockaddr_in \<Rightarrow> ThreadIdType \<Rightarrow> 'k World \<Rightarrow> bool \<times> 'k World" where
  "IOHandler_RecvIOCompleted E p transferred clientAddr threadId w =
     (let context = posted_context p w in
      case io_session context of
        None \<Rightarrow> (False, w)
      | Some i \<Rightarrow>
          let (dropped, w1) = ask (env_dropReceived E) w in
          if dropped then IOHandler_DoRecv E i (IOHandler_ReleaseRecvContext p w1)
          else let (allocated, w2) = ask (env_netBufferAlloc E) w1 in
            if \<not> allocated then (False, IOHandler_ReleaseRecvContext p w2)
            else if length transferred > RECV_BUFFER_SIZE then (False, IOHandler_ReleaseRecvContext p w2)
            else let b0 = nb_Alloc (env_api E);
                     buffer = b0\<lparr> m_pSerializeBuffer := patch 0 transferred (m_pSerializeBuffer b0),
                                  m_iWrite := of_nat (length transferred) \<rparr>;
                     (enqueued, w3) = Core_EnqueueContextResult E i (io_ownerSessionGeneration context)
                                        clientAddr buffer threadId w2
                 in if \<not> enqueued then (False, IOHandler_ReleaseRecvContext p w3)
                    else IOHandler_DoRecv E i (IOHandler_ReleaseRecvContext p w3))"

definition IOHandler_SendIOCompleted ::
    "'k Env \<Rightarrow> posted \<Rightarrow> ThreadIdType \<Rightarrow> 'k World \<Rightarrow> bool \<times> 'k World" where
  "IOHandler_SendIOCompleted E p threadId w =
     (case io_session (posted_context p w) of
        None \<Rightarrow> (False, w)
      | Some i \<Rightarrow>
          let w1 = set_ioMode IO_NONE_SENDING i w in
          if Session_IsReleasing (get_session i w1) then (True, w1)
          else IOHandler_DoSend E i threadId w1)"

definition IOHandler_HandleStaleCompletion :: "posted \<Rightarrow> 'k World \<Rightarrow> bool \<times> 'k World" where
  "IOHandler_HandleStaleCompletion p w =
     (case io_ioType (posted_context p w) of
        OP_RECV \<Rightarrow> (True, IOHandler_ReleaseRecvContext p w)
      | OP_SEND \<Rightarrow> (True, w)
      | OP_ERROR \<Rightarrow> (False, w))"

definition failed_reason :: "'k Env \<Rightarrow> 32 word \<Rightarrow> nat \<Rightarrow> 'k World \<Rightarrow> bool \<times> 'k World" where
  "failed_reason E status i w =
     (if status = WSA_OPERATION_ABORTED \<and> Session_IsReleasing (get_session i w) then (True, w)
      else (True, Session_DoDisconnect E (if status = WSAECONNRESET then NORMAL else BY_ERROR) i w))"

definition IOHandler_HandleFailedCompletion ::
    "'k Env \<Rightarrow> posted \<Rightarrow> nat \<Rightarrow> 32 word \<Rightarrow> 'k World \<Rightarrow> bool \<times> 'k World" where
  "IOHandler_HandleFailedCompletion E p i status w =
     (case io_ioType (posted_context p w) of
        OP_RECV \<Rightarrow> failed_reason E status i (IOHandler_ReleaseRecvContext p w)
      | OP_SEND \<Rightarrow> failed_reason E status i (set_ioMode IO_NONE_SENDING i w)
      | OP_ERROR \<Rightarrow> (False, w))"

definition IOHandler_DispatchSuccessfulCompletion ::
    "'k Env \<Rightarrow> posted \<Rightarrow> nat \<Rightarrow> byte list \<Rightarrow> sockaddr_in \<Rightarrow> ThreadIdType \<Rightarrow> 'k World \<Rightarrow> bool \<times> 'k World" where
  "IOHandler_DispatchSuccessfulCompletion E p i transferred clientAddr threadId w =
     (case io_ioType (posted_context p w) of
        OP_RECV \<Rightarrow>
          let (ok, w1) = IOHandler_RecvIOCompleted E p transferred clientAddr threadId w
          in if \<not> ok then (False, Session_DoDisconnect E BY_ERROR i w1) else (True, w1)
      | OP_SEND \<Rightarrow>
          let (ok, w1) = IOHandler_SendIOCompleted E p threadId w
          in if \<not> ok then (False, Session_DoDisconnect E BY_ERROR i w1) else (True, w1)
      | OP_ERROR \<Rightarrow> (False, w))"

definition Session_BeginIOCompletion :: "nat \<Rightarrow> 'k World \<Rightarrow> 'k World" where
  "Session_BeginIOCompletion i w =
     upd_session i (\<lambda>s. s\<lparr> s_activeIOCompletions := s_activeIOCompletions s + 1 \<rparr>) w"

definition Session_CompleteIOCompletion :: "nat \<Rightarrow> 'k World \<Rightarrow> 'k World" where
  "Session_CompleteIOCompletion i w =
     upd_session i (\<lambda>s. s\<lparr> s_activeIOCompletions := s_activeIOCompletions s - 1 \<rparr>) w"

definition IOHandler_IOCompleted ::
    "'k Env \<Rightarrow> posted \<Rightarrow> byte list \<Rightarrow> sockaddr_in \<Rightarrow> ThreadIdType \<Rightarrow> 32 word \<Rightarrow> 'k World \<Rightarrow> bool \<times> 'k World" where
  "IOHandler_IOCompleted E p transferred clientAddr threadId status w =
     (let context = posted_context p w in
      case io_session context of
        None \<Rightarrow> (False, w)
      | Some i \<Rightarrow>
          let w1 = Session_BeginIOCompletion i w;
              isCurrentGeneration =
                (io_ownerSessionId context = s_sessionId (get_session i w1) \<and>
                 io_ownerSessionGeneration context = s_sessionGeneration (get_session i w1));
              (r, w2) = (if \<not> isCurrentGeneration then IOHandler_HandleStaleCompletion p w1
                         else if status \<noteq> 0 then IOHandler_HandleFailedCompletion E p i status w1
                         else IOHandler_DispatchSuccessfulCompletion E p i transferred clientAddr threadId w1)
          in (r, Session_CompleteIOCompletion i w2))"

section \<open>Registering the buffers of a session\<close>

text \<open>\<open>RIORegisterBuffer\<close> three times for one slot; None is an invalid id.\<close>

definition register_slot :: "'k Env \<Rightarrow> nat \<Rightarrow> SessionIdType \<Rightarrow> 'k World \<Rightarrow> IOContext \<times> 'k World" where
  "register_slot E i sessionId w =
     (let c = (IOContext_InitContext sessionId OP_RECV)\<lparr> io_length := RECV_BUFFER_SIZE, io_session := Some i \<rparr>;
          (b1, w1) = ask (env_registerBuffer E) w;
          (b2, w2) = ask (env_registerBuffer E) w1;
          (b3, w3) = ask (env_registerBuffer E) w2
      in (c\<lparr> io_BufferId := b1, io_clientAddrBufferId := b2, io_localAddrBufferId := b3 \<rparr>, w3))"

definition deregister_slot :: "IOContext \<Rightarrow> IOContext" where
  "deregister_slot c = c\<lparr> io_BufferId := None, io_clientAddrBufferId := None, io_localAddrBufferId := None \<rparr>"

definition RecvContext_Cleanup :: "RecvBuffer \<Rightarrow> RecvBuffer" where
  "RecvContext_Cleanup rb = rb\<lparr> slots := map deregister_slot (slots rb) \<rparr>"

text \<open>The loop over the slots, from slot \<open>k\<close>. A slot is replaced by its new context before
  the ids are checked; slots the buffer never had are created.\<close>

fun init_slots :: "'k Env \<Rightarrow> nat \<Rightarrow> SessionIdType \<Rightarrow> nat list \<Rightarrow> 'k World \<Rightarrow> bool \<times> 'k World" where
  "init_slots E i sessionId [] w = (True, w)"
| "init_slots E i sessionId (k # ks) w =
     (let (context, w1) = register_slot E i sessionId w;
          w2 = upd_recvBuffer i (\<lambda>rb. rb\<lparr> slots := take k (slots rb) @ [context] @ drop (Suc k) (slots rb) \<rparr>) w1
      in if io_BufferId context = None \<or> io_clientAddrBufferId context = None \<or>
            io_localAddrBufferId context = None
         then (False, upd_recvBuffer i (\<lambda>rb. RecvBuffer_ClearFreeRecvContexts (RecvContext_Cleanup rb)) w2)
         else init_slots E i sessionId ks (upd_recvBuffer i (RecvBuffer_ReleaseRecvContext k) w2))"

definition RecvContext_Initialize :: "'k Env \<Rightarrow> SessionIdType \<Rightarrow> nat \<Rightarrow> 'k World \<Rightarrow> bool \<times> 'k World" where
  "RecvContext_Initialize E sessionId i w =
     init_slots E i sessionId [0..<RECV_OUTSTANDING_COUNT] (upd_recvBuffer i RecvBuffer_ClearFreeRecvContexts w)"

definition RIOContext_IsDrained :: "'k Session \<Rightarrow> bool" where
  "RIOContext_IsDrained s \<longleftrightarrow>
     RecvBuffer_IsDrained (s_recvBuffer s) \<and> sc_ioMode (s_sendContext s) \<noteq> IO_SENDING"

definition RIOContext_Cleanup :: "nat \<Rightarrow> 'k World \<Rightarrow> 'k World" where
  "RIOContext_Cleanup i w =
     upd_session i (\<lambda>s. s\<lparr> s_recvBuffer := RecvContext_Cleanup (s_recvBuffer s),
       s_sendContext := snd (SendContext_Cleanup (s_sendContext s)), s_rioRQ := None \<rparr>) w"

definition RIOContext_Initialize :: "'k Env \<Rightarrow> ushort \<Rightarrow> nat \<Rightarrow> 'k World \<Rightarrow> bool \<times> 'k World" where
  "RIOContext_Initialize E pendingQueueCapacity i w =
     (let (ok1, w1) = RecvContext_Initialize E (s_sessionId (get_session i w)) i w in
      if \<not> ok1 then (False, w1)
      else let (bufferId, w2) = ask (env_registerBuffer E) w1;
               (ok2, sc) = SendContext_Initialize bufferId pendingQueueCapacity (get_send i w2);
               w3 = set_send i sc w2
           in if \<not> ok2 then (False, upd_recvBuffer i RecvContext_Cleanup w3)
              else let (rq, w4) = ask (env_createRequestQueue E) w3;
                       w5 = upd_session i (\<lambda>s. s\<lparr> s_rioRQ := rq \<rparr>) w4
                   in if rq = None then (False, RIOContext_Cleanup i w5) else (True, w5))"

definition Session_InitializeRIO :: "'k Env \<Rightarrow> nat \<Rightarrow> 'k World \<Rightarrow> bool \<times> 'k World" where
  "Session_InitializeRIO E i w = RIOContext_Initialize E (ucast (env_maximumHoldingPacketQueueSize E)) i w"

text \<open>\<open>RIOManager::InitializeSessionRIO\<close>: a completion queue per worker thread.\<close>

definition RIOManager_InitializeSessionRIO :: "'k Env \<Rightarrow> nat \<Rightarrow> ThreadIdType \<Rightarrow> 'k World \<Rightarrow> bool \<times> 'k World" where
  "RIOManager_InitializeSessionRIO E i threadId w =
     (if unat threadId \<ge> length (w_recvIOCompletedContexts w) then (False, w)
      else Session_InitializeRIO E i w)"

text \<open>\<open>MultiSocketRUDPCore::InitReserveSession\<close>: the guard that aborts the reservation
  runs on every failure.\<close>

definition Core_InitReserveSession :: "'k Env \<Rightarrow> nat \<Rightarrow> 'k World \<Rightarrow> CONNECT_RESULT_CODE \<times> 'k World" where
  "Core_InitReserveSession E i w =
     (let (now, w1) = ask (env_tickCount E) w;
          w2 = upd_session i (\<lambda>s. s\<lparr> s_sessionReservedTime := now,
                 s_stateMachine := StateMachine_SetReserved (s_stateMachine s) \<rparr>) w1;
          (sock, w3) = ask (env_createSocket E) w2;
          w4 = upd_session i (\<lambda>s. s\<lparr> s_socketContext := SocketContext_SetSocket sock (s_socketContext s) \<rparr>) w3
      in if sock = None then (CREATE_SOCKET_FAILED, Session_AbortReservedSession E i w4)
         else let (port, w5) = ask (env_getsockname E) w4;
                  w6 = upd_session i (\<lambda>s. s\<lparr> s_socketContext := SocketContext_SetServerPort port (s_socketContext s) \<rparr>) w5;
                  (rio, w7) = RIOManager_InitializeSessionRIO E i (s_threadId (get_session i w6)) w6
              in if \<not> rio then (RIO_INIT_FAILED, Session_AbortReservedSession E i w7)
                 else let (recv, w8) = IOHandler_DoRecv E i w7
                      in if \<not> recv then (DO_RECV_FAILED, Session_AbortReservedSession E i w8)
                         else (SUCCESS, w8))"

section \<open>The counts stay exact\<close>

lemma world_ok_posted: "world_ok n m L w \<Longrightarrow> world_ok n m L (w\<lparr> w_posted := ps \<rparr>)"
  by (rule world_ok_cong) simp_all

lemma world_ok_DoRecv_loop:
  "DoRecv_loop E i k w = (ok, w') \<Longrightarrow> world_ok n m L w \<Longrightarrow> i < n \<Longrightarrow> world_ok n m L w'"
proof (induction k arbitrary: w)
  case (Suc k)
  obtain r rb where a: "RecvBuffer_AcquireFreeRecvContext (s_recvBuffer (get_session i w)) = (r, rb)"
    by (cases "RecvBuffer_AcquireFreeRecvContext (s_recvBuffer (get_session i w))")
  show ?case
  proof (cases r)
    case (Some slot)
    define w3 where "w3 = upd_recvBuffer i RecvBuffer_BeginRecvIo
      (upd_recvBuffer i (set_slot_generation slot (s_sessionGeneration (get_session i (upd_recvBuffer i (\<lambda>_. rb) w))))
        (upd_recvBuffer i (\<lambda>_. rb) w))"
    obtain p w4 where q: "ask (env_rioReceive E) w3 = (p, w4)" by (cases "ask (env_rioReceive E) w3")
    have "world_ok n m L w3" using Suc.prems(2,3) by (simp add: w3_def world_ok_upd_recvBuffer)
    then have w4: "world_ok n m L w4" by (rule world_ok_ask [OF _ q])
    have step: "DoRecv_loop E i (Suc k) w = (if \<not> p then
        (False, upd_recvBuffer i (RecvBuffer_ReleaseRecvContext slot) (upd_recvBuffer i RecvBuffer_CompleteRecvIo w4))
        else DoRecv_loop E i k (w4\<lparr> w_posted := w_posted w4 @ [PostedRecv i slot] \<rparr>))"
      using a Some q by (simp add: Let_def flip: w3_def)
    show ?thesis
    proof (cases p)
      case True
      with step Suc.prems(1) have "DoRecv_loop E i k (w4\<lparr> w_posted := w_posted w4 @ [PostedRecv i slot] \<rparr>) = (ok, w')"
        by simp
      from Suc.IH [OF this world_ok_posted [OF w4] Suc.prems(3)] show ?thesis .
    next
      case False
      with step Suc.prems w4 show ?thesis by (auto intro: world_ok_upd_recvBuffer)
    qed
  qed (use a Suc.prems in auto)
qed simp

lemma world_ok_DoRecv:
  "IOHandler_DoRecv E i w = (ok, w') \<Longrightarrow> world_ok n m L w \<Longrightarrow> i < n \<Longrightarrow> world_ok n m L w'"
  by (auto simp: IOHandler_DoRecv_def simp del: DoRecv_loop.simps split: if_splits dest: world_ok_DoRecv_loop)

text \<open>A pointer RIO can give back: a slot or a context of a session.\<close>

definition posted_ok :: "nat \<Rightarrow> posted \<Rightarrow> 'k World \<Rightarrow> bool" where
  "posted_ok n p w \<longleftrightarrow>
     (\<exists>i < n. io_session (posted_context p w) = Some i \<and>
        (case p of
           PostedRecv j k \<Rightarrow> j = i \<and> io_ioType (posted_context p w) = OP_RECV
         | PostedSend _ \<Rightarrow> io_ioType (posted_context p w) = OP_SEND))"

lemma world_ok_Release:
  assumes "world_ok n m L w" "posted_ok n p v" "io_ioType (posted_context p v) = OP_RECV"
  shows "world_ok n m L (IOHandler_ReleaseRecvContext p w)"
  using assms by (cases p)
    (auto simp: IOHandler_ReleaseRecvContext_def posted_ok_def intro!: world_ok_upd_recvBuffer)

lemma world_ok_RecvIOCompleted:
  assumes "IOHandler_RecvIOCompleted E p data addr threadId w = (ok, w')" "world_ok n m L w"
    "posted_ok n p w" "io_ioType (posted_context p w) = OP_RECV" "unat threadId < m"
  shows "world_ok n m L w'"
proof -
  obtain i where i: "io_session (posted_context p w) = Some i" "i < n"
    using assms(3) by (auto simp: posted_ok_def)
  note rel = world_ok_Release [OF _ assms(3,4)]
  obtain d w1 where d: "ask (env_dropReceived E) w = (d, w1)" by (cases "ask (env_dropReceived E) w")
  note w1 = world_ok_ask [OF assms(2) d]
  obtain al w2 where al: "ask (env_netBufferAlloc E) w1 = (al, w2)" by (cases "ask (env_netBufferAlloc E) w1")
  note w2 = world_ok_ask [OF w1 al]
  let ?b0 = "nb_Alloc (env_api E)"
  let ?buffer = "?b0\<lparr> m_pSerializeBuffer := patch 0 data (m_pSerializeBuffer ?b0), m_iWrite := of_nat (length data) \<rparr>"
  obtain en w3 where en: "Core_EnqueueContextResult E i (io_ownerSessionGeneration (posted_context p w)) addr ?buffer threadId w2 = (en, w3)"
    by (cases "Core_EnqueueContextResult E i (io_ownerSessionGeneration (posted_context p w)) addr ?buffer threadId w2")
  have w3: "world_ok n m L w3" by (rule world_ok_Enqueue [OF en w2 i(2) assms(5)])
  consider "IOHandler_DoRecv E i (IOHandler_ReleaseRecvContext p w1) = (ok, w')"
    | "w' = IOHandler_ReleaseRecvContext p w2" | "w' = IOHandler_ReleaseRecvContext p w3"
    | "IOHandler_DoRecv E i (IOHandler_ReleaseRecvContext p w3) = (ok, w')"
    using assms(1) i d al en
    by (auto simp: IOHandler_RecvIOCompleted_def Let_def split: if_splits)
  then show ?thesis
    using rel [OF w1] rel [OF w2] rel [OF w3] i(2) by cases (auto dest: world_ok_DoRecv)
qed

lemma world_ok_DoSend:
  "IOHandler_DoSend E i threadId w = (ok, w') \<Longrightarrow> world_ok n m L w \<Longrightarrow> i < n \<Longrightarrow> unat threadId < m \<Longrightarrow>
   world_ok n m L w'"
  using DoSend_ok by blast

lemma world_ok_SendIOCompleted:
  assumes "IOHandler_SendIOCompleted E p threadId w = (ok, w')" "world_ok n m L w" "posted_ok n p w"
    "unat threadId < m"
  shows "world_ok n m L w'"
proof -
  obtain i where i: "io_session (posted_context p w) = Some i" "i < n"
    using assms(3) by (auto simp: posted_ok_def)
  note w1 = world_ok_send_fields(2) [OF assms(2) i(2), of IO_NONE_SENDING]
  with world_ok_DoSend [OF _ w1 i(2) assms(4)] assms(1) i show ?thesis
    by (auto simp: IOHandler_SendIOCompleted_def Let_def split: if_splits)
qed

lemma world_ok_failed_reason:
  "failed_reason E status i w = (ok, w') \<Longrightarrow> world_ok n m L w \<Longrightarrow> i < n \<Longrightarrow> world_ok n m L w'"
  using world_ok_DoDisconnect [of n m L w i E] by (auto simp: failed_reason_def split: if_splits)

lemma posted_ok_BeginIO:
  assumes "posted_ok n p w" "world_ok n m L w"
  shows "posted_ok n p (Session_BeginIOCompletion i w)"
    "posted_context p (Session_BeginIOCompletion i w) = posted_context p w"
proof -
  have "s_recvBuffer (get_session j (Session_BeginIOCompletion i w)) = s_recvBuffer (get_session j w)"
    if "j < n" for j
    using world_ok_len [OF assms(2) that]
    by (cases "j = i"; simp add: Session_BeginIOCompletion_def upd_session_def get_session_def)
  then show "posted_context p (Session_BeginIOCompletion i w) = posted_context p w"
    using assms(1) by (auto simp: posted_ok_def posted_context_def split: posted.splits)
  then show "posted_ok n p (Session_BeginIOCompletion i w)"
    using assms(1) by (cases p) (simp_all add: posted_ok_def)
qed

lemma world_ok_IOCompleted:
  assumes "IOHandler_IOCompleted E p data addr threadId status w = (ok, w')" "world_ok n m L w"
    "posted_ok n p w" "unat threadId < m"
  shows "world_ok n m L w'"
proof -
  obtain i where i: "io_session (posted_context p w) = Some i" "i < n"
    using assms(3) by (auto simp: posted_ok_def)
  let ?w1 = "Session_BeginIOCompletion i w"
  have w1: "world_ok n m L ?w1"
    unfolding Session_BeginIOCompletion_def using assms(2) i(2) by (rule world_ok_upd_session_frame) simp_all
  note p1 = posted_ok_BeginIO [OF assms(3,2), of i]
  have fin: "world_ok n m L (Session_CompleteIOCompletion i v)" if "world_ok n m L v" for v :: "'a World"
    unfolding Session_CompleteIOCompletion_def using that i(2) by (rule world_ok_upd_session_frame) simp_all
  have stale: "world_ok n m L v" if "IOHandler_HandleStaleCompletion p ?w1 = (r, v)" for r v
    using that w1 world_ok_Release [OF w1 p1(1)]
    by (auto simp: IOHandler_HandleStaleCompletion_def split: RIO_OPERATION_TYPE.splits)
  have failed: "world_ok n m L v" if "IOHandler_HandleFailedCompletion E p i status ?w1 = (r, v)" for r v
    using that w1 world_ok_Release [OF w1 p1(1)] world_ok_send_fields(2) [OF w1 i(2)]
    by (auto simp: IOHandler_HandleFailedCompletion_def split: RIO_OPERATION_TYPE.splits
        dest: world_ok_failed_reason [OF _ _ i(2)])
  have good: "world_ok n m L v"
    if "IOHandler_DispatchSuccessfulCompletion E p i data addr threadId ?w1 = (r, v)" for r v
    using that w1 world_ok_RecvIOCompleted [OF _ w1 p1(1) _ assms(4)]
      world_ok_SendIOCompleted [OF _ w1 p1(1) assms(4)]
    by (auto simp: IOHandler_DispatchSuccessfulCompletion_def split: RIO_OPERATION_TYPE.splits prod.splits if_splits
        intro: world_ok_DoDisconnect [OF _ i(2)])
  obtain r v where rv: "(if \<not> (io_ownerSessionId (posted_context p w) = s_sessionId (get_session i ?w1) \<and>
                 io_ownerSessionGeneration (posted_context p w) = s_sessionGeneration (get_session i ?w1))
        then IOHandler_HandleStaleCompletion p ?w1
        else if status \<noteq> 0 then IOHandler_HandleFailedCompletion E p i status ?w1
        else IOHandler_DispatchSuccessfulCompletion E p i data addr threadId ?w1) = (r, v)"
    by (rule prod.exhaust)
  have "world_ok n m L v" using rv stale failed good by (auto split: if_splits)
  moreover have "w' = Session_CompleteIOCompletion i v"
    using assms(1) i rv unfolding IOHandler_IOCompleted_def Let_def by simp
  ultimately show ?thesis using fin by simp
qed

lemma world_ok_register_slot:
  assumes "register_slot E i sessionId w = (context1, w')" "world_ok n m L w"
  shows "world_ok n m L w'"
  using assms by (intro world_ok_cong [OF assms(2)]) (auto simp: register_slot_def ask_def Let_def)

lemma world_ok_init_slots:
  "init_slots E i sessionId ks w = (ok, w') \<Longrightarrow> world_ok n m L w \<Longrightarrow> i < n \<Longrightarrow> world_ok n m L w'"
proof (induction ks arbitrary: w)
  case (Cons k ks)
  obtain context1 w1 where r: "register_slot E i sessionId w = (context1, w1)"
    by (cases "register_slot E i sessionId w")
  have w1: "world_ok n m L w1"
    by (rule world_ok_register_slot [OF r Cons.prems(2)])
  note slot = world_ok_upd_recvBuffer [OF w1 Cons.prems(3)]
  show ?case
    using Cons.prems(1,3) r Cons.IH slot world_ok_upd_recvBuffer [OF slot Cons.prems(3)]
    by (auto simp: Let_def split: if_splits)
qed simp

lemma world_ok_RecvContext_Initialize:
  "RecvContext_Initialize E sessionId i w = (ok, w') \<Longrightarrow> world_ok n m L w \<Longrightarrow> i < n \<Longrightarrow> world_ok n m L w'"
  unfolding RecvContext_Initialize_def
  by (erule world_ok_init_slots) (simp_all add: world_ok_upd_recvBuffer)

lemma world_ok_RIOContext_Cleanup:
  assumes "world_ok n m L w" "i < n"
  shows "world_ok n m L (RIOContext_Cleanup i w)"
  unfolding RIOContext_Cleanup_def
  using world_ok_send_wf [OF assms]
  by (intro world_ok_upd_session [OF assms])
     (auto simp: session_wf_def sc_wf_def SendContext_Cleanup_def get_send_def sc_holders_def split: option.splits)

lemma world_ok_SendContext_Initialize:
  assumes "world_ok n m L w" "i < n" "SendContext_Initialize b c (get_send i w) = (ok, sc)"
  shows "world_ok n m L (set_send i sc w)"
  using world_ok_send_wf [OF assms(1,2)] assms(3)
  by (intro world_ok_set_send [OF assms(1,2)])
     (auto simp: SendContext_Initialize_def sc_wf_def sc_holders_def ring_resize_wf split: option.splits)

lemma world_ok_RIOContext_Initialize:
  assumes "RIOContext_Initialize E c i w = (ok, w')" "world_ok n m L w" "i < n"
  shows "world_ok n m L w'"
proof -
  obtain ok1 w1 where r: "RecvContext_Initialize E (s_sessionId (get_session i w)) i w = (ok1, w1)"
    by (cases "RecvContext_Initialize E (s_sessionId (get_session i w)) i w")
  note w1 = world_ok_RecvContext_Initialize [OF r assms(2,3)]
  obtain b w2 where a: "ask (env_registerBuffer E) w1 = (b, w2)" by (cases "ask (env_registerBuffer E) w1")
  note w2 = world_ok_ask [OF w1 a]
  obtain ok2 sc where s: "SendContext_Initialize b c (get_send i w2) = (ok2, sc)"
    by (cases "SendContext_Initialize b c (get_send i w2)")
  note w3 = world_ok_SendContext_Initialize [OF w2 assms(3) s]
  obtain rq w4 where q: "ask (env_createRequestQueue E) (set_send i sc w2) = (rq, w4)"
    by (cases "ask (env_createRequestQueue E) (set_send i sc w2)")
  have w5: "world_ok n m L (upd_session i (\<lambda>s. s\<lparr> s_rioRQ := rq \<rparr>) w4)"
    using world_ok_ask [OF w3 q] assms(3) by (rule world_ok_upd_session_frame) simp_all
  show ?thesis
    using assms(1) r a s q w1 w5 world_ok_upd_recvBuffer [OF w3 assms(3)] world_ok_RIOContext_Cleanup [OF w5 assms(3)]
    by (auto simp: RIOContext_Initialize_def Let_def split: if_splits)
qed

lemma world_ok_InitReserveSession:
  assumes "Core_InitReserveSession E i w = (code, w')" "world_ok n m L w" "i < n"
  shows "world_ok n m L w'"
proof -
  note frame = world_ok_upd_session_frame [OF _ assms(3)]
  note abort = world_ok_AbortReserved [OF _ assms(3), of m L _ E]
  obtain now w1 where a1: "ask (env_tickCount E) w = (now, w1)" by (cases "ask (env_tickCount E) w")
  define w2 where "w2 = upd_session i (\<lambda>s. s\<lparr> s_sessionReservedTime := now,
                 s_stateMachine := StateMachine_SetReserved (s_stateMachine s) \<rparr>) w1"
  obtain sock w3 where a3: "ask (env_createSocket E) w2 = (sock, w3)" by (cases "ask (env_createSocket E) w2")
  define w4 where "w4 = upd_session i (\<lambda>s. s\<lparr> s_socketContext := SocketContext_SetSocket sock (s_socketContext s) \<rparr>) w3"
  obtain port w5 where a5: "ask (env_getsockname E) w4 = (port, w5)" by (cases "ask (env_getsockname E) w4")
  define w6 where "w6 = upd_session i (\<lambda>s. s\<lparr> s_socketContext := SocketContext_SetServerPort port (s_socketContext s) \<rparr>) w5"
  obtain rio w7 where r: "RIOManager_InitializeSessionRIO E i (s_threadId (get_session i w6)) w6 = (rio, w7)"
    by (cases "RIOManager_InitializeSessionRIO E i (s_threadId (get_session i w6)) w6")
  obtain recv w8 where d: "IOHandler_DoRecv E i w7 = (recv, w8)" by (cases "IOHandler_DoRecv E i w7")
  have w2: "world_ok n m L w2" unfolding w2_def by (rule frame [OF world_ok_ask [OF assms(2) a1]]) simp_all
  have w4: "world_ok n m L w4" unfolding w4_def by (rule frame [OF world_ok_ask [OF w2 a3]]) simp_all
  have w6: "world_ok n m L w6" unfolding w6_def by (rule frame [OF world_ok_ask [OF w4 a5]]) simp_all
  have w7: "world_ok n m L w7"
    using r w6 assms(3) world_ok_RIOContext_Initialize
    by (auto simp: RIOManager_InitializeSessionRIO_def Session_InitializeRIO_def split: if_splits)
  note w8 = world_ok_DoRecv [OF d w7 assms(3)]
  have "w' = Session_AbortReservedSession E i w4 \<or> w' = Session_AbortReservedSession E i w7 \<or>
      w' = Session_AbortReservedSession E i w8 \<or> w' = w8"
    using assms(1) unfolding Core_InitReserveSession_def a1 Let_def prod.case w2_def [symmetric] a3
      w4_def [symmetric] a5 w6_def [symmetric] r d
    by (auto split: if_splits)
  with abort [OF w4] abort [OF w7] abort [OF w8] w8 show ?thesis by auto
qed

end
