(* ===== verification/Retransmission.thy ===== *)
theory Retransmission
  imports Rio_Completion
begin

text \<open>
  MultiSocketRUDPServer/MultiSocketRUDPCore.Workers.cpp, the retransmission threads: each
  worker has a heap of deadlines. A round takes out of it what is due, drops what is stale
  (acknowledged, or scheduled again since), and sends the rest again or ends the session of
  a packet that was sent too often. Waiting for the next deadline is left out.
\<close>

section \<open>The code\<close>

text \<open>The loop over the heap: what is due, in order, what stays, the next deadline, and the
  store. The top of the heap is its head.\<close>

fun collect_due ::
    "time_point \<Rightarrow> RetransmissionScheduler \<Rightarrow> SpiStore \<Rightarrow> nat list \<times> RetransmissionScheduler \<times> time_point option \<times> SpiStore" where
  "collect_due now [] st = ([], [], None, st)"
| "collect_due now (entry # heap) st =
     (case spi_get (he_info entry) st of
        None \<Rightarrow> ([], entry # heap, None, st\<lparr> spi_fault := True \<rparr>)
      | Some info \<Rightarrow>
          if spi_isErasedPacketInfo info \<or> he_version entry \<noteq> spi_scheduleVersion info then
            collect_due now heap (SendPacketInfo_Free (he_info entry) st)
          else if he_deadline entry > now then ([], entry # heap, Some (he_deadline entry), st)
          else let (due, rest, nextDeadline, st1) =
                     collect_due now heap (SendPacketInfo_InvalidateRttSample (he_info entry) st)
               in (he_info entry # due, rest, nextDeadline, st1))"

definition Core_ProcessRetransmission :: "'k Env \<Rightarrow> nat \<Rightarrow> ThreadIdType \<Rightarrow> 'k World \<Rightarrow> 'k World" where
  "Core_ProcessRetransmission E a threadId w =
     (case spi_get a (w_store w) of
        None \<Rightarrow> fault w
      | Some info \<Rightarrow>
          if spi_isErasedPacketInfo info then upd_store (SendPacketInfo_Free a) w
          else let n = spi_retransmissionCount info + 1;
                   w1 = upd_store (spi_update a (\<lambda>i. i\<lparr> spi_retransmissionCount := n \<rparr>)) w;
                   owner = the (spi_owner info)
               in if n \<ge> env_maxPacketRetransmissionCount E then
                    let w2 = (if SendPacketInfo_IsOwnerValid w1 info
                              then Session_DoDisconnect E BY_RETRANSMISSION owner w1 else w1)
                    in upd_store (SendPacketInfo_Free a) w2
                  else
                    let w2 = (if SendPacketInfo_IsOwnerValid w1 info
                              then Session_OnRetransmissionTimeout E owner w1 else w1);
                        (sent, w3) = Core_SendPacket E a w2;
                        w4 = (if \<not> sent \<and> SendPacketInfo_IsOwnerValid w3 info
                              then Session_DoDisconnect E BY_ERROR owner w3 else w3)
                    in upd_store (SendPacketInfo_Free a) w4)"

fun process_due :: "'k Env \<Rightarrow> ThreadIdType \<Rightarrow> nat list \<Rightarrow> 'k World \<Rightarrow> 'k World" where
  "process_due E threadId [] w = w"
| "process_due E threadId (a # due) w =
     process_due E threadId due (Core_ProcessRetransmission E a threadId w)"

definition take_due :: "time_point \<Rightarrow> ThreadIdType \<Rightarrow> 'k World \<Rightarrow> nat list \<times> 'k World" where
  "take_due now threadId w =
     (let (due, heap, nextDeadline, st) =
            collect_due now (w_schedulers w ! unat threadId) (w_store w)
      in (due, w\<lparr> w_schedulers := (w_schedulers w)[unat threadId := heap], w_store := st \<rparr>))"

text \<open>One round of \<open>RunRetransmissionThread\<close>, up to the wait.\<close>

definition Core_RetransmissionRound :: "'k Env \<Rightarrow> ThreadIdType \<Rightarrow> 'k World \<Rightarrow> 'k World" where
  "Core_RetransmissionRound E threadId w =
     (let (now, w1) = ask (env_steadyNow E) w;
          (due, w2) = take_due now threadId w1
      in process_due E threadId due w2)"

text \<open>What the thread does when it stops: every entry gives its reference back.\<close>

definition Core_DrainScheduler :: "ThreadIdType \<Rightarrow> 'k World \<Rightarrow> 'k World" where
  "Core_DrainScheduler threadId w =
     w\<lparr> w_store := free_queue (map he_info (w_schedulers w ! unat threadId)) (w_store w),
        w_schedulers := (w_schedulers w)[unat threadId := []] \<rparr>"

section \<open>The counts stay exact\<close>

lemma collect_due_refs:
  assumes "refs_ok (mset (map he_info heap) + H) st"
    and "\<And>a i. spi_mem st a = Some i \<Longrightarrow> info_wf n i"
    and "collect_due now heap st = (due, rest, next1, st')"
  shows "refs_ok (mset due + mset (map he_info rest) + H) st' \<and>
    (\<forall>a i. spi_mem st' a = Some i \<longrightarrow> info_wf n i)"
  using assms
proof (induction heap arbitrary: st H due rest next1 st')
  case (Cons entry heap)
  let ?a = "he_info entry"
  obtain info where i: "spi_get ?a st = Some info"
    using refs_ok_alloc [OF Cons.prems(1), of ?a] by (auto simp: spi_get_def)
  consider (stale) "spi_isErasedPacketInfo info \<or> he_version entry \<noteq> spi_scheduleVersion info"
    | (later) "\<not> (spi_isErasedPacketInfo info \<or> he_version entry \<noteq> spi_scheduleVersion info)" "he_deadline entry > now"
    | (due) "\<not> (spi_isErasedPacketInfo info \<or> he_version entry \<noteq> spi_scheduleVersion info)" "\<not> he_deadline entry > now"
    by blast
  then show ?case
  proof cases
    case stale
    have "refs_ok (mset (map he_info heap) + H) (SendPacketInfo_Free ?a st)"
      using Cons.prems(1) by (intro refs_ok_Free) simp
    moreover have "spi_mem (SendPacketInfo_Free ?a st) b = Some j \<Longrightarrow> info_wf n j" for b j
      by (rule Free_infos [OF Cons.prems(2)])
    moreover have "collect_due now heap (SendPacketInfo_Free ?a st) = (due, rest, next1, st')"
      using Cons.prems(3) i stale by auto
    ultimately show ?thesis by (rule Cons.IH)
  next
    case later
    with Cons.prems i show ?thesis by auto
  next
    case due
    let ?st = "SendPacketInfo_InvalidateRttSample ?a st"
    obtain due1 where d: "collect_due now heap ?st = (due1, rest, next1, st')" "due = ?a # due1"
      using Cons.prems(3) i due by (auto split: prod.splits)
    have "refs_ok (mset (map he_info (entry # heap)) + H) ?st"
      unfolding SendPacketInfo_InvalidateRttSample_def
      by (rule refs_ok_update [OF Cons.prems(1)]) simp_all
    then have r: "refs_ok (mset (map he_info heap) + add_mset ?a H) ?st" by simp
    have "spi_mem ?st b = Some j \<Longrightarrow> info_wf n j" for b j
      unfolding SendPacketInfo_InvalidateRttSample_def
      by (rule spi_update_infos [OF Cons.prems(2)]) (simp_all add: info_wf_def)
    from Cons.IH [OF r this d(1)] d(2) show ?thesis by simp
  qed
qed auto

lemma world_ok_take_due:
  assumes "world_ok n m {#} w" "unat threadId < m" "take_due now threadId w = (due, w')"
  shows "world_ok n m (mset due) w'"
proof -
  let ?t = "unat threadId" and ?hs = "w_schedulers w"
  obtain rest next1 st where c: "collect_due now (?hs ! ?t) (w_store w) = (due, rest, next1, st)"
    and w': "w' = w\<lparr> w_schedulers := ?hs[?t := rest], w_store := st \<rparr>"
    using assms(3) by (auto simp: take_due_def split: prod.splits)
  have t: "?t < length ?hs" using assms(2) world_okD(2) [OF assms(1)] by simp
  have "scheduler_holders ?hs = mset (map he_info (?hs ! ?t)) + scheduler_holders (?hs[?t := []])"
    using scheduler_holders_update [OF t, of "[]"] by (simp add: add_ac)
  then have "refs_ok (mset (map he_info (?hs ! ?t)) + (scheduler_holders (?hs[?t := []]) + session_holders (w_sessions w))) (w_store w)"
    using world_okD(4) [OF assms(1)] by (simp add: holders_def add_ac)
  note d = collect_due_refs [OF this _ c, of n]
  have r: "refs_ok (mset due + mset (map he_info rest) + (scheduler_holders (?hs[?t := []]) + session_holders (w_sessions w))) st"
    and i: "\<forall>a i. spi_mem st a = Some i \<longrightarrow> info_wf n i" using d world_okD(7) [OF assms(1)] by blast+
  have "scheduler_holders (?hs[?t := rest]) = mset (map he_info rest) + scheduler_holders (?hs[?t := []])"
    using scheduler_holders_update [of ?t "?hs[?t := []]" rest] t by (simp add: add_ac)
  then have "mset due + holders w' = mset due + mset (map he_info rest) + (scheduler_holders (?hs[?t := []]) + session_holders (w_sessions w))"
    by (simp add: w' holders_def add_ac)
  then have "refs_ok (mset due + holders w') (w_store w')" using r by (simp add: w' add_ac)
  then show ?thesis using assms(1) i by (simp add: world_ok_def w')
qed

lemma world_ok_ProcessRetransmission:
  assumes "world_ok n m (add_mset a L) w"
  shows "world_ok n m L (Core_ProcessRetransmission E a threadId w)"
proof -
  obtain info ow b where i: "spi_get a (w_store w) = Some info" "spi_owner info = Some ow" "ow < n"
    by (rule world_ok_lookup [OF assms, of a]) auto
  let ?n = "spi_retransmissionCount info + 1"
  define w1 where "w1 = upd_store (spi_update a (\<lambda>i. i\<lparr> spi_retransmissionCount := ?n \<rparr>)) w"
  have w1: "world_ok n m (add_mset a L) w1"
    unfolding w1_def using assms by (intro world_ok_spi_update) (auto simp: info_wf_def)
  define w2 where "w2 = (if SendPacketInfo_IsOwnerValid w1 info then Session_OnRetransmissionTimeout E ow w1 else w1)"
  have w2: "world_ok n m (add_mset a L) w2"
    using w1 world_ok_OnRetransmissionTimeout [OF w1 i(3), of E] by (simp add: w2_def)
  obtain sent w3 where s: "Core_SendPacket E a w2 = (sent, w3)" by (cases "Core_SendPacket E a w2")
  have w3: "world_ok n m (add_mset a L) w3" using world_ok_Core_SendPacket [OF w2, of a E] s by simp
  have over: "world_ok n m L (upd_store (SendPacketInfo_Free a)
      (if SendPacketInfo_IsOwnerValid w1 info then Session_DoDisconnect E BY_RETRANSMISSION ow w1 else w1))"
    using w1 world_ok_DoDisconnect [OF w1 i(3)] by (auto intro: world_ok_Free)
  have again: "world_ok n m L (upd_store (SendPacketInfo_Free a)
      (if \<not> sent \<and> SendPacketInfo_IsOwnerValid w3 info then Session_DoDisconnect E BY_ERROR ow w3 else w3))"
    using w3 world_ok_DoDisconnect [OF w3 i(3)] by (auto intro: world_ok_Free)
  have "Core_ProcessRetransmission E a threadId w =
      (if spi_isErasedPacketInfo info then upd_store (SendPacketInfo_Free a) w
       else if ?n \<ge> env_maxPacketRetransmissionCount E then upd_store (SendPacketInfo_Free a)
         (if SendPacketInfo_IsOwnerValid w1 info then Session_DoDisconnect E BY_RETRANSMISSION ow w1 else w1)
       else upd_store (SendPacketInfo_Free a)
         (if \<not> sent \<and> SendPacketInfo_IsOwnerValid w3 info then Session_DoDisconnect E BY_ERROR ow w3 else w3))"
    unfolding Core_ProcessRetransmission_def i option.case Let_def option.sel
      w1_def [symmetric] w2_def [symmetric] s prod.case ..
  with over again world_ok_Free [OF assms] show ?thesis by simp
qed

lemma world_ok_process_due:
  "world_ok n m (mset due) w \<Longrightarrow> world_ok n m {#} (process_due E threadId due w)"
  by (induction due arbitrary: w) (simp_all add: world_ok_ProcessRetransmission)

lemma world_ok_RetransmissionRound:
  assumes "world_ok n m {#} w" "unat threadId < m"
  shows "world_ok n m {#} (Core_RetransmissionRound E threadId w)"
proof -
  obtain now w1 where a: "ask (env_steadyNow E) w = (now, w1)" by (cases "ask (env_steadyNow E) w")
  obtain due w2 where t: "take_due now threadId w1 = (due, w2)" by (cases "take_due now threadId w1")
  from world_ok_process_due [OF world_ok_take_due [OF world_ok_ask [OF assms(1) a] assms(2) t]] a t
  show ?thesis by (simp add: Core_RetransmissionRound_def)
qed

lemma free_queue_infos:
  "\<forall>b j. spi_mem st b = Some j \<longrightarrow> info_wf n j \<Longrightarrow>
   \<forall>b j. spi_mem (free_queue q st) b = Some j \<longrightarrow> info_wf n j"
proof (induction q arbitrary: st)
  case (Cons x q)
  have "\<forall>b j. spi_mem (SendPacketInfo_Free x st) b = Some j \<longrightarrow> info_wf n j"
    using Free_infos [of st n x] Cons.prems by blast
  then show ?case using Cons.IH by simp
qed simp

lemma world_ok_DrainScheduler:
  assumes "world_ok n m {#} w" "unat threadId < m"
  shows "world_ok n m {#} (Core_DrainScheduler threadId w)"
proof -
  let ?t = "unat threadId" and ?hs = "w_schedulers w"
  let ?q = "map he_info (?hs ! ?t)"
  have t: "?t < length ?hs" using assms(2) world_okD(2) [OF assms(1)] by simp
  have "holders w = holders (w\<lparr> w_schedulers := ?hs[?t := []] \<rparr>) + mset ?q"
    using scheduler_holders_update [OF t, of "[]"] by (simp add: holders_def add_ac)
  then have "refs_ok (holders (Core_DrainScheduler threadId w)) (free_queue ?q (w_store w))"
    using refs_ok_Free_all [of "holders (w\<lparr> w_schedulers := ?hs[?t := []] \<rparr>)" ?q "w_store w"]
      world_okD(4) [OF assms(1)]
    by (simp add: free_queue_fold Core_DrainScheduler_def holders_def add_ac)
  moreover have "\<forall>b j. spi_mem (free_queue ?q (w_store w)) b = Some j \<longrightarrow> info_wf n j"
    by (rule free_queue_infos) (use world_okD(7) [OF assms(1)] in blast)
  ultimately show ?thesis
    using assms(1) by (simp add: world_ok_def Core_DrainScheduler_def)
qed

section \<open>Which packets are due\<close>

text \<open>An entry is live if its packet is not acknowledged and was not scheduled again.\<close>

definition live :: "SpiStore \<Rightarrow> RetransmissionHeapEntry \<Rightarrow> bool" where
  "live st e = (case spi_mem st (he_info e) of
                  None \<Rightarrow> False
                | Some i \<Rightarrow> \<not> spi_isErasedPacketInfo i \<and> he_version e = spi_scheduleVersion i)"

lemma live_Free:
  "spi_mem (SendPacketInfo_Free a st) (he_info e) \<noteq> None \<Longrightarrow> live (SendPacketInfo_Free a st) e = live st e"
  by (auto simp: live_def SendPacketInfo_Free_def Let_def split: option.splits if_splits)

lemma live_Invalidate [simp]: "live (SendPacketInfo_InvalidateRttSample a st) e = live st e"
  by (auto simp: live_def SendPacketInfo_InvalidateRttSample_def spi_update_def split: option.splits)

lemma collect_due_exact:
  assumes "refs_ok (mset (map he_info heap) + H) st" "sorted (map he_deadline heap)"
    and "collect_due now heap st = (due, rest, next1, st')"
  shows "due = map he_info (filter (\<lambda>e. live st e \<and> he_deadline e \<le> now) heap) \<and>
    rest = dropWhile (\<lambda>e. \<not> (live st e \<and> now < he_deadline e)) heap"
  using assms
proof (induction heap arbitrary: st H due rest next1 st')
  case (Cons e heap)
  let ?a = "he_info e"
  obtain info where i: "spi_get ?a st = Some info" "spi_mem st ?a = Some info"
    using refs_ok_alloc [OF Cons.prems(1), of ?a] by (auto simp: spi_get_def)
  have sorted: "sorted (map he_deadline heap)" using Cons.prems(2) by simp
  consider (stale) "\<not> live st e" | (later) "live st e" "now < he_deadline e" | (due) "live st e" "he_deadline e \<le> now"
    by linarith
  then show ?case
  proof cases
    case stale
    let ?st = "SendPacketInfo_Free ?a st"
    have r: "refs_ok (mset (map he_info heap) + H) ?st"
      using Cons.prems(1) by (intro refs_ok_Free) simp
    have "live ?st x = live st x" if "x \<in> set heap" for x
      using refs_ok_alloc [OF r, of "he_info x"] that by (intro live_Free) auto
    then have eq: "filter (\<lambda>e. live ?st e \<and> he_deadline e \<le> now) heap = filter (\<lambda>e. live st e \<and> he_deadline e \<le> now) heap"
      "dropWhile (\<lambda>e. \<not> (live ?st e \<and> now < he_deadline e)) heap = dropWhile (\<lambda>e. \<not> (live st e \<and> now < he_deadline e)) heap"
      by (auto intro: filter_cong dropWhile_cong)
    have "collect_due now heap ?st = (due, rest, next1, st')"
      using Cons.prems(3) i stale by (auto simp: live_def)
    from Cons.IH [OF r sorted this] eq stale show ?thesis by simp
  next
    case later
    then have "filter (\<lambda>e. live st e \<and> he_deadline e \<le> now) heap = []"
      using Cons.prems(2) by (auto simp: filter_empty_conv)
    with later Cons.prems(3) i show ?thesis by (auto simp: live_def)
  next
    case due
    let ?st = "SendPacketInfo_InvalidateRttSample ?a st"
    obtain due1 where d: "collect_due now heap ?st = (due1, rest, next1, st')" "due = ?a # due1"
      using Cons.prems(3) i due by (auto simp: live_def split: prod.splits)
    have "refs_ok (mset (map he_info (e # heap)) + H) ?st"
      unfolding SendPacketInfo_InvalidateRttSample_def
      by (rule refs_ok_update [OF Cons.prems(1)]) simp_all
    then have r: "refs_ok (mset (map he_info heap) + add_mset ?a H) ?st" by simp
    from Cons.IH [OF r sorted d(1)] d(2) due show ?thesis by simp
  qed
qed auto

text \<open>C17: A round of a retransmission thread takes exactly the packets whose deadline has
  passed and that are neither acknowledged nor scheduled again, in the order of their
  deadlines; what stays in the heap starts at the first live packet that is not due.\<close>

theorem retransmission_takes_exactly_the_due:
  assumes "world_ok n m {#} w" "unat threadId < m" "sorted (map he_deadline (w_schedulers w ! unat threadId))"
    and "take_due now threadId w = (due, w')"
  shows "due = map he_info (filter (\<lambda>e. live (w_store w) e \<and> he_deadline e \<le> now)
                                   (w_schedulers w ! unat threadId)) \<and>
    w_schedulers w' ! unat threadId
      = dropWhile (\<lambda>e. \<not> (live (w_store w) e \<and> now < he_deadline e)) (w_schedulers w ! unat threadId)"
proof -
  let ?t = "unat threadId" and ?hs = "w_schedulers w"
  obtain rest next1 st where c: "collect_due now (?hs ! ?t) (w_store w) = (due, rest, next1, st)"
    and w': "w' = w\<lparr> w_schedulers := ?hs[?t := rest], w_store := st \<rparr>"
    using assms(4) by (auto simp: take_due_def split: prod.splits)
  have t: "?t < length ?hs" using assms(2) world_okD(2) [OF assms(1)] by simp
  have "scheduler_holders ?hs = mset (map he_info (?hs ! ?t)) + scheduler_holders (?hs[?t := []])"
    using scheduler_holders_update [OF t, of "[]"] by (simp add: add_ac)
  then have "refs_ok (mset (map he_info (?hs ! ?t)) + (scheduler_holders (?hs[?t := []]) + session_holders (w_sessions w))) (w_store w)"
    using world_okD(4) [OF assms(1)] by (simp add: holders_def add_ac)
  from collect_due_exact [OF this assms(3) c] t show ?thesis by (simp add: w')
qed

text \<open>A server whose scheduler holds an acknowledged, a due and a later packet.\<close>

definition sample_scheduled :: "unit World" where
  "sample_scheduled =
     (sample_world [])\<lparr>
        w_store := \<lparr> spi_mem = (\<lambda>a. if a = 0 then Some ((sample_info 1)\<lparr> spi_isErasedPacketInfo := True \<rparr>)
                                   else if a = 1 then Some (sample_info 2)
                                   else if a = 2 then Some (sample_info 3) else None), spi_fault = False \<rparr>,
        w_schedulers := [[\<lparr> he_deadline = 5, he_version = 0, he_info = 0 \<rparr>,
                          \<lparr> he_deadline = 6, he_version = 0, he_info = 1 \<rparr>,
                          \<lparr> he_deadline = 9, he_version = 0, he_info = 2 \<rparr>]] \<rparr>"

lemma sample_scheduled_ok: "world_ok 1 1 {#} sample_scheduled"
proof -
  have "holders sample_scheduled = {#0, 1, 2#}"
    by (simp add: holders_def session_holders_def scheduler_holders_def sample_scheduled_def sample_world_def
        sample_session_def sc_holders_def SendContext_new_def)
  then have "refs_ok ({#} + holders sample_scheduled) (w_store sample_scheduled)"
    by (simp add: refs_ok_def sample_scheduled_def sample_info_wf)
  with sample_world_ok(1) [of "[]"] show ?thesis
    by (auto simp: world_ok_def sample_scheduled_def sample_info_def SendPacketInfo_Initialize_def
        info_wf_def split: if_splits)
qed

theorem retransmission_takes_exactly_the_due_witness:
  "fst (take_due 7 0 sample_scheduled) = [1] \<and>
   map he_info (w_schedulers (snd (take_due 7 0 sample_scheduled)) ! 0) = [2]"
proof -
  have "sorted (map he_deadline (w_schedulers sample_scheduled ! unat (0 :: ThreadIdType)))"
    by (simp add: sample_scheduled_def)
  from retransmission_takes_exactly_the_due [OF sample_scheduled_ok _ this, of 7
      "fst (take_due 7 0 sample_scheduled)" "snd (take_due 7 0 sample_scheduled)"]
  show ?thesis
    by (simp add: sample_scheduled_def live_def sample_info_def SendPacketInfo_Initialize_def)
qed

section \<open>A packet that is sent too often ends its session\<close>

lemma DoDisconnect_using:
  assumes "i < length (w_sessions w)" "StateMachine_IsUsingSession (s_stateMachine (get_session i w))"
  shows "sm_state (s_stateMachine (get_session i (Session_DoDisconnect E r i w))) = RELEASING"
    "s_disconnectedReason (get_session i (Session_DoDisconnect E r i w)) = r"
    "Session_IsReleasing (get_session i (Session_DoDisconnect E r i w))"
    "w_releaseSessionIdList (Session_DoDisconnect E r i w)
       = w_releaseSessionIdList w @ [s_sessionId (get_session i w)]"
  using assms TryTransitionToReleasing_result [of "s_stateMachine (get_session i w)"]
  by (auto simp: Session_DoDisconnect_def Core_PushToDisconnectTargetSession_def Let_def ask_def
      get_session_def upd_session_def Session_IsReleasing_def split: prod.splits)

text \<open>When a packet that is not acknowledged has been sent as often as the
  configuration allows, its session (if the packet still belongs to the current use of it)
  is released for that reason, and the packet is not sent again.\<close>

theorem retransmission_limit_releases:
  assumes "world_ok n m L w" "spi_mem (w_store w) a = Some info" "\<not> spi_isErasedPacketInfo info"
    and "spi_owner info = Some ow" "SendPacketInfo_IsOwnerValid w info"
    and "StateMachine_IsUsingSession (s_stateMachine (get_session ow w))"
    and "env_maxPacketRetransmissionCount E \<le> spi_retransmissionCount info + 1"
  shows "let w' = Core_ProcessRetransmission E a threadId w
         in sm_state (s_stateMachine (get_session ow w')) = RELEASING \<and>
            s_disconnectedReason (get_session ow w') = BY_RETRANSMISSION \<and>
            w_releaseSessionIdList w' = w_releaseSessionIdList w @ [s_sessionId (get_session ow w)] \<and>
            w_wire w' = w_wire w"
proof -
  let ?w1 = "upd_store (spi_update a (\<lambda>i. i\<lparr> spi_retransmissionCount := spi_retransmissionCount info + 1 \<rparr>)) w"
  have ow: "ow < length (w_sessions w)"
    using world_okD(1) [OF assms(1)] world_okD(7) [OF assms(1,2)] assms(4) by (auto simp: info_wf_def)
  then have ow1: "ow < length (w_sessions ?w1)" by simp
  have "StateMachine_IsUsingSession (s_stateMachine (get_session ow ?w1))" using assms(6) by simp
  note D = DoDisconnect_using [OF ow1 this, of E BY_RETRANSMISSION]
  have "SendPacketInfo_IsOwnerValid ?w1 info" using assms(4,5) by (simp add: SendPacketInfo_IsOwnerValid_def)
  then have "Core_ProcessRetransmission E a threadId w
      = upd_store (SendPacketInfo_Free a) (Session_DoDisconnect E BY_RETRANSMISSION ow ?w1)"
    using assms(2-4,7) by (simp add: Core_ProcessRetransmission_def spi_get_def Let_def)
  with D DoDisconnect_frame(3) [OF ow1] show ?thesis by (simp add: Let_def)
qed

theorem retransmission_limit_releases_witness:
  "sm_state (s_stateMachine (get_session 0 (Core_ProcessRetransmission
     (sample_env\<lparr> env_maxPacketRetransmissionCount := 1 \<rparr>) 1 0 sample_scheduled))) = RELEASING"
proof -
  have s: "get_session 0 sample_scheduled = sample_session []"
    by (simp add: sample_scheduled_def sample_world_def get_session_def)
  have "let w' = Core_ProcessRetransmission (sample_env\<lparr> env_maxPacketRetransmissionCount := 1 \<rparr>) 1 0 sample_scheduled
     in sm_state (s_stateMachine (get_session 0 w')) = RELEASING \<and>
        s_disconnectedReason (get_session 0 w') = BY_RETRANSMISSION \<and>
        w_releaseSessionIdList w' = w_releaseSessionIdList sample_scheduled @ [s_sessionId (get_session 0 sample_scheduled)] \<and>
        w_wire w' = w_wire sample_scheduled"
    by (rule retransmission_limit_releases [OF sample_scheduled_ok, of 1 "sample_info 2"])
      (simp_all add: s sample_session_def SendPacketInfo_IsOwnerValid_def sample_info_def
        SendPacketInfo_Initialize_def StateMachine_IsUsingSession_def,
       simp add: sample_scheduled_def sample_info_def SendPacketInfo_Initialize_def)
  then show ?thesis by (simp add: Let_def)
qed

end
