(* ===== verification/Session_Release.thy ===== *)
theory Session_Release
  imports Retransmission
begin

text \<open>
  The life of a session: MultiSocketRUDPServer/RUDPSessionManager, the pool of sessions;
  the end of a session in RUDPSession (\<open>Disconnect\<close>, \<open>InitializeSession\<close>) and in the
  release thread of MultiSocketRUDPCore.Workers.cpp, behind the barrier that waits for the
  operations RIO still holds. The index of a session in the pool is its id.
\<close>

section \<open>RUDPSession: the end of a session\<close>

definition Session_CloseSocket :: "'k Session \<Rightarrow> 'k Session" where
  "Session_CloseSocket s = s\<lparr> s_socketContext := SocketContext_CloseSocket (s_socketContext s) \<rparr>"

definition Session_BeginIOShutdown :: "'k Env \<Rightarrow> nat \<Rightarrow> 'k World \<Rightarrow> 'k World" where
  "Session_BeginIOShutdown E i w =
     (let s = get_session i w in
      if s_ioShutdownStarted s then w
      else if pendingRecvLogic (s_recvBuffer s) \<noteq> 0 \<or> s_nowInProcessingRecvPacket s then w
      else let w1 = upd_session i (\<lambda>s. s\<lparr> s_ioShutdownStarted := True \<rparr>) w;
               w2 = (if s_disconnectedReason s \<noteq> BY_ABORT_RESERVED
                     then env_OnDisconnected E i (w1\<lparr> w_events := w_events w1 @ [OnDisconnected i] \<rparr>)
                     else w1)
           in upd_session i Session_CloseSocket w2)"

definition Session_CanFinalizeIO :: "'k Session \<Rightarrow> bool" where
  "Session_CanFinalizeIO s \<longleftrightarrow>
     RIOContext_IsDrained s \<and> s_activeIOCompletions s = 0 \<and> \<not> s_nowInProcessingRecvPacket s"

definition Session_FinalizeRIOCleanup :: "nat \<Rightarrow> 'k World \<Rightarrow> 'k World" where
  "Session_FinalizeRIOCleanup i w = RIOContext_Cleanup i w"

text \<open>The fresh part of \<open>InitializeSession\<close>; the send context is reset with the store.\<close>

definition session_fresh :: "'k Env \<Rightarrow> 'k Session \<Rightarrow> 'k Session" where
  "session_fresh E s =
     s\<lparr> s_sessionGeneration := s_sessionGeneration s + 1,
        s_cryptoContext := CryptoContext_Initialize (s_cryptoContext s),
        s_clientAddr := \<lparr> sin_addr = 0, sin_port = 0 \<rparr>,
        s_nowInReleaseThread := False,
        s_nowInProcessingRecvPacket := False,
        s_ioShutdownStarted := False,
        s_activeIOCompletions := 0,
        s_sessionReservedTime := 0,
        s_onSessionReleaseTime := 0,
        s_lastReceivedPacketTime := 0,
        s_retransmissionTimeoutEstimator :=
          Rto_Configure (env_retransmissionMs E) (env_minRetransmissionMs E) (env_maxRetransmissionMs E)
            (s_retransmissionTimeoutEstimator s),
        s_flowManager := FlowManager_Initialize (env_maximumHoldingPacketQueueSize E) (s_flowManager s) \<rparr>"

definition Session_InitializeSession :: "'k Env \<Rightarrow> nat \<Rightarrow> 'k World \<Rightarrow> 'k World" where
  "Session_InitializeSession E i w =
     (let w1 = upd_session i (session_fresh E) w;
          (sc, st) = SendContext_Reset (get_send i w1) (w_store w1);
          w2 = (set_send i sc w1)\<lparr> w_store := st \<rparr>
      in upd_session i (\<lambda>s. s\<lparr>
           s_sessionPacketOrderer := Orderer_Initialize (env_maximumHoldingPacketQueueSize E)
                                       (s_sessionPacketOrderer s),
           s_disconnectedReason := NOT_DISCONNECTED,
           s_stateMachine := StateMachine_SetDisconnected (s_stateMachine s) \<rparr>) w2)"

section \<open>RUDPSessionManager\<close>

definition Manager_AcquireSession :: "'k World \<Rightarrow> nat option \<times> 'k World" where
  "Manager_AcquireSession w =
     (if \<not> w_isInitialized w then (None, w)
      else case w_unusedSessionIdList w of
             [] \<Rightarrow> (None, w)
           | sessionId # rest \<Rightarrow>
               (Some (unat sessionId),
                w\<lparr> w_unusedSessionIdList := rest,
                   w_unusedSessionIdSet := w_unusedSessionIdSet w - {sessionId} \<rparr>))"

definition Manager_DecrementConnectedCount :: "DISCONNECT_REASON \<Rightarrow> 'k World \<Rightarrow> 'k World" where
  "Manager_DecrementConnectedCount disconnectedReason w =
     (let decrement = (\<lambda>isRetransmissionDisconnect.
            let connectedCount = w_connectedUserCount w in
            if connectedCount = 0 then w
            else let w1 = w\<lparr> w_connectedUserCount := connectedCount - 1 \<rparr>;
                     w2 = (if isRetransmissionDisconnect
                           then w1\<lparr> w_allDisconnectedByRetransmissionCount :=
                                    w_allDisconnectedByRetransmissionCount w1 + 1 \<rparr>
                           else w1)
                 in w2\<lparr> w_allDisconnectedCount := w_allDisconnectedCount w2 + 1 \<rparr>)
      in case disconnectedReason of
           BY_ABORT_RESERVED \<Rightarrow> w
         | BY_RETRANSMISSION \<Rightarrow> decrement True
         | NORMAL \<Rightarrow> decrement False
         | BY_ERROR \<Rightarrow> decrement False
         | NOT_DISCONNECTED \<Rightarrow> w)"

definition Manager_ReleaseSession :: "'k Env \<Rightarrow> SessionIdType \<Rightarrow> 'k World \<Rightarrow> bool \<times> 'k World" where
  "Manager_ReleaseSession E sessionId w =
     (let i = unat sessionId in
      if i \<ge> length (w_sessions w) then (False, w)
      else if sm_state (s_stateMachine (get_session i w)) \<noteq> RELEASING then (False, w)
      else let disconnectedReason = s_disconnectedReason (get_session i w) in
        if sessionId \<in> w_unusedSessionIdSet w then (False, w)
        else let w1 = Session_InitializeSession E i w;
                 w2 = w1\<lparr> w_unusedSessionIdList := w_unusedSessionIdList w1 @ [sessionId],
                          w_unusedSessionIdSet := insert sessionId (w_unusedSessionIdSet w1) \<rparr>
             in (True, Manager_DecrementConnectedCount disconnectedReason w2))"

definition Manager_GetUsingSession :: "SessionIdType \<Rightarrow> 'k World \<Rightarrow> nat option" where
  "Manager_GetUsingSession sessionId w =
     (let i = unat sessionId in
      if i \<ge> length (w_sessions w) \<or> \<not> Session_IsUsingSession (get_session i w) then None else Some i)"

definition Manager_GetReleasingSession :: "SessionIdType \<Rightarrow> 'k World \<Rightarrow> nat option" where
  "Manager_GetReleasingSession sessionId w =
     (let i = unat sessionId in
      if i \<ge> length (w_sessions w) \<or> \<not> Session_IsReleasing (get_session i w) then None else Some i)"

definition Manager_GetUnusedSessionCount :: "'k World \<Rightarrow> ushort" where
  "Manager_GetUnusedSessionCount w = of_nat (length (w_unusedSessionIdList w))"

definition Manager_IsUnusedSession :: "SessionIdType \<Rightarrow> 'k World \<Rightarrow> bool" where
  "Manager_IsUnusedSession sessionId w \<longleftrightarrow> sessionId \<in> w_unusedSessionIdSet w"

text \<open>The body of the loop of \<open>CloseAllSessions\<close>, and the loop.\<close>

definition close_session :: "'k Env \<Rightarrow> nat \<Rightarrow> 'k World \<Rightarrow> 'k World" where
  "close_session E i w =
     (let w1 = (if Session_IsReserved (get_session i w) then Session_AbortReservedSession E i w else w)
      in if Session_IsConnected (get_session i w1) then Session_DoDisconnect E NORMAL i w1 else w1)"

definition Manager_CloseAllSessions :: "'k Env \<Rightarrow> 'k World \<Rightarrow> 'k World" where
  "Manager_CloseAllSessions E w = fold (close_session E) [0..<length (w_sessions w)] w"

definition heartbeat_session :: "'k Env \<Rightarrow> 64 word \<Rightarrow> nat \<Rightarrow> 'k World \<Rightarrow> 'k World" where
  "heartbeat_session E now i w =
     (if \<not> Session_IsUsingSession (get_session i w) then w
      else if Session_IsConnected (get_session i w) then Session_SendHeartbeatPacket E now i w
      else if Session_IsReserved (get_session i w) then
        (if Session_CheckReservedSessionTimeout now (get_session i w)
         then Session_AbortReservedSession E i w else w)
      else w)"

definition Manager_HeartbeatCheck :: "'k Env \<Rightarrow> 64 word \<Rightarrow> 'k World \<Rightarrow> 'k World" where
  "Manager_HeartbeatCheck E now w = fold (heartbeat_session E now) [0..<length (w_sessions w)] w"

definition Core_DisconnectSession :: "'k Env \<Rightarrow> SessionIdType \<Rightarrow> 'k World \<Rightarrow> 'k World" where
  "Core_DisconnectSession E disconnectTargetSessionId w =
     snd (Manager_ReleaseSession E disconnectTargetSessionId w)"

section \<open>Disconnect and the release thread\<close>

definition erase_and_free :: "nat \<Rightarrow> 'k World \<Rightarrow> 'k World" where
  "erase_and_free a w = upd_store (SendPacketInfo_Free a) (Core_MarkSendPacketInfoErased a w)"

definition Session_Disconnect :: "'k Env \<Rightarrow> nat \<Rightarrow> 'k World \<Rightarrow> 'k World" where
  "Session_Disconnect E i w =
     (if \<not> StateMachine_IsReleasing (s_stateMachine (get_session i w)) then w
      else let w1 = Session_BeginIOShutdown E i w in
        if \<not> Session_CanFinalizeIO (get_session i w1) then w1
        else let w2 = Session_FinalizeRIOCleanup i w1;
                 (sc, w3) = SendContext_ForEachAndClearSendPacketInfoMap erase_and_free (get_send i w2) w2;
                 w4 = set_send i sc w3;
                 w5 = (if s_disconnectedReason (get_session i w4) \<noteq> BY_ABORT_RESERVED
                       then env_OnReleased E i (w4\<lparr> w_events := w_events w4 @ [OnReleased i] \<rparr>) else w4)
             in Core_DisconnectSession E (s_sessionId (get_session i w5)) w5)"

definition Core_TakeReleaseSessionIds :: "'k World \<Rightarrow> SessionIdType list \<times> 'k World" where
  "Core_TakeReleaseSessionIds w = (w_releaseSessionIdList w, w\<lparr> w_releaseSessionIdList := [] \<rparr>)"

abbreviation (input) RELEASE_STALL_WARNING_MS :: "64 word" where "RELEASE_STALL_WARNING_MS \<equiv> 10000"

definition Core_LogSessionReleaseStall :: "64 word \<Rightarrow> nat \<Rightarrow> 'k World \<Rightarrow> 'k World" where
  "Core_LogSessionReleaseStall now i w =
     (if s_onSessionReleaseTime (get_session i w) + RELEASE_STALL_WARNING_MS > now then w
      else upd_session i (\<lambda>s. s\<lparr> s_onSessionReleaseTime := now \<rparr>) w)"

definition Core_TryFinalizeSessionRelease ::
    "'k Env \<Rightarrow> 64 word \<Rightarrow> SessionIdType \<Rightarrow> 'k World \<Rightarrow> bool \<times> 'k World" where
  "Core_TryFinalizeSessionRelease E now sessionId w =
     (case Manager_GetReleasingSession sessionId w of
        None \<Rightarrow> (True, w)
      | Some i \<Rightarrow>
          let w1 = Session_BeginIOShutdown E i w
          in if Session_CanFinalizeIO (get_session i w1) then (True, Session_Disconnect E i w1)
             else (False, Core_LogSessionReleaseStall now i w1))"

fun release_ids :: "'k Env \<Rightarrow> 64 word \<Rightarrow> SessionIdType list \<Rightarrow> 'k World \<Rightarrow> SessionIdType list \<times> 'k World" where
  "release_ids E now [] w = ([], w)"
| "release_ids E now (sessionId # ids) w =
     (let (finished, w1) = Core_TryFinalizeSessionRelease E now sessionId w;
          (remainList, w2) = release_ids E now ids w1
      in (if finished then remainList else sessionId # remainList, w2))"

definition Core_RequeueReleaseSessionIds :: "SessionIdType list \<Rightarrow> 'k World \<Rightarrow> 'k World" where
  "Core_RequeueReleaseSessionIds ids w = w\<lparr> w_releaseSessionIdList := w_releaseSessionIdList w @ ids \<rparr>"

text \<open>One round of \<open>RunSessionReleaseThread\<close>.\<close>

definition Core_SessionReleaseRound :: "'k Env \<Rightarrow> 'k World \<Rightarrow> 'k World" where
  "Core_SessionReleaseRound E w =
     (let (now, w1) = ask (env_tickCount E) w;
          (ids, w2) = Core_TakeReleaseSessionIds w1;
          (remainList, w3) = release_ids E now ids w2
      in Core_RequeueReleaseSessionIds remainList w3)"

section \<open>Creating the pool\<close>

text \<open>\<open>session\<close> is what the factory of the content returns, None for a null pointer.\<close>

fun create_sessions :: "'k Env \<Rightarrow> byte \<Rightarrow> 'k Session option list \<Rightarrow> 'k World \<Rightarrow> bool \<times> 'k World" where
  "create_sessions E numOfWorkerThreads [] w = (True, w)"
| "create_sessions E numOfWorkerThreads (None # fs) w = (False, w)"
| "create_sessions E numOfWorkerThreads (Some s # fs) w =
     (let i = length (w_sessions w);
          s1 = s\<lparr> s_sessionId := of_nat i, s_threadId := of_nat (i mod unat numOfWorkerThreads) \<rparr>;
          w1 = Session_InitializeSession E i (w\<lparr> w_sessions := w_sessions w @ [s1] \<rparr>);
          w2 = w1\<lparr> w_unusedSessionIdList := w_unusedSessionIdList w1 @ [of_nat i],
                   w_unusedSessionIdSet := insert (of_nat i) (w_unusedSessionIdSet w1) \<rparr>
      in create_sessions E numOfWorkerThreads fs w2)"

definition Manager_Initialize :: "'k Env \<Rightarrow> byte \<Rightarrow> 'k Session option list \<Rightarrow> 'k World \<Rightarrow> bool \<times> 'k World" where
  "Manager_Initialize E inNumOfWorkerThreads factory w =
     (if w_isInitialized w then (True, w)
      else if inNumOfWorkerThreads = 0 then (False, w)
      else let (ok, w1) = create_sessions E inNumOfWorkerThreads factory
                            (w\<lparr> w_sessions := [], w_unusedSessionIdList := [], w_unusedSessionIdSet := {} \<rparr>)
           in if \<not> ok then (False, w) else (True, w1\<lparr> w_isInitialized := True \<rparr>))"

section \<open>The counts stay exact\<close>

lemma refs_Reset_any:
  assumes "refs_ok (sc_holders sc + H) st" "sc_wf sc" "SendContext_Reset sc st = (sc', st')"
  shows "refs_ok (sc_holders sc' + H) st'" "sc_wf sc'" "sc_rioSendBuffer sc' = sc_rioSendBuffer sc"
proof -
  let ?st1 = "case sc_reservedSendPacketInfo sc of None \<Rightarrow> st | Some a \<Rightarrow> SendPacketInfo_Free a st"
  let ?M = "mset (map snd (sc_sendPacketInfoMap sc))"
  have "refs_ok ((?M + H) + mset (sc_sendPacketInfoQueue sc)) ?st1"
    using assms(1) refs_ok_Free by (auto simp: sc_holders_def add_ac split: option.splits)
  from refs_ok_Free_all [OF this] show "refs_ok (sc_holders sc' + H) st'"
    using assms(3) by (auto simp: SendContext_Reset_def Let_def free_queue_fold sc_holders_def)
  show "sc_wf sc'" "sc_rioSendBuffer sc' = sc_rioSendBuffer sc"
    using assms(2,3) ClearPendingQueue_empty [of "sc_pendingPacketQueue sc"]
    by (auto simp: SendContext_Reset_def Let_def sc_wf_def)
qed

lemma Reset_infos:
  assumes "\<And>a i. spi_mem st a = Some i \<Longrightarrow> info_wf n i" "SendContext_Reset sc st = (sc', st')"
    and "spi_mem st' a = Some i"
  shows "info_wf n i"
proof -
  have f: "info_wf n i" if "spi_mem (free_queue q st1) a = Some i" "\<And>a i. spi_mem st1 a = Some i \<Longrightarrow> info_wf n i"
    for q st1 a i
    using free_queue_infos [of st1 n q] that by blast
  have "spi_mem (case sc_reservedSendPacketInfo sc of None \<Rightarrow> st | Some a \<Rightarrow> SendPacketInfo_Free a st) a = Some i
      \<Longrightarrow> info_wf n i" for a i
    using Free_infos [of st n] assms(1) by (auto split: option.splits)
  with f assms(2,3) show ?thesis by (auto simp: SendContext_Reset_def Let_def)
qed

lemma world_ok_InitializeSession:
  assumes "world_ok n m L w" "i < n"
  shows "world_ok n m L (Session_InitializeSession E i w)"
proof -
  let ?w1 = "upd_session i (session_fresh E) w"
  have w1: "world_ok n m L ?w1"
    using assms by (rule world_ok_upd_session_frame) (simp_all add: session_fresh_def)
  obtain sc st where r: "SendContext_Reset (get_send i ?w1) (w_store ?w1) = (sc, st)"
    by (cases "SendContext_Reset (get_send i ?w1) (w_store ?w1)")
  have "refs_ok (sc_holders (get_send i ?w1) + (L + others i ?w1)) (w_store ?w1)"
    using world_okD(4) [OF w1] holders_split [OF world_ok_len [OF w1 assms(2)]] by (simp add: add_ac)
  note reset = refs_Reset_any [OF this world_ok_send_wf(1) [OF w1 assms(2)] r]
  have "spi_mem st a = Some j \<Longrightarrow> info_wf n j" for a j
    using Reset_infos [OF _ r] world_okD(7) [OF w1] by blast
  moreover have "refs_ok (L + (sc_holders sc + others i ?w1)) st" using reset(1) by (simp add: add_ac)
  ultimately have "world_ok n m L ((set_send i sc ?w1)\<lparr> w_store := st \<rparr>)"
    using world_ok_send_store [OF w1 assms(2) reset(2)] reset(3) by simp
  then have "world_ok n m L (upd_session i (\<lambda>s. s\<lparr>
      s_sessionPacketOrderer := Orderer_Initialize (env_maximumHoldingPacketQueueSize E) (s_sessionPacketOrderer s),
      s_disconnectedReason := NOT_DISCONNECTED,
      s_stateMachine := StateMachine_SetDisconnected (s_stateMachine s) \<rparr>)
      ((set_send i sc ?w1)\<lparr> w_store := st \<rparr>))"
    using assms(2) by (rule world_ok_upd_session_frame) simp_all
  then show ?thesis using r by (simp add: Session_InitializeSession_def Let_def)
qed

lemma world_ok_BeginIOShutdown:
  assumes "world_ok n m L w" "i < n" "content_law E n m"
  shows "world_ok n m L (Session_BeginIOShutdown E i w)"
proof -
  let ?w1 = "upd_session i (\<lambda>s. s\<lparr> s_ioShutdownStarted := True \<rparr>) w"
  have w1: "world_ok n m L ?w1" using assms(1,2) by (rule world_ok_upd_session_frame) simp_all
  have close: "world_ok n m L (upd_session i Session_CloseSocket v)" if "world_ok n m L v" for v :: "'a World"
    using that assms(2) by (rule world_ok_upd_session_frame) (simp_all add: Session_CloseSocket_def)
  have "world_ok n m L (env_OnDisconnected E i (?w1\<lparr> w_events := es \<rparr>))" for es
    by (rule content_lawD(3) [OF assms(3,2) world_ok_event [OF w1]])
  with close w1 assms(1) show ?thesis by (simp add: Session_BeginIOShutdown_def Let_def)
qed

lemma world_ok_FinalizeRIOCleanup:
  assumes "world_ok n m L w" "i < n"
  shows "world_ok n m L (Session_FinalizeRIOCleanup i w)"
  unfolding Session_FinalizeRIOCleanup_def by (rule world_ok_RIOContext_Cleanup [OF assms])

text \<open>The map is emptied first: its references are then those of the loop, which gives back
  each once.\<close>

lemma erase_and_free_set_send:
  "erase_and_free a (set_send i sc w) = set_send i sc (erase_and_free a w)"
  by (simp add: erase_and_free_def Core_MarkSendPacketInfoErased_def fault_def set_send_def upd_session_def
      upd_store_def split: option.split)

lemma fold_erase_set_send:
  "fold erase_and_free as (set_send i sc w) = set_send i sc (fold erase_and_free as w)"
  by (induction as arbitrary: w) (simp_all add: erase_and_free_set_send)

lemma world_ok_erase_and_free:
  assumes "world_ok n m (add_mset a L) w"
  shows "world_ok n m L (erase_and_free a w)"
  unfolding erase_and_free_def
  by (rule world_ok_Free [OF world_ok_MarkErased [OF assms]]) simp

lemma world_ok_fold_erase:
  "world_ok n m (mset as + L) w \<Longrightarrow> world_ok n m L (fold erase_and_free as w)"
  by (induction as arbitrary: w) (simp_all add: world_ok_erase_and_free)

lemma world_ok_ClearMap:
  assumes "world_ok n m L w" "i < n"
    and "SendContext_ForEachAndClearSendPacketInfoMap erase_and_free (get_send i w) w = (sc, w')"
  shows "world_ok n m L (set_send i sc w')"
proof -
  let ?as = "map snd (sc_sendPacketInfoMap (get_send i w))"
  have sc: "sc = (get_send i w)\<lparr> sc_sendPacketInfoMap := [] \<rparr>" "w' = fold erase_and_free ?as w"
    using assms(3) by (simp_all add: SendContext_ForEachAndClearSendPacketInfoMap_def)
  have "world_ok n m (mset ?as + L) (set_send i sc w)"
    using world_ok_send_wf [OF assms(1,2)]
    by (intro world_ok_set_send [OF assms(1,2)]) (simp_all add: sc(1) sc_wf_def sc_holders_def)
  then show ?thesis unfolding sc(2) fold_erase_set_send [symmetric] by (rule world_ok_fold_erase)
qed

lemma world_ok_pool:
  "world_ok n m L w \<Longrightarrow> world_ok n m L (w\<lparr> w_unusedSessionIdList := l, w_unusedSessionIdSet := S \<rparr>)"
  "world_ok n m L w \<Longrightarrow> world_ok n m L (w\<lparr> w_releaseSessionIdList := l \<rparr>)"
  by (rule world_ok_cong; simp)+

lemma world_ok_DecrementConnectedCount:
  "world_ok n m L w \<Longrightarrow> world_ok n m L (Manager_DecrementConnectedCount r w)"
  by (cases r) (simp_all add: Manager_DecrementConnectedCount_def Let_def world_ok_def holders_def)

lemma world_ok_ReleaseSession:
  assumes "Manager_ReleaseSession E sessionId w = (ok, w')" "world_ok n m L w"
  shows "world_ok n m L w'"
proof (cases "unat sessionId < n")
  case True
  note i = world_ok_InitializeSession [OF assms(2) True, of E]
  have "world_ok n m L (Manager_DecrementConnectedCount r ((Session_InitializeSession E (unat sessionId) w)
      \<lparr> w_unusedSessionIdList := l, w_unusedSessionIdSet := S \<rparr>))" for r l S
    by (intro world_ok_DecrementConnectedCount world_ok_pool i)
  with assms show ?thesis by (auto simp: Manager_ReleaseSession_def Let_def split: if_splits)
qed (use assms world_okD(1) [OF assms(2)] in \<open>auto simp: Manager_ReleaseSession_def\<close>)

lemma world_ok_Disconnect:
  assumes "world_ok n m L w" "i < n" "content_law E n m"
  shows "world_ok n m L (Session_Disconnect E i w)"
proof -
  define w1 where "w1 = Session_BeginIOShutdown E i w"
  define w2 where "w2 = Session_FinalizeRIOCleanup i w1"
  obtain sc w3 where c: "SendContext_ForEachAndClearSendPacketInfoMap erase_and_free (get_send i w2) w2 = (sc, w3)"
    by (cases "SendContext_ForEachAndClearSendPacketInfoMap erase_and_free (get_send i w2) w2")
  define w4 where "w4 = set_send i sc w3"
  have w1: "world_ok n m L w1" unfolding w1_def by (rule world_ok_BeginIOShutdown [OF assms])
  have w2: "world_ok n m L w2" unfolding w2_def by (rule world_ok_FinalizeRIOCleanup [OF w1 assms(2)])
  have w4: "world_ok n m L w4" unfolding w4_def by (rule world_ok_ClearMap [OF w2 assms(2) c])
  have "world_ok n m L (env_OnReleased E i (w4\<lparr> w_events := es \<rparr>))" for es
    by (rule content_lawD(4) [OF assms(3,2) world_ok_event [OF w4]])
  then have "world_ok n m L (if s_disconnectedReason (get_session i w4) \<noteq> BY_ABORT_RESERVED
      then env_OnReleased E i (w4\<lparr> w_events := w_events w4 @ [OnReleased i] \<rparr>) else w4)"
    using w4 by simp
  then have "world_ok n m L (Core_DisconnectSession E q (if s_disconnectedReason (get_session i w4) \<noteq> BY_ABORT_RESERVED
      then env_OnReleased E i (w4\<lparr> w_events := w_events w4 @ [OnReleased i] \<rparr>) else w4))" for q
    unfolding Core_DisconnectSession_def by (rule world_ok_ReleaseSession [OF prod.collapse [symmetric]])
  with w1 assms(1) show ?thesis
    unfolding Session_Disconnect_def w1_def [symmetric] Let_def w2_def [symmetric] c prod.case w4_def [symmetric]
    by simp
qed

lemma world_ok_TryFinalize:
  assumes "Core_TryFinalizeSessionRelease E now sessionId w = (fin, w')" "world_ok n m L w" "content_law E n m"
  shows "world_ok n m L w'"
proof (cases "Manager_GetReleasingSession sessionId w")
  case (Some i)
  then have i: "i < n" using world_okD(1) [OF assms(2)]
    by (auto simp: Manager_GetReleasingSession_def Let_def split: if_splits)
  note w1 = world_ok_BeginIOShutdown [OF assms(2) i assms(3)]
  have "world_ok n m L (upd_session i (\<lambda>s. s\<lparr> s_onSessionReleaseTime := now \<rparr>) (Session_BeginIOShutdown E i w))"
    using w1 i by (rule world_ok_upd_session_frame) simp_all
  with assms(1) Some w1 world_ok_Disconnect [OF w1 i assms(3)] show ?thesis
    by (auto simp: Core_TryFinalizeSessionRelease_def Core_LogSessionReleaseStall_def Let_def split: if_splits)
qed (use assms in \<open>simp add: Core_TryFinalizeSessionRelease_def\<close>)

lemma world_ok_release_ids:
  "release_ids E now ids w = (rest, w') \<Longrightarrow> world_ok n m L w \<Longrightarrow> content_law E n m \<Longrightarrow> world_ok n m L w'"
  by (induction ids arbitrary: w rest) (auto split: prod.splits dest: world_ok_TryFinalize)

lemma world_ok_SessionReleaseRound:
  assumes "world_ok n m L w" "content_law E n m"
  shows "world_ok n m L (Core_SessionReleaseRound E w)"
proof -
  obtain now w1 where a: "ask (env_tickCount E) w = (now, w1)" by (cases "ask (env_tickCount E) w")
  let ?w2 = "w1\<lparr> w_releaseSessionIdList := [] \<rparr>"
  obtain rest w3 where r: "release_ids E now (w_releaseSessionIdList w1) ?w2 = (rest, w3)"
    by (cases "release_ids E now (w_releaseSessionIdList w1) ?w2")
  have "world_ok n m L w3"
    by (rule world_ok_release_ids [OF r world_ok_pool(2) [OF world_ok_ask [OF assms(1) a]] assms(2)])
  with a r show ?thesis
    by (simp add: Core_SessionReleaseRound_def Core_TakeReleaseSessionIds_def Core_RequeueReleaseSessionIds_def
        world_ok_pool)
qed

lemma world_ok_fold:
  assumes "\<And>i w. i \<in> set is \<Longrightarrow> world_ok n m L w \<Longrightarrow> world_ok n m L (g i w)" "world_ok n m L w"
  shows "world_ok n m L (fold g is w)"
  using assms by (induction "is" arbitrary: w) simp_all

lemma world_ok_heartbeat_session:
  "world_ok n m L w \<Longrightarrow> i < n \<Longrightarrow> spi_alloc_law E \<Longrightarrow> world_ok n m L (heartbeat_session E now i w)"
  using world_ok_SendHeartbeat world_ok_AbortReserved by (auto simp: heartbeat_session_def)

lemma world_ok_close_session:
  "world_ok n m L w \<Longrightarrow> i < n \<Longrightarrow> world_ok n m L (close_session E i w)"
  using world_ok_DoDisconnect world_ok_AbortReserved [of n m L w i E] by (auto simp: close_session_def Let_def)

lemma world_ok_HeartbeatCheck:
  assumes "world_ok n m L w" "spi_alloc_law E"
  shows "world_ok n m L (Manager_HeartbeatCheck E now w)"
  unfolding Manager_HeartbeatCheck_def world_okD(1) [OF assms(1)]
  by (rule world_ok_fold [OF _ assms(1)]) (auto intro: world_ok_heartbeat_session assms(2))

lemma world_ok_CloseAllSessions:
  assumes "world_ok n m L w"
  shows "world_ok n m L (Manager_CloseAllSessions E w)"
  unfolding Manager_CloseAllSessions_def world_okD(1) [OF assms]
  by (rule world_ok_fold [OF _ assms]) (auto intro: world_ok_close_session)

end
