(* ===== verification/Server_Frame.thy ===== *)
theory Server_Frame
  imports Session_Release
begin

text \<open>
  An abstract specification of the server: of each session only its state, its identity and
  what the barrier counts, the pool, the list of sessions to release, what is posted to RIO
  and what waits for the logic threads (\<open>frame\<close>). Sending, receiving, timers and the
  content change it by three kinds of steps only (\<open>effect\<close>): a reserved session connects, a
  session in use is claimed for release, and one datagram is posted. Each handler is shown
  to refine runs of these steps (\<open>evolves\<close>).
\<close>

section \<open>The abstract state\<close>

record SessionFrame =
  fr_state :: SESSION_STATE
  fr_id :: SessionIdType
  fr_releasing :: bool
  fr_shutdown :: bool
  fr_generation :: "32 word"
  fr_recvBuffer :: RecvBuffer
  fr_ioMode :: IO_MODE
  fr_active :: "32 word"
  fr_processing :: bool

record Frame =
  fr_sessions :: "SessionFrame list"
  fr_unused :: "SessionIdType list"
  fr_unusedSet :: "SessionIdType set"
  fr_release :: "SessionIdType list"
  fr_posted :: "posted list"
  fr_queues :: "RecvIOCompletedContext list list"

definition session_frame :: "'k Session \<Rightarrow> SessionFrame" where
  "session_frame s =
     \<lparr> fr_state = sm_state (s_stateMachine s), fr_id = s_sessionId s,
       fr_releasing = s_nowInReleaseThread s, fr_shutdown = s_ioShutdownStarted s,
       fr_generation = s_sessionGeneration s, fr_recvBuffer = s_recvBuffer s,
       fr_ioMode = sc_ioMode (s_sendContext s), fr_active = s_activeIOCompletions s,
       fr_processing = s_nowInProcessingRecvPacket s \<rparr>"

definition frame :: "'k World \<Rightarrow> Frame" where
  "frame w = \<lparr> fr_sessions = map session_frame (w_sessions w), fr_unused = w_unusedSessionIdList w,
     fr_unusedSet = w_unusedSessionIdSet w, fr_release = w_releaseSessionIdList w,
     fr_posted = w_posted w, fr_queues = w_recvIOCompletedContexts w \<rparr>"

definition upd_frame :: "nat \<Rightarrow> (SessionFrame \<Rightarrow> SessionFrame) \<Rightarrow> Frame \<Rightarrow> Frame" where
  "upd_frame i g f = f\<lparr> fr_sessions := (fr_sessions f)[i := g (fr_sessions f ! i)] \<rparr>"

definition release_frame :: "nat \<Rightarrow> Frame \<Rightarrow> Frame" where
  "release_frame i f =
     (upd_frame i (\<lambda>s. s\<lparr> fr_state := RELEASING, fr_releasing := True \<rparr>) f)
       \<lparr> fr_release := fr_release f @ [fr_id (fr_sessions f ! i)] \<rparr>"

definition mode_frame :: "IO_MODE \<Rightarrow> nat \<Rightarrow> Frame \<Rightarrow> Frame" where
  "mode_frame mode i = upd_frame i (\<lambda>s. s\<lparr> fr_ioMode := mode \<rparr>)"

definition post_frame :: "posted \<Rightarrow> Frame \<Rightarrow> Frame" where
  "post_frame p f = f\<lparr> fr_posted := fr_posted f @ [p] \<rparr>"

definition frame_using :: "nat \<Rightarrow> Frame \<Rightarrow> bool" where
  "frame_using i f \<longleftrightarrow> fr_state (fr_sessions f ! i) = RESERVED \<or> fr_state (fr_sessions f ! i) = CONNECTED"

text \<open>A context that belongs to the present use of session \<open>i\<close>.\<close>

definition current_send :: "nat \<Rightarrow> Frame \<Rightarrow> IOContext \<Rightarrow> bool" where
  "current_send i f c \<longleftrightarrow> io_session c = Some i \<and> io_ioType c = OP_SEND \<and>
     io_ownerSessionId c = fr_id (fr_sessions f ! i) \<and>
     io_ownerSessionGeneration c = fr_generation (fr_sessions f ! i)"

inductive effect :: "Frame \<Rightarrow> Frame \<Rightarrow> bool" where
  effect_connect: "i < length (fr_sessions f) \<Longrightarrow> fr_state (fr_sessions f ! i) = RESERVED \<Longrightarrow>
     effect f (upd_frame i (\<lambda>s. s\<lparr> fr_state := CONNECTED \<rparr>) f)"
| effect_release: "i < length (fr_sessions f) \<Longrightarrow> frame_using i f \<Longrightarrow> effect f (release_frame i f)"
| effect_post: "i < length (fr_sessions f) \<Longrightarrow> fr_ioMode (fr_sessions f ! i) = IO_NONE_SENDING \<Longrightarrow>
     \<not> fr_releasing (fr_sessions f ! i) \<Longrightarrow> current_send i f c \<Longrightarrow> effect f (post_frame (PostedSend c) (mode_frame IO_SENDING i f))"

definition evolves :: "'k World \<Rightarrow> 'k World \<Rightarrow> bool" where
  "evolves w w' \<longleftrightarrow> effect\<^sup>*\<^sup>* (frame w) (frame w')"

lemma evolves_refl [simp]: "evolves w w"
  by (simp add: evolves_def)

lemma evolves_quiet: "frame w' = frame w \<Longrightarrow> evolves w w'"
  by (simp add: evolves_def)

lemma evolves_trans: "evolves u v \<Longrightarrow> evolves v w \<Longrightarrow> evolves u w"
  by (simp add: evolves_def)

lemma evolves_quiet_left: "frame v = frame u \<Longrightarrow> evolves v w \<longleftrightarrow> evolves u w"
  by (simp add: evolves_def)

lemma evolves_quiet_right: "frame v = frame w \<Longrightarrow> evolves u v \<longleftrightarrow> evolves u w"
  by (simp add: evolves_def)

lemma effect_length: "effect f f' \<Longrightarrow> length (fr_sessions f') = length (fr_sessions f)"
  by (induction rule: effect.induct)
     (simp_all add: upd_frame_def release_frame_def post_frame_def mode_frame_def)

lemma effects_length: "effect\<^sup>*\<^sup>* f f' \<Longrightarrow> length (fr_sessions f') = length (fr_sessions f)"
  by (induction rule: rtranclp_induct) (simp_all add: effect_length)

lemma evolves_length: "evolves w w' \<Longrightarrow> length (w_sessions w') = length (w_sessions w)"
  using effects_length [of "frame w" "frame w'"] by (simp add: evolves_def frame_def)

section \<open>What leaves the abstract state alone\<close>

lemma frame_sessions [simp]: "fr_sessions (frame w) = map session_frame (w_sessions w)"
  by (simp add: frame_def)

lemma frame_upd_session_quiet:
  assumes "session_frame (f (get_session i w)) = session_frame (get_session i w)"
  shows "frame (upd_session i f w) = frame w"
proof -
  have "map session_frame ((w_sessions w)[i := f (get_session i w)]) = map session_frame (w_sessions w)"
    using assms list_update_id [of "map session_frame (w_sessions w)" i]
    by (cases "i < length (w_sessions w)") (auto simp: map_update get_session_def not_less list_update_beyond)
  then show ?thesis by (simp add: frame_def upd_session_def get_session_def)
qed

lemma frame_set_send [simp]:
  "sc_ioMode sc = sc_ioMode (get_send i w) \<Longrightarrow> frame (set_send i sc w) = frame w"
  unfolding set_send_def by (rule frame_upd_session_quiet) (simp add: session_frame_def get_send_def)

lemma frame_ask: "ask f w = (x, w') \<Longrightarrow> frame w' = frame w"
  by (auto simp: ask_def frame_def)

lemma frame_fields [simp]:
  "frame (upd_store g w) = frame w" "frame (w\<lparr> w_store := st \<rparr>) = frame w"
  "frame (w\<lparr> w_schedulers := hs, w_store := st \<rparr>) = frame w" "frame (fault w) = frame w"
  "frame (w\<lparr> w_schedulers := hs \<rparr>) = frame w"
  "frame (w\<lparr> w_bufferOverrun := b \<rparr>) = frame w" "frame (w\<lparr> w_events := es \<rparr>) = frame w"
  "frame (w\<lparr> w_tps := t \<rparr>) = frame w" "frame (w\<lparr> w_wire := ws \<rparr>) = frame w"
  "frame (w\<lparr> w_query := q \<rparr>) = frame w" "frame (Manager_IncrementConnectedCount w) = frame w"
  by (simp_all add: frame_def upd_store_def fault_def Manager_IncrementConnectedCount_def)

lemma frame_upd_session:
  assumes "i < length (w_sessions w)" "\<And>s. session_frame (f s) = g (session_frame s)"
  shows "frame (upd_session i f w) = upd_frame i g (frame w)"
  using assms by (simp add: frame_def upd_session_def upd_frame_def map_update)

lemma frame_nth:
  "i < length (w_sessions w) \<Longrightarrow> fr_sessions (frame w) ! i = session_frame (get_session i w)"
  by (simp add: get_session_def)

lemma frame_set_ioMode:
  "i < length (w_sessions w) \<Longrightarrow> frame (set_ioMode mode i w) = mode_frame mode i (frame w)"
  unfolding set_ioMode_def set_send_def mode_frame_def
  by (simp add: frame_def upd_session_def upd_frame_def map_update get_send_def get_session_def session_frame_def)

section \<open>Ending a session\<close>

text \<open>Nothing, or the claim of session \<open>i\<close>.\<close>

definition mild :: "nat \<Rightarrow> Frame \<Rightarrow> Frame \<Rightarrow> bool" where
  "mild i f f' \<longleftrightarrow> f' = f \<or> frame_using i f \<and> f' = release_frame i f"

lemma mild_refl [simp]: "mild i f f"
  by (simp add: mild_def)

lemma mild_trans:
  assumes "i < length (fr_sessions f)" "mild i f g" "mild i g h"
  shows "mild i f h"
  using assms by (auto simp: mild_def frame_using_def release_frame_def upd_frame_def)

lemma mild_effects: "i < length (fr_sessions f) \<Longrightarrow> mild i f f' \<Longrightarrow> effect\<^sup>*\<^sup>* f f'"
  by (auto simp: mild_def intro: effect_release)

lemma mild_evolves: "i < length (w_sessions w) \<Longrightarrow> mild i (frame w) (frame w') \<Longrightarrow> evolves w w'"
  unfolding evolves_def by (rule mild_effects) simp_all

lemma mild_length: "mild i (frame w) (frame w') \<Longrightarrow> length (w_sessions w') = length (w_sessions w)"
  unfolding mild_def
  by (elim disjE conjE; drule arg_cong [where f = "\<lambda>f. length (fr_sessions f)"];
      simp add: release_frame_def upd_frame_def)

lemma frame_PushToDisconnect:
  assumes "i < length (w_sessions w)"
  shows "frame (Core_PushToDisconnectTargetSession E i w)
    = (upd_frame i (\<lambda>s. s\<lparr> fr_releasing := True \<rparr>) (frame w))
        \<lparr> fr_release := w_releaseSessionIdList w @ [s_sessionId (get_session i w)] \<rparr>"
  using assms by (simp add: Core_PushToDisconnectTargetSession_def ask_def frame_def upd_frame_def Let_def
      upd_session_def get_session_def map_update session_frame_def)

lemma frame_release_update:
  assumes "i < length (w_sessions w)"
    "\<And>s. session_frame (f s) = (session_frame s)\<lparr> fr_state := RELEASING, fr_releasing := True \<rparr>"
    "\<And>s. s_sessionId (f s) = s_sessionId s"
  shows "frame (Core_PushToDisconnectTargetSession E i (upd_session i f w)) = release_frame i (frame w)"
proof -
  have l: "i < length (w_sessions (upd_session i f w))" using assms(1) by simp
  show ?thesis
    unfolding frame_PushToDisconnect [OF l]
      frame_upd_session [OF assms(1), where g = "\<lambda>s. s\<lparr> fr_state := RELEASING, fr_releasing := True \<rparr>", OF assms(2)]
    using assms(1,3)
    by (simp add: release_frame_def upd_frame_def frame_nth session_frame_def frame_def get_session_def
        upd_session_def)
qed

lemma upd_session_twice: "upd_session i f (upd_session i g w) = upd_session i (f \<circ> g) w"
  by (cases "i < length (w_sessions w)") (simp_all add: upd_session_def not_less list_update_beyond)

lemma mild_DoDisconnect:
  assumes "i < length (w_sessions w)"
  shows "mild i (frame w) (frame (Session_DoDisconnect E r i w))"
proof (cases "StateMachine_IsUsingSession (s_stateMachine (get_session i w))")
  case True
  let ?sm = "snd (StateMachine_TryTransitionToReleasing (s_stateMachine (get_session i w)))"
  have sm: "sm_state ?sm = RELEASING" using True by (simp add: TryTransitionToReleasing_result)
  have "Session_DoDisconnect E r i w = Core_PushToDisconnectTargetSession E i (upd_session i
      ((\<lambda>s. s\<lparr> s_disconnectedReason := r, s_nowInReleaseThread := True \<rparr>) \<circ> (\<lambda>s. s\<lparr> s_stateMachine := ?sm \<rparr>)) w)"
    using True TryTransitionToReleasing_result(1) [of "s_stateMachine (get_session i w)"]
    by (simp add: Session_DoDisconnect_def split_beta Let_def upd_session_twice)
  then have "frame (Session_DoDisconnect E r i w) = release_frame i (frame w)"
    using frame_release_update [OF assms] sm by (simp add: session_frame_def)
  with True assms show ?thesis
    by (auto simp: mild_def frame_using_def get_session_def session_frame_def StateMachine_IsUsingSession_def)
next
  case False
  have same: "snd (StateMachine_TryTransitionToReleasing sm) = sm" if "\<not> StateMachine_IsUsingSession sm" for sm
    using that by (simp add: StateMachine_defs)
  have "frame (upd_session i (\<lambda>s. s\<lparr> s_stateMachine :=
      snd (StateMachine_TryTransitionToReleasing (s_stateMachine (get_session i w))) \<rparr>) w) = frame w"
    using same [OF False] by (intro frame_upd_session_quiet) (simp add: session_frame_def)
  then show ?thesis
    using False TryTransitionToReleasing_result(1) [of "s_stateMachine (get_session i w)"]
    by (simp add: Session_DoDisconnect_def split_beta Let_def)
qed

lemma mild_AbortReserved:
  assumes "i < length (w_sessions w)"
  shows "mild i (frame w) (frame (Session_AbortReservedSession E i w))"
proof (cases "sm_state (s_stateMachine (get_session i w)) = RESERVED")
  case True
  let ?sm = "snd (StateMachine_TryAbortReserved (s_stateMachine (get_session i w)))"
  have sm: "sm_state ?sm = RELEASING" using True by (simp add: TryAbortReserved_result)
  have "Session_AbortReservedSession E i w = Core_PushToDisconnectTargetSession E i (upd_session i
      ((\<lambda>s. s\<lparr> s_nowInReleaseThread := True, s_disconnectedReason := BY_ABORT_RESERVED \<rparr>) \<circ> (\<lambda>s. s\<lparr> s_stateMachine := ?sm \<rparr>)) w)"
    using True TryAbortReserved_result(1) [of "s_stateMachine (get_session i w)"]
    by (simp add: Session_AbortReservedSession_def split_beta Let_def upd_session_twice)
  then have "frame (Session_AbortReservedSession E i w) = release_frame i (frame w)"
    using frame_release_update [OF assms] sm by (simp add: session_frame_def)
  with True assms show ?thesis
    by (auto simp: mild_def frame_using_def get_session_def session_frame_def)
next
  case False
  have same: "snd (StateMachine_TryAbortReserved sm) = sm" if "sm_state sm \<noteq> RESERVED" for sm
    using that by (simp add: StateMachine_defs)
  have "frame (upd_session i (\<lambda>s. s\<lparr> s_stateMachine :=
      snd (StateMachine_TryAbortReserved (s_stateMachine (get_session i w))) \<rparr>) w) = frame w"
    using same [OF False] by (intro frame_upd_session_quiet) (simp add: session_frame_def)
  then show ?thesis
    using False TryAbortReserved_result(1) [of "s_stateMachine (get_session i w)"]
    by (simp add: Session_AbortReservedSession_def split_beta Let_def)
qed

section \<open>RUDPIOHandler, sending\<close>

lemma frame_Refresh:
  "IOHandler_RefreshRetransmissionSendPacketInfo E a threadId w = (ok, w') \<Longrightarrow> frame w' = frame w"
  by (auto simp: IOHandler_RefreshRetransmissionSendPacketInfo_def Let_def split: option.splits prod.splits if_splits
      dest: frame_ask)

text \<open>A step of packing leaves the abstract state alone unless it fails; then it may have
  claimed the session.\<close>

definition packs :: "nat \<Rightarrow> bool \<Rightarrow> 'k World \<Rightarrow> 'k World \<Rightarrow> bool" where
  "packs i failed w w' \<longleftrightarrow> mild i (frame w) (frame w') \<and> (\<not> failed \<longrightarrow> frame w' = frame w)"

lemma packs_same: "frame w' = frame w \<Longrightarrow> packs i failed w w'"
  by (simp add: packs_def)

lemma packs_length: "packs i failed w w' \<Longrightarrow> length (w_sessions w') = length (w_sessions w)"
  by (simp add: packs_def mild_length [of i w w'])

lemma packs_disconnect:
  assumes "i < length (w_sessions w)" "frame v = frame w" "length (w_sessions v) = length (w_sessions w)"
  shows "packs i True w (upd_store g (Session_DoDisconnect E r i v))"
  using mild_DoDisconnect [of i v E r] assms by (simp add: packs_def)

lemma ioMode_write [simp]:
  "sc_ioMode (stream_write off bs sc) = sc_ioMode sc" "sc_ioMode (insert_key key sc) = sc_ioMode sc"
  by (simp_all add: stream_write_def insert_key_def)

lemma packs_Stored:
  assumes "IOHandler_StoredSendPacketInfoToStream E i t threadId w = (r, t', w')" "i < length (w_sessions w)"
  shows "packs i (r = OCCURED_ERROR) w w'"
proof (cases "SendContext_TryGetFrontAndPop (get_send i w)")
  case (Pair res sc)
  show ?thesis
  proof (cases res)
    case None
    then show ?thesis using assms(1) Pair
      by (auto simp: IOHandler_StoredSendPacketInfoToStream_def packs_same)
  next
    case (Some a)
    define w1 where "w1 = set_send i sc w"
    have "sc_ioMode sc = sc_ioMode (get_send i w)"
      using Pair Some by (auto simp: SendContext_TryGetFrontAndPop_def split: list.splits)
    then have w1: "frame w1 = frame w" "length (w_sessions w1) = length (w_sessions w)"
      by (simp_all add: w1_def)
    have reserve: "frame (set_send i (SendContext_SetReservedSendPacketInfo a sc) w1) = frame w"
      using w1 assms(2) by (simp add: w1_def SendContext_SetReservedSendPacketInfo_def)
    obtain ok w2 where r: "IOHandler_RefreshRetransmissionSendPacketInfo E a threadId w1 = (ok, w2)"
      by (cases "IOHandler_RefreshRetransmissionSendPacketInfo E a threadId w1")
    note w2 = frame_Refresh [OF r]
    show ?thesis
      using assms Pair Some r w1 w2 reserve packs_disconnect [OF assms(2) w1]
      by (auto simp: IOHandler_StoredSendPacketInfoToStream_def Let_def w1_def [symmetric]
          split: option.splits if_splits intro: packs_same)
  qed
qed

lemma packs_Reserved:
  assumes "IOHandler_ReservedSendPacketInfoToStream E i t threadId w = (r, t', w')" "i < length (w_sessions w)"
  shows "packs i (r = OCCURED_ERROR) w w'"
proof (cases "SendContext_TakeReservedSendPacketInfo (get_send i w)")
  case (Pair res sc)
  show ?thesis
  proof (cases res)
    case None
    then show ?thesis using assms(1) Pair
      by (auto simp: IOHandler_ReservedSendPacketInfoToStream_def packs_same)
  next
    case (Some a)
    define w1 where "w1 = set_send i sc w"
    have "sc_ioMode sc = sc_ioMode (get_send i w)"
      using Pair Some by (auto simp: SendContext_TakeReservedSendPacketInfo_def)
    then have w1: "frame w1 = frame w" "length (w_sessions w1) = length (w_sessions w)"
      by (simp_all add: w1_def)
    obtain ok w2 where r: "IOHandler_RefreshRetransmissionSendPacketInfo E a threadId w1 = (ok, w2)"
      by (cases "IOHandler_RefreshRetransmissionSendPacketInfo E a threadId w1")
    note w2 = frame_Refresh [OF r]
    show ?thesis
      using assms Pair Some r w1 w2 packs_disconnect [OF assms(2) w1]
      by (auto simp: IOHandler_ReservedSendPacketInfoToStream_def Let_def w1_def [symmetric]
          split: option.splits if_splits intro: packs_same)
  qed
qed

lemma packs_then:
  assumes "frame v = frame w" "packs i failed v w'"
  shows "packs i failed w w'"
  using assms by (simp add: packs_def)

lemma packs_stream_loop:
  assumes "stream_loop E i threadId k t w = (ok, t', w')" "i < length (w_sessions w)"
  shows "packs i (\<not> ok) w w'"
  using assms
proof (induction k arbitrary: t w)
  case (Suc k)
  obtain r t1 w1 where s: "IOHandler_StoredSendPacketInfoToStream E i t threadId w = (r, t1, w1)"
    by (cases "IOHandler_StoredSendPacketInfoToStream E i t threadId w")
  note p = packs_Stored [OF s Suc.prems(2)]
  have l: "length (w_sessions w1) = length (w_sessions w)" by (rule packs_length [OF p])
  show ?case
  proof (cases "r = OCCURED_ERROR \<or> r = STREAM_IS_FULL")
    case True
    then show ?thesis using p s Suc.prems(1) by (auto simp: packs_def)
  next
    case False
    then have "stream_loop E i threadId k t1 w1 = (ok, t', w')" using s Suc.prems(1) by (cases r) auto
    from Suc.IH [OF this] p False l Suc.prems(2) show ?thesis by (simp add: packs_def)
  qed
qed (simp add: packs_same)

lemma packs_MakeSendStream:
  assumes "IOHandler_MakeSendStream E i threadId w = (ok, t, w')" "i < length (w_sessions w)"
  shows "packs i (\<not> ok) w w'"
proof -
  define w1 where "w1 = set_send i ((get_send i w)\<lparr> sc_cachedSequenceSet := {} \<rparr>) w"
  have w1: "frame w1 = frame w" "length (w_sessions w1) = length (w_sessions w)" by (simp_all add: w1_def)
  obtain r t1 w2 where s: "IOHandler_ReservedSendPacketInfoToStream E i 0 threadId w1 = (r, t1, w2)"
    by (cases "IOHandler_ReservedSendPacketInfoToStream E i 0 threadId w1")
  have p: "packs i (r = OCCURED_ERROR) w1 w2" using packs_Reserved [OF s] w1 assms(2) by simp
  have l: "length (w_sessions w2) = length (w_sessions w1)" by (rule packs_length [OF p])
  show ?thesis
  proof (cases "r = OCCURED_ERROR")
    case True
    with assms(1) s p w1 show ?thesis by (simp add: IOHandler_MakeSendStream_def Let_def w1_def [symmetric] packs_def)
  next
    case False
    then have "stream_loop E i threadId (SendContext_GetSendPacketInfoQueueSize (get_send i w1)) t1 w2 = (ok, t, w')"
      using assms(1) s by (cases r) (auto simp: IOHandler_MakeSendStream_def Let_def w1_def [symmetric])
    from packs_stream_loop [OF this] l w1 assms(2) p False show ?thesis by (simp add: packs_def)
  qed
qed

lemma packs_MakeSendContext:
  assumes "IOHandler_MakeSendContext E i threadId w = (ok, c, w')" "i < length (w_sessions w)"
  shows "packs i (c = None) w w'"
    and "c = Some cx \<Longrightarrow> io_ioType cx = OP_SEND \<and> io_ownerSessionId cx = s_sessionId (get_session i w)"
proof -
  obtain al w1 where a: "ask (env_contextAlloc E) w = (al, w1)" by (cases "ask (env_contextAlloc E) w")
  have w1: "length (w_sessions w1) = length (w_sessions w)" using ask_frame(1) [OF a] by simp
  obtain succeeded len w2 where s: "IOHandler_MakeSendStream E i threadId w1 = (succeeded, len, w2)"
    by (cases "IOHandler_MakeSendStream E i threadId w1")
  obtain reg w3 where g: "ask (env_registerAddress E) w2 = (reg, w3)" by (cases "ask (env_registerAddress E) w2")
  have "packs i (\<not> succeeded) w1 w2" using packs_MakeSendStream [OF s] w1 assms(2) by simp
  then have p: "packs i (\<not> succeeded) w w2" using frame_ask [OF a] by (simp add: packs_def)
  show "packs i (c = None) w w'"
    using assms(1) a s g p frame_ask [OF g] frame_ask [OF a]
    by (auto simp: IOHandler_MakeSendContext_def packs_def split: if_splits)
  show "c = Some cx \<Longrightarrow> io_ioType cx = OP_SEND \<and> io_ownerSessionId cx = s_sessionId (get_session i w)"
    using assms(1) a s g by (auto simp: IOHandler_MakeSendContext_def IOContext_InitContext_def split: if_splits)
qed

lemma mode_frame_twice [simp]: "mode_frame m1 i (mode_frame m2 i f) = mode_frame m1 i f"
proof (cases "i < length (fr_sessions f)")
  case False
  then show ?thesis by (simp add: mode_frame_def upd_frame_def list_update_beyond)
qed (simp add: mode_frame_def upd_frame_def)

lemma mode_frame_same:
  assumes "fr_ioMode (fr_sessions f ! i) = mode"
  shows "mode_frame mode i f = f"
proof -
  have "(fr_sessions f ! i)\<lparr> fr_ioMode := mode \<rparr> = fr_sessions f ! i"
    using assms by (cases "fr_sessions f ! i") simp
  then show ?thesis by (simp add: mode_frame_def upd_frame_def)
qed

lemma mode_release:
  assumes "i < length (fr_sessions f)"
  shows "mode_frame mode i (release_frame i f) = release_frame i (mode_frame mode i f)"
    "frame_using i (mode_frame mode i f) = frame_using i f"
  using assms
  by (cases "fr_sessions f ! i"; cases f; simp add: mode_frame_def release_frame_def upd_frame_def frame_using_def)+

lemma mild_mode:
  assumes "i < length (fr_sessions f)" "mild i f f'"
  shows "mild i (mode_frame mode i f) (mode_frame mode i f')"
  using assms mode_release [OF assms(1), of mode] by (auto simp: mild_def)

text \<open>One pass of the loop: the mode is put undo1, or a datagram is posted.\<close>

lemma evolves_DoSend_loop:
  assumes "DoSend_loop fuel E i threadId w = Some (ok, w')" "i < length (w_sessions w)"
  shows "evolves w w'"
  using assms
proof (induction fuel arbitrary: w)
  case (Suc fuel)
  note i = Suc.prems(2)
  have fi: "i < length (fr_sessions (frame w))" using i by simp
  show ?case
  proof (cases "sc_ioMode (get_send i w) = IO_NONE_SENDING")
    case True
    then have none: "fr_ioMode (fr_sessions (frame w) ! i) = IO_NONE_SENDING"
      unfolding frame_nth [OF i] by (simp add: session_frame_def get_send_def)
    define w1 where "w1 = set_ioMode IO_SENDING i w"
    have w1: "frame w1 = mode_frame IO_SENDING i (frame w)" "length (w_sessions w1) = length (w_sessions w)"
      using frame_set_ioMode [OF i] by (simp_all add: w1_def set_ioMode_def)
    have undo1: "evolves w (set_ioMode IO_NONE_SENDING i v)"
      if "mild i (frame w1) (frame v)" for v :: "'a World"
    proof -
      have l: "i < length (w_sessions v)" using mild_length [OF that] w1(2) i by simp
      have "mild i (mode_frame IO_NONE_SENDING i (frame w1)) (mode_frame IO_NONE_SENDING i (frame v))"
        using mild_mode [OF _ that] w1(2) i by simp
      then have "mild i (frame w) (frame (set_ioMode IO_NONE_SENDING i v))"
        using mode_frame_same [OF none] by (simp add: w1(1) frame_set_ioMode [OF l])
      then show ?thesis by (rule mild_evolves [OF i])
    qed
    obtain ok2 c w2 where m: "IOHandler_MakeSendContext E i threadId w1 = (ok2, c, w2)"
      by (cases "IOHandler_MakeSendContext E i threadId w1")
    have p: "packs i (c = None) w1 w2" using packs_MakeSendContext(1) [OF m] w1(2) i by simp
    have w2: "mild i (frame w1) (frame w2)" "i < length (w_sessions w2)"
      using p packs_length [OF p] w1(2) i by (simp_all add: packs_def)
    obtain drop1 w3 where d: "ask (env_dropSend E) w2 = (drop1, w3)" by (cases "ask (env_dropSend E) w2")
    have w3: "mild i (frame w1) (frame w3)" "i < length (w_sessions w3)"
      using w2 frame_ask [OF d] ask_frame(1) [OF d] by simp_all
    show ?thesis
    proof (cases c)
      case None
      then show ?thesis
        using Suc.prems(1) True m undo1 [of w1] undo1 [OF w2(1)]
        by (auto simp: w1_def [symmetric] Let_def split: if_splits)
    next
      case (Some cx)
      define cx1 where "cx1 = cx\<lparr> io_session := Some i, io_ownerSessionGeneration := s_sessionGeneration (get_session i w3) \<rparr>"
      have f3: "frame w3 = mode_frame IO_SENDING i (frame w)"
        using p Some frame_ask [OF d] w1(1) by (simp add: packs_def)
      have cur: "current_send i (frame w) cx1"
      proof -
        have "session_frame (get_session i w3) = (session_frame (get_session i w))\<lparr> fr_ioMode := IO_SENDING \<rparr>"
          "session_frame (get_session i w1) = (session_frame (get_session i w))\<lparr> fr_ioMode := IO_SENDING \<rparr>"
          using arg_cong [OF f3, of "\<lambda>f. fr_sessions f ! i"] arg_cong [OF w1(1), of "\<lambda>f. fr_sessions f ! i"]
            w3(2) w1(2) i
          by (simp_all add: mode_frame_def upd_frame_def get_session_def)
        then have "s_sessionGeneration (get_session i w3) = s_sessionGeneration (get_session i w)"
          "s_sessionId (get_session i w1) = s_sessionId (get_session i w)"
          by (simp_all add: session_frame_def)
        with packs_MakeSendContext(2) [OF m, of cx] Some w1(2) i show ?thesis
          by (simp add: current_send_def cx1_def get_session_def session_frame_def)
      qed
      have post: "evolves w (v\<lparr> w_posted := w_posted v @ [PostedSend cx1], w_wire := ws \<rparr>)"
        if "\<not> Session_IsReleasing (get_session i w1)" "frame v = frame w3" for v :: "'a World" and ws
      proof -
        have "frame (v\<lparr> w_posted := w_posted v @ [PostedSend cx1], w_wire := ws \<rparr>)
            = post_frame (PostedSend cx1) (frame v)"
          by (simp add: frame_def post_frame_def)
        moreover have "\<not> fr_releasing (fr_sessions (frame w) ! i)"
          using that(1) arg_cong [OF w1(1), of "\<lambda>f. fr_releasing (fr_sessions f ! i)"] i w1(2)
          by (simp add: mode_frame_def upd_frame_def Session_IsReleasing_def get_session_def session_frame_def)
        ultimately show ?thesis
          using effect_post [OF fi none _ cur] by (simp add: evolves_def that(2) f3)
      qed
      have tail: "evolves w v" if "\<not> Session_IsReleasing (get_session i w1)" "IOHandler_TryRIOSend E i cx w3 = (r, v)" for r v
      proof -
        obtain posted w4 where a: "ask (env_rioSend E) w3 = (posted, w4)" by (cases "ask (env_rioSend E) w3")
        have "mild i (frame w1) (frame w4)" using w3(1) frame_ask [OF a] by simp
        with that(2) a undo1 [OF w3(1)] undo1 [of w4] post [OF that(1) frame_ask [OF a]] show ?thesis
          by (auto simp: IOHandler_TryRIOSend_def Let_def cx1_def [symmetric] split: if_splits)
      qed
      have again: "evolves w w'" if "DoSend_loop fuel E i threadId (set_ioMode IO_NONE_SENDING i w3) = Some (ok, w')"
        using evolves_trans [OF undo1 [OF w3(1)] Suc.IH [OF that]] w3(2) by (simp add: set_ioMode_def)
      show ?thesis
        using Suc.prems(1) True m Some d undo1 [of w1] tail again
        by (auto simp: w1_def [symmetric] Let_def split: if_splits)
    qed
  qed (use Suc.prems in auto)
qed simp

lemma evolves_DoSend:
  assumes "IOHandler_DoSend E i threadId w = (ok, w')" "i < length (w_sessions w)"
  shows "evolves w w'"
  using assms evolves_DoSend_loop [of _ E i threadId w ok w']
  by (auto simp del: DoSend_loop.simps simp: IOHandler_DoSend_def evolves_quiet split: if_splits option.splits)

section \<open>RUDPSession, sending\<close>

text \<open>Every descriptor has an owner; that is all the invariant is needed for here.\<close>

definition owners_ok :: "'k World \<Rightarrow> bool" where
  "owners_ok w \<longleftrightarrow> (\<forall>a info. spi_mem (w_store w) a = Some info \<longrightarrow> info_wf (length (w_sessions w)) info)"

lemma world_ok_owners: "world_ok n m L w \<Longrightarrow> owners_ok w"
  by (simp add: world_ok_def owners_ok_def)

lemma owners_ok_update:
  assumes "owners_ok w" "\<And>j. info_wf (length (w_sessions w)) j \<Longrightarrow> info_wf (length (w_sessions w)) (f j)"
  shows "owners_ok (upd_store (spi_update a f) w)"
  using assms by (auto simp: owners_ok_def spi_update_def split: option.splits if_splits)

lemma owners_ok_new:
  "owners_ok w \<Longrightarrow> info_wf (length (w_sessions w)) j \<Longrightarrow> owners_ok (upd_store (spi_new a j) w)"
  by (simp add: owners_ok_def spi_new_def)

lemma owners_ok_set_send [simp]: "owners_ok (set_send i sc w) = owners_ok w"
  by (simp add: owners_ok_def)

lemma frame_insert_info: "frame (insert_info i q a w) = frame w"
  by (auto simp: insert_info_def SendContext_InsertSendPacketInfo_def split: prod.splits)

lemma insert_info_length: "length (w_sessions (insert_info i q a w)) = length (w_sessions w)"
  by (simp add: insert_info_def split: prod.splits)

lemma owners_ok_insert_info: "owners_ok w \<Longrightarrow> owners_ok (insert_info i q a w)"
proof -
  assume w: "owners_ok w"
  have "owners_ok (upd_store (SendPacketInfo_AddRefCount a) w)"
    unfolding SendPacketInfo_AddRefCount_def using w by (rule owners_ok_update) (simp add: info_wf_def)
  with w show ?thesis
    by (auto simp: insert_info_def SendContext_InsertSendPacketInfo_def owners_ok_def split: prod.splits if_splits)
qed

lemma frame_erase_info: "frame (erase_info i q w) = frame w"
  by (auto simp: erase_info_def SendContext_EraseSendPacketInfo_def split: prod.splits option.splits)

lemma frame_MarkErased: "frame (Core_MarkSendPacketInfoErased a w) = frame w"
  by (simp add: Core_MarkSendPacketInfoErased_def split: option.split)

lemma frame_encode_info: "frame (encode_info E i a b q r c w) = frame w"
  by (simp add: encode_info_def Let_def split: option.split)

lemma owners_ok_encode_info: "owners_ok w \<Longrightarrow> owners_ok (encode_info E i a b q r c w)"
  using owners_ok_update [of w "\<lambda>j. j\<lparr> spi_buffer := Some e \<rparr>" a for e]
  by (auto simp: encode_info_def Let_def info_wf_def owners_ok_def split: option.splits)

lemma encode_info_length: "length (w_sessions (encode_info E i a b q r c w)) = length (w_sessions w)"
  by (simp add: encode_info_def Let_def split: option.split)

lemma evolves_Core_SendPacket:
  assumes "Core_SendPacket E a w = (ok, w')" "owners_ok w"
  shows "evolves w w'"
proof (cases "spi_get a (w_store w)")
  case (Some info)
  then have "info_wf (length (w_sessions w)) info"
    using assms(2) by (simp add: owners_ok_def spi_get_def)
  then obtain ow b where i: "spi_owner info = Some ow" "spi_buffer info = Some b" "ow < length (w_sessions w)"
    by (auto simp: info_wf_def)
  have send: "evolves w v'"
    if "IOHandler_DoSend E ow t v = (r, v')" "frame v = frame w" "length (w_sessions v) = length (w_sessions w)"
    for v v' :: "'a World" and t r
    using evolves_DoSend [OF that(1)] that(2,3) i(3) by (simp add: evolves_def)
  show ?thesis
    using assms(1) Some i
    by (auto simp: Core_SendPacket_def Let_def SendContext_PushSendPacketInfo_def split: if_splits elim!: send)
qed (use assms in \<open>auto simp: Core_SendPacket_def evolves_quiet\<close>)

lemma evolves_Immediate:
  assumes "Session_SendPacketImmediate E i b q r c w = (ok, w')" "owners_ok w" "i < length (w_sessions w)"
  shows "evolves w w'"
proof (cases "env_spiAlloc E (w_store w)")
  case (Some a)
  define w1 where "w1 = upd_store (spi_new a (SendPacketInfo_Initialize i
    (s_sessionGeneration (get_session i w)) b q r)) w"
  define w2 where "w2 = (if \<not> r then insert_info i q a w1 else w1)"
  define w3 where "w3 = (if \<not> m_bIsEncoded b then encode_info E i a b q r c w2 else w2)"
  obtain sent w4 where s: "Core_SendPacket E a w3 = (sent, w4)" by (cases "Core_SendPacket E a w3")
  have "owners_ok w1"
    unfolding w1_def using assms(2,3) by (intro owners_ok_new) (simp_all add: SendPacketInfo_Initialize_def info_wf_def)
  then have "owners_ok w3" by (simp add: w2_def w3_def owners_ok_insert_info owners_ok_encode_info)
  moreover have "frame w3 = frame w" by (simp add: w1_def w2_def w3_def frame_insert_info frame_encode_info)
  ultimately have e: "evolves w w4" using evolves_Core_SendPacket [OF s] by (simp add: evolves_def)
  have "frame w' = frame w4"
    using assms(1) unfolding Session_SendPacketImmediate_def Some option.case Let_def
      w1_def [symmetric] w2_def [symmetric] w3_def [symmetric] s prod.case
    by (auto simp: frame_erase_info frame_MarkErased split: if_splits)
  with e show ?thesis by (simp add: evolves_def)
qed (use assms in \<open>simp add: Session_SendPacketImmediate_def\<close>)

lemma evolves_DoDisconnect:
  "i < length (w_sessions w) \<Longrightarrow> evolves w (Session_DoDisconnect E r i w)"
  by (rule mild_evolves [OF _ mild_DoDisconnect])

lemma evolves_AbortReserved:
  "i < length (w_sessions w) \<Longrightarrow> evolves w (Session_AbortReservedSession E i w)"
  by (rule mild_evolves [OF _ mild_AbortReserved])

lemma evolves_SendPacket_buffer:
  assumes "Session_SendPacket_buffer E i b q r c w = (ok, w')" "world_ok n m L w" "i < n"
  shows "evolves w w'"
  using assms(1) evolves_Immediate [of E i b q r c w ok w'] world_ok_owners [OF assms(2)] world_ok_len [OF assms(2,3)]
  by (auto simp: Session_SendPacket_buffer_def SendContext_PushToPendingQueue_def split: if_splits prod.splits
      intro!: evolves_quiet)

lemma evolves_asked: "ask f w = (x, w') \<Longrightarrow> evolves w w'"
  by (rule evolves_quiet) (rule frame_ask)

lemma evolves_next_sequence: "next_sequence i w = (q, w') \<Longrightarrow> evolves w w'"
  by (rule evolves_quiet)
     (auto simp: next_sequence_def SendContext_IncrementLastSendPacketSequence_def Let_def)

lemma evolves_then_DoDisconnect:
  "evolves u w \<Longrightarrow> i < length (w_sessions u) \<Longrightarrow> evolves u (Session_DoDisconnect E r i w)"
  using evolves_trans [of u w] evolves_DoDisconnect [of i w E r] evolves_length [of u w] by simp

text \<open>The common end of the three ways to send: a failure ends the session.\<close>

lemma evolves_send_or_end:
  assumes "Session_SendPacket_buffer E i b q r c v = (ok, v')" "world_ok n m L v" "i < n" "evolves w v"
    "i < length (w_sessions w)"
  shows "evolves w v'" "evolves w (Session_DoDisconnect E x i v')"
proof -
  show e: "evolves w v'" by (rule evolves_trans [OF assms(4) evolves_SendPacket_buffer [OF assms(1-3)]])
  show "evolves w (Session_DoDisconnect E x i v')" by (rule evolves_then_DoDisconnect [OF e assms(5)])
qed

lemma evolves_SendPacket:
  assumes "Session_SendPacket E i packetId body w = (ok, w')" "world_ok n m L w" "i < n"
  shows "evolves w w'"
proof -
  note i = world_ok_len [OF assms(2,3)]
  obtain al w1 where a: "ask (env_netBufferAlloc E) w = (al, w1)" by (cases "ask (env_netBufferAlloc E) w")
  obtain q w2 where n: "next_sequence i w1 = (q, w2)" by (cases "next_sequence i w1")
  note w1 = world_ok_ask [OF assms(2) a] evolves_asked [OF a]
  note w2 = world_ok_next_sequence [OF n w1(1) assms(3)] evolves_trans [OF w1(2) evolves_next_sequence [OF n]]
  show ?thesis
    using assms(1) a n i evolves_then_DoDisconnect [OF w1(2) i] evolves_send_or_end [OF _ w2(1) assms(3) w2(2) i]
    by (auto simp: Session_SendPacket_def Let_def split: if_splits prod.splits)
qed

lemma evolves_SendHeartbeat:
  assumes "world_ok n m L w" "i < n"
  shows "evolves w (Session_SendHeartbeatPacket E now i w)"
proof -
  note i = world_ok_len [OF assms]
  obtain al w1 where a: "ask (env_netBufferAlloc E) w = (al, w1)" by (cases "ask (env_netBufferAlloc E) w")
  obtain q w2 where n: "next_sequence i w1 = (q, w2)" by (cases "next_sequence i w1")
  note w1 = world_ok_ask [OF assms(1) a] evolves_asked [OF a]
  note w2 = world_ok_next_sequence [OF n w1(1) assms(2)] evolves_trans [OF w1(2) evolves_next_sequence [OF n]]
  show ?thesis
    using a n i evolves_then_DoDisconnect [OF w1(2) i] evolves_send_or_end [OF _ w2(1) assms(2) w2(2) i]
    by (auto simp: Session_SendHeartbeatPacket_def Let_def split: if_splits prod.splits)
qed

lemma evolves_SendReply:
  assumes "world_ok n m L w" "i < n"
  shows "evolves w (Session_SendReplyToClient E q i w)"
proof -
  note i = world_ok_len [OF assms]
  obtain al w1 where a: "ask (env_netBufferAlloc E) w = (al, w1)" by (cases "ask (env_netBufferAlloc E) w")
  note w1 = world_ok_ask [OF assms(1) a] evolves_asked [OF a]
  show ?thesis
    using a i evolves_then_DoDisconnect [OF w1(2) i] evolves_send_or_end [OF _ w1(1) assms(2) w1(2) i]
    by (auto simp: Session_SendReplyToClient_def Let_def split: if_splits prod.splits)
qed

lemma evolves_flush_loop:
  assumes "world_ok n m L w" "i < n" "spi_alloc_law E"
  shows "evolves w (flush_loop E i items w)"
  using assms(1)
proof (induction items arbitrary: w)
  case (Cons item items)
  obtain q b where item: "item = (q, b)" by (cases item)
  obtain ok w1 where s: "Session_SendPacketImmediate E i b q False False w = (ok, w1)"
    by (cases "Session_SendPacketImmediate E i b q False False w")
  have e: "evolves w w1"
    by (rule evolves_Immediate [OF s world_ok_owners [OF Cons.prems] world_ok_len [OF Cons.prems assms(2)]])
  note w1 = world_ok_Immediate [OF s Cons.prems assms(2,3)]
  show ?case
    using s item evolves_trans [OF e Cons.IH [OF w1]] evolves_then_DoDisconnect [OF e world_ok_len [OF Cons.prems assms(2)]]
    by simp
qed simp

lemma evolves_TryFlush:
  assumes "world_ok n m L w" "i < n" "spi_alloc_law E"
  shows "evolves w (Session_TryFlushPendingQueue E i w)"
proof -
  obtain items sc where t: "take_sendable (s_flowManager (get_session i w)) (get_send i w) = (items, sc)"
    by (cases "take_sendable (s_flowManager (get_session i w)) (get_send i w)")
  obtain rb where sc: "sc = (get_send i w)\<lparr> sc_pendingPacketQueue := rb \<rparr>" "ring_wf rb"
    using take_sendable_sc [OF t] world_ok_send_wf(1) [OF assms(1,2)] by (auto simp: sc_wf_def)
  have "frame (set_send i sc w) = frame w" by (simp add: sc(1))
  then show ?thesis
    using evolves_flush_loop [OF world_ok_pending [OF assms(1,2) sc(2)] assms(2,3), of items] t
    by (simp add: Session_TryFlushPendingQueue_def sc(1) evolves_def)
qed

lemma frame_OnRttSample: "frame (Session_OnRttSample sample i w) = frame w"
  unfolding Session_OnRttSample_def by (rule frame_upd_session_quiet) (simp add: session_frame_def)

lemma frame_OnRetransmissionTimeout: "frame (Session_OnRetransmissionTimeout E i w) = frame w"
proof -
  have q: "frame (upd_session i (\<lambda>s. s\<lparr> s_flowManager := g s \<rparr>) v) = frame v"
    "frame (upd_session i (\<lambda>s. s\<lparr> s_retransmissionTimeoutEstimator := e \<rparr>) v) = frame v"
    for g e and v :: "'a World"
    by (rule frame_upd_session_quiet, simp add: session_frame_def)+
  show ?thesis
    by (auto simp: Session_OnRetransmissionTimeout_def Let_def q frame_ask split: prod.splits)
qed

lemma evolves_OnSendReply:
  assumes "world_ok n m L w" "i < n" "spi_alloc_law E"
  shows "evolves w (Session_OnSendReply E p i w)"
proof (rule OnSendReply_flush [OF assms(1,2), where E = E and p = p])
  fix sc fm e st k v
  assume v: "v = w\<lparr> w_sessions := (w_sessions w)[i := (get_session i w)\<lparr> s_sendContext := sc, s_flowManager := fm,
               s_retransmissionTimeoutEstimator := e \<rparr>], w_store := st, w_query := k \<rparr>"
    and mode: "sc_ioMode sc = sc_ioMode (get_send i w)" and ok: "world_ok n m L v"
    and eq: "Session_OnSendReply E p i w = Session_TryFlushPendingQueue E i v"
  have "v = (upd_session i (\<lambda>s. s\<lparr> s_sendContext := sc, s_flowManager := fm,
      s_retransmissionTimeoutEstimator := e \<rparr>) w)\<lparr> w_store := st, w_query := k \<rparr>"
    by (simp add: v upd_session_def get_session_def)
  moreover have "frame (upd_session i (\<lambda>s. s\<lparr> s_sendContext := sc, s_flowManager := fm,
      s_retransmissionTimeoutEstimator := e \<rparr>) w) = frame w"
    using mode by (intro frame_upd_session_quiet) (simp add: session_frame_def get_send_def)
  ultimately have "frame v = frame w" by simp
  with evolves_TryFlush [OF ok assms(2,3)] show "evolves w (Session_OnSendReply E p i w)"
    by (simp add: eq evolves_def)
qed simp

section \<open>Receiving\<close>

text \<open>The content may use whatever a session offers it, so what it does is a run of the
  same steps.\<close>

definition content_refines :: "'k Env \<Rightarrow> nat \<Rightarrow> nat \<Rightarrow> bool" where
  "content_refines E n m \<longleftrightarrow>
     (\<forall>packetId h i p L w ok w'. env_handler E packetId = Some h \<longrightarrow> i < n \<longrightarrow> world_ok n m L w \<longrightarrow>
        h i p w = (ok, w') \<longrightarrow> evolves w w') \<and>
     (\<forall>i L w. i < n \<longrightarrow> world_ok n m L w \<longrightarrow>
        evolves w (env_OnConnected E i w) \<and> evolves w (env_OnDisconnected E i w) \<and> evolves w (env_OnReleased E i w))"

lemma content_refinesD:
  assumes "content_refines E n m" "i < n" "world_ok n m L w"
  shows "env_handler E packetId = Some h \<Longrightarrow> h i p w = (ok, w') \<Longrightarrow> evolves w w'"
    "evolves w (env_OnConnected E i w)" "evolves w (env_OnDisconnected E i w)" "evolves w (env_OnReleased E i w)"
  using assms unfolding content_refines_def by blast+

text \<open>The environment a server runs in.\<close>

definition env_ok :: "'k Env \<Rightarrow> nat \<Rightarrow> nat \<Rightarrow> bool" where
  "env_ok E n m \<longleftrightarrow> spi_alloc_law E \<and> content_law E n m \<and> content_refines E n m"

lemma env_okD:
  assumes "env_ok E n m"
  shows "spi_alloc_law E" "content_law E n m" "content_refines E n m"
  using assms by (simp_all add: env_ok_def)

lemma evolves_ProcessPacket:
  assumes "Session_ProcessPacket E i b q w = (ok, w')" "world_ok n m L w" "i < n" "env_ok E n m"
  shows "evolves w w'"
proof -
  note len = world_ok_len [OF assms(2,3)]
  obtain bytes p1 where r: "nb_read (env_api E) 4 b = (bytes, p1)" by (cases "nb_read (env_api E) 4 b")
  show ?thesis
  proof (cases "env_handler E (le_word bytes)")
    case (Some h)
    obtain handled w1 where h: "h i p1 w = (handled, w1)" by (cases "h i p1 w")
    have e: "evolves w w1" by (rule content_refinesD(1) [OF env_okD(3) [OF assms(4)] assms(3,2) Some h])
    have w1: "world_ok n m L w1"
      by (rule content_lawD(1) [OF env_okD(2) [OF assms(4)] assms(3,2) Some h])
    let ?w2 = "upd_session i (\<lambda>s. s\<lparr> s_flowManager := FlowManager_MarkReceived q (s_flowManager s) \<rparr>) w1"
    have w2: "world_ok n m L ?w2" using w1 assms(3) by (rule world_ok_upd_session_frame) simp_all
    have f2: "frame ?w2 = frame w1" by (rule frame_upd_session_quiet) (simp add: session_frame_def)
    have "evolves w (Session_SendReplyToClient E q i ?w2)"
      using evolves_trans [OF e, of "Session_SendReplyToClient E q i ?w2"] evolves_SendReply [OF w2 assms(3), of E q]
      by (simp add: evolves_def f2)
    with e assms(1) r Some h show ?thesis
      by (auto simp: Session_ProcessPacket_def Let_def split: if_splits)
  qed (use assms r in \<open>simp add: Session_ProcessPacket_def\<close>)
qed

interpretation process_packet_frame: callback_invariant "Session_ProcessPacket E i"
  "\<lambda>w. i < n \<and> env_ok E n m \<and> world_ok n m L w \<and> evolves u w" for E i n m L and u :: "'k World"
  by unfold_locales
    (auto intro: world_ok_ProcessPacket evolves_trans [OF _ evolves_ProcessPacket] dest: env_okD)

lemma evolves_OnReceive:
  assumes "Orderer_OnReceive (Session_ProcessPacket E i) q b o1 w = (r, o2, w')" "world_ok n m L w"
    "i < n" "env_ok E n m"
  shows "evolves w w'"
  using process_packet_frame.receive_keeps [OF assms(1), of n m L w] assms(2-) by simp

lemma frame_set_orderer: "frame (upd_session i (\<lambda>s. s\<lparr> s_sessionPacketOrderer := o1 \<rparr>) w) = frame w"
  by (rule frame_upd_session_quiet) (simp add: session_frame_def)

lemma evolves_OnRecvPacket:
  assumes "Session_OnRecvPacket E b i w = (ok, w')" "world_ok n m L w" "i < n" "env_ok E n m"
  shows "evolves w w'"
proof -
  note len = world_ok_len [OF assms(2,3)]
  define q :: PacketSequence where "q = le_word (fst (nb_read (env_api E) 8 b))"
  define p1 where "p1 = snd (nb_read (env_api E) 8 b)"
  let ?o = "s_sessionPacketOrderer (get_session i w)"
  obtain r o2 w1 where d: "Orderer_OnReceive (Session_ProcessPacket E i) q p1 ?o w = (r, o2, w1)"
    by (cases "Orderer_OnReceive (Session_ProcessPacket E i) q p1 ?o w") auto
  let ?w2 = "upd_session i (\<lambda>s. s\<lparr> s_sessionPacketOrderer := o2 \<rparr>) w1"
  have e: "evolves w ?w2" using evolves_OnReceive [OF d assms(2-4)] by (simp add: evolves_def frame_set_orderer)
  have w2: "world_ok n m L ?w2"
    by (rule world_ok_set_orderer [OF world_ok_OnReceive [OF d assms(2,3) env_okD(1,2) [OF assms(4)]] assms(3)])
  have "evolves w (Session_SendReplyToClient E q i ?w2)"
    by (rule evolves_trans [OF e evolves_SendReply [OF w2 assms(3)]])
  with evolves_SendReply [OF assms(2,3), of E q] e assms(1) d show ?thesis
    unfolding Session_OnRecvPacket_def
    by (auto simp: q_def [symmetric] p1_def [symmetric] Let_def split_beta split: if_splits ON_RECV_RESULT.splits)
qed

lemma frame_upd_state:
  assumes "i < length (w_sessions w)" "sm_state sm = st"
  shows "frame (upd_session i (\<lambda>s. s\<lparr> s_stateMachine := sm \<rparr>) w) = upd_frame i (\<lambda>s. s\<lparr> fr_state := st \<rparr>) (frame w)"
  by (rule frame_upd_session [OF assms(1)]) (simp add: session_frame_def assms(2))

lemma evolves_TryTransitionToConnected:
  assumes "i < length (w_sessions w)"
    "StateMachine_TryTransitionToConnected (s_stateMachine (get_session i w)) = (connected, sm)"
  shows "evolves w (upd_session i (\<lambda>s. s\<lparr> s_stateMachine := sm \<rparr>) w)"
proof (cases "sm_state (s_stateMachine (get_session i w)) = RESERVED")
  case True
  then have "sm_state sm = CONNECTED"
    using TryTransitionToConnected_result(2) [of "s_stateMachine (get_session i w)"] assms(2) by simp
  from frame_upd_state [OF assms(1) this] have "frame (upd_session i (\<lambda>s. s\<lparr> s_stateMachine := sm \<rparr>) w)
      = upd_frame i (\<lambda>s. s\<lparr> fr_state := CONNECTED \<rparr>) (frame w)" .
  moreover have "effect (frame w) (upd_frame i (\<lambda>s. s\<lparr> fr_state := CONNECTED \<rparr>) (frame w))"
    using True assms(1) by (intro effect_connect) (simp_all add: get_session_def session_frame_def)
  ultimately show ?thesis by (simp add: evolves_def)
next
  case False
  then have "sm = s_stateMachine (get_session i w)"
    using assms(2) by (simp add: StateMachine_TryTransitionToConnected_def cas_def)
  then show ?thesis by (intro evolves_quiet frame_upd_session_quiet) (simp add: session_frame_def)
qed

lemma evolves_TryConnect:
  assumes "Session_TryConnect E b addr i w = (ok, w')" "world_ok n m L w" "i < n" "env_ok E n m"
  shows "evolves w w'"
proof -
  note len = world_ok_len [OF assms(2,3)]
  define q :: PacketSequence where "q = le_word (fst (nb_read (env_api E) 8 b))"
  obtain connected sm where t: "StateMachine_TryTransitionToConnected (s_stateMachine (get_session i w)) = (connected, sm)"
    by (cases "StateMachine_TryTransitionToConnected (s_stateMachine (get_session i w))")
  let ?w1 = "upd_session i (\<lambda>s. s\<lparr> s_stateMachine := sm \<rparr>) w"
  let ?start = "LOGIN_PACKET_SEQUENCE + 1"
  let ?w2 = "upd_session i (\<lambda>s. s\<lparr> s_clientAddr := addr,
                s_sessionPacketOrderer := Orderer_Reset ?start (s_sessionPacketOrderer s),
                s_flowManager := FlowManager_Reset ?start (s_flowManager s) \<rparr>) ?w1"
  let ?v = "?w2\<lparr> w_events := w_events ?w2 @ [OnConnected i] \<rparr>"
  have e1: "evolves w ?w1" by (rule evolves_TryTransitionToConnected [OF len t])
  have f2: "frame ?w2 = frame ?w1" by (rule frame_upd_session_quiet) (simp add: session_frame_def)
  have w2: "world_ok n m L ?w2"
    using assms(2,3) by (intro world_ok_upd_session_frame) simp_all
  have v: "world_ok n m L ?v" by (rule world_ok_event [OF w2])
  have e2: "evolves w ?v" using e1 f2 by (simp add: evolves_def)
  have e3: "evolves w (env_OnConnected E i ?v)"
    by (rule evolves_trans [OF e2 content_refinesD(2) [OF env_okD(3) [OF assms(4)] assms(3) v]])
  have w3: "world_ok n m L (env_OnConnected E i ?v)"
    by (rule content_lawD(2) [OF env_okD(2) [OF assms(4)] assms(3) v])
  have e4: "evolves w (Session_SendReplyToClient E q i (env_OnConnected E i ?v))"
    by (rule evolves_trans [OF e3 evolves_SendReply [OF w3 assms(3)]])
  show ?thesis
    using assms(1) t e1 e4 unfolding Session_TryConnect_def
    by (auto simp: q_def [symmetric] Let_def split_beta split: if_splits)
qed

lemma frame_RefreshLast: "frame (Session_RefreshLastReceivedPacketTime now i w) = frame w"
  unfolding Session_RefreshLastReceivedPacketTime_def
  by (rule frame_upd_session_quiet) (simp add: session_frame_def)

lemma evolves_DECODE_PACKET:
  assumes "world_ok n m L w" "i < n" "\<And>p v. world_ok n m L v \<Longrightarrow> evolves v (body p v)"
  shows "evolves w (DECODE_PACKET E i core dir b body w)"
proof -
  obtain now w1 where a: "ask (env_tickCount E) w = (now, w1)" by (cases "ask (env_tickCount E) w")
  let ?v = "Session_RefreshLastReceivedPacketTime now i w1"
  have v: "world_ok n m L ?v"
    unfolding Session_RefreshLastReceivedPacketTime_def
    using world_ok_ask [OF assms(1) a] assms(2) by (rule world_ok_upd_session_frame) simp_all
  have "evolves w (body p ?v)" for p
    using assms(3) [OF v, of p] by (simp add: evolves_def frame_RefreshLast frame_ask [OF a])
  then show ?thesis
    using a by (auto simp: DECODE_PACKET_def Let_def evolves_quiet split: option.split bool.split)
qed

lemma evolves_ProcessByPacketType:
  assumes "world_ok n m L w" "i < n" "env_ok E n m"
  shows "evolves w (PacketProcessor_ProcessByPacketType E i addr b w)"
proof -
  note decode = evolves_DECODE_PACKET [OF assms(1,2)]
  have connect: "evolves v (let (connected, w2) = Session_TryConnect E p addr i v
      in if connected then Manager_IncrementConnectedCount w2 else w2)"
    if "world_ok n m L v" for p v
    using evolves_TryConnect [OF _ that assms(2,3)] by (auto simp: evolves_def split: prod.split)
  have data: "evolves v (let (ok, w2) = Session_OnRecvPacket E p i v
      in if ok then w2\<lparr> w_tps := w_tps w2 + 1 \<rparr> else Session_DoDisconnect E BY_ERROR i w2)"
    if "world_ok n m L v" for p v
    using evolves_OnRecvPacket [OF _ that assms(2,3)] evolves_then_DoDisconnect [OF _ world_ok_len [OF that assms(2)]]
    by (auto simp: evolves_def split: prod.split)
  have disconnect: "evolves v (Session_Disconnect_packet E p i v)" if "world_ok n m L v" for p v
    unfolding Session_Disconnect_packet_def by (rule evolves_DoDisconnect [OF world_ok_len [OF that assms(2)]])
  note reply = evolves_OnSendReply [OF _ assms(2) env_okD(1) [OF assms(3)]]
  show ?thesis
    using decode [OF connect] decode [OF data] decode [OF disconnect] decode [OF reply]
    unfolding PacketProcessor_ProcessByPacketType_def
    by (simp add: Let_def split_beta split: option.split PACKET_TYPE.split)
qed

section \<open>Timers\<close>

lemma evolves_ProcessRetransmission:
  assumes "world_ok n m (add_mset a L) w"
  shows "evolves w (Core_ProcessRetransmission E a threadId w)"
proof -
  obtain info ow b where i: "spi_get a (w_store w) = Some info" "spi_owner info = Some ow" "ow < n"
    by (rule world_ok_lookup [OF assms, of a]) auto
  let ?n = "spi_retransmissionCount info + 1"
  define w1 where "w1 = upd_store (spi_update a (\<lambda>i. i\<lparr> spi_retransmissionCount := ?n \<rparr>)) w"
  have w1: "world_ok n m (add_mset a L) w1"
    unfolding w1_def using assms by (intro world_ok_spi_update) (auto simp: info_wf_def)
  define w2 where "w2 = (if SendPacketInfo_IsOwnerValid w1 info then Session_OnRetransmissionTimeout E ow w1 else w1)"
  have w2: "world_ok n m (add_mset a L) w2"
    using w1 world_ok_OnRetransmissionTimeout [OF w1 i(3), of E] by (simp add: w2_def)
  obtain sent w3 where s: "Core_SendPacket E a w2 = (sent, w3)" by (cases "Core_SendPacket E a w2")
  have f: "frame w1 = frame w" "frame w2 = frame w"
    by (simp_all add: w2_def w1_def frame_OnRetransmissionTimeout)
  have l: "ow < length (w_sessions w)" "ow < length (w_sessions w1)"
    using world_ok_len [OF assms i(3)] by (simp_all add: w1_def)
  have e3: "evolves w w3" using evolves_Core_SendPacket [OF s world_ok_owners [OF w2]] f by (simp add: evolves_def)
  have over: "evolves w (upd_store (SendPacketInfo_Free a)
      (if SendPacketInfo_IsOwnerValid w1 info then Session_DoDisconnect E BY_RETRANSMISSION ow w1 else w1))"
    using evolves_DoDisconnect [OF l(2), of E BY_RETRANSMISSION] f(1) by (simp add: evolves_def)
  have again: "evolves w (upd_store (SendPacketInfo_Free a)
      (if \<not> sent \<and> SendPacketInfo_IsOwnerValid w3 info then Session_DoDisconnect E BY_ERROR ow w3 else w3))"
    using e3 evolves_then_DoDisconnect [OF e3 l(1), of E BY_ERROR] by (simp add: evolves_def)
  have "Core_ProcessRetransmission E a threadId w =
      (if spi_isErasedPacketInfo info then upd_store (SendPacketInfo_Free a) w
       else if ?n \<ge> env_maxPacketRetransmissionCount E then upd_store (SendPacketInfo_Free a)
         (if SendPacketInfo_IsOwnerValid w1 info then Session_DoDisconnect E BY_RETRANSMISSION ow w1 else w1)
       else upd_store (SendPacketInfo_Free a)
         (if \<not> sent \<and> SendPacketInfo_IsOwnerValid w3 info then Session_DoDisconnect E BY_ERROR ow w3 else w3))"
    unfolding Core_ProcessRetransmission_def i option.case Let_def option.sel
      w1_def [symmetric] w2_def [symmetric] s prod.case ..
  with over again show ?thesis by (simp add: evolves_quiet)
qed

lemma evolves_process_due:
  "world_ok n m (mset due) w \<Longrightarrow> evolves w (process_due E threadId due w)"
proof (induction due arbitrary: w)
  case (Cons a due)
  have w: "world_ok n m (add_mset a (mset due)) w" using Cons.prems by simp
  show ?case
    using evolves_trans [OF evolves_ProcessRetransmission [OF w] Cons.IH [OF world_ok_ProcessRetransmission [OF w]]]
    by simp
qed simp

lemma frame_take_due: "take_due now threadId w = (due, w') \<Longrightarrow> frame w' = frame w"
  by (auto simp: take_due_def split: prod.splits)

lemma evolves_RetransmissionRound:
  assumes "world_ok n m {#} w" "unat threadId < m"
  shows "evolves w (Core_RetransmissionRound E threadId w)"
proof -
  obtain now w1 where a: "ask (env_steadyNow E) w = (now, w1)" by (cases "ask (env_steadyNow E) w")
  obtain due w2 where t: "take_due now threadId w1 = (due, w2)" by (cases "take_due now threadId w1")
  show ?thesis
    using evolves_process_due [OF world_ok_take_due [OF world_ok_ask [OF assms(1) a] assms(2) t], of E threadId] a t
    by (simp add: Core_RetransmissionRound_def evolves_def frame_take_due [OF t] frame_ask [OF a])
qed

lemma evolves_heartbeat_session:
  assumes "world_ok n m L w" "i < n"
  shows "evolves w (heartbeat_session E now i w)"
  using evolves_SendHeartbeat [OF assms] evolves_AbortReserved [OF world_ok_len [OF assms]]
  by (simp add: heartbeat_session_def)

lemma evolves_close_session:
  assumes "world_ok n m L w" "i < n"
  shows "evolves w (close_session E i w)"
  using evolves_AbortReserved [OF world_ok_len [OF assms], of E]
    evolves_then_DoDisconnect [OF _ world_ok_len [OF assms]]
  by (simp add: close_session_def Let_def)

lemma evolves_fold:
  assumes "\<And>i w. i \<in> set is \<Longrightarrow> world_ok n m L w \<Longrightarrow> world_ok n m L (g i w)"
    "\<And>i w. i \<in> set is \<Longrightarrow> world_ok n m L w \<Longrightarrow> evolves w (g i w)" "world_ok n m L w"
  shows "evolves w (fold g is w)"
  using assms
proof (induction "is" arbitrary: w)
  case (Cons i js)
  have "evolves (g i w) (fold g js (g i w))" using Cons.prems(1-3) by (intro Cons.IH) auto
  then show ?case using evolves_trans [of w "g i w"] Cons.prems(2) [of i w] Cons.prems(3) by simp
qed simp

lemma evolves_HeartbeatCheck:
  assumes "world_ok n m L w" "spi_alloc_law E"
  shows "evolves w (Manager_HeartbeatCheck E now w)"
  unfolding Manager_HeartbeatCheck_def world_okD(1) [OF assms(1)]
  by (rule evolves_fold [OF _ _ assms(1)])
     (auto intro: world_ok_heartbeat_session evolves_heartbeat_session assms(2))

lemma evolves_CloseAllSessions:
  assumes "world_ok n m L w"
  shows "evolves w (Manager_CloseAllSessions E w)"
  unfolding Manager_CloseAllSessions_def world_okD(1) [OF assms]
  by (rule evolves_fold [OF _ _ assms]) (auto intro: world_ok_close_session evolves_close_session)

end
