(* ===== verification/Server_Invariant.thy ===== *)
theory Server_Invariant
  imports Server_Frame
begin

text \<open>
  Two invariants of the abstract server. \<open>life_ok\<close>: every session is in exactly one of the
  pool, use, and release. \<open>barrier_ok\<close>: the counters of the drain barrier count what RIO and
  the logic threads still hold, and everything they hold belongs to the present use of its
  session.
\<close>

section \<open>The life of a session\<close>

text \<open>\<open>R\<close> are the ids the release thread has taken from the list and not finished.\<close>

definition life_ok :: "nat \<Rightarrow> SessionIdType list \<Rightarrow> Frame \<Rightarrow> bool" where
  "life_ok n R f \<longleftrightarrow>
     length (fr_sessions f) = n \<and> n < 65536 \<and> fr_unusedSet f = set (fr_unused f) \<and>
     set (fr_unused f) \<union> set (R @ fr_release f) \<subseteq> of_nat ` {..<n} \<and>
     (\<forall>i<n. fr_id (fr_sessions f ! i) = of_nat i \<and>
        (fr_releasing (fr_sessions f ! i) \<longleftrightarrow> fr_state (fr_sessions f ! i) = RELEASING) \<and>
        count_list (fr_unused f) (of_nat i)
          = (if fr_state (fr_sessions f ! i) = DISCONNECTED then 1 else 0) \<and>
        count_list (R @ fr_release f) (of_nat i)
          = (if fr_state (fr_sessions f ! i) = RELEASING then 1 else 0))"

lemma of_nat_id_eq: "i < 65536 \<Longrightarrow> j < 65536 \<Longrightarrow> (of_nat i :: SessionIdType) = of_nat j \<longleftrightarrow> i = j"
  by (simp add: word_unat_eq_iff unat_of_nat)

lemma unat_id: "i < 65536 \<Longrightarrow> unat (of_nat i :: SessionIdType) = i"
  by (simp add: unat_of_nat)

lemma life_okD:
  assumes "life_ok n R f"
  shows "length (fr_sessions f) = n" "n < 65536" "i < n \<Longrightarrow> fr_id (fr_sessions f ! i) = of_nat i"
    "i < n \<Longrightarrow> fr_releasing (fr_sessions f ! i) \<longleftrightarrow> fr_state (fr_sessions f ! i) = RELEASING"
    "i < n \<Longrightarrow> count_list (fr_unused f) (of_nat i)
       = (if fr_state (fr_sessions f ! i) = DISCONNECTED then 1 else 0)"
    "i < n \<Longrightarrow> count_list (R @ fr_release f) (of_nat i)
       = (if fr_state (fr_sessions f ! i) = RELEASING then 1 else 0)"
    "fr_unusedSet f = set (fr_unused f)"
    "q \<in> set (fr_unused f) \<union> set (R @ fr_release f) \<Longrightarrow> \<exists>i<n. q = of_nat i"
  using assms unfolding life_ok_def by auto

lemma life_ok_effect:
  assumes "effect f f'" "life_ok n R f"
  shows "life_ok n R f'"
  using assms
proof (induction rule: effect.induct)
  case (effect_connect i f)
  then show ?case by (auto simp: life_ok_def upd_frame_def nth_list_update)
next
  case (effect_release i f)
  then show ?case
    by (auto simp: life_ok_def release_frame_def upd_frame_def frame_using_def nth_list_update of_nat_id_eq)
next
  case (effect_post i f c)
  then show ?case by (auto simp: life_ok_def post_frame_def mode_frame_def upd_frame_def nth_list_update)
qed

lemma life_ok_effects: "effect\<^sup>*\<^sup>* f f' \<Longrightarrow> life_ok n R f \<Longrightarrow> life_ok n R f'"
  by (induction rule: rtranclp_induct) (auto intro: life_ok_effect)

section \<open>The barrier\<close>

fun posted_slots :: "nat \<Rightarrow> posted list \<Rightarrow> nat list" where
  "posted_slots i [] = []"
| "posted_slots i (PostedRecv j k # ps) = (if j = i then k # posted_slots i ps else posted_slots i ps)"
| "posted_slots i (PostedSend c # ps) = posted_slots i ps"

fun posted_sends :: "nat \<Rightarrow> posted list \<Rightarrow> nat" where
  "posted_sends i [] = 0"
| "posted_sends i (PostedRecv j k # ps) = posted_sends i ps"
| "posted_sends i (PostedSend c # ps) = (if io_session c = Some i then 1 else 0) + posted_sends i ps"

lemma posted_slots_append [simp]: "posted_slots i (ps @ qs) = posted_slots i ps @ posted_slots i qs"
  by (induction i ps rule: posted_slots.induct) simp_all

lemma posted_sends_append [simp]: "posted_sends i (ps @ qs) = posted_sends i ps + posted_sends i qs"
  by (induction i ps rule: posted_sends.induct) simp_all

definition queued :: "nat \<Rightarrow> RecvIOCompletedContext list \<Rightarrow> nat" where
  "queued i cs = length (filter (\<lambda>c. rc_session c = i) cs)"

lemma queued_simps [simp]:
  "queued i [] = 0" "queued i (c # cs) = (if rc_session c = i then 1 else 0) + queued i cs"
  "queued i (cs @ ds) = queued i cs + queued i ds"
  by (simp_all add: queued_def)

text \<open>The slots \<open>K\<close> of session \<open>i\<close> are posted, \<open>S\<close> datagrams are being sent, and \<open>q\<close>
  received ones wait for the logic thread.\<close>

definition session_ok :: "nat \<Rightarrow> nat list \<Rightarrow> nat \<Rightarrow> nat \<Rightarrow> SessionFrame \<Rightarrow> bool" where
  "session_ok i K S q s \<longleftrightarrow>
     (\<forall>c \<in> set (slots (fr_recvBuffer s)).
        io_session c = Some i \<and> io_ioType c = OP_RECV \<and> io_ownerSessionId c = fr_id s) \<and>
     length (slots (fr_recvBuffer s)) \<le> RECV_OUTSTANDING_COUNT \<and>
     distinct (K @ freeRecvContexts (fr_recvBuffer s)) \<and>
     (\<forall>k \<in> set (K @ freeRecvContexts (fr_recvBuffer s)). k < length (slots (fr_recvBuffer s))) \<and>
     (\<forall>k \<in> set K. io_ownerSessionGeneration (slots (fr_recvBuffer s) ! k) = fr_generation s) \<and>
     outstandingRecvIo (fr_recvBuffer s) = of_nat (length K) \<and>
     S = (if fr_ioMode s = IO_SENDING then 1 else 0) \<and>
     pendingRecvLogic (fr_recvBuffer s) = of_nat q \<and>
     (fr_state s = DISCONNECTED \<longrightarrow> K = [])"

text \<open>\<open>Q\<close> are completions a worker has taken and not yet given back, \<open>C\<close> datagrams a logic
  thread has taken and not yet given back.\<close>

definition posted_current :: "nat \<Rightarrow> Frame \<Rightarrow> posted \<Rightarrow> bool" where
  "posted_current n f p \<longleftrightarrow>
     (case p of PostedRecv i k \<Rightarrow> i < n | PostedSend c \<Rightarrow> (\<exists>i<n. current_send i f c))"

definition received_current :: "nat \<Rightarrow> Frame \<Rightarrow> RecvIOCompletedContext \<Rightarrow> bool" where
  "received_current n f c \<longleftrightarrow>
     rc_session c < n \<and> rc_ownerSessionGeneration c = fr_generation (fr_sessions f ! rc_session c)"

definition barrier_ok :: "nat \<Rightarrow> posted list \<Rightarrow> RecvIOCompletedContext list \<Rightarrow> Frame \<Rightarrow> bool" where
  "barrier_ok n Q C f \<longleftrightarrow>
     length (fr_sessions f) = n \<and>
     (\<forall>p \<in> set (Q @ fr_posted f). posted_current n f p) \<and>
     (\<forall>c \<in> set (C @ concat (fr_queues f)). received_current n f c) \<and>
     (\<forall>i<n. session_ok i (posted_slots i (Q @ fr_posted f)) (posted_sends i (Q @ fr_posted f))
              (queued i (C @ concat (fr_queues f))) (fr_sessions f ! i))"

lemma barrier_okD:
  assumes "barrier_ok n Q C f"
  shows "length (fr_sessions f) = n"
    "p \<in> set Q \<union> set (fr_posted f) \<Longrightarrow> posted_current n f p"
    "c \<in> set C \<union> set (concat (fr_queues f)) \<Longrightarrow> received_current n f c"
    "i < n \<Longrightarrow> session_ok i (posted_slots i (Q @ fr_posted f)) (posted_sends i (Q @ fr_posted f))
              (queued i (C @ concat (fr_queues f))) (fr_sessions f ! i)"
  using assms unfolding barrier_ok_def by auto

text \<open>An update of one session that keeps its identity: what is left to show is \<open>session_ok\<close>
  for this session with the new counts.\<close>

lemma barrier_ok_update:
  assumes "barrier_ok n Q C f" "i < n"
    and "fr_sessions f' = (fr_sessions f)[i := s']"
    and "fr_id s' = fr_id (fr_sessions f ! i)" "fr_generation s' = fr_generation (fr_sessions f ! i)"
    and "\<And>p. p \<in> set (Q' @ fr_posted f') \<Longrightarrow> posted_current n f p"
    and "\<And>c. c \<in> set (C' @ concat (fr_queues f')) \<Longrightarrow> received_current n f c"
    and "\<And>j. j < n \<Longrightarrow> j \<noteq> i \<Longrightarrow> posted_slots j (Q' @ fr_posted f') = posted_slots j (Q @ fr_posted f) \<and>
       posted_sends j (Q' @ fr_posted f') = posted_sends j (Q @ fr_posted f) \<and>
       queued j (C' @ concat (fr_queues f')) = queued j (C @ concat (fr_queues f))"
    and "session_ok i (posted_slots i (Q' @ fr_posted f')) (posted_sends i (Q' @ fr_posted f'))
       (queued i (C' @ concat (fr_queues f'))) s'"
  shows "barrier_ok n Q' C' f'"
proof -
  have len: "length (fr_sessions f) = n" using assms(1) by (rule barrier_okD)
  have same: "fr_id (fr_sessions f' ! j) = fr_id (fr_sessions f ! j)"
    "fr_generation (fr_sessions f' ! j) = fr_generation (fr_sessions f ! j)" if "j < n" for j
    using that assms(3-5) len by (cases "j = i"; simp)+
  have "posted_current n f' p = posted_current n f p" for p
    using same by (auto simp: posted_current_def current_send_def split: posted.split)
  moreover have "received_current n f' c = received_current n f c" for c
    using same by (auto simp: received_current_def)
  moreover have "session_ok j (posted_slots j (Q' @ fr_posted f')) (posted_sends j (Q' @ fr_posted f'))
      (queued j (C' @ concat (fr_queues f'))) (fr_sessions f' ! j)" if "j < n" for j
    using barrier_okD(4) [OF assms(1) that] assms(3) assms(8) [of j] assms(9) len that by (cases "j = i") auto
  ultimately show ?thesis using assms(3,6,7) len by (auto simp: barrier_ok_def)
qed

text \<open>The usual case: the session changes, the lists do not.\<close>

lemma barrier_ok_upd_frame:
  assumes "barrier_ok n Q C f" "i < n"
    and "\<And>s. fr_id (g s) = fr_id s" "\<And>s. fr_generation (g s) = fr_generation s"
    and "session_ok i (posted_slots i (Q @ fr_posted f)) (posted_sends i (Q @ fr_posted f))
      (queued i (C @ concat (fr_queues f))) (fr_sessions f ! i) \<Longrightarrow>
      session_ok i (posted_slots i (Q @ fr_posted f)) (posted_sends i (Q @ fr_posted f))
      (queued i (C @ concat (fr_queues f))) (g (fr_sessions f ! i))"
  shows "barrier_ok n Q C (upd_frame i g f)"
  by (rule barrier_ok_update [OF assms(1,2), where s' = "g (fr_sessions f ! i)"])
    (use assms barrier_okD [OF assms(1)] in \<open>auto simp: upd_frame_def\<close>)

lemma barrier_ok_cong:
  assumes "barrier_ok n Q C f" "fr_sessions f' = fr_sessions f" "fr_posted f' = fr_posted f" "fr_queues f' = fr_queues f"
  shows "barrier_ok n Q C f'"
proof -
  have "posted_current n f' = posted_current n f"
    using assms(2) by (intro ext) (simp add: posted_current_def current_send_def split: posted.split)
  moreover have "received_current n f' = received_current n f"
    using assms(2) by (intro ext) (simp add: received_current_def)
  ultimately show ?thesis using assms by (simp add: barrier_ok_def)
qed

lemma barrier_ok_effect:
  assumes "effect f f'" "barrier_ok n Q C f"
  shows "barrier_ok n Q C f'"
  using assms
proof (induction rule: effect.induct)
  case (effect_connect i f)
  then show ?case
    by (intro barrier_ok_upd_frame) (auto simp: session_ok_def dest: barrier_okD(1))
next
  case (effect_release i f)
  then have "barrier_ok n Q C (upd_frame i (\<lambda>s. s\<lparr> fr_state := RELEASING, fr_releasing := True \<rparr>) f)"
    by (intro barrier_ok_upd_frame) (auto simp: session_ok_def dest: barrier_okD(1))
  then show ?case by (rule barrier_ok_cong) (simp_all add: release_frame_def)
next
  case (effect_post i f c)
  have i: "i < n" using effect_post(1,5) barrier_okD(1) by auto
  have io: "io_session c = Some i" using effect_post(4) by (simp add: current_send_def)
  let ?f = "post_frame (PostedSend c) (mode_frame IO_SENDING i f)"
  have f: "fr_sessions ?f = (fr_sessions f)[i := (fr_sessions f ! i)\<lparr> fr_ioMode := IO_SENDING \<rparr>]"
    "fr_posted ?f = fr_posted f @ [PostedSend c]" "fr_queues ?f = fr_queues f"
    by (simp_all add: post_frame_def mode_frame_def upd_frame_def)
  show ?case
  proof (rule barrier_ok_update [OF effect_post(5) i f(1)])
    show "posted_current n f p" if "p \<in> set (Q @ fr_posted ?f)" for p
      using that barrier_okD(2) [OF effect_post(5)] effect_post(4) i by (auto simp: f posted_current_def)
    show "received_current n f d" if "d \<in> set (C @ concat (fr_queues ?f))" for d
      using that barrier_okD(3) [OF effect_post(5)] by (auto simp: f)
    show "session_ok i (posted_slots i (Q @ fr_posted ?f)) (posted_sends i (Q @ fr_posted ?f))
        (queued i (C @ concat (fr_queues ?f))) ((fr_sessions f ! i)\<lparr> fr_ioMode := IO_SENDING \<rparr>)"
      using barrier_okD(4) [OF effect_post(5) i] effect_post(2) io by (auto simp: f session_ok_def)
  qed (simp_all add: f io)
qed

lemma barrier_ok_effects: "effect\<^sup>*\<^sup>* f f' \<Longrightarrow> barrier_ok n Q C f \<Longrightarrow> barrier_ok n Q C f'"
  by (induction rule: rtranclp_induct) (auto intro: barrier_ok_effect)

section \<open>Steps of the barrier\<close>

definition upd_rb :: "nat \<Rightarrow> (RecvBuffer \<Rightarrow> RecvBuffer) \<Rightarrow> Frame \<Rightarrow> Frame" where
  "upd_rb i g = upd_frame i (\<lambda>s. s\<lparr> fr_recvBuffer := g (fr_recvBuffer s) \<rparr>)"

lemmas recv_buffer_defs = RecvBuffer_AcquireFreeRecvContext_def RecvBuffer_ClearFreeRecvContexts_def
  RecvBuffer_BeginRecvIo_def RecvBuffer_CompleteRecvIo_def RecvBuffer_BeginRecvLogic_def
  RecvBuffer_CompleteRecvLogic_def RecvBuffer_ReleaseRecvContext_def RecvBuffer_IsDrained_def

text \<open>A receive slot comes back.\<close>

lemma barrier_ok_recv_done:
  assumes "barrier_ok n (PostedRecv i k # Q) C f"
  shows "barrier_ok n Q C (upd_rb i (\<lambda>rb. RecvBuffer_CompleteRecvIo (RecvBuffer_ReleaseRecvContext k rb)) f)"
proof -
  have i: "i < n" using barrier_okD(2) [OF assms, of "PostedRecv i k"] by (simp add: posted_current_def)
  show ?thesis
  proof (rule barrier_ok_update [OF assms i])
    show "posted_current n f p" if "p \<in> set (Q @ fr_posted (upd_rb i g f))" for p g
      using that barrier_okD(2) [OF assms] by (auto simp: upd_rb_def upd_frame_def)
    show "received_current n f c" if "c \<in> set (C @ concat (fr_queues (upd_rb i g f)))" for c g
      using that barrier_okD(3) [OF assms] by (auto simp: upd_rb_def upd_frame_def)
    show "session_ok i (posted_slots i (Q @ fr_posted (upd_rb i g f)))
        (posted_sends i (Q @ fr_posted (upd_rb i g f))) (queued i (C @ concat (fr_queues (upd_rb i g f))))
        ((fr_sessions f ! i)\<lparr> fr_recvBuffer := RecvBuffer_CompleteRecvIo
           (RecvBuffer_ReleaseRecvContext k (fr_recvBuffer (fr_sessions f ! i))) \<rparr>)" for g
      using barrier_okD(4) [OF assms i] by (auto simp: upd_rb_def upd_frame_def session_ok_def recv_buffer_defs)
  qed (simp_all add: upd_rb_def upd_frame_def)
qed

text \<open>A datagram was sent.\<close>

lemma barrier_ok_send_done:
  assumes "barrier_ok n (PostedSend c # Q) C f" "io_session c = Some i" "i < n"
  shows "barrier_ok n Q C (mode_frame IO_NONE_SENDING i f)"
proof (rule barrier_ok_update [OF assms(1,3)])
  show "posted_current n f p" if "p \<in> set (Q @ fr_posted (mode_frame IO_NONE_SENDING i f))" for p
    using that barrier_okD(2) [OF assms(1)] by (auto simp: mode_frame_def upd_frame_def)
  show "received_current n f d" if "d \<in> set (C @ concat (fr_queues (mode_frame IO_NONE_SENDING i f)))" for d
    using that barrier_okD(3) [OF assms(1)] by (auto simp: mode_frame_def upd_frame_def)
  show "session_ok i (posted_slots i (Q @ fr_posted (mode_frame IO_NONE_SENDING i f)))
      (posted_sends i (Q @ fr_posted (mode_frame IO_NONE_SENDING i f)))
      (queued i (C @ concat (fr_queues (mode_frame IO_NONE_SENDING i f))))
      ((fr_sessions f ! i)\<lparr> fr_ioMode := IO_NONE_SENDING \<rparr>)"
    using barrier_okD(4) [OF assms(1,3)] assms(2)
    by (auto simp: mode_frame_def upd_frame_def session_ok_def split: if_splits)
qed (use assms in \<open>simp_all add: mode_frame_def upd_frame_def\<close>)

text \<open>A free slot is posted, or posting it fails.\<close>

lemma session_ok_acquired:
  assumes "session_ok i K S q s" "freeRecvContexts (fr_recvBuffer s) = k # rest"
    and "rb = RecvBuffer_BeginRecvIo
      (set_slot_generation k (fr_generation s) ((fr_recvBuffer s)\<lparr> freeRecvContexts := rest \<rparr>))"
  shows "fr_state s \<noteq> DISCONNECTED \<Longrightarrow> session_ok i (K @ [k]) S q (s\<lparr> fr_recvBuffer := rb \<rparr>)"
    and "session_ok i K S q (s\<lparr> fr_recvBuffer :=
      RecvBuffer_ReleaseRecvContext k (RecvBuffer_CompleteRecvIo rb) \<rparr>)"
  using assms
  by (auto simp: session_ok_def recv_buffer_defs set_slot_generation_def nth_list_update
      dest!: set_update_subset_insert [THEN subsetD])

lemma barrier_ok_post_recv:
  assumes "barrier_ok n Q C f" "i < n" "fr_state (fr_sessions f ! i) \<noteq> DISCONNECTED"
    "freeRecvContexts (fr_recvBuffer (fr_sessions f ! i)) = k # rest"
  defines "rb \<equiv> RecvBuffer_BeginRecvIo (set_slot_generation k (fr_generation (fr_sessions f ! i))
      ((fr_recvBuffer (fr_sessions f ! i))\<lparr> freeRecvContexts := rest \<rparr>))"
  shows "barrier_ok n Q C (post_frame (PostedRecv i k) (upd_rb i (\<lambda>_. rb) f))"
    and "barrier_ok n Q C (upd_rb i (\<lambda>_. RecvBuffer_ReleaseRecvContext k (RecvBuffer_CompleteRecvIo rb)) f)"
proof -
  note s = session_ok_acquired [OF barrier_okD(4) [OF assms(1,2)] assms(4) rb_def [THEN meta_eq_to_obj_eq]]
  show "barrier_ok n Q C (upd_rb i (\<lambda>_. RecvBuffer_ReleaseRecvContext k (RecvBuffer_CompleteRecvIo rb)) f)"
    unfolding upd_rb_def by (rule barrier_ok_upd_frame [OF assms(1,2)]) (use s(2) in simp_all)
  show "barrier_ok n Q C (post_frame (PostedRecv i k) (upd_rb i (\<lambda>_. rb) f))"
  proof (rule barrier_ok_update [OF assms(1,2)])
    show "posted_current n f p" if "p \<in> set (Q @ fr_posted (post_frame (PostedRecv i k) (upd_rb i (\<lambda>_. rb) f)))" for p
      using that barrier_okD(2) [OF assms(1)] assms(2)
      by (auto simp: upd_rb_def upd_frame_def post_frame_def posted_current_def)
    show "received_current n f c" if "c \<in> set (C @ concat (fr_queues (post_frame p (upd_rb i g f))))" for c p g
      using that barrier_okD(3) [OF assms(1)] by (auto simp: upd_rb_def upd_frame_def post_frame_def)
    show "session_ok i (posted_slots i (Q @ fr_posted (post_frame (PostedRecv i k) (upd_rb i g f))))
        (posted_sends i (Q @ fr_posted (post_frame (PostedRecv i k) (upd_rb i g f))))
        (queued i (C @ concat (fr_queues (post_frame (PostedRecv i k) (upd_rb i g f)))))
        ((fr_sessions f ! i)\<lparr> fr_recvBuffer := rb \<rparr>)" for g
      using s(1) [OF assms(3)] by (simp add: upd_rb_def upd_frame_def post_frame_def)
  qed (simp_all add: upd_rb_def upd_frame_def post_frame_def)
qed

text \<open>A received datagram waits for the logic thread, is taken by it, and is done.\<close>

lemma queued_concat_update:
  "t < length qs \<Longrightarrow> queued i (concat (qs[t := q])) + queued i (qs ! t) = queued i (concat qs) + queued i q"
proof (induction qs arbitrary: t)
  case (Cons x qs)
  show ?case
  proof (cases t)
    case (Suc u)
    with Cons.prems Cons.IH [of u] show ?thesis by simp
  qed simp
qed simp

lemma set_concat_update: "c \<in> set (concat (qs[t := q])) \<Longrightarrow> c \<in> set (concat qs) \<or> c \<in> set q"
  by (auto dest!: set_update_subset_insert [THEN subsetD])

definition upd_queue :: "nat \<Rightarrow> RecvIOCompletedContext list \<Rightarrow> Frame \<Rightarrow> Frame" where
  "upd_queue t q f = f\<lparr> fr_queues := (fr_queues f)[t := q] \<rparr>"

lemma barrier_ok_enqueue:
  assumes "barrier_ok n Q C f" "received_current n f c" "t < length (fr_queues f)"
  shows "barrier_ok n Q C
    (upd_queue t (fr_queues f ! t @ [c]) (upd_rb (rc_session c) RecvBuffer_BeginRecvLogic f))"
    (is "barrier_ok n Q C ?f")
proof -
  have i: "rc_session c < n" using assms(2) by (simp add: received_current_def)
  have q: "queued j (concat (fr_queues ?f)) = queued j (concat (fr_queues f)) + (if rc_session c = j then 1 else 0)" for j
    using queued_concat_update [OF assms(3), of j "fr_queues f ! t @ [c]"]
    by (simp add: upd_queue_def upd_rb_def upd_frame_def)
  show ?thesis
  proof (rule barrier_ok_update [OF assms(1) i])
    show "posted_current n f p" if "p \<in> set (Q @ fr_posted ?f)" for p
      using that barrier_okD(2) [OF assms(1)] by (auto simp: upd_queue_def upd_rb_def upd_frame_def)
    show "received_current n f d" if "d \<in> set (C @ concat (fr_queues ?f))" for d
    proof -
      have "\<forall>d \<in> set C. received_current n f d" "\<forall>x \<in> set (fr_queues f). \<forall>d \<in> set x. received_current n f d"
        using barrier_okD(3) [OF assms(1)] by auto
      with that assms(2) nth_mem [OF assms(3)] show ?thesis
        by (auto simp: upd_queue_def upd_rb_def upd_frame_def dest!: set_update_subset_insert [THEN subsetD])
    qed
    show "session_ok (rc_session c) (posted_slots (rc_session c) (Q @ fr_posted ?f))
        (posted_sends (rc_session c) (Q @ fr_posted ?f)) (queued (rc_session c) (C @ concat (fr_queues ?f)))
        ((fr_sessions f ! rc_session c)\<lparr> fr_recvBuffer :=
           RecvBuffer_BeginRecvLogic (fr_recvBuffer (fr_sessions f ! rc_session c)) \<rparr>)"
      using barrier_okD(4) [OF assms(1) i] q [of "rc_session c"]
      by (simp add: upd_queue_def upd_rb_def upd_frame_def session_ok_def recv_buffer_defs)
  qed (use q in \<open>simp_all add: upd_queue_def upd_rb_def upd_frame_def\<close>)
qed

lemma barrier_ok_dequeue:
  assumes "barrier_ok n Q C f" "t < length (fr_queues f)" "fr_queues f ! t = c # rest"
  shows "barrier_ok n Q (c # C) (upd_queue t rest f)" (is "barrier_ok n Q _ ?f")
proof -
  have q: "queued j ((c # C) @ concat (fr_queues ?f)) = queued j (C @ concat (fr_queues f))" for j
    using queued_concat_update [OF assms(2), of j rest] assms(3) by (simp add: upd_queue_def)
  have c: "c \<in> set (concat (fr_queues f))" "set rest \<subseteq> set (concat (fr_queues f))"
    using nth_mem [OF assms(2)] assms(3) by (auto intro: bexI [of _ "c # rest"])
  have "received_current n f d" if "d \<in> set ((c # C) @ concat (fr_queues ?f))" for d
    using that c barrier_okD(3) [OF assms(1)]
    by (auto simp: upd_queue_def dest!: set_update_subset_insert [THEN subsetD])
  moreover have "posted_current n ?f = posted_current n f" "received_current n ?f = received_current n f"
    by (intro ext; simp add: posted_current_def current_send_def received_current_def upd_queue_def
        split: posted.split)+
  ultimately show ?thesis
    using assms(1) unfolding barrier_ok_def q by (simp add: upd_queue_def del: set_append)
qed

lemma barrier_ok_logic_done:
  assumes "barrier_ok n Q (c # C) f"
  shows "barrier_ok n Q C (upd_rb (rc_session c) RecvBuffer_CompleteRecvLogic f)" (is "barrier_ok n Q C ?f")
proof -
  have i: "rc_session c < n"
    using barrier_okD(3) [OF assms, of c] by (simp add: received_current_def)
  show ?thesis
  proof (rule barrier_ok_update [OF assms i])
    show "posted_current n f p" if "p \<in> set (Q @ fr_posted ?f)" for p
      using that barrier_okD(2) [OF assms] by (auto simp: upd_rb_def upd_frame_def)
    show "received_current n f d" if "d \<in> set (C @ concat (fr_queues ?f))" for d
      using that barrier_okD(3) [OF assms] by (auto simp: upd_rb_def upd_frame_def)
    show "session_ok (rc_session c) (posted_slots (rc_session c) (Q @ fr_posted ?f))
        (posted_sends (rc_session c) (Q @ fr_posted ?f)) (queued (rc_session c) (C @ concat (fr_queues ?f)))
        ((fr_sessions f ! rc_session c)\<lparr> fr_recvBuffer :=
           RecvBuffer_CompleteRecvLogic (fr_recvBuffer (fr_sessions f ! rc_session c)) \<rparr>)"
      using barrier_okD(4) [OF assms i]
      by (simp add: upd_rb_def upd_frame_def session_ok_def recv_buffer_defs)
  qed (simp_all add: upd_rb_def upd_frame_def)
qed

text \<open>Nothing outside holds anything of session \<open>i\<close>: the release thread may reuse it.\<close>

definition drained :: "nat \<Rightarrow> posted list \<Rightarrow> RecvIOCompletedContext list \<Rightarrow> Frame \<Rightarrow> bool" where
  "drained i Q C f \<longleftrightarrow> posted_slots i (Q @ fr_posted f) = [] \<and> posted_sends i (Q @ fr_posted f) = 0 \<and>
     queued i (C @ concat (fr_queues f)) = 0"

lemma queued_0_iff: "queued i cs = 0 \<longleftrightarrow> (\<forall>c \<in> set cs. rc_session c \<noteq> i)"
  by (simp add: queued_def filter_empty_conv)

lemma posted_sends_0: "posted_sends i ps = 0 \<Longrightarrow> PostedSend c \<in> set ps \<Longrightarrow> io_session c \<noteq> Some i"
  by (induction i ps rule: posted_sends.induct) (auto split: if_splits)

lemma barrier_ok_renew:
  assumes "barrier_ok n Q C f" "i < n" "drained i Q C f" "session_ok i [] 0 0 s'"
  shows "barrier_ok n Q C (f\<lparr> fr_sessions := (fr_sessions f)[i := s'] \<rparr>)" (is "barrier_ok n Q C ?f")
proof -
  have len: "length (fr_sessions f) = n" using assms(1) by (rule barrier_okD)
  have "posted_current n ?f p" if "p \<in> set (Q @ fr_posted f)" for p
  proof (cases p)
    case (PostedSend c)
    then have "io_session c \<noteq> Some i" using that assms(3) posted_sends_0 unfolding drained_def by blast
    with PostedSend barrier_okD(2) [OF assms(1), of p] that len show ?thesis
      by (auto simp: posted_current_def current_send_def)
  qed (use that barrier_okD(2) [OF assms(1), of p] in \<open>simp add: posted_current_def\<close>)
  moreover have "received_current n ?f c" if "c \<in> set (C @ concat (fr_queues f))" for c
  proof -
    have "rc_session c \<noteq> i" using that assms(3) unfolding drained_def queued_0_iff by blast
    with that barrier_okD(3) [OF assms(1), of c] show ?thesis by (auto simp: received_current_def)
  qed
  moreover have "session_ok j (posted_slots j (Q @ fr_posted f)) (posted_sends j (Q @ fr_posted f))
      (queued j (C @ concat (fr_queues f))) (fr_sessions ?f ! j)" if "j < n" for j
    using barrier_okD(4) [OF assms(1) that] assms(2,3,4) len by (cases "j = i") (simp_all add: drained_def)
  ultimately show ?thesis using len by (simp add: barrier_ok_def)
qed

lemma of_nat_32_zero: "k < 2 ^ 32 \<Longrightarrow> (of_nat k :: 32 word) = 0 \<longleftrightarrow> k = 0"
  by (simp add: word_unat_eq_iff unat_of_nat take_bit_nat_eq_self)

lemma counters_drained:
  assumes "session_ok i K S q s" "RecvBuffer_IsDrained (fr_recvBuffer s)" "fr_ioMode s \<noteq> IO_SENDING" "q < 2 ^ 32"
  shows "K = [] \<and> S = 0 \<and> q = 0"
proof -
  have "distinct K" "set K \<subseteq> {..<length (slots (fr_recvBuffer s))}" "length (slots (fr_recvBuffer s)) \<le> 8"
    using assms(1) by (auto simp: session_ok_def)
  then have "length K \<le> 8" by (metis card_lessThan card_mono distinct_card finite_lessThan order_trans)
  moreover have "(of_nat (length K) :: 32 word) = 0" "(of_nat q :: 32 word) = 0" "S = 0"
    using assms(1-3) by (auto simp: session_ok_def RecvBuffer_IsDrained_def)
  ultimately show ?thesis using of_nat_32_zero [of q] of_nat_32_zero [of "length K"] assms(4) by simp
qed

end
