(* ===== verification/Server_Barrier.thy ===== *)
theory Server_Barrier
  imports Server_Invariant
begin

text \<open>
  The handlers that move receive slots, datagrams and sessions between RIO, the logic threads
  and the pool keep the two invariants of the abstract server.
\<close>

section \<open>Both invariants\<close>

definition spec_ok ::
    "nat \<Rightarrow> SessionIdType list \<Rightarrow> posted list \<Rightarrow> RecvIOCompletedContext list \<Rightarrow> Frame \<Rightarrow> bool" where
  "spec_ok n R Q C f \<longleftrightarrow> life_ok n R f \<and> barrier_ok n Q C f"

lemma spec_ok_evolves: "evolves w w' \<Longrightarrow> spec_ok n R Q C (frame w) \<Longrightarrow> spec_ok n R Q C (frame w')"
  unfolding evolves_def spec_ok_def using life_ok_effects barrier_ok_effects by blast

lemma spec_ok_len: "spec_ok n R Q C (frame w) \<Longrightarrow> i < n \<Longrightarrow> i < length (w_sessions w)"
  by (simp add: spec_ok_def life_ok_def)

text \<open>What \<open>life_ok\<close> sees.\<close>

definition life_part :: "Frame \<Rightarrow> (SESSION_STATE \<times> SessionIdType \<times> bool) list \<times> SessionIdType list
    \<times> SessionIdType set \<times> SessionIdType list" where
  "life_part f = (map (\<lambda>s. (fr_state s, fr_id s, fr_releasing s)) (fr_sessions f),
     fr_unused f, fr_unusedSet f, fr_release f)"

lemma life_part_nth:
  assumes "life_part f' = life_part f" "i < length (fr_sessions f)"
  shows "fr_state (fr_sessions f' ! i) = fr_state (fr_sessions f ! i)"
    "fr_id (fr_sessions f' ! i) = fr_id (fr_sessions f ! i)"
    "fr_releasing (fr_sessions f' ! i) = fr_releasing (fr_sessions f ! i)"
proof -
  have l: "length (fr_sessions f') = length (fr_sessions f)"
    using arg_cong [OF assms(1), of "\<lambda>x. length (fst x)"] by (simp add: life_part_def)
  have "map (\<lambda>s. (fr_state s, fr_id s, fr_releasing s)) (fr_sessions f') ! i
      = map (\<lambda>s. (fr_state s, fr_id s, fr_releasing s)) (fr_sessions f) ! i"
    using assms(1) by (simp add: life_part_def)
  then show "fr_state (fr_sessions f' ! i) = fr_state (fr_sessions f ! i)"
    "fr_id (fr_sessions f' ! i) = fr_id (fr_sessions f ! i)"
    "fr_releasing (fr_sessions f' ! i) = fr_releasing (fr_sessions f ! i)"
    using assms(2) l by simp_all
qed

lemma life_ok_cong:
  assumes "life_part f' = life_part f"
  shows "life_ok n R f' = life_ok n R f"
proof -
  have "length (fr_sessions f') = length (fr_sessions f)" "fr_unused f' = fr_unused f"
    "fr_unusedSet f' = fr_unusedSet f" "fr_release f' = fr_release f"
    using assms by (auto simp: life_part_def dest: map_eq_imp_length_eq)
  then show ?thesis using life_part_nth [OF assms] unfolding life_ok_def by auto
qed

lemma life_part_upd_frame:
  assumes "\<And>s. fr_state (g s) = fr_state s \<and> fr_id (g s) = fr_id s \<and> fr_releasing (g s) = fr_releasing s"
  shows "life_part (upd_frame i g f) = life_part f"
  using assms
  by (cases "i < length (fr_sessions f)")
     (auto simp: life_part_def upd_frame_def list_update_beyond map_update list_update_same_conv)

lemma life_part_simps [simp]:
  "life_part (upd_rb i h f) = life_part f" "life_part (mode_frame md i f) = life_part f"
  "life_part (post_frame p f) = life_part f" "life_part (upd_queue t q f) = life_part f"
  "life_part (f\<lparr> fr_posted := ps \<rparr>) = life_part f"
  unfolding upd_rb_def mode_frame_def
  by (rule life_part_upd_frame, simp)+ (simp_all add: life_part_def post_frame_def upd_queue_def)

lemma spec_ok_barrier:
  assumes "spec_ok n R Q C f" "life_part f' = life_part f" "barrier_ok n Q C f \<Longrightarrow> barrier_ok n Q' C' f'"
  shows "spec_ok n R Q' C' f'"
  using assms life_ok_cong [OF assms(2)] by (simp add: spec_ok_def)

section \<open>The abstract state of a receive buffer\<close>

lemma frame_upd_recvBuffer:
  "i < length (w_sessions w) \<Longrightarrow> frame (upd_recvBuffer i g w) = upd_rb i g (frame w)"
  unfolding upd_recvBuffer_def upd_rb_def by (rule frame_upd_session) (simp_all add: session_frame_def)

lemma upd_rb_twice [simp]: "upd_rb i g (upd_rb i h f) = upd_rb i (\<lambda>rb. g (h rb)) f"
  by (cases "i < length (fr_sessions f)") (simp_all add: upd_rb_def upd_frame_def list_update_beyond)

lemma upd_rb_same: "upd_rb i (\<lambda>_. fr_recvBuffer (fr_sessions f ! i)) f = f"
proof -
  have "(fr_sessions f ! i)\<lparr> fr_recvBuffer := fr_recvBuffer (fr_sessions f ! i) \<rparr> = fr_sessions f ! i" by simp
  then show ?thesis by (simp add: upd_rb_def upd_frame_def)
qed

lemma upd_rb_cong:
  "g (fr_recvBuffer (fr_sessions f ! i)) = h (fr_recvBuffer (fr_sessions f ! i)) \<Longrightarrow> upd_rb i g f = upd_rb i h f"
  by (simp add: upd_rb_def upd_frame_def)

lemma frame_posted: "frame (w\<lparr> w_posted := w_posted w @ [p] \<rparr>) = post_frame p (frame w)"
  "frame (w\<lparr> w_posted := ps \<rparr>) = (frame w)\<lparr> fr_posted := ps \<rparr>"
  by (simp_all add: frame_def post_frame_def)

lemma upd_recvBuffer_length [simp]: "length (w_sessions (upd_recvBuffer i g w)) = length (w_sessions w)"
  by (simp add: upd_recvBuffer_def)

section \<open>Posting receives\<close>

lemma spec_DoRecv_loop:
  "DoRecv_loop E i k w = (ok, w') \<Longrightarrow> spec_ok n R Q C (frame w) \<Longrightarrow> i < n \<Longrightarrow>
   sm_state (s_stateMachine (get_session i w)) \<noteq> DISCONNECTED \<Longrightarrow> spec_ok n R Q C (frame w')"
proof (induction k arbitrary: w)
  case (Suc k)
  note len = spec_ok_len [OF Suc.prems(2,3)]
  let ?s = "fr_sessions (frame w) ! i"
  have s: "fr_recvBuffer ?s = s_recvBuffer (get_session i w)" "fr_generation ?s = s_sessionGeneration (get_session i w)"
    "fr_state ?s \<noteq> DISCONNECTED"
    unfolding frame_nth [OF len] using Suc.prems(4) by (simp_all add: session_frame_def)
  show ?case
  proof (cases "freeRecvContexts (s_recvBuffer (get_session i w))")
    case Nil
    then have "RecvBuffer_AcquireFreeRecvContext (s_recvBuffer (get_session i w)) = (None, s_recvBuffer (get_session i w))"
      by (simp add: RecvBuffer_AcquireFreeRecvContext_def)
    with Suc.prems show ?thesis by simp
  next
    case (Cons slot rest)
    let ?rb = "(s_recvBuffer (get_session i w))\<lparr> freeRecvContexts := rest \<rparr>"
    define rb where "rb = RecvBuffer_BeginRecvIo (set_slot_generation slot (s_sessionGeneration (get_session i w)) ?rb)"
    have acq: "RecvBuffer_AcquireFreeRecvContext (s_recvBuffer (get_session i w)) = (Some slot, ?rb)"
      using Cons by (simp add: RecvBuffer_AcquireFreeRecvContext_def)
    define w3 where "w3 = upd_recvBuffer i RecvBuffer_BeginRecvIo
      (upd_recvBuffer i (set_slot_generation slot (s_sessionGeneration (get_session i (upd_recvBuffer i (\<lambda>_. ?rb) w))))
        (upd_recvBuffer i (\<lambda>_. ?rb) w))"
    obtain p w4 where q: "ask (env_rioReceive E) w3 = (p, w4)" by (cases "ask (env_rioReceive E) w3")
    have gen: "s_sessionGeneration (get_session i (upd_recvBuffer i (\<lambda>_. ?rb) w)) = s_sessionGeneration (get_session i w)"
      using len by (simp add: upd_recvBuffer_def upd_session_def get_session_def)
    have w3: "frame w3 = upd_rb i (\<lambda>_. rb) (frame w)" "length (w_sessions w3) = length (w_sessions w)"
      unfolding w3_def gen using len by (simp_all add: frame_upd_recvBuffer rb_def)
    have w4: "frame w4 = frame w3" "length (w_sessions w4) = length (w_sessions w3)"
      using frame_ask [OF q] ask_frame(1) [OF q] by simp_all
    have free: "freeRecvContexts (fr_recvBuffer ?s) = slot # rest" using Cons s by simp
    note b = barrier_ok_post_recv [OF _ Suc.prems(3) s(3) free, of Q C, unfolded s(1,2), folded rb_def]
    have step: "DoRecv_loop E i (Suc k) w = (if \<not> p then
        (False, upd_recvBuffer i (RecvBuffer_ReleaseRecvContext slot) (upd_recvBuffer i RecvBuffer_CompleteRecvIo w4))
        else DoRecv_loop E i k (w4\<lparr> w_posted := w_posted w4 @ [PostedRecv i slot] \<rparr>))"
      using acq q by (simp add: Let_def flip: w3_def)
    show ?thesis
    proof (cases p)
      case True
      let ?v = "w4\<lparr> w_posted := w_posted w4 @ [PostedRecv i slot] \<rparr>"
      have fv: "frame ?v = post_frame (PostedRecv i slot) (upd_rb i (\<lambda>_. rb) (frame w))"
        by (simp add: frame_posted w4 w3)
      have v: "spec_ok n R Q C (frame ?v)"
        unfolding fv by (rule spec_ok_barrier [OF Suc.prems(2)]) (simp_all add: b)
      have lv: "life_part (frame ?v) = life_part (frame w)" unfolding fv by simp
      have "fr_state (fr_sessions (frame ?v) ! i) \<noteq> DISCONNECTED"
        using life_part_nth(1) [OF lv, of i] len s(3) by simp
      then have "sm_state (s_stateMachine (get_session i ?v)) \<noteq> DISCONNECTED"
        using spec_ok_len [OF v Suc.prems(3)] by (simp add: session_frame_def get_session_def)
      with Suc.IH [OF _ v Suc.prems(3)] step Suc.prems(1) True show ?thesis by simp
    next
      case False
      then have "frame w' = upd_rb i (\<lambda>_. RecvBuffer_ReleaseRecvContext slot (RecvBuffer_CompleteRecvIo rb)) (frame w)"
        using step Suc.prems(1) len w3 w4 by (auto simp: frame_upd_recvBuffer)
      then show ?thesis by (simp add: spec_ok_barrier [OF Suc.prems(2)] b)
    qed
  qed
qed simp

lemma spec_DoRecv:
  assumes "IOHandler_DoRecv E i w = (ok, w')" "spec_ok n R Q C (frame w)" "i < n"
    "sm_state (s_stateMachine (get_session i w)) \<noteq> DISCONNECTED"
  shows "spec_ok n R Q C (frame w')"
  using assms spec_DoRecv_loop [OF _ assms(2-4)]
  by (auto simp: IOHandler_DoRecv_def simp del: DoRecv_loop.simps split: if_splits)

lemma life_DoRecv_loop:
  "DoRecv_loop E i k w = (ok, w') \<Longrightarrow> i < length (w_sessions w) \<Longrightarrow> life_part (frame w') = life_part (frame w)"
proof (induction k arbitrary: w)
  case (Suc k)
  obtain r rb where a: "RecvBuffer_AcquireFreeRecvContext (s_recvBuffer (get_session i w)) = (r, rb)"
    by (cases "RecvBuffer_AcquireFreeRecvContext (s_recvBuffer (get_session i w))")
  show ?case
  proof (cases r)
    case (Some slot)
    define w3 where "w3 = upd_recvBuffer i RecvBuffer_BeginRecvIo
      (upd_recvBuffer i (set_slot_generation slot (s_sessionGeneration (get_session i (upd_recvBuffer i (\<lambda>_. rb) w))))
        (upd_recvBuffer i (\<lambda>_. rb) w))"
    obtain p w4 where q: "ask (env_rioReceive E) w3 = (p, w4)" by (cases "ask (env_rioReceive E) w3")
    have w4: "life_part (frame w4) = life_part (frame w)" "i < length (w_sessions w4)"
      using Suc.prems(2) frame_ask [OF q] ask_frame(1) [OF q] by (simp_all add: w3_def frame_upd_recvBuffer)
    have step: "DoRecv_loop E i (Suc k) w = (if \<not> p then
        (False, upd_recvBuffer i (RecvBuffer_ReleaseRecvContext slot) (upd_recvBuffer i RecvBuffer_CompleteRecvIo w4))
        else DoRecv_loop E i k (w4\<lparr> w_posted := w_posted w4 @ [PostedRecv i slot] \<rparr>))"
      using a Some q by (simp add: Let_def flip: w3_def)
    show ?thesis
      using step Suc.prems(1) w4 Suc.IH [of "w4\<lparr> w_posted := w_posted w4 @ [PostedRecv i slot] \<rparr>"]
      by (auto simp: frame_upd_recvBuffer frame_posted split: if_splits)
  qed (use a Suc.prems in auto)
qed simp

lemma life_DoRecv:
  "IOHandler_DoRecv E i w = (ok, w') \<Longrightarrow> i < length (w_sessions w) \<Longrightarrow> life_part (frame w') = life_part (frame w)"
  by (auto simp: IOHandler_DoRecv_def simp del: DoRecv_loop.simps split: if_splits dest: life_DoRecv_loop)

section \<open>Completions\<close>

lemma spec_posted:
  assumes "spec_ok n R (p # Q) C (frame w)"
  shows "posted_ok n p w"
    and "io_session (posted_context p w) = Some i \<Longrightarrow> i < n \<and>
      io_ownerSessionId (posted_context p w) = s_sessionId (get_session i w) \<and>
      io_ownerSessionGeneration (posted_context p w) = s_sessionGeneration (get_session i w)"
    and "p = PostedRecv i k \<Longrightarrow> i < n \<and> io_session (posted_context p w) = Some i \<and>
      sm_state (s_stateMachine (get_session i w)) \<noteq> DISCONNECTED"
proof -
  have b: "barrier_ok n (p # Q) C (frame w)" using assms by (simp add: spec_ok_def)
  have cur: "posted_current n (frame w) p" using barrier_okD(2) [OF b] by simp
  have f: "fr_sessions (frame w) ! j = session_frame (get_session j w)" if "j < n" for j
    by (rule frame_nth [OF spec_ok_len [OF assms that]])
  have recv: "posted_ok n p w \<and> (io_session (posted_context p w) = Some j \<and> j < n \<and>
      io_ownerSessionId (posted_context p w) = s_sessionId (get_session j w) \<and>
      io_ownerSessionGeneration (posted_context p w) = s_sessionGeneration (get_session j w) \<and>
      sm_state (s_stateMachine (get_session j w)) \<noteq> DISCONNECTED)" if p: "p = PostedRecv j l" for j l
  proof -
    have j: "j < n" using cur p by (simp add: posted_current_def)
    have "l < length (slots (s_recvBuffer (get_session j w)))"
      "io_ownerSessionGeneration (slots (s_recvBuffer (get_session j w)) ! l) = s_sessionGeneration (get_session j w)"
      "sm_state (s_stateMachine (get_session j w)) \<noteq> DISCONNECTED"
      "\<forall>c \<in> set (slots (s_recvBuffer (get_session j w))).
         io_session c = Some j \<and> io_ioType c = OP_RECV \<and> io_ownerSessionId c = s_sessionId (get_session j w)"
      using barrier_okD(4) [OF b j] p unfolding f [OF j] by (auto simp: session_ok_def session_frame_def)
    with j p show ?thesis by (auto simp: posted_ok_def posted_context_def)
  qed
  have send: "posted_ok n p w \<and> (\<exists>j < n. io_session c = Some j \<and> current_send j (frame w) c)" if "p = PostedSend c" for c
    using cur that by (auto simp: posted_current_def posted_ok_def posted_context_def current_send_def)
  show "posted_ok n p w" using recv send by (cases p) blast+
  show "io_session (posted_context p w) = Some i \<Longrightarrow> i < n \<and>
      io_ownerSessionId (posted_context p w) = s_sessionId (get_session i w) \<and>
      io_ownerSessionGeneration (posted_context p w) = s_sessionGeneration (get_session i w)"
    using recv send f by (cases p) (force simp: current_send_def posted_context_def session_frame_def)+
  show "p = PostedRecv i k \<Longrightarrow> i < n \<and> io_session (posted_context p w) = Some i \<and>
      sm_state (s_stateMachine (get_session i w)) \<noteq> DISCONNECTED"
    using recv by blast
qed

lemma frame_Release:
  "i < length (w_sessions w) \<Longrightarrow> frame (IOHandler_ReleaseRecvContext (PostedRecv i k) w)
    = upd_rb i (\<lambda>rb. RecvBuffer_CompleteRecvIo (RecvBuffer_ReleaseRecvContext k rb)) (frame w)"
  by (simp add: IOHandler_ReleaseRecvContext_def frame_upd_recvBuffer)

lemma spec_Release:
  assumes "spec_ok n R (PostedRecv i k # Q) C (frame w)"
  shows "spec_ok n R Q C (frame (IOHandler_ReleaseRecvContext (PostedRecv i k) w))"
    and "sm_state (s_stateMachine (get_session i (IOHandler_ReleaseRecvContext (PostedRecv i k) w))) \<noteq> DISCONNECTED"
proof -
  note i = spec_posted(3) [OF assms refl]
  note len = spec_ok_len [OF assms conjunct1 [OF i]]
  show "spec_ok n R Q C (frame (IOHandler_ReleaseRecvContext (PostedRecv i k) w))"
    unfolding frame_Release [OF len] by (rule spec_ok_barrier [OF assms]) (simp_all add: barrier_ok_recv_done)
  show "sm_state (s_stateMachine (get_session i (IOHandler_ReleaseRecvContext (PostedRecv i k) w))) \<noteq> DISCONNECTED"
    using i len by (simp add: IOHandler_ReleaseRecvContext_def upd_recvBuffer_def upd_session_def get_session_def)
qed

lemma frame_queues: "frame (w\<lparr> w_recvIOCompletedContexts := (w_recvIOCompletedContexts w)[t := cs] \<rparr>)
    = upd_queue t cs (frame w)"
  by (simp add: frame_def upd_queue_def)

lemma frame_Enqueue:
  assumes "Core_EnqueueContextResult E i g addr b threadId w = (ok, w')" "i < length (w_sessions w)"
    "unat threadId < length (w_recvIOCompletedContexts w)"
  shows "\<not> ok \<Longrightarrow> frame w' = frame w"
    and "ok \<Longrightarrow> frame w' = upd_queue (unat threadId) (fr_queues (frame w) ! unat threadId @
        [\<lparr> rc_session = i, rc_ownerSessionGeneration = g, rc_buffer = b, rc_clientAddr = addr \<rparr>])
      (upd_rb i RecvBuffer_BeginRecvLogic (frame w))"
proof -
  obtain al w1 where a: "ask (env_contextAlloc E) w = (al, w1)" by (cases "ask (env_contextAlloc E) w")
  have w1: "frame w1 = frame w" "length (w_sessions w1) = length (w_sessions w)"
    "w_recvIOCompletedContexts w1 = w_recvIOCompletedContexts w"
    using frame_ask [OF a] ask_frame(1) [OF a] a by (auto simp: ask_def)
  let ?w2 = "upd_recvBuffer i RecvBuffer_BeginRecvLogic w1"
  have q: "frame (?w2\<lparr> w_recvIOCompletedContexts := (w_recvIOCompletedContexts ?w2)[t := cs] \<rparr>)
      = upd_queue t cs (upd_rb i RecvBuffer_BeginRecvLogic (frame w))" for t cs
    using frame_upd_recvBuffer [of i w1 RecvBuffer_BeginRecvLogic] w1 assms(2) by (simp only: frame_queues)
  show "\<not> ok \<Longrightarrow> frame w' = frame w"
    using assms(1,3) a w1 by (auto simp: Core_EnqueueContextResult_def Let_def split: if_splits)
  show "ok \<Longrightarrow> frame w' = upd_queue (unat threadId) (fr_queues (frame w) ! unat threadId @
        [\<lparr> rc_session = i, rc_ownerSessionGeneration = g, rc_buffer = b, rc_clientAddr = addr \<rparr>])
      (upd_rb i RecvBuffer_BeginRecvLogic (frame w))"
    using assms(1,3) a w1 q
    by (auto simp: Core_EnqueueContextResult_def Let_def upd_recvBuffer_def upd_session_def frame_def split: if_splits)
qed

lemma spec_Enqueue:
  assumes "Core_EnqueueContextResult E i g addr b threadId w = (ok, w')" "spec_ok n R Q C (frame w)" "i < n"
    "g = s_sessionGeneration (get_session i w)" "unat threadId < length (w_recvIOCompletedContexts w)"
  shows "spec_ok n R Q C (frame w')"
proof -
  note len = spec_ok_len [OF assms(2,3)]
  let ?c = "\<lparr> rc_session = i, rc_ownerSessionGeneration = g, rc_buffer = b, rc_clientAddr = addr \<rparr>"
  have c: "received_current n (frame w) ?c"
    using assms(3,4) len by (simp add: received_current_def session_frame_def get_session_def)
  have t: "unat threadId < length (fr_queues (frame w))" using assms(5) by (simp add: frame_def)
  have "spec_ok n R Q C (upd_queue (unat threadId) (fr_queues (frame w) ! unat threadId @ [?c])
      (upd_rb i RecvBuffer_BeginRecvLogic (frame w)))"
    by (rule spec_ok_barrier [OF assms(2)]) (use barrier_ok_enqueue [OF _ c t] in simp_all)
  then show ?thesis using frame_Enqueue [OF assms(1) len assms(5)] assms(2) by (cases ok) simp_all
qed

lemma spec_RecvIOCompleted:
  assumes "IOHandler_RecvIOCompleted E (PostedRecv i k) data addr threadId w = (ok, w')"
    "spec_ok n R (PostedRecv i k # Q) C (frame w)" "unat threadId < length (w_recvIOCompletedContexts w)"
  shows "spec_ok n R Q C (frame w')"
proof -
  let ?p = "PostedRecv i k"
  note i = spec_posted(3) [OF assms(2) refl]
  have gen: "io_ownerSessionGeneration (posted_context ?p w) = s_sessionGeneration (get_session i w)"
    using spec_posted(2) [OF assms(2), of i] i by simp
  obtain d w1 where d: "ask (env_dropReceived E) w = (d, w1)" by (cases "ask (env_dropReceived E) w")
  obtain al w2 where al: "ask (env_netBufferAlloc E) w1 = (al, w2)" by (cases "ask (env_netBufferAlloc E) w1")
  have f: "frame w1 = frame w" "frame w2 = frame w" using frame_ask [OF d] frame_ask [OF al] by simp_all
  have l2: "unat threadId < length (w_recvIOCompletedContexts w2)" "get_session i w2 = get_session i w"
    using d al assms(3) by (auto simp: ask_def get_session_def)
  let ?b0 = "nb_Alloc (env_api E)"
  let ?buffer = "?b0\<lparr> m_pSerializeBuffer := patch 0 data (m_pSerializeBuffer ?b0), m_iWrite := of_nat (length data) \<rparr>"
  obtain en w3 where en: "Core_EnqueueContextResult E i (io_ownerSessionGeneration (posted_context ?p w)) addr ?buffer threadId w2 = (en, w3)"
    by (cases "Core_EnqueueContextResult E i (io_ownerSessionGeneration (posted_context ?p w)) addr ?buffer threadId w2")
  have s1: "spec_ok n R (?p # Q) C (frame w1)" and s2: "spec_ok n R (?p # Q) C (frame w2)" using assms(2) f by simp_all
  have s3: "spec_ok n R (?p # Q) C (frame w3)"
    by (rule spec_Enqueue [OF en s2 conjunct1 [OF i]]) (use gen l2 in simp_all)
  consider "IOHandler_DoRecv E i (IOHandler_ReleaseRecvContext ?p w1) = (ok, w')"
    | "w' = IOHandler_ReleaseRecvContext ?p w2" | "w' = IOHandler_ReleaseRecvContext ?p w3"
    | "IOHandler_DoRecv E i (IOHandler_ReleaseRecvContext ?p w3) = (ok, w')"
    using assms(1) i d al en by (auto simp: IOHandler_RecvIOCompleted_def Let_def split: if_splits)
  then show ?thesis
  proof cases
    case 1
    from spec_DoRecv [OF this spec_Release(1) [OF s1] _ spec_Release(2) [OF s1]] i show ?thesis by simp
  next
    case 4
    from spec_DoRecv [OF this spec_Release(1) [OF s3] _ spec_Release(2) [OF s3]] i show ?thesis by simp
  qed (use spec_Release(1) [OF s2] spec_Release(1) [OF s3] in simp_all)
qed

lemma spec_send_done:
  assumes "spec_ok n R (PostedSend c # Q) C (frame w)" "io_session c = Some i"
  shows "spec_ok n R Q C (frame (set_ioMode IO_NONE_SENDING i w))"
proof -
  have i: "i < n" using spec_posted(2) [OF assms(1), of i] assms(2) by (simp add: posted_context_def)
  show ?thesis
    unfolding frame_set_ioMode [OF spec_ok_len [OF assms(1) i]]
    by (rule spec_ok_barrier [OF assms(1)]) (simp_all add: barrier_ok_send_done [OF _ assms(2) i])
qed

lemma spec_SendIOCompleted:
  assumes "IOHandler_SendIOCompleted E (PostedSend c) threadId w = (ok, w')"
    "spec_ok n R (PostedSend c # Q) C (frame w)"
  shows "spec_ok n R Q C (frame w')"
proof -
  obtain i where i: "io_session c = Some i" "i < n"
    using spec_posted(1) [OF assms(2)] by (auto simp: posted_ok_def posted_context_def)
  note s = spec_send_done [OF assms(2) i(1)]
  have "evolves (set_ioMode IO_NONE_SENDING i w) v" if "IOHandler_DoSend E i threadId (set_ioMode IO_NONE_SENDING i w) = (r, v)" for r v
    by (rule evolves_DoSend [OF that spec_ok_len [OF s i(2)]])
  with s assms(1) i show ?thesis
    by (auto simp: IOHandler_SendIOCompleted_def posted_context_def Let_def split: if_splits intro: spec_ok_evolves)
qed

lemma spec_DoDisconnect:
  "spec_ok n R Q C (frame w) \<Longrightarrow> i < n \<Longrightarrow> spec_ok n R Q C (frame (Session_DoDisconnect E r i w))"
  by (rule spec_ok_evolves [OF evolves_DoDisconnect]) (simp_all add: spec_ok_len)

lemma frame_active:
  "i < length (w_sessions w) \<Longrightarrow> frame (upd_session i (\<lambda>s. s\<lparr> s_activeIOCompletions := g (s_activeIOCompletions s) \<rparr>) w)
    = upd_frame i (\<lambda>s. s\<lparr> fr_active := g (fr_active s) \<rparr>) (frame w)"
  by (rule frame_upd_session) (simp_all add: session_frame_def)

lemma spec_active:
  assumes "spec_ok n R Q C f" "i < n"
  shows "spec_ok n R Q C (upd_frame i (\<lambda>s. s\<lparr> fr_active := g (fr_active s) \<rparr>) f)"
proof (rule spec_ok_barrier [OF assms(1)])
  show "life_part (upd_frame i (\<lambda>s. s\<lparr> fr_active := g (fr_active s) \<rparr>) f) = life_part f"
    by (rule life_part_upd_frame) simp
  show "barrier_ok n Q C f \<Longrightarrow> barrier_ok n Q C (upd_frame i (\<lambda>s. s\<lparr> fr_active := g (fr_active s) \<rparr>) f)"
    by (erule barrier_ok_upd_frame [OF _ assms(2)]) (simp_all add: session_ok_def)
qed

text \<open>No completion is stale: what RIO gives back belongs to the present use of its session.
  So a completion runs its handler.\<close>

lemma spec_IOCompleted:
  assumes "IOHandler_IOCompleted E p data addr threadId status w = (ok, w')"
    "spec_ok n R (p # Q) C (frame w)" "unat threadId < length (w_recvIOCompletedContexts w)"
  shows "spec_ok n R Q C (frame w')"
proof -
  obtain i where i: "io_session (posted_context p w) = Some i" "i < n"
    using spec_posted(1) [OF assms(2)] by (auto simp: posted_ok_def)
  let ?w1 = "Session_BeginIOCompletion i w"
  note len = spec_ok_len [OF assms(2) i(2)]
  have s1: "spec_ok n R (p # Q) C (frame ?w1)"
    unfolding Session_BeginIOCompletion_def frame_active [OF len, where g = "\<lambda>x. x + 1"] by (rule spec_active [OF assms(2) i(2)])
  have q1: "unat threadId < length (w_recvIOCompletedContexts ?w1)"
    using assms(3) by (simp add: Session_BeginIOCompletion_def upd_session_def)
  have ctx: "posted_context p ?w1 = posted_context p w"
    using len by (cases p) (auto simp: posted_context_def Session_BeginIOCompletion_def upd_session_def
        get_session_def nth_list_update)
  note cur = spec_posted(2) [OF s1, of i, unfolded ctx]
  have fin: "spec_ok n R Q C (frame (Session_CompleteIOCompletion i v))" if "spec_ok n R Q C (frame v)" for v :: "'a World"
    unfolding Session_CompleteIOCompletion_def frame_active [OF spec_ok_len [OF that i(2)], where g = "\<lambda>x. x - 1"]
    by (rule spec_active [OF that i(2)])
  have reason: "spec_ok n R Q C (frame v')" if "failed_reason E status i v = (r, v')" "spec_ok n R Q C (frame v)"
    for r and v v' :: "'a World"
    using that spec_DoDisconnect [OF _ i(2), of R Q C v E] by (auto simp: failed_reason_def split: if_splits)
  have end1: "spec_ok n R Q C (frame (Session_DoDisconnect E BY_ERROR i v))" if "spec_ok n R Q C (frame v)" for v :: "'a World"
    by (rule spec_DoDisconnect [OF that i(2)])
  obtain r v where rv: "(if status \<noteq> 0 then IOHandler_HandleFailedCompletion E p i status ?w1
        else IOHandler_DispatchSuccessfulCompletion E p i data addr threadId ?w1) = (r, v)"
    by (rule prod.exhaust)
  have "spec_ok n R Q C (frame v)"
  proof (cases p)
    case (PostedRecv j k)
    have j: "j = i" using i spec_posted(3) [OF assms(2) PostedRecv] by simp
    have ty: "io_ioType (posted_context p ?w1) = OP_RECV"
      using spec_posted(1) [OF s1] PostedRecv by (auto simp: posted_ok_def)
    from rv spec_Release(1) [OF s1 [unfolded PostedRecv]] show ?thesis
      unfolding PostedRecv j IOHandler_HandleFailedCompletion_def IOHandler_DispatchSuccessfulCompletion_def
      using ty PostedRecv j
      by (auto split: if_splits prod.splits
          dest!: spec_RecvIOCompleted [OF _ s1 [unfolded PostedRecv j] q1] intro: reason end1)
  next
    case (PostedSend c)
    have ty: "io_ioType (posted_context p ?w1) = OP_SEND"
      using spec_posted(1) [OF s1] PostedSend by (auto simp: posted_ok_def)
    have c: "io_session c = Some i" using i PostedSend by (simp add: posted_context_def)
    from rv spec_send_done [OF s1 [unfolded PostedSend] c] show ?thesis
      unfolding PostedSend IOHandler_HandleFailedCompletion_def IOHandler_DispatchSuccessfulCompletion_def
      using ty PostedSend
      by (auto split: if_splits prod.splits
          dest!: spec_SendIOCompleted [OF _ s1 [unfolded PostedSend]] intro: reason end1)
  qed
  moreover have "w' = Session_CompleteIOCompletion i v"
    using assms(1) i rv cur unfolding IOHandler_IOCompleted_def Let_def by (simp add: ctx)
  ultimately show ?thesis using fin by simp
qed

section \<open>The logic threads\<close>

lemma spec_quiet_session:
  assumes "spec_ok n R Q C (frame w)" "i < n"
    "\<And>s. session_frame (g s) = h (session_frame s)"
    "\<And>s. fr_state (h s) = fr_state s \<and> fr_id (h s) = fr_id s \<and> fr_releasing (h s) = fr_releasing s"
    "\<And>s. fr_generation (h s) = fr_generation s \<and> fr_recvBuffer (h s) = fr_recvBuffer s \<and> fr_ioMode (h s) = fr_ioMode s"
  shows "spec_ok n R Q C (frame (upd_session i g w))"
  unfolding frame_upd_session [OF spec_ok_len [OF assms(1,2)], where f = g and g = h, OF assms(3)]
proof (rule spec_ok_barrier [OF assms(1)])
  show "life_part (upd_frame i h (frame w)) = life_part (frame w)" by (rule life_part_upd_frame) (simp add: assms(4))
  show "barrier_ok n Q C (frame w) \<Longrightarrow> barrier_ok n Q C (upd_frame i h (frame w))"
    by (erule barrier_ok_upd_frame [OF _ assms(2)]) (simp_all add: assms(4,5) session_ok_def)
qed

lemma spec_processing:
  "spec_ok n R Q C (frame w) \<Longrightarrow> i < n \<Longrightarrow>
   spec_ok n R Q C (frame (upd_session i (\<lambda>s. s\<lparr> s_nowInProcessingRecvPacket := b \<rparr>) w))"
  by (erule spec_quiet_session [where h = "\<lambda>s. s\<lparr> fr_processing := b \<rparr>"]) (simp_all add: session_frame_def)

lemma evolves_PacketProcessor:
  "world_ok n m L w \<Longrightarrow> i < n \<Longrightarrow> env_ok E n m \<Longrightarrow> evolves w (PacketProcessor_OnRecvPacket E i b addr w)"
  by (simp add: PacketProcessor_OnRecvPacket_def evolves_ProcessByPacketType)

lemma spec_ProcessRecv:
  assumes "spec_ok n R Q (c # C) (frame w)" "world_ok n m L w" "env_ok E n m"
  shows "spec_ok n R Q C (frame (Core_ProcessRecvIOCompletedContext E c w))"
proof -
  let ?i = "rc_session c"
  have i: "?i < n" using assms(1) barrier_okD(3) [of n Q "c # C" "frame w" c]
    by (simp add: spec_ok_def received_current_def)
  obtain st w1 where d: "Core_TryDispatchRecvPacket E c w = (st, w1)" by (cases "Core_TryDispatchRecvPacket E c w")
  let ?v = "upd_session ?i (\<lambda>s. s\<lparr> s_nowInProcessingRecvPacket := True \<rparr>) w"
  have v: "world_ok n m L ?v" using assms(2) i by (rule world_ok_upd_session_frame) simp_all
  have "spec_ok n R Q (c # C) (frame w1)"
    using d assms(1) spec_ok_evolves [OF evolves_PacketProcessor [OF v i assms(3)] spec_processing [OF assms(1) i]]
    by (auto simp: Core_TryDispatchRecvPacket_def Let_def split: if_splits)
  then have s: "spec_ok n R Q (c # C) (frame (if st
      then upd_session ?i (\<lambda>s. s\<lparr> s_nowInProcessingRecvPacket := False \<rparr>) w1 else w1))" (is "spec_ok _ _ _ _ (frame ?w2)")
    using spec_processing [OF _ i, of R Q "c # C" w1 False] by simp
  have "frame (upd_recvBuffer ?i RecvBuffer_CompleteRecvLogic ?w2)
      = upd_rb ?i RecvBuffer_CompleteRecvLogic (frame ?w2)"
    by (rule frame_upd_recvBuffer [OF spec_ok_len [OF s i]])
  moreover have "spec_ok n R Q C (upd_rb ?i RecvBuffer_CompleteRecvLogic (frame ?w2))"
    by (rule spec_ok_barrier [OF s]) (simp_all add: barrier_ok_logic_done)
  ultimately show ?thesis
    using d by (simp add: Core_ProcessRecvIOCompletedContext_def Core_CompleteRecvIOCompletedContext_def Let_def)
qed

lemma spec_recv_loop:
  assumes "spec_ok n R Q C (frame w)" "world_ok n m L w" "env_ok E n m" "unat threadId < m"
  shows "spec_ok n R Q C (frame (recv_loop E threadId k w)) \<and> world_ok n m L (recv_loop E threadId k w)"
  using assms(1,2)
proof (induction k arbitrary: w)
  case (Suc k)
  have t: "unat threadId < length (w_recvIOCompletedContexts w)"
    using world_okD(8) [OF Suc.prems(2)] assms(4) by simp
  show ?case
  proof (cases "w_recvIOCompletedContexts w ! unat threadId")
    case (Cons c rest)
    let ?w1 = "w\<lparr> w_recvIOCompletedContexts := (w_recvIOCompletedContexts w)[unat threadId := rest] \<rparr>"
    have "spec_ok n R Q (c # C) (upd_queue (unat threadId) rest (frame w))"
      by (rule spec_ok_barrier [OF Suc.prems(1)])
         (use t Cons in \<open>auto simp: frame_def intro: barrier_ok_dequeue\<close>)
    then have s1: "spec_ok n R Q (c # C) (frame ?w1)" by (simp add: frame_queues)
    have i: "rc_session c < n" using s1 barrier_okD(3) [of n Q "c # C" "frame ?w1" c]
      by (simp add: spec_ok_def received_current_def)
    have w1: "world_ok n m L ?w1" using Suc.prems(2) by (rule world_ok_cong) simp_all
    have w2: "world_ok n m L (Core_ProcessRecvIOCompletedContext E c ?w1)"
      by (rule world_ok_ProcessRecvIOCompletedContext [OF w1 i env_okD(1,2) [OF assms(3)]])
    show ?thesis using Suc.IH [OF spec_ProcessRecv [OF s1 w1 assms(3)] w2] Cons by simp
  qed (use Suc.prems in simp)
qed simp

section \<open>Reserving a session\<close>

text \<open>The receive slots of a session that is being registered, up to slot \<open>k\<close>.\<close>

definition slots_fresh :: "nat \<Rightarrow> SessionIdType \<Rightarrow> nat \<Rightarrow> RecvBuffer \<Rightarrow> bool" where
  "slots_fresh i sessionId k rb \<longleftrightarrow>
     (\<forall>c \<in> set (slots rb). io_session c = Some i \<and> io_ioType c = OP_RECV \<and> io_ownerSessionId c = sessionId) \<and>
     length (slots rb) \<le> RECV_OUTSTANDING_COUNT \<and> k \<le> length (slots rb) \<and>
     distinct (freeRecvContexts rb) \<and> (\<forall>j \<in> set (freeRecvContexts rb). j < k)"

definition counters :: "RecvBuffer \<Rightarrow> 32 word \<times> 32 word" where
  "counters rb = (outstandingRecvIo rb, pendingRecvLogic rb)"

lemma slots_fresh_Cleanup: "slots_fresh i q k rb \<Longrightarrow> slots_fresh i q k (RecvContext_Cleanup rb)"
  by (auto simp: slots_fresh_def RecvContext_Cleanup_def deregister_slot_def)

lemma slots_fresh_next:
  assumes "slots_fresh i q k rb" "k < RECV_OUTSTANDING_COUNT"
    "io_session c = Some i" "io_ioType c = OP_RECV" "io_ownerSessionId c = q"
  shows "slots_fresh i q k (rb\<lparr> slots := take k (slots rb) @ [c] @ drop (Suc k) (slots rb) \<rparr>)"
    and "slots_fresh i q (Suc k)
      (RecvBuffer_ReleaseRecvContext k (rb\<lparr> slots := take k (slots rb) @ [c] @ drop (Suc k) (slots rb) \<rparr>))"
  using assms
  by (auto simp: slots_fresh_def RecvBuffer_ReleaseRecvContext_def less_Suc_eq dest: in_set_takeD in_set_dropD)

text \<open>The world after the registration: only the slots of session \<open>i\<close> have changed.\<close>

definition renews :: "nat \<Rightarrow> SessionIdType \<Rightarrow> 'k World \<Rightarrow> 'k World \<Rightarrow> bool" where
  "renews i q w w' \<longleftrightarrow> (\<exists>rb k. frame w' = upd_rb i (\<lambda>_. rb) (frame w) \<and> slots_fresh i q k rb \<and>
     counters rb = counters (s_recvBuffer (get_session i w)))"

lemma renews_length: "renews i q w w' \<Longrightarrow> length (w_sessions w') = length (w_sessions w)"
  unfolding renews_def
  by (elim exE conjE; drule arg_cong [where f = "\<lambda>f. length (fr_sessions f)"]; simp add: upd_rb_def upd_frame_def)

lemma renews_upd:
  assumes "i < length (w_sessions w)" "slots_fresh i q k (g (s_recvBuffer (get_session i w)))"
    "counters (g (s_recvBuffer (get_session i w))) = counters (s_recvBuffer (get_session i w))"
  shows "renews i q w (upd_recvBuffer i g w)"
  unfolding renews_def frame_upd_recvBuffer [OF assms(1)]
  by (rule exI [of _ "g (s_recvBuffer (get_session i w))"], rule exI [of _ k])
     (use assms in \<open>auto simp: get_session_def session_frame_def intro: upd_rb_cong\<close>)

lemma renews_rb:
  assumes "renews i q w w'" "i < length (w_sessions w)"
  obtains k where "slots_fresh i q k (s_recvBuffer (get_session i w'))"
    "counters (s_recvBuffer (get_session i w')) = counters (s_recvBuffer (get_session i w))"
proof -
  obtain rb k where f: "frame w' = upd_rb i (\<lambda>_. rb) (frame w)" "slots_fresh i q k rb"
    "counters rb = counters (s_recvBuffer (get_session i w))"
    using assms(1) by (auto simp: renews_def)
  have "fr_recvBuffer (fr_sessions (frame w') ! i) = rb"
    using assms(2) unfolding f(1) by (simp add: upd_rb_def upd_frame_def)
  then have "s_recvBuffer (get_session i w') = rb"
    using renews_length [OF assms(1)] assms(2) by (simp add: session_frame_def get_session_def)
  with that f show ?thesis by simp
qed

lemma renews_trans: "renews i q u v \<Longrightarrow> i < length (w_sessions u) \<Longrightarrow> renews i q v w \<Longrightarrow> renews i q u w"
proof -
  assume uv: "renews i q u v" "i < length (w_sessions u)" and vw: "renews i q v w"
  obtain k where k: "counters (s_recvBuffer (get_session i v)) = counters (s_recvBuffer (get_session i u))"
    by (rule renews_rb [OF uv])
  obtain rb0 where u: "frame v = upd_rb i (\<lambda>_. rb0) (frame u)" using uv(1) by (auto simp: renews_def)
  obtain rb k where w: "frame w = upd_rb i (\<lambda>_. rb) (frame v)" "slots_fresh i q k rb"
    "counters rb = counters (s_recvBuffer (get_session i v))"
    using vw by (auto simp: renews_def)
  have "frame w = upd_rb i (\<lambda>_. rb) (frame u)" unfolding w(1) u by simp
  with w(2,3) k show "renews i q u w" unfolding renews_def by metis
qed

lemma renews_quiet: "renews i q w v \<Longrightarrow> frame w' = frame v \<Longrightarrow> renews i q w w'"
  by (simp add: renews_def)

lemma register_slot_frame:
  assumes "register_slot E i q w = (c, w')"
  shows "frame w' = frame w" "w_sessions w' = w_sessions w"
    "io_session c = Some i" "io_ioType c = OP_RECV" "io_ownerSessionId c = q"
  using assms by (auto simp: register_slot_def ask_def frame_def IOContext_InitContext_def Let_def)

lemma renews_init_slots:
  "init_slots E i q [k..<RECV_OUTSTANDING_COUNT] w = (ok, w') \<Longrightarrow> i < length (w_sessions w) \<Longrightarrow>
   slots_fresh i q k (s_recvBuffer (get_session i w)) \<Longrightarrow> k \<le> RECV_OUTSTANDING_COUNT \<Longrightarrow> renews i q w w'"
proof (induction "RECV_OUTSTANDING_COUNT - k" arbitrary: k w)
  case 0
  have "frame w = upd_rb i (\<lambda>_. s_recvBuffer (get_session i w)) (frame w)"
    using upd_rb_same [of i "frame w"] 0(3) by (simp add: frame_nth session_frame_def del: frame_sessions)
  with 0 show ?case unfolding renews_def by auto
next
  case (Suc d)
  have upt: "[k..<RECV_OUTSTANDING_COUNT] = k # [Suc k..<RECV_OUTSTANDING_COUNT]" and k: "k < RECV_OUTSTANDING_COUNT"
    using Suc.hyps(2) by (simp_all add: upt_conv_Cons)
  obtain c w1 where r: "register_slot E i q w = (c, w1)" by (cases "register_slot E i q w")
  note c = register_slot_frame [OF r]
  let ?g = "\<lambda>rb. rb\<lparr> slots := take k (slots rb) @ [c] @ drop (Suc k) (slots rb) \<rparr>"
  let ?w2 = "upd_recvBuffer i ?g w1"
  let ?rb = "s_recvBuffer (get_session i w)"
  have i1: "i < length (w_sessions w1)" "get_session i w1 = get_session i w" using c Suc.prems(2) by (simp_all add: get_session_def)
  have g2: "s_recvBuffer (get_session i ?w2) = ?g ?rb"
    using i1 by (simp add: upd_recvBuffer_def upd_session_def get_session_def)
  note next_slot = slots_fresh_next [OF Suc.prems(3) k c(3-5)]
  have base: "renews i q w1 ?w2" by (rule renews_upd [OF i1(1)]) (use next_slot(1) in \<open>simp_all add: i1 counters_def\<close>)
  have w2: "renews i q w ?w2" using base by (simp add: renews_def c(1) i1(2))
  have fail: "renews i q w (upd_recvBuffer i (\<lambda>rb. RecvBuffer_ClearFreeRecvContexts (RecvContext_Cleanup rb)) ?w2)"
  proof (rule renews_trans [OF w2 Suc.prems(2) renews_upd [where k = 0]])
    show "slots_fresh i q 0 (RecvBuffer_ClearFreeRecvContexts (RecvContext_Cleanup (s_recvBuffer (get_session i ?w2))))"
      using slots_fresh_Cleanup [OF next_slot(1)] unfolding g2 by (simp add: slots_fresh_def RecvBuffer_ClearFreeRecvContexts_def)
  qed (use i1 in \<open>simp_all add: counters_def RecvBuffer_ClearFreeRecvContexts_def RecvContext_Cleanup_def\<close>)
  let ?w3 = "upd_recvBuffer i (RecvBuffer_ReleaseRecvContext k) ?w2"
  have w3: "renews i q w ?w3"
  proof (rule renews_trans [OF w2 Suc.prems(2) renews_upd [where k = "Suc k"]])
    show "slots_fresh i q (Suc k) (RecvBuffer_ReleaseRecvContext k (s_recvBuffer (get_session i ?w2)))"
      unfolding g2 by (rule next_slot(2))
  qed (use i1 in \<open>simp_all add: counters_def RecvBuffer_ReleaseRecvContext_def\<close>)
  have g3: "s_recvBuffer (get_session i ?w3) = RecvBuffer_ReleaseRecvContext k (?g ?rb)"
    using i1 by (simp add: upd_recvBuffer_def upd_session_def get_session_def)
  have "renews i q ?w3 w'" if "init_slots E i q [Suc k..<RECV_OUTSTANDING_COUNT] ?w3 = (ok, w')"
    using that Suc.hyps(1) [of "Suc k" ?w3] Suc.hyps(2) i1 next_slot(2) k unfolding g3 by simp
  then show ?case
    using Suc.prems(1) r fail renews_trans [OF w3 Suc.prems(2)] unfolding upt by (auto simp: Let_def split: if_splits)
qed

lemma renews_RIOContext_Initialize:
  assumes "RIOContext_Initialize E cap i w = (ok, w')" "i < length (w_sessions w)"
    "slots_fresh i (s_sessionId (get_session i w)) k (RecvBuffer_ClearFreeRecvContexts (s_recvBuffer (get_session i w)))"
  shows "renews i (s_sessionId (get_session i w)) w w'"
proof -
  let ?q = "s_sessionId (get_session i w)"
  let ?w0 = "upd_recvBuffer i RecvBuffer_ClearFreeRecvContexts w"
  have g0: "s_recvBuffer (get_session i ?w0) = RecvBuffer_ClearFreeRecvContexts (s_recvBuffer (get_session i w))"
    using assms(2) by (simp add: upd_recvBuffer_def upd_session_def get_session_def)
  have w0: "renews i ?q w ?w0"
    by (rule renews_upd [OF assms(2)]) (rule assms(3), simp add: counters_def RecvBuffer_ClearFreeRecvContexts_def)
  obtain ok1 w1 where r: "RecvContext_Initialize E ?q i w = (ok1, w1)" by (cases "RecvContext_Initialize E ?q i w")
  have s0: "slots_fresh i ?q 0 (s_recvBuffer (get_session i ?w0))"
    using assms(3) unfolding g0 by (simp add: slots_fresh_def RecvBuffer_ClearFreeRecvContexts_def)
  have "renews i ?q ?w0 w1"
    using r renews_init_slots [of E i ?q 0 ?w0 ok1 w1] s0 assms(2) by (simp add: RecvContext_Initialize_def)
  then have w1: "renews i ?q w w1" by (rule renews_trans [OF w0 assms(2)])
  obtain b w2 where a: "ask (env_registerBuffer E) w1 = (b, w2)" by (cases "ask (env_registerBuffer E) w1")
  obtain ok2 sc where s: "SendContext_Initialize b cap (get_send i w2) = (ok2, sc)"
    by (cases "SendContext_Initialize b cap (get_send i w2)")
  let ?w3 = "set_send i sc w2"
  have "sc_ioMode sc = sc_ioMode (get_send i w2)" using s by (auto simp: SendContext_Initialize_def split: option.splits)
  then have f3: "frame ?w3 = frame w1" using frame_ask [OF a] by simp
  have w3: "renews i ?q w ?w3" by (rule renews_quiet [OF w1 f3])
  obtain rq w4 where q: "ask (env_createRequestQueue E) ?w3 = (rq, w4)" by (cases "ask (env_createRequestQueue E) ?w3")
  let ?w5 = "upd_session i (\<lambda>s. s\<lparr> s_rioRQ := rq \<rparr>) w4"
  have "frame ?w5 = frame w4" by (rule frame_upd_session_quiet) (simp add: session_frame_def)
  then have w5: "renews i ?q w ?w5" using renews_quiet [OF w3, of ?w5] frame_ask [OF q] by simp
  have clean: "renews i ?q w (upd_recvBuffer i RecvContext_Cleanup v)" if v: "renews i ?q w v" for v :: "'a World"
  proof -
    obtain j where "slots_fresh i ?q j (s_recvBuffer (get_session i v))" by (rule renews_rb [OF v assms(2)])
    then have "renews i ?q v (upd_recvBuffer i RecvContext_Cleanup v)"
      using renews_length [OF v] assms(2)
      by (intro renews_upd [where k = j] slots_fresh_Cleanup) (simp_all add: counters_def RecvContext_Cleanup_def)
    then show ?thesis by (rule renews_trans [OF v assms(2)])
  qed
  have "frame (RIOContext_Cleanup i ?w5) = frame (upd_recvBuffer i RecvContext_Cleanup ?w5)"
    using renews_length [OF w5] assms(2)
    unfolding RIOContext_Cleanup_def upd_recvBuffer_def
    by (subst (1 2) frame_upd_session [where g = "\<lambda>s. s\<lparr> fr_recvBuffer := RecvContext_Cleanup (fr_recvBuffer s) \<rparr>"])
       (auto simp: session_frame_def SendContext_Cleanup_def split: option.splits)
  then have "renews i ?q w (RIOContext_Cleanup i ?w5)" using renews_quiet [OF clean [OF w5]] by simp
  with assms(1) r a s q w1 clean [OF w3] w5 show ?thesis
    by (auto simp: RIOContext_Initialize_def Let_def split: if_splits)
qed

text \<open>The pool gives out its first session, which becomes reserved.\<close>

definition reserve_frame :: "nat \<Rightarrow> SessionIdType list \<Rightarrow> Frame \<Rightarrow> Frame" where
  "reserve_frame i rest f = (upd_frame i (\<lambda>s. s\<lparr> fr_state := RESERVED \<rparr>) f)
     \<lparr> fr_unused := rest, fr_unusedSet := fr_unusedSet f - {of_nat i} \<rparr>"

lemma life_ok_reserve:
  assumes "life_ok n R f" "fr_unused f = of_nat i # rest" "i < n"
  shows "life_ok n R (reserve_frame i rest f)" and "fr_state (fr_sessions f ! i) = DISCONNECTED"
proof -
  note D = life_okD [OF assms(1)]
  have c: "count_list rest (of_nat i) = 0" "fr_state (fr_sessions f ! i) = DISCONNECTED"
    using D(5) [OF assms(3)] assms(2) by (simp_all split: if_splits)
  then show "fr_state (fr_sessions f ! i) = DISCONNECTED" by simp
  have "of_nat i \<notin> set rest" using c(1) by (simp add: count_list_0_iff)
  then have set: "fr_unusedSet f - {of_nat i} = set rest" using D(7) assms(2) by simp
  have ids: "set (fr_unused f) \<union> set (R @ fr_release f) \<subseteq> of_nat ` {..<n}" using assms(1) by (simp add: life_ok_def)
  have one: "fr_id (fr_sessions (reserve_frame i rest f) ! j) = of_nat j \<and>
      (fr_releasing (fr_sessions (reserve_frame i rest f) ! j) \<longleftrightarrow> fr_state (fr_sessions (reserve_frame i rest f) ! j) = RELEASING) \<and>
      count_list rest (of_nat j) = (if fr_state (fr_sessions (reserve_frame i rest f) ! j) = DISCONNECTED then 1 else 0) \<and>
      count_list (R @ fr_release f) (of_nat j) = (if fr_state (fr_sessions (reserve_frame i rest f) ! j) = RELEASING then 1 else 0)"
    if j: "j < n" for j
  proof (cases "j = i")
    case True
    then show ?thesis
      using D(1) D(3) [OF assms(3)] D(4) [OF assms(3)] D(6) [OF assms(3)] c assms(3)
      by (simp add: reserve_frame_def upd_frame_def)
  next
    case False
    then have "(of_nat i :: SessionIdType) \<noteq> of_nat j" using of_nat_id_eq [of i j] D(2) assms(3) j by simp
    then show ?thesis
      using D(3) [OF j] D(4) [OF j] D(5) [OF j] D(6) [OF j] assms(2) False
      by (simp add: reserve_frame_def upd_frame_def)
  qed
  show "life_ok n R (reserve_frame i rest f)"
    using one D(1,2) set ids assms(2) unfolding life_ok_def by (auto simp: reserve_frame_def upd_frame_def)
qed

lemma session_ok_slots:
  assumes "session_ok i [] S q s" "slots_fresh i (fr_id s) k rb" "counters rb = counters (fr_recvBuffer s)"
  shows "session_ok i [] S q (s\<lparr> fr_recvBuffer := rb \<rparr>)"
  using assms unfolding session_ok_def slots_fresh_def counters_def
  by (force dest: order_less_le_trans)

lemma spec_renews:
  assumes "renews i (s_sessionId (get_session i w)) w w'" "spec_ok n R Q C (frame w)" "i < n"
    "posted_slots i (Q @ fr_posted (frame w)) = []"
  shows "spec_ok n R Q C (frame w')" "life_part (frame w') = life_part (frame w)"
proof -
  note len = spec_ok_len [OF assms(2,3)]
  obtain rb k where f: "frame w' = upd_rb i (\<lambda>_. rb) (frame w)" and k: "slots_fresh i (s_sessionId (get_session i w)) k rb"
    "counters rb = counters (s_recvBuffer (get_session i w))"
    using assms(1) by (auto simp: renews_def)
  let ?s = "fr_sessions (frame w) ! i"
  have s: "slots_fresh i (fr_id ?s) k rb" "counters rb = counters (fr_recvBuffer ?s)"
    unfolding frame_nth [OF len] using k by (simp_all add: session_frame_def)
  show "spec_ok n R Q C (frame w')"
    unfolding f
  proof (rule spec_ok_barrier [OF assms(2)])
    assume b: "barrier_ok n Q C (frame w)"
    show "barrier_ok n Q C (upd_rb i (\<lambda>_. rb) (frame w))"
      unfolding upd_rb_def
      by (rule barrier_ok_upd_frame [OF b assms(3)])
         (use assms(4) session_ok_slots [OF _ s] in simp_all)
  qed simp
  show "life_part (frame w') = life_part (frame w)" unfolding f by simp
qed

lemma session_ok_fresh:
  assumes "session_ok i K S q s"
  shows "slots_fresh i (fr_id s) (length (slots (fr_recvBuffer s))) (RecvBuffer_ClearFreeRecvContexts (fr_recvBuffer s))"
  using assms by (auto simp: session_ok_def slots_fresh_def RecvBuffer_ClearFreeRecvContexts_def)

lemma frame_socket:
  "frame (upd_session i (\<lambda>s. s\<lparr> s_socketContext := g (s_socketContext s) \<rparr>) w) = frame w"
  by (rule frame_upd_session_quiet) (simp add: session_frame_def)

lemma InitReserve_outcome:
  assumes "Core_InitReserveSession E i w1 = (code, w')" "spec_ok n R Q C (frame w)" "i < n"
    "fr_unused (frame w) = of_nat i # rest"
    "w1 = w\<lparr> w_unusedSessionIdList := rest, w_unusedSessionIdSet := w_unusedSessionIdSet w - {of_nat i} \<rparr>"
  obtains v where "life_part (frame v) = life_part (reserve_frame i rest (frame w))" "spec_ok n R Q C (frame v)"
    "code = SUCCESS \<and> w' = v \<or> code \<noteq> SUCCESS \<and> w' = Session_AbortReservedSession E i v"
proof -
  note len = spec_ok_len [OF assms(2,3)]
  have life: "life_ok n R (frame w)" and bar: "barrier_ok n Q C (frame w)" using assms(2) by (simp_all add: spec_ok_def)
  obtain now w1' where a1: "ask (env_tickCount E) w1 = (now, w1')" by (cases "ask (env_tickCount E) w1")
  define w2 where "w2 = upd_session i (\<lambda>s. s\<lparr> s_sessionReservedTime := now,
                 s_stateMachine := StateMachine_SetReserved (s_stateMachine s) \<rparr>) w1'"
  obtain sock w3 where a3: "ask (env_createSocket E) w2 = (sock, w3)" by (cases "ask (env_createSocket E) w2")
  define w4 where "w4 = upd_session i (\<lambda>s. s\<lparr> s_socketContext := SocketContext_SetSocket sock (s_socketContext s) \<rparr>) w3"
  obtain port w5 where a5: "ask (env_getsockname E) w4 = (port, w5)" by (cases "ask (env_getsockname E) w4")
  define w6 where "w6 = upd_session i (\<lambda>s. s\<lparr> s_socketContext := SocketContext_SetServerPort port (s_socketContext s) \<rparr>) w5"
  obtain rio w7 where r: "RIOManager_InitializeSessionRIO E i (s_threadId (get_session i w6)) w6 = (rio, w7)"
    by (cases "RIOManager_InitializeSessionRIO E i (s_threadId (get_session i w6)) w6")
  obtain recv w8 where d: "IOHandler_DoRecv E i w7 = (recv, w8)" by (cases "IOHandler_DoRecv E i w7")
  have l1: "i < length (w_sessions w1')" using len ask_frame(1) [OF a1] assms(5) by simp
  have "frame w1' = (frame w)\<lparr> fr_unused := rest, fr_unusedSet := fr_unusedSet (frame w) - {of_nat i} \<rparr>"
    using frame_ask [OF a1] assms(5) by (simp add: frame_def)
  moreover have "frame w2 = upd_frame i (\<lambda>s. s\<lparr> fr_state := RESERVED \<rparr>) (frame w1')"
    unfolding w2_def by (rule frame_upd_session [OF l1]) (simp add: session_frame_def StateMachine_SetReserved_def)
  ultimately have f2: "frame w2 = reserve_frame i rest (frame w)"
    by (simp add: reserve_frame_def upd_frame_def)
  have disc: "fr_state (fr_sessions (frame w) ! i) = DISCONNECTED"
    by (rule life_ok_reserve(2) [OF life assms(4,3)])
  have b0: "barrier_ok n Q C (upd_frame i (\<lambda>s. s\<lparr> fr_state := RESERVED \<rparr>) (frame w))"
    by (rule barrier_ok_upd_frame [OF bar assms(3)]) (simp_all add: session_ok_def)
  have "barrier_ok n Q C (frame w2)"
    unfolding f2 reserve_frame_def by (rule barrier_ok_cong [OF b0]) simp_all
  with life_ok_reserve(1) [OF life assms(4,3)] have s2: "spec_ok n R Q C (frame w2)" by (simp add: spec_ok_def f2)
  have f6: "frame w6 = frame w2" "frame w4 = frame w2"
    unfolding w6_def w4_def using frame_ask [OF a3] frame_ask [OF a5] by (simp_all add: frame_socket w4_def)
  have s6: "spec_ok n R Q C (frame w6)" and s4: "spec_ok n R Q C (frame w4)" using s2 f6 by simp_all
  note len6 = spec_ok_len [OF s6 assms(3)]
  have none: "posted_slots i (Q @ fr_posted (frame w6)) = []"
    using barrier_okD(4) [OF bar assms(3)] disc unfolding f6 f2
    by (simp add: session_ok_def reserve_frame_def upd_frame_def)
  have state6: "fr_state (fr_sessions (frame w6) ! i) \<noteq> DISCONNECTED"
    unfolding f6 f2 using len by (simp add: reserve_frame_def upd_frame_def)
  have fresh: "slots_fresh i (s_sessionId (get_session i w6)) (length (slots (s_recvBuffer (get_session i w6))))
      (RecvBuffer_ClearFreeRecvContexts (s_recvBuffer (get_session i w6)))"
    using session_ok_fresh [OF barrier_okD(4) [of n Q C "frame w6" i]] s6 assms(3) unfolding frame_nth [OF len6]
    by (simp add: session_frame_def spec_ok_def)
  have s7: "spec_ok n R Q C (frame w7) \<and> life_part (frame w7) = life_part (frame w6)"
    using r s6 spec_renews [OF renews_RIOContext_Initialize [OF _ len6 fresh] s6 assms(3) none]
    by (auto simp: RIOManager_InitializeSessionRIO_def Session_InitializeRIO_def split: if_splits)
  then have "fr_state (fr_sessions (frame w7) ! i) \<noteq> DISCONNECTED"
    using state6 life_part_nth(1) [of "frame w7" "frame w6" i] len6 by simp
  then have st7: "sm_state (s_stateMachine (get_session i w7)) \<noteq> DISCONNECTED"
    using spec_ok_len [of n R Q C w7 i] s7 assms(3) by (simp add: session_frame_def get_session_def)
  have s8: "spec_ok n R Q C (frame w8)" by (rule spec_DoRecv [OF d conjunct1 [OF s7] assms(3) st7])
  have l8: "life_part (frame w8) = life_part (frame w7)"
    by (rule life_DoRecv [OF d spec_ok_len [OF conjunct1 [OF s7] assms(3)]])
  have "code \<noteq> SUCCESS \<and> w' = Session_AbortReservedSession E i w4 \<or> code \<noteq> SUCCESS \<and> w' = Session_AbortReservedSession E i w7 \<or>
      code \<noteq> SUCCESS \<and> w' = Session_AbortReservedSession E i w8 \<or> code = SUCCESS \<and> w' = w8"
    using assms(1) unfolding Core_InitReserveSession_def a1 Let_def prod.case w2_def [symmetric] a3
      w4_def [symmetric] a5 w6_def [symmetric] r d
    by (auto split: if_splits)
  then show ?thesis
    using that [of w4] that [of w7] that [of w8] s4 s7 s8 l8 f6 f2 by auto
qed

text \<open>What the pool gives out, when it gives out something.\<close>

lemma Acquire_outcome:
  assumes "Manager_AcquireSession w = (Some i, w1)" "spec_ok n R Q C (frame w)"
  obtains rest where "i < n" "fr_unused (frame w) = of_nat i # rest"
    "w1 = w\<lparr> w_unusedSessionIdList := rest, w_unusedSessionIdSet := w_unusedSessionIdSet w - {of_nat i} \<rparr>"
    "fr_state (fr_sessions (frame w) ! i) = DISCONNECTED"
proof -
  obtain q rest where u: "w_unusedSessionIdList w = q # rest" "i = unat q"
    "w1 = w\<lparr> w_unusedSessionIdList := rest, w_unusedSessionIdSet := w_unusedSessionIdSet w - {q} \<rparr>"
    using assms(1) by (auto simp: Manager_AcquireSession_def split: if_splits list.splits)
  have life: "life_ok n R (frame w)" using assms(2) by (simp add: spec_ok_def)
  have "q \<in> set (fr_unused (frame w))" using u(1) by (simp add: frame_def)
  then obtain j where j: "j < n" "q = of_nat j" using life_okD(8) [OF life, of q] by auto
  have "unat q = j" using j life_okD(2) [OF life] unat_id [of j] by simp
  then have i: "i < n" "q = of_nat i" using u(2) j by simp_all
  have un: "fr_unused (frame w) = of_nat i # rest" using u(1) i by (simp add: frame_def)
  show ?thesis
    by (rule that [OF i(1) un _ life_ok_reserve(2) [OF life un i(1)]]) (use u(3) i in simp)
qed

lemma effects_unused:
  assumes "effect\<^sup>*\<^sup>* f f'"
  shows "fr_unused f' = fr_unused f"
  using assms
proof (induction rule: rtranclp_induct)
  case (step y z)
  from step.hyps(2) have "fr_unused z = fr_unused y"
    by (induction rule: effect.induct) (simp_all add: upd_frame_def release_frame_def post_frame_def mode_frame_def)
  with step.IH show ?case by simp
qed simp

end
