(* ===== verification/Server_Release.thy ===== *)
theory Server_Release
  imports Server_Barrier
begin

text \<open>
  The release thread on the abstract server: a session on the list is finished when the
  barrier is down and goes back to the pool renewed, and nothing else renews a session. Both
  invariants are kept.
\<close>

section \<open>The release thread\<close>

text \<open>A session that is being released is left alone by every step of the abstract server.\<close>

lemma effect_releasing:
  assumes "effect f f'" "i < length (fr_sessions f)" "fr_state (fr_sessions f ! i) = RELEASING"
    "fr_releasing (fr_sessions f ! i)" "drained i Q C f"
  shows "fr_sessions f' ! i = fr_sessions f ! i" "drained i Q C f'"
  using assms
  by (induction rule: effect.induct)
     (auto simp: upd_frame_def release_frame_def post_frame_def mode_frame_def frame_using_def drained_def
       current_send_def nth_list_update split: if_splits)

lemma effects_releasing:
  assumes "effect\<^sup>*\<^sup>* f f'" "i < length (fr_sessions f)" "fr_state (fr_sessions f ! i) = RELEASING"
    "fr_releasing (fr_sessions f ! i)" "drained i Q C f"
  shows "fr_sessions f' ! i = fr_sessions f ! i \<and> drained i Q C f'"
  using assms
proof (induction rule: rtranclp_induct)
  case (step y z)
  have "i < length (fr_sessions y)" using effects_length [OF step.hyps(1)] step.prems(1) by simp
  with step show ?case using effect_releasing [OF step.hyps(2), of i Q C] by simp
qed simp

lemma effects_shutdown:
  assumes "effect\<^sup>*\<^sup>* f f'" "i < length (fr_sessions f)"
  shows "fr_shutdown (fr_sessions f' ! i) = fr_shutdown (fr_sessions f ! i)"
  using assms
proof (induction rule: rtranclp_induct)
  case (step y z)
  have "i < length (fr_sessions y)" using effects_length [OF step.hyps(1)] step.prems by simp
  with step.hyps(2) have "fr_shutdown (fr_sessions z ! i) = fr_shutdown (fr_sessions y ! i)"
    by (induction rule: effect.induct)
       (auto simp: upd_frame_def release_frame_def post_frame_def mode_frame_def nth_list_update)
  with step show ?case by simp
qed simp

lemma life_ok_perm: "mset R = mset R' \<Longrightarrow> life_ok n R f = life_ok n R' f"
proof -
  assume m: "mset R = mset R'"
  have "count_list R q = count_list R' q" for q using arg_cong [OF m, of "\<lambda>M. count M q"] by (simp add: count_mset)
  moreover have "set R = set R'" using arg_cong [OF m, of set_mset] by simp
  ultimately show ?thesis unfolding life_ok_def by simp
qed

text \<open>The session at the head of the list goes back to the pool, renewed.\<close>

definition renew_frame :: "nat \<Rightarrow> SessionFrame \<Rightarrow> Frame \<Rightarrow> Frame" where
  "renew_frame i s f = f\<lparr> fr_sessions := (fr_sessions f)[i := s],
     fr_unused := fr_unused f @ [of_nat i], fr_unusedSet := insert (of_nat i) (fr_unusedSet f) \<rparr>"

lemma life_ok_renew:
  assumes "life_ok n (of_nat i # R) f" "i < n" "fr_id s = of_nat i" "fr_state s = DISCONNECTED" "\<not> fr_releasing s"
  shows "life_ok n R (renew_frame i s f)"
proof -
  note D = life_okD [OF assms(1)]
  have c: "count_list (R @ fr_release f) (of_nat i) = 0" "fr_state (fr_sessions f ! i) = RELEASING"
    using D(6) [OF assms(2)] by (simp_all split: if_splits)
  have u: "count_list (fr_unused f) (of_nat i) = 0" using D(5) [OF assms(2)] c(2) by simp
  have one: "fr_id (fr_sessions (renew_frame i s f) ! j) = of_nat j \<and>
      (fr_releasing (fr_sessions (renew_frame i s f) ! j) \<longleftrightarrow> fr_state (fr_sessions (renew_frame i s f) ! j) = RELEASING) \<and>
      count_list (fr_unused f @ [of_nat i]) (of_nat j)
        = (if fr_state (fr_sessions (renew_frame i s f) ! j) = DISCONNECTED then 1 else 0) \<and>
      count_list (R @ fr_release f) (of_nat j) = (if fr_state (fr_sessions (renew_frame i s f) ! j) = RELEASING then 1 else 0)"
    if j: "j < n" for j
  proof (cases "j = i")
    case False
    then have "(of_nat i :: SessionIdType) \<noteq> of_nat j" using of_nat_id_eq [of i j] D(2) assms(2) j by simp
    then show ?thesis
      using D(3) [OF j] D(4) [OF j] D(5) [OF j] D(6) [OF j] False by (simp add: renew_frame_def)
  qed (use assms c u D(1) in \<open>simp add: renew_frame_def\<close>)
  show ?thesis
    using one D(1,2,7) assms(1,2) unfolding life_ok_def by (auto simp: renew_frame_def)
qed

lemma effects_queues: "effect\<^sup>*\<^sup>* f f' \<Longrightarrow> fr_queues f' = fr_queues f"
proof (induction rule: rtranclp_induct)
  case (step y z)
  from step.hyps(2) have "fr_queues z = fr_queues y"
    by (induction rule: effect.induct) (simp_all add: upd_frame_def release_frame_def post_frame_def mode_frame_def)
  with step.IH show ?case by simp
qed simp

lemma frame_CloseSocket: "frame (upd_session i Session_CloseSocket w) = frame w"
  by (rule frame_upd_session_quiet) (simp add: session_frame_def Session_CloseSocket_def)

lemma frame_shutdown:
  "i < length (w_sessions w) \<Longrightarrow> frame (upd_session i (\<lambda>s. s\<lparr> s_ioShutdownStarted := True \<rparr>) w)
    = upd_frame i (\<lambda>s. s\<lparr> fr_shutdown := True \<rparr>) (frame w)"
  by (rule frame_upd_session) (simp_all add: session_frame_def)

text \<open>Either nothing happens, or the session is marked and the content told.\<close>

lemma BeginIOShutdown_cases:
  assumes "world_ok n m L w" "i < n" "env_ok E n m"
  obtains "Session_BeginIOShutdown E i w = w"
      "s_ioShutdownStarted (get_session i w) \<or> \<not> Session_CanFinalizeIO (get_session i w)"
  | "effect\<^sup>*\<^sup>* (upd_frame i (\<lambda>s. s\<lparr> fr_shutdown := True \<rparr>) (frame w)) (frame (Session_BeginIOShutdown E i w))"
proof (cases "s_ioShutdownStarted (get_session i w) \<or> pendingRecvLogic (s_recvBuffer (get_session i w)) \<noteq> 0 \<or>
    s_nowInProcessingRecvPacket (get_session i w)")
  case True
  then show ?thesis
    by (intro that(1)) (auto simp: Session_BeginIOShutdown_def Let_def Session_CanFinalizeIO_def
        RIOContext_IsDrained_def RecvBuffer_IsDrained_def)
next
  case False
  let ?w1 = "upd_session i (\<lambda>s. s\<lparr> s_ioShutdownStarted := True \<rparr>) w"
  let ?v = "?w1\<lparr> w_events := w_events ?w1 @ [OnDisconnected i] \<rparr>"
  have "world_ok n m L ?w1" using assms(1,2) by (rule world_ok_upd_session_frame) simp_all
  then have "evolves ?v (env_OnDisconnected E i ?v)"
    by (intro content_refinesD(3) [OF env_okD(3) [OF assms(3)] assms(2) world_ok_event])
  then have e: "effect\<^sup>*\<^sup>* (upd_frame i (\<lambda>s. s\<lparr> fr_shutdown := True \<rparr>) (frame w)) (frame (env_OnDisconnected E i ?v))"
    using frame_shutdown [OF world_ok_len [OF assms(1,2)]] by (simp add: evolves_def)
  show ?thesis
    using False e frame_shutdown [OF world_ok_len [OF assms(1,2)]]
    by (intro that(2)) (simp add: Session_BeginIOShutdown_def Let_def frame_CloseSocket)
qed

lemma spec_BeginIOShutdown:
  assumes "world_ok n m L w" "i < n" "env_ok E n m" "spec_ok n R Q C (frame w)"
  shows "spec_ok n R Q C (frame (Session_BeginIOShutdown E i w))"
    and "fr_queues (frame (Session_BeginIOShutdown E i w)) = fr_queues (frame w)"
    and "Session_CanFinalizeIO (get_session i (Session_BeginIOShutdown E i w)) \<Longrightarrow>
      s_ioShutdownStarted (get_session i (Session_BeginIOShutdown E i w))"
proof -
  let ?w = "Session_BeginIOShutdown E i w" and ?f = "upd_frame i (\<lambda>s. s\<lparr> fr_shutdown := True \<rparr>) (frame w)"
  have f: "spec_ok n R Q C ?f"
  proof (rule spec_ok_barrier [OF assms(4)])
    show "life_part ?f = life_part (frame w)" by (rule life_part_upd_frame) simp
    show "barrier_ok n Q C (frame w) \<Longrightarrow> barrier_ok n Q C ?f"
      by (erule barrier_ok_upd_frame [OF _ assms(2)]) (simp_all add: session_ok_def)
  qed
  have lf: "i < length (fr_sessions ?f)" "fr_shutdown (fr_sessions ?f ! i)" "fr_queues ?f = fr_queues (frame w)"
    using spec_ok_len [OF assms(4,2)] by (simp_all add: upd_frame_def)
  from assms(1-3) show "spec_ok n R Q C (frame ?w)"
    by (rule BeginIOShutdown_cases)
       (use assms(4) f life_ok_effects barrier_ok_effects in \<open>auto simp: spec_ok_def\<close>)
  from assms(1-3) show "fr_queues (frame ?w) = fr_queues (frame w)"
    by (rule BeginIOShutdown_cases) (use lf(3) effects_queues in auto)
  assume fin: "Session_CanFinalizeIO (get_session i ?w)"
  from assms(1-3) show "s_ioShutdownStarted (get_session i ?w)"
  proof (rule BeginIOShutdown_cases)
    assume e: "effect\<^sup>*\<^sup>* ?f (frame ?w)"
    have "fr_shutdown (fr_sessions (frame ?w) ! i)" using effects_shutdown [OF e lf(1)] lf(2) by simp
    moreover have "i < length (w_sessions ?w)" using effects_length [OF e] lf(1) by simp
    ultimately show ?thesis by (simp add: session_frame_def get_session_def)
  qed (use fin in simp)
qed

lemma frame_RIOContext_Cleanup:
  "i < length (w_sessions w) \<Longrightarrow> frame (RIOContext_Cleanup i w) = upd_rb i RecvContext_Cleanup (frame w)"
  unfolding RIOContext_Cleanup_def upd_rb_def
  by (rule frame_upd_session) (auto simp: session_frame_def SendContext_Cleanup_def split: option.splits)

lemma session_ok_Cleanup:
  "session_ok i K S q s \<Longrightarrow> session_ok i K S q (s\<lparr> fr_recvBuffer := RecvContext_Cleanup (fr_recvBuffer s) \<rparr>)"
  by (auto simp: session_ok_def RecvContext_Cleanup_def deregister_slot_def)

lemma frame_fold_erase: "frame (fold erase_and_free as w) = frame w"
  by (induction as arbitrary: w) (simp_all add: erase_and_free_def frame_MarkErased)

lemma frame_ClearMap:
  assumes "SendContext_ForEachAndClearSendPacketInfoMap erase_and_free (get_send i w) w = (sc, w')"
  shows "frame (set_send i sc w') = frame w"
  using assms unfolding SendContext_ForEachAndClearSendPacketInfoMap_def
  by (auto simp: fold_erase_set_send [symmetric] frame_fold_erase)

lemma frame_Decrement: "frame (Manager_DecrementConnectedCount r w) = frame w"
  by (cases r) (simp_all add: Manager_DecrementConnectedCount_def Let_def frame_def)

definition fresh_frame :: "SessionFrame \<Rightarrow> SessionFrame" where
  "fresh_frame s = s\<lparr> fr_state := DISCONNECTED, fr_releasing := False, fr_shutdown := False,
     fr_generation := fr_generation s + 1, fr_ioMode := IO_NONE_SENDING, fr_active := 0, fr_processing := False \<rparr>"

lemma frame_InitializeSession:
  assumes "i < length (w_sessions w)"
  shows "frame (Session_InitializeSession E i w) = upd_frame i fresh_frame (frame w)"
proof -
  let ?w1 = "upd_session i (session_fresh E) w"
  obtain sc st where r: "SendContext_Reset (get_send i ?w1) (w_store ?w1) = (sc, st)"
    by (cases "SendContext_Reset (get_send i ?w1) (w_store ?w1)")
  have sc: "sc_ioMode sc = IO_NONE_SENDING" using r by (auto simp: SendContext_Reset_def Let_def)
  let ?g = "\<lambda>s. s\<lparr> s_sessionPacketOrderer := Orderer_Initialize (env_maximumHoldingPacketQueueSize E) (s_sessionPacketOrderer s),
           s_disconnectedReason := NOT_DISCONNECTED, s_stateMachine := StateMachine_SetDisconnected (s_stateMachine s) \<rparr>"
  have "Session_InitializeSession E i w
      = (upd_session i (\<lambda>s. ?g ((session_fresh E s)\<lparr> s_sendContext := sc \<rparr>)) w)\<lparr> w_store := st \<rparr>"
    using r assms by (simp add: Session_InitializeSession_def Let_def set_send_def upd_session_def)
  moreover have "frame (upd_session i (\<lambda>s. ?g ((session_fresh E s)\<lparr> s_sendContext := sc \<rparr>)) w) = upd_frame i fresh_frame (frame w)"
    by (rule frame_upd_session [OF assms])
       (simp add: session_frame_def fresh_frame_def session_fresh_def sc StateMachine_SetDisconnected_def)
  ultimately show ?thesis by simp
qed

text \<open>Renewing a drained session.\<close>

lemma spec_ReleaseSession:
  assumes "Manager_ReleaseSession E (of_nat i) w = (ok, w')" "spec_ok n (of_nat i # R) Q C (frame w)" "i < n"
    "drained i Q C (frame w)"
  shows "spec_ok n R Q C (frame w')"
    "frame w' = renew_frame i (fresh_frame (fr_sessions (frame w) ! i)) (frame w)"
proof -
  note len = spec_ok_len [OF assms(2,3)]
  have life: "life_ok n (of_nat i # R) (frame w)" and bar: "barrier_ok n Q C (frame w)"
    using assms(2) by (simp_all add: spec_ok_def)
  note D = life_okD [OF life]
  have id: "unat (of_nat i :: SessionIdType) = i" using D(2) assms(3) by (intro unat_id) simp
  have st: "fr_state (fr_sessions (frame w) ! i) = RELEASING" using D(6) [OF assms(3)] by (simp split: if_splits)
  have "of_nat i \<notin> set (fr_unused (frame w))" using D(5) [OF assms(3)] st by (simp add: count_list_0_iff)
  then have un: "of_nat i \<notin> w_unusedSessionIdSet w" using D(7) by (simp add: frame_def)
  let ?s = "fresh_frame (fr_sessions (frame w) ! i)"
  let ?v = "Session_InitializeSession E i w"
  have rel: "sm_state (s_stateMachine (get_session i w)) = RELEASING"
    using st unfolding frame_nth [OF len] by (simp add: session_frame_def)
  have ok: "ok \<and> w' = Manager_DecrementConnectedCount (s_disconnectedReason (get_session i w))
      (?v\<lparr> w_unusedSessionIdList := w_unusedSessionIdList ?v @ [of_nat i],
           w_unusedSessionIdSet := insert (of_nat i) (w_unusedSessionIdSet ?v) \<rparr>)"
    using assms(1) len un rel id by (auto simp: Manager_ReleaseSession_def Let_def)
  have "frame (v\<lparr> w_unusedSessionIdList := l, w_unusedSessionIdSet := S \<rparr>)
      = (frame v)\<lparr> fr_unused := l, fr_unusedSet := S \<rparr>" for l S and v :: "'a World"
    by (simp add: frame_def)
  moreover have "w_unusedSessionIdList ?v = fr_unused (frame w)" "w_unusedSessionIdSet ?v = fr_unusedSet (frame w)"
    by (simp_all add: Session_InitializeSession_def Let_def frame_def set_send_def upd_session_def split: prod.split)
  ultimately have f: "frame w' = renew_frame i ?s (frame w)"
    using ok by (simp add: frame_Decrement frame_InitializeSession [OF len] renew_frame_def upd_frame_def)
  then show "frame w' = renew_frame i ?s (frame w)" .
  have sess: "session_ok i [] 0 0 (fr_sessions (frame w) ! i)" if "fr_ioMode (fr_sessions (frame w) ! i) \<noteq> IO_SENDING"
    using barrier_okD(4) [OF bar assms(3)] assms(4) by (simp add: drained_def)
  have mode: "fr_ioMode (fr_sessions (frame w) ! i) \<noteq> IO_SENDING"
    using barrier_okD(4) [OF bar assms(3)] assms(4) by (auto simp: drained_def session_ok_def)
  have "session_ok i [] 0 0 ?s" using sess [OF mode] by (auto simp: session_ok_def fresh_frame_def)
  note b = barrier_ok_renew [OF bar assms(3,4) this]
  have "barrier_ok n Q C (frame w')"
    unfolding f renew_frame_def by (rule barrier_ok_cong [OF b]) simp_all
  moreover have "life_ok n R (frame w')"
    unfolding f by (rule life_ok_renew [OF life assms(3)])
      (use D(3) [OF assms(3)] in \<open>simp_all add: fresh_frame_def del: frame_sessions\<close>)
  ultimately show "spec_ok n R Q C (frame w')" by (simp add: spec_ok_def)
qed

text \<open>When the barrier is down nothing outside refers to the session.\<close>

definition frame_can_finalize :: "SessionFrame \<Rightarrow> bool" where
  "frame_can_finalize s \<longleftrightarrow> RecvBuffer_IsDrained (fr_recvBuffer s) \<and> fr_ioMode s \<noteq> IO_SENDING \<and>
     fr_active s = 0 \<and> \<not> fr_processing s"

lemma CanFinalize_frame: "Session_CanFinalizeIO s = frame_can_finalize (session_frame s)"
  by (simp add: Session_CanFinalizeIO_def RIOContext_IsDrained_def frame_can_finalize_def session_frame_def)

lemma finalize_drained:
  assumes "barrier_ok n [] [] f" "i < n" "frame_can_finalize (fr_sessions f ! i)"
    "length (concat (fr_queues f)) < 2 ^ 32"
  shows "drained i [] [] f"
proof -
  have "queued i (concat (fr_queues f)) < 2 ^ 32"
    unfolding queued_def by (rule le_less_trans [OF length_filter_le assms(4)])
  then show ?thesis
    using counters_drained [OF barrier_okD(4) [OF assms(1,2)]] assms(3) by (simp add: drained_def frame_can_finalize_def)
qed

lemma spec_Disconnect:
  assumes "world_ok n m L w" "env_ok E n m" "spec_ok n (of_nat i # R) [] [] (frame w)" "i < n"
    "s_ioShutdownStarted (get_session i w)" "Session_CanFinalizeIO (get_session i w)"
    "length (concat (fr_queues (frame w))) < 2 ^ 32"
  shows "spec_ok n R [] [] (frame (Session_Disconnect E i w))"
    "\<exists>f5. effect\<^sup>*\<^sup>* (upd_rb i RecvContext_Cleanup (frame w)) f5 \<and>
      frame (Session_Disconnect E i w) = renew_frame i (fresh_frame (fr_sessions f5 ! i)) f5"
proof -
  note len = spec_ok_len [OF assms(3,4)]
  have life: "life_ok n (of_nat i # R) (frame w)" and bar: "barrier_ok n [] [] (frame w)"
    using assms(3) by (simp_all add: spec_ok_def)
  note D = life_okD [OF life]
  have st: "fr_state (fr_sessions (frame w) ! i) = RELEASING" using D(6) [OF assms(4)] by (simp split: if_splits)
  have rel: "StateMachine_IsReleasing (s_stateMachine (get_session i w))"
    using st unfolding frame_nth [OF len] by (simp add: session_frame_def StateMachine_IsReleasing_def)
  have same: "Session_BeginIOShutdown E i w = w" using assms(5) by (simp add: Session_BeginIOShutdown_def Let_def)
  have dr: "drained i [] [] (frame w)"
    using finalize_drained [OF bar assms(4) _ assms(7)] assms(6) unfolding frame_nth [OF len]
    by (simp add: CanFinalize_frame)
  define w2 where "w2 = Session_FinalizeRIOCleanup i w"
  obtain sc w3 where c: "SendContext_ForEachAndClearSendPacketInfoMap erase_and_free (get_send i w2) w2 = (sc, w3)"
    by (cases "SendContext_ForEachAndClearSendPacketInfoMap erase_and_free (get_send i w2) w2")
  define w4 where "w4 = set_send i sc w3"
  define w5 where "w5 = (if s_disconnectedReason (get_session i w4) \<noteq> BY_ABORT_RESERVED
      then env_OnReleased E i (w4\<lparr> w_events := w_events w4 @ [OnReleased i] \<rparr>) else w4)"
  have f4: "frame w4 = upd_rb i RecvContext_Cleanup (frame w)"
    unfolding w4_def frame_ClearMap [OF c] unfolding w2_def Session_FinalizeRIOCleanup_def
    by (rule frame_RIOContext_Cleanup [OF len])
  have s4: "spec_ok n (of_nat i # R) [] [] (frame w4)"
    unfolding f4
  proof (rule spec_ok_barrier [OF assms(3)])
    show "barrier_ok n [] [] (frame w) \<Longrightarrow> barrier_ok n [] [] (upd_rb i RecvContext_Cleanup (frame w))"
      unfolding upd_rb_def by (erule barrier_ok_upd_frame [OF _ assms(4)]) (simp_all add: session_ok_Cleanup)
  qed simp
  have w4: "world_ok n m L w4"
    unfolding w4_def
    by (rule world_ok_ClearMap [OF _ assms(4) c]) (simp add: w2_def world_ok_FinalizeRIOCleanup [OF assms(1,4)])
  have e: "effect\<^sup>*\<^sup>* (frame w4) (frame w5)"
    using content_refinesD(4) [OF env_okD(3) [OF assms(2)] assms(4) world_ok_event [OF w4]]
    by (simp add: w5_def evolves_def)
  have i4: "i < length (fr_sessions (frame w4))" "fr_state (fr_sessions (frame w4) ! i) = RELEASING"
    "fr_releasing (fr_sessions (frame w4) ! i)" "drained i [] [] (frame w4)"
    using len st D(4) [OF assms(4)] dr unfolding f4 by (simp_all add: upd_rb_def upd_frame_def drained_def)
  note e5 = effects_releasing [OF e i4]
  have s5: "spec_ok n (of_nat i # R) [] [] (frame w5)"
    by (rule spec_ok_evolves [OF _ s4]) (simp add: evolves_def e)
  have "fr_id (fr_sessions (frame w5) ! i) = of_nat i"
    using s5 life_okD(3) [of n "of_nat i # R" "frame w5" i] assms(4) by (simp add: spec_ok_def)
  then have id: "s_sessionId (get_session i w5) = of_nat i"
    unfolding frame_nth [OF spec_ok_len [OF s5 assms(4)]] by (simp add: session_frame_def)
  obtain ok w' where r: "Manager_ReleaseSession E (of_nat i) w5 = (ok, w')"
    by (cases "Manager_ReleaseSession E (of_nat i) w5")
  have "Session_Disconnect E i w = w'"
    using rel assms(6) id r
    unfolding Session_Disconnect_def same Let_def w2_def [symmetric] c prod.case w4_def [symmetric]
      w5_def [symmetric] Core_DisconnectSession_def
    by simp
  moreover note spec_ReleaseSession [OF r s5 assms(4) conjunct2 [OF e5]]
  ultimately show "spec_ok n R [] [] (frame (Session_Disconnect E i w))"
    "\<exists>f5. effect\<^sup>*\<^sup>* (upd_rb i RecvContext_Cleanup (frame w)) f5 \<and>
      frame (Session_Disconnect E i w) = renew_frame i (fresh_frame (fr_sessions f5 ! i)) f5"
    using e unfolding f4 by auto
qed

text \<open>What one visit of the release thread does to the abstract state: it may mark the session
  and tell the content, and when the barrier is down it tells the content again and renews
  the session.\<close>

definition finalise_frame :: "nat \<Rightarrow> Frame \<Rightarrow> bool \<Rightarrow> Frame \<Rightarrow> bool" where
  "finalise_frame i f fin f' \<longleftrightarrow>
     (\<exists>f1. (f1 = f \<or> effect\<^sup>*\<^sup>* (upd_frame i (\<lambda>s. s\<lparr> fr_shutdown := True \<rparr>) f) f1) \<and>
        (if frame_can_finalize (fr_sessions f1 ! i)
         then fin \<and> (\<exists>f5. effect\<^sup>*\<^sup>* (upd_rb i RecvContext_Cleanup f1) f5 \<and>
                  f' = renew_frame i (fresh_frame (fr_sessions f5 ! i)) f5)
         else \<not> fin \<and> f' = f1))"

lemma finalise_frame_queues:
  assumes "finalise_frame i f fin f'"
  shows "fr_queues f' = fr_queues f"
proof -
  have "fr_queues (upd_frame i g f) = fr_queues f" "fr_queues (upd_rb i h f) = fr_queues f" for g h f
    by (simp_all add: upd_rb_def upd_frame_def)
  with assms show ?thesis
    by (auto simp: finalise_frame_def renew_frame_def split: if_splits dest!: effects_queues)
qed

lemma spec_TryFinalize:
  assumes "Core_TryFinalizeSessionRelease E now q w = (fin, w')" "world_ok n m L w" "env_ok E n m"
    "spec_ok n (q # R) [] [] (frame w)" "length (concat (fr_queues (frame w))) < 2 ^ 32"
  shows "spec_ok n (if fin then R else q # R) [] [] (frame w')"
    "\<exists>i<n. q = of_nat i \<and> finalise_frame i (frame w) fin (frame w')"
proof -
  have life: "life_ok n (q # R) (frame w)" using assms(4) by (simp add: spec_ok_def)
  obtain i where i: "i < n" "q = of_nat i" using life_okD(8) [OF life, of q] by auto
  note len = spec_ok_len [OF assms(4) i(1)]
  have id: "unat q = i" using life_okD(2) [OF life] i by (simp add: unat_id)
  have "fr_state (fr_sessions (frame w) ! i) = RELEASING"
    using life_okD(6) [OF life i(1)] i(2) by (simp split: if_splits)
  then have "fr_releasing (fr_sessions (frame w) ! i)" using life_okD(4) [OF life i(1)] by simp
  then have "Manager_GetReleasingSession q w = Some i"
    using id len by (simp add: Manager_GetReleasingSession_def Let_def Session_IsReleasing_def session_frame_def get_session_def)
  then have step: "Core_TryFinalizeSessionRelease E now q w =
      (let w1 = Session_BeginIOShutdown E i w
       in if Session_CanFinalizeIO (get_session i w1) then (True, Session_Disconnect E i w1)
          else (False, Core_LogSessionReleaseStall now i w1))"
    by (simp add: Core_TryFinalizeSessionRelease_def)
  let ?w1 = "Session_BeginIOShutdown E i w"
  note w1 = world_ok_BeginIOShutdown [OF assms(2) i(1) env_okD(2) [OF assms(3)]]
  note s1 = spec_BeginIOShutdown [OF assms(2) i(1) assms(3,4)]
  have stall: "frame (Core_LogSessionReleaseStall now i ?w1) = frame ?w1"
    unfolding Core_LogSessionReleaseStall_def by (auto intro!: frame_upd_session_quiet simp: session_frame_def)
  note dis = spec_Disconnect [OF w1 assms(3) s1(1) [unfolded i(2)] i(1) s1(3)]
  have can: "Session_CanFinalizeIO (get_session i ?w1) = frame_can_finalize (fr_sessions (frame ?w1) ! i)"
    unfolding frame_nth [OF spec_ok_len [OF s1(1) i(1)]] by (rule CanFinalize_frame)
  have begin_io: "frame ?w1 = frame w \<or> effect\<^sup>*\<^sup>* (upd_frame i (\<lambda>s. s\<lparr> fr_shutdown := True \<rparr>) (frame w)) (frame ?w1)"
    by (rule BeginIOShutdown_cases [OF assms(2) i(1) assms(3)]) auto
  have q: "length (concat (fr_queues (frame ?w1))) < 2 ^ 32" using s1(2) assms(5) by simp
  show "spec_ok n (if fin then R else q # R) [] [] (frame w')"
    using assms(1) s1(1) stall dis(1) [OF _ _ q] unfolding step by (auto simp: Let_def split: if_splits)
  have "finalise_frame i (frame w) fin (frame w')"
    unfolding finalise_frame_def
    by (rule exI [of _ "frame ?w1"])
       (use begin_io assms(1) stall dis(2) [OF _ _ q] in \<open>auto simp: step can Let_def split: if_splits\<close>)
  with i show "\<exists>i<n. q = of_nat i \<and> finalise_frame i (frame w) fin (frame w')" by blast
qed

lemma spec_release_ids:
  "release_ids E now ids w = (rest, w') \<Longrightarrow> world_ok n m L w \<Longrightarrow> env_ok E n m \<Longrightarrow>
   spec_ok n (ids @ R) [] [] (frame w) \<Longrightarrow> length (concat (fr_queues (frame w))) < 2 ^ 32 \<Longrightarrow>
   spec_ok n (rest @ R) [] [] (frame w')"
proof (induction ids arbitrary: w R rest)
  case (Cons q ids)
  obtain fin w1 where t: "Core_TryFinalizeSessionRelease E now q w = (fin, w1)"
    by (cases "Core_TryFinalizeSessionRelease E now q w")
  obtain rest1 w2 where r: "release_ids E now ids w1 = (rest1, w2)" by (cases "release_ids E now ids w1")
  have res: "w' = w2" "rest = (if fin then rest1 else q # rest1)" using Cons.prems(1) t r by simp_all
  note w1 = world_ok_TryFinalize [OF t Cons.prems(2) env_okD(2) [OF Cons.prems(3)]]
  note s1 = spec_TryFinalize [OF t Cons.prems(2,3) Cons.prems(4) [simplified] Cons.prems(5)]
  have qs: "fr_queues (frame w1) = fr_queues (frame w)" using s1(2) finalise_frame_queues by blast
  have perm: "spec_ok n A [] [] f = spec_ok n B [] [] f" if "mset A = mset B" for A B f
    using life_ok_perm [OF that] by (simp add: spec_ok_def)
  have "spec_ok n (ids @ (if fin then R else q # R)) [] [] (frame w1)"
    using s1(1) perm [of "ids @ q # R" "q # ids @ R"] by (auto split: if_splits)
  from Cons.IH [OF r [folded res(1)] w1 Cons.prems(3) this] qs Cons.prems(5)
  have "spec_ok n (rest1 @ (if fin then R else q # R)) [] [] (frame w')" by simp
  then show ?case using res perm [of "rest1 @ q # R" "q # rest1 @ R"] by (auto split: if_splits)
qed simp

lemma spec_ReleaseRound:
  assumes "world_ok n m L w" "env_ok E n m" "spec_ok n [] [] [] (frame w)"
    "length (concat (fr_queues (frame w))) < 2 ^ 32"
  shows "spec_ok n [] [] [] (frame (Core_SessionReleaseRound E w))"
proof -
  obtain now w1 where a: "ask (env_tickCount E) w = (now, w1)" by (cases "ask (env_tickCount E) w")
  let ?ids = "w_releaseSessionIdList w1"
  let ?w2 = "w1\<lparr> w_releaseSessionIdList := [] \<rparr>"
  obtain rest w3 where r: "release_ids E now ?ids ?w2 = (rest, w3)" by (cases "release_ids E now ?ids ?w2")
  have lists: "frame (v\<lparr> w_releaseSessionIdList := l \<rparr>) = (frame v)\<lparr> fr_release := l \<rparr>" for l and v :: "'a World"
    by (simp add: frame_def)
  have move: "spec_ok n (R @ ids) [] [] (f\<lparr> fr_release := l \<rparr>) = spec_ok n R [] [] (f\<lparr> fr_release := l @ ids \<rparr>)" for R ids l f
  proof -
    have "barrier_ok n [] [] (f\<lparr> fr_release := l1 \<rparr>) = barrier_ok n [] [] f" for l1
      using barrier_ok_cong [of n "[]" "[]" "f\<lparr> fr_release := l1 \<rparr>" f] barrier_ok_cong [of n "[]" "[]" f "f\<lparr> fr_release := l1 \<rparr>"]
      by auto
    moreover have "life_ok n (R @ ids) (f\<lparr> fr_release := l \<rparr>) = life_ok n R (f\<lparr> fr_release := l @ ids \<rparr>)"
      by (auto simp: life_ok_def count_list_append add_ac)
    ultimately show ?thesis by (simp add: spec_ok_def)
  qed
  have f1: "frame w1 = frame w" by (rule frame_ask [OF a])
  have "spec_ok n ?ids [] [] (frame ?w2)"
    using move [where R = "[]" and ids = ?ids and f = "frame w1" and l = "[]"] assms(3) f1 by (simp add: lists) (simp add: frame_def)
  then have "spec_ok n (rest @ []) [] [] (frame w3)"
    using spec_release_ids [OF r world_ok_pool(2) [OF world_ok_ask [OF assms(1) a]] assms(2), of "[]"] assms(4) f1
    by (simp add: lists)
  then have "spec_ok n [] [] [] (frame (w3\<lparr> w_releaseSessionIdList := w_releaseSessionIdList w3 @ rest \<rparr>))"
    using move [where R = "[]" and ids = rest and f = "frame w3" and l = "w_releaseSessionIdList w3"] by (simp add: lists) (simp add: frame_def)
  with a r show ?thesis
    by (simp add: Core_SessionReleaseRound_def Core_TakeReleaseSessionIds_def Core_RequeueReleaseSessionIds_def)
qed

section \<open>What a round does to one session\<close>

text \<open>A predicate that every visit of the thread keeps holds after the round.\<close>

locale release_invariant =
  fixes n :: nat and I :: "Frame \<Rightarrow> bool"
  assumes visit: "I f \<Longrightarrow> spec_ok n (of_nat j # R) [] [] f \<Longrightarrow> j < n \<Longrightarrow>
      length (concat (fr_queues f)) < 2 ^ 32 \<Longrightarrow> finalise_frame j f fin f' \<Longrightarrow> I f'"
begin

lemma visits:
  "release_ids E now ids w = (rest, w') \<Longrightarrow> world_ok n m L w \<Longrightarrow> env_ok E n m \<Longrightarrow>
   spec_ok n (ids @ R) [] [] (frame w) \<Longrightarrow> length (concat (fr_queues (frame w))) < 2 ^ 32 \<Longrightarrow>
   I (frame w) \<Longrightarrow> I (frame w')"
proof (induction ids arbitrary: w R rest)
  case (Cons q ids)
  obtain fin w1 where t: "Core_TryFinalizeSessionRelease E now q w = (fin, w1)"
    by (cases "Core_TryFinalizeSessionRelease E now q w")
  obtain rest1 w2 where r: "release_ids E now ids w1 = (rest1, w2)" by (cases "release_ids E now ids w1")
  have res: "w' = w2" using Cons.prems(1) t r by simp
  note w1 = world_ok_TryFinalize [OF t Cons.prems(2) env_okD(2) [OF Cons.prems(3)]]
  note s1 = spec_TryFinalize [OF t Cons.prems(2,3) Cons.prems(4) [simplified] Cons.prems(5)]
  obtain j where j: "j < n" "q = of_nat j" "finalise_frame j (frame w) fin (frame w1)" using s1(2) by blast
  have "I (frame w1)" by (rule visit [OF Cons.prems(6) _ j(1) Cons.prems(5) j(3)]) (use Cons.prems(4) j(2) in simp)
  moreover have "spec_ok n (ids @ (if fin then R else q # R)) [] [] (frame w1)"
    using s1(1) life_ok_perm [of "ids @ q # R" "q # ids @ R" n "frame w1"] by (auto simp: spec_ok_def split: if_splits)
  ultimately show ?case
    using Cons.IH [OF r [folded res] w1 Cons.prems(3)] Cons.prems(5) finalise_frame_queues [OF j(3)] by simp
qed simp

end

text \<open>A session that is being released while something outside still refers to it.\<close>

definition held :: "nat \<Rightarrow> 32 word \<Rightarrow> Frame \<Rightarrow> bool" where
  "held i g f \<longleftrightarrow> i < length (fr_sessions f) \<and> fr_state (fr_sessions f ! i) = RELEASING \<and>
     fr_generation (fr_sessions f ! i) = g \<and> \<not> drained i [] [] f"

lemma effect_held: "effect f f' \<Longrightarrow> held i g f \<Longrightarrow> held i g f'"
  by (induction rule: effect.induct)
     (auto simp: held_def upd_frame_def release_frame_def post_frame_def mode_frame_def drained_def frame_using_def
       nth_list_update)

lemma effects_held: "effect\<^sup>*\<^sup>* f f' \<Longrightarrow> held i g f \<Longrightarrow> held i g f'"
  by (induction rule: rtranclp_induct) (auto intro: effect_held)

lemma spec_ok_effects: "effect\<^sup>*\<^sup>* f f' \<Longrightarrow> spec_ok n R Q C f \<Longrightarrow> spec_ok n R Q C f'"
  unfolding spec_ok_def using life_ok_effects barrier_ok_effects by blast

lemma spec_ok_shutdown:
  assumes "spec_ok n R Q C f" "i < n"
  shows "spec_ok n R Q C (upd_frame i (\<lambda>s. s\<lparr> fr_shutdown := True \<rparr>) f)"
proof (rule spec_ok_barrier [OF assms(1)])
  show "life_part (upd_frame i (\<lambda>s. s\<lparr> fr_shutdown := True \<rparr>) f) = life_part f"
    by (rule life_part_upd_frame) simp
  show "barrier_ok n Q C f \<Longrightarrow> barrier_ok n Q C (upd_frame i (\<lambda>s. s\<lparr> fr_shutdown := True \<rparr>) f)"
    by (erule barrier_ok_upd_frame [OF _ assms(2)]) (simp_all add: session_ok_def)
qed

lemma upd_frame_keeps:
  "(\<And>s. g (h s) = g s) \<Longrightarrow> g (fr_sessions (upd_frame j h f) ! i) = g (fr_sessions f ! i)"
  by (cases "i = j"; cases "j < length (fr_sessions f)") (simp_all add: upd_frame_def not_less list_update_beyond)

lemma upd_frame_parts:
  "length (fr_sessions (upd_frame j h f)) = length (fr_sessions f)"
  "drained i Q C (upd_frame j h f) = drained i Q C f" "fr_unused (upd_frame j h f) = fr_unused f"
  by (simp_all add: upd_frame_def drained_def)

lemma held_visit:
  assumes "held i g f" "spec_ok n (of_nat j # R) [] [] f" "j < n" "length (concat (fr_queues f)) < 2 ^ 32"
    "finalise_frame j f fin f'"
  shows "held i g f'"
proof -
  let ?s = "upd_frame j (\<lambda>s. s\<lparr> fr_shutdown := True \<rparr>) f"
  obtain f1 where f1: "f1 = f \<or> effect\<^sup>*\<^sup>* ?s f1"
    "if frame_can_finalize (fr_sessions f1 ! j)
     then fin \<and> (\<exists>f5. effect\<^sup>*\<^sup>* (upd_rb j RecvContext_Cleanup f1) f5 \<and>
       f' = renew_frame j (fresh_frame (fr_sessions f5 ! j)) f5)
     else \<not> fin \<and> f' = f1"
    using assms(5) by (auto simp: finalise_frame_def)
  have same: "held i g (upd_frame j h v) = held i g v"
    if "\<And>s. fr_generation (h s) = fr_generation s \<and> fr_state (h s) = fr_state s" for h v
    using upd_frame_keeps [of fr_generation h j v i] upd_frame_keeps [of fr_state h j v i] that
    by (simp add: held_def upd_frame_parts)
  have h1: "held i g f1" using f1(1) assms(1) effects_held [of ?s f1] same [of "\<lambda>s. s\<lparr> fr_shutdown := True \<rparr>" f] by auto
  have s1: "spec_ok n (of_nat j # R) [] [] f1"
    using f1(1) assms(2) spec_ok_effects [OF _ spec_ok_shutdown [OF assms(2,3)]] by auto
  have q: "fr_queues f1 = fr_queues f" using f1(1) effects_queues [of ?s f1] by (auto simp: upd_frame_def)
  show ?thesis
  proof (cases "frame_can_finalize (fr_sessions f1 ! j)")
    case True
    then obtain f5 where f5: "effect\<^sup>*\<^sup>* (upd_rb j RecvContext_Cleanup f1) f5"
      "f' = renew_frame j (fresh_frame (fr_sessions f5 ! j)) f5" using f1(2) by auto
    have "drained j [] [] f1"
      using finalize_drained [OF _ assms(3) True] s1 assms(4) q by (simp add: spec_ok_def)
    then have "i \<noteq> j" using h1 by (auto simp: held_def)
    moreover have "held i g f5"
      using effects_held [OF f5(1)] same [of "\<lambda>s. s\<lparr> fr_recvBuffer := RecvContext_Cleanup (fr_recvBuffer s) \<rparr>" f1] h1
      by (simp add: upd_rb_def)
    ultimately show ?thesis by (simp add: f5(2) held_def renew_frame_def drained_def)
  qed (use f1(2) h1 in simp)
qed

interpretation held_release: release_invariant n "held i g" for n i g
  by unfold_locales (rule held_visit)

text \<open>A session whose barrier is down, before and after its visit.\<close>

definition ready :: "nat \<Rightarrow> 32 word \<Rightarrow> Frame \<Rightarrow> bool" where
  "ready i g f \<longleftrightarrow> i < length (fr_sessions f) \<and> fr_state (fr_sessions f ! i) = RELEASING \<and>
     fr_releasing (fr_sessions f ! i) \<and> fr_generation (fr_sessions f ! i) = g \<and>
     frame_can_finalize (fr_sessions f ! i) \<and> drained i [] [] f"

definition renewed :: "nat \<Rightarrow> 32 word \<Rightarrow> Frame \<Rightarrow> bool" where
  "renewed i g f \<longleftrightarrow> i < length (fr_sessions f) \<and> fr_state (fr_sessions f ! i) = DISCONNECTED \<and>
     fr_generation (fr_sessions f ! i) = g + 1 \<and> of_nat i \<in> set (fr_unused f)"

lemma effects_ready: "effect\<^sup>*\<^sup>* f f' \<Longrightarrow> ready i g f \<Longrightarrow> ready i g f'"
  using effects_releasing [of f f' i "[]" "[]"] effects_length [of f f'] by (auto simp: ready_def)

lemma effects_renewed: "effect\<^sup>*\<^sup>* f f' \<Longrightarrow> renewed i g f \<Longrightarrow> renewed i g f'"
proof (induction rule: rtranclp_induct)
  case (step y z)
  have "renewed i g y" using step by simp
  with step.hyps(2) show ?case
    by (induction rule: effect.induct)
       (auto simp: renewed_def upd_frame_def release_frame_def post_frame_def mode_frame_def frame_using_def nth_list_update)
qed simp

lemma ready_upd:
  "ready i g f \<Longrightarrow> (\<And>s. fr_state (h s) = fr_state s \<and> fr_releasing (h s) = fr_releasing s \<and>
     fr_generation (h s) = fr_generation s \<and> frame_can_finalize (h s) = frame_can_finalize s) \<Longrightarrow>
   ready i g (upd_frame j h f)"
  using upd_frame_keeps [of fr_generation h j f i] upd_frame_keeps [of fr_state h j f i]
    upd_frame_keeps [of fr_releasing h j f i] upd_frame_keeps [of frame_can_finalize h j f i]
  by (simp add: ready_def upd_frame_parts)

lemma renewed_upd:
  "renewed i g f \<Longrightarrow> (\<And>s. fr_state (h s) = fr_state s \<and> fr_generation (h s) = fr_generation s) \<Longrightarrow>
   renewed i g (upd_frame j h f)"
  using upd_frame_keeps [of fr_generation h j f i] upd_frame_keeps [of fr_state h j f i]
  by (simp add: renewed_def upd_frame_parts)

lemma can_finalize_upd:
  "frame_can_finalize (s\<lparr> fr_shutdown := b \<rparr>) = frame_can_finalize s"
  "frame_can_finalize (s\<lparr> fr_recvBuffer := RecvContext_Cleanup (fr_recvBuffer s) \<rparr>) = frame_can_finalize s"
  by (simp_all add: frame_can_finalize_def RecvContext_Cleanup_def RecvBuffer_IsDrained_def)

lemma ready_visit_own:
  assumes "ready i g f" "finalise_frame i f fin f'"
  shows "renewed i g f'" "fin"
proof -
  let ?s = "upd_frame i (\<lambda>s. s\<lparr> fr_shutdown := True \<rparr>) f"
  obtain f1 where f1: "f1 = f \<or> effect\<^sup>*\<^sup>* ?s f1"
    "if frame_can_finalize (fr_sessions f1 ! i)
     then fin \<and> (\<exists>f5. effect\<^sup>*\<^sup>* (upd_rb i RecvContext_Cleanup f1) f5 \<and>
       f' = renew_frame i (fresh_frame (fr_sessions f5 ! i)) f5)
     else \<not> fin \<and> f' = f1"
    using assms(2) by (auto simp: finalise_frame_def)
  have "ready i g ?s" by (rule ready_upd [OF assms(1)]) (simp add: can_finalize_upd)
  then have r1: "ready i g f1" using f1(1) assms(1) effects_ready by blast
  then obtain f5 where f5: "effect\<^sup>*\<^sup>* (upd_rb i RecvContext_Cleanup f1) f5"
    "f' = renew_frame i (fresh_frame (fr_sessions f5 ! i)) f5" "fin" using f1(2) by (auto simp: ready_def)
  have "ready i g (upd_rb i RecvContext_Cleanup f1)"
    unfolding upd_rb_def by (rule ready_upd [OF r1]) (simp add: can_finalize_upd)
  from effects_ready [OF f5(1) this] show "renewed i g f'"
    by (simp add: f5(2) ready_def renewed_def renew_frame_def fresh_frame_def)
  show "fin" by (rule f5(3))
qed

lemma ready_or_renewed_visit:
  assumes "ready i g f \<or> renewed i g f" "spec_ok n (of_nat j # R) [] [] f" "j < n" "finalise_frame j f fin f'"
  shows "ready i g f' \<or> renewed i g f'" "renewed i g f \<Longrightarrow> renewed i g f'"
proof -
  let ?s = "upd_frame j (\<lambda>s. s\<lparr> fr_shutdown := True \<rparr>) f"
  let ?c = "upd_rb j RecvContext_Cleanup"
  have life: "life_ok n (of_nat j # R) f" using assms(2) by (simp add: spec_ok_def)
  have rel: "fr_state (fr_sessions f ! j) = RELEASING" using life_okD(6) [OF life assms(3)] by (simp split: if_splits)
  have fr: "ready i g (?c v)" if "ready i g v" for v
    unfolding upd_rb_def by (rule ready_upd [OF that]) (simp add: can_finalize_upd)
  have fn: "renewed i g (?c v)" if "renewed i g v" for v
    unfolding upd_rb_def by (rule renewed_upd [OF that]) simp
  obtain f1 where f1: "f1 = f \<or> effect\<^sup>*\<^sup>* ?s f1"
    "if frame_can_finalize (fr_sessions f1 ! j)
     then fin \<and> (\<exists>f5. effect\<^sup>*\<^sup>* (?c f1) f5 \<and> f' = renew_frame j (fresh_frame (fr_sessions f5 ! j)) f5)
     else \<not> fin \<and> f' = f1"
    using assms(4) by (auto simp: finalise_frame_def)
  show new: "renewed i g f'" if r: "renewed i g f"
  proof -
    have ij: "i \<noteq> j" using r rel by (auto simp: renewed_def)
    have "renewed i g ?s" by (rule renewed_upd [OF r]) simp
    then have r1: "renewed i g f1" using f1(1) r effects_renewed by blast
    have "renewed i g (renew_frame j s f5)" if "effect\<^sup>*\<^sup>* (?c f1) f5" for f5 s
      using effects_renewed [OF that fn [OF r1]] ij by (auto simp: renewed_def renew_frame_def)
    with r1 f1(2) show ?thesis by (auto split: if_splits)
  qed
  show "ready i g f' \<or> renewed i g f'"
  proof (cases "ready i g f \<and> i \<noteq> j")
    case True
    have "ready i g ?s" by (rule ready_upd) (use True in \<open>simp_all add: can_finalize_upd\<close>)
    then have r1: "ready i g f1" using f1(1) True effects_ready by blast
    have "ready i g (renew_frame j s f5)" if "effect\<^sup>*\<^sup>* (?c f1) f5" for f5 s
      using effects_ready [OF that fr [OF r1]] True by (auto simp: ready_def renew_frame_def drained_def)
    with r1 f1(2) show ?thesis by (auto split: if_splits)
  next
    case False
    with assms(1) new ready_visit_own(1) [of i g f fin f'] assms(4) show ?thesis by auto
  qed
qed

interpretation ready_release: release_invariant n "\<lambda>f. ready i g f \<or> renewed i g f" for n i g
  by unfold_locales (rule ready_or_renewed_visit(1))

interpretation renewed_release: release_invariant n "renewed i g" for n i g
  by unfold_locales (rule ready_or_renewed_visit(2), auto)

interpretation queues_release: release_invariant n "\<lambda>f. fr_queues f = q" for n q
  by unfold_locales (simp add: finalise_frame_queues)

lemma release_ids_append:
  "release_ids E now (xs @ ys) w =
     (let (r1, w1) = release_ids E now xs w; (r2, w2) = release_ids E now ys w1 in (r1 @ r2, w2))"
  by (induction xs arbitrary: w) (auto simp: split_beta Let_def)

section \<open>The properties of a round\<close>

lemma drained_iff:
  "drained i [] [] f \<longleftrightarrow> (\<forall>k. PostedRecv i k \<notin> set (fr_posted f)) \<and>
     (\<forall>c. PostedSend c \<in> set (fr_posted f) \<longrightarrow> io_session c \<noteq> Some i) \<and>
     (\<forall>c \<in> set (concat (fr_queues f)). rc_session c \<noteq> i)"
proof -
  have "posted_slots i ps = [] \<longleftrightarrow> (\<forall>k. PostedRecv i k \<notin> set ps)" for ps
    by (induction i ps rule: posted_slots.induct) auto
  moreover have "posted_sends i ps = 0 \<longleftrightarrow> (\<forall>c. PostedSend c \<in> set ps \<longrightarrow> io_session c \<noteq> Some i)" for ps
    by (induction i ps rule: posted_sends.induct) auto
  ultimately show ?thesis by (simp add: drained_def queued_0_iff)
qed

lemma round_frame:
  assumes "ask (env_tickCount E) w = (now, w1)"
    "release_ids E now (w_releaseSessionIdList w) (w1\<lparr> w_releaseSessionIdList := [] \<rparr>) = (rest, w3)"
  shows "frame (Core_SessionReleaseRound E w) = (frame w3)\<lparr> fr_release := fr_release (frame w3) @ rest \<rparr>"
proof -
  have "w_releaseSessionIdList w1 = w_releaseSessionIdList w" using assms(1) by (auto simp: ask_def)
  with assms show ?thesis
    by (simp add: Core_SessionReleaseRound_def Core_TakeReleaseSessionIds_def Core_RequeueReleaseSessionIds_def frame_def)
qed

lemma frame_release: "fr_release (frame w) = w_releaseSessionIdList w"
  by (simp add: frame_def)

lemma round_start:
  assumes "world_ok n m L w" "spec_ok n [] [] [] (frame w)" "ask (env_tickCount E) w = (now, w1)"
  shows "world_ok n m L (w1\<lparr> w_releaseSessionIdList := [] \<rparr>)"
    "frame (w1\<lparr> w_releaseSessionIdList := [] \<rparr>) = (frame w)\<lparr> fr_release := [] \<rparr>"
    "spec_ok n (w_releaseSessionIdList w @ []) [] [] (frame (w1\<lparr> w_releaseSessionIdList := [] \<rparr>))"
proof -
  show "world_ok n m L (w1\<lparr> w_releaseSessionIdList := [] \<rparr>)" by (rule world_ok_pool(2) [OF world_ok_ask [OF assms(1,3)]])
  show f: "frame (w1\<lparr> w_releaseSessionIdList := [] \<rparr>) = (frame w)\<lparr> fr_release := [] \<rparr>"
    using assms(3) by (cases w) (auto simp: ask_def frame_def)
  have "barrier_ok n [] [] ((frame w)\<lparr> fr_release := [] \<rparr>)"
    by (rule barrier_ok_cong [of n "[]" "[]" "frame w"]) (use assms(2) in \<open>simp_all add: spec_ok_def\<close>)
  moreover have "life_ok n (w_releaseSessionIdList w) ((frame w)\<lparr> fr_release := [] \<rparr>)"
    using assms(2) frame_release [of w] by (simp add: spec_ok_def life_ok_def del: frame_sessions)
  ultimately show "spec_ok n (w_releaseSessionIdList w @ []) [] [] (frame (w1\<lparr> w_releaseSessionIdList := [] \<rparr>))"
    unfolding f by (simp add: spec_ok_def)
qed

lemma held_round:
  assumes "world_ok n m L w" "env_ok E n m" "spec_ok n [] [] [] (frame w)"
    "length (concat (fr_queues (frame w))) < 2 ^ 32" "held i g (frame w)"
  shows "held i g (frame (Core_SessionReleaseRound E w))"
proof -
  obtain now w1 where a: "ask (env_tickCount E) w = (now, w1)" by (cases "ask (env_tickCount E) w")
  obtain rest w3 where r: "release_ids E now (w_releaseSessionIdList w) (w1\<lparr> w_releaseSessionIdList := [] \<rparr>) = (rest, w3)"
    by (cases "release_ids E now (w_releaseSessionIdList w) (w1\<lparr> w_releaseSessionIdList := [] \<rparr>)")
  note s = round_start [OF assms(1,3) a]
  have "held i g (frame w3)"
    by (rule held_release.visits [OF r s(1) assms(2) s(3)]) (use assms(4,5) in \<open>simp_all add: s(2) held_def drained_def del: frame_sessions\<close>)
  then show ?thesis unfolding round_frame [OF a r] by (simp add: held_def drained_def del: frame_sessions)
qed

lemma ready_round:
  assumes "world_ok n m L w" "env_ok E n m" "spec_ok n [] [] [] (frame w)"
    "length (concat (fr_queues (frame w))) < 2 ^ 32" "ready i g (frame w)" "i < n"
  shows "renewed i g (frame (Core_SessionReleaseRound E w))"
proof -
  obtain now w1 where a: "ask (env_tickCount E) w = (now, w1)" by (cases "ask (env_tickCount E) w")
  let ?w2 = "w1\<lparr> w_releaseSessionIdList := [] \<rparr>"
  note s = round_start [OF assms(1,3) a]
  have life: "life_ok n [] (frame w)" using assms(3) by (simp add: spec_ok_def)
  have "fr_state (fr_sessions (frame w) ! i) = RELEASING" using assms(5) unfolding ready_def by blast
  then have "count_list (w_releaseSessionIdList w) (of_nat i) \<noteq> 0"
    using life_okD(6) [OF life assms(6)] by (simp add: frame_def)
  then have "of_nat i \<in> set (w_releaseSessionIdList w)" by (simp add: count_list_0_iff)
  then obtain xs ys where l: "w_releaseSessionIdList w = xs @ of_nat i # ys" by (auto simp: in_set_conv_decomp)
  obtain r1 u1 where x: "release_ids E now xs ?w2 = (r1, u1)" by (cases "release_ids E now xs ?w2")
  obtain fin u2 where y: "Core_TryFinalizeSessionRelease E now (of_nat i) u1 = (fin, u2)"
    by (cases "Core_TryFinalizeSessionRelease E now (of_nat i) u1")
  obtain r2 u3 where z: "release_ids E now ys u2 = (r2, u3)" by (cases "release_ids E now ys u2")
  have r: "release_ids E now (w_releaseSessionIdList w) ?w2 = (r1 @ (if fin then r2 else of_nat i # r2), u3)"
    using x y z by (simp add: l release_ids_append)
  have q: "length (concat (fr_queues (frame ?w2))) < 2 ^ 32" using assms(4) s(2) by simp
  have s0: "spec_ok n (xs @ of_nat i # ys) [] [] (frame ?w2)" using s(3) l by simp
  have "ready i g (frame ?w2)" using assms(5) unfolding s(2) by (simp add: ready_def drained_def del: frame_sessions)
  then have i1: "ready i g (frame u1) \<or> renewed i g (frame u1)"
    using ready_release.visits [OF x s(1) assms(2) s0 q] by blast
  note w1 = world_ok_release_ids [OF x s(1) env_okD(2) [OF assms(2)]]
  have "spec_ok n (r1 @ of_nat i # ys) [] [] (frame u1)" by (rule spec_release_ids [OF x s(1) assms(2) s0 q])
  then have s1: "spec_ok n (of_nat i # (r1 @ ys)) [] [] (frame u1)"
    using life_ok_perm [of "r1 @ of_nat i # ys" "of_nat i # r1 @ ys" n] by (simp add: spec_ok_def)
  have q1: "length (concat (fr_queues (frame u1))) < 2 ^ 32"
    using queues_release.visits [OF x s(1) assms(2) s0 q refl] q by simp
  note v = spec_TryFinalize [OF y w1 assms(2) s1 q1]
  obtain j where "j < n" "of_nat i = (of_nat j :: SessionIdType)" "finalise_frame j (frame u1) fin (frame u2)"
    using v(2) by blast
  moreover from this have "j = i" using of_nat_id_eq [of i j] life_okD(2) [OF life] assms(6) by simp
  ultimately have fv: "finalise_frame i (frame u1) fin (frame u2)" by simp
  have i2: "renewed i g (frame u2)"
    using i1 ready_visit_own(1) [OF _ fv] ready_or_renewed_visit(2) [OF i1 s1 assms(6) fv] by blast
  have q2: "length (concat (fr_queues (frame u2))) < 2 ^ 32" using q1 finalise_frame_queues [OF fv] by simp
  have s2: "spec_ok n (ys @ (if fin then r1 else of_nat i # r1)) [] [] (frame u2)"
    using v(1) life_ok_perm [of "ys @ r1" "r1 @ ys" n] life_ok_perm [of "ys @ of_nat i # r1" "of_nat i # r1 @ ys" n]
    by (auto simp: spec_ok_def split: if_splits)
  have "renewed i g (frame u3)"
    by (rule renewed_release.visits [OF z world_ok_TryFinalize [OF y w1 env_okD(2) [OF assms(2)]] assms(2) s2 q2 i2])
  then show ?thesis unfolding round_frame [OF a r] by (simp add: renewed_def del: frame_sessions)
qed

end
