(* ===== verification/Session_Broker.thy ===== *)
theory Session_Broker
  imports Server_Release Session_Info
begin

text \<open>
  MultiSocketRUDPServer/RUDPSessionBroker: a client connects over TLS, the broker reserves a
  session for it and sends it the key. The TLS helper and the sockets of the connection are
  parameters; the outcome of a connection is the state of the server and the bytes on the
  wire. A connection is one step: the threads of the pool are not interleaved.
\<close>

section \<open>The code\<close>

record 'k BrokerEnv =
  br_keys :: "'k KeyApi"
  br_initBuffer :: NetBuffer
  br_tlsInitialize :: "nat \<Rightarrow> bool"
  br_tlsHandshake :: "nat \<Rightarrow> bool"
  br_EncryptData :: "nat \<Rightarrow> byte list \<Rightarrow> byte list option"
  br_EncryptCloseNotify :: "nat \<Rightarrow> byte list option"
  br_send :: "nat \<Rightarrow> byte list \<Rightarrow> int"

definition upd_crypto :: "nat \<Rightarrow> ('k CryptoContext \<Rightarrow> 'k CryptoContext) \<Rightarrow> 'k World \<Rightarrow> 'k World" where
  "upd_crypto i f w = upd_session i (\<lambda>s. s\<lparr> s_cryptoContext := f (s_cryptoContext s) \<rparr>) w"

definition Broker_GenerateSessionKey :: "'k BrokerEnv \<Rightarrow> nat \<Rightarrow> 'k World \<Rightarrow> bool \<times> 'k World" where
  "Broker_GenerateSessionKey B i w =
     (case ask (CryptoHelper_GenerateSecureRandomBytes (br_keys B) (of_nat SESSION_KEY_SIZE)) w of
        (None, w1) \<Rightarrow> (False, w1)
      | (Some bytes, w1) \<Rightarrow> (True, upd_crypto i (CryptoContext_SetSessionKey bytes) w1))"

definition Broker_GenerateSaltKey :: "'k BrokerEnv \<Rightarrow> nat \<Rightarrow> 'k World \<Rightarrow> bool \<times> 'k World" where
  "Broker_GenerateSaltKey B i w =
     (case ask (CryptoHelper_GenerateSecureRandomBytes (br_keys B) (of_nat SESSION_SALT_SIZE)) w of
        (None, w1) \<Rightarrow> (False, w1)
      | (Some bytes, w1) \<Rightarrow> (True, upd_crypto i (CryptoContext_SetSessionSalt bytes) w1))"

definition Broker_InitSessionCrypto :: "'k BrokerEnv \<Rightarrow> nat \<Rightarrow> 'k World \<Rightarrow> bool \<times> 'k World" where
  "Broker_InitSessionCrypto B i w =
     (let (ok1, w1) = Broker_GenerateSessionKey B i w in
      if \<not> ok1 then (False, w1)
      else let (ok2, w2) = Broker_GenerateSaltKey B i w1 in
        if \<not> ok2 then (False, w2)
        else let w3 = (if sessionKeyHandle (s_cryptoContext (get_session i w2)) = None
                       then upd_crypto i (\<lambda>c. c\<lparr> keyObjectBuffer :=
                              Some (replicate (keyObjectSize (br_keys B)) 0) \<rparr>) w2
                       else w2);
                 handle = CryptoHelper_GetSymmetricKeyHandle (br_keys B)
                            (sessionKey (s_cryptoContext (get_session i w3)))
             in (handle \<noteq> None, upd_crypto i (\<lambda>c. c\<lparr> sessionKeyHandle := handle \<rparr>) w3))"

definition Broker_InitReserveSession :: "'k Env \<Rightarrow> nat \<Rightarrow> 'k World \<Rightarrow> CONNECT_RESULT_CODE \<times> 'k World" where
  "Broker_InitReserveSession E i w =
     (if Session_IsConnected (get_session i w) then (ALREADY_CONNECTED_SESSION, w)
      else Core_InitReserveSession E i w)"

text \<open>The two halves of \<open>ReserveSession\<close>: what is tried, and what becomes of the session.\<close>

definition reserve_code ::
    "'k Env \<Rightarrow> 'k BrokerEnv \<Rightarrow> nat \<Rightarrow> 'k World \<Rightarrow> CONNECT_RESULT_CODE \<times> 'k World" where
  "reserve_code E B i w =
     (let (code, w1) = Broker_InitReserveSession E i w in
      if code \<noteq> SUCCESS then (code, w1)
      else let (ok, w2) = Broker_InitSessionCrypto B i w1
           in (if ok then SUCCESS else SESSION_KEY_GENERATION_FAILED, w2))"

definition Broker_ReserveSession ::
    "'k Env \<Rightarrow> 'k BrokerEnv \<Rightarrow> byte list \<Rightarrow> 'k World \<Rightarrow> nat option \<times> NetBuffer \<times> 'k World" where
  "Broker_ReserveSession E B rudpServerIP w =
     (let code_buffer = (\<lambda>code. nb_write (env_api E) [CONNECT_RESULT_CODE_byte code] (br_initBuffer B)) in
      case Manager_AcquireSession w of
        (None, w1) \<Rightarrow> (None, code_buffer SERVER_FULL, w1)
      | (Some i, w1) \<Rightarrow>
          let (code, w2) = reserve_code E B i w1 in
          if code = SUCCESS then
            (let s = get_session i w2;
                 buffer = Broker_SetSessionInfoToBuffer (env_api E) (br_keys B) rudpServerIP
                            (serverPort (s_socketContext s)) (s_sessionId s)
                            (sessionKey (s_cryptoContext s)) (sessionSalt (s_cryptoContext s)) (code_buffer code);
                 (now, w3) = ask (env_tickCount E) w2
             in (Some i, buffer, upd_session i (\<lambda>s. s\<lparr> s_sessionReservedTime := now \<rparr>) w3))
          else (Some i, code_buffer code,
                if Session_IsReserved (get_session i w2) then Session_AbortReservedSession E i w2
                else Session_DoDisconnect E BY_ERROR i w2))"

text \<open>\<open>SendAll\<close> ends with an error or when everything is sent; a \<open>send\<close> that takes nothing
  leaves it in the loop. The bytes taken so far are part of the result.\<close>

partial_function (option) SendAll_loop ::
    "(nat \<Rightarrow> byte list \<Rightarrow> int) \<Rightarrow> byte list \<Rightarrow> nat \<Rightarrow> nat \<Rightarrow> (bool \<times> byte list \<times> nat) option" where
  "SendAll_loop send_call sendBuffer sent query =
     (if sent < length sendBuffer then
        let ret = send_call query (drop sent sendBuffer) in
        if ret = -1 then Some (False, take sent sendBuffer, Suc query)
        else SendAll_loop send_call sendBuffer (sent + nat ret) (Suc query)
      else Some (True, sendBuffer, query))"

definition Broker_SendAll :: "'k BrokerEnv \<Rightarrow> byte list \<Rightarrow> 'k World \<Rightarrow> (bool \<times> byte list \<times> 'k World) option" where
  "Broker_SendAll B sendBuffer w =
     (case SendAll_loop (br_send B) sendBuffer 0 (w_query w) of
        None \<Rightarrow> None
      | Some (ok, out, query) \<Rightarrow> Some (ok, out, w\<lparr> w_query := query \<rparr>))"

text \<open>After the close notification the code waits until the client closes; what it receives is
  not used.\<close>

definition Broker_SendSessionInfoToClient ::
    "'k Env \<Rightarrow> 'k BrokerEnv \<Rightarrow> NetBuffer \<Rightarrow> 'k World \<Rightarrow> (bool \<times> byte list \<times> 'k World) option" where
  "Broker_SendSessionInfoToClient E B sendBuffer w =
     (let b = SetHeader (env_api E) 0 sendBuffer;
          (encrypted, w1) = ask (\<lambda>q. br_EncryptData B q
             (take (nb_GetAllUseSize (env_api E) b) (nb_GetBufferPtr (env_api E) b))) w
      in case encrypted of
           None \<Rightarrow> Some (False, [], w1)
         | Some bytes \<Rightarrow>
             (case Broker_SendAll B bytes w1 of
                None \<Rightarrow> None
              | Some (False, out, w2) \<Rightarrow> Some (False, out, w2)
              | Some (True, out, w2) \<Rightarrow>
                  (case ask (br_EncryptCloseNotify B) w2 of
                     (None, w3) \<Rightarrow> Some (True, out, w3)
                   | (Some notify, w3) \<Rightarrow>
                       (case Broker_SendAll B notify w3 of
                          None \<Rightarrow> None
                        | Some (sent, out2, w4) \<Rightarrow> Some (sent, out @ out2, w4)))))"

definition Broker_HandleClientConnection ::
    "'k Env \<Rightarrow> 'k BrokerEnv \<Rightarrow> byte list \<Rightarrow> 'k World \<Rightarrow> (byte list \<times> 'k World) option" where
  "Broker_HandleClientConnection E B rudpSessionIP w =
     (let (ready, w1) = ask (br_tlsInitialize B) w in
      if \<not> ready then Some ([], w1)
      else let (shaken, w2) = ask (br_tlsHandshake B) w1 in
        if \<not> shaken then Some ([], w2)
        else let (session, sendBuffer, w3) = Broker_ReserveSession E B rudpSessionIP w2 in
          case Broker_SendSessionInfoToClient E B sendBuffer w3 of
            None \<Rightarrow> None
          | Some (ok, out, w4) \<Rightarrow>
              Some (out, if \<not> ok then (case session of
                                         None \<Rightarrow> w4
                                       | Some i \<Rightarrow> Session_AbortReservedSession E i w4)
                         else w4))"

section \<open>Sending everything\<close>

text \<open>What the documentation of \<open>send\<close> says of a blocking stream socket.\<close>

definition send_law :: "(nat \<Rightarrow> byte list \<Rightarrow> int) \<Rightarrow> bool" where
  "send_law send_call \<longleftrightarrow>
     (\<forall>query bs. bs \<noteq> [] \<longrightarrow> send_call query bs = -1 \<or> 0 < send_call query bs \<and> send_call query bs \<le> int (length bs))"

lemma SendAll_loop_ends:
  assumes "send_law send_call" "sent \<le> length bs"
  shows "\<exists>ok k query'. SendAll_loop send_call bs sent query = Some (ok, take k bs, query') \<and>
    (ok \<longrightarrow> take k bs = bs) \<and> query' \<le> query + (length bs - sent)"
  using assms(2)
proof (induction "length bs - sent" arbitrary: sent query rule: less_induct)
  case less
  note unroll = SendAll_loop.simps [of send_call bs sent query]
  show ?case
  proof (cases "sent < length bs")
    case True
    let ?r = "send_call query (drop sent bs)"
    from True have "drop sent bs \<noteq> []" by simp
    then have r: "?r = -1 \<or> 0 < ?r \<and> ?r \<le> int (length bs - sent)"
      using assms(1) unfolding send_law_def by (metis length_drop)
    show ?thesis
    proof (cases "?r = -1")
      case True
      with \<open>sent < length bs\<close> have "SendAll_loop send_call bs sent query = Some (False, take sent bs, Suc query)"
        by (simp add: unroll)
      with \<open>sent < length bs\<close> show ?thesis
        by (intro exI [of _ False] exI [of _ sent] exI [of _ "Suc query"]) simp
    next
      case False
      then have n: "0 < nat ?r" "nat ?r \<le> length bs - sent" using r by auto
      have eq: "SendAll_loop send_call bs sent query = SendAll_loop send_call bs (sent + nat ?r) (Suc query)"
        using True False by (simp add: unroll Let_def)
      have d: "length bs - (sent + nat ?r) < length bs - sent" "sent + nat ?r \<le> length bs"
        using n True by linarith+
      from less.hyps [OF d, of "Suc query"] obtain ok k query'
        where k: "SendAll_loop send_call bs (sent + nat ?r) (Suc query) = Some (ok, take k bs, query')"
        "ok \<longrightarrow> take k bs = bs" "query' \<le> Suc query + (length bs - (sent + nat ?r))" by blast
      have "query' \<le> query + (length bs - sent)" using k(3) n True by linarith
      with trans [OF eq k(1)] k(2) show ?thesis by blast
    qed
  next
    case False
    then have "SendAll_loop send_call bs sent query = Some (True, take (length bs) bs, query)" by (simp add: unroll)
    then show ?thesis
      by (intro exI [of _ True] exI [of _ "length bs"] exI [of _ query]) simp
  qed
qed

text \<open>Sending to the client ends: when every call of \<open>send\<close> fails or takes at least one
  byte, the loop returns after at most one call per byte, it has sent a prefix of the
  buffer, and it reports success only when the whole buffer was sent.\<close>

theorem broker_send_all_ends:
  assumes "send_law (br_send B)"
  shows "\<exists>ok k query. Broker_SendAll B bytes w = Some (ok, take k bytes, w\<lparr> w_query := query \<rparr>) \<and>
    (ok \<longrightarrow> take k bytes = bytes) \<and> query \<le> w_query w + length bytes"
proof -
  obtain ok k query where "SendAll_loop (br_send B) bytes 0 (w_query w) = Some (ok, take k bytes, query)"
    "ok \<longrightarrow> take k bytes = bytes" "query \<le> w_query w + (length bytes - 0)"
    using SendAll_loop_ends [OF assms, of 0 bytes "w_query w"] by auto
  then show ?thesis
    by (intro exI [of _ ok] exI [of _ k] exI [of _ query]) (simp add: Broker_SendAll_def)
qed

section \<open>Reserving a session\<close>

lemma frame_upd_crypto: "frame (upd_crypto i f w) = frame w"
  unfolding upd_crypto_def by (rule frame_upd_session_quiet) (simp add: session_frame_def)

lemma world_ok_upd_crypto: "world_ok n m L w \<Longrightarrow> i < n \<Longrightarrow> world_ok n m L (upd_crypto i f w)"
  unfolding upd_crypto_def by (erule (1) world_ok_upd_session_frame) simp_all

lemma frame_InitSessionCrypto:
  assumes "Broker_InitSessionCrypto B i w = (ok, w')"
  shows "frame w' = frame w"
  using assms unfolding Broker_InitSessionCrypto_def Broker_GenerateSessionKey_def Broker_GenerateSaltKey_def
  by (auto simp: frame_upd_crypto Let_def split: prod.splits option.splits if_splits dest!: frame_ask)

lemma world_ok_InitSessionCrypto:
  assumes "Broker_InitSessionCrypto B i w = (ok, w')" "world_ok n m L w" "i < n"
  shows "world_ok n m L w'"
proof -
  have key: "world_ok n m L v" if "Broker_GenerateSessionKey B i u = (r, v)" "world_ok n m L u" for r and u v :: "'a World"
    using that assms(3) unfolding Broker_GenerateSessionKey_def
    by (auto split: prod.splits option.splits intro: world_ok_upd_crypto dest: world_ok_ask)
  have salt: "world_ok n m L v" if "Broker_GenerateSaltKey B i u = (r, v)" "world_ok n m L u" for r and u v :: "'a World"
    using that assms(3) unfolding Broker_GenerateSaltKey_def
    by (auto split: prod.splits option.splits intro: world_ok_upd_crypto dest: world_ok_ask)
  show ?thesis
    using assms key salt unfolding Broker_InitSessionCrypto_def
    by (auto simp: Let_def world_ok_upd_crypto split: prod.splits if_splits)
qed

lemma AbortReserved_result:
  assumes "i < length (w_sessions w)" "sm_state (s_stateMachine (get_session i w)) = RESERVED"
  shows "sm_state (s_stateMachine (get_session i (Session_AbortReservedSession E i w))) = RELEASING"
    "s_disconnectedReason (get_session i (Session_AbortReservedSession E i w)) = BY_ABORT_RESERVED"
  using assms TryAbortReserved_result [of "s_stateMachine (get_session i w)"]
  by (auto simp: Session_AbortReservedSession_def Core_PushToDisconnectTargetSession_def Let_def ask_def
      get_session_def upd_session_def split: prod.splits)

text \<open>What the code does with a session the pool gave out: tell the client and keep it
  reserved, or abort it.\<close>

lemma reserve_code_outcome:
  assumes "Manager_AcquireSession w = (Some i, w1)" "reserve_code E B i w1 = (code, w2)"
    "spec_ok n R Q C (frame w)" "world_ok n m L w"
  shows "spec_ok n R Q C (frame w2)" "world_ok n m L w2" "i < n"
    "code = SUCCESS \<Longrightarrow> sm_state (s_stateMachine (get_session i w2)) = RESERVED"
    "code \<noteq> SUCCESS \<Longrightarrow> sm_state (s_stateMachine (get_session i w2)) \<in> {RESERVED, RELEASING}"
proof -
  obtain rest where a: "i < n" "fr_unused (frame w) = of_nat i # rest"
    "w1 = w\<lparr> w_unusedSessionIdList := rest, w_unusedSessionIdSet := w_unusedSessionIdSet w - {of_nat i} \<rparr>"
    "fr_state (fr_sessions (frame w) ! i) = DISCONNECTED"
    by (rule Acquire_outcome [OF assms(1,3)])
  note len = spec_ok_len [OF assms(3) a(1)]
  have w1: "world_ok n m L w1" unfolding a(3) by (rule world_ok_pool(1) [OF assms(4)])
  have "\<not> Session_IsConnected (get_session i w1)"
    using a(3,4) unfolding frame_nth [OF len]
    by (simp add: session_frame_def Session_IsConnected_def StateMachine_IsConnected_def get_session_def)
  then have init: "Broker_InitReserveSession E i w1 = Core_InitReserveSession E i w1"
    by (simp add: Broker_InitReserveSession_def)
  obtain c v1 where r: "Core_InitReserveSession E i w1 = (c, v1)" by (cases "Core_InitReserveSession E i w1")
  obtain v where v: "life_part (frame v) = life_part (reserve_frame i rest (frame w))" "spec_ok n R Q C (frame v)"
    "c = SUCCESS \<and> v1 = v \<or> c \<noteq> SUCCESS \<and> v1 = Session_AbortReservedSession E i v"
    by (rule InitReserve_outcome [OF r assms(3) a(1,2,3)])
  note lenv = spec_ok_len [OF v(2) a(1)]
  have "fr_state (fr_sessions (reserve_frame i rest (frame w)) ! i) = RESERVED"
    using len by (simp add: reserve_frame_def upd_frame_def)
  then have st: "sm_state (s_stateMachine (get_session i v)) = RESERVED"
    using life_part_nth(1) [OF v(1), of i] len unfolding frame_nth [OF lenv]
    by (simp add: session_frame_def reserve_frame_def upd_frame_def)
  note ab = AbortReserved_result [OF lenv st, of E]
  have w2: "world_ok n m L v1" by (rule world_ok_InitReserveSession [OF r w1 a(1)])
  have sv1: "spec_ok n R Q C (frame v1)"
    using v(2,3) spec_ok_evolves [OF evolves_AbortReserved [OF lenv] v(2), of E] by auto
  obtain ok v2 where k: "Broker_InitSessionCrypto B i v1 = (ok, v2)" by (cases "Broker_InitSessionCrypto B i v1")
  note f2 = frame_InitSessionCrypto [OF k]
  have res: "code = (if c \<noteq> SUCCESS then c else if ok then SUCCESS else SESSION_KEY_GENERATION_FAILED)"
    "w2 = (if c \<noteq> SUCCESS then v1 else v2)"
    using assms(2) init r k by (auto simp: reserve_code_def split: if_splits)
  show s2: "spec_ok n R Q C (frame w2)" using res(2) sv1 f2 by simp
  show "world_ok n m L w2" using res(2) w2 world_ok_InitSessionCrypto [OF k w2 a(1)] by simp
  show "i < n" by (rule a(1))
  have "frame w2 = frame v1" using res(2) f2 by simp
  then have same: "sm_state (s_stateMachine (get_session i w2)) = sm_state (s_stateMachine (get_session i v1))"
    using frame_nth [OF spec_ok_len [OF s2 a(1)]] frame_nth [OF spec_ok_len [OF sv1 a(1)]]
    by (simp add: session_frame_def)
  show "code = SUCCESS \<Longrightarrow> sm_state (s_stateMachine (get_session i w2)) = RESERVED"
    "code \<noteq> SUCCESS \<Longrightarrow> sm_state (s_stateMachine (get_session i w2)) \<in> {RESERVED, RELEASING}"
    using v(3) st ab(1) res(1) unfolding same by (auto split: if_splits)
qed

lemma Broker_ReserveSession_ok:
  assumes "Broker_ReserveSession E B ip w = (r, b, w')" "spec_ok n R Q C (frame w)" "world_ok n m L w"
  shows "spec_ok n R Q C (frame w')" "world_ok n m L w'" "r = Some i \<Longrightarrow> i < n"
proof -
  obtain s w1 where acq: "Manager_AcquireSession w = (s, w1)" by (cases "Manager_AcquireSession w")
  show "spec_ok n R Q C (frame w')" "world_ok n m L w'" "r = Some i \<Longrightarrow> i < n"
  proof (atomize (full), cases s)
    case None
    then have "w1 = w" using acq by (auto simp: Manager_AcquireSession_def split: if_splits list.splits)
    then show "spec_ok n R Q C (frame w') \<and> world_ok n m L w' \<and> (r = Some i \<longrightarrow> i < n)"
      using assms None acq by (simp add: Broker_ReserveSession_def Let_def)
  next
    case (Some j)
    obtain code w2 where c: "reserve_code E B j w1 = (code, w2)" by (cases "reserve_code E B j w1")
    note o = reserve_code_outcome [OF acq [unfolded Some] c assms(2,3)]
    note len = spec_ok_len [OF o(1,3)]
    obtain now w3 where a: "ask (env_tickCount E) w2 = (now, w3)" by (cases "ask (env_tickCount E) w2")
    let ?w4 = "upd_session j (\<lambda>s. s\<lparr> s_sessionReservedTime := now \<rparr>) w3"
    have "frame ?w4 = frame w2"
      using frame_ask [OF a] frame_upd_session_quiet [of "\<lambda>s. s\<lparr> s_sessionReservedTime := now \<rparr>" j w3]
      by (simp add: session_frame_def)
    then have 4: "spec_ok n R Q C (frame ?w4)" using o(1) by simp
    have w4: "world_ok n m L ?w4" using world_ok_ask [OF o(2) a] o(3) by (rule world_ok_upd_session_frame) simp_all
    have ab: "spec_ok n R Q C (frame (Session_AbortReservedSession E j w2))"
      "spec_ok n R Q C (frame (Session_DoDisconnect E BY_ERROR j w2))"
      by (rule spec_ok_evolves [OF evolves_AbortReserved [OF len] o(1)],
          rule spec_ok_evolves [OF evolves_DoDisconnect [OF len] o(1)])
    note wab = world_ok_AbortReserved [OF o(2,3), of E] world_ok_DoDisconnect [OF o(2,3), of E BY_ERROR]
    show "spec_ok n R Q C (frame w') \<and> world_ok n m L w' \<and> (r = Some i \<longrightarrow> i < n)"
      using assms(1) Some acq c a 4 w4 ab wab o(3)
      by (auto simp: Broker_ReserveSession_def Let_def split: if_splits)
  qed
qed

lemma InitSessionCrypto_key:
  assumes "Broker_InitSessionCrypto B i w = (True, w')" "i < length (w_sessions w)"
  shows "sessionKeyHandle (s_cryptoContext (get_session i w'))
      = CryptoHelper_GetSymmetricKeyHandle (br_keys B) (sessionKey (s_cryptoContext (get_session i w')))"
    "sessionKeyHandle (s_cryptoContext (get_session i w')) \<noteq> None"
proof -
  have len: "i < length (w_sessions w')"
    using frame_InitSessionCrypto [OF assms(1)] assms(2) by (metis frame_sessions length_map)
  obtain u where u: "CryptoHelper_GetSymmetricKeyHandle (br_keys B) (sessionKey (s_cryptoContext (get_session i u))) \<noteq> None"
    "w' = upd_crypto i (\<lambda>c. c\<lparr> sessionKeyHandle :=
       CryptoHelper_GetSymmetricKeyHandle (br_keys B) (sessionKey (s_cryptoContext (get_session i u))) \<rparr>) u"
    using assms(1) unfolding Broker_InitSessionCrypto_def Let_def by (auto split: prod.splits if_splits simp del: not_None_eq)
  have "i < length (w_sessions u)" using len unfolding u(2) by (simp add: upd_crypto_def upd_session_def)
  with u show "sessionKeyHandle (s_cryptoContext (get_session i w'))
      = CryptoHelper_GetSymmetricKeyHandle (br_keys B) (sessionKey (s_cryptoContext (get_session i w')))"
    "sessionKeyHandle (s_cryptoContext (get_session i w')) \<noteq> None"
    by (simp_all add: upd_crypto_def upd_session_def get_session_def)
qed

text \<open>C16: The broker leaks no session. When it takes a session out of the pool, either the
  session stays RESERVED with the symmetric key handle of exactly the key and salt that the
  message to the client carries, or the client is told an error code and the session is
  RELEASING and on the list of the release thread.\<close>

theorem broker_reserve_outcome:
  assumes "Broker_ReserveSession E B ip w = (Some i, buffer, w')" "world_ok n m {#} w" "spec_ok n [] [] [] (frame w)"
  shows "(sm_state (s_stateMachine (get_session i w')) = RESERVED \<and>
      sessionKeyHandle (s_cryptoContext (get_session i w'))
        = CryptoHelper_GetSymmetricKeyHandle (br_keys B) (sessionKey (s_cryptoContext (get_session i w'))) \<and>
      sessionKeyHandle (s_cryptoContext (get_session i w')) \<noteq> None \<and>
      buffer = Broker_SetSessionInfoToBuffer (env_api E) (br_keys B) ip
        (serverPort (s_socketContext (get_session i w'))) (s_sessionId (get_session i w'))
        (sessionKey (s_cryptoContext (get_session i w'))) (sessionSalt (s_cryptoContext (get_session i w')))
        (nb_write (env_api E) [CONNECT_RESULT_CODE_byte SUCCESS] (br_initBuffer B))) \<or>
    (sm_state (s_stateMachine (get_session i w')) = RELEASING \<and> of_nat i \<in> set (w_releaseSessionIdList w') \<and>
      (\<exists>code. code \<noteq> SUCCESS \<and> buffer = nb_write (env_api E) [CONNECT_RESULT_CODE_byte code] (br_initBuffer B)))"
proof -
  obtain w1 where acq: "Manager_AcquireSession w = (Some i, w1)"
    using assms(1) by (auto simp: Broker_ReserveSession_def Let_def split: prod.splits option.splits if_splits)
  obtain code w2 where c: "reserve_code E B i w1 = (code, w2)" by (cases "reserve_code E B i w1")
  note o = reserve_code_outcome [OF acq c assms(3,2)]
  note len = spec_ok_len [OF o(1,3)]
  show ?thesis
  proof (cases "code = SUCCESS")
    case True
    obtain v where v: "Broker_InitSessionCrypto B i v = (True, w2)" "i < length (w_sessions v)"
    proof -
      obtain v ok where v: "Broker_InitSessionCrypto B i v = (ok, w2)" "ok"
        using c True unfolding reserve_code_def Let_def by (auto split: prod.splits if_splits)
      moreover have "length (w_sessions w2) = length (w_sessions v)"
        using frame_InitSessionCrypto [OF v(1)] by (metis frame_sessions length_map)
      ultimately show thesis using that len by simp
    qed
    obtain now w3 where a: "ask (env_tickCount E) w2 = (now, w3)" by (cases "ask (env_tickCount E) w2")
    then have s3: "w_sessions w3 = w_sessions w2" by (auto simp: ask_def)
    have w': "w' = upd_session i (\<lambda>s. s\<lparr> s_sessionReservedTime := now \<rparr>) w3"
      and buf: "buffer = Broker_SetSessionInfoToBuffer (env_api E) (br_keys B) ip
        (serverPort (s_socketContext (get_session i w2))) (s_sessionId (get_session i w2))
        (sessionKey (s_cryptoContext (get_session i w2))) (sessionSalt (s_cryptoContext (get_session i w2)))
        (nb_write (env_api E) [CONNECT_RESULT_CODE_byte SUCCESS] (br_initBuffer B))"
      using assms(1) acq c True a by (simp_all add: Broker_ReserveSession_def Let_def)
    have "get_session i w' = (get_session i w2)\<lparr> s_sessionReservedTime := now \<rparr>"
      using len s3 by (simp add: w' upd_session_def get_session_def)
    then show ?thesis using InitSessionCrypto_key [OF v] o(4) [OF True] buf by simp
  next
    case False
    have w': "w' = (if Session_IsReserved (get_session i w2) then Session_AbortReservedSession E i w2
                else Session_DoDisconnect E BY_ERROR i w2)"
      and buf: "buffer = nb_write (env_api E) [CONNECT_RESULT_CODE_byte code] (br_initBuffer B)"
      using assms(1) acq c False by (simp_all add: Broker_ReserveSession_def Let_def)
    have st: "sm_state (s_stateMachine (get_session i w')) = RELEASING"
    proof (cases "sm_state (s_stateMachine (get_session i w2)) = RESERVED")
      case True
      then show ?thesis
        using AbortReserved_result(1) [OF len, of E] by (simp add: w' Session_IsReserved_def StateMachine_IsReserved_def)
    next
      case False
      then show ?thesis
        using o(5) [OF \<open>code \<noteq> SUCCESS\<close>] len
        by (simp add: w' Session_IsReserved_def StateMachine_IsReserved_def Session_DoDisconnect_def
          StateMachine_TryTransitionToReleasing_def cas_def get_session_def upd_session_def)
    qed
    note ok = Broker_ReserveSession_ok(1) [OF assms(1,3,2)]
    have life: "life_ok n [] (frame w')" using ok by (simp add: spec_ok_def)
    have "count_list (w_releaseSessionIdList w') (of_nat i) \<noteq> 0"
      using life_okD(6) [OF life o(3)] st frame_nth [OF spec_ok_len [OF ok o(3)]] frame_release [of w']
      by (simp add: session_frame_def del: frame_sessions)
    then have "of_nat i \<in> set (w_releaseSessionIdList w')" by (simp add: count_list_0_iff)
    then show ?thesis using st buf False by blast
  qed
qed

text \<open>Sending only asks the outside.\<close>

lemma SendAll_world: "Broker_SendAll B bs w = Some (ok, out, w') \<Longrightarrow> \<exists>q. w' = w\<lparr> w_query := q \<rparr>"
  by (auto simp: Broker_SendAll_def split: option.splits)

lemma SendSessionInfo_world:
  assumes "Broker_SendSessionInfoToClient E B b w = Some (ok, out, w')"
  shows "\<exists>q. w' = w\<lparr> w_query := q \<rparr>"
  using assms unfolding Broker_SendSessionInfoToClient_def
  by (auto simp: Let_def ask_def split: option.splits prod.splits bool.splits if_splits dest!: SendAll_world)

lemma world_ok_query: "world_ok n m L (w\<lparr> w_query := q \<rparr>) = world_ok n m L w"
  by (simp add: world_ok_def holders_def)

lemma HandleClientConnection_ok:
  assumes "Broker_HandleClientConnection E B ip w = Some (out, w')" "spec_ok n R Q C (frame w)" "world_ok n m L w"
  shows "spec_ok n R Q C (frame w') \<and> world_ok n m L w'"
proof -
  have q: "spec_ok n R Q C (frame (v\<lparr> w_query := k \<rparr>)) = spec_ok n R Q C (frame v)" for k and v :: "'a World" by simp
  obtain r1 w1 where a1: "ask (br_tlsInitialize B) w = (r1, w1)" by (cases "ask (br_tlsInitialize B) w")
  obtain r2 w2 where a2: "ask (br_tlsHandshake B) w1 = (r2, w2)" by (cases "ask (br_tlsHandshake B) w1")
  have s: "spec_ok n R Q C (frame w1)" "spec_ok n R Q C (frame w2)" "world_ok n m L w1" "world_ok n m L w2"
    using assms(2,3) frame_ask [OF a1] frame_ask [OF a2] world_ok_ask [OF _ a1] world_ok_ask [OF _ a2] by simp_all
  obtain r b w3 where c: "Broker_ReserveSession E B ip w2 = (r, b, w3)" by (cases "Broker_ReserveSession E B ip w2") auto
  note o = Broker_ReserveSession_ok [OF c s(2,4)]
  have fin: "spec_ok n R Q C (frame v) \<and> world_ok n m L v \<and>
      (r = Some i \<longrightarrow> spec_ok n R Q C (frame (Session_AbortReservedSession E i v)) \<and>
         world_ok n m L (Session_AbortReservedSession E i v))"
    if v: "Broker_SendSessionInfoToClient E B b w3 = Some (ok, out1, v)" for ok out1 v i
  proof -
    obtain k where "v = w3\<lparr> w_query := k \<rparr>" using SendSessionInfo_world [OF v] by blast
    then have "spec_ok n R Q C (frame v)" "world_ok n m L v" using o(1,2) by (simp_all add: world_ok_query)
    then show ?thesis
      using o(3) spec_ok_evolves [OF evolves_AbortReserved] spec_ok_len world_ok_AbortReserved by blast
  qed
  show ?thesis
    using assms(1) a1 a2 c s fin unfolding Broker_HandleClientConnection_def
    by (auto simp: Let_def split: if_splits option.splits prod.splits)
qed

section \<open>A server with one session\<close>

definition sample_broker :: "unit BrokerEnv" where
  "sample_broker = \<lparr> br_keys = documented_keys, br_initBuffer = nb_Alloc documented_api,
     br_tlsInitialize = (\<lambda>_. True), br_tlsHandshake = (\<lambda>_. True), br_EncryptData = (\<lambda>_. Some),
     br_EncryptCloseNotify = (\<lambda>_. Some [21]), br_send = (\<lambda>_ _. 1) \<rparr>"

theorem broker_send_all_ends_witness:
  "\<exists>ok k query. Broker_SendAll sample_broker [1, 2, 3] (sample_world [])
     = Some (ok, take k [1, 2, 3], (sample_world [])\<lparr> w_query := query \<rparr>) \<and> query \<le> 3"
proof -
  have "send_law (br_send sample_broker)" by (simp add: send_law_def sample_broker_def Suc_le_eq)
  from broker_send_all_ends [OF this, of "[1, 2, 3]" "sample_world []"] show ?thesis
    by (force simp: sample_world_def)
qed

definition sample_server :: "SESSION_STATE \<Rightarrow> unit World" where
  "sample_server st = (sample_world [])\<lparr>
     w_sessions := [(sample_session [])\<lparr> s_stateMachine := \<lparr> sm_state = st \<rparr>, s_nowInReleaseThread := st = RELEASING \<rparr>],
     w_unusedSessionIdList := (if st = DISCONNECTED then [0] else []),
     w_unusedSessionIdSet := (if st = DISCONNECTED then {0} else {}),
     w_releaseSessionIdList := (if st = RELEASING then [0] else []) \<rparr>"

lemma sample_server_ok:
  "world_ok 1 1 {#} (sample_server st)" "spec_ok 1 [] [] [] (frame (sample_server st))"
proof -
  have "world_ok 1 1 {#} (sample_world [])" by (rule sample_world_ok(1)) simp
  then show "world_ok 1 1 {#} (sample_server st)"
    by (simp add: world_ok_def sample_server_def sample_world_def sample_session_def session_wf_def
        holders_def session_holders_def)
  show "spec_ok 1 [] [] [] (frame (sample_server st))"
    by (simp add: spec_ok_def life_ok_def barrier_ok_def session_ok_def sample_server_def sample_world_def
        sample_session_def frame_def session_frame_def SendContext_new_def)
qed

theorem broker_reserve_outcome_witness:
  "\<exists>b w. Broker_ReserveSession sample_env sample_broker [49] (sample_server DISCONNECTED) = (Some 0, b, w) \<and>
     sm_state (s_stateMachine (get_session 0 w)) \<in> {RESERVED, RELEASING}"
proof -
  obtain r b w where res: "Broker_ReserveSession sample_env sample_broker [49] (sample_server DISCONNECTED) = (r, b, w)"
    by (cases "Broker_ReserveSession sample_env sample_broker [49] (sample_server DISCONNECTED)") auto
  have "r = Some 0"
    using res by (simp add: Broker_ReserveSession_def Let_def Manager_AcquireSession_def sample_server_def
        sample_world_def split: prod.splits if_splits)
  with res broker_reserve_outcome [of sample_env sample_broker "[49]" "sample_server DISCONNECTED" 0 b w]
  show ?thesis using sample_server_ok by auto
qed

end
