(* ===== verification/Server_System.thy ===== *)
theory Server_System
  imports Session_Broker
begin

text \<open>
  The server as a whole: the threads of MultiSocketRUDPCore and the calls of the content are
  the steps of one relation on the state of the server (\<open>server_step\<close>), and a fresh pool
  (\<open>Manager_Initialize\<close>) is where its runs start. What holds of every reachable state is the
  subject of the properties.
\<close>

section \<open>The step relation\<close>

text \<open>A completion RIO has is taken out and handled by a worker, in any order. The release
  round is bounded by what fits the counter of waiting datagrams.\<close>

inductive server_step :: "'k Env \<Rightarrow> 'k BrokerEnv \<Rightarrow> nat \<Rightarrow> nat \<Rightarrow> 'k World \<Rightarrow> 'k World \<Rightarrow> bool"
  for E B n m where
  step_completion:
    "w_posted w = ps @ p # qs \<Longrightarrow> unat threadId < m \<Longrightarrow>
     IOHandler_IOCompleted E p data addr threadId status (w\<lparr> w_posted := ps @ qs \<rparr>) = (r, w') \<Longrightarrow>
     server_step E B n m w w'"
| step_receive: "unat threadId < m \<Longrightarrow> server_step E B n m w (Core_OnRecvPacket E threadId w)"
| step_retransmission: "unat threadId < m \<Longrightarrow> server_step E B n m w (Core_RetransmissionRound E threadId w)"
| step_heartbeat: "server_step E B n m w (Manager_HeartbeatCheck E now w)"
| step_release:
    "length (concat (w_recvIOCompletedContexts w)) < 2 ^ 32 \<Longrightarrow>
     server_step E B n m w (Core_SessionReleaseRound E w)"
| step_broker:
    "Broker_HandleClientConnection E B ip w = Some (out, w') \<Longrightarrow> server_step E B n m w w'"
| step_send: "i < n \<Longrightarrow> Session_SendPacket E i packetId body w = (ok, w') \<Longrightarrow> server_step E B n m w w'"
| step_disconnect: "i < n \<Longrightarrow> server_step E B n m w (Session_DoDisconnect E reason i w)"
| step_close: "server_step E B n m w (Manager_CloseAllSessions E w)"

inductive_cases server_stepE: "server_step E B n m w w'"

section \<open>The invariant\<close>

definition server_ok :: "nat \<Rightarrow> nat \<Rightarrow> 'k World \<Rightarrow> bool" where
  "server_ok n m w \<longleftrightarrow> world_ok n m {#} w \<and> spec_ok n [] [] [] (frame w)"

lemma server_ok_evolves:
  "server_ok n m w \<Longrightarrow> evolves w w' \<Longrightarrow> world_ok n m {#} w' \<Longrightarrow> server_ok n m w'"
  by (auto simp: server_ok_def intro: spec_ok_evolves)

lemma posted_count_move:
  "mset (posted_slots i (ps @ p # qs)) = mset (posted_slots i ([p] @ ps @ qs))"
  "posted_sends i (ps @ p # qs) = posted_sends i ([p] @ ps @ qs)"
  by (cases p; simp)+

lemma session_ok_perm:
  assumes "session_ok i K S q s" "mset K = mset K'"
  shows "session_ok i K' S q s"
proof -
  have "set K' = set K" "length K' = length K"
    using mset_eq_setD [OF assms(2)] mset_eq_length [OF assms(2)] by simp_all
  moreover have "K' = [] \<longleftrightarrow> K = []" using \<open>length K' = length K\<close> by (metis length_0_conv)
  moreover have "distinct (K' @ l) = distinct (K @ l)" for l
    using assms(2) by (intro mset_eq_imp_distinct_iff) simp
  ultimately show ?thesis using assms(1) by (simp add: session_ok_def del: distinct_append)
qed

lemma barrier_ok_take:
  assumes "barrier_ok n [] C f" "fr_posted f = ps @ p # qs"
  shows "barrier_ok n [p] C (f\<lparr> fr_posted := ps @ qs \<rparr>)"
proof -
  let ?f = "f\<lparr> fr_posted := ps @ qs \<rparr>"
  have cur: "posted_current n ?f = posted_current n f" "received_current n ?f = received_current n f"
    by (intro ext; simp add: posted_current_def current_send_def received_current_def split: posted.split)+
  have "session_ok i (posted_slots i ([p] @ ps @ qs)) (posted_sends i ([p] @ ps @ qs))
      (queued i (C @ concat (fr_queues f))) (fr_sessions f ! i)" if "i < n" for i
    using session_ok_perm [OF _ posted_count_move(1)] barrier_okD(4) [OF assms(1) that] assms(2)
      posted_count_move(2) [of i ps p qs] by simp
  then show ?thesis
    using assms barrier_okD(1-3) [OF assms(1)] unfolding barrier_ok_def cur by (auto simp del: posted_slots_append posted_sends_append)
qed

lemma server_ok_take:
  assumes "server_ok n m w" "w_posted w = ps @ p # qs"
  shows "world_ok n m {#} (w\<lparr> w_posted := ps @ qs \<rparr>)" "spec_ok n [] [p] [] (frame (w\<lparr> w_posted := ps @ qs \<rparr>))"
proof -
  show "world_ok n m {#} (w\<lparr> w_posted := ps @ qs \<rparr>)"
    using assms(1) by (intro world_ok_posted) (simp add: server_ok_def)
  have p: "fr_posted (frame w) = ps @ p # qs" using assms(2) by (simp add: frame_def)
  have "spec_ok n [] [] [] (frame w)" using assms(1) by (simp add: server_ok_def)
  then show "spec_ok n [] [p] [] (frame (w\<lparr> w_posted := ps @ qs \<rparr>))"
    unfolding frame_posted(2) by (rule spec_ok_barrier) (simp, erule barrier_ok_take [OF _ p])
qed

lemma server_step_ok:
  assumes "server_step E B n m w w'" "env_ok E n m" "server_ok n m w"
  shows "server_ok n m w'"
  using assms(1)
proof cases
  case (step_completion ps p qs threadId data addr status r)
  note t = server_ok_take [OF assms(3) step_completion(1)]
  have len: "unat threadId < length (w_recvIOCompletedContexts (w\<lparr> w_posted := ps @ qs \<rparr>))"
    using world_okD(8) [OF t(1)] step_completion(2) by simp
  show ?thesis
    using world_ok_IOCompleted [OF step_completion(3) t(1) spec_posted(1) [OF t(2)] step_completion(2)]
      spec_IOCompleted [OF step_completion(3) t(2) len] by (simp add: server_ok_def)
next
  case (step_receive threadId)
  then show ?thesis
    using assms(3) spec_recv_loop [of n "[]" "[]" "[]" w m "{#}" E threadId] assms(2)
    by (simp add: server_ok_def Core_OnRecvPacket_def)
next
  case (step_retransmission threadId)
  have w: "world_ok n m {#} w" using assms(3) by (simp add: server_ok_def)
  show ?thesis
    unfolding step_retransmission(1)
    by (rule server_ok_evolves [OF assms(3) evolves_RetransmissionRound [OF w step_retransmission(2)]])
       (rule world_ok_RetransmissionRound [OF w step_retransmission(2)])
next
  case (step_heartbeat now)
  have w: "world_ok n m {#} w" using assms(3) by (simp add: server_ok_def)
  show ?thesis
    unfolding step_heartbeat
    by (rule server_ok_evolves [OF assms(3) evolves_HeartbeatCheck [OF w env_okD(1) [OF assms(2)]]])
       (rule world_ok_HeartbeatCheck [OF w env_okD(1) [OF assms(2)]])
next
  case step_release
  have w: "world_ok n m {#} w" using assms(3) by (simp add: server_ok_def)
  show ?thesis
    unfolding step_release(1)
    using world_ok_SessionReleaseRound [OF w env_okD(2) [OF assms(2)]] spec_ReleaseRound [OF w assms(2)]
      assms(3) step_release(2) by (simp add: server_ok_def frame_def)
next
  case (step_broker ip out)
  show ?thesis
    using HandleClientConnection_ok [OF step_broker, of n "[]" "[]" "[]" m "{#}"] assms(3) by (simp add: server_ok_def)
next
  case (step_send i packetId body ok)
  have w: "world_ok n m {#} w" using assms(3) by (simp add: server_ok_def)
  show ?thesis
    by (rule server_ok_evolves [OF assms(3) evolves_SendPacket [OF step_send(2) w step_send(1)]])
       (rule world_ok_SendPacket [OF step_send(2) w step_send(1) env_okD(1) [OF assms(2)]])
next
  case (step_disconnect i reason)
  have w: "world_ok n m {#} w" using assms(3) by (simp add: server_ok_def)
  show ?thesis
    unfolding step_disconnect(1)
    by (rule server_ok_evolves [OF assms(3) evolves_DoDisconnect [OF world_ok_len [OF w step_disconnect(2)]]])
       (rule world_ok_DoDisconnect [OF w step_disconnect(2)])
next
  case step_close
  have w: "world_ok n m {#} w" using assms(3) by (simp add: server_ok_def)
  show ?thesis
    unfolding step_close by (rule server_ok_evolves [OF assms(3) evolves_CloseAllSessions [OF w]])
      (rule world_ok_CloseAllSessions [OF w])
qed

definition server_run :: "'k Env \<Rightarrow> 'k BrokerEnv \<Rightarrow> nat \<Rightarrow> nat \<Rightarrow> 'k World \<Rightarrow> 'k World \<Rightarrow> bool" where
  "server_run E B n m = (server_step E B n m)\<^sup>*\<^sup>*"

lemma server_run_ok:
  assumes "server_run E B n m w w'" "env_ok E n m" "server_ok n m w"
  shows "server_ok n m w'"
  using assms(1) unfolding server_run_def
  by (induction rule: rtranclp_induct) (auto intro: server_step_ok [OF _ assms(2)] assms(3))

section \<open>A fresh pool\<close>

text \<open>What the factory of the content makes: a session with empty queues and an empty receive
  buffer. Before its pool is made the server has nothing posted and no descriptors.\<close>

definition new_session :: "'k Session \<Rightarrow> bool" where
  "new_session s \<longleftrightarrow>
     sc_wf (s_sendContext s) \<and> length (sc_rioSendBuffer (s_sendContext s)) = MAX_SEND_BUFFER_SIZE \<and>
     sc_holders (s_sendContext s) = {#} \<and>
     s_recvBuffer s = \<lparr> slots = [], freeRecvContexts = [], outstandingRecvIo = 0, pendingRecvLogic = 0 \<rparr>"

definition bare_server :: "nat \<Rightarrow> 'k World \<Rightarrow> bool" where
  "bare_server m w \<longleftrightarrow>
     \<not> w_isInitialized w \<and> \<not> w_fault w \<and> w_store w = \<lparr> spi_mem = (\<lambda>_. None), spi_fault = False \<rparr> \<and>
     w_schedulers w = replicate m [] \<and> w_recvIOCompletedContexts w = replicate m [] \<and>
     w_posted w = [] \<and> w_releaseSessionIdList w = []"

lemma sum_list_empties: "sum_list (replicate m {#}) = {#}"
  by (induction m) simp_all

lemma bare_world_ok:
  assumes "bare_server m w"
  shows "world_ok 0 m {#} (w\<lparr> w_sessions := [], w_unusedSessionIdList := l, w_unusedSessionIdSet := S \<rparr>)"
  using assms
  by (simp add: sum_list_empties bare_server_def world_ok_def holders_def session_holders_def scheduler_holders_def refs_ok_def exact_def)

text \<open>One more session at the end of the list.\<close>

lemma world_ok_append:
  assumes "world_ok k m L w" "new_session s" "unat (s_threadId s) < m"
  shows "world_ok (Suc k) m L (w\<lparr> w_sessions := w_sessions w @ [s] \<rparr>)"
proof -
  have "session_wf m s" using assms(2,3) by (simp add: session_wf_def new_session_def)
  moreover have "info_wf k i \<Longrightarrow> info_wf (Suc k) i" for i by (auto simp: info_wf_def)
  moreover have "holders (w\<lparr> w_sessions := w_sessions w @ [s] \<rparr>) = holders w"
    using assms(2) by (simp add: holders_def session_holders_def new_session_def)
  ultimately show ?thesis using assms(1) by (auto simp: world_ok_def)
qed

definition made :: "nat \<Rightarrow> nat \<Rightarrow> 'k World \<Rightarrow> bool" where
  "made k m w \<longleftrightarrow> world_ok k m {#} w \<and> life_ok k [] (frame w) \<and> barrier_ok k [] [] (frame w) \<and>
     w_posted w = [] \<and> concat (w_recvIOCompletedContexts w) = []"

lemma life_ok_append:
  assumes "life_ok k [] f" "k < 65535" "fr_id s = of_nat k" "fr_state s = DISCONNECTED" "\<not> fr_releasing s"
  shows "life_ok (Suc k) [] (f\<lparr> fr_sessions := fr_sessions f @ [s], fr_unused := fr_unused f @ [of_nat k],
      fr_unusedSet := insert (of_nat k) (fr_unusedSet f) \<rparr>)"
proof -
  note D = life_okD [OF assms(1)]
  have new: "(of_nat k :: SessionIdType) \<noteq> of_nat j" if "j < k" for j
    using of_nat_id_eq [of k j] assms(2) that by simp
  have out: "of_nat k \<notin> set (fr_unused f) \<union> set (fr_release f)"
    using D(8) [of "of_nat k"] new by auto
  have ids: "set (fr_unused f) \<union> set ([] @ fr_release f) \<subseteq> of_nat ` {..<k}"
    using assms(1) unfolding life_ok_def by blast
  have sub: "of_nat ` {..<k} \<subseteq> (of_nat ` {..<Suc k} :: SessionIdType set)" by auto
  have all: "set (fr_unused f @ [of_nat k]) \<union> set ([] @ fr_release f) \<subseteq> of_nat ` {..<Suc k}"
    using subset_trans [OF ids sub] by auto
  have "count_list (fr_unused f) (of_nat k) = 0" "count_list (fr_release f) (of_nat k) = 0"
    using out by (simp_all add: count_list_0_iff)
  then show ?thesis
    using D(1,2) D(3-6) D(7) assms(2-5) new all
    by (auto simp: life_ok_def nth_append less_Suc_eq)
qed

lemma barrier_ok_append:
  assumes "barrier_ok k [] [] f" "fr_posted f = []" "concat (fr_queues f) = []"
    "fr_recvBuffer s = \<lparr> slots = [], freeRecvContexts = [], outstandingRecvIo = 0, pendingRecvLogic = 0 \<rparr>"
    "fr_ioMode s = IO_NONE_SENDING"
  shows "barrier_ok (Suc k) [] [] (f\<lparr> fr_sessions := fr_sessions f @ [s], fr_unused := u, fr_unusedSet := S \<rparr>)"
  using assms by (auto simp: barrier_ok_def nth_append less_Suc_eq session_ok_def simp del: concat_eq_Nil_conv)

lemma made_append:
  assumes "made k m w" "new_session s" "k < 65535" "unat (s_threadId s) < m" "s_sessionId s = of_nat k"
    "w1 = Session_InitializeSession E k (w\<lparr> w_sessions := w_sessions w @ [s] \<rparr>)"
  shows "made (Suc k) m (w1\<lparr> w_unusedSessionIdList := w_unusedSessionIdList w1 @ [of_nat k],
      w_unusedSessionIdSet := insert (of_nat k) (w_unusedSessionIdSet w1) \<rparr>)"
proof -
  let ?v = "w\<lparr> w_sessions := w_sessions w @ [s] \<rparr>"
  have w: "world_ok k m {#} w" "length (w_sessions w) = k"
    using assms(1) world_okD(1) [of k m "{#}" w] by (simp_all add: made_def)
  have v: "world_ok (Suc k) m {#} ?v" by (rule world_ok_append [OF w(1) assms(2,4)])
  have w1: "world_ok (Suc k) m {#} w1" unfolding assms(6) by (rule world_ok_InitializeSession [OF v]) simp
  have lists: "w_unusedSessionIdList w1 = w_unusedSessionIdList w" "w_unusedSessionIdSet w1 = w_unusedSessionIdSet w"
    "w_posted w1 = w_posted w" "w_recvIOCompletedContexts w1 = w_recvIOCompletedContexts w"
    unfolding assms(6)
    by (simp_all add: Session_InitializeSession_def Let_def set_send_def upd_session_def split: prod.split)
  have "frame w1 = upd_frame k fresh_frame (frame ?v)"
    unfolding assms(6) by (rule frame_InitializeSession) (simp add: w(2))
  then have f: "frame (w1\<lparr> w_unusedSessionIdList := w_unusedSessionIdList w1 @ [of_nat k],
      w_unusedSessionIdSet := insert (of_nat k) (w_unusedSessionIdSet w1) \<rparr>)
    = (frame w)\<lparr> fr_sessions := fr_sessions (frame w) @ [fresh_frame (session_frame s)],
        fr_unused := fr_unused (frame w) @ [of_nat k], fr_unusedSet := insert (of_nat k) (fr_unusedSet (frame w)) \<rparr>"
    using w(2) lists by (simp add: frame_def upd_frame_def list_update_append nth_append)
  show ?thesis
    unfolding made_def f
  proof (intro conjI)
    show "life_ok (Suc k) [] ((frame w)\<lparr> fr_sessions := fr_sessions (frame w) @ [fresh_frame (session_frame s)],
        fr_unused := fr_unused (frame w) @ [of_nat k], fr_unusedSet := insert (of_nat k) (fr_unusedSet (frame w)) \<rparr>)"
      using assms(1,3,5) by (intro life_ok_append) (simp_all add: made_def fresh_frame_def session_frame_def)
    show "barrier_ok (Suc k) [] [] ((frame w)\<lparr> fr_sessions := fr_sessions (frame w) @ [fresh_frame (session_frame s)],
        fr_unused := fr_unused (frame w) @ [of_nat k], fr_unusedSet := insert (of_nat k) (fr_unusedSet (frame w)) \<rparr>)"
    proof (rule barrier_ok_append)
      show "fr_posted (frame w) = []" "concat (fr_queues (frame w)) = []"
        using assms(1) unfolding made_def frame_def by simp_all
    qed (use assms(1,2) in \<open>simp_all add: made_def fresh_frame_def session_frame_def new_session_def\<close>)
  qed (use w1 lists assms(1) in \<open>simp_all add: made_def world_ok_pool(1) del: concat_eq_Nil_conv\<close>)
qed

lemma create_sessions_made:
  "create_sessions E t factory w = (True, w') \<Longrightarrow> made k (unat t) w \<Longrightarrow> 0 < unat t \<Longrightarrow>
   (\<And>s. Some s \<in> set factory \<Longrightarrow> new_session s) \<Longrightarrow> k + length factory < 65536 \<Longrightarrow>
   made (k + length factory) (unat t) w'"
proof (induction factory arbitrary: k w)
  case (Cons x fs)
  then obtain s where x: "x = Some s" by (cases x) auto
  have k: "length (w_sessions w) = k" using Cons.prems(2) world_okD(1) [of k "unat t" "{#}" w] by (simp add: made_def)
  let ?s = "s\<lparr> s_sessionId := of_nat k, s_threadId := of_nat (k mod unat t) \<rparr>"
  define w1 where "w1 = Session_InitializeSession E k (w\<lparr> w_sessions := w_sessions w @ [?s] \<rparr>)"
  have "k mod unat t < unat t" using Cons.prems(3) by simp
  then have "unat (of_nat (k mod unat t) :: ThreadIdType) < unat t"
    using unat_byte_bound [of t] by (simp add: unat_of_nat)
  then have "made (Suc k) (unat t) (w1\<lparr> w_unusedSessionIdList := w_unusedSessionIdList w1 @ [of_nat k],
      w_unusedSessionIdSet := insert (of_nat k) (w_unusedSessionIdSet w1) \<rparr>)"
    using Cons.prems(4,5) x
    by (intro made_append [OF Cons.prems(2) _ _ _ _ w1_def]) (simp_all add: new_session_def)
  from Cons.IH [OF _ this Cons.prems(3)] Cons.prems(1,4,5) x k show ?case
    by (simp add: Let_def w1_def [symmetric])
qed simp

lemma Manager_Initialize_ok:
  assumes "Manager_Initialize E t factory w0 = (True, w)" "bare_server (unat t) w0"
    "\<And>s. Some s \<in> set factory \<Longrightarrow> new_session s" "length factory < 65536"
  shows "server_ok (length factory) (unat t) w"
proof -
  let ?w = "w0\<lparr> w_sessions := [], w_unusedSessionIdList := [], w_unusedSessionIdSet := {} \<rparr>"
  have "made 0 (unat t) ?w"
    using bare_world_ok [OF assms(2)] assms(2)
    by (auto simp: made_def bare_server_def life_ok_def barrier_ok_def frame_def)
  moreover obtain w1 where c: "create_sessions E t factory ?w = (True, w1)" "0 < unat t"
    "w = w1\<lparr> w_isInitialized := True \<rparr>"
    using assms(1,2) by (auto simp: Manager_Initialize_def bare_server_def unat_gt_0 split: if_splits prod.splits)
  ultimately have "made (length factory) (unat t) w1"
    using create_sessions_made [OF c(1) _ c(2), of 0] assms(3,4) by simp
  then show ?thesis
    unfolding server_ok_def made_def spec_ok_def c(3)
    by (auto simp: frame_def intro: world_ok_cong)
qed

section \<open>Properties of every run\<close>

text \<open>A run starts with a pool of at most 65535 new sessions, one scheduler and one queue per
  worker thread.\<close>

definition server_reachable :: "'k Env \<Rightarrow> 'k BrokerEnv \<Rightarrow> nat \<Rightarrow> nat \<Rightarrow> 'k World \<Rightarrow> bool" where
  "server_reachable E B n m w \<longleftrightarrow>
     (\<exists>t factory w0 w1. Manager_Initialize E t factory w0 = (True, w1) \<and> bare_server (unat t) w0 \<and>
        (\<forall>s. Some s \<in> set factory \<longrightarrow> new_session s) \<and> n = length factory \<and> n < 65536 \<and> m = unat t \<and>
        server_run E B n m w1 w)"

lemma server_reachable_ok: "server_reachable E B n m w \<Longrightarrow> env_ok E n m \<Longrightarrow> server_ok n m w"
  unfolding server_reachable_def using Manager_Initialize_ok server_run_ok by blast

text \<open>C2: In every state a run of the server can reach, whatever completes, arrives, times out,
  connects or is called by the content, no handler has used a freed packet descriptor or
  run out of fuel, and the reference count of every live descriptor is exactly the number of
  maps, queues, reservations and heap entries that hold it.\<close>

theorem server_memory_safe:
  assumes "server_reachable E B n m w" "env_ok E n m"
  shows "\<not> w_fault w \<and> refs_ok (holders w) (w_store w)"
  using world_okD(3,4) [of n m "{#}" w] server_reachable_ok [OF assms] by (simp add: server_ok_def)

text \<open>C4: In every reachable state each session is in exactly one place: it is DISCONNECTED
  and once in the pool, or RELEASING and once in the list of the release thread, or in use
  and in neither.\<close>

theorem session_lifecycle:
  assumes "server_reachable E B n m w" "env_ok E n m" "i < n"
  shows "count_list (w_unusedSessionIdList w) (of_nat i)
      = (if sm_state (s_stateMachine (get_session i w)) = DISCONNECTED then 1 else 0) \<and>
    count_list (w_releaseSessionIdList w) (of_nat i)
      = (if sm_state (s_stateMachine (get_session i w)) = RELEASING then 1 else 0) \<and>
    (Session_IsReleasing (get_session i w) \<longleftrightarrow> sm_state (s_stateMachine (get_session i w)) = RELEASING)"
proof -
  have s: "spec_ok n [] [] [] (frame w)" using server_reachable_ok [OF assms(1,2)] by (simp add: server_ok_def)
  then have life: "life_ok n [] (frame w)" by (simp add: spec_ok_def)
  from life_okD(4-6) [OF life assms(3)] show ?thesis
    unfolding frame_nth [OF spec_ok_len [OF s assms(3)]]
    by (simp add: session_frame_def frame_def Session_IsReleasing_def del: frame_sessions)
qed

text \<open>C15: Nothing in flight is ever stale. In every reachable state the operations RIO holds
  carry the id and the generation their session has now, and so do the received datagrams
  that wait for a logic thread: the drain barrier keeps a session from being renewed under
  them, so \<open>HandleStaleCompletion\<close> is never needed.\<close>

theorem nothing_in_flight_is_stale:
  assumes "server_reachable E B n m w" "env_ok E n m"
  shows "(\<forall>p \<in> set (w_posted w). \<exists>i < n. io_session (posted_context p w) = Some i \<and>
      io_ownerSessionId (posted_context p w) = s_sessionId (get_session i w) \<and>
      io_ownerSessionGeneration (posted_context p w) = s_sessionGeneration (get_session i w)) \<and>
    (\<forall>c \<in> set (concat (w_recvIOCompletedContexts w)). rc_session c < n \<and>
      rc_ownerSessionGeneration c = s_sessionGeneration (get_session (rc_session c) w))"
proof (intro conjI ballI)
  have ok: "server_ok n m w" by (rule server_reachable_ok [OF assms])
  then have s: "spec_ok n [] [] [] (frame w)" by (simp add: server_ok_def)
  show "\<exists>i < n. io_session (posted_context p w) = Some i \<and>
      io_ownerSessionId (posted_context p w) = s_sessionId (get_session i w) \<and>
      io_ownerSessionGeneration (posted_context p w) = s_sessionGeneration (get_session i w)"
    if "p \<in> set (w_posted w)" for p
  proof -
    obtain ps qs where l: "w_posted w = ps @ p # qs" using \<open>p \<in> set (w_posted w)\<close> by (auto simp: in_set_conv_decomp)
    note t = server_ok_take(2) [OF ok l]
    have "posted_context p (w\<lparr> w_posted := ps @ qs \<rparr>) = posted_context p w"
      "get_session i (w\<lparr> w_posted := ps @ qs \<rparr>) = get_session i w" for i
      by (simp_all add: posted_context_def get_session_def split: posted.split)
    moreover obtain i where "i < n" "io_session (posted_context p (w\<lparr> w_posted := ps @ qs \<rparr>)) = Some i"
      using spec_posted(1) [OF t] by (auto simp: posted_ok_def)
    ultimately show ?thesis using spec_posted(2) [OF t, of i] by auto
  qed
  have b: "barrier_ok n [] [] (frame w)" using s by (simp add: spec_ok_def)
  show "rc_session c < n" "rc_ownerSessionGeneration c = s_sessionGeneration (get_session (rc_session c) w)"
    if "c \<in> set (concat (w_recvIOCompletedContexts w))" for c
  proof -
    have "received_current n (frame w) c" using barrier_okD(3) [OF b, of c] that by (simp add: frame_def)
    then show "rc_session c < n" by (simp add: received_current_def)
    then show "rc_ownerSessionGeneration c = s_sessionGeneration (get_session (rc_session c) w)"
      using \<open>received_current n (frame w) c\<close> frame_nth [OF spec_ok_len [OF s]]
      by (simp add: received_current_def session_frame_def del: frame_sessions)
  qed
qed

text \<open>C5: The drain barrier holds: as long as RIO holds an operation of a session that is being
  released, or a datagram of it waits for a logic thread, a round of the release thread
  leaves the session RELEASING, on the list, and in the same generation.\<close>

theorem barrier_delays_release:
  assumes "server_ok n m w" "env_ok E n m" "i < n" "sm_state (s_stateMachine (get_session i w)) = RELEASING"
    "length (concat (w_recvIOCompletedContexts w)) < 2 ^ 32"
    "(\<exists>p \<in> set (w_posted w). io_session (posted_context p w) = Some i) \<or>
     (\<exists>c \<in> set (concat (w_recvIOCompletedContexts w)). rc_session c = i)"
  shows "sm_state (s_stateMachine (get_session i (Core_SessionReleaseRound E w))) = RELEASING \<and>
    of_nat i \<in> set (w_releaseSessionIdList (Core_SessionReleaseRound E w)) \<and>
    s_sessionGeneration (get_session i (Core_SessionReleaseRound E w)) = s_sessionGeneration (get_session i w)"
proof -
  let ?w = "Core_SessionReleaseRound E w"
  have w: "world_ok n m {#} w" and s: "spec_ok n [] [] [] (frame w)" using assms(1) by (simp_all add: server_ok_def)
  have q: "length (concat (fr_queues (frame w))) < 2 ^ 32" using assms(5) by (simp add: frame_def)
  note len = spec_ok_len [OF s assms(3)]
  have "\<not> drained i [] [] (frame w)"
  proof (cases "\<exists>p \<in> set (w_posted w). io_session (posted_context p w) = Some i")
    case True
    then obtain p where p: "p \<in> set (w_posted w)" "io_session (posted_context p w) = Some i" by blast
    show ?thesis
    proof (cases p)
      case (PostedRecv j k)
      obtain ps qs where l: "w_posted w = ps @ p # qs" using p(1) by (auto simp: in_set_conv_decomp)
      have "i = j" using spec_posted(3) [OF server_ok_take(2) [OF assms(1) l] PostedRecv] p(2) PostedRecv
        by (simp add: posted_context_def get_session_def)
      then show ?thesis using p(1) PostedRecv by (auto simp: drained_iff frame_def)
    next
      case (PostedSend c)
      then show ?thesis using p by (auto simp: drained_iff frame_def posted_context_def)
    qed
  qed (use assms(6) in \<open>auto simp: drained_iff frame_def\<close>)
  then have "held i (s_sessionGeneration (get_session i w)) (frame w)"
    using len assms(4) unfolding held_def frame_nth [OF len] by (simp add: session_frame_def)
  note h = held_round [OF w assms(2) s q this]
  have s': "spec_ok n [] [] [] (frame ?w)" by (rule spec_ReleaseRound [OF w assms(2) s q])
  have life: "life_ok n [] (frame ?w)" using s' by (simp add: spec_ok_def)
  have "count_list (fr_release (frame ?w)) (of_nat i) = 1"
    using life_okD(6) [OF life assms(3)] h by (simp add: held_def del: frame_sessions)
  then have "of_nat i \<in> set (fr_release (frame ?w))" by (metis count_list_0_iff zero_neq_one)
  then have "of_nat i \<in> set (w_releaseSessionIdList ?w)" by (simp add: frame_def)
  with h show ?thesis
    unfolding held_def frame_nth [OF spec_ok_len [OF s' assms(3)]] by (simp add: session_frame_def del: frame_sessions)
qed

text \<open>C6: The release thread makes progress: when a session that is being released is drained
  (no operation posted or being completed, no datagram waiting or being processed), one
  round puts it back into the pool, DISCONNECTED and in a new generation, whatever the
  other sessions on the list and the content do in that round.\<close>

theorem release_round_finalises:
  assumes "server_ok n m w" "env_ok E n m" "i < n" "sm_state (s_stateMachine (get_session i w)) = RELEASING"
    "length (concat (w_recvIOCompletedContexts w)) < 2 ^ 32" "Session_CanFinalizeIO (get_session i w)"
  shows "sm_state (s_stateMachine (get_session i (Core_SessionReleaseRound E w))) = DISCONNECTED \<and>
    of_nat i \<in> set (w_unusedSessionIdList (Core_SessionReleaseRound E w)) \<and>
    s_sessionGeneration (get_session i (Core_SessionReleaseRound E w)) = s_sessionGeneration (get_session i w) + 1"
proof -
  let ?w = "Core_SessionReleaseRound E w"
  have w: "world_ok n m {#} w" and s: "spec_ok n [] [] [] (frame w)" using assms(1) by (simp_all add: server_ok_def)
  have q: "length (concat (fr_queues (frame w))) < 2 ^ 32" using assms(5) by (simp add: frame_def)
  note len = spec_ok_len [OF s assms(3)]
  have b: "barrier_ok n [] [] (frame w)" and life: "life_ok n [] (frame w)" using s by (simp_all add: spec_ok_def)
  have can: "frame_can_finalize (fr_sessions (frame w) ! i)"
    using assms(6) unfolding frame_nth [OF len] by (simp add: CanFinalize_frame)
  have "ready i (s_sessionGeneration (get_session i w)) (frame w)"
    using len assms(4) life_okD(4) [OF life assms(3)] can finalize_drained [OF b assms(3) can q]
    unfolding ready_def frame_nth [OF len] by (simp add: session_frame_def)
  note r = ready_round [OF w assms(2) s q this assms(3)]
  have s': "spec_ok n [] [] [] (frame ?w)" by (rule spec_ReleaseRound [OF w assms(2) s q])
  have "fr_unused (frame ?w) = w_unusedSessionIdList ?w" by (simp add: frame_def)
  with r show ?thesis
    unfolding renewed_def frame_nth [OF spec_ok_len [OF s' assms(3)]] by (simp add: session_frame_def del: frame_sessions)
qed

section \<open>Concrete runs\<close>

lemma sample_env_ok: "env_ok sample_env n m"
proof -
  have "evolves w w" for w :: "unit World" by (simp add: evolves_def)
  then show ?thesis
    unfolding env_ok_def content_law_def content_refines_def
    using sample_env_alloc by (simp add: sample_env_def)
qed

definition started :: "unit World" where
  "started = snd (Manager_Initialize sample_env 1 [Some (sample_session [])]
     ((sample_world [])\<lparr> w_sessions := [], w_isInitialized := False \<rparr>))"

lemma started_reachable: "server_reachable sample_env sample_broker 1 1 started"
proof -
  let ?w0 = "(sample_world [])\<lparr> w_sessions := [], w_isInitialized := False \<rparr>"
  have "bare_server 1 ?w0" by (simp add: bare_server_def sample_world_def)
  moreover have "new_session (sample_session [])"
    using sc_wf_new by (simp add: new_session_def sample_session_def sc_holders_def SendContext_new_def sc_wf_def)
  moreover have "Manager_Initialize sample_env 1 [Some (sample_session [])] ?w0 = (True, started)"
    unfolding started_def by (simp add: Manager_Initialize_def sample_world_def Let_def)
  ultimately show ?thesis
    unfolding server_reachable_def server_run_def
    by (intro exI [of _ "1 :: byte"] exI [of _ "[Some (sample_session [])]"] exI [of _ ?w0] exI [of _ started]) simp
qed

theorem server_memory_safe_witness:
  "\<not> w_fault started \<and> refs_ok (holders started) (w_store started)"
  by (rule server_memory_safe [OF started_reachable sample_env_ok])

theorem session_lifecycle_witness:
  "count_list (w_unusedSessionIdList started) (of_nat 0)
      = (if sm_state (s_stateMachine (get_session 0 started)) = DISCONNECTED then 1 else 0)"
  using session_lifecycle [OF started_reachable sample_env_ok, of 0] by simp

theorem nothing_in_flight_is_stale_witness:
  "filter (\<lambda>c. \<not> rc_session c < 1) (concat (w_recvIOCompletedContexts started)) = []"
  using nothing_in_flight_is_stale [OF started_reachable sample_env_ok] by (auto simp: filter_empty_conv)

definition sample_context :: IOContext where
  "sample_context = (IOContext_InitContext 0 OP_SEND)\<lparr> io_ownerSessionGeneration := 1, io_session := Some 0 \<rparr>"

definition sample_sending :: "unit World" where
  "sample_sending = (sample_server RELEASING)\<lparr>
     w_sessions := [(get_session 0 (sample_server RELEASING))\<lparr>
       s_sendContext := SendContext_new\<lparr> sc_ioMode := IO_SENDING \<rparr> \<rparr>],
     w_posted := [PostedSend sample_context] \<rparr>"

lemma sample_sending_ok: "server_ok 1 1 sample_sending"
proof -
  have "world_ok 1 1 {#} sample_sending"
    using sample_server_ok(1) [of RELEASING]
    by (simp add: world_ok_def sample_sending_def sample_server_def sample_world_def sample_session_def session_wf_def
        holders_def session_holders_def get_session_def sc_wf_def sc_holders_def SendContext_new_def)
  moreover have "spec_ok 1 [] [] [] (frame sample_sending)"
    by (simp add: spec_ok_def life_ok_def barrier_ok_def session_ok_def sample_sending_def sample_server_def
        sample_world_def sample_session_def frame_def session_frame_def SendContext_new_def get_session_def
        posted_current_def current_send_def sample_context_def IOContext_InitContext_def)
  ultimately show ?thesis by (simp add: server_ok_def)
qed

theorem barrier_delays_release_witness:
  "sm_state (s_stateMachine (get_session 0 (Core_SessionReleaseRound sample_env sample_sending))) = RELEASING"
  using barrier_delays_release [OF sample_sending_ok sample_env_ok, of 0]
  by (simp add: sample_sending_def sample_server_def sample_world_def get_session_def posted_context_def
      sample_context_def IOContext_InitContext_def)

theorem release_round_finalises_witness:
  "sm_state (s_stateMachine (get_session 0 (Core_SessionReleaseRound sample_env (sample_server RELEASING)))) = DISCONNECTED"
proof -
  have "server_ok 1 1 (sample_server RELEASING)" using sample_server_ok by (simp add: server_ok_def)
  moreover have "Session_CanFinalizeIO (get_session 0 (sample_server RELEASING))"
    by (simp add: Session_CanFinalizeIO_def sample_server_def sample_world_def sample_session_def get_session_def
        RIOContext_IsDrained_def RecvBuffer_IsDrained_def SendContext_new_def)
  ultimately show ?thesis
    using release_round_finalises [OF _ sample_env_ok, of 1 1 "sample_server RELEASING" 0]
    by (simp add: sample_server_def sample_world_def get_session_def)
qed

end
