(* ===== verification/Ticker.thy ===== *)
theory Ticker
  imports Prelude Min_Queue
begin

text \<open>
  MultiSocketRUDPServer/Ticker and TimerEvent: the periodic events of the content. The objects of the
  content derive from \<open>TimerEvent\<close>; a shared pointer is an index into the objects created so far, so
  what is registered always exists. \<open>Fire\<close> is a parameter and may call the ticker. Times are the
  milliseconds of \<open>steady_clock\<close> in a \<open>uint64_t\<close>. A round of the thread is one step.
\<close>

section \<open>The code\<close>

type_synonym TimerEventId = ushort

record TimerEvent =
  te_timerEventId :: TimerEventId
  te_intervalMs :: "32 word"
  te_nextTick :: "64 word"

definition TimerEvent_new :: "TimerEventId \<Rightarrow> 32 word \<Rightarrow> TimerEvent" where
  "TimerEvent_new inTimerEventId inIntervalMs =
     \<lparr> te_timerEventId = inTimerEventId, te_intervalMs = inIntervalMs, te_nextTick = 0 \<rparr>"

definition TimerEvent_ShouldFire :: "64 word \<Rightarrow> TimerEvent \<Rightarrow> bool" where
  "TimerEvent_ShouldFire currentTick e \<longleftrightarrow> te_nextTick e \<le> currentTick"

definition TimerEvent_SetNextTick :: "64 word \<Rightarrow> TimerEvent \<Rightarrow> TimerEvent" where
  "TimerEvent_SetNextTick nowTickMs e = e\<lparr> te_nextTick := nowTickMs + ucast (te_intervalMs e) \<rparr>"

text \<open>\<open>tk_timerEvents\<close> is the map, in the order of its keys. \<open>tk_objects\<close> are the objects created by
  \<open>TimerEventCreator\<close> with its counter of ids; \<open>tk_fired\<close> records the calls of \<open>Fire\<close> and is not in the code.\<close>

record TickerState =
  tk_isRunning :: bool
  tk_tickInterval :: "32 word"
  tk_threadJoinable :: bool
  tk_tickCount :: "64 word"
  tk_nowMs :: "64 word"
  tk_timerEvents :: "(TimerEventId \<times> nat) list"
  tk_unregisterTargetList :: "TimerEventId list"
  tk_objects :: "TimerEvent list"
  tk_timerEventIdGenerator :: TimerEventId
  tk_fired :: "(64 word \<times> nat) list"

definition Ticker_new :: TickerState where
  "Ticker_new =
     \<lparr> tk_isRunning = False, tk_tickInterval = 0, tk_threadJoinable = False, tk_tickCount = 0, tk_nowMs = 0,
       tk_timerEvents = [], tk_unregisterTargetList = [], tk_objects = [], tk_timerEventIdGenerator = 1,
       tk_fired = [] \<rparr>"

text \<open>Assigning the new thread joins the one that runs, which does not end since \<open>isRunning\<close> is set:
  a second \<open>Start\<close> does not return (\<open>None\<close>).\<close>

definition Ticker_Start :: "64 word \<Rightarrow> 32 word \<Rightarrow> TickerState \<Rightarrow> TickerState option" where
  "Ticker_Start now intervalMs t =
     (if tk_threadJoinable t then None
      else Some (t\<lparr> tk_isRunning := True, tk_tickInterval := intervalMs, tk_nowMs := now, tk_threadJoinable := True \<rparr>))"

definition Ticker_Stop :: "TickerState \<Rightarrow> TickerState" where
  "Ticker_Stop t = t\<lparr> tk_isRunning := False, tk_threadJoinable := False, tk_unregisterTargetList := [],
     tk_timerEvents := [] \<rparr>"

definition Ticker_UnregisterTimerEventImpl :: "TickerState \<Rightarrow> TickerState" where
  "Ticker_UnregisterTimerEventImpl t =
     (if tk_unregisterTargetList t = [] then t
      else t\<lparr> tk_unregisterTargetList := [],
              tk_timerEvents := fold (\<lambda>id. filter (\<lambda>(i, _). i \<noteq> id)) (tk_unregisterTargetList t) (tk_timerEvents t) \<rparr>)"

definition upd_object :: "(TimerEvent \<Rightarrow> TimerEvent) \<Rightarrow> nat \<Rightarrow> TickerState \<Rightarrow> TickerState" where
  "upd_object f p t = t\<lparr> tk_objects := (tk_objects t)[p := f (tk_objects t ! p)] \<rparr>"

definition fire_targets :: "TickerState \<Rightarrow> nat list" where
  "fire_targets t = filter (\<lambda>p. TimerEvent_ShouldFire (tk_nowMs t) (tk_objects t ! p)) (map snd (tk_timerEvents t))"

definition fire_event :: "(nat \<Rightarrow> TickerState \<Rightarrow> TickerState) \<Rightarrow> nat \<Rightarrow> TickerState \<Rightarrow> TickerState" where
  "fire_event Fire p t =
     (let t1 = Fire p (t\<lparr> tk_fired := tk_fired t @ [(tk_nowMs t, p)] \<rparr>)
      in upd_object (TimerEvent_SetNextTick (tk_nowMs t1)) p t1)"

text \<open>A round of \<open>UpdateTick\<close> at the time \<open>now\<close>.\<close>

definition Ticker_UpdateTick :: "(nat \<Rightarrow> TickerState \<Rightarrow> TickerState) \<Rightarrow> 64 word \<Rightarrow> TickerState \<Rightarrow> TickerState" where
  "Ticker_UpdateTick Fire now t =
     (if \<not> tk_isRunning t then t
      else let t1 = Ticker_UnregisterTimerEventImpl (t\<lparr> tk_nowMs := now \<rparr>);
               t2 = fold (fire_event Fire) (fire_targets t1) t1
           in t2\<lparr> tk_tickCount := tk_tickCount t2 + 1 \<rparr>)"

definition TimerEventCreator_Create :: "32 word \<Rightarrow> TickerState \<Rightarrow> nat \<times> TickerState" where
  "TimerEventCreator_Create inIntervalMs t =
     (length (tk_objects t),
      t\<lparr> tk_timerEventIdGenerator := tk_timerEventIdGenerator t + 1,
         tk_objects := tk_objects t @ [TimerEvent_new (tk_timerEventIdGenerator t) inIntervalMs] \<rparr>)"

definition event_id :: "nat \<Rightarrow> TickerState \<Rightarrow> TimerEventId" where
  "event_id p t = te_timerEventId (tk_objects t ! p)"

text \<open>\<open>emplace\<close> leaves the map alone when the id is taken.\<close>

definition Ticker_RegisterTimerEvent :: "nat option \<Rightarrow> TickerState \<Rightarrow> bool \<times> TickerState" where
  "Ticker_RegisterTimerEvent eventObject t =
     (case eventObject of None \<Rightarrow> (False, t)
      | Some p \<Rightarrow>
          let t1 = upd_object (\<lambda>e. TimerEvent_SetNextTick (tk_nowMs t + ucast (te_intervalMs e)) e) p t in
          (True, if event_id p t1 \<in> set (map fst (tk_timerEvents t1)) then t1
                 else t1\<lparr> tk_timerEvents := insort_key fst (event_id p t1, p) (tk_timerEvents t1) \<rparr>))"

definition Ticker_UnregisterTimerEvent :: "TimerEventId \<Rightarrow> TickerState \<Rightarrow> TickerState" where
  "Ticker_UnregisterTimerEvent timerEventId t =
     (if timerEventId \<in> set (tk_unregisterTargetList t) then t
      else t\<lparr> tk_unregisterTargetList := tk_unregisterTargetList t @ [timerEventId] \<rparr>)"

section \<open>The map of events\<close>

text \<open>The keys ascend, and each is the id of the object under it. So no object is registered twice.\<close>

definition ticker_ok :: "TickerState \<Rightarrow> bool" where
  "ticker_ok t \<longleftrightarrow> sorted (map fst (tk_timerEvents t)) \<and> distinct (map fst (tk_timerEvents t)) \<and>
     (\<forall>(i, p) \<in> set (tk_timerEvents t). p < length (tk_objects t) \<and> event_id p t = i)"

lemma ticker_okD:
  assumes "ticker_ok t"
  shows "sorted (map fst (tk_timerEvents t))" "distinct (map fst (tk_timerEvents t))"
    "(i, p) \<in> set (tk_timerEvents t) \<Longrightarrow> p < length (tk_objects t)"
    "(i, p) \<in> set (tk_timerEvents t) \<Longrightarrow> event_id p t = i"
  using assms by (auto simp: ticker_ok_def)

lemma fold_erase: "fold (\<lambda>id. filter (\<lambda>(i, _). i \<noteq> id)) ids ps = filter (\<lambda>(i, _). i \<notin> set ids) ps"
  by (induction ids arbitrary: ps) (auto simp: case_prod_unfold conj_commute intro: filter_cong)

lemma ticker_ok_filter:
  "ticker_ok t \<Longrightarrow> tk_timerEvents t' = filter P (tk_timerEvents t) \<Longrightarrow> tk_objects t' = tk_objects t \<Longrightarrow> ticker_ok t'"
  by (auto simp: ticker_ok_def event_id_def sorted_filter distinct_map_filter)

lemma ticker_ok_Unregister: "ticker_ok t \<Longrightarrow> ticker_ok (Ticker_UnregisterTimerEventImpl t)"
  by (erule ticker_ok_filter [where P = "\<lambda>(i, _). i \<notin> set (tk_unregisterTargetList t)"])
     (auto simp: Ticker_UnregisterTimerEventImpl_def fold_erase)

lemma object_upd: "tk_objects (upd_object f p t) ! q =
    (if q = p \<and> p < length (tk_objects t) then f (tk_objects t ! p) else tk_objects t ! q)"
  by (cases "p < length (tk_objects t)") (auto simp: upd_object_def list_update_beyond)

lemma upd_object_fields [simp]:
  "length (tk_objects (upd_object f p t)) = length (tk_objects t)"
  "tk_timerEvents (upd_object f p t) = tk_timerEvents t"
  "tk_unregisterTargetList (upd_object f p t) = tk_unregisterTargetList t"
  "tk_nowMs (upd_object f p t) = tk_nowMs t" "tk_fired (upd_object f p t) = tk_fired t"
  "tk_isRunning (upd_object f p t) = tk_isRunning t"
  by (simp_all add: upd_object_def)

lemma map_fst_insort: "map fst (insort_key fst x xs) = insort (fst x) (map fst xs)"
  by (induction xs) auto

lemma ticker_ok_upd_object:
  assumes "ticker_ok t" "\<And>e. te_timerEventId (f e) = te_timerEventId e"
  shows "ticker_ok (upd_object f p t)"
  using assms by (auto simp: ticker_ok_def event_id_def object_upd split: prod.splits)

lemma ticker_ok_Register:
  assumes "ticker_ok t" "p < length (tk_objects t)"
  shows "ticker_ok (snd (Ticker_RegisterTimerEvent (Some p) t))"
proof -
  let ?t = "upd_object (\<lambda>e. TimerEvent_SetNextTick (tk_nowMs t + ucast (te_intervalMs e)) e) p t"
  have ok: "ticker_ok ?t" using assms(1) by (rule ticker_ok_upd_object) (simp add: TimerEvent_SetNextTick_def)
  moreover have "ticker_ok (?t\<lparr> tk_timerEvents := insort_key fst (event_id p ?t, p) (tk_timerEvents ?t) \<rparr>)"
    if "event_id p ?t \<notin> set (map fst (tk_timerEvents ?t))"
    using ok that assms(2) unfolding ticker_ok_def map_fst_insort [symmetric]
    by (auto simp: map_fst_insort sorted_insort distinct_insort set_insort_key event_id_def)
  ultimately show ?thesis by (simp add: Ticker_RegisterTimerEvent_def Let_def)
qed

datatype ticker_op = Op_create "32 word" | Op_register "nat option" | Op_unregister TimerEventId
  | Op_round "64 word" | Op_start "64 word" "32 word" | Op_stop

text \<open>A call by the content or a round of the thread; a start that does not return changes nothing here.
  A pointer the content has is one the creator gave it.\<close>

fun ticker_step :: "(nat \<Rightarrow> TickerState \<Rightarrow> TickerState) \<Rightarrow> ticker_op \<Rightarrow> TickerState \<Rightarrow> TickerState" where
  "ticker_step Fire (Op_create i) t = snd (TimerEventCreator_Create i t)"
| "ticker_step Fire (Op_register p) t =
     (case p of Some q \<Rightarrow> if q < length (tk_objects t) then snd (Ticker_RegisterTimerEvent p t) else t | None \<Rightarrow> t)"
| "ticker_step Fire (Op_unregister k) t = Ticker_UnregisterTimerEvent k t"
| "ticker_step Fire (Op_round now) t = Ticker_UpdateTick Fire now t"
| "ticker_step Fire (Op_start now i) t = (case Ticker_Start now i t of None \<Rightarrow> t | Some t' \<Rightarrow> t')"
| "ticker_step Fire Op_stop t = Ticker_Stop t"

definition fire_keeps :: "(nat \<Rightarrow> TickerState \<Rightarrow> TickerState) \<Rightarrow> (TickerState \<Rightarrow> bool) \<Rightarrow> bool" where
  "fire_keeps Fire P \<longleftrightarrow> (\<forall>p t. P t \<longrightarrow> P (Fire p t))"

lemma ticker_ok_same:
  "ticker_ok t \<Longrightarrow> tk_timerEvents t' = tk_timerEvents t \<Longrightarrow> tk_objects t' = tk_objects t \<Longrightarrow> ticker_ok t'"
  by (simp add: ticker_ok_def event_id_def)

lemma ticker_ok_fields [simp]:
  "ticker_ok (t\<lparr> tk_tickCount := k \<rparr>) = ticker_ok t" "ticker_ok (t\<lparr> tk_nowMs := now \<rparr>) = ticker_ok t"
  "ticker_ok (t\<lparr> tk_fired := fs \<rparr>) = ticker_ok t" "ticker_ok (t\<lparr> tk_unregisterTargetList := ids \<rparr>) = ticker_ok t"
  by (simp_all add: ticker_ok_def event_id_def)

lemma ticker_ok_fire:
  assumes "fire_keeps Fire ticker_ok" "ticker_ok t"
  shows "ticker_ok (fold (fire_event Fire) ps t)"
  using assms(2)
proof (induction ps arbitrary: t)
  case (Cons p ps)
  have "ticker_ok (fire_event Fire p t)"
    using assms(1) Cons.prems unfolding fire_event_def Let_def fire_keeps_def
    by (intro ticker_ok_upd_object) (simp_all add: TimerEvent_SetNextTick_def)
  then show ?case using Cons.IH by simp
qed simp

lemma ticker_ok_round:
  assumes "fire_keeps Fire ticker_ok" "ticker_ok t"
  shows "ticker_ok (Ticker_UpdateTick Fire now t)"
  using ticker_ok_fire [OF assms(1) ticker_ok_Unregister, of "t\<lparr> tk_nowMs := now \<rparr>"] assms(2)
  by (simp add: Ticker_UpdateTick_def Let_def)

lemma ticker_ok_Create: "ticker_ok t \<Longrightarrow> ticker_ok (snd (TimerEventCreator_Create i t))"
  by (auto simp: ticker_ok_def TimerEventCreator_Create_def event_id_def nth_append split: prod.splits)

lemma ticker_ok_step:
  assumes "fire_keeps Fire ticker_ok" "ticker_ok t"
  shows "ticker_ok (ticker_step Fire op t)"
proof (cases op)
  case (Op_unregister k)
  then show ?thesis using assms(2) by (simp add: Ticker_UnregisterTimerEvent_def)
next
  case (Op_start now i)
  then show ?thesis using assms(2) by (auto simp: Ticker_Start_def intro: ticker_ok_same)
next
  case Op_stop
  then show ?thesis by (simp add: Ticker_Stop_def ticker_ok_def)
qed (use assms in \<open>auto simp: ticker_ok_Create ticker_ok_round ticker_ok_Register split: option.split\<close>)

interpretation ticker: preserved "ticker_step Fire" "\<lambda>t. fire_keeps Fire ticker_ok \<and> ticker_ok t" for Fire
  by unfold_locales (simp add: ticker_ok_step)

text \<open>The ids are 16 bits wide: once they wrap, an event that gets the id of a registered one is not
  registered although the call says so, and its object will not fire.\<close>

lemma register_taken_id:
  assumes "event_id p t \<in> set (map fst (tk_timerEvents t))"
  shows "fst (Ticker_RegisterTimerEvent (Some p) t)"
    "tk_timerEvents (snd (Ticker_RegisterTimerEvent (Some p) t)) = tk_timerEvents t"
  using assms
  by (simp_all add: Ticker_RegisterTimerEvent_def Let_def event_id_def object_upd TimerEvent_SetNextTick_def)

section \<open>When an event fires\<close>

text \<open>An event that is registered and not being unregistered.\<close>

definition watched :: "nat \<Rightarrow> TickerState \<Rightarrow> bool" where
  "watched p t \<longleftrightarrow> ticker_ok t \<and> tk_isRunning t \<and> (event_id p t, p) \<in> set (tk_timerEvents t) \<and>
     event_id p t \<notin> set (tk_unregisterTargetList t)"

definition fires_of :: "nat \<Rightarrow> TickerState \<Rightarrow> 64 word list" where
  "fires_of p t = map fst (filter (\<lambda>(_, q). q = p) (tk_fired t))"

text \<open>The times of an event that is due at \<open>due\<close>, when the ticker looks at the times in a list.\<close>

fun fire_schedule :: "64 word \<Rightarrow> 32 word \<Rightarrow> 64 word list \<Rightarrow> 64 word list" where
  "fire_schedule due interval [] = []"
| "fire_schedule due interval (now # ts) =
     (if due \<le> now then now # fire_schedule (now + ucast interval) interval ts
      else fire_schedule due interval ts)"

text \<open>The handlers of the content may do to other events what they want.\<close>

definition leaves_alone :: "nat \<Rightarrow> (nat \<Rightarrow> TickerState \<Rightarrow> TickerState) \<Rightarrow> bool" where
  "leaves_alone p Fire \<longleftrightarrow> (\<forall>q t. watched p t \<longrightarrow> watched p (Fire q t) \<and> tk_objects (Fire q t) ! p = tk_objects t ! p \<and>
     tk_nowMs (Fire q t) = tk_nowMs t \<and> tk_fired (Fire q t) = tk_fired t)"

lemma watched_same:
  "watched p t \<Longrightarrow> tk_timerEvents t' = tk_timerEvents t \<Longrightarrow> tk_objects t' = tk_objects t \<Longrightarrow>
   tk_unregisterTargetList t' = tk_unregisterTargetList t \<Longrightarrow> tk_isRunning t' = tk_isRunning t \<Longrightarrow> watched p t'"
  by (simp add: watched_def ticker_ok_def event_id_def)

lemma watched_set_next: "watched p t \<Longrightarrow> watched p (upd_object (TimerEvent_SetNextTick now) q t)"
  using ticker_ok_upd_object [of t "TimerEvent_SetNextTick now" q]
  by (auto simp: watched_def event_id_def object_upd TimerEvent_SetNextTick_def)

lemma fire_event_other:
  assumes "leaves_alone p Fire" "watched p t"
  shows "watched p (fire_event Fire q t)" "tk_nowMs (fire_event Fire q t) = tk_nowMs t"
    "fires_of p (fire_event Fire q t) = fires_of p t @ (if q = p then [tk_nowMs t] else [])"
    "tk_objects (fire_event Fire q t) ! p =
       (if q = p then TimerEvent_SetNextTick (tk_nowMs t) (tk_objects t ! p) else tk_objects t ! p)"
proof -
  let ?t = "t\<lparr> tk_fired := tk_fired t @ [(tk_nowMs t, q)] \<rparr>"
  have "watched p ?t" using assms(2) by (rule watched_same) simp_all
  then have F: "watched p (Fire q ?t)" "tk_objects (Fire q ?t) ! p = tk_objects t ! p" "tk_nowMs (Fire q ?t) = tk_nowMs t"
    "tk_fired (Fire q ?t) = tk_fired t @ [(tk_nowMs t, q)]"
    using assms(1) by (simp_all add: leaves_alone_def)
  have p: "p < length (tk_objects (Fire q ?t))" using F(1) ticker_okD(3) by (auto simp: watched_def)
  show "watched p (fire_event Fire q t)" using watched_set_next [OF F(1)] by (simp add: fire_event_def Let_def)
  show "tk_nowMs (fire_event Fire q t) = tk_nowMs t" by (simp add: fire_event_def Let_def F(3))
  show "fires_of p (fire_event Fire q t) = fires_of p t @ (if q = p then [tk_nowMs t] else [])"
    by (simp add: fire_event_def Let_def F(4) fires_of_def)
  show "tk_objects (fire_event Fire q t) ! p =
      (if q = p then TimerEvent_SetNextTick (tk_nowMs t) (tk_objects t ! p) else tk_objects t ! p)"
    using p F(2,3) by (cases "q = p") (simp_all add: fire_event_def Let_def object_upd)
qed

lemma fire_all:
  assumes "leaves_alone p Fire" "watched p t" "distinct qs"
  shows "watched p (fold (fire_event Fire) qs t)" "tk_nowMs (fold (fire_event Fire) qs t) = tk_nowMs t"
    "fires_of p (fold (fire_event Fire) qs t) = fires_of p t @ (if p \<in> set qs then [tk_nowMs t] else [])"
    "tk_objects (fold (fire_event Fire) qs t) ! p =
       (if p \<in> set qs then TimerEvent_SetNextTick (tk_nowMs t) (tk_objects t ! p) else tk_objects t ! p)"
proof -
  have "watched p (fold (fire_event Fire) qs t) \<and> tk_nowMs (fold (fire_event Fire) qs t) = tk_nowMs t \<and>
    fires_of p (fold (fire_event Fire) qs t) = fires_of p t @ (if p \<in> set qs then [tk_nowMs t] else []) \<and>
    tk_objects (fold (fire_event Fire) qs t) ! p =
       (if p \<in> set qs then TimerEvent_SetNextTick (tk_nowMs t) (tk_objects t ! p) else tk_objects t ! p)"
    using assms(2,3)
  proof (induction qs arbitrary: t)
    case (Cons q qs)
    note f = fire_event_other [OF assms(1) Cons.prems(1), of q]
    from Cons.IH [OF f(1)] Cons.prems(2) f show ?case by auto
  qed simp
  then show "watched p (fold (fire_event Fire) qs t)" "tk_nowMs (fold (fire_event Fire) qs t) = tk_nowMs t"
    "fires_of p (fold (fire_event Fire) qs t) = fires_of p t @ (if p \<in> set qs then [tk_nowMs t] else [])"
    "tk_objects (fold (fire_event Fire) qs t) ! p =
       (if p \<in> set qs then TimerEvent_SetNextTick (tk_nowMs t) (tk_objects t ! p) else tk_objects t ! p)"
    by simp_all
qed

lemma distinct_targets: "ticker_ok t \<Longrightarrow> distinct (fire_targets t)"
proof -
  assume ok: "ticker_ok t"
  have "inj_on snd (set (tk_timerEvents t))"
    using ticker_okD(4) [OF ok] by (intro inj_onI) (metis prod.collapse)
  moreover have "distinct (tk_timerEvents t)" using ticker_okD(2) [OF ok] by (simp add: distinct_map)
  ultimately have "distinct (map snd (tk_timerEvents t))" by (simp add: distinct_map)
  then show ?thesis by (simp add: fire_targets_def)
qed

lemma round_event:
  assumes "leaves_alone p Fire" "watched p t"
  shows "watched p (Ticker_UpdateTick Fire now t)"
    "fires_of p (Ticker_UpdateTick Fire now t)
      = fires_of p t @ (if te_nextTick (tk_objects t ! p) \<le> now then [now] else [])"
    "tk_objects (Ticker_UpdateTick Fire now t) ! p
      = (if te_nextTick (tk_objects t ! p) \<le> now then TimerEvent_SetNextTick now (tk_objects t ! p) else tk_objects t ! p)"
proof -
  let ?t = "Ticker_UnregisterTimerEventImpl (t\<lparr> tk_nowMs := now \<rparr>)"
  have fields: "tk_objects ?t = tk_objects t" "tk_nowMs ?t = now" "tk_fired ?t = tk_fired t" "tk_isRunning ?t = tk_isRunning t"
    "set (tk_timerEvents ?t) = {x \<in> set (tk_timerEvents t). fst x \<notin> set (tk_unregisterTargetList t)}" 
    "set (tk_unregisterTargetList ?t) = {}"
    by (auto simp: Ticker_UnregisterTimerEventImpl_def fold_erase)
  have ok: "ticker_ok ?t" using assms(2) by (intro ticker_ok_Unregister) (simp add: watched_def)
  then have w: "watched p ?t" using assms(2) fields by (simp add: watched_def event_id_def)
  have mem: "p \<in> set (fire_targets ?t) \<longleftrightarrow> te_nextTick (tk_objects t ! p) \<le> now"
    using w by (auto simp: fire_targets_def fields TimerEvent_ShouldFire_def watched_def image_iff)
  have run: "tk_isRunning t" using assms(2) by (simp add: watched_def)
  note f = fire_all [OF assms(1) w distinct_targets [OF ok]]
  have fires: "fires_of p ?t = fires_of p t" by (simp add: fires_of_def fields)
  let ?e = "(fold (fire_event Fire) (fire_targets ?t) ?t)\<lparr> tk_tickCount := tk_tickCount (fold (fire_event Fire) (fire_targets ?t) ?t) + 1 \<rparr>"
  have e: "Ticker_UpdateTick Fire now t = ?e" using run by (simp add: Ticker_UpdateTick_def Let_def)
  show "watched p (Ticker_UpdateTick Fire now t)" unfolding e using f(1) by (rule watched_same) simp_all
  show "fires_of p (Ticker_UpdateTick Fire now t)
      = fires_of p t @ (if te_nextTick (tk_objects t ! p) \<le> now then [now] else [])"
    unfolding e using f(3) by (simp add: fires_of_def mem fires [unfolded fires_of_def] fields)
  show "tk_objects (Ticker_UpdateTick Fire now t) ! p
      = (if te_nextTick (tk_objects t ! p) \<le> now then TimerEvent_SetNextTick now (tk_objects t ! p) else tk_objects t ! p)"
    unfolding e using f(4) by (simp add: mem fields)
qed

lemma rounds_event:
  assumes "leaves_alone p Fire" "watched p t"
  shows "fires_of p (fold (Ticker_UpdateTick Fire) ts t)
      = fires_of p t @ fire_schedule (te_nextTick (tk_objects t ! p)) (te_intervalMs (tk_objects t ! p)) ts"
  using assms(2)
proof (induction ts arbitrary: t)
  case (Cons now ts)
  note r = round_event [OF assms(1) Cons.prems, of now]
  show ?case using Cons.IH [OF r(1)] r(2,3) by (simp add: TimerEvent_SetNextTick_def)
qed simp


text \<open>C26: When an event fires. From the moment it is registered under a free id, and as long as it is not
  unregistered, an event fires in the first round of the thread at least two intervals later (the interval is
  added twice), and then in the first round at least one interval after the round it fired in, whatever the handlers of
  the content do to other events.\<close>

theorem timer_event_schedule:
  assumes "ticker_ok t" "tk_isRunning t" "p < length (tk_objects t)" "leaves_alone p Fire"
    "event_id p t \<notin> set (map fst (tk_timerEvents t))" "event_id p t \<notin> set (tk_unregisterTargetList t)"
    "Ticker_RegisterTimerEvent (Some p) t = (ok, t')" "interval = te_intervalMs (tk_objects t ! p)"
  shows "ok \<and> fires_of p (fold (Ticker_UpdateTick Fire) ts t')
      = fires_of p t @ fire_schedule (tk_nowMs t + 2 * ucast interval) interval ts"
proof -
  have reg: "ok" "t' = snd (Ticker_RegisterTimerEvent (Some p) t)"
    using assms(7) by (auto simp: Ticker_RegisterTimerEvent_def Let_def)
  let ?t = "upd_object (\<lambda>e. TimerEvent_SetNextTick (tk_nowMs t + ucast (te_intervalMs e)) e) p t"
  have id: "event_id p ?t = event_id p t" by (simp add: event_id_def object_upd TimerEvent_SetNextTick_def)
  have t': "t' = ?t\<lparr> tk_timerEvents := insort_key fst (event_id p t, p) (tk_timerEvents t) \<rparr>"
    using assms(5) id unfolding reg(2) by (simp add: Ticker_RegisterTimerEvent_def Let_def)
  have obj: "tk_objects t' ! p = TimerEvent_SetNextTick (tk_nowMs t + ucast interval) (tk_objects t ! p)"
    using assms(3,8) by (simp add: t' object_upd)
  have "ticker_ok t'" using ticker_ok_Register [OF assms(1,3)] reg(2) by simp
  moreover have "event_id p t' = event_id p t" using id by (simp add: t' event_id_def)
  ultimately have "watched p t'" using assms(2,6) by (simp add: watched_def t' set_insort_key)
  from rounds_event [OF assms(4) this, of ts] show ?thesis
    using reg(1) assms(8) obj by (simp add: TimerEvent_SetNextTick_def fires_of_def t' algebra_simps)
qed

theorem timer_event_schedule_witness:
  "let t = (snd (TimerEventCreator_Create 10 Ticker_new))\<lparr> tk_isRunning := True, tk_nowMs := 100 \<rparr>;
       t' = snd (Ticker_RegisterTimerEvent (Some 0) t)
   in fires_of 0 (fold (Ticker_UpdateTick (\<lambda>_ s. s)) [105, 110, 121, 128, 131] t') = [121, 131]"
proof -
  let ?t = "(snd (TimerEventCreator_Create 10 Ticker_new))\<lparr> tk_isRunning := True, tk_nowMs := 100 \<rparr>"
  have "ticker_ok ?t" "leaves_alone 0 (\<lambda>_ s. s)"
    by (simp_all add: ticker_ok_def leaves_alone_def TimerEventCreator_Create_def Ticker_new_def)
  from timer_event_schedule [OF this(1) _ _ this(2) _ _ surjective_pairing refl, of "[105, 110, 121, 128, 131]"]
  show ?thesis
    by (simp add: TimerEventCreator_Create_def Ticker_new_def TimerEvent_new_def fires_of_def word_le_nat_alt)
qed

text \<open>A one-shot event, as the documentation has it: its handler unregisters it, and the next round takes it out
  before it looks at the events.\<close>

lemma unregistered_never_fires:
  assumes "ticker_ok t" "event_id p t \<in> set (tk_unregisterTargetList t)"
  shows "p \<notin> set (fire_targets (Ticker_UnregisterTimerEventImpl (t\<lparr> tk_nowMs := now \<rparr>)))"
proof
  let ?t = "Ticker_UnregisterTimerEventImpl (t\<lparr> tk_nowMs := now \<rparr>)"
  have "tk_timerEvents ?t = filter (\<lambda>(i, _). i \<notin> set (tk_unregisterTargetList t)) (tk_timerEvents t)"
    by (auto simp: Ticker_UnregisterTimerEventImpl_def fold_erase)
  moreover assume "p \<in> set (fire_targets ?t)"
  ultimately obtain i where "(i, p) \<in> set (tk_timerEvents t)" "i \<notin> set (tk_unregisterTargetList t)"
    by (auto simp: fire_targets_def)
  then show False using ticker_okD(4) [OF assms(1)] assms(2) by blast
qed

end
