(* ===== verification/Server_Options.thy ===== *)
theory Server_Options
  imports Prelude
begin

text \<open>
  MultiSocketRUDPServer/RUDPCoreReadOptionFile: the options of the server. The parser of option files
  is a library class: what it finds under a section and a name is a parameter, and so is the conversion of
  the address to UTF-8. An option that was read stays set when a later one is missing.
\<close>

record CoreOptions =
  opt_numOfWorkerThread :: byte
  opt_numOfSockets :: ushort
  opt_maxPacketRetransmissionCount :: PacketRetransmissionCount
  opt_workerThreadOneFrameMs :: "32 word"
  opt_retransmissionMs :: "32 word"
  opt_minRetransmissionMs :: "32 word"
  opt_maxRetransmissionMs :: "32 word"
  opt_heartbeatThreadSleepMs :: "32 word"
  opt_timerTickMs :: "32 word"
  opt_maxHoldingPacketQueueSize :: byte
  opt_simulatedPacketLossPercent :: "32 word"
  opt_simulatedPacketLossSeed :: "32 word"
  opt_headerCode :: byte
  opt_xorCode :: byte
  opt_coreServerIp :: "byte list"
  opt_sessionBrokerPort :: PortType

datatype OptionFile = CoreOptionFile | SessionBrokerOptionFile

record OptionParser =
  GetValue_Byte :: "OptionFile \<Rightarrow> string \<Rightarrow> string \<Rightarrow> byte option"
  GetValue_Short :: "OptionFile \<Rightarrow> string \<Rightarrow> string \<Rightarrow> ushort option"
  GetValue_Int :: "OptionFile \<Rightarrow> string \<Rightarrow> string \<Rightarrow> 32 word option"
  GetValue_String :: "OptionFile \<Rightarrow> string \<Rightarrow> string \<Rightarrow> ushort list option"
  WideCharToMultiByte :: "ushort list \<Rightarrow> byte list"

definition options_new :: CoreOptions where
  "options_new =
     \<lparr> opt_numOfWorkerThread = 0, opt_numOfSockets = 0, opt_maxPacketRetransmissionCount = 0,
       opt_workerThreadOneFrameMs = 0, opt_retransmissionMs = 0, opt_minRetransmissionMs = 0,
       opt_maxRetransmissionMs = 0, opt_heartbeatThreadSleepMs = 0, opt_timerTickMs = 0,
       opt_maxHoldingPacketQueueSize = 0, opt_simulatedPacketLossPercent = 0, opt_simulatedPacketLossSeed = 0,
       opt_headerCode = 0, opt_xorCode = 0, opt_coreServerIp = [], opt_sessionBrokerPort = 0 \<rparr>"

text \<open>One \<open>if (GetValue(...) == false) return false;\<close>\<close>

definition require_value :: "'v option \<Rightarrow> (('v \<Rightarrow> 'v) \<Rightarrow> CoreOptions \<Rightarrow> CoreOptions) \<Rightarrow>
    (CoreOptions \<Rightarrow> bool \<times> CoreOptions) \<Rightarrow> CoreOptions \<Rightarrow> bool \<times> CoreOptions" where
  "require_value v set_field rest op =
     (case v of None \<Rightarrow> (False, op) | Some x \<Rightarrow> rest (set_field (\<lambda>_. x) op))"

definition default_value :: "'v \<Rightarrow> 'v option \<Rightarrow> (('v \<Rightarrow> 'v) \<Rightarrow> CoreOptions \<Rightarrow> CoreOptions) \<Rightarrow> CoreOptions \<Rightarrow> CoreOptions" where
  "default_value d v set_field op = set_field (\<lambda>_. case v of None \<Rightarrow> d | Some x \<Rightarrow> x) op"

text \<open>The bounds of the timeout are given both or not at all.\<close>

definition read_timeout_bounds :: "OptionParser \<Rightarrow> CoreOptions \<Rightarrow> bool \<times> CoreOptions" where
  "read_timeout_bounds P op =
     (let lo = GetValue_Int P CoreOptionFile ''CORE'' ''MIN_RETRANSMISSION_MS'';
          hi = GetValue_Int P CoreOptionFile ''CORE'' ''MAX_RETRANSMISSION_MS'';
          op1 = op\<lparr> opt_minRetransmissionMs := (case lo of None \<Rightarrow> opt_minRetransmissionMs op | Some x \<Rightarrow> x),
                    opt_maxRetransmissionMs := (case hi of None \<Rightarrow> opt_maxRetransmissionMs op | Some x \<Rightarrow> x) \<rparr>
      in if (lo \<noteq> None) \<noteq> (hi \<noteq> None) then (False, op1)
         else let op2 = (if lo = None then op1\<lparr> opt_minRetransmissionMs := opt_retransmissionMs op1,
                                               opt_maxRetransmissionMs := opt_retransmissionMs op1 \<rparr>
                         else op1)
              in (\<not> (opt_minRetransmissionMs op2 = 0 \<or> opt_minRetransmissionMs op2 > opt_retransmissionMs op2 \<or>
                     opt_retransmissionMs op2 > opt_maxRetransmissionMs op2), op2))"

text \<open>The second file: \<open>wcslen\<close> of the address is the length of the string.\<close>

definition read_broker_options :: "OptionParser \<Rightarrow> CoreOptions \<Rightarrow> bool \<times> CoreOptions" where
  "read_broker_options P op =
     (case GetValue_String P SessionBrokerOptionFile ''SESSION_BROKER'' ''CORE_IP'' of
        None \<Rightarrow> (False, op)
      | Some targetIP \<Rightarrow>
          if length targetIP = 0 \<or> length targetIP > 15 then (False, op)
          else require_value (GetValue_Short P SessionBrokerOptionFile ''SESSION_BROKER'' ''SESSION_BROKER_PORT'')
                 opt_sessionBrokerPort_update
                 (\<lambda>op1. (True, op1\<lparr> opt_coreServerIp := WideCharToMultiByte P targetIP \<rparr>)) op)"

definition read_core_tail :: "OptionParser \<Rightarrow> CoreOptions \<Rightarrow> bool \<times> CoreOptions" where
  "read_core_tail P =
     require_value (GetValue_Int P CoreOptionFile ''CORE'' ''HEARTBEAT_THREAD_SLEEP_MS'') opt_heartbeatThreadSleepMs_update
    (require_value (GetValue_Int P CoreOptionFile ''CORE'' ''TIMER_TICK_MS'') opt_timerTickMs_update
    (require_value (GetValue_Byte P CoreOptionFile ''CORE'' ''MAX_HOLDING_PACKET_QUEUE_SIZE'')
       opt_maxHoldingPacketQueueSize_update
    (\<lambda>op. require_value (GetValue_Byte P CoreOptionFile ''SERIALIZEBUF'' ''PACKET_CODE'') opt_headerCode_update
         (require_value (GetValue_Byte P CoreOptionFile ''SERIALIZEBUF'' ''PACKET_KEY'') opt_xorCode_update
         (read_broker_options P))
         (default_value 0 (GetValue_Int P CoreOptionFile ''CORE'' ''SIMULATED_PACKET_LOSS_SEED'')
            opt_simulatedPacketLossSeed_update
         (default_value 0 (GetValue_Int P CoreOptionFile ''CORE'' ''SIMULATED_PACKET_LOSS_PERCENT'')
            opt_simulatedPacketLossPercent_update op)))))"

definition ReadOptionFile :: "OptionParser \<Rightarrow> CoreOptions \<Rightarrow> bool \<times> CoreOptions" where
  "ReadOptionFile P =
     require_value (GetValue_Byte P CoreOptionFile ''CORE'' ''THREAD_COUNT'') opt_numOfWorkerThread_update
    (require_value (GetValue_Short P CoreOptionFile ''CORE'' ''NUM_OF_SOCKET'') opt_numOfSockets_update
    (require_value (GetValue_Short P CoreOptionFile ''CORE'' ''MAX_PACKET_RETRANSMISSION_COUNT'')
       opt_maxPacketRetransmissionCount_update
    (require_value (GetValue_Int P CoreOptionFile ''CORE'' ''WORKER_THREAD_ONE_FRAME_MS'') opt_workerThreadOneFrameMs_update
    (require_value (GetValue_Int P CoreOptionFile ''CORE'' ''RETRANSMISSION_MS'') opt_retransmissionMs_update
    (\<lambda>op. let (ok, op1) = read_timeout_bounds P op in if \<not> ok then (False, op1) else read_core_tail P op1)))))"

section \<open>What accepted options guarantee\<close>

definition timeouts_ok :: "CoreOptions \<Rightarrow> bool" where
  "timeouts_ok op \<longleftrightarrow> 0 < opt_minRetransmissionMs op \<and> opt_minRetransmissionMs op \<le> opt_retransmissionMs op \<and>
     opt_retransmissionMs op \<le> opt_maxRetransmissionMs op"

lemma timeouts_ok_bounds: "read_timeout_bounds P op = (True, op') \<Longrightarrow> timeouts_ok op'"
  by (auto simp: read_timeout_bounds_def timeouts_ok_def Let_def not_less word_gt_0 split: if_splits)

lemma timeouts_ok_fields:
  "timeouts_ok (opt_heartbeatThreadSleepMs_update f op) = timeouts_ok op"
  "timeouts_ok (opt_timerTickMs_update f op) = timeouts_ok op"
  "timeouts_ok (opt_maxHoldingPacketQueueSize_update g op) = timeouts_ok op"
  "timeouts_ok (opt_simulatedPacketLossPercent_update f op) = timeouts_ok op"
  "timeouts_ok (opt_simulatedPacketLossSeed_update f op) = timeouts_ok op"
  "timeouts_ok (opt_headerCode_update g op) = timeouts_ok op" "timeouts_ok (opt_xorCode_update g op) = timeouts_ok op"
  "timeouts_ok (opt_coreServerIp_update h op) = timeouts_ok op" "timeouts_ok (opt_sessionBrokerPort_update k op) = timeouts_ok op"
  by (simp_all add: timeouts_ok_def)

text \<open>A server that read its options has an initial timeout between its bounds, none of them 0, so that
  \<open>RetransmissionTimeoutEstimator::Configure\<close> takes it as it is; and an address of 1 to 15 characters.\<close>

lemma accepted_options:
  assumes "ReadOptionFile P op = (True, op')"
  shows "timeouts_ok op' \<and>
    (\<exists>ip. GetValue_String P SessionBrokerOptionFile ''SESSION_BROKER'' ''CORE_IP'' = Some ip \<and>
       1 \<le> length ip \<and> length ip \<le> 15 \<and> opt_coreServerIp op' = WideCharToMultiByte P ip)"
proof -
  obtain op1 op2 where "read_timeout_bounds P op1 = (True, op2)" "read_core_tail P op2 = (True, op')"
    using assms by (auto simp: ReadOptionFile_def require_value_def split: option.splits prod.splits if_splits)
  with timeouts_ok_bounds [of P op1 op2] show ?thesis
    by (auto simp: read_core_tail_def read_broker_options_def require_value_def default_value_def timeouts_ok_fields
          Suc_le_eq not_less split: option.splits if_splits)
qed

end
