(* ===== verification/Server_Start.thy ===== *)
theory Server_Start
  imports Server_System Server_Options Ticker
begin

text \<open>
  Starting and stopping the server: MultiSocketRUDPCore.cpp, RUDPThreadManager, RIOManager and
  the listening side of RUDPSessionBroker. The state is what the process holds of Windows
  (\<open>System\<close>), and what the core and its parts keep of it. A handle that is closed or set while
  it is not open sets \<open>sys_badUse\<close>. A call that does not return, because a thread it joins cannot
  end, is \<open>None\<close>. The sockets of the sessions belong to the state of the sessions.
\<close>

section \<open>Windows\<close>

text \<open>Handles by their use.\<close>

datatype HandleKind = EventHandle | TimerHandle | DatagramSocket | ListenSocket | ClientSocket | CompletionQueue

record System =
  sys_open :: "(HandleKind \<times> nat) list"
  sys_signalled :: "nat list"
  sys_badUse :: bool
  sys_startups :: int
  sys_query :: nat

text \<open>What the calls return. The factory of the content may be a null function, and a session it returns
  a null pointer.\<close>

record 'k StartEnv =
  se_create :: "HandleKind \<Rightarrow> (HandleKind \<times> nat) list \<Rightarrow> nat \<Rightarrow> nat option"
  se_createCompletionQueue :: "nat \<Rightarrow> (HandleKind \<times> nat) list \<Rightarrow> nat \<Rightarrow> nat option"
  se_wsaStartup :: "nat \<Rightarrow> bool"
  se_wsaIoctl :: "nat \<Rightarrow> bool"
  se_bind :: "nat \<Rightarrow> bool"
  se_listen :: "nat \<Rightarrow> bool"
  se_steadyMs :: "nat \<Rightarrow> 64 word"
  se_parser :: OptionParser
  se_factory :: "(nat \<Rightarrow> 'k Session option) option"
  se_server :: "'k Env"
  se_broker :: "'k BrokerEnv"

text \<open>Windows gives out no handle that is open.\<close>

definition handle_law :: "'k StartEnv \<Rightarrow> bool" where
  "handle_law E \<longleftrightarrow> (\<forall>k hs q h. se_create E k hs q = Some h \<longrightarrow> (k, h) \<notin> set hs) \<and>
     (\<forall>n hs q h. se_createCompletionQueue E n hs q = Some h \<longrightarrow> (CompletionQueue, h) \<notin> set hs)"

definition sys_ask :: "(nat \<Rightarrow> 'a) \<Rightarrow> System \<Rightarrow> 'a \<times> System" where
  "sys_ask f s = (f (sys_query s), s\<lparr> sys_query := sys_query s + 1 \<rparr>)"

definition opened :: "HandleKind \<Rightarrow> nat option \<times> System \<Rightarrow> nat option \<times> System" where
  "opened k r = (case r of (None, s) \<Rightarrow> (None, s) | (Some h, s) \<Rightarrow> (Some h, s\<lparr> sys_open := (k, h) # sys_open s \<rparr>))"

definition create_handle :: "'k StartEnv \<Rightarrow> HandleKind \<Rightarrow> System \<Rightarrow> nat option \<times> System" where
  "create_handle E k s = opened k (sys_ask (se_create E k (sys_open s)) s)"

definition close_handle :: "HandleKind \<Rightarrow> nat \<Rightarrow> System \<Rightarrow> System" where
  "close_handle k h s =
     (if (k, h) \<notin> set (sys_open s) then s\<lparr> sys_badUse := True \<rparr>
      else s\<lparr> sys_open := remove1 (k, h) (sys_open s),
              sys_signalled := (if k = EventHandle then removeAll h (sys_signalled s) else sys_signalled s) \<rparr>)"

definition SetEvent :: "nat \<Rightarrow> System \<Rightarrow> System" where
  "SetEvent h s =
     (if (EventHandle, h) \<notin> set (sys_open s) then s\<lparr> sys_badUse := True \<rparr>
      else s\<lparr> sys_signalled := List.insert h (sys_signalled s) \<rparr>)"

text \<open>The caller resets its field.\<close>

definition CloseHandleIfValid :: "HandleKind \<Rightarrow> nat option \<Rightarrow> System \<Rightarrow> System" where
  "CloseHandleIfValid k handle s = (case handle of None \<Rightarrow> s | Some h \<Rightarrow> close_handle k h s)"

section \<open>RIOManager\<close>

record RIOManager =
  rm_isInitialized :: bool
  rm_numOfWorkerThreads :: nat
  rm_rioCompletionQueues :: "nat list"
  rm_registeredBuffers :: "nat list"

definition RIOManager_new :: RIOManager where
  "RIOManager_new = \<lparr> rm_isInitialized = False, rm_numOfWorkerThreads = 0, rm_rioCompletionQueues = [],
     rm_registeredBuffers = [] \<rparr>"

definition RIOManager_LoadRIOFunctionTable :: "'k StartEnv \<Rightarrow> System \<Rightarrow> bool \<times> System" where
  "RIOManager_LoadRIOFunctionTable E s =
     (case create_handle E DatagramSocket s of
        (None, s1) \<Rightarrow> (False, s1)
      | (Some tempSocket, s1) \<Rightarrow>
          let (ok, s2) = sys_ask (se_wsaIoctl E) s1 in (ok, close_handle DatagramSocket tempSocket s2))"

definition RIOManager_CreateCompletionQueue :: "'k StartEnv \<Rightarrow> nat \<Rightarrow> System \<Rightarrow> nat option \<times> System" where
  "RIOManager_CreateCompletionQueue E queueSize s =
     opened CompletionQueue (sys_ask (se_createCompletionQueue E queueSize (sys_open s)) s)"

fun create_queues :: "'k StartEnv \<Rightarrow> nat \<Rightarrow> nat \<Rightarrow> RIOManager \<Rightarrow> System \<Rightarrow> bool \<times> RIOManager \<times> System" where
  "create_queues E queueSize 0 r s = (True, r, s)"
| "create_queues E queueSize (Suc n) r s =
     (case RIOManager_CreateCompletionQueue E queueSize s of
        (None, s1) \<Rightarrow> (False, r, s1)
      | (Some rioCQ, s1) \<Rightarrow>
          create_queues E queueSize n (r\<lparr> rm_rioCompletionQueues := rm_rioCompletionQueues r @ [rioCQ] \<rparr>) s1)"

definition sessions_per_worker :: "nat \<Rightarrow> nat \<Rightarrow> nat" where
  "sessions_per_worker numOfSockets workers =
     numOfSockets div workers + (if numOfSockets mod workers \<noteq> 0 then 1 else 0)"

definition RIOManager_Initialize ::
    "'k StartEnv \<Rightarrow> nat \<Rightarrow> nat \<Rightarrow> RIOManager \<Rightarrow> System \<Rightarrow> bool \<times> RIOManager \<times> System" where
  "RIOManager_Initialize E numOfSockets inNumOfWorkerThreads r s =
     (if rm_isInitialized r then (True, r, s)
      else let r1 = r\<lparr> rm_numOfWorkerThreads := inNumOfWorkerThreads \<rparr> in
        if numOfSockets = 0 \<or> inNumOfWorkerThreads = 0 then (False, r1, s)
        else let (loaded, s1) = RIOManager_LoadRIOFunctionTable E s in
          if \<not> loaded then (False, r1, s1)
          else let n = sessions_per_worker numOfSockets inNumOfWorkerThreads in
            if n > (2 ^ 32 - 1) div (RECV_OUTSTANDING_COUNT + 1) then (False, r1, s1)
            else let (created, r2, s2) =
                   create_queues E (n * (RECV_OUTSTANDING_COUNT + 1)) inNumOfWorkerThreads r1 s1
                 in if \<not> created then (False, r2, s2) else (True, r2\<lparr> rm_isInitialized := True \<rparr>, s2))"

definition RIOManager_Shutdown :: "RIOManager \<Rightarrow> System \<Rightarrow> RIOManager \<times> System" where
  "RIOManager_Shutdown r s =
     (if \<not> rm_isInitialized r then (r, s)
      else (r\<lparr> rm_registeredBuffers := [], rm_rioCompletionQueues := [], rm_isInitialized := False \<rparr>,
            fold (close_handle CompletionQueue) (rm_rioCompletionQueues r) s))"

text \<open>\<open>registered\<close> is what RIO returns for the buffer, which is \<open>None\<close> when it is a null pointer.\<close>

definition RIOManager_RegisterRIOBuffer :: "nat option \<Rightarrow> bool \<Rightarrow> RIOManager \<Rightarrow> nat option \<times> RIOManager" where
  "RIOManager_RegisterRIOBuffer registered isNull r =
     (if \<not> rm_isInitialized r \<or> isNull then (None, r)
      else case registered of None \<Rightarrow> (None, r)
        | Some bufferId \<Rightarrow> (Some bufferId, r\<lparr> rm_registeredBuffers := rm_registeredBuffers r @ [bufferId] \<rparr>))"

section \<open>RUDPThreadManager\<close>

datatype THREAD_GROUP = IO_WORKER_THREAD | RECV_LOGIC_WORKER_THREAD | RETRANSMISSION_THREAD
  | SESSION_RELEASE_THREAD | HEARTBEAT_THREAD

type_synonym ThreadGroups = "(THREAD_GROUP \<times> byte) list"

definition ThreadManager_StartThreads :: "THREAD_GROUP \<Rightarrow> byte \<Rightarrow> ThreadGroups \<Rightarrow> ThreadGroups" where
  "ThreadManager_StartThreads threadGroup numOfThreads ts =
     (if threadGroup \<in> set (map fst ts) then ts else ts @ [(threadGroup, numOfThreads)])"

section \<open>RUDPSessionBroker\<close>

text \<open>\<open>bk_workers\<close> are the threads of the pool that run; an invalid socket is \<open>None\<close>.\<close>

record Broker =
  bk_isRunning :: bool
  bk_sessionBrokerListenSocket :: "nat option"
  bk_acceptThread :: bool
  bk_workers :: nat
  bk_clientQueue :: "nat list"

abbreviation (input) BROKER_THREAD_POOL_SIZE :: nat where "BROKER_THREAD_POOL_SIZE \<equiv> 4"

definition Broker_new :: Broker where
  "Broker_new = \<lparr> bk_isRunning = False, bk_sessionBrokerListenSocket = None, bk_acceptThread = False,
     bk_workers = 0, bk_clientQueue = [] \<rparr>"

definition Broker_OpenSessionBrokerSocket :: "'k StartEnv \<Rightarrow> Broker \<Rightarrow> System \<Rightarrow> bool \<times> Broker \<times> System" where
  "Broker_OpenSessionBrokerSocket E b s =
     (let (sock, s1) = create_handle E ListenSocket s; b1 = b\<lparr> bk_sessionBrokerListenSocket := sock \<rparr> in
      case sock of None \<Rightarrow> (False, b1, s1)
      | Some h \<Rightarrow>
          let (bound, s2) = sys_ask (se_bind E) s1 in
          if \<not> bound then (False, b1, close_handle ListenSocket h s2)
          else let (listening, s3) = sys_ask (se_listen E) s2 in
            if \<not> listening then (False, b1, close_handle ListenSocket h s3) else (True, b1, s3))"

definition Broker_Start :: "'k StartEnv \<Rightarrow> Broker \<Rightarrow> System \<Rightarrow> bool \<times> Broker \<times> System" where
  "Broker_Start E b s =
     (if bk_isRunning b then (False, b, s)
      else let (ok, b1, s1) = Broker_OpenSessionBrokerSocket E b s in
        if \<not> ok then (False, b1, s1)
        else (True, b1\<lparr> bk_workers := bk_workers b1 + BROKER_THREAD_POOL_SIZE, bk_isRunning := True,
                        bk_acceptThread := True \<rparr>, s1))"

definition Broker_CloseListenSocket :: "Broker \<Rightarrow> System \<Rightarrow> Broker \<times> System" where
  "Broker_CloseListenSocket b s =
     (case bk_sessionBrokerListenSocket b of None \<Rightarrow> (b, s)
      | Some h \<Rightarrow> (b\<lparr> bk_sessionBrokerListenSocket := None \<rparr>, close_handle ListenSocket h s))"

text \<open>The worker threads end without looking at the connections that still wait.\<close>

definition Broker_Stop :: "Broker \<Rightarrow> System \<Rightarrow> Broker \<times> System" where
  "Broker_Stop b s =
     (if \<not> bk_isRunning b then (b, s)
      else let (b1, s1) = Broker_CloseListenSocket b s
           in (b1\<lparr> bk_acceptThread := False, bk_workers := 0, bk_isRunning := False \<rparr>, s1))"

text \<open>A turn of \<open>RunSessionBrokerThread\<close> and of \<open>RunBrokerWorkerThread\<close>.\<close>

definition Broker_accept :: "'k StartEnv \<Rightarrow> Broker \<Rightarrow> System \<Rightarrow> Broker \<times> System" where
  "Broker_accept E b s =
     (case create_handle E ClientSocket s of
        (None, s1) \<Rightarrow> (b, s1)
      | (Some clientSocket, s1) \<Rightarrow> (b\<lparr> bk_clientQueue := bk_clientQueue b @ [clientSocket] \<rparr>, s1))"

definition Broker_take :: "Broker \<Rightarrow> System \<Rightarrow> Broker \<times> System" where
  "Broker_take b s =
     (case bk_clientQueue b of [] \<Rightarrow> (b, s)
      | clientSocket # rest \<Rightarrow> (b\<lparr> bk_clientQueue := rest \<rparr>, close_handle ClientSocket clientSocket s))"

section \<open>MultiSocketRUDPCore\<close>

datatype SERVER_FATAL_ERROR_CODE = RIO_COMPLETION_QUEUE_CORRUPT | RECV_LOGIC_WAIT_FAILED | RECV_LOGIC_EVENT_SIGNAL_FAILED

record ServerFatalError =
  fe_code :: SERVER_FATAL_ERROR_CODE
  fe_threadId :: ThreadIdType
  fe_nativeErrorCode :: "32 word"

text \<open>A smart pointer that is null is \<open>None\<close>. \<open>co_world\<close> holds what the session manager, the
  schedulers and the queues contain; \<open>co_schedulers\<close> are the timer and the event of each scheduler. \<open>co_notified\<close>
  records the calls of the handler of fatal errors.\<close>

record 'k Core =
  co_system :: System
  co_world :: "'k World"
  co_options :: CoreOptions
  co_isServerStopped :: bool
  co_fatalErrorHandler :: bool
  co_fatalError :: "ServerFatalError option"
  co_notified :: "ServerFatalError list"
  co_loggerRunning :: bool
  co_delegate :: bool
  co_sessionManager :: bool
  co_rioManager :: "RIOManager option"
  co_threadManager :: "ThreadGroups option"
  co_recvLogicThreadEventStopHandle :: "nat option"
  co_sessionReleaseStopEventHandle :: "nat option"
  co_sessionReleaseEventHandle :: "nat option"
  co_retransmissionStopEventHandle :: "nat option"
  co_recvLogicThreadEventHandles :: "nat option list"
  co_schedulers :: "(nat option \<times> nat option) list"
  co_sessionBroker :: "Broker option"
  co_ticker :: TickerState

definition upd_system :: "(System \<Rightarrow> System) \<Rightarrow> 'k Core \<Rightarrow> 'k Core" where
  "upd_system f c = c\<lparr> co_system := f (co_system c) \<rparr>"

definition upd_world :: "('k World \<Rightarrow> 'k World) \<Rightarrow> 'k Core \<Rightarrow> 'k Core" where
  "upd_world f c = c\<lparr> co_world := f (co_world c) \<rparr>"

text \<open>The environment of the handlers has the options that were read.\<close>

definition server_env :: "'k StartEnv \<Rightarrow> CoreOptions \<Rightarrow> 'k Env" where
  "server_env E op = (se_server E)\<lparr> env_retransmissionMs := opt_retransmissionMs op,
     env_minRetransmissionMs := opt_minRetransmissionMs op, env_maxRetransmissionMs := opt_maxRetransmissionMs op,
     env_heartbeatThreadSleepMs := opt_heartbeatThreadSleepMs op,
     env_maxPacketRetransmissionCount := opt_maxPacketRetransmissionCount op,
     env_maximumHoldingPacketQueueSize := opt_maxHoldingPacketQueueSize op \<rparr>"

subsection \<open>Fatal errors\<close>

definition Core_SetFatalErrorHandler :: "bool \<Rightarrow> 'k Core \<Rightarrow> 'k Core" where
  "Core_SetFatalErrorHandler inHandler c =
     (let c1 = c\<lparr> co_fatalErrorHandler := inHandler \<rparr> in
      case co_fatalError c1 of None \<Rightarrow> c1
      | Some e \<Rightarrow> if inHandler then c1\<lparr> co_notified := co_notified c1 @ [e] \<rparr> else c1)"

definition Core_ReportFatalError :: "ServerFatalError \<Rightarrow> 'k Core \<Rightarrow> 'k Core" where
  "Core_ReportFatalError e c =
     (if co_fatalError c \<noteq> None then c
      else let c1 = c\<lparr> co_fatalError := Some e \<rparr>
           in if co_fatalErrorHandler c1 then c1\<lparr> co_notified := co_notified c1 @ [e] \<rparr> else c1)"

subsection \<open>Starting\<close>

text \<open>\<open>make_unique<RUDPSessionManager>\<close>: a manager with no pool. The old one, if any, clears its sessions.\<close>

definition Manager_ClearAllSessions :: "'k World \<Rightarrow> 'k World" where
  "Manager_ClearAllSessions w = w\<lparr> w_unusedSessionIdList := [], w_unusedSessionIdSet := {}, w_sessions := [],
     w_connectedUserCount := 0, w_isInitialized := False \<rparr>"

definition Manager_new :: "'k World \<Rightarrow> 'k World" where
  "Manager_new w = (Manager_ClearAllSessions w)\<lparr> w_allConnectedCount := 0, w_allDisconnectedCount := 0,
     w_allDisconnectedByRetransmissionCount := 0 \<rparr>"

definition Core_InitNetwork :: "'k StartEnv \<Rightarrow> 'k Core \<Rightarrow> bool \<times> 'k Core" where
  "Core_InitNetwork E c =
     (let (started, s) = sys_ask (se_wsaStartup E) (co_system c) in
      if \<not> started then (False, c\<lparr> co_system := s \<rparr>)
      else (True, c\<lparr> co_system := s\<lparr> sys_startups := sys_startups s + 1 \<rparr> \<rparr>))"

definition Core_CreateSessionManager :: "'k StartEnv \<Rightarrow> 'k Core \<Rightarrow> bool \<times> 'k Core" where
  "Core_CreateSessionManager E c =
     (let c1 = (upd_world Manager_new c)\<lparr> co_sessionManager := True \<rparr>; op = co_options c1 in
      case se_factory E of None \<Rightarrow> (False, c1)
      | Some factory \<Rightarrow>
          let (ok, w) = Manager_Initialize (server_env E op) (opt_numOfWorkerThread op)
                          (map factory [0..<unat (opt_numOfSockets op)]) (co_world c1)
          in (ok, c1\<lparr> co_world := w \<rparr>))"

text \<open>The manager that is replaced is shut down by its destructor.\<close>

definition Core_InitRIO :: "'k StartEnv \<Rightarrow> 'k Core \<Rightarrow> bool \<times> 'k Core" where
  "Core_InitRIO E c =
     (let s = (case co_rioManager c of None \<Rightarrow> co_system c | Some old \<Rightarrow> snd (RIOManager_Shutdown old (co_system c)));
          (ok, r, s1) = RIOManager_Initialize E (unat (opt_numOfSockets (co_options c)))
                          (unat (opt_numOfWorkerThread (co_options c))) RIOManager_new s
      in (ok, c\<lparr> co_rioManager := Some r, co_system := s1 \<rparr>))"

definition create_event :: "'k StartEnv \<Rightarrow> (nat option \<Rightarrow> 'k Core \<Rightarrow> 'k Core) \<Rightarrow> 'k Core \<Rightarrow> 'k Core" where
  "create_event E set_field c =
     (let (h, s) = create_handle E EventHandle (co_system c) in set_field h (c\<lparr> co_system := s \<rparr>))"

definition Core_CreateWorkerEventHandles :: "'k StartEnv \<Rightarrow> 'k Core \<Rightarrow> bool \<times> 'k Core" where
  "Core_CreateWorkerEventHandles E c =
     (let c1 = create_event E (\<lambda>h. co_recvLogicThreadEventStopHandle_update (\<lambda>_. h)) c;
          c2 = create_event E (\<lambda>h. co_sessionReleaseStopEventHandle_update (\<lambda>_. h)) c1;
          c3 = create_event E (\<lambda>h. co_sessionReleaseEventHandle_update (\<lambda>_. h)) c2;
          c4 = create_event E (\<lambda>h. co_retransmissionStopEventHandle_update (\<lambda>_. h)) c3
      in (\<not> (co_recvLogicThreadEventStopHandle c4 = None \<or> co_sessionReleaseStopEventHandle c4 = None \<or>
              co_sessionReleaseEventHandle c4 = None \<or> co_retransmissionStopEventHandle c4 = None), c4))"

text \<open>The first timer asked for has high resolution, the second not.\<close>

definition Core_CreateRetransmissionScheduler ::
    "'k StartEnv \<Rightarrow> System \<Rightarrow> (nat option \<times> nat option) option \<times> System" where
  "Core_CreateRetransmissionScheduler E s =
     (let (timer1, s1) = create_handle E TimerHandle s;
          (timer, s2) = (case timer1 of None \<Rightarrow> create_handle E TimerHandle s1 | Some h \<Rightarrow> (Some h, s1));
          (wake, s3) = create_handle E EventHandle s2
      in if timer \<noteq> None \<and> wake \<noteq> None then (Some (timer, wake), s3)
         else (None, CloseHandleIfValid EventHandle wake (CloseHandleIfValid TimerHandle timer s3)))"

fun worker_resources :: "'k StartEnv \<Rightarrow> nat \<Rightarrow> 'k Core \<Rightarrow> bool \<times> 'k Core" where
  "worker_resources E 0 c = (True, c)"
| "worker_resources E (Suc n) c =
     (let c1 = upd_world (\<lambda>w. w\<lparr> w_recvIOCompletedContexts := w_recvIOCompletedContexts w @ [[]] \<rparr>) c;
          (h, s1) = create_handle E EventHandle (co_system c1)
      in if h = None then (False, c1\<lparr> co_system := s1 \<rparr>)
         else let (scheduler, s2) = Core_CreateRetransmissionScheduler E s1;
                  c2 = c1\<lparr> co_system := s2, co_recvLogicThreadEventHandles := co_recvLogicThreadEventHandles c1 @ [h] \<rparr>
              in case scheduler of None \<Rightarrow> (False, c2)
                 | Some hs \<Rightarrow> worker_resources E n
                     (upd_world (\<lambda>w. w\<lparr> w_schedulers := w_schedulers w @ [[]] \<rparr>)
                        (c2\<lparr> co_schedulers := co_schedulers c2 @ [hs] \<rparr>)))"

definition Core_InitializeWorkerResources :: "'k StartEnv \<Rightarrow> 'k Core \<Rightarrow> (bool \<times> 'k Core) option" where
  "Core_InitializeWorkerResources E c =
     (let (now, s) = sys_ask (se_steadyMs E) (co_system c) in
      case Ticker_Start now (opt_timerTickMs (co_options c)) (co_ticker c) of None \<Rightarrow> None
      | Some t \<Rightarrow> Some (worker_resources E (unat (opt_numOfWorkerThread (co_options c)))
                          (c\<lparr> co_system := s, co_ticker := t \<rparr>)))"

definition Core_StartWorkerThreads :: "'k Core \<Rightarrow> 'k Core" where
  "Core_StartWorkerThreads c =
     (let n = opt_numOfWorkerThread (co_options c);
          start = ThreadManager_StartThreads RETRANSMISSION_THREAD n \<circ> ThreadManager_StartThreads RECV_LOGIC_WORKER_THREAD n \<circ>
            ThreadManager_StartThreads IO_WORKER_THREAD n \<circ> ThreadManager_StartThreads HEARTBEAT_THREAD 1 \<circ>
            ThreadManager_StartThreads SESSION_RELEASE_THREAD 1
      in c\<lparr> co_threadManager := map_option start (co_threadManager c) \<rparr>)"

text \<open>The broker that is replaced has been stopped, which its destructor checks.\<close>

definition Core_StartSessionBroker :: "'k StartEnv \<Rightarrow> 'k Core \<Rightarrow> bool \<times> 'k Core" where
  "Core_StartSessionBroker E c =
     (let s = (case co_sessionBroker c of None \<Rightarrow> co_system c | Some old \<Rightarrow> snd (Broker_Stop old (co_system c)));
          (ok, b, s1) = Broker_Start E Broker_new s
      in (ok, c\<lparr> co_sessionBroker := Some b, co_system := s1 \<rparr>))"

definition Core_RunAllThreads :: "'k StartEnv \<Rightarrow> 'k Core \<Rightarrow> (bool \<times> 'k Core) option" where
  "Core_RunAllThreads E c =
     (let (created, c1) = Core_CreateWorkerEventHandles E
            ((upd_world (\<lambda>w. w\<lparr> w_tps := 0 \<rparr>) c)\<lparr> co_threadManager := Some [] \<rparr>) in
      if \<not> created then Some (False, c1)
      else case Core_InitializeWorkerResources E c1 of None \<Rightarrow> None
        | Some (ok, c2) \<Rightarrow>
            if \<not> ok then Some (False, c2)
            else Some (Core_StartSessionBroker E (Core_StartWorkerThreads c2)))"

subsection \<open>Stopping\<close>

definition Core_CloseAllSessions :: "'k StartEnv \<Rightarrow> 'k Core \<Rightarrow> 'k Core" where
  "Core_CloseAllSessions E c =
     (if \<not> co_sessionManager c then c else upd_world (Manager_CloseAllSessions (server_env E (co_options c))) c)"

text \<open>Waiting for the sessions: \<open>meanwhile\<close> is what the threads do to the state until the count is looked at for
  the last time. When it never gets full, the wait does not end.\<close>

definition Core_WaitForAllSessionsReleased :: "('k World \<Rightarrow> 'k World) \<Rightarrow> 'k Core \<Rightarrow> 'k Core option" where
  "Core_WaitForAllSessionsReleased meanwhile c =
     (if \<not> co_sessionManager c \<or> \<not> w_isInitialized (co_world c) then Some c
      else let c1 = (if co_threadManager c = None \<or> co_threadManager c = Some [] then c else upd_world meanwhile c)
           in if Manager_GetUnusedSessionCount (co_world c1) < opt_numOfSockets (co_options c1) then None else Some c1)"

definition signal_if_valid :: "nat option \<Rightarrow> System \<Rightarrow> System" where
  "signal_if_valid h s = (case h of None \<Rightarrow> s | Some e \<Rightarrow> SetEvent e s)"

definition Core_SignalWorkerStopEvents :: "'k Core \<Rightarrow> 'k Core" where
  "Core_SignalWorkerStopEvents c =
     upd_system (signal_if_valid (co_retransmissionStopEventHandle c) \<circ>
       signal_if_valid (co_sessionReleaseStopEventHandle c) \<circ> signal_if_valid (co_recvLogicThreadEventStopHandle c)) c"

text \<open>Whether a thread that was asked to stop gets out of its wait.\<close>

definition signalled :: "nat option \<Rightarrow> 'k Core \<Rightarrow> bool" where
  "signalled h c \<longleftrightarrow> (case h of None \<Rightarrow> False | Some e \<Rightarrow> e \<in> set (sys_signalled (co_system c)))"

fun thread_ends :: "'k Core \<Rightarrow> THREAD_GROUP \<Rightarrow> bool" where
  "thread_ends c IO_WORKER_THREAD = True"
| "thread_ends c RECV_LOGIC_WORKER_THREAD = signalled (co_recvLogicThreadEventStopHandle c) c"
| "thread_ends c RETRANSMISSION_THREAD = signalled (co_retransmissionStopEventHandle c) c"
| "thread_ends c SESSION_RELEASE_THREAD = signalled (co_sessionReleaseStopEventHandle c) c"
| "thread_ends c HEARTBEAT_THREAD = True"

text \<open>What a thread still does before it ends.\<close>

fun thread_end :: "'k Env \<Rightarrow> THREAD_GROUP \<Rightarrow> ThreadIdType \<Rightarrow> 'k World \<Rightarrow> 'k World" where
  "thread_end E RECV_LOGIC_WORKER_THREAD threadId w = Core_OnRecvPacket E threadId w"
| "thread_end E RETRANSMISSION_THREAD threadId w = Core_DrainScheduler threadId w"
| "thread_end E _ threadId w = w"

definition thread_ids :: "byte \<Rightarrow> ThreadIdType list" where
  "thread_ids n = map of_nat [0..<unat n]"

definition end_groups :: "'k Env \<Rightarrow> ThreadGroups \<Rightarrow> 'k World \<Rightarrow> 'k World" where
  "end_groups E ts w = fold (\<lambda>(g, n). fold (thread_end E g) (thread_ids n)) ts w"

definition Core_StopAllThreads :: "'k StartEnv \<Rightarrow> 'k Core \<Rightarrow> 'k Core option" where
  "Core_StopAllThreads E c =
     (case co_threadManager c of None \<Rightarrow> Some c
      | Some ts \<Rightarrow>
          if \<exists>(g, n) \<in> set ts. 0 < n \<and> \<not> thread_ends c g then None
          else Some ((upd_world (end_groups (server_env E (co_options c)) ts) c)\<lparr> co_threadManager := Some [] \<rparr>))"

definition Core_CloseWorkerEventHandles :: "'k Core \<Rightarrow> 'k Core" where
  "Core_CloseWorkerEventHandles c =
     (upd_system
        (CloseHandleIfValid EventHandle (co_retransmissionStopEventHandle c) \<circ>
         CloseHandleIfValid EventHandle (co_sessionReleaseStopEventHandle c) \<circ>
         CloseHandleIfValid EventHandle (co_sessionReleaseEventHandle c) \<circ>
         CloseHandleIfValid EventHandle (co_recvLogicThreadEventStopHandle c) \<circ>
         fold (CloseHandleIfValid EventHandle) (co_recvLogicThreadEventHandles c)) c)
       \<lparr> co_recvLogicThreadEventHandles := [], co_recvLogicThreadEventStopHandle := None,
         co_sessionReleaseEventHandle := None, co_sessionReleaseStopEventHandle := None,
         co_retransmissionStopEventHandle := None \<rparr>"

text \<open>With \<open>retransmissionSchedulers.clear()\<close> behind it.\<close>

definition Core_CloseRetransmissionSchedulerHandles :: "'k Core \<Rightarrow> 'k Core" where
  "Core_CloseRetransmissionSchedulerHandles c =
     (upd_world (\<lambda>w. w\<lparr> w_schedulers := [] \<rparr>)
        (upd_system (fold (\<lambda>(timer, wake) s. CloseHandleIfValid EventHandle wake (CloseHandleIfValid TimerHandle timer s))
           (co_schedulers c)) c))\<lparr> co_schedulers := [] \<rparr>"

definition Core_ClearAllSession :: "'k Core \<Rightarrow> 'k Core" where
  "Core_ClearAllSession c =
     (let c1 = upd_world (\<lambda>w. w\<lparr> w_releaseSessionIdList := [] \<rparr>) c
      in if \<not> co_sessionManager c1 then c1 else upd_world Manager_ClearAllSessions c1)"

definition Core_StopBroker :: "'k Core \<Rightarrow> 'k Core" where
  "Core_StopBroker c =
     (case co_sessionBroker c of None \<Rightarrow> c
      | Some b \<Rightarrow> let (b1, s1) = Broker_Stop b (co_system c) in c\<lparr> co_sessionBroker := Some b1, co_system := s1 \<rparr>)"

definition Core_StopServer :: "'k StartEnv \<Rightarrow> ('k World \<Rightarrow> 'k World) \<Rightarrow> 'k Core \<Rightarrow> 'k Core option" where
  "Core_StopServer E meanwhile c =
     (case Core_WaitForAllSessionsReleased meanwhile (Core_CloseAllSessions E (Core_StopBroker c)) of None \<Rightarrow> None
      | Some c2 \<Rightarrow>
          case Core_StopAllThreads E (Core_SignalWorkerStopEvents c2) of None \<Rightarrow> None
          | Some c3 \<Rightarrow>
              let c4 = Core_CloseRetransmissionSchedulerHandles (Core_CloseWorkerEventHandles c3);
                  c5 = Core_ClearAllSession (c4\<lparr> co_ticker := Ticker_Stop (co_ticker c4) \<rparr>)
              in Some ((upd_system (\<lambda>s. s\<lparr> sys_startups := sys_startups s - 1 \<rparr>) c5)
                   \<lparr> co_delegate := False, co_loggerRunning := False, co_isServerStopped := True \<rparr>))"

definition Core_StartServer ::
    "'k StartEnv \<Rightarrow> ('k World \<Rightarrow> 'k World) \<Rightarrow> 'k Core \<Rightarrow> (bool \<times> 'k Core) option" where
  "Core_StartServer E meanwhile c =
     (let c0 = c\<lparr> co_loggerRunning := True \<rparr>;
          (opts, op) = ReadOptionFile (se_parser E) (co_options c0);
          c1 = c0\<lparr> co_options := op \<rparr>;
          failed = (\<lambda>c. map_option (Pair False) (Core_StopServer E meanwhile c))
      in if \<not> opts then Some (False, c1\<lparr> co_loggerRunning := False \<rparr>)
         else case Core_InitNetwork E (c1\<lparr> co_delegate := True \<rparr>) of
           (False, c2) \<Rightarrow> failed c2
         | (True, c2) \<Rightarrow> (case Core_CreateSessionManager E c2 of
             (False, c3) \<Rightarrow> failed c3
           | (True, c3) \<Rightarrow> (case Core_InitRIO E c3 of
               (False, c4) \<Rightarrow> failed c4
             | (True, c4) \<Rightarrow> (case Core_RunAllThreads E c4 of
                 None \<Rightarrow> None
               | Some (False, c5) \<Rightarrow> failed c5
               | Some (True, c5) \<Rightarrow> Some (True, c5)))))"

end
