(* ===== verification/Server_Handles.thy ===== *)
theory Server_Handles
  imports Server_Start
begin

text \<open>
  What a server holds of Windows while it is started, runs and is stopped: every handle is in exactly one
  field of the core or its parts, or it is one of those the code forgets (\<open>may_leak\<close>), and nothing is
  closed twice.
\<close>

section \<open>Holding handles\<close>

definition hm :: "HandleKind \<Rightarrow> nat option \<Rightarrow> (HandleKind \<times> nat) multiset" where
  "hm k h = (case h of None \<Rightarrow> {#} | Some v \<Rightarrow> {#(k, v)#})"

lemma hm_simps [simp]: "hm k None = {#}" "hm k (Some v) = {#(k, v)#}"
  by (simp_all add: hm_def)

definition may_leak :: "HandleKind \<Rightarrow> bool" where
  "may_leak k \<longleftrightarrow> k = ClientSocket \<or> k = CompletionQueue"

text \<open>The handles \<open>L\<close> are held; what else is open was forgotten.\<close>

definition owns :: "(HandleKind \<times> nat) multiset \<Rightarrow> System \<Rightarrow> bool" where
  "owns L s \<longleftrightarrow> \<not> sys_badUse s \<and> distinct (sys_open s) \<and>
     (\<exists>M. mset (sys_open s) = L + M \<and> (\<forall>x \<in># M. may_leak (fst x)))"

lemma owns_open: "owns L s \<Longrightarrow> x \<in># L \<Longrightarrow> x \<in> set (sys_open s)"
  by (metis owns_def set_mset_mset union_iff)

lemma owns_fields [simp]:
  "owns L (s\<lparr> sys_query := q \<rparr>) = owns L s" "owns L (s\<lparr> sys_startups := u \<rparr>) = owns L s"
  "owns L (s\<lparr> sys_signalled := es \<rparr>) = owns L s"
  by (simp_all add: owns_def)

lemma owns_ask: "sys_ask f s = (x, s') \<Longrightarrow> owns L s' = owns L s"
  by (auto simp: sys_ask_def)

lemma owns_forget:
  assumes "owns (add_mset x L) s" "may_leak (fst x)"
  shows "owns L s"
proof -
  obtain M where "mset (sys_open s) = add_mset x L + M" "\<forall>x \<in># M. may_leak (fst x)"
    using assms(1) by (auto simp: owns_def)
  then have "mset (sys_open s) = L + add_mset x M" "\<forall>x \<in># add_mset x M. may_leak (fst x)"
    using assms(2) by auto
  then show ?thesis using assms(1) unfolding owns_def by blast
qed

lemma owns_forget_all: "owns (K + L) s \<Longrightarrow> (\<And>x. x \<in># K \<Longrightarrow> may_leak (fst x)) \<Longrightarrow> owns L s"
  by (induction K) (auto intro: owns_forget)

lemma owns_opened:
  assumes "opened k (h, s) = (h', s')" "owns L s" "\<And>v. h = Some v \<Longrightarrow> (k, v) \<notin> set (sys_open s)"
  shows "owns (hm k h' + L) s'"
proof (cases h)
  case (Some v)
  obtain M where M: "mset (sys_open s) = L + M" "\<forall>x \<in># M. may_leak (fst x)"
    using assms(2) by (auto simp: owns_def)
  have s': "h' = Some v" "s' = s\<lparr> sys_open := (k, v) # sys_open s \<rparr>" using assms(1) Some by (auto simp: opened_def)
  have "mset (sys_open s') = hm k h' + L + M" using M(1) by (simp add: s')
  moreover have "\<not> sys_badUse s'" "distinct (sys_open s')" using assms(2) assms(3) [OF Some] by (simp_all add: s' owns_def)
  ultimately show ?thesis using M(2) unfolding owns_def by blast
qed (use assms in \<open>auto simp: opened_def\<close>)

lemma owns_create:
  assumes "create_handle E k s = (h, s')" "owns L s" "handle_law E"
  shows "owns (hm k h + L) s'"
  using assms unfolding create_handle_def sys_ask_def
  by (intro owns_opened [of k "se_create E k (sys_open s) (sys_query s)" "s\<lparr> sys_query := sys_query s + 1 \<rparr>"]) (auto simp: handle_law_def)

lemma owns_create_queue:
  assumes "RIOManager_CreateCompletionQueue E n s = (h, s')" "owns L s" "handle_law E"
  shows "owns (hm CompletionQueue h + L) s'"
  using assms unfolding RIOManager_CreateCompletionQueue_def sys_ask_def
  by (intro owns_opened [of CompletionQueue "se_createCompletionQueue E n (sys_open s) (sys_query s)"
        "s\<lparr> sys_query := sys_query s + 1 \<rparr>"])
     (auto simp: handle_law_def)

lemma owns_close:
  assumes "owns (add_mset (k, v) L) s"
  shows "owns L (close_handle k v s)"
proof -
  obtain M where M: "mset (sys_open s) = add_mset (k, v) L + M" "\<forall>x \<in># M. may_leak (fst x)"
    using assms by (auto simp: owns_def)
  have "(k, v) \<in> set (sys_open s)" using owns_open [OF assms] by simp
  then have c: "close_handle k v s = s\<lparr> sys_open := remove1 (k, v) (sys_open s),
      sys_signalled := (if k = EventHandle then removeAll v (sys_signalled s) else sys_signalled s) \<rparr>"
    by (simp add: close_handle_def)
  have "mset (sys_open (close_handle k v s)) = L + M" using M(1) by (simp add: c)
  moreover have "\<not> sys_badUse (close_handle k v s)" "distinct (sys_open (close_handle k v s))"
    using assms by (simp_all add: c owns_def)
  ultimately show ?thesis using M(2) unfolding owns_def by blast
qed

lemma owns_CloseHandleIfValid: "owns (hm k h + L) s \<Longrightarrow> owns L (CloseHandleIfValid k h s)"
  by (cases h) (auto simp: CloseHandleIfValid_def intro: owns_close)

lemma owns_close_all:
  "owns (mset (map (Pair k) hs) + L) s \<Longrightarrow> owns L (fold (close_handle k) hs s)"
proof (induction hs arbitrary: s)
  case (Cons h hs)
  then have "owns (mset (map (Pair k) hs) + L) (close_handle k h s)" by (intro owns_close) simp
  then show ?case using Cons.IH by simp
qed simp

lemma owns_SetEvent: "owns L s \<Longrightarrow> (EventHandle, v) \<in># L \<Longrightarrow> owns L (SetEvent v s)"
  using owns_open [of L s] by (simp add: SetEvent_def)

section \<open>What the parts of the core hold\<close>

definition rio_holds :: "RIOManager \<Rightarrow> (HandleKind \<times> nat) multiset" where
  "rio_holds r = (if rm_isInitialized r then mset (map (Pair CompletionQueue) (rm_rioCompletionQueues r)) else {#})"

definition broker_holds :: "Broker \<Rightarrow> (HandleKind \<times> nat) multiset" where
  "broker_holds b = (if bk_isRunning b then hm ListenSocket (bk_sessionBrokerListenSocket b) else {#}) +
     mset (map (Pair ClientSocket) (bk_clientQueue b))"

definition event_holds :: "'k Core \<Rightarrow> (HandleKind \<times> nat) multiset" where
  "event_holds c = hm EventHandle (co_recvLogicThreadEventStopHandle c) +
     hm EventHandle (co_sessionReleaseStopEventHandle c) + hm EventHandle (co_sessionReleaseEventHandle c) +
     hm EventHandle (co_retransmissionStopEventHandle c)"

definition worker_holds :: "'k Core \<Rightarrow> (HandleKind \<times> nat) multiset" where
  "worker_holds c = sum_list (map (hm EventHandle) (co_recvLogicThreadEventHandles c)) +
     sum_list (map (\<lambda>(timer, wake). hm TimerHandle timer + hm EventHandle wake) (co_schedulers c))"

definition core_holds :: "'k Core \<Rightarrow> (HandleKind \<times> nat) multiset" where
  "core_holds c = event_holds c + worker_holds c +
     (case co_rioManager c of None \<Rightarrow> {#} | Some r \<Rightarrow> rio_holds r) +
     (case co_sessionBroker c of None \<Rightarrow> {#} | Some b \<Rightarrow> broker_holds b)"

definition owns_core :: "'k Core \<Rightarrow> bool" where
  "owns_core c \<longleftrightarrow> owns (core_holds c) (co_system c)"

lemmas holds_defs = core_holds_def event_holds_def worker_holds_def

lemma owns_core_upd_world [simp]: "owns_core (upd_world f c) = owns_core c"
  by (simp add: owns_core_def holds_defs upd_world_def)

subsection \<open>RIOManager\<close>

lemma owns_LoadRIOFunctionTable:
  assumes "RIOManager_LoadRIOFunctionTable E s = (ok, s')" "owns L s" "handle_law E"
  shows "owns L s'"
proof -
  obtain h s1 where c: "create_handle E DatagramSocket s = (h, s1)" by (cases "create_handle E DatagramSocket s")
  note o1 = owns_create [OF c assms(2,3)]
  show ?thesis
  proof (cases h)
    case None
    then show ?thesis using assms(1) c o1 by (simp add: RIOManager_LoadRIOFunctionTable_def)
  next
    case (Some v)
    obtain x s2 where a: "sys_ask (se_wsaIoctl E) s1 = (x, s2)" by (cases "sys_ask (se_wsaIoctl E) s1")
    have "owns (add_mset (DatagramSocket, v) L) s2" using o1 Some owns_ask [OF a] by simp
    from owns_close [OF this] show ?thesis using assms(1) c a Some by (simp add: RIOManager_LoadRIOFunctionTable_def)
  qed
qed

lemma owns_create_queues:
  "create_queues E q n r s = (ok, r', s') \<Longrightarrow> handle_law E \<Longrightarrow>
   owns (mset (map (Pair CompletionQueue) (rm_rioCompletionQueues r)) + L) s \<Longrightarrow>
   owns (mset (map (Pair CompletionQueue) (rm_rioCompletionQueues r')) + L) s' \<and> rm_isInitialized r' = rm_isInitialized r"
proof (induction n arbitrary: r s)
  case (Suc n)
  obtain h s1 where c: "RIOManager_CreateCompletionQueue E q s = (h, s1)" by (cases "RIOManager_CreateCompletionQueue E q s")
  note o1 = owns_create_queue [OF c Suc.prems(3,2)]
  show ?case
  proof (cases h)
    case None
    then show ?thesis using Suc.prems(1) c o1 by auto
  next
    case (Some v)
    show ?thesis using Suc.IH [OF _ Suc.prems(2)] Suc.prems(1) c o1 Some by fastforce
  qed
qed auto

lemma owns_RIOManager_Initialize:
  assumes "RIOManager_Initialize E n m RIOManager_new s = (ok, r, s')" "owns L s" "handle_law E"
  shows "owns (rio_holds r + L) s'" "rm_isInitialized r = ok"
proof -
  obtain l s1 where load: "RIOManager_LoadRIOFunctionTable E s = (l, s1)" by (cases "RIOManager_LoadRIOFunctionTable E s")
  note o1 = owns_LoadRIOFunctionTable [OF load assms(2,3)]
  let ?r = "RIOManager_new\<lparr> rm_numOfWorkerThreads := m \<rparr>"
  let ?q = "sessions_per_worker n m * (RECV_OUTSTANDING_COUNT + 1)"
  obtain k r2 s2 where q: "create_queues E ?q m ?r s1 = (k, r2, s2)" by (metis prod_cases3)
  have "owns (mset (map (Pair CompletionQueue) (rm_rioCompletionQueues ?r)) + L) s1" using o1 by (simp add: RIOManager_new_def)
  note o2 = owns_create_queues [OF q assms(3) this]
  have "owns L s2" using o2 by (intro owns_forget_all [OF conjunct1 [OF o2]]) (auto simp: may_leak_def)
  with assms(1,2) o1 o2 load q show "owns (rio_holds r + L) s'" "rm_isInitialized r = ok"
    by (auto simp: RIOManager_Initialize_def Let_def rio_holds_def RIOManager_new_def split: if_splits)
qed

lemma owns_RIOManager_Shutdown:
  "RIOManager_Shutdown r s = (r', s') \<Longrightarrow> owns (rio_holds r + L) s \<Longrightarrow> owns L s' \<and> rio_holds r' = {#}"
  by (auto simp: RIOManager_Shutdown_def rio_holds_def intro: owns_close_all split: if_splits)

subsection \<open>The broker\<close>

lemma owns_OpenSessionBrokerSocket:
  assumes "Broker_OpenSessionBrokerSocket E b s = (ok, b', s')" "owns L s" "handle_law E"
  shows "owns ((if ok then hm ListenSocket (bk_sessionBrokerListenSocket b') else {#}) + L) s'"
    "bk_clientQueue b' = bk_clientQueue b" "bk_isRunning b' = bk_isRunning b" "bk_workers b' = bk_workers b"
proof -
  obtain h s1 where c: "create_handle E ListenSocket s = (h, s1)" by (cases "create_handle E ListenSocket s")
  obtain x s2 where a: "sys_ask (se_bind E) s1 = (x, s2)" by (cases "sys_ask (se_bind E) s1")
  obtain y s3 where d: "sys_ask (se_listen E) s2 = (y, s3)" by (cases "sys_ask (se_listen E) s2")
  note o1 = owns_create [OF c assms(2,3)]
  show "owns ((if ok then hm ListenSocket (bk_sessionBrokerListenSocket b') else {#}) + L) s'"
    using assms(1) c a d o1 owns_ask [OF a] owns_ask [OF d]
    by (auto simp: Broker_OpenSessionBrokerSocket_def Let_def split: option.splits if_splits intro: owns_close)
  show "bk_clientQueue b' = bk_clientQueue b" "bk_isRunning b' = bk_isRunning b" "bk_workers b' = bk_workers b"
    using assms(1) c a d by (auto simp: Broker_OpenSessionBrokerSocket_def Let_def split: option.splits if_splits)
qed

lemma owns_Broker_Start:
  assumes "Broker_Start E Broker_new s = (ok, b, s')" "owns L s" "handle_law E"
  shows "owns (broker_holds b + L) s'" "bk_isRunning b = ok" "bk_workers b = (if ok then BROKER_THREAD_POOL_SIZE else 0)"
proof -
  obtain k b1 s1 where o: "Broker_OpenSessionBrokerSocket E Broker_new s = (k, b1, s1)" by (metis prod_cases3)
  note o1 = owns_OpenSessionBrokerSocket [OF o assms(2,3)]
  from assms(1) o o1 show "owns (broker_holds b + L) s'" "bk_isRunning b = ok"
    "bk_workers b = (if ok then BROKER_THREAD_POOL_SIZE else 0)"
    by (auto simp: Broker_Start_def Let_def broker_holds_def Broker_new_def split: if_splits)
qed

lemma owns_Broker_Stop:
  assumes "Broker_Stop b s = (b', s')" "owns (broker_holds b + L) s"
  shows "owns (mset (map (Pair ClientSocket) (bk_clientQueue b)) + L) s'" "\<not> bk_isRunning b'"
    "bk_clientQueue b' = bk_clientQueue b" "owns (broker_holds b' + L) s'"
proof -
  show "owns (mset (map (Pair ClientSocket) (bk_clientQueue b)) + L) s'" "\<not> bk_isRunning b'"
    "bk_clientQueue b' = bk_clientQueue b"
    using assms
    by (auto simp: Broker_Stop_def Broker_CloseListenSocket_def Let_def broker_holds_def split: option.splits if_splits
        intro: owns_close)
  then show "owns (broker_holds b' + L) s'" by (simp add: broker_holds_def)
qed

section \<open>Starting\<close>

text \<open>A core that is not started: no thread runs, and it has no event, no timer and no listening socket.\<close>

definition core_idle :: "'k Core \<Rightarrow> bool" where
  "core_idle c \<longleftrightarrow> (co_threadManager c = None \<or> co_threadManager c = Some []) \<and>
     co_recvLogicThreadEventStopHandle c = None \<and> co_sessionReleaseStopEventHandle c = None \<and>
     co_sessionReleaseEventHandle c = None \<and> co_retransmissionStopEventHandle c = None \<and>
     co_recvLogicThreadEventHandles c = [] \<and> co_schedulers c = [] \<and>
     (\<forall>b. co_sessionBroker c = Some b \<longrightarrow> \<not> bk_isRunning b) \<and> \<not> tk_threadJoinable (co_ticker c)"

text \<open>Every thread that runs has the event that ends it.\<close>

definition stoppable :: "'k Core \<Rightarrow> bool" where
  "stoppable c \<longleftrightarrow> (\<forall>ts. co_threadManager c = Some ts \<longrightarrow> ts \<noteq> [] \<longrightarrow>
     co_recvLogicThreadEventStopHandle c \<noteq> None \<and> co_sessionReleaseStopEventHandle c \<noteq> None \<and>
     co_retransmissionStopEventHandle c \<noteq> None)"

lemma stoppable_idle: "core_idle c \<Longrightarrow> stoppable c"
  by (auto simp: stoppable_def core_idle_def)

lemma InitNetwork_core:
  assumes "Core_InitNetwork E c = (ok, c')"
  shows "\<exists>s. c' = c\<lparr> co_system := s \<rparr> \<and> (\<forall>L. owns L s = owns L (co_system c))"
proof -
  obtain x s where a: "sys_ask (se_wsaStartup E) (co_system c) = (x, s)" by (cases "sys_ask (se_wsaStartup E) (co_system c)")
  then show ?thesis using assms owns_ask [OF a] by (auto simp: Core_InitNetwork_def split: if_splits)
qed

lemma owns_core_system:
  "owns_core (c\<lparr> co_system := s \<rparr>) = owns (core_holds c) s"
  by (simp add: owns_core_def holds_defs)

lemma InitRIO_core:
  assumes "Core_InitRIO E c = (ok, c')" "owns_core c" "handle_law E"
  shows "owns_core c'" "\<exists>s r. c' = c\<lparr> co_rioManager := Some r, co_system := s \<rparr>"
proof -
  let ?s = "case co_rioManager c of None \<Rightarrow> co_system c | Some old \<Rightarrow> snd (RIOManager_Shutdown old (co_system c))"
  let ?X = "event_holds c + worker_holds c + (case co_sessionBroker c of None \<Rightarrow> {#} | Some b \<Rightarrow> broker_holds b)"
  have "owns ?X ?s"
  proof (cases "co_rioManager c")
    case (Some old)
    obtain r' s' where sd: "RIOManager_Shutdown old (co_system c) = (r', s')" by (cases "RIOManager_Shutdown old (co_system c)")
    have "owns (rio_holds old + ?X) (co_system c)" using assms(2) Some by (simp add: owns_core_def core_holds_def ac_simps)
    from owns_RIOManager_Shutdown [OF sd this] sd Some show ?thesis by simp
  qed (use assms(2) in \<open>simp add: owns_core_def core_holds_def\<close>)
  moreover obtain k r s1 where i: "RIOManager_Initialize E (unat (opt_numOfSockets (co_options c)))
      (unat (opt_numOfWorkerThread (co_options c))) RIOManager_new ?s = (k, r, s1)" by (metis prod_cases3)
  ultimately have "owns (rio_holds r + ?X) s1" using owns_RIOManager_Initialize(1) assms(3) by blast
  moreover have "c' = c\<lparr> co_rioManager := Some r, co_system := s1 \<rparr>"
    using assms(1) i by (auto simp: Core_InitRIO_def Let_def)
  ultimately show "owns_core c'" "\<exists>s r. c' = c\<lparr> co_rioManager := Some r, co_system := s \<rparr>"
    by (auto simp: owns_core_def holds_defs ac_simps)
qed

lemma CreateWorkerEventHandles_core:
  assumes "Core_CreateWorkerEventHandles E c = (ok, c')" "owns_core c" "handle_law E" "event_holds c = {#}"
  shows "owns_core c'" "ok \<Longrightarrow> co_recvLogicThreadEventStopHandle c' \<noteq> None \<and>
      co_sessionReleaseStopEventHandle c' \<noteq> None \<and> co_retransmissionStopEventHandle c' \<noteq> None"
    "co_threadManager c' = co_threadManager c" "co_recvLogicThreadEventHandles c' = co_recvLogicThreadEventHandles c"
    "co_schedulers c' = co_schedulers c" "co_sessionBroker c' = co_sessionBroker c" "co_ticker c' = co_ticker c"
    "co_options c' = co_options c" "co_rioManager c' = co_rioManager c" "co_world c' = co_world c"
proof -
  obtain h1 s1 where e1: "create_handle E EventHandle (co_system c) = (h1, s1)" by (cases "create_handle E EventHandle (co_system c)")
  obtain h2 s2 where e2: "create_handle E EventHandle s1 = (h2, s2)" by (cases "create_handle E EventHandle s1")
  obtain h3 s3 where e3: "create_handle E EventHandle s2 = (h3, s3)" by (cases "create_handle E EventHandle s2")
  obtain h4 s4 where e4: "create_handle E EventHandle s3 = (h4, s4)" by (cases "create_handle E EventHandle s3")
  have c': "c' = c\<lparr> co_recvLogicThreadEventStopHandle := h1, co_sessionReleaseStopEventHandle := h2,
      co_sessionReleaseEventHandle := h3, co_retransmissionStopEventHandle := h4, co_system := s4 \<rparr>"
    "ok \<longleftrightarrow> h1 \<noteq> None \<and> h2 \<noteq> None \<and> h3 \<noteq> None \<and> h4 \<noteq> None"
    using assms(1) e1 e2 e3 e4 by (auto simp: Core_CreateWorkerEventHandles_def create_event_def Let_def)
  have o0: "owns (core_holds c) (co_system c)" using assms(2) by (simp add: owns_core_def)
  note o4 = owns_create [OF e4 owns_create [OF e3 owns_create [OF e2 owns_create [OF e1 o0 assms(3)] assms(3)] assms(3)] assms(3)]
  then show "owns_core c'" using assms(4) by (simp add: c'(1) owns_core_def core_holds_def event_holds_def worker_holds_def ac_simps)
qed (use assms(1) in \<open>auto simp: Core_CreateWorkerEventHandles_def create_event_def Let_def split: prod.splits\<close>)

lemma owns_CreateRetransmissionScheduler:
  assumes "Core_CreateRetransmissionScheduler E s = (r, s')" "owns L s" "handle_law E"
  shows "owns ((case r of None \<Rightarrow> {#} | Some (timer, wake) \<Rightarrow> hm TimerHandle timer + hm EventHandle wake) + L) s'"
proof -
  obtain t1 s1 where e1: "create_handle E TimerHandle s = (t1, s1)" by (cases "create_handle E TimerHandle s")
  obtain t s2 where e2: "(case t1 of None \<Rightarrow> create_handle E TimerHandle s1 | Some h \<Rightarrow> (Some h, s1)) = (t, s2)"
    by (cases "case t1 of None \<Rightarrow> create_handle E TimerHandle s1 | Some h \<Rightarrow> (Some h, s1)")
  obtain w s3 where e3: "create_handle E EventHandle s2 = (w, s3)" by (cases "create_handle E EventHandle s2")
  have "owns (hm TimerHandle t + L) s2"
    using owns_create [OF e1 assms(2,3)] e2 owns_create [OF _ _ assms(3), of TimerHandle s1 t s2 L]
    by (auto split: option.splits)
  then have o3: "owns (hm EventHandle w + (hm TimerHandle t + L)) s3" by (rule owns_create [OF e3 _ assms(3)])
  show ?thesis
  proof (cases "t \<noteq> None \<and> w \<noteq> None")
    case True
    then show ?thesis using assms(1) e1 e2 e3 o3
      by (auto simp: Core_CreateRetransmissionScheduler_def Let_def ac_simps split: prod.splits)
  next
    case False
    have "owns (hm TimerHandle t + (hm EventHandle w + L)) s3" using o3 by (simp add: ac_simps)
    then have "owns L (CloseHandleIfValid EventHandle w (CloseHandleIfValid TimerHandle t s3))"
      by (intro owns_CloseHandleIfValid)
    then show ?thesis using assms(1) e1 e2 e3 False
      by (auto simp: Core_CreateRetransmissionScheduler_def Let_def split: prod.splits)
  qed
qed

definition same_start :: "'k Core \<Rightarrow> 'k Core \<Rightarrow> bool" where
  "same_start c c' \<longleftrightarrow> co_recvLogicThreadEventStopHandle c' = co_recvLogicThreadEventStopHandle c \<and>
     co_sessionReleaseStopEventHandle c' = co_sessionReleaseStopEventHandle c \<and>
     co_sessionReleaseEventHandle c' = co_sessionReleaseEventHandle c \<and>
     co_retransmissionStopEventHandle c' = co_retransmissionStopEventHandle c \<and>
     co_threadManager c' = co_threadManager c \<and> co_sessionBroker c' = co_sessionBroker c \<and>
     co_ticker c' = co_ticker c \<and> co_options c' = co_options c \<and> co_rioManager c' = co_rioManager c"

lemma worker_resources_core:
  "worker_resources E n c = (ok, c') \<Longrightarrow> owns_core c \<Longrightarrow> handle_law E \<Longrightarrow> owns_core c' \<and> same_start c c'"
proof (induction n arbitrary: c)
  case (Suc n)
  let ?c1 = "upd_world (\<lambda>w. w\<lparr> w_recvIOCompletedContexts := w_recvIOCompletedContexts w @ [[]] \<rparr>) c"
  obtain h s1 where e1: "create_handle E EventHandle (co_system ?c1) = (h, s1)" by (cases "create_handle E EventHandle (co_system ?c1)")
  obtain r s2 where e2: "Core_CreateRetransmissionScheduler E s1 = (r, s2)" by (cases "Core_CreateRetransmissionScheduler E s1")
  have "owns (core_holds c) (co_system ?c1)" using Suc.prems(2) by (simp add: owns_core_def upd_world_def)
  note o1 = owns_create [OF e1 this Suc.prems(3)]
  note o2 = owns_CreateRetransmissionScheduler [OF e2 o1 Suc.prems(3)]
  let ?c2 = "?c1\<lparr> co_system := s2, co_recvLogicThreadEventHandles := co_recvLogicThreadEventHandles ?c1 @ [h] \<rparr>"
  show ?case
  proof (cases "h = None")
    case True
    then show ?thesis using o1 Suc.prems(1) e1
      by (auto simp: owns_core_def holds_defs upd_world_def same_start_def Let_def)
  next
    case h: False
    show ?thesis
    proof (cases r)
      case None
      have "c' = ?c2" using Suc.prems(1) e1 e2 h None by (simp add: Let_def)
      then show ?thesis using o2 None by (simp add: owns_core_def holds_defs upd_world_def same_start_def ac_simps)
    next
      case r: (Some hs)
      let ?c3 = "upd_world (\<lambda>w. w\<lparr> w_schedulers := w_schedulers w @ [[]] \<rparr>) (?c2\<lparr> co_schedulers := co_schedulers ?c2 @ [hs] \<rparr>)"
      have "owns_core ?c3"
        using o2 r by (cases hs) (simp add: owns_core_def holds_defs upd_world_def ac_simps)
      moreover have "worker_resources E n ?c3 = (ok, c')" using Suc.prems(1) e1 e2 r h by (simp add: Let_def)
      ultimately have "owns_core c' \<and> same_start ?c3 c'" using Suc.IH Suc.prems(3) by blast
      then show ?thesis by (simp add: same_start_def upd_world_def)
    qed
  qed
qed (simp add: same_start_def)

lemma StartSessionBroker_core:
  assumes "Core_StartSessionBroker E c = (ok, c')" "owns_core c" "handle_law E"
  shows "owns_core c'" "\<exists>b s. c' = c\<lparr> co_sessionBroker := Some b, co_system := s \<rparr> \<and> bk_isRunning b = ok"
proof -
  let ?s = "case co_sessionBroker c of None \<Rightarrow> co_system c | Some old \<Rightarrow> snd (Broker_Stop old (co_system c))"
  let ?X = "event_holds c + worker_holds c + (case co_rioManager c of None \<Rightarrow> {#} | Some r \<Rightarrow> rio_holds r)"
  have "owns ?X ?s"
  proof (cases "co_sessionBroker c")
    case (Some old)
    obtain b' s' where st: "Broker_Stop old (co_system c) = (b', s')" by (cases "Broker_Stop old (co_system c)")
    have "owns (broker_holds old + ?X) (co_system c)" using assms(2) Some by (simp add: owns_core_def core_holds_def ac_simps)
    from owns_Broker_Stop(1) [OF st this] have "owns ?X s'" by (rule owns_forget_all) (auto simp: may_leak_def)
    then show ?thesis using st Some by simp
  qed (use assms(2) in \<open>simp add: owns_core_def core_holds_def\<close>)
  moreover obtain k b s1 where i: "Broker_Start E Broker_new ?s = (k, b, s1)" by (metis prod_cases3)
  ultimately have "owns (broker_holds b + ?X) s1" "bk_isRunning b = k" using owns_Broker_Start [OF i] assms(3) by blast+
  moreover have "c' = c\<lparr> co_sessionBroker := Some b, co_system := s1 \<rparr>" "k = ok"
    using assms(1) i by (auto simp: Core_StartSessionBroker_def Let_def)
  ultimately show "owns_core c'" "\<exists>b s. c' = c\<lparr> co_sessionBroker := Some b, co_system := s \<rparr> \<and> bk_isRunning b = ok"
    by (auto simp: owns_core_def holds_defs ac_simps)
qed

lemma owns_core_fields [simp]:
  "owns_core (c\<lparr> co_threadManager := ts \<rparr>) = owns_core c" "owns_core (c\<lparr> co_ticker := t \<rparr>) = owns_core c"
  "owns_core (c\<lparr> co_options := op \<rparr>) = owns_core c" "owns_core (c\<lparr> co_loggerRunning := x \<rparr>) = owns_core c"
  "owns_core (c\<lparr> co_delegate := x \<rparr>) = owns_core c" "owns_core (c\<lparr> co_sessionManager := x \<rparr>) = owns_core c"
  "owns_core (c\<lparr> co_isServerStopped := x \<rparr>) = owns_core c" "owns_core (c\<lparr> co_world := w \<rparr>) = owns_core c"
  "owns_core (c\<lparr> co_fatalError := fe, co_notified := es \<rparr>) = owns_core c" "owns_core (c\<lparr> co_fatalError := fe \<rparr>) = owns_core c"
  "owns_core (c\<lparr> co_fatalErrorHandler := x \<rparr>) = owns_core c" "owns_core (c\<lparr> co_notified := es \<rparr>) = owns_core c"
  by (simp_all add: owns_core_def holds_defs)

definition server_running :: "'k Core \<Rightarrow> bool" where
  "server_running c \<longleftrightarrow> (\<exists>b. co_sessionBroker c = Some b \<and> bk_isRunning b)"

lemma RunAllThreads_core:
  assumes "Core_RunAllThreads E c = Some (ok, c')" "owns_core c" "core_idle c" "handle_law E"
  shows "owns_core c' \<and> stoppable c' \<and> (ok \<longrightarrow> server_running c')"
proof -
  let ?c0 = "(upd_world (\<lambda>w. w\<lparr> w_tps := 0 \<rparr>) c)\<lparr> co_threadManager := Some [] \<rparr>"
  have "event_holds ?c0 = {#}" using assms(3) by (simp add: core_idle_def event_holds_def upd_world_def)
  moreover obtain k c1 where e: "Core_CreateWorkerEventHandles E ?c0 = (k, c1)" by (cases "Core_CreateWorkerEventHandles E ?c0")
  moreover have "owns_core ?c0" using assms(2) by simp
  ultimately have c1: "owns_core c1" "k \<Longrightarrow> co_recvLogicThreadEventStopHandle c1 \<noteq> None \<and>
      co_sessionReleaseStopEventHandle c1 \<noteq> None \<and> co_retransmissionStopEventHandle c1 \<noteq> None"
    "co_threadManager c1 = Some []" "co_ticker c1 = co_ticker c"
    using CreateWorkerEventHandles_core [OF e _ assms(4)] by (auto simp: upd_world_def)
  show ?thesis
  proof (cases k)
    case False
    then show ?thesis using assms(1) e c1(1,3) by (auto simp: Core_RunAllThreads_def stoppable_def)
  next
    case True
    obtain now s where a: "sys_ask (se_steadyMs E) (co_system c1) = (now, s)" by (cases "sys_ask (se_steadyMs E) (co_system c1)")
    obtain tk where tk: "Ticker_Start now (opt_timerTickMs (co_options c1)) (co_ticker c1) = Some tk"
      using assms(3) c1(4) by (auto simp: Ticker_Start_def core_idle_def)
    let ?c2 = "c1\<lparr> co_system := s, co_ticker := tk \<rparr>"
    obtain l c3 where w: "worker_resources E (unat (opt_numOfWorkerThread (co_options c1))) ?c2 = (l, c3)"
      by (cases "worker_resources E (unat (opt_numOfWorkerThread (co_options c1))) ?c2")
    have "owns_core ?c2" using c1(1) owns_ask [OF a] by (simp add: owns_core_def holds_defs)
    with worker_resources_core [OF w] assms(4) have c3: "owns_core c3" "same_start ?c2 c3" by auto
    have st: "stoppable c3" using c3(2) c1(3) by (simp add: same_start_def stoppable_def)
    have st': "stoppable (Core_StartWorkerThreads c3)" "owns_core (Core_StartWorkerThreads c3)"
      using c3 c1(2) True by (auto simp: same_start_def stoppable_def Core_StartWorkerThreads_def Let_def)
    show ?thesis
    proof (cases l)
      case False
      then show ?thesis using assms(1) e a tk w True c3(1) st
        by (auto simp: Core_RunAllThreads_def Core_InitializeWorkerResources_def)
    next
      case l: True
      have b: "Core_StartSessionBroker E (Core_StartWorkerThreads c3) = (ok, c')"
        using assms(1) e a tk w True l by (simp add: Core_RunAllThreads_def Core_InitializeWorkerResources_def)
      from StartSessionBroker_core [OF b st'(2) assms(4)] st'(1) show ?thesis
        by (auto simp: stoppable_def server_running_def)
    qed
  qed
qed

section \<open>Stopping\<close>

lemma wait_world: "Core_WaitForAllSessionsReleased meanwhile c = Some c' \<Longrightarrow> \<exists>f. c' = upd_world f c"
  by (auto simp: Core_WaitForAllSessionsReleased_def Let_def upd_world_def split: if_splits intro: exI [of _ id])

lemma CloseAllSessions_world: "\<exists>f. Core_CloseAllSessions E c = upd_world f c"
  by (auto simp: Core_CloseAllSessions_def upd_world_def intro: exI [of _ id])

lemma stoppable_upd_world [simp]: "stoppable (upd_world f c) = stoppable c"
  by (simp add: stoppable_def upd_world_def)

lemma signal_owns: "owns L s \<Longrightarrow> hm EventHandle h \<subseteq># L \<Longrightarrow> owns L (signal_if_valid h s)"
  by (cases h) (auto simp: signal_if_valid_def intro!: owns_SetEvent dest: mset_subset_eqD)

lemma signal_signals:
  "owns L s \<Longrightarrow> hm EventHandle (Some e) \<subseteq># L \<Longrightarrow> e \<in> set (sys_signalled (signal_if_valid (Some e) s))"
  using owns_open [of L s "(EventHandle, e)"] by (auto simp: signal_if_valid_def SetEvent_def dest: mset_subset_eqD)

lemma signal_keeps: "x \<in> set (sys_signalled s) \<Longrightarrow> x \<in> set (sys_signalled (signal_if_valid h s))"
  by (cases h) (auto simp: signal_if_valid_def SetEvent_def)

lemma SignalWorkerStopEvents_core:
  assumes "owns_core c"
  shows "owns_core (Core_SignalWorkerStopEvents c)"
    "signalled (co_recvLogicThreadEventStopHandle c) (Core_SignalWorkerStopEvents c) \<longleftrightarrow> co_recvLogicThreadEventStopHandle c \<noteq> None"
    "signalled (co_sessionReleaseStopEventHandle c) (Core_SignalWorkerStopEvents c) \<longleftrightarrow> co_sessionReleaseStopEventHandle c \<noteq> None"
    "signalled (co_retransmissionStopEventHandle c) (Core_SignalWorkerStopEvents c) \<longleftrightarrow> co_retransmissionStopEventHandle c \<noteq> None"
proof -
  let ?h1 = "co_recvLogicThreadEventStopHandle c" and ?h2 = "co_sessionReleaseStopEventHandle c"
    and ?h3 = "co_retransmissionStopEventHandle c" and ?L = "core_holds c"
  have sub: "hm EventHandle ?h1 \<subseteq># ?L" "hm EventHandle ?h2 \<subseteq># ?L" "hm EventHandle ?h3 \<subseteq># ?L"
    unfolding core_holds_def event_holds_def by (auto simp: subseteq_mset_def ac_simps)
  define s1 where "s1 = signal_if_valid ?h1 (co_system c)"
  define s2 where "s2 = signal_if_valid ?h2 s1"
  define s3 where "s3 = signal_if_valid ?h3 s2"
  have c: "Core_SignalWorkerStopEvents c = c\<lparr> co_system := s3 \<rparr>"
    by (simp add: Core_SignalWorkerStopEvents_def upd_system_def s1_def s2_def s3_def)
  have o0: "owns ?L (co_system c)" using assms by (simp add: owns_core_def)
  have o: "owns ?L s1" "owns ?L s2" "owns ?L s3"
    using signal_owns [OF o0 sub(1)] signal_owns [OF signal_owns [OF o0 sub(1)] sub(2)]
      signal_owns [OF signal_owns [OF signal_owns [OF o0 sub(1)] sub(2)] sub(3)] by (simp_all add: s1_def s2_def s3_def)
  show "owns_core (Core_SignalWorkerStopEvents c)" using o(3) by (simp add: c owns_core_system)
  have "?h1 = Some e \<Longrightarrow> e \<in> set (sys_signalled s3)" for e
    using signal_signals [OF o0, of e] sub(1) by (auto simp: s1_def s2_def s3_def intro: signal_keeps)
  then show "signalled ?h1 (Core_SignalWorkerStopEvents c) \<longleftrightarrow> ?h1 \<noteq> None" by (auto simp: c signalled_def split: option.split)
  have "?h2 = Some e \<Longrightarrow> e \<in> set (sys_signalled s3)" for e
    using signal_signals [OF o(1), of e] sub(2) by (auto simp: s2_def s3_def intro: signal_keeps)
  then show "signalled ?h2 (Core_SignalWorkerStopEvents c) \<longleftrightarrow> ?h2 \<noteq> None" by (auto simp: c signalled_def split: option.split)
  have "?h3 = Some e \<Longrightarrow> e \<in> set (sys_signalled s3)" for e
    using signal_signals [OF o(2), of e] sub(3) by (auto simp: s3_def)
  then show "signalled ?h3 (Core_SignalWorkerStopEvents c) \<longleftrightarrow> ?h3 \<noteq> None" by (auto simp: c signalled_def split: option.split)
qed

text \<open>No thread that is joined is stuck.\<close>

lemma StopAllThreads_core:
  assumes "owns_core c" "stoppable c"
  obtains f ts where "Core_StopAllThreads E (Core_SignalWorkerStopEvents c)
      = Some ((upd_world f (Core_SignalWorkerStopEvents c))\<lparr> co_threadManager := ts \<rparr>)" "ts = None \<or> ts = Some []"
proof -
  let ?c = "Core_SignalWorkerStopEvents c"
  have fields: "co_threadManager ?c = co_threadManager c" "co_recvLogicThreadEventStopHandle ?c = co_recvLogicThreadEventStopHandle c"
    "co_sessionReleaseStopEventHandle ?c = co_sessionReleaseStopEventHandle c"
    "co_retransmissionStopEventHandle ?c = co_retransmissionStopEventHandle c"
    by (simp_all add: Core_SignalWorkerStopEvents_def upd_system_def)
  note S = SignalWorkerStopEvents_core [OF assms(1)]
  show thesis
  proof (cases "co_threadManager c")
    case None
    then have "Core_StopAllThreads E ?c = Some ((upd_world id ?c)\<lparr> co_threadManager := None \<rparr>)"
      using fields by (simp add: Core_StopAllThreads_def upd_world_def)
    then show ?thesis using that by blast
  next
    case (Some ts)
    have "thread_ends ?c g" if "(g, n) \<in> set ts" for g n
      using assms(2) Some that S(2-4) by (cases g) (auto simp: fields stoppable_def)
    then have "\<not> (\<exists>(g, n) \<in> set ts. 0 < n \<and> \<not> thread_ends ?c g)" by blast
    then have "Core_StopAllThreads E ?c
        = Some ((upd_world (end_groups (server_env E (co_options ?c)) ts) ?c)\<lparr> co_threadManager := Some [] \<rparr>)"
      using Some fields by (simp add: Core_StopAllThreads_def)
    then show ?thesis using that by blast
  qed
qed

lemma owns_CloseHandles:
  "owns (sum_list (map (hm k) hs) + L) s \<Longrightarrow> owns L (fold (CloseHandleIfValid k) hs s)"
proof (induction hs arbitrary: s)
  case (Cons h hs)
  then have "owns (sum_list (map (hm k) hs) + L) (CloseHandleIfValid k h s)" by (intro owns_CloseHandleIfValid) (simp add: ac_simps)
  then show ?case using Cons.IH by simp
qed simp

lemma owns_CloseSchedulers:
  "owns (sum_list (map (\<lambda>(timer, wake). hm TimerHandle timer + hm EventHandle wake) hs) + L) s \<Longrightarrow>
   owns L (fold (\<lambda>(timer, wake) s. CloseHandleIfValid EventHandle wake (CloseHandleIfValid TimerHandle timer s)) hs s)"
proof (induction hs arbitrary: s)
  case (Cons h hs)
  obtain t w where h: "h = (t, w)" by (cases h)
  let ?X = "sum_list (map (\<lambda>(timer, wake). hm TimerHandle timer + hm EventHandle wake) hs) + L"
  have "owns (hm TimerHandle t + (hm EventHandle w + ?X)) s" using Cons.prems h by (simp add: ac_simps)
  then have "owns ?X (CloseHandleIfValid EventHandle w (CloseHandleIfValid TimerHandle t s))" by (intro owns_CloseHandleIfValid)
  then show ?case using Cons.IH h by simp
qed simp

lemma CloseWorkerEventHandles_core:
  assumes "owns_core c"
  shows "owns_core (Core_CloseWorkerEventHandles c)"
proof -
  let ?Y = "sum_list (map (\<lambda>(timer, wake). hm TimerHandle timer + hm EventHandle wake) (co_schedulers c)) +
     (case co_rioManager c of None \<Rightarrow> {#} | Some r \<Rightarrow> rio_holds r) +
     (case co_sessionBroker c of None \<Rightarrow> {#} | Some b \<Rightarrow> broker_holds b)"
  have "owns (sum_list (map (hm EventHandle) (co_recvLogicThreadEventHandles c)) +
      (hm EventHandle (co_recvLogicThreadEventStopHandle c) + (hm EventHandle (co_sessionReleaseEventHandle c) +
      (hm EventHandle (co_sessionReleaseStopEventHandle c) + (hm EventHandle (co_retransmissionStopEventHandle c) + ?Y))))) (co_system c)"
    using assms by (simp add: owns_core_def holds_defs ac_simps)
  from owns_CloseHandleIfValid [OF owns_CloseHandleIfValid [OF owns_CloseHandleIfValid [OF owns_CloseHandleIfValid [OF owns_CloseHandles [OF this]]]]]
  show ?thesis by (simp add: Core_CloseWorkerEventHandles_def upd_system_def owns_core_def holds_defs ac_simps)
qed

lemma CloseRetransmissionSchedulerHandles_core:
  assumes "owns_core c"
  shows "owns_core (Core_CloseRetransmissionSchedulerHandles c)"
proof -
  let ?Y = "event_holds c + sum_list (map (hm EventHandle) (co_recvLogicThreadEventHandles c)) +
     (case co_rioManager c of None \<Rightarrow> {#} | Some r \<Rightarrow> rio_holds r) +
     (case co_sessionBroker c of None \<Rightarrow> {#} | Some b \<Rightarrow> broker_holds b)"
  have "owns (sum_list (map (\<lambda>(timer, wake). hm TimerHandle timer + hm EventHandle wake) (co_schedulers c)) + ?Y) (co_system c)"
    using assms by (simp add: owns_core_def core_holds_def worker_holds_def ac_simps)
  from owns_CloseSchedulers [OF this]
  show ?thesis
    by (simp add: Core_CloseRetransmissionSchedulerHandles_def upd_system_def upd_world_def owns_core_def holds_defs ac_simps)
qed

lemma owns_core_broker:
  "owns_core (c\<lparr> co_sessionBroker := Some b, co_system := s \<rparr>) \<longleftrightarrow>
     owns (broker_holds b + (event_holds c + worker_holds c + (case co_rioManager c of None \<Rightarrow> {#} | Some r \<Rightarrow> rio_holds r))) s"
  by (simp add: owns_core_def holds_defs ac_simps)

lemma StopBroker_core:
  assumes "owns_core c"
  shows "owns_core (Core_StopBroker c)" "\<not> server_running (Core_StopBroker c)" "stoppable (Core_StopBroker c) = stoppable c"
proof -
  let ?X = "event_holds c + worker_holds c + (case co_rioManager c of None \<Rightarrow> {#} | Some r \<Rightarrow> rio_holds r)"
  have "owns_core (Core_StopBroker c) \<and> \<not> server_running (Core_StopBroker c) \<and> stoppable (Core_StopBroker c) = stoppable c"
  proof (cases "co_sessionBroker c")
    case (Some b)
    obtain b1 s1 where st: "Broker_Stop b (co_system c) = (b1, s1)" by (cases "Broker_Stop b (co_system c)")
    have "owns (broker_holds b + ?X) (co_system c)" using assms Some by (simp add: owns_core_def core_holds_def ac_simps)
    note o = owns_Broker_Stop [OF st this]
    have c: "Core_StopBroker c = c\<lparr> co_sessionBroker := Some b1, co_system := s1 \<rparr>" using Some st by (simp add: Core_StopBroker_def)
    show ?thesis unfolding c owns_core_broker using o(2,4) by (simp add: server_running_def stoppable_def)
  qed (use assms in \<open>simp add: Core_StopBroker_def server_running_def\<close>)
  then show "owns_core (Core_StopBroker c)" "\<not> server_running (Core_StopBroker c)" "stoppable (Core_StopBroker c) = stoppable c"
    by simp_all
qed

lemma ClearAllSession_world: "\<exists>f. Core_ClearAllSession c = upd_world f c"
  by (auto simp: Core_ClearAllSession_def Let_def upd_world_def)

lemma StopServer_core:
  assumes "owns_core c" "stoppable c"
  shows "Core_StopServer E meanwhile c = Some c' \<Longrightarrow> owns_core c' \<and> core_idle c'"
    "Core_StopServer E meanwhile c = None \<longleftrightarrow>
       Core_WaitForAllSessionsReleased meanwhile (Core_CloseAllSessions E (Core_StopBroker c)) = None"
proof -
  let ?w = "Core_WaitForAllSessionsReleased meanwhile (Core_CloseAllSessions E (Core_StopBroker c))"
  note b = StopBroker_core [OF assms(1)]
  have "(\<forall>c'. Core_StopServer E meanwhile c = Some c' \<longrightarrow> owns_core c' \<and> core_idle c') \<and>
    (Core_StopServer E meanwhile c = None \<longleftrightarrow> ?w = None)"
  proof (cases ?w)
    case None
    then show ?thesis by (simp add: Core_StopServer_def)
  next
    case (Some c2)
    obtain f where f: "Core_CloseAllSessions E (Core_StopBroker c) = upd_world f (Core_StopBroker c)"
      using CloseAllSessions_world by blast
    obtain g where g: "c2 = upd_world g (upd_world f (Core_StopBroker c))" using wait_world [OF Some] f by auto
    have c2: "owns_core c2" "stoppable c2" "\<not> server_running c2"
      using b assms(2) by (simp_all add: g) (simp add: server_running_def upd_world_def)
    obtain h ts where h: "Core_StopAllThreads E (Core_SignalWorkerStopEvents c2)
        = Some ((upd_world h (Core_SignalWorkerStopEvents c2))\<lparr> co_threadManager := ts \<rparr>)" "ts = None \<or> ts = Some []"
      using StopAllThreads_core [OF c2(1,2)] by blast
    define c3 where "c3 = (upd_world h (Core_SignalWorkerStopEvents c2))\<lparr> co_threadManager := ts \<rparr>"
    have c3: "owns_core c3" "\<not> server_running c3" "co_threadManager c3 = ts"
      using SignalWorkerStopEvents_core(1) [OF c2(1)] c2(3)
      by (simp_all add: c3_def) (simp add: server_running_def Core_SignalWorkerStopEvents_def upd_system_def upd_world_def)
    define c4 where "c4 = Core_CloseRetransmissionSchedulerHandles (Core_CloseWorkerEventHandles c3)"
    have c4: "owns_core c4"
      using CloseRetransmissionSchedulerHandles_core [OF CloseWorkerEventHandles_core [OF c3(1)]] by (simp add: c4_def)
    obtain k where k: "Core_ClearAllSession (c4\<lparr> co_ticker := Ticker_Stop (co_ticker c4) \<rparr>)
        = upd_world k (c4\<lparr> co_ticker := Ticker_Stop (co_ticker c4) \<rparr>)" using ClearAllSession_world by blast
    define c5 where "c5 = (upd_system (\<lambda>s. s\<lparr> sys_startups := sys_startups s - 1 \<rparr>)
        (upd_world k (c4\<lparr> co_ticker := Ticker_Stop (co_ticker c4) \<rparr>)))\<lparr> co_delegate := False, co_loggerRunning := False, co_isServerStopped := True \<rparr>"
    have S: "Core_StopServer E meanwhile c = Some c5"
      using Some h(1) k by (simp add: Core_StopServer_def c3_def [symmetric] c4_def [symmetric] Let_def c5_def)
    have o5: "owns_core c5" using c4 by (simp add: c5_def owns_core_def holds_defs upd_system_def upd_world_def)
    have "core_idle c5"
      using c3(2,3) h(2) by (auto simp: c5_def core_idle_def upd_system_def upd_world_def c4_def Ticker_Stop_def
          Core_CloseRetransmissionSchedulerHandles_def Core_CloseWorkerEventHandles_def server_running_def)
    with S Some o5 show ?thesis by simp
  qed
  then show "Core_StopServer E meanwhile c = Some c' \<Longrightarrow> owns_core c' \<and> core_idle c'"
    "Core_StopServer E meanwhile c = None \<longleftrightarrow> ?w = None" by blast+
qed

lemma core_idle_fields [simp]:
  "core_idle (c\<lparr> co_system := s \<rparr>) = core_idle c" "core_idle (upd_world f c) = core_idle c"
  "core_idle (c\<lparr> co_world := w \<rparr>) = core_idle c" "core_idle (c\<lparr> co_rioManager := r \<rparr>) = core_idle c"
  "core_idle (c\<lparr> co_sessionManager := x \<rparr>) = core_idle c" "core_idle (c\<lparr> co_options := op \<rparr>) = core_idle c"
  "core_idle (c\<lparr> co_loggerRunning := x \<rparr>) = core_idle c" "core_idle (c\<lparr> co_delegate := x \<rparr>) = core_idle c"
  by (simp_all add: core_idle_def upd_world_def)

lemma CreateSessionManager_core:
  assumes "Core_CreateSessionManager E c = (ok, c')"
  shows "owns_core c' = owns_core c" "core_idle c' = core_idle c"
  using assms by (auto simp: Core_CreateSessionManager_def Let_def split: option.splits prod.splits)

lemma StartServer_core:
  assumes "Core_StartServer E meanwhile c = Some (ok, c')" "owns_core c" "core_idle c" "handle_law E"
  shows "owns_core c'" "if ok then stoppable c' \<and> server_running c' else core_idle c'"
proof -
  have failed: "owns_core c' \<and> core_idle c'" if "map_option (Pair False) (Core_StopServer E meanwhile d) = Some (ok, c')"
    "owns_core d" "stoppable d" for d
    using StopServer_core(1) [OF that(2,3)] that(1) by auto
  obtain k op where op: "ReadOptionFile (se_parser E) (co_options (c\<lparr> co_loggerRunning := True \<rparr>)) = (k, op)"
    by (cases "ReadOptionFile (se_parser E) (co_options (c\<lparr> co_loggerRunning := True \<rparr>))")
  let ?c1 = "c\<lparr> co_loggerRunning := True, co_options := op \<rparr>"
  obtain n1 c2 where c2: "Core_InitNetwork E (?c1\<lparr> co_delegate := True \<rparr>) = (n1, c2)"
    by (cases "Core_InitNetwork E (?c1\<lparr> co_delegate := True \<rparr>)")
  obtain s where s: "c2 = (?c1\<lparr> co_delegate := True \<rparr>)\<lparr> co_system := s \<rparr>" "owns L s = owns L (co_system c)" for L
    using InitNetwork_core [OF c2] by auto
  have i2: "owns_core c2" "core_idle c2" using assms(2,3) s(2)
    unfolding s(1) by (simp_all add: owns_core_def holds_defs)
  obtain n2 c3 where c3: "Core_CreateSessionManager E c2 = (n2, c3)" by (cases "Core_CreateSessionManager E c2")
  have i3: "owns_core c3" "core_idle c3" using CreateSessionManager_core [OF c3] i2 by simp_all
  obtain n3 c4 where c4: "Core_InitRIO E c3 = (n3, c4)" by (cases "Core_InitRIO E c3")
  have i4: "owns_core c4" "core_idle c4" using InitRIO_core [OF c4 i3(1) assms(4)] i3(2) by auto
  have "owns_core c' \<and> (if ok then stoppable c' \<and> server_running c' else core_idle c')"
  proof (cases "k \<and> n1 \<and> n2 \<and> n3")
    case True
    then obtain l c5 where r: "Core_RunAllThreads E c4 = Some (l, c5)" "l \<Longrightarrow> ok \<and> c' = c5"
      "\<not> l \<Longrightarrow> map_option (Pair False) (Core_StopServer E meanwhile c5) = Some (ok, c') \<and> \<not> ok"
      using assms(1) op c2 c3 c4 by (auto simp: Core_StartServer_def Let_def split: option.splits bool.splits)
    from RunAllThreads_core [OF r(1) i4 assms(4)] r(2,3) failed [of c5] show ?thesis by (cases l) auto
  next
    case False
    have "\<not> ok" using assms(1) op c2 c3 c4 False
      by (cases k; cases n1; cases n2; cases n3) (auto simp: Core_StartServer_def Let_def)
    moreover have "owns_core c' \<and> core_idle c'"
    proof (cases k)
      case f: False
      then show ?thesis using assms op by (auto simp: Core_StartServer_def Let_def)
    next
      case k: True
      show ?thesis using assms(1) op c2 c3 c4 False k failed [OF _ i2(1) stoppable_idle [OF i2(2)]]
          failed [OF _ i3(1) stoppable_idle [OF i3(2)]] failed [OF _ i4(1) stoppable_idle [OF i4(2)]]
        by (cases n1; cases n2; cases n3) (auto simp: Core_StartServer_def Let_def)
    qed
    ultimately show ?thesis by simp
  qed
  then show "owns_core c'" "if ok then stoppable c' \<and> server_running c' else core_idle c'" by auto
qed

section \<open>Every run of the process\<close>

definition core_new :: "'k World \<Rightarrow> 'k Core" where
  "core_new w =
     \<lparr> co_system = \<lparr> sys_open = [], sys_signalled = [], sys_badUse = False, sys_startups = 0, sys_query = 0 \<rparr>,
       co_world = w, co_options = options_new, co_isServerStopped = False, co_fatalErrorHandler = False,
       co_fatalError = None, co_notified = [], co_loggerRunning = False, co_delegate = False,
       co_sessionManager = False, co_rioManager = None, co_threadManager = None,
       co_recvLogicThreadEventStopHandle = None, co_sessionReleaseStopEventHandle = None,
       co_sessionReleaseEventHandle = None, co_retransmissionStopEventHandle = None,
       co_recvLogicThreadEventHandles = [], co_schedulers = [], co_sessionBroker = None, co_ticker = Ticker_new \<rparr>"

text \<open>A worker of the broker: a connection that cannot be finished keeps it busy.\<close>

definition Core_BrokerWorker :: "'k StartEnv \<Rightarrow> Broker \<Rightarrow> 'k Core \<Rightarrow> 'k Core option" where
  "Core_BrokerWorker E b c =
     (if bk_clientQueue b = [] then Some c
      else case Broker_HandleClientConnection (server_env E (co_options c)) (se_broker E) (opt_coreServerIp (co_options c)) (co_world c) of
        None \<Rightarrow> None
      | Some (out, w) \<Rightarrow> let (b1, s1) = Broker_take b (co_system c)
                         in Some (c\<lparr> co_sessionBroker := Some b1, co_system := s1, co_world := w \<rparr>))"

text \<open>The owner of the core starts and stops it; the owner does not start a server that runs. In between the threads
  work on the sessions, connections come in, and the content uses the ticker.\<close>

inductive core_step :: "'k StartEnv \<Rightarrow> 'k Core \<Rightarrow> 'k Core \<Rightarrow> bool" for E where
  step_start: "\<not> server_running c \<Longrightarrow> Core_StartServer E meanwhile c = Some (ok, c') \<Longrightarrow> core_step E c c'"
| step_stop: "Core_StopServer E meanwhile c = Some c' \<Longrightarrow> core_step E c c'"
| step_accept: "co_sessionBroker c = Some b \<Longrightarrow> bk_isRunning b \<Longrightarrow> Broker_accept E b (co_system c) = (b', s') \<Longrightarrow>
     core_step E c (c\<lparr> co_sessionBroker := Some b', co_system := s' \<rparr>)"
| step_connection: "co_sessionBroker c = Some b \<Longrightarrow> bk_isRunning b \<Longrightarrow> Core_BrokerWorker E b c = Some c' \<Longrightarrow> core_step E c c'"
| step_world: "server_running c \<Longrightarrow> server_step (server_env E (co_options c)) (se_broker E) n m (co_world c) w' \<Longrightarrow>
     core_step E c (c\<lparr> co_world := w' \<rparr>)"
| step_ticker: "server_running c \<Longrightarrow> tk_threadJoinable t' = tk_threadJoinable (co_ticker c) \<Longrightarrow>
     core_step E c (c\<lparr> co_ticker := t' \<rparr>)"
| step_fatal: "core_step E c (Core_ReportFatalError e c)"
| step_handler: "core_step E c (Core_SetFatalErrorHandler h c)"

inductive core_reachable :: "'k StartEnv \<Rightarrow> 'k Core \<Rightarrow> bool" for E where
  reachable_new: "core_reachable E (core_new w)"
| reachable_step: "core_reachable E c \<Longrightarrow> core_step E c c' \<Longrightarrow> core_reachable E c'"

definition core_ok :: "'k Core \<Rightarrow> bool" where
  "core_ok c \<longleftrightarrow> owns_core c \<and> stoppable c \<and> (\<not> server_running c \<longrightarrow> core_idle c)"

lemma idle_not_running: "core_idle c \<Longrightarrow> \<not> server_running c"
  by (auto simp: core_idle_def server_running_def)

lemma owns_accept:
  assumes "Broker_accept E b s = (b', s')" "owns (broker_holds b + L) s" "handle_law E"
  shows "owns (broker_holds b' + L) s'" "bk_isRunning b' = bk_isRunning b"
proof -
  obtain h s1 where c: "create_handle E ClientSocket s = (h, s1)" by (cases "create_handle E ClientSocket s")
  note o = owns_create [OF c assms(2,3)]
  from assms(1) c o show "owns (broker_holds b' + L) s'"
    by (auto simp: Broker_accept_def broker_holds_def ac_simps split: option.splits)
  from assms(1) c show "bk_isRunning b' = bk_isRunning b" by (auto simp: Broker_accept_def split: option.splits)
qed

lemma owns_take:
  assumes "Broker_take b s = (b', s')" "owns (broker_holds b + L) s"
  shows "owns (broker_holds b' + L) s'" "bk_isRunning b' = bk_isRunning b"
proof -
  have "owns (broker_holds b' + L) s' \<and> bk_isRunning b' = bk_isRunning b"
  proof (cases "bk_clientQueue b")
    case (Cons h rest)
    have "owns (add_mset (ClientSocket, h) (broker_holds (b\<lparr> bk_clientQueue := rest \<rparr>) + L)) s"
      using assms(2) Cons by (cases "bk_isRunning b") (simp_all add: broker_holds_def ac_simps)
    from owns_close [OF this] show ?thesis using assms(1) Cons by (auto simp: Broker_take_def)
  qed (use assms in \<open>auto simp: Broker_take_def\<close>)
  then show "owns (broker_holds b' + L) s'" "bk_isRunning b' = bk_isRunning b" by simp_all
qed

lemma core_ok_running:
  assumes "core_ok c" "co_sessionBroker c = Some b" "bk_isRunning b'" "owns (broker_holds b' + (event_holds c +
      worker_holds c + (case co_rioManager c of None \<Rightarrow> {#} | Some r \<Rightarrow> rio_holds r))) s'"
  shows "core_ok (c\<lparr> co_sessionBroker := Some b', co_system := s' \<rparr>)"
  using assms by (simp add: core_ok_def owns_core_broker server_running_def stoppable_def)

lemma core_ok_cong:
  assumes "core_ok c" "owns_core c'" "stoppable c' = stoppable c" "server_running c' = server_running c"
    "core_idle c \<Longrightarrow> core_idle c'"
  shows "core_ok c'"
  using assms by (auto simp: core_ok_def)

lemma core_ok_step:
  assumes "core_step E c c'" "core_ok c" "handle_law E"
  shows "core_ok c'"
  using assms(1)
proof cases
  case (step_start meanwhile ok)
  then show ?thesis using StartServer_core [OF step_start(2) _ _ assms(3)] assms(2) stoppable_idle [of c']
    by (cases ok) (auto simp: core_ok_def)
next
  case (step_stop meanwhile)
  then show ?thesis using StopServer_core(1) [OF _ _ step_stop] assms(2) stoppable_idle [of c'] by (auto simp: core_ok_def)
next
  case (step_accept b b' s')
  have "owns (broker_holds b + (event_holds c + worker_holds c + (case co_rioManager c of None \<Rightarrow> {#} | Some r \<Rightarrow> rio_holds r))) (co_system c)"
    using assms(2) step_accept(2) by (simp add: core_ok_def owns_core_def core_holds_def ac_simps)
  from owns_accept [OF step_accept(4) this assms(3)] step_accept(1-3) assms(2) show ?thesis by (simp add: core_ok_running)
next
  case (step_connection b)
  have o: "owns (broker_holds b + (event_holds c + worker_holds c + (case co_rioManager c of None \<Rightarrow> {#} | Some r \<Rightarrow> rio_holds r))) (co_system c)"
    using assms(2) step_connection(1) by (simp add: core_ok_def owns_core_def core_holds_def ac_simps)
  obtain b1 s1 where tk: "Broker_take b (co_system c) = (b1, s1)" by (cases "Broker_take b (co_system c)")
  have ok: "core_ok (c\<lparr> co_sessionBroker := Some b1, co_system := s1 \<rparr>)"
    using owns_take [OF tk o] step_connection(1,2) assms(2) by (simp add: core_ok_running)
  show ?thesis
  proof (cases "c' = c")
    case False
    then obtain w where "c' = (c\<lparr> co_sessionBroker := Some b1, co_system := s1 \<rparr>)\<lparr> co_world := w \<rparr>"
      using step_connection(3) tk by (auto simp: Core_BrokerWorker_def split: if_splits option.splits)
    then show ?thesis by (auto intro!: core_ok_cong [OF ok] simp: stoppable_def server_running_def)
      (use ok in \<open>simp add: core_ok_def owns_core_broker owns_core_def holds_defs\<close>)
  qed (use assms(2) in simp)
next
  case (step_world n m w')
  then show ?thesis using assms(2) by (auto simp: core_ok_def stoppable_def server_running_def)
next
  case (step_ticker t')
  then show ?thesis using assms(2) by (auto simp: core_ok_def stoppable_def server_running_def)
next
  case (step_fatal e)
  have "co_fatalError c = None \<longrightarrow> core_ok (c\<lparr> co_fatalError := fe, co_notified := es \<rparr>)" for fe es
    using assms(2) by (auto simp: core_ok_def stoppable_def server_running_def core_idle_def)
  moreover have "core_ok (c\<lparr> co_fatalError := fe \<rparr>)" for fe
    using assms(2) by (auto simp: core_ok_def stoppable_def server_running_def core_idle_def)
  ultimately show ?thesis using step_fatal assms(2) by (simp add: Core_ReportFatalError_def Let_def)
next
  case (step_handler h)
  have "core_ok (c\<lparr> co_fatalErrorHandler := h, co_notified := es \<rparr>)" "core_ok (c\<lparr> co_fatalErrorHandler := h \<rparr>)" for es
    using assms(2) by (auto simp: core_ok_def stoppable_def server_running_def core_idle_def owns_core_def holds_defs)
  then show ?thesis using step_handler by (cases h) (auto simp: Core_SetFatalErrorHandler_def Let_def split: option.split)
qed

lemma core_reachable_ok: "core_reachable E c \<Longrightarrow> handle_law E \<Longrightarrow> core_ok c"
proof (induction rule: core_reachable.induct)
  case (reachable_new w)
  show ?case
    by (simp add: core_ok_def core_new_def owns_core_def owns_def holds_defs stoppable_def core_idle_def server_running_def Ticker_new_def)
qed (blast intro: core_ok_step)

section \<open>Properties\<close>


text \<open>An instance: one worker, one session, and the number of the question is the handle.\<close>

definition sample_start :: "unit StartEnv" where
  "sample_start =
     \<lparr> se_create = (\<lambda>k hs q. if (k, q) \<in> set hs then None else Some q),
       se_createCompletionQueue = (\<lambda>_ hs q. if (CompletionQueue, q) \<in> set hs then None else Some q),
       se_wsaStartup = (\<lambda>_. True), se_wsaIoctl = (\<lambda>_. True), se_bind = (\<lambda>_. True), se_listen = (\<lambda>_. True),
       se_steadyMs = (\<lambda>_. 0),
       se_parser = \<lparr> GetValue_Byte = (\<lambda>_ _ _. Some 1), GetValue_Short = (\<lambda>_ _ _. Some 1), GetValue_Int = (\<lambda>_ _ _. Some 1),
         GetValue_String = (\<lambda>_ _ _. Some [48]), WideCharToMultiByte = map ucast \<rparr>,
       se_factory = Some (\<lambda>_. Some (sample_session [])), se_server = sample_env, se_broker = sample_broker \<rparr>"

lemma sample_start_law: "handle_law sample_start"
  by (simp add: handle_law_def sample_start_def)

lemma sample_fields:
  "se_create sample_start = (\<lambda>k hs q. if (k, q) \<in> set hs then None else Some q)"
  "se_createCompletionQueue sample_start = (\<lambda>_ hs q. if (CompletionQueue, q) \<in> set hs then None else Some q)"
  "se_wsaStartup sample_start = (\<lambda>_. True)" "se_wsaIoctl sample_start = (\<lambda>_. True)" "se_bind sample_start = (\<lambda>_. True)"
  "se_listen sample_start = (\<lambda>_. True)" "se_steadyMs sample_start = (\<lambda>_. 0)"
  "se_factory sample_start = Some (\<lambda>_. Some (sample_session []))"
  by (simp_all add: sample_start_def)

definition sample_options :: CoreOptions where
  "sample_options = snd (ReadOptionFile (se_parser sample_start) options_new)"

lemma sample_options: "ReadOptionFile (se_parser sample_start) options_new = (True, sample_options)"
  "opt_numOfWorkerThread sample_options = 1" "opt_numOfSockets sample_options = 1" "opt_timerTickMs sample_options = 1"
  by (simp_all add: sample_options_def ReadOptionFile_def require_value_def read_timeout_bounds_def read_core_tail_def
      read_broker_options_def default_value_def sample_start_def options_new_def Let_def)

lemma sample_pool: "\<exists>w'. Manager_Initialize E 1 [Some s] (Manager_new w) = (True, w')"
  by (simp add: Manager_Initialize_def Manager_new_def Manager_ClearAllSessions_def Let_def)

lemma sample_started: "\<exists>c. Core_StartServer sample_start f (core_new w) = Some (True, c) \<and>
    opt_numOfSockets (co_options c) = 1 \<and> co_threadManager c \<noteq> None \<and> co_threadManager c \<noteq> Some []"
proof -
  obtain w' where w': "Manager_Initialize (server_env sample_start sample_options) 1 [Some (sample_session [])] (Manager_new w) = (True, w')"
    using sample_pool by blast
  show ?thesis
    using sample_options w'
    by (simp add: Core_StartServer_def Core_InitNetwork_def Core_CreateSessionManager_def Core_InitRIO_def core_new_def
        sys_ask_def sample_fields upd_world_def Let_def RIOManager_Initialize_def RIOManager_new_def sessions_per_worker_def
        RIOManager_LoadRIOFunctionTable_def create_handle_def opened_def close_handle_def RIOManager_CreateCompletionQueue_def
        Core_RunAllThreads_def Core_CreateWorkerEventHandles_def create_event_def Core_InitializeWorkerResources_def
        Ticker_Start_def Ticker_new_def Core_CreateRetransmissionScheduler_def Core_StartWorkerThreads_def
        Core_StartSessionBroker_def Broker_Start_def Broker_new_def Broker_OpenSessionBrokerSocket_def
        ThreadManager_StartThreads_def)
qed




section \<open>What the code forgets\<close>

text \<open>Completion queues of an initialisation that failed stay open, since the manager counts as not initialised.\<close>

lemma failed_queues_stay_open:
  assumes "RIOManager_Initialize E n m RIOManager_new s = (False, r, s')" "owns L s" "handle_law E"
  shows "RIOManager_Shutdown r s' = (r, s')"
  using owns_RIOManager_Initialize(2) [OF assms] by (simp add: RIOManager_Shutdown_def)

lemma waiting_clients_stay_open:
  "(ClientSocket, h) \<in> set (sys_open s) \<Longrightarrow> (ClientSocket, h) \<in> set (sys_open (snd (Broker_Stop b s)))"
  by (simp add: Broker_Stop_def Broker_CloseListenSocket_def close_handle_def Let_def in_set_remove1 split: option.split)

text \<open>A start that fails in \<open>WSAStartup\<close> calls \<open>WSACleanup\<close> all the same.\<close>

lemma failed_startup_cleans_up:
  assumes "fst (ReadOptionFile (se_parser E) options_new)" "\<not> se_wsaStartup E 0"
    "Core_StartServer E meanwhile (core_new w) = Some (ok, c')"
  shows "sys_startups (co_system c') = - 1"
  using assms
  by (auto simp: Core_StartServer_def Core_InitNetwork_def Core_StopServer_def Let_def core_new_def Core_StopBroker_def
      Core_CloseAllSessions_def Core_WaitForAllSessionsReleased_def Core_SignalWorkerStopEvents_def upd_system_def
      signal_if_valid_def Core_StopAllThreads_def Core_CloseWorkerEventHandles_def CloseHandleIfValid_def upd_world_def
      Core_CloseRetransmissionSchedulerHandles_def Core_ClearAllSession_def sys_ask_def split: prod.splits)

section \<open>Fatal errors\<close>

datatype fatal_op = Op_report ServerFatalError | Op_handler bool

fun fatal_call :: "fatal_op \<Rightarrow> 'k Core \<Rightarrow> 'k Core" where
  "fatal_call (Op_report e) c = Core_ReportFatalError e c"
| "fatal_call (Op_handler h) c = Core_SetFatalErrorHandler h c"

text \<open>Whoever reports and whenever a handler is set, a handler only hears of the first error.\<close>

definition first_error :: "'k Core \<Rightarrow> bool" where
  "first_error c \<longleftrightarrow> (\<forall>e \<in> set (co_notified c). co_fatalError c = Some e)"

interpretation fatal: preserved fatal_call first_error
proof
  fix c :: "'k Core" and op
  assume "first_error c"
  then show "first_error (fatal_call op c)"
    by (cases op) (auto simp: first_error_def Core_ReportFatalError_def Core_SetFatalErrorHandler_def Let_def split: option.split)
qed

section \<open>A server that has started\<close>

definition with_queues :: "nat \<Rightarrow> 'k World \<Rightarrow> 'k World" where
  "with_queues m w = w\<lparr> w_schedulers := replicate m [], w_recvIOCompletedContexts := replicate m [] \<rparr>"

lemma with_queues_InitializeSession:
  "Session_InitializeSession E i (with_queues m w) = with_queues m (Session_InitializeSession E i w)"
  by (simp add: Session_InitializeSession_def with_queues_def upd_session_def get_session_def get_send_def set_send_def
      Let_def split: prod.split)

lemma with_queues_create:
  "create_sessions E t fs (with_queues m w) = (fst (create_sessions E t fs w), with_queues m (snd (create_sessions E t fs w)))"
proof (induction fs arbitrary: w)
  case (Cons x fs)
  have fields: "(with_queues m u)\<lparr> w_sessions := ss \<rparr> = with_queues m (u\<lparr> w_sessions := ss \<rparr>)"
    "(with_queues m u)\<lparr> w_unusedSessionIdList := l, w_unusedSessionIdSet := S \<rparr>
      = with_queues m (u\<lparr> w_unusedSessionIdList := l, w_unusedSessionIdSet := S \<rparr>)"
    "w_unusedSessionIdList (with_queues m u) = w_unusedSessionIdList u"
    "w_unusedSessionIdSet (with_queues m u) = w_unusedSessionIdSet u" "w_sessions (with_queues m u) = w_sessions u"
    for u :: "'a World" and ss l S
    by (simp_all add: with_queues_def)
  show ?case by (cases x) (simp_all add: Let_def fields with_queues_InitializeSession Cons.IH)
qed simp

lemma with_queues_Initialize:
  assumes "Manager_Initialize E t fs w = (True, w')" "\<not> w_isInitialized w"
  shows "Manager_Initialize E t fs (with_queues m w) = (True, with_queues m w')"
proof -
  have "(with_queues m w)\<lparr> w_sessions := [], w_unusedSessionIdList := [], w_unusedSessionIdSet := {} \<rparr>
      = with_queues m (w\<lparr> w_sessions := [], w_unusedSessionIdList := [], w_unusedSessionIdSet := {} \<rparr>)"
    "w_isInitialized (with_queues m w) = w_isInitialized w"
    "\<And>u. (with_queues m u)\<lparr> w_isInitialized := True \<rparr> = with_queues m (u\<lparr> w_isInitialized := True \<rparr>)"
    by (simp_all add: with_queues_def)
  then show ?thesis using assms by (auto simp: Manager_Initialize_def with_queues_create split: prod.splits if_splits)
qed

lemma worker_resources_world:
  "worker_resources E n c = (True, c') \<Longrightarrow> co_world c' = (co_world c)
     \<lparr> w_schedulers := w_schedulers (co_world c) @ replicate n [],
       w_recvIOCompletedContexts := w_recvIOCompletedContexts (co_world c) @ replicate n [] \<rparr>"
proof (induction n arbitrary: c)
  case (Suc n)
  obtain c1 where c1: "worker_resources E n c1 = (True, c')" "co_world c1 = (co_world c)
     \<lparr> w_schedulers := w_schedulers (co_world c) @ [[]],
       w_recvIOCompletedContexts := w_recvIOCompletedContexts (co_world c) @ [[]] \<rparr>"
    using Suc.prems by (auto simp: Let_def upd_world_def split: prod.splits if_splits option.splits)
  from Suc.IH [OF c1(1)] show ?case unfolding c1(2) by (simp add: replicate_append_same)
qed simp

text \<open>The state of a process that has not worked on sessions yet.\<close>

definition fresh_world :: "'k World \<Rightarrow> bool" where
  "fresh_world w \<longleftrightarrow> \<not> w_fault w \<and> w_store w = \<lparr> spi_mem = (\<lambda>_. None), spi_fault = False \<rparr> \<and>
     w_schedulers w = [] \<and> w_recvIOCompletedContexts w = [] \<and> w_posted w = [] \<and> w_releaseSessionIdList w = []"

lemma RunAllThreads_world:
  assumes "Core_RunAllThreads E c = Some (True, c')" "event_holds c = {#}" "owns_core c" "handle_law E"
  shows "co_world c' = (co_world c)\<lparr> w_tps := 0,
       w_schedulers := w_schedulers (co_world c) @ replicate (unat (opt_numOfWorkerThread (co_options c))) [],
       w_recvIOCompletedContexts := w_recvIOCompletedContexts (co_world c) @ replicate (unat (opt_numOfWorkerThread (co_options c))) [] \<rparr>"
    "co_options c' = co_options c"
proof -
  let ?c0 = "(upd_world (\<lambda>w. w\<lparr> w_tps := 0 \<rparr>) c)\<lparr> co_threadManager := Some [] \<rparr>"
  obtain k c1 where e: "Core_CreateWorkerEventHandles E ?c0 = (k, c1)" by (cases "Core_CreateWorkerEventHandles E ?c0")
  have "event_holds ?c0 = {#}" "owns_core ?c0" using assms(2,3) by (simp_all add: event_holds_def upd_world_def)
  note c1 = CreateWorkerEventHandles_core(8,10) [OF e this(2) assms(4) this(1)]
  have own: "owns_core c1" using CreateWorkerEventHandles_core(1) [OF e \<open>owns_core ?c0\<close> assms(4) \<open>event_holds ?c0 = {#}\<close>] .
  obtain s tk c3 where w: "worker_resources E (unat (opt_numOfWorkerThread (co_options c1))) (c1\<lparr> co_system := s, co_ticker := tk \<rparr>) = (True, c3)"
    "Core_StartSessionBroker E (Core_StartWorkerThreads c3) = (True, c')" "owns L s = owns L (co_system c1)" for L
    using assms(1) e
    by (auto simp: Core_RunAllThreads_def Core_InitializeWorkerResources_def Let_def sys_ask_def split: if_splits option.splits prod.splits)
  have o2: "owns_core (c1\<lparr> co_system := s, co_ticker := tk \<rparr>)" using own w(3) by (simp add: owns_core_def holds_defs)
  have "co_world c' = co_world c3" "co_options c' = co_options c3"
    using w(2) by (auto simp: Core_StartSessionBroker_def Core_StartWorkerThreads_def Let_def split: prod.splits)
  moreover have "co_options c3 = co_options c1"
    using worker_resources_core [OF w(1) o2 assms(4)] by (simp add: same_start_def)
  ultimately show "co_world c' = (co_world c)\<lparr> w_tps := 0,
       w_schedulers := w_schedulers (co_world c) @ replicate (unat (opt_numOfWorkerThread (co_options c))) [],
       w_recvIOCompletedContexts := w_recvIOCompletedContexts (co_world c) @ replicate (unat (opt_numOfWorkerThread (co_options c))) [] \<rparr>"
    "co_options c' = co_options c"
    using worker_resources_world [OF w(1)] c1 by (simp_all add: upd_world_def)
qed


definition sample_empty :: "unit World" where
  "sample_empty = (sample_world [])\<lparr> w_schedulers := [], w_recvIOCompletedContexts := [] \<rparr>"


end
