(* ===== verification/Ref_Heap.thy ===== *)
theory Ref_Heap
  imports Prelude "HOL-Library.Multiset"
begin

text \<open>
  A memory of reference-counted objects. A pointer is an address, an address that is not
  allocated belongs to the pool of the library, and touching one sets \<open>hp_fault\<close>. The client keeps its
  packet buffers (\<open>NetBuffer\<close>) and its descriptors (\<open>SendPacketInfo\<close>) in such memories. The
  counts are exact (\<open>heap_ok\<close>) when every object has as many references as it has holders.
\<close>

section \<open>Operations\<close>

record 'a RefHeap =
  hp_mem :: "nat \<Rightarrow> ('a \<times> int) option"
  hp_fault :: bool

definition heap_get :: "nat \<Rightarrow> 'a RefHeap \<Rightarrow> 'a option" where
  "heap_get a h = map_option fst (hp_mem h a)"

definition heap_new :: "nat \<Rightarrow> 'a \<Rightarrow> 'a RefHeap \<Rightarrow> 'a RefHeap" where
  "heap_new a x h = h\<lparr> hp_mem := (hp_mem h)(a := Some (x, 1)) \<rparr>"

definition heap_update :: "nat \<Rightarrow> ('a \<Rightarrow> 'a) \<Rightarrow> 'a RefHeap \<Rightarrow> 'a RefHeap" where
  "heap_update a f h =
     (case hp_mem h a of
        None \<Rightarrow> h\<lparr> hp_fault := True \<rparr>
      | Some (x, n) \<Rightarrow> h\<lparr> hp_mem := (hp_mem h)(a := Some (f x, n)) \<rparr>)"

definition heap_AddRefCount :: "nat \<Rightarrow> 'a RefHeap \<Rightarrow> 'a RefHeap" where
  "heap_AddRefCount a h =
     (case hp_mem h a of
        None \<Rightarrow> h\<lparr> hp_fault := True \<rparr>
      | Some (x, n) \<Rightarrow> h\<lparr> hp_mem := (hp_mem h)(a := Some (x, n + 1)) \<rparr>)"

definition heap_Free :: "nat \<Rightarrow> 'a RefHeap \<Rightarrow> 'a RefHeap" where
  "heap_Free a h =
     (case hp_mem h a of
        None \<Rightarrow> h\<lparr> hp_fault := True \<rparr>
      | Some (x, n) \<Rightarrow> h\<lparr> hp_mem := (hp_mem h)(a := if n = 1 then None else Some (x, n - 1)) \<rparr>)"

section \<open>Exact counts\<close>

definition counted :: "nat \<Rightarrow> ('a \<times> int) option \<Rightarrow> bool" where
  "counted n cell \<longleftrightarrow> (case cell of None \<Rightarrow> n = 0 | Some (x, k) \<Rightarrow> k = int n \<and> 0 < n)"

definition heap_ok :: "nat multiset \<Rightarrow> 'a RefHeap \<Rightarrow> bool" where
  "heap_ok H h \<longleftrightarrow> \<not> hp_fault h \<and> (\<forall>a. counted (count H a) (hp_mem h a))"

lemma counted_simps [simp]:
  "counted n None \<longleftrightarrow> n = 0"
  "counted n (Some c) \<longleftrightarrow> snd c = int n \<and> 0 < n"
  by (simp_all add: counted_def split: prod.split)

lemma heap_okD: "heap_ok H h \<Longrightarrow> counted (count H a) (hp_mem h a)"
  by (simp add: heap_ok_def)

lemma heap_ok_fault: "heap_ok H h \<Longrightarrow> \<not> hp_fault h"
  by (simp add: heap_ok_def)

lemma heap_ok_live:
  assumes "heap_ok H h" "a \<in># H"
  obtains x where "hp_mem h a = Some (x, int (count H a))" "heap_get a h = Some x"
  using heap_okD [OF assms(1), of a] assms(2)
  by (cases "hp_mem h a") (auto simp: heap_get_def count_eq_zero_iff)

lemma heap_ok_count:
  assumes "heap_ok H h" "hp_mem h a = Some (x, k)"
  shows "k = int (count H a) \<and> 1 \<le> k"
proof -
  have "counted (count H a) (Some (x, k))" using heap_okD [OF assms(1), of a] assms(2) by simp
  then have "k = int (count H a)" "0 < count H a" by (simp_all only: counted_simps snd_conv)
  then show ?thesis by linarith
qed

lemma heap_ok_dead: "heap_ok H h \<Longrightarrow> a \<notin># H \<Longrightarrow> hp_mem h a = None"
  using heap_okD [of H h a] by (cases "hp_mem h a") (auto simp: count_eq_zero_iff)

lemma heap_ok_free: "heap_ok H h \<Longrightarrow> hp_mem h a = None \<Longrightarrow> a \<notin># H"
  using heap_okD [of H h a] by (simp add: count_eq_zero_iff)

text \<open>A memory with exact counts is finite, so there is always a free address.\<close>

lemma heap_ok_room:
  assumes "heap_ok H h"
  obtains a where "hp_mem h a = None"
  using ex_new_if_finite [OF infinite_UNIV_nat finite_set_mset, of H] heap_ok_dead [OF assms] by blast

lemma heap_ok_fun_upd:
  assumes "heap_ok H h" "\<not> hp_fault h'" "hp_mem h' = (hp_mem h)(a := cell)"
    "counted (count H' a) cell" "\<And>b. b \<noteq> a \<Longrightarrow> count H' b = count H b"
  shows "heap_ok H' h'"
  using assms by (simp add: heap_ok_def)

lemma heap_ok_new:
  assumes "heap_ok H h" "hp_mem h a = None"
  shows "heap_ok (add_mset a H) (heap_new a x h)"
  by (rule heap_ok_fun_upd [OF assms(1), where a = a and cell = "Some (x, 1)"])
     (use heap_okD [OF assms(1), of a] assms(2) heap_ok_fault [OF assms(1)] in \<open>simp_all add: heap_new_def\<close>)

lemma heap_ok_update:
  assumes "heap_ok H h" "a \<in># H"
  shows "heap_ok H (heap_update a f h)"
proof -
  obtain x where x: "hp_mem h a = Some (x, int (count H a))" using heap_ok_live [OF assms] by blast
  show ?thesis
    by (rule heap_ok_fun_upd [OF assms(1), where a = a and cell = "Some (f x, int (count H a))"])
       (use x heap_ok_fault [OF assms(1)] assms(2) in \<open>simp_all add: heap_update_def\<close>)
qed

lemma heap_ok_AddRefCount:
  assumes "heap_ok H h" "a \<in># H"
  shows "heap_ok (add_mset a H) (heap_AddRefCount a h)"
proof -
  obtain x where x: "hp_mem h a = Some (x, int (count H a))" using heap_ok_live [OF assms] by blast
  show ?thesis
    by (rule heap_ok_fun_upd [OF assms(1), where a = a and cell = "Some (x, int (count H a) + 1)"])
       (use x heap_ok_fault [OF assms(1)] in \<open>simp_all add: heap_AddRefCount_def\<close>)
qed

lemma heap_ok_Free:
  assumes "heap_ok (add_mset a H) h"
  shows "heap_ok H (heap_Free a h)"
proof -
  obtain x where x: "hp_mem h a = Some (x, int (count H a) + 1)"
    using heap_ok_live [OF assms, of a] by (auto simp: add.commute)
  show ?thesis
    by (rule heap_ok_fun_upd [OF assms, where a = a
          and cell = "if count H a = 0 then None else Some (x, int (count H a))"])
       (use x heap_ok_fault [OF assms] in \<open>auto simp: heap_Free_def count_eq_zero_iff\<close>)
qed

text \<open>What happens to the values.\<close>

lemma heap_get_new [simp]: "heap_get b (heap_new a x h) = (if b = a then Some x else heap_get b h)"
  by (simp add: heap_get_def heap_new_def)

lemma heap_get_update: "heap_get b (heap_update a f h) = (if b = a then map_option f (heap_get b h) else heap_get b h)"
  by (auto simp: heap_get_def heap_update_def split: option.split)

lemma heap_get_AddRefCount [simp]: "heap_get b (heap_AddRefCount a h) = heap_get b h"
  by (auto simp: heap_get_def heap_AddRefCount_def split: option.split)

lemma heap_get_Free: "b \<noteq> a \<Longrightarrow> heap_get b (heap_Free a h) = heap_get b h"
  by (auto simp: heap_get_def heap_Free_def split: option.split)

lemma heap_get_Free_same:
  assumes "heap_ok (add_mset a H) h"
  shows "heap_get a (heap_Free a h) = (if a \<in># H then heap_get a h else None)"
proof -
  obtain x where x: "hp_mem h a = Some (x, int (count H a) + 1)"
    using heap_ok_live [OF assms, of a] by (auto simp: add.commute)
  then show ?thesis by (auto simp: heap_Free_def heap_get_def count_eq_zero_iff)
qed

lemma heap_ok_Free_all:
  "heap_ok (H + mset as) h \<Longrightarrow> heap_ok H (fold heap_Free as h)"
proof (induction as arbitrary: h)
  case (Cons a as)
  then show ?case by (simp add: heap_ok_Free)
qed simp

end
