(* ===== verification/Tls_Helper.thy ===== *)
theory Tls_Helper
  imports Net_Buffer "HOL-Library.Sublist"
begin

text \<open>
  Common/TLS/TLSHelper, TLSHelperClient, TLSHelperServer: the TLS connection between a client and the
  broker. SChannel, the certificate stores and the socket are parameters (\<open>TlsApi\<close>); a
  security context is a value of an arbitrary type that their calls change. The logs of what was sent and
  received and the counts of what SChannel has allocated belong to the model. A call that does not
  return is \<open>None\<close>: a \<open>recv\<close> waits until the peer sends or closes, since no timeout is set before the handshake. A \<open>send\<close> of a
  token is taken to return.
\<close>

section \<open>Data\<close>

datatype TlsDecryptResult = TlsNone | TlsPlainData | TlsCloseNotify | TlsError

datatype SECURITY_STATUS = SEC_E_OK | SEC_E_INCOMPLETE_MESSAGE | SEC_I_CONTINUE_NEEDED | SEC_I_CONTEXT_EXPIRED
  | SEC_I_RENEGOTIATE | SEC_FAILED

datatype SecBufferType = SECBUFFER_DATA | SECBUFFER_EXTRA | SECBUFFER_EMPTY | SECBUFFER_STREAM_HEADER
  | SECBUFFER_STREAM_TRAILER

text \<open>\<open>cbBuffer\<close> is the length of the bytes.\<close>

record SecBuffer =
  BufferType :: SecBufferType
  pvBuffer :: "byte list"

text \<open>What a call of \<open>recv\<close> does: it returns bytes, it returns zero or an error, or it waits for ever for a peer that stays silent.\<close>

datatype recv_answer = Recv_bytes "byte list" | Recv_fails | Recv_waits

text \<open>What the calls answer. The two calls of the handshake take the context, if there is one, and
  the bytes received, and answer with the context they created or changed, the token to send and the second
  input buffer. A file that cannot be opened is \<open>None\<close>; otherwise
  there are its size and whether it can be read.\<close>

record 'c TlsApi =
  tls_AcquireCredentialsHandle :: "nat \<Rightarrow> SECURITY_STATUS"
  tls_InitializeSecurityContext :: "nat \<Rightarrow> 'c option \<Rightarrow> byte list option \<Rightarrow> SECURITY_STATUS \<times> 'c option \<times> byte list \<times> SecBuffer"
  tls_AcceptSecurityContext :: "nat \<Rightarrow> 'c option \<Rightarrow> byte list \<Rightarrow> SECURITY_STATUS \<times> 'c option \<times> byte list \<times> SecBuffer"
  tls_QueryStreamSizes :: "nat \<Rightarrow> SECURITY_STATUS \<times> nat \<times> nat"
  tls_EncryptMessage :: "'c \<Rightarrow> byte list \<Rightarrow> (byte list \<times> byte list \<times> byte list) option \<times> 'c"
  tls_ApplyControlToken :: "'c \<Rightarrow> bool \<times> 'c"
  tls_EncryptToken :: "'c \<Rightarrow> nat \<Rightarrow> byte list option \<times> 'c"
  tls_DecryptMessage :: "'c \<Rightarrow> byte list \<Rightarrow> SECURITY_STATUS \<times> SecBuffer list \<times> 'c"
  tls_send :: "nat \<Rightarrow> byte list \<Rightarrow> int"
  tls_recv :: "nat \<Rightarrow> recv_answer"
  tls_CertOpenStore :: "nat \<Rightarrow> bool"
  tls_CertFindCertificateInStore :: "nat \<Rightarrow> bool"
  tls_pfxFile :: "nat \<Rightarrow> (int \<times> bool) option"
  tls_PFXImportCertStore :: "nat \<Rightarrow> bool"

datatype ServerCertificateSource = Store | PfxFile

text \<open>\<open>credHandle\<close> is zero until credentials were acquired; \<open>ctxtHandle\<close> is \<open>None\<close> while it is zero.
  \<open>th_streamSizes\<close> are \<open>cbHeader\<close> and \<open>cbTrailer\<close>.\<close>

record 'c TLSHelper =
  th_credHandle :: bool
  th_ctxtHandle :: "'c option"
  th_lastStatus :: SECURITY_STATUS
  th_handshakeCompleted :: bool
  th_streamSizes :: "nat \<times> nat"
  th_sent :: "byte list"
  th_received :: "byte list"
  th_contexts :: int
  th_credentials :: int
  th_certStores :: int
  th_certContexts :: int
  th_query :: nat
  th_bufferOverrun :: bool

definition TLSHelper_new :: "'c TLSHelper" where
  "TLSHelper_new =
     \<lparr> th_credHandle = False, th_ctxtHandle = None, th_lastStatus = SEC_E_OK, th_handshakeCompleted = False,
       th_streamSizes = (0, 0), th_sent = [], th_received = [], th_contexts = 0, th_credentials = 0,
       th_certStores = 0, th_certContexts = 0, th_query = 0, th_bufferOverrun = False \<rparr>"

definition tls_ask :: "(nat \<Rightarrow> 'a) \<Rightarrow> 'c TLSHelper \<Rightarrow> 'a \<times> 'c TLSHelper" where
  "tls_ask f th = (f (th_query th), th\<lparr> th_query := th_query th + 1 \<rparr>)"

text \<open>The destructor.\<close>

definition TLSHelper_destroy :: "'c TLSHelper \<Rightarrow> 'c TLSHelper" where
  "TLSHelper_destroy th =
     (let th1 = (if th_handshakeCompleted th then th\<lparr> th_contexts := th_contexts th - 1 \<rparr> else th)
      in if th_credHandle th1 then th1\<lparr> th_credentials := th_credentials th1 - 1 \<rparr> else th1)"

section \<open>Credentials\<close>

definition acquire_credentials :: "'c TlsApi \<Rightarrow> 'c TLSHelper \<Rightarrow> bool \<times> 'c TLSHelper" where
  "acquire_credentials api th =
     (let (status, th1) = tls_ask (tls_AcquireCredentialsHandle api) th;
          th2 = th1\<lparr> th_lastStatus := status \<rparr>
      in if status = SEC_E_OK then (True, th2\<lparr> th_credHandle := True, th_credentials := th_credentials th2 + 1 \<rparr>)
         else (False, th2))"

definition TLSHelperClient_Initialize :: "'c TlsApi \<Rightarrow> 'c TLSHelper \<Rightarrow> bool \<times> 'c TLSHelper" where
  "TLSHelperClient_Initialize api th = acquire_credentials api th"

text \<open>Both ways end in the same steps: find the certificate, acquire, free the certificate, close the store.\<close>

definition credentials_from_store :: "'c TlsApi \<Rightarrow> 'c TLSHelper \<Rightarrow> bool \<times> 'c TLSHelper" where
  "credentials_from_store api th =
     (let th1 = th\<lparr> th_certStores := th_certStores th + 1 \<rparr>;
          (found, th2) = tls_ask (tls_CertFindCertificateInStore api) th1
      in if \<not> found then (False, th2\<lparr> th_certStores := th_certStores th2 - 1 \<rparr>)
         else let (ok, th3) = acquire_credentials api (th2\<lparr> th_certContexts := th_certContexts th2 + 1 \<rparr>)
              in (ok, th3\<lparr> th_certContexts := th_certContexts th3 - 1, th_certStores := th_certStores th3 - 1 \<rparr>))"

definition TLSHelperServer_InitializeFromStore :: "'c TlsApi \<Rightarrow> 'c TLSHelper \<Rightarrow> bool \<times> 'c TLSHelper" where
  "TLSHelperServer_InitializeFromStore api th =
     (let (opened, th1) = tls_ask (tls_CertOpenStore api) th
      in if \<not> opened then (False, th1) else credentials_from_store api th1)"

definition TLSHelperServer_InitializeFromPfxFile :: "'c TlsApi \<Rightarrow> 'c TLSHelper \<Rightarrow> bool \<times> 'c TLSHelper" where
  "TLSHelperServer_InitializeFromPfxFile api th =
     (let (file, th1) = tls_ask (tls_pfxFile api) th
      in case file of None \<Rightarrow> (False, th1)
         | Some (pfxSize, readable) \<Rightarrow>
             if pfxSize \<le> 0 then (False, th1)
             else if \<not> readable then (False, th1)
             else let (imported, th2) = tls_ask (tls_PFXImportCertStore api) th1
                  in if \<not> imported then (False, th2) else credentials_from_store api th2)"

fun TLSHelperServer_Initialize :: "'c TlsApi \<Rightarrow> ServerCertificateSource \<Rightarrow> 'c TLSHelper \<Rightarrow> bool \<times> 'c TLSHelper" where
  "TLSHelperServer_Initialize api Store th = TLSHelperServer_InitializeFromStore api th"
| "TLSHelperServer_Initialize api PfxFile th = TLSHelperServer_InitializeFromPfxFile api th"

section \<open>The handshake\<close>

text \<open>The loop of \<open>SendHandshakeToken\<close>: whether all was sent, what was sent, and the number of the next question.\<close>

function send_token :: "(nat \<Rightarrow> byte list \<Rightarrow> int) \<Rightarrow> byte list \<Rightarrow> nat \<Rightarrow> bool \<times> byte list \<times> nat" where
  "send_token send_call token query =
     (if token = [] then (True, [], query)
      else let sent = send_call query token in
        if sent \<le> 0 then (False, [], Suc query)
        else let (ok, out, q) = send_token send_call (drop (nat sent) token) (Suc query)
             in (ok, take (nat sent) token @ out, q))"
  by pat_completeness auto

termination by (relation "measure (\<lambda>(_, token, _). length token)") auto

declare send_token.simps [simp del]

definition TLSHelper_SendHandshakeToken :: "'c TlsApi \<Rightarrow> byte list \<Rightarrow> 'c TLSHelper \<Rightarrow> bool \<times> 'c TLSHelper" where
  "TLSHelper_SendHandshakeToken api token th =
     (let (ok, out, q) = send_token (tls_send api) token (th_query th)
      in (ok, th\<lparr> th_sent := th_sent th @ out, th_query := q \<rparr>))"

definition TLSHelper_ReceiveHandshakeData ::
    "'c TlsApi \<Rightarrow> byte list \<Rightarrow> 'c TLSHelper \<Rightarrow> (bool \<times> byte list \<times> 'c TLSHelper) option" where
  "TLSHelper_ReceiveHandshakeData api recvBuffer th =
     (case tls_ask (tls_recv api) th of
        (Recv_waits, th1) \<Rightarrow> None
      | (Recv_fails, th1) \<Rightarrow> Some (False, recvBuffer, th1)
      | (Recv_bytes bytes, th1) \<Rightarrow> Some (True, recvBuffer @ bytes, th1\<lparr> th_received := th_received th1 @ bytes \<rparr>))"

definition TLSHelper_PreserveExtraHandshakeData :: "SecBuffer \<Rightarrow> byte list" where
  "TLSHelper_PreserveExtraHandshakeData extraBuffer =
     (if BufferType extraBuffer \<noteq> SECBUFFER_EXTRA \<or> pvBuffer extraBuffer = [] then [] else pvBuffer extraBuffer)"

definition TLSHelper_FinalizeHandshake :: "'c TlsApi \<Rightarrow> 'c TLSHelper \<Rightarrow> bool \<times> 'c TLSHelper" where
  "TLSHelper_FinalizeHandshake api th =
     (let ((status, sizes), th1) = tls_ask (tls_QueryStreamSizes api) th;
          th2 = th1\<lparr> th_lastStatus := status \<rparr>
      in if status \<noteq> SEC_E_OK then (False, th2\<lparr> th_contexts := th_contexts th2 - 1, th_ctxtHandle := None \<rparr>)
         else (True, th2\<lparr> th_streamSizes := sizes, th_handshakeCompleted := True \<rparr>))"

text \<open>What the call of SChannel leaves in \<open>ctxtHandle\<close>. Without a context passed in, one it returns is new.\<close>

definition set_context :: "bool \<Rightarrow> 'c option \<Rightarrow> 'c TLSHelper \<Rightarrow> 'c TLSHelper" where
  "set_context context new th =
     (case new of None \<Rightarrow> th
      | Some c \<Rightarrow> th\<lparr> th_ctxtHandle := Some c, th_contexts := th_contexts th + (if context then 0 else 1) \<rparr>)"

text \<open>A round of the loop of the client and of the server, on whether \<open>context\<close> is set, the bytes that wait and
  the helper: the result (\<open>None\<close> when the round waits for ever), or the state of the next round.\<close>

type_synonym 'c handshake = "bool \<times> byte list \<times> 'c TLSHelper"
type_synonym 'c round_result = "(bool \<times> 'c TLSHelper) option + 'c handshake"

definition receive_and_continue :: "'c TlsApi \<Rightarrow> bool \<Rightarrow> byte list \<Rightarrow> 'c TLSHelper \<Rightarrow> 'c round_result" where
  "receive_and_continue api context recvBuffer th =
     (case TLSHelper_ReceiveHandshakeData api recvBuffer th of
        None \<Rightarrow> Inl None
      | Some (False, _, th1) \<Rightarrow> Inl (Some (False, th1))
      | Some (True, buf, th1) \<Rightarrow> Inr (context, buf, th1))"

fun client_round :: "'c TlsApi \<Rightarrow> 'c handshake \<Rightarrow> 'c round_result" where
  "client_round api (context, recvBuffer, th) =
     (let ((status, new, token, extra), th1) = tls_ask (\<lambda>q. tls_InitializeSecurityContext api q
              (if context then th_ctxtHandle th else None) (if context then Some recvBuffer else None)) th;
          (sent, th2) = TLSHelper_SendHandshakeToken api token (set_context context new (th1\<lparr> th_lastStatus := status \<rparr>))
      in if \<not> sent then Inl (Some (False, th2))
         else if status = SEC_E_OK then Inl (Some (TLSHelper_FinalizeHandshake api th2))
         else if status = SEC_E_INCOMPLETE_MESSAGE then receive_and_continue api context recvBuffer th2
         else if status \<noteq> SEC_I_CONTINUE_NEEDED then Inl (Some (False, th2))
         else receive_and_continue api True (if context then TLSHelper_PreserveExtraHandshakeData extra else []) th2)"

fun server_round :: "'c TlsApi \<Rightarrow> 'c handshake \<Rightarrow> 'c round_result" where
  "server_round api (context, waiting, th) =
     (case TLSHelper_ReceiveHandshakeData api waiting th of
        None \<Rightarrow> Inl None
      | Some (False, _, th0) \<Rightarrow> Inl (Some (False, th0))
      | Some (True, recvBuffer, th0) \<Rightarrow>
          let ((status, new, token, extra), th1) = tls_ask (\<lambda>q. tls_AcceptSecurityContext api q
                (if context then th_ctxtHandle th0 else None) recvBuffer) th0;
              (sent, th2) = TLSHelper_SendHandshakeToken api token (set_context context new (th1\<lparr> th_lastStatus := status \<rparr>))
          in if \<not> sent then Inl (Some (False, th2))
             else if status = SEC_E_OK then Inl (Some (TLSHelper_FinalizeHandshake api th2))
             else if status = SEC_E_INCOMPLETE_MESSAGE then Inr (context, recvBuffer, th2)
             else if status \<noteq> SEC_I_CONTINUE_NEEDED then Inl (Some (False, th2))
             else Inr (True, TLSHelper_PreserveExtraHandshakeData extra, th2))"

partial_function (option) rounds :: "('s \<Rightarrow> 'r option + 's) \<Rightarrow> 's \<Rightarrow> 'r option" where
  "rounds step s = (case step s of Inl r \<Rightarrow> r | Inr s' \<Rightarrow> rounds step s')"

definition TLSHelperClient_Handshake :: "'c TlsApi \<Rightarrow> 'c TLSHelper \<Rightarrow> (bool \<times> 'c TLSHelper) option" where
  "TLSHelperClient_Handshake api th =
     rounds (client_round api) (False, [], th\<lparr> th_handshakeCompleted := False \<rparr>)"

definition TLSHelperServer_Handshake :: "'c TlsApi \<Rightarrow> 'c TLSHelper \<Rightarrow> (bool \<times> 'c TLSHelper) option" where
  "TLSHelperServer_Handshake api th =
     (let th1 = (if th_handshakeCompleted th
                 then th\<lparr> th_contexts := th_contexts th - 1, th_ctxtHandle := None \<rparr> else th)
      in rounds (server_round api) (False, [], th1\<lparr> th_handshakeCompleted := False \<rparr>))"

section \<open>The stream\<close>

text \<open>\<open>EncryptData\<close> into a buffer with these bytes: the first \<open>encryptedSize\<close> bytes of it afterwards. The library checks
  no size.\<close>

definition TLSHelper_EncryptData :: "'c TlsApi \<Rightarrow> byte list \<Rightarrow> byte list \<Rightarrow> 'c TLSHelper \<Rightarrow> byte list option \<times> 'c TLSHelper" where
  "TLSHelper_EncryptData api plainData encryptedBuffer th =
     (case (th_handshakeCompleted th, th_ctxtHandle th, th_streamSizes th) of
        (True, Some c, (cbHeader, cbTrailer)) \<Rightarrow>
          let th1 = th\<lparr> th_bufferOverrun := (th_bufferOverrun th \<or>
                cbHeader + length plainData + cbTrailer > length encryptedBuffer) \<rparr>;
              (answer, c') = tls_EncryptMessage api c plainData;
              th2 = th1\<lparr> th_ctxtHandle := Some c' \<rparr>
          in (case answer of None \<Rightarrow> (None, th2)
              | Some (header, body, trailer) \<Rightarrow>
                  (Some (take (length header + length body + length trailer)
                     (patch (cbHeader + length plainData) trailer (patch cbHeader body (patch 0 header encryptedBuffer)))), th2))
      | _ \<Rightarrow> (None, th))"

text \<open>\<open>DecryptData\<close> takes the first buffer of type DATA.\<close>

definition TLSHelper_DecryptData :: "'c TlsApi \<Rightarrow> byte list \<Rightarrow> nat \<Rightarrow> 'c TLSHelper \<Rightarrow> byte list option \<times> 'c TLSHelper" where
  "TLSHelper_DecryptData api encryptedData capacity th =
     (case (th_handshakeCompleted th, th_ctxtHandle th) of
        (True, Some c) \<Rightarrow>
          let (status, buffers, c') = tls_DecryptMessage api c encryptedData;
              th1 = th\<lparr> th_ctxtHandle := Some c' \<rparr>
          in if status \<noteq> SEC_E_OK \<and> status \<noteq> SEC_I_RENEGOTIATE then (None, th1)
             else (case filter (\<lambda>b. BufferType b = SECBUFFER_DATA) buffers of
                     [] \<Rightarrow> (None, th1)
                   | b # _ \<Rightarrow> (Some (pvBuffer b), th1\<lparr> th_bufferOverrun := (th_bufferOverrun th1 \<or> length (pvBuffer b) > capacity) \<rparr>))
      | _ \<Rightarrow> (None, th))"

text \<open>The last buffer of a kind, as the loop over the buffers finds it.\<close>

definition data_buffer :: "SecBuffer list \<Rightarrow> byte list" where
  "data_buffer buffers =
     (case rev (filter (\<lambda>b. BufferType b = SECBUFFER_DATA \<and> pvBuffer b \<noteq> []) buffers) of [] \<Rightarrow> [] | b # _ \<Rightarrow> pvBuffer b)"

definition extra_buffer :: "SecBuffer list \<Rightarrow> byte list option" where
  "extra_buffer buffers =
     (case rev (filter (\<lambda>b. BufferType b = SECBUFFER_EXTRA) buffers) of [] \<Rightarrow> None | b # _ \<Rightarrow> Some (pvBuffer b))"

definition decrypt_end :: "byte list \<Rightarrow> TlsDecryptResult" where
  "decrypt_end plain = (if plain \<noteq> [] then TlsPlainData else TlsNone)"

text \<open>The loop of \<open>DecryptDataStream\<close>: the result, the bytes left in the stream, the plaintext and the context.\<close>

partial_function (option) decrypt_loop ::
    "'c TlsApi \<Rightarrow> 'c \<Rightarrow> byte list \<Rightarrow> byte list \<Rightarrow> (TlsDecryptResult \<times> byte list \<times> byte list \<times> 'c) option" where
  "decrypt_loop api c encryptedStream plain =
     (if encryptedStream = [] then Some (decrypt_end plain, [], plain, c)
      else let (status, buffers, c') = tls_DecryptMessage api c encryptedStream in
        if status = SEC_E_INCOMPLETE_MESSAGE then Some (TlsNone, encryptedStream, plain, c')
        else if status = SEC_I_CONTEXT_EXPIRED then Some (TlsCloseNotify, [], plain, c')
        else if status \<noteq> SEC_E_OK then Some (TlsError, encryptedStream, plain, c')
        else let plain' = plain @ data_buffer buffers in
          case extra_buffer buffers of
            None \<Rightarrow> Some (decrypt_end plain', [], plain', c')
          | Some newStream \<Rightarrow> decrypt_loop api c' newStream plain')"

definition TLSHelper_DecryptDataStream ::
    "'c TlsApi \<Rightarrow> byte list \<Rightarrow> nat \<Rightarrow> 'c TLSHelper \<Rightarrow> (TlsDecryptResult \<times> byte list \<times> byte list \<times> 'c TLSHelper) option" where
  "TLSHelper_DecryptDataStream api encryptedStream capacity th =
     (if \<not> th_handshakeCompleted th then Some (TlsError, encryptedStream, [], th)
      else case th_ctxtHandle th of None \<Rightarrow> Some (TlsError, encryptedStream, [], th)
      | Some c \<Rightarrow>
          map_option (\<lambda>(result, rest, plain, c').
            (result, rest, plain, th\<lparr> th_ctxtHandle := Some c', th_bufferOverrun := (th_bufferOverrun th \<or> length plain > capacity) \<rparr>))
            (decrypt_loop api c encryptedStream []))"

definition TLSHelper_EncryptCloseNotify :: "'c TlsApi \<Rightarrow> nat \<Rightarrow> 'c TLSHelper \<Rightarrow> byte list option \<times> 'c TLSHelper" where
  "TLSHelper_EncryptCloseNotify api bufferSize th =
     (case th_ctxtHandle th of None \<Rightarrow> (None, th)
      | Some c \<Rightarrow>
          let (applied, c1) = tls_ApplyControlToken api c in
          if \<not> applied then (None, th\<lparr> th_ctxtHandle := Some c1 \<rparr>)
          else let (answer, c2) = tls_EncryptToken api c1 bufferSize in (answer, th\<lparr> th_ctxtHandle := Some c2 \<rparr>))"

section \<open>Loops that are rounds\<close>

lemma rounds_invariant:
  assumes "rounds step s = Some r" "P s" "\<And>s s'. P s \<Longrightarrow> step s = Inr s' \<Longrightarrow> P s'" "\<And>s r. P s \<Longrightarrow> step s = Inl (Some r) \<Longrightarrow> Q r"
  shows "Q r"
proof -
  have "step = step \<longrightarrow> P s \<longrightarrow> Q r"
  proof (rule rounds.raw_induct [of "\<lambda>st s r. st = step \<longrightarrow> P s \<longrightarrow> Q r", OF _ assms(1)], intro impI)
    fix rounds' st s r
    assume IH: "\<And>st s r. rounds' st s = Some r \<Longrightarrow> st = step \<longrightarrow> P s \<longrightarrow> Q r"
      and eq: "(case st s of Inl r \<Rightarrow> r | Inr s' \<Rightarrow> rounds' st s') = Some r" and st: "st = step" "P s"
    then show "Q r" using assms(3,4) by (cases "step s") auto
  qed
  with assms(2) show ?thesis by blast
qed

lemma rounds_return:
  assumes "P s" "\<And>s s'. P s \<Longrightarrow> step s = Inr s' \<Longrightarrow> P s' \<and> m s' < (m s :: nat)" "\<And>s. P s \<Longrightarrow> step s \<noteq> Inl None"
  shows "\<exists>r. rounds step s = Some r"
  using assms(1)
proof (induction "m s" arbitrary: s rule: less_induct)
  case less
  show ?case
  proof (cases "step s")
    case (Inl r)
    then show ?thesis using assms(3) [OF less(2)] by (cases r) (simp_all add: rounds.simps)
  next
    case (Inr s')
    with assms(2) [OF less(2) Inr] less(1) have "\<exists>r. rounds step s' = Some r" by blast
    with Inr show ?thesis by (simp add: rounds.simps [of step s])
  qed
qed

section \<open>The handshake, whatever SChannel answers\<close>

lemma send_token_sends:
  assumes "send_token send_call token query = (ok, out, q)"
  shows "prefix out token" "ok \<Longrightarrow> out = token" "query \<le> q"
proof -
  have "prefix out token \<and> (ok \<longrightarrow> out = token) \<and> query \<le> q"
    using assms
  proof (induction send_call token query arbitrary: ok out q rule: send_token.induct)
    case (1 send_call token query)
    let ?sent = "send_call query token"
    show ?case
    proof (cases "token = [] \<or> ?sent \<le> 0")
      case True
      with 1(2) show ?thesis by (auto simp: send_token.simps [of send_call token query] Let_def split: if_splits)
    next
      case False
      obtain ok' out' q' where r: "send_token send_call (drop (nat ?sent) token) (Suc query) = (ok', out', q')"
        by (metis prod_cases3)
      have IH: "prefix out' (drop (nat ?sent) token) \<and> (ok' \<longrightarrow> out' = drop (nat ?sent) token) \<and> Suc query \<le> q'"
        using 1(1) [OF _ refl _ r] False by simp
      have e: "ok = ok'" "out = take (nat ?sent) token @ out'" "q = q'"
        using 1(2) False r by (auto simp: send_token.simps [of send_call token query] Let_def)
      have "prefix (take (nat ?sent) token @ out') (take (nat ?sent) token @ drop (nat ?sent) token)"
        using IH by (simp only: same_prefix_prefix)
      with e IH show ?thesis by auto
    qed
  qed
  then show "prefix out token" "ok \<Longrightarrow> out = token" "query \<le> q" by simp_all
qed

text \<open>What an operation of the handshake leaves alone.\<close>

lemma SendHandshakeToken_frame:
  assumes "TLSHelper_SendHandshakeToken api token th = (ok, th')"
  shows "\<exists>out q. th' = th\<lparr> th_sent := th_sent th @ out, th_query := q \<rparr> \<and> th_query th \<le> q \<and> prefix out token \<and> (ok \<longrightarrow> out = token)"
proof -
  obtain ok' out q where s: "send_token (tls_send api) token (th_query th) = (ok', out, q)"
    by (metis prod_cases3)
  from send_token_sends [OF this] assms s show ?thesis
    by (auto simp: TLSHelper_SendHandshakeToken_def)
qed

lemma set_context_simps [simp]:
  "th_query (set_context context new th) = th_query th" "th_received (set_context context new th) = th_received th"
  "th_handshakeCompleted (set_context context new th) = th_handshakeCompleted th"
  "th_ctxtHandle (set_context context new th) = (case new of None \<Rightarrow> th_ctxtHandle th | Some c \<Rightarrow> Some c)"
  "th_contexts (set_context context new th) = th_contexts th + (if context \<or> new = None then 0 else 1)"
  by (auto simp: set_context_def split: option.split)

text \<open>What the documentation says of a first call, one without a context: it creates one exactly when the handshake is done
  or goes on. And of the socket: at some time no more bytes come.\<close>

definition context_law :: "'c TlsApi \<Rightarrow> bool" where
  "context_law api \<longleftrightarrow>
     (\<forall>q input. fst (snd (tls_InitializeSecurityContext api q None input)) = None \<longleftrightarrow>
        fst (tls_InitializeSecurityContext api q None input) \<notin> {SEC_E_OK, SEC_I_CONTINUE_NEEDED}) \<and>
     (\<forall>q input. fst (snd (tls_AcceptSecurityContext api q None input)) = None \<longleftrightarrow>
        fst (tls_AcceptSecurityContext api q None input) \<notin> {SEC_E_OK, SEC_I_CONTINUE_NEEDED})"

definition recv_ends :: "'c TlsApi \<Rightarrow> bool" where
  "recv_ends api \<longleftrightarrow> (\<exists>n. \<forall>q bytes. n \<le> q \<longrightarrow> tls_recv api q \<noteq> Recv_bytes bytes)"

text \<open>During a handshake: at most one context was created on top of \<open>n\<close>, and \<open>context\<close> tells whether.\<close>

definition shaking :: "int \<Rightarrow> 'c handshake \<Rightarrow> bool" where
  "shaking n = (\<lambda>(context, recvBuffer, th). \<not> th_handshakeCompleted th \<and> (context \<longleftrightarrow> th_ctxtHandle th \<noteq> None) \<and>
     th_contexts th = n + (if context then 1 else 0))"

definition shaken :: "int \<Rightarrow> bool \<times> 'c TLSHelper \<Rightarrow> bool" where
  "shaken n = (\<lambda>(ok, th). th_handshakeCompleted th = ok \<and> (ok \<longrightarrow> th_ctxtHandle th \<noteq> None) \<and>
     th_contexts th = n + (if th_ctxtHandle th = None then 0 else 1))"

lemma receive_cases:
  "receive_and_continue api context buf th =
     (case tls_recv api (th_query th) of
        Recv_waits \<Rightarrow> Inl None
      | Recv_fails \<Rightarrow> Inl (Some (False, th\<lparr> th_query := th_query th + 1 \<rparr>))
      | Recv_bytes bytes \<Rightarrow> Inr (context, buf @ bytes, th\<lparr> th_query := th_query th + 1, th_received := th_received th @ bytes \<rparr>))"
  by (simp add: receive_and_continue_def TLSHelper_ReceiveHandshakeData_def tls_ask_def split: recv_answer.split)

lemma Finalize_shaken:
  assumes "\<not> th_handshakeCompleted th" "th_ctxtHandle th \<noteq> None" "th_contexts th = n + 1"
  shows "shaken n (TLSHelper_FinalizeHandshake api th)"
  using assms by (auto simp: shaken_def TLSHelper_FinalizeHandshake_def tls_ask_def Let_def split: prod.split)

text \<open>The part of a round both sides share: the call of SChannel has answered and the token is sent.\<close>

lemma first_call:
  assumes "context_law api"
  shows "tls_InitializeSecurityContext api q None input = (status, new, token, extra) \<Longrightarrow>
      new = None \<longleftrightarrow> status \<notin> {SEC_E_OK, SEC_I_CONTINUE_NEEDED}"
    "tls_AcceptSecurityContext api q None bytes = (status, new, token, extra) \<Longrightarrow>
      new = None \<longleftrightarrow> status \<notin> {SEC_E_OK, SEC_I_CONTINUE_NEEDED}"
  using assms [unfolded context_law_def, THEN conjunct1, rule_format, of q input]
    assms [unfolded context_law_def, THEN conjunct2, rule_format, of q bytes] by simp_all

lemma round_contexts:
  assumes "shaking n (context, buf, th)" "new = None \<longrightarrow> context \<or> status \<notin> {SEC_E_OK, SEC_I_CONTINUE_NEEDED}"
    "new \<noteq> None \<longrightarrow> context \<or> status \<in> {SEC_E_OK, SEC_I_CONTINUE_NEEDED}"
    "TLSHelper_SendHandshakeToken api token (set_context context new (th\<lparr> th_query := q, th_lastStatus := status \<rparr>)) = (sent, th2)"
  shows "\<not> th_handshakeCompleted th2" "th_query th2 \<ge> q" "th_received th2 = th_received th"
    "th_contexts th2 = n + (if th_ctxtHandle th2 = None then 0 else 1)"
    "status \<in> {SEC_E_OK, SEC_I_CONTINUE_NEEDED} \<Longrightarrow> th_ctxtHandle th2 \<noteq> None"
    "status \<notin> {SEC_E_OK, SEC_I_CONTINUE_NEEDED} \<Longrightarrow> th_ctxtHandle th2 \<noteq> None \<longleftrightarrow> context"
  using assms SendHandshakeToken_frame [OF assms(4)]
  by (auto simp: shaking_def split: option.splits if_splits)

lemma client_round_shaking:
  assumes "context_law api" "shaking n s"
  shows "client_round api s = Inr s' \<Longrightarrow> shaking n s'" "client_round api s = Inl (Some r) \<Longrightarrow> shaken n r"
proof -
  obtain ctx buf th where s: "s = (ctx, buf, th)" by (cases s)
  obtain status new token extra where a: "tls_InitializeSecurityContext api (th_query th) (if ctx then th_ctxtHandle th else None)
      (if ctx then Some buf else None) = (status, new, token, extra)" by (metis prod_cases4)
  obtain sent th2 where t: "TLSHelper_SendHandshakeToken api token
      (set_context ctx new (th\<lparr> th_query := Suc (th_query th), th_lastStatus := status \<rparr>)) = (sent, th2)" by (metis surj_pair)
  have law: "new = None \<longrightarrow> ctx \<or> status \<notin> {SEC_E_OK, SEC_I_CONTINUE_NEEDED}"
    "new \<noteq> None \<longrightarrow> ctx \<or> status \<in> {SEC_E_OK, SEC_I_CONTINUE_NEEDED}"
    using first_call(1) [OF assms(1), of "th_query th" None status new token extra] a by (cases ctx; simp)+
  note f = round_contexts [OF assms(2) [unfolded s] law t]
  have r: "client_round api s =
      (if \<not> sent then Inl (Some (False, th2))
       else if status = SEC_E_OK then Inl (Some (TLSHelper_FinalizeHandshake api th2))
       else if status = SEC_E_INCOMPLETE_MESSAGE then receive_and_continue api ctx buf th2
       else if status \<noteq> SEC_I_CONTINUE_NEEDED then Inl (Some (False, th2))
       else receive_and_continue api True (if ctx then TLSHelper_PreserveExtraHandshakeData extra else []) th2)"
    using a t by (simp add: s tls_ask_def)
  show "client_round api s = Inr s' \<Longrightarrow> shaking n s'"
    using f unfolding r by (auto simp: receive_cases shaking_def split: if_splits recv_answer.splits)
  show "shaken n r" if "client_round api s = Inl (Some r)"
  proof (cases "sent \<and> status = SEC_E_OK")
    case True
    with that r f Finalize_shaken [of th2 n api] show ?thesis by auto
  next
    case False
    with that f show ?thesis unfolding r by (auto simp: receive_cases shaken_def split: if_splits recv_answer.splits)
  qed
qed

lemma server_round_shaking:
  assumes "context_law api" "shaking n s"
  shows "server_round api s = Inr s' \<Longrightarrow> shaking n s'" "server_round api s = Inl (Some r) \<Longrightarrow> shaken n r"
proof -
  obtain ctx buf th where s: "s = (ctx, buf, th)" by (cases s)
  have both: "(server_round api s = Inr s' \<longrightarrow> shaking n s') \<and> (server_round api s = Inl (Some r) \<longrightarrow> shaken n r)"
  proof (cases "tls_recv api (th_query th)")
    case Recv_waits
    then show ?thesis by (simp add: s TLSHelper_ReceiveHandshakeData_def tls_ask_def)
  next
    case Recv_fails
    then show ?thesis using assms(2)
      by (auto simp: s TLSHelper_ReceiveHandshakeData_def tls_ask_def shaking_def shaken_def)
  next
    case (Recv_bytes bytes)
    let ?th = "th\<lparr> th_query := Suc (th_query th), th_received := th_received th @ bytes \<rparr>" and ?buf = "buf @ bytes"
    have sh: "shaking n (ctx, ?buf, ?th)" using assms(2) by (simp add: s shaking_def)
    obtain status new token extra where a: "tls_AcceptSecurityContext api (th_query ?th) (if ctx then th_ctxtHandle ?th else None) ?buf
        = (status, new, token, extra)" by (metis prod_cases4)
    obtain sent th2 where t: "TLSHelper_SendHandshakeToken api token
        (set_context ctx new (?th\<lparr> th_query := Suc (th_query ?th), th_lastStatus := status \<rparr>)) = (sent, th2)" by (metis surj_pair)
    have law: "new = None \<longrightarrow> ctx \<or> status \<notin> {SEC_E_OK, SEC_I_CONTINUE_NEEDED}"
      "new \<noteq> None \<longrightarrow> ctx \<or> status \<in> {SEC_E_OK, SEC_I_CONTINUE_NEEDED}"
      using first_call(2) [OF assms(1), of "th_query ?th" ?buf status new token extra] a by (cases ctx; simp)+
    note f = round_contexts [OF sh law t]
    have r: "server_round api s =
        (if \<not> sent then Inl (Some (False, th2))
         else if status = SEC_E_OK then Inl (Some (TLSHelper_FinalizeHandshake api th2))
         else if status = SEC_E_INCOMPLETE_MESSAGE then Inr (ctx, ?buf, th2)
         else if status \<noteq> SEC_I_CONTINUE_NEEDED then Inl (Some (False, th2))
         else Inr (True, TLSHelper_PreserveExtraHandshakeData extra, th2))"
      using a t Recv_bytes by (simp add: s TLSHelper_ReceiveHandshakeData_def tls_ask_def)
    show ?thesis
    proof (cases "sent \<and> status = SEC_E_OK")
      case True
      with r f Finalize_shaken [of th2 n api] show ?thesis by auto
    next
      case False
      with f show ?thesis unfolding r by (auto simp: shaking_def shaken_def split: if_splits)
    qed
  qed
  then show "server_round api s = Inr s' \<Longrightarrow> shaking n s'" "server_round api s = Inl (Some r) \<Longrightarrow> shaken n r" by blast+
qed

text \<open>A round that goes on has read from the socket.\<close>

lemma handshake_round_reads:
  assumes "client_round api s = Inr s' \<or> server_round api s = Inr s'"
  shows "\<exists>k. th_query (snd (snd s)) \<le> k \<and> k < th_query (snd (snd s')) \<and> (\<exists>bytes. tls_recv api k = Recv_bytes bytes)"
proof -
  obtain ctx buf th where s: "s = (ctx, buf, th)" by (cases s)
  have receive: "\<exists>k. th_query u \<le> k \<and> k < th_query (snd (snd s')) \<and> (\<exists>bytes. tls_recv api k = Recv_bytes bytes)"
    if "receive_and_continue api ctx' buf' u = Inr s'" for ctx' buf' u
    using that by (auto simp: receive_cases split: recv_answer.splits)
  from assms show ?thesis
  proof
    assume c: "client_round api s = Inr s'"
    obtain status new token extra where a: "tls_InitializeSecurityContext api (th_query th) (if ctx then th_ctxtHandle th else None)
        (if ctx then Some buf else None) = (status, new, token, extra)" by (metis prod_cases4)
    obtain sent th2 where t: "TLSHelper_SendHandshakeToken api token
        (set_context ctx new (th\<lparr> th_query := Suc (th_query th), th_lastStatus := status \<rparr>)) = (sent, th2)" by (metis surj_pair)
    have "\<exists>ctx' buf'. receive_and_continue api ctx' buf' th2 = Inr s'"
      using c a t by (auto simp: s tls_ask_def split: if_splits)
    then have "\<exists>k. th_query th2 \<le> k \<and> k < th_query (snd (snd s')) \<and> (\<exists>bytes. tls_recv api k = Recv_bytes bytes)"
      using receive by blast
    moreover have "th_query th \<le> th_query th2" using SendHandshakeToken_frame [OF t] by auto
    ultimately show ?thesis using s by (auto intro: order_trans)
  next
    assume c: "server_round api s = Inr s'"
    then obtain bytes where b: "tls_recv api (th_query th) = Recv_bytes bytes"
      by (cases "tls_recv api (th_query th)") (auto simp: s TLSHelper_ReceiveHandshakeData_def tls_ask_def)
    let ?th = "th\<lparr> th_query := Suc (th_query th), th_received := th_received th @ bytes \<rparr>"
    obtain status new token extra where a: "tls_AcceptSecurityContext api (th_query ?th) (if ctx then th_ctxtHandle ?th else None) (buf @ bytes)
        = (status, new, token, extra)" by (metis prod_cases4)
    obtain sent th2 where t: "TLSHelper_SendHandshakeToken api token
        (set_context ctx new (?th\<lparr> th_query := Suc (th_query ?th), th_lastStatus := status \<rparr>)) = (sent, th2)" by (metis surj_pair)
    have "snd (snd s') = th2"
      using c a b t by (auto simp: s TLSHelper_ReceiveHandshakeData_def tls_ask_def split: if_splits)
    moreover have "th_query th < th_query th2" using SendHandshakeToken_frame [OF t] by auto
    ultimately show ?thesis using s b by auto
  qed
qed

text \<open>A round that waits for ever waits in a \<open>recv\<close>.\<close>

lemma handshake_round_waits:
  assumes "client_round api s = Inl None \<or> server_round api s = Inl None"
  shows "\<exists>k \<ge> th_query (snd (snd s)). tls_recv api k = Recv_waits"
proof -
  obtain ctx buf th where s: "s = (ctx, buf, th)" by (cases s)
  from assms show ?thesis
  proof
    assume c: "client_round api s = Inl None"
    obtain status new token extra where a: "tls_InitializeSecurityContext api (th_query th) (if ctx then th_ctxtHandle th else None)
        (if ctx then Some buf else None) = (status, new, token, extra)" by (metis prod_cases4)
    obtain sent th2 where t: "TLSHelper_SendHandshakeToken api token
        (set_context ctx new (th\<lparr> th_query := Suc (th_query th), th_lastStatus := status \<rparr>)) = (sent, th2)" by (metis surj_pair)
    have "\<exists>ctx' buf'. receive_and_continue api ctx' buf' th2 = Inl None"
      using c a t by (auto simp: s tls_ask_def split: if_splits)
    then have "tls_recv api (th_query th2) = Recv_waits"
      by (cases "tls_recv api (th_query th2)") (simp_all add: receive_cases)
    moreover have "th_query th \<le> th_query th2" using SendHandshakeToken_frame [OF t] by auto
    ultimately show ?thesis by (auto simp: s)
  next
    assume "server_round api s = Inl None"
    then have "tls_recv api (th_query th) = Recv_waits"
      by (cases "tls_recv api (th_query th)")
        (auto simp: s TLSHelper_ReceiveHandshakeData_def tls_ask_def Let_def split: prod.splits if_splits)
    then show ?thesis by (auto simp: s)
  qed
qed

lemma handshake_steps:
  assumes "\<not> th_handshakeCompleted th"
  shows "TLSHelperClient_Handshake api th = rounds (client_round api) (False, [], th)"
    and "TLSHelperServer_Handshake api th = rounds (server_round api) (False, [], th)"
proof -
  have same: "th\<lparr> th_handshakeCompleted := False \<rparr> = th" using assms by (cases th) simp
  show "TLSHelperClient_Handshake api th = rounds (client_round api) (False, [], th)"
    "TLSHelperServer_Handshake api th = rounds (server_round api) (False, [], th)"
    unfolding TLSHelperClient_Handshake_def TLSHelperServer_Handshake_def Let_def
    using assms by (simp_all only: same if_False)
qed

lemma handshake_ends:
  assumes "recv_ends api" "step = client_round api \<or> step = server_round api"
    and "\<forall>q. th_query th \<le> q \<longrightarrow> tls_recv api q \<noteq> Recv_waits"
  shows "\<exists>r. rounds step (False, [], th) = Some r"
proof -
  obtain n where n: "\<And>q bytes. n \<le> q \<Longrightarrow> tls_recv api q \<noteq> Recv_bytes bytes" using assms(1) by (auto simp: recv_ends_def)
  have less: "th_query (snd (snd s)) < th_query (snd (snd s')) \<and> n - th_query (snd (snd s')) < n - th_query (snd (snd s))"
    if "step s = Inr s'" for s s'
  proof -
    have "client_round api s = Inr s' \<or> server_round api s = Inr s'" using assms(2) that by metis
    from handshake_round_reads [OF this] obtain k where
      k: "th_query (snd (snd s)) \<le> k \<and> k < th_query (snd (snd s')) \<and> (\<exists>bytes. tls_recv api k = Recv_bytes bytes)" ..
    with n [of k] have "k < n" by (cases "n \<le> k") auto
    with k show ?thesis by linarith
  qed
  have "step s \<noteq> Inl None" if "th_query th \<le> th_query (snd (snd s))" for s
    using handshake_round_waits [of api s] assms(2,3) that order_trans by metis
  then show ?thesis
    using rounds_return [of "\<lambda>s. th_query th \<le> th_query (snd (snd s))" "(False, [], th)" step "\<lambda>s. n - th_query (snd (snd s))"] less
    by (simp add: order_less_imp_le order_trans)
qed


text \<open>An SChannel for the witnesses: the client says 1, the server answers 2; a record is 3, the length and the bytes, and a 7; 4, 0 is
  the closing notification. The context counts the records.\<close>

definition toy_buffer :: "SecBufferType \<Rightarrow> byte list \<Rightarrow> SecBuffer" where
  "toy_buffer kind bytes = \<lparr> BufferType = kind, pvBuffer = bytes \<rparr>"

definition toy_extra :: "byte list \<Rightarrow> SecBuffer" where
  "toy_extra rest = toy_buffer (if rest = [] then SECBUFFER_EMPTY else SECBUFFER_EXTRA) rest"

fun toy_decrypt :: "nat \<Rightarrow> byte list \<Rightarrow> SECURITY_STATUS \<times> SecBuffer list \<times> nat" where
  "toy_decrypt c [] = (SEC_E_INCOMPLETE_MESSAGE, [], c)"
| "toy_decrypt c (kind # xs) =
     (if kind = 3 then
        if length xs < 2 then (SEC_E_INCOMPLETE_MESSAGE, [], c)
        else let n = unat (le_word (take 2 xs) :: ushort) in
          if length xs < n + 3 then (SEC_E_INCOMPLETE_MESSAGE, [], c)
          else (SEC_E_OK, [toy_buffer SECBUFFER_STREAM_HEADER [], toy_buffer SECBUFFER_DATA (take n (drop 2 xs)),
                           toy_buffer SECBUFFER_STREAM_TRAILER [], toy_extra (drop (n + 3) xs)], c + 1)
      else if kind = 4 then if xs = [] then (SEC_E_INCOMPLETE_MESSAGE, [], c) else (SEC_I_CONTEXT_EXPIRED, [], c)
      else (SEC_FAILED, [], c))"

definition toy_tls :: "(nat \<Rightarrow> recv_answer) \<Rightarrow> nat TlsApi" where
  "toy_tls received =
     \<lparr> tls_AcquireCredentialsHandle = (\<lambda>_. SEC_E_OK),
       tls_InitializeSecurityContext = (\<lambda>_ context input.
         case (context, input) of
           (Some c, Some (x # rest)) \<Rightarrow> if x = 2 then (SEC_E_OK, Some c, [], toy_extra rest) else (SEC_FAILED, None, [], toy_extra [])
         | (Some c, _) \<Rightarrow> (SEC_E_INCOMPLETE_MESSAGE, None, [], toy_extra [])
         | (None, _) \<Rightarrow> (SEC_I_CONTINUE_NEEDED, Some 0, [1], toy_extra [])),
       tls_AcceptSecurityContext = (\<lambda>_ context input.
         case (context, input) of
           (None, x # rest) \<Rightarrow> if x = 1 then (SEC_E_OK, Some 0, [2], toy_extra rest) else (SEC_FAILED, None, [], toy_extra [])
         | _ \<Rightarrow> (SEC_E_INCOMPLETE_MESSAGE, None, [], toy_extra [])),
       tls_QueryStreamSizes = (\<lambda>_. (SEC_E_OK, 3, 1)),
       tls_EncryptMessage = (\<lambda>c p. (if length p < 65536 then Some ([3] @ le_bytes 2 (of_nat (length p) :: ushort), p, [7]) else None, c + 1)),
       tls_ApplyControlToken = (\<lambda>c. (True, c)),
       tls_EncryptToken = (\<lambda>c n. (Some [4, 0], c)),
       tls_DecryptMessage = toy_decrypt,
       tls_send = (\<lambda>_ bytes. int (length bytes)), tls_recv = received,
       tls_CertOpenStore = (\<lambda>_. True), tls_CertFindCertificateInStore = (\<lambda>_. True),
       tls_pfxFile = (\<lambda>_. Some (1, True)), tls_PFXImportCertStore = (\<lambda>_. True) \<rparr>"

lemma toy_context_law: "context_law (toy_tls received)"
  by (auto simp: context_law_def toy_tls_def split: list.splits)


section \<open>Records\<close>

text \<open>What the documentation says of a pair of contexts that are in step, the sender's and the receiver's: what one encrypts the other
  decrypts, once all of it is there, and returns what follows as the extra buffer; the closing notification expires the context.\<close>

definition record_law :: "'c TlsApi \<Rightarrow> ('c \<Rightarrow> 'c \<Rightarrow> bool) \<Rightarrow> bool" where
  "record_law api sync \<longleftrightarrow>
     (\<forall>ce cd p h b t ce'. sync ce cd \<longrightarrow> tls_EncryptMessage api ce p = (Some (h, b, t), ce') \<longrightarrow>
        h @ b @ t \<noteq> [] \<and>
        (\<forall>rest. \<exists>bs cd'. tls_DecryptMessage api cd (h @ b @ t @ rest) = (SEC_E_OK, bs, cd') \<and> data_buffer bs = p \<and>
           extra_buffer bs = (if rest = [] then None else Some rest) \<and> sync ce' cd') \<and>
        (\<forall>x. strict_prefix x (h @ b @ t) \<longrightarrow> x \<noteq> [] \<longrightarrow>
           (\<exists>bs. tls_DecryptMessage api cd x = (SEC_E_INCOMPLETE_MESSAGE, bs, cd))))"

definition notify_law :: "'c TlsApi \<Rightarrow> ('c \<Rightarrow> 'c \<Rightarrow> bool) \<Rightarrow> bool" where
  "notify_law api sync \<longleftrightarrow>
     (\<forall>ce cd ce1 ce2 cap note. sync ce cd \<longrightarrow> tls_ApplyControlToken api ce = (True, ce1) \<longrightarrow>
        tls_EncryptToken api ce1 cap = (Some note, ce2) \<longrightarrow>
        note \<noteq> [] \<and> (\<exists>bs cd'. tls_DecryptMessage api cd note = (SEC_I_CONTEXT_EXPIRED, bs, cd')) \<and>
        (\<forall>x. strict_prefix x note \<longrightarrow> x \<noteq> [] \<longrightarrow> (\<exists>bs. tls_DecryptMessage api cd x = (SEC_E_INCOMPLETE_MESSAGE, bs, cd))))"

text \<open>The three parts of a record have the sizes the context told.\<close>

definition sizes_law :: "'c TlsApi \<Rightarrow> nat \<times> nat \<Rightarrow> bool" where
  "sizes_law api sizes \<longleftrightarrow>
     (\<forall>ce p h b t ce'. tls_EncryptMessage api ce p = (Some (h, b, t), ce') \<longrightarrow>
        length h = fst sizes \<and> length b = length p \<and> length t \<le> snd sizes)"

lemma EncryptData_record:
  assumes "sizes_law api (th_streamSizes th)" "TLSHelper_EncryptData api plain buffer th = (Some record, th')"
    "fst (th_streamSizes th) + length plain + snd (th_streamSizes th) \<le> length buffer"
  shows "\<exists>ce h b t ce'. th_ctxtHandle th = Some ce \<and> tls_EncryptMessage api ce plain = (Some (h, b, t), ce') \<and>
    record = h @ b @ t \<and> th' = th\<lparr> th_ctxtHandle := Some ce', th_bufferOverrun := th_bufferOverrun th \<rparr>"
proof -
  obtain cbHeader cbTrailer where s: "th_streamSizes th = (cbHeader, cbTrailer)" by (cases "th_streamSizes th")
  obtain ce where ce: "th_handshakeCompleted th" "th_ctxtHandle th = Some ce"
    using assms(2) s by (auto simp: TLSHelper_EncryptData_def split: option.splits bool.splits)
  obtain h b t ce' where e: "tls_EncryptMessage api ce plain = (Some (h, b, t), ce')"
    using assms(2) ce s by (cases "tls_EncryptMessage api ce plain") (auto simp: TLSHelper_EncryptData_def Let_def split: option.splits)
  have l: "length h = cbHeader" "length b = length plain" "length t \<le> cbTrailer"
    using assms(1) [unfolded sizes_law_def, rule_format, OF e] s by simp_all
  have "take (length h + length b + length t) (patch (cbHeader + length plain) t (patch cbHeader b (patch 0 h buffer))) = h @ b @ t"
    using l assms(3) s by (simp add: patch_def)
  then show ?thesis using assms(2,3) ce e s l by (auto simp: TLSHelper_EncryptData_def Let_def)
qed

lemma EncryptCloseNotify_token:
  assumes "TLSHelper_EncryptCloseNotify api cap th = (Some note, th')"
  shows "\<exists>ce ce1 ce2. th_ctxtHandle th = Some ce \<and> tls_ApplyControlToken api ce = (True, ce1) \<and>
    tls_EncryptToken api ce1 cap = (Some note, ce2)"
  using assms by (auto simp: TLSHelper_EncryptCloseNotify_def Let_def split: option.splits prod.splits if_splits)

text \<open>One call of \<open>DecryptMessage\<close> in the loop.\<close>

lemma decrypt_incomplete:
  "x \<noteq> [] \<Longrightarrow> tls_DecryptMessage api c x = (SEC_E_INCOMPLETE_MESSAGE, bs, c') \<Longrightarrow>
   decrypt_loop api c x plain = Some (TlsNone, x, plain, c')"
  by (simp add: decrypt_loop.simps)

lemma decrypt_expired:
  "x \<noteq> [] \<Longrightarrow> tls_DecryptMessage api c x = (SEC_I_CONTEXT_EXPIRED, bs, c') \<Longrightarrow>
   decrypt_loop api c x plain = Some (TlsCloseNotify, [], plain, c')"
  by (simp add: decrypt_loop.simps)

lemma decrypt_record:
  "x \<noteq> [] \<Longrightarrow> tls_DecryptMessage api c x = (SEC_E_OK, bs, c') \<Longrightarrow> extra_buffer bs = (if rest = [] then None else Some rest) \<Longrightarrow>
   decrypt_loop api c x plain = decrypt_loop api c' rest (plain @ data_buffer bs)"
  by (simp add: decrypt_loop.simps [of api c x] decrypt_loop.simps [of api c' "[]"] Let_def)

text \<open>The loop ends when the extra buffer is always shorter than the stream.\<close>

lemma decrypt_loop_ends:
  assumes "\<And>c x st bs c' e. tls_DecryptMessage api c x = (st, bs, c') \<Longrightarrow> extra_buffer bs = Some e \<Longrightarrow> length e < length x"
  shows "\<exists>r. decrypt_loop api c x plain = Some r"
proof (induction "length x" arbitrary: c x plain rule: less_induct)
  case less
  obtain st bs c' where d: "tls_DecryptMessage api c x = (st, bs, c')" by (metis prod_cases3)
  show ?case
  proof (cases "extra_buffer bs")
    case None
    with d show ?thesis by (simp add: decrypt_loop.simps [of api c x] Let_def)
  next
    case (Some e)
    with less [OF assms [OF d Some]] d show ?thesis by (simp add: decrypt_loop.simps [of api c x] Let_def)
  qed
qed

text \<open>The plaintext of all records in the stream goes into the caller's buffer, whatever its size: two records that each fill
  it overrun it.\<close>

lemma decrypt_stream_overruns:
  assumes "record_law api sync" "sync ce cd" "tls_EncryptMessage api ce p = (Some (h, b, t), ce')"
    "tls_EncryptMessage api ce' p' = (Some (h', b', t'), ce'')" "length p \<le> capacity" "length p' \<le> capacity"
    "capacity < length p + length p'" "th_handshakeCompleted th" "th_ctxtHandle th = Some cd"
  shows "\<exists>th'. TLSHelper_DecryptDataStream api (h @ b @ t @ h' @ b' @ t') capacity th = Some (TlsPlainData, [], p @ p', th') \<and>
    th_bufferOverrun th'"
proof -
  have law: "\<And>rest. \<exists>bs cd'. tls_DecryptMessage api cd (h @ b @ t @ rest) = (SEC_E_OK, bs, cd') \<and> data_buffer bs = p \<and>
      extra_buffer bs = (if rest = [] then None else Some rest) \<and> sync ce' cd'" "h @ b @ t \<noteq> []"
    using assms(1-3) unfolding record_law_def by blast+
  obtain bs cd' where d: "tls_DecryptMessage api cd (h @ b @ t @ h' @ b' @ t') = (SEC_E_OK, bs, cd')" "data_buffer bs = p"
    "extra_buffer bs = (if h' @ b' @ t' = [] then None else Some (h' @ b' @ t'))" "sync ce' cd'" using law(1) by blast
  have law': "\<And>rest. \<exists>bs cd''. tls_DecryptMessage api cd' (h' @ b' @ t' @ rest) = (SEC_E_OK, bs, cd'') \<and> data_buffer bs = p' \<and>
      extra_buffer bs = (if rest = [] then None else Some rest) \<and> sync ce'' cd''" "h' @ b' @ t' \<noteq> []"
    using assms(1,4) d(4) unfolding record_law_def by blast+
  obtain bs' cd'' where d': "tls_DecryptMessage api cd' (h' @ b' @ t' @ []) = (SEC_E_OK, bs', cd'')" "data_buffer bs' = p'"
    "extra_buffer bs' = (if ([] :: byte list) = [] then None else Some [])" using law'(1) [of "[]"] by blast
  have "decrypt_loop api cd (h @ b @ t @ h' @ b' @ t') [] = decrypt_loop api cd' (h' @ b' @ t' @ []) ([] @ data_buffer bs)"
    using law(2) by (subst decrypt_record [OF _ d(1,3)]) auto
  also have "\<dots> = decrypt_loop api cd'' [] (p @ p')"
    using law'(2) d(2) d'(2) by (subst decrypt_record [OF _ d'(1,3)]) auto
  also have "\<dots> = Some (TlsPlainData, [], p @ p', cd'')"
    using assms(5-7) by (cases "p @ p' = []") (auto simp: decrypt_loop.simps [of api cd'' "[]"] decrypt_end_def)
  finally show ?thesis using assms(7-9) by (simp add: TLSHelper_DecryptDataStream_def)
qed

text \<open>The laws hold of the SChannel for the witnesses.\<close>

lemma toy_record_law: "record_law (toy_tls received) (=)"
proof -
  have dec: "toy_decrypt c ((3 :: byte) # le_bytes 2 (of_nat (length p) :: ushort) @ p @ (7 # rest)) =
      (SEC_E_OK, [toy_buffer SECBUFFER_STREAM_HEADER [], toy_buffer SECBUFFER_DATA p, toy_buffer SECBUFFER_STREAM_TRAILER [], toy_extra rest], c + 1)"
    if "length p < 65536" for c p rest
    using that by (simp add: le_word_le_bytes unsigned_of_nat take_bit_nat_eq_self)
  have inc: "toy_decrypt c x = (SEC_E_INCOMPLETE_MESSAGE, [], c)"
    if sp: "strict_prefix x ((3 :: byte) # le_bytes 2 (of_nat (length p) :: ushort) @ p @ [7])" "x \<noteq> []" "length p < 65536" for c p x
  proof -
    obtain ys where x: "x = 3 # ys" "strict_prefix ys (le_bytes 2 (of_nat (length p) :: ushort) @ p @ [7])"
      using sp(1,2) by (cases x) auto
    have len: "length ys < length p + 3" using prefix_length_less [OF x(2)] by simp
    obtain zs where zs: "le_bytes 2 (of_nat (length p) :: ushort) @ p @ [7] = ys @ zs" using x(2) by (auto simp: strict_prefix_def prefix_def)
    have "take 2 ys = le_bytes 2 (of_nat (length p) :: ushort)" if "2 \<le> length ys"
    proof -
      have "take 2 (ys @ zs) = le_bytes 2 (of_nat (length p) :: ushort)" using zs [symmetric] by simp
      with that show ?thesis by simp
    qed
    then show ?thesis using len sp(3) by (auto simp: x(1) le_word_le_bytes unsigned_of_nat take_bit_nat_eq_self not_less)
  qed
  show ?thesis
    unfolding record_law_def
    using inc by (auto simp: toy_tls_def dec data_buffer_def extra_buffer_def toy_buffer_def toy_extra_def simp del: toy_decrypt.simps split: if_splits)
qed

lemma toy_notify_law: "notify_law (toy_tls received) (=)"
proof -
  have one_byte: "toy_decrypt c [4] = (SEC_E_INCOMPLETE_MESSAGE, [], c)" for c by simp
  have "x = [4]" if "strict_prefix x [4, 0 :: byte]" "x \<noteq> []" for x
    using that by (cases x) (auto simp: strict_prefix_def prefix_def Cons_eq_append_conv append_eq_Cons_conv)
  then have "toy_decrypt c x = (SEC_E_INCOMPLETE_MESSAGE, [], c)" if "strict_prefix x [4, 0 :: byte]" "x \<noteq> []" for c x
    using that by (metis (no_types) one_byte)
  then show ?thesis by (auto simp: notify_law_def toy_tls_def)
qed

end
