(* ===== verification/Client_State.thy ===== *)
theory Client_State
  imports Ref_Heap Session_Info Send_Context Tls_Helper
begin

text \<open>
  MultiSocketRUDPClient/RUDPClientCore: the state of the client and its environment. Packet
  buffers and packet descriptors are reference counted in two memories. The four threads
  share the state, so what a thread keeps between two lock regions (the targets of the
  retransmission thread) is part of it. Logging is not modelled.
\<close>

section \<open>Data\<close>

text \<open>\<open>struct SendPacketInfo\<close> of the client; its reference count is kept by the memory.\<close>

record ClientSendInfo =
  ci_buffer :: nat
  ci_retransmissionCount :: PacketRetransmissionCount
  ci_sendPacketSequence :: PacketSequence
  ci_retransmissionTimeStamp :: "64 word"

record RecvPacketInfo =
  ri_buffer :: nat
  ri_packetSequence :: PacketSequence
  ri_packetType :: PACKET_TYPE

record ServerAliveChecker =
  ac_isStopped :: bool
  ac_checkIntervalMs :: "32 word"
  ac_beforeCheckSequence :: PacketSequence
  ac_threadJoinable :: bool

text \<open>The fields of \<open>RUDPClientCore\<close>. \<open>cl_clientCountInThisProcess\<close> is static.
  \<open>cl_socketOpen\<close> and \<open>cl_sendEvents\<close> say whether the handles are valid, \<open>cl_sendSemaphore\<close> is the count of the send semaphore,
  \<open>cl_retransmitTargets\<close> and \<open>cl_nowTick\<close> are locals of the retransmission thread. The last
  fields belong to the model: the datagrams given to \<open>sendto\<close>, the packets taken out in
  order, the buffers the application has not freed, the number of questions put to the environment, undefined behaviour, and
  whether the receive thread ever handled a datagram after the send thread had ended (\<open>cl_late\<close>).\<close>

record 'k Client =
  cl_isStopped :: bool
  cl_threadStopFlag :: bool
  cl_isConnected :: bool
  cl_hasClientProcessReference :: bool
  cl_clientCountInThisProcess :: ushort
  cl_session :: "'k SessionInfo"
  cl_socketOpen :: bool
  cl_sendEvents :: bool
  cl_sendSemaphore :: nat
  cl_lastSendPacketSequence :: PacketSequence
  cl_sendPacketInfoMap :: "(PacketSequence \<times> nat) list"
  cl_recvPacketHoldingQueue :: "RecvPacketInfo list"
  cl_remoteAdvertisedWindow :: byte
  cl_lastAckedSequence :: PacketSequence
  cl_nextRecvPacketSequence :: PacketSequence
  cl_sendBufferQueue :: "nat list"
  cl_pendingPacketQueue :: "(PacketSequence \<times> nat) list"
  cl_serverAliveChecker :: ServerAliveChecker
  cl_retransmitTargets :: "nat list"
  cl_nowTick :: "64 word"
  cl_buffers :: "NetBuffer RefHeap"
  cl_infos :: "ClientSendInfo RefHeap"
  cl_wire :: "byte list list"
  cl_consumed :: "(PacketSequence \<times> PACKET_TYPE) list"
  cl_application :: "nat list"
  cl_query :: nat
  cl_fault :: bool
  cl_bufferOverrun :: bool
  cl_late :: bool

text \<open>What a \<open>recv\<close> on the connection to the broker gives: an error, the end (or a timeout), or
  bytes, with the result of \<open>DecryptDataStream\<close> and the plaintext it put out.\<close>

datatype BrokerEvent = RecvFailed | RecvClosed | RecvData TlsDecryptResult "byte list"

text \<open>What the client is given: the library (buffers, cryptography, where the pools allocate,
  the copies through the two pointers into a buffer), the clock, the values of the option file,
  what the calls of a start return, and the hooks of the derived class.\<close>

record 'k ClientEnv =
  ce_api :: NetBufferApi
  ce_bcrypt :: "'k bcrypt"
  ce_keys :: "'k KeyApi"
  ce_bufferAlloc :: "NetBuffer RefHeap \<Rightarrow> nat option"
  ce_infoAlloc :: "ClientSendInfo RefHeap \<Rightarrow> nat option"
  ce_copyToBufferPtr :: "byte list \<Rightarrow> NetBuffer \<Rightarrow> NetBuffer"
  ce_copyToWriteBufferPtr :: "byte list \<Rightarrow> NetBuffer \<Rightarrow> NetBuffer"
  ce_dfDEFAULTSIZE :: nat
  ce_tickCount :: "nat \<Rightarrow> 64 word"
  ce_ShouldSendReplyToServer :: "PacketSequence \<Rightarrow> PacketId \<Rightarrow> bool"
  ce_maxPacketRetransmissionCount :: PacketRetransmissionCount
  ce_retransmissionThreadSleepMs :: "32 word"
  ce_serverAliveCheckMs :: "32 word"
  ce_readOptionFile :: "nat \<Rightarrow> bool"
  ce_wsaStartup :: "nat \<Rightarrow> bool"
  ce_tlsInitialize :: "nat \<Rightarrow> bool"
  ce_createBrokerSocket :: "nat \<Rightarrow> bool"
  ce_connectBroker :: "nat \<Rightarrow> bool"
  ce_tlsHandshake :: "nat \<Rightarrow> bool"
  ce_brokerStream :: "nat \<Rightarrow> BrokerEvent list"
  ce_createRUDPSocket :: "nat \<Rightarrow> bool"
  ce_createSendEvents :: "nat \<Rightarrow> bool"
  ce_ShouldSendConnectPacketOnStart :: bool
  ce_lateDatagram :: "nat \<Rightarrow> (NetBuffer \<times> int) option"

definition client_ask :: "(nat \<Rightarrow> 'a) \<Rightarrow> 'k Client \<Rightarrow> 'a \<times> 'k Client" where
  "client_ask f c = (f (cl_query c), c\<lparr> cl_query := cl_query c + 1 \<rparr>)"

section \<open>Memory\<close>

definition upd_buffers :: "(NetBuffer RefHeap \<Rightarrow> NetBuffer RefHeap) \<Rightarrow> 'k Client \<Rightarrow> 'k Client" where
  "upd_buffers f c = c\<lparr> cl_buffers := f (cl_buffers c) \<rparr>"

definition upd_infos :: "(ClientSendInfo RefHeap \<Rightarrow> ClientSendInfo RefHeap) \<Rightarrow> 'k Client \<Rightarrow> 'k Client" where
  "upd_infos f c = c\<lparr> cl_infos := f (cl_infos c) \<rparr>"

text \<open>\<open>NetBuffer::Alloc()\<close> and what is written into the new buffer; a null pointer that is
  used sets \<open>cl_fault\<close>.\<close>

definition new_buffer :: "'k ClientEnv \<Rightarrow> NetBuffer \<Rightarrow> 'k Client \<Rightarrow> nat option \<times> 'k Client" where
  "new_buffer E content c =
     (case ce_bufferAlloc E (cl_buffers c) of
        None \<Rightarrow> (None, c)
      | Some b \<Rightarrow> (Some b, upd_buffers (heap_new b content) c))"

definition NetBuffer_AddRefCount :: "nat \<Rightarrow> 'k Client \<Rightarrow> 'k Client" where
  "NetBuffer_AddRefCount b = upd_buffers (heap_AddRefCount b)"

definition NetBuffer_Free :: "nat \<Rightarrow> 'k Client \<Rightarrow> 'k Client" where
  "NetBuffer_Free b = upd_buffers (heap_Free b)"

definition client_fault :: "'k Client \<Rightarrow> 'k Client" where
  "client_fault c = c\<lparr> cl_fault := True \<rparr>"

text \<open>\<open>SendPacketInfo::Free\<close>: the last reference also gives up the buffer.\<close>

definition ClientSendInfo_Free :: "nat \<Rightarrow> 'k Client \<Rightarrow> 'k Client" where
  "ClientSendInfo_Free a c =
     (case hp_mem (cl_infos c) a of
        None \<Rightarrow> client_fault c
      | Some (info, refCount) \<Rightarrow>
          let c1 = (if refCount = 1 then NetBuffer_Free (ci_buffer info) c else c)
          in upd_infos (heap_Free a) c1)"

definition ClientSendInfo_AddRefCount :: "nat \<Rightarrow> 'k Client \<Rightarrow> 'k Client" where
  "ClientSendInfo_AddRefCount a = upd_infos (heap_AddRefCount a)"

section \<open>The queues of the standard library\<close>

text \<open>\<open>std::priority_queue\<close> with the smallest key on top: an ascending list. Elements of
  equal keys may come in any order in C++; here the one pushed last.\<close>

abbreviation (input) pq_push :: "('a \<Rightarrow> PacketSequence) \<Rightarrow> 'a \<Rightarrow> 'a list \<Rightarrow> 'a list" where
  "pq_push key x q \<equiv> insort_key key x q"

interpretation held: min_queue ri_packetSequence "insort_key ri_packetSequence"
  by (rule min_queue_insort_key)

interpretation pending: min_queue fst "insort_key (fst :: PacketSequence \<times> nat \<Rightarrow> PacketSequence)"
  by (rule min_queue_insort_key)

text \<open>\<open>std::map::insert\<close> keeps an entry that is there.\<close>

definition map_insert :: "PacketSequence \<Rightarrow> nat \<Rightarrow> (PacketSequence \<times> nat) list \<Rightarrow> (PacketSequence \<times> nat) list" where
  "map_insert q a m = (if q \<in> fst ` set m then m else insort_key fst (q, a) m)"

section \<open>Who holds what\<close>

definition info_holders :: "'k Client \<Rightarrow> nat multiset" where
  "info_holders c = mset (map snd (cl_sendPacketInfoMap c)) + mset (cl_retransmitTargets c)"

definition queue_holders :: "'k Client \<Rightarrow> nat multiset" where
  "queue_holders c = mset (cl_sendBufferQueue c) + mset (map snd (cl_pendingPacketQueue c))
     + mset (map ri_buffer (cl_recvPacketHoldingQueue c)) + mset (cl_application c)"

text \<open>The buffers of the descriptors in use, once per descriptor.\<close>

definition buffer_of :: "ClientSendInfo RefHeap \<Rightarrow> nat \<Rightarrow> nat" where
  "buffer_of h a = (case heap_get a h of None \<Rightarrow> 0 | Some info \<Rightarrow> ci_buffer info)"

definition info_buffers :: "nat multiset \<Rightarrow> ClientSendInfo RefHeap \<Rightarrow> nat multiset" where
  "info_buffers H h = image_mset (buffer_of h) (mset_set (set_mset H))"

text \<open>\<open>Y\<close> are the descriptors and \<open>X\<close> the buffers a running operation holds besides.\<close>

definition memory_ok :: "nat multiset \<Rightarrow> nat multiset \<Rightarrow> 'k Client \<Rightarrow> bool" where
  "memory_ok Y X c \<longleftrightarrow> \<not> cl_fault c \<and> heap_ok (Y + info_holders c) (cl_infos c) \<and>
     heap_ok (X + queue_holders c + info_buffers (Y + info_holders c) (cl_infos c)) (cl_buffers c)"

lemma memory_okD:
  assumes "memory_ok Y X c"
  shows "\<not> cl_fault c" "heap_ok (Y + info_holders c) (cl_infos c)"
    "heap_ok (X + queue_holders c + info_buffers (Y + info_holders c) (cl_infos c)) (cl_buffers c)"
  using assms by (simp_all add: memory_ok_def)

lemma upd_memory_simps [simp]:
  "info_holders (upd_buffers f c) = info_holders c" "queue_holders (upd_buffers f c) = queue_holders c"
  "info_holders (upd_infos g c) = info_holders c" "queue_holders (upd_infos g c) = queue_holders c"
  "cl_infos (upd_buffers f c) = cl_infos c" "cl_buffers (upd_buffers f c) = f (cl_buffers c)"
  "cl_infos (upd_infos g c) = g (cl_infos c)" "cl_buffers (upd_infos g c) = cl_buffers c"
  "cl_fault (upd_buffers f c) = cl_fault c" "cl_fault (upd_infos g c) = cl_fault c"
  by (simp_all add: upd_buffers_def upd_infos_def info_holders_def queue_holders_def)

text \<open>References move from one place to another.\<close>

lemma memory_ok_move:
  assumes "memory_ok Y X c" "cl_infos c' = cl_infos c" "cl_buffers c' = cl_buffers c" "cl_fault c' = cl_fault c"
    "Y' + info_holders c' = Y + info_holders c" "X' + queue_holders c' = X + queue_holders c"
  shows "memory_ok Y' X' c'"
  using assms by (simp add: memory_ok_def)

lemma memory_ok_new_buffer:
  assumes "memory_ok Y X c" "new_buffer E content c = (Some b, c')" "\<And>h b. ce_bufferAlloc E h = Some b \<Longrightarrow> hp_mem h b = None"
  shows "memory_ok Y (add_mset b X) c'" "heap_get b (cl_buffers c') = Some content" "c' = upd_buffers (heap_new b content) c"
proof -
  have b: "hp_mem (cl_buffers c) b = None" "c' = upd_buffers (heap_new b content) c"
    using assms(2,3) by (auto simp: new_buffer_def split: option.splits)
  then show "memory_ok Y (add_mset b X) c'" "heap_get b (cl_buffers c') = Some content" "c' = upd_buffers (heap_new b content) c"
    using heap_ok_new [OF memory_okD(3) [OF assms(1)], of b content] memory_okD(1,2) [OF assms(1)]
    by (simp_all add: memory_ok_def)
qed

lemma memory_ok_AddRefCount:
  assumes "memory_ok Y X c" "b \<in># X + queue_holders c + info_buffers (Y + info_holders c) (cl_infos c)"
  shows "memory_ok Y (add_mset b X) (NetBuffer_AddRefCount b c)"
  using heap_ok_AddRefCount [OF memory_okD(3) [OF assms(1)] assms(2)] memory_okD(1,2) [OF assms(1)]
  by (simp add: memory_ok_def NetBuffer_AddRefCount_def)

lemma memory_ok_Free:
  assumes "memory_ok Y (add_mset b X) c"
  shows "memory_ok Y X (NetBuffer_Free b c)"
proof -
  have "heap_ok (add_mset b (X + queue_holders c + info_buffers (Y + info_holders c) (cl_infos c))) (cl_buffers c)"
    using memory_okD(3) [OF assms] by simp
  from heap_ok_Free [OF this] show ?thesis
    using memory_okD(1,2) [OF assms]
    by (simp add: memory_ok_def NetBuffer_Free_def)
qed

lemma memory_ok_update_buffer:
  assumes "memory_ok Y X c" "b \<in># X"
  shows "memory_ok Y X (upd_buffers (heap_update b f) c)"
  using heap_ok_update [OF memory_okD(3) [OF assms(1)], of b f] assms(2) memory_okD(1,2) [OF assms(1)]
  by (simp add: memory_ok_def)

lemma info_buffers_cong:
  "(\<And>a. a \<in># H \<Longrightarrow> buffer_of h' a = buffer_of h a) \<Longrightarrow> set_mset H' = set_mset H \<Longrightarrow> info_buffers H' h' = info_buffers H h"
  by (auto simp: info_buffers_def intro!: image_mset_cong)

lemma info_buffers_add:
  assumes "a \<notin># H" "\<And>x. x \<in># H \<Longrightarrow> buffer_of h' x = buffer_of h x"
  shows "info_buffers (add_mset a H) h' = add_mset (buffer_of h' a) (info_buffers H h)"
proof -
  have "mset_set (set_mset (add_mset a H)) = add_mset a (mset_set (set_mset H))"
    using assms(1) by (simp add: mset_set.insert)
  moreover have "image_mset (buffer_of h') (mset_set (set_mset H)) = image_mset (buffer_of h) (mset_set (set_mset H))"
    using assms(2) by (intro image_mset_cong) simp
  ultimately show ?thesis by (simp add: info_buffers_def)
qed

lemma memory_ok_update_info:
  assumes "memory_ok Y X c" "a \<in># Y + info_holders c" "\<And>i. ci_buffer (f i) = ci_buffer i"
  shows "memory_ok Y X (upd_infos (heap_update a f) c)"
proof -
  have "info_buffers (Y + info_holders c) (heap_update a f (cl_infos c)) = info_buffers (Y + info_holders c) (cl_infos c)"
    by (rule info_buffers_cong)
       (use assms(3) in \<open>simp_all add: buffer_of_def heap_get_update split: option.split\<close>)
  then show ?thesis
    using heap_ok_update [OF memory_okD(2) [OF assms(1)] assms(2), of f] memory_okD(1,3) [OF assms(1)]
    by (simp add: memory_ok_def)
qed

text \<open>A new descriptor takes over a reference to its buffer, and the last reference to a
  descriptor gives it back.\<close>

lemma memory_ok_new_info:
  assumes "memory_ok Y (add_mset (ci_buffer info) X) c" "hp_mem (cl_infos c) a = None"
  shows "memory_ok (add_mset a Y) X (upd_infos (heap_new a info) c)"
proof -
  let ?H = "Y + info_holders c"
  have a: "a \<notin># ?H" by (rule heap_ok_free [OF memory_okD(2) [OF assms(1)] assms(2)])
  have b: "buffer_of (heap_new a info (cl_infos c)) x = (if x = a then ci_buffer info else buffer_of (cl_infos c) x)" for x
    by (simp add: buffer_of_def)
  have "info_buffers (add_mset a ?H) (heap_new a info (cl_infos c)) = add_mset (ci_buffer info) (info_buffers ?H (cl_infos c))"
    by (subst info_buffers_add [OF a, of _ "cl_infos c"]) (use a in \<open>auto simp: b\<close>)
  then show ?thesis
    using heap_ok_new [OF memory_okD(2) [OF assms(1)] assms(2), of info] memory_okD(1,3) [OF assms(1)]
    by (simp add: memory_ok_def)
qed

lemma memory_ok_info_AddRefCount:
  assumes "memory_ok Y X c" "a \<in># Y + info_holders c"
  shows "memory_ok (add_mset a Y) X (ClientSendInfo_AddRefCount a c)"
proof -
  have "info_buffers (add_mset a (Y + info_holders c)) (heap_AddRefCount a (cl_infos c))
      = info_buffers (Y + info_holders c) (cl_infos c)"
    by (rule info_buffers_cong) (use assms(2) in \<open>auto simp: buffer_of_def\<close>)
  then show ?thesis
    using heap_ok_AddRefCount [OF memory_okD(2) [OF assms(1)] assms(2)] memory_okD(1,3) [OF assms(1)]
    by (simp add: memory_ok_def ClientSendInfo_AddRefCount_def)
qed

lemma memory_ok_info_Free:
  assumes "memory_ok (add_mset a Y) X c"
  shows "memory_ok Y X (ClientSendInfo_Free a c)"
proof -
  let ?H = "Y + info_holders c" and ?h = "cl_infos c"
  have h: "heap_ok (add_mset a ?H) ?h" using memory_okD(2) [OF assms] by simp
  obtain info where i: "hp_mem ?h a = Some (info, int (count ?H a) + 1)" "heap_get a ?h = Some info"
    using heap_ok_live [OF h, of a] by (auto simp: add.commute)
  note h' = heap_ok_Free [OF h]
  have b: "heap_ok (X + queue_holders c + info_buffers (add_mset a ?H) ?h) (cl_buffers c)"
    using memory_okD(3) [OF assms] by simp
  show ?thesis
  proof (cases "a \<in># ?H")
    case True
    have "info_buffers ?H (heap_Free a ?h) = info_buffers (add_mset a ?H) ?h"
    proof (rule info_buffers_cong)
      show "buffer_of (heap_Free a ?h) x = buffer_of ?h x" for x
        using heap_get_Free_same [OF h] True heap_get_Free [of x a ?h] by (cases "x = a") (simp_all add: buffer_of_def)
    qed (use True in auto)
    moreover have "0 < count ?H a" using True by (simp only: count_greater_zero_iff)
    then have "int (count ?H a) + 1 \<noteq> 1" by linarith
    then have "ClientSendInfo_Free a c = upd_infos (heap_Free a) c"
      using i(1) by (simp only: ClientSendInfo_Free_def option.case prod.case if_False Let_def simp_thms)
    ultimately show ?thesis using h' b memory_okD(1) [OF assms] by (simp add: memory_ok_def)
  next
    case False
    have "info_buffers (add_mset a ?H) ?h = add_mset (ci_buffer info) (info_buffers ?H ?h)"
      using info_buffers_add [OF False, of ?h ?h] i(2) by (simp add: buffer_of_def)
    moreover have "info_buffers ?H (heap_Free a ?h) = info_buffers ?H ?h"
    proof (rule info_buffers_cong)
      show "buffer_of (heap_Free a ?h) x = buffer_of ?h x" if "x \<in># ?H" for x
        using heap_get_Free [of x a ?h] False that by (cases "x = a") (simp_all add: buffer_of_def)
    qed simp
    moreover have "int (count ?H a) + 1 = 1" using False by (simp add: not_in_iff)
    ultimately show ?thesis
      using i h' b memory_okD(1) [OF assms] heap_ok_Free [of "ci_buffer info" "X + queue_holders c + info_buffers ?H ?h" "cl_buffers c"]
      by (simp add: memory_ok_def ClientSendInfo_Free_def NetBuffer_Free_def)
  qed
qed

end
