(* ===== verification/Client_Send.thy ===== *)
theory Client_Send
  imports Client_State
begin

text \<open>
  MultiSocketRUDPClient/RUDPClientCore, sending: packets of the application, the window of
  the server and the queue of packets that wait for it, acknowledgements, the send thread
  and the retransmission thread.
\<close>

section \<open>Sending\<close>

text \<open>The send queue and its semaphore.\<close>

definition client_enqueue :: "nat \<Rightarrow> 'k Client \<Rightarrow> 'k Client" where
  "client_enqueue b c = c\<lparr> cl_sendBufferQueue := cl_sendBufferQueue c @ [b],
     cl_sendSemaphore := (if cl_sendEvents c then cl_sendSemaphore c + 1 else cl_sendSemaphore c) \<rparr>"

text \<open>\<open>PacketCryptoHelper::EncodePacket\<close> of the buffer; its result is ignored.\<close>

definition client_encode ::
    "'k ClientEnv \<Rightarrow> nat \<Rightarrow> PacketSequence \<Rightarrow> PACKET_DIRECTION \<Rightarrow> bool \<Rightarrow> 'k Client \<Rightarrow> 'k Client" where
  "client_encode E b packetSequence direction isCorePacket c =
     (case heap_get b (cl_buffers c) of
        None \<Rightarrow> client_fault c
      | Some buffer \<Rightarrow>
          (case EncodePacket (ce_api E) (ce_bcrypt E) packetSequence direction
                  (Some (si_sessionSalt (cl_session c))) (si_sessionKeyHandle (cl_session c)) isCorePacket buffer of
             None \<Rightarrow> c\<lparr> cl_bufferOverrun := True \<rparr>
           | Some encoded \<Rightarrow> upd_buffers (heap_update b (\<lambda>_. encoded)) c))"

definition Client_RegisterSendPacketInfo :: "'k ClientEnv \<Rightarrow> nat \<Rightarrow> PacketSequence \<Rightarrow> 'k Client \<Rightarrow> 'k Client" where
  "Client_RegisterSendPacketInfo E b inSendPacketSequence c =
     (case ce_infoAlloc E (cl_infos c) of
        None \<Rightarrow> NetBuffer_Free b c
      | Some a \<Rightarrow>
          let c1 = NetBuffer_AddRefCount b c;
              (now, c2) = client_ask (ce_tickCount E) c1;
              info = \<lparr> ci_buffer = b, ci_retransmissionCount = 0, ci_sendPacketSequence = inSendPacketSequence,
                       ci_retransmissionTimeStamp = now + ucast (ce_retransmissionThreadSleepMs E) \<rparr>;
              c3 = upd_infos (heap_new a info) c2;
              c4 = c3\<lparr> cl_sendPacketInfoMap := map_insert inSendPacketSequence a (cl_sendPacketInfoMap c3) \<rparr>
          in client_enqueue b c4)"

text \<open>\<open>static_cast<BYTE>(sendPacketInfoMap.size())\<close>.\<close>

definition client_outstanding :: "'k Client \<Rightarrow> byte" where
  "client_outstanding c = of_nat (length (cl_sendPacketInfoMap c))"

definition Client_SendPacket_buffer :: "'k ClientEnv \<Rightarrow> nat \<Rightarrow> PacketSequence \<Rightarrow> bool \<Rightarrow> 'k Client \<Rightarrow> 'k Client" where
  "Client_SendPacket_buffer E b inSendPacketSequence isCorePacket c =
     (let c1 = client_encode E b inSendPacketSequence CLIENT_TO_SERVER isCorePacket c;
          pending = c1\<lparr> cl_pendingPacketQueue := pq_push fst (inSendPacketSequence, b) (cl_pendingPacketQueue c1) \<rparr>
      in if \<not> isCorePacket \<and> cl_remoteAdvertisedWindow c1 = 0 then pending
         else if \<not> isCorePacket \<and> client_outstanding c1 \<ge> cl_remoteAdvertisedWindow c1 then pending
         else Client_RegisterSendPacketInfo E b inSendPacketSequence c1)"

definition Client_SendPacket :: "'k ClientEnv \<Rightarrow> PacketId \<Rightarrow> (NetBuffer \<Rightarrow> NetBuffer) \<Rightarrow> 'k Client \<Rightarrow> 'k Client" where
  "Client_SendPacket E packetId PacketToBuffer c =
     (let packetSequence = cl_lastSendPacketSequence c + 1;
          api = ce_api E;
          content = PacketToBuffer (nb_write api (le_bytes 4 packetId) (nb_write api (le_bytes 8 packetSequence)
                      (nb_write api [PACKET_TYPE_byte SEND_TYPE] (nb_Alloc api))))
      in case new_buffer E content c of
           (None, c1) \<Rightarrow> c1
         | (Some b, c1) \<Rightarrow>
             Client_SendPacket_buffer E b packetSequence False (c1\<lparr> cl_lastSendPacketSequence := packetSequence \<rparr>))"

definition Client_SendConnectPacket :: "'k ClientEnv \<Rightarrow> 'k Client \<Rightarrow> 'k Client" where
  "Client_SendConnectPacket E c =
     (let api = ce_api E;
          content = nb_write api (le_bytes 2 (si_sessionId (cl_session c))) (nb_write api (le_bytes 8 (0 :: PacketSequence))
                      (nb_write api [PACKET_TYPE_byte CONNECT_TYPE] (nb_Alloc api)))
      in case new_buffer E content c of
           (None, c1) \<Rightarrow> client_fault c1
         | (Some b, c1) \<Rightarrow> Client_SendPacket_buffer E b 0 True c1)"

definition Client_SendReplyToServer :: "'k ClientEnv \<Rightarrow> PacketSequence \<Rightarrow> PACKET_TYPE \<Rightarrow> 'k Client \<Rightarrow> 'k Client" where
  "Client_SendReplyToServer E inRecvPacketSequence packetType c =
     (let api = ce_api E;
          content = nb_write api (le_bytes 8 inRecvPacketSequence) (nb_write api [PACKET_TYPE_byte packetType] (nb_Alloc api))
      in case new_buffer E content c of
           (None, c1) \<Rightarrow> client_fault c1
         | (Some b, c1) \<Rightarrow> client_enqueue b (client_encode E b inRecvPacketSequence CLIENT_TO_SERVER_REPLY True c1))"

definition ServerAliveChecker_StopServerAliveCheck :: "ServerAliveChecker \<Rightarrow> ServerAliveChecker" where
  "ServerAliveChecker_StopServerAliveCheck ac =
     (if ac_isStopped ac then ac
      else if \<not> ac_threadJoinable ac then ac\<lparr> ac_isStopped := True \<rparr>
      else ac\<lparr> ac_isStopped := True, ac_threadJoinable := False \<rparr>)"

definition Client_StopServerAliveCheck :: "'k Client \<Rightarrow> 'k Client" where
  "Client_StopServerAliveCheck c =
     c\<lparr> cl_serverAliveChecker := ServerAliveChecker_StopServerAliveCheck (cl_serverAliveChecker c) \<rparr>"

definition Client_Disconnect :: "'k ClientEnv \<Rightarrow> 'k Client \<Rightarrow> 'k Client" where
  "Client_Disconnect E c =
     (let c1 = Client_StopServerAliveCheck c in
      if cl_isStopped c1 then c1
      else let packetSequence = cl_lastSendPacketSequence c1 + 1;
               api = ce_api E;
               content = nb_write api (le_bytes 8 packetSequence)
                           (nb_write api [PACKET_TYPE_byte DISCONNECT_TYPE] (nb_Alloc api))
           in case new_buffer E content (c1\<lparr> cl_isConnected := False \<rparr>) of
                (None, c2) \<Rightarrow> c2
              | (Some b, c2) \<Rightarrow>
                  let c3 = client_encode E b packetSequence CLIENT_TO_SERVER True
                             (c2\<lparr> cl_lastSendPacketSequence := packetSequence \<rparr>)
                  in if \<not> cl_sendEvents c3 then NetBuffer_Free b c3 else client_enqueue b c3)"

section \<open>Acknowledgements and the pending queue\<close>

fun flush_pending :: "'k ClientEnv \<Rightarrow> byte \<Rightarrow> (PacketSequence \<times> nat) list \<Rightarrow> 'k Client \<Rightarrow> 'k Client" where
  "flush_pending E window [] c = c"
| "flush_pending E window ((sequence, b) # q) c =
     (if client_outstanding c \<ge> window then c
      else flush_pending E window q (Client_RegisterSendPacketInfo E b sequence (c\<lparr> cl_pendingPacketQueue := q \<rparr>)))"

definition Client_TryFlushPendingQueue :: "'k ClientEnv \<Rightarrow> 'k Client \<Rightarrow> 'k Client" where
  "Client_TryFlushPendingQueue E c =
     (if cl_remoteAdvertisedWindow c = 0 then c
      else flush_pending E (cl_remoteAdvertisedWindow c) (cl_pendingPacketQueue c) c)"

definition ServerAliveChecker_StartServerAliveCheck :: "32 word \<Rightarrow> ServerAliveChecker \<Rightarrow> ServerAliveChecker" where
  "ServerAliveChecker_StartServerAliveCheck inCheckIntervalMs ac =
     ac\<lparr> ac_checkIntervalMs := inCheckIntervalMs, ac_isStopped := False, ac_threadJoinable := True \<rparr>"

definition client_acknowledge :: "PacketSequence \<Rightarrow> 'k Client \<Rightarrow> 'k Client" where
  "client_acknowledge packetSequence c =
     (case map_of (cl_sendPacketInfoMap c) packetSequence of
        None \<Rightarrow> c
      | Some a \<Rightarrow> ClientSendInfo_Free a
                    (c\<lparr> cl_sendPacketInfoMap := map_erase packetSequence (cl_sendPacketInfoMap c) \<rparr>))"

definition Client_OnSendReply :: "'k ClientEnv \<Rightarrow> NetBuffer \<Rightarrow> PacketSequence \<Rightarrow> 'k Client \<Rightarrow> 'k Client" where
  "Client_OnSendReply E recvPacket packetSequence c =
     (if cl_lastSendPacketSequence c < packetSequence then c
      else let (bytes, recvPacket1) = nb_read (ce_api E) 1 recvPacket;
               c1 = c\<lparr> cl_remoteAdvertisedWindow := le_word bytes, cl_lastAckedSequence := packetSequence \<rparr>;
               c2 = (if packetSequence = 0 \<and> \<not> cl_isConnected c1
                     then c1\<lparr> cl_isConnected := True,
                              cl_serverAliveChecker := ServerAliveChecker_StartServerAliveCheck
                                (ce_serverAliveCheckMs E) (cl_serverAliveChecker c1) \<rparr>
                     else c1)
           in Client_TryFlushPendingQueue E (client_acknowledge packetSequence c2))"

section \<open>The send thread\<close>

fun Client_DoSend_loop :: "'k ClientEnv \<Rightarrow> nat list \<Rightarrow> 'k Client \<Rightarrow> 'k Client" where
  "Client_DoSend_loop E [] c = c"
| "Client_DoSend_loop E (b # q) c =
     (let c1 = c\<lparr> cl_sendBufferQueue := q \<rparr> in
      if \<not> cl_socketOpen c1 then NetBuffer_Free b c1
      else case heap_get b (cl_buffers c1) of
        None \<Rightarrow> client_fault c1
      | Some packet \<Rightarrow>
          let datagram = take (nb_GetAllUseSize (ce_api E) packet) (nb_GetBufferPtr (ce_api E) packet)
          in Client_DoSend_loop E q (NetBuffer_Free b (c1\<lparr> cl_wire := cl_wire c1 @ [datagram] \<rparr>)))"

definition Client_DoSend :: "'k ClientEnv \<Rightarrow> 'k Client \<Rightarrow> 'k Client" where
  "Client_DoSend E c = Client_DoSend_loop E (cl_sendBufferQueue c) c"

text \<open>One turn of \<open>RunSendThread\<close> on the semaphore; and all turns until the stop event is
  the first that is signalled.\<close>

definition Client_SendThread_turn :: "'k ClientEnv \<Rightarrow> 'k Client \<Rightarrow> 'k Client" where
  "Client_SendThread_turn E c =
     (if cl_sendSemaphore c = 0 then c else Client_DoSend E (c\<lparr> cl_sendSemaphore := cl_sendSemaphore c - 1 \<rparr>))"

fun send_turns :: "nat \<Rightarrow> 'k ClientEnv \<Rightarrow> 'k Client \<Rightarrow> 'k Client" where
  "send_turns 0 E c = c"
| "send_turns (Suc n) E c = send_turns n E (Client_SendThread_turn E c)"

definition Client_SendThread_stop :: "'k ClientEnv \<Rightarrow> 'k Client \<Rightarrow> 'k Client" where
  "Client_SendThread_stop E c = Client_DoSend E (send_turns (cl_sendSemaphore c) E c)"

section \<open>The retransmission thread\<close>

fun collect_targets :: "(PacketSequence \<times> nat) list \<Rightarrow> 'k Client \<Rightarrow> 'k Client" where
  "collect_targets [] c = c"
| "collect_targets ((sequence, a) # m) c =
     (case heap_get a (cl_infos c) of
        None \<Rightarrow> client_fault c
      | Some info \<Rightarrow>
          if ci_retransmissionTimeStamp info \<ge> cl_nowTick c then collect_targets m c
          else collect_targets m ((ClientSendInfo_AddRefCount a c)\<lparr> cl_retransmitTargets := cl_retransmitTargets c @ [a] \<rparr>))"

definition Client_RetransmissionCollect :: "'k Client \<Rightarrow> 'k Client" where
  "Client_RetransmissionCollect c =
     (if cl_threadStopFlag c then c else collect_targets (cl_sendPacketInfoMap c) (c\<lparr> cl_retransmitTargets := [] \<rparr>))"

text \<open>\<open>SendPacket(const SendPacketInfo&)\<close>.\<close>

definition Client_SendPacket_info :: "ClientSendInfo \<Rightarrow> 'k Client \<Rightarrow> 'k Client" where
  "Client_SendPacket_info info c = client_enqueue (ci_buffer info) (NetBuffer_AddRefCount (ci_buffer info) c)"

definition Client_RetransmissionTarget :: "'k ClientEnv \<Rightarrow> 'k Client \<Rightarrow> 'k Client" where
  "Client_RetransmissionTarget E c =
     (case cl_retransmitTargets c of
        [] \<Rightarrow> c
      | a # rest \<Rightarrow>
          let c1 = c\<lparr> cl_retransmitTargets := rest \<rparr> in
          if cl_threadStopFlag c1 then ClientSendInfo_Free a c1
          else case heap_get a (cl_infos c1) of
            None \<Rightarrow> client_fault c1
          | Some info \<Rightarrow>
              if map_of (cl_sendPacketInfoMap c1) (ci_sendPacketSequence info) = None then ClientSendInfo_Free a c1
              else let count = ci_retransmissionCount info + 1;
                       c2 = upd_infos (heap_update a (\<lambda>i. i\<lparr> ci_retransmissionCount := count \<rparr>)) c1
                   in if count \<ge> ce_maxPacketRetransmissionCount E
                      then ClientSendInfo_Free a (c2\<lparr> cl_isConnected := False, cl_threadStopFlag := True \<rparr>)
                      else let (now, c3) = client_ask (ce_tickCount E) c2;
                               c4 = upd_infos (heap_update a (\<lambda>i. i\<lparr> ci_retransmissionTimeStamp :=
                                      now + ucast (ce_retransmissionThreadSleepMs E) \<rparr>)) c3
                           in ClientSendInfo_Free a (Client_SendPacket_info info c4))"

definition Client_SleepRemainingFrameTime :: "'k ClientEnv \<Rightarrow> 'k Client \<Rightarrow> 'k Client" where
  "Client_SleepRemainingFrameTime E c =
     (let (now, c1) = client_ask (ce_tickCount E) c;
          (tick, c2) = client_ask (ce_tickCount E) c1
      in c2\<lparr> cl_nowTick := tick \<rparr>)"

end
