(* ===== verification/Session_Getter.thy ===== *)
theory Session_Getter
  imports Client_State
begin

text \<open>
  MultiSocketRUDPClient/SessionGetter: how the client gets its session from the broker over
  TLS. The connection and TLS are answered by the environment; the buffer the plaintext is collected
  in is local to the call.
\<close>

section \<open>Reading the message of the broker\<close>

text \<open>The loop of \<open>TrySetTargetSessionInfo\<close>: whether the payload is complete at its end (or \<open>None\<close>
  when it returns), and the buffer. A connection that gives nothing more is closed.\<close>

fun session_stream :: "NetBufferApi \<Rightarrow> BrokerEvent list \<Rightarrow> NetBuffer \<Rightarrow> int \<Rightarrow> ushort \<Rightarrow> bool \<Rightarrow> bool option \<times> NetBuffer" where
  "session_stream api [] recvBuffer totalPlainReceived payloadLength payloadComplete = (Some payloadComplete, recvBuffer)"
| "session_stream api (RecvFailed # es) recvBuffer totalPlainReceived payloadLength payloadComplete = (None, recvBuffer)"
| "session_stream api (RecvClosed # es) recvBuffer totalPlainReceived payloadLength payloadComplete = (Some payloadComplete, recvBuffer)"
| "session_stream api (RecvData decryptResult plain # es) recvBuffer totalPlainReceived payloadLength payloadComplete =
     (if decryptResult = TlsError then (None, recvBuffer)
      else let (b1, total) = (if plain \<noteq> [] then (nb_write api plain (recvBuffer\<lparr> m_iWrite := 0 \<rparr>), totalPlainReceived + int (length plain))
                              else (recvBuffer, totalPlainReceived))
      in if total < int df_HEADER_SIZE then session_stream api es b1 total payloadLength payloadComplete
         else let (b2, payload) = (if payloadLength = 0
                 then let (code, c1) = nb_read api 1 b1; (bytes, c2) = nb_read api 2 c1 in (c2, le_word bytes)
                 else (b1, payloadLength));
                  complete = (payloadComplete \<or> total \<ge> uint payload + int df_HEADER_SIZE)
              in if complete \<and> decryptResult = TlsCloseNotify then (Some complete, b2)
                 else session_stream api es b2 total payload complete)"

definition Client_TrySetTargetSessionInfo :: "'k ClientEnv \<Rightarrow> 'k Client \<Rightarrow> bool \<times> 'k Client" where
  "Client_TrySetTargetSessionInfo E c =
     (let (events, c1) = client_ask (ce_brokerStream E) c;
          recvBuffer = (nb_Alloc (ce_api E))\<lparr> m_iRead := 0 \<rparr>
      in case session_stream (ce_api E) events recvBuffer 0 0 False of
           (Some True, b) \<Rightarrow>
             let (ok, session) = Client_SetTargetSessionInfo (ce_api E) (ce_keys E) (b\<lparr> m_iRead := of_nat df_HEADER_SIZE \<rparr>) (cl_session c1)
             in (ok, c1\<lparr> cl_session := session \<rparr>)
         | _ \<Rightarrow> (False, c1))"

section \<open>Connecting\<close>

fun connect_attempts :: "nat \<Rightarrow> 'k ClientEnv \<Rightarrow> 'k Client \<Rightarrow> bool \<times> 'k Client" where
  "connect_attempts 0 E c = (False, c)"
| "connect_attempts (Suc n) E c =
     (let (ok, c1) = client_ask (ce_connectBroker E) c in if ok then (True, c1) else connect_attempts n E c1)"

definition Client_TryConnectToSessionBroker :: "'k ClientEnv \<Rightarrow> 'k Client \<Rightarrow> bool \<times> 'k Client" where
  "Client_TryConnectToSessionBroker E c = connect_attempts 5 E c"

definition Client_GetSessionFromServer :: "'k ClientEnv \<Rightarrow> 'k Client \<Rightarrow> bool \<times> 'k Client" where
  "Client_GetSessionFromServer E c =
     (let (created, c1) = client_ask (ce_createBrokerSocket E) c in
      if \<not> created then (False, c1)
      else let (connected, c2) = Client_TryConnectToSessionBroker E c1 in
        if \<not> connected then (False, c2)
        else let (shaken, c3) = client_ask (ce_tlsHandshake E) c2 in
          if \<not> shaken then (False, c3) else Client_TrySetTargetSessionInfo E c3)"

definition Client_RunGetSessionFromServer :: "'k ClientEnv \<Rightarrow> 'k Client \<Rightarrow> bool \<times> 'k Client" where
  "Client_RunGetSessionFromServer E c =
     (let (ready, c1) = client_ask (ce_tlsInitialize E) c in
      if \<not> ready then (False, c1) else Client_GetSessionFromServer E c1)"

text \<open>All of it touches only the session and the count of questions.\<close>

definition same_but_session :: "'k Client \<Rightarrow> 'k Client \<Rightarrow> bool" where
  "same_but_session c c' \<longleftrightarrow> (\<exists>session query. c' = c\<lparr> cl_session := session, cl_query := query \<rparr>)"

lemma same_but_sessionI: "c' = c\<lparr> cl_session := session, cl_query := query \<rparr> \<Longrightarrow> same_but_session c c'"
  unfolding same_but_session_def by blast

lemma same_but_session_simps [simp]:
  "same_but_session c c" "same_but_session c (c\<lparr> cl_session := s \<rparr>)" "same_but_session c (c\<lparr> cl_query := q \<rparr>)"
proof -
  show "same_but_session c c" by (rule same_but_sessionI [where session = "cl_session c" and query = "cl_query c"]) simp
  show "same_but_session c (c\<lparr> cl_session := s \<rparr>)"
    by (rule same_but_sessionI [where session = s and query = "cl_query c"]) (cases c, simp)
  show "same_but_session c (c\<lparr> cl_query := q \<rparr>)"
    by (rule same_but_sessionI [where session = "cl_session c" and query = q]) simp
qed

lemma same_but_session_trans: "same_but_session c c1 \<Longrightarrow> same_but_session c1 c2 \<Longrightarrow> same_but_session c c2"
  unfolding same_but_session_def by (elim exE) (rule exI, rule exI, simp)

lemma same_but_session_ask: "client_ask f c = (r, c') \<Longrightarrow> same_but_session c c'"
  by (auto simp: client_ask_def)

lemma same_but_session_connect: "connect_attempts n E c = (r, c') \<Longrightarrow> same_but_session c c'"
proof (induction n E c arbitrary: r c' rule: connect_attempts.induct)
  case (1 E c)
  then show ?case by simp
next
  case (2 n E c)
  obtain ok c1 where a: "client_ask (ce_connectBroker E) c = (ok, c1)" by (cases "client_ask (ce_connectBroker E) c")
  then have c1: "same_but_session c c1" by (rule same_but_session_ask)
  show ?case
  proof (cases ok)
    case True
    then show ?thesis using 2(2) a c1 by simp
  next
    case False
    then have "connect_attempts n E c1 = (r, c')" using 2(2) a by simp
    from 2(1) [OF a [symmetric] refl False this] c1 show ?thesis by (rule same_but_session_trans [rotated])
  qed
qed

lemma same_but_session_TrySet:
  assumes "Client_TrySetTargetSessionInfo E c = (r, c')"
  shows "same_but_session c c'"
proof -
  obtain events c1 where a: "client_ask (ce_brokerStream E) c = (events, c1)" by (cases "client_ask (ce_brokerStream E) c")
  have "same_but_session c1 c'"
    using assms a unfolding Client_TrySetTargetSessionInfo_def
    by (auto split: prod.splits option.splits bool.splits)
  then show ?thesis using same_but_session_ask [OF a] by (rule same_but_session_trans [rotated])
qed

lemma same_but_session_GetSession:
  assumes "Client_RunGetSessionFromServer E c = (r, c')"
  shows "same_but_session c c'"
proof -
  have server: "same_but_session d d'" if "Client_GetSessionFromServer E d = (x, d')" for x d d'
    using that unfolding Client_GetSessionFromServer_def Client_TryConnectToSessionBroker_def
    by (auto split: prod.splits if_splits dest!: same_but_session_ask same_but_session_connect same_but_session_TrySet)
       (meson same_but_session_trans)+
  obtain ready c1 where a: "client_ask (ce_tlsInitialize E) c = (ready, c1)" by (cases "client_ask (ce_tlsInitialize E) c")
  have "same_but_session c1 c'" using assms a server by (auto simp: Client_RunGetSessionFromServer_def split: if_splits)
  then show ?thesis by (rule same_but_session_trans [OF same_but_session_ask [OF a]])
qed

section \<open>From the broker to the client\<close>

lemma header_and_info:
  assumes "written b info" "bytes = take (unat (m_iWrite b)) (m_pSerializeBuffer (SetHeader api 0 b))"
  shows "length bytes = 5 + length info" "slice 1 2 bytes = le_bytes 2 (of_nat (length info) :: ushort)" "slice 5 (length info) bytes = info"
proof -
  let ?m = "m_pSerializeBuffer (SetHeader api 0 b)"
  have w: "unat (m_iWrite b) = 5 + length info" "5 + length info \<le> length (m_pSerializeBuffer b)"
    "slice 5 (length info) (m_pSerializeBuffer b) = info"
    using assms(1) by (simp_all add: written_def)
  have len: "length ?m = length (m_pSerializeBuffer b)" using SetHeader_frame(1) [of b api 0] w(2) by simp
  then show "length bytes = 5 + length info" using w assms(2) by simp
  have "uint (m_iWrite b) - 5 + 0 = int (length info)" using w(1) uint_nat [of "m_iWrite b"] by simp
  then have "?m = patch 1 (le_bytes 2 (of_nat (length info) :: ushort)) ((m_pSerializeBuffer b)[0 := nb_headerCode api])"
    by (simp add: SetHeader_def Let_def)
  then have "slice 1 2 ?m = le_bytes 2 (of_nat (length info) :: ushort)"
    using w(2) by (simp add: slice_patch_same)
  then show "slice 1 2 bytes = le_bytes 2 (of_nat (length info) :: ushort)"
    using w(1) by (simp add: assms(2) slice_take)
  show "slice 5 (length info) bytes = info"
    using SetHeader_frame(2) [of b 5 "length info" api 0] w by (simp add: assms(2) slice_take)
qed

lemma stream_of_message:
  assumes "write_law api" "read_law api" "bytes \<noteq> []" "length bytes = 5 + n" "slice 1 2 bytes = le_bytes 2 (of_nat n :: ushort)"
    "0 < n" "n < 65536" "length bytes \<le> length (m_pSerializeBuffer buffer)" "length (m_pSerializeBuffer buffer) < 65536" "m_iRead buffer = 0"
  shows "\<exists>b. m_pSerializeBuffer b = patch 0 bytes (m_pSerializeBuffer buffer) \<and> (of_nat n :: ushort) \<noteq> 0 \<and>
    (\<forall>d es. d \<noteq> TlsError \<longrightarrow> session_stream api (RecvData d bytes # es) buffer 0 0 False =
       (if d = TlsCloseNotify then (Some True, b) else session_stream api es b (int (5 + n)) (of_nat n) True))"
proof -
  let ?b1 = "buffer\<lparr> m_iWrite := of_nat (length bytes), m_pSerializeBuffer := patch 0 bytes (m_pSerializeBuffer buffer) \<rparr>"
  have w: "nb_write api bytes (buffer\<lparr> m_iWrite := 0 \<rparr>) = ?b1"
    using assms(1,8,9) by (simp add: write_law_def)
  have len: "length (m_pSerializeBuffer ?b1) = length (m_pSerializeBuffer buffer)" using assms(8) by simp
  obtain code where r1: "nb_read api 1 ?b1 = (code, ?b1\<lparr> m_iRead := 1 \<rparr>)"
    using assms(2,4,8-10) len by (simp add: read_law_def)
  have "slice 1 2 (patch 0 bytes (m_pSerializeBuffer buffer)) = slice 1 2 bytes"
    using assms(4,6) by (simp add: slice_def patch_def)
  then have r2: "nb_read api 2 (?b1\<lparr> m_iRead := 1 \<rparr>) = (le_bytes 2 (of_nat n :: ushort), ?b1\<lparr> m_iRead := 3 \<rparr>)"
    using assms(2,4-6,8,9) len by (simp add: read_law_def)
  have n: "uint (of_nat n :: ushort) = int n" "(of_nat n :: ushort) \<noteq> 0"
    using assms(6,7) by (simp_all add: unsigned_of_nat take_bit_nat_eq_self) (auto simp: word_of_nat_eq_0_iff dest: dvd_imp_le)
  have "session_stream api (RecvData d bytes # es) buffer 0 0 False =
      (if d = TlsCloseNotify then (Some True, ?b1\<lparr> m_iRead := 3 \<rparr>)
       else session_stream api es (?b1\<lparr> m_iRead := 3 \<rparr>) (int (5 + n)) (of_nat n) True)" if "d \<noteq> TlsError" for d es
    using assms(3,4) that w r1 r2 n(1) by (auto simp: le_word_le_bytes Let_def)
  with n(2) show ?thesis by (intro exI [of _ "?b1\<lparr> m_iRead := 3 \<rparr>"]) simp
qed

lemma stream_of_one_record:
  assumes "write_law api" "read_law api" "bytes \<noteq> []" "length bytes = 5 + n" "slice 1 2 bytes = le_bytes 2 (of_nat n :: ushort)"
    "0 < n" "n < 65536" "length bytes \<le> length (m_pSerializeBuffer buffer)" "length (m_pSerializeBuffer buffer) < 65536" "m_iRead buffer = 0"
    "d = TlsCloseNotify \<or> d = TlsPlainData \<and> (\<exists>es'. es = RecvData TlsCloseNotify [] # es')"
  shows "\<exists>b. session_stream api (RecvData d bytes # es) buffer 0 0 False = (Some True, b) \<and>
    m_pSerializeBuffer b = patch 0 bytes (m_pSerializeBuffer buffer)"
proof -
  obtain b where b: "m_pSerializeBuffer b = patch 0 bytes (m_pSerializeBuffer buffer)" "(of_nat n :: ushort) \<noteq> 0"
    "\<And>d es. d \<noteq> TlsError \<Longrightarrow> session_stream api (RecvData d bytes # es) buffer 0 0 False =
       (if d = TlsCloseNotify then (Some True, b) else session_stream api es b (int (5 + n)) (of_nat n) True)"
    using stream_of_message [OF assms(1-10)] by blast
  show ?thesis using assms(11) b by auto
qed

text \<open>Plaintext that comes in two records: the second is written over the first.\<close>

lemma session_stream_overwrites:
  assumes "write_law api" "read_law api" "5 \<le> length xs" "(le_word (slice 1 2 xs) :: ushort) \<noteq> 0" "ys \<noteq> []"
    "length xs \<le> length (m_pSerializeBuffer buffer)" "length ys \<le> length (m_pSerializeBuffer buffer)"
    "length (m_pSerializeBuffer buffer) < 65536" "m_iRead buffer = 0"
  shows "\<exists>complete b. session_stream api [RecvData TlsPlainData xs, RecvData TlsPlainData ys] buffer 0 0 False = (Some complete, b) \<and>
    m_pSerializeBuffer b = patch 0 ys (patch 0 xs (m_pSerializeBuffer buffer))"
proof -
  let ?m = "patch 0 xs (m_pSerializeBuffer buffer)"
  let ?b1 = "buffer\<lparr> m_iWrite := of_nat (length xs), m_pSerializeBuffer := ?m \<rparr>"
  have len: "length ?m = length (m_pSerializeBuffer buffer)" using assms(6) by simp
  have w1: "nb_write api xs (buffer\<lparr> m_iWrite := 0 \<rparr>) = ?b1" using assms(1,6,8) by (simp add: write_law_def)
  obtain code where r1: "nb_read api 1 ?b1 = (code, ?b1\<lparr> m_iRead := 1 \<rparr>)"
    using assms(2,3,6,8,9) len by (simp add: read_law_def)
  have "slice 1 2 ?m = slice 1 2 xs" using assms(3) by (simp add: slice_def patch_def)
  then have r2: "nb_read api 2 (?b1\<lparr> m_iRead := 1 \<rparr>) = (slice 1 2 xs, ?b1\<lparr> m_iRead := 3 \<rparr>)"
    using assms(2,3,6,8) len by (simp add: read_law_def)
  have w2: "nb_write api ys (?b1\<lparr> m_iRead := 3, m_iWrite := 0 \<rparr>)
      = ?b1\<lparr> m_iRead := 3, m_iWrite := of_nat (length ys), m_pSerializeBuffer := patch 0 ys ?m \<rparr>"
    using assms(1,7,8) len by (simp add: write_law_def)
  have "xs \<noteq> []" using assms(3) by auto
  then have "session_stream api [RecvData TlsPlainData xs, RecvData TlsPlainData ys] buffer 0 0 False =
      (Some (int (length xs) \<ge> uint (le_word (slice 1 2 xs) :: ushort) + 5 \<or> int (length xs) + int (length ys) \<ge> uint (le_word (slice 1 2 xs) :: ushort) + 5),
       ?b1\<lparr> m_iRead := 3, m_iWrite := of_nat (length ys), m_pSerializeBuffer := patch 0 ys ?m \<rparr>)"
    using assms(3-5) w1 r1 r2 w2 by (simp add: Let_def)
  then show ?thesis by simp
qed

end
