(* ===== verification/Client_Receive.thy ===== *)
theory Client_Receive
  imports Client_Send Session_Getter
begin

text \<open>
  MultiSocketRUDPClient/RUDPClientCore, receiving: a datagram is cut into packets, packets
  wait in a priority queue until the application takes them in order of their sequence.
  Also ServerAliveChecker, the start and the stop of the client.
\<close>

section \<open>A datagram\<close>

text \<open>The branch of \<open>SEND_TYPE\<close> and \<open>HEARTBEAT_TYPE\<close> after the packet is decrypted.\<close>

definition hold_packet :: "'k ClientEnv \<Rightarrow> nat \<Rightarrow> PACKET_TYPE \<Rightarrow> NetBuffer \<Rightarrow> 'k Client \<Rightarrow> 'k Client" where
  "hold_packet E b packetType decoded c =
     (let (bytes, p1) = nb_read (ce_api E) 8 decoded;
          packetSequence = le_word bytes;
          (packetId, p2) = (if packetType = SEND_TYPE
             then let (idBytes, q) = nb_read (ce_api E) 4 p1 in (le_word idBytes, q\<lparr> m_iRead := m_iRead p1 \<rparr>)
             else (0, p1));
          c1 = NetBuffer_AddRefCount b (upd_buffers (heap_update b (\<lambda>_. p2)) c);
          held = \<lparr> ri_buffer = b, ri_packetSequence = packetSequence, ri_packetType = packetType \<rparr>;
          c2 = c1\<lparr> cl_recvPacketHoldingQueue := pq_push ri_packetSequence held (cl_recvPacketHoldingQueue c1) \<rparr>
      in if ce_ShouldSendReplyToServer E packetSequence packetId
         then Client_SendReplyToServer E packetSequence
                (if packetType = HEARTBEAT_TYPE then HEARTBEAT_REPLY_TYPE else SEND_REPLY_TYPE) c2
         else c2)"

definition Client_ProcessRecvPacket :: "'k ClientEnv \<Rightarrow> nat \<Rightarrow> 'k Client \<Rightarrow> 'k Client" where
  "Client_ProcessRecvPacket E b c =
     (case heap_get b (cl_buffers c) of
        None \<Rightarrow> client_fault c
      | Some receivedBuffer \<Rightarrow>
          let (bytes, p1) = nb_read (ce_api E) 1 receivedBuffer;
              salt = Some (si_sessionSalt (cl_session c));
              key = si_sessionKeyHandle (cl_session c)
          in case PACKET_TYPE_of (le_word bytes) of
               Some SEND_TYPE \<Rightarrow>
                 (case DecodePacket (ce_api E) (ce_bcrypt E) salt key False SERVER_TO_CLIENT p1 of
                    None \<Rightarrow> c\<lparr> cl_bufferOverrun := True \<rparr>
                  | Some (False, p2) \<Rightarrow> c
                  | Some (True, p2) \<Rightarrow> hold_packet E b SEND_TYPE p2 c)
             | Some HEARTBEAT_TYPE \<Rightarrow>
                 (case DecodePacket (ce_api E) (ce_bcrypt E) salt key True SERVER_TO_CLIENT p1 of
                    None \<Rightarrow> c\<lparr> cl_bufferOverrun := True \<rparr>
                  | Some (False, p2) \<Rightarrow> c
                  | Some (True, p2) \<Rightarrow> hold_packet E b HEARTBEAT_TYPE p2 c)
             | Some SEND_REPLY_TYPE \<Rightarrow>
                 (case DecodePacket (ce_api E) (ce_bcrypt E) salt key True SERVER_TO_CLIENT_REPLY p1 of
                    None \<Rightarrow> c\<lparr> cl_bufferOverrun := True \<rparr>
                  | Some (False, p2) \<Rightarrow> c
                  | Some (True, p2) \<Rightarrow>
                      let (sequenceBytes, p3) = nb_read (ce_api E) 8 p2
                      in Client_OnSendReply E p3 (le_word sequenceBytes) c)
             | _ \<Rightarrow> c)"

text \<open>\<open>GetPayloadLength\<close> reads behind the code byte of the header.\<close>

definition Client_GetPayloadLength :: "NetBuffer \<Rightarrow> ushort" where
  "Client_GetPayloadLength buffer = le_word (slice (unat (m_iRead buffer) + 1) 2 (m_pSerializeBuffer buffer))"

function Client_OnRecvStream :: "'k ClientEnv \<Rightarrow> NetBuffer \<Rightarrow> int \<Rightarrow> 'k Client \<Rightarrow> 'k Client" where
  "Client_OnRecvStream E recvBuffer recvSize c =
     (if recvSize > int df_HEADER_SIZE then
        (let (header, recvBuffer1) = nb_read (ce_api E) df_HEADER_SIZE recvBuffer;
             p = (ce_copyToBufferPtr E header (nb_Alloc (ce_api E)))\<lparr> m_iRead := 0 \<rparr>;
             payloadLength = Client_GetPayloadLength p
         in case new_buffer E p c of
              (None, c1) \<Rightarrow> client_fault c1
            | (Some b, c1) \<Rightarrow>
                if payloadLength = 0 \<or> unat payloadLength > ce_dfDEFAULTSIZE E \<or> uint payloadLength > recvSize
                then NetBuffer_Free b c1
                else let packetSize = uint payloadLength + int df_HEADER_SIZE;
                         (payload, recvBuffer2) = nb_read (ce_api E) (unat payloadLength) recvBuffer1;
                         p2 = (ce_copyToWriteBufferPtr E payload p)
                                \<lparr> m_iRead := of_nat df_HEADER_SIZE, m_iWrite := word_of_int packetSize \<rparr>;
                         c2 = upd_buffers (heap_update b (\<lambda>_. p2)) c1
                     in Client_OnRecvStream E recvBuffer2 (recvSize - packetSize)
                          (NetBuffer_Free b (Client_ProcessRecvPacket E b c2)))
      else c)"
  by pat_completeness auto

termination
proof (relation "measure (\<lambda>(E, recvBuffer, recvSize, c). nat recvSize)")
  fix E :: "'k ClientEnv" and recvBuffer recvBuffer1 p and recvSize packetSize :: int and c c1 c2 :: "'k Client"
    and payloadLength :: ushort and recvBuffer2
  assume "int df_HEADER_SIZE < recvSize" "packetSize = uint payloadLength + int df_HEADER_SIZE"
  then show "((E, recvBuffer2, recvSize - packetSize, c2), (E, recvBuffer, recvSize, c))
      \<in> measure (\<lambda>(E, recvBuffer, recvSize, c). nat recvSize)"
    using uint_nat [of payloadLength] by (simp only: in_measure prod.case)
qed simp

declare Client_OnRecvStream.simps [simp del]

section \<open>The application takes packets\<close>

definition Client_GetRemainPacketSize :: "'k Client \<Rightarrow> 32 word" where
  "Client_GetRemainPacketSize c = of_nat (length (cl_recvPacketHoldingQueue c))"

fun get_received :: "RecvPacketInfo list \<Rightarrow> 'k Client \<Rightarrow> nat option \<times> 'k Client" where
  "get_received [] c = (None, c)"
| "get_received (h # q) c =
     (if ri_packetSequence h < cl_nextRecvPacketSequence c
      then get_received q (NetBuffer_Free (ri_buffer h) (c\<lparr> cl_recvPacketHoldingQueue := q \<rparr>))
      else if ri_packetSequence h \<noteq> cl_nextRecvPacketSequence c then (None, c)
      else let c1 = c\<lparr> cl_nextRecvPacketSequence := cl_nextRecvPacketSequence c + 1,
                       cl_recvPacketHoldingQueue := q,
                       cl_consumed := cl_consumed c @ [(ri_packetSequence h, ri_packetType h)] \<rparr>
           in if ri_packetType h = HEARTBEAT_TYPE then get_received q (NetBuffer_Free (ri_buffer h) c1)
              else (Some (ri_buffer h), c1))"

definition Client_GetReceivedPacket :: "'k Client \<Rightarrow> nat option \<times> 'k Client" where
  "Client_GetReceivedPacket c = get_received (cl_recvPacketHoldingQueue c) c"

section \<open>Starting and stopping\<close>

definition Client_AcquireClientProcessReference :: "'k ClientEnv \<Rightarrow> 'k Client \<Rightarrow> bool \<times> 'k Client" where
  "Client_AcquireClientProcessReference E c =
     (let (ok, c1) = (if cl_clientCountInThisProcess c = 0 then client_ask (ce_wsaStartup E) c else (True, c))
      in if \<not> ok then (False, c1)
         else (True, c1\<lparr> cl_clientCountInThisProcess := cl_clientCountInThisProcess c1 + 1,
                         cl_hasClientProcessReference := True \<rparr>))"

definition Client_ReleaseClientProcessReference :: "'k Client \<Rightarrow> 'k Client" where
  "Client_ReleaseClientProcessReference c =
     (if \<not> cl_hasClientProcessReference c then c
      else let c1 = c\<lparr> cl_hasClientProcessReference := False \<rparr>
           in if cl_clientCountInThisProcess c1 = 0 then c1
              else c1\<lparr> cl_clientCountInThisProcess := cl_clientCountInThisProcess c1 - 1 \<rparr>)"

text \<open>The retransmission thread ends: with the stop flag set it frees what it collected.\<close>

fun retransmission_end :: "nat list \<Rightarrow> 'k Client \<Rightarrow> 'k Client" where
  "retransmission_end [] c = c"
| "retransmission_end (a # rest) c =
     retransmission_end rest (ClientSendInfo_Free a (c\<lparr> cl_retransmitTargets := rest \<rparr>))"

text \<open>The threads are joined one after the other, the receive thread last: it may be at work on a datagram whose \<open>recvfrom\<close> returned
  before the socket was closed, and handles it when the send thread has ended. (What it did before that is a step before the stop.)\<close>

definition late_datagram :: "'k ClientEnv \<Rightarrow> 'k Client \<Rightarrow> 'k Client" where
  "late_datagram E c =
     (let (late, c1) = client_ask (ce_lateDatagram E) c
      in case late of None \<Rightarrow> c1
         | Some (recvBuffer, bytesReceived) \<Rightarrow> Client_OnRecvStream E recvBuffer bytesReceived (c1\<lparr> cl_late := True \<rparr>))"

definition Client_JoinThreads :: "'k ClientEnv \<Rightarrow> 'k Client \<Rightarrow> 'k Client" where
  "Client_JoinThreads E c =
     (let c1 = Client_StopServerAliveCheck c;
          c2 = retransmission_end (cl_retransmitTargets c1) c1
      in late_datagram E (Client_SendThread_stop E c2))"

fun free_send_infos :: "(PacketSequence \<times> nat) list \<Rightarrow> 'k Client \<Rightarrow> 'k Client" where
  "free_send_infos [] c = c\<lparr> cl_sendPacketInfoMap := [] \<rparr>"
| "free_send_infos ((sequence, a) # m) c =
     free_send_infos m (ClientSendInfo_Free a (c\<lparr> cl_sendPacketInfoMap := m \<rparr>))"

fun free_pending :: "(PacketSequence \<times> nat) list \<Rightarrow> 'k Client \<Rightarrow> 'k Client" where
  "free_pending [] c = c"
| "free_pending ((sequence, b) # q) c = free_pending q (NetBuffer_Free b (c\<lparr> cl_pendingPacketQueue := q \<rparr>))"

definition Client_Stop :: "'k ClientEnv \<Rightarrow> 'k Client \<Rightarrow> 'k Client" where
  "Client_Stop E c =
     (if cl_isStopped c then c
      else let c1 = c\<lparr> cl_isStopped := True, cl_threadStopFlag := True, cl_socketOpen := False \<rparr>;
               c2 = (Client_JoinThreads E c1)\<lparr> cl_sendEvents := False, cl_sendSemaphore := 0 \<rparr>;
               c3 = free_send_infos (cl_sendPacketInfoMap c2) c2;
               c4 = free_pending (cl_pendingPacketQueue c3) c3;
               c5 = Client_ReleaseClientProcessReference c4
           in c5\<lparr> cl_session := (cl_session c5)\<lparr> si_sessionKeyHandle := None, si_keyObjectBuffer := False \<rparr> \<rparr>)"

definition Client_RunThreads :: "'k ClientEnv \<Rightarrow> 'k Client \<Rightarrow> bool \<times> 'k Client" where
  "Client_RunThreads E c =
     (let (ok, c1) = client_ask (ce_createSendEvents E) c in
      if \<not> ok then (False, c1\<lparr> cl_sendEvents := False, cl_sendSemaphore := 0 \<rparr>)
      else let (tick, c2) = client_ask (ce_tickCount E) c1
           in (True, c2\<lparr> cl_sendEvents := True, cl_sendSemaphore := 0, cl_nowTick := tick, cl_retransmitTargets := [] \<rparr>))"

definition Client_Start :: "'k ClientEnv \<Rightarrow> 'k Client \<Rightarrow> bool \<times> 'k Client" where
  "Client_Start E c =
     (let c0 = c\<lparr> cl_threadStopFlag := False, cl_isConnected := False \<rparr>;
          (optionsOk, c1) = client_ask (ce_readOptionFile E) c0
      in if \<not> optionsOk then (False, c1)
         else let (referenceOk, c2) = Client_AcquireClientProcessReference E c1
      in if \<not> referenceOk then (False, c2)
         else let (sessionOk, c3) = Client_RunGetSessionFromServer E c2
      in if \<not> sessionOk then (False, Client_ReleaseClientProcessReference c3)
         else let (socketOk, c4) = client_ask (ce_createRUDPSocket E) c3
      in if \<not> socketOk then (False, Client_ReleaseClientProcessReference c4)
         else let (threadsOk, c5) = Client_RunThreads E (c4\<lparr> cl_socketOpen := True \<rparr>)
      in if \<not> threadsOk then (False, Client_ReleaseClientProcessReference (c5\<lparr> cl_socketOpen := False \<rparr>))
         else let c6 = (if ce_ShouldSendConnectPacketOnStart E then Client_SendConnectPacket E c5 else c5)
      in (True, c6\<lparr> cl_isStopped := False \<rparr>))"

section \<open>Is the server alive\<close>

definition ServerAliveChecker_IsServerAlive :: "PacketSequence \<Rightarrow> ServerAliveChecker \<Rightarrow> bool \<times> ServerAliveChecker" where
  "ServerAliveChecker_IsServerAlive nowPacketSequence ac =
     (if nowPacketSequence = ac_beforeCheckSequence ac then (False, ac)
      else (True, ac\<lparr> ac_beforeCheckSequence := nowPacketSequence \<rparr>))"

text \<open>One turn of the thread, if there is one, after its sleep.\<close>

definition ServerAliveChecker_turn :: "'k ClientEnv \<Rightarrow> 'k Client \<Rightarrow> 'k Client" where
  "ServerAliveChecker_turn E c =
     (if ac_isStopped (cl_serverAliveChecker c) \<or> \<not> ac_threadJoinable (cl_serverAliveChecker c) then c
      else let (alive, ac) = ServerAliveChecker_IsServerAlive (cl_nextRecvPacketSequence c) (cl_serverAliveChecker c);
               c1 = c\<lparr> cl_serverAliveChecker := ac \<rparr>
           in if \<not> alive then Client_Stop E c1 else c1)"

end
