(* ===== verification/Client_Invariant.thy ===== *)
theory Client_Invariant
  imports Client_Receive
begin

text \<open>
  The invariant of the client: reference counts are exact, the map of unacknowledged packets
  and the queue of waiting packets hold different sequences that were given out, the window
  of the server bounds the map (so the count of unacknowledged packets fits a BYTE), the
  packets taken out so far are the sequences 1, 2, 3, \<dots>, and every packet in the send queue
  has a count of the semaphore.
\<close>

section \<open>The invariant\<close>

definition client_alloc_law :: "'k ClientEnv \<Rightarrow> bool" where
  "client_alloc_law E \<longleftrightarrow>
     (\<forall>h b. ce_bufferAlloc E h = Some b \<longrightarrow> hp_mem h b = None) \<and>
     (\<forall>h b. hp_mem h b = None \<longrightarrow> ce_bufferAlloc E h \<noteq> None) \<and>
     (\<forall>h a. ce_infoAlloc E h = Some a \<longrightarrow> hp_mem h a = None)"

lemma client_allocD:
  assumes "client_alloc_law E"
  shows "ce_bufferAlloc E h = Some b \<Longrightarrow> hp_mem h b = None" "ce_infoAlloc E h' = Some a \<Longrightarrow> hp_mem h' a = None"
    "hp_mem h x = None \<Longrightarrow> ce_bufferAlloc E h \<noteq> None"
  using assms unfolding client_alloc_law_def by blast+

definition info_sequence :: "ClientSendInfo RefHeap \<Rightarrow> nat \<Rightarrow> PacketSequence option" where
  "info_sequence h a = map_option ci_sendPacketSequence (heap_get a h)"

definition sequences_ok :: "'k Client \<Rightarrow> bool" where
  "sequences_ok c \<longleftrightarrow>
     sorted (map fst (cl_sendPacketInfoMap c)) \<and> sorted (map fst (cl_pendingPacketQueue c)) \<and>
     distinct (map fst (cl_sendPacketInfoMap c) @ map fst (cl_pendingPacketQueue c)) \<and>
     distinct (map snd (cl_sendPacketInfoMap c)) \<and> distinct (cl_retransmitTargets c) \<and>
     (\<forall>(q, a) \<in> set (cl_sendPacketInfoMap c). q \<le> cl_lastSendPacketSequence c \<and> info_sequence (cl_infos c) a = Some q) \<and>
     (\<forall>(q, b) \<in> set (cl_pendingPacketQueue c). q \<le> cl_lastSendPacketSequence c) \<and>
     length (cl_sendPacketInfoMap c) < 256"

definition received_ok :: "'k Client \<Rightarrow> bool" where
  "received_ok c \<longleftrightarrow>
     sorted (map ri_packetSequence (cl_recvPacketHoldingQueue c)) \<and>
     map fst (cl_consumed c) = map of_nat [1..<Suc (length (cl_consumed c))] \<and>
     cl_nextRecvPacketSequence c = of_nat (Suc (length (cl_consumed c)))"

definition semaphore_ok :: "'k Client \<Rightarrow> bool" where
  "semaphore_ok c \<longleftrightarrow> (\<not> cl_late c \<and> cl_sendEvents c \<longrightarrow> length (cl_sendBufferQueue c) \<le> cl_sendSemaphore c)"

definition client_inv :: "nat multiset \<Rightarrow> nat multiset \<Rightarrow> 'k Client \<Rightarrow> bool" where
  "client_inv Y X c \<longleftrightarrow> memory_ok Y X c \<and> sequences_ok c \<and> received_ok c \<and> semaphore_ok c"

lemma client_invD:
  assumes "client_inv Y X c"
  shows "memory_ok Y X c" "sequences_ok c" "received_ok c" "semaphore_ok c"
  using assms by (simp_all add: client_inv_def)

text \<open>Operations on the memories do not touch the fields.\<close>

lemma upd_memory_fields [simp]:
  "cl_sendPacketInfoMap (upd_buffers f c) = cl_sendPacketInfoMap c" "cl_sendPacketInfoMap (upd_infos g c) = cl_sendPacketInfoMap c"
  "cl_pendingPacketQueue (upd_buffers f c) = cl_pendingPacketQueue c" "cl_pendingPacketQueue (upd_infos g c) = cl_pendingPacketQueue c"
  "cl_retransmitTargets (upd_buffers f c) = cl_retransmitTargets c" "cl_retransmitTargets (upd_infos g c) = cl_retransmitTargets c"
  "cl_lastSendPacketSequence (upd_buffers f c) = cl_lastSendPacketSequence c"
  "cl_lastSendPacketSequence (upd_infos g c) = cl_lastSendPacketSequence c"
  "cl_remoteAdvertisedWindow (upd_buffers f c) = cl_remoteAdvertisedWindow c"
  "cl_remoteAdvertisedWindow (upd_infos g c) = cl_remoteAdvertisedWindow c"
  "cl_recvPacketHoldingQueue (upd_buffers f c) = cl_recvPacketHoldingQueue c"
  "cl_recvPacketHoldingQueue (upd_infos g c) = cl_recvPacketHoldingQueue c"
  "cl_nextRecvPacketSequence (upd_buffers f c) = cl_nextRecvPacketSequence c"
  "cl_nextRecvPacketSequence (upd_infos g c) = cl_nextRecvPacketSequence c"
  "cl_consumed (upd_buffers f c) = cl_consumed c" "cl_consumed (upd_infos g c) = cl_consumed c"
  "cl_sendBufferQueue (upd_buffers f c) = cl_sendBufferQueue c" "cl_sendBufferQueue (upd_infos g c) = cl_sendBufferQueue c"
  "cl_sendSemaphore (upd_buffers f c) = cl_sendSemaphore c" "cl_sendSemaphore (upd_infos g c) = cl_sendSemaphore c"
  "cl_sendEvents (upd_buffers f c) = cl_sendEvents c" "cl_sendEvents (upd_infos g c) = cl_sendEvents c"
  "cl_isStopped (upd_buffers f c) = cl_isStopped c" "cl_isStopped (upd_infos g c) = cl_isStopped c"
  "cl_late (upd_buffers f c) = cl_late c" "cl_late (upd_infos g c) = cl_late c"
  "cl_threadStopFlag (upd_buffers f c) = cl_threadStopFlag c" "cl_threadStopFlag (upd_infos g c) = cl_threadStopFlag c"
  "cl_socketOpen (upd_buffers f c) = cl_socketOpen c" "cl_socketOpen (upd_infos g c) = cl_socketOpen c"
  "cl_session (upd_buffers f c) = cl_session c" "cl_session (upd_infos g c) = cl_session c"
  "cl_application (upd_buffers f c) = cl_application c" "cl_application (upd_infos g c) = cl_application c"
  "cl_wire (upd_buffers f c) = cl_wire c" "cl_wire (upd_infos g c) = cl_wire c"
  by (simp_all add: upd_buffers_def upd_infos_def)

lemma buffer_op_defs: "NetBuffer_AddRefCount b c = upd_buffers (heap_AddRefCount b) c" "NetBuffer_Free b c = upd_buffers (heap_Free b) c"
  by (simp_all add: NetBuffer_AddRefCount_def NetBuffer_Free_def)

lemma inv_upd_buffers:
  "sequences_ok (upd_buffers f c) = sequences_ok c" "received_ok (upd_buffers f c) = received_ok c"
  "semaphore_ok (upd_buffers f c) = semaphore_ok c"
  by (simp_all add: sequences_ok_def received_ok_def semaphore_ok_def)

lemma client_inv_AddRefCount:
  "client_inv Y X c \<Longrightarrow> b \<in># X + queue_holders c + info_buffers (Y + info_holders c) (cl_infos c) \<Longrightarrow>
   client_inv Y (add_mset b X) (NetBuffer_AddRefCount b c)"
  using memory_ok_AddRefCount [of Y X c b] by (simp add: client_inv_def buffer_op_defs inv_upd_buffers)

lemma client_inv_Free: "client_inv Y (add_mset b X) c \<Longrightarrow> client_inv Y X (NetBuffer_Free b c)"
  using memory_ok_Free [of Y b X c] by (simp add: client_inv_def buffer_op_defs inv_upd_buffers)

lemma client_inv_new_buffer:
  assumes "client_inv Y X c" "new_buffer E content c = (Some b, c')" "client_alloc_law E"
  shows "client_inv Y (add_mset b X) c'"
  using memory_ok_new_buffer [OF client_invD(1) [OF assms(1)] assms(2) client_allocD(1) [OF assms(3)]] assms(1)
  by (simp add: client_inv_def inv_upd_buffers)

lemma client_inv_update_buffer: "client_inv Y X c \<Longrightarrow> b \<in># X \<Longrightarrow> client_inv Y X (upd_buffers (heap_update b f) c)"
  using memory_ok_update_buffer [of Y X c b f] by (simp add: client_inv_def inv_upd_buffers)

lemma new_buffer_total:
  assumes "client_alloc_law E" "client_inv Y X c"
  shows "\<exists>b. new_buffer E content c = (Some b, upd_buffers (heap_new b content) c)"
proof -
  obtain b where "hp_mem (cl_buffers c) b = None"
    using heap_ok_room [OF memory_okD(3) [OF client_invD(1) [OF assms(2)]]] by blast
  from client_allocD(3) [OF assms(1) this] show ?thesis by (auto simp: new_buffer_def)
qed

text \<open>A change of the fields that keeps the memories.\<close>

lemma client_inv_move:
  assumes "client_inv Y X c" "cl_infos c' = cl_infos c" "cl_buffers c' = cl_buffers c" "cl_fault c' = cl_fault c"
    "Y' + info_holders c' = Y + info_holders c" "X' + queue_holders c' = X + queue_holders c"
    "sequences_ok c \<Longrightarrow> sequences_ok c'" "received_ok c \<Longrightarrow> received_ok c'" "semaphore_ok c \<Longrightarrow> semaphore_ok c'"
  shows "client_inv Y' X' c'"
  using memory_ok_move [OF client_invD(1) [OF assms(1)] assms(2-6)] client_invD(2-4) [OF assms(1)] assms(7-9)
  by (simp add: client_inv_def)

lemma info_sequence_simps:
  "info_sequence (heap_new a i h) x = (if x = a then Some (ci_sendPacketSequence i) else info_sequence h x)"
  "info_sequence (heap_AddRefCount a h) x = info_sequence h x"
  "(\<And>i. ci_sendPacketSequence (f i) = ci_sendPacketSequence i) \<Longrightarrow> info_sequence (heap_update a f h) x = info_sequence h x"
  by (auto simp: info_sequence_def heap_get_update option.map_comp comp_def)

lemma client_inv_info_AddRefCount:
  assumes "client_inv Y X c" "a \<in># Y + info_holders c"
  shows "client_inv (add_mset a Y) X (ClientSendInfo_AddRefCount a c)"
proof -
  have "sequences_ok (ClientSendInfo_AddRefCount a c) = sequences_ok c"
    by (simp add: sequences_ok_def ClientSendInfo_AddRefCount_def info_sequence_simps)
  then show ?thesis
    using memory_ok_info_AddRefCount [OF client_invD(1) [OF assms(1)] assms(2)] client_invD(2-4) [OF assms(1)]
    by (simp add: client_inv_def received_ok_def semaphore_ok_def ClientSendInfo_AddRefCount_def)
qed

lemma client_inv_update_info:
  assumes "client_inv Y X c" "a \<in># Y + info_holders c"
    "\<And>i. ci_buffer (f i) = ci_buffer i" "\<And>i. ci_sendPacketSequence (f i) = ci_sendPacketSequence i"
  shows "client_inv Y X (upd_infos (heap_update a f) c)"
proof -
  have "sequences_ok (upd_infos (heap_update a f) c) = sequences_ok c"
    using assms(4) by (simp add: sequences_ok_def info_sequence_simps)
  then show ?thesis
    using memory_ok_update_info [OF client_invD(1) [OF assms(1)] assms(2,3)] client_invD(2-4) [OF assms(1)]
    by (simp add: client_inv_def received_ok_def semaphore_ok_def)
qed

text \<open>\<open>SendPacketInfo::Free\<close> leaves the fields alone, and the descriptors that are still held.\<close>

lemma info_Free_fields [simp]:
  "cl_sendPacketInfoMap (ClientSendInfo_Free a c) = cl_sendPacketInfoMap c"
  "cl_pendingPacketQueue (ClientSendInfo_Free a c) = cl_pendingPacketQueue c"
  "cl_retransmitTargets (ClientSendInfo_Free a c) = cl_retransmitTargets c"
  "cl_lastSendPacketSequence (ClientSendInfo_Free a c) = cl_lastSendPacketSequence c"
  "cl_remoteAdvertisedWindow (ClientSendInfo_Free a c) = cl_remoteAdvertisedWindow c"
  "cl_recvPacketHoldingQueue (ClientSendInfo_Free a c) = cl_recvPacketHoldingQueue c"
  "cl_nextRecvPacketSequence (ClientSendInfo_Free a c) = cl_nextRecvPacketSequence c"
  "cl_consumed (ClientSendInfo_Free a c) = cl_consumed c" "cl_sendBufferQueue (ClientSendInfo_Free a c) = cl_sendBufferQueue c"
  "cl_sendSemaphore (ClientSendInfo_Free a c) = cl_sendSemaphore c" "cl_sendEvents (ClientSendInfo_Free a c) = cl_sendEvents c"
  "cl_late (ClientSendInfo_Free a c) = cl_late c"
  "cl_isStopped (ClientSendInfo_Free a c) = cl_isStopped c" "cl_threadStopFlag (ClientSendInfo_Free a c) = cl_threadStopFlag c"
  "cl_application (ClientSendInfo_Free a c) = cl_application c" "cl_socketOpen (ClientSendInfo_Free a c) = cl_socketOpen c"
  by (auto simp: ClientSendInfo_Free_def client_fault_def NetBuffer_Free_def Let_def split: option.split)

lemma client_inv_info_Free:
  assumes "client_inv (add_mset a Y) X c"
  shows "client_inv Y X (ClientSendInfo_Free a c)"
proof -
  have h: "heap_ok (add_mset a (Y + info_holders c)) (cl_infos c)" using memory_okD(2) [OF client_invD(1) [OF assms]] by simp
  obtain i n where i: "hp_mem (cl_infos c) a = Some (i, n)" by (rule heap_ok_live [OF h, of a]) auto
  then have f: "cl_infos (ClientSendInfo_Free a c) = heap_Free a (cl_infos c)"
    by (simp add: ClientSendInfo_Free_def Let_def NetBuffer_Free_def)
  have keep: "info_sequence (heap_Free a (cl_infos c)) x = info_sequence (cl_infos c) x" if "x \<in># info_holders c" for x
    using heap_get_Free [of x a "cl_infos c"] heap_get_Free_same [OF h] that
    by (cases "x = a") (simp_all add: info_sequence_def)
  have m: "x \<in># info_holders c" if "(q, x) \<in> set (cl_sendPacketInfoMap c)" for q x
    using that by (force simp: info_holders_def)
  have "sequences_ok (ClientSendInfo_Free a c)"
    using client_invD(2) [OF assms] keep m unfolding sequences_ok_def f info_Free_fields by (auto split: prod.splits)
  then show ?thesis
    using memory_ok_info_Free [OF client_invD(1) [OF assms]] client_invD(3,4) [OF assms]
    by (simp add: client_inv_def received_ok_def semaphore_ok_def)
qed

section \<open>Sending keeps it\<close>

lemma client_inv_encode:
  assumes "client_inv Y X c" "b \<in># X"
  shows "client_inv Y X (client_encode E b q d core c)"
proof -
  obtain p where "heap_get b (cl_buffers c) = Some p"
    by (rule heap_ok_live [OF memory_okD(3) [OF client_invD(1) [OF assms(1)]], of b]) (use assms(2) in simp)
  moreover have "client_inv Y X (c\<lparr> cl_bufferOverrun := True \<rparr>)"
    by (rule client_inv_move [OF assms(1)]) (simp_all add: info_holders_def queue_holders_def sequences_ok_def received_ok_def semaphore_ok_def)
  ultimately show ?thesis
    using client_inv_update_buffer [OF assms] by (simp add: client_encode_def split: option.split)
qed

lemma encode_fields [simp]:
  "cl_sendPacketInfoMap (client_encode E b q d core c) = cl_sendPacketInfoMap c"
  "cl_pendingPacketQueue (client_encode E b q d core c) = cl_pendingPacketQueue c"
  "cl_lastSendPacketSequence (client_encode E b q d core c) = cl_lastSendPacketSequence c"
  "cl_remoteAdvertisedWindow (client_encode E b q d core c) = cl_remoteAdvertisedWindow c"
  "cl_sendEvents (client_encode E b q d core c) = cl_sendEvents c"
  "cl_isStopped (client_encode E b q d core c) = cl_isStopped c" "cl_late (client_encode E b q d core c) = cl_late c"
  by (auto simp: client_encode_def client_fault_def split: option.split)

lemma client_inv_enqueue: "client_inv Y (add_mset b X) c \<Longrightarrow> client_inv Y X (client_enqueue b c)"
  by (erule client_inv_move)
     (auto simp: client_enqueue_def info_holders_def queue_holders_def sequences_ok_def received_ok_def semaphore_ok_def)

lemma client_inv_ask:
  assumes "client_ask f c = (r, c')" "client_inv Y X c"
  shows "client_inv Y X c'"
proof -
  have "c' = c\<lparr> cl_query := cl_query c + 1 \<rparr>" using assms(1) by (auto simp: client_ask_def)
  then show ?thesis
    by (intro client_inv_move [OF assms(2)])
       (simp_all add: info_holders_def queue_holders_def sequences_ok_def received_ok_def semaphore_ok_def)
qed

text \<open>A packet with a new sequence joins the map.\<close>

lemma client_inv_map_insert:
  assumes "client_inv (add_mset a Y) X c" "info_sequence (cl_infos c) a = Some q" "a \<notin># info_holders c"
    "q \<notin> fst ` set (cl_sendPacketInfoMap c)" "q \<notin> fst ` set (cl_pendingPacketQueue c)"
    "q \<le> cl_lastSendPacketSequence c" "length (cl_sendPacketInfoMap c) < 255"
  shows "client_inv Y X (c\<lparr> cl_sendPacketInfoMap := map_insert q a (cl_sendPacketInfoMap c) \<rparr>)"
proof (rule client_inv_move [OF assms(1)])
  let ?m = "insort_key fst (q, a) (cl_sendPacketInfoMap c)"
  have m: "map_insert q a (cl_sendPacketInfoMap c) = ?m" using assms(4) by (simp add: map_insert_def)
  have fsts: "mset (map fst ?m) = add_mset q (mset (map fst (cl_sendPacketInfoMap c)))"
    and snds: "mset (map snd ?m) = add_mset a (mset (map snd (cl_sendPacketInfoMap c)))" by simp_all
  show "sequences_ok c \<Longrightarrow> sequences_ok (c\<lparr> cl_sendPacketInfoMap := map_insert q a (cl_sendPacketInfoMap c) \<rparr>)"
    unfolding m
  proof -
    assume s: "sequences_ok c"
    have d1: "distinct (map fst ?m @ map fst (cl_pendingPacketQueue c))"
      using s assms(4,5) mset_eq_imp_distinct_iff [of "map fst ?m" "q # map fst (cl_sendPacketInfoMap c)"] fsts
        mset_eq_setD [of "map fst ?m" "q # map fst (cl_sendPacketInfoMap c)"]
      by (auto simp: sequences_ok_def)
    have d2: "distinct (map snd ?m)"
      using s assms(3) mset_eq_imp_distinct_iff [of "map snd ?m" "a # map snd (cl_sendPacketInfoMap c)"] snds
      by (auto simp: sequences_ok_def info_holders_def)
    from s d1 d2 assms(2,6,7) show "sequences_ok (c\<lparr> cl_sendPacketInfoMap := ?m \<rparr>)"
      by (simp add: sequences_ok_def sorted_insort_key set_insort_key)
  qed
  show "Y + info_holders (c\<lparr> cl_sendPacketInfoMap := map_insert q a (cl_sendPacketInfoMap c) \<rparr>) = add_mset a Y + info_holders c"
    unfolding m info_holders_def using snds by simp
qed (simp_all add: queue_holders_def received_ok_def semaphore_ok_def)

lemma client_inv_Register:
  assumes "client_inv Y (add_mset b X) c" "client_alloc_law E"
    "q \<notin> fst ` set (cl_sendPacketInfoMap c)" "q \<notin> fst ` set (cl_pendingPacketQueue c)"
    "q \<le> cl_lastSendPacketSequence c" "length (cl_sendPacketInfoMap c) < 255"
  shows "client_inv Y X (Client_RegisterSendPacketInfo E b q c)"
proof (cases "ce_infoAlloc E (cl_infos c)")
  case None
  then show ?thesis using client_inv_Free [OF assms(1)] by (simp add: Client_RegisterSendPacketInfo_def)
next
  case (Some a)
  let ?c1 = "NetBuffer_AddRefCount b c"
  have 1: "client_inv Y (add_mset b (add_mset b X)) ?c1" by (rule client_inv_AddRefCount [OF assms(1)]) simp
  obtain now c2 where 2: "client_ask (ce_tickCount E) ?c1 = (now, c2)" by (cases "client_ask (ce_tickCount E) ?c1")
  note i2 = client_inv_ask [OF 2 1]
  let ?info = "\<lparr> ci_buffer = b, ci_retransmissionCount = 0, ci_sendPacketSequence = q,
                 ci_retransmissionTimeStamp = now + ucast (ce_retransmissionThreadSleepMs E) \<rparr>"
  have c2: "cl_infos c2 = cl_infos c" "cl_sendPacketInfoMap c2 = cl_sendPacketInfoMap c" "cl_pendingPacketQueue c2 = cl_pendingPacketQueue c"
    "cl_lastSendPacketSequence c2 = cl_lastSendPacketSequence c"
    using 2 by (auto simp: client_ask_def buffer_op_defs)
  have a: "hp_mem (cl_infos c2) a = None" using client_allocD(2) [OF assms(2) Some] c2(1) by simp
  have free: "a \<notin># info_holders c2" using heap_ok_free [OF memory_okD(2) [OF client_invD(1) [OF i2]] a] by simp
  let ?c3 = "upd_infos (heap_new a ?info) c2"
  have "x \<noteq> a" if "(p, x) \<in> set (cl_sendPacketInfoMap c2)" for p x
    using free that by (force simp: info_holders_def)
  then have "sequences_ok ?c3"
    using client_invD(2) [OF i2] by (auto simp: sequences_ok_def info_sequence_simps)
  then have 3: "client_inv (add_mset a Y) (add_mset b X) ?c3"
    using memory_ok_new_info [of Y ?info "add_mset b X" c2 a] client_invD(1,3,4) [OF i2] a
    by (simp add: client_inv_def received_ok_def semaphore_ok_def)
  have "client_inv Y (add_mset b X) (?c3\<lparr> cl_sendPacketInfoMap := map_insert q a (cl_sendPacketInfoMap ?c3) \<rparr>)"
    by (rule client_inv_map_insert [OF 3]) (use assms(3-6) c2 free in \<open>simp_all add: info_sequence_simps\<close>)
  from client_inv_enqueue [OF this] show ?thesis using Some 2 by (simp add: Client_RegisterSendPacketInfo_def Let_def)
qed

lemma Register_fields [simp]:
  "cl_pendingPacketQueue (Client_RegisterSendPacketInfo E b q c) = cl_pendingPacketQueue c"
  "cl_lastSendPacketSequence (Client_RegisterSendPacketInfo E b q c) = cl_lastSendPacketSequence c"
  "cl_remoteAdvertisedWindow (Client_RegisterSendPacketInfo E b q c) = cl_remoteAdvertisedWindow c"
  "cl_sendEvents (Client_RegisterSendPacketInfo E b q c) = cl_sendEvents c"
  "cl_isStopped (Client_RegisterSendPacketInfo E b q c) = cl_isStopped c" "cl_late (Client_RegisterSendPacketInfo E b q c) = cl_late c"
  "cl_retransmitTargets (Client_RegisterSendPacketInfo E b q c) = cl_retransmitTargets c"
  "cl_recvPacketHoldingQueue (Client_RegisterSendPacketInfo E b q c) = cl_recvPacketHoldingQueue c"
  "cl_consumed (Client_RegisterSendPacketInfo E b q c) = cl_consumed c"
  "cl_nextRecvPacketSequence (Client_RegisterSendPacketInfo E b q c) = cl_nextRecvPacketSequence c"
  by (auto simp: Client_RegisterSendPacketInfo_def buffer_op_defs client_enqueue_def client_ask_def Let_def split: option.split)

lemma Register_keys: "fst ` set (cl_sendPacketInfoMap (Client_RegisterSendPacketInfo E b q c)) \<subseteq> insert q (fst ` set (cl_sendPacketInfoMap c))"
  by (auto simp: Client_RegisterSendPacketInfo_def buffer_op_defs client_enqueue_def client_ask_def Let_def map_insert_def
      set_insort_key split: option.split)

text \<open>The count of unacknowledged packets fits its byte, so a window lets at most 255 packets out.\<close>

lemma outstanding_exact:
  assumes "sequences_ok c"
  shows "unat (client_outstanding c) = length (cl_sendPacketInfoMap c)"
  using assms by (simp add: sequences_ok_def client_outstanding_def unat_of_nat)

lemma outstanding_room:
  assumes "sequences_ok c" "\<not> client_outstanding c \<ge> window"
  shows "length (cl_sendPacketInfoMap c) < unat window" "length (cl_sendPacketInfoMap c) < 255"
  using outstanding_exact [OF assms(1)] assms(2) unat_byte_bound [of window]
  by (simp_all add: not_le word_less_nat_alt)

lemma client_inv_flush:
  "client_inv Y X c \<Longrightarrow> client_alloc_law E \<Longrightarrow> cl_pendingPacketQueue c = q \<Longrightarrow> client_inv Y X (flush_pending E window q c)"
proof (induction E window q c rule: flush_pending.induct)
  case (2 E window sequence b q c)
  show ?case
  proof (cases "client_outstanding c \<ge> window")
    case False
    let ?c = "c\<lparr> cl_pendingPacketQueue := q \<rparr>"
    have s: "sequences_ok c" by (rule client_invD(2) [OF 2(2)])
    have i: "client_inv Y (add_mset b X) ?c"
      using 2(4) by (intro client_inv_move [OF 2(2)])
        (auto simp: info_holders_def queue_holders_def sequences_ok_def received_ok_def semaphore_ok_def)
    have "client_inv Y X (Client_RegisterSendPacketInfo E b sequence ?c)"
      using s 2(4) outstanding_room [OF s False] by (intro client_inv_Register [OF i 2(3)]) (auto simp: sequences_ok_def)
    with 2(1) [OF False this 2(3)] False show ?thesis by simp
  qed (use 2 in simp)
qed simp

lemma flush_fields:
  "cl_isStopped (flush_pending E window q c) = cl_isStopped c \<and> cl_sendEvents (flush_pending E window q c) = cl_sendEvents c \<and>
   cl_retransmitTargets (flush_pending E window q c) = cl_retransmitTargets c \<and>
   cl_lastSendPacketSequence (flush_pending E window q c) = cl_lastSendPacketSequence c \<and>
   cl_late (flush_pending E window q c) = cl_late c"
  by (induction E window q c rule: flush_pending.induct) simp_all

lemma client_inv_TryFlush: "client_inv Y X c \<Longrightarrow> client_alloc_law E \<Longrightarrow> client_inv Y X (Client_TryFlushPendingQueue E c)"
  using client_inv_flush [of Y X c E "cl_pendingPacketQueue c"] by (simp add: Client_TryFlushPendingQueue_def)

lemma client_inv_acknowledge:
  assumes "client_inv Y X c"
  shows "client_inv Y X (client_acknowledge q c)"
proof (cases "map_of (cl_sendPacketInfoMap c) q")
  case (Some a)
  let ?c = "c\<lparr> cl_sendPacketInfoMap := map_erase q (cl_sendPacketInfoMap c) \<rparr>"
  have s: "sequences_ok c" by (rule client_invD(2) [OF assms])
  have m: "mset (map snd (cl_sendPacketInfoMap c)) = add_mset a (mset (map snd (map_erase q (cl_sendPacketInfoMap c))))"
    by (rule map_erase_mset [OF _ Some]) (use s in \<open>simp add: sequences_ok_def\<close>)
  have sub: "set (map_erase q (cl_sendPacketInfoMap c)) \<subseteq> set (cl_sendPacketInfoMap c)"
    "length (map_erase q (cl_sendPacketInfoMap c)) \<le> length (cl_sendPacketInfoMap c)"
    "distinct (map snd (map_erase q (cl_sendPacketInfoMap c)))"
    using s by (auto simp: map_erase_def sequences_ok_def distinct_map_filter)
  have "client_inv (add_mset a Y) X ?c"
  proof (rule client_inv_move [OF assms])
    show "sequences_ok ?c"
      using s sub map_erase_wf [of "cl_sendPacketInfoMap c" q] by (auto simp: sequences_ok_def)
    show "add_mset a Y + info_holders ?c = Y + info_holders c" unfolding info_holders_def m by simp
  qed (simp_all add: queue_holders_def received_ok_def semaphore_ok_def)
  from client_inv_info_Free [OF this] Some show ?thesis by (simp add: client_acknowledge_def)
qed (use assms in \<open>simp add: client_acknowledge_def\<close>)

lemma acknowledge_fields [simp]:
  "cl_late (client_acknowledge q c) = cl_late c"
  "cl_isStopped (client_acknowledge q c) = cl_isStopped c" "cl_sendEvents (client_acknowledge q c) = cl_sendEvents c"
  "cl_retransmitTargets (client_acknowledge q c) = cl_retransmitTargets c"
  "cl_pendingPacketQueue (client_acknowledge q c) = cl_pendingPacketQueue c"
  "cl_lastSendPacketSequence (client_acknowledge q c) = cl_lastSendPacketSequence c"
  "cl_remoteAdvertisedWindow (client_acknowledge q c) = cl_remoteAdvertisedWindow c"
  by (auto simp: client_acknowledge_def split: option.split)

text \<open>Fields no part of the invariant is about.\<close>

lemma client_inv_outside:
  assumes "client_inv Y X c" "cl_infos c' = cl_infos c" "cl_buffers c' = cl_buffers c" "cl_fault c' = cl_fault c"
    "cl_sendPacketInfoMap c' = cl_sendPacketInfoMap c" "cl_retransmitTargets c' = cl_retransmitTargets c"
    "cl_sendBufferQueue c' = cl_sendBufferQueue c" "cl_pendingPacketQueue c' = cl_pendingPacketQueue c"
    "cl_recvPacketHoldingQueue c' = cl_recvPacketHoldingQueue c" "cl_application c' = cl_application c"
    "cl_lastSendPacketSequence c' = cl_lastSendPacketSequence c" "cl_consumed c' = cl_consumed c"
    "cl_nextRecvPacketSequence c' = cl_nextRecvPacketSequence c" "cl_sendEvents c' = cl_sendEvents c"
    "cl_sendSemaphore c' = cl_sendSemaphore c" "cl_late c' = cl_late c"
  shows "client_inv Y X c'"
  by (rule client_inv_move [OF assms(1-4)])
     (use assms(2,5-16) in \<open>simp_all add: info_holders_def queue_holders_def sequences_ok_def received_ok_def semaphore_ok_def\<close>)

lemma client_inv_OnSendReply:
  assumes "client_inv Y X c" "client_alloc_law E"
  shows "client_inv Y X (Client_OnSendReply E p q c)"
proof -
  have "client_inv Y X (c\<lparr> cl_remoteAdvertisedWindow := w, cl_lastAckedSequence := q \<rparr>)"
    "client_inv Y X (c\<lparr> cl_remoteAdvertisedWindow := w, cl_lastAckedSequence := q, cl_isConnected := True,
       cl_serverAliveChecker := ac \<rparr>)" for w ac
    by (rule client_inv_outside [OF assms(1)]; simp)+
  then show ?thesis
    using client_inv_TryFlush [OF client_inv_acknowledge assms(2)] assms(1)
    by (auto simp: Client_OnSendReply_def Let_def split: prod.split)
qed

text \<open>A new packet: its sequence is one more than the last, so it is in no queue.\<close>

lemma new_sequence_fresh:
  assumes "sequences_ok c" "cl_lastSendPacketSequence c \<noteq> - 1" "q = cl_lastSendPacketSequence c + 1"
  shows "q \<notin> fst ` set (cl_sendPacketInfoMap c)" "q \<notin> fst ` set (cl_pendingPacketQueue c)"
    "cl_lastSendPacketSequence c \<le> q"
proof -
  have "cl_lastSendPacketSequence c < q"
    using assms(2) inc_less_eq_self_iff_eq [of "cl_lastSendPacketSequence c"] unfolding assms(3) by (simp add: not_le [symmetric])
  then show "q \<notin> fst ` set (cl_sendPacketInfoMap c)" "q \<notin> fst ` set (cl_pendingPacketQueue c)"
    "cl_lastSendPacketSequence c \<le> q"
    using assms(1) unfolding sequences_ok_def by (auto split: prod.splits)
qed

lemma last_sequence_grows:
  assumes "client_inv Y X c" "cl_lastSendPacketSequence c \<le> q"
  shows "client_inv Y X (c\<lparr> cl_lastSendPacketSequence := q \<rparr>)"
proof (rule client_inv_move [OF assms(1)])
  show "sequences_ok c \<Longrightarrow> sequences_ok (c\<lparr> cl_lastSendPacketSequence := q \<rparr>)"
    using assms(2) unfolding sequences_ok_def by (auto intro: order_trans)
qed (simp_all add: info_holders_def queue_holders_def received_ok_def semaphore_ok_def)

lemma client_inv_push_pending:
  assumes "client_inv Y (add_mset b X) c" "q \<notin> fst ` set (cl_sendPacketInfoMap c)"
    "q \<notin> fst ` set (cl_pendingPacketQueue c)" "q \<le> cl_lastSendPacketSequence c"
  shows "client_inv Y X (c\<lparr> cl_pendingPacketQueue := insort_key fst (q, b) (cl_pendingPacketQueue c) \<rparr>)"
proof (rule client_inv_move [OF assms(1)])
  let ?p = "insort_key fst (q, b) (cl_pendingPacketQueue c)"
  have p: "mset (map fst ?p) = add_mset q (mset (map fst (cl_pendingPacketQueue c)))" by simp
  show "sequences_ok c \<Longrightarrow> sequences_ok (c\<lparr> cl_pendingPacketQueue := ?p \<rparr>)"
  proof -
    assume s: "sequences_ok c"
    have "distinct (map fst (cl_sendPacketInfoMap c) @ map fst ?p)"
      using s assms(2,3) mset_eq_imp_distinct_iff [of "map fst ?p" "q # map fst (cl_pendingPacketQueue c)"] p
        mset_eq_setD [of "map fst ?p" "q # map fst (cl_pendingPacketQueue c)"]
      by (auto simp: sequences_ok_def)
    with s assms(4) show ?thesis by (simp add: sequences_ok_def sorted_insort_key set_insort_key)
  qed
qed (simp_all add: info_holders_def queue_holders_def received_ok_def semaphore_ok_def)

lemma client_inv_SendPacket_buffer:
  assumes "client_inv Y (add_mset b X) c" "client_alloc_law E" "q \<notin> fst ` set (cl_sendPacketInfoMap c)"
    "q \<notin> fst ` set (cl_pendingPacketQueue c)" "q \<le> cl_lastSendPacketSequence c"
    "core \<Longrightarrow> cl_sendPacketInfoMap c = []"
  shows "client_inv Y X (Client_SendPacket_buffer E b q core c)"
proof -
  let ?c1 = "client_encode E b q CLIENT_TO_SERVER core c"
  have i: "client_inv Y (add_mset b X) ?c1" by (rule client_inv_encode [OF assms(1)]) simp
  have "client_inv Y X (?c1\<lparr> cl_pendingPacketQueue := insort_key fst (q, b) (cl_pendingPacketQueue ?c1) \<rparr>)"
    by (rule client_inv_push_pending [OF i]) (use assms(3-5) in simp_all)
  moreover have "client_inv Y X (Client_RegisterSendPacketInfo E b q ?c1)"
    if "core \<or> \<not> client_outstanding ?c1 \<ge> cl_remoteAdvertisedWindow ?c1"
    using that assms(3-6) outstanding_room(2) [OF client_invD(2) [OF i]]
    by (intro client_inv_Register [OF i assms(2)]) auto
  ultimately show ?thesis by (auto simp: Client_SendPacket_buffer_def Let_def)
qed

lemma client_inv_SendPacket:
  assumes "client_inv Y X c" "client_alloc_law E" "cl_lastSendPacketSequence c \<noteq> - 1"
  shows "client_inv Y X (Client_SendPacket E packetId body c)"
proof -
  let ?q = "cl_lastSendPacketSequence c + 1"
  define content where "content = body (nb_write (ce_api E) (le_bytes 4 packetId) (nb_write (ce_api E) (le_bytes 8 ?q)
      (nb_write (ce_api E) [PACKET_TYPE_byte SEND_TYPE] (nb_Alloc (ce_api E)))))"
  obtain b where b: "new_buffer E content c = (Some b, upd_buffers (heap_new b content) c)"
    using new_buffer_total [OF assms(2,1)] by blast
  let ?c = "(upd_buffers (heap_new b content) c)\<lparr> cl_lastSendPacketSequence := ?q \<rparr>"
  note i = client_inv_new_buffer [OF assms(1) b assms(2)]
  note f = new_sequence_fresh [OF client_invD(2) [OF assms(1)] assms(3) refl]
  have "client_inv Y (add_mset b X) ?c" by (rule last_sequence_grows [OF i]) (use f(3) in simp)
  then have "client_inv Y X (Client_SendPacket_buffer E b ?q False ?c)"
    by (rule client_inv_SendPacket_buffer [OF _ assms(2)]) (use f in simp_all)
  then show ?thesis using b by (simp add: Client_SendPacket_def Let_def content_def)
qed

lemma client_inv_SendConnectPacket:
  assumes "client_inv Y X c" "client_alloc_law E" "cl_sendPacketInfoMap c = []" "cl_pendingPacketQueue c = []"
  shows "client_inv Y X (Client_SendConnectPacket E c)"
proof -
  define content where "content = nb_write (ce_api E) (le_bytes 2 (si_sessionId (cl_session c)))
      (nb_write (ce_api E) (le_bytes 8 (0 :: PacketSequence)) (nb_write (ce_api E) [PACKET_TYPE_byte CONNECT_TYPE] (nb_Alloc (ce_api E))))"
  obtain b where b: "new_buffer E content c = (Some b, upd_buffers (heap_new b content) c)"
    using new_buffer_total [OF assms(2,1)] by blast
  have "client_inv Y X (Client_SendPacket_buffer E b 0 True (upd_buffers (heap_new b content) c))"
    by (rule client_inv_SendPacket_buffer [OF client_inv_new_buffer [OF assms(1) b assms(2)] assms(2)])
       (use assms(3,4) in simp_all)
  then show ?thesis using b by (simp add: Client_SendConnectPacket_def Let_def content_def)
qed

lemma client_inv_SendReplyToServer:
  assumes "client_inv Y X c" "client_alloc_law E"
  shows "client_inv Y X (Client_SendReplyToServer E q t c)"
proof -
  define content where "content = nb_write (ce_api E) (le_bytes 8 q) (nb_write (ce_api E) [PACKET_TYPE_byte t] (nb_Alloc (ce_api E)))"
  obtain b where b: "new_buffer E content c = (Some b, upd_buffers (heap_new b content) c)"
    using new_buffer_total [OF assms(2,1)] by blast
  have "client_inv Y X (client_enqueue b (client_encode E b q CLIENT_TO_SERVER_REPLY True (upd_buffers (heap_new b content) c)))"
    by (intro client_inv_enqueue client_inv_encode client_inv_new_buffer [OF assms(1) b assms(2)]) simp
  then show ?thesis using b by (simp add: Client_SendReplyToServer_def Let_def content_def)
qed

lemma client_inv_Disconnect:
  assumes "client_inv Y X c" "client_alloc_law E" "cl_lastSendPacketSequence c \<noteq> - 1"
  shows "client_inv Y X (Client_Disconnect E c)"
proof -
  let ?q = "cl_lastSendPacketSequence c + 1" and ?c1 = "Client_StopServerAliveCheck c"
  have 1: "client_inv Y X ?c1" "client_inv Y X (?c1\<lparr> cl_isConnected := False \<rparr>)"
    by (rule client_inv_outside [OF assms(1)]; simp add: Client_StopServerAliveCheck_def)+
  define content where "content = nb_write (ce_api E) (le_bytes 8 ?q) (nb_write (ce_api E) [PACKET_TYPE_byte DISCONNECT_TYPE] (nb_Alloc (ce_api E)))"
  let ?c0 = "?c1\<lparr> cl_isConnected := False \<rparr>"
  obtain b where b: "new_buffer E content ?c0 = (Some b, upd_buffers (heap_new b content) ?c0)"
    using new_buffer_total [OF assms(2) 1(2)] by blast
  have "client_inv Y (add_mset b X) ((upd_buffers (heap_new b content) ?c0)\<lparr> cl_lastSendPacketSequence := ?q \<rparr>)"
    by (rule last_sequence_grows [OF client_inv_new_buffer [OF 1(2) b assms(2)]])
       (use new_sequence_fresh(3) [OF client_invD(2) [OF assms(1)] assms(3) refl] in \<open>simp add: Client_StopServerAliveCheck_def\<close>)
  then have "client_inv Y (add_mset b X) (client_encode E b ?q CLIENT_TO_SERVER True
      ((upd_buffers (heap_new b content) ?c0)\<lparr> cl_lastSendPacketSequence := ?q \<rparr>))" (is "client_inv Y _ ?c3")
    by (rule client_inv_encode) simp
  then have "client_inv Y X (NetBuffer_Free b ?c3)" "client_inv Y X (client_enqueue b ?c3)"
    using client_inv_Free client_inv_enqueue by blast+
  then show ?thesis
    using 1 b unfolding Client_Disconnect_def Let_def content_def by (simp add: Client_StopServerAliveCheck_def)
qed

section \<open>The threads keep it\<close>

lemma client_inv_DoSend_loop:
  "client_inv Y X c \<Longrightarrow> cl_sendBufferQueue c = q \<Longrightarrow> client_inv Y X (Client_DoSend_loop E q c)"
proof (induction E q c rule: Client_DoSend_loop.induct)
  case (2 E b q c)
  let ?c1 = "c\<lparr> cl_sendBufferQueue := q \<rparr>"
  have i: "client_inv Y (add_mset b X) ?c1"
    using 2(3) by (intro client_inv_move [OF 2(2)])
      (auto simp: info_holders_def queue_holders_def sequences_ok_def received_ok_def semaphore_ok_def)
  obtain p where p: "heap_get b (cl_buffers ?c1) = Some p"
    by (rule heap_ok_live [OF memory_okD(3) [OF client_invD(1) [OF i]], of b]) simp
  have w: "client_inv Y (add_mset b X) (?c1\<lparr> cl_wire := d \<rparr>)" for d by (rule client_inv_outside [OF i]) simp_all
  show ?case
  proof (cases "cl_socketOpen ?c1")
    case True
    then show ?thesis
      using p 2(1) [OF refl, of p, OF _ p refl] client_inv_Free [OF w] by (simp add: Let_def NetBuffer_Free_def)
  next
    case False
    then show ?thesis using client_inv_Free [OF i] by simp
  qed
qed simp

lemma DoSend_loop_fields:
  "cl_sendSemaphore (Client_DoSend_loop E q c) = cl_sendSemaphore c \<and> cl_sendEvents (Client_DoSend_loop E q c) = cl_sendEvents c \<and>
   cl_isStopped (Client_DoSend_loop E q c) = cl_isStopped c \<and> cl_retransmitTargets (Client_DoSend_loop E q c) = cl_retransmitTargets c \<and>
   cl_late (Client_DoSend_loop E q c) = cl_late c \<and>
   cl_sendPacketInfoMap (Client_DoSend_loop E q c) = cl_sendPacketInfoMap c \<and> cl_pendingPacketQueue (Client_DoSend_loop E q c) = cl_pendingPacketQueue c \<and>
   (cl_sendBufferQueue c = q \<longrightarrow> length (cl_sendBufferQueue (Client_DoSend_loop E q c)) \<le> length q - 1)"
proof (induction E q c rule: Client_DoSend_loop.induct)
  case (2 E b q c)
  let ?c1 = "c\<lparr> cl_sendBufferQueue := q \<rparr>"
  show ?case
  proof (cases "cl_socketOpen ?c1")
    case True
    show ?thesis
    proof (cases "heap_get b (cl_buffers ?c1)")
      case None
      then show ?thesis using True by (simp add: client_fault_def)
    next
      case (Some p)
      then show ?thesis using True 2 [OF refl, of p, OF _ Some refl] by (auto simp: Let_def NetBuffer_Free_def)
    qed
  qed (simp add: NetBuffer_Free_def)
qed simp

lemma client_inv_turn:
  assumes "client_inv Y X c"
  shows "client_inv Y X (Client_SendThread_turn E c)"
proof (cases "cl_sendSemaphore c = 0")
  case False
  let ?c = "c\<lparr> cl_sendSemaphore := cl_sendSemaphore c - 1 \<rparr>"
  let ?d = "Client_DoSend_loop E (cl_sendBufferQueue c) c"
  text \<open>The count of the semaphore does not matter to the loop.\<close>
  have comm: "Client_DoSend_loop E q (d\<lparr> cl_sendSemaphore := n \<rparr>) = (Client_DoSend_loop E q d)\<lparr> cl_sendSemaphore := n \<rparr>" for q d n
  proof (induction E q d rule: Client_DoSend_loop.induct)
    case (2 E b q d)
    have flip: "d\<lparr> cl_sendSemaphore := n, cl_sendBufferQueue := q, cl_wire := w, cl_buffers := h \<rparr>
        = d\<lparr> cl_sendBufferQueue := q, cl_wire := w, cl_buffers := h, cl_sendSemaphore := n \<rparr>" for w h by (cases d) simp
    show ?case
      using 2 [OF refl] by (simp add: Let_def NetBuffer_Free_def upd_buffers_def client_fault_def flip split: option.split)
  qed simp
  have eq: "Client_SendThread_turn E c = ?d\<lparr> cl_sendSemaphore := cl_sendSemaphore c - 1 \<rparr>"
    using False by (simp add: Client_SendThread_turn_def Client_DoSend_def comm)
  note f = DoSend_loop_fields [of E "cl_sendBufferQueue c" c]
  show ?thesis
    unfolding eq
  proof (rule client_inv_move [OF client_inv_DoSend_loop [OF assms refl, of E]])
    have "semaphore_ok c" by (rule client_invD(4) [OF assms])
    then show "semaphore_ok (?d\<lparr> cl_sendSemaphore := cl_sendSemaphore c - 1 \<rparr>)"
      using f by (auto simp: semaphore_ok_def)
  qed (simp_all add: info_holders_def queue_holders_def sequences_ok_def received_ok_def)
qed (use assms in \<open>simp add: Client_SendThread_turn_def\<close>)

lemma client_inv_collect:
  assumes "client_inv Y X c" "set m \<subseteq> set (cl_sendPacketInfoMap c)" "distinct (map snd m)"
    "set (cl_retransmitTargets c) \<inter> snd ` set m = {}"
  shows "client_inv Y X (collect_targets m c)"
  using assms
proof (induction m c rule: collect_targets.induct)
  case (2 sequence a m c)
  have a: "a \<in># Y + info_holders c" using 2(4) by (force simp: info_holders_def)
  obtain i where i: "heap_get a (cl_infos c) = Some i"
    by (rule heap_ok_live [OF memory_okD(2) [OF client_invD(1) [OF 2(3)]] a]) simp
  let ?c = "(ClientSendInfo_AddRefCount a c)\<lparr> cl_retransmitTargets := cl_retransmitTargets c @ [a] \<rparr>"
  have "client_inv Y X ?c"
  proof (rule client_inv_move [OF client_inv_info_AddRefCount [OF 2(3) a]])
    show "sequences_ok (ClientSendInfo_AddRefCount a c) \<Longrightarrow> sequences_ok ?c"
      using 2(6) by (simp add: sequences_ok_def ClientSendInfo_AddRefCount_def)
  qed (simp_all add: info_holders_def queue_holders_def received_ok_def semaphore_ok_def ClientSendInfo_AddRefCount_def)
  moreover have "set (cl_retransmitTargets c @ [a]) \<inter> snd ` set m = {}" using 2(5,6) by auto
  ultimately have "client_inv Y X (collect_targets m ?c)" if "\<not> ci_retransmissionTimeStamp i \<ge> cl_nowTick c"
    using that 2(4,5) by (intro 2(2) [OF i]) (simp_all add: ClientSendInfo_AddRefCount_def)
  then show ?case using i 2(1) [OF i] 2(3-6) by auto
qed simp

lemma client_inv_RetransmissionCollect:
  assumes "client_inv Y X c" "cl_retransmitTargets c = []"
  shows "client_inv Y X (Client_RetransmissionCollect c)"
proof -
  have e: "c\<lparr> cl_retransmitTargets := [] \<rparr> = c" using assms(2) by simp
  show ?thesis
    using client_inv_collect [OF assms(1), of "cl_sendPacketInfoMap c"] assms client_invD(2) [OF assms(1)]
    unfolding Client_RetransmissionCollect_def e by (simp add: sequences_ok_def)
qed

lemma client_inv_pop_target:
  "client_inv Y X c \<Longrightarrow> cl_retransmitTargets c = a # rest \<Longrightarrow> client_inv (add_mset a Y) X (c\<lparr> cl_retransmitTargets := rest \<rparr>)"
  by (erule client_inv_move)
     (auto simp: info_holders_def queue_holders_def sequences_ok_def received_ok_def semaphore_ok_def)

lemma client_inv_RetransmissionTarget:
  assumes "client_inv Y X c"
  shows "client_inv Y X (Client_RetransmissionTarget E c)"
proof (cases "cl_retransmitTargets c")
  case (Cons a rest)
  let ?c1 = "c\<lparr> cl_retransmitTargets := rest \<rparr>"
  note i1 = client_inv_pop_target [OF assms Cons]
  have a: "a \<in># add_mset a Y + info_holders ?c1" by simp
  obtain i where i: "heap_get a (cl_infos ?c1) = Some i"
    by (rule heap_ok_live [OF memory_okD(2) [OF client_invD(1) [OF i1]] a])
  let ?n = "ci_retransmissionCount i + 1"
  let ?c2 = "upd_infos (heap_update a (\<lambda>i. i\<lparr> ci_retransmissionCount := ?n \<rparr>)) ?c1"
  have i2: "client_inv (add_mset a Y) X ?c2" by (rule client_inv_update_info [OF i1 a]) simp_all
  have stop: "client_inv (add_mset a Y) X (?c2\<lparr> cl_isConnected := False, cl_threadStopFlag := True \<rparr>)"
    by (rule client_inv_outside [OF i2]) simp_all
  obtain now c3 where 3: "client_ask (ce_tickCount E) ?c2 = (now, c3)" by (cases "client_ask (ce_tickCount E) ?c2")
  let ?c4 = "upd_infos (heap_update a (\<lambda>i. i\<lparr> ci_retransmissionTimeStamp := now + ucast (ce_retransmissionThreadSleepMs E) \<rparr>)) c3"
  have i4: "client_inv (add_mset a Y) X ?c4" by (rule client_inv_update_info [OF client_inv_ask [OF 3 i2]]) simp_all
  have "cl_infos c3 = cl_infos ?c2" using 3 by (auto simp: client_ask_def)
  then have "buffer_of (cl_infos ?c4) a = ci_buffer i"
    using i by (simp add: buffer_of_def heap_get_update)
  moreover have "a \<in># mset_set (set_mset (add_mset a Y + info_holders ?c4))" by simp
  ultimately have "ci_buffer i \<in># info_buffers (add_mset a Y + info_holders ?c4) (cl_infos ?c4)"
    unfolding info_buffers_def by (metis image_eqI set_image_mset)
  then have "client_inv (add_mset a Y) (add_mset (ci_buffer i) X) (NetBuffer_AddRefCount (ci_buffer i) ?c4)"
    by (intro client_inv_AddRefCount [OF i4]) simp
  then have "client_inv (add_mset a Y) X (Client_SendPacket_info i ?c4)"
    unfolding Client_SendPacket_info_def by (rule client_inv_enqueue)
  then show ?thesis
    using Cons i 3 client_inv_info_Free [OF i1] client_inv_info_Free [OF stop] client_inv_info_Free
    by (auto simp: Client_RetransmissionTarget_def Let_def)
qed (use assms in \<open>simp add: Client_RetransmissionTarget_def\<close>)

lemma client_inv_Sleep: "client_inv Y X c \<Longrightarrow> client_inv Y X (Client_SleepRemainingFrameTime E c)"
  by (erule client_inv_outside) (simp_all add: Client_SleepRemainingFrameTime_def client_ask_def)

end
