(* ===== verification/Client_System.thy ===== *)
theory Client_System
  imports Client_Invariant
begin

text \<open>
  The client as a whole: the receive path, the application, start and stop keep the
  invariant, and the threads of the client and the calls of the application are the steps
  of one relation.
\<close>

section \<open>Receiving keeps the invariant\<close>

lemma client_inv_hold:
  assumes "client_inv Y X c" "client_alloc_law E" "b \<in># X"
  shows "client_inv Y X (hold_packet E b t p c)"
proof -
  have hold: "client_inv Y X ((NetBuffer_AddRefCount b (upd_buffers (heap_update b (\<lambda>_. p2)) c))
      \<lparr> cl_recvPacketHoldingQueue := insort_key ri_packetSequence \<lparr> ri_buffer = b, ri_packetSequence = q, ri_packetType = t \<rparr>
          (cl_recvPacketHoldingQueue c) \<rparr>)" (is "client_inv Y X ?h") for p2 q
  proof (rule client_inv_move)
    show "client_inv Y (add_mset b X) (NetBuffer_AddRefCount b (upd_buffers (heap_update b (\<lambda>_. p2)) c))"
      by (rule client_inv_AddRefCount [OF client_inv_update_buffer [OF assms(1,3)]]) (use assms(3) in simp)
    show "X + queue_holders ?h = add_mset b X + queue_holders (NetBuffer_AddRefCount b (upd_buffers (heap_update b (\<lambda>_. p2)) c))"
      by (simp add: queue_holders_def buffer_op_defs)
  qed (simp_all add: info_holders_def sequences_ok_def received_ok_def semaphore_ok_def buffer_op_defs sorted_insort_key)
  show ?thesis
    unfolding hold_packet_def using client_inv_SendReplyToServer [OF hold assms(2)] hold
    by (auto simp: Let_def buffer_op_defs split: prod.split)
qed

lemma client_inv_ProcessRecvPacket:
  assumes "client_inv Y X c" "client_alloc_law E" "b \<in># X"
  shows "client_inv Y X (Client_ProcessRecvPacket E b c)"
proof -
  obtain p where p: "heap_get b (cl_buffers c) = Some p"
    by (rule heap_ok_live [OF memory_okD(3) [OF client_invD(1) [OF assms(1)]], of b]) (use assms(3) in simp)
  have "client_inv Y X (c\<lparr> cl_bufferOverrun := True \<rparr>)" by (rule client_inv_outside [OF assms(1)]) simp_all
  then show ?thesis
    using p client_inv_hold [OF assms] client_inv_OnSendReply [OF assms(1,2)] assms(1)
    by (simp add: Client_ProcessRecvPacket_def Let_def split: prod.split option.split PACKET_TYPE.split bool.split)
qed

lemma client_inv_OnRecvStream:
  "client_inv Y X c \<Longrightarrow> client_alloc_law E \<Longrightarrow> client_inv Y X (Client_OnRecvStream E p n c)"
proof (induction E p n c rule: Client_OnRecvStream.induct)
  case (1 E p n c)
  show ?case
  proof (cases "n > int df_HEADER_SIZE")
    case True
    obtain header p1 where h: "nb_read (ce_api E) df_HEADER_SIZE p = (header, p1)" by (cases "nb_read (ce_api E) df_HEADER_SIZE p")
    let ?p = "(ce_copyToBufferPtr E header (nb_Alloc (ce_api E)))\<lparr> m_iRead := 0 \<rparr>"
    let ?l = "Client_GetPayloadLength ?p"
    obtain b where b: "new_buffer E ?p c = (Some b, upd_buffers (heap_new b ?p) c)" using new_buffer_total [OF 1(3,2)] by blast
    let ?c1 = "upd_buffers (heap_new b ?p) c"
    have i1: "client_inv Y (add_mset b X) ?c1" by (rule client_inv_new_buffer [OF 1(2) b 1(3)])
    obtain payload p2 where r: "nb_read (ce_api E) (unat ?l) p1 = (payload, p2)" by (cases "nb_read (ce_api E) (unat ?l) p1")
    let ?q = "(ce_copyToWriteBufferPtr E payload ?p)\<lparr> m_iRead := of_nat df_HEADER_SIZE, m_iWrite := word_of_int (uint ?l + int df_HEADER_SIZE) \<rparr>"
    let ?c2 = "upd_buffers (heap_update b (\<lambda>_. ?q)) ?c1"
    have "client_inv Y (add_mset b X) (Client_ProcessRecvPacket E b ?c2)"
      by (intro client_inv_ProcessRecvPacket client_inv_update_buffer i1 1(3)) simp_all
    note freed = client_inv_Free [OF this]
    show ?thesis
    proof (cases "?l = 0 \<or> unat ?l > ce_dfDEFAULTSIZE E \<or> uint ?l > n")
      case True
      then show ?thesis using \<open>n > int df_HEADER_SIZE\<close> h b client_inv_Free [OF i1]
        by (subst Client_OnRecvStream.simps) (simp add: Let_def)
    next
      case False
      have "client_inv Y X (Client_OnRecvStream E p2 (n - (uint ?l + int df_HEADER_SIZE)) (NetBuffer_Free b (Client_ProcessRecvPacket E b ?c2)))"
        by (rule 1(1) [OF True refl h [symmetric] refl refl b [symmetric] refl False refl refl r [symmetric] refl refl freed 1(3)])
      then show ?thesis using True False h b r by (subst Client_OnRecvStream.simps) (simp add: Let_def)
    qed
  qed (use 1(2) in \<open>subst Client_OnRecvStream.simps, simp\<close>)
qed

section \<open>Taking packets out\<close>

lemma client_inv_pop_held:
  assumes "client_inv Y X c" "cl_recvPacketHoldingQueue c = h # q"
  shows "client_inv Y (add_mset (ri_buffer h) X) (c\<lparr> cl_recvPacketHoldingQueue := q \<rparr>)"
    "ri_packetSequence h = cl_nextRecvPacketSequence c \<Longrightarrow>
     client_inv Y (add_mset (ri_buffer h) X) (c\<lparr> cl_nextRecvPacketSequence := cl_nextRecvPacketSequence c + 1,
       cl_recvPacketHoldingQueue := q, cl_consumed := cl_consumed c @ [(ri_packetSequence h, ri_packetType h)] \<rparr>)"
proof -
  show "client_inv Y (add_mset (ri_buffer h) X) (c\<lparr> cl_recvPacketHoldingQueue := q \<rparr>)"
    using assms(2) by (intro client_inv_move [OF assms(1)])
      (simp_all add: info_holders_def queue_holders_def sequences_ok_def received_ok_def semaphore_ok_def)
  assume "ri_packetSequence h = cl_nextRecvPacketSequence c"
  then show "client_inv Y (add_mset (ri_buffer h) X) (c\<lparr> cl_nextRecvPacketSequence := cl_nextRecvPacketSequence c + 1,
       cl_recvPacketHoldingQueue := q, cl_consumed := cl_consumed c @ [(ri_packetSequence h, ri_packetType h)] \<rparr>)"
    using assms(2) by (intro client_inv_move [OF assms(1)])
      (simp_all add: info_holders_def queue_holders_def sequences_ok_def received_ok_def semaphore_ok_def add.commute)
qed

lemma client_inv_get_received:
  assumes "get_received q c = (r, c')" "client_inv Y X c" "cl_recvPacketHoldingQueue c = q"
  shows "client_inv Y (case r of None \<Rightarrow> X | Some b \<Rightarrow> add_mset b X) c'"
  using assms
proof (induction q c arbitrary: r c' rule: get_received.induct)
  case (2 h q c)
  note pop = client_inv_pop_held [OF 2(4,5)]
  show ?case
  proof (cases "ri_packetSequence h < cl_nextRecvPacketSequence c")
    case True
    with 2(3) 2(1) [OF True _ client_inv_Free [OF pop(1)]] show ?thesis by (simp add: NetBuffer_Free_def)
  next
    case ge: False
    show ?thesis
    proof (cases "ri_packetSequence h = cl_nextRecvPacketSequence c")
      case True
      let ?c1 = "c\<lparr> cl_nextRecvPacketSequence := cl_nextRecvPacketSequence c + 1, cl_recvPacketHoldingQueue := q,
        cl_consumed := cl_consumed c @ [(ri_packetSequence h, ri_packetType h)] \<rparr>"
      note i = pop(2) [OF True]
      show ?thesis
      proof (cases "ri_packetType h = HEARTBEAT_TYPE")
        case hb: True
        have "get_received q (NetBuffer_Free (ri_buffer h) ?c1) = (r, c')" using 2(3) ge True hb by (simp add: Let_def)
        from 2(2) [OF ge _ refl hb this client_inv_Free [OF i]] True show ?thesis by (simp add: NetBuffer_Free_def)
      next
        case False
        then show ?thesis using 2(3) ge True i by (auto simp: Let_def)
      qed
    next
      case False
      then show ?thesis using 2(3,4) ge by auto
    qed
  qed
qed simp

text \<open>The life of the client that the sending and receiving operations leave alone.\<close>

definition life :: "'k Client \<Rightarrow> bool \<times> bool \<times> bool" where
  "life c = (cl_isStopped c, cl_sendEvents c, cl_late c)"

lemma life_fields [simp]:
  "life (c\<lparr> cl_remoteAdvertisedWindow := x0 \<rparr>) = life c" "life (c\<lparr> cl_lastAckedSequence := x1 \<rparr>) = life c"
  "life (c\<lparr> cl_isConnected := x2 \<rparr>) = life c" "life (c\<lparr> cl_serverAliveChecker := x3 \<rparr>) = life c"
  "life (c\<lparr> cl_lastSendPacketSequence := x4 \<rparr>) = life c" "life (c\<lparr> cl_retransmitTargets := x5 \<rparr>) = life c"
  "life (c\<lparr> cl_nowTick := x6 \<rparr>) = life c" "life (c\<lparr> cl_threadStopFlag := x7 \<rparr>) = life c"
  "life (c\<lparr> cl_recvPacketHoldingQueue := x8 \<rparr>) = life c" "life (c\<lparr> cl_nextRecvPacketSequence := x9 \<rparr>) = life c"
  "life (c\<lparr> cl_consumed := x10 \<rparr>) = life c" "life (c\<lparr> cl_wire := x11 \<rparr>) = life c"
  "life (c\<lparr> cl_bufferOverrun := x12 \<rparr>) = life c" "life (c\<lparr> cl_application := x13 \<rparr>) = life c"
  "life (c\<lparr> cl_pendingPacketQueue := x16 \<rparr>) = life c" "life (c\<lparr> cl_sendPacketInfoMap := x17 \<rparr>) = life c"
  "life (c\<lparr> cl_sendBufferQueue := x14 \<rparr>) = life c" "life (c\<lparr> cl_sendSemaphore := x15 \<rparr>) = life c"
  by (simp_all add: life_def)

lemma life_upd [simp]:
  "life (upd_buffers f c) = life c" "life (upd_infos g c) = life c" "life (NetBuffer_Free b c) = life c"
  "life (NetBuffer_AddRefCount b c) = life c" "life (ClientSendInfo_Free a c) = life c" "life (ClientSendInfo_AddRefCount a c) = life c"
  "life (client_encode E b q d core c) = life c" "life (client_enqueue b c) = life c" "life (client_fault c) = life c"
  "life (Client_RegisterSendPacketInfo E b q c) = life c" "life (client_acknowledge q c) = life c"
  by (simp_all add: life_def buffer_op_defs ClientSendInfo_AddRefCount_def client_enqueue_def client_fault_def)

lemma life_SendPacket_buffer [simp]: "life (Client_SendPacket_buffer E b q core c) = life c"
  using life_upd(7) [of E b q CLIENT_TO_SERVER core c] life_upd(10) [of E b q "client_encode E b q CLIENT_TO_SERVER core c"]
  by (simp add: Client_SendPacket_buffer_def Let_def life_def)

lemma life_new_buffer: "new_buffer E content c = (r, c') \<Longrightarrow> life c' = life c"
  by (auto simp: new_buffer_def split: option.splits)

lemma life_ask: "client_ask f c = (r, c') \<Longrightarrow> life c' = life c"
  by (auto simp: client_ask_def life_def)

lemma life_SendPacket [simp]: "life (Client_SendPacket E packetId body c) = life c"
  by (auto simp: Client_SendPacket_def Let_def split: prod.split option.split dest: life_new_buffer)

lemma life_SendConnectPacket [simp]: "life (Client_SendConnectPacket E c) = life c"
  by (auto simp: Client_SendConnectPacket_def Let_def split: prod.split option.split dest: life_new_buffer)

lemma life_SendReplyToServer [simp]: "life (Client_SendReplyToServer E q t c) = life c"
  by (auto simp: Client_SendReplyToServer_def Let_def split: prod.split option.split dest: life_new_buffer)

lemma life_TryFlush [simp]: "life (Client_TryFlushPendingQueue E c) = life c"
  using flush_fields [of E _ _ c] by (simp add: Client_TryFlushPendingQueue_def life_def)

lemma life_OnSendReply [simp]: "life (Client_OnSendReply E p q c) = life c"
  by (simp add: Client_OnSendReply_def Let_def split: prod.split)

lemma life_Disconnect [simp]: "life (Client_Disconnect E c) = life c"
  by (auto simp: Client_Disconnect_def Client_StopServerAliveCheck_def Let_def split: prod.split option.split dest!: life_new_buffer)

lemma life_DoSend_loop [simp]: "life (Client_DoSend_loop E q c) = life c"
  using DoSend_loop_fields [of E q c] by (simp add: life_def)

lemma life_turn [simp]: "life (Client_SendThread_turn E c) = life c"
  by (simp add: Client_SendThread_turn_def Client_DoSend_def)

lemma life_collect [simp]: "life (collect_targets m c) = life c"
  by (induction m c rule: collect_targets.induct) (simp_all split: option.split)

lemma life_RetransmissionCollect [simp]: "life (Client_RetransmissionCollect c) = life c"
  by (simp add: Client_RetransmissionCollect_def)

lemma life_RetransmissionTarget [simp]: "life (Client_RetransmissionTarget E c) = life c"
  by (auto simp: Client_RetransmissionTarget_def Client_SendPacket_info_def Let_def split: list.split option.split prod.split
      dest: life_ask)

lemma life_Sleep [simp]: "life (Client_SleepRemainingFrameTime E c) = life c"
  by (auto simp: Client_SleepRemainingFrameTime_def split: prod.split dest!: life_ask)

lemma life_hold [simp]: "life (hold_packet E b t p c) = life c"
  by (simp add: hold_packet_def Let_def split: prod.split)

lemma life_ProcessRecvPacket [simp]: "life (Client_ProcessRecvPacket E b c) = life c"
  by (simp add: Client_ProcessRecvPacket_def Let_def split: prod.split option.split PACKET_TYPE.split bool.split)

lemma life_OnRecvStream [simp]: "life (Client_OnRecvStream E p n c) = life c"
proof (induction E p n c rule: Client_OnRecvStream.induct)
  case (1 E p n c)
  show ?case
    by (subst Client_OnRecvStream.simps)
       (auto simp: Let_def 1 split: prod.split option.split dest: life_new_buffer)
qed

lemma life_get_received: "get_received q c = (r, c') \<Longrightarrow> life c' = life c"
  by (induction q c rule: get_received.induct) (auto simp: Let_def split: if_splits)

text \<open>What a packet keeps a datagram keeps.\<close>

lemma OnRecvStream_keeps:
  assumes "\<And>f d. P d \<Longrightarrow> P (upd_buffers f d)" "\<And>d. P d \<Longrightarrow> P (client_fault d)"
    "\<And>E b d. P d \<Longrightarrow> P (Client_ProcessRecvPacket E b d)"
  shows "P c \<Longrightarrow> P (Client_OnRecvStream E p n c)"
proof (induction E p n c rule: Client_OnRecvStream.induct)
  case (1 E p n c)
  obtain header p1 where h: "nb_read (ce_api E) df_HEADER_SIZE p = (header, p1)" by (cases "nb_read (ce_api E) df_HEADER_SIZE p")
  let ?p = "(ce_copyToBufferPtr E header (nb_Alloc (ce_api E)))\<lparr> m_iRead := 0 \<rparr>"
  let ?l = "Client_GetPayloadLength ?p"
  obtain payload p2 where r: "nb_read (ce_api E) (unat ?l) p1 = (payload, p2)" by (cases "nb_read (ce_api E) (unat ?l) p1")
  let ?q = "(ce_copyToWriteBufferPtr E payload ?p)\<lparr> m_iRead := of_nat df_HEADER_SIZE, m_iWrite := word_of_int (uint ?l + int df_HEADER_SIZE) \<rparr>"
  obtain ob c1 where b: "new_buffer E ?p c = (ob, c1)" by (cases "new_buffer E ?p c")
  have c1: "P c1" using b assms(1) [OF 1(2)] 1(2) by (auto simp: new_buffer_def split: option.splits)
  have go: "P (Client_OnRecvStream E p2 (n - (uint ?l + int df_HEADER_SIZE))
      (NetBuffer_Free b (Client_ProcessRecvPacket E b (upd_buffers (heap_update b (\<lambda>_. ?q)) c1))))"
    if "n > int df_HEADER_SIZE" "ob = Some b" "\<not> (?l = 0 \<or> unat ?l > ce_dfDEFAULTSIZE E \<or> uint ?l > n)" for b
    by (rule 1(1) [OF that(1) refl h [symmetric] refl refl b [symmetric] that(2) that(3) refl refl r [symmetric] refl refl])
       (unfold NetBuffer_Free_def, intro assms(1,3) c1)
  show ?case
    by (subst Client_OnRecvStream.simps)
       (use go in \<open>simp add: h b r c1 1(2) Let_def assms(2) assms(1) [OF c1] NetBuffer_Free_def split: option.split\<close>)
qed

text \<open>Receiving leaves the targets of the retransmission thread alone.\<close>

lemma targets_memory [simp]:
  "cl_retransmitTargets (upd_buffers f c) = cl_retransmitTargets c" "cl_retransmitTargets (upd_infos g c) = cl_retransmitTargets c"
  "cl_retransmitTargets (NetBuffer_Free b c) = cl_retransmitTargets c" "cl_retransmitTargets (NetBuffer_AddRefCount b c) = cl_retransmitTargets c"
  "cl_retransmitTargets (ClientSendInfo_Free a c) = cl_retransmitTargets c"
  "cl_retransmitTargets (client_enqueue b c) = cl_retransmitTargets c" "cl_retransmitTargets (client_fault c) = cl_retransmitTargets c"
  "cl_retransmitTargets (client_encode E b q d core c) = cl_retransmitTargets c"
  "cl_retransmitTargets (client_acknowledge q c) = cl_retransmitTargets c"
  by (auto simp: upd_buffers_def upd_infos_def buffer_op_defs ClientSendInfo_Free_def client_fault_def client_enqueue_def
      client_encode_def client_acknowledge_def Let_def split: option.split prod.split)

lemma targets_receive [simp]:
  "cl_retransmitTargets (Client_TryFlushPendingQueue E c) = cl_retransmitTargets c"
  "cl_retransmitTargets (Client_SendReplyToServer E q r c) = cl_retransmitTargets c"
  "cl_retransmitTargets (Client_OnSendReply E p q c) = cl_retransmitTargets c"
  "cl_retransmitTargets (hold_packet E b r p c) = cl_retransmitTargets c"
proof -
  show flush: "cl_retransmitTargets (Client_TryFlushPendingQueue E c) = cl_retransmitTargets c" for c :: "'a Client"
    using flush_fields [of E _ _ c] by (simp add: Client_TryFlushPendingQueue_def)
  show reply: "cl_retransmitTargets (Client_SendReplyToServer E q r c) = cl_retransmitTargets c" for q r and c :: "'a Client"
    by (auto simp: Client_SendReplyToServer_def new_buffer_def Let_def split: prod.split option.split)
  show "cl_retransmitTargets (Client_OnSendReply E p q c) = cl_retransmitTargets c"
    by (simp add: Client_OnSendReply_def flush Let_def split: prod.split)
  show "cl_retransmitTargets (hold_packet E b r p c) = cl_retransmitTargets c"
    by (simp add: hold_packet_def reply Let_def split: prod.split)
qed

lemma targets_ProcessRecvPacket [simp]: "cl_retransmitTargets (Client_ProcessRecvPacket E b c) = cl_retransmitTargets c"
  by (simp add: Client_ProcessRecvPacket_def Let_def split: prod.split option.split PACKET_TYPE.split bool.split)

lemma targets_OnRecvStream [simp]: "cl_retransmitTargets (Client_OnRecvStream E p n c) = cl_retransmitTargets c"
  by (rule OnRecvStream_keeps [of "\<lambda>d. cl_retransmitTargets d = cl_retransmitTargets c"]) simp_all

section \<open>Stopping\<close>

lemma client_inv_retransmission_end:
  "client_inv Y X c \<Longrightarrow> cl_retransmitTargets c = l \<Longrightarrow> client_inv Y X (retransmission_end l c) \<and>
   cl_retransmitTargets (retransmission_end l c) = [] \<and> life (retransmission_end l c) = life c"
proof (induction l c rule: retransmission_end.induct)
  case (2 a rest c)
  have "client_inv Y X (ClientSendInfo_Free a (c\<lparr> cl_retransmitTargets := rest \<rparr>))"
    by (rule client_inv_info_Free [OF client_inv_pop_target [OF 2(2,3)]])
  with 2(1) show ?case by simp
qed simp

lemma send_turns_empty:
  "client_inv Y X c \<Longrightarrow> n = cl_sendSemaphore c \<Longrightarrow> cl_sendEvents c \<Longrightarrow>
   client_inv Y X (send_turns n E c) \<and> (\<not> cl_late c \<longrightarrow> cl_sendBufferQueue (send_turns n E c) = []) \<and>
   cl_retransmitTargets (send_turns n E c) = cl_retransmitTargets c \<and> life (send_turns n E c) = life c"
proof (induction n E c rule: send_turns.induct)
  case (1 E c)
  then show ?case using client_invD(4) [of Y X c] by (simp add: semaphore_ok_def)
next
  case (2 n E c)
  let ?c = "Client_SendThread_turn E c"
  note f = DoSend_loop_fields [of E "cl_sendBufferQueue c" "c\<lparr> cl_sendSemaphore := n \<rparr>"]
  have eq: "?c = Client_DoSend_loop E (cl_sendBufferQueue c) (c\<lparr> cl_sendSemaphore := n \<rparr>)"
    using 2(3) by (simp add: Client_SendThread_turn_def Client_DoSend_def flip: 2(3))
  have "n = cl_sendSemaphore ?c" "cl_sendEvents ?c" "cl_retransmitTargets ?c = cl_retransmitTargets c" "cl_late ?c = cl_late c"
    "life ?c = life c"
    unfolding eq using f 2(4) by simp_all
  with 2(1) [OF client_inv_turn [OF 2(2)]] show ?case by simp
qed

lemma client_inv_SendThread_stop:
  assumes "client_inv Y X c" "cl_sendEvents c"
  shows "client_inv Y X (Client_SendThread_stop E c)" "\<not> cl_late c \<Longrightarrow> cl_sendBufferQueue (Client_SendThread_stop E c) = []"
    "cl_retransmitTargets (Client_SendThread_stop E c) = cl_retransmitTargets c" "life (Client_SendThread_stop E c) = life c"
proof -
  let ?d = "send_turns (cl_sendSemaphore c) E c"
  note s = send_turns_empty [OF assms(1) refl assms(2), of E]
  note f = DoSend_loop_fields [of E "cl_sendBufferQueue ?d" ?d]
  show "client_inv Y X (Client_SendThread_stop E c)"
    unfolding Client_SendThread_stop_def Client_DoSend_def by (rule client_inv_DoSend_loop [OF conjunct1 [OF s] refl])
  show "\<not> cl_late c \<Longrightarrow> cl_sendBufferQueue (Client_SendThread_stop E c) = []"
    "cl_retransmitTargets (Client_SendThread_stop E c) = cl_retransmitTargets c" "life (Client_SendThread_stop E c) = life c"
    using s f by (simp_all add: Client_SendThread_stop_def Client_DoSend_def)
qed

text \<open>A late datagram: afterwards the queue has what it put there, and nothing when there was none.\<close>

lemma client_inv_late_datagram:
  assumes "client_inv Y X c" "client_alloc_law E"
  shows "client_inv Y X (late_datagram E c)" "cl_sendEvents (late_datagram E c) = cl_sendEvents c"
    "\<not> cl_late (late_datagram E c) \<Longrightarrow> \<not> cl_late c \<and> cl_sendBufferQueue (late_datagram E c) = cl_sendBufferQueue c"
    "cl_isStopped (late_datagram E c) = cl_isStopped c" "cl_retransmitTargets (late_datagram E c) = cl_retransmitTargets c"
proof -
  obtain late c1 where q: "client_ask (ce_lateDatagram E) c = (late, c1)" by (cases "client_ask (ce_lateDatagram E) c")
  have c1: "c1 = c\<lparr> cl_query := cl_query c + 1 \<rparr>" using q by (simp add: client_ask_def)
  have i1: "client_inv Y X c1" by (rule client_inv_outside [OF assms(1)]) (simp_all add: c1)
  have i2: "client_inv Y X (c1\<lparr> cl_late := True \<rparr>)"
    by (rule client_inv_move [OF i1]) (simp_all add: info_holders_def queue_holders_def sequences_ok_def received_ok_def semaphore_ok_def)
  have l: "late_datagram E c = (case late of None \<Rightarrow> c1
      | Some (b, n) \<Rightarrow> Client_OnRecvStream E b n (c1\<lparr> cl_late := True \<rparr>))" by (simp add: late_datagram_def q)
  have f: "life (Client_OnRecvStream E b n (c1\<lparr> cl_late := True \<rparr>)) = (cl_isStopped c, cl_sendEvents c, True)" for b n
    using life_OnRecvStream [of E b n "c1\<lparr> cl_late := True \<rparr>"] by (simp add: life_def c1)
  show "client_inv Y X (late_datagram E c)"
    unfolding l using i1 client_inv_OnRecvStream [OF i2 assms(2)] by (simp split: option.split)
  show "cl_sendEvents (late_datagram E c) = cl_sendEvents c" "cl_isStopped (late_datagram E c) = cl_isStopped c"
    "cl_retransmitTargets (late_datagram E c) = cl_retransmitTargets c"
    "\<not> cl_late (late_datagram E c) \<Longrightarrow> \<not> cl_late c \<and> cl_sendBufferQueue (late_datagram E c) = cl_sendBufferQueue c"
    unfolding l using f by (auto simp: c1 life_def split: option.splits)
qed

lemma client_inv_JoinThreads:
  assumes "client_inv Y X c" "cl_sendEvents c" "client_alloc_law E"
  shows "client_inv Y X (Client_JoinThreads E c)" "cl_sendEvents (Client_JoinThreads E c)"
    "\<not> cl_late (Client_JoinThreads E c) \<Longrightarrow> cl_sendBufferQueue (Client_JoinThreads E c) = []"
    "cl_isStopped (Client_JoinThreads E c) = cl_isStopped c" "cl_retransmitTargets (Client_JoinThreads E c) = []"
proof -
  let ?c1 = "Client_StopServerAliveCheck c"
  have 1: "client_inv Y X ?c1" by (rule client_inv_outside [OF assms(1)]) (simp_all add: Client_StopServerAliveCheck_def)
  note 2 = client_inv_retransmission_end [OF 1 refl]
  let ?c2 = "retransmission_end (cl_retransmitTargets ?c1) ?c1"
  have l2: "life ?c2 = life c" using 2 by (simp add: Client_StopServerAliveCheck_def life_def)
  then have e: "cl_sendEvents ?c2" using assms(2) by (simp add: life_def)
  note 3 = client_inv_SendThread_stop [OF conjunct1 [OF 2] e, of E]
  note 4 = client_inv_late_datagram [OF 3(1) assms(3)]
  show "client_inv Y X (Client_JoinThreads E c)" "cl_sendEvents (Client_JoinThreads E c)"
    "\<not> cl_late (Client_JoinThreads E c) \<Longrightarrow> cl_sendBufferQueue (Client_JoinThreads E c) = []"
    "cl_isStopped (Client_JoinThreads E c) = cl_isStopped c" "cl_retransmitTargets (Client_JoinThreads E c) = []"
    using 4 3 2 e l2 by (auto simp: Client_JoinThreads_def Let_def life_def)
qed

lemma client_inv_free_send_infos:
  "client_inv Y X c \<Longrightarrow> cl_sendPacketInfoMap c = m \<Longrightarrow> client_inv Y X (free_send_infos m c) \<and>
   cl_sendPacketInfoMap (free_send_infos m c) = [] \<and> cl_sendBufferQueue (free_send_infos m c) = cl_sendBufferQueue c \<and>
   cl_retransmitTargets (free_send_infos m c) = cl_retransmitTargets c \<and> life (free_send_infos m c) = life c"
proof (induction m c rule: free_send_infos.induct)
  case (1 c)
  then show ?case by (auto intro: client_inv_outside simp: life_def)
next
  case (2 sequence a m c)
  have "client_inv (add_mset a Y) X (c\<lparr> cl_sendPacketInfoMap := m \<rparr>)"
    using 2(3) by (intro client_inv_move [OF 2(2)])
      (auto simp: info_holders_def queue_holders_def sequences_ok_def received_ok_def semaphore_ok_def)
  from 2(1) [OF client_inv_info_Free [OF this]] show ?case by simp
qed

lemma client_inv_free_pending:
  "client_inv Y X c \<Longrightarrow> cl_pendingPacketQueue c = q \<Longrightarrow> client_inv Y X (free_pending q c) \<and>
   cl_pendingPacketQueue (free_pending q c) = [] \<and> cl_sendPacketInfoMap (free_pending q c) = cl_sendPacketInfoMap c \<and>
   cl_sendBufferQueue (free_pending q c) = cl_sendBufferQueue c \<and>
   cl_retransmitTargets (free_pending q c) = cl_retransmitTargets c \<and> life (free_pending q c) = life c"
proof (induction q c rule: free_pending.induct)
  case (2 sequence b q c)
  have "client_inv Y (add_mset b X) (c\<lparr> cl_pendingPacketQueue := q \<rparr>)"
    using 2(3) by (intro client_inv_move [OF 2(2)])
      (auto simp: info_holders_def queue_holders_def sequences_ok_def received_ok_def semaphore_ok_def)
  from 2(1) [OF client_inv_Free [OF this]] show ?case by (simp add: NetBuffer_Free_def)
qed simp

text \<open>A stopped client has nothing left but the packets the application can still take, and what late datagrams have queued.\<close>

definition client_idle :: "'k Client \<Rightarrow> bool" where
  "client_idle c \<longleftrightarrow> cl_sendPacketInfoMap c = [] \<and> cl_pendingPacketQueue c = [] \<and> (\<not> cl_late c \<longrightarrow> cl_sendBufferQueue c = []) \<and>
     cl_retransmitTargets c = [] \<and> \<not> cl_sendEvents c"

lemma client_inv_Stop:
  assumes "client_inv Y X c" "\<not> cl_isStopped c" "cl_sendEvents c" "client_alloc_law E"
  shows "client_inv Y X (Client_Stop E c)" "client_idle (Client_Stop E c)"
proof -
  let ?c1 = "c\<lparr> cl_isStopped := True, cl_threadStopFlag := True, cl_socketOpen := False \<rparr>"
  have 1: "client_inv Y X ?c1" by (rule client_inv_outside [OF assms(1)]) simp_all
  note j = client_inv_JoinThreads [OF 1 _ assms(4)]
  let ?c2 = "(Client_JoinThreads E ?c1)\<lparr> cl_sendEvents := False, cl_sendSemaphore := 0 \<rparr>"
  have 2: "client_inv Y X ?c2"
    by (rule client_inv_move [OF j(1)])
       (use assms(3) in \<open>simp_all add: info_holders_def queue_holders_def sequences_ok_def received_ok_def semaphore_ok_def\<close>)
  note 3 = client_inv_free_send_infos [OF 2 refl]
  let ?c3 = "free_send_infos (cl_sendPacketInfoMap ?c2) ?c2"
  note 4 = client_inv_free_pending [OF conjunct1 [OF 3] refl]
  let ?c4 = "free_pending (cl_pendingPacketQueue ?c3) ?c3"
  have r: "client_inv Y X (Client_ReleaseClientProcessReference ?c4)"
    by (rule client_inv_outside [OF conjunct1 [OF 4]]) (simp_all add: Client_ReleaseClientProcessReference_def Let_def)
  have stop: "Client_Stop E c = (Client_ReleaseClientProcessReference ?c4)\<lparr> cl_session :=
      (cl_session (Client_ReleaseClientProcessReference ?c4))\<lparr> si_sessionKeyHandle := None, si_keyObjectBuffer := False \<rparr> \<rparr>"
    using assms(2) by (simp add: Client_Stop_def Let_def)
  show "client_inv Y X (Client_Stop E c)" unfolding stop by (rule client_inv_outside [OF r]) simp_all
  have "life ?c4 = (cl_isStopped (Client_JoinThreads E ?c1), False, cl_late (Client_JoinThreads E ?c1))"
    using 3 4 by (simp add: life_def)
  then show "client_idle (Client_Stop E c)"
    unfolding stop using 3 4 j(3,5) assms(3) by (simp add: client_idle_def life_def Client_ReleaseClientProcessReference_def Let_def)
qed

text \<open>The client when \<open>Stop\<close> has joined every thread but the receive thread.\<close>

definition senders_joined :: "'k ClientEnv \<Rightarrow> 'k Client \<Rightarrow> 'k Client" where
  "senders_joined E c =
     (let c1 = Client_StopServerAliveCheck (c\<lparr> cl_isStopped := True, cl_threadStopFlag := True, cl_socketOpen := False \<rparr>)
      in Client_SendThread_stop E (retransmission_end (cl_retransmitTargets c1) c1))"

lemma Stop_late_queue:
  assumes "client_inv Y X c" "\<not> cl_isStopped c" "cl_sendEvents c" "client_alloc_law E" "\<not> cl_late c"
  shows "cl_sendBufferQueue (senders_joined E c) = []"
    "cl_sendBufferQueue (Client_Stop E c) = cl_sendBufferQueue (late_datagram E (senders_joined E c))"
proof -
  let ?c0 = "c\<lparr> cl_isStopped := True, cl_threadStopFlag := True, cl_socketOpen := False \<rparr>"
  let ?c1 = "Client_StopServerAliveCheck ?c0"
  let ?c2 = "retransmission_end (cl_retransmitTargets ?c1) ?c1"
  let ?d = "Client_SendThread_stop E ?c2"
  have 1: "client_inv Y X ?c1" by (rule client_inv_outside [OF assms(1)]) (simp_all add: Client_StopServerAliveCheck_def)
  note 2 = client_inv_retransmission_end [OF 1 refl]
  have l2: "cl_sendEvents ?c2" "\<not> cl_late ?c2"
    using 2 assms(3,5) by (simp_all add: Client_StopServerAliveCheck_def life_def)
  note 3 = client_inv_SendThread_stop(1,2) [OF conjunct1 [OF 2] l2(1), of E]
  have infos: "cl_sendBufferQueue (free_send_infos m c') = cl_sendBufferQueue c'" for m and c' :: "'a Client"
    by (induction m c' rule: free_send_infos.induct) simp_all
  have pending: "cl_sendBufferQueue (free_pending m c') = cl_sendBufferQueue c'" for m and c' :: "'a Client"
    by (induction m c' rule: free_pending.induct) (simp_all add: NetBuffer_Free_def)
  have d: "senders_joined E c = ?d" by (simp add: senders_joined_def Let_def)
  then show "cl_sendBufferQueue (Client_Stop E c) = cl_sendBufferQueue (late_datagram E (senders_joined E c))"
    using assms(2) by (simp add: Client_Stop_def Client_JoinThreads_def Let_def Client_ReleaseClientProcessReference_def infos pending)
  show "cl_sendBufferQueue (senders_joined E c) = []" using 3(2) l2(2) unfolding d by blast
qed

lemma Stop_isStopped: "cl_isStopped (Client_Stop E c)"
proof (cases "cl_isStopped c")
  case False
  have loops: "cl_isStopped (retransmission_end l c1) = cl_isStopped c1" for l and c1 :: "'a Client"
    by (induction l c1 rule: retransmission_end.induct) simp_all
  have infos: "cl_isStopped (free_send_infos m c1) = cl_isStopped c1" for m and c1 :: "'a Client"
    by (induction m c1 rule: free_send_infos.induct) simp_all
  have pending: "cl_isStopped (free_pending m c1) = cl_isStopped c1" for m and c1 :: "'a Client"
    by (induction m c1 rule: free_pending.induct) (simp_all add: NetBuffer_Free_def)
  have turns: "cl_isStopped (send_turns n E' c1) = cl_isStopped c1" for n E' and c1 :: "'a Client"
    by (induction n E' c1 rule: send_turns.induct)
       (simp_all add: Client_SendThread_turn_def Client_DoSend_def DoSend_loop_fields)
  have stream: "cl_isStopped (Client_OnRecvStream E' b n c1) = cl_isStopped c1" for E' b n and c1 :: "'a Client"
    using life_OnRecvStream [of E' b n c1] by (simp add: life_def)
  have late: "cl_isStopped (late_datagram E' c1) = cl_isStopped c1" for E' and c1 :: "'a Client"
    by (simp add: late_datagram_def client_ask_def stream split: option.split)
  show ?thesis using False
    by (simp add: Client_Stop_def Let_def Client_ReleaseClientProcessReference_def Client_JoinThreads_def loops infos pending late
        Client_SendThread_stop_def Client_DoSend_def DoSend_loop_fields turns Client_StopServerAliveCheck_def)
qed (simp add: Client_Stop_def)

section \<open>Starting\<close>

definition client_ok :: "'k Client \<Rightarrow> bool" where
  "client_ok c \<longleftrightarrow> client_inv {#} {#} c \<and> (cl_isStopped c \<longrightarrow> client_idle c) \<and> (\<not> cl_isStopped c \<longrightarrow> cl_sendEvents c)"

lemma client_inv_control:
  assumes "client_inv Y X c" "client_idle c"
  shows "client_inv Y X (c\<lparr> cl_sendEvents := e, cl_sendSemaphore := 0, cl_nowTick := tick, cl_retransmitTargets := [] \<rparr>)"
    "client_inv Y X (c\<lparr> cl_sendEvents := False, cl_sendSemaphore := 0 \<rparr>)"
  using assms(2)
  by (intro client_inv_move [OF assms(1)];
      simp add: client_idle_def info_holders_def queue_holders_def sequences_ok_def received_ok_def semaphore_ok_def)+

text \<open>The parts of a start that touch only what the invariant is not about.\<close>

definition starting :: "'k Client \<Rightarrow> bool" where
  "starting c \<longleftrightarrow> client_inv {#} {#} c \<and> client_idle c \<and> cl_isStopped c"

lemma starting_outside:
  assumes "starting c" "cl_infos c' = cl_infos c" "cl_buffers c' = cl_buffers c" "cl_fault c' = cl_fault c"
    "cl_sendPacketInfoMap c' = cl_sendPacketInfoMap c" "cl_retransmitTargets c' = cl_retransmitTargets c"
    "cl_sendBufferQueue c' = cl_sendBufferQueue c" "cl_pendingPacketQueue c' = cl_pendingPacketQueue c"
    "cl_recvPacketHoldingQueue c' = cl_recvPacketHoldingQueue c" "cl_application c' = cl_application c"
    "cl_lastSendPacketSequence c' = cl_lastSendPacketSequence c" "cl_consumed c' = cl_consumed c"
    "cl_nextRecvPacketSequence c' = cl_nextRecvPacketSequence c" "cl_sendEvents c' = cl_sendEvents c"
    "cl_sendSemaphore c' = cl_sendSemaphore c" "cl_isStopped c' = cl_isStopped c" "cl_late c' = cl_late c"
  shows "starting c'"
  using assms client_inv_outside [of "{#}" "{#}" c c'] by (simp add: starting_def client_idle_def)

lemma starting_ask: "starting c \<Longrightarrow> client_ask f c = (r, c') \<Longrightarrow> starting c'"
  by (erule starting_outside) (auto simp: client_ask_def)

lemma starting_Release: "starting c \<Longrightarrow> starting (Client_ReleaseClientProcessReference c)"
  by (erule starting_outside) (simp_all add: Client_ReleaseClientProcessReference_def Let_def)

lemma starting_Acquire: "starting c \<Longrightarrow> Client_AcquireClientProcessReference E c = (r, c') \<Longrightarrow> starting c'"
  by (erule starting_outside)
     (auto simp: Client_AcquireClientProcessReference_def client_ask_def split: if_splits)

lemma starting_GetSession: "starting c \<Longrightarrow> Client_RunGetSessionFromServer E c = (r, c') \<Longrightarrow> starting c'"
  using same_but_session_GetSession [of E c r c'] by (auto simp: same_but_session_def intro: starting_outside)

lemma starting_RunThreads:
  assumes "starting c" "Client_RunThreads E c = (r, c')"
  shows "if r then client_inv {#} {#} c' \<and> cl_sendEvents c' \<and> cl_sendPacketInfoMap c' = [] \<and> cl_pendingPacketQueue c' = []
         else starting c'"
proof -
  have i: "client_inv {#} {#} c" "client_idle c" "cl_isStopped c" using assms(1) by (simp_all add: starting_def)
  obtain ok c1 where 1: "client_ask (ce_createSendEvents E) c = (ok, c1)" by (cases "client_ask (ce_createSendEvents E) c")
  have s1: "starting c1" by (rule starting_ask [OF assms(1) 1])
  then have i1: "client_inv {#} {#} c1" "client_idle c1" "cl_isStopped c1" by (simp_all add: starting_def)
  obtain tick c2 where 2: "client_ask (ce_tickCount E) c1 = (tick, c2)" by (cases "client_ask (ce_tickCount E) c1")
  have "starting c2" by (rule starting_ask [OF s1 2])
  then have i2: "client_inv {#} {#} c2" "client_idle c2" by (simp_all add: starting_def)
  show ?thesis
  proof (cases ok)
    case True
    then have "r" "c' = c2\<lparr> cl_sendEvents := True, cl_sendSemaphore := 0, cl_nowTick := tick, cl_retransmitTargets := [] \<rparr>"
      using assms(2) 1 2 by (simp_all add: Client_RunThreads_def)
    then show ?thesis using client_inv_control(1) [OF i2] i2(2) by (simp add: client_idle_def)
  next
    case False
    then have "\<not> r" "c' = c1\<lparr> cl_sendEvents := False, cl_sendSemaphore := 0 \<rparr>"
      using assms(2) 1 2 by (simp_all add: Client_RunThreads_def)
    then show ?thesis using client_inv_control(2) [OF i1(1,2)] i1 by (simp add: starting_def client_idle_def)
  qed
qed

lemma Start_ok:
  assumes "Client_Start E c = (ok, c')" "client_ok c" "cl_isStopped c" "client_alloc_law E"
  shows "client_ok c'"
proof -
  let ?c0 = "c\<lparr> cl_threadStopFlag := False, cl_isConnected := False \<rparr>"
  have s: "starting c" using assms(2,3) by (simp add: client_ok_def starting_def)
  have s0: "starting ?c0" by (rule starting_outside [OF s]) simp_all
  have fin: "client_ok d" if "starting d" for d :: "'a Client" using that by (simp add: client_ok_def starting_def)
  obtain o1 c1 where 1: "client_ask (ce_readOptionFile E) ?c0 = (o1, c1)" by (cases "client_ask (ce_readOptionFile E) ?c0")
  note s1 = starting_ask [OF s0 1]
  obtain o2 c2 where 2: "Client_AcquireClientProcessReference E c1 = (o2, c2)" by (cases "Client_AcquireClientProcessReference E c1")
  note s2 = starting_Acquire [OF s1 2]
  obtain o3 c3 where 3: "Client_RunGetSessionFromServer E c2 = (o3, c3)" by (cases "Client_RunGetSessionFromServer E c2")
  note s3 = starting_GetSession [OF s2 3]
  obtain o4 c4 where 4: "client_ask (ce_createRUDPSocket E) c3 = (o4, c4)" by (cases "client_ask (ce_createRUDPSocket E) c3")
  note s4 = starting_ask [OF s3 4]
  have s4': "starting (c4\<lparr> cl_socketOpen := True \<rparr>)" by (rule starting_outside [OF s4]) simp_all
  obtain o5 c5 where 5: "Client_RunThreads E (c4\<lparr> cl_socketOpen := True \<rparr>) = (o5, c5)"
    by (cases "Client_RunThreads E (c4\<lparr> cl_socketOpen := True \<rparr>)")
  note r = starting_RunThreads [OF s4' 5]
  have close: "starting (c5\<lparr> cl_socketOpen := False \<rparr>)" if "\<not> o5"
    using r that starting_outside [of c5 "c5\<lparr> cl_socketOpen := False \<rparr>"] by simp
  let ?c6 = "if ce_ShouldSendConnectPacketOnStart E then Client_SendConnectPacket E c5 else c5"
  have run: "client_ok (?c6\<lparr> cl_isStopped := False \<rparr>)" if "o5"
  proof -
    have i: "client_inv {#} {#} ?c6" using r that client_inv_SendConnectPacket [OF _ assms(4)] by simp
    have "cl_sendEvents ?c6" using r that life_SendConnectPacket [of E c5] by (simp add: life_def)
    then show ?thesis using client_inv_outside [OF i, of "?c6\<lparr> cl_isStopped := False \<rparr>"] by (simp add: client_ok_def)
  qed
  show ?thesis
    using assms(1) 1 2 3 4 5 fin s1 s2 starting_Release [OF s3] starting_Release [OF s4] starting_Release [OF close] run
    by (auto simp: Client_Start_def Let_def split: if_splits)
qed

section \<open>The step relation\<close>

text \<open>Steps of a running client are guarded by what the threads check and by the
  documentation: the application does not send after \<open>Stop\<close>. A sequence number space of 64
  bits is not used up. A start runs as one step, and so does a datagram.\<close>

inductive client_step :: "'k ClientEnv \<Rightarrow> 'k Client \<Rightarrow> 'k Client \<Rightarrow> bool" for E where
  client_start: "cl_isStopped c \<Longrightarrow> Client_Start E c = (ok, c') \<Longrightarrow> client_step E c c'"
| client_send: "\<not> cl_isStopped c \<Longrightarrow> cl_lastSendPacketSequence c \<noteq> - 1 \<Longrightarrow> client_step E c (Client_SendPacket E packetId body c)"
| client_receive: "\<not> cl_isStopped c \<Longrightarrow> \<not> cl_threadStopFlag c \<Longrightarrow> client_step E c (Client_OnRecvStream E recvBuffer bytesReceived c)"
| client_take: "Client_GetReceivedPacket c = (r, c') \<Longrightarrow>
     client_step E c (c'\<lparr> cl_application := cl_application c' @ (case r of None \<Rightarrow> [] | Some b \<Rightarrow> [b]) \<rparr>)"
| client_free: "cl_application c = xs @ b # ys \<Longrightarrow> client_step E c (NetBuffer_Free b (c\<lparr> cl_application := xs @ ys \<rparr>))"
| client_sending: "\<not> cl_isStopped c \<Longrightarrow> client_step E c (Client_SendThread_turn E c)"
| client_collect: "\<not> cl_isStopped c \<Longrightarrow> cl_retransmitTargets c = [] \<Longrightarrow> client_step E c (Client_RetransmissionCollect c)"
| client_retransmit: "\<not> cl_isStopped c \<Longrightarrow> client_step E c (Client_RetransmissionTarget E c)"
| client_sleep: "\<not> cl_isStopped c \<Longrightarrow> cl_retransmitTargets c = [] \<Longrightarrow> client_step E c (Client_SleepRemainingFrameTime E c)"
| client_disconnect: "cl_lastSendPacketSequence c \<noteq> - 1 \<Longrightarrow> client_step E c (Client_Disconnect E c)"
| client_alive: "client_step E c (ServerAliveChecker_turn E c)"
| client_stop: "client_step E c (Client_Stop E c)"

lemma client_ok_running:
  "client_ok c \<Longrightarrow> \<not> cl_isStopped c \<Longrightarrow> client_inv {#} {#} c' \<Longrightarrow> life c' = life c \<Longrightarrow> client_ok c'"
  by (simp add: client_ok_def life_def)

lemma Stop_ok: "client_ok c \<Longrightarrow> client_alloc_law E \<Longrightarrow> client_ok (Client_Stop E c)"
  using client_inv_Stop [of "{#}" "{#}" c E] Stop_isStopped [of E c]
  by (cases "cl_isStopped c") (simp_all add: client_ok_def Client_Stop_def)

lemma idle_get_received:
  "get_received q c = (r, c') \<Longrightarrow> client_idle c \<Longrightarrow> client_idle c'"
  by (induction q c rule: get_received.induct)
     (auto simp: client_idle_def Let_def NetBuffer_Free_def split: if_splits)

lemma take_ok:
  assumes "Client_GetReceivedPacket c = (r, c')" "client_ok c"
  shows "client_ok (c'\<lparr> cl_application := cl_application c' @ (case r of None \<Rightarrow> [] | Some b \<Rightarrow> [b]) \<rparr>)" (is "client_ok ?c")
proof -
  have i: "client_inv {#} {#} c" using assms(2) by (simp add: client_ok_def)
  have g: "get_received (cl_recvPacketHoldingQueue c) c = (r, c')" using assms(1) by (simp add: Client_GetReceivedPacket_def)
  have "client_inv {#} {#} ?c"
  proof (rule client_inv_move [OF client_inv_get_received [OF g i refl]])
    show "{#} + queue_holders ?c = (case r of None \<Rightarrow> {#} | Some b \<Rightarrow> add_mset b {#}) + queue_holders c'"
      by (cases r) (simp_all add: queue_holders_def)
  qed (simp_all add: info_holders_def sequences_ok_def received_ok_def semaphore_ok_def)
  moreover have "client_idle c \<Longrightarrow> client_idle ?c" using idle_get_received [OF g] by (simp add: client_idle_def)
  moreover have "life ?c = life c" using life_get_received [OF g] by (simp add: life_def)
  ultimately show ?thesis using assms(2) by (simp add: client_ok_def life_def)
qed

lemma free_ok:
  assumes "cl_application c = xs @ b # ys" "client_ok c"
  shows "client_ok (NetBuffer_Free b (c\<lparr> cl_application := xs @ ys \<rparr>))"
proof -
  have "client_inv {#} {#b#} (c\<lparr> cl_application := xs @ ys \<rparr>)"
    by (rule client_inv_move [of "{#}" "{#}" c])
       (use assms in \<open>simp_all add: client_ok_def info_holders_def queue_holders_def sequences_ok_def received_ok_def semaphore_ok_def\<close>)
  from client_inv_Free [OF this] assms(2) show ?thesis
    by (simp add: client_ok_def client_idle_def NetBuffer_Free_def)
qed

lemma client_step_ok:
  assumes "client_step E c c'" "client_ok c" "client_alloc_law E"
  shows "client_ok c'"
  using assms(1,2)
proof induction
  case (client_start c ok c')
  then show ?case using Start_ok assms(3) by blast
next
  case (client_send c packetId body)
  show ?case
    by (rule client_ok_running [OF client_send(3,1) client_inv_SendPacket [OF _ assms(3) client_send(2)]])
       (use client_send in \<open>simp_all add: client_ok_def\<close>)
next
  case (client_receive c recvBuffer bytesReceived)
  show ?case
    by (rule client_ok_running [OF client_receive(3,1) client_inv_OnRecvStream [OF _ assms(3)]])
       (use client_receive in \<open>simp_all add: client_ok_def\<close>)
next
  case (client_take c r c')
  then show ?case by (rule take_ok)
next
  case (client_free c xs b ys)
  then show ?case by (rule free_ok)
next
  case (client_sending c)
  show ?case
    by (rule client_ok_running [OF client_sending(2,1) client_inv_turn]) (use client_sending in \<open>simp_all add: client_ok_def\<close>)
next
  case (client_collect c)
  show ?case
    by (rule client_ok_running [OF client_collect(3,1) client_inv_RetransmissionCollect [OF _ client_collect(2)]])
       (use client_collect in \<open>simp_all add: client_ok_def\<close>)
next
  case (client_retransmit c)
  show ?case
    by (rule client_ok_running [OF client_retransmit(2,1) client_inv_RetransmissionTarget])
       (use client_retransmit in \<open>simp_all add: client_ok_def\<close>)
next
  case (client_sleep c)
  show ?case
    by (rule client_ok_running [OF client_sleep(3,1) client_inv_Sleep]) (use client_sleep in \<open>simp_all add: client_ok_def\<close>)
next
  case (client_disconnect c)
  have "Client_Disconnect E c = Client_StopServerAliveCheck c" if "cl_isStopped c"
    using that by (simp add: Client_Disconnect_def Let_def Client_StopServerAliveCheck_def)
  moreover have "client_inv {#} {#} (Client_Disconnect E c)"
    by (rule client_inv_Disconnect [OF _ assms(3)]) (use client_disconnect in \<open>simp_all add: client_ok_def\<close>)
  ultimately show ?case
    using client_disconnect(2) life_Disconnect [of E c]
    by (auto simp: client_ok_def life_def client_idle_def Client_StopServerAliveCheck_def)
next
  case (client_alive c)
  have "client_ok (c\<lparr> cl_serverAliveChecker := ac \<rparr>)" for ac
    using client_alive client_inv_outside [of "{#}" "{#}" c "c\<lparr> cl_serverAliveChecker := ac \<rparr>"]
    by (simp add: client_ok_def client_idle_def)
  then show ?case
    using client_alive Stop_ok [OF _ assms(3)] by (simp add: ServerAliveChecker_turn_def Let_def split: prod.split)
next
  case (client_stop c)
  then show ?case using assms(3) by (rule Stop_ok)
qed

end
