(* ===== verification/Client_Frame.thy ===== *)
theory Client_Frame
  imports Client_System
begin

text \<open>
  What the operations of the client leave alone: the marks of the session (the sequences
  given out and taken, the window of the server, the packets that are held) survive everything
  that only sends or starts, and a running check of the server goes on until it
  is stopped.
\<close>

section \<open>The marks of a session\<close>

definition marks :: "'k Client \<Rightarrow> PacketSequence \<times> byte \<times> PacketSequence \<times> PacketSequence \<times> RecvPacketInfo list" where
  "marks c = (cl_lastSendPacketSequence c, cl_remoteAdvertisedWindow c, cl_lastAckedSequence c,
     cl_nextRecvPacketSequence c, cl_recvPacketHoldingQueue c)"

lemma marks_update [simp]:
  "marks (c\<lparr> cl_isStopped := x0 \<rparr>) = marks c" "marks (c\<lparr> cl_threadStopFlag := x1 \<rparr>) = marks c"
  "marks (c\<lparr> cl_isConnected := x2 \<rparr>) = marks c" "marks (c\<lparr> cl_serverAliveChecker := x3 \<rparr>) = marks c"
  "marks (c\<lparr> cl_hasClientProcessReference := x4 \<rparr>) = marks c" "marks (c\<lparr> cl_retransmitTargets := x5 \<rparr>) = marks c"
  "marks (c\<lparr> cl_clientCountInThisProcess := x6 \<rparr>) = marks c" "marks (c\<lparr> cl_session := x7 \<rparr>) = marks c"
  "marks (c\<lparr> cl_socketOpen := x8 \<rparr>) = marks c" "marks (c\<lparr> cl_sendEvents := x9 \<rparr>) = marks c"
  "marks (c\<lparr> cl_sendSemaphore := x10 \<rparr>) = marks c" "marks (c\<lparr> cl_sendPacketInfoMap := x11 \<rparr>) = marks c"
  "marks (c\<lparr> cl_sendBufferQueue := x12 \<rparr>) = marks c" "marks (c\<lparr> cl_pendingPacketQueue := x13 \<rparr>) = marks c"
  "marks (c\<lparr> cl_nowTick := x14 \<rparr>) = marks c" "marks (c\<lparr> cl_wire := x15 \<rparr>) = marks c"
  "marks (c\<lparr> cl_query := x16 \<rparr>) = marks c" "marks (c\<lparr> cl_fault := x17 \<rparr>) = marks c"
  "marks (c\<lparr> cl_bufferOverrun := x18 \<rparr>) = marks c" "marks (c\<lparr> cl_buffers := x19 \<rparr>) = marks c"
  "marks (c\<lparr> cl_infos := x20 \<rparr>) = marks c"
  by (simp_all add: marks_def)

lemma marks_memory [simp]:
  "marks (upd_buffers f c) = marks c" "marks (upd_infos g c) = marks c" "marks (NetBuffer_Free b c) = marks c"
  "marks (NetBuffer_AddRefCount b c) = marks c" "marks (ClientSendInfo_Free a c) = marks c"
  "marks (client_enqueue b c) = marks c"
  by (simp_all add: upd_buffers_def upd_infos_def buffer_op_defs ClientSendInfo_Free_def client_fault_def
      client_enqueue_def Let_def split: option.split prod.split)

lemma marks_ask: "client_ask f c = (r, c') \<Longrightarrow> marks c' = marks c"
  by (auto simp: client_ask_def)

lemma marks_send [simp]:
  "marks (client_encode E b q d core c) = marks c" "marks (Client_RegisterSendPacketInfo E b q c) = marks c"
  by (auto simp: client_encode_def client_fault_def Client_RegisterSendPacketInfo_def client_ask_def Let_def
      split: option.split)

lemma marks_SendPacket_buffer [simp]: "marks (Client_SendPacket_buffer E b q core c) = marks c"
  by (simp add: Client_SendPacket_buffer_def Let_def)

lemma marks_SendConnectPacket [simp]: "marks (Client_SendConnectPacket E c) = marks c"
  by (auto simp: Client_SendConnectPacket_def client_fault_def new_buffer_def Let_def split: prod.split option.split)

lemma marks_stop [simp]:
  "marks (Client_StopServerAliveCheck c) = marks c" "marks (Client_ReleaseClientProcessReference c) = marks c"
  by (simp_all add: Client_StopServerAliveCheck_def Client_ReleaseClientProcessReference_def Let_def)

lemma marks_loops [simp]:
  "marks (Client_DoSend_loop E q c) = marks c" "marks (retransmission_end l c) = marks c"
  "marks (free_send_infos m c) = marks c" "marks (free_pending p c) = marks c"
proof -
  show "marks (Client_DoSend_loop E q c) = marks c"
    by (induction E q c rule: Client_DoSend_loop.induct) (simp_all add: client_fault_def Let_def split: option.split)
  show "marks (retransmission_end l c) = marks c" by (induction l c rule: retransmission_end.induct) simp_all
  show "marks (free_send_infos m c) = marks c" by (induction m c rule: free_send_infos.induct) simp_all
  show "marks (free_pending p c) = marks c" by (induction p c rule: free_pending.induct) simp_all
qed

lemma marks_turns [simp]: "marks (send_turns n E c) = marks c"
  by (induction n E c rule: send_turns.induct) (simp_all add: Client_SendThread_turn_def Client_DoSend_def)

lemma marks_Acquire: "Client_AcquireClientProcessReference E c = (r, c') \<Longrightarrow> marks c' = marks c"
  by (auto simp: Client_AcquireClientProcessReference_def client_ask_def split: if_splits)

lemma marks_GetSession: "Client_RunGetSessionFromServer E c = (r, c') \<Longrightarrow> marks c' = marks c"
  using same_but_session_GetSession [of E c r c'] by (auto simp: same_but_session_def)

lemma marks_RunThreads: "Client_RunThreads E c = (r, c') \<Longrightarrow> marks c' = marks c"
  by (auto simp: Client_RunThreads_def client_ask_def split: if_splits)

lemma marks_Start: "Client_Start E c = (ok, c') \<Longrightarrow> marks c' = marks c"
  by (auto simp: Client_Start_def Let_def split: if_splits prod.splits
      dest!: marks_ask marks_Acquire marks_GetSession marks_RunThreads)

section \<open>The check of the server\<close>

text \<open>What the check compares: the sequence expected now and at the last check.\<close>

definition watch :: "'k Client \<Rightarrow> PacketSequence \<times> PacketSequence" where
  "watch c = (cl_nextRecvPacketSequence c, ac_beforeCheckSequence (cl_serverAliveChecker c))"

definition checker_on :: "'k Client \<Rightarrow> bool" where
  "checker_on c \<longleftrightarrow> \<not> ac_isStopped (cl_serverAliveChecker c) \<and> ac_threadJoinable (cl_serverAliveChecker c)"

lemma checker_memory [simp]:
  "cl_serverAliveChecker (upd_buffers f c) = cl_serverAliveChecker c" "cl_serverAliveChecker (upd_infos g c) = cl_serverAliveChecker c"
  "cl_serverAliveChecker (NetBuffer_Free b c) = cl_serverAliveChecker c"
  "cl_serverAliveChecker (ClientSendInfo_Free a c) = cl_serverAliveChecker c"
  "cl_serverAliveChecker (client_enqueue b c) = cl_serverAliveChecker c"
  "cl_serverAliveChecker (client_encode E b q d core c) = cl_serverAliveChecker c"
  "cl_serverAliveChecker (Client_RegisterSendPacketInfo E b q c) = cl_serverAliveChecker c"
  "cl_serverAliveChecker (client_acknowledge q c) = cl_serverAliveChecker c"
  by (auto simp: upd_buffers_def upd_infos_def buffer_op_defs ClientSendInfo_Free_def client_fault_def client_enqueue_def
      client_encode_def Client_RegisterSendPacketInfo_def client_ask_def client_acknowledge_def Let_def
      split: option.split prod.split)

lemma next_memory [simp]:
  "cl_nextRecvPacketSequence (client_enqueue b c) = cl_nextRecvPacketSequence c"
  "cl_nextRecvPacketSequence (client_encode E b q d core c) = cl_nextRecvPacketSequence c"
  "cl_nextRecvPacketSequence (client_acknowledge q c) = cl_nextRecvPacketSequence c"
  by (simp_all add: client_enqueue_def client_encode_def client_fault_def client_acknowledge_def split: option.split)

lemma watch_flush [simp]:
  "cl_nextRecvPacketSequence (Client_TryFlushPendingQueue E c) = cl_nextRecvPacketSequence c"
  "cl_serverAliveChecker (Client_TryFlushPendingQueue E c) = cl_serverAliveChecker c"
proof -
  have "cl_nextRecvPacketSequence (flush_pending E w q c) = cl_nextRecvPacketSequence c \<and>
      cl_serverAliveChecker (flush_pending E w q c) = cl_serverAliveChecker c" for w q
    by (induction E w q c rule: flush_pending.induct) simp_all
  then show "cl_nextRecvPacketSequence (Client_TryFlushPendingQueue E c) = cl_nextRecvPacketSequence c"
    "cl_serverAliveChecker (Client_TryFlushPendingQueue E c) = cl_serverAliveChecker c"
    by (simp_all add: Client_TryFlushPendingQueue_def)
qed

lemma watch_OnSendReply:
  "watch (Client_OnSendReply E p q c) = watch c \<and> (checker_on c \<longrightarrow> checker_on (Client_OnSendReply E p q c))"
  by (simp add: Client_OnSendReply_def watch_def checker_on_def ServerAliveChecker_StartServerAliveCheck_def Let_def split: prod.split)

lemma watch_SendReplyToServer [simp]:
  "cl_nextRecvPacketSequence (Client_SendReplyToServer E q t c) = cl_nextRecvPacketSequence c"
  "cl_serverAliveChecker (Client_SendReplyToServer E q t c) = cl_serverAliveChecker c"
  by (auto simp: Client_SendReplyToServer_def new_buffer_def client_fault_def Let_def split: prod.split option.split)

lemma watch_ProcessRecvPacket:
  "watch (Client_ProcessRecvPacket E b c) = watch c \<and> (checker_on c \<longrightarrow> checker_on (Client_ProcessRecvPacket E b c))"
proof -
  have hold: "watch (hold_packet E b t p c) = watch c" "checker_on (hold_packet E b t p c) = checker_on c" for t p
    by (simp_all add: hold_packet_def watch_def checker_on_def buffer_op_defs Let_def split: prod.split)
  have same: "watch (c\<lparr> cl_bufferOverrun := x \<rparr>) = watch c" "checker_on (c\<lparr> cl_bufferOverrun := x \<rparr>) = checker_on c"
    "watch (client_fault c) = watch c" "checker_on (client_fault c) = checker_on c" for x
    by (simp_all add: watch_def checker_on_def client_fault_def)
  show ?thesis
    unfolding Client_ProcessRecvPacket_def
    by (simp add: watch_OnSendReply hold same Let_def split: option.split prod.split PACKET_TYPE.split bool.split)
qed

lemma watch_OnRecvStream:
  "watch (Client_OnRecvStream E p n c) = watch c \<and> (checker_on c \<longrightarrow> checker_on (Client_OnRecvStream E p n c))"
  by (rule OnRecvStream_keeps [of "\<lambda>d. watch d = watch c \<and> (checker_on c \<longrightarrow> checker_on d)"])
     (use watch_ProcessRecvPacket in \<open>auto simp: watch_def checker_on_def client_fault_def\<close>)

end
