(* ===== verification/Client_Properties.thy ===== *)
theory Client_Properties
  imports Client_Frame
begin

text \<open>
  The properties of the client: memory, delivery in order, what one call takes, the queue of
  packets that wait for the window, stopping, starting again, and the check of the server.
\<close>

section \<open>Reachable states\<close>

text \<open>\<open>RUDPClientCore\<close> as constructed, in a process with \<open>n\<close> clients that have started.\<close>

definition client_new :: "ushort \<Rightarrow> 'k SessionInfo \<Rightarrow> 'k Client" where
  "client_new n session =
     \<lparr> cl_isStopped = True, cl_threadStopFlag = False, cl_isConnected = False, cl_hasClientProcessReference = False,
       cl_clientCountInThisProcess = n, cl_session = session, cl_socketOpen = False, cl_sendEvents = False,
       cl_sendSemaphore = 0, cl_lastSendPacketSequence = 0, cl_sendPacketInfoMap = [], cl_recvPacketHoldingQueue = [],
       cl_remoteAdvertisedWindow = 1, cl_lastAckedSequence = 0, cl_nextRecvPacketSequence = 1, cl_sendBufferQueue = [],
       cl_pendingPacketQueue = [],
       cl_serverAliveChecker = \<lparr> ac_isStopped = False, ac_checkIntervalMs = 0, ac_beforeCheckSequence = 0, ac_threadJoinable = False \<rparr>,
       cl_retransmitTargets = [], cl_nowTick = 0,
       cl_buffers = \<lparr> hp_mem = Map.empty, hp_fault = False \<rparr>, cl_infos = \<lparr> hp_mem = Map.empty, hp_fault = False \<rparr>,
       cl_wire = [], cl_consumed = [], cl_application = [], cl_query = 0, cl_fault = False, cl_bufferOverrun = False,
       cl_late = False \<rparr>"

inductive client_reachable :: "'k ClientEnv \<Rightarrow> 'k Client \<Rightarrow> bool" for E where
  reachable_new: "client_reachable E (client_new n session)"
| reachable_step: "client_reachable E c \<Longrightarrow> client_step E c c' \<Longrightarrow> client_reachable E c'"

lemma client_new_ok: "client_ok (client_new n session)"
  by (simp add: client_ok_def client_idle_def client_inv_def memory_ok_def heap_ok_def info_holders_def queue_holders_def
      info_buffers_def sequences_ok_def received_ok_def semaphore_ok_def client_new_def)

lemma client_reachable_ok: "client_reachable E c \<Longrightarrow> client_alloc_law E \<Longrightarrow> client_ok c"
  by (induction rule: client_reachable.induct) (auto simp: client_new_ok intro: client_step_ok)

text \<open>An environment for the witnesses.\<close>

definition first_free :: "'a RefHeap \<Rightarrow> nat option" where
  "first_free h = (if hp_mem h 0 = None then Some 0 else if hp_mem h 1 = None then Some 1
     else if \<forall>a. hp_mem h a \<noteq> None then None else Some (LEAST a. hp_mem h a = None))"

lemma first_free_Some:
  assumes "first_free h = Some a"
  shows "hp_mem h a = None"
proof -
  consider "a = 0 \<and> hp_mem h 0 = None" | "a = 1 \<and> hp_mem h 1 = None" | b where "a = (LEAST a. hp_mem h a = None)" "hp_mem h b = None"
    using assms unfolding first_free_def by (simp split: if_splits del: not_None_eq) blast+
  then show ?thesis using LeastI [of "\<lambda>a. hp_mem h a = None"] by cases simp_all
qed

lemma first_free_None: "hp_mem h a = None \<Longrightarrow> first_free h \<noteq> None"
  unfolding first_free_def by (simp del: not_None_eq) blast

definition sample_client_env :: "unit ClientEnv" where
  "sample_client_env =
     \<lparr> ce_api = documented_api, ce_bcrypt = toy_bcrypt, ce_keys = documented_keys, ce_bufferAlloc = first_free,
       ce_infoAlloc = first_free,
       ce_copyToBufferPtr = (\<lambda>bs p. p\<lparr> m_pSerializeBuffer := patch 0 bs (m_pSerializeBuffer p) \<rparr>),
       ce_copyToWriteBufferPtr = (\<lambda>bs p. p\<lparr> m_pSerializeBuffer := patch (unat (m_iWrite p)) bs (m_pSerializeBuffer p) \<rparr>),
       ce_dfDEFAULTSIZE = 64, ce_tickCount = (\<lambda>n. of_nat n), ce_ShouldSendReplyToServer = (\<lambda>q i. True),
       ce_maxPacketRetransmissionCount = 2, ce_retransmissionThreadSleepMs = 10, ce_serverAliveCheckMs = 100,
       ce_readOptionFile = (\<lambda>n. True), ce_wsaStartup = (\<lambda>n. True), ce_tlsInitialize = (\<lambda>n. True), ce_createBrokerSocket = (\<lambda>n. True), ce_connectBroker = (\<lambda>n. True),
       ce_tlsHandshake = (\<lambda>n. True), ce_brokerStream = (\<lambda>n. []),
       ce_createRUDPSocket = (\<lambda>n. True), ce_createSendEvents = (\<lambda>n. True), ce_ShouldSendConnectPacketOnStart = True,
       ce_lateDatagram = (\<lambda>n. None) \<rparr>"

lemma sample_client_alloc: "client_alloc_law sample_client_env"
  by (simp add: client_alloc_law_def sample_client_env_def first_free_Some first_free_None del: not_None_eq)

section \<open>Memory and order\<close>

lemma count_distinct_le_one: "distinct xs \<Longrightarrow> count (mset xs) x \<le> 1"
  by (simp add: distinct_count_atmost_1)

text \<open>C12: In every reachable state of the client, whatever the threads, the network and the
  application did: no freed or null packet buffer or descriptor was touched, the reference count of every
  descriptor is the number of places that keep it, and at most two, so the \<open>int8_t\<close> count
  never wraps; and the count of every packet buffer is the number of its holders.\<close>

theorem client_memory_safe:
  assumes "client_reachable E c" "client_alloc_law E"
  shows "\<not> cl_fault c \<and> \<not> hp_fault (cl_infos c) \<and> \<not> hp_fault (cl_buffers c) \<and>
    (\<forall>a info refCount. hp_mem (cl_infos c) a = Some (info, refCount) \<longrightarrow>
       refCount = int (count (info_holders c) a) \<and> 1 \<le> refCount \<and> refCount \<le> 2) \<and>
    (\<forall>b content refCount. hp_mem (cl_buffers c) b = Some (content, refCount) \<longrightarrow>
       refCount = int (count (queue_holders c + info_buffers (info_holders c) (cl_infos c)) b) \<and> 1 \<le> refCount)"
proof -
  have i: "client_inv {#} {#} c" using client_reachable_ok [OF assms] by (simp add: client_ok_def)
  note m = memory_okD [OF client_invD(1) [OF i], simplified]
  have "count (info_holders c) a \<le> 2" for a
    using client_invD(2) [OF i] count_distinct_le_one [of "map snd (cl_sendPacketInfoMap c)" a]
      count_distinct_le_one [of "cl_retransmitTargets c" a]
    by (simp add: sequences_ok_def info_holders_def)
  then have le: "int (count (info_holders c) a) \<le> 2" for a using of_nat_le_iff [of "count (info_holders c) a" 2] by simp
  have "refCount = int (count (info_holders c) a) \<and> 1 \<le> refCount \<and> refCount \<le> 2"
    if "hp_mem (cl_infos c) a = Some (info, refCount)" for a info refCount
    using heap_ok_count [OF m(2) that] le [of a] by linarith
  moreover have "refCount = int (count (queue_holders c + info_buffers (info_holders c) (cl_infos c)) b) \<and> 1 \<le> refCount"
    if "hp_mem (cl_buffers c) b = Some (content, refCount)" for b content refCount
    by (rule heap_ok_count [OF m(3) that])
  ultimately show ?thesis using m(1) heap_ok_fault [OF m(2)] heap_ok_fault [OF m(3)] by blast
qed

theorem client_memory_safe_witness:
  "\<not> cl_fault (Client_Stop sample_client_env (client_new 0 blank_info)) \<and>
   client_reachable sample_client_env (Client_Stop sample_client_env (client_new 0 blank_info))"
proof -
  have r: "client_reachable sample_client_env (Client_Stop sample_client_env (client_new 0 blank_info))"
    by (rule reachable_step [OF reachable_new client_stop])
  from client_memory_safe [OF r sample_client_alloc] r show ?thesis by simp
qed

text \<open>C13: In every reachable state the packets taken out of the holding queue are, in this
  order, the sequences 1, 2, 3 and so on without a gap or a repetition, heartbeats included, and the
  next one is expected, whatever arrived in whatever order and how often.\<close>

theorem client_delivers_in_order_once:
  assumes "client_reachable E c" "client_alloc_law E"
  shows "map fst (cl_consumed c) = map of_nat [1..<Suc (length (cl_consumed c))] \<and>
    cl_nextRecvPacketSequence c = of_nat (Suc (length (cl_consumed c))) \<and>
    (length (cl_consumed c) < 2 ^ 64 \<longrightarrow> distinct (map fst (cl_consumed c)))"
proof -
  have r: "received_ok c" using client_reachable_ok [OF assms] by (simp add: client_ok_def client_inv_def)
  have "inj_on (of_nat :: nat \<Rightarrow> PacketSequence) {1..<Suc n}" if "n < 2 ^ 64" for n
    using that by (auto intro!: inj_onI simp: of_nat_inverse [where 'a = 64] word_of_nat_eq_iff take_bit_nat_eq_self)
  then show ?thesis using r by (simp add: received_ok_def distinct_map del: upt_Suc)
qed

theorem client_delivers_in_order_once_witness:
  "\<exists>c. client_reachable sample_client_env c \<and> cl_isStopped c \<and> cl_nextRecvPacketSequence c = of_nat (Suc (length (cl_consumed c)))"
proof -
  let ?c = "Client_Stop sample_client_env (client_new 0 blank_info)"
  have r: "client_reachable sample_client_env ?c" by (rule reachable_step [OF reachable_new client_stop])
  from client_delivers_in_order_once [OF r sample_client_alloc] Stop_isStopped r show ?thesis by blast
qed

section \<open>One call of GetReceivedPacket\<close>

lemma below_next: "x < n + 1 \<Longrightarrow> x < n \<or> x = (n :: PacketSequence)"
  using inc_le [of n x] by (meson leD linorder_neqE)

text \<open>What a call may do to the queue \<open>q\<close> when \<open>n\<close> is expected: the elements \<open>dropped\<close> leave it
  and \<open>rest\<close> stays, the sequences of \<open>taken\<close> are \<open>n\<close>, \<open>n + 1\<close> and so on, whatever else left the queue was
  old or a copy of one of these; all but the packet that is returned are
  heartbeats, and when none is returned the next one is not there.\<close>

definition takes ::
    "PacketSequence \<Rightarrow> RecvPacketInfo list \<Rightarrow> (PacketSequence \<times> PACKET_TYPE) list \<Rightarrow> RecvPacketInfo list \<Rightarrow> RecvPacketInfo list
       \<Rightarrow> nat option \<Rightarrow> bool" where
  "takes n q taken dropped rest r \<longleftrightarrow>
     q = dropped @ rest \<and>
     map fst taken = map (\<lambda>j. n + of_nat j) [0..<length taken] \<and>
     (\<forall>h \<in> set dropped. ri_packetSequence h < n \<or> ri_packetSequence h \<in> fst ` set taken) \<and>
     (case r of
        None \<Rightarrow> (\<forall>x \<in> set taken. snd x = HEARTBEAT_TYPE) \<and>
          (\<forall>h \<in> set rest. ri_packetSequence h \<noteq> n + of_nat (length taken))
      | Some b \<Rightarrow> taken \<noteq> [] \<and> dropped \<noteq> [] \<and> (\<forall>x \<in> set (butlast taken). snd x = HEARTBEAT_TYPE) \<and>
          last taken = (ri_packetSequence (last dropped), ri_packetType (last dropped)) \<and>
          ri_packetType (last dropped) \<noteq> HEARTBEAT_TYPE \<and> ri_buffer (last dropped) = b)"

lemma takes_stale: "takes n q taken dropped rest r \<Longrightarrow> ri_packetSequence h < n \<Longrightarrow> takes n (h # q) taken (h # dropped) rest r"
  by (auto simp: takes_def split: option.splits)

lemma takes_heartbeat:
  assumes "takes (n + 1) q taken dropped rest r" "ri_packetSequence h = n"
  shows "takes n (h # q) ((n, HEARTBEAT_TYPE) # taken) (h # dropped) rest r"
proof -
  have "map (\<lambda>j. n + of_nat j) [0..<Suc k] = n # map (\<lambda>j. n + 1 + of_nat j) [0..<k]" for k
    by (simp add: upt_conv_Cons map_Suc_upt [symmetric] add.assoc o_def del: upt_Suc)
  moreover have "ri_packetSequence g < n \<or> ri_packetSequence g = n \<or> ri_packetSequence g \<in> fst ` set taken"
    if "g \<in> set dropped" for g
    using assms(1) that below_next [of "ri_packetSequence g" n] unfolding takes_def by blast
  ultimately show ?thesis
    using assms unfolding takes_def by (auto simp: add.assoc simp del: upt_Suc split: option.splits)
qed

lemma get_received_takes:
  assumes "get_received q c = (r, c')" "cl_recvPacketHoldingQueue c = q" "sorted (map ri_packetSequence q)"
  shows "\<exists>taken dropped. cl_consumed c' = cl_consumed c @ taken \<and>
    cl_nextRecvPacketSequence c' = cl_nextRecvPacketSequence c + of_nat (length taken) \<and>
    takes (cl_nextRecvPacketSequence c) q taken dropped (cl_recvPacketHoldingQueue c') r"
  using assms
proof (induction q c arbitrary: r c' rule: get_received.induct)
  case (1 c)
  then show ?case by (intro exI [of _ "[]"]) (auto simp: takes_def)
next
  case (2 h q c)
  let ?n = "cl_nextRecvPacketSequence c"
  have q: "sorted (map ri_packetSequence q)" using 2(5) by simp
  consider (stale) "ri_packetSequence h < ?n" | (later) "\<not> ri_packetSequence h < ?n" "ri_packetSequence h \<noteq> ?n"
    | (heartbeat) "\<not> ri_packetSequence h < ?n" "ri_packetSequence h = ?n" "ri_packetType h = HEARTBEAT_TYPE"
    | (packet) "\<not> ri_packetSequence h < ?n" "ri_packetSequence h = ?n" "ri_packetType h \<noteq> HEARTBEAT_TYPE" by blast
  then show ?case
  proof cases
    case stale
    have "get_received q (NetBuffer_Free (ri_buffer h) (c\<lparr> cl_recvPacketHoldingQueue := q \<rparr>)) = (r, c')"
      using 2(3) stale by simp
    from 2(1) [OF stale this _ q] show ?thesis using takes_stale [OF _ stale] by (fastforce simp: buffer_op_defs)
  next
    case later
    have "ri_packetSequence h' \<noteq> ?n" if "h' \<in> set (h # q)" for h'
      using held.top_least [OF 2(5) that] later by auto
    then show ?thesis using 2(3,4) later by (intro exI [of _ "[]"]) (auto simp: takes_def)
  next
    case heartbeat
    let ?c1 = "c\<lparr> cl_nextRecvPacketSequence := ?n + 1, cl_recvPacketHoldingQueue := q,
      cl_consumed := cl_consumed c @ [(ri_packetSequence h, ri_packetType h)] \<rparr>"
    have "get_received q (NetBuffer_Free (ri_buffer h) ?c1) = (r, c')" using 2(3) heartbeat by (simp add: Let_def)
    from 2(2) [OF heartbeat(1) _ refl heartbeat(3) this _ q] heartbeat(2)
    obtain taken dropped where "cl_consumed c' = cl_consumed c @ (?n, HEARTBEAT_TYPE) # taken"
      "cl_nextRecvPacketSequence c' = ?n + 1 + of_nat (length taken)"
      "takes (?n + 1) q taken dropped (cl_recvPacketHoldingQueue c') r"
      using heartbeat(3) by (auto simp: buffer_op_defs)
    then show ?thesis using takes_heartbeat [OF _ heartbeat(2)] by (intro exI [of _ "(?n, HEARTBEAT_TYPE) # taken"] exI [of _ "h # dropped"]) auto
  next
    case packet
    then show ?thesis
      using 2(3,4) by (intro exI [of _ "[(ri_packetSequence h, ri_packetType h)]"] exI [of _ "[h]"]) (auto simp: takes_def Let_def)
  qed
qed

text \<open>One call of GetReceivedPacket on a queue in order: it returns the first packet of the content that
  continues the expected sequence, after the heartbeats before it, or null when the next
  sequence has not arrived; it drops only heartbeats it counts, copies and packets that are
  older, and never a packet that is still to come.\<close>

theorem client_takes_next:
  assumes "sorted (map ri_packetSequence (cl_recvPacketHoldingQueue c))" "Client_GetReceivedPacket c = (r, c')"
  shows "\<exists>taken dropped. cl_consumed c' = cl_consumed c @ taken \<and>
    cl_nextRecvPacketSequence c' = cl_nextRecvPacketSequence c + of_nat (length taken) \<and>
    takes (cl_nextRecvPacketSequence c) (cl_recvPacketHoldingQueue c) taken dropped (cl_recvPacketHoldingQueue c') r"
  using get_received_takes [OF _ refl assms(1)] assms(2) by (simp add: Client_GetReceivedPacket_def)

definition sample_receiving :: "unit Client" where
  "sample_receiving = (client_new 0 blank_info)
     \<lparr> cl_recvPacketHoldingQueue :=
         [\<lparr> ri_buffer = 10, ri_packetSequence = 0, ri_packetType = SEND_TYPE \<rparr>,
          \<lparr> ri_buffer = 11, ri_packetSequence = 1, ri_packetType = HEARTBEAT_TYPE \<rparr>,
          \<lparr> ri_buffer = 12, ri_packetSequence = 2, ri_packetType = SEND_TYPE \<rparr>,
          \<lparr> ri_buffer = 13, ri_packetSequence = 4, ri_packetType = SEND_TYPE \<rparr>],
       cl_buffers := \<lparr> hp_mem = (\<lambda>b. if b \<in> {10, 11, 12, 13} then Some (nb_Alloc documented_api, 1) else None), hp_fault = False \<rparr> \<rparr>"

theorem client_takes_next_witness:
  "fst (Client_GetReceivedPacket sample_receiving) = Some 12 \<and>
   (\<exists>taken dropped. takes 1 (cl_recvPacketHoldingQueue sample_receiving) taken dropped
      (cl_recvPacketHoldingQueue (snd (Client_GetReceivedPacket sample_receiving))) (Some 12))"
proof -
  have f: "fst (Client_GetReceivedPacket sample_receiving) = Some 12"
    by (simp add: Client_GetReceivedPacket_def sample_receiving_def client_new_def Let_def buffer_op_defs)
  have "sorted (map ri_packetSequence (cl_recvPacketHoldingQueue sample_receiving))"
    "cl_nextRecvPacketSequence sample_receiving = 1"
    by (simp_all add: sample_receiving_def client_new_def)
  from client_takes_next [OF this(1) surjective_pairing [of "Client_GetReceivedPacket sample_receiving"]] this(2) f
  show ?thesis by auto
qed

section \<open>Starting again\<close>

text \<open>A client that is stopped and started again keeps the sequences of its last session: the number of the
  next packet it sends, the number it expects, the window and the packets it holds are those of
  before, although the server begins a session with sequence 1.\<close>

theorem client_restart_keeps_sequences:
  "let (ok, c') = Client_Start E (Client_Stop E c) in
     cl_lastSendPacketSequence c' = cl_lastSendPacketSequence (Client_Stop E c) \<and>
     cl_nextRecvPacketSequence c' = cl_nextRecvPacketSequence (Client_Stop E c) \<and>
     cl_remoteAdvertisedWindow c' = cl_remoteAdvertisedWindow (Client_Stop E c) \<and>
     cl_recvPacketHoldingQueue c' = cl_recvPacketHoldingQueue (Client_Stop E c)"
  using marks_Start [of E "Client_Stop E c"]
  by (auto simp: marks_def split: prod.split)

section \<open>The check of the server\<close>

definition receive_all :: "'k ClientEnv \<Rightarrow> (NetBuffer \<times> int) list \<Rightarrow> 'k Client \<Rightarrow> 'k Client" where
  "receive_all E datagrams c = fold (\<lambda>(recvBuffer, bytesReceived). Client_OnRecvStream E recvBuffer bytesReceived) datagrams c"

lemma receive_all_watch:
  "watch (receive_all E ds c) = watch c \<and> (checker_on c \<longrightarrow> checker_on (receive_all E ds c)) \<and> life (receive_all E ds c) = life c"
  by (induction ds arbitrary: c) (auto simp: receive_all_def watch_OnRecvStream)

text \<open>C25: The check of the server counts packets the application takes, not packets that arrive: between two
  checks of a running client any datagrams may come in, heartbeats included; unless the
  application calls GetReceivedPacket in between, the second check stops the client.\<close>

theorem client_alive_check_needs_application:
  assumes "checker_on c"
  shows "cl_isStopped (ServerAliveChecker_turn E (receive_all E datagrams (ServerAliveChecker_turn E c)))"
proof -
  let ?n = "cl_nextRecvPacketSequence c" and ?ac = "cl_serverAliveChecker c"
  have stays: "cl_isStopped (ServerAliveChecker_turn E d)" if "cl_isStopped d" for d :: "'a Client"
    using that by (simp add: ServerAliveChecker_turn_def Let_def Stop_isStopped split: prod.split)
  show ?thesis
  proof (cases "?n = ac_beforeCheckSequence ?ac")
    case True
    then have "ServerAliveChecker_turn E c = Client_Stop E c"
      using assms by (simp add: ServerAliveChecker_turn_def ServerAliveChecker_IsServerAlive_def checker_on_def)
    then show ?thesis
      using stays receive_all_watch [of E datagrams "Client_Stop E c"] Stop_isStopped [of E c] by (simp add: life_def)
  next
    case False
    let ?c1 = "c\<lparr> cl_serverAliveChecker := ?ac\<lparr> ac_beforeCheckSequence := ?n \<rparr> \<rparr>"
    have "ServerAliveChecker_turn E c = ?c1"
      using assms False by (simp add: ServerAliveChecker_turn_def ServerAliveChecker_IsServerAlive_def checker_on_def)
    moreover have "watch (receive_all E datagrams ?c1) = (?n, ?n)" "checker_on (receive_all E datagrams ?c1)"
      using receive_all_watch [of E datagrams ?c1] assms by (simp_all add: watch_def checker_on_def)
    ultimately show ?thesis
      by (simp add: Stop_isStopped ServerAliveChecker_turn_def ServerAliveChecker_IsServerAlive_def checker_on_def watch_def)
  qed
qed

theorem client_alive_check_needs_application_witness:
  "\<exists>c. checker_on c \<and> (\<forall>datagrams. cl_isStopped (ServerAliveChecker_turn sample_client_env
     (receive_all sample_client_env datagrams (ServerAliveChecker_turn sample_client_env c))))"
proof -
  let ?c = "(client_new 0 blank_info)\<lparr> cl_isStopped := False, cl_sendEvents := True,
    cl_serverAliveChecker := \<lparr> ac_isStopped = False, ac_checkIntervalMs = 100, ac_beforeCheckSequence = 0, ac_threadJoinable = True \<rparr> \<rparr>"
  have "checker_on ?c" by (simp add: checker_on_def)
  then show ?thesis using client_alive_check_needs_application [of ?c sample_client_env] by blast
qed

section \<open>The packets that wait for the window\<close>

lemma Register_effect:
  assumes "ce_infoAlloc E (cl_infos c) = Some a" "q \<notin> fst ` set (cl_sendPacketInfoMap c)"
  shows "cl_sendBufferQueue (Client_RegisterSendPacketInfo E b q c) = cl_sendBufferQueue c @ [b]"
    "cl_sendPacketInfoMap (Client_RegisterSendPacketInfo E b q c) = insort_key fst (q, a) (cl_sendPacketInfoMap c)"
  using assms by (simp_all add: Client_RegisterSendPacketInfo_def client_ask_def client_enqueue_def buffer_op_defs map_insert_def Let_def)

lemma flush_pending_prefix:
  assumes "client_inv Y X c" "client_alloc_law E" "\<And>h a. hp_mem h a = None \<Longrightarrow> ce_infoAlloc E h \<noteq> None"
    "cl_pendingPacketQueue c = q" "n = min (length q) (unat window - length (cl_sendPacketInfoMap c))"
  shows "cl_pendingPacketQueue (flush_pending E window q c) = drop n q \<and>
    cl_sendBufferQueue (flush_pending E window q c) = cl_sendBufferQueue c @ map snd (take n q) \<and>
    mset (map fst (cl_sendPacketInfoMap (flush_pending E window q c))) = mset (map fst (cl_sendPacketInfoMap c)) + mset (map fst (take n q))"
  using assms
proof (induction E window q c arbitrary: n rule: flush_pending.induct)
  case (2 E window sequence b q c)
  have s: "sequences_ok c" by (rule client_invD(2) [OF 2(2)])
  have full: "client_outstanding c \<ge> window \<longleftrightarrow> unat window \<le> length (cl_sendPacketInfoMap c)"
    using outstanding_exact [OF s] by (simp add: word_le_nat_alt)
  show ?case
  proof (cases "client_outstanding c \<ge> window")
    case True
    then show ?thesis using full 2(5,6) by simp
  next
    case False
    let ?c = "c\<lparr> cl_pendingPacketQueue := q \<rparr>"
    let ?r = "Client_RegisterSendPacketInfo E b sequence ?c"
    have i: "client_inv Y (add_mset b X) ?c"
      using 2(5) by (intro client_inv_move [OF 2(2)])
        (auto simp: info_holders_def queue_holders_def sequences_ok_def received_ok_def semaphore_ok_def)
    have fresh: "sequence \<notin> fst ` set (cl_sendPacketInfoMap ?c)" "sequence \<notin> fst ` set (cl_pendingPacketQueue ?c)"
      "sequence \<le> cl_lastSendPacketSequence ?c"
      using s 2(5) by (auto simp: sequences_ok_def)
    have r: "client_inv Y X ?r"
      using outstanding_room [OF s False] by (intro client_inv_Register [OF i 2(3) fresh]) simp
    obtain x where "hp_mem (cl_infos ?c) x = None"
      using heap_ok_room [OF memory_okD(2) [OF client_invD(1) [OF i]]] by blast
    then obtain a where "ce_infoAlloc E (cl_infos ?c) = Some a" using 2(4) by blast
    note e = Register_effect [OF this fresh(1), of b]
    let ?n = "n - 1"
    have n: "n = Suc ?n" "?n = min (length q) (unat window - length (cl_sendPacketInfoMap ?r))"
      using 2(6) False full e(2) by auto
    show ?thesis
      using 2(1) [OF False r 2(3,4) _ n(2)] False e n(1) by (simp add: take_Cons' drop_Cons')
  qed
qed simp

text \<open>C23: When a reply of the server leaves room in its window, exactly the packets with the smallest sequences that fit are
  sent, in this order: as many as the window minus the packets without a reply, or all that wait; the
  others keep waiting, and the map of unacknowledged packets grows by those that were sent.
  (The pools have room.)\<close>

theorem client_flush_takes_prefix:
  assumes "client_ok c" "client_alloc_law E" "\<And>h a. hp_mem h a = None \<Longrightarrow> ce_infoAlloc E h \<noteq> None"
  shows "let waiting = cl_pendingPacketQueue c; c' = Client_TryFlushPendingQueue E c;
             n = min (length waiting) (unat (cl_remoteAdvertisedWindow c) - length (cl_sendPacketInfoMap c)) in
    sorted (map fst waiting) \<and> cl_pendingPacketQueue c' = drop n waiting \<and>
    cl_sendBufferQueue c' = cl_sendBufferQueue c @ map snd (take n waiting) \<and>
    mset (map fst (cl_sendPacketInfoMap c')) = mset (map fst (cl_sendPacketInfoMap c)) + mset (map fst (take n waiting))"
proof -
  have i: "client_inv {#} {#} c" using assms(1) by (simp add: client_ok_def)
  then have "sorted (map fst (cl_pendingPacketQueue c))" by (simp add: client_inv_def sequences_ok_def)
  then show ?thesis
    using flush_pending_prefix [OF i assms(2,3) refl refl, where window = "cl_remoteAdvertisedWindow c"]
    by (simp add: Client_TryFlushPendingQueue_def Let_def)
qed

definition sample_waiting :: "unit Client" where
  "sample_waiting = (client_new 0 blank_info)
     \<lparr> cl_isStopped := False, cl_sendEvents := True, cl_lastSendPacketSequence := 8, cl_remoteAdvertisedWindow := 3,
       cl_sendPacketInfoMap := [(5, 0)], cl_pendingPacketQueue := [(6, 21), (7, 22), (8, 23)],
       cl_infos := \<lparr> hp_mem = [0 \<mapsto> (\<lparr> ci_buffer = 20, ci_retransmissionCount = 0, ci_sendPacketSequence = 5,
          ci_retransmissionTimeStamp = 10 \<rparr>, 1)], hp_fault = False \<rparr>,
       cl_buffers := \<lparr> hp_mem = (\<lambda>b. if b \<in> {20, 21, 22, 23} then Some (nb_Alloc documented_api, 1) else None), hp_fault = False \<rparr> \<rparr>"

lemma sample_waiting_ok: "client_ok sample_waiting"
proof -
  have "info_holders sample_waiting = {#0#}" "queue_holders sample_waiting = {#21, 22, 23#}"
    "info_buffers {#0#} (cl_infos sample_waiting) = {#20#}"
    by (simp_all add: info_holders_def queue_holders_def info_buffers_def buffer_of_def heap_get_def sample_waiting_def client_new_def)
  then have "memory_ok {#} {#} sample_waiting"
    by (simp add: memory_ok_def) (simp add: heap_ok_def sample_waiting_def client_new_def)
  then show ?thesis
    by (simp add: client_ok_def client_inv_def) (simp add: sequences_ok_def received_ok_def semaphore_ok_def
      info_sequence_def heap_get_def sample_waiting_def client_new_def)
qed

theorem client_flush_takes_prefix_witness:
  "cl_sendBufferQueue (Client_TryFlushPendingQueue sample_client_env sample_waiting) = [21, 22] \<and>
   cl_pendingPacketQueue (Client_TryFlushPendingQueue sample_client_env sample_waiting) = [(8, 23)]"
proof -
  have "hp_mem h a = None \<Longrightarrow> ce_infoAlloc sample_client_env h \<noteq> None" for h a
    using first_free_None [of h a] by (simp add: sample_client_env_def)
  note flush = client_flush_takes_prefix [OF sample_waiting_ok sample_client_alloc this]
  have s: "cl_pendingPacketQueue sample_waiting = [(6, 21), (7, 22), (8, 23)]" "cl_sendBufferQueue sample_waiting = []"
    "cl_remoteAdvertisedWindow sample_waiting = 3" "length (cl_sendPacketInfoMap sample_waiting) = 1"
    by (simp_all add: sample_waiting_def client_new_def)
  have "unat (3 :: byte) = 3" by simp
  then show ?thesis using flush unfolding Let_def s by (simp del: unat_numeral)
qed

section \<open>Retransmission\<close>

text \<open>The packets without a reply whose time is over, in the order of their sequences.\<close>

definition due :: "'k Client \<Rightarrow> nat list" where
  "due c = map snd (filter (\<lambda>(q, a). \<exists>info. heap_get a (cl_infos c) = Some info \<and>
      ci_retransmissionTimeStamp info < cl_nowTick c) (cl_sendPacketInfoMap c))"

lemma collect_targets_due:
  assumes "\<forall>(q, a) \<in> set m. heap_get a (cl_infos c) \<noteq> None"
  shows "cl_retransmitTargets (collect_targets m c) = cl_retransmitTargets c @
      map snd (filter (\<lambda>(q, a). \<exists>info. heap_get a (cl_infos c) = Some info \<and> ci_retransmissionTimeStamp info < cl_nowTick c) m) \<and>
    cl_sendPacketInfoMap (collect_targets m c) = cl_sendPacketInfoMap c \<and>
    cl_sendBufferQueue (collect_targets m c) = cl_sendBufferQueue c \<and> cl_threadStopFlag (collect_targets m c) = cl_threadStopFlag c \<and>
    (\<forall>x. heap_get x (cl_infos (collect_targets m c)) = heap_get x (cl_infos c))"
  using assms
proof (induction m c rule: collect_targets.induct)
  case (2 sequence a m c)
  obtain info where i: "heap_get a (cl_infos c) = Some info" using 2(3) by auto
  let ?c = "(ClientSendInfo_AddRefCount a c)\<lparr> cl_retransmitTargets := cl_retransmitTargets c @ [a] \<rparr>"
  have c: "cl_infos ?c = heap_AddRefCount a (cl_infos c)" "cl_nowTick ?c = cl_nowTick c"
    "cl_sendPacketInfoMap ?c = cl_sendPacketInfoMap c" "cl_sendBufferQueue ?c = cl_sendBufferQueue c"
    "cl_threadStopFlag ?c = cl_threadStopFlag c"
    by (simp_all add: ClientSendInfo_AddRefCount_def upd_infos_def)
  show ?case
  proof (cases "ci_retransmissionTimeStamp info \<ge> cl_nowTick c")
    case True
    then show ?thesis using 2(1) [OF i True] 2(3) i by (simp add: not_less [symmetric])
  next
    case False
    then have "(cl_nowTick c \<le> ci_retransmissionTimeStamp info) = False" by simp
    then show ?thesis using 2(2) [OF i False] 2(3) i c False by simp
  qed
qed simp

lemma get_info_Free: "x \<noteq> a \<Longrightarrow> heap_get x (cl_infos (ClientSendInfo_Free a c)) = heap_get x (cl_infos c)"
  by (simp add: ClientSendInfo_Free_def client_fault_def NetBuffer_Free_def heap_get_Free Let_def split: option.split prod.split)

lemma RetransmissionTarget_sends:
  assumes "cl_retransmitTargets c = a # rest" "\<not> cl_threadStopFlag c" "heap_get a (cl_infos c) = Some info"
    "ci_sendPacketSequence info \<in> fst ` set (cl_sendPacketInfoMap c)"
    "Suc (unat (ci_retransmissionCount info)) < unat (ce_maxPacketRetransmissionCount E)"
  shows "let c' = Client_RetransmissionTarget E c in
    cl_retransmitTargets c' = rest \<and> \<not> cl_threadStopFlag c' \<and> cl_sendPacketInfoMap c' = cl_sendPacketInfoMap c \<and>
    cl_sendBufferQueue c' = cl_sendBufferQueue c @ [ci_buffer info] \<and>
    (\<forall>x. x \<noteq> a \<longrightarrow> heap_get x (cl_infos c') = heap_get x (cl_infos c))"
proof -
  have "map_of (cl_sendPacketInfoMap c) (ci_sendPacketSequence info) \<noteq> None"
    using assms(4) by (metis map_of_eq_None_iff)
  then obtain y where m: "map_of (cl_sendPacketInfoMap c) (ci_sendPacketSequence info) = Some y" by blast
  have "unat (ci_retransmissionCount info + 1) = Suc (unat (ci_retransmissionCount info))"
    using assms(5) unat_ushort_bound [of "ce_maxPacketRetransmissionCount E"] by (simp add: unat_word_ariths)
  then have few: "\<not> ci_retransmissionCount info + 1 \<ge> ce_maxPacketRetransmissionCount E"
    using assms(5) by (simp add: word_le_nat_alt)
  have keep: "cl_infos (client_enqueue b d) = cl_infos d" "cl_infos (NetBuffer_AddRefCount b d) = cl_infos d"
    "cl_sendPacketInfoMap (client_enqueue b d) = cl_sendPacketInfoMap d" "cl_retransmitTargets (client_enqueue b d) = cl_retransmitTargets d"
    "cl_threadStopFlag (client_enqueue b d) = cl_threadStopFlag d"
    "cl_sendBufferQueue (client_enqueue b d) = cl_sendBufferQueue d @ [b]" for b and d :: "'a Client"
    by (simp_all add: client_enqueue_def buffer_op_defs)
  show ?thesis
    using assms(1-3) m few
    by (simp add: Client_RetransmissionTarget_def client_ask_def Client_SendPacket_info_def keep
        get_info_Free heap_get_update Let_def) (simp add: buffer_op_defs)
qed

fun retransmit_all :: "nat \<Rightarrow> 'k ClientEnv \<Rightarrow> 'k Client \<Rightarrow> 'k Client" where
  "retransmit_all 0 E c = c"
| "retransmit_all (Suc n) E c = retransmit_all n E (Client_RetransmissionTarget E c)"

lemma retransmit_all_sends:
  assumes "\<not> cl_threadStopFlag c" "distinct (cl_retransmitTargets c)"
    "\<forall>a \<in> set (cl_retransmitTargets c). \<exists>info. heap_get a (cl_infos c) = Some info \<and>
       ci_sendPacketSequence info \<in> fst ` set (cl_sendPacketInfoMap c) \<and>
       Suc (unat (ci_retransmissionCount info)) < unat (ce_maxPacketRetransmissionCount E)"
  shows "let c' = retransmit_all (length (cl_retransmitTargets c)) E c in
    cl_retransmitTargets c' = [] \<and> \<not> cl_threadStopFlag c' \<and> cl_sendPacketInfoMap c' = cl_sendPacketInfoMap c \<and>
    cl_sendBufferQueue c' = cl_sendBufferQueue c @ map (buffer_of (cl_infos c)) (cl_retransmitTargets c)"
  using assms
proof (induction "cl_retransmitTargets c" arbitrary: c)
  case Nil
  then show ?case by (simp flip: Nil.hyps)
next
  case (Cons a rest)
  let ?c = "Client_RetransmissionTarget E c"
  obtain info where i: "heap_get a (cl_infos c) = Some info" "ci_sendPacketSequence info \<in> fst ` set (cl_sendPacketInfoMap c)"
    "Suc (unat (ci_retransmissionCount info)) < unat (ce_maxPacketRetransmissionCount E)"
    using Cons(5) Cons(2) [symmetric] by auto
  note one = RetransmissionTarget_sends [OF Cons(2) [symmetric] Cons(3) i, unfolded Let_def]
  have other: "heap_get x (cl_infos ?c) = heap_get x (cl_infos c)" if "x \<in> set rest" for x
    using one that Cons(4) Cons(2) [symmetric] by auto
  have "let c' = retransmit_all (length (cl_retransmitTargets ?c)) E ?c in
    cl_retransmitTargets c' = [] \<and> \<not> cl_threadStopFlag c' \<and> cl_sendPacketInfoMap c' = cl_sendPacketInfoMap ?c \<and>
    cl_sendBufferQueue c' = cl_sendBufferQueue ?c @ map (buffer_of (cl_infos ?c)) (cl_retransmitTargets ?c)"
    using Cons(2) [symmetric] Cons(4,5) one other by (intro Cons(1)) auto
  moreover have "map (buffer_of (cl_infos ?c)) rest = map (buffer_of (cl_infos c)) rest"
    using other by (simp add: buffer_of_def)
  moreover have "buffer_of (cl_infos c) a = ci_buffer info" using i(1) by (simp add: buffer_of_def)
  ultimately show ?case using one by (simp add: Let_def flip: Cons(2))
qed

text \<open>C22: A round of the retransmission thread sends again exactly the packets without a reply
  whose time is over, each once and in the order of their sequences, and no other; none leaves the map
  (as long as none of them reaches the limit of retransmissions and no thread comes between).\<close>

theorem client_retransmits_exactly_the_due:
  assumes "client_ok c" "cl_retransmitTargets c = []" "\<not> cl_threadStopFlag c"
    "\<forall>a info. heap_get a (cl_infos c) = Some info \<longrightarrow>
       Suc (unat (ci_retransmissionCount info)) < unat (ce_maxPacketRetransmissionCount E)"
  shows "let c' = retransmit_all (length (due c)) E (Client_RetransmissionCollect c) in
    cl_sendBufferQueue c' = cl_sendBufferQueue c @ map (buffer_of (cl_infos c)) (due c) \<and>
    cl_sendPacketInfoMap c' = cl_sendPacketInfoMap c \<and> cl_retransmitTargets c' = []"
proof -
  have i: "client_inv {#} {#} c" using assms(1) by (simp add: client_ok_def)
  note s = client_invD(2) [OF i]
  have live: "\<exists>info. heap_get a (cl_infos c) = Some info \<and> ci_sendPacketSequence info = q"
    if "(q, a) \<in> set (cl_sendPacketInfoMap c)" for q a
    using s that by (auto simp: sequences_ok_def info_sequence_def)
  have e: "c\<lparr> cl_retransmitTargets := [] \<rparr> = c" using assms(2) by simp
  let ?c = "Client_RetransmissionCollect c"
  have "\<forall>(q, a) \<in> set (cl_sendPacketInfoMap c). heap_get a (cl_infos c) \<noteq> None" using live by blast
  from collect_targets_due [OF this]
  have c: "cl_retransmitTargets ?c = due c" "cl_sendPacketInfoMap ?c = cl_sendPacketInfoMap c"
    "cl_sendBufferQueue ?c = cl_sendBufferQueue c" "\<not> cl_threadStopFlag ?c" "\<And>x. heap_get x (cl_infos ?c) = heap_get x (cl_infos c)"
    unfolding Client_RetransmissionCollect_def e due_def using assms(2,3) by simp_all
  have "distinct (due c)" using s by (auto simp: due_def sequences_ok_def distinct_map intro: inj_on_subset)
  moreover have "\<exists>info. heap_get a (cl_infos c) = Some info \<and> ci_sendPacketSequence info \<in> fst ` set (cl_sendPacketInfoMap c) \<and>
       Suc (unat (ci_retransmissionCount info)) < unat (ce_maxPacketRetransmissionCount E)" if "a \<in> set (due c)" for a
    using that live assms(4) by (force simp: due_def)
  moreover have "map (buffer_of (cl_infos ?c)) (due c) = map (buffer_of (cl_infos c)) (due c)"
    using c(5) by (simp add: buffer_of_def)
  ultimately show ?thesis using retransmit_all_sends [of ?c E] c by (simp add: Let_def)
qed

theorem client_retransmits_exactly_the_due_witness:
  "let c = sample_waiting\<lparr> cl_nowTick := 20 \<rparr> in
     cl_sendBufferQueue (retransmit_all 1 (sample_client_env\<lparr> ce_maxPacketRetransmissionCount := 5 \<rparr>) (Client_RetransmissionCollect c)) = [20]"
proof -
  let ?c = "sample_waiting\<lparr> cl_nowTick := 20 \<rparr>" and ?E = "sample_client_env\<lparr> ce_maxPacketRetransmissionCount := 5 \<rparr>"
  have "client_inv {#} {#} ?c"
    by (rule client_inv_outside [of "{#}" "{#}" sample_waiting]) (use sample_waiting_ok in \<open>simp_all add: client_ok_def\<close>)
  then have ok: "client_ok ?c" by (simp add: client_ok_def sample_waiting_def)
  have few: "\<forall>a info. heap_get a (cl_infos ?c) = Some info \<longrightarrow>
      Suc (unat (ci_retransmissionCount info)) < unat (ce_maxPacketRetransmissionCount ?E)"
    by (auto simp: heap_get_def sample_waiting_def split: if_splits)
  have d: "due ?c = [0]" "buffer_of (cl_infos sample_waiting) 0 = 20" "cl_sendBufferQueue ?c = []"
    "cl_retransmitTargets ?c = []" "\<not> cl_threadStopFlag ?c"
    by (simp_all add: due_def buffer_of_def heap_get_def sample_waiting_def client_new_def)
  from client_retransmits_exactly_the_due [OF ok d(4,5) few] show ?thesis by (simp add: d(1-3) Let_def)
qed

end
