(* ===== verification/Client_Delivery.thy ===== *)
theory Client_Delivery
  imports Client_Properties
begin

text \<open>
  From the server to the client: the bytes of a packet the server encoded, received as one
  datagram, are cut, decrypted and held under their sequence with the plaintext of the sender.
\<close>

section \<open>The header of an encoded packet\<close>

text \<open>The two pointers into a buffer the receive path copies to: its start, and its write position.\<close>

definition client_copy_law :: "'k ClientEnv \<Rightarrow> bool" where
  "client_copy_law E \<longleftrightarrow>
     (\<forall>bs p. length bs \<le> length (m_pSerializeBuffer p) \<longrightarrow>
        ce_copyToBufferPtr E bs p = p\<lparr> m_pSerializeBuffer := patch 0 bs (m_pSerializeBuffer p) \<rparr>) \<and>
     (\<forall>bs p. unat (m_iWrite p) + length bs \<le> length (m_pSerializeBuffer p) \<longrightarrow>
        ce_copyToWriteBufferPtr E bs p = p\<lparr> m_pSerializeBuffer := patch (unat (m_iWrite p)) bs (m_pSerializeBuffer p) \<rparr>)"

lemma encoded_bytes:
  assumes "netbuffer_laws api" "bcrypt_laws B" "encodable c q p" "length salt = 16"
    and "EncodePacket api B q d (Some salt) (Some k) c p = Some e" "m_bIsEncoded e"
    and "unat (m_iWriteLast e) \<le> length (m_pSerializeBuffer e)" "length (m_pSerializeBuffer e) < 65536"
  shows "unat (m_iWriteLast e) = unat (m_iWrite p) + 16"
    "slice 1 2 (m_pSerializeBuffer e) = le_bytes 2 (of_nat (unat (m_iWrite p) + 11) :: ushort)"
    "slice 5 1 (m_pSerializeBuffer e) = slice 5 1 (m_pSerializeBuffer p)"
    "\<not> c \<Longrightarrow> slice 14 4 (m_pSerializeBuffer e) = slice 14 4 (m_pSerializeBuffer p)"
proof -
  let ?r = "e\<lparr> m_iRead := 6, m_iWrite := m_iWriteLast e \<rparr>" and ?mem1 = "m_pSerializeBuffer (SetHeader api 16 p)"
  have rec: "receives e ?r" using assms(7,8) by (simp add: receives_def)
  have enc: "bodyOffsetWithHeader c \<le> unat (m_iWrite p)" "unat (m_iWrite p) + 16 \<le> length (m_pSerializeBuffer p)"
    "14 \<le> bodyOffsetWithHeader c" "\<not> c \<Longrightarrow> bodyOffsetWithHeader c = 18"
    using assms(3) bodyOffset_cases [of c] by (auto simp: encodable_def)
  have f: "unat (m_iWrite ?r) = unat (m_iWrite p) + 16" by (rule received_slices [OF assms(1-6) rec])
  have head: "slice o2 n (m_pSerializeBuffer ?r) = slice o2 n ?mem1" if "o2 + n \<le> bodyOffsetWithHeader c" for o2 n
  proof (rule received_slices [OF assms(1-6) rec], goal_cases)
    case (1 ct tag nonce)
    from 1(10) [OF that] show ?case .
  qed
  show "unat (m_iWriteLast e) = unat (m_iWrite p) + 16" using f by simp
  have "uint (m_iWrite p) - 5 + 16 = int (unat (m_iWrite p) + 11)" using uint_nat [of "m_iWrite p"] by simp
  then have "?mem1 = patch 1 (le_bytes 2 (of_nat (unat (m_iWrite p) + 11) :: ushort)) ((m_pSerializeBuffer p)[0 := nb_headerCode api])"
    by (simp add: SetHeader_def Let_def add.commute)
  then have "slice 1 2 ?mem1 = le_bytes 2 (of_nat (unat (m_iWrite p) + 11) :: ushort)"
    using enc by (simp add: slice_patch_same)
  then show "slice 1 2 (m_pSerializeBuffer e) = le_bytes 2 (of_nat (unat (m_iWrite p) + 11) :: ushort)"
    using head [of 1 2] enc by simp
  show "slice 5 1 (m_pSerializeBuffer e) = slice 5 1 (m_pSerializeBuffer p)"
    using head [of 5 1] SetHeader_frame(2) [of p 5 1 api 16] enc by simp
  show "slice 14 4 (m_pSerializeBuffer e) = slice 14 4 (m_pSerializeBuffer p)" if "\<not> c"
    using head [of 14 4] SetHeader_frame(2) [of p 14 4 api 16] enc that by simp
qed

section \<open>A packet joins the holding queue\<close>

text \<open>Replying allocates another buffer.\<close>

lemma hp_mem_new_buffer:
  assumes "client_alloc_law E" "hp_mem (cl_buffers c) b \<noteq> None" "new_buffer E content c = (Some x, c')"
  shows "x \<noteq> b" "hp_mem (cl_buffers c') b = hp_mem (cl_buffers c) b"
proof -
  have "hp_mem (cl_buffers c) x = None"
    using assms(3) client_allocD(1) [OF assms(1)] by (auto simp: new_buffer_def split: option.splits)
  then show "x \<noteq> b" using assms(2) by auto
  then show "hp_mem (cl_buffers c') b = hp_mem (cl_buffers c) b"
    using assms(3) by (auto simp: new_buffer_def heap_new_def split: option.splits)
qed

lemma SendReplyToServer_keeps:
  assumes "client_alloc_law E" "hp_mem (cl_buffers c) b \<noteq> None"
  shows "hp_mem (cl_buffers (Client_SendReplyToServer E q t c)) b = hp_mem (cl_buffers c) b"
    "cl_recvPacketHoldingQueue (Client_SendReplyToServer E q t c) = cl_recvPacketHoldingQueue c"
proof -
  have encode: "hp_mem (cl_buffers (client_enqueue x (client_encode E x q d core c'))) b = hp_mem (cl_buffers c') b"
    "cl_recvPacketHoldingQueue (client_enqueue x (client_encode E x q d core c')) = cl_recvPacketHoldingQueue c'"
    if "x \<noteq> b" for x d core and c' :: "'a Client"
    using that by (auto simp: client_enqueue_def client_encode_def client_fault_def heap_update_def upd_buffers_def split: option.split)
  define content where "content = nb_write (ce_api E) (le_bytes 8 q) (nb_write (ce_api E) [PACKET_TYPE_byte t] (nb_Alloc (ce_api E)))"
  obtain ox c1 where n: "new_buffer E content c = (ox, c1)" by (cases "new_buffer E content c")
  have held: "cl_recvPacketHoldingQueue c1 = cl_recvPacketHoldingQueue c"
    using n by (auto simp: new_buffer_def split: option.splits)
  have "hp_mem (cl_buffers (Client_SendReplyToServer E q t c)) b = hp_mem (cl_buffers c) b \<and>
    cl_recvPacketHoldingQueue (Client_SendReplyToServer E q t c) = cl_recvPacketHoldingQueue c"
  proof (cases ox)
    case None
    then show ?thesis using n held
      by (auto simp: Client_SendReplyToServer_def content_def [symmetric] client_fault_def Let_def new_buffer_def split: option.splits)
  next
    case (Some x)
    then have n: "new_buffer E content c = (Some x, c1)" using n by simp
    show ?thesis using hp_mem_new_buffer [OF assms n] held encode [of x _ _ c1] n
      by (simp add: Client_SendReplyToServer_def content_def [symmetric] Let_def)
  qed
  then show "hp_mem (cl_buffers (Client_SendReplyToServer E q t c)) b = hp_mem (cl_buffers c) b"
    "cl_recvPacketHoldingQueue (Client_SendReplyToServer E q t c) = cl_recvPacketHoldingQueue c" by simp_all
qed

text \<open>A decrypted packet in a buffer with one reference.\<close>

lemma hold_packet_effect:
  assumes "client_alloc_law E" "read_law (ce_api E)" "hp_mem (cl_buffers c) b = Some (x, n)"
    "m_iRead p = 6" "18 \<le> length (m_pSerializeBuffer p)" "length (m_pSerializeBuffer p) < 65536"
    "slice 6 8 (m_pSerializeBuffer p) = le_bytes 8 q"
  shows "cl_recvPacketHoldingQueue (hold_packet E b SEND_TYPE p c) =
      insort_key ri_packetSequence \<lparr> ri_buffer = b, ri_packetSequence = q, ri_packetType = SEND_TYPE \<rparr> (cl_recvPacketHoldingQueue c)"
    "hp_mem (cl_buffers (hold_packet E b SEND_TYPE p c)) b = Some (p\<lparr> m_iRead := 14 \<rparr>, n + 1)"
proof -
  have r1: "nb_read (ce_api E) 8 p = (le_bytes 8 q, p\<lparr> m_iRead := 14 \<rparr>)"
    using assms(2,4-7) by (simp add: read_law_def)
  obtain bs where r2: "nb_read (ce_api E) 4 (p\<lparr> m_iRead := 14 \<rparr>) = (bs, p\<lparr> m_iRead := 18 \<rparr>)"
    using assms(2,5,6) by (simp add: read_law_def)
  let ?c1 = "NetBuffer_AddRefCount b (upd_buffers (heap_update b (\<lambda>_. p\<lparr> m_iRead := 14 \<rparr>)) c)"
  let ?h = "\<lparr> ri_buffer = b, ri_packetSequence = q, ri_packetType = SEND_TYPE \<rparr>"
  let ?c2 = "?c1\<lparr> cl_recvPacketHoldingQueue := insort_key ri_packetSequence ?h (cl_recvPacketHoldingQueue c) \<rparr>"
  have m: "hp_mem (cl_buffers ?c2) b = Some (p\<lparr> m_iRead := 14 \<rparr>, n + 1)"
    using assms(3) by (simp add: buffer_op_defs heap_update_def heap_AddRefCount_def)
  have "hold_packet E b SEND_TYPE p c = (if ce_ShouldSendReplyToServer E q (le_word bs)
      then Client_SendReplyToServer E q SEND_REPLY_TYPE ?c2 else ?c2)"
    by (simp add: hold_packet_def r1 r2 le_word_le_bytes buffer_op_defs Let_def)
  then show "cl_recvPacketHoldingQueue (hold_packet E b SEND_TYPE p c) = insort_key ri_packetSequence ?h (cl_recvPacketHoldingQueue c)"
    "hp_mem (cl_buffers (hold_packet E b SEND_TYPE p c)) b = Some (p\<lparr> m_iRead := 14 \<rparr>, n + 1)"
    using m SendReplyToServer_keeps [OF assms(1), of ?c2 b q SEND_REPLY_TYPE] by simp_all
qed

section \<open>A datagram of one packet\<close>

lemma slice_patch_front: "o2 + n \<le> length bs \<Longrightarrow> slice o2 n (patch 0 bs mem) = slice o2 n bs"
  by (simp add: slice_def patch_def)

lemma slice_slice: "o2 + n \<le> m \<Longrightarrow> slice o2 n (slice 0 m mem) = slice o2 n mem"
  by (simp add: slice_def drop_take)

text \<open>\<open>carries e recvBuffer\<close>: the receive buffer holds the bytes \<open>e\<close> was sent with, to be read from the start.\<close>

definition carries :: "NetBuffer \<Rightarrow> NetBuffer \<Rightarrow> bool" where
  "carries e recvBuffer \<longleftrightarrow> m_iRead recvBuffer = 0 \<and> unat (m_iWriteLast e) \<le> length (m_pSerializeBuffer recvBuffer) \<and>
     length (m_pSerializeBuffer recvBuffer) < 65536 \<and>
     take (unat (m_iWriteLast e)) (m_pSerializeBuffer recvBuffer) = take (unat (m_iWriteLast e)) (m_pSerializeBuffer e)"

lemma OnRecvStream_one_packet:
  assumes "read_law (ce_api E)" "client_copy_law E" "carries e recvBuffer"
    "slice 1 2 (m_pSerializeBuffer e) = le_bytes 2 (of_nat (W - 5) :: ushort)" "W = unat (m_iWriteLast e)" "5 < W"
    "m_iWrite (nb_Alloc (ce_api E)) = 5" "W \<le> length (m_pSerializeBuffer (nb_Alloc (ce_api E)))" "W \<le> ce_dfDEFAULTSIZE E"
    "\<And>x. \<exists>b. new_buffer E x c = (Some b, upd_buffers (heap_new b x) c)"
  shows "\<exists>b p0 p. new_buffer E p0 c = (Some b, upd_buffers (heap_new b p0) c) \<and>
    m_iRead p = 5 \<and> m_iWrite p = of_nat W \<and> length (m_pSerializeBuffer p) = length (m_pSerializeBuffer (nb_Alloc (ce_api E))) \<and>
    take W (m_pSerializeBuffer p) = take W (m_pSerializeBuffer e) \<and>
    Client_OnRecvStream E recvBuffer (int W) c
      = NetBuffer_Free b (Client_ProcessRecvPacket E b (upd_buffers (heap_update b (\<lambda>_. p)) (upd_buffers (heap_new b p0) c)))"
proof -
  let ?A = "nb_Alloc (ce_api E)" and ?R = "m_pSerializeBuffer recvBuffer"
  have R: "m_iRead recvBuffer = 0" "W \<le> length ?R" "length ?R < 65536" "take W ?R = take W (m_pSerializeBuffer e)"
    using assms(3,5) by (simp_all add: carries_def)
  let ?header = "slice 0 5 ?R" and ?payload = "slice 5 (W - 5) ?R"
  have h: "nb_read (ce_api E) df_HEADER_SIZE recvBuffer = (?header, recvBuffer\<lparr> m_iRead := 5 \<rparr>)"
    using assms(1,6) R by (simp add: read_law_def)
  have r: "nb_read (ce_api E) (W - 5) (recvBuffer\<lparr> m_iRead := 5 \<rparr>) = (?payload, recvBuffer\<lparr> m_iRead := 5 + of_nat (W - 5) \<rparr>)"
    using assms(1,6) R by (simp add: read_law_def)
  let ?first = "(ce_copyToBufferPtr E ?header ?A)\<lparr> m_iRead := 0 \<rparr>"
  have len: "length ?header = 5" "length ?payload = W - 5" using R(2) assms(6) by simp_all
  have p0: "ce_copyToBufferPtr E ?header ?A = ?A\<lparr> m_pSerializeBuffer := patch 0 ?header (m_pSerializeBuffer ?A) \<rparr>"
    using assms(2,6,8) len(1) unfolding client_copy_law_def by simp
  have "slice 1 2 (m_pSerializeBuffer ?first) = slice 1 2 ?R"
    using len(1) by (simp add: p0 slice_patch_front slice_slice)
  also have "\<dots> = le_bytes 2 (of_nat (W - 5) :: ushort)"
    using same_prefix_slice [OF R(4), of 1 2] assms(4,6) by simp
  finally have l: "Client_GetPayloadLength ?first = of_nat (W - 5)"
    by (simp add: Client_GetPayloadLength_def le_word_le_bytes)
  have un: "unat (of_nat (W - 5) :: ushort) = W - 5" using R(2,3) by (simp add: unat_of_nat)
  let ?copied = "ce_copyToWriteBufferPtr E ?payload ?first"
  let ?whole = "?copied\<lparr> m_iRead := of_nat df_HEADER_SIZE, m_iWrite := word_of_int (uint (of_nat (W - 5) :: ushort) + int df_HEADER_SIZE) \<rparr>"
  have wr: "unat (m_iWrite ?first) = 5" using assms(7) by (simp add: p0)
  have p1: "?copied = ?first\<lparr> m_pSerializeBuffer := patch 5 ?payload (m_pSerializeBuffer ?first) \<rparr>"
    using assms(2,6,8) len wr unfolding client_copy_law_def by (simp add: p0)
  have size: "uint (of_nat (W - 5) :: ushort) + int df_HEADER_SIZE = int W"
    using un assms(6) by (simp add: uint_nat del: of_nat_unat)
  have mem: "m_pSerializeBuffer ?whole = patch 5 ?payload (patch 0 ?header (m_pSerializeBuffer ?A))"
    using p1 by (simp add: p0)
  have bytes: "take W (m_pSerializeBuffer ?whole) = take W (m_pSerializeBuffer e)"
  proof -
    have "take W (m_pSerializeBuffer ?whole) = ?header @ ?payload"
      unfolding mem using len assms(6) by (simp add: patch_def)
    also have "\<dots> = take W ?R" using assms(6) append_take_drop_id [of 5 "take W ?R"] by (simp add: slice_def take_drop min_def)
    finally show ?thesis by (simp add: R(4))
  qed
  obtain b where b: "new_buffer E ?first c = (Some b, upd_buffers (heap_new b ?first) c)" using assms(10) by blast
  have guard: "\<not> ((of_nat (W - 5) :: ushort) = 0 \<or> unat (of_nat (W - 5) :: ushort) > ce_dfDEFAULTSIZE E \<or> uint (of_nat (W - 5) :: ushort) > int W)"
    using un size assms(6,9) by (auto simp: unat_eq_zero [symmetric])
  have more: "int W > int df_HEADER_SIZE" using assms(6) by simp
  have rest: "Client_OnRecvStream E x 0 d = d" for x and d :: "'a Client" by (subst Client_OnRecvStream.simps) simp
  have "Client_OnRecvStream E recvBuffer (int W) c
      = NetBuffer_Free b (Client_ProcessRecvPacket E b (upd_buffers (heap_update b (\<lambda>_. ?whole)) (upd_buffers (heap_new b ?first) c)))"
    using guard more
    by (subst Client_OnRecvStream.simps)
       (simp only: h l b un r size rest Let_def prod.case option.case if_False if_True diff_self simp_thms)
  moreover have "length (m_pSerializeBuffer ?whole) = length (m_pSerializeBuffer ?A)"
    unfolding mem using len assms(6,8) by simp
  moreover have "m_iWrite ?whole = of_nat W" using size by simp
  ultimately show ?thesis using b bytes by (intro exI [of _ b] exI [of _ ?first] exI [of _ ?whole]) simp
qed

section \<open>From the server to the holding queue\<close>

lemma ProcessRecvPacket_holds:
  assumes "client_alloc_law E" "netbuffer_laws (ce_api E)" "bcrypt_laws (ce_bcrypt E)" "encodable False q p"
    and "si_sessionSalt (cl_session c) = salt" "length salt = 16" "si_sessionKeyHandle (cl_session c) = Some k"
    and "EncodePacket (ce_api E) (ce_bcrypt E) q SERVER_TO_CLIENT (Some salt) (Some k) False p = Some e" "m_bIsEncoded e"
    and "slice 5 1 (m_pSerializeBuffer e) = [PACKET_TYPE_byte SEND_TYPE]"
    and "hp_mem (cl_buffers c) b = Some (r, n)" "m_iRead r = 5" "receives e (r\<lparr> m_iRead := 6 \<rparr>)"
  shows "\<exists>r'. cl_recvPacketHoldingQueue (Client_ProcessRecvPacket E b c) =
      insort_key ri_packetSequence \<lparr> ri_buffer = b, ri_packetSequence = q, ri_packetType = SEND_TYPE \<rparr> (cl_recvPacketHoldingQueue c) \<and>
    hp_mem (cl_buffers (Client_ProcessRecvPacket E b c)) b = Some (r', n + 1) \<and> m_iRead r' = 14 \<and>
    m_pSerializeBuffer r' = patch 18 (packet_body False p) (m_pSerializeBuffer r)"
proof -
  have rl: "read_law (ce_api E)" using assms(2) by (simp add: netbuffer_laws_def)
  let ?mem = "m_pSerializeBuffer r" and ?r = "r\<lparr> m_iRead := 6 \<rparr>"
  have off: "bodyOffsetWithHeader False = 18" by (simp add: bodyOffsetWithHeader_def)
  have w: "18 \<le> unat (m_iWrite p)" using assms(4) off by (simp add: encodable_def)
  have len: "unat (m_iWrite p) + 16 \<le> length ?mem" "slice 6 8 ?mem = le_bytes 8 q"
    by (rule received_slices [OF assms(2,3,4,6,8,9,13)]; simp)+
  have cap: "length ?mem < 65536" "take (unat (m_iWriteLast e)) ?mem = take (unat (m_iWriteLast e)) (m_pSerializeBuffer e)"
    "unat (m_iWriteLast e) = unat (m_iWrite p) + 16"
    using assms(13) received_slices [OF assms(2,3,4,6,8,9,13)] by (simp_all add: receives_def) 
  have "slice 5 1 ?mem = [PACKET_TYPE_byte SEND_TYPE]"
    using same_prefix_slice [OF cap(2), of 5 1] assms(10) cap(3) w by simp
  then have read: "nb_read (ce_api E) 1 r = ([PACKET_TYPE_byte SEND_TYPE], ?r)"
    using rl assms(12) len cap(1) by (simp add: read_law_def)
  let ?whole = "?r\<lparr> m_pSerializeBuffer := patch 18 (packet_body False p) ?mem \<rparr>"
  have dec: "DecodePacket (ce_api E) (ce_bcrypt E) (Some salt) (Some k) False SERVER_TO_CLIENT ?r = Some (True, ?whole)"
    using decode_of_encoded [OF assms(2,3,4,6,8,9,13)] off by simp
  have code: "PACKET_TYPE_of (le_word [PACKET_TYPE_byte SEND_TYPE]) = Some SEND_TYPE" by code_simp
  have step: "Client_ProcessRecvPacket E b c = hold_packet E b SEND_TYPE ?whole c"
    using assms(5,7,11) read dec code by (simp add: Client_ProcessRecvPacket_def heap_get_def Let_def)
  have body: "18 + length (packet_body False p) \<le> length ?mem"
    using assms(4) len w off by (simp add: packet_body_def encodable_def)
  have "slice 6 8 (patch 18 (packet_body False p) ?mem) = le_bytes 8 q"
    using slice_patch_other [OF body, of 6 8] len w by simp
  from hold_packet_effect [OF assms(1) rl assms(11), of ?whole q] this body len cap(1) w show ?thesis
    unfolding step by (intro exI [of _ "?whole\<lparr> m_iRead := 14 \<rparr>"]) simp
qed

lemma slice_add: "slice o2 (m + n) mem = slice o2 m mem @ slice (o2 + m) n mem"
  by (simp add: slice_def take_add add.commute)

lemma encoded_length:
  assumes "netbuffer_laws api" "bcrypt_laws B" "encodable c q p" "length salt = 16"
    and "EncodePacket api B q d (Some salt) (Some k) c p = Some e" "m_bIsEncoded e"
  shows "length (m_pSerializeBuffer e) = length (m_pSerializeBuffer p)" "unat (m_iWriteLast e) = unat (m_iWrite p) + 16"
proof -
  let ?off = "bodyOffsetWithHeader c" and ?w = "unat (m_iWrite p)" and ?mem1 = "m_pSerializeBuffer (SetHeader api 16 p)"
  obtain ct tag nonce where s: "m_pSerializeBuffer e = patch ?w tag (patch ?off ct ?mem1)"
    "unat (m_iWriteLast e) = ?w + 16" "length ct = ?w - ?off" "length tag = 16"
    using EncodePacket_success [OF assms] by metis
  have enc: "?off \<le> ?w" "?w + 16 \<le> length (m_pSerializeBuffer p)" using assms(3) by (simp_all add: encodable_def)
  then show "length (m_pSerializeBuffer e) = length (m_pSerializeBuffer p)"
    using s SetHeader_frame(1) [of p api 16] by simp
  show "unat (m_iWriteLast e) = ?w + 16" by (rule s(2))
qed

text \<open>The packet id, which is not encrypted, and the body behind it.\<close>

lemma decrypted_bytes:
  assumes "encodable False q p" "take W mem = take W (m_pSerializeBuffer e)"
    "slice 14 4 (m_pSerializeBuffer e) = slice 14 4 (m_pSerializeBuffer p)" "W = unat (m_iWrite p) + 16" "W \<le> length mem"
  shows "slice 14 (unat (m_iWrite p) - 14) (patch 18 (packet_body False p) mem)
    = slice 14 (unat (m_iWrite p) - 14) (m_pSerializeBuffer p)"
proof -
  let ?w = "unat (m_iWrite p)"
  have enc: "18 \<le> ?w" "?w + 16 \<le> length (m_pSerializeBuffer p)"
    using assms(1) by (simp_all add: encodable_def bodyOffsetWithHeader_def)
  have body: "packet_body False p = slice 18 (?w - 18) (m_pSerializeBuffer p)" "length (packet_body False p) = ?w - 18"
    using enc by (simp_all add: packet_body_def bodyOffsetWithHeader_def)
  have fit: "18 + length (packet_body False p) \<le> length mem" using body(2) assms(4,5) enc(1) by simp
  have "slice 14 4 (patch 18 (packet_body False p) mem) = slice 14 4 mem"
    using slice_patch_other [OF fit, of 14 4] fit by simp
  also have "\<dots> = slice 14 4 (m_pSerializeBuffer p)"
    using same_prefix_slice [OF assms(2), of 14 4] assms(3,4) enc(1) by simp
  moreover have "slice 18 (?w - 18) (patch 18 (packet_body False p) mem) = slice 18 (?w - 18) (m_pSerializeBuffer p)"
    using slice_patch_same [OF fit, of "?w - 18"] body by simp
  moreover have split: "?w - 14 = 4 + (?w - 18)" using enc(1) by simp
  ultimately show ?thesis unfolding split slice_add by simp
qed

lemma server_packet_held:
  assumes "client_ok c" "client_alloc_law E" "client_copy_law E" "netbuffer_laws (ce_api E)" "bcrypt_laws (ce_bcrypt E)"
    and "encodable False q p" "slice 5 1 (m_pSerializeBuffer p) = [PACKET_TYPE_byte SEND_TYPE]"
    and "EncodePacket (ce_api E) (ce_bcrypt E) q SERVER_TO_CLIENT (Some salt) (Some k) False p = Some e" "m_bIsEncoded e"
    and "si_sessionSalt (cl_session c) = salt" "length salt = 16" "si_sessionKeyHandle (cl_session c) = Some k"
    and "carries e recvBuffer" "m_iWrite (nb_Alloc (ce_api E)) = 5"
    and "unat (m_iWriteLast e) \<le> length (m_pSerializeBuffer (nb_Alloc (ce_api E)))"
    and "length (m_pSerializeBuffer (nb_Alloc (ce_api E))) < 65536" "unat (m_iWriteLast e) \<le> ce_dfDEFAULTSIZE E"
  shows "\<exists>b r. cl_recvPacketHoldingQueue (Client_OnRecvStream E recvBuffer (int (unat (m_iWriteLast e))) c) =
      insort_key ri_packetSequence \<lparr> ri_buffer = b, ri_packetSequence = q, ri_packetType = SEND_TYPE \<rparr> (cl_recvPacketHoldingQueue c) \<and>
    heap_get b (cl_buffers (Client_OnRecvStream E recvBuffer (int (unat (m_iWriteLast e))) c)) = Some r \<and> m_iRead r = 14 \<and>
    length (m_pSerializeBuffer r) = length (m_pSerializeBuffer (nb_Alloc (ce_api E))) \<and>
    slice 14 (unat (m_iWrite p) - 14) (m_pSerializeBuffer r) = slice 14 (unat (m_iWrite p) - 14) (m_pSerializeBuffer p)"
proof -
  let ?W = "unat (m_iWriteLast e)" and ?w = "unat (m_iWrite p)"
  have rl: "read_law (ce_api E)" using assms(4) by (simp add: netbuffer_laws_def)
  have enc: "18 \<le> ?w" "length (m_pSerializeBuffer p) < 65536" "?w + 16 \<le> length (m_pSerializeBuffer p)"
    using assms(6) by (simp_all add: encodable_def bodyOffsetWithHeader_def)
  note l = encoded_length [OF assms(4-6,11,8,9)]
  note eb = encoded_bytes [OF assms(4-6,11,8,9), unfolded l, OF enc(3,2)]
  have sz: "slice 1 2 (m_pSerializeBuffer e) = le_bytes 2 (of_nat (?W - 5) :: ushort)"
    using eb(2) by (simp add: l(2) add.commute)
  have i: "client_inv {#} {#} c" using assms(1) by (simp add: client_ok_def)
  have five: "5 < ?W" using l(2) enc(1) by simp
  obtain b first r0 where one: "new_buffer E first c = (Some b, upd_buffers (heap_new b first) c)"
    "m_iRead r0 = 5" "m_iWrite r0 = of_nat ?W" "length (m_pSerializeBuffer r0) = length (m_pSerializeBuffer (nb_Alloc (ce_api E)))"
    "take ?W (m_pSerializeBuffer r0) = take ?W (m_pSerializeBuffer e)"
    "Client_OnRecvStream E recvBuffer (int ?W) c = NetBuffer_Free b (Client_ProcessRecvPacket E b
       (upd_buffers (heap_update b (\<lambda>_. r0)) (upd_buffers (heap_new b first) c)))"
    using OnRecvStream_one_packet [OF rl assms(3,13) sz refl five assms(14,15,17) new_buffer_total [OF assms(2) i]] by blast
  let ?c = "upd_buffers (heap_update b (\<lambda>_. r0)) (upd_buffers (heap_new b first) c)"
  have cell: "hp_mem (cl_buffers ?c) b = Some (r0, 1)" by (simp add: heap_update_def heap_new_def)
  have rec: "receives e (r0\<lparr> m_iRead := 6 \<rparr>)" using one(3-5) assms(15,16) by (simp add: receives_def)
  have code: "slice 5 1 (m_pSerializeBuffer e) = [PACKET_TYPE_byte SEND_TYPE]" using eb(3) assms(7) by simp
  obtain r where r: "cl_recvPacketHoldingQueue (Client_ProcessRecvPacket E b ?c) =
      insort_key ri_packetSequence \<lparr> ri_buffer = b, ri_packetSequence = q, ri_packetType = SEND_TYPE \<rparr> (cl_recvPacketHoldingQueue c)"
    "hp_mem (cl_buffers (Client_ProcessRecvPacket E b ?c)) b = Some (r, 2)" "m_iRead r = 14"
    "m_pSerializeBuffer r = patch 18 (packet_body False p) (m_pSerializeBuffer r0)"
    using ProcessRecvPacket_holds [OF assms(2,4-6) _ assms(11) _ assms(8,9) code cell one(2) rec] assms(10,12) by auto
  have "slice 14 (?w - 14) (m_pSerializeBuffer r) = slice 14 (?w - 14) (m_pSerializeBuffer p)"
    unfolding r(4) using decrypted_bytes [OF assms(6) one(5) _ l(2)] eb(4) one(4) assms(15) by simp
  moreover have "length (m_pSerializeBuffer r) = length (m_pSerializeBuffer (nb_Alloc (ce_api E)))"
    unfolding r(4) using enc l(2) one(4) assms(15) by (simp add: packet_body_def bodyOffsetWithHeader_def slice_def)
  moreover have "heap_get b (cl_buffers (NetBuffer_Free b (Client_ProcessRecvPacket E b ?c))) = Some r"
    using r(2) by (simp add: buffer_op_defs heap_Free_def heap_get_def)
  ultimately show ?thesis unfolding one(6) using r(1,3) by (intro exI [of _ b] exI [of _ r]) (simp add: buffer_op_defs)
qed

text \<open>C11: A packet of the content the server encoded reaches the client: when its bytes arrive as one
  datagram and the client has the same key and salt, the packet is put into the holding queue at the place of the
  sender's sequence, and its buffer stands at the packet id with the id and the
  plaintext body exactly as the server wrote them, whatever the client was doing.\<close>

theorem client_receives_server_packet:
  assumes "client_ok c" "client_alloc_law E" "client_copy_law E" "netbuffer_laws (ce_api E)" "bcrypt_laws (ce_bcrypt E)"
    and "encodable False q p" "slice 5 1 (m_pSerializeBuffer p) = [PACKET_TYPE_byte SEND_TYPE]"
    and "EncodePacket (ce_api E) (ce_bcrypt E) q SERVER_TO_CLIENT (Some salt) (Some k) False p = Some e" "m_bIsEncoded e"
    and "si_sessionSalt (cl_session c) = salt" "length salt = 16" "si_sessionKeyHandle (cl_session c) = Some k"
    and "carries e recvBuffer" "m_iWrite (nb_Alloc (ce_api E)) = 5"
    and "unat (m_iWriteLast e) \<le> length (m_pSerializeBuffer (nb_Alloc (ce_api E)))"
    and "length (m_pSerializeBuffer (nb_Alloc (ce_api E))) < 65536" "unat (m_iWriteLast e) \<le> ce_dfDEFAULTSIZE E"
  shows "\<exists>b r. cl_recvPacketHoldingQueue (Client_OnRecvStream E recvBuffer (int (unat (m_iWriteLast e))) c) =
      insort_key ri_packetSequence \<lparr> ri_buffer = b, ri_packetSequence = q, ri_packetType = SEND_TYPE \<rparr> (cl_recvPacketHoldingQueue c) \<and>
    heap_get b (cl_buffers (Client_OnRecvStream E recvBuffer (int (unat (m_iWriteLast e))) c)) = Some r \<and> m_iRead r = 14 \<and>
    slice 14 (unat (m_iWrite p) - 14) (m_pSerializeBuffer r) = slice 14 (unat (m_iWrite p) - 14) (m_pSerializeBuffer p)"
  using server_packet_held [OF assms] by blast

definition sample_packet :: NetBuffer where
  "sample_packet = \<lparr> m_pSerializeBuffer = replicate 5 0 @ [PACKET_TYPE_byte SEND_TYPE] @ le_bytes 8 (1 :: PacketSequence) @ [9, 0, 0, 0, 1, 2, 3] @ replicate 43 0,
     m_iRead = 5, m_iWrite = 21, m_iWriteLast = 0, m_bIsEncoded = False \<rparr>"

theorem client_receives_server_packet_witness:
  "\<exists>recvBuffer n c b r. cl_recvPacketHoldingQueue (Client_OnRecvStream sample_client_env recvBuffer n c) =
      [\<lparr> ri_buffer = b, ri_packetSequence = 1, ri_packetType = SEND_TYPE \<rparr>] \<and>
    heap_get b (cl_buffers (Client_OnRecvStream sample_client_env recvBuffer n c)) = Some r \<and>
    slice 14 7 (m_pSerializeBuffer r) = [9, 0, 0, 0, 1, 2, 3]"
proof -
  let ?salt = "replicate 16 1" and ?E = sample_client_env
  let ?c = "client_new 0 (blank_info\<lparr> si_sessionSalt := ?salt, si_sessionKeyHandle := Some () \<rparr>)"
  have E: "ce_api ?E = documented_api" "ce_bcrypt ?E = toy_bcrypt" "ce_dfDEFAULTSIZE ?E = 64"
    by (simp_all add: sample_client_env_def)
  have copy: "client_copy_law ?E" by (simp add: client_copy_law_def sample_client_env_def)
  have enc: "encodable False 1 sample_packet" "slice 5 1 (m_pSerializeBuffer sample_packet) = [PACKET_TYPE_byte SEND_TYPE]"
    "slice 14 7 (m_pSerializeBuffer sample_packet) = [9, 0, 0, 0, 1, 2, 3]" "unat (m_iWrite sample_packet) = 21"
    "length (m_pSerializeBuffer sample_packet) = 64"
    by (simp_all add: encodable_def sample_packet_def bodyOffsetWithHeader_def slice_def)
  obtain e where e: "EncodePacket documented_api toy_bcrypt 1 SERVER_TO_CLIENT (Some ?salt) (Some ()) False sample_packet = Some e" "m_bIsEncoded e"
    using EncodePacket_total [OF documented_api_laws toy_bcrypt_laws enc(1), of ?salt "()" SERVER_TO_CLIENT]
    by (auto simp: toy_bcrypt_def)
  have l: "length (m_pSerializeBuffer e) = 64" "unat (m_iWriteLast e) = 37"
    using encoded_length [OF documented_api_laws toy_bcrypt_laws enc(1) _ e] enc(4,5) by simp_all
  have "carries e (e\<lparr> m_iRead := 0 \<rparr>)" using l by (simp add: carries_def)
  from client_receives_server_packet [of ?c ?E 1 sample_packet ?salt "()" e, unfolded E,
      OF client_new_ok sample_client_alloc copy documented_api_laws toy_bcrypt_laws enc(1,2) e _ _ _ this] l enc(3,4)
  show ?thesis by (simp add: client_new_def documented_api_def) blast
qed

end
