(* ===== verification/Tls_Stream.thy ===== *)
theory Tls_Stream
  imports Session_Getter
begin

text \<open>
  The session of the broker over TLS: how \<open>TrySetTargetSessionInfo\<close> turns what it receives into plaintext, and that the
  client reads the message of the broker however the network cuts the bytes into pieces.
\<close>

section \<open>Receiving and decrypting\<close>

text \<open>\<open>maxTlsPacketSize\<close>: the size of the buffer for the plaintext.\<close>

definition maxTlsPacketSize :: nat where "maxTlsPacketSize = 16 * 1024 + 512"

text \<open>What each piece received gives, with the bytes of the stream that wait for the rest of their record.\<close>

fun broker_events :: "'c TlsApi \<Rightarrow> byte list list \<Rightarrow> byte list \<Rightarrow> 'c TLSHelper \<Rightarrow> BrokerEvent list option" where
  "broker_events api [] encryptedStream th = Some []"
| "broker_events api (received # pieces) encryptedStream th =
     (case TLSHelper_DecryptDataStream api (encryptedStream @ received) maxTlsPacketSize th of
        None \<Rightarrow> None
      | Some (result, rest, plain, th1) \<Rightarrow>
          if result = TlsError then Some [RecvData result plain]
          else map_option ((#) (RecvData result plain)) (broker_events api pieces rest th1))"

section \<open>Any pieces\<close>

lemma strict_prefix_append: "ys \<noteq> [] \<Longrightarrow> strict_prefix xs (xs @ ys)"
  by (simp add: strict_prefix_def)

text \<open>The bytes of the closing notification: nothing, until it is complete.\<close>

lemma events_of_notification:
  assumes "\<And>x. strict_prefix x note \<Longrightarrow> x \<noteq> [] \<Longrightarrow> \<exists>bs. tls_DecryptMessage api cd x = (SEC_E_INCOMPLETE_MESSAGE, bs, cd)"
    "tls_DecryptMessage api cd note = (SEC_I_CONTEXT_EXPIRED, bs, cd')"
    "x @ concat pieces = note" "strict_prefix x note" "[] \<notin> set pieces" "th_handshakeCompleted th" "th_ctxtHandle th = Some cd"
  shows "\<exists>j. broker_events api pieces x th = Some (replicate j (RecvData TlsNone []) @ [RecvData TlsCloseNotify []])"
  using assms(3-7)
proof (induction pieces arbitrary: x th)
  case Nil
  then show ?case by simp
next
  case (Cons piece pieces)
  let ?y = "x @ piece"
  have ne: "?y \<noteq> []" using Cons.prems(3) by auto
  show ?case
  proof (cases "concat pieces = []")
    case True
    then have "pieces = []" "?y = note" using Cons.prems(1,3) by (auto simp: concat_eq_Nil_conv) (cases pieces, auto)
    then show ?thesis using Cons.prems(4,5) decrypt_expired [OF ne, of api cd bs cd' "[]"] assms(2)
      by (auto simp: TLSHelper_DecryptDataStream_def intro!: exI [of _ 0])
  next
    case False
    then have sp: "strict_prefix ?y note" using Cons.prems(1) strict_prefix_append [of "concat pieces" ?y] by simp
    then obtain bs where d: "tls_DecryptMessage api cd ?y = (SEC_E_INCOMPLETE_MESSAGE, bs, cd)" using assms(1) ne by blast
    let ?th = "th\<lparr> th_ctxtHandle := Some cd, th_bufferOverrun := (th_bufferOverrun th \<or> 0 > maxTlsPacketSize) \<rparr>"
    obtain j where "broker_events api pieces ?y ?th = Some (replicate j (RecvData TlsNone []) @ [RecvData TlsCloseNotify []])"
      using Cons.IH [of ?y ?th] Cons.prems sp by auto
    then have "broker_events api (piece # pieces) x th = Some (replicate (Suc j) (RecvData TlsNone []) @ [RecvData TlsCloseNotify []])"
      using Cons.prems(4,5) decrypt_incomplete [OF ne d, of "[]"] by (simp add: TLSHelper_DecryptDataStream_def)
    then show ?thesis by blast
  qed
qed

text \<open>What a record and the notification behind it give, however they are cut: nothing while the record is incomplete, its
  plaintext, and the closing, with the plaintext or later.\<close>

definition closing :: "BrokerEvent list \<Rightarrow> bool" where
  "closing es \<longleftrightarrow> (\<exists>j. es = replicate j (RecvData TlsNone []) @ [RecvData TlsCloseNotify []])"

definition one_record :: "byte list \<Rightarrow> BrokerEvent list \<Rightarrow> bool" where
  "one_record plain es \<longleftrightarrow>
     (\<exists>i result tail. es = replicate i (RecvData TlsNone []) @ RecvData result plain # tail \<and>
        (result = TlsCloseNotify \<and> tail = [] \<or> result \<in> {TlsNone, TlsPlainData} \<and> closing tail))"

lemma one_record_wait: "one_record plain es \<Longrightarrow> one_record plain (RecvData TlsNone [] # es)"
  unfolding one_record_def by (metis append_Cons replicate_Suc)

lemma events_of_record:
  assumes "\<And>rest. \<exists>bs cd'. tls_DecryptMessage api cd (rcd @ rest) = (SEC_E_OK, bs, cd') \<and> data_buffer bs = plain \<and>
      extra_buffer bs = (if rest = [] then None else Some rest) \<and> reads cd'"
    "\<And>x. strict_prefix x rcd \<Longrightarrow> x \<noteq> [] \<Longrightarrow> \<exists>bs. tls_DecryptMessage api cd x = (SEC_E_INCOMPLETE_MESSAGE, bs, cd)"
    "\<And>cd'. reads cd' \<Longrightarrow> note \<noteq> [] \<and> (\<exists>bs cd''. tls_DecryptMessage api cd' note = (SEC_I_CONTEXT_EXPIRED, bs, cd'')) \<and>
      (\<forall>x. strict_prefix x note \<longrightarrow> x \<noteq> [] \<longrightarrow> (\<exists>bs. tls_DecryptMessage api cd' x = (SEC_E_INCOMPLETE_MESSAGE, bs, cd')))"
    "plain \<noteq> []" "rcd \<noteq> []"
    "x @ concat pieces = rcd @ note" "strict_prefix x rcd" "[] \<notin> set pieces" "th_handshakeCompleted th" "th_ctxtHandle th = Some cd"
  shows "\<exists>es. broker_events api pieces x th = Some es \<and> one_record plain es"
  using assms(6-10)
proof (induction pieces arbitrary: x th)
  case Nil
  then show ?case using prefix_length_le [of rcd x] by (auto simp: strict_prefix_def prefix_def)
next
  case (Cons piece pieces)
  let ?y = "x @ piece"
  have ne: "?y \<noteq> []" using Cons.prems(3) by auto
  have y: "?y @ concat pieces = rcd @ note" using Cons.prems(1) by simp
  show ?case
  proof (cases "length ?y < length rcd")
    case True
    have "prefix ?y (rcd @ note)" "prefix rcd (rcd @ note)" using y by (metis prefixI) simp
    with True have sp: "strict_prefix ?y rcd"
      by (metis prefix_length_prefix less_imp_le_nat nat_neq_iff strict_prefix_def)
    then obtain bs where d: "tls_DecryptMessage api cd ?y = (SEC_E_INCOMPLETE_MESSAGE, bs, cd)" using assms(2) ne by blast
    let ?th = "th\<lparr> th_ctxtHandle := Some cd, th_bufferOverrun := (th_bufferOverrun th \<or> 0 > maxTlsPacketSize) \<rparr>"
    obtain es where "broker_events api pieces ?y ?th = Some es" "one_record plain es"
      using Cons.IH [of ?y ?th] Cons.prems y sp by auto
    then have "broker_events api (piece # pieces) x th = Some (RecvData TlsNone [] # es)"
      using Cons.prems(4,5) decrypt_incomplete [OF ne d, of "[]"] by (simp add: TLSHelper_DecryptDataStream_def)
    then show ?thesis using one_record_wait [OF \<open>one_record plain es\<close>] by blast
  next
    case False
    have "take (length rcd) (?y @ concat pieces) = rcd" unfolding y by simp
    with False have "take (length rcd) ?y = rcd" by simp
    then have "?y = rcd @ drop (length rcd) ?y" by (metis append_take_drop_id)
    moreover from this have "drop (length rcd) ?y @ concat pieces = note" using y by (metis append_assoc same_append_eq)
    ultimately obtain rest where rest: "?y = rcd @ rest" "rest @ concat pieces = note" by blast
    obtain bs cd' where d: "tls_DecryptMessage api cd ?y = (SEC_E_OK, bs, cd')" "data_buffer bs = plain"
      "extra_buffer bs = (if rest = [] then None else Some rest)" "reads cd'" using assms(1) [of rest] rest(1) by auto
    obtain bs' cd'' where n: "note \<noteq> []" "tls_DecryptMessage api cd' note = (SEC_I_CONTEXT_EXPIRED, bs', cd'')"
      "\<And>x. strict_prefix x note \<Longrightarrow> x \<noteq> [] \<Longrightarrow> \<exists>bs. tls_DecryptMessage api cd' x = (SEC_E_INCOMPLETE_MESSAGE, bs, cd')"
      using assms(3) [OF d(4)] by blast
    have loop: "decrypt_loop api cd ?y [] = decrypt_loop api cd' rest plain"
      using decrypt_record [OF ne d(1,3), of "[]"] d(2) by simp
    show ?thesis
    proof (cases "concat pieces = []")
      case True
      then have p: "pieces = []" "rest = note" using Cons.prems(3) rest(2) by (auto simp: concat_eq_Nil_conv) (cases pieces, auto)
      then have "broker_events api (piece # pieces) x th = Some [RecvData TlsCloseNotify plain]"
        using Cons.prems(4,5) loop decrypt_expired [OF n(1,2), of plain] by (simp add: TLSHelper_DecryptDataStream_def)
      moreover have "one_record plain [RecvData TlsCloseNotify plain]" unfolding one_record_def by (rule exI [of _ 0]) simp
      ultimately show ?thesis by blast
    next
      case False
      then have sp: "strict_prefix rest note" using rest(2) strict_prefix_append [of "concat pieces" rest] by simp
      have "\<exists>r. r \<in> {TlsNone, TlsPlainData} \<and> decrypt_loop api cd' rest plain = Some (r, rest, plain, cd')"
      proof (cases "rest = []")
        case True
        then show ?thesis using assms(4) by (simp add: decrypt_loop.simps decrypt_end_def)
      next
        case False
        then obtain bs where "tls_DecryptMessage api cd' rest = (SEC_E_INCOMPLETE_MESSAGE, bs, cd')" using n(3) [OF sp] by blast
        then show ?thesis using decrypt_incomplete [OF False, of api cd' _ cd' plain] by auto
      qed
      then obtain r where r: "r \<in> {TlsNone, TlsPlainData}" "decrypt_loop api cd ?y [] = Some (r, rest, plain, cd')" using loop by auto
      let ?th = "th\<lparr> th_ctxtHandle := Some cd', th_bufferOverrun := (th_bufferOverrun th \<or> length plain > maxTlsPacketSize) \<rparr>"
      obtain j where "broker_events api pieces rest ?th = Some (replicate j (RecvData TlsNone []) @ [RecvData TlsCloseNotify []])"
        using events_of_notification [OF n(3,2) rest(2) sp, of ?th] Cons.prems(3,4) by auto
      then have "broker_events api (piece # pieces) x th =
          Some (RecvData r plain # replicate j (RecvData TlsNone []) @ [RecvData TlsCloseNotify []])"
        using Cons.prems(4,5) r by (auto simp: TLSHelper_DecryptDataStream_def)
      moreover have "one_record plain (RecvData r plain # replicate j (RecvData TlsNone []) @ [RecvData TlsCloseNotify []])"
        unfolding one_record_def closing_def using r(1) by (intro exI [of _ 0] exI [of _ r]) auto
      ultimately show ?thesis by blast
    qed
  qed
qed

section \<open>The message of the broker\<close>

lemma session_stream_waits:
  "session_stream api (replicate i (RecvData TlsNone []) @ es) b 0 0 complete = session_stream api es b 0 0 complete"
  by (induction i) simp_all

lemma session_stream_closes:
  "closing es \<Longrightarrow> 5 \<le> plainSize \<Longrightarrow> payload \<noteq> 0 \<Longrightarrow> session_stream api es b plainSize payload True = (Some True, b)"
proof -
  have "session_stream api (replicate j (RecvData TlsNone []) @ [RecvData TlsCloseNotify []]) b plainSize payload True = (Some True, b)"
    if "5 \<le> plainSize" "payload \<noteq> 0" for j
    using that by (induction j) simp_all
  then show "closing es \<Longrightarrow> 5 \<le> plainSize \<Longrightarrow> payload \<noteq> 0 \<Longrightarrow> ?thesis" by (auto simp: closing_def)
qed

lemma stream_of_pieces:
  assumes "one_record bytes es" "write_law api" "read_law api" "bytes \<noteq> []" "length bytes = 5 + n"
    "slice 1 2 bytes = le_bytes 2 (of_nat n :: ushort)" "0 < n" "n < 65536" "length bytes \<le> length (m_pSerializeBuffer buffer)"
    "length (m_pSerializeBuffer buffer) < 65536" "m_iRead buffer = 0"
  shows "\<exists>b. session_stream api es buffer 0 0 False = (Some True, b) \<and> m_pSerializeBuffer b = patch 0 bytes (m_pSerializeBuffer buffer)"
proof -
  obtain b where b: "m_pSerializeBuffer b = patch 0 bytes (m_pSerializeBuffer buffer)" "(of_nat n :: ushort) \<noteq> 0"
    "\<And>d es. d \<noteq> TlsError \<Longrightarrow> session_stream api (RecvData d bytes # es) buffer 0 0 False =
       (if d = TlsCloseNotify then (Some True, b) else session_stream api es b (int (5 + n)) (of_nat n) True)"
    using stream_of_message [OF assms(2-11)] by blast
  obtain i d tail where es: "es = replicate i (RecvData TlsNone []) @ RecvData d bytes # tail"
    "d = TlsCloseNotify \<and> tail = [] \<or> d \<in> {TlsNone, TlsPlainData} \<and> closing tail"
    using assms(1) by (auto simp: one_record_def)
  show ?thesis using es(2) b session_stream_closes [of tail "int (5 + n)" "of_nat n" api b]
    by (auto simp: es(1) session_stream_waits)
qed

text \<open>The bytes a helper of the broker encrypts, with the notification behind them, as a helper in step with it receives them.\<close>

lemma events_of_encrypted:
  assumes "record_law api sync" "notify_law api sync" "sizes_law api (th_streamSizes server)"
    "TLSHelper_EncryptData api bytes buffer server = (Some encrypted, server1)"
    "fst (th_streamSizes server) + length bytes + snd (th_streamSizes server) \<le> length buffer"
    "TLSHelper_EncryptCloseNotify api maxSize server1 = (Some notification, server2)"
    "th_ctxtHandle server = Some ce" "sync ce cd" "th_handshakeCompleted client" "th_ctxtHandle client = Some cd"
    "bytes \<noteq> []" "concat pieces = encrypted @ notification" "[] \<notin> set pieces"
  shows "\<exists>es. broker_events api pieces [] client = Some es \<and> one_record bytes es"
proof -
  obtain h b t ce' where e: "tls_EncryptMessage api ce bytes = (Some (h, b, t), ce')" "encrypted = h @ b @ t"
    "th_ctxtHandle server1 = Some ce'"
    using EncryptData_record [OF assms(3-5)] assms(7) by auto
  obtain ce1 ce2 where n: "tls_ApplyControlToken api ce' = (True, ce1)" "tls_EncryptToken api ce1 maxSize = (Some notification, ce2)"
    using EncryptCloseNotify_token [OF assms(6)] e(3) by auto
  have r: "encrypted \<noteq> []" "\<And>rest. \<exists>bs cd'. tls_DecryptMessage api cd (encrypted @ rest) = (SEC_E_OK, bs, cd') \<and> data_buffer bs = bytes \<and>
      extra_buffer bs = (if rest = [] then None else Some rest) \<and> sync ce' cd'"
    "\<And>x. strict_prefix x encrypted \<Longrightarrow> x \<noteq> [] \<Longrightarrow> \<exists>bs. tls_DecryptMessage api cd x = (SEC_E_INCOMPLETE_MESSAGE, bs, cd)"
    using assms(1,8) e(1) unfolding record_law_def e(2) append_assoc by blast+
  have c: "notification \<noteq> [] \<and> (\<exists>bs cd''. tls_DecryptMessage api cd' notification = (SEC_I_CONTEXT_EXPIRED, bs, cd'')) \<and>
      (\<forall>x. strict_prefix x notification \<longrightarrow> x \<noteq> [] \<longrightarrow> (\<exists>bs. tls_DecryptMessage api cd' x = (SEC_E_INCOMPLETE_MESSAGE, bs, cd')))"
    if "sync ce' cd'" for cd'
    using assms(2) that n unfolding notify_law_def by blast
  show ?thesis
    by (rule events_of_record [OF r(2,3) c assms(11) r(1)]) (use assms(9,10,12,13) r(1) in \<open>auto simp: strict_prefix_def\<close>)
qed

section \<open>Bytes that come with the handshake\<close>

text \<open>When the last message of the handshake and the record of the session are received together, SChannel returns the record
  as the extra buffer; \<open>Handshake\<close> drops it, so the client waits for a session that has arrived.\<close>

lemma early_session_is_lost:
  "\<exists>client record notification.
     TLSHelperClient_Handshake (toy_tls (\<lambda>q. if q < 5 then Recv_bytes (2 # record @ notification) else Recv_fails)) TLSHelper_new = Some (True, client) \<and>
     th_received client = 2 # record @ notification \<and>
     broker_events (toy_tls (\<lambda>q. Recv_fails)) [record, notification] [] client = Some [RecvData TlsPlainData [1, 2], RecvData TlsCloseNotify []] \<and>
     broker_events (toy_tls (\<lambda>q. Recv_fails)) [] [] client = Some []"
proof -
  let ?r = "[3, 2, 0, 1, 2, 7] :: byte list" and ?n = "[4, 0] :: byte list"
  obtain client where c: "TLSHelperClient_Handshake (toy_tls (\<lambda>q. if q < 5 then Recv_bytes (2 # ?r @ ?n) else Recv_fails)) TLSHelper_new = Some (True, client)"
    "th_received client = 2 # ?r @ ?n" "th_handshakeCompleted client" "th_ctxtHandle client = Some 0"
    by (simp add: TLSHelperClient_Handshake_def rounds.simps TLSHelper_new_def toy_tls_def tls_ask_def toy_extra_def
        TLSHelper_SendHandshakeToken_def send_token.simps set_context_def receive_cases TLSHelper_FinalizeHandshake_def Let_def)
  have "broker_events (toy_tls (\<lambda>q. Recv_fails)) [?r, ?n] [] client = Some [RecvData TlsPlainData [1, 2], RecvData TlsCloseNotify []]"
    using c(3,4) by (simp add: TLSHelper_DecryptDataStream_def decrypt_loop.simps toy_tls_def data_buffer_def extra_buffer_def
        toy_buffer_def toy_extra_def decrypt_end_def Let_def)
  with c show ?thesis by (intro exI [of _ client] exI [of _ ?r] exI [of _ ?n]) simp
qed

end
