(* ===== verification/Client_Session.thy ===== *)
theory Client_Session
  imports Client_Delivery Tls_Stream
begin

text \<open>
  From the broker to the client: the session the broker reserved, written into its message, encrypted, cut into
  pieces by the network, decrypted and read, is the session the client starts with.
\<close>

section \<open>From the broker to the client\<close>

text \<open>The message the broker writes, and a connection whose calls succeed.\<close>

definition broker_message :: "NetBufferApi \<Rightarrow> 'k KeyApi \<Rightarrow> byte list \<Rightarrow> PortType \<Rightarrow> SessionIdType \<Rightarrow> byte list \<Rightarrow> byte list \<Rightarrow> NetBuffer \<Rightarrow> byte list" where
  "broker_message api keys ip port sessionId key salt p =
     (let b = Broker_SetSessionInfoToBuffer api keys ip port sessionId key salt (nb_write api [CONNECT_RESULT_CODE_byte SUCCESS] p)
      in take (unat (m_iWrite b)) (m_pSerializeBuffer (SetHeader api 0 b)))"

definition reaches_broker :: "'k ClientEnv \<Rightarrow> bool" where
  "reaches_broker E \<longleftrightarrow>
     (\<forall>n. ce_tlsInitialize E n \<and> ce_createBrokerSocket E n \<and> ce_connectBroker E n \<and> ce_tlsHandshake E n)"

text \<open>What both need: the message fits into the buffers, and its parts have their sizes.\<close>

definition message_fits :: "'k ClientEnv \<Rightarrow> byte list \<Rightarrow> PortType \<Rightarrow> SessionIdType \<Rightarrow> byte list \<Rightarrow> byte list \<Rightarrow> NetBuffer \<Rightarrow> bool" where
  "message_fits E ip port sessionId key salt p \<longleftrightarrow>
     written p [] \<and> length (session_info_bytes ip port sessionId key salt) + 5 \<le> length (m_pSerializeBuffer p) \<and>
     length ip < 65536 \<and> length key = SESSION_KEY_SIZE \<and> length salt = SESSION_SALT_SIZE \<and>
     length (broker_message (ce_api E) (ce_keys E) ip port sessionId key salt p) \<le> length (m_pSerializeBuffer (nb_Alloc (ce_api E))) \<and>
     length (m_pSerializeBuffer (nb_Alloc (ce_api E))) < 65536"

lemma broker_message_form:
  assumes "netbuffer_laws (ce_api E)" "string_laws (ce_api E) (ce_keys E)" "message_fits E ip port sessionId key salt p"
    "bytes = broker_message (ce_api E) (ce_keys E) ip port sessionId key salt p" "info = session_info_bytes ip port sessionId key salt"
  shows "length bytes = 5 + length info" "slice 1 2 bytes = le_bytes 2 (of_nat (length info) :: ushort)" "slice 5 (length info) bytes = info"
    "0 < length info" "length info < 65536" "bytes \<noteq> []"
proof -
  let ?b = "Broker_SetSessionInfoToBuffer (ce_api E) (ce_keys E) ip port sessionId key salt
      (nb_write (ce_api E) [CONNECT_RESULT_CODE_byte SUCCESS] p)"
  have w: "written ?b info"
    using SetSessionInfo_written [OF assms(1,2)] assms(3) unfolding assms(5) message_fits_def by blast
  have bytes: "bytes = take (unat (m_iWrite ?b)) (m_pSerializeBuffer (SetHeader (ce_api E) 0 ?b))"
    by (simp add: assms(4) broker_message_def Let_def)
  note h = header_and_info [OF w bytes]
  show "length bytes = 5 + length info" "slice 1 2 bytes = le_bytes 2 (of_nat (length info) :: ushort)" "slice 5 (length info) bytes = info"
    by (rule h)+
  show "0 < length info" "length info < 65536" using w by (auto simp: assms(5) session_info_bytes_def written_def)
  show "bytes \<noteq> []" using h(1) by auto
qed

lemma client_starts_with_message:
  assumes "netbuffer_laws (ce_api E)" "string_laws (ce_api E) (ce_keys E)" "message_fits E ip port sessionId key salt p"
    "reaches_broker E" "\<And>n. ce_brokerStream E n = es"
    "session_stream (ce_api E) es ((nb_Alloc (ce_api E))\<lparr> m_iRead := 0 \<rparr>) 0 0 False = (Some True, r)"
    "m_pSerializeBuffer r = patch 0 (broker_message (ce_api E) (ce_keys E) ip port sessionId key salt p)
       (m_pSerializeBuffer (nb_Alloc (ce_api E)))"
  shows "\<exists>c'. Client_RunGetSessionFromServer E c = (CryptoHelper_GetSymmetricKeyHandle (ce_keys E) key \<noteq> None, c') \<and>
    cl_session c' = \<lparr> si_serverIp = ip, si_port = port, si_sessionId = sessionId, si_sessionKey = key,
       si_sessionSalt = salt, si_keyObjectBuffer = True,
       si_sessionKeyHandle = CryptoHelper_GetSymmetricKeyHandle (ce_keys E) key \<rparr>"
proof -
  let ?info = "session_info_bytes ip port sessionId key salt"
  define bytes where "bytes = broker_message (ce_api E) (ce_keys E) ip port sessionId key salt p"
  define b where "b = Broker_SetSessionInfoToBuffer (ce_api E) (ce_keys E) ip port sessionId key salt
      (nb_write (ce_api E) [CONNECT_RESULT_CODE_byte SUCCESS] p)"
  note h = broker_message_form [OF assms(1-3) bytes_def refl]
  have fits: "written p []" "length ?info + 5 \<le> length (m_pSerializeBuffer p)" "length ip < 65536" "length key = SESSION_KEY_SIZE"
    "length salt = SESSION_SALT_SIZE" "length bytes \<le> length (m_pSerializeBuffer (nb_Alloc (ce_api E)))"
    "length (m_pSerializeBuffer (nb_Alloc (ce_api E))) < 65536"
    using assms(3) by (simp_all add: message_fits_def bytes_def)
  have w: "written b ?info" unfolding b_def by (rule SetSessionInfo_written [OF assms(1,2) fits(1,2)])
  note r = assms(7) [folded bytes_def]
  have "slice 5 (length ?info) (m_pSerializeBuffer r) = ?info"
    using h(1,3) by (simp add: r slice_def patch_def)
  moreover have "slice 5 (unat (m_iWrite b) - 5) (m_pSerializeBuffer b) = ?info" using w by (simp add: written_def)
  ultimately have "holds (r\<lparr> m_iRead := 5 \<rparr>) (slice 5 (unat (m_iWrite b) - 5) (m_pSerializeBuffer b))"
    using h(1) fits(6,7) by (simp add: holds_def r)
  note s = session_info_roundtrip [OF assms(1,2) fits(1-5) b_def this]
  have five: "Client_TryConnectToSessionBroker E d = (True, d\<lparr> cl_query := cl_query d + 1 \<rparr>)" for d :: "'a Client"
    using assms(4) by (simp add: reaches_broker_def Client_TryConnectToSessionBroker_def client_ask_def numeral_eq_Suc)
  show ?thesis
    using assms(4-6) s five
    by (simp add: reaches_broker_def Client_RunGetSessionFromServer_def Client_GetSessionFromServer_def
        Client_TrySetTargetSessionInfo_def client_ask_def)
qed

text \<open>C14: The client gets the session the broker reserved for it, over TLS: what a helper of the broker makes of its message,
  one record and the closing notification, reaches a helper of the client that is in step with it, in whatever
  pieces the network cuts the bytes into; then the client's start has the address, port, id, key and salt
  the broker wrote, and the handle of that key.\<close>

theorem client_gets_session_in_pieces:
  assumes "netbuffer_laws (ce_api E)" "string_laws (ce_api E) (ce_keys E)" "message_fits E ip port sessionId key salt p" "reaches_broker E"
    "record_law api sync" "notify_law api sync" "sizes_law api (th_streamSizes server)"
    "TLSHelper_EncryptData api (broker_message (ce_api E) (ce_keys E) ip port sessionId key salt p) buffer server = (Some encrypted, server1)"
    "fst (th_streamSizes server) + length (broker_message (ce_api E) (ce_keys E) ip port sessionId key salt p) + snd (th_streamSizes server)
       \<le> length buffer"
    "TLSHelper_EncryptCloseNotify api maxTlsPacketSize server1 = (Some notification, server2)"
    "th_ctxtHandle server = Some ce" "sync ce cd" "th_handshakeCompleted client" "th_ctxtHandle client = Some cd"
    "concat pieces = encrypted @ notification" "[] \<notin> set pieces"
    "\<And>n. Some (ce_brokerStream E n) = broker_events api pieces [] client"
  shows "\<exists>c'. Client_RunGetSessionFromServer E c = (CryptoHelper_GetSymmetricKeyHandle (ce_keys E) key \<noteq> None, c') \<and>
    cl_session c' = \<lparr> si_serverIp = ip, si_port = port, si_sessionId = sessionId, si_sessionKey = key,
       si_sessionSalt = salt, si_keyObjectBuffer = True,
       si_sessionKeyHandle = CryptoHelper_GetSymmetricKeyHandle (ce_keys E) key \<rparr>"
proof -
  note h = broker_message_form [OF assms(1-3) refl refl]
  obtain es where es: "broker_events api pieces [] client = Some es"
    "one_record (broker_message (ce_api E) (ce_keys E) ip port sessionId key salt p) es"
    using events_of_encrypted [OF assms(5-14) h(6) assms(15,16)] by blast
  have wl: "write_law (ce_api E)" and rl: "read_law (ce_api E)" using assms(1) by (simp_all add: netbuffer_laws_def)
  obtain r where "session_stream (ce_api E) es ((nb_Alloc (ce_api E))\<lparr> m_iRead := 0 \<rparr>) 0 0 False = (Some True, r)"
    "m_pSerializeBuffer r = patch 0 (broker_message (ce_api E) (ce_keys E) ip port sessionId key salt p) (m_pSerializeBuffer (nb_Alloc (ce_api E)))"
    using stream_of_pieces [OF es(2) wl rl h(6,1,2,4,5), of "(nb_Alloc (ce_api E))\<lparr> m_iRead := 0 \<rparr>"] assms(3)
    by (auto simp: message_fits_def)
  then show ?thesis using assms(17) es(1) by (intro client_starts_with_message [OF assms(1-4)]) auto
qed

text \<open>The same when the record and the notification are two pieces, with the plaintext in the events.\<close>

theorem client_gets_broker_session:
  assumes "netbuffer_laws (ce_api E)" "string_laws (ce_api E) (ce_keys E)" "message_fits E ip port sessionId key salt p" "reaches_broker E"
    "\<And>n. ce_brokerStream E n =
       [RecvData TlsPlainData (broker_message (ce_api E) (ce_keys E) ip port sessionId key salt p), RecvData TlsCloseNotify []]"
  shows "\<exists>c'. Client_RunGetSessionFromServer E c = (CryptoHelper_GetSymmetricKeyHandle (ce_keys E) key \<noteq> None, c') \<and>
    cl_session c' = \<lparr> si_serverIp = ip, si_port = port, si_sessionId = sessionId, si_sessionKey = key,
       si_sessionSalt = salt, si_keyObjectBuffer = True,
       si_sessionKeyHandle = CryptoHelper_GetSymmetricKeyHandle (ce_keys E) key \<rparr>"
proof -
  let ?bytes = "broker_message (ce_api E) (ce_keys E) ip port sessionId key salt p"
  note h = broker_message_form [OF assms(1-3) refl refl]
  have wl: "write_law (ce_api E)" and rl: "read_law (ce_api E)" using assms(1) by (simp_all add: netbuffer_laws_def)
  obtain r where "session_stream (ce_api E) [RecvData TlsPlainData ?bytes, RecvData TlsCloseNotify []]
      ((nb_Alloc (ce_api E))\<lparr> m_iRead := 0 \<rparr>) 0 0 False = (Some True, r)"
    "m_pSerializeBuffer r = patch 0 ?bytes (m_pSerializeBuffer (nb_Alloc (ce_api E)))"
    using stream_of_one_record [OF wl rl h(6,1,2,4,5), of "(nb_Alloc (ce_api E))\<lparr> m_iRead := 0 \<rparr>" TlsPlainData "[RecvData TlsCloseNotify []]"]
      assms(3) by (auto simp: message_fits_def)
  then show ?thesis by (rule client_starts_with_message [OF assms])
qed

theorem client_gets_session_in_pieces_witness:
  "\<exists>E c'. Client_RunGetSessionFromServer E (client_new 0 blank_info) = (True, c') \<and>
    cl_session c' = \<lparr> si_serverIp = [49], si_port = 7777, si_sessionId = 3, si_sessionKey = replicate 16 1,
        si_sessionSalt = replicate 16 2, si_keyObjectBuffer = True, si_sessionKeyHandle = Some () \<rparr>"
proof -
  let ?api = "toy_tls (\<lambda>q. Recv_fails)" and ?key = "replicate 16 1" and ?salt = "replicate 16 2" and ?p = "nb_Alloc documented_api"
  let ?h = "TLSHelper_new\<lparr> th_handshakeCompleted := True, th_ctxtHandle := Some 0, th_streamSizes := (3, 1) \<rparr>"
  let ?info = "session_info_bytes [49] 7777 3 ?key ?salt"
  define bytes where "bytes = broker_message documented_api documented_keys [49] 7777 3 ?key ?salt ?p"
  have fit: "length ?info + 5 \<le> length (m_pSerializeBuffer ?p)" "length ?info = 40"
    by (simp_all add: session_info_bytes_def documented_api_def)
  have w: "written (Broker_SetSessionInfoToBuffer documented_api documented_keys [49] 7777 3 ?key ?salt
      (nb_write documented_api [CONNECT_RESULT_CODE_byte SUCCESS] ?p)) ?info"
    by (rule SetSessionInfo_written [OF documented_api_laws documented_keys_laws documented_buffer fit(1)])
  have len: "length bytes = 45"
    using header_and_info(1) [OF w refl] fit(2) by (simp add: bytes_def broker_message_def Let_def)
  define encrypted where "encrypted = [3] @ le_bytes 2 (of_nat (length bytes) :: ushort) @ bytes @ [7]"
  have enc: "TLSHelper_EncryptData ?api bytes (replicate 64 0) ?h = (Some encrypted, ?h\<lparr> th_ctxtHandle := Some 1 \<rparr>)"
    using len by (simp add: TLSHelper_EncryptData_def toy_tls_def encrypted_def patch_def TLSHelper_new_def)
  have note1: "TLSHelper_EncryptCloseNotify ?api maxTlsPacketSize (?h\<lparr> th_ctxtHandle := Some 1 \<rparr>) = (Some [4, 0], ?h\<lparr> th_ctxtHandle := Some 1 \<rparr>)"
    by (simp add: TLSHelper_EncryptCloseNotify_def toy_tls_def)
  define pieces where "pieces = map (\<lambda>b. [b]) (encrypted @ [4, 0])"
  have p: "concat pieces = encrypted @ [4, 0]" "[] \<notin> set pieces" by (auto simp: pieces_def)
  have sizes: "sizes_law ?api (th_streamSizes ?h)" by (auto simp: sizes_law_def toy_tls_def split: if_splits)
  have ne: "bytes \<noteq> []" using len by auto
  have "\<exists>es. broker_events ?api pieces [] ?h = Some es \<and> one_record bytes es"
    by (rule events_of_encrypted [OF toy_record_law toy_notify_law sizes enc _ note1 _ _ _ _ ne p]) (simp_all add: len)
  then obtain es where es: "broker_events ?api pieces [] ?h = Some es" by blast
  let ?E = "sample_client_env\<lparr> ce_brokerStream := \<lambda>n. es \<rparr>"
  have E: "ce_api ?E = documented_api" "ce_keys ?E = documented_keys" "reaches_broker ?E"
    by (simp_all add: sample_client_env_def reaches_broker_def)
  have fits: "message_fits ?E [49] 7777 3 ?key ?salt ?p"
    using fit documented_buffer len unfolding message_fits_def E(1,2) bytes_def [symmetric]
    by (simp add: documented_api_def)
  have key: "CryptoHelper_GetSymmetricKeyHandle documented_keys ?key = Some ()"
    by (simp add: CryptoHelper_GetSymmetricKeyHandle_def documented_keys_def)
  from client_gets_session_in_pieces [of ?E "[49]" 7777 3 ?key ?salt ?p ?api "(=)" ?h "replicate 64 0" encrypted "?h\<lparr> th_ctxtHandle := Some 1 \<rparr>"
      "[4, 0]" "?h\<lparr> th_ctxtHandle := Some 1 \<rparr>" 0 0 ?h pieces "client_new 0 blank_info", unfolded E(1,2) bytes_def [symmetric] key,
      OF documented_api_laws documented_keys_laws fits E(3) toy_record_law toy_notify_law sizes enc _ note1 _ _ _ _ p] es len
  show ?thesis by auto
qed

section \<open>Stopping\<close>

text \<open>C24: Stop gives back all that the threads and queues of the client held, but the replies to a datagram that the receive thread
  still handled when the send thread had ended: whatever state the client was in, afterwards no descriptor is allocated and the packet buffers
  left are exactly those the application has not freed, those of received packets that were never taken out, which Stop
  keeps, and those in the send queue. The send queue is empty when no datagram came late; at the first stop of a running client it is empty when every thread but
  the receive thread has ended, and holds exactly what the late datagram then puts into it.\<close>

theorem client_stop_frees_everything:
  assumes "client_reachable E c" "client_alloc_law E"
  shows "let c' = Client_Stop E c in
    cl_isStopped c' \<and> (\<forall>a. hp_mem (cl_infos c') a = None) \<and>
    (\<forall>b. hp_mem (cl_buffers c') b \<noteq> None \<longleftrightarrow>
       b \<in> set (cl_application c') \<or> b \<in> ri_buffer ` set (cl_recvPacketHoldingQueue c') \<or> b \<in> set (cl_sendBufferQueue c')) \<and>
    (\<not> cl_late c' \<longrightarrow> cl_sendBufferQueue c' = []) \<and>
    (\<not> cl_isStopped c \<and> \<not> cl_late c \<longrightarrow>
       cl_sendBufferQueue (senders_joined E c) = [] \<and>
       cl_sendBufferQueue c' = cl_sendBufferQueue (late_datagram E (senders_joined E c)))"
proof -
  let ?c = "Client_Stop E c"
  have ok: "client_ok c" by (rule client_reachable_ok [OF assms])
  then have "client_ok ?c" using assms(2) by (rule Stop_ok)
  then have i: "client_inv {#} {#} ?c" "client_idle ?c" using Stop_isStopped [of E c] by (simp_all add: client_ok_def)
  note m = memory_okD [OF client_invD(1) [OF i(1)], simplified]
  have info: "info_holders ?c = {#}" using i(2) by (simp add: client_idle_def info_holders_def)
  have h: "heap_ok (queue_holders ?c) (cl_buffers ?c)" using m(3) by (simp add: info info_buffers_def)
  have "b \<in># queue_holders ?c \<longleftrightarrow> b \<in> set (cl_application ?c) \<or> b \<in> ri_buffer ` set (cl_recvPacketHoldingQueue ?c) \<or>
      b \<in> set (cl_sendBufferQueue ?c)" for b
    using i(2) by (auto simp: client_idle_def queue_holders_def)
  moreover have "hp_mem (cl_buffers ?c) b \<noteq> None \<longleftrightarrow> b \<in># queue_holders ?c" for b
    using heap_ok_dead [OF h, of b] heap_ok_free [OF h, of b] by metis
  moreover have "hp_mem (cl_infos ?c) a = None" for a
    using heap_ok_dead [OF m(2)] by (simp add: info)
  moreover have "cl_sendBufferQueue (senders_joined E c) = [] \<and>
      cl_sendBufferQueue ?c = cl_sendBufferQueue (late_datagram E (senders_joined E c))"
    if "\<not> cl_isStopped c \<and> \<not> cl_late c"
    using Stop_late_queue [of "{#}" "{#}" c E] ok that assms(2) by (simp add: client_ok_def)
  ultimately show ?thesis using i(2) Stop_isStopped [of E c] by (simp add: Let_def client_idle_def)
qed


text \<open>A client that was started: the broker sent it its session in one record.\<close>

definition sample_start_env :: "unit ClientEnv" where
  "sample_start_env = sample_client_env\<lparr> ce_brokerStream := \<lambda>n. [RecvData TlsPlainData (broker_message documented_api documented_keys
     [49] 7777 3 (replicate 16 1) (replicate 16 2) (nb_Alloc documented_api)), RecvData TlsCloseNotify []] \<rparr>"

lemma sample_start_gets_session:
  "\<exists>c'. Client_RunGetSessionFromServer sample_start_env c = (True, c') \<and> same_but_session c c'"
proof -
  let ?key = "replicate 16 1" and ?salt = "replicate 16 2" and ?p = "nb_Alloc documented_api" and ?E = sample_start_env
  let ?info = "session_info_bytes [49] 7777 3 ?key ?salt"
  have fit: "length ?info + 5 \<le> length (m_pSerializeBuffer ?p)" "length ?info = 40"
    by (simp_all add: session_info_bytes_def documented_api_def)
  have w: "written (Broker_SetSessionInfoToBuffer documented_api documented_keys [49] 7777 3 ?key ?salt
      (nb_write documented_api [CONNECT_RESULT_CODE_byte SUCCESS] ?p)) ?info"
    by (rule SetSessionInfo_written [OF documented_api_laws documented_keys_laws documented_buffer fit(1)])
  have len: "length (broker_message documented_api documented_keys [49] 7777 3 ?key ?salt ?p) = 45"
    using header_and_info(1) [OF w refl] fit(2) by (simp add: broker_message_def Let_def)
  have E: "ce_api ?E = documented_api" "ce_keys ?E = documented_keys" "reaches_broker ?E"
    by (simp_all add: sample_start_env_def sample_client_env_def reaches_broker_def)
  have fits: "message_fits ?E [49] 7777 3 ?key ?salt ?p"
    using fit documented_buffer len unfolding message_fits_def E(1,2) by (simp add: documented_api_def)
  have key: "CryptoHelper_GetSymmetricKeyHandle documented_keys ?key = Some ()"
    by (simp add: CryptoHelper_GetSymmetricKeyHandle_def documented_keys_def)
  have "\<exists>c'. Client_RunGetSessionFromServer ?E c = (True, c')"
    using client_gets_broker_session [of ?E "[49]" 7777 3 ?key ?salt ?p c, unfolded E(1,2) key, OF documented_api_laws documented_keys_laws fits E(3)]
    by (auto simp: sample_start_env_def)
  then show ?thesis using same_but_session_GetSession by blast
qed

lemma sample_start:
  "\<exists>c. Client_Start sample_start_env (client_new 0 blank_info) = (True, c) \<and> \<not> cl_isStopped c \<and> \<not> cl_late c \<and>
     cl_sendBufferQueue c = [0] \<and> cl_application c = [] \<and> cl_recvPacketHoldingQueue c = []"
proof -
  let ?E = sample_start_env and ?c = "client_new 0 blank_info :: unit Client"
  let ?c2 = "?c\<lparr> cl_query := 2, cl_clientCountInThisProcess := 1, cl_hasClientProcessReference := True \<rparr>"
  obtain c3 where g: "Client_RunGetSessionFromServer ?E ?c2 = (True, c3)" "same_but_session ?c2 c3"
    using sample_start_gets_session by blast
  obtain session query where c3: "c3 = ?c2\<lparr> cl_session := session, cl_query := query \<rparr>" using g(2) by (auto simp: same_but_session_def)
  have a: "client_ask (ce_readOptionFile ?E) (?c\<lparr> cl_threadStopFlag := False, cl_isConnected := False \<rparr>) = (True, ?c\<lparr> cl_query := 1 \<rparr>)"
    "Client_AcquireClientProcessReference ?E (?c\<lparr> cl_query := 1 \<rparr>) = (True, ?c2)"
    by (simp_all add: sample_start_env_def sample_client_env_def client_ask_def client_new_def Client_AcquireClientProcessReference_def)
  obtain c5 where r: "Client_RunThreads ?E (c3\<lparr> cl_query := cl_query c3 + 1, cl_socketOpen := True \<rparr>) = (True, c5)"
    and c5: "cl_buffers c5 = cl_buffers ?c" "cl_infos c5 = cl_infos ?c" "\<not> cl_late c5" "cl_application c5 = []"
      "cl_recvPacketHoldingQueue c5 = []" "cl_sendBufferQueue c5 = []"
    by (simp add: c3 Client_RunThreads_def sample_start_env_def sample_client_env_def client_ask_def client_new_def)
  let ?c6 = "Client_SendConnectPacket ?E c5"
  have s: "Client_Start ?E ?c = (True, ?c6\<lparr> cl_isStopped := False \<rparr>)"
    using g(1) r unfolding Client_Start_def Let_def a prod.case
    by (simp add: client_ask_def sample_start_env_def sample_client_env_def)
  have enc: "cl_infos (client_encode E b q d core c) = cl_infos c" "cl_application (client_encode E b q d core c) = cl_application c"
    "cl_recvPacketHoldingQueue (client_encode E b q d core c) = cl_recvPacketHoldingQueue c"
    "cl_sendBufferQueue (client_encode E b q d core c) = cl_sendBufferQueue c" for E b q d core and c :: "unit Client"
    by (simp_all add: client_encode_def client_fault_def upd_buffers_def split: option.split)
  have alloc: "ce_bufferAlloc ?E (cl_buffers c5) = Some 0" "ce_infoAlloc ?E (cl_infos c5) = Some 0"
    using c5 by (simp_all add: sample_start_env_def sample_client_env_def first_free_def client_new_def)
  have "cl_sendBufferQueue ?c6 = [0] \<and> cl_application ?c6 = [] \<and> cl_recvPacketHoldingQueue ?c6 = [] \<and> \<not> cl_late ?c6"
    using c5(3-6) by (simp add: Client_SendConnectPacket_def new_buffer_def Client_SendPacket_buffer_def Client_RegisterSendPacketInfo_def
        client_enqueue_def buffer_op_defs client_ask_def alloc enc Let_def)
  with s show ?thesis by auto
qed

lemma Stop_without_late:
  assumes "\<And>n. ce_lateDatagram E n = None"
  shows "cl_application (Client_Stop E c) = cl_application c" "cl_recvPacketHoldingQueue (Client_Stop E c) = cl_recvPacketHoldingQueue c"
proof -
  have loops: "cl_application (Client_DoSend_loop E q c') = cl_application c'" "cl_application (retransmission_end l c') = cl_application c'"
    "cl_application (free_send_infos m c') = cl_application c'" "cl_application (free_pending p c') = cl_application c'"
    for q l m p and c' :: "'a Client"
  proof -
    show "cl_application (Client_DoSend_loop E q c') = cl_application c'"
      by (induction E q c' rule: Client_DoSend_loop.induct) (simp_all add: client_fault_def Let_def buffer_op_defs split: option.split)
    show "cl_application (retransmission_end l c') = cl_application c'" by (induction l c' rule: retransmission_end.induct) simp_all
    show "cl_application (free_send_infos m c') = cl_application c'" by (induction m c' rule: free_send_infos.induct) simp_all
    show "cl_application (free_pending p c') = cl_application c'" by (induction p c' rule: free_pending.induct) (simp_all add: buffer_op_defs)
  qed
  have turns: "cl_application (send_turns n E c') = cl_application c'" for n and c' :: "'a Client"
    by (induction n arbitrary: c') (simp_all add: Client_SendThread_turn_def Client_DoSend_def loops)
  show "cl_application (Client_Stop E c) = cl_application c"
    by (simp add: Client_Stop_def Client_JoinThreads_def Client_SendThread_stop_def Client_DoSend_def Let_def loops turns
        late_datagram_def client_ask_def assms Client_StopServerAliveCheck_def Client_ReleaseClientProcessReference_def)
  have "marks (Client_Stop E c) = marks c"
    by (simp add: Client_Stop_def Client_JoinThreads_def Client_SendThread_stop_def Client_DoSend_def Let_def
        late_datagram_def client_ask_def assms)
  then show "cl_recvPacketHoldingQueue (Client_Stop E c) = cl_recvPacketHoldingQueue c" by (simp add: marks_def)
qed

theorem client_stop_frees_everything_witness:
  "\<exists>c. client_reachable sample_start_env c \<and> \<not> cl_isStopped c \<and> cl_sendBufferQueue c = [0] \<and>
     (\<forall>b. hp_mem (cl_buffers (Client_Stop sample_start_env c)) b = None)"
proof -
  obtain c where c: "Client_Start sample_start_env (client_new 0 blank_info) = (True, c)" "\<not> cl_isStopped c" "\<not> cl_late c"
    "cl_sendBufferQueue c = [0]" "cl_application c = []" "cl_recvPacketHoldingQueue c = []"
    using sample_start by blast
  have r: "client_reachable sample_start_env c"
    by (rule reachable_step [OF reachable_new client_start [OF _ c(1)]]) (simp add: client_new_def)
  have alloc: "client_alloc_law sample_start_env" using sample_client_alloc
    by (simp add: client_alloc_law_def sample_start_env_def)
  have none: "ce_lateDatagram sample_start_env n = None" for n by (simp add: sample_start_env_def sample_client_env_def)
  have late: "cl_sendBufferQueue (late_datagram sample_start_env d) = cl_sendBufferQueue d" for d
    by (simp add: late_datagram_def client_ask_def none)
  have "\<forall>b. hp_mem (cl_buffers (Client_Stop sample_start_env c)) b = None"
    using client_stop_frees_everything [OF r alloc] c(2,3,5,6) Stop_without_late [OF none, of c]
    by (auto simp: Let_def late simp del: not_None_eq)
  with r c show ?thesis by blast
qed

end
