(* ===== verification/Client_Options.thy ===== *)
theory Client_Options
  imports Client_Properties Server_Options
begin

text \<open>
  MultiSocketRUDPClient/RUDPClientCore, SessionGetter: the option files of the client, its UDP socket, and the sending hook of
  debug builds. The parser is the library class of Server_Options; here \<open>CoreOptionFile\<close> is the file of the
  client core and \<open>SessionBrokerOptionFile\<close> the one of the session getter.
\<close>

section \<open>Reading the options\<close>

record ClientOptions =
  copt_maxPacketRetransmissionCount :: PacketRetransmissionCount
  copt_retransmissionThreadSleepMs :: "32 word"
  copt_serverAliveCheckMs :: "32 word"
  copt_sessionBrokerIP :: "ushort list"
  copt_sessionBrokerPort :: PortType
  copt_headerCode :: byte
  copt_xorCode :: byte

text \<open>One \<open>if (not parser.GetValue(...)) return false;\<close>\<close>

definition read_value :: "'v option \<Rightarrow> (('v \<Rightarrow> 'v) \<Rightarrow> ClientOptions \<Rightarrow> ClientOptions) \<Rightarrow>
    (ClientOptions \<Rightarrow> bool \<times> ClientOptions) \<Rightarrow> ClientOptions \<Rightarrow> bool \<times> ClientOptions" where
  "read_value v set_field rest op = (case v of None \<Rightarrow> (False, op) | Some x \<Rightarrow> rest (set_field (\<lambda>_. x) op))"

text \<open>The result of opening the file is not tested: without the file the process ends (\<open>None\<close>).\<close>

definition Client_ReadClientCoreOptionFile :: "OptionParser \<Rightarrow> bool \<Rightarrow> ClientOptions \<Rightarrow> (bool \<times> ClientOptions) option" where
  "Client_ReadClientCoreOptionFile P opens op =
     (if \<not> opens then None
      else Some
        (read_value (GetValue_Short P CoreOptionFile ''CORE'' ''MAX_PACKET_RETRANSMISSION_COUNT'') copt_maxPacketRetransmissionCount_update
        (read_value (GetValue_Int P CoreOptionFile ''CORE'' ''RETRANSMISSION_MS'') copt_retransmissionThreadSleepMs_update
        (read_value (GetValue_Int P CoreOptionFile ''CORE'' ''SERVER_ALIVE_CHECK_MS'') copt_serverAliveCheckMs_update
        (Pair True))) op))"

definition Client_ReadSessionGetterOptionFile :: "OptionParser \<Rightarrow> bool \<Rightarrow> ClientOptions \<Rightarrow> (bool \<times> ClientOptions) option" where
  "Client_ReadSessionGetterOptionFile P opens op =
     (if \<not> opens then None
      else Some
        (read_value (GetValue_String P SessionBrokerOptionFile ''SESSION_BROKER'' ''IP'') copt_sessionBrokerIP_update
        (read_value (GetValue_Short P SessionBrokerOptionFile ''SESSION_BROKER'' ''PORT'') copt_sessionBrokerPort_update
        (read_value (GetValue_Byte P SessionBrokerOptionFile ''SERIALIZEBUF'' ''PACKET_CODE'') copt_headerCode_update
        (read_value (GetValue_Byte P SessionBrokerOptionFile ''SERIALIZEBUF'' ''PACKET_KEY'') copt_xorCode_update
        (Pair True)))) op))"

definition Client_ReadOptionFile :: "OptionParser \<Rightarrow> (OptionFile \<Rightarrow> bool) \<Rightarrow> ClientOptions \<Rightarrow> (bool \<times> ClientOptions) option" where
  "Client_ReadOptionFile P opens op =
     (case Client_ReadClientCoreOptionFile P (opens CoreOptionFile) op of None \<Rightarrow> None
      | Some (coreOk, op1) \<Rightarrow>
          if \<not> coreOk then Some (False, op1)
          else Client_ReadSessionGetterOptionFile P (opens SessionBrokerOptionFile) op1)"

text \<open>The environment of a client whose options were read.\<close>

definition client_env :: "'k ClientEnv \<Rightarrow> bool \<times> ClientOptions \<Rightarrow> 'k ClientEnv" where
  "client_env E r = E\<lparr> ce_readOptionFile := (\<lambda>_. fst r),
     ce_maxPacketRetransmissionCount := copt_maxPacketRetransmissionCount (snd r),
     ce_retransmissionThreadSleepMs := copt_retransmissionThreadSleepMs (snd r),
     ce_serverAliveCheckMs := copt_serverAliveCheckMs (snd r) \<rparr>"

text \<open>Reading succeeds exactly when both files have all of their values, and then every option is the value of its file.\<close>

lemma client_options_read:
  assumes "\<And>f. opens f"
  shows "(\<exists>op'. Client_ReadOptionFile P opens op = Some (True, op') \<and>
      GetValue_Short P CoreOptionFile ''CORE'' ''MAX_PACKET_RETRANSMISSION_COUNT'' = Some (copt_maxPacketRetransmissionCount op') \<and>
      GetValue_Int P CoreOptionFile ''CORE'' ''RETRANSMISSION_MS'' = Some (copt_retransmissionThreadSleepMs op') \<and>
      GetValue_Int P CoreOptionFile ''CORE'' ''SERVER_ALIVE_CHECK_MS'' = Some (copt_serverAliveCheckMs op') \<and>
      GetValue_String P SessionBrokerOptionFile ''SESSION_BROKER'' ''IP'' = Some (copt_sessionBrokerIP op') \<and>
      GetValue_Short P SessionBrokerOptionFile ''SESSION_BROKER'' ''PORT'' = Some (copt_sessionBrokerPort op') \<and>
      GetValue_Byte P SessionBrokerOptionFile ''SERIALIZEBUF'' ''PACKET_CODE'' = Some (copt_headerCode op') \<and>
      GetValue_Byte P SessionBrokerOptionFile ''SERIALIZEBUF'' ''PACKET_KEY'' = Some (copt_xorCode op'))
    \<longleftrightarrow> GetValue_Short P CoreOptionFile ''CORE'' ''MAX_PACKET_RETRANSMISSION_COUNT'' \<noteq> None \<and>
      GetValue_Int P CoreOptionFile ''CORE'' ''RETRANSMISSION_MS'' \<noteq> None \<and>
      GetValue_Int P CoreOptionFile ''CORE'' ''SERVER_ALIVE_CHECK_MS'' \<noteq> None \<and>
      GetValue_String P SessionBrokerOptionFile ''SESSION_BROKER'' ''IP'' \<noteq> None \<and>
      GetValue_Short P SessionBrokerOptionFile ''SESSION_BROKER'' ''PORT'' \<noteq> None \<and>
      GetValue_Byte P SessionBrokerOptionFile ''SERIALIZEBUF'' ''PACKET_CODE'' \<noteq> None \<and>
      GetValue_Byte P SessionBrokerOptionFile ''SERIALIZEBUF'' ''PACKET_KEY'' \<noteq> None"
  using assms by (auto simp: Client_ReadOptionFile_def Client_ReadClientCoreOptionFile_def Client_ReadSessionGetterOptionFile_def
      read_value_def)

text \<open>A client whose options are not complete does not start: it holds no reference to Winsock and stays stopped.\<close>

lemma start_needs_options:
  assumes "Client_Start (client_env E (False, op)) c = (ok, c')"
  shows "\<not> ok \<and> cl_isStopped c' = cl_isStopped c \<and> cl_clientCountInThisProcess c' = cl_clientCountInThisProcess c \<and>
    cl_socketOpen c' = cl_socketOpen c"
  using assms by (auto simp: Client_Start_def client_env_def client_ask_def Let_def)

section \<open>The socket\<close>

text \<open>\<open>created\<close> and \<open>bound\<close> are the results of \<open>socket\<close> and \<open>bind\<close>.\<close>

definition Client_CreateRUDPSocket :: "bool \<Rightarrow> bool \<Rightarrow> 'k Client \<Rightarrow> bool \<times> 'k Client" where
  "Client_CreateRUDPSocket created bound c =
     (if \<not> created then (False, c\<lparr> cl_socketOpen := False \<rparr>)
      else let c1 = c\<lparr> cl_socketOpen := True \<rparr>
           in if \<not> bound then (False, c1\<lparr> cl_socketOpen := False \<rparr>) else (True, c1))"

text \<open>\<open>Client_Start\<close> takes its result from the environment, and leaves the socket as it says.\<close>

lemma create_socket_start:
  "Client_CreateRUDPSocket created bound c = (ok, c') \<Longrightarrow> ok = (created \<and> bound) \<and> cl_socketOpen c' = ok"
  by (auto simp: Client_CreateRUDPSocket_def Let_def split: if_splits)

section \<open>The hook of debug builds\<close>

definition Client_SendPacketForTest :: "'k ClientEnv \<Rightarrow> byte list \<Rightarrow> 'k Client \<Rightarrow> 'k Client" where
  "Client_SendPacketForTest E streamData c =
     (let packetSequence = cl_lastSendPacketSequence c + 1;
          api = ce_api E;
          content = nb_write api streamData (nb_write api (le_bytes 8 packetSequence)
                      (nb_write api [PACKET_TYPE_byte SEND_TYPE] (nb_Alloc api)))
      in case new_buffer E content c of
           (None, c1) \<Rightarrow> c1
         | (Some b, c1) \<Rightarrow>
             Client_SendPacket_buffer E b packetSequence True (c1\<lparr> cl_lastSendPacketSequence := packetSequence \<rparr>))"

text \<open>Its packets are core packets: the window does not hold them back.\<close>

lemma test_packet_ignores_window:
  assumes "client_inv Y X c" "client_alloc_law E"
  shows "cl_pendingPacketQueue (Client_SendPacketForTest E streamData c) = cl_pendingPacketQueue c"
proof -
  define content where "content = nb_write (ce_api E) streamData (nb_write (ce_api E) (le_bytes 8 (cl_lastSendPacketSequence c + 1))
      (nb_write (ce_api E) [PACKET_TYPE_byte SEND_TYPE] (nb_Alloc (ce_api E))))"
  obtain b where b: "new_buffer E content c = (Some b, upd_buffers (heap_new b content) c)"
    using new_buffer_total [OF assms(2,1)] by blast
  have "cl_pendingPacketQueue (Client_SendPacket_buffer E b q True d) = cl_pendingPacketQueue d" for q and d :: "'a Client"
    by (simp add: Client_SendPacket_buffer_def Let_def)
  with b show ?thesis by (simp add: Client_SendPacketForTest_def Let_def content_def)
qed

text \<open>On a client that waits for no reply it keeps the invariant. (On others it may exceed what the byte that
  counts the packets can hold, which the window prevents for \<open>SendPacket\<close>.)\<close>

lemma client_inv_SendPacketForTest:
  assumes "client_inv Y X c" "client_alloc_law E" "cl_lastSendPacketSequence c \<noteq> - 1" "cl_sendPacketInfoMap c = []"
  shows "client_inv Y X (Client_SendPacketForTest E streamData c)"
proof -
  let ?q = "cl_lastSendPacketSequence c + 1"
  define content where "content = nb_write (ce_api E) streamData (nb_write (ce_api E) (le_bytes 8 ?q)
      (nb_write (ce_api E) [PACKET_TYPE_byte SEND_TYPE] (nb_Alloc (ce_api E))))"
  obtain b where b: "new_buffer E content c = (Some b, upd_buffers (heap_new b content) c)"
    using new_buffer_total [OF assms(2,1)] by blast
  let ?c = "(upd_buffers (heap_new b content) c)\<lparr> cl_lastSendPacketSequence := ?q \<rparr>"
  note i = client_inv_new_buffer [OF assms(1) b assms(2)]
  note f = new_sequence_fresh [OF client_invD(2) [OF assms(1)] assms(3) refl]
  have "client_inv Y (add_mset b X) ?c" by (rule last_sequence_grows [OF i]) (use f(3) in simp)
  then have "client_inv Y X (Client_SendPacket_buffer E b ?q True ?c)"
    by (rule client_inv_SendPacket_buffer [OF _ assms(2)]) (use f assms(4) in simp_all)
  then show ?thesis using b by (simp add: Client_SendPacketForTest_def Let_def content_def)
qed

end
