(* ===== verification/Packet_Handlers.thy ===== *)
theory Packet_Handlers
  imports Session_Receive
begin

text \<open>
  PacketManager (server and client), RUDPSession::RegisterPacketHandler and PacketHandlerUtil.h: how the content says which
  packet has which id and which handler. Two maps are kept: from ids to the classes of packets, and, in a session, from ids to
  handlers. Together they give \<open>env_handler\<close>, the parameter of the handlers of the server. All sessions register the
  same handlers, in the constructor of the content's class.
\<close>

section \<open>Packets and handlers\<close>

text \<open>A class derived from \<open>IPacket\<close>: which class it is, the id its objects return, and the object that
  \<open>BufferToPacket\<close> makes of a new one.\<close>

record 'p PacketClass =
  pc_class :: nat
  pc_GetPacketId :: PacketId
  pc_BufferToPacket :: "NetBuffer \<Rightarrow> 'p"

type_synonym 'p PacketManager = "PacketId \<rightharpoonup> 'p PacketClass"

definition PacketManager_RegisterPacket :: "'p PacketClass \<Rightarrow> 'p PacketManager \<Rightarrow> 'p PacketManager" where
  "PacketManager_RegisterPacket packetType pm = pm(pc_GetPacketId packetType \<mapsto> packetType)"

definition PacketManager_MakePacket :: "PacketId \<Rightarrow> 'p PacketManager \<Rightarrow> 'p PacketClass option" where
  "PacketManager_MakePacket packetId pm = pm packetId"

definition PacketManager_BufferToPacket :: "NetBuffer \<Rightarrow> PacketId \<Rightarrow> 'p PacketManager \<Rightarrow> ('p PacketClass \<times> 'p) option" where
  "PacketManager_BufferToPacket buffer packetId pm =
     (case PacketManager_MakePacket packetId pm of None \<Rightarrow> None
      | Some packet \<Rightarrow> Some (packet, pc_BufferToPacket packet buffer))"

text \<open>A handler: the class of the packets it takes, and what it does with one in a session.\<close>

type_synonym ('p, 'k) PacketFactoryMap = "PacketId \<rightharpoonup> nat \<times> ('p \<Rightarrow> nat \<Rightarrow> 'k World \<Rightarrow> 'k World)"

definition Session_RegisterPacketHandler ::
    "PacketId \<Rightarrow> nat \<Rightarrow> ('p \<Rightarrow> nat \<Rightarrow> 'k World \<Rightarrow> 'k World) \<Rightarrow> ('p, 'k) PacketFactoryMap \<Rightarrow> ('p, 'k) PacketFactoryMap" where
  "Session_RegisterPacketHandler packetId packetType func fm = fm(packetId \<mapsto> (packetType, func))"

text \<open>The function that is stored, and the one it returns: the packet is made when a packet arrives, with what is registered then. The cast
  to the class of the handler is not checked; another class is undefined behaviour.\<close>

definition packet_factory ::
    "'p PacketManager \<Rightarrow> PacketId \<Rightarrow> nat \<times> ('p \<Rightarrow> nat \<Rightarrow> 'k World \<Rightarrow> 'k World) \<Rightarrow> nat \<Rightarrow> NetBuffer \<Rightarrow> 'k World \<Rightarrow> bool \<times> 'k World" where
  "packet_factory pm packetId h session buffer w =
     (case PacketManager_BufferToPacket buffer packetId pm of
        None \<Rightarrow> (False, w)
      | Some (packet, object) \<Rightarrow>
          if pc_class packet \<noteq> fst h then (True, fault w) else (True, snd h object session w))"

definition content_handler ::
    "'p PacketManager \<Rightarrow> ('p, 'k) PacketFactoryMap \<Rightarrow> PacketId \<Rightarrow> (nat \<Rightarrow> NetBuffer \<Rightarrow> 'k World \<Rightarrow> bool \<times> 'k World) option" where
  "content_handler pm fm packetId = (case fm packetId of None \<Rightarrow> None | Some h \<Rightarrow> Some (packet_factory pm packetId h))"

section \<open>What the sessions rely on\<close>

text \<open>Every handler has the class that is registered for its id.\<close>

definition handlers_typed :: "'p PacketManager \<Rightarrow> ('p, 'k) PacketFactoryMap \<Rightarrow> bool" where
  "handlers_typed pm fm \<longleftrightarrow> (\<forall>packetId h packet. fm packetId = Some h \<longrightarrow> pm packetId = Some packet \<longrightarrow> pc_class packet = fst h)"

text \<open>Registering a packet together with its handler keeps it so.\<close>

lemma handlers_typed_register:
  assumes "handlers_typed pm fm"
  shows "handlers_typed (PacketManager_RegisterPacket packet pm)
    (Session_RegisterPacketHandler (pc_GetPacketId packet) (pc_class packet) func fm)"
  using assms by (auto simp: handlers_typed_def PacketManager_RegisterPacket_def Session_RegisterPacketHandler_def)

text \<open>Handlers that keep the invariant of the server give a content that does.\<close>

lemma content_handler_keeps:
  assumes "handlers_typed pm fm" "content_handler pm fm packetId = Some h"
    and "\<And>q t func p i L w. fm q = Some (t, func) \<Longrightarrow> i < n \<Longrightarrow> world_ok n m L w \<Longrightarrow> world_ok n m L (func p i w)"
    and "i < n" "world_ok n m L w" "h i p w = (ok, w')"
  shows "world_ok n m L w'"
proof -
  obtain t func where f: "fm packetId = Some (t, func)" "h = packet_factory pm packetId (t, func)"
    using assms(2) by (auto simp: content_handler_def split: option.splits)
  show ?thesis
  proof (cases "pm packetId")
    case None
    with assms(5,6) f show ?thesis
      by (auto simp: packet_factory_def PacketManager_BufferToPacket_def PacketManager_MakePacket_def)
  next
    case (Some packet)
    with assms(1) f(1) have "pc_class packet = t" by (auto simp: handlers_typed_def)
    with assms(3) [OF f(1) assms(4,5)] assms(6) f(2) Some show ?thesis
      by (auto simp: packet_factory_def PacketManager_BufferToPacket_def PacketManager_MakePacket_def)
  qed
qed

text \<open>A packet that arrives reaches the handler registered last for its id, as the object the class registered last for this id
  reads, and is acknowledged; without a handler or a class it is refused, unacknowledged, and nothing changes.\<close>

lemma packet_reaches_handler:
  fixes pm :: "'p PacketManager" and fm :: "('p, 'k) PacketFactoryMap" and E :: "'k Env"
  defines "E' \<equiv> E\<lparr> env_handler := content_handler pm fm \<rparr>"
  assumes "nb_read (env_api E) 4 recvPacket = (bytes, packet1)"
  shows "fm (le_word bytes) = None \<or> pm (le_word bytes) = None \<Longrightarrow> Session_ProcessPacket E' i recvPacket q w = (False, w)"
    and "fm (le_word bytes) = Some (pc_class packet, func) \<Longrightarrow> pm (le_word bytes) = Some packet \<Longrightarrow>
      Session_ProcessPacket E' i recvPacket q w =
        (True, Session_SendReplyToClient E' q i (upd_session i (\<lambda>s. s\<lparr> s_flowManager := FlowManager_MarkReceived q (s_flowManager s) \<rparr>)
           (func (pc_BufferToPacket packet packet1) i w)))"
  using assms(2) by (auto simp: E'_def Session_ProcessPacket_def content_handler_def packet_factory_def
      PacketManager_BufferToPacket_def PacketManager_MakePacket_def Let_def split: option.splits)

end
