(* ===== verification/Worker_Loops.thy ===== *)
theory Worker_Loops
  imports Server_Handles
begin

text \<open>
  MultiSocketRUDPServer/MultiSocketRUDPCore.Workers.cpp: the bodies of the loops of the IO workers, the logic threads, the
  heartbeat thread and the release thread, up to the handlers they call. What a call that waits returns is an
  argument of the turn. The retransmission threads have their own theory (Retransmission_Wait).
\<close>

section \<open>Calls of the loops\<close>

text \<open>The tick a thread remembers; \<open>now\<close> and \<open>later\<close> are what \<open>GetTickCount64\<close> returns before and after the
  sleep. The result has the milliseconds slept.\<close>

record TickSet =
  ts_nowTick :: "64 word"

definition SleepRemainingFrameTime :: "64 word \<Rightarrow> 64 word \<Rightarrow> 32 word \<Rightarrow> TickSet \<Rightarrow> 32 word \<times> TickSet" where
  "SleepRemainingFrameTime now later intervalMs tickSet =
     (let delta = now - ts_nowTick tickSet
      in (if delta < ucast intervalMs then ucast (ucast intervalMs - delta) else 0, tickSet\<lparr> ts_nowTick := later \<rparr>))"

text \<open>A result of the completion queue: the request (\<open>None\<close> for a null context), and what came with it.\<close>

record Completion =
  cp_request :: "posted option"
  cp_data :: "byte list"
  cp_clientAddr :: sockaddr_in
  cp_status :: "32 word"

text \<open>\<open>None\<close> is \<open>RIO_CORRUPT_CQ\<close>.\<close>

definition RIOManager_DequeueCompletions :: "ThreadIdType \<Rightarrow> Completion list option \<Rightarrow> RIOManager \<Rightarrow> Completion list option" where
  "RIOManager_DequeueCompletions threadId results r =
     (if \<not> rm_isInitialized r \<or> unat threadId \<ge> length (rm_rioCompletionQueues r) then Some [] else results)"

definition RIOManager_DeregisterBuffer :: "nat \<Rightarrow> RIOManager \<Rightarrow> RIOManager" where
  "RIOManager_DeregisterBuffer bufferId r =
     (if \<not> rm_isInitialized r then r
      else r\<lparr> rm_registeredBuffers := remove1 bufferId (rm_registeredBuffers r) \<rparr>)"

text \<open>A call that waits for several objects: the index of the one that ended it, or why it failed.\<close>

datatype WaitResult = Wait_object nat | Wait_failed "32 word" | Wait_other

section \<open>Turns of the threads\<close>

text \<open>A turn says whether the loop goes on. The manager exists while the threads run.\<close>

definition complete_one :: "'k Env \<Rightarrow> ThreadIdType \<Rightarrow> Completion \<Rightarrow> 'k World \<Rightarrow> 'k World" where
  "complete_one E threadId cp w =
     (case cp_request cp of None \<Rightarrow> w
      | Some p \<Rightarrow> snd (IOHandler_IOCompleted E p (cp_data cp) (cp_clientAddr cp) threadId (cp_status cp)
                       (w\<lparr> w_posted := remove1 p (w_posted w) \<rparr>)))"

definition Core_RunIOWorkerThread :: "'k StartEnv \<Rightarrow> Completion list option \<Rightarrow> ThreadIdType \<Rightarrow> 'k Core \<Rightarrow> bool \<times> 'k Core" where
  "Core_RunIOWorkerThread E results threadId c =
     (case co_rioManager c of None \<Rightarrow> (False, c)
      | Some r \<Rightarrow>
          (case RIOManager_DequeueCompletions threadId results r of
             None \<Rightarrow> (False, Core_ReportFatalError \<lparr> fe_code = RIO_COMPLETION_QUEUE_CORRUPT, fe_threadId = threadId,
                                                      fe_nativeErrorCode = 0 \<rparr> c)
           | Some rioResults \<Rightarrow> (True, upd_world (fold (complete_one (server_env E (co_options c)) threadId) rioResults) c)))"

definition Core_RunRecvLogicWorkerThread :: "'k StartEnv \<Rightarrow> WaitResult \<Rightarrow> ThreadIdType \<Rightarrow> 'k Core \<Rightarrow> bool \<times> 'k Core" where
  "Core_RunRecvLogicWorkerThread E result threadId c =
     (let received = upd_world (Core_OnRecvPacket (server_env E (co_options c)) threadId) c
      in case result of
           Wait_object k \<Rightarrow> if k = 0 then (True, received) else if k = 1 then (False, received) else (False, c)
         | Wait_failed errorCode \<Rightarrow>
             (False, Core_ReportFatalError \<lparr> fe_code = RECV_LOGIC_WAIT_FAILED, fe_threadId = threadId, fe_nativeErrorCode = errorCode \<rparr> c)
         | Wait_other \<Rightarrow> (False, c))"

definition Core_RunHeartbeatThread :: "'k StartEnv \<Rightarrow> 64 word \<Rightarrow> 'k Core \<Rightarrow> bool \<times> 'k Core" where
  "Core_RunHeartbeatThread E now c = (True, upd_world (Manager_HeartbeatCheck (server_env E (co_options c)) now) c)"

text \<open>The release thread goes on when its wait fails.\<close>

definition Core_RunSessionReleaseThread :: "'k StartEnv \<Rightarrow> WaitResult \<Rightarrow> 'k Core \<Rightarrow> bool \<times> 'k Core" where
  "Core_RunSessionReleaseThread E result c =
     (case result of
        Wait_object k \<Rightarrow>
          if k = 0 then (True, upd_world (Core_SessionReleaseRound (server_env E (co_options c))) c)
          else if k = 1 then (False, c) else (True, c)
      | _ \<Rightarrow> (True, c))"

text \<open>What an IO worker does after it queued a datagram for a logic thread. \<open>failed\<close> is the error of \<open>SetEvent\<close>, if it fails.\<close>

definition Core_SignalRecvLogicThread :: "32 word option \<Rightarrow> ThreadIdType \<Rightarrow> 'k Core \<Rightarrow> 'k Core" where
  "Core_SignalRecvLogicThread failed threadId c =
     (case failed of
        None \<Rightarrow> (case co_recvLogicThreadEventHandles c ! unat threadId of
                    None \<Rightarrow> c | Some h \<Rightarrow> upd_system (SetEvent h) c)
      | Some errorCode \<Rightarrow> Core_ReportFatalError \<lparr> fe_code = RECV_LOGIC_EVENT_SIGNAL_FAILED, fe_threadId = threadId,
                                                   fe_nativeErrorCode = errorCode \<rparr> c)"

datatype ThreadTurn = Turn_io "Completion list option" | Turn_logic WaitResult | Turn_heartbeat "64 word" | Turn_release WaitResult

fun thread_turn :: "'k StartEnv \<Rightarrow> ThreadTurn \<Rightarrow> ThreadIdType \<Rightarrow> 'k Core \<Rightarrow> bool \<times> 'k Core" where
  "thread_turn E (Turn_io results) threadId c = Core_RunIOWorkerThread E results threadId c"
| "thread_turn E (Turn_logic result) threadId c = Core_RunRecvLogicWorkerThread E result threadId c"
| "thread_turn E (Turn_heartbeat now) threadId c = Core_RunHeartbeatThread E now c"
| "thread_turn E (Turn_release result) threadId c = Core_RunSessionReleaseThread E result c"

section \<open>The turns are steps of the server\<close>

text \<open>RIO reports a request only while it is in flight.\<close>

fun in_flight :: "'k Env \<Rightarrow> ThreadIdType \<Rightarrow> Completion list \<Rightarrow> 'k World \<Rightarrow> bool" where
  "in_flight E threadId [] w = True"
| "in_flight E threadId (cp # cps) w =
     ((case cp_request cp of None \<Rightarrow> True | Some p \<Rightarrow> p \<in> set (w_posted w)) \<and>
      in_flight E threadId cps (complete_one E threadId cp w))"

text \<open>The counter of the release round is 32 bits wide.\<close>

fun turn_law :: "'k StartEnv \<Rightarrow> ThreadTurn \<Rightarrow> ThreadIdType \<Rightarrow> 'k Core \<Rightarrow> bool" where
  "turn_law E (Turn_io (Some results)) threadId c = in_flight (server_env E (co_options c)) threadId results (co_world c)"
| "turn_law E (Turn_release result) threadId c = (length (concat (w_recvIOCompletedContexts (co_world c))) < 2 ^ 32)"
| "turn_law E turn threadId c = True"

lemma complete_one_run:
  assumes "unat threadId < m" "case cp_request cp of None \<Rightarrow> True | Some p \<Rightarrow> p \<in> set (w_posted w)"
  shows "server_run E B n m w (complete_one E threadId cp w)"
proof (cases "cp_request cp")
  case None
  then show ?thesis by (simp add: complete_one_def server_run_def)
next
  case (Some p)
  with assms(2) have "p \<in> set (w_posted w)" by simp
  then obtain ps qs where "w_posted w = ps @ p # qs" "p \<notin> set ps" by (meson split_list_first)
  then have p: "w_posted w = ps @ p # qs" "remove1 p (w_posted w) = ps @ qs" by (simp_all add: remove1_append)
  obtain r w' where c: "IOHandler_IOCompleted E p (cp_data cp) (cp_clientAddr cp) threadId (cp_status cp)
      (w\<lparr> w_posted := ps @ qs \<rparr>) = (r, w')"
    by (metis prod.exhaust_sel)
  from step_completion [OF p(1) assms(1) c] have "server_step E B n m w w'" .
  with Some p(2) c show ?thesis by (auto simp: complete_one_def server_run_def)
qed

lemma complete_all_run:
  "unat threadId < m \<Longrightarrow> in_flight E threadId cps w \<Longrightarrow> server_run E B n m w (fold (complete_one E threadId) cps w)"
proof (induction cps arbitrary: w)
  case (Cons cp cps)
  have "server_run E B n m w (complete_one E threadId cp w)" by (rule complete_one_run) (use Cons.prems in auto)
  moreover have "server_run E B n m (complete_one E threadId cp w) (fold (complete_one E threadId) cps (complete_one E threadId cp w))"
    using Cons by simp
  ultimately show ?case by (simp add: server_run_def)
qed (simp add: server_run_def)

lemma ReportFatalError_world [simp]:
  "co_world (Core_ReportFatalError e c) = co_world c" "co_options (Core_ReportFatalError e c) = co_options c"
  by (simp_all add: Core_ReportFatalError_def Let_def)

lemma server_run_step: "server_step E B n m w w' \<Longrightarrow> server_run E B n m w w'"
  by (simp add: server_run_def r_into_rtranclp)

lemma server_run_refl [simp]: "server_run E B n m w w"
  by (simp add: server_run_def)



section \<open>The pace of a loop\<close>

text \<open>A frame lasts at least the interval, if the clock is right about the sleep.\<close>

lemma frame_lasts:
  assumes "SleepRemainingFrameTime now later intervalMs ts = (slept, ts')"
    and "unat (ts_nowTick ts) \<le> unat now" "unat now + unat slept \<le> unat later"
  shows "unat (ts_nowTick ts) + unat intervalMs \<le> unat (ts_nowTick ts')"
proof -
  let ?d = "now - ts_nowTick ts"
  have d: "unat ?d = unat now - unat (ts_nowTick ts)" using assms(2) by (simp add: unat_sub word_le_nat_alt)
  have i: "unat (ucast intervalMs :: 64 word) = unat intervalMs"
    using unat_u32_bound [of intervalMs] by (simp add: unsigned_ucast_eq take_bit_nat_eq_self)
  show ?thesis
  proof (cases "?d < ucast intervalMs")
    case True
    then have lt: "unat ?d < unat intervalMs" by (simp add: word_less_nat_alt i)
    have "unat (ucast intervalMs - ?d) = unat intervalMs - unat ?d"
      using True by (simp add: unat_sub i less_imp_le)
    moreover have "unat intervalMs < 2 ^ 32" by (rule unat_u32_bound)
    ultimately have "unat (ucast (ucast intervalMs - ?d :: 64 word) :: 32 word) = unat intervalMs - unat ?d"
      by (simp add: unsigned_ucast_eq take_bit_nat_eq_self)
    with True assms d lt show ?thesis by (auto simp: SleepRemainingFrameTime_def Let_def)
  next
    case False
    then have "unat intervalMs \<le> unat ?d" by (simp add: word_less_nat_alt i)
    with False assms d show ?thesis by (auto simp: SleepRemainingFrameTime_def Let_def)
  qed
qed

text \<open>A buffer that is registered and deregistered leaves the list as it was.\<close>

lemma deregister_registered:
  assumes "RIOManager_RegisterRIOBuffer (Some b) False r = (Some b, r')" "b \<notin> set (rm_registeredBuffers r)"
  shows "RIOManager_DeregisterBuffer b r' = r"
  using assms by (auto simp: RIOManager_RegisterRIOBuffer_def RIOManager_DeregisterBuffer_def remove1_append split: if_splits)

end
