(* ===== verification/Retransmission_Wait.thy ===== *)
theory Retransmission_Wait
  imports Retransmission
begin

text \<open>
  MultiSocketRUDPServer/MultiSocketRUDPCore.Workers.cpp, the waiting of a retransmission thread: the timer it
  arms for the next deadline, the event other threads signal after they pushed a deadline (RetransmissionScheduler.h,
  RUDPIOHandler.cpp), the event that stops it. A step is what happens under one lock or in one call of Windows, so that others
  may push between any two steps of the thread, and between a push and its signal.
\<close>

section \<open>The thread\<close>

text \<open>Where the thread is: before its loop over the heap, in the loop over what is due, before it arms the timer for a
  deadline, in one of its two waits, or behind its loop.\<close>

datatype WaitPhase = Scanning | Processing "nat list" | Arming time_point | WaitingTimed | WaitingEmpty | Left

text \<open>The scheduler of the thread and what it is made to wait for. The timer is the time at which it fires, or \<open>None\<close> while it is not
  set. The last four fields belong to the model: the references to descriptors that others hold, the pushes whose signal is still to come,
  when the timer was set, and whether a call of \<open>SetEvent\<close> has failed.\<close>

record Waiter =
  rw_heap :: RetransmissionScheduler
  rw_store :: SpiStore
  rw_now :: time_point
  rw_timer :: "time_point option"
  rw_wake :: bool
  rw_stop :: bool
  rw_stopRequested :: bool
  rw_phase :: WaitPhase
  rw_others :: "nat multiset"
  rw_unsignalled :: nat
  rw_armedAt :: time_point
  rw_signalFailed :: bool

text \<open>The due time in units of 100 nanoseconds; a negative one is relative.\<close>

definition timer_due_time :: "time_point \<Rightarrow> time_point \<Rightarrow> int" where
  "timer_due_time deadline now =
     (if deadline \<le> now then - 1
      else let remaining = (deadline - now) div 100 in - (if remaining > 0 then remaining else 1))"

text \<open>\<open>isSet\<close> is the result of \<open>SetWaitableTimer\<close>; when it fails the loop starts again.\<close>

definition ArmRetransmissionTimer :: "bool \<Rightarrow> time_point \<Rightarrow> Waiter \<Rightarrow> Waiter" where
  "ArmRetransmissionTimer isSet deadline s =
     (if \<not> isSet then s\<lparr> rw_phase := Scanning \<rparr>
      else s\<lparr> rw_timer := Some (rw_now s - 100 * timer_due_time deadline (rw_now s)), rw_armedAt := rw_now s,
              rw_phase := WaitingTimed \<rparr>)"

definition leave_loop :: "Waiter \<Rightarrow> Waiter" where
  "leave_loop s = s\<lparr> rw_heap := [], rw_store := free_queue (map he_info (rw_heap s)) (rw_store s), rw_phase := Left \<rparr>"

text \<open>From the test of the stop token to the loop over what is due, or to one of the waits.\<close>

definition scan_heap :: "Waiter \<Rightarrow> Waiter" where
  "scan_heap s =
     (if rw_stopRequested s then leave_loop s
      else let (due, rest, nextDeadline, st) = collect_due (rw_now s) (rw_heap s) (rw_store s)
           in s\<lparr> rw_heap := rest, rw_store := st,
                 rw_phase := (if due \<noteq> [] then Processing due
                              else case nextDeadline of Some d \<Rightarrow> Arming d | None \<Rightarrow> WaitingEmpty) \<rparr>)"

text \<open>\<open>WaitForMultipleObjects\<close> returns the first object of its array that is signalled; the timer and the event are
  reset by it. \<open>None\<close>: it does not return.\<close>

definition timer_fired :: "Waiter \<Rightarrow> bool" where
  "timer_fired s = (case rw_timer s of None \<Rightarrow> False | Some t \<Rightarrow> t \<le> rw_now s)"

definition after_wait :: "Waiter \<Rightarrow> Waiter option" where
  "after_wait s =
     (if rw_phase s = WaitingTimed \<and> timer_fired s
      then Some (s\<lparr> rw_timer := None, rw_phase := Scanning \<rparr>)
      else if rw_phase s \<in> {WaitingTimed, WaitingEmpty} \<and> rw_wake s
      then Some (s\<lparr> rw_wake := False, rw_phase := Scanning \<rparr>)
      else if rw_phase s \<in> {WaitingTimed, WaitingEmpty} \<and> rw_stop s then Some (leave_loop s)
      else None)"

section \<open>The thread and the others\<close>

definition rw_holders :: "Waiter \<Rightarrow> nat multiset" where
  "rw_holders s = mset (map he_info (rw_heap s)) + (case rw_phase s of Processing due \<Rightarrow> mset due | _ \<Rightarrow> {#}) + rw_others s"

text \<open>Processing a packet that is due ends with the reference the heap had; what it does before, sending the packet
  or ending its session, is done with the steps all threads have: taking and returning references, marking
  a packet as acknowledged, changing what is not the schedule, pushing a deadline and signalling. \<open>wait_fails\<close> is
  a result of the wait that is none of its events.\<close>

inductive waiter_step :: "Waiter \<Rightarrow> Waiter \<Rightarrow> bool" where
  scan: "rw_phase s = Scanning \<Longrightarrow> waiter_step s (scan_heap s)"
| processed: "rw_phase s = Processing (a # due) \<Longrightarrow>
     waiter_step s (s\<lparr> rw_store := SendPacketInfo_Free a (rw_store s), rw_phase := Processing due \<rparr>)"
| all_processed: "rw_phase s = Processing [] \<Longrightarrow> waiter_step s (s\<lparr> rw_phase := Scanning \<rparr>)"
| arm: "rw_phase s = Arming d \<Longrightarrow> waiter_step s (ArmRetransmissionTimer isSet d s)"
| wait_returns: "after_wait s = Some s' \<Longrightarrow> waiter_step s s'"
| wait_fails: "rw_phase s \<in> {WaitingTimed, WaitingEmpty} \<Longrightarrow> waiter_step s (leave_loop s)"
| time_passes: "rw_now s \<le> t \<Longrightarrow> waiter_step s (s\<lparr> rw_now := t \<rparr>)"
| stop_signalled: "waiter_step s (s\<lparr> rw_stop := True \<rparr>)"
| stop_requested: "waiter_step s (s\<lparr> rw_stopRequested := True \<rparr>)"
| pushes: "a \<in># rw_holders s \<Longrightarrow> PushRetransmissionSchedule a deadline (rw_heap s) (rw_store s) = (heap, st) \<Longrightarrow>
     waiter_step s (s\<lparr> rw_heap := heap, rw_store := st, rw_unsignalled := rw_unsignalled s + 1 \<rparr>)"
| signals: "0 < rw_unsignalled s \<Longrightarrow> waiter_step s (s\<lparr> rw_unsignalled := rw_unsignalled s - 1, rw_wake := True \<rparr>)"
| signal_fails: "0 < rw_unsignalled s \<Longrightarrow>
     waiter_step s (s\<lparr> rw_unsignalled := rw_unsignalled s - 1, rw_signalFailed := True \<rparr>)"
| acknowledged: "a \<in># rw_holders s \<Longrightarrow>
     waiter_step s (s\<lparr> rw_store := spi_update a (\<lambda>i. i\<lparr> spi_isErasedPacketInfo := True \<rparr>) (rw_store s) \<rparr>)"
| changed: "a \<in># rw_holders s \<Longrightarrow>
     (\<And>i. spi_refCount (f i) = spi_refCount i \<and> spi_scheduleVersion (f i) = spi_scheduleVersion i \<and>
        spi_isErasedPacketInfo (f i) = spi_isErasedPacketInfo i) \<Longrightarrow>
     waiter_step s (s\<lparr> rw_store := spi_update a f (rw_store s) \<rparr>)"
| allocated: "spi_mem (rw_store s) a = None \<Longrightarrow> spi_refCount i = 1 \<Longrightarrow>
     waiter_step s (s\<lparr> rw_store := spi_new a i (rw_store s), rw_others := add_mset a (rw_others s) \<rparr>)"
| shared: "a \<in># rw_holders s \<Longrightarrow>
     waiter_step s (s\<lparr> rw_store := SendPacketInfo_AddRefCount a (rw_store s), rw_others := add_mset a (rw_others s) \<rparr>)"
| returned: "rw_others s = add_mset a rest_H \<Longrightarrow>
     waiter_step s (s\<lparr> rw_store := SendPacketInfo_Free a (rw_store s), rw_others := rest_H \<rparr>)"

definition Waiter_new :: "time_point \<Rightarrow> Waiter" where
  "Waiter_new now =
     \<lparr> rw_heap = [], rw_store = \<lparr> spi_mem = (\<lambda>_. None), spi_fault = False \<rparr>, rw_now = now, rw_timer = None, rw_wake = False,
       rw_stop = False, rw_stopRequested = False, rw_phase = Scanning, rw_others = {#}, rw_unsignalled = 0,
       rw_armedAt = now, rw_signalFailed = False \<rparr>"

inductive waiter_reachable :: "Waiter \<Rightarrow> bool" where
  waiter_start: "waiter_reachable (Waiter_new now)"
| waiter_next: "waiter_reachable s \<Longrightarrow> waiter_step s s' \<Longrightarrow> waiter_reachable s'"

section \<open>No deadline is missed\<close>

text \<open>What the thread waits for covers every live entry, unless it is about to be woken.\<close>

definition covers :: "WaitPhase \<Rightarrow> time_point option \<Rightarrow> time_point \<Rightarrow> time_point \<Rightarrow> bool" where
  "covers ph timer armedAt deadline =
     (case ph of Arming d \<Rightarrow> d \<le> deadline
      | WaitingTimed \<Rightarrow> (\<exists>t. timer = Some t \<and> t \<le> max deadline (armedAt + 100))
      | WaitingEmpty \<Rightarrow> False
      | _ \<Rightarrow> True)"

definition waiter_ok :: "Waiter \<Rightarrow> bool" where
  "waiter_ok s \<longleftrightarrow>
     refs_ok (rw_holders s) (rw_store s) \<and> sorted (map he_deadline (rw_heap s)) \<and>
     (rw_wake s \<or> 0 < rw_unsignalled s \<or> rw_signalFailed s \<or>
        (\<forall>e \<in> set (rw_heap s). live (rw_store s) e \<longrightarrow> covers (rw_phase s) (rw_timer s) (rw_armedAt s) (he_deadline e)))"

lemma timer_due_time_bound: "now - 100 * timer_due_time d now \<le> max d (now + 100)"
proof -
  have "100 * ((d - now) div 100) \<le> d - now" by presburger
  then show ?thesis by (simp add: timer_due_time_def Let_def max_def)
qed

lemma live_allocated: "refs_ok H st \<Longrightarrow> he_info e \<in># H \<Longrightarrow> spi_mem st (he_info e) \<noteq> None"
  using refs_ok_alloc [of H st "he_info e"] by auto

text \<open>A step of another thread that changes the store alone.\<close>

lemma waiter_ok_store:
  assumes "waiter_ok s" "refs_ok (mset (map he_info (rw_heap s)) + (case rw_phase s of Processing due \<Rightarrow> mset due | _ \<Rightarrow> {#}) + rest_H) st"
    and "\<And>e. e \<in> set (rw_heap s) \<Longrightarrow> live st e \<Longrightarrow> live (rw_store s) e"
  shows "waiter_ok (s\<lparr> rw_store := st, rw_others := rest_H \<rparr>)"
  using assms by (auto simp: waiter_ok_def rw_holders_def cong: WaitPhase.case_cong)

lemma live_spi_update:
  assumes "\<And>i. spi_scheduleVersion (f i) = spi_scheduleVersion i \<and> (spi_isErasedPacketInfo i \<longrightarrow> spi_isErasedPacketInfo (f i))"
    and "live (spi_update a f st) e"
  shows "live st e"
  using assms by (auto simp: live_def spi_update_def split: option.splits if_splits)

lemma collect_due_ends:
  assumes "refs_ok (mset (map he_info heap) + H) st" "collect_due now heap st = (due, rest, next1, st')"
  shows "refs_ok (mset due + mset (map he_info rest) + H) st' \<and>
    (case next1 of None \<Rightarrow> rest = [] | Some d \<Rightarrow> \<exists>e es. rest = e # es \<and> he_deadline e = d) \<and> (\<exists>pre. heap = pre @ rest)"
  using assms
proof (induction heap arbitrary: st H due rest next1 st')
  case (Cons entry heap)
  let ?a = "he_info entry"
  obtain info where i: "spi_get ?a st = Some info"
    using refs_ok_alloc [OF Cons.prems(1), of ?a] by (auto simp: spi_get_def)
  consider (stale) "spi_isErasedPacketInfo info \<or> he_version entry \<noteq> spi_scheduleVersion info"
    | (later) "\<not> (spi_isErasedPacketInfo info \<or> he_version entry \<noteq> spi_scheduleVersion info)" "he_deadline entry > now"
    | (due) "\<not> (spi_isErasedPacketInfo info \<or> he_version entry \<noteq> spi_scheduleVersion info)" "\<not> he_deadline entry > now"
    by blast
  then show ?case
  proof cases
    case stale
    have r: "refs_ok (mset (map he_info heap) + H) (SendPacketInfo_Free ?a st)"
      using Cons.prems(1) by (intro refs_ok_Free) simp
    have d: "collect_due now heap (SendPacketInfo_Free ?a st) = (due, rest, next1, st')"
      using Cons.prems(2) i stale by auto
    note IH = Cons.IH [OF r d]
    then obtain pre where "heap = pre @ rest" by blast
    then have "\<exists>pre. entry # heap = pre @ rest" by (intro exI [of _ "entry # pre"]) simp
    with IH show ?thesis by simp
  next
    case later
    with Cons.prems i show ?thesis by auto
  next
    case due
    let ?st = "SendPacketInfo_InvalidateRttSample ?a st"
    obtain due1 where d: "collect_due now heap ?st = (due1, rest, next1, st')" "due = ?a # due1"
      using Cons.prems(2) i due by (auto split: prod.splits)
    have "refs_ok (mset (map he_info (entry # heap)) + H) ?st"
      using Cons.prems(1) by (intro refs_ok_InvalidateRttSample) auto
    then have r: "refs_ok (mset (map he_info heap) + add_mset ?a H) ?st" by simp
    note IH = Cons.IH [OF r d(1)]
    then obtain pre where "heap = pre @ rest" by blast
    then have "\<exists>pre. entry # heap = pre @ rest" by (intro exI [of _ "entry # pre"]) simp
    with IH d(2) show ?thesis by simp
  qed
qed auto

lemma waiter_ok_leave:
  assumes "waiter_ok s" "\<And>due. rw_phase s \<noteq> Processing due"
  shows "waiter_ok (leave_loop s)"
proof -
  have "rw_holders s = rw_others s + mset (map he_info (rw_heap s))"
    using assms(2) by (simp add: rw_holders_def add_ac split: WaitPhase.split)
  then have "refs_ok (rw_others s) (fold SendPacketInfo_Free (map he_info (rw_heap s)) (rw_store s))"
    using assms(1) by (intro refs_ok_Free_all) (simp add: waiter_ok_def)
  then show ?thesis by (simp add: leave_loop_def waiter_ok_def rw_holders_def free_queue_fold)
qed

lemma waiter_ok_scan:
  assumes "waiter_ok s" "rw_phase s = Scanning"
  shows "waiter_ok (scan_heap s)"
proof (cases "rw_stopRequested s")
  case True
  then show ?thesis using waiter_ok_leave [OF assms(1)] assms(2) by (simp add: scan_heap_def)
next
  case False
  obtain due rest next1 st where c: "collect_due (rw_now s) (rw_heap s) (rw_store s) = (due, rest, next1, st)"
    by (metis prod_cases4)
  have r: "refs_ok (mset (map he_info (rw_heap s)) + rw_others s) (rw_store s)" and sorted: "sorted (map he_deadline (rw_heap s))"
    using assms by (simp_all add: waiter_ok_def rw_holders_def)
  note ends = collect_due_ends [OF r c]
  obtain pre where pre: "rw_heap s = pre @ rest" using ends by blast
  have rest: "sorted (map he_deadline rest)" using sorted by (simp add: pre sorted_append)
  have refs: "refs_ok (mset due + mset (map he_info rest) + rw_others s) st" using ends by blast
  let ?s = "s\<lparr> rw_heap := rest, rw_store := st, rw_phase := (if due \<noteq> [] then Processing due
      else case next1 of Some d \<Rightarrow> Arming d | None \<Rightarrow> WaitingEmpty) \<rparr>"
  have "refs_ok (rw_holders ?s) st"
    using refs by (auto simp: rw_holders_def add_ac split: option.split)
  moreover have "covers (rw_phase ?s) (rw_timer ?s) (rw_armedAt ?s) (he_deadline e)" if "e \<in> set rest" for e
    using ends rest that by (cases next1) (auto simp: covers_def)
  ultimately have "waiter_ok ?s" using rest by (simp add: waiter_ok_def)
  with False c show ?thesis by (simp add: scan_heap_def)
qed

lemma live_kept:
  "live (SendPacketInfo_AddRefCount a st) e \<Longrightarrow> live st e"
  unfolding SendPacketInfo_AddRefCount_def by (erule live_spi_update [rotated]) simp

lemma live_spi_new: "spi_mem st a = None \<Longrightarrow> spi_mem st (he_info e) \<noteq> None \<Longrightarrow> live (spi_new a i st) e = live st e"
  by (auto simp: live_def spi_new_def)

lemma waiter_ok_step: "waiter_step s s' \<Longrightarrow> waiter_ok s \<Longrightarrow> waiter_ok s'"
proof (induction rule: waiter_step.induct)
  case (scan s)
  then show ?case by (simp add: waiter_ok_scan)
next
  case (processed s a due)
  have r: "refs_ok (add_mset a (mset (map he_info (rw_heap s)) + mset due + rw_others s)) (rw_store s)"
    using processed by (simp add: waiter_ok_def rw_holders_def add_ac)
  from refs_ok_Free [OF this] processed show ?case
    by (simp add: waiter_ok_def rw_holders_def covers_def)
next
  case (all_processed s)
  then show ?case by (simp add: waiter_ok_def rw_holders_def covers_def)
next
  case (arm s d isSet)
  have "rw_now s - 100 * timer_due_time d (rw_now s) \<le> max x (rw_now s + 100)" if "d \<le> x" for x
    using timer_due_time_bound [of "rw_now s" d] that by (simp add: max_def split: if_splits)
  with arm show ?case
    by (auto simp: waiter_ok_def rw_holders_def covers_def ArmRetransmissionTimer_def)
next
  case (wait_returns s s')
  have "s' = s\<lparr> rw_timer := None, rw_phase := Scanning \<rparr> \<or> s' = s\<lparr> rw_wake := False, rw_phase := Scanning \<rparr> \<or> s' = leave_loop s"
    and ph: "rw_phase s \<in> {WaitingTimed, WaitingEmpty}"
    using wait_returns(1) by (auto simp: after_wait_def split: if_splits)
  moreover have "waiter_ok (leave_loop s)" using wait_returns(2) ph by (intro waiter_ok_leave) auto
  ultimately show ?case using wait_returns(2) by (auto simp: waiter_ok_def rw_holders_def covers_def)
next
  case (wait_fails s)
  then show ?case by (intro waiter_ok_leave) auto
next
  case (pushes a s deadline heap st)
  have r: "refs_ok (rw_holders s) (rw_store s)" "sorted (map he_deadline (rw_heap s))" using pushes(3) by (simp_all add: waiter_ok_def)
  note p = refs_ok_PushRetransmissionSchedule [OF r(1) pushes(1,2)]
  have "sorted (map he_deadline heap)"
    using pushes(2) r(2) by (auto simp: PushRetransmissionSchedule_def Let_def sorted_heap_push)
  with p show ?case by (simp add: waiter_ok_def rw_holders_def)
next
  case (acknowledged a s)
  have "waiter_ok (s\<lparr> rw_store := spi_update a (\<lambda>i. i\<lparr> spi_isErasedPacketInfo := True \<rparr>) (rw_store s), rw_others := rw_others s \<rparr>)"
    by (rule waiter_ok_store [OF acknowledged(2)])
      (use acknowledged in \<open>auto simp: waiter_ok_def rw_holders_def intro: refs_ok_update elim: live_spi_update [rotated]\<close>)
  then show ?case by simp
next
  case (changed a s f)
  have "waiter_ok (s\<lparr> rw_store := spi_update a f (rw_store s), rw_others := rw_others s \<rparr>)"
    by (rule waiter_ok_store [OF changed(3)])
      (use changed in \<open>auto simp: waiter_ok_def rw_holders_def intro: refs_ok_update elim: live_spi_update [rotated]\<close>)
  then show ?case by simp
next
  case (allocated s a i)
  have r: "refs_ok (rw_holders s) (rw_store s)" using allocated(3) by (simp add: waiter_ok_def)
  show ?case
  proof (rule waiter_ok_store [OF allocated(3)])
    show "refs_ok (mset (map he_info (rw_heap s)) + (case rw_phase s of Processing due \<Rightarrow> mset due | _ \<Rightarrow> {#}) + add_mset a (rw_others s))
        (spi_new a i (rw_store s))"
      using refs_ok_new [OF r allocated(1,2)] by (simp add: rw_holders_def)
    show "live (rw_store s) e" if "e \<in> set (rw_heap s)" "live (spi_new a i (rw_store s)) e" for e
      using live_spi_new [OF allocated(1), of e i] live_allocated [OF r, of e] that by (simp add: rw_holders_def)
  qed
next
  case (shared a s)
  show ?case
  proof (rule waiter_ok_store [OF shared(2)])
    show "refs_ok (mset (map he_info (rw_heap s)) + (case rw_phase s of Processing due \<Rightarrow> mset due | _ \<Rightarrow> {#}) + add_mset a (rw_others s))
        (SendPacketInfo_AddRefCount a (rw_store s))"
      using refs_ok_AddRefCount [of "rw_holders s" "rw_store s" a] shared by (simp add: waiter_ok_def rw_holders_def)
  qed (rule live_kept)
next
  case (returned s a rest_H)
  have r: "refs_ok (mset (map he_info (rw_heap s)) + (case rw_phase s of Processing due \<Rightarrow> mset due | _ \<Rightarrow> {#}) + rest_H)
      (SendPacketInfo_Free a (rw_store s))"
    using returned by (intro refs_ok_Free) (simp add: waiter_ok_def rw_holders_def)
  show ?case
  proof (rule waiter_ok_store [OF returned(2) r])
    show "live (rw_store s) e" if "e \<in> set (rw_heap s)" "live (SendPacketInfo_Free a (rw_store s)) e" for e
      using live_Free [of a "rw_store s" e] live_allocated [OF r, of e] that by simp
  qed
qed (auto simp: waiter_ok_def rw_holders_def cong: WaitPhase.case_cong)

lemma waiter_reachable_ok: "waiter_reachable s \<Longrightarrow> waiter_ok s"
proof (induction rule: waiter_reachable.induct)
  case (waiter_start now)
  show ?case by (simp add: waiter_ok_def rw_holders_def Waiter_new_def refs_ok_def)
qed (rule waiter_ok_step)

lemma after_wait_wakes:
  assumes "rw_phase s \<in> {WaitingTimed, WaitingEmpty}" "rw_wake s \<or> rw_phase s = WaitingTimed \<and> timer_fired s"
  shows "\<exists>s'. after_wait s = Some s' \<and> rw_phase s' = Scanning \<and> rw_heap s' = rw_heap s \<and> rw_store s' = rw_store s \<and>
    rw_now s' = rw_now s \<and> rw_stopRequested s' = rw_stopRequested s"
  by (cases "rw_phase s = WaitingTimed \<and> timer_fired s") (use assms in \<open>auto simp: after_wait_def\<close>)

text \<open>C18: No deadline is missed: when a thread waits while its heap has a live entry whose deadline has passed (by 100
  nanoseconds after the timer was set, the resolution of the timer), the push of every entry has
  been signalled and no signal failed, then the wait returns, for a reason other than the stop event, and the thread
  takes the entry in its next look at the heap unless a stop was requested. No reference to a descriptor is ever lost or given back twice.\<close>

theorem retransmission_thread_wakes:
  assumes "waiter_reachable s"
  shows "(rw_phase s \<in> {WaitingTimed, WaitingEmpty} \<and> rw_unsignalled s = 0 \<and> \<not> rw_signalFailed s \<longrightarrow>
      (\<forall>e \<in> set (rw_heap s). live (rw_store s) e \<and> max (he_deadline e) (rw_armedAt s + 100) \<le> rw_now s \<longrightarrow>
        (\<exists>s'. after_wait s = Some s' \<and> rw_phase s' = Scanning \<and>
           (\<not> rw_stopRequested s \<longrightarrow> (\<exists>due. rw_phase (scan_heap s') = Processing due \<and> he_info e \<in> set due))))) \<and>
    refs_ok (rw_holders s) (rw_store s)"
proof -
  have ok: "waiter_ok s" using assms by (rule waiter_reachable_ok)
  then have r: "refs_ok (rw_holders s) (rw_store s)" and sorted: "sorted (map he_deadline (rw_heap s))"
    by (simp_all add: waiter_ok_def)
  have "\<exists>s'. after_wait s = Some s' \<and> rw_phase s' = Scanning \<and>
      (\<not> rw_stopRequested s \<longrightarrow> (\<exists>due. rw_phase (scan_heap s') = Processing due \<and> he_info e \<in> set due))"
    if w: "rw_phase s \<in> {WaitingTimed, WaitingEmpty}" "rw_unsignalled s = 0" "\<not> rw_signalFailed s"
      and e: "e \<in> set (rw_heap s)" "live (rw_store s) e" "max (he_deadline e) (rw_armedAt s + 100) \<le> rw_now s" for e
  proof -
    have "rw_wake s \<or> covers (rw_phase s) (rw_timer s) (rw_armedAt s) (he_deadline e)"
      using ok w e by (auto simp: waiter_ok_def)
    then have "rw_wake s \<or> rw_phase s = WaitingTimed \<and> timer_fired s"
      using w(1) e(3) by (auto simp: covers_def timer_fired_def intro: order_trans)
    from after_wait_wakes [OF w(1) this] obtain s' where s': "after_wait s = Some s'" "rw_phase s' = Scanning" "rw_heap s' = rw_heap s" "rw_store s' = rw_store s"
        "rw_now s' = rw_now s" "rw_stopRequested s' = rw_stopRequested s" by blast
    obtain due rest next1 st where c: "collect_due (rw_now s) (rw_heap s) (rw_store s) = (due, rest, next1, st)"
      by (metis prod_cases4)
    have "refs_ok (mset (map he_info (rw_heap s)) + rw_others s) (rw_store s)"
      using r w(1) by (auto simp: rw_holders_def)
    from collect_due_exact [OF this sorted c] e have "he_info e \<in> set due" by auto
    with s' c show ?thesis by (auto simp: scan_heap_def)
  qed
  with r show ?thesis by blast
qed

text \<open>A run: a packet is scheduled for the time 1000 at the time 0 and the push is signalled, the thread arms its timer, and the
  time passes.\<close>

theorem retransmission_thread_wakes_witness:
  "\<exists>s s' due. waiter_reachable s \<and> rw_phase s = WaitingTimed \<and> after_wait s = Some s' \<and>
     rw_phase (scan_heap s') = Processing due \<and> 0 \<in> set due"
proof -
  define i where "i = SendPacketInfo_Initialize 0 0 undefined 1 False"
  have i: "spi_refCount i = 1" "\<not> spi_isErasedPacketInfo i" "spi_scheduleVersion i = 0"
    by (simp_all add: i_def SendPacketInfo_Initialize_def)
  let ?mem = "[0 \<mapsto> i\<lparr> spi_scheduleVersion := 1, spi_refCount := 2 \<rparr>]"
  let ?e = "\<lparr> he_deadline = 1000, he_version = 1, he_info = 0 \<rparr>"
  define s1 where "s1 = (Waiter_new 0)\<lparr> rw_store := spi_new 0 i (rw_store (Waiter_new 0)), rw_others := {#0#} \<rparr>"
  define s2 where "s2 = s1\<lparr> rw_heap := [?e], rw_store := \<lparr> spi_mem = ?mem, spi_fault = False \<rparr>, rw_unsignalled := 1 \<rparr>"
  define s3 where "s3 = s2\<lparr> rw_unsignalled := 0, rw_wake := True \<rparr>"
  define s4 where "s4 = s3\<lparr> rw_phase := Arming 1000 \<rparr>"
  define s5 where "s5 = s4\<lparr> rw_timer := Some 1000, rw_armedAt := 0, rw_phase := WaitingTimed \<rparr>"
  define s where "s = s5\<lparr> rw_now := 1000 \<rparr>"
  note defs = s_def s5_def s4_def s3_def s2_def s1_def Waiter_new_def
  have t1: "waiter_step (Waiter_new 0) s1"
    using allocated [of "Waiter_new 0" 0 i] by (simp add: s1_def Waiter_new_def i)
  have "PushRetransmissionSchedule 0 1000 [] (rw_store s1) = ([?e], \<lparr> spi_mem = ?mem, spi_fault = False \<rparr>)"
    by (simp add: PushRetransmissionSchedule_def SendPacketInfo_AddRefCount_def spi_update_def spi_get_def spi_new_def Let_def s1_def
        Waiter_new_def i)
  then have t2: "waiter_step s1 s2" using pushes [of 0 s1 1000] by (simp add: s2_def s1_def rw_holders_def Waiter_new_def)
  have t3: "waiter_step s2 s3" using signals [of s2] by (simp add: s3_def s2_def)
  have "scan_heap s3 = s4" by (simp add: scan_heap_def defs spi_get_def i)
  then have t4: "waiter_step s3 s4" using scan [of s3] by (simp add: defs)
  have "ArmRetransmissionTimer True 1000 s4 = s5" by (simp add: ArmRetransmissionTimer_def timer_due_time_def defs)
  then have t5: "waiter_step s4 s5" using arm [of s4 1000 True] by (simp add: s4_def)
  have t6: "waiter_step s5 s" using time_passes [of s5 1000] by (simp add: defs)
  have r: "waiter_reachable s"
    by (rule waiter_next [OF waiter_next [OF waiter_next [OF waiter_next [OF waiter_next [OF waiter_next
        [OF waiter_start t1] t2] t3] t4] t5] t6])
  have w: "rw_phase s \<in> {WaitingTimed, WaitingEmpty} \<and> rw_unsignalled s = 0 \<and> \<not> rw_signalFailed s" by (simp add: defs)
  have e: "?e \<in> set (rw_heap s)" "live (rw_store s) ?e \<and> max (he_deadline ?e) (rw_armedAt s + 100) \<le> rw_now s"
    by (simp_all add: live_def defs i)
  have n: "\<not> rw_stopRequested s" "rw_phase s = WaitingTimed" by (simp_all add: defs)
  from retransmission_thread_wakes [OF r, THEN conjunct1, THEN mp, OF w, THEN bspec, OF e(1), THEN mp, OF e(2)]
  obtain s' where s': "after_wait s = Some s'"
    "\<not> rw_stopRequested s \<longrightarrow> (\<exists>due. rw_phase (scan_heap s') = Processing due \<and> he_info ?e \<in> set due)" by blast
  from s'(2) [THEN mp, OF n(1)] obtain due where "rw_phase (scan_heap s') = Processing due" "0 \<in> set due" by auto
  with r n(2) s'(1) show ?thesis by blast
qed

end
