(* ===== verification/Logic_Queue.thy ===== *)
theory Logic_Queue
  imports Prelude
begin

text \<open>
  MultiSocketRUDPServer/MultiSocketRUDPCore: the queue between the IO workers and a logic thread (\<open>RecvIOCompletedQueue\<close>,
  \<open>EnqueueContextResult\<close>, \<open>SignalRecvLogicThread\<close>, \<open>RunRecvLogicWorkerThread\<close>, \<open>OnRecvPacket\<close>), with what happens under one lock or in one call of
  Windows as a step. What the thread does with a context is modelled in Session_Receive, where
  \<open>OnRecvPacket\<close> is one step of the server.
\<close>

section \<open>The queue\<close>

definition RecvIOCompletedQueue_Enqueue :: "'c \<Rightarrow> 'c list \<Rightarrow> 'c list" where
  "RecvIOCompletedQueue_Enqueue inContext contexts = contexts @ [inContext]"

definition RecvIOCompletedQueue_Dequeue :: "'c list \<Rightarrow> ('c \<times> 'c list) option" where
  "RecvIOCompletedQueue_Dequeue contexts = (case contexts of [] \<Rightarrow> None | context1 # rest \<Rightarrow> Some (context1, rest))"

section \<open>The logic thread\<close>

text \<open>Waiting, sleeping after the stop event, in the loop of \<open>OnRecvPacket\<close> (which is the last one after the stop event), or ended.\<close>

datatype LogicPhase = LogicWaiting | LogicStopping | LogicDraining bool | LogicEnded

text \<open>The event of the thread is reset by the wait, the stop event is not. The last four fields belong to the model: the
  contexts enqueued and those handed to a handler so far, how many enqueued contexts are not signalled yet, and whether \<open>SetEvent\<close> failed.\<close>

record 'c LogicThread =
  lt_contexts :: "'c list"
  lt_event :: bool
  lt_stopEvent :: bool
  lt_phase :: LogicPhase
  lt_enqueued :: "'c list"
  lt_processed :: "'c list"
  lt_unsignalled :: nat
  lt_signalFailed :: bool

definition LogicThread_new :: "'c LogicThread" where
  "LogicThread_new = \<lparr> lt_contexts = [], lt_event = False, lt_stopEvent = False, lt_phase = LogicWaiting, lt_enqueued = [],
     lt_processed = [], lt_unsignalled = 0, lt_signalFailed = False \<rparr>"

definition enqueue_context :: "'c \<Rightarrow> 'c LogicThread \<Rightarrow> 'c LogicThread" where
  "enqueue_context c t = t\<lparr> lt_contexts := RecvIOCompletedQueue_Enqueue c (lt_contexts t), lt_enqueued := lt_enqueued t @ [c],
     lt_unsignalled := lt_unsignalled t + 1 \<rparr>"

text \<open>\<open>isSet\<close> is the result of \<open>SetEvent\<close>; a failure is reported as a fatal error.\<close>

definition signal_logic :: "bool \<Rightarrow> 'c LogicThread \<Rightarrow> 'c LogicThread" where
  "signal_logic isSet t =
     (let t1 = t\<lparr> lt_unsignalled := lt_unsignalled t - 1 \<rparr>
      in if isSet then t1\<lparr> lt_event := True \<rparr> else t1\<lparr> lt_signalFailed := True \<rparr>)"

definition logic_wakes :: "'c LogicThread \<Rightarrow> 'c LogicThread option" where
  "logic_wakes t =
     (if lt_event t then Some (t\<lparr> lt_event := False, lt_phase := LogicDraining False \<rparr>)
      else if lt_stopEvent t then Some (t\<lparr> lt_phase := LogicStopping \<rparr>)
      else None)"

text \<open>One turn of the loop of \<open>OnRecvPacket\<close>.\<close>

definition drain_turn :: "bool \<Rightarrow> 'c LogicThread \<Rightarrow> 'c LogicThread" where
  "drain_turn last_one t =
     (case RecvIOCompletedQueue_Dequeue (lt_contexts t) of
        None \<Rightarrow> t\<lparr> lt_phase := (if last_one then LogicEnded else LogicWaiting) \<rparr>
      | Some (c, rest) \<Rightarrow> t\<lparr> lt_contexts := rest, lt_processed := lt_processed t @ [c] \<rparr>)"

inductive logic_step :: "'c LogicThread \<Rightarrow> 'c LogicThread \<Rightarrow> bool" where
  logic_enqueue: "logic_step t (enqueue_context c t)"
| logic_signal: "0 < lt_unsignalled t \<Longrightarrow> logic_step t (signal_logic isSet t)"
| logic_stop_event: "logic_step t (t\<lparr> lt_stopEvent := True \<rparr>)"
| logic_wake: "lt_phase t = LogicWaiting \<Longrightarrow> logic_wakes t = Some t' \<Longrightarrow> logic_step t t'"
| logic_wait_fails: "lt_phase t = LogicWaiting \<Longrightarrow> logic_step t (t\<lparr> lt_phase := LogicEnded \<rparr>)"
| logic_slept: "lt_phase t = LogicStopping \<Longrightarrow> logic_step t (t\<lparr> lt_phase := LogicDraining True \<rparr>)"
| logic_drain: "lt_phase t = LogicDraining last_one \<Longrightarrow> logic_step t (drain_turn last_one t)"

inductive logic_reachable :: "'c LogicThread \<Rightarrow> bool" where
  logic_start: "logic_reachable LogicThread_new"
| logic_next: "logic_reachable t \<Longrightarrow> logic_step t t' \<Longrightarrow> logic_reachable t'"

section \<open>No datagram is lost\<close>

definition logic_ok :: "'c LogicThread \<Rightarrow> bool" where
  "logic_ok t \<longleftrightarrow>
     lt_processed t @ lt_contexts t = lt_enqueued t \<and>
     (lt_phase t = LogicWaiting \<and> lt_contexts t \<noteq> [] \<longrightarrow> lt_event t \<or> 0 < lt_unsignalled t \<or> lt_signalFailed t)"

lemma logic_ok_step: "logic_step t t' \<Longrightarrow> logic_ok t \<Longrightarrow> logic_ok t'"
proof (induction rule: logic_step.induct)
  case (logic_enqueue t c)
  then show ?case by (simp add: logic_ok_def enqueue_context_def RecvIOCompletedQueue_Enqueue_def flip: append_assoc)
next
  case (logic_signal t isSet)
  then show ?case by (auto simp: logic_ok_def signal_logic_def Let_def)
next
  case (logic_wake t t')
  then show ?case by (auto simp: logic_ok_def logic_wakes_def split: if_splits)
next
  case (logic_drain t last_one)
  then show ?case by (auto simp: logic_ok_def drain_turn_def RecvIOCompletedQueue_Dequeue_def split: list.split)
qed (auto simp: logic_ok_def)

lemma logic_reachable_ok: "logic_reachable t \<Longrightarrow> logic_ok t"
proof (induction rule: logic_reachable.induct)
  case logic_start
  show ?case by (simp add: logic_ok_def LogicThread_new_def)
qed (blast intro: logic_ok_step)

lemma drain_all:
  "lt_phase t = LogicDraining last_one \<Longrightarrow>
   (drain_turn last_one ^^ length (lt_contexts t)) t = t\<lparr> lt_contexts := [], lt_processed := lt_processed t @ lt_contexts t \<rparr>"
proof (induction "lt_contexts t" arbitrary: t)
  case (Cons c rest)
  let ?t = "t\<lparr> lt_contexts := rest, lt_processed := lt_processed t @ [c] \<rparr>"
  have "drain_turn last_one t = ?t" by (simp add: drain_turn_def RecvIOCompletedQueue_Dequeue_def flip: Cons.hyps(2))
  moreover have "(drain_turn last_one ^^ length rest) ?t = t\<lparr> lt_contexts := [], lt_processed := lt_processed t @ c # rest \<rparr>"
    using Cons.hyps(1) [of ?t] Cons.prems by simp
  ultimately show ?case by (simp add: funpow_swap1 flip: Cons.hyps(2))
qed simp

text \<open>C20: Docs/Server/PacketProcessing.md says that signals may be merged without a packet being lost and that no wake-up is lost
  between enqueuing and waiting. It is so: the contexts processed, then those that wait, are those
  enqueued, in order and each once; and when the thread waits while contexts do, every enqueuing has been followed by its
  signal and no signal has failed, then the wait returns, and as many turns of the loop as contexts wait process them all.\<close>

theorem logic_thread_loses_nothing:
  assumes "logic_reachable t"
  shows "lt_processed t @ lt_contexts t = lt_enqueued t \<and>
    (lt_phase t = LogicWaiting \<and> lt_contexts t \<noteq> [] \<and> lt_unsignalled t = 0 \<and> \<not> lt_signalFailed t \<longrightarrow>
      (\<exists>t'. logic_wakes t = Some t' \<and>
         lt_processed ((drain_turn False ^^ length (lt_contexts t)) t') = lt_enqueued t))"
proof -
  have ok: "logic_ok t" using assms by (rule logic_reachable_ok)
  have "\<exists>t'. logic_wakes t = Some t' \<and> lt_processed ((drain_turn False ^^ length (lt_contexts t)) t') = lt_enqueued t"
    if w: "lt_phase t = LogicWaiting" "lt_contexts t \<noteq> []" "lt_unsignalled t = 0" "\<not> lt_signalFailed t"
  proof -
    let ?t = "t\<lparr> lt_event := False, lt_phase := LogicDraining False \<rparr>"
    have "logic_wakes t = Some ?t" using ok w by (auto simp: logic_ok_def logic_wakes_def)
    moreover have "lt_processed ((drain_turn False ^^ length (lt_contexts t)) ?t) = lt_enqueued t"
      using drain_all [of ?t False] ok by (simp add: logic_ok_def)
    ultimately show ?thesis by blast
  qed
  with ok show ?thesis by (auto simp: logic_ok_def)
qed

text \<open>A run: two contexts are enqueued while the thread waits, and their signals are merged.\<close>

theorem logic_thread_loses_nothing_witness:
  "\<exists>t t'. logic_reachable t \<and> lt_contexts t = [1, 2 :: nat] \<and> logic_wakes t = Some t' \<and>
     lt_processed ((drain_turn False ^^ 2) t') = [1, 2]"
proof -
  let ?t1 = "enqueue_context 2 (enqueue_context 1 LogicThread_new) :: nat LogicThread"
  let ?t = "signal_logic True (signal_logic True ?t1)"
  have "logic_reachable ?t1"
    by (rule logic_next [OF logic_next [OF logic_start logic_enqueue] logic_enqueue])
  moreover have "logic_step ?t1 (signal_logic True ?t1)"
    by (rule logic_signal) (simp add: enqueue_context_def LogicThread_new_def)
  moreover have "logic_step (signal_logic True ?t1) ?t"
    by (rule logic_signal) (simp add: enqueue_context_def LogicThread_new_def signal_logic_def)
  ultimately have r: "logic_reachable ?t" using logic_next by metis
  have f: "lt_contexts ?t = [1, 2]" "lt_enqueued ?t = [1, 2]" "lt_phase ?t = LogicWaiting" "lt_unsignalled ?t = 0" "\<not> lt_signalFailed ?t"
    by (simp_all add: enqueue_context_def LogicThread_new_def signal_logic_def RecvIOCompletedQueue_Enqueue_def)
  have "lt_phase ?t = LogicWaiting \<and> lt_contexts ?t \<noteq> [] \<and> lt_unsignalled ?t = 0 \<and> \<not> lt_signalFailed ?t" using f by simp
  from logic_thread_loses_nothing [OF r, THEN conjunct2, THEN mp, OF this] r f(1,2) show ?thesis
    by (auto simp: numeral_2_eq_2)
qed

end
