(* ===== verification/Logger_Thread.thy ===== *)
theory Logger_Thread
  imports Text_Format
begin

text \<open>
  Logger/Logger, LogClass: logs are put into a queue, and a thread writes them to a file. What the
  thread does between two points where others can get in is a step: waiting for an event, swapping
  the queue under its lock, writing what was swapped. Writing JSON is a library class, so a line of the file is the
  log object.
\<close>

section \<open>Log objects\<close>

record 'l LogBase =
  lb_loggingTime :: string
  lb_lastErrorCode :: "32 word"
  lb_log :: 'l

definition format_time :: "tm \<Rightarrow> nat \<Rightarrow> string" where
  "format_time t milliseconds =
     padded 4 (tm_year t + 1900) @ ''-'' @ padded 2 (tm_mon t + 1) @ ''-'' @ padded 2 (tm_mday t) @ '' '' @
     padded 2 (tm_hour t) @ '':'' @ padded 2 (tm_min t) @ '':'' @ padded 2 (tm_sec t) @ ''.'' @ padded 3 milliseconds"

text \<open>\<open>utcTime\<close> is \<open>None\<close> when \<open>gmtime_s\<close> fails.\<close>

definition LogBase_SetLogTime :: "tm option \<Rightarrow> nat \<Rightarrow> 'l LogBase \<Rightarrow> 'l LogBase" where
  "LogBase_SetLogTime utcTime sinceEpochMs l =
     (case utcTime of None \<Rightarrow> l\<lparr> lb_loggingTime := ''INVALID_TIME'' \<rparr>
      | Some t \<Rightarrow> l\<lparr> lb_loggingTime := format_time t (sinceEpochMs mod 1000) \<rparr>)"

definition LogBase_SetLastErrorCode :: "32 word \<Rightarrow> 'l LogBase \<Rightarrow> 'l LogBase" where
  "LogBase_SetLastErrorCode inLastErrorCode l = l\<lparr> lb_lastErrorCode := inLastErrorCode \<rparr>"

section \<open>The logger\<close>

text \<open>Where the thread is: the result of its wait is whether the log event woke it, not the stop event.\<close>

datatype WorkerState = NotRunning | Waiting | Woken bool | Writing bool | Ended

text \<open>An event handle is \<open>None\<close> while it is null; otherwise the event is signalled or not. \<open>lg_copyLogWaitingQueue\<close> is the
  local queue of the thread. The last four fields belong to the model: how many event handles are open, the logs accepted so far, how many of them before
  the thread was started, and a crash of the process the code asks for.\<close>

record 'l Logger =
  lg_isAlive :: bool
  lg_currentConnectedClientCount :: "16 word"
  lg_printToConsole :: bool
  lg_logHandle :: "bool option"
  lg_stopHandle :: "bool option"
  lg_worker :: WorkerState
  lg_joining :: bool
  lg_fileName :: string
  lg_logWaitingQueue :: "'l LogBase list"
  lg_copyLogWaitingQueue :: "'l LogBase list"
  lg_file :: "'l LogBase list"
  lg_console :: "'l LogBase list"
  lg_openEvents :: nat
  lg_accepted :: "'l LogBase list"
  lg_acceptedBefore :: nat
  lg_crashed :: bool

definition logger_members :: "'l Logger" where
  "logger_members =
     \<lparr> lg_isAlive = False, lg_currentConnectedClientCount = 0, lg_printToConsole = False, lg_logHandle = None,
       lg_stopHandle = None, lg_worker = NotRunning, lg_joining = False, lg_fileName = [], lg_logWaitingQueue = [],
       lg_copyLogWaitingQueue = [], lg_file = [], lg_console = [], lg_openEvents = 0, lg_accepted = [],
       lg_acceptedBefore = 0, lg_crashed = False \<rparr>"

text \<open>Whether the folder exists and whether it could be created are arguments.\<close>

definition Logger_CreateFolderIfNotExists :: "bool \<Rightarrow> bool \<Rightarrow> 'l Logger \<Rightarrow> 'l Logger" where
  "Logger_CreateFolderIfNotExists exists created lg =
     (if \<not> exists \<and> \<not> created then lg\<lparr> lg_crashed := True \<rparr> else lg)"

text \<open>One file for an hour: \<open>strftime\<close> with \<open>%Y-%m-%d_%H\<close>.\<close>

definition log_file_name :: "tm \<Rightarrow> string" where
  "log_file_name t = ''Log Folder'' @ ''/log_'' @ decimal (tm_year t + 1900) @ ''-'' @ padded 2 (tm_mon t + 1) @ ''-'' @
     padded 2 (tm_mday t) @ ''_'' @ padded 2 (tm_hour t) @ ''.txt''"

text \<open>The constructor. \<open>utcTime\<close> is \<open>None\<close> when \<open>gmtime_s\<close> fails; \<open>opens\<close> says whether a file can be opened. A crash ends the process.\<close>

definition Logger_new :: "bool \<Rightarrow> bool \<Rightarrow> tm option \<Rightarrow> (string \<Rightarrow> bool) \<Rightarrow> 'l Logger" where
  "Logger_new exists created utcTime opens =
     (let lg = Logger_CreateFolderIfNotExists exists created logger_members
      in if lg_crashed lg then lg
         else case utcTime of None \<Rightarrow> lg\<lparr> lg_crashed := True \<rparr>
         | Some t \<Rightarrow>
             if \<not> opens (log_file_name t) then lg\<lparr> lg_crashed := True \<rparr>
             else lg\<lparr> lg_fileName := log_file_name t, lg_isAlive := True \<rparr>)"

text \<open>\<open>WriteLogImpl\<close> writes every log of a queue and empties it.\<close>

definition Logger_WriteLogToFile :: "'l LogBase \<Rightarrow> 'l Logger \<Rightarrow> 'l Logger" where
  "Logger_WriteLogToFile l lg =
     (let lg1 = lg\<lparr> lg_file := lg_file lg @ [l] \<rparr>
      in if lg_printToConsole lg1 then lg1\<lparr> lg_console := lg_console lg1 @ [l] \<rparr> else lg1)"

definition Logger_WriteLogImpl :: "'l LogBase list \<Rightarrow> 'l Logger \<Rightarrow> 'l Logger" where
  "Logger_WriteLogImpl logs lg = fold Logger_WriteLogToFile logs lg"

text \<open>\<open>created\<close> says which of the two events could be created.\<close>

definition Logger_RunLoggerThread :: "bool \<Rightarrow> bool \<times> bool \<Rightarrow> 'l Logger \<Rightarrow> 'l Logger" where
  "Logger_RunLoggerThread isAlsoPrintToConsole created lg =
     (let before = lg_currentConnectedClientCount lg;
          lg1 = lg\<lparr> lg_currentConnectedClientCount := before + 1 \<rparr>
      in if sint before > 0 then lg1
         else let lg2 = lg1\<lparr> lg_printToConsole := isAlsoPrintToConsole,
                  lg_logHandle := (if fst created then Some False else None),
                  lg_stopHandle := (if snd created then Some False else None),
                  lg_openEvents := lg_openEvents lg1 + of_bool (fst created) + of_bool (snd created) \<rparr>
              in if lg_logHandle lg2 = None \<or> lg_stopHandle lg2 = None then lg2\<lparr> lg_crashed := True \<rparr>
                 else lg2\<lparr> lg_worker := Waiting, lg_acceptedBefore := length (lg_accepted lg2) \<rparr>)"

definition signal_event :: "bool option \<Rightarrow> bool option" where
  "signal_event handle = map_option (\<lambda>_. True) handle"

text \<open>\<open>StopLoggerThread\<close> up to the join, which waits until the thread has ended.\<close>

definition Logger_StopLoggerThread :: "'l Logger \<Rightarrow> 'l Logger" where
  "Logger_StopLoggerThread lg =
     (let before = lg_currentConnectedClientCount lg;
          lg1 = lg\<lparr> lg_currentConnectedClientCount := before - 1 \<rparr>
      in if before \<noteq> 1 then lg1
         else lg1\<lparr> lg_stopHandle := signal_event (lg_stopHandle lg1), lg_joining := True \<rparr>)"

text \<open>A null pointer is \<open>None\<close>.\<close>

definition Logger_WriteLog :: "tm option \<Rightarrow> nat \<Rightarrow> 'l LogBase option \<Rightarrow> 'l Logger \<Rightarrow> 'l Logger" where
  "Logger_WriteLog utcTime sinceEpochMs logObject lg =
     (if \<not> lg_isAlive lg then lg
      else case logObject of None \<Rightarrow> lg
      | Some l \<Rightarrow>
          let l1 = LogBase_SetLogTime utcTime sinceEpochMs l
          in lg\<lparr> lg_logWaitingQueue := lg_logWaitingQueue lg @ [l1], lg_accepted := lg_accepted lg @ [l1],
                 lg_logHandle := signal_event (lg_logHandle lg) \<rparr>)"

text \<open>The steps of \<open>Worker\<close>. The log event is first in the array of the wait and is reset by it; the stop event is not.\<close>

definition worker_wakes :: "'l Logger \<Rightarrow> 'l Logger option" where
  "worker_wakes lg =
     (if lg_logHandle lg = Some True then Some (lg\<lparr> lg_worker := Woken True, lg_logHandle := Some False \<rparr>)
      else if lg_stopHandle lg = Some True then Some (lg\<lparr> lg_worker := Woken False \<rparr>)
      else None)"

definition worker_swaps :: "'l Logger \<Rightarrow> 'l Logger" where
  "worker_swaps lg = lg\<lparr> lg_copyLogWaitingQueue := lg_logWaitingQueue lg, lg_logWaitingQueue := lg_copyLogWaitingQueue lg,
     lg_worker := (case lg_worker lg of Woken r \<Rightarrow> Writing r | w \<Rightarrow> w) \<rparr>"

text \<open>After the stop event the thread sleeps for ten seconds before it writes.\<close>

definition worker_writes :: "'l Logger \<Rightarrow> 'l Logger" where
  "worker_writes lg =
     (Logger_WriteLogImpl (lg_copyLogWaitingQueue lg) lg)
       \<lparr> lg_copyLogWaitingQueue := [], lg_worker := (if lg_worker lg = Writing True then Waiting else Ended) \<rparr>"

text \<open>The destructor.\<close>

definition Logger_destroy :: "'l Logger \<Rightarrow> 'l Logger" where
  "Logger_destroy lg =
     Logger_WriteLogImpl (lg_logWaitingQueue lg) (lg\<lparr> lg_isAlive := False, lg_logWaitingQueue := [] \<rparr>)"

text \<open>Any thread logs at any time. The logger is started and stopped by one thread at a time, and is destroyed
  when its thread does not run. Not modelled is a start while the thread runs that takes itself for the first (it needs more stops than starts
  before): it would wait for the running thread.\<close>

inductive logger_step :: "'l Logger \<Rightarrow> 'l Logger \<Rightarrow> bool" where
  step_log: "logger_step lg (Logger_WriteLog utcTime ms logObject lg)"
| step_run: "\<not> lg_joining lg \<Longrightarrow> 0 < sint (lg_currentConnectedClientCount lg) \<or> lg_worker lg \<in> {NotRunning, Ended} \<Longrightarrow>
     logger_step lg (Logger_RunLoggerThread pr created lg)"
| step_stop: "\<not> lg_joining lg \<Longrightarrow> logger_step lg (Logger_StopLoggerThread lg)"
| step_joined: "lg_joining lg \<Longrightarrow> lg_worker lg = Ended \<Longrightarrow> logger_step lg (lg\<lparr> lg_joining := False \<rparr>)"
| step_wake: "lg_worker lg = Waiting \<Longrightarrow> worker_wakes lg = Some lg' \<Longrightarrow> logger_step lg lg'"
| step_swap: "lg_worker lg = Woken r \<Longrightarrow> logger_step lg (worker_swaps lg)"
| step_write: "lg_worker lg = Writing r \<Longrightarrow> logger_step lg (worker_writes lg)"
| step_destroy: "lg_worker lg \<in> {NotRunning, Ended} \<Longrightarrow> logger_step lg (Logger_destroy lg)"

inductive logger_reachable :: "'l Logger \<Rightarrow> bool" where
  reachable_start: "logger_reachable (Logger_new folderExists folderCreated utcTime opens)"
| reachable_next: "logger_reachable lg \<Longrightarrow> logger_step lg lg' \<Longrightarrow> logger_reachable lg'"

section \<open>No log is lost\<close>

lemma WriteLogImpl_eq:
  "Logger_WriteLogImpl logs lg = lg\<lparr> lg_file := lg_file lg @ logs,
     lg_console := (if lg_printToConsole lg then lg_console lg @ logs else lg_console lg) \<rparr>"
  unfolding Logger_WriteLogImpl_def
  by (induction logs arbitrary: lg) (auto simp: Logger_WriteLogToFile_def Let_def)

text \<open>The queues are in the order of acceptance; the log event tells of every log accepted since the thread was started that
  the thread does not see anyhow.\<close>

definition logger_ok :: "'l Logger \<Rightarrow> bool" where
  "logger_ok lg \<longleftrightarrow>
     lg_file lg @ lg_copyLogWaitingQueue lg @ lg_logWaitingQueue lg = lg_accepted lg \<and>
     (lg_copyLogWaitingQueue lg \<noteq> [] \<longrightarrow> (\<exists>r. lg_worker lg = Writing r)) \<and>
     (lg_worker lg \<notin> {NotRunning, Ended} \<longrightarrow> lg_logHandle lg \<noteq> None \<and> lg_stopHandle lg \<noteq> None) \<and>
     (lg_worker lg \<in> {Waiting, Writing True} \<and> lg_logHandle lg = Some False \<and> lg_logWaitingQueue lg \<noteq> [] \<longrightarrow>
        length (lg_accepted lg) \<le> lg_acceptedBefore lg)"

lemma logger_ok_step: "logger_step lg lg' \<Longrightarrow> logger_ok lg \<Longrightarrow> logger_ok lg'"
proof (induction rule: logger_step.induct)
  case (step_log lg utcTime ms logObject)
  then show ?case
    by (cases "lg_logHandle lg") (auto simp: logger_ok_def Logger_WriteLog_def signal_event_def Let_def split: option.split)
next
  case (step_run lg pr created)
  then show ?case by (auto simp: logger_ok_def Logger_RunLoggerThread_def Let_def)
next
  case (step_stop lg)
  then show ?case by (auto simp: logger_ok_def Logger_StopLoggerThread_def signal_event_def Let_def)
next
  case (step_joined lg)
  then show ?case by (auto simp: logger_ok_def)
next
  case (step_wake lg lg')
  then show ?case by (auto simp: logger_ok_def worker_wakes_def split: if_splits)
next
  case (step_swap lg r)
  then show ?case by (auto simp: logger_ok_def worker_swaps_def)
next
  case (step_write lg r)
  then show ?case by (cases r) (auto simp: logger_ok_def worker_writes_def WriteLogImpl_eq)
next
  case (step_destroy lg)
  then show ?case by (auto simp: logger_ok_def Logger_destroy_def WriteLogImpl_eq)
qed

lemma logger_reachable_ok: "logger_reachable lg \<Longrightarrow> logger_ok lg"
proof (induction rule: logger_reachable.induct)
  case reachable_start
  show ?case by (simp add: logger_ok_def Logger_new_def Logger_CreateFolderIfNotExists_def logger_members_def Let_def split: option.split)
qed (blast intro: logger_ok_step)

text \<open>C39: No log is lost, doubled or moved: at every moment the file, then what the thread has swapped, then the queue
  are exactly the logs accepted so far, in order. A log accepted since the thread was started never waits for another one: while
  it is in the queue and the thread waits, the event that wakes the thread is signalled, and
  then three steps of the thread put everything into the file. The destructor writes the rest.\<close>

theorem logger_writes_every_log:
  assumes "logger_reachable lg"
  shows "lg_file lg @ lg_copyLogWaitingQueue lg @ lg_logWaitingQueue lg = lg_accepted lg \<and>
    (lg_worker lg = Waiting \<and> lg_logWaitingQueue lg \<noteq> [] \<and> lg_acceptedBefore lg < length (lg_accepted lg) \<longrightarrow>
       (\<exists>lg'. worker_wakes lg = Some lg' \<and> lg_worker lg' = Woken True \<and>
          lg_file (worker_writes (worker_swaps lg')) = lg_accepted lg \<and> lg_worker (worker_writes (worker_swaps lg')) = Waiting)) \<and>
    (lg_worker lg \<in> {NotRunning, Ended} \<longrightarrow> lg_file (Logger_destroy lg) = lg_accepted lg)"
proof -
  have ok: "logger_ok lg" using assms by (rule logger_reachable_ok)
  have "\<exists>lg'. worker_wakes lg = Some lg' \<and> lg_worker lg' = Woken True \<and>
      lg_file (worker_writes (worker_swaps lg')) = lg_accepted lg \<and> lg_worker (worker_writes (worker_swaps lg')) = Waiting"
    if w: "lg_worker lg = Waiting" "lg_logWaitingQueue lg \<noteq> []" "lg_acceptedBefore lg < length (lg_accepted lg)"
  proof -
    have "lg_logHandle lg = Some True" "lg_copyLogWaitingQueue lg = []" using ok w by (auto simp: logger_ok_def)
    then show ?thesis using ok
      by (simp add: worker_wakes_def worker_swaps_def worker_writes_def WriteLogImpl_eq logger_ok_def)
  qed
  then show ?thesis using ok by (auto simp: logger_ok_def Logger_destroy_def WriteLogImpl_eq)
qed

text \<open>A run: the logger is started, two logs come in, one of them while the thread is awake.\<close>

theorem logger_writes_every_log_witness:
  "\<exists>(lg :: unit Logger) lg'. logger_reachable lg \<and> length (lg_accepted lg) = 2 \<and> lg_worker lg = Waiting \<and> worker_wakes lg = Some lg' \<and>
     lg_file (worker_writes (worker_swaps lg')) = lg_accepted lg"
proof -
  define lg0 :: "unit Logger" where "lg0 = Logger_new True False (Some \<lparr> tm_year = 126, tm_mon = 0, tm_mday = 1, tm_hour = 0, tm_min = 0, tm_sec = 0 \<rparr>) (\<lambda>_. True)"
  have m: "lg_joining lg0 = False" "lg_worker lg0 = NotRunning" "lg_currentConnectedClientCount lg0 = 0" "lg_isAlive lg0"
      "lg_logWaitingQueue lg0 = []" "lg_copyLogWaitingQueue lg0 = []" "lg_accepted lg0 = []" "lg_file lg0 = []" "lg_acceptedBefore lg0 = 0"
    by (simp_all add: lg0_def Logger_new_def Logger_CreateFolderIfNotExists_def logger_members_def Let_def)
  have r0: "logger_reachable lg0" unfolding lg0_def by (rule reachable_start)
  let ?l = "\<lparr> lb_loggingTime = [], lb_lastErrorCode = 0, lb_log = () \<rparr>"
  define lg1 where "lg1 = Logger_WriteLog None 0 (Some ?l) (Logger_RunLoggerThread False (True, True) lg0)"
  define lg2 where "lg2 = lg1\<lparr> lg_worker := Woken True, lg_logHandle := Some False \<rparr>"
  define lg where "lg = Logger_WriteLog None 0 (Some ?l) (worker_writes (worker_swaps lg2))"
  have steps: "logger_step lg0 (Logger_RunLoggerThread False (True, True) lg0)"
    "logger_step (Logger_RunLoggerThread False (True, True) lg0) lg1"
    "logger_step (worker_writes (worker_swaps lg2)) lg"
    unfolding lg1_def lg_def by (auto intro: step_log step_run simp: m)
  have f: "lg1 = (Logger_RunLoggerThread False (True, True) lg0)\<lparr> lg_logHandle := Some True,
      lg_logWaitingQueue := [LogBase_SetLogTime None 0 ?l], lg_accepted := [LogBase_SetLogTime None 0 ?l] \<rparr>" "lg_worker lg1 = Waiting"
    by (simp_all add: lg1_def Logger_WriteLog_def Logger_RunLoggerThread_def m signal_event_def Let_def)
  have w0: "lg_worker (Logger_RunLoggerThread False (True, True) lg0) = Waiting"
    by (simp add: Logger_RunLoggerThread_def m)
  have "logger_step lg1 lg2" by (rule step_wake) (simp_all add: f(2) lg2_def worker_wakes_def f(1) w0)
  moreover have "logger_step lg2 (worker_swaps lg2)" by (rule step_swap) (simp add: lg2_def)
  moreover have "logger_step (worker_swaps lg2) (worker_writes (worker_swaps lg2))"
    by (rule step_write [of _ True]) (simp add: lg2_def worker_swaps_def)
  ultimately have r: "logger_reachable lg" using steps r0 reachable_next by blast
  have "lg_worker lg = Waiting" "lg_logWaitingQueue lg \<noteq> []" "length (lg_accepted lg) = 2" "lg_acceptedBefore lg = 0"
    by (simp_all add: lg_def lg2_def f(1) Logger_WriteLog_def worker_writes_def worker_swaps_def WriteLogImpl_eq
        Logger_RunLoggerThread_def m Let_def)
  with logger_writes_every_log [OF r] r show ?thesis by auto
qed

text \<open>A log that comes after the stop event and the swap, in the ten seconds before the thread writes, stays in the queue: only the
  destructor, or the thread of a later start once a further log wakes it, writes it.\<close>

lemma log_after_stop_waits:
  assumes "lg_worker lg = Writing False" "lg_isAlive lg"
  shows "lg_worker (worker_writes (Logger_WriteLog t ms (Some l) lg)) = Ended \<and>
    lg_logWaitingQueue (worker_writes (Logger_WriteLog t ms (Some l) lg)) = lg_logWaitingQueue lg @ [LogBase_SetLogTime t ms l]"
  using assms by (simp add: worker_writes_def Logger_WriteLog_def WriteLogImpl_eq Let_def)

text \<open>Each start opens two events, and nothing closes them.\<close>

lemma events_never_closed: "logger_step lg lg' \<Longrightarrow> lg_openEvents lg \<le> lg_openEvents lg'"
  by (induction rule: logger_step.induct)
    (auto simp: Logger_WriteLog_def Logger_RunLoggerThread_def Logger_StopLoggerThread_def worker_wakes_def worker_swaps_def
      worker_writes_def Logger_destroy_def WriteLogImpl_eq Let_def split: option.splits if_splits)

text \<open>The time of a log has a fixed width until the year 9999.\<close>

lemma length_format_time:
  assumes "tm_year t < 8100" "tm_mon t < 12" "tm_mday t \<le> 31" "tm_hour t < 24" "tm_min t < 60" "tm_sec t \<le> 60" "ms < 1000"
  shows "length (format_time t ms) = 23"
  using assms by (simp add: format_time_def length_padded)

end
