(* ===== verification/Memory_Tracer.thy ===== *)
theory Memory_Tracer
  imports Text_Format "HOL-Library.AList" "HOL-Library.Multiset"
begin

text \<open>
  MultiSocketRUDPServer/MemoryTracer: a record of the objects a program creates and destroys, and its reports. All
  members are static; the mutex makes a report one step, and a call that changes the record two: \<open>enabled\<close> is
  tested before the mutex is taken, so other threads may run in between. An \<open>int\<close> is a word of 32 bits read with its sign; counting
  past \<open>2 ^ 31 - 1\<close>, which C++ leaves undefined, wraps around. An address and a thread are numbers; how a stream
  prints them, the clocks, the stack of the caller, the order in which an unordered map is walked and whether a file opens are
  parameters.
\<close>

section \<open>Data\<close>

record AllocationInfo =
  ai_objectName :: string
  ai_allocLocation :: string
  ai_stackTrace :: string
  ai_allocTime :: int
  ai_allocThread :: nat
  ai_isFreed :: bool
  ai_freeLocation :: string
  ai_freeTime :: int
  ai_freeThread :: nat
  ai_userNote :: string

type_synonym allocations = "(nat \<times> AllocationInfo) list"

text \<open>Times are nanoseconds. The null pointer is 0. A frame of the stack whose symbol is not found is \<open>None\<close>.\<close>

record TracerEnv =
  te_address :: "nat \<Rightarrow> string"
  te_thread :: "nat \<Rightarrow> string"
  te_order :: "nat \<Rightarrow> allocations \<Rightarrow> allocations"
  te_threadOrder :: "nat \<Rightarrow> (nat \<times> 32 word) list \<Rightarrow> (nat \<times> 32 word) list"
  te_steadyNow :: "nat \<Rightarrow> int"
  te_localTime :: "nat \<Rightarrow> tm option \<times> nat"
  te_frames :: "nat \<Rightarrow> string option list"
  te_opens :: "nat \<Rightarrow> string \<Rightarrow> bool"

text \<open>The contents of the files and of the console belong to the model.\<close>

record Tracer =
  mt_allocations :: allocations
  mt_enabled :: bool
  mt_outputFilename :: string
  mt_files :: "(string \<times> string) list"
  mt_console :: string
  mt_query :: nat

definition MemoryTracer_new :: Tracer where
  "MemoryTracer_new = \<lparr> mt_allocations = [], mt_enabled = True, mt_outputFilename = ''MemoryTracer.log'', mt_files = [],
     mt_console = [], mt_query = 0 \<rparr>"

definition tracer_ask :: "(nat \<Rightarrow> 'a) \<Rightarrow> Tracer \<Rightarrow> 'a \<times> Tracer" where
  "tracer_ask f t = (f (mt_query t), t\<lparr> mt_query := mt_query t + 1 \<rparr>)"

section \<open>Tracking\<close>

definition MemoryTracer_Enable :: "Tracer \<Rightarrow> Tracer" where
  "MemoryTracer_Enable t = t\<lparr> mt_enabled := True \<rparr>"

definition MemoryTracer_Disable :: "Tracer \<Rightarrow> Tracer" where
  "MemoryTracer_Disable t = t\<lparr> mt_enabled := False \<rparr>"

definition MemoryTracer_IsEnabled :: "Tracer \<Rightarrow> bool" where
  "MemoryTracer_IsEnabled t = mt_enabled t"

text \<open>Fifteen frames at most.\<close>

definition MemoryTracer_GetStackTrace :: "TracerEnv \<Rightarrow> Tracer \<Rightarrow> string \<times> Tracer" where
  "MemoryTracer_GetStackTrace E t =
     (let (frames, t1) = tracer_ask (te_frames E) t
      in (concat (map (\<lambda>f. case f of None \<Rightarrow> [] | Some name \<Rightarrow> ''    '' @ name @ newline) (take 15 frames)), t1))"

definition code_location :: "string \<Rightarrow> int \<Rightarrow> string" where
  "code_location file line = file @ '':'' @ signed_decimal line"

text \<open>What the three calls test before they take the mutex, and what they do under it.\<close>

definition MemoryTracer_passes :: "nat \<Rightarrow> Tracer \<Rightarrow> bool" where
  "MemoryTracer_passes ptr t \<longleftrightarrow> \<not> (\<not> mt_enabled t \<or> ptr = 0)"

definition MemoryTracer_TrackLocked ::
    "TracerEnv \<Rightarrow> nat \<Rightarrow> nat \<Rightarrow> string \<Rightarrow> string \<Rightarrow> int \<Rightarrow> string \<Rightarrow> Tracer \<Rightarrow> Tracer" where
  "MemoryTracer_TrackLocked E thread ptr objectName file line note t =
     (let (stackTrace, t1) = MemoryTracer_GetStackTrace E t;
          (now, t2) = tracer_ask (te_steadyNow E) t1;
          info = \<lparr> ai_objectName = objectName, ai_allocLocation = code_location file line, ai_stackTrace = stackTrace,
                   ai_allocTime = now, ai_allocThread = thread, ai_isFreed = False, ai_freeLocation = [],
                   ai_freeTime = 0, ai_freeThread = 0, ai_userNote = note \<rparr>
      in t2\<lparr> mt_allocations := AList.update ptr info (mt_allocations t2) \<rparr>)"

definition MemoryTracer_UntrackLocked :: "TracerEnv \<Rightarrow> nat \<Rightarrow> nat \<Rightarrow> string \<Rightarrow> int \<Rightarrow> Tracer \<Rightarrow> Tracer" where
  "MemoryTracer_UntrackLocked E thread ptr file line t =
     (case map_of (mt_allocations t) ptr of None \<Rightarrow> t
      | Some info \<Rightarrow>
          let (now, t1) = tracer_ask (te_steadyNow E) t
          in t1\<lparr> mt_allocations := AList.update ptr (info\<lparr> ai_isFreed := True, ai_freeLocation := code_location file line,
                    ai_freeTime := now, ai_freeThread := thread \<rparr>) (mt_allocations t1) \<rparr>)"

definition MemoryTracer_AddNoteLocked :: "nat \<Rightarrow> string \<Rightarrow> Tracer \<Rightarrow> Tracer" where
  "MemoryTracer_AddNoteLocked ptr note t =
     (case map_of (mt_allocations t) ptr of None \<Rightarrow> t
      | Some info \<Rightarrow> t\<lparr> mt_allocations := AList.update ptr
          (info\<lparr> ai_userNote := (if ai_userNote info \<noteq> [] then ai_userNote info @ '' | '' else []) @ note \<rparr>) (mt_allocations t) \<rparr>)"

text \<open>A call that no other thread interrupts.\<close>

definition MemoryTracer_TrackObject ::
    "TracerEnv \<Rightarrow> nat \<Rightarrow> nat \<Rightarrow> string \<Rightarrow> string \<Rightarrow> int \<Rightarrow> string \<Rightarrow> Tracer \<Rightarrow> Tracer" where
  "MemoryTracer_TrackObject E thread ptr objectName file line note t =
     (if \<not> MemoryTracer_passes ptr t then t
      else MemoryTracer_TrackLocked E thread ptr objectName file line note t)"

definition MemoryTracer_UntrackObject :: "TracerEnv \<Rightarrow> nat \<Rightarrow> nat \<Rightarrow> string \<Rightarrow> int \<Rightarrow> Tracer \<Rightarrow> Tracer" where
  "MemoryTracer_UntrackObject E thread ptr file line t =
     (if \<not> MemoryTracer_passes ptr t then t else MemoryTracer_UntrackLocked E thread ptr file line t)"

definition MemoryTracer_AddNote :: "nat \<Rightarrow> string \<Rightarrow> Tracer \<Rightarrow> Tracer" where
  "MemoryTracer_AddNote ptr note t =
     (if \<not> MemoryTracer_passes ptr t then t else MemoryTracer_AddNoteLocked ptr note t)"

definition active_objects :: "allocations \<Rightarrow> allocations" where
  "active_objects al = filter (\<lambda>(_, info). \<not> ai_isFreed info) al"

definition MemoryTracer_GetActiveObjectCount :: "Tracer \<Rightarrow> nat" where
  "MemoryTracer_GetActiveObjectCount t = length (active_objects (mt_allocations t))"

definition MemoryTracer_Clear :: "Tracer \<Rightarrow> Tracer" where
  "MemoryTracer_Clear t = t\<lparr> mt_allocations := [] \<rparr>"

section \<open>Reports\<close>

definition MemoryTracer_GetCurrentTimestamp :: "TracerEnv \<Rightarrow> Tracer \<Rightarrow> string \<times> Tracer" where
  "MemoryTracer_GetCurrentTimestamp E t =
     (let ((localTime, sinceEpochMs), t1) = tracer_ask (te_localTime E) t
      in case localTime of None \<Rightarrow> ([], t1)
         | Some tm \<Rightarrow>
             (padded 4 (tm_year tm + 1900) @ ''-'' @ padded 2 (tm_mon tm + 1) @ ''-'' @ padded 2 (tm_mday tm) @ '' '' @
              padded 2 (tm_hour tm) @ '':'' @ padded 2 (tm_min tm) @ '':'' @ padded 2 (tm_sec tm) @ ''.'' @
              padded 3 (sinceEpochMs mod 1000), t1))"

text \<open>\<open>duration_cast\<close> to milliseconds rounds towards zero.\<close>

definition ms_between :: "int \<Rightarrow> int \<Rightarrow> int" where
  "ms_between a b = (if a \<le> b then (b - a) div 1000000 else - ((a - b) div 1000000))"

text \<open>A line with a time, when it is wanted.\<close>

definition timestamp_line :: "TracerEnv \<Rightarrow> bool \<Rightarrow> string \<Rightarrow> Tracer \<Rightarrow> string \<times> Tracer" where
  "timestamp_line E includeTimestamp label t =
     (if includeTimestamp then let (now, t1) = MemoryTracer_GetCurrentTimestamp E t in (label @ now @ newline, t1) else ([], t))"

definition note_line :: "AllocationInfo \<Rightarrow> string" where
  "note_line info = (if ai_userNote info \<noteq> [] then ''Note: '' @ ai_userNote info @ newline else [])"

text \<open>The section of a leak, and the loop over the allocations with its count.\<close>

definition leak_section :: "TracerEnv \<Rightarrow> 32 word \<Rightarrow> nat \<times> AllocationInfo \<Rightarrow> int \<Rightarrow> string" where
  "leak_section E leakCount al now =
     newline @ ''[LEAK #'' @ signed_decimal (sint leakCount) @ '']'' @ newline @
     ''Address: '' @ te_address E (fst al) @ newline @ ''Object: '' @ ai_objectName (snd al) @ newline @
     ''Tracked at: '' @ ai_allocLocation (snd al) @ newline @ ''Thread: '' @ te_thread E (ai_allocThread (snd al)) @ newline @
     note_line (snd al) @ ''Alive for: '' @ signed_decimal (ms_between (ai_allocTime (snd al)) now) @ '' ms'' @ newline @
     ''Stack trace:'' @ newline @ ai_stackTrace (snd al) @ newline"

fun leak_sections :: "TracerEnv \<Rightarrow> allocations \<Rightarrow> 32 word \<Rightarrow> Tracer \<Rightarrow> string list \<times> 32 word \<times> Tracer" where
  "leak_sections E [] leakCount t = ([], leakCount, t)"
| "leak_sections E (al # als) leakCount t =
     (if ai_isFreed (snd al) then leak_sections E als leakCount t
      else let (now, t1) = tracer_ask (te_steadyNow E) t;
               (sections, n, t2) = leak_sections E als (leakCount + 1) t1
           in (leak_section E (leakCount + 1) al now # sections, n, t2))"

definition MemoryTracer_WriteLeakReport :: "TracerEnv \<Rightarrow> bool \<Rightarrow> Tracer \<Rightarrow> string \<times> Tracer" where
  "MemoryTracer_WriteLeakReport E includeTimestamp t =
     (let (stamp, t1) = timestamp_line E includeTimestamp ''Generated at: '' t;
          (als, t2) = tracer_ask (\<lambda>q. te_order E q (mt_allocations t1)) t1;
          (sections, leakCount, t3) = leak_sections E als 0 t2
      in (newline @ ''=== Memory Leak Report ==='' @ newline @ stamp @
          ''Total tracked objects: '' @ decimal (length (mt_allocations t)) @ newline @ concat sections @
          ''Active objects: '' @ signed_decimal (sint leakCount) @ newline @ ''========================='' @ newline @ newline, t3))"

definition MemoryTracer_WriteObjectHistory :: "TracerEnv \<Rightarrow> nat \<Rightarrow> bool \<Rightarrow> Tracer \<Rightarrow> string \<times> Tracer" where
  "MemoryTracer_WriteObjectHistory E ptr includeTimestamp t =
     (case map_of (mt_allocations t) ptr of
        None \<Rightarrow>
          let (stamp, t1) = (if includeTimestamp then let (now, u) = MemoryTracer_GetCurrentTimestamp E t in ('' at '' @ now, u) else ([], t))
          in (''Object not found in tracker'' @ stamp @ newline, t1)
      | Some info \<Rightarrow>
          let (stamp, t1) = timestamp_line E includeTimestamp ''Timestamp: '' t
          in (newline @ ''=== Object History ==='' @ newline @ stamp @ ''Address: '' @ te_address E ptr @ newline @
              ''Object: '' @ ai_objectName info @ newline @ ''Tracked at: '' @ ai_allocLocation info @ newline @
              ''Thread: '' @ te_thread E (ai_allocThread info) @ newline @ note_line info @
              ''Stack trace:'' @ newline @ ai_stackTrace info @ newline @
              (if ai_isFreed info
               then ''Untracked at: '' @ ai_freeLocation info @ newline @ ''Untrack thread: '' @ te_thread E (ai_freeThread info) @ newline @
                 ''Lifetime: '' @ signed_decimal (ms_between (ai_allocTime info) (ai_freeTime info)) @ '' ms'' @ newline
               else ''Status: ACTIVE (not untracked)'' @ newline) @
              ''====================='' @ newline @ newline, t1))"

text \<open>\<open>threadStats[thread]++\<close>.\<close>

definition count_thread :: "nat \<Rightarrow> (nat \<times> 32 word) list \<Rightarrow> (nat \<times> 32 word) list" where
  "count_thread thread stats =
     AList.update thread ((case map_of stats thread of None \<Rightarrow> 0 | Some n \<Rightarrow> n) + 1) stats"

definition thread_stats :: "allocations \<Rightarrow> (nat \<times> 32 word) list" where
  "thread_stats als = fold (\<lambda>(_, info) stats. if ai_isFreed info then stats else count_thread (ai_allocThread info) stats) als []"

definition MemoryTracer_WriteThreadStatistics :: "TracerEnv \<Rightarrow> bool \<Rightarrow> Tracer \<Rightarrow> string \<times> Tracer" where
  "MemoryTracer_WriteThreadStatistics E includeTimestamp t =
     (let (als, t1) = tracer_ask (\<lambda>q. te_order E q (mt_allocations t)) t;
          (stamp, t2) = timestamp_line E includeTimestamp ''Generated at: '' t1;
          (stats, t3) = tracer_ask (\<lambda>q. te_threadOrder E q (thread_stats als)) t2
      in (newline @ ''=== Thread Statistics ==='' @ newline @ stamp @
          concat (map (\<lambda>(thread, status). ''Thread '' @ te_thread E thread @ '': '' @ signed_decimal (sint status) @ '' active objects'' @ newline) stats) @
          ''========================'' @ newline @ newline, t3))"

section \<open>Where the reports go\<close>

definition print_console :: "string \<Rightarrow> Tracer \<Rightarrow> Tracer" where
  "print_console s t = t\<lparr> mt_console := mt_console t @ s \<rparr>"

definition file_contents :: "string \<Rightarrow> Tracer \<Rightarrow> string" where
  "file_contents name t = (case map_of (mt_files t) name of None \<Rightarrow> [] | Some s \<Rightarrow> s)"

definition append_file :: "string \<Rightarrow> string \<Rightarrow> Tracer \<Rightarrow> Tracer" where
  "append_file name s t = t\<lparr> mt_files := AList.update name (file_contents name t @ s) (mt_files t) \<rparr>"

definition MemoryTracer_GenerateReport :: "TracerEnv \<Rightarrow> Tracer \<Rightarrow> Tracer" where
  "MemoryTracer_GenerateReport E t = (let (s, t1) = MemoryTracer_WriteLeakReport E False t in print_console s t1)"

definition MemoryTracer_GetObjectHistory :: "TracerEnv \<Rightarrow> nat \<Rightarrow> Tracer \<Rightarrow> Tracer" where
  "MemoryTracer_GetObjectHistory E ptr t = (let (s, t1) = MemoryTracer_WriteObjectHistory E ptr False t in print_console s t1)"

definition MemoryTracer_GetThreadStatistics :: "TracerEnv \<Rightarrow> Tracer \<Rightarrow> Tracer" where
  "MemoryTracer_GetThreadStatistics E t = (let (s, t1) = MemoryTracer_WriteThreadStatistics E False t in print_console s t1)"

text \<open>Opening with \<open>trunc\<close> empties the file.\<close>

definition MemoryTracer_SetOutputFile :: "TracerEnv \<Rightarrow> string \<Rightarrow> Tracer \<Rightarrow> Tracer" where
  "MemoryTracer_SetOutputFile E filename t =
     (let t1 = t\<lparr> mt_outputFilename := filename \<rparr> in
      if filename = [] then t1
      else let (opened, t2) = tracer_ask (\<lambda>q. te_opens E q filename) t1 in
        if \<not> opened then t2
        else let (now, t3) = MemoryTracer_GetCurrentTimestamp E t2
             in t3\<lparr> mt_files := AList.update filename (''=== Memory Tracer Log Started ==='' @ newline @ ''Timestamp: '' @ now @ newline @
                      ''====================================='' @ newline @ newline) (mt_files t3) \<rparr>)"

definition MemoryTracer_CloseOutputFile :: "TracerEnv \<Rightarrow> Tracer \<Rightarrow> Tracer" where
  "MemoryTracer_CloseOutputFile E t =
     (if mt_outputFilename t = [] then t
      else let (opened, t1) = tracer_ask (\<lambda>q. te_opens E q (mt_outputFilename t)) t;
               t2 = (if \<not> opened then t1
                     else let (now, u) = MemoryTracer_GetCurrentTimestamp E t1
                          in append_file (mt_outputFilename u) (newline @ ''=== Memory Tracer Log Ended ==='' @ newline @ ''Timestamp: '' @ now @ newline @
                               ''==================================='' @ newline) u)
           in t2\<lparr> mt_outputFilename := [] \<rparr>)"

definition MemoryTracer_WriteToOutput :: "TracerEnv \<Rightarrow> string \<Rightarrow> bool \<Rightarrow> Tracer \<Rightarrow> Tracer" where
  "MemoryTracer_WriteToOutput E message forceConsole t =
     (if forceConsole \<or> mt_outputFilename t = [] then print_console message t
      else let (opened, t1) = tracer_ask (\<lambda>q. te_opens E q (mt_outputFilename t)) t
           in if opened then append_file (mt_outputFilename t) message t1 else print_console message t1)"

definition MemoryTracer_WriteReport :: "TracerEnv \<Rightarrow> string \<Rightarrow> string \<Rightarrow> Tracer \<Rightarrow> Tracer" where
  "MemoryTracer_WriteReport E filename report t =
     (if filename = [] then MemoryTracer_WriteToOutput E report False t
      else let (opened, t1) = tracer_ask (\<lambda>q. te_opens E q filename) t
           in if opened then append_file filename report t1 else print_console report t1)"

definition MemoryTracer_GenerateReportToFile :: "TracerEnv \<Rightarrow> string \<Rightarrow> Tracer \<Rightarrow> Tracer" where
  "MemoryTracer_GenerateReportToFile E filename t =
     (let (s, t1) = MemoryTracer_WriteLeakReport E True t in MemoryTracer_WriteReport E filename s t1)"

definition MemoryTracer_GetObjectHistoryToFile :: "TracerEnv \<Rightarrow> nat \<Rightarrow> string \<Rightarrow> Tracer \<Rightarrow> Tracer" where
  "MemoryTracer_GetObjectHistoryToFile E ptr filename t =
     (let (s, t1) = MemoryTracer_WriteObjectHistory E ptr True t in MemoryTracer_WriteReport E filename s t1)"

definition MemoryTracer_GetThreadStatisticsToFile :: "TracerEnv \<Rightarrow> string \<Rightarrow> Tracer \<Rightarrow> Tracer" where
  "MemoryTracer_GetThreadStatisticsToFile E filename t =
     (let (s, t1) = MemoryTracer_WriteThreadStatistics E True t in MemoryTracer_WriteReport E filename s t1)"

section \<open>The objects that are alive\<close>

datatype tracer_call = Call_track nat string string int string | Call_untrack nat string int | Call_note nat string

fun call_ptr :: "tracer_call \<Rightarrow> nat" where
  "call_ptr (Call_track ptr name file line note) = ptr"
| "call_ptr (Call_untrack ptr file line) = ptr"
| "call_ptr (Call_note ptr note) = ptr"

fun tracer_locked :: "TracerEnv \<Rightarrow> nat \<Rightarrow> tracer_call \<Rightarrow> Tracer \<Rightarrow> Tracer" where
  "tracer_locked E thread (Call_track ptr name file line note) t = MemoryTracer_TrackLocked E thread ptr name file line note t"
| "tracer_locked E thread (Call_untrack ptr file line) t = MemoryTracer_UntrackLocked E thread ptr file line t"
| "tracer_locked E thread (Call_note ptr note) t = MemoryTracer_AddNoteLocked ptr note t"

text \<open>The steps of the threads: a thread tests for a call and then waits for the mutex with it, and later runs what the mutex guards.
  The second component maps the threads that are in a call to it.\<close>

datatype tracer_op = Op_enable | Op_disable | Op_clear | Op_enter nat tracer_call | Op_locked nat

type_synonym tracer_threads = "nat \<rightharpoonup> tracer_call"

fun tracer_step :: "TracerEnv \<Rightarrow> tracer_op \<Rightarrow> Tracer \<times> tracer_threads \<Rightarrow> Tracer \<times> tracer_threads" where
  "tracer_step E Op_enable (t, c) = (MemoryTracer_Enable t, c)"
| "tracer_step E Op_disable (t, c) = (MemoryTracer_Disable t, c)"
| "tracer_step E Op_clear (t, c) = (MemoryTracer_Clear t, c)"
| "tracer_step E (Op_enter thread call) (t, c) =
     (t, if c thread = None \<and> MemoryTracer_passes (call_ptr call) t then c(thread \<mapsto> call) else c)"
| "tracer_step E (Op_locked thread) (t, c) =
     (case c thread of None \<Rightarrow> (t, c) | Some call \<Rightarrow> (tracer_locked E thread call t, c(thread := None)))"

text \<open>The two steps of a thread, with no other step between them, are the call of the code.\<close>

lemma tracer_call_uninterrupted:
  assumes "c thread = None"
  shows "fold (tracer_step E) [Op_enter thread (Call_track ptr name file line note), Op_locked thread] (t, c)
           = (MemoryTracer_TrackObject E thread ptr name file line note t, c)"
    and "fold (tracer_step E) [Op_enter thread (Call_untrack ptr file line), Op_locked thread] (t, c)
           = (MemoryTracer_UntrackObject E thread ptr file line t, c)"
    and "fold (tracer_step E) [Op_enter thread (Call_note ptr note), Op_locked thread] (t, c)
           = (MemoryTracer_AddNote ptr note t, c)"
  using assms by (auto simp: MemoryTracer_TrackObject_def MemoryTracer_UntrackObject_def MemoryTracer_AddNote_def)

text \<open>The specification: whether tracing is on, the set of the objects that live, and the calls under way.\<close>

fun live_locked :: "tracer_call \<Rightarrow> nat set \<Rightarrow> nat set" where
  "live_locked (Call_track ptr name file line note) live = insert ptr live"
| "live_locked (Call_untrack ptr file line) live = live - {ptr}"
| "live_locked (Call_note ptr note) live = live"

fun live_step :: "tracer_op \<Rightarrow> bool \<times> nat set \<times> tracer_threads \<Rightarrow> bool \<times> nat set \<times> tracer_threads" where
  "live_step Op_enable (on, live, c) = (True, live, c)"
| "live_step Op_disable (on, live, c) = (False, live, c)"
| "live_step Op_clear (on, live, c) = (on, {}, c)"
| "live_step (Op_enter thread call) (on, live, c) =
     (on, live, if c thread = None \<and> on \<and> call_ptr call \<noteq> 0 then c(thread \<mapsto> call) else c)"
| "live_step (Op_locked thread) (on, live, c) =
     (case c thread of None \<Rightarrow> (on, live, c) | Some call \<Rightarrow> (on, live_locked call live, c(thread := None)))"

definition live_objects :: "Tracer \<Rightarrow> nat set" where
  "live_objects t = {p. \<exists>info. map_of (mt_allocations t) p = Some info \<and> \<not> ai_isFreed info}"

definition tracer_abs :: "Tracer \<times> tracer_threads \<Rightarrow> bool \<times> nat set \<times> tracer_threads" where
  "tracer_abs s = (mt_enabled (fst s), live_objects (fst s), snd s)"

definition tracer_ok :: "Tracer \<times> tracer_threads \<Rightarrow> bool" where
  "tracer_ok s \<longleftrightarrow> distinct (map fst (mt_allocations (fst s))) \<and> 0 \<notin> set (map fst (mt_allocations (fst s))) \<and>
     (\<forall>call \<in> ran (snd s). call_ptr call \<noteq> 0)"

lemma fst_update: "fst ` set (AList.update k v al) = insert k (fst ` set al)"
  by (simp add: dom_update)

lemmas tracer_locked_defs = MemoryTracer_AddNoteLocked_def MemoryTracer_TrackLocked_def MemoryTracer_UntrackLocked_def
  MemoryTracer_GetStackTrace_def tracer_ask_def Let_def

lemma tracer_locked_keeps:
  assumes "distinct (map fst (mt_allocations t))" "0 \<notin> set (map fst (mt_allocations t))" "call_ptr call \<noteq> 0"
  shows "distinct (map fst (mt_allocations (tracer_locked E thread call t)))"
    and "0 \<notin> set (map fst (mt_allocations (tracer_locked E thread call t)))"
    and "mt_enabled (tracer_locked E thread call t) = mt_enabled t"
  using assms by (cases call; simp add: tracer_locked_defs distinct_update fst_update split: option.split)+

lemma live_objects_locked: "live_objects (tracer_locked E thread call t) = live_locked call (live_objects t)"
  by (cases call) (auto simp: live_objects_def tracer_locked_defs update_conv' split: option.split)

lemma tracer_step_sim:
  assumes "tracer_ok s"
  shows "tracer_ok (tracer_step E op s)" "tracer_abs (tracer_step E op s) = live_step op (tracer_abs s)"
proof -
  obtain t c where s: "s = (t, c)" by (cases s)
  have "tracer_ok (tracer_step E op (t, c)) \<and> tracer_abs (tracer_step E op (t, c)) = live_step op (tracer_abs (t, c))"
  proof (cases op)
    case (Op_enter thread call)
    then show ?thesis using assms
      by (auto simp: s tracer_ok_def tracer_abs_def MemoryTracer_passes_def ran_def)
  next
    case (Op_locked thread)
    show ?thesis
    proof (cases "c thread")
      case None
      then show ?thesis using assms by (simp add: s Op_locked tracer_abs_def)
    next
      case (Some call)
      have "call_ptr call \<noteq> 0" using assms Some by (auto simp: s tracer_ok_def intro: ranI)
      then show ?thesis using assms Some tracer_locked_keeps [of t call E thread]
        by (auto simp: s Op_locked tracer_ok_def tracer_abs_def live_objects_locked ran_def)
    qed
  qed (use assms in \<open>auto simp: s tracer_ok_def tracer_abs_def live_objects_def MemoryTracer_Enable_def
        MemoryTracer_Disable_def MemoryTracer_Clear_def\<close>)
  then show "tracer_ok (tracer_step E op s)" "tracer_abs (tracer_step E op s) = live_step op (tracer_abs s)"
    by (simp_all add: s)
qed

interpretation tracing: preserved "tracer_step E" tracer_ok for E
  by unfold_locales (rule tracer_step_sim(1))

lemma tracer_run_abs:
  "tracer_ok s \<Longrightarrow> tracer_abs (fold (tracer_step E) ops s) = fold live_step ops (tracer_abs s)"
  by (induction ops arbitrary: s) (simp_all add: tracer_step_sim)

lemma active_count:
  assumes "distinct (map fst al)"
  shows "length (active_objects al) = card {p. \<exists>info. map_of al p = Some info \<and> \<not> ai_isFreed info}"
proof -
  have "distinct (map fst (active_objects al))" using assms by (simp add: active_objects_def distinct_map_filter)
  then have "length (active_objects al) = card (set (map fst (active_objects al)))" by (metis distinct_card length_map)
  also have "set (map fst (active_objects al)) = {p. \<exists>info. map_of al p = Some info \<and> \<not> ai_isFreed info}"
    using assms by (force simp: active_objects_def map_of_eq_Some_iff)
  finally show ?thesis .
qed

section \<open>What the reports say\<close>

lemma leak_sections_numbered:
  "leak_sections E als k t = (sections, n, t') \<Longrightarrow>
   n = k + of_nat (length (active_objects als)) \<and> length sections = length (active_objects als) \<and>
   (\<forall>i < length sections. \<exists>now. sections ! i = leak_section E (k + of_nat i + 1) (active_objects als ! i) now)"
proof (induction E als k t arbitrary: sections n t' rule: leak_sections.induct)
  case (1 E k t)
  then show ?case by (simp add: active_objects_def)
next
  case (2 E al als k t)
  obtain p info where al: "al = (p, info)" by (cases al)
  show ?case
  proof (cases "ai_isFreed info")
    case True
    then show ?thesis using 2(1) 2(3) by (simp add: al active_objects_def)
  next
    case False
    obtain now t1 where a: "tracer_ask (te_steadyNow E) t = (now, t1)" by (cases "tracer_ask (te_steadyNow E) t")
    obtain ss m t2 where r: "leak_sections E als (k + 1) t1 = (ss, m, t2)" by (metis prod_cases3)
    have e: "sections = leak_section E (k + 1) al now # ss" "n = m" using 2(3) False a r by (auto simp: al)
    have IH: "m = k + 1 + of_nat (length (active_objects als))" "length ss = length (active_objects als)"
      "\<forall>i < length ss. \<exists>now. ss ! i = leak_section E (k + 1 + of_nat i + 1) (active_objects als ! i) now"
      using 2(2) [OF _ a [symmetric] refl r] False by (simp_all add: al)
    have act: "active_objects (al # als) = al # active_objects als" using False by (simp add: al active_objects_def)
    show ?thesis unfolding act e using IH
      by (auto simp: nth_Cons add_ac split: nat.split)
  qed
qed

text \<open>The counts of the threads without end.\<close>

definition count_in :: "nat \<Rightarrow> (nat \<times> nat) list \<Rightarrow> (nat \<times> nat) list" where
  "count_in thread stats = AList.update thread ((case map_of stats thread of None \<Rightarrow> 0 | Some n \<Rightarrow> n) + 1) stats"

definition thread_counts :: "allocations \<Rightarrow> (nat \<times> nat) list" where
  "thread_counts als = fold (\<lambda>(_, info) stats. if ai_isFreed info then stats else count_in (ai_allocThread info) stats) als []"

definition to_ints :: "(nat \<times> nat) list \<Rightarrow> (nat \<times> 32 word) list" where
  "to_ints stats = map (\<lambda>(th, n). (th, of_nat n)) stats"

lemma to_ints_update: "to_ints (AList.update th n stats) = AList.update th (of_nat n) (to_ints stats)"
  by (induction stats) (auto simp: to_ints_def)

lemma to_ints_map_of: "map_of (to_ints stats) th = map_option of_nat (map_of stats th)"
  by (induction stats) (auto simp: to_ints_def)

lemma count_thread_to_ints: "count_thread th (to_ints stats) = to_ints (count_in th stats)"
  unfolding count_thread_def count_in_def to_ints_update to_ints_map_of by (cases "map_of stats th") (simp_all add: add.commute)

lemma thread_stats_to_ints: "thread_stats als = to_ints (thread_counts als)"
proof -
  have "fold (\<lambda>(_, info) stats. if ai_isFreed info then stats else count_thread (ai_allocThread info) stats) als (to_ints stats)
      = to_ints (fold (\<lambda>(_, info) stats. if ai_isFreed info then stats else count_in (ai_allocThread info) stats) als stats)" for stats
    by (induction als arbitrary: stats) (auto simp: count_thread_to_ints)
  from this [of "[]"] show ?thesis by (simp add: thread_stats_def thread_counts_def to_ints_def)
qed

lemma count_in_sum:
  assumes "distinct (map fst stats)"
  shows "sum_list (map snd (count_in th stats)) = sum_list (map snd stats) + 1" "distinct (map fst (count_in th stats))"
proof -
  have "sum_list (map snd (AList.update th n st)) + (case map_of st th of None \<Rightarrow> 0 | Some m \<Rightarrow> m) = sum_list (map snd st) + n"
    if "distinct (map fst st)" for n :: nat and st :: "(nat \<times> nat) list"
    using that by (induction st) (auto split: option.splits)
  from this [OF assms, of "(case map_of stats th of None \<Rightarrow> 0 | Some n \<Rightarrow> n) + 1"]
  show "sum_list (map snd (count_in th stats)) = sum_list (map snd stats) + 1"
    by (simp add: count_in_def split: option.splits)
  show "distinct (map fst (count_in th stats))" using assms by (simp add: count_in_def distinct_update)
qed

lemma thread_counts_sum: "sum_list (map snd (thread_counts als)) = length (active_objects als)"
proof -
  have "distinct (map fst stats) \<Longrightarrow>
      sum_list (map snd (fold (\<lambda>(_, info) stats. if ai_isFreed info then stats else count_in (ai_allocThread info) stats) als stats))
        = sum_list (map snd stats) + length (active_objects als)" for stats
    by (induction als arbitrary: stats) (auto simp: active_objects_def count_in_sum)
  from this [of "[]"] show ?thesis by (simp add: thread_counts_def)
qed

lemma sint_small: "n < 2 ^ 31 \<Longrightarrow> sint (of_nat n :: 32 word) = int n"
  by (simp add: signed_of_nat signed_take_bit_int_eq_self)

lemma thread_stats_sum:
  "sum_list (map snd (thread_stats als)) = of_nat (length (active_objects als))"
  "length (active_objects als) < 2 ^ 31 \<Longrightarrow>
   sum_list (map (\<lambda>(_, n). nat (sint n)) (thread_stats als)) = length (active_objects als)"
proof -
  have "sum_list (map snd (to_ints stats)) = of_nat (sum_list (map snd stats))" for stats
    by (induction stats) (auto simp: to_ints_def)
  then show "sum_list (map snd (thread_stats als)) = of_nat (length (active_objects als))"
    by (simp add: thread_stats_to_ints thread_counts_sum)
  have int: "nat (sint (of_nat n :: 32 word)) = n" if "n < 2 ^ 31" for n
    using that by (simp add: sint_small)
  have "sum_list (map (\<lambda>(_, n). nat (sint n)) (to_ints stats)) = sum_list (map snd stats)" if "sum_list (map snd stats) < 2 ^ 31" for stats
    using that by (induction stats) (auto simp: to_ints_def int)
  then show "length (active_objects als) < 2 ^ 31 \<Longrightarrow>
      sum_list (map (\<lambda>(_, n). nat (sint n)) (thread_stats als)) = length (active_objects als)"
    by (simp add: thread_stats_to_ints thread_counts_sum)
qed

text \<open>How the number \<open>n\<close> is printed from an \<open>int\<close>.\<close>

definition int_text :: "nat \<Rightarrow> string" where
  "int_text n = signed_decimal (sint (of_nat n :: 32 word))"

lemma int_text_decimal: "n < 2 ^ 31 \<Longrightarrow> int_text n = decimal n"
  by (simp add: int_text_def sint_small signed_decimal_def)

text \<open>An unordered map is walked in some order.\<close>

definition order_law :: "TracerEnv \<Rightarrow> bool" where
  "order_law E \<longleftrightarrow> (\<forall>q als. mset (te_order E q als) = mset als) \<and> (\<forall>q stats. mset (te_threadOrder E q stats) = mset stats)"

lemma active_mset: "mset als = mset als' \<Longrightarrow> length (active_objects als) = length (active_objects als')"
  unfolding active_objects_def by (metis mset_filter size_mset)

text \<open>C40: The tracer refines the set of the objects that live: after any steps of any threads, the number of active objects is the
  size of that set, the report of leaks has a section for each of them and for nothing else, numbered from 1, under the
  order in which the map is walked, its last line says their number, and the counts of the threads in the statistics add up to it.
  The numbers are those of an \<open>int\<close>; below \<open>2 ^ 31\<close> objects they are the numbers themselves.\<close>

theorem tracer_reports_live_objects:
  assumes "order_law E" "(t, calls) = fold (tracer_step E) ops (MemoryTracer_new, Map.empty)"
    and "(on, live, waiting) = fold live_step ops (True, {}, Map.empty)"
  shows "MemoryTracer_IsEnabled t = on \<and> calls = waiting \<and> MemoryTracer_GetActiveObjectCount t = card live \<and>
    (\<exists>header sections als t'.
       MemoryTracer_WriteLeakReport E False t =
         (header @ concat sections @ ''Active objects: '' @ int_text (card live) @ newline @ ''========================='' @ newline @ newline, t') \<and>
       length sections = card live \<and> fst ` set als = live \<and> length als = card live \<and>
       (\<forall>i < card live. \<exists>now. sections ! i = leak_section E (of_nat (i + 1)) (als ! i) now)) \<and>
    (\<forall>q. sum_list (map snd (te_threadOrder E q (thread_stats (mt_allocations t)))) = of_nat (card live)) \<and>
    (card live < 2 ^ 31 \<longrightarrow> (\<forall>n \<le> card live. int_text n = decimal n) \<and>
       (\<forall>q. sum_list (map (\<lambda>(_, n). nat (sint n)) (te_threadOrder E q (thread_stats (mt_allocations t)))) = card live))"
proof -
  have "tracer_ok (MemoryTracer_new, Map.empty)" by (simp add: tracer_ok_def MemoryTracer_new_def)
  then have ok: "tracer_ok (t, calls)" and "tracer_abs (t, calls) = fold live_step ops (tracer_abs (MemoryTracer_new, Map.empty))"
    unfolding assms(2) by (simp_all add: tracing.run_ok tracer_run_abs)
  then have "tracer_abs (t, calls) = (on, live, waiting)"
    unfolding assms(3) by (simp add: tracer_abs_def live_objects_def MemoryTracer_new_def)
  then have abs: "mt_enabled t = on" "live_objects t = live" "calls = waiting" by (simp_all add: tracer_abs_def)
  have d: "distinct (map fst (mt_allocations t))" using ok by (simp add: tracer_ok_def)
  have count: "length (active_objects (mt_allocations t)) = card live"
    using active_count [OF d] abs(2) by (simp add: live_objects_def)
  define als where "als = te_order E (mt_query t) (mt_allocations t)"
  have m: "mset als = mset (mt_allocations t)" using assms(1) by (simp add: als_def order_law_def)
  note n = active_mset [OF m]
  obtain sections k t' where s: "leak_sections E als 0 (t\<lparr> mt_query := mt_query t + 1 \<rparr>) = (sections, k, t')" by (metis prod_cases3)
  note num = leak_sections_numbered [OF s]
  have "fst ` set (active_objects als) = live"
    using d abs(2) mset_eq_setD [OF m] by (force simp: active_objects_def live_objects_def map_of_eq_Some_iff)
  moreover have "\<exists>header. MemoryTracer_WriteLeakReport E False t =
      (header @ concat sections @ ''Active objects: '' @ int_text (card live) @ newline @ ''========================='' @ newline @ newline, t')"
    using s num n count
    by (intro exI [of _ "newline @ ''=== Memory Leak Report ==='' @ newline @ ''Total tracked objects: '' @ decimal (length (mt_allocations t)) @ newline"])
      (simp add: MemoryTracer_WriteLeakReport_def timestamp_line_def tracer_ask_def als_def int_text_def)
  moreover have "sum_list (map f (te_threadOrder E q (thread_stats (mt_allocations t)))) = sum_list (map f (thread_stats (mt_allocations t)))"
    for f :: "nat \<times> 32 word \<Rightarrow> 'b :: comm_monoid_add" and q
  proof -
    have "mset (map f (te_threadOrder E q (thread_stats (mt_allocations t)))) = mset (map f (thread_stats (mt_allocations t)))"
      using assms(1) by (simp add: order_law_def)
    then show ?thesis by (metis sum_mset_sum_list)
  qed
  note sums = this this
  have "sections_ok": "\<forall>i < card live. \<exists>now. sections ! i = leak_section E (of_nat (i + 1)) (active_objects als ! i) now"
    using num n count by (simp add: add.commute)
  show ?thesis
    using abs count num n sections_ok calculation thread_stats_sum [of "mt_allocations t"] int_text_decimal
    by (auto simp: MemoryTracer_IsEnabled_def MemoryTracer_GetActiveObjectCount_def sums intro!: exI [of _ sections] exI [of _ "active_objects als"])
qed

definition sample_tracer :: TracerEnv where
  "sample_tracer = \<lparr> te_address = decimal, te_thread = decimal, te_order = (\<lambda>_ als. rev als), te_threadOrder = (\<lambda>_ stats. stats),
     te_steadyNow = int, te_localTime = (\<lambda>_. (None, 0)), te_frames = (\<lambda>_. []), te_opens = (\<lambda>_ _. True) \<rparr>"

text \<open>A thread that passed the test tracks its object although tracing was disabled and the record cleared meanwhile.\<close>

definition sample_tracing :: "tracer_op list" where
  "sample_tracing = [Op_enter 1 (Call_track 10 ''a'' ''f'' 1 []), Op_locked 1, Op_enter 2 (Call_track 20 ''b'' ''f'' 2 []),
     Op_enter 1 (Call_untrack 10 ''f'' 3), Op_locked 1, Op_disable, Op_clear, Op_locked 2, Op_enter 2 (Call_track 30 ''c'' ''f'' 4 []), Op_locked 2]"

theorem tracer_reports_live_objects_witness:
  "MemoryTracer_GetActiveObjectCount (fst (fold (tracer_step sample_tracer) sample_tracing (MemoryTracer_new, Map.empty))) = 1"
proof -
  let ?s = "fold (tracer_step sample_tracer) sample_tracing (MemoryTracer_new, Map.empty)"
  have "order_law sample_tracer" by (simp add: order_law_def sample_tracer_def)
  moreover have "(fst ?s, snd ?s) = ?s" by simp
  moreover have "(False, {20}, Map.empty) = fold live_step sample_tracing (True, {}, Map.empty)"
    by (auto simp: sample_tracing_def)
  ultimately have "MemoryTracer_GetActiveObjectCount (fst ?s) = card {20 :: nat}"
    by (rule tracer_reports_live_objects [THEN conjunct2, THEN conjunct2, THEN conjunct1])
  then show ?thesis by simp
qed

end
