(* ===== verification/Contents_Protocol.thy ===== *)
theory Contents_Protocol
  imports Session_Info
begin

text \<open>
  The packets of the example content, ContentsServer/Protocol.h, Protocol.cpp and PacketIdType.h, which are the same files in
  ContentsClient: their ids, and how their parameters are written into a buffer and read from it. The operators of \<open>NetBuffer\<close>
  on a \<open>std::string\<close> are not in the repository; they are those of \<open>KeyApi\<close>.
\<close>

section \<open>The packets\<close>

datatype PACKET_ID = INVALID_PACKET_ID | PING | PONG | TEST_STRING_PACKET_REQ | TEST_STRING_PACKET_RES
  | TEST_PACKET_REQ | TEST_PACKET_RES

fun PACKET_ID_value :: "PACKET_ID \<Rightarrow> PacketId" where
  "PACKET_ID_value INVALID_PACKET_ID = 0"
| "PACKET_ID_value PING = 1"
| "PACKET_ID_value PONG = 2"
| "PACKET_ID_value TEST_STRING_PACKET_REQ = 3"
| "PACKET_ID_value TEST_STRING_PACKET_RES = 4"
| "PACKET_ID_value TEST_PACKET_REQ = 5"
| "PACKET_ID_value TEST_PACKET_RES = 6"

lemma PACKET_ID_value_inj [simp]: "PACKET_ID_value p = PACKET_ID_value q \<longleftrightarrow> p = q"
  by (cases p; cases q) simp_all

text \<open>An object of a class derived from \<open>IPacket\<close>: a string is its bytes, an \<open>int\<close> its 32 bits.\<close>

datatype Packet = Ping | Pong | TestStringPacketReq "byte list" | TestStringPacketRes "byte list"
  | TestPacketReq "32 word" | TestPacketRes "32 word"

fun Packet_PACKET_ID :: "Packet \<Rightarrow> PACKET_ID" where
  "Packet_PACKET_ID Ping = PING"
| "Packet_PACKET_ID Pong = PONG"
| "Packet_PACKET_ID (TestStringPacketReq _) = TEST_STRING_PACKET_REQ"
| "Packet_PACKET_ID (TestStringPacketRes _) = TEST_STRING_PACKET_RES"
| "Packet_PACKET_ID (TestPacketReq _) = TEST_PACKET_REQ"
| "Packet_PACKET_ID (TestPacketRes _) = TEST_PACKET_RES"

definition Packet_GetPacketId :: "Packet \<Rightarrow> PacketId" where
  "Packet_GetPacketId packet = PACKET_ID_value (Packet_PACKET_ID packet)"

section \<open>Reading and writing the parameters\<close>

text \<open>\<open>SetParametersToBuffer\<close> and \<open>SetBufferToParameters\<close> with the parameters of each class. \<open>Ping\<close> and \<open>Pong\<close> keep the
  functions of \<open>IPacket\<close>, which do nothing.\<close>

fun Packet_PacketToBuffer :: "NetBufferApi \<Rightarrow> 'k KeyApi \<Rightarrow> Packet \<Rightarrow> NetBuffer \<Rightarrow> NetBuffer" where
  "Packet_PacketToBuffer api K Ping buffer = buffer"
| "Packet_PacketToBuffer api K Pong buffer = buffer"
| "Packet_PacketToBuffer api K (TestStringPacketReq testString) buffer = nb_writeString K testString buffer"
| "Packet_PacketToBuffer api K (TestStringPacketRes echoString) buffer = nb_writeString K echoString buffer"
| "Packet_PacketToBuffer api K (TestPacketReq order) buffer = nb_write api (le_bytes 4 order) buffer"
| "Packet_PacketToBuffer api K (TestPacketRes order) buffer = nb_write api (le_bytes 4 order) buffer"

text \<open>The first argument is the object that is read into: only its class matters.\<close>

fun Packet_BufferToPacket :: "NetBufferApi \<Rightarrow> 'k KeyApi \<Rightarrow> Packet \<Rightarrow> NetBuffer \<Rightarrow> Packet" where
  "Packet_BufferToPacket api K Ping buffer = Ping"
| "Packet_BufferToPacket api K Pong buffer = Pong"
| "Packet_BufferToPacket api K (TestStringPacketReq _) buffer = TestStringPacketReq (fst (nb_readString K buffer))"
| "Packet_BufferToPacket api K (TestStringPacketRes _) buffer = TestStringPacketRes (fst (nb_readString K buffer))"
| "Packet_BufferToPacket api K (TestPacketReq _) buffer = TestPacketReq (le_word (fst (nb_read api 4 buffer)))"
| "Packet_BufferToPacket api K (TestPacketRes _) buffer = TestPacketRes (le_word (fst (nb_read api 4 buffer)))"

section \<open>The bytes of a packet\<close>

fun parameter_bytes :: "Packet \<Rightarrow> byte list" where
  "parameter_bytes Ping = []"
| "parameter_bytes Pong = []"
| "parameter_bytes (TestStringPacketReq s) = le_bytes 2 (of_nat (length s) :: ushort) @ s"
| "parameter_bytes (TestStringPacketRes s) = le_bytes 2 (of_nat (length s) :: ushort) @ s"
| "parameter_bytes (TestPacketReq order) = le_bytes 4 order"
| "parameter_bytes (TestPacketRes order) = le_bytes 4 order"

text \<open>A buffer that was allocated for sending and got these bytes.\<close>

definition filled :: "NetBuffer \<Rightarrow> byte list \<Rightarrow> bool" where
  "filled p bs \<longleftrightarrow> written p bs \<and> m_iRead p = 5 \<and> \<not> m_bIsEncoded p"

lemma write_filled:
  assumes "write_law api" "filled p bs" "5 + length bs + length cs \<le> length (m_pSerializeBuffer p)"
  shows "filled (nb_write api cs p) (bs @ cs)" "length (m_pSerializeBuffer (nb_write api cs p)) = length (m_pSerializeBuffer p)"
proof -
  have w: "written p bs" "length (m_pSerializeBuffer p) < 65536" "unat (m_iWrite p) = 5 + length bs"
    using assms(2) by (simp_all add: filled_def written_def)
  then have "nb_write api cs p = p\<lparr> m_pSerializeBuffer := patch (unat (m_iWrite p)) cs (m_pSerializeBuffer p), m_iWrite := m_iWrite p + of_nat (length cs) \<rparr>"
    using assms(1,3) by (simp add: write_law_def)
  then show "filled (nb_write api cs p) (bs @ cs)"
    using write_written(1) [OF assms(1) w(1) assms(3)] assms(2) by (simp add: filled_def)
  show "length (m_pSerializeBuffer (nb_write api cs p)) = length (m_pSerializeBuffer p)"
    by (rule write_written(2) [OF assms(1) w(1) assms(3)])
qed

lemma PacketToBuffer_filled:
  assumes "write_law api" "string_laws api K" "filled p bs"
    "5 + length bs + length (parameter_bytes packet) \<le> length (m_pSerializeBuffer p)"
  shows "filled (Packet_PacketToBuffer api K packet p) (bs @ parameter_bytes packet)"
    "length (m_pSerializeBuffer (Packet_PacketToBuffer api K packet p)) = length (m_pSerializeBuffer p)"
proof -
  have string: "filled (nb_writeString K s p) (bs @ le_bytes 2 (of_nat (length s) :: ushort) @ s) \<and>
      length (m_pSerializeBuffer (nb_writeString K s p)) = length (m_pSerializeBuffer p)"
    if "5 + length bs + 2 + length s \<le> length (m_pSerializeBuffer p)" for s
  proof -
    let ?l = "le_bytes 2 (of_nat (length s) :: ushort)"
    note 1 = write_filled [OF assms(1,3), of ?l]
    have "filled (nb_write api s (nb_write api ?l p)) ((bs @ ?l) @ s)"
      "length (m_pSerializeBuffer (nb_write api s (nb_write api ?l p))) = length (m_pSerializeBuffer p)"
      using write_filled [OF assms(1) 1(1), of s] 1(2) that by simp_all
    then show ?thesis using assms(2) by (simp add: string_laws_def)
  qed
  note plain = write_filled [OF assms(1,3), of "parameter_bytes packet"]
  show "filled (Packet_PacketToBuffer api K packet p) (bs @ parameter_bytes packet)"
    "length (m_pSerializeBuffer (Packet_PacketToBuffer api K packet p)) = length (m_pSerializeBuffer p)"
    using assms(3,4) string plain by (cases packet; simp)+
qed

lemma readString_holds:
  assumes "read_law api" "string_laws api K" "length s < 65536"
    "holds p (le_bytes 2 (of_nat (length s) :: ushort) @ s @ rest)"
  shows "\<exists>p'. nb_readString K p = (s, p') \<and> holds p' rest"
proof -
  have l: "unat (of_nat (length s) :: ushort) = length s" using assms(3) by (simp add: unat_of_nat)
  obtain p1 where 1: "nb_read api 2 p = (le_bytes 2 (of_nat (length s) :: ushort), p1)" "holds p1 (s @ rest)"
    using read_holds [OF assms(1,4)] by auto
  obtain p2 where 2: "nb_read api (length s) p1 = (s, p2)" "holds p2 rest"
    using read_holds [OF assms(1) 1(2) refl] by auto
  show ?thesis using assms(2) 1 2 l by (simp add: string_laws_def le_word_le_bytes)
qed

lemma BufferToPacket_holds:
  assumes "read_law api" "string_laws api K" "holds p (parameter_bytes packet)"
    "Packet_PACKET_ID packet0 = Packet_PACKET_ID packet"
  shows "Packet_BufferToPacket api K packet0 p = packet"
proof -
  have "fst (nb_readString K p) = s" if "parameter_bytes packet = le_bytes 2 (of_nat (length s) :: ushort) @ s" for s
  proof -
    have "length s < 65536" using assms(3) that by (simp add: holds_def)
    then show ?thesis using readString_holds [OF assms(1,2), of s p "[]"] assms(3) that by auto
  qed
  moreover have "le_word (fst (nb_read api 4 p)) = order" if "parameter_bytes packet = le_bytes 4 order" for order :: "32 word"
    using read_holds [OF assms(1), of p "le_bytes 4 order" "[]" 4] assms(3) that by (auto simp: le_word_le_bytes)
  ultimately show ?thesis using assms(4) by (cases packet; cases packet0) simp_all
qed

text \<open>The packet with its id, as a session or a client sends it and as its handler finds it.\<close>

definition message_bytes :: "Packet \<Rightarrow> byte list" where
  "message_bytes packet = le_bytes 4 (Packet_GetPacketId packet) @ parameter_bytes packet"

lemma read_id_holds:
  assumes "read_law api" "holds p (message_bytes packet)"
  shows "\<exists>p'. nb_read api 4 p = (le_bytes 4 (Packet_GetPacketId packet), p') \<and> holds p' (parameter_bytes packet)"
  using read_holds [OF assms(1), of p _ "parameter_bytes packet"] assms(2) by (simp add: message_bytes_def)

text \<open>The buffer \<open>SendPacket\<close> fills, on either side.\<close>

definition packet_buffer :: "NetBufferApi \<Rightarrow> 'k KeyApi \<Rightarrow> PacketSequence \<Rightarrow> Packet \<Rightarrow> NetBuffer" where
  "packet_buffer api K q packet =
     Packet_PacketToBuffer api K packet (nb_write api (le_bytes 4 (Packet_GetPacketId packet))
       (nb_write api (le_bytes 8 q) (nb_write api [PACKET_TYPE_byte SEND_TYPE] (nb_Alloc api))))"

lemma packet_buffer_filled:
  assumes "write_law api" "string_laws api K" "filled (nb_Alloc api) []"
    "18 + length (parameter_bytes packet) \<le> length (m_pSerializeBuffer (nb_Alloc api))"
  shows "filled (packet_buffer api K q packet) ([PACKET_TYPE_byte SEND_TYPE] @ le_bytes 8 q @ message_bytes packet)"
    "length (m_pSerializeBuffer (packet_buffer api K q packet)) = length (m_pSerializeBuffer (nb_Alloc api))"
proof -
  note 1 = write_filled [OF assms(1,3), of "[PACKET_TYPE_byte SEND_TYPE]"]
  note 2 = write_filled [OF assms(1) 1(1), of "le_bytes 8 q"]
  note 3 = write_filled [OF assms(1) 2(1), of "le_bytes 4 (Packet_GetPacketId packet)"]
  note 4 = PacketToBuffer_filled [OF assms(1,2) 3(1), of packet]
  show "filled (packet_buffer api K q packet) ([PACKET_TYPE_byte SEND_TYPE] @ le_bytes 8 q @ message_bytes packet)"
    "length (m_pSerializeBuffer (packet_buffer api K q packet)) = length (m_pSerializeBuffer (nb_Alloc api))"
    using 1(2) 2(2) 3(2) 4 assms(4) by (simp_all add: packet_buffer_def message_bytes_def)
qed

lemma packet_buffer_slices:
  assumes "filled p ([PACKET_TYPE_byte SEND_TYPE] @ le_bytes 8 q @ message_bytes packet)"
    "34 + length (parameter_bytes packet) \<le> length (m_pSerializeBuffer p)"
  shows "encodable False q p" "slice 5 1 (m_pSerializeBuffer p) = [PACKET_TYPE_byte SEND_TYPE]"
    "unat (m_iWrite p) = 18 + length (parameter_bytes packet)"
    "slice 14 (4 + length (parameter_bytes packet)) (m_pSerializeBuffer p) = message_bytes packet"
proof -
  let ?mem = "m_pSerializeBuffer p" and ?n = "length (parameter_bytes packet)"
  have w: "length ?mem < 65536" "unat (m_iWrite p) = 18 + ?n" "m_iRead p = 5" "\<not> m_bIsEncoded p"
    "slice 5 (13 + ?n) ?mem = [PACKET_TYPE_byte SEND_TYPE] @ le_bytes 8 q @ message_bytes packet"
    using assms(1) by (simp_all add: filled_def written_def message_bytes_def)
  have part: "slice (5 + o2) k ?mem = slice o2 k (slice 5 (13 + ?n) ?mem)" if "o2 + k \<le> 13 + ?n" for o2 k
    using that by (simp add: slice_def drop_take add.commute min_def)
  show type: "slice 5 1 ?mem = [PACKET_TYPE_byte SEND_TYPE]" using part [of 0 1, unfolded w(5)] by (simp add: slice_def)
  have "slice 6 8 ?mem = le_bytes 8 q" using part [of 1 8, unfolded w(5)] by (simp add: slice_def)
  then show "encodable False q p" using w assms(2) by (simp add: encodable_def bodyOffsetWithHeader_def)
  show "unat (m_iWrite p) = 18 + ?n" by (rule w(2))
  show "slice 14 (4 + ?n) ?mem = message_bytes packet"
    using part [of 9 "4 + ?n", unfolded w(5)] by (simp add: slice_def message_bytes_def)
qed

end
