(* ===== verification/Contents_Server.thy ===== *)
theory Contents_Server
  imports Contents_Protocol Packet_Handlers Server_System
begin

text \<open>
  The example content of the server, ContentsServer: the packets it registers, the handlers of \<open>Player\<close>, its callbacks, and
  PlayerManager. With it the parameters of the server that stand for a content have the values of this repository
  (\<open>contents_env\<close>), and what the properties of the server ask of a content is proved of it.
\<close>

section \<open>PlayerPacketHandlerRegister.cpp\<close>

fun packet_class_index :: "Packet \<Rightarrow> nat" where
  "packet_class_index Ping = 0"
| "packet_class_index Pong = 1"
| "packet_class_index (TestStringPacketReq _) = 2"
| "packet_class_index (TestStringPacketRes _) = 3"
| "packet_class_index (TestPacketReq _) = 4"
| "packet_class_index (TestPacketRes _) = 5"

text \<open>The class of an object, as PacketManager sees it.\<close>

definition packet_class :: "NetBufferApi \<Rightarrow> 'k KeyApi \<Rightarrow> Packet \<Rightarrow> Packet PacketClass" where
  "packet_class api K packet =
     \<lparr> pc_class = packet_class_index packet, pc_GetPacketId = Packet_GetPacketId packet,
       pc_BufferToPacket = Packet_BufferToPacket api K packet \<rparr>"

definition ContentsPacketRegister_Init :: "NetBufferApi \<Rightarrow> 'k KeyApi \<Rightarrow> Packet PacketManager \<Rightarrow> Packet PacketManager" where
  "ContentsPacketRegister_Init api K pm =
     PacketManager_RegisterPacket (packet_class api K (TestPacketReq 0))
       (PacketManager_RegisterPacket (packet_class api K (TestStringPacketReq []))
         (PacketManager_RegisterPacket (packet_class api K Ping) pm))"

section \<open>Player\<close>

text \<open>\<open>SendPacket(IPacket&)\<close> of the session, whose result the handlers do not read. It asks nothing of the content.\<close>

definition Player_SendPacket :: "'k Env \<Rightarrow> 'k KeyApi \<Rightarrow> Packet \<Rightarrow> nat \<Rightarrow> 'k World \<Rightarrow> 'k World" where
  "Player_SendPacket E K packet i w =
     snd (Session_SendPacket E i (Packet_GetPacketId packet) (Packet_PacketToBuffer (env_api E) K packet) w)"

definition Player_OnPing :: "'k Env \<Rightarrow> 'k KeyApi \<Rightarrow> Packet \<Rightarrow> nat \<Rightarrow> 'k World \<Rightarrow> 'k World" where
  "Player_OnPing E K packet i w = Player_SendPacket E K Pong i w"

definition Player_OnTestStringPacketReq :: "'k Env \<Rightarrow> 'k KeyApi \<Rightarrow> Packet \<Rightarrow> nat \<Rightarrow> 'k World \<Rightarrow> 'k World" where
  "Player_OnTestStringPacketReq E K packet i w =
     (case packet of
        TestStringPacketReq testString \<Rightarrow> Player_SendPacket E K (TestStringPacketRes testString) i w
      | _ \<Rightarrow> fault w)"

definition Player_OnTestPacketReq :: "'k Env \<Rightarrow> 'k KeyApi \<Rightarrow> Packet \<Rightarrow> nat \<Rightarrow> 'k World \<Rightarrow> 'k World" where
  "Player_OnTestPacketReq E K packet i w =
     (case packet of
        TestPacketReq order \<Rightarrow> Player_SendPacket E K (TestPacketRes order) i w
      | _ \<Rightarrow> fault w)"

definition Player_RegisterAllPacketHandler ::
    "'k Env \<Rightarrow> 'k KeyApi \<Rightarrow> (Packet, 'k) PacketFactoryMap \<Rightarrow> (Packet, 'k) PacketFactoryMap" where
  "Player_RegisterAllPacketHandler E K fm =
     Session_RegisterPacketHandler (PACKET_ID_value TEST_STRING_PACKET_REQ)
         (packet_class_index (TestStringPacketReq [])) (Player_OnTestStringPacketReq E K)
       (Session_RegisterPacketHandler (PACKET_ID_value TEST_PACKET_REQ)
           (packet_class_index (TestPacketReq 0)) (Player_OnTestPacketReq E K)
         (Session_RegisterPacketHandler (PACKET_ID_value PING) (packet_class_index Ping) (Player_OnPing E K) fm))"

text \<open>The callbacks count the players in 16 bits, of which the server sees nothing.\<close>

definition Player_OnConnected :: "16 word \<Rightarrow> 16 word" where
  "Player_OnConnected playerCount = playerCount + 1"

definition Player_OnDisconnected :: "16 word \<Rightarrow> 16 word" where
  "Player_OnDisconnected playerCount = playerCount - 1"

fun player_event :: "content_event \<Rightarrow> 16 word \<Rightarrow> 16 word" where
  "player_event (OnConnected _) playerCount = Player_OnConnected playerCount"
| "player_event (OnDisconnected _) playerCount = Player_OnDisconnected playerCount"
| "player_event (OnReleased _) playerCount = playerCount"

definition player_count :: "'k World \<Rightarrow> 16 word" where
  "player_count w = fold player_event (w_events w) 0"

text \<open>The environment of the server with this content.\<close>

definition contents_env :: "'k KeyApi \<Rightarrow> 'k Env \<Rightarrow> 'k Env" where
  "contents_env K E =
     E\<lparr> env_handler := content_handler (ContentsPacketRegister_Init (env_api E) K Map.empty)
                         (Player_RegisterAllPacketHandler E K Map.empty),
        env_OnConnected := (\<lambda>i w. w), env_OnDisconnected := (\<lambda>i w. w), env_OnReleased := (\<lambda>i w. w) \<rparr>"

section \<open>What the server asks of its content\<close>

lemmas contents_defs = contents_env_def content_handler_def packet_factory_def PacketManager_BufferToPacket_def
  PacketManager_MakePacket_def PacketManager_RegisterPacket_def Session_RegisterPacketHandler_def
  ContentsPacketRegister_Init_def Player_RegisterAllPacketHandler_def packet_class_def Packet_GetPacketId_def

text \<open>A handler does nothing but send one packet.\<close>

lemma contents_handler_sends:
  assumes "env_handler (contents_env K E) packetId = Some h" "h i p w = (ok, w')"
  shows "\<exists>packet. w' = Player_SendPacket E K packet i w"
  using assms
  by (auto simp: contents_defs Player_OnPing_def Player_OnTestPacketReq_def Player_OnTestStringPacketReq_def
      split: if_splits)

text \<open>C29: The content of this repository keeps what the server asks of a content: every handler and every callback is a run of the steps of
  the abstract server and keeps the reference counts exact. So all that is proved of the server with any such content holds for the
  server that is built here.\<close>

theorem contents_env_ok:
  assumes "spi_alloc_law E"
  shows "env_ok (contents_env K E) n m"
proof -
  have send: "world_ok n m L (Player_SendPacket E K packet i w) \<and> evolves w (Player_SendPacket E K packet i w)"
    if "i < n" "world_ok n m L w" for packet i L and w :: "'a World"
  proof -
    obtain ok w' where r: "Session_SendPacket E i (Packet_GetPacketId packet) (Packet_PacketToBuffer (env_api E) K packet) w = (ok, w')"
      by fastforce
    show ?thesis
      using world_ok_SendPacket [OF r that(2,1) assms] evolves_SendPacket [OF r that(2,1)] by (simp add: Player_SendPacket_def r)
  qed
  have "spi_alloc_law (contents_env K E)" using assms by (simp add: spi_alloc_law_def contents_env_def)
  moreover have "content_law (contents_env K E) n m"
    unfolding content_law_def using contents_handler_sends [of K E] send
    by (auto simp: contents_env_def) metis
  moreover have "content_refines (contents_env K E) n m"
    unfolding content_refines_def using contents_handler_sends [of K E] send
    by (auto simp: contents_env_def) metis
  ultimately show ?thesis by (simp add: env_ok_def)
qed

theorem contents_env_ok_witness: "env_ok (contents_env documented_keys sample_env) 1 1"
  by (rule contents_env_ok [OF sample_env_alloc])

section \<open>What a client gets\<close>

text \<open>The answer to a request, None for what no handler takes.\<close>

fun answer :: "Packet \<Rightarrow> Packet option" where
  "answer Ping = Some Pong"
| "answer (TestStringPacketReq testString) = Some (TestStringPacketRes testString)"
| "answer (TestPacketReq order) = Some (TestPacketRes order)"
| "answer _ = None"

lemma answer_echoes: "answer request = Some response \<Longrightarrow> parameter_bytes response = parameter_bytes request"
  by (cases request) auto

lemma contents_handler_answers:
  assumes "answer request = Some response" "netbuffer_laws (env_api E)" "string_laws (env_api E) K"
    "holds packet1 (parameter_bytes request)"
  shows "\<exists>h. env_handler (contents_env K E) (Packet_GetPacketId request) = Some h \<and>
    h i packet1 w = (True, Player_SendPacket E K response i w)"
proof -
  have read: "Packet_BufferToPacket (env_api E) K packet0 packet1 = request"
    if "Packet_PACKET_ID packet0 = Packet_PACKET_ID request" for packet0
    using BufferToPacket_holds [OF _ assms(3,4) that] assms(2) by (simp add: netbuffer_laws_def)
  show ?thesis
    using assms(1) read [of "TestPacketReq 0"] read [of "TestStringPacketReq []"] read [of Ping]
    by (cases request)
       (auto simp: contents_defs Player_OnPing_def Player_OnTestPacketReq_def Player_OnTestStringPacketReq_def)
qed

text \<open>A packet with any other id is refused, and nothing changes.\<close>

lemma contents_server_refuses:
  assumes "nb_read (env_api E) 4 recvPacket = (bytes, packet1)"
    "le_word bytes \<notin> PACKET_ID_value ` {PING, TEST_STRING_PACKET_REQ, TEST_PACKET_REQ}"
  shows "Session_ProcessPacket (contents_env K E) i recvPacket q w = (False, w)"
  using assms by (simp add: Session_ProcessPacket_def contents_defs)

text \<open>C28: The server with the example content echoes: a request a session receives in order reaches its handler, which sends the one
  packet that answers it, before the request is acknowledged; the answer has the bytes of the request behind its own id.\<close>

theorem contents_server_answers:
  assumes "netbuffer_laws (env_api E)" "string_laws (env_api E) K" "answer request = Some response"
    and "holds recvPacket (message_bytes request)"
    and "filled p bs" "5 + length bs + length (parameter_bytes request) \<le> length (m_pSerializeBuffer p)"
  shows "Session_ProcessPacket (contents_env K E) i recvPacket q w =
      (True, Session_SendReplyToClient (contents_env K E) q i
        (upd_session i (\<lambda>s. s\<lparr> s_flowManager := FlowManager_MarkReceived q (s_flowManager s) \<rparr>)
          (Player_SendPacket E K response i w))) \<and>
    filled (Packet_PacketToBuffer (env_api E) K response p) (bs @ parameter_bytes request)"
proof -
  have laws: "read_law (env_api E)" "write_law (env_api E)" using assms(1) by (simp_all add: netbuffer_laws_def)
  have api: "env_api (contents_env K E) = env_api E" by (simp add: contents_env_def)
  obtain packet1 where "nb_read (env_api E) 4 recvPacket = (le_bytes 4 (Packet_GetPacketId request), packet1)"
    "holds packet1 (parameter_bytes request)"
    using read_id_holds [OF laws(1) assms(4)] by blast
  moreover note contents_handler_answers [OF assms(3,1,2) this(2), of i w]
  ultimately show ?thesis
    using PacketToBuffer_filled [OF laws(2) assms(2,5), of response] assms(6) answer_echoes [OF assms(3)]
    by (auto simp: Session_ProcessPacket_def api le_word_le_bytes)
qed

text \<open>An echoed order, with the operators as they are documented.\<close>

definition sample_request :: NetBuffer where
  "sample_request = \<lparr> m_pSerializeBuffer = replicate 14 0 @ [5, 0, 0, 0, 7, 0, 0, 0] @ replicate 42 0,
     m_iRead = 14, m_iWrite = 22, m_iWriteLast = 0, m_bIsEncoded = False \<rparr>"

lemma sample_request_holds: "holds sample_request (message_bytes (TestPacketReq 7))"
  by (simp add: holds_def message_bytes_def Packet_GetPacketId_def sample_request_def slice_def le_bytes_def upt_rec)

theorem contents_server_answers_witness:
  "Session_ProcessPacket (contents_env documented_keys sample_env) 0 sample_request 1 (sample_world []) =
     (True, Session_SendReplyToClient (contents_env documented_keys sample_env) 1 0
       (upd_session 0 (\<lambda>s. s\<lparr> s_flowManager := FlowManager_MarkReceived 1 (s_flowManager s) \<rparr>)
         (Player_SendPacket sample_env documented_keys (TestPacketRes 7) 0 (sample_world []))))"
proof -
  have "env_api sample_env = documented_api" by (simp add: sample_env_def)
  then show ?thesis
    using contents_server_answers [of sample_env documented_keys "TestPacketReq 7" "TestPacketRes 7" sample_request
        "nb_Alloc documented_api" "[]" 0 1 "sample_world []"]
      documented_api_laws documented_keys_laws documented_buffer sample_request_holds
    by (simp add: documented_api_def filled_def)
qed

end
