(* ===== verification/Contents_Client.thy ===== *)
theory Contents_Client
  imports Contents_Server Client_Delivery
begin

text \<open>
  The example client, ContentsClient/TestClient.cpp and TestPacketHandler.cpp: a test thread that takes what the server sent, compares
  it with what it asked for, and sends the next request. It uses RUDPClientCore as any application does.
\<close>

section \<open>Its state\<close>

text \<open>The members of the client, the two counters of the process, and that the process was ended by \<open>g_Dump.Crash\<close> or read the first
  order of an empty list.\<close>

record 'k TestClient =
  tc_core :: "'k Client"
  tc_order :: "32 word"
  tc_orderList :: "32 word list"
  tc_echoStringSet :: "byte list multiset"
  tc_packetSendCount :: "64 word"
  tc_clientCount :: int
  tc_query :: nat
  tc_crashed :: bool

text \<open>\<open>te_pickAblePacketSize\<close> is the constant of \<open>SendAnyPacket\<close>, 1 in the source: how many of its three kinds of packets it picks
  from. The random numbers are answers of the environment.\<close>

record 'k TestEnv =
  te_client :: "'k ClientEnv"
  te_pickAblePacketSize :: nat
  te_rand :: "nat \<Rightarrow> nat"
  te_size :: "nat \<Rightarrow> nat"
  te_dist :: "nat \<Rightarrow> nat \<Rightarrow> nat"

section \<open>Random strings\<close>

definition alphanum :: "byte list" where
  "alphanum = map of_char ''0123456789ABCDEFGHIJKLMNOPQRSTUVWXYZabcdefghijklmnopqrstuvwxyz''"

definition MAX_RANDOM_STRING_SIZE :: nat where
  "MAX_RANDOM_STRING_SIZE = 20"

definition gen_random :: "(nat \<Rightarrow> nat) \<Rightarrow> nat \<Rightarrow> byte list" where
  "gen_random dist len = map (\<lambda>i. alphanum ! dist i) [0..<len]"

definition MakeRandomString :: "'k TestEnv \<Rightarrow> nat \<Rightarrow> byte list" where
  "MakeRandomString T query = gen_random (te_dist T query) (te_size T query)"

text \<open>What a uniform distribution gives: a number of its range.\<close>

definition random_law :: "'k TestEnv \<Rightarrow> bool" where
  "random_law T \<longleftrightarrow> (\<forall>query. 10 \<le> te_size T query \<and> te_size T query \<le> MAX_RANDOM_STRING_SIZE \<and> (\<forall>i. te_dist T query i \<le> 61))"

lemma MakeRandomString_bounds:
  assumes "random_law T"
  shows "10 \<le> length (MakeRandomString T query)" "length (MakeRandomString T query) \<le> 20"
    "set (MakeRandomString T query) \<subseteq> set alphanum"
proof -
  have "length alphanum = 62" by (simp add: alphanum_def)
  moreover have "te_dist T query i < 62" for i
    using assms by (metis (no_types) random_law_def eval_nat_numeral(2) le_imp_less_Suc semiring_norm(26,27,28))
  ultimately have "alphanum ! te_dist T query i \<in> set alphanum" for i by (intro nth_mem) simp
  then show "set (MakeRandomString T query) \<subseteq> set alphanum" by (auto simp: MakeRandomString_def gen_random_def)
qed (use assms in \<open>simp_all add: MakeRandomString_def gen_random_def random_law_def MAX_RANDOM_STRING_SIZE_def\<close>)

section \<open>TestPacketHandler.cpp\<close>

definition TestClient_SendPacket :: "'k TestEnv \<Rightarrow> Packet \<Rightarrow> 'k TestClient \<Rightarrow> 'k TestClient" where
  "TestClient_SendPacket T packet tc =
     (let E = te_client T
      in tc\<lparr> tc_core := Client_SendPacket E (Packet_GetPacketId packet) (Packet_PacketToBuffer (ce_api E) (ce_keys E) packet) (tc_core tc) \<rparr>)"

definition count_sent :: "'k TestClient \<Rightarrow> 'k TestClient" where
  "count_sent tc = tc\<lparr> tc_packetSendCount := tc_packetSendCount tc + 1 \<rparr>"

text \<open>The cases of the switch of \<open>SendAnyPacket\<close>, and the function.\<close>

definition TestClient_SendPicked :: "'k TestEnv \<Rightarrow> nat \<Rightarrow> 'k TestClient \<Rightarrow> 'k TestClient" where
  "TestClient_SendPicked T pickedItem tc =
     (if pickedItem = 0 then count_sent (TestClient_SendPacket T Ping tc)
      else if pickedItem = 1 then
        let order = tc_order tc + 1;
            tc1 = tc\<lparr> tc_order := order, tc_orderList := tc_orderList tc @ [order] \<rparr>
        in count_sent (TestClient_SendPacket T (TestPacketReq order) tc1)
      else if pickedItem = 2 then
        let echoString = MakeRandomString T (tc_query tc);
            tc1 = tc\<lparr> tc_query := tc_query tc + 1, tc_echoStringSet := tc_echoStringSet tc + {#echoString#} \<rparr>
        in count_sent (TestClient_SendPacket T (TestStringPacketReq echoString) tc1)
      else tc)"

definition TestClient_SendAnyPacket :: "'k TestEnv \<Rightarrow> 'k TestClient \<Rightarrow> 'k TestClient" where
  "TestClient_SendAnyPacket T tc =
     TestClient_SendPicked T (te_rand T (tc_query tc) mod te_pickAblePacketSize T) (tc\<lparr> tc_query := tc_query tc + 1 \<rparr>)"

fun TestClient_SendAnyPacket_count :: "'k TestEnv \<Rightarrow> nat \<Rightarrow> 'k TestClient \<Rightarrow> 'k TestClient" where
  "TestClient_SendAnyPacket_count T 0 tc = tc"
| "TestClient_SendAnyPacket_count T (Suc sendCount) tc = TestClient_SendAnyPacket_count T sendCount (TestClient_SendAnyPacket T tc)"

definition test_crash :: "'k TestClient \<Rightarrow> 'k TestClient" where
  "test_crash tc = tc\<lparr> tc_crashed := True \<rparr>"

text \<open>\<open>ProcessPacketHandle\<close>: the buffer is read behind the id. \<open>erase\<close> of a value takes all its copies out of the multiset.\<close>

definition TestClient_ProcessPacketHandle :: "'k TestEnv \<Rightarrow> NetBuffer \<Rightarrow> PacketId \<Rightarrow> 'k TestClient \<Rightarrow> bool \<times> 'k TestClient" where
  "TestClient_ProcessPacketHandle T buffer packetId tc =
     (let E = te_client T in
      if \<not> cl_isConnected (tc_core tc) then (False, tc)
      else if packetId = PACKET_ID_value PONG then (True, TestClient_SendAnyPacket T tc)
      else if packetId = PACKET_ID_value TEST_PACKET_RES then
        let recvOrder = le_word (fst (nb_read (ce_api E) 4 buffer))
        in case tc_orderList tc of
             [] \<Rightarrow> (False, test_crash tc)
           | frontOrder # orders \<Rightarrow>
               if frontOrder \<noteq> recvOrder then (False, test_crash tc)
               else (True, TestClient_SendAnyPacket T (tc\<lparr> tc_orderList := orders \<rparr>))
      else if packetId = PACKET_ID_value TEST_STRING_PACKET_RES then
        let recvString = fst (nb_readString (ce_keys E) buffer)
        in if recvString \<notin># tc_echoStringSet tc then (False, test_crash tc)
           else (True, TestClient_SendAnyPacket T
                  (tc\<lparr> tc_echoStringSet := filter_mset (\<lambda>s. s \<noteq> recvString) (tc_echoStringSet tc) \<rparr>))
      else (False, tc))"

section \<open>TestClient.cpp\<close>

text \<open>A packet that was taken: its id is read, it is handled, and its buffer goes back to the pool.\<close>

definition test_handle :: "'k TestEnv \<Rightarrow> nat \<Rightarrow> 'k TestClient \<Rightarrow> 'k TestClient" where
  "test_handle T b tc =
     (case heap_get b (cl_buffers (tc_core tc)) of
        None \<Rightarrow> test_crash tc
      | Some buffer \<Rightarrow>
          let (bytes, buffer1) = nb_read (ce_api (te_client T)) 4 buffer;
              tc1 = snd (TestClient_ProcessPacketHandle T buffer1 (le_word bytes) tc);
              c = tc_core tc1
          in tc1\<lparr> tc_core := NetBuffer_Free b (c\<lparr> cl_application := remove1 b (cl_application c) \<rparr>) \<rparr>)"

definition test_take :: "'k TestClient \<Rightarrow> nat option \<times> 'k TestClient" where
  "test_take tc =
     (let (r, c) = Client_GetReceivedPacket (tc_core tc)
      in (r, tc\<lparr> tc_core := c\<lparr> cl_application := cl_application c @ (case r of None \<Rightarrow> [] | Some b \<Rightarrow> [b]) \<rparr> \<rparr>))"

text \<open>The inner loop of \<open>RunTestThread\<close>, one turn of the outer loop, and the packets it begins with.\<close>

fun test_packets :: "'k TestEnv \<Rightarrow> nat \<Rightarrow> 'k TestClient \<Rightarrow> 'k TestClient" where
  "test_packets T 0 tc = tc"
| "test_packets T (Suc remainPacketSize) tc =
     (case test_take tc of
        (None, tc1) \<Rightarrow> test_packets T remainPacketSize tc1
      | (Some b, tc1) \<Rightarrow> test_packets T remainPacketSize (test_handle T b tc1))"

definition TestClient_RunTestThread_turn :: "'k TestEnv \<Rightarrow> 'k TestClient \<Rightarrow> 'k TestClient" where
  "TestClient_RunTestThread_turn T tc =
     (if cl_isStopped (tc_core tc) then tc
      else test_packets T (min (unat (Client_GetRemainPacketSize (tc_core tc))) 100) tc)"

definition TestClient_RunTestThread_begin :: "'k TestEnv \<Rightarrow> 'k TestClient \<Rightarrow> 'k TestClient" where
  "TestClient_RunTestThread_begin T tc = TestClient_SendAnyPacket_count T 5 tc"

text \<open>\<open>WaitingConnectToServer\<close>: \<open>connected k\<close> is what \<open>IsConnected\<close> returns after \<open>k\<close> seconds.\<close>

function waiting_connect :: "(nat \<Rightarrow> bool) \<Rightarrow> nat \<Rightarrow> nat \<Rightarrow> bool" where
  "waiting_connect connected maximumConnectWaitingCount connectWaitingCount =
     (if connected connectWaitingCount then True
      else if connectWaitingCount + 1 \<ge> maximumConnectWaitingCount then False
      else waiting_connect connected maximumConnectWaitingCount (connectWaitingCount + 1))"
  by pat_completeness auto

termination
  by (relation "measure (\<lambda>(connected, maximum, count). maximum - count)") auto

declare waiting_connect.simps [simp del]

definition TestClient_WaitingConnectToServer :: "nat \<Rightarrow> (nat \<Rightarrow> bool) \<Rightarrow> bool" where
  "TestClient_WaitingConnectToServer maximumConnectWaitingCount connected = waiting_connect connected maximumConnectWaitingCount 0"

text \<open>\<open>Start\<close> up to the wait, and after it; the threads of the core run while it waits, so it goes on from the state they left.\<close>

definition TestClient_Start_core :: "'k TestEnv \<Rightarrow> 'k TestClient \<Rightarrow> bool \<times> 'k TestClient" where
  "TestClient_Start_core T tc = (let (ok, c) = Client_Start (te_client T) (tc_core tc) in (ok, tc\<lparr> tc_core := c \<rparr>))"

definition TestClient_Start_wait :: "(nat \<Rightarrow> bool) \<Rightarrow> 'k TestClient \<Rightarrow> bool \<times> 'k TestClient" where
  "TestClient_Start_wait connected tc =
     (if \<not> TestClient_WaitingConnectToServer 20 connected then (False, tc)
      else (True, tc\<lparr> tc_clientCount := tc_clientCount tc + 1 \<rparr>))"

definition TestClient_Stop :: "'k TestEnv \<Rightarrow> 'k TestClient \<Rightarrow> 'k TestClient" where
  "TestClient_Stop T tc = tc\<lparr> tc_core := Client_Stop (te_client T) (tc_core tc), tc_clientCount := tc_clientCount tc - 1 \<rparr>"

text \<open>The wait ends within its limit, with what was seen.\<close>

lemma waiting_connect_iff:
  "waiting_connect connected m k \<longleftrightarrow> (\<exists>j. k \<le> j \<and> (j = k \<or> j < m) \<and> connected j)"
proof (induction connected m k rule: waiting_connect.induct)
  case (1 connected m k)
  show ?case
  proof (cases "connected k")
    case False
    show ?thesis
    proof (cases "k + 1 \<ge> m")
      case True
      then have "j = k" if "k \<le> j" "j = k \<or> j < m" for j using that by linarith
      then show ?thesis using False True waiting_connect.simps [of connected m k] by metis
    next
      case False2: False
      with 1 [OF False] have "waiting_connect connected m (k + 1) \<longleftrightarrow> (\<exists>j. k + 1 \<le> j \<and> (j = k + 1 \<or> j < m) \<and> connected j)" by simp
      moreover have "(\<exists>j. k + 1 \<le> j \<and> (j = k + 1 \<or> j < m) \<and> connected j) \<longleftrightarrow> (\<exists>j. k \<le> j \<and> (j = k \<or> j < m) \<and> connected j)"
      proof (intro iffI; elim exE conjE)
        fix j assume "k + 1 \<le> j" "j = k + 1 \<or> j < m" "connected j"
        then have "k \<le> j \<and> (j = k \<or> j < m) \<and> connected j" using False2 by linarith
        then show "\<exists>j. k \<le> j \<and> (j = k \<or> j < m) \<and> connected j" ..
      next
        fix j assume j: "k \<le> j" "j = k \<or> j < m" "connected j"
        then have "j \<noteq> k" using False by auto
        with j have "k + 1 \<le> j \<and> (j = k + 1 \<or> j < m) \<and> connected j" by linarith
        then show "\<exists>j. k + 1 \<le> j \<and> (j = k + 1 \<or> j < m) \<and> connected j" ..
      qed
      ultimately show ?thesis using False False2 waiting_connect.simps [of connected m k] by simp
    qed
  qed (auto simp: waiting_connect.simps [of connected m k])
qed

corollary WaitingConnectToServer_iff: "TestClient_WaitingConnectToServer 20 connected \<longleftrightarrow> (\<exists>k < 20. connected k)"
proof -
  have "k = 0 \<or> k < 20 \<longleftrightarrow> k < 20" for k :: nat by linarith
  then show ?thesis by (simp add: TestClient_WaitingConnectToServer_def waiting_connect_iff)
qed

section \<open>A test thread is an application\<close>

lemma application_memory [simp]:
  "cl_application (client_enqueue b c) = cl_application c" "cl_application (client_encode E b q d core c) = cl_application c"
  "cl_application (Client_RegisterSendPacketInfo E b q c) = cl_application c"
  by (auto simp: client_enqueue_def client_encode_def Client_RegisterSendPacketInfo_def client_ask_def upd_buffers_def upd_infos_def
      buffer_op_defs client_fault_def Let_def split: option.split prod.split)

lemma Client_SendPacket_moves:
  "cl_isStopped (Client_SendPacket E packetId body c) = cl_isStopped c"
  "cl_application (Client_SendPacket E packetId body c) = cl_application c"
  "cl_lastSendPacketSequence (Client_SendPacket E packetId body c) \<in> {cl_lastSendPacketSequence c, cl_lastSendPacketSequence c + 1}"
proof -
  let ?S = "Client_SendPacket E packetId body c"
  have "life ?S = life c"
    using life_new_buffer by (auto simp: Client_SendPacket_def Let_def split: prod.split option.split)
  then show "cl_isStopped ?S = cl_isStopped c" by (simp add: life_def)
  show "cl_application ?S = cl_application c"
    by (auto simp: Client_SendPacket_def Client_SendPacket_buffer_def new_buffer_def upd_buffers_def Let_def split: prod.split option.split)
  have "cl_lastSendPacketSequence (Client_SendPacket_buffer E b q core d) = cl_lastSendPacketSequence d" for b q core d
    using marks_SendPacket_buffer [of E b q core d] by (simp add: marks_def)
  then show "cl_lastSendPacketSequence ?S \<in> {cl_lastSendPacketSequence c, cl_lastSendPacketSequence c + 1}"
    by (simp add: Client_SendPacket_def new_buffer_def upd_buffers_def Let_def split: option.split)
qed

text \<open>The core of a test client that has sent at most \<open>n\<close> more packets than \<open>c\<close>, reached from it by steps of the core.\<close>

definition core_run :: "'k ClientEnv \<Rightarrow> nat \<Rightarrow> 'k Client \<Rightarrow> 'k Client \<Rightarrow> bool" where
  "core_run E n c c' \<longleftrightarrow> (client_step E)\<^sup>*\<^sup>* c c' \<and> cl_isStopped c' = cl_isStopped c \<and>
     unat (cl_lastSendPacketSequence c') \<le> unat (cl_lastSendPacketSequence c) + n"

lemma core_run_refl [simp]: "core_run E n c c"
  by (simp add: core_run_def)

lemma core_run_trans: "core_run E n c d \<Longrightarrow> core_run E k d e \<Longrightarrow> core_run E (n + k) c e"
  by (auto simp: core_run_def)

lemma core_run_mono: "core_run E n c d \<Longrightarrow> n \<le> k \<Longrightarrow> core_run E k c d"
  by (auto simp: core_run_def)

lemma core_run_SendPacket:
  assumes "\<not> cl_isStopped c" "unat (cl_lastSendPacketSequence c) + 1 < 2 ^ 64"
  shows "core_run E 1 c (Client_SendPacket E packetId body c)"
proof -
  have "unat (- 1 :: PacketSequence) = 2 ^ 64 - 1" by (simp add: unsigned_minus_1_eq_mask mask_eq_exp_minus_1)
  then have "cl_lastSendPacketSequence c \<noteq> - 1" using assms(2) by (metis add.commute le_add_diff_inverse less_irrefl one_le_numeral one_le_power)
  moreover have "unat (cl_lastSendPacketSequence c + 1) = unat (cl_lastSendPacketSequence c) + 1"
    using assms(2) by (simp add: unat_word_ariths)
  ultimately show ?thesis
    using Client_SendPacket_moves(1,3) [of E packetId body c] client_send [OF assms(1)] unfolding core_run_def by auto
qed

lemma core_run_SendAnyPacket:
  assumes "\<not> cl_isStopped (tc_core tc)" "unat (cl_lastSendPacketSequence (tc_core tc)) + 1 < 2 ^ 64"
  shows "core_run (te_client T) 1 (tc_core tc) (tc_core (TestClient_SendAnyPacket T tc))"
  using core_run_SendPacket [OF assms]
  by (simp add: TestClient_SendAnyPacket_def TestClient_SendPicked_def TestClient_SendPacket_def count_sent_def Let_def)

lemma SendAnyPacket_application: "cl_application (tc_core (TestClient_SendAnyPacket T tc)) = cl_application (tc_core tc)"
  by (simp add: TestClient_SendAnyPacket_def TestClient_SendPicked_def TestClient_SendPacket_def count_sent_def
      Client_SendPacket_moves Let_def)

lemma core_run_ProcessPacketHandle:
  assumes "\<not> cl_isStopped (tc_core tc)" "unat (cl_lastSendPacketSequence (tc_core tc)) + 1 < 2 ^ 64"
  shows "core_run (te_client T) 1 (tc_core tc) (tc_core (snd (TestClient_ProcessPacketHandle T buffer packetId tc)))"
    "cl_application (tc_core (snd (TestClient_ProcessPacketHandle T buffer packetId tc))) = cl_application (tc_core tc)"
proof -
  have "snd (TestClient_ProcessPacketHandle T buffer packetId tc) \<in> {tc, test_crash tc, TestClient_SendAnyPacket T tc,
      TestClient_SendAnyPacket T (tc\<lparr> tc_orderList := tl (tc_orderList tc) \<rparr>),
      TestClient_SendAnyPacket T (tc\<lparr> tc_echoStringSet :=
        filter_mset (\<lambda>s. s \<noteq> fst (nb_readString (ce_keys (te_client T)) buffer)) (tc_echoStringSet tc) \<rparr>)}"
    by (simp add: TestClient_ProcessPacketHandle_def Let_def split: list.split)
  moreover have "core_run (te_client T) 1 (tc_core tc) (tc_core (TestClient_SendAnyPacket T tc1))"
    "cl_application (tc_core (TestClient_SendAnyPacket T tc1)) = cl_application (tc_core tc)" if "tc_core tc1 = tc_core tc" for tc1
    using core_run_SendAnyPacket [of tc1 T] SendAnyPacket_application [of T tc1] assms that by simp_all
  ultimately show "core_run (te_client T) 1 (tc_core tc) (tc_core (snd (TestClient_ProcessPacketHandle T buffer packetId tc)))"
    "cl_application (tc_core (snd (TestClient_ProcessPacketHandle T buffer packetId tc))) = cl_application (tc_core tc)"
    by (auto simp: test_crash_def)
qed

lemma core_run_take:
  assumes "test_take tc = (r, tc')"
  shows "core_run (te_client T) 0 (tc_core tc) (tc_core tc')" "\<And>b. r = Some b \<Longrightarrow> b \<in> set (cl_application (tc_core tc'))"
proof -
  obtain c where g: "Client_GetReceivedPacket (tc_core tc) = (r, c)"
    using assms by (auto simp: test_take_def split: prod.splits)
  have tc': "tc_core tc' = c\<lparr> cl_application := cl_application c @ (case r of None \<Rightarrow> [] | Some b \<Rightarrow> [b]) \<rparr>"
    using assms g by (auto simp: test_take_def)
  have "life d = life c0 \<and> cl_lastSendPacketSequence d = cl_lastSendPacketSequence c0"
    if "get_received q c0 = (x, d)" for q x and c0 d :: "'a Client"
    using that
  proof (induction q c0 rule: get_received.induct)
    case (2 h q c0)
    then show ?case by (auto simp: life_def Let_def buffer_op_defs upd_buffers_def split: if_splits)
  qed simp
  from this [OF g [unfolded Client_GetReceivedPacket_def]]
  have "cl_isStopped (tc_core tc') = cl_isStopped (tc_core tc) \<and>
      cl_lastSendPacketSequence (tc_core tc') = cl_lastSendPacketSequence (tc_core tc)"
    by (simp add: tc' life_def)
  moreover have "client_step (te_client T) (tc_core tc) (tc_core tc')" unfolding tc' by (rule client_take [OF g])
  ultimately show "core_run (te_client T) 0 (tc_core tc) (tc_core tc')" by (simp add: core_run_def)
  show "b \<in> set (cl_application (tc_core tc'))" if "r = Some b" for b using that by (simp add: tc')
qed

lemma core_run_handle:
  assumes "\<not> cl_isStopped (tc_core tc)" "unat (cl_lastSendPacketSequence (tc_core tc)) + 1 < 2 ^ 64" "b \<in> set (cl_application (tc_core tc))"
  shows "core_run (te_client T) 1 (tc_core tc) (tc_core (test_handle T b tc))"
proof (cases "heap_get b (cl_buffers (tc_core tc))")
  case None
  then show ?thesis by (simp add: test_handle_def test_crash_def)
next
  case (Some buffer)
  obtain bytes buffer1 where r: "nb_read (ce_api (te_client T)) 4 buffer = (bytes, buffer1)"
    by (cases "nb_read (ce_api (te_client T)) 4 buffer")
  note p = core_run_ProcessPacketHandle [OF assms(1,2), of T buffer1 "le_word bytes"]
  let ?c = "tc_core (snd (TestClient_ProcessPacketHandle T buffer1 (le_word bytes) tc))"
  obtain xs ys where x: "cl_application ?c = xs @ b # ys" "b \<notin> set xs"
    using assms(3) p(2) by (metis split_list_first)
  then have "remove1 b (cl_application ?c) = xs @ ys" by (simp add: remove1_append)
  moreover have "core_run (te_client T) 0 ?c (NetBuffer_Free b (?c\<lparr> cl_application := xs @ ys \<rparr>))"
    unfolding core_run_def using client_free [OF x(1)] by (auto simp: buffer_op_defs)
  ultimately show ?thesis using core_run_trans [OF p(1)] Some r by (fastforce simp: test_handle_def Let_def)
qed

text \<open>The inner loop is a run of the core, so what holds of every application of the core holds while the test runs.\<close>

lemma core_run_packets:
  assumes "\<not> cl_isStopped (tc_core tc)" "unat (cl_lastSendPacketSequence (tc_core tc)) + k < 2 ^ 64"
  shows "core_run (te_client T) k (tc_core tc) (tc_core (test_packets T k tc))"
  using assms
proof (induction k arbitrary: tc)
  case (Suc k)
  obtain r tc1 where t: "test_take tc = (r, tc1)" by (cases "test_take tc")
  note 1 = core_run_take(1) [OF t, of T]
  have s1: "\<not> cl_isStopped (tc_core tc1)" "unat (cl_lastSendPacketSequence (tc_core tc1)) \<le> unat (cl_lastSendPacketSequence (tc_core tc))"
    using 1 Suc.prems by (simp_all add: core_run_def)
  show ?case
  proof (cases r)
    case None
    have "core_run (te_client T) k (tc_core tc1) (tc_core (test_packets T k tc1))" using Suc.IH [of tc1] s1 Suc.prems(2) by simp
    from core_run_mono [OF core_run_trans [OF 1 this], of "Suc k"] show ?thesis using t None by simp
  next
    case (Some b)
    let ?tc2 = "test_handle T b tc1"
    have 2: "core_run (te_client T) 1 (tc_core tc1) (tc_core ?tc2)"
      using core_run_handle [OF s1(1) _ core_run_take(2) [OF t Some]] s1(2) Suc.prems(2) by simp
    have "core_run (te_client T) k (tc_core ?tc2) (tc_core (test_packets T k ?tc2))"
      using Suc.IH [of ?tc2] 2 s1 Suc.prems(2) by (simp add: core_run_def)
    from core_run_trans [OF 1 core_run_trans [OF 2 this]] show ?thesis using t Some by simp
  qed
qed simp

section \<open>The test client and the example server agree\<close>

text \<open>The request a case of the switch sends.\<close>

definition picked_request :: "'k TestEnv \<Rightarrow> nat \<Rightarrow> 'k TestClient \<Rightarrow> Packet list" where
  "picked_request T pickedItem tc =
     (if pickedItem = 0 then [Ping]
      else if pickedItem = 1 then [TestPacketReq (tc_order tc + 1)]
      else if pickedItem = 2 then [TestStringPacketReq (MakeRandomString T (tc_query tc))]
      else [])"

definition any_request :: "'k TestEnv \<Rightarrow> 'k TestClient \<Rightarrow> Packet list" where
  "any_request T tc = picked_request T (te_rand T (tc_query tc) mod te_pickAblePacketSize T) (tc\<lparr> tc_query := tc_query tc + 1 \<rparr>)"

fun request_order :: "Packet \<Rightarrow> 32 word list" where
  "request_order (TestPacketReq order) = [order]"
| "request_order _ = []"

fun request_string :: "Packet \<Rightarrow> byte list list" where
  "request_string (TestStringPacketReq s) = [s]"
| "request_string _ = []"

text \<open>What the client remembers are exactly the requests that are not answered yet.\<close>

definition awaits :: "Packet list \<Rightarrow> 'k TestClient \<Rightarrow> bool" where
  "awaits requests tc \<longleftrightarrow> \<not> tc_crashed tc \<and> tc_orderList tc = concat (map request_order requests) \<and>
     tc_echoStringSet tc = mset (concat (map request_string requests)) \<and> set requests \<subseteq> {p. answer p \<noteq> None}"

lemma awaits_core [simp]: "awaits requests (tc\<lparr> tc_core := c \<rparr>) = awaits requests tc"
  by (simp add: awaits_def)

lemma SendPicked_awaits:
  assumes "awaits requests tc"
  shows "awaits (requests @ picked_request T pickedItem tc) (TestClient_SendPicked T pickedItem tc)"
  using assms
  by (simp add: awaits_def TestClient_SendPicked_def picked_request_def TestClient_SendPacket_def count_sent_def Let_def)

lemma SendAnyPacket_awaits:
  assumes "awaits requests tc"
  shows "awaits (requests @ any_request T tc) (TestClient_SendAnyPacket T tc)"
proof -
  have "awaits requests (tc\<lparr> tc_query := tc_query tc + 1 \<rparr>)" using assms by (simp add: awaits_def)
  then show ?thesis unfolding any_request_def TestClient_SendAnyPacket_def by (rule SendPicked_awaits)
qed

lemma any_request_same:
  "any_request T (tc\<lparr> tc_orderList := os \<rparr>) = any_request T tc" "any_request T (tc\<lparr> tc_echoStringSet := ss \<rparr>) = any_request T tc"
  by (simp_all add: any_request_def picked_request_def)

text \<open>The answer to the oldest request is accepted, and the next request is sent.\<close>

lemma ProcessPacketHandle_awaits:
  assumes "awaits (request # requests) tc" "answer request = Some response" "cl_isConnected (tc_core tc)"
    and "netbuffer_laws (ce_api (te_client T))" "string_laws (ce_api (te_client T)) (ce_keys (te_client T))"
    and "holds buffer (parameter_bytes response)" "distinct (concat (map request_string (request # requests)))"
  shows "\<exists>tc'. TestClient_ProcessPacketHandle T buffer (Packet_GetPacketId response) tc = (True, tc') \<and>
    awaits (requests @ any_request T tc) tc'"
proof -
  let ?E = "te_client T"
  have read: "Packet_BufferToPacket (ce_api ?E) (ce_keys ?E) response buffer = response"
    using BufferToPacket_holds [OF _ assms(5,6)] assms(4) by (simp add: netbuffer_laws_def)
  note any = SendAnyPacket_awaits [of requests _ T]
  show ?thesis
  proof (cases request)
    case Ping
    then have "awaits requests tc" using assms(1) by (simp add: awaits_def)
    then show ?thesis using any assms(2,3) Ping by (auto simp: TestClient_ProcessPacketHandle_def Packet_GetPacketId_def)
  next
    case (TestPacketReq order)
    let ?tc = "tc\<lparr> tc_orderList := concat (map request_order requests) \<rparr>"
    have "awaits requests ?tc" "tc_orderList tc = order # tc_orderList ?tc" using assms(1) TestPacketReq by (simp_all add: awaits_def)
    then show ?thesis using any [of ?tc] assms(2,3) read TestPacketReq
      by (auto simp: TestClient_ProcessPacketHandle_def Packet_GetPacketId_def any_request_same)
  next
    case (TestStringPacketReq s)
    let ?rest = "concat (map request_string requests)"
    let ?tc = "tc\<lparr> tc_echoStringSet := mset ?rest \<rparr>"
    have s: "s \<notin> set ?rest" "tc_echoStringSet tc = add_mset s (mset ?rest)"
      using assms(1,7) TestStringPacketReq by (simp_all add: awaits_def)
    then have "filter_mset (\<lambda>x. x \<noteq> s) (tc_echoStringSet tc) = mset ?rest" by (auto simp: filter_mset_eq_conv)
    moreover have "awaits requests ?tc" using assms(1) TestStringPacketReq by (simp add: awaits_def)
    ultimately show ?thesis using any [of ?tc] assms(2,3) read TestStringPacketReq s(2)
      by (auto simp: TestClient_ProcessPacketHandle_def Packet_GetPacketId_def any_request_same)
  qed (use assms(2) in auto)
qed

lemma test_handle_awaits:
  assumes "awaits (request # requests) tc" "answer request = Some response" "cl_isConnected (tc_core tc)"
    and "netbuffer_laws (ce_api (te_client T))" "string_laws (ce_api (te_client T)) (ce_keys (te_client T))"
    and "heap_get b (cl_buffers (tc_core tc)) = Some buffer" "holds buffer (message_bytes response)"
    and "distinct (concat (map request_string (request # requests)))"
  shows "awaits (requests @ any_request T tc) (test_handle T b tc)"
proof -
  have "read_law (ce_api (te_client T))" using assms(4) by (simp add: netbuffer_laws_def)
  from read_id_holds [OF this assms(7)] obtain buffer1 where r:
    "nb_read (ce_api (te_client T)) 4 buffer = (le_bytes 4 (Packet_GetPacketId response), buffer1)"
    "holds buffer1 (parameter_bytes response)" by blast
  obtain tc' where "TestClient_ProcessPacketHandle T buffer1 (Packet_GetPacketId response) tc = (True, tc')"
    "awaits (requests @ any_request T tc) tc'"
    using ProcessPacketHandle_awaits [OF assms(1-5) r(2) assms(8)] by blast
  then show ?thesis using assms(6) r(1) by (simp add: test_handle_def le_word_le_bytes Let_def)
qed

text \<open>Two requests with the same string: the answer to the first forgets both, and the second answer ends the process.\<close>

lemma same_string_crashes:
  assumes "awaits [TestStringPacketReq s, TestStringPacketReq s] tc" "cl_isConnected (tc_core tc)"
    and "fst (nb_readString (ce_keys (te_client T)) buffer) = s"
    and "TestClient_ProcessPacketHandle T buffer (PACKET_ID_value TEST_STRING_PACKET_RES) tc = (ok, tc')"
    and "cl_isConnected (tc_core tc')" "\<And>q. te_rand T q mod te_pickAblePacketSize T = 0"
  shows "tc_crashed (snd (TestClient_ProcessPacketHandle T buffer (PACKET_ID_value TEST_STRING_PACKET_RES) tc'))"
proof -
  have "tc_echoStringSet tc = {#s, s#}" using assms(1) by (simp add: awaits_def)
  then have "tc_echoStringSet tc' = {#}"
    using assms(2-4,6) by (auto simp: TestClient_ProcessPacketHandle_def TestClient_SendAnyPacket_def TestClient_SendPicked_def
        TestClient_SendPacket_def count_sent_def Let_def)
  then show ?thesis using assms(3,5) by (simp add: TestClient_ProcessPacketHandle_def test_crash_def Let_def)
qed

text \<open>An answer the server encoded and sent lies in a buffer of the client, ready for the test thread.\<close>

lemma sent_answer_is_held:
  assumes "client_ok c" "client_alloc_law E" "client_copy_law E" "netbuffer_laws (ce_api E)" "bcrypt_laws (ce_bcrypt E)"
    and "string_laws (ce_api E) (ce_keys E)" "filled (nb_Alloc (ce_api E)) []"
    and "34 + length (parameter_bytes packet) \<le> length (m_pSerializeBuffer (nb_Alloc (ce_api E)))"
    and "34 + length (parameter_bytes packet) \<le> ce_dfDEFAULTSIZE E"
    and "EncodePacket (ce_api E) (ce_bcrypt E) q SERVER_TO_CLIENT (Some salt) (Some k) False (packet_buffer (ce_api E) (ce_keys E) q packet) = Some e"
    and "m_bIsEncoded e" "si_sessionSalt (cl_session c) = salt" "length salt = 16" "si_sessionKeyHandle (cl_session c) = Some k"
    and "carries e recvBuffer"
  shows "\<exists>b r. cl_recvPacketHoldingQueue (Client_OnRecvStream E recvBuffer (int (unat (m_iWriteLast e))) c) =
      insort_key ri_packetSequence \<lparr> ri_buffer = b, ri_packetSequence = q, ri_packetType = SEND_TYPE \<rparr> (cl_recvPacketHoldingQueue c) \<and>
    heap_get b (cl_buffers (Client_OnRecvStream E recvBuffer (int (unat (m_iWriteLast e))) c)) = Some r \<and> holds r (message_bytes packet)"
proof -
  let ?api = "ce_api E" and ?p = "packet_buffer (ce_api E) (ce_keys E) q packet" and ?n = "length (parameter_bytes packet)"
  have wl: "write_law ?api" using assms(4) by (simp add: netbuffer_laws_def)
  have alloc: "length (m_pSerializeBuffer (nb_Alloc ?api)) < 65536" "m_iWrite (nb_Alloc ?api) = 5"
    using assms(7) by (simp_all add: filled_def written_def word_unat_eq_iff)
  have n: "18 + ?n \<le> length (m_pSerializeBuffer (nb_Alloc ?api))" using assms(8) by simp
  note p = packet_buffer_filled [OF wl assms(6,7) n, of q]
  note s = packet_buffer_slices [OF p(1) assms(8) [folded p(2)]]
  have w: "unat (m_iWriteLast e) = 34 + ?n"
    using encoded_length(2) [OF assms(4,5) s(1) assms(13,10,11)] s(3) by simp
  obtain b r where r: "cl_recvPacketHoldingQueue (Client_OnRecvStream E recvBuffer (int (unat (m_iWriteLast e))) c) =
      insort_key ri_packetSequence \<lparr> ri_buffer = b, ri_packetSequence = q, ri_packetType = SEND_TYPE \<rparr> (cl_recvPacketHoldingQueue c)"
    "heap_get b (cl_buffers (Client_OnRecvStream E recvBuffer (int (unat (m_iWriteLast e))) c)) = Some r" "m_iRead r = 14"
    "length (m_pSerializeBuffer r) = length (m_pSerializeBuffer (nb_Alloc ?api))"
    "slice 14 (unat (m_iWrite ?p) - 14) (m_pSerializeBuffer r) = slice 14 (unat (m_iWrite ?p) - 14) (m_pSerializeBuffer ?p)"
    using server_packet_held [OF assms(1-5) s(1,2) assms(10,11,12,13,14,15) alloc(2) _ alloc(1)] w assms(8,9) by auto
  have "holds r (message_bytes packet)"
    using r(3-5) s(3,4) alloc(1) assms(8) by (simp add: holds_def message_bytes_def)
  with r(1,2) show ?thesis by blast
qed

text \<open>A run of the test: the client sends requests, its core moves on, and the answers arrive in the order of the requests, one for each, with the
  strings under way all different.\<close>

inductive echo_test :: "'k TestEnv \<Rightarrow> Packet list \<Rightarrow> 'k TestClient \<Rightarrow> bool" for T where
  echo_begin: "tc_orderList tc = [] \<Longrightarrow> tc_echoStringSet tc = {#} \<Longrightarrow> \<not> tc_crashed tc \<Longrightarrow> echo_test T [] tc"
| echo_core: "echo_test T requests tc \<Longrightarrow> echo_test T requests (tc\<lparr> tc_core := c \<rparr>)"
| echo_send: "echo_test T requests tc \<Longrightarrow> echo_test T (requests @ any_request T tc) (TestClient_SendAnyPacket T tc)"
| echo_answer: "echo_test T (request # requests) tc \<Longrightarrow> answer request = Some response \<Longrightarrow> cl_isConnected (tc_core tc) \<Longrightarrow>
     heap_get b (cl_buffers (tc_core tc)) = Some buffer \<Longrightarrow> holds buffer (message_bytes response) \<Longrightarrow>
     distinct (concat (map request_string (request # requests))) \<Longrightarrow>
     echo_test T (requests @ any_request T tc) (test_handle T b tc)"

text \<open>C30: The test client and the server of the example agree: as long as the answers are those of the server, in the order of the requests (which
  the delivery properties of the server and the client give), and no string is under way twice, the client never ends the process; what it
  remembers are exactly the orders and strings that are not answered yet.\<close>

theorem echo_test_never_crashes:
  assumes "echo_test T requests tc" "netbuffer_laws (ce_api (te_client T))" "string_laws (ce_api (te_client T)) (ce_keys (te_client T))"
  shows "\<not> tc_crashed tc \<and> tc_orderList tc = concat (map request_order requests) \<and>
    tc_echoStringSet tc = mset (concat (map request_string requests))"
proof -
  have "awaits requests tc"
    using assms(1)
  proof (induction rule: echo_test.induct)
    case (echo_answer request requests tc response b buffer)
    show ?case by (rule test_handle_awaits [OF echo_answer(7,2,3) assms(2,3) echo_answer(4-6)])
  next
    case (echo_send requests tc)
    show ?case by (rule SendAnyPacket_awaits [OF echo_send(2)])
  qed (simp_all add: awaits_def)
  then show ?thesis by (simp add: awaits_def)
qed

text \<open>The server answers the first order, and the client sends the second.\<close>

definition sample_test :: "unit TestEnv" where
  "sample_test = \<lparr> te_client = sample_client_env, te_pickAblePacketSize = 2, te_rand = (\<lambda>_. 1), te_size = (\<lambda>_. 10), te_dist = (\<lambda>_ _. 0) \<rparr>"

lemma sample_test_random: "random_law sample_test"
  by (simp add: random_law_def sample_test_def MAX_RANDOM_STRING_SIZE_def)

definition sample_answer :: NetBuffer where
  "sample_answer = \<lparr> m_pSerializeBuffer = replicate 14 0 @ [6, 0, 0, 0, 1, 0, 0, 0] @ replicate 42 0,
     m_iRead = 14, m_iWrite = 22, m_iWriteLast = 0, m_bIsEncoded = False \<rparr>"

theorem echo_test_never_crashes_witness:
  "\<exists>tc. echo_test sample_test [TestPacketReq 2] tc \<and> \<not> tc_crashed tc \<and> tc_orderList tc = [2]"
proof -
  let ?T = sample_test and ?c = "client_new 0 blank_info"
  let ?tc0 = "\<lparr> tc_core = ?c, tc_order = 0, tc_orderList = [], tc_echoStringSet = {#}, tc_packetSendCount = 0, tc_clientCount = 1,
    tc_query = 0, tc_crashed = False \<rparr>"
  let ?tc1 = "TestClient_SendAnyPacket ?T ?tc0"
  let ?tc2 = "?tc1\<lparr> tc_core := upd_buffers (heap_new 3 sample_answer) (?c\<lparr> cl_isConnected := True \<rparr>) \<rparr>"
  have laws: "netbuffer_laws (ce_api (te_client ?T))" "string_laws (ce_api (te_client ?T)) (ce_keys (te_client ?T))"
    using documented_api_laws documented_keys_laws by (simp_all add: sample_test_def sample_client_env_def)
  have "echo_test ?T [] ?tc0" by (rule echo_begin) simp_all
  from echo_core [OF echo_send [OF this]] have two: "echo_test ?T [TestPacketReq 1] ?tc2"
    by (simp add: any_request_def picked_request_def sample_test_def)
  have next_request: "any_request ?T ?tc2 = [TestPacketReq 2]"
    by (simp add: any_request_def picked_request_def sample_test_def TestClient_SendAnyPacket_def TestClient_SendPicked_def
        TestClient_SendPacket_def count_sent_def Let_def)
  have "echo_test ?T ([] @ any_request ?T ?tc2) (test_handle ?T 3 ?tc2)"
  proof (rule echo_answer [OF two])
    show "answer (TestPacketReq 1) = Some (TestPacketRes 1)" by simp
    show "heap_get 3 (cl_buffers (tc_core ?tc2)) = Some sample_answer" by (simp add: upd_buffers_def heap_get_def heap_new_def)
    show "holds sample_answer (message_bytes (TestPacketRes 1))"
      by (simp add: holds_def message_bytes_def Packet_GetPacketId_def sample_answer_def slice_def le_bytes_def upt_rec)
  qed (simp_all add: upd_buffers_def)
  then have run: "echo_test ?T [TestPacketReq 2] (test_handle ?T 3 ?tc2)" by (simp add: next_request)
  show ?thesis using echo_test_never_crashes [OF run laws] run by auto
qed

end
