(* ===== verification/Player_Manager.thy ===== *)
theory Player_Manager
  imports Prelude
begin

text \<open>
  ContentsServer/PlayerManager: the players by their id and by the id of their session. A player is an object of the content with an
  address; its ids are read when a function is called, so they are an argument (\<open>player\<close>). Each map has a lock of its own.
\<close>

type_synonym PlayerIdType = "64 word"

definition InvalidPlayerId :: PlayerIdType where
  "InvalidPlayerId = 0"

record PlayerIds =
  pl_sessionId :: SessionIdType
  pl_playerId :: PlayerIdType

record PlayerManager =
  pm_playerMap :: "PlayerIdType \<rightharpoonup> nat"
  pm_sessionIdToPlayerMap :: "SessionIdType \<rightharpoonup> nat"

text \<open>\<open>insert\<close> keeps the entry a key has.\<close>

definition insert_new :: "'a \<Rightarrow> 'b \<Rightarrow> ('a \<rightharpoonup> 'b) \<Rightarrow> ('a \<rightharpoonup> 'b)" where
  "insert_new k v t = (if t k = None then t(k \<mapsto> v) else t)"

definition PlayerManager_AddPlayer :: "(nat \<Rightarrow> PlayerIds) \<Rightarrow> PlayerIdType \<Rightarrow> nat \<Rightarrow> PlayerManager \<Rightarrow> PlayerManager" where
  "PlayerManager_AddPlayer player playerId a pm =
     \<lparr> pm_playerMap = insert_new playerId a (pm_playerMap pm),
       pm_sessionIdToPlayerMap = insert_new (pl_sessionId (player a)) a (pm_sessionIdToPlayerMap pm) \<rparr>"

definition erase_ids :: "PlayerIdType \<Rightarrow> SessionIdType \<Rightarrow> PlayerManager \<Rightarrow> PlayerManager" where
  "erase_ids playerId sessionId pm =
     \<lparr> pm_playerMap = (if playerId \<noteq> InvalidPlayerId then (pm_playerMap pm)(playerId := None) else pm_playerMap pm),
       pm_sessionIdToPlayerMap =
         (if sessionId \<noteq> INVALID_SESSION_ID then (pm_sessionIdToPlayerMap pm)(sessionId := None)
          else pm_sessionIdToPlayerMap pm) \<rparr>"

definition PlayerManager_ErasePlayer :: "(nat \<Rightarrow> PlayerIds) \<Rightarrow> PlayerIdType \<Rightarrow> PlayerManager \<Rightarrow> PlayerManager" where
  "PlayerManager_ErasePlayer player playerId pm =
     (case pm_playerMap pm playerId of None \<Rightarrow> pm | Some a \<Rightarrow> erase_ids playerId (pl_sessionId (player a)) pm)"

definition PlayerManager_ErasePlayerBySessionId :: "(nat \<Rightarrow> PlayerIds) \<Rightarrow> SessionIdType \<Rightarrow> PlayerManager \<Rightarrow> PlayerManager" where
  "PlayerManager_ErasePlayerBySessionId player sessionId pm =
     (case pm_sessionIdToPlayerMap pm sessionId of None \<Rightarrow> pm | Some a \<Rightarrow> erase_ids (pl_playerId (player a)) sessionId pm)"

definition PlayerManager_FindPlayer :: "PlayerIdType \<Rightarrow> PlayerManager \<Rightarrow> nat option" where
  "PlayerManager_FindPlayer playerId pm = pm_playerMap pm playerId"

definition PlayerManager_FindPlayerBySessionId :: "SessionIdType \<Rightarrow> PlayerManager \<Rightarrow> nat option" where
  "PlayerManager_FindPlayerBySessionId sessionId pm = pm_sessionIdToPlayerMap pm sessionId"

section \<open>The manager is a set of players\<close>

text \<open>Both maps hold the players of a set, each under its own valid ids.\<close>

definition manages :: "(nat \<Rightarrow> PlayerIds) \<Rightarrow> nat set \<Rightarrow> PlayerManager \<Rightarrow> bool" where
  "manages player M pm \<longleftrightarrow>
     (\<forall>playerId a. pm_playerMap pm playerId = Some a \<longleftrightarrow> a \<in> M \<and> pl_playerId (player a) = playerId) \<and>
     (\<forall>sessionId a. pm_sessionIdToPlayerMap pm sessionId = Some a \<longleftrightarrow> a \<in> M \<and> pl_sessionId (player a) = sessionId) \<and>
     (\<forall>a \<in> M. pl_playerId (player a) \<noteq> InvalidPlayerId \<and> pl_sessionId (player a) \<noteq> INVALID_SESSION_ID)"

lemma manages_empty: "manages player {} \<lparr> pm_playerMap = Map.empty, pm_sessionIdToPlayerMap = Map.empty \<rparr>"
  by (simp add: manages_def)

lemma manages_find:
  assumes "manages player M pm"
  shows "PlayerManager_FindPlayer playerId pm = Some a \<longleftrightarrow> a \<in> M \<and> pl_playerId (player a) = playerId"
    "PlayerManager_FindPlayerBySessionId sessionId pm = Some a \<longleftrightarrow> a \<in> M \<and> pl_sessionId (player a) = sessionId"
  using assms by (simp_all add: manages_def PlayerManager_FindPlayer_def PlayerManager_FindPlayerBySessionId_def)

text \<open>A player with valid ids nobody has joins the set.\<close>

lemma manages_AddPlayer:
  assumes "manages player M pm" "pl_playerId (player a) \<noteq> InvalidPlayerId" "pl_sessionId (player a) \<noteq> INVALID_SESSION_ID"
    "\<And>b. b \<in> M \<Longrightarrow> pl_playerId (player b) \<noteq> pl_playerId (player a) \<and> pl_sessionId (player b) \<noteq> pl_sessionId (player a)"
  shows "manages player (insert a M) (PlayerManager_AddPlayer player (pl_playerId (player a)) a pm)"
proof -
  have "pm_playerMap pm (pl_playerId (player a)) = None" "pm_sessionIdToPlayerMap pm (pl_sessionId (player a)) = None"
    using assms(1,4) by (metis (lifting) manages_def option.exhaust)+
  then show ?thesis
    using assms(1-4) by (auto simp: manages_def PlayerManager_AddPlayer_def insert_new_def)
qed

text \<open>Each id names one player. Erasing a player by either id takes it out of the set; an id nobody has changes nothing.\<close>

lemma manages_inj:
  assumes "manages player M pm" "a \<in> M" "b \<in> M"
  shows "pl_playerId (player b) = pl_playerId (player a) \<Longrightarrow> b = a" "pl_sessionId (player b) = pl_sessionId (player a) \<Longrightarrow> b = a"
  using manages_find [OF assms(1), of _ a] manages_find [OF assms(1), of _ b] assms(2,3) by (metis option.inject)+

lemma manages_erase_ids:
  assumes "manages player M pm" "a \<in> M"
  shows "manages player (M - {a}) (erase_ids (pl_playerId (player a)) (pl_sessionId (player a)) pm)"
proof -
  note m = assms(1) [unfolded manages_def]
  show ?thesis using m assms(2) manages_inj [OF assms] by (auto simp: manages_def erase_ids_def)
qed

lemma manages_ErasePlayer:
  assumes "manages player M pm"
  shows "manages player {a \<in> M. pl_playerId (player a) \<noteq> playerId} (PlayerManager_ErasePlayer player playerId pm)"
    "manages player {a \<in> M. pl_sessionId (player a) \<noteq> sessionId} (PlayerManager_ErasePlayerBySessionId player sessionId pm)"
proof -
  note find = manages_find [OF assms, unfolded PlayerManager_FindPlayer_def PlayerManager_FindPlayerBySessionId_def]
  have one: "{b \<in> M. pl_playerId (player b) \<noteq> pl_playerId (player a)} = M - {a}"
    "{b \<in> M. pl_sessionId (player b) \<noteq> pl_sessionId (player a)} = M - {a}" if "a \<in> M" for a
    using manages_inj [OF assms that] by auto
  show "manages player {a \<in> M. pl_playerId (player a) \<noteq> playerId} (PlayerManager_ErasePlayer player playerId pm)"
  proof (cases "pm_playerMap pm playerId")
    case None
    then have "\<not> (a \<in> M \<and> pl_playerId (player a) = playerId)" for a using find(1) [of playerId a] by simp
    then have "{a \<in> M. pl_playerId (player a) \<noteq> playerId} = M" by blast
    with assms None show ?thesis by (simp add: PlayerManager_ErasePlayer_def)
  next
    case (Some a)
    then have a: "a \<in> M" "pl_playerId (player a) = playerId" using find(1) [of playerId a] by simp_all
    show ?thesis
      using manages_erase_ids [OF assms a(1)] one(1) [OF a(1)] Some a(2) by (simp add: PlayerManager_ErasePlayer_def)
  qed
  show "manages player {a \<in> M. pl_sessionId (player a) \<noteq> sessionId} (PlayerManager_ErasePlayerBySessionId player sessionId pm)"
  proof (cases "pm_sessionIdToPlayerMap pm sessionId")
    case None
    then have "\<not> (a \<in> M \<and> pl_sessionId (player a) = sessionId)" for a using find(2) [of sessionId a] by simp
    then have "{a \<in> M. pl_sessionId (player a) \<noteq> sessionId} = M" by blast
    with assms None show ?thesis by (simp add: PlayerManager_ErasePlayerBySessionId_def)
  next
    case (Some a)
    then have a: "a \<in> M" "pl_sessionId (player a) = sessionId" using find(2) [of sessionId a] by simp_all
    show ?thesis
      using manages_erase_ids [OF assms a(1)] one(2) [OF a(1)] Some a(2) by (simp add: PlayerManager_ErasePlayerBySessionId_def)
  qed
qed

end
